(* ===== verification/Prelude.thy ===== *)
theory Prelude
  imports Main "HOL-Library.AList" "HOL-Library.Sublist" "HOL-Library.List_Lexorder" "HOL-Library.Char_ord"
begin

text \<open>
  What the components share: the JavaScript containers and string operations the source uses of its
  language, as executable definitions, with the lemmas that carry the component proofs.

  A JavaScript \<^verbatim>\<open>Map\<close> iterates in insertion order and keeps a key's place when its value is
  replaced, so it is an association list; \<^verbatim>\<open>map.get\<close> is \<open>map_of\<close>, \<^verbatim>\<open>map.set\<close> is \<open>jset\<close>
  and \<^verbatim>\<open>map.delete\<close> is \<open>jdel\<close>. A JavaScript \<^verbatim>\<open>Set\<close> is the list of its elements in
  insertion order: \<^verbatim>\<open>set.add\<close> is \<open>jadd\<close> and \<^verbatim>\<open>[...new Set(xs)]\<close> is \<open>uniq xs\<close>. The locale
  \<open>js_map\<close> states what the components rely on of a map; it is interpreted on the association lists.
  \<^verbatim>\<open>strings.sort()\<close> is \<open>sort\<close>, in the order of the code units, which is the lexicographic one.
  A JavaScript string is a \<open>string\<close>, whose characters stand for the code units 0 to 255.
\<close>

section \<open>Collections of hints\<close>

named_theorems inv_intro \<open>introduction rules for the invariants of the components\<close>
named_theorems js_map_simps \<open>equations for the JavaScript map operations\<close>
named_theorems js_set_simps \<open>equations for the JavaScript set operations\<close>

section \<open>JavaScript maps\<close>

type_synonym ('k, 'v) jsmap = "('k \<times> 'v) list"

definition jset :: "'k \<Rightarrow> 'v \<Rightarrow> ('k, 'v) jsmap \<Rightarrow> ('k, 'v) jsmap" where
  "jset k v m = AList.update k v m"

definition jdel :: "'k \<Rightarrow> ('k, 'v) jsmap \<Rightarrow> ('k, 'v) jsmap" where
  "jdel k m = filter (\<lambda>p. fst p \<noteq> k) m"

definition keys :: "('k, 'v) jsmap \<Rightarrow> 'k list" where
  "keys m = map fst m"

definition jhas :: "('k, 'v) jsmap \<Rightarrow> 'k \<Rightarrow> bool" where
  "jhas m k = (map_of m k \<noteq> None)"

text \<open>\<^verbatim>\<open>new Map(pairs)\<close>: a later pair of the same key replaces the value in place.\<close>

definition jmap_of :: "('k \<times> 'v) list \<Rightarrow> ('k, 'v) jsmap" where
  "jmap_of ps = fold (\<lambda>(k, v) m. jset k v m) ps []"

abbreviation wf_map :: "('k, 'v) jsmap \<Rightarrow> bool" where
  "wf_map m \<equiv> distinct (keys m)"

lemma map_of_jset [simp, js_map_simps]: "map_of (jset k v m) = (map_of m)(k \<mapsto> v)"
  by (simp add: jset_def update_conv')

lemma map_of_jdel [simp, js_map_simps]: "map_of (jdel k m) = (map_of m)(k := None)"
  by (induction m) (auto simp: jdel_def fun_eq_iff)

lemma set_keys: "set (keys m) = dom (map_of m)"
  by (simp add: keys_def dom_map_of_conv_image_fst)

lemma in_keys_iff [js_map_simps]: "k \<in> set (keys m) \<longleftrightarrow> map_of m k \<noteq> None"
  by (auto simp: set_keys)

lemma jhas_iff [simp]: "jhas m k \<longleftrightarrow> k \<in> set (keys m)"
  by (simp add: jhas_def in_keys_iff)

lemma keys_jset [js_map_simps]:
  "keys (jset k v m) = (if k \<in> set (keys m) then keys m else keys m @ [k])"
  by (simp add: keys_def jset_def update_keys)

lemma keys_jdel [js_map_simps]: "keys (jdel k m) = filter (\<lambda>x. x \<noteq> k) (keys m)"
  by (induction m) (auto simp: keys_def jdel_def)

lemma keys_simps [simp]: "keys [] = []" "keys (p # m) = fst p # keys m"
  by (simp_all add: keys_def)

lemma keys_append [simp]: "keys (m @ n) = keys m @ keys n"
  by (simp add: keys_def)

lemma wf_map_jset [simp, inv_intro]: "wf_map m \<Longrightarrow> wf_map (jset k v m)"
  by (auto simp: keys_jset)

lemma wf_map_jdel [simp, inv_intro]: "wf_map m \<Longrightarrow> wf_map (jdel k m)"
  by (simp add: keys_jdel)

lemma keys_filter: "keys (filter P m) = map fst (filter P m)"
  by (simp add: keys_def)

lemma wf_map_filter [simp, inv_intro]: "wf_map m \<Longrightarrow> wf_map (filter P m)"
  by (induction m) (auto simp: keys_def)

lemma map_of_eq_Some_mem: "wf_map m \<Longrightarrow> map_of m k = Some v \<longleftrightarrow> (k, v) \<in> set m"
  by (simp add: keys_def)

lemma map_of_mem: "map_of m k = Some v \<Longrightarrow> (k, v) \<in> set m"
  by (rule map_of_SomeD)

lemma map_of_filter_keys: "map_of (filter (\<lambda>(k, v). P k) m) k = (if P k then map_of m k else None)"
  by (induction m) auto

lemma map_of_filter_wf:
  "wf_map m \<Longrightarrow> map_of (filter (\<lambda>(k, v). P k v) m) k =
     (case map_of m k of Some v \<Rightarrow> if P k v then Some v else None | None \<Rightarrow> None)"
proof (induction m)
  case Nil
  then show ?case by simp
next
  case (Cons p m)
  obtain a b where p: "p = (a, b)" by (cases p)
  have "map_of m a = None" using Cons.prems p in_keys_iff [of a m] by auto
  with Cons p show ?case by (auto split: option.splits)
qed

lemma map_of_map_vals: "map_of (map (\<lambda>(k, v). (k, f k v)) m) k = map_option (f k) (map_of m k)"
  by (induction m) auto

lemma keys_map_vals [simp]: "keys (map (\<lambda>(k, v). (k, f k v)) m) = keys m"
  by (induction m) auto

lemma wf_jmap_fold: "wf_map m \<Longrightarrow> wf_map (fold (\<lambda>(k, v) m. jset k v m) ps m)"
  by (induction ps arbitrary: m) auto

lemma wf_jmap_of [simp, inv_intro]: "wf_map (jmap_of ps)"
  by (simp add: jmap_of_def wf_jmap_fold)

lemma map_of_jmap_fold:
  "map_of (fold (\<lambda>(k, v) m. jset k v m) ps m) = map_of m ++ map_of (rev ps)"
  by (induction ps arbitrary: m) (auto simp: map_add_def fun_eq_iff split: option.splits)

lemma map_of_jmap_of: "map_of (jmap_of ps) = map_of (rev ps)"
  by (simp add: jmap_of_def map_of_jmap_fold)

lemma map_of_rev_distinct: "distinct (map fst ps) \<Longrightarrow> map_of (rev ps) = map_of ps"
proof -
  assume d: "distinct (map fst ps)"
  have "distinct (map fst (rev ps))" using d by (simp add: rev_map [symmetric])
  then show "map_of (rev ps) = map_of ps"
    using d by (intro map_of_inject_set [THEN iffD2]) auto
qed

text \<open>A property of all values of a map.\<close>

definition all_vals :: "('v \<Rightarrow> bool) \<Rightarrow> ('k, 'v) jsmap \<Rightarrow> bool" where
  "all_vals P m = list_all (\<lambda>(k, v). P v) m"

lemma set_jset: "set (jset k v m) \<subseteq> insert (k, v) (set m)"
  unfolding jset_def by (induction m) auto

lemma all_vals_simps [simp]:
  "all_vals P []" "all_vals P ((k, v) # m) \<longleftrightarrow> P v \<and> all_vals P m"
  "all_vals P (map (\<lambda>(k, v). (k, f v)) m) = all_vals (\<lambda>v. P (f v)) m"
  by (auto simp: all_vals_def list_all_iff)

lemma all_vals_jset [inv_intro]: "all_vals P m \<Longrightarrow> P v \<Longrightarrow> all_vals P (jset k v m)"
  using set_jset [of k v m] by (auto simp: all_vals_def list_all_iff)

lemma all_vals_jdel [inv_intro]: "all_vals P m \<Longrightarrow> all_vals P (jdel k m)"
  by (auto simp: all_vals_def list_all_iff jdel_def)

lemma all_vals_mono: "all_vals P m \<Longrightarrow> (\<And>v. P v \<Longrightarrow> Q v) \<Longrightarrow> all_vals Q m"
  by (auto simp: all_vals_def list_all_iff)

lemma all_vals_get: "all_vals P m \<Longrightarrow> map_of m k = Some v \<Longrightarrow> P v"
  by (auto simp: all_vals_def list_all_iff dest!: map_of_SomeD)

text \<open>What a component relies on of a map, whatever holds it.\<close>

locale js_map =
  fixes get :: "'m \<Rightarrow> 'k \<Rightarrow> 'v option"
    and put :: "'k \<Rightarrow> 'v \<Rightarrow> 'm \<Rightarrow> 'm"
    and del :: "'k \<Rightarrow> 'm \<Rightarrow> 'm"
    and empty_map :: 'm
    and key_list :: "'m \<Rightarrow> 'k list"
    and wf :: "'m \<Rightarrow> bool"
  assumes get_empty: "get empty_map k = None"
    and get_put: "get (put k v m) k' = (if k' = k then Some v else get m k')"
    and get_del: "get (del k m) k' = (if k' = k then None else get m k')"
    and key_list_get: "k \<in> set (key_list m) \<longleftrightarrow> get m k \<noteq> None"
    and wf_empty: "wf empty_map"
    and wf_put: "wf m \<Longrightarrow> wf (put k v m)"
    and wf_del: "wf m \<Longrightarrow> wf (del k m)"
    and wf_distinct: "wf m \<Longrightarrow> distinct (key_list m)"
begin

lemma get_put_same: "get (put k v m) k = Some v"
  by (simp add: get_put)

lemma get_del_same: "get (del k m) k = None"
  by (simp add: get_del)

lemma del_put_get: "get (del k (put k v m)) k' = get (del k m) k'"
  by (simp add: get_put get_del)

lemma put_put_get: "get (put k v (put k w m)) k' = get (put k v m) k'"
  by (simp add: get_put)

lemma key_list_put: "set (key_list (put k v m)) = insert k (set (key_list m))"
  by (auto simp: key_list_get get_put split: if_splits)

lemma key_list_del: "set (key_list (del k m)) = set (key_list m) - {k}"
  by (auto simp: key_list_get get_del split: if_splits)

text \<open>A map filled from pairs answers each key with the last pair that names it.\<close>

lemma get_fold_put:
  "get (fold (\<lambda>x. put (f x) (g x)) xs m) k =
     (case find (\<lambda>x. f x = k) (rev xs) of Some x \<Rightarrow> Some (g x) | None \<Rightarrow> get m k)"
proof (induction xs arbitrary: m)
  case Nil
  then show ?case by simp
next
  case (Cons x xs)
  have app: "find (\<lambda>x. f x = k) (ys @ [x]) =
      (case find (\<lambda>x. f x = k) ys of Some y \<Rightarrow> Some y | None \<Rightarrow> if f x = k then Some x else None)"
    for ys by (induction ys) auto
  show ?case by (simp add: Cons app get_put split: option.splits)
qed

lemma wf_fold_put: "wf m \<Longrightarrow> wf (fold (\<lambda>x. put (f x) (g x)) xs m)"
  by (induction xs arbitrary: m) (auto intro: wf_put)

lemma card_key_list: "wf m \<Longrightarrow> card (set (key_list m)) = length (key_list m)"
  by (simp add: distinct_card wf_distinct)

end

interpretation alist: js_map map_of jset jdel "[]" keys "\<lambda>m. wf_map m"
  by unfold_locales (auto simp: in_keys_iff)

lemma jset_new: "k \<notin> set (keys m) \<Longrightarrow> jset k v m = m @ [(k, v)]"
  unfolding jset_def by (induction m) (auto simp: keys_def)

section \<open>JavaScript sets\<close>

definition jadd :: "'a \<Rightarrow> 'a list \<Rightarrow> 'a list" where
  "jadd x s = (if x \<in> set s then s else s @ [x])"

definition uniq :: "'a list \<Rightarrow> 'a list" where
  "uniq xs = fold jadd xs []"

lemma set_jadd [simp, js_set_simps]: "set (jadd x s) = insert x (set s)"
  by (auto simp: jadd_def)

lemma distinct_jadd [simp, inv_intro]: "distinct s \<Longrightarrow> distinct (jadd x s)"
  by (simp add: jadd_def)

lemma set_fold_jadd: "set (fold jadd xs s) = set s \<union> set xs"
  by (induction xs arbitrary: s) auto

lemma distinct_fold_jadd: "distinct s \<Longrightarrow> distinct (fold jadd xs s)"
  by (induction xs arbitrary: s) auto

lemma set_uniq [simp, js_set_simps]: "set (uniq xs) = set xs"
  by (simp add: uniq_def set_fold_jadd)

lemma distinct_uniq [simp, inv_intro]: "distinct (uniq xs)"
  by (simp add: uniq_def distinct_fold_jadd)

lemma fold_jadd_distinct:
  "distinct xs \<Longrightarrow> set xs \<inter> set s = {} \<Longrightarrow> fold jadd xs s = s @ xs"
  by (induction xs arbitrary: s) (auto simp: jadd_def)

lemma uniq_distinct: "distinct xs \<Longrightarrow> uniq xs = xs"
  by (simp add: uniq_def fold_jadd_distinct)

lemma uniq_Nil [simp]: "uniq [] = []"
  by (simp add: uniq_def)

lemma uniq_eq_Nil [simp]: "uniq xs = [] \<longleftrightarrow> xs = []"
  by (metis set_empty set_uniq)

section \<open>Strings\<close>

text \<open>\<^verbatim>\<open>text.split(separator)\<close> for a separator of one character; splitting keeps empty pieces.\<close>

fun split_on :: "'a \<Rightarrow> 'a list \<Rightarrow> 'a list list" where
  "split_on c [] = [[]]"
| "split_on c (x # xs) =
     (if x = c then [] # split_on c xs
      else (case split_on c xs of [] \<Rightarrow> [[x]] | p # ps \<Rightarrow> (x # p) # ps))"

text \<open>\<^verbatim>\<open>pieces.join(separator)\<close>.\<close>

fun join :: "'a list \<Rightarrow> 'a list list \<Rightarrow> 'a list" where
  "join sep [] = []"
| "join sep [p] = p"
| "join sep (p # q # ps) = p @ sep @ join sep (q # ps)"

text \<open>\<^verbatim>\<open>text.startsWith\<close>, \<^verbatim>\<open>text.endsWith\<close> and \<^verbatim>\<open>text.includes\<close>.\<close>

definition starts_with :: "string \<Rightarrow> string \<Rightarrow> bool" where
  "starts_with text p = (take (length p) text = p)"

definition ends_with :: "string \<Rightarrow> string \<Rightarrow> bool" where
  "ends_with text p = starts_with (rev text) (rev p)"

fun str_includes :: "string \<Rightarrow> string \<Rightarrow> bool" where
  "str_includes [] p = (p = [])"
| "str_includes (c # text) p = (starts_with (c # text) p \<or> str_includes text p)"

lemma split_on_nonempty [simp]: "split_on c xs \<noteq> []"
  by (induction xs) (auto split: list.splits)

lemma split_on_no_sep: "\<forall>p \<in> set (split_on c xs). c \<notin> set p"
  by (induction xs) (auto split: list.splits)

lemma join_Cons: "ps \<noteq> [] \<Longrightarrow> join sep (p # ps) = p @ sep @ join sep ps"
  by (cases ps) auto

lemma join_split_on: "join [c] (split_on c xs) = xs"
proof (induction xs)
  case Nil
  then show ?case by simp
next
  case (Cons x xs)
  then show ?case
    by (cases "split_on c xs"; cases "tl (split_on c xs)") (auto simp: join_Cons)
qed

lemma split_on_single: "c \<notin> set p \<Longrightarrow> split_on c p = [p]"
  by (induction p) auto

lemma split_on_append: "c \<notin> set p \<Longrightarrow> split_on c (p @ c # xs) = p # split_on c xs"
  by (induction p) auto

lemma split_on_join:
  "ps \<noteq> [] \<Longrightarrow> (\<forall>p \<in> set ps. c \<notin> set p) \<Longrightarrow> split_on c (join [c] ps) = ps"
proof (induction ps)
  case Nil
  then show ?case by simp
next
  case (Cons p ps)
  then show ?case
    by (cases ps) (auto simp: split_on_single split_on_append join_Cons)
qed

lemma split_on_inj: "split_on c xs = split_on c ys \<Longrightarrow> xs = ys"
  by (metis join_split_on)

lemma starts_with_append [simp]: "starts_with (p @ s) p"
  by (simp add: starts_with_def)

lemma starts_with_iff: "starts_with s p \<longleftrightarrow> (\<exists>r. s = p @ r)"
  by (metis append_take_drop_id append_eq_conv_conj starts_with_def)

lemma ends_with_iff: "ends_with s p \<longleftrightarrow> (\<exists>r. s = r @ p)"
  by (metis ends_with_def rev_append rev_rev_ident starts_with_iff)

lemma str_includes_iff: "str_includes s p \<longleftrightarrow> (\<exists>a b. s = a @ p @ b)"
proof (induction s)
  case Nil
  then show ?case by auto
next
  case (Cons c s)
  show ?case
  proof
    assume "str_includes (c # s) p"
    then consider "starts_with (c # s) p" | "str_includes s p" by auto
    then show "\<exists>a b. c # s = a @ p @ b"
    proof cases
      case 1
      then show ?thesis by (metis append_Nil starts_with_iff)
    next
      case 2
      then show ?thesis using Cons by (metis append_Cons)
    qed
  next
    assume "\<exists>a b. c # s = a @ p @ b"
    then obtain a b where ab: "c # s = a @ p @ b" by blast
    show "str_includes (c # s) p"
    proof (cases a)
      case Nil
      with ab have "starts_with (c # s) p" by (auto simp: starts_with_iff)
      then show ?thesis by simp
    next
      case (Cons d a')
      with ab have "s = a' @ p @ b" by simp
      then show ?thesis using Cons.IH by auto
    qed
  qed
qed

text \<open>A decimal number, as \<^verbatim>\<open>String(n)\<close> writes it.\<close>

fun show_nat :: "nat \<Rightarrow> string" where
  "show_nat n = (if n < 10 then [char_of (48 + n)] else show_nat (n div 10) @ [char_of (48 + n mod 10)])"

declare show_nat.simps [simp del]

text \<open>Evaluation takes a digit from a table.\<close>

lemma digit_char: "n < 10 \<Longrightarrow> char_of (48 + n) = ''0123456789'' ! n" for n :: nat
proof -
  assume "n < 10"
  then have "n \<in> {0, 1, 2, 3, 4, 5, 6, 7, 8, 9}" by auto
  then have "of_char (''0123456789'' ! n) = 48 + n" by (elim insertE) simp_all
  then show ?thesis by (metis char_of_char)
qed

lemma show_nat_code [code]:
  "show_nat n = (if n < 10 then [''0123456789'' ! n] else show_nat (n div 10) @ [''0123456789'' ! (n mod 10)])"
  by (subst show_nat.simps) (simp add: digit_char)

section \<open>Lists\<close>

text \<open>\<^verbatim>\<open>items.find(accepts)\<close>, and the first answer a list of questions gives.\<close>

fun first_some :: "('a \<Rightarrow> 'b option) \<Rightarrow> 'a list \<Rightarrow> 'b option" where
  "first_some f [] = None"
| "first_some f (x # xs) = (case f x of Some y \<Rightarrow> Some y | None \<Rightarrow> first_some f xs)"

lemma first_some_None: "first_some f xs = None \<longleftrightarrow> (\<forall>x \<in> set xs. f x = None)"
  by (induction xs) (auto split: option.splits)

lemma first_some_Some: "first_some f xs = Some y \<Longrightarrow> \<exists>x \<in> set xs. f x = Some y"
  by (induction xs) (auto split: option.splits)

lemma find_Some_mem: "find P xs = Some x \<Longrightarrow> x \<in> set xs \<and> P x"
  by (auto simp: find_Some_iff)

text \<open>Flattening with \<open>flatMap\<close>.\<close>

definition flat_map :: "('a \<Rightarrow> 'b list) \<Rightarrow> 'a list \<Rightarrow> 'b list" where
  "flat_map f xs = concat (map f xs)"

lemma set_flat_map [simp]: "set (flat_map f xs) = (\<Union>x \<in> set xs. set (f x))"
  by (simp add: flat_map_def)

lemma flat_map_simps [simp]: "flat_map f [] = []" "flat_map f (x # xs) = f x @ flat_map f xs"
  by (simp_all add: flat_map_def)

lemma flat_map_append [simp]: "flat_map f (xs @ ys) = flat_map f xs @ flat_map f ys"
  by (simp add: flat_map_def)

text \<open>
  \<^verbatim>\<open>items.map(step)\<close> where the step may throw: the first error ends it. An error is \<^verbatim>\<open>Inl\<close>.
\<close>

fun mapE :: "('a \<Rightarrow> 'e + 'b) \<Rightarrow> 'a list \<Rightarrow> 'e + 'b list" where
  "mapE f [] = Inr []"
| "mapE f (x # xs) =
     (case f x of Inl e \<Rightarrow> Inl e
      | Inr y \<Rightarrow> (case mapE f xs of Inl e \<Rightarrow> Inl e | Inr ys \<Rightarrow> Inr (y # ys)))"

lemma mapE_Inr: "mapE f xs = Inr ys \<longleftrightarrow> list_all2 (\<lambda>x y. f x = Inr y) xs ys"
proof (induction xs arbitrary: ys)
  case Nil
  then show ?case by auto
next
  case (Cons x xs)
  show ?case
    by (cases ys) (auto simp: Cons.IH [symmetric] split: sum.splits)
qed

lemma mapE_Inl_ex: "(\<exists>e. mapE f xs = Inl e) \<longleftrightarrow> (\<exists>x \<in> set xs. \<exists>e. f x = Inl e)"
  by (induction xs) (auto split: sum.splits)

text \<open>\<^verbatim>\<open>items[index]\<close>: \<^verbatim>\<open>undefined\<close> out of range.\<close>

definition at :: "'a list \<Rightarrow> nat \<Rightarrow> 'a option" where
  "at xs i = (if i < length xs then Some (xs ! i) else None)"

lemma at_Some [simp]: "at xs i = Some x \<longleftrightarrow> i < length xs \<and> xs ! i = x"
  by (simp add: at_def)

lemma at_None [simp]: "at xs i = None \<longleftrightarrow> length xs \<le> i"
  by (auto simp: at_def)

end
