(* ===== verification/Json.thy ===== *)
theory Json
  imports Prelude
begin

text \<open>
  The part of the language's \<^verbatim>\<open>JSON\<close> the source uses: the values \<^verbatim>\<open>JSON.parse\<close> gives, and
  \<^verbatim>\<open>JSON.stringify\<close>, whose text the source uses as a key of maps. The last lemma is what those
  keys rest on: two values have the same text only when they are the same value.
\<close>

datatype json =
    JNull
  | JBool bool
  | JNum nat
  | JStr string
  | JArr "json list"
  | JObj "(string \<times> json) list"

section \<open>Rendering\<close>

definition hex_digit :: "nat \<Rightarrow> char" where
  "hex_digit n = ''0123456789abcdef'' ! n"

definition json_escape :: "char \<Rightarrow> string" where
  "json_escape c =
     (if c = CHR 0x22 then [CHR 0x5C, CHR 0x22]
      else if c = CHR 0x5C then [CHR 0x5C, CHR 0x5C]
      else if c = CHR 0x08 then [CHR 0x5C, CHR ''b'']
      else if c = CHR 0x0C then [CHR 0x5C, CHR ''f'']
      else if c = CHR 0x0A then [CHR 0x5C, CHR ''n'']
      else if c = CHR 0x0D then [CHR 0x5C, CHR ''r'']
      else if c = CHR 0x09 then [CHR 0x5C, CHR ''t'']
      else if (of_char c :: nat) < 32 then
        [CHR 0x5C, CHR ''u'', CHR ''0'', CHR ''0'',
         hex_digit (of_char c div 16), hex_digit (of_char c mod 16)]
      else [c])"

definition json_quote :: "string \<Rightarrow> string" where
  "json_quote s = CHR 0x22 # flat_map json_escape s @ [CHR 0x22]"

fun stringify :: "json \<Rightarrow> string" where
  "stringify JNull = ''null''"
| "stringify (JBool True) = ''true''"
| "stringify (JBool False) = ''false''"
| "stringify (JNum n) = show_nat n"
| "stringify (JStr s) = json_quote s"
| "stringify (JArr vs) = ''['' @ join '','' (map stringify vs) @ '']''"
| "stringify (JObj ps) =
     ''{'' @ join '','' (map (\<lambda>(k, v). json_quote k @ '':'' @ stringify v) ps) @ ''}''"

section \<open>Reading a text back\<close>

text \<open>Numbers: the digits of a number determine it, and end where no digit follows.\<close>

definition is_digit :: "char \<Rightarrow> bool" where
  "is_digit c = (48 \<le> (of_char c :: nat) \<and> (of_char c :: nat) \<le> 57)"

fun read_digits :: "nat \<Rightarrow> string \<Rightarrow> nat" where
  "read_digits acc [] = acc"
| "read_digits acc (c # cs) = read_digits (10 * acc + (of_char c - 48)) cs"

lemma read_digits_append: "read_digits acc (xs @ ys) = read_digits (read_digits acc xs) ys"
  by (induction xs arbitrary: acc) auto

lemma of_char_digit: "d < 10 \<Longrightarrow> (of_char (char_of (48 + d)) :: nat) = 48 + d"
  by (simp add: of_char_of)

lemma read_show_nat: "read_digits 0 (show_nat n) = n"
proof (induction n rule: show_nat.induct)
  case (1 n)
  show ?case
  proof (cases "n < 10")
    case True
    then show ?thesis by (simp add: show_nat.simps [of n] of_char_digit)
  next
    case False
    with "1.IH" show ?thesis
      by (simp add: show_nat.simps [of n] read_digits_append of_char_digit)
  qed
qed

lemma show_nat_inj: "show_nat m = show_nat n \<Longrightarrow> m = n"
  by (metis read_show_nat)

lemma show_nat_digits: "\<forall>c \<in> set (show_nat n). is_digit c"
proof (induction n rule: show_nat.induct)
  case (1 n)
  show ?case
  proof (cases "n < 10")
    case True
    then show ?thesis by (simp add: show_nat.simps [of n] is_digit_def of_char_digit)
  next
    case False
    have "n mod 10 < 10" by simp
    with False 1 show ?thesis
      by (auto simp: show_nat.simps [of n] is_digit_def of_char_digit)
  qed
qed

lemma show_nat_nonempty [simp]: "show_nat n \<noteq> []"
  by (subst show_nat.simps) simp

text \<open>What may follow a value inside another one.\<close>

definition at_boundary :: "string \<Rightarrow> bool" where
  "at_boundary r = (r = [] \<or> hd r \<in> set '',]}:'')"

lemma at_boundary_no_digit: "at_boundary r \<Longrightarrow> takeWhile is_digit r = []"
  by (cases r) (auto simp: at_boundary_def is_digit_def)

lemma show_nat_split:
  assumes "show_nat m @ r = show_nat n @ s" "at_boundary r" "at_boundary s"
  shows "m = n \<and> r = s"
proof -
  have take: "takeWhile is_digit (show_nat k @ t) = show_nat k" if "at_boundary t" for k t
    using that show_nat_digits [of k] by (simp add: at_boundary_no_digit)
  from assms take [of r m] take [of s n] have "show_nat m = show_nat n" by simp
  with assms(1) show ?thesis by (auto dest: show_nat_inj)
qed

text \<open>Strings: no escape is the beginning of another, and none begins with the closing quote.\<close>

lemma hex_digit_inj: "m < 16 \<Longrightarrow> n < 16 \<Longrightarrow> hex_digit m = hex_digit n \<Longrightarrow> m = n"
  unfolding hex_digit_def
  by (subst (asm) nth_eq_iff_index_eq) auto

lemma hex_pair_inj:
  assumes "m < 256" "n < 256" "hex_digit (m div 16) = hex_digit (n div 16)"
    "hex_digit (m mod 16) = hex_digit (n mod 16)"
  shows "m = (n :: nat)"
proof -
  have "m div 16 = n div 16" using assms by (intro hex_digit_inj) auto
  moreover have "m mod 16 = n mod 16" using assms by (intro hex_digit_inj) auto
  ultimately show ?thesis by (metis div_mult_mod_eq)
qed

lemma of_char_lt_256: "(of_char (c :: char) :: nat) < 256"
  by (rule nat_of_char_less_256)

lemma json_escape_nonempty [simp]: "json_escape c \<noteq> []"
  by (simp add: json_escape_def)

lemma json_escape_not_quote: "hd (json_escape c @ r) \<noteq> CHR 0x22"
  by (simp add: json_escape_def)

definition escape_tail :: "char \<Rightarrow> string option" where
  "escape_tail c =
     (if c = CHR 0x22 then Some [CHR 0x22] else if c = CHR 0x5C then Some [CHR 0x5C]
      else if c = CHR 0x08 then Some [CHR ''b''] else if c = CHR 0x0C then Some [CHR ''f'']
      else if c = CHR 0x0A then Some [CHR ''n''] else if c = CHR 0x0D then Some [CHR ''r'']
      else if c = CHR 0x09 then Some [CHR ''t'']
      else if (of_char c :: nat) < 32 then
        Some [CHR ''u'', CHR ''0'', CHR ''0'', hex_digit (of_char c div 16), hex_digit (of_char c mod 16)]
      else None)"

lemma json_escape_tail:
  "json_escape c = (case escape_tail c of Some t \<Rightarrow> CHR 0x5C # t | None \<Rightarrow> [c])"
  by (simp add: json_escape_def escape_tail_def)

lemma escape_tail_None: "escape_tail c = None \<Longrightarrow> c \<noteq> CHR 0x5C"
  by (auto simp: escape_tail_def split: if_splits)

lemma escape_tail_Some:
  "escape_tail c = Some t \<Longrightarrow>
     (t = [CHR 0x22] \<and> c = CHR 0x22) \<or> (t = [CHR 0x5C] \<and> c = CHR 0x5C)
   \<or> (t = [CHR ''b''] \<and> c = CHR 0x08) \<or> (t = [CHR ''f''] \<and> c = CHR 0x0C)
   \<or> (t = [CHR ''n''] \<and> c = CHR 0x0A) \<or> (t = [CHR ''r''] \<and> c = CHR 0x0D)
   \<or> (t = [CHR ''t''] \<and> c = CHR 0x09)
   \<or> (t = [CHR ''u'', CHR ''0'', CHR ''0'', hex_digit (of_char c div 16), hex_digit (of_char c mod 16)])"
  unfolding escape_tail_def by (simp split: if_splits)

lemma escape_tail_split:
  assumes c: "escape_tail c = Some t" and d: "escape_tail d = Some u" and eq: "t @ r = u @ s"
  shows "c = d \<and> r = s"
proof -
  have hex: "c = d"
    if "hex_digit (of_char c div 16) = hex_digit (of_char d div 16)"
      "hex_digit (of_char c mod 16) = hex_digit (of_char d mod 16)"
    using hex_pair_inj [OF of_char_lt_256 of_char_lt_256 that] by simp
  show ?thesis
    using escape_tail_Some [OF c] escape_tail_Some [OF d]
    by (elim disjE) (use eq hex in simp_all)
qed

lemma json_escape_split:
  assumes eq: "json_escape c @ r = json_escape d @ s"
  shows "c = d \<and> r = s"
proof (cases "escape_tail c"; cases "escape_tail d")
  assume "escape_tail c = None" "escape_tail d = None"
  with eq show ?thesis by (simp add: json_escape_tail)
next
  fix u assume "escape_tail c = None" "escape_tail d = Some u"
  with eq show ?thesis by (simp add: json_escape_tail escape_tail_None)
next
  fix t assume "escape_tail c = Some t" "escape_tail d = None"
  with eq escape_tail_None [of d] show ?thesis by (simp add: json_escape_tail)
next
  fix t u assume cd: "escape_tail c = Some t" "escape_tail d = Some u"
  with eq have "t @ r = u @ s" by (simp add: json_escape_tail)
  with cd show ?thesis by (rule escape_tail_split)
qed

lemma quote_not_escaped: "CHR 0x22 # r \<noteq> json_escape c @ s"
  by (metis json_escape_not_quote list.sel(1))

lemma escaped_split:
  "flat_map json_escape xs @ CHR 0x22 # r = flat_map json_escape ys @ CHR 0x22 # s
     \<Longrightarrow> xs = ys \<and> r = s"
proof (induction xs arbitrary: ys)
  case Nil
  then show ?case by (cases ys) (simp_all add: quote_not_escaped)
next
  case (Cons c xs)
  from Cons.prems obtain d ds where ys: "ys = d # ds"
    by (cases ys) (simp_all add: quote_not_escaped [symmetric])
  with Cons.prems have "json_escape c @ (flat_map json_escape xs @ CHR 0x22 # r) =
      json_escape d @ (flat_map json_escape ds @ CHR 0x22 # s)" by simp
  from json_escape_split [OF this] Cons.IH [of ds] ys show ?case by simp
qed

lemma json_quote_split: "json_quote xs @ r = json_quote ys @ s \<Longrightarrow> xs = ys \<and> r = s"
  using escaped_split [of xs r ys s] by (simp add: json_quote_def)

text \<open>Sequences: with a renderer that can be split before a boundary, so can the joined text.\<close>

definition splits :: "('a \<Rightarrow> string) \<Rightarrow> 'a \<Rightarrow> bool" where
  "splits f x = (\<forall>y r s. f x @ r = f y @ s \<longrightarrow> at_boundary r \<longrightarrow> at_boundary s \<longrightarrow> x = y \<and> r = s)"

lemma splitsD:
  "splits f x \<Longrightarrow> f x @ r = f y @ s \<Longrightarrow> at_boundary r \<Longrightarrow> at_boundary s \<Longrightarrow> x = y \<and> r = s"
  by (auto simp: splits_def)

definition tail_text :: "('a \<Rightarrow> string) \<Rightarrow> 'a list \<Rightarrow> string" where
  "tail_text f xs = flat_map (\<lambda>x. CHR '','' # f x) xs"

lemma join_map_Cons: "join '','' (map f (x # xs)) = f x @ tail_text f xs"
  by (induction xs arbitrary: x) (auto simp: tail_text_def join_Cons)

lemma at_boundary_tail: "at_boundary (tail_text f xs @ CHR '']'' # r)"
  "at_boundary (tail_text f xs @ CHR ''}'' # r)"
  by (cases xs; simp add: tail_text_def at_boundary_def)+

lemma tail_text_split:
  assumes "close = CHR '']'' \<or> close = CHR ''}''" "\<forall>x \<in> set xs. splits f x"
    "tail_text f xs @ close # r = tail_text f ys @ close # s"
  shows "xs = ys \<and> r = s"
  using assms(2,3)
proof (induction xs arbitrary: ys)
  case Nil
  with assms(1) show ?case by (cases ys) (auto simp: tail_text_def)
next
  case (Cons x xs)
  then obtain y zs where ys: "ys = y # zs"
    using assms(1) by (cases ys) (auto simp: tail_text_def)
  with Cons.prems have "f x @ (tail_text f xs @ close # r) = f y @ (tail_text f zs @ close # s)"
    by (simp add: tail_text_def)
  moreover have "at_boundary (tail_text f xs @ close # r)" "at_boundary (tail_text f zs @ close # s)"
    using assms(1) at_boundary_tail by blast+
  moreover have "splits f x" using Cons.prems by simp
  ultimately have "x = y \<and> tail_text f xs @ close # r = tail_text f zs @ close # s"
    by (blast dest: splitsD)
  with Cons.IH [of zs] Cons.prems ys show ?case by auto
qed

lemma join_split:
  assumes "close = CHR '']'' \<or> close = CHR ''}''" "\<forall>x \<in> set xs. splits f x"
    "\<forall>x. f x \<noteq> [] \<and> hd (f x) \<noteq> close"
    "join '','' (map f xs) @ close # r = join '','' (map f ys) @ close # s"
  shows "xs = ys \<and> r = s"
proof (cases xs)
  case Nil
  have "ys = []"
  proof (rule ccontr)
    assume "ys \<noteq> []"
    then obtain y zs where "ys = y # zs" by (cases ys) auto
    with assms(4) Nil have "close # r = f y @ (tail_text f zs @ close # s)"
      by (simp only: join_map_Cons) simp
    with assms(3) show False by (metis append_is_Nil_conv hd_append2 list.sel(1))
  qed
  with Nil assms show ?thesis by simp
next
  case (Cons x xs')
  have "ys \<noteq> []"
  proof
    assume "ys = []"
    with assms(4) Cons have "f x @ (tail_text f xs' @ close # r) = close # s"
      by (simp only: join_map_Cons) simp
    with assms(3) show False by (metis hd_append2 list.sel(1))
  qed
  then obtain y zs where ys: "ys = y # zs" by (cases ys) auto
  have "f x @ (tail_text f xs' @ close # r) = f y @ (tail_text f zs @ close # s)"
    using assms(4) unfolding Cons ys join_map_Cons by simp
  moreover have "at_boundary (tail_text f xs' @ close # r)"
      "at_boundary (tail_text f zs @ close # s)"
    using assms(1) at_boundary_tail by blast+
  moreover have "splits f x" using assms(2) Cons by simp
  ultimately have "x = y \<and> tail_text f xs' @ close # r = tail_text f zs @ close # s"
    by (blast dest: splitsD)
  moreover have "\<forall>x \<in> set xs'. splits f x" using assms(2) Cons by simp
  ultimately show ?thesis using tail_text_split [OF assms(1)] Cons ys by blast
qed

text \<open>The first character tells the kinds of value apart.\<close>

lemma show_nat_hd: "is_digit (hd (show_nat n))"
  using show_nat_digits [of n] by (cases "show_nat n") auto

lemma stringify_nonempty [simp]: "stringify v \<noteq> []"
  by (cases v rule: stringify.cases) (auto simp: json_quote_def)

definition kind_of_hd :: "char \<Rightarrow> nat" where
  "kind_of_hd c =
     (if c = CHR ''n'' then 0 else if c = CHR ''t'' then 1 else if c = CHR ''f'' then 2
      else if is_digit c then 3 else if c = CHR 0x22 then 4 else if c = CHR ''['' then 5 else 6)"

fun json_kind :: "json \<Rightarrow> nat" where
  "json_kind JNull = 0"
| "json_kind (JBool b) = (if b then 1 else 2)"
| "json_kind (JNum n) = 3"
| "json_kind (JStr s) = 4"
| "json_kind (JArr vs) = 5"
| "json_kind (JObj ps) = 6"

lemma hd_stringify: "kind_of_hd (hd (stringify v)) = json_kind v"
proof (cases v rule: stringify.cases)
  case (4 n)
  have "is_digit (hd (show_nat n))" by (rule show_nat_hd)
  with 4 show ?thesis
    by (auto simp: kind_of_hd_def is_digit_def)
qed (auto simp: kind_of_hd_def json_quote_def is_digit_def)

lemma hd_stringify_no_close: "hd (stringify v) \<noteq> CHR '']''"
proof
  assume h: "hd (stringify v) = CHR '']''"
  have "json_kind v = 6" using hd_stringify [of v] h by (simp add: kind_of_hd_def is_digit_def)
  then show False using h by (cases v) (auto split: if_splits)
qed

lemma stringify_kind:
  "stringify v @ r = stringify w @ s \<Longrightarrow> json_kind v = json_kind w"
  by (metis hd_append2 hd_stringify stringify_nonempty)

definition member_text :: "string \<times> json \<Rightarrow> string" where
  "member_text = (\<lambda>(k, v). json_quote k @ '':'' @ stringify v)"

lemma member_text_splits: "splits stringify v \<Longrightarrow> splits member_text (k, v)"
proof (unfold splits_def, intro allI impI)
  fix y r s
  assume v: "\<forall>y r s. stringify v @ r = stringify y @ s \<longrightarrow> at_boundary r \<longrightarrow> at_boundary s \<longrightarrow> v = y \<and> r = s"
    and eq: "member_text (k, v) @ r = member_text y @ s" and b: "at_boundary r" "at_boundary s"
  obtain k' v' where y: "y = (k', v')" by (cases y)
  with eq have "json_quote k @ ('':'' @ stringify v @ r) = json_quote k' @ ('':'' @ stringify v' @ s)"
    by (simp add: member_text_def)
  from json_quote_split [OF this] have "k = k'" "stringify v @ r = stringify v' @ s" by simp_all
  with v b y show "(k, v) = y \<and> r = s" by blast
qed

lemma stringify_splits: "splits stringify v"
proof (induction v)
  case JNull
  show ?case unfolding splits_def
  proof (intro allI impI)
    fix y r s assume *: "stringify JNull @ r = stringify y @ s"
    from stringify_kind [OF *] * show "JNull = y \<and> r = s" by (cases y) (auto split: if_splits)
  qed
next
  case (JBool b)
  show ?case unfolding splits_def
  proof (intro allI impI)
    fix y r s assume *: "stringify (JBool b) @ r = stringify y @ s"
    from stringify_kind [OF *] * show "JBool b = y \<and> r = s"
      by (cases y; cases b) (auto split: if_splits)
  qed
next
  case (JNum n)
  show ?case unfolding splits_def
  proof (intro allI impI)
    fix y r s assume *: "stringify (JNum n) @ r = stringify y @ s" "at_boundary r" "at_boundary s"
    from stringify_kind [OF *(1)] * show "JNum n = y \<and> r = s"
      by (cases y) (auto split: if_splits dest: show_nat_split)
  qed
next
  case (JStr x)
  show ?case unfolding splits_def
  proof (intro allI impI)
    fix y r s assume *: "stringify (JStr x) @ r = stringify y @ s"
    from stringify_kind [OF *(1)] * show "JStr x = y \<and> r = s"
      by (cases y) (auto split: if_splits dest: json_quote_split)
  qed
next
  case (JArr vs)
  show ?case unfolding splits_def
  proof (intro allI impI)
    fix y r s assume *: "stringify (JArr vs) @ r = stringify y @ s"
    then obtain ws where y: "y = JArr ws"
      using stringify_kind [OF *] by (cases y) (auto split: if_splits)
    with * have "join '','' (map stringify vs) @ CHR '']'' # r =
        join '','' (map stringify ws) @ CHR '']'' # s" by simp
    with JArr have "vs = ws \<and> r = s"
      by (intro join_split [where close = "CHR '']''"]) (auto simp: hd_stringify_no_close)
    with y show "JArr vs = y \<and> r = s" by simp
  qed
next
  case (JObj ps)
  show ?case unfolding splits_def
  proof (intro allI impI)
    fix y r s assume *: "stringify (JObj ps) @ r = stringify y @ s"
    then obtain qs where y: "y = JObj qs"
      using stringify_kind [OF *] by (cases y) (auto split: if_splits)
    with * have j: "join '','' (map member_text ps) @ CHR ''}'' # r =
        join '','' (map member_text qs) @ CHR ''}'' # s" by (simp add: member_text_def)
    have sp: "\<forall>p \<in> set ps. splits member_text p"
    proof
      fix p assume p: "p \<in> set ps"
      then have "splits stringify (snd p)" using JObj [OF p] by (metis prod.collapse snds.intros snd_conv)
      then show "splits member_text p" using member_text_splits [of "snd p" "fst p"] by simp
    qed
    have hd: "\<forall>p. member_text p \<noteq> [] \<and> hd (member_text p) \<noteq> CHR ''}''"
      by (auto simp: member_text_def json_quote_def)
    have "ps = qs \<and> r = s"
      by (rule join_split [where close = "CHR ''}''", OF _ sp hd j]) simp
    with y show "JObj ps = y \<and> r = s" by simp
  qed
qed

lemma stringify_inj: "stringify v = stringify w \<longleftrightarrow> v = w"
  using splitsD [OF stringify_splits, of v "[]" w "[]"] by (auto simp: at_boundary_def)

declare stringify.simps [simp del] stringify_inj [simp]

fun isRecord :: "json \<Rightarrow> bool" where
  "isRecord (JObj _) = True"
| "isRecord _ = False"

end
