(* ===== verification/Evidence.thy ===== *)
theory Evidence
  imports Json
begin

text \<open>
  The package \<^verbatim>\<open>packages/core\<close>: how a piece of evidence is rated against the current input
  fingerprint (\<^verbatim>\<open>evidence.ts\<close>), and how a module's tests get identities that stay apart
  (\<^verbatim>\<open>test-identity.ts\<close>). An absent value (\<^verbatim>\<open>undefined\<close>) is \<open>None\<close>.
\<close>

section \<open>Evidence\<close>

datatype TestOutcome = Passed | Failed | Skipped | Error

datatype Freshness = Current | Stale | Unknown

record TestEvidence =
  te_fingerprint :: string
  te_outcome :: TestOutcome

datatype AssessedOutcome = Ran TestOutcome | NeverRan

record EvidenceAssessment =
  ea_outcome :: AssessedOutcome
  ea_freshness :: Freshness
  ea_isCurrentPass :: bool

text \<open>An absent or an empty string is false where the code tests it.\<close>

definition falsy :: "string option \<Rightarrow> bool" where
  "falsy s = (s = None \<or> s = Some [])"

definition assessFreshness :: "string option \<Rightarrow> string option \<Rightarrow> Freshness" where
  "assessFreshness fingerprint currentFingerprint =
     (if falsy currentFingerprint \<or> falsy fingerprint then Unknown
      else if fingerprint = currentFingerprint then Current else Stale)"

definition assessEvidence :: "TestEvidence option \<Rightarrow> string option \<Rightarrow> EvidenceAssessment" where
  "assessEvidence evidence currentFingerprint =
     (let outcome = (case evidence of None \<Rightarrow> NeverRan | Some e \<Rightarrow> Ran (te_outcome e));
          freshness = assessFreshness (map_option te_fingerprint evidence) currentFingerprint
      in \<lparr> ea_outcome = outcome, ea_freshness = freshness,
           ea_isCurrentPass = (freshness = Current \<and> outcome = Ran Passed) \<rparr>)"

lemma assessFreshness_Current:
  "assessFreshness f c = Current \<longleftrightarrow> (\<exists>d. d \<noteq> [] \<and> f = Some d \<and> c = Some d)"
  by (auto simp: assessFreshness_def falsy_def)

lemma assessFreshness_Unknown:
  "assessFreshness f c = Unknown \<longleftrightarrow> f \<in> {None, Some []} \<or> c \<in> {None, Some []}"
  by (auto simp: assessFreshness_def falsy_def)

lemma assessFreshness_Stale:
  "assessFreshness f c = Stale \<longleftrightarrow> (\<exists>d e. d \<noteq> [] \<and> e \<noteq> [] \<and> d \<noteq> e \<and> f = Some d \<and> c = Some e)"
  by (auto simp: assessFreshness_def falsy_def)

section \<open>Test identities\<close>

record TestModuleLocation =
  workspacePath :: string
  projectName :: string
  modulePath :: string

record TestIdentity = TestModuleLocation +
  namePath :: "string list"
  occurrence :: nat

record IdentifiedTest =
  it_identity :: TestIdentity
  it_isDuplicate :: bool

definition namePathKey :: "string list \<Rightarrow> string" where
  "namePathKey names = stringify (JArr (map JStr names))"

definition testIdentityKey :: "TestIdentity \<Rightarrow> string" where
  "testIdentityKey i = stringify (JArr
     [JStr (workspacePath i), JStr (projectName i), JStr (modulePath i),
      JArr (map JStr (namePath i)), JNum (occurrence i)])"

text \<open>\<^verbatim>\<open>counts.get(key) ?? 0\<close>.\<close>

definition count_of :: "(string, nat) jsmap \<Rightarrow> string \<Rightarrow> nat" where
  "count_of m k = (case map_of m k of Some n \<Rightarrow> n | None \<Rightarrow> 0)"

definition countBy :: "string list \<Rightarrow> (string, nat) jsmap" where
  "countBy ks = fold (\<lambda>k counts. jset k (count_of counts k + 1) counts) ks []"

fun identifyFrom :: "TestModuleLocation \<Rightarrow> (string, nat) jsmap \<Rightarrow> (string, nat) jsmap \<Rightarrow>
    string list list \<Rightarrow> IdentifiedTest list" where
  "identifyFrom location totals seen [] = []"
| "identifyFrom location totals seen (names # rest) =
     (let key = namePathKey names; occ = count_of seen key
      in \<lparr> it_identity =
             \<lparr> workspacePath = workspacePath location, projectName = projectName location,
               modulePath = modulePath location, namePath = names, occurrence = occ \<rparr>,
           it_isDuplicate = (count_of totals key > 1) \<rparr>
         # identifyFrom location totals (jset key (occ + 1) seen) rest)"

definition identifyModuleTests ::
    "TestModuleLocation \<Rightarrow> string list list \<Rightarrow> IdentifiedTest list" where
  "identifyModuleTests location namePaths =
     identifyFrom location (countBy (map namePathKey namePaths)) [] namePaths"

subsection \<open>Keys\<close>

lemma map_JStr_inj: "map JStr xs = map JStr ys \<longleftrightarrow> xs = ys"
  by (rule inj_map_eq_map) (simp add: inj_def)

lemma namePathKey_inj: "namePathKey xs = namePathKey ys \<longleftrightarrow> xs = ys"
  by (simp add: namePathKey_def map_JStr_inj)

lemma testIdentityKey_iff: "testIdentityKey i = testIdentityKey j \<longleftrightarrow> i = j"
  by (cases i; cases j) (auto simp: testIdentityKey_def map_JStr_inj)

subsection \<open>Counts\<close>

lemma count_of_jset [simp]: "count_of (jset k n m) k' = (if k' = k then n else count_of m k')"
  by (simp add: count_of_def)

lemma count_of_Nil [simp]: "count_of [] k = 0"
  by (simp add: count_of_def)

lemma count_of_fold:
  "count_of (fold (\<lambda>k counts. jset k (count_of counts k + 1) counts) ks m) k =
     count_of m k + count_list ks k"
  by (induction ks arbitrary: m) auto

lemma count_of_countBy: "count_of (countBy ks) k = count_list ks k"
  unfolding countBy_def count_of_fold by simp

lemma count_list_namePathKey: "count_list (map namePathKey xs) (namePathKey x) = count_list xs x"
  by (induction xs) (auto simp: namePathKey_inj)

subsection \<open>What identification computes\<close>

text \<open>
  The reference: the test at position \<open>i\<close> carries its own name path, the number of earlier tests of
  the same name path, and whether any other test shares it.
\<close>

definition identity_at :: "TestModuleLocation \<Rightarrow> string list list \<Rightarrow> nat \<Rightarrow> TestIdentity" where
  "identity_at location nps i =
     \<lparr> workspacePath = workspacePath location, projectName = projectName location,
       modulePath = modulePath location, namePath = nps ! i,
       occurrence = count_list (take i nps) (nps ! i) \<rparr>"

lemma identifyFrom_eq:
  assumes "\<forall>names. count_of seen (namePathKey names) = count_list prev names"
  shows "identifyFrom location totals seen rest =
     map (\<lambda>i. \<lparr> it_identity = identity_at location (prev @ rest) (length prev + i),
                it_isDuplicate = (count_of totals (namePathKey (rest ! i)) > 1) \<rparr>)
       [0..<length rest]"
  using assms
proof (induction rest arbitrary: seen "prev")
  case Nil
  then show ?case by simp
next
  case (Cons names rest)
  define seen' where
    "seen' = jset (namePathKey names) (count_of seen (namePathKey names) + 1) seen"
  have "\<forall>n. count_of seen' (namePathKey n) = count_list (prev @ [names]) n"
    using Cons.prems by (simp add: seen'_def namePathKey_inj)
  note IH = Cons.IH [OF this]
  have idx: "[0..<length (names # rest)] = 0 # map Suc [0..<length rest]"
    by (simp add: map_Suc_upt upt_conv_Cons del: upt_Suc)
  have nth: "(prev @ names # rest) ! Suc (length prev + i) = rest ! i" for i
    by (simp add: nth_append)
  show ?case
    unfolding idx using Cons.prems IH
    by (simp add: nth Let_def seen'_def identity_at_def o_def)
qed

lemma identifyModuleTests_eq:
  "identifyModuleTests location nps =
     map (\<lambda>i. \<lparr> it_identity = identity_at location nps i,
                it_isDuplicate = (count_list nps (nps ! i) > 1) \<rparr>) [0..<length nps]"
  unfolding identifyModuleTests_def
  by (subst identifyFrom_eq [where prev = "[]"])
     (auto simp: count_of_countBy count_list_namePathKey)

lemma count_list_take_less:
  "i < j \<Longrightarrow> j < length xs \<Longrightarrow> xs ! i = xs ! j \<Longrightarrow>
     count_list (take i xs) (xs ! i) < count_list (take j xs) (xs ! j)"
proof -
  assume ij: "i < j" "j < length xs" "xs ! i = xs ! j"
  let ?t = "take j xs"
  have i: "i < length ?t" using ij by simp
  have "?t = take i ?t @ ?t ! i # drop (Suc i) ?t" using i by (rule id_take_nth_drop)
  then have "count_list ?t (xs ! i) = count_list (take i ?t @ ?t ! i # drop (Suc i) ?t) (xs ! i)"
    by (rule arg_cong)
  then show ?thesis using ij by (simp add: min_def)
qed

lemma identity_at_inj:
  assumes "i < length nps" "j < length nps" "identity_at l nps i = identity_at l nps j"
  shows "i = j"
proof (rule ccontr)
  assume "i \<noteq> j"
  from assms(3) have same: "nps ! i = nps ! j"
    and occ: "count_list (take i nps) (nps ! i) = count_list (take j nps) (nps ! j)"
    by (auto simp: identity_at_def)
  from \<open>i \<noteq> j\<close> consider "i < j" | "j < i" by linarith
  then show False
  proof cases
    case 1
    with count_list_take_less [OF 1 assms(2) same] occ show ?thesis by simp
  next
    case 2
    with count_list_take_less [OF 2 assms(1) same [symmetric]] occ show ?thesis by simp
  qed
qed

lemma distinct_identities: "distinct (map it_identity (identifyModuleTests location nps))"
  unfolding identifyModuleTests_eq map_map o_def
  by (auto simp: distinct_map inj_on_def intro: identity_at_inj)

section \<open>Properties\<close>

text \<open>
  A result reads as a current pass exactly when it is a pass recorded under a fingerprint that is
  not empty and is the current one: no absent, empty or other fingerprint, and no other outcome, is
  ever reported as a current green.
\<close>

theorem current_pass_iff:
  "ea_isCurrentPass (assessEvidence evidence current) \<longleftrightarrow>
     (\<exists>digest. digest \<noteq> [] \<and> current = Some digest \<and>
        evidence = Some \<lparr> te_fingerprint = digest, te_outcome = Passed \<rparr>)"
proof (cases evidence)
  case None
  then show ?thesis by (simp add: assessEvidence_def Let_def)
next
  case (Some e)
  then show ?thesis
    by (cases e) (auto simp: assessEvidence_def Let_def assessFreshness_Current)
qed

text \<open>
  A stored result is matched to its test by the text of its identity alone: two identities have
  the same key exactly when every field is equal, whatever characters their names hold.
\<close>

theorem testIdentityKey_inj:
  "testIdentityKey i = testIdentityKey j \<longleftrightarrow>
     workspacePath i = workspacePath j \<and> projectName i = projectName j \<and>
     modulePath i = modulePath j \<and> namePath i = namePath j \<and> occurrence i = occurrence j"
  by (simp add: testIdentityKey_def map_JStr_inj)

text \<open>
  Identifying a module's tests keeps them in order, gives each its own name path, the module's
  location and the number of earlier tests of the same name path, marks exactly those whose name path
  occurs more than once, and no two of them share a key.
\<close>

theorem identifyModuleTests_correct:
  "identifyModuleTests location nps =
     map (\<lambda>i. \<lparr> it_identity =
                  \<lparr> workspacePath = workspacePath location, projectName = projectName location,
                    modulePath = modulePath location, namePath = nps ! i,
                    occurrence = count_list (take i nps) (nps ! i) \<rparr>,
                it_isDuplicate = (count_list nps (nps ! i) > 1) \<rparr>) [0..<length nps]
   \<and> distinct (map (\<lambda>t. testIdentityKey (it_identity t)) (identifyModuleTests location nps))"
proof
  have "distinct (map testIdentityKey (map it_identity (identifyModuleTests location nps)))"
    using distinct_identities by (subst distinct_map) (auto simp: inj_on_def testIdentityKey_iff)
  then show "distinct (map (\<lambda>t. testIdentityKey (it_identity t)) (identifyModuleTests location nps))"
    by (simp add: o_def)
qed (simp add: identifyModuleTests_eq identity_at_def)

end
