(* ===== verification/FactTypes.thy ===== *)
theory FactTypes
  imports Evidence
begin

text \<open>
  The facts an experiment's judgement is decided from (\<^verbatim>\<open>falsify/fact-types.ts\<close>) and the
  records they are read from (\<^verbatim>\<open>falsify/experiment-record.ts\<close>). A discriminated union of the
  source is a datatype, an optional field an option; an interface that extends another is a record
  that extends the other's.
\<close>

section \<open>Records of a run\<close>

text \<open>Vitest's state of a test's result, as the source's switches list it.\<close>

datatype VTestState = VPending | VPassed | VFailed | VSkipped

datatype ReachUnknownReason = NotObserved | Unattributed | NoProbe

datatype Reach = InTest | OutsideTest | NotExecuted | UnknownReach ReachUnknownReason

datatype NoProbeSite =
    PositionSite (site_line: nat) (site_column: nat) (site_nodeKind: string) (site_role: string)
  | UnparsedSite "nat option" "nat option" "nat option"

text \<open>The place of a written probe (\<open>'site\<close>) is carried and never read by a judgement.\<close>

datatype 'site ProbePlacement = ProbePlaced 'site | ProbeNotPlaced NoProbeSite

datatype 'site MutationLoad = Applied "'site ProbePlacement" | NotAppliedLoad (load_occurrences: nat)

fun applied :: "'site MutationLoad \<Rightarrow> bool" where
  "applied (Applied _) = True"
| "applied (NotAppliedLoad _) = False"

type_synonym HookStates = "(string, string) jsmap"

text \<open>An error as Vitest serialized it: its own fields.\<close>

type_synonym RawError = "(string \<times> json) list"

record ModuleReport =
  mr_projectName :: string
  mr_modulePath :: string

record RecordedRunTest = IdentifiedTest +
  rt_mode :: string
  rt_state :: VTestState
  rt_errors :: "RawError list"
  rt_repeats :: "nat option"
  rt_hooks :: "HookStates option"
  rt_reach :: "Reach option"

record RecordedSuiteErrors =
  rs_namePath :: "string list"
  rs_errors :: "RawError list"

datatype RecordedRunModuleState =
    CollectedModule (cm_state: string) (cm_errors: "RawError list")
      (cm_suiteErrors: "RecordedSuiteErrors list") (cm_tests: "RecordedRunTest list")
  | UncollectedModule (um_state: string)

record RecordedRunModule = ModuleReport +
  rm_body :: RecordedRunModuleState

datatype RunExecution = Completed | InterruptedRun

record RunRecord =
  rr_execution :: RunExecution
  rr_forceStopped :: bool
  rr_cancelError :: "string option"
  rr_modules :: "RecordedRunModule list"
  rr_unhandledErrors :: "RawError list"
  rr_unhandledErrorModules :: "ModuleReport list list"

datatype UnrecordedKind = StaleModules | RunFailed

text \<open>A run that left no record: the modules still stale, or the text of what was thrown.\<close>

datatype UnrecordedRun = StaleModulesRun "string list" | RunFailedRun string

fun unrecordedKind :: "UnrecordedRun \<Rightarrow> UnrecordedKind" where
  "unrecordedKind (StaleModulesRun _) = StaleModules"
| "unrecordedKind (RunFailedRun _) = RunFailed"

datatype RunOutcome = RunRecorded RunRecord | RunUnrecorded UnrecordedRun

datatype ExperimentNotRun =
    EBaselineNotPassed "VTestState option"
  | EBaselineNotRun
  | ENoModule
  | EUnreadable string
  | EAnchorCount nat
  | ENoProbeSite NoProbeSite
  | ERunUnrecorded UnrecordedRun
  | EInterrupted

datatype 'site ConfirmingRun =
    ConfirmingRan RunRecord "'site MutationLoad list"
  | ConfirmingUnrecorded UnrecordedRun
  | ConfirmingInterrupted

datatype 'site ExperimentStatus =
    ExperimentRan RunRecord "'site MutationLoad list" "'site ConfirmingRun option"
  | ExperimentNotRunBecause ExperimentNotRun

record 'site ExperimentRecord =
  er_defectId :: string
  er_status :: "'site ExperimentStatus"
  er_mutationFileDigest :: "string option"

record 'site JobRuns =
  jr_interrupted :: bool
  jr_baseline :: "RunOutcome option"
  jr_experiments :: "'site ExperimentRecord list"
  jr_restoredBaseline :: "RunOutcome option"

section \<open>Facts\<close>

datatype AssertionMarker = AssertionErrorName | ExtendedMatcher | DeclaredName

datatype ErrorFact =
    AssertionError AssertionMarker "string option"
  | OtherError "string option"

fun isAssertion :: "ErrorFact \<Rightarrow> bool" where
  "isAssertion (AssertionError _ _) = True"
| "isAssertion (OtherError _) = False"

record TestFacts =
  tf_state :: VTestState
  tf_mode :: string
  tf_errors :: "ErrorFact list"
  tf_repeats :: "nat option"
  tf_hooks :: "HookStates option"
  tf_reach :: "Reach option"

record FailingSuite =
  fs_namePath :: "string list"
  fs_errorCount :: nat

datatype ModuleFacts =
    Collected (mf_errorCount: nat) (mf_failingSuites: "FailingSuite list")
  | NotCollected (mf_state: string)

record RunEnding =
  re_execution :: RunExecution
  re_forceStopped :: bool
  re_cancelFailed :: bool

record RunFacts =
  rf_test :: "TestFacts option"
  rf_module :: "ModuleFacts option"
  rf_unhandledErrorCount :: nat
  rf_ending :: RunEnding

record BaselineFacts = RunFacts +
  bf_countedUnhandledErrorCount :: nat
  bf_unnamedUnhandledErrorCount :: nat

record 'site ExperimentRunFacts = RunFacts +
  xf_mutation :: "'site MutationLoad list"

datatype 'site ConfirmingFacts =
    ConfirmingFactsRan "'site ExperimentRunFacts"
  | ConfirmingFactsUnrecorded UnrecordedKind
  | ConfirmingFactsInterrupted

datatype RestoredBaselineFacts = Restored BaselineFacts | RestoredUnrecorded UnrecordedKind

datatype NextRunFact = NextRecorded nat | NextUnrecorded

datatype NotRunFact =
    NotRunBaselineNotPassed
  | NotRunBaselineNotRun
  | NotRunNoModule
  | NotRunUnreadable
  | NotRunInterrupted
  | NotRunAnchorCount nat
  | NotRunNoProbeSite NoProbeSite
  | NotRunUnrecorded UnrecordedKind

record JobFacts =
  jf_unhandledErrorCount :: nat
  jf_closed :: bool

record SharedFacts =
  sf_baseline :: "BaselineFacts option"
  sf_restoredBaseline :: "RestoredBaselineFacts option"
  sf_job :: JobFacts

datatype 'site ExperimentBody =
    BodyNotRun NotRunFact
  | BodyRan "'site ExperimentRunFacts" "'site ConfirmingFacts option" "NextRunFact option"

record 'site ExperimentFacts = SharedFacts +
  ef_body :: "'site ExperimentBody"

end
