(* ===== verification/Verdict.thy ===== *)
theory Verdict
  imports FactTypes
begin

text \<open>
  An experiment's judgement (\<^verbatim>\<open>falsify/verdict.ts\<close>): each function of the file is one definition,
  its early returns the branches in the source's order. The properties say what a verdict promises:
  a detection holds exactly under the conditions RT Test documents for one.
\<close>

section \<open>Verdicts and reasons\<close>

datatype UnexecutedDetail = NeverTransformed | NotAppliedTimes nat

datatype InvalidReason =
    InvNoProbeSite NoProbeSite
  | InvNoModule
  | InvBaselineNotPassed "(VTestState \<times> string) option"
  | InvBaselineNotClean
  | InvRestoredBaselineNotPassed
  | InvRestoredBaselineNotClean
  | InvRunNotClean
  | InvModuleFailed
  | InvSuiteError "string list"
  | InvTestNotRun "VTestState option"
  | InvHookNotPassed string "string option"
  | InvTestRepeated nat
  | InvSiteNotExecuted "UnexecutedDetail option"
  | InvReachUnknown "ReachUnknownReason option"

datatype UnclearRun = NotAnAssertion | UnhandledError

datatype RunReading =
    RSurvived
  | RInvalid InvalidReason
  | RUnclear UnclearRun
  | RWouldDetect

datatype Unclear =
    UnclearOfRun UnclearRun
  | ConfirmingRunDiffered RunReading
  | NextRunUnclean
  | JobUnclean

datatype NoVerdictReason =
    NvInterrupted
  | NvMutationFileUnreadable
  | NvAnchorCount nat
  | NvBaselineUnrecorded
  | NvRunUnrecorded
  | NvConfirmingRunUnrecorded
  | NvRestoredBaselineUnrecorded

datatype Judgement =
    Detected
  | Survived
  | InvalidExperiment InvalidReason
  | UnclearExperiment Unclear
  | NoVerdict NoVerdictReason

section \<open>Reading one run\<close>

definition passed :: "'a RunFacts_scheme \<Rightarrow> bool" where
  "passed run = (case rf_test run of Some test \<Rightarrow> tf_state test = VPassed | None \<Rightarrow> False)"

definition endedCleanly :: "RunEnding \<Rightarrow> bool" where
  "endedCleanly ending =
     (re_execution ending = Completed \<and> \<not> re_forceStopped ending \<and> \<not> re_cancelFailed ending)"

definition untroubled :: "'a BaselineFacts_scheme \<Rightarrow> bool" where
  "untroubled baseline =
     (endedCleanly (rf_ending baseline) \<and> bf_countedUnhandledErrorCount baseline = 0)"

definition readModule :: "ModuleFacts option \<Rightarrow> RunReading option" where
  "readModule module =
     (case module of
        None \<Rightarrow> Some (RInvalid InvModuleFailed)
      | Some (NotCollected _) \<Rightarrow> Some (RInvalid InvModuleFailed)
      | Some (Collected errorCount failingSuites) \<Rightarrow>
          (if errorCount > 0 then Some (RInvalid InvModuleFailed)
           else (case failingSuites of
                   [] \<Rightarrow> None
                 | suite # _ \<Rightarrow> Some (RInvalid (InvSuiteError (fs_namePath suite))))))"

definition requiredHook :: string where
  "requiredHook = ''beforeEach''"

definition hookPassed :: string where
  "hookPassed = ''pass''"

fun firstFailedHook :: "HookStates \<Rightarrow> RunReading option" where
  "firstFailedHook [] = None"
| "firstFailedHook ((hook, state) # rest) =
     (if state \<noteq> hookPassed then Some (RInvalid (InvHookNotPassed hook (Some state)))
      else firstFailedHook rest)"

definition readHooks :: "HookStates option \<Rightarrow> RunReading option" where
  "readHooks hooks =
     (case hooks of
        None \<Rightarrow> Some (RInvalid (InvHookNotPassed requiredHook None))
      | Some hs \<Rightarrow>
          (if map_of hs requiredHook = None
           then Some (RInvalid (InvHookNotPassed requiredHook None))
           else firstFailedHook hs))"

definition readRepeats :: "TestFacts \<Rightarrow> RunReading option" where
  "readRepeats test =
     (case tf_repeats test of
        Some repeats \<Rightarrow> (if tf_state test \<noteq> VFailed then None else Some (RInvalid (InvTestRepeated repeats)))
      | None \<Rightarrow> None)"

definition unexecutedDetail :: "'site MutationLoad list \<Rightarrow> UnexecutedDetail option" where
  "unexecutedDetail loads =
     (case loads of
        [] \<Rightarrow> Some NeverTransformed
      | Applied _ # _ \<Rightarrow> None
      | NotAppliedLoad occurrences # _ \<Rightarrow>
          (if list_ex applied loads then None else Some (NotAppliedTimes occurrences)))"

definition readReach :: "Reach option \<Rightarrow> 'site MutationLoad list \<Rightarrow> RunReading option" where
  "readReach reach mutation =
     (case reach of
        None \<Rightarrow> Some (RInvalid (InvReachUnknown None))
      | Some InTest \<Rightarrow> None
      | Some OutsideTest \<Rightarrow> None
      | Some NotExecuted \<Rightarrow> Some (RInvalid (InvSiteNotExecuted (unexecutedDetail mutation)))
      | Some (UnknownReach reason) \<Rightarrow> Some (RInvalid (InvReachUnknown (Some reason))))"

definition readBody :: "TestFacts \<Rightarrow> nat \<Rightarrow> RunReading" where
  "readBody test unhandledErrorCount =
     (if tf_state test = VPassed then RSurvived
      else if tf_errors test = [] \<or> list_ex (\<lambda>e. \<not> isAssertion e) (tf_errors test)
        then RUnclear NotAnAssertion
      else if unhandledErrorCount > 0 then RUnclear UnhandledError
      else RWouldDetect)"

text \<open>The source's \<^verbatim>\<open>a ?? b\<close>.\<close>

fun or_else :: "'a option \<Rightarrow> 'a option \<Rightarrow> 'a option" where
  "or_else (Some x) _ = Some x"
| "or_else None y = y"

definition readRun :: "'site ExperimentRunFacts \<Rightarrow> RunReading" where
  "readRun run =
     (if \<not> endedCleanly (rf_ending run) then RInvalid InvRunNotClean
      else case readModule (rf_module run) of
        Some trouble \<Rightarrow> trouble
      | None \<Rightarrow>
          (case rf_test run of
             None \<Rightarrow> RInvalid (InvTestNotRun None)
           | Some test \<Rightarrow>
               (if tf_state test \<noteq> VPassed \<and> tf_state test \<noteq> VFailed
                then RInvalid (InvTestNotRun (Some (tf_state test)))
                else case or_else (readHooks (tf_hooks test))
                       (or_else (readRepeats test) (readReach (tf_reach test) (xf_mutation run))) of
                       Some reading \<Rightarrow> reading
                     | None \<Rightarrow> readBody test (rf_unhandledErrorCount run))))"

definition isWouldBeDetection :: "'site ExperimentRunFacts \<Rightarrow> bool" where
  "isWouldBeDetection run = (readRun run = RWouldDetect)"

section \<open>Judging an experiment\<close>

definition baselineNotPassed :: "BaselineFacts option \<Rightarrow> Judgement" where
  "baselineNotPassed baseline =
     InvalidExperiment (InvBaselineNotPassed
       (case baseline of
          None \<Rightarrow> None
        | Some b \<Rightarrow> map_option (\<lambda>test. (tf_state test, tf_mode test)) (rf_test b)))"

definition baselineTrouble :: "BaselineFacts \<Rightarrow> BaselineFacts \<Rightarrow> Judgement option" where
  "baselineTrouble baseline restored =
     (if \<not> passed baseline then Some (baselineNotPassed (Some baseline))
      else if \<not> untroubled baseline then Some (InvalidExperiment InvBaselineNotClean)
      else if \<not> passed restored then Some (InvalidExperiment InvRestoredBaselineNotPassed)
      else if \<not> untroubled restored then Some (InvalidExperiment InvRestoredBaselineNotClean)
      else None)"

fun settledJudgement :: "RunReading \<Rightarrow> Judgement" where
  "settledJudgement RSurvived = Survived"
| "settledJudgement (RInvalid reason) = InvalidExperiment reason"
| "settledJudgement (RUnclear reason) = UnclearExperiment (UnclearOfRun reason)"
| "settledJudgement RWouldDetect = Detected"

definition judgeRuns :: "'site ExperimentRunFacts \<Rightarrow> 'site ExperimentRunFacts option \<Rightarrow>
    NextRunFact option \<Rightarrow> JobFacts \<Rightarrow> Judgement" where
  "judgeRuns run confirming nextRun job =
     (let first = readRun run in
      if first \<noteq> RWouldDetect then settledJudgement first
      else case confirming of
        None \<Rightarrow> NoVerdict NvConfirmingRunUnrecorded
      | Some second_run \<Rightarrow>
          (let second = readRun second_run in
           if second \<noteq> RWouldDetect then UnclearExperiment (ConfirmingRunDiffered second)
           else if (case nextRun of Some (NextRecorded n) \<Rightarrow> n > 0 | _ \<Rightarrow> True)
             then UnclearExperiment NextRunUnclean
           else if jf_unhandledErrorCount job > 0 \<or> \<not> jf_closed job
             then UnclearExperiment JobUnclean
           else Detected))"

definition judgeNotRun :: "NotRunFact \<Rightarrow> BaselineFacts option \<Rightarrow> Judgement" where
  "judgeNotRun notRun baseline =
     (case notRun of
        NotRunInterrupted \<Rightarrow> NoVerdict NvInterrupted
      | NotRunUnreadable \<Rightarrow> NoVerdict NvMutationFileUnreadable
      | NotRunAnchorCount count \<Rightarrow> NoVerdict (NvAnchorCount count)
      | NotRunBaselineNotRun \<Rightarrow> NoVerdict NvBaselineUnrecorded
      | NotRunUnrecorded _ \<Rightarrow> NoVerdict NvRunUnrecorded
      | NotRunNoProbeSite site \<Rightarrow> InvalidExperiment (InvNoProbeSite site)
      | NotRunNoModule \<Rightarrow> InvalidExperiment InvNoModule
      | NotRunBaselineNotPassed \<Rightarrow> baselineNotPassed baseline)"

text \<open>The confirming run narrowed to one that left a record, which is all \<open>judgeRuns\<close> is given.\<close>

definition judgeRan :: "SharedFacts \<Rightarrow> 'site ExperimentRunFacts \<Rightarrow> 'site ConfirmingFacts option \<Rightarrow>
    NextRunFact option \<Rightarrow> Judgement" where
  "judgeRan shared run confirming nextRun =
     (case sf_baseline shared of
        None \<Rightarrow> NoVerdict NvBaselineUnrecorded
      | Some baseline \<Rightarrow>
          (let judged = (\<lambda>confirmed.
             case sf_restoredBaseline shared of
               Some (Restored restored) \<Rightarrow>
                 (case baselineTrouble baseline restored of
                    Some judgement \<Rightarrow> judgement
                  | None \<Rightarrow> judgeRuns run confirmed nextRun (sf_job shared))
             | _ \<Rightarrow> NoVerdict NvRestoredBaselineUnrecorded)
           in case confirming of
                None \<Rightarrow> judged None
              | Some (ConfirmingFactsRan confirmed) \<Rightarrow> judged (Some confirmed)
              | Some _ \<Rightarrow> NoVerdict NvConfirmingRunUnrecorded))"

definition judge :: "'site ExperimentFacts \<Rightarrow> Judgement" where
  "judge facts =
     (case ef_body facts of
        BodyNotRun notRun \<Rightarrow> judgeNotRun notRun (sf_baseline facts)
      | BodyRan run confirming nextRun \<Rightarrow>
          judgeRan (SharedFacts.truncate facts) run confirming nextRun)"

section \<open>What one run shows\<close>

text \<open>The conditions of a would-be detection, as the documentation lists them.\<close>

definition hooksPassed :: "HookStates option \<Rightarrow> bool" where
  "hooksPassed hooks =
     (case hooks of None \<Rightarrow> False
      | Some hs \<Rightarrow> requiredHook \<in> set (keys hs) \<and> (\<forall>(hook, state) \<in> set hs. state = hookPassed))"

definition siteExecuted :: "Reach option \<Rightarrow> bool" where
  "siteExecuted reach = (reach = Some InTest \<or> reach = Some OutsideTest)"

definition moduleSound :: "ModuleFacts option \<Rightarrow> bool" where
  "moduleSound module = (module = Some (Collected 0 []))"

definition failsByAssertion :: "TestFacts \<Rightarrow> bool" where
  "failsByAssertion test =
     (tf_state test = VFailed \<and> tf_errors test \<noteq> [] \<and> (\<forall>e \<in> set (tf_errors test). isAssertion e))"

definition showsDetection :: "'site ExperimentRunFacts \<Rightarrow> bool" where
  "showsDetection run =
     (endedCleanly (rf_ending run) \<and> moduleSound (rf_module run) \<and> rf_unhandledErrorCount run = 0 \<and>
      (case rf_test run of
         None \<Rightarrow> False
       | Some test \<Rightarrow> failsByAssertion test \<and> hooksPassed (tf_hooks test) \<and>
           tf_repeats test = None \<and> siteExecuted (tf_reach test)))"

definition showsSurvival :: "'site ExperimentRunFacts \<Rightarrow> bool" where
  "showsSurvival run =
     (endedCleanly (rf_ending run) \<and> moduleSound (rf_module run) \<and>
      (case rf_test run of
         None \<Rightarrow> False
       | Some test \<Rightarrow> tf_state test = VPassed \<and> hooksPassed (tf_hooks test) \<and>
           siteExecuted (tf_reach test)))"

lemma or_else_None [simp]: "or_else a b = None \<longleftrightarrow> a = None \<and> b = None"
  by (cases a) auto

lemma or_else_Some: "or_else a b = Some c \<longleftrightarrow> a = Some c \<or> a = None \<and> b = Some c"
  by (cases a) auto

lemma readModule_None: "readModule module = None \<longleftrightarrow> moduleSound module"
  by (auto simp: readModule_def moduleSound_def split: option.splits ModuleFacts.splits list.splits)

lemma firstFailedHook_None:
  "firstFailedHook hs = None \<longleftrightarrow> (\<forall>(hook, state) \<in> set hs. state = hookPassed)"
  by (induction hs rule: firstFailedHook.induct) auto

lemma readHooks_None: "readHooks hooks = None \<longleftrightarrow> hooksPassed hooks"
  by (auto simp: readHooks_def hooksPassed_def firstFailedHook_None in_keys_iff split: option.splits)

lemma readRepeats_None: "readRepeats test = None \<longleftrightarrow> tf_repeats test = None \<or> tf_state test \<noteq> VFailed"
  by (auto simp: readRepeats_def split: option.splits)

lemma readReach_None: "readReach reach mutation = None \<longleftrightarrow> siteExecuted reach"
  by (auto simp: readReach_def siteExecuted_def split: option.splits Reach.splits)

lemmas read_None = readModule_None readHooks_None readRepeats_None readReach_None

text \<open>A reading taken before the body is never a verdict on the test.\<close>

lemma readModule_invalid: "readModule module = Some r \<Longrightarrow> \<exists>i. r = RInvalid i"
  by (auto simp: readModule_def split: option.splits ModuleFacts.splits list.splits if_splits)

lemma firstFailedHook_invalid: "firstFailedHook hs = Some r \<Longrightarrow> \<exists>i. r = RInvalid i"
  by (induction hs rule: firstFailedHook.induct) (auto split: if_splits)

lemma readHooks_invalid: "readHooks hooks = Some r \<Longrightarrow> \<exists>i. r = RInvalid i"
  by (auto simp: readHooks_def firstFailedHook_invalid split: option.splits if_splits)

lemma readRepeats_invalid: "readRepeats test = Some r \<Longrightarrow> \<exists>i. r = RInvalid i"
  by (auto simp: readRepeats_def split: option.splits if_splits)

lemma readReach_invalid: "readReach reach mutation = Some r \<Longrightarrow> \<exists>i. r = RInvalid i"
  by (auto simp: readReach_def split: option.splits Reach.splits)

lemmas read_invalid = readModule_invalid readHooks_invalid readRepeats_invalid readReach_invalid

lemma readBody_WouldDetect:
  "readBody test n = RWouldDetect \<longleftrightarrow>
     tf_state test \<noteq> VPassed \<and> tf_errors test \<noteq> [] \<and> (\<forall>e \<in> set (tf_errors test). isAssertion e) \<and> n = 0"
  by (auto simp: readBody_def list_ex_iff)

lemma readBody_Survived: "readBody test n = RSurvived \<longleftrightarrow> tf_state test = VPassed"
  by (simp add: readBody_def)

lemma readRun_cases:
  assumes "r \<in> {RWouldDetect, RSurvived}"
  shows "readRun run = r \<longleftrightarrow>
     endedCleanly (rf_ending run) \<and> moduleSound (rf_module run) \<and>
     (\<exists>test. rf_test run = Some test \<and> tf_state test \<in> {VPassed, VFailed} \<and>
        hooksPassed (tf_hooks test) \<and> (tf_repeats test = None \<or> tf_state test \<noteq> VFailed) \<and>
        siteExecuted (tf_reach test) \<and> readBody test (rf_unhandledErrorCount run) = r)"
    (is "?l \<longleftrightarrow> ?r")
proof
  assume ?l
  with assms show ?r
    unfolding readRun_def
    by (auto simp: read_None or_else_Some dest!: read_invalid split: if_splits option.splits)
next
  assume ?r
  then obtain test where t: "rf_test run = Some test" "tf_state test \<in> {VPassed, VFailed}"
      "readHooks (tf_hooks test) = None" "readRepeats test = None"
      "readReach (tf_reach test) (xf_mutation run) = None"
      "readBody test (rf_unhandledErrorCount run) = r"
    and "endedCleanly (rf_ending run)" "readModule (rf_module run) = None"
    by (auto simp: read_None)
  then show ?l by (auto simp: readRun_def)
qed

lemma readRun_WouldDetect: "readRun run = RWouldDetect \<longleftrightarrow> showsDetection run"
  by (subst readRun_cases)
     (auto simp: showsDetection_def failsByAssertion_def readBody_WouldDetect split: option.splits)

lemma readRun_Survived: "readRun run = RSurvived \<longleftrightarrow> showsSurvival run"
  by (subst readRun_cases)
     (auto simp: showsSurvival_def readBody_Survived split: option.splits)

lemma settledJudgement_Detected: "settledJudgement r = Detected \<longleftrightarrow> r = RWouldDetect"
  by (cases r) auto

lemma settledJudgement_Survived: "settledJudgement r = Survived \<longleftrightarrow> r = RSurvived"
  by (cases r) auto

section \<open>What a judgement shows\<close>

definition baselineSound :: "BaselineFacts \<Rightarrow> bool" where
  "baselineSound b = (passed b \<and> endedCleanly (rf_ending b) \<and> bf_countedUnhandledErrorCount b = 0)"

lemma baselineTrouble_None:
  "baselineTrouble b r = None \<longleftrightarrow> baselineSound b \<and> baselineSound r"
  by (auto simp: baselineTrouble_def baselineSound_def untroubled_def)

lemma baselineTrouble_invalid: "baselineTrouble b r = Some j \<Longrightarrow> \<exists>i. j = InvalidExperiment i"
  by (auto simp: baselineTrouble_def baselineNotPassed_def split: if_splits)

lemma judgeRuns_Detected:
  "judgeRuns run confirming nextRun job = Detected \<longleftrightarrow>
     showsDetection run \<and> (\<exists>second. confirming = Some second \<and> showsDetection second) \<and>
     nextRun = Some (NextRecorded 0) \<and> jf_unhandledErrorCount job = 0 \<and> jf_closed job"
  by (auto simp: judgeRuns_def Let_def settledJudgement_Detected readRun_WouldDetect
      split: option.splits NextRunFact.splits)

lemma judgeRuns_Survived:
  "judgeRuns run confirming nextRun job = Survived \<longleftrightarrow> showsSurvival run"
  by (auto simp: judgeRuns_def Let_def settledJudgement_Survived readRun_Survived [symmetric]
      split: option.splits NextRunFact.splits)

lemma judgeNotRun_no_verdict_on_test:
  "judgeNotRun notRun baseline \<noteq> Detected" "judgeNotRun notRun baseline \<noteq> Survived"
  by (auto simp: judgeNotRun_def baselineNotPassed_def split: NotRunFact.splits)

definition confirmedBy :: "'site ConfirmingFacts option \<Rightarrow> 'site ExperimentRunFacts option \<Rightarrow> bool" where
  "confirmedBy confirming confirmed =
     (confirming = map_option ConfirmingFactsRan confirmed)"

lemma confirmed_ex [simp]:
  "(\<exists>c. Some (ConfirmingFactsRan x) = map_option ConfirmingFactsRan c \<and> P c) \<longleftrightarrow> P (Some x)"
  by (metis not_Some_eq option.simps(8,9) option.inject ConfirmingFacts.inject(1))

lemma judgeRan_cases:
  assumes "j = Detected \<or> j = Survived"
  shows "judgeRan shared run confirming nextRun = j \<longleftrightarrow>
     (\<exists>b r confirmed. sf_baseline shared = Some b \<and> sf_restoredBaseline shared = Some (Restored r) \<and>
        baselineSound b \<and> baselineSound r \<and> confirmedBy confirming confirmed \<and>
        judgeRuns run confirmed nextRun (sf_job shared) = j)"
    (is "?l \<longleftrightarrow> ?r")
proof
  assume ?l
  with assms show ?r
    unfolding judgeRan_def Let_def
    by (auto simp: baselineTrouble_None confirmedBy_def dest!: baselineTrouble_invalid
        split: option.splits ConfirmingFacts.splits RestoredBaselineFacts.splits)
next
  assume ?r
  then obtain b r confirmed where *: "sf_baseline shared = Some b"
      "sf_restoredBaseline shared = Some (Restored r)" "baselineTrouble b r = None"
      "confirming = map_option ConfirmingFactsRan confirmed"
      "judgeRuns run confirmed nextRun (sf_job shared) = j"
    by (auto simp: baselineTrouble_None confirmedBy_def)
  then show ?l by (cases confirmed) (simp_all add: judgeRan_def)
qed

lemma truncate_fields [simp]:
  "sf_baseline (SharedFacts.truncate f) = sf_baseline f"
  "sf_restoredBaseline (SharedFacts.truncate f) = sf_restoredBaseline f"
  "sf_job (SharedFacts.truncate f) = sf_job f"
  by (cases f; simp add: SharedFacts.truncate_def)+

lemma judge_Detected:
  "judge facts = Detected \<longleftrightarrow>
     (\<exists>b r run second.
        sf_baseline facts = Some b \<and> baselineSound b \<and>
        sf_restoredBaseline facts = Some (Restored r) \<and> baselineSound r \<and>
        ef_body facts = BodyRan run (Some (ConfirmingFactsRan second)) (Some (NextRecorded 0)) \<and>
        showsDetection run \<and> showsDetection second \<and>
        jf_unhandledErrorCount (sf_job facts) = 0 \<and> jf_closed (sf_job facts))"
  by (cases "ef_body facts")
     (auto simp: judge_def judgeNotRun_no_verdict_on_test judgeRan_cases judgeRuns_Detected
       confirmedBy_def)

section \<open>Properties\<close>

text \<open>
  C6. A named defect counts as detected exactly when all of this holds: the unmutated test passed and
  its run ended cleanly with no unhandled error against it, before the experiment and again once the
  mutation was removed; with the mutation the test failed in two runs, in each of them at assertions
  alone, with the mutated site executed, every hook passed, no repeat and no unhandled error, in a
  module that loaded soundly; and the run started next and the job's own end were clean.
\<close>

theorem judge_detected_iff:
  "judge facts = Detected \<longleftrightarrow>
     (\<exists>b r run second.
        sf_baseline facts = Some b \<and> baselineSound b \<and>
        sf_restoredBaseline facts = Some (Restored r) \<and> baselineSound r \<and>
        ef_body facts = BodyRan run (Some (ConfirmingFactsRan second)) (Some (NextRecorded 0)) \<and>
        showsDetection run \<and> showsDetection second \<and>
        jf_unhandledErrorCount (sf_job facts) = 0 \<and> jf_closed (sf_job facts))"
  by (rule judge_Detected)

text \<open>
  C12. A defect reads as survived exactly when both baselines are sound, the mutated test passed in a
  clean run with every hook passed and the mutated site executed, and no confirming run is recorded
  as having failed to leave a record: a mutation that never executed, or that a hook or the module
  hid, never reads as survived.
\<close>

theorem judge_survived_iff:
  "judge facts = Survived \<longleftrightarrow>
     (\<exists>b r run confirmed nextRun.
        sf_baseline facts = Some b \<and> baselineSound b \<and>
        sf_restoredBaseline facts = Some (Restored r) \<and> baselineSound r \<and>
        ef_body facts = BodyRan run (map_option ConfirmingFactsRan confirmed) nextRun \<and>
        showsSurvival run)"
  by (cases "ef_body facts")
     (auto simp: judge_def judgeNotRun_no_verdict_on_test judgeRan_cases judgeRuns_Survived
       confirmedBy_def)

text \<open>
  The first run and the confirming run of an experiment are read alike, and a run would be a
  detection exactly when it ended cleanly in a soundly loaded module, the test failed with at least
  one error and only assertions, every hook passed, nothing was repeated, the mutated site executed
  and no error went unhandled.
\<close>

theorem isWouldBeDetection_iff:
  "isWouldBeDetection run \<longleftrightarrow>
     re_execution (rf_ending run) = Completed \<and> \<not> re_forceStopped (rf_ending run) \<and>
     \<not> re_cancelFailed (rf_ending run) \<and> rf_module run = Some (Collected 0 []) \<and>
     rf_unhandledErrorCount run = 0 \<and>
     (\<exists>test hooks. rf_test run = Some test \<and> tf_state test = VFailed \<and>
        tf_errors test \<noteq> [] \<and> list_all isAssertion (tf_errors test) \<and>
        tf_hooks test = Some hooks \<and> map_of hooks ''beforeEach'' \<noteq> None \<and>
        list_all (\<lambda>(hook, state). state = ''pass'') hooks \<and>
        tf_repeats test = None \<and> tf_reach test \<in> {Some InTest, Some OutsideTest})"
  unfolding isWouldBeDetection_def readRun_WouldDetect
  by (auto simp: showsDetection_def endedCleanly_def moduleSound_def failsByAssertion_def
      hooksPassed_def siteExecuted_def requiredHook_def hookPassed_def in_keys_iff list_all_iff
      split: option.splits)

text \<open>
  What an unclear experiment says of its confirming run is always that run's own settled
  reading: never a detection, so a repeated detection is never reported as a difference.
\<close>

theorem confirming_detail_settled:
  "judge facts = UnclearExperiment (ConfirmingRunDiffered reading) \<Longrightarrow>
     reading \<noteq> RWouldDetect \<and>
     (\<exists>run second nextRun. ef_body facts = BodyRan run (Some (ConfirmingFactsRan second)) nextRun \<and>
        showsDetection run \<and> \<not> showsDetection second \<and> readRun second = reading)"
  by (auto simp: judge_def judgeNotRun_def judgeRan_def judgeRuns_def baselineNotPassed_def Let_def
      readRun_WouldDetect [symmetric] elim: settledJudgement.elims dest!: baselineTrouble_invalid
      split: ExperimentBody.splits NotRunFact.splits option.splits ConfirmingFacts.splits
        RestoredBaselineFacts.splits NextRunFact.splits if_splits)

definition cleanEnding :: RunEnding where
  "cleanEnding = \<lparr>re_execution = Completed, re_forceStopped = False, re_cancelFailed = False\<rparr>"

definition sampleTest :: "VTestState \<Rightarrow> TestFacts" where
  "sampleTest state = \<lparr>tf_state = state, tf_mode = ''run'',
     tf_errors = (if state = VFailed then [AssertionError AssertionErrorName None] else []),
     tf_repeats = None, tf_hooks = Some [(''beforeEach'', ''pass'')], tf_reach = Some InTest\<rparr>"

definition sampleBaseline :: BaselineFacts where
  "sampleBaseline = \<lparr>rf_test = Some (sampleTest VPassed), rf_module = Some (Collected 0 []),
     rf_unhandledErrorCount = 0, rf_ending = cleanEnding,
     bf_countedUnhandledErrorCount = 0, bf_unnamedUnhandledErrorCount = 0\<rparr>"

definition sampleRun :: "VTestState \<Rightarrow> unit ExperimentRunFacts" where
  "sampleRun state = \<lparr>rf_test = Some (sampleTest state), rf_module = Some (Collected 0 []),
     rf_unhandledErrorCount = 0, rf_ending = cleanEnding, xf_mutation = []\<rparr>"

definition sampleFacts :: "unit ExperimentFacts" where
  "sampleFacts = \<lparr>sf_baseline = Some sampleBaseline, sf_restoredBaseline = Some (Restored sampleBaseline),
     sf_job = \<lparr>jf_unhandledErrorCount = 0, jf_closed = True\<rparr>,
     ef_body = BodyRan (sampleRun VFailed) (Some (ConfirmingFactsRan (sampleRun VPassed)))
       (Some (NextRecorded 0))\<rparr>"

lemmas sample_defs = sampleFacts_def sampleRun_def sampleBaseline_def sampleTest_def cleanEnding_def

lemma sampleFacts_judged:
  "judge sampleFacts = UnclearExperiment (ConfirmingRunDiffered RSurvived)"
  by code_simp

text \<open>A test that failed once and passed when its mutation was repeated.\<close>

theorem confirming_detail_settled_witness: "RSurvived \<noteq> RWouldDetect \<and> \<not> showsDetection (sampleRun VPassed)"
  using confirming_detail_settled [OF sampleFacts_judged] by (auto simp: sampleFacts_def)

end
