(* ===== verification/RawFacts.thy ===== *)
theory RawFacts
  imports Verdict
begin

text \<open>
  How an experiment's facts are read from a job's raw records (\<^verbatim>\<open>falsify/run-facts.ts\<close> and
  \<^verbatim>\<open>testResultIn\<close> of \<^verbatim>\<open>falsify/experiment-record.ts\<close>), one definition per function. The
  properties carry the verdict's promises down to the raw records.
\<close>

section \<open>The test of an experiment\<close>

record DefectExperiment =
  de_defectId :: string
  de_test :: TestIdentity

record JobEnd =
  je_unhandledErrors :: "string list"
  je_closeError :: "string option"

fun testResultInModules :: "RecordedRunModule list \<Rightarrow> string \<Rightarrow> RecordedRunTest option" where
  "testResultInModules [] key = None"
| "testResultInModules (module # rest) key =
     (case rm_body module of
        UncollectedModule _ \<Rightarrow> testResultInModules rest key
      | CollectedModule _ _ _ tests \<Rightarrow>
          (case find (\<lambda>test. testIdentityKey (it_identity test) = key) tests of
             Some found \<Rightarrow> Some found
           | None \<Rightarrow> testResultInModules rest key))"

definition testResultIn :: "RunRecord \<Rightarrow> TestIdentity \<Rightarrow> RecordedRunTest option" where
  "testResultIn record identity = testResultInModules (rr_modules record) (testIdentityKey identity)"

section \<open>Errors\<close>

text \<open>A raw error is a plain object; \<^verbatim>\<open>Object.hasOwn\<close> reads its own fields alone.\<close>

definition ownField :: "RawError \<Rightarrow> string \<Rightarrow> json option" where
  "ownField error field = map_of error field"

text \<open>The group of \<^verbatim>\<open>/^Function<(.+)>$/s\<close>: a non-empty text between the two marks.\<close>

definition functionPrefix :: string where
  "functionPrefix = ''Function<''"

definition serializedFunction :: "string \<Rightarrow> string option" where
  "serializedFunction text =
     (if starts_with text functionPrefix \<and> ends_with text ''>'' \<and>
         length text > length functionPrefix + 1
      then Some (take (length text - length functionPrefix - 1) (drop (length functionPrefix) text))
      else None)"

definition className :: "RawError \<Rightarrow> string option" where
  "className error =
     (case ownField error ''constructor'' of
        Some (JStr serialized) \<Rightarrow> serializedFunction serialized
      | _ \<Rightarrow> None)"

definition plainErrorName :: string where
  "plainErrorName = ''Error''"

definition knownName :: "RawError \<Rightarrow> string option" where
  "knownName error =
     (case ownField error ''name'' of
        Some (JStr name) \<Rightarrow>
          (if name = plainErrorName then or_else (className error) (Some name) else Some name)
      | _ \<Rightarrow> None)"

definition isExtendedMatcherFailure :: "RawError \<Rightarrow> bool" where
  "isExtendedMatcherFailure error =
     (if className error \<noteq> Some ''JestExtendError'' then False
      else case ownField error ''__vitest_error_context__'' of
             Some (JObj context) \<Rightarrow>
               (case map_of context ''assertionName'' of Some (JStr _) \<Rightarrow> True | _ \<Rightarrow> False)
           | _ \<Rightarrow> False)"

definition assertionMarker :: "RawError \<Rightarrow> string option \<Rightarrow> string list \<Rightarrow> AssertionMarker option" where
  "assertionMarker error name assertionErrors =
     (if name = Some ''AssertionError'' then Some AssertionErrorName
      else if isExtendedMatcherFailure error then Some ExtendedMatcher
      else case name of
             Some n \<Rightarrow> (if n \<in> set assertionErrors then Some DeclaredName else None)
           | None \<Rightarrow> None)"

definition errorFact :: "RawError \<Rightarrow> string list \<Rightarrow> ErrorFact" where
  "errorFact error assertionErrors =
     (let name = knownName error in
      case assertionMarker error name assertionErrors of
        None \<Rightarrow> OtherError name
      | Some marker \<Rightarrow> AssertionError marker name)"

section \<open>Facts of a run\<close>

definition isTestModule :: "'a ModuleReport_scheme \<Rightarrow> TestIdentity \<Rightarrow> bool" where
  "isTestModule module identity =
     (mr_projectName module = projectName identity \<and> mr_modulePath module = modulePath identity)"

definition moduleFacts :: "RunRecord \<Rightarrow> TestIdentity \<Rightarrow> ModuleFacts option" where
  "moduleFacts record identity =
     (case find (\<lambda>candidate. isTestModule candidate identity) (rr_modules record) of
        None \<Rightarrow> None
      | Some module \<Rightarrow>
          (case rm_body module of
             UncollectedModule state \<Rightarrow> Some (NotCollected state)
           | CollectedModule _ errors suiteErrors _ \<Rightarrow>
               Some (Collected (length errors)
                 (map (\<lambda>suite. \<lparr>fs_namePath = rs_namePath suite,
                                fs_errorCount = length (rs_errors suite)\<rparr>) suiteErrors))))"

definition testFacts :: "RecordedRunTest \<Rightarrow> string list \<Rightarrow> TestFacts" where
  "testFacts test assertionErrors =
     \<lparr>tf_state = rt_state test, tf_mode = rt_mode test,
      tf_errors = map (\<lambda>error. errorFact error assertionErrors) (rt_errors test),
      tf_repeats = rt_repeats test, tf_hooks = rt_hooks test, tf_reach = rt_reach test\<rparr>"

definition runFacts :: "RunRecord \<Rightarrow> TestIdentity \<Rightarrow> string list \<Rightarrow> RunFacts" where
  "runFacts record identity assertionErrors =
     \<lparr>rf_test = map_option (\<lambda>test. testFacts test assertionErrors) (testResultIn record identity),
      rf_module = moduleFacts record identity,
      rf_unhandledErrorCount = length (rr_unhandledErrors record),
      rf_ending = \<lparr>re_execution = rr_execution record, re_forceStopped = rr_forceStopped record,
                   re_cancelFailed = (rr_cancelError record \<noteq> None)\<rparr>\<rparr>"

definition experimentRunFacts :: "RunRecord \<Rightarrow> 'site MutationLoad list \<Rightarrow> TestIdentity \<Rightarrow> string list \<Rightarrow>
    'site ExperimentRunFacts" where
  "experimentRunFacts record loads test assertionErrors =
     RunFacts.extend (runFacts record test assertionErrors) \<lparr>xf_mutation = loads\<rparr>"

definition countedModules :: "RunRecord \<Rightarrow> TestIdentity \<Rightarrow> ModuleReport list list" where
  "countedModules record identity =
     filter (\<lambda>modules. modules = [] \<or> list_ex (\<lambda>module. isTestModule module identity) modules)
       (rr_unhandledErrorModules record)"

definition baselineFacts :: "RunRecord \<Rightarrow> TestIdentity \<Rightarrow> string list \<Rightarrow> BaselineFacts" where
  "baselineFacts record identity assertionErrors =
     (let counted = countedModules record identity in
      RunFacts.extend (runFacts record identity assertionErrors)
        \<lparr>bf_countedUnhandledErrorCount = length counted,
         bf_unnamedUnhandledErrorCount = length (filter (\<lambda>modules. modules = []) counted)\<rparr>)"

definition restoredFacts :: "RunOutcome option \<Rightarrow> TestIdentity \<Rightarrow> string list \<Rightarrow>
    RestoredBaselineFacts option" where
  "restoredFacts outcome identity assertionErrors =
     (case outcome of
        None \<Rightarrow> None
      | Some (RunRecorded record) \<Rightarrow> Some (Restored (baselineFacts record identity assertionErrors))
      | Some (RunUnrecorded unrecorded) \<Rightarrow> Some (RestoredUnrecorded (unrecordedKind unrecorded)))"

definition confirmingFacts :: "'site ConfirmingRun \<Rightarrow> TestIdentity \<Rightarrow> string list \<Rightarrow>
    'site ConfirmingFacts" where
  "confirmingFacts confirming identity assertionErrors =
     (case confirming of
        ConfirmingRan run mutation \<Rightarrow>
          ConfirmingFactsRan (experimentRunFacts run mutation identity assertionErrors)
      | ConfirmingUnrecorded run \<Rightarrow> ConfirmingFactsUnrecorded (unrecordedKind run)
      | ConfirmingInterrupted \<Rightarrow> ConfirmingFactsInterrupted)"

fun notRunFact :: "ExperimentNotRun \<Rightarrow> NotRunFact" where
  "notRunFact (EAnchorCount count) = NotRunAnchorCount count"
| "notRunFact (ENoProbeSite site) = NotRunNoProbeSite site"
| "notRunFact (ERunUnrecorded run) = NotRunUnrecorded (unrecordedKind run)"
| "notRunFact (EBaselineNotPassed _) = NotRunBaselineNotPassed"
| "notRunFact EBaselineNotRun = NotRunBaselineNotRun"
| "notRunFact ENoModule = NotRunNoModule"
| "notRunFact (EUnreadable _) = NotRunUnreadable"
| "notRunFact EInterrupted = NotRunInterrupted"

section \<open>The run started next\<close>

definition recordedRun :: "RunRecord \<Rightarrow> NextRunFact" where
  "recordedRun record = NextRecorded (length (rr_unhandledErrors record))"

definition startedWithoutRecord :: "UnrecordedRun \<Rightarrow> NextRunFact option" where
  "startedWithoutRecord run = (if unrecordedKind run = RunFailed then Some NextUnrecorded else None)"

definition startedRun :: "'site ExperimentRecord \<Rightarrow> NextRunFact option" where
  "startedRun record =
     (case er_status record of
        ExperimentRan run _ _ \<Rightarrow> Some (recordedRun run)
      | ExperimentNotRunBecause (ERunUnrecorded run) \<Rightarrow> startedWithoutRecord run
      | ExperimentNotRunBecause _ \<Rightarrow> None)"

definition startedOutcome :: "RunOutcome \<Rightarrow> NextRunFact option" where
  "startedOutcome outcome =
     (case outcome of
        RunRecorded record \<Rightarrow> Some (recordedRun record)
      | RunUnrecorded unrecorded \<Rightarrow> startedWithoutRecord unrecorded)"

definition nextRunAfter :: "'site JobRuns \<Rightarrow> nat \<Rightarrow> NextRunFact option" where
  "nextRunAfter runs index =
     (case first_some startedRun (drop (index + 1) (jr_experiments runs)) of
        Some started \<Rightarrow> Some started
      | None \<Rightarrow>
          (case jr_restoredBaseline runs of
             None \<Rightarrow> None
           | Some restored \<Rightarrow> startedOutcome restored))"

section \<open>The facts of a job's experiments\<close>

record 'site DefectFacts =
  df_defectId :: string
  df_facts :: "'site ExperimentFacts"

datatype FactsError = MispairedRecords

definition ranFacts :: "'site JobRuns \<Rightarrow> nat \<Rightarrow> RunRecord \<Rightarrow> 'site MutationLoad list \<Rightarrow>
    'site ConfirmingRun option \<Rightarrow> TestIdentity \<Rightarrow> string list \<Rightarrow> 'site ExperimentBody" where
  "ranFacts runs index run mutation confirming test assertionErrors =
     BodyRan (experimentRunFacts run mutation test assertionErrors)
       (map_option (\<lambda>c. confirmingFacts c test assertionErrors) confirming)
       (case confirming of
          Some (ConfirmingRan _ _) \<Rightarrow> nextRunAfter runs index
        | _ \<Rightarrow> None)"

definition factsOfRecord :: "'site JobRuns \<Rightarrow> JobFacts \<Rightarrow> TestIdentity \<Rightarrow> string list \<Rightarrow> nat \<Rightarrow>
    'site ExperimentRecord \<Rightarrow> 'site ExperimentFacts" where
  "factsOfRecord runs job test assertionErrors index record =
     \<lparr>sf_baseline =
        (case jr_baseline runs of
           Some (RunRecorded baseline) \<Rightarrow> Some (baselineFacts baseline test assertionErrors)
         | _ \<Rightarrow> None),
      sf_restoredBaseline = restoredFacts (jr_restoredBaseline runs) test assertionErrors,
      sf_job = job,
      ef_body =
        (case er_status record of
           ExperimentNotRunBecause reason \<Rightarrow> BodyNotRun (notRunFact reason)
         | ExperimentRan run mutation confirming \<Rightarrow>
             ranFacts runs index run mutation confirming test assertionErrors)\<rparr>"

definition pairedFacts :: "'site JobRuns \<Rightarrow> JobFacts \<Rightarrow> DefectExperiment list \<Rightarrow> string list \<Rightarrow>
    nat \<times> 'site ExperimentRecord \<Rightarrow> FactsError + 'site DefectFacts" where
  "pairedFacts runs job experiments assertionErrors entry =
     (let index = fst entry; record = snd entry in
      case at experiments index of
        None \<Rightarrow> Inl MispairedRecords
      | Some experiment \<Rightarrow>
          (if de_defectId experiment \<noteq> er_defectId record then Inl MispairedRecords
           else Inr \<lparr>df_defectId = er_defectId record,
                     df_facts = factsOfRecord runs job (de_test experiment) assertionErrors index record\<rparr>))"

definition jobFacts :: "JobEnd \<Rightarrow> JobFacts" where
  "jobFacts e = \<lparr>jf_unhandledErrorCount = length (je_unhandledErrors e),
                 jf_closed = (je_closeError e = None)\<rparr>"

definition experimentFacts :: "'site JobRuns \<Rightarrow> JobEnd \<Rightarrow> DefectExperiment list \<Rightarrow> string list \<Rightarrow>
    FactsError + 'site DefectFacts list" where
  "experimentFacts runs e experiments assertionErrors =
     (let job = jobFacts e in
      if length (jr_experiments runs) \<noteq> length experiments then Inl MispairedRecords
      else mapE (pairedFacts runs job experiments assertionErrors)
             (enumerate 0 (jr_experiments runs)))"

section \<open>Lemmas\<close>

lemma find_append: "find P (xs @ ys) = (case find P xs of Some x \<Rightarrow> Some x | None \<Rightarrow> find P ys)"
  by (induction xs) auto

fun modulesTests :: "RecordedRunModuleState \<Rightarrow> RecordedRunTest list" where
  "modulesTests (CollectedModule _ _ _ tests) = tests"
| "modulesTests (UncollectedModule _) = []"

lemma testResultInModules_eq:
  "testResultInModules ms (testIdentityKey identity) =
     find (\<lambda>test. it_identity test = identity) (flat_map (\<lambda>m. modulesTests (rm_body m)) ms)"
  by (induction ms)
     (auto simp: testIdentityKey_iff find_append split: option.splits RecordedRunModuleState.splits)

lemma extend_fields [simp]:
  "rf_test (RunFacts.extend f e) = rf_test f"
  "rf_module (RunFacts.extend f e) = rf_module f"
  "rf_unhandledErrorCount (RunFacts.extend f e) = rf_unhandledErrorCount f"
  "rf_ending (RunFacts.extend f e) = rf_ending f"
  by (cases f; simp add: RunFacts.extend_def)+

lemma extend_baseline [simp]:
  "bf_countedUnhandledErrorCount
     (RunFacts.extend f \<lparr>bf_countedUnhandledErrorCount = a, bf_unnamedUnhandledErrorCount = b\<rparr>) = a"
  "xf_mutation (RunFacts.extend f \<lparr>xf_mutation = loads\<rparr>) = loads"
  by (cases f; simp add: RunFacts.extend_def)+

text \<open>What the raw record of a run says, with no facts between.\<close>

definition rawTest :: "RunRecord \<Rightarrow> TestIdentity \<Rightarrow> RecordedRunTest option" where
  "rawTest record identity =
     find (\<lambda>test. it_identity test = identity)
       (flat_map (\<lambda>m. modulesTests (rm_body m)) (rr_modules record))"

definition rawCleanEnd :: "RunRecord \<Rightarrow> bool" where
  "rawCleanEnd record =
     (rr_execution record = Completed \<and> \<not> rr_forceStopped record \<and> rr_cancelError record = None)"

definition rawCounts :: "TestIdentity \<Rightarrow> ModuleReport list \<Rightarrow> bool" where
  "rawCounts identity modules =
     (modules = [] \<or> (\<exists>m \<in> set modules. mr_projectName m = projectName identity \<and>
        mr_modulePath m = modulePath identity))"

definition rawBaselineSound :: "RunRecord \<Rightarrow> TestIdentity \<Rightarrow> bool" where
  "rawBaselineSound record identity =
     (rawCleanEnd record \<and>
      (\<exists>test. rawTest record identity = Some test \<and> rt_state test = VPassed) \<and>
      (\<forall>modules \<in> set (rr_unhandledErrorModules record). \<not> rawCounts identity modules))"

definition rawAssertion :: "string list \<Rightarrow> RawError \<Rightarrow> bool" where
  "rawAssertion assertionErrors error =
     (isExtendedMatcherFailure error \<or>
      (\<exists>name. knownName error = Some name \<and> name \<in> set (''AssertionError'' # assertionErrors)))"

definition rawModuleSound :: "RunRecord \<Rightarrow> TestIdentity \<Rightarrow> bool" where
  "rawModuleSound record identity =
     (\<exists>module state tests. find (\<lambda>m. isTestModule m identity) (rr_modules record) = Some module \<and>
        rm_body module = CollectedModule state [] [] tests)"

definition rawDetects :: "RunRecord \<Rightarrow> TestIdentity \<Rightarrow> string list \<Rightarrow> bool" where
  "rawDetects record identity assertionErrors =
     (rawCleanEnd record \<and> rawModuleSound record identity \<and> rr_unhandledErrors record = [] \<and>
      (\<exists>test. rawTest record identity = Some test \<and> rt_state test = VFailed \<and>
         rt_errors test \<noteq> [] \<and> (\<forall>e \<in> set (rt_errors test). rawAssertion assertionErrors e) \<and>
         rt_repeats test = None \<and> hooksPassed (rt_hooks test) \<and> siteExecuted (rt_reach test)))"

lemma testResultIn_raw: "testResultIn record identity = rawTest record identity"
  by (simp add: testResultIn_def rawTest_def testResultInModules_eq)

lemma isAssertion_errorFact: "isAssertion (errorFact e ae) \<longleftrightarrow> rawAssertion ae e"
  by (auto simp: errorFact_def assertionMarker_def rawAssertion_def Let_def
      split: option.splits if_splits)

lemma endedCleanly_raw: "endedCleanly (rf_ending (runFacts record i ae)) \<longleftrightarrow> rawCleanEnd record"
  by (auto simp: endedCleanly_def runFacts_def rawCleanEnd_def)

lemma moduleSound_raw: "moduleSound (rf_module (runFacts record i ae)) \<longleftrightarrow> rawModuleSound record i"
  by (auto simp: moduleSound_def runFacts_def moduleFacts_def rawModuleSound_def
      split: option.splits RecordedRunModuleState.splits)

lemma countedModules_empty:
  "countedModules record i = [] \<longleftrightarrow> (\<forall>ms \<in> set (rr_unhandledErrorModules record). \<not> rawCounts i ms)"
  by (auto simp: countedModules_def rawCounts_def filter_empty_conv list_ex_iff isTestModule_def)

lemma baselineSound_raw:
  "baselineSound (baselineFacts record i ae) \<longleftrightarrow> rawBaselineSound record i"
proof -
  have "passed (baselineFacts record i ae) \<longleftrightarrow>
      (\<exists>test. rawTest record i = Some test \<and> rt_state test = VPassed)"
    by (auto simp: passed_def baselineFacts_def Let_def runFacts_def testFacts_def testResultIn_raw
        split: option.splits)
  moreover have "endedCleanly (rf_ending (baselineFacts record i ae)) \<longleftrightarrow> rawCleanEnd record"
    by (simp add: baselineFacts_def Let_def endedCleanly_raw)
  moreover have "bf_countedUnhandledErrorCount (baselineFacts record i ae) = 0 \<longleftrightarrow>
      (\<forall>ms \<in> set (rr_unhandledErrorModules record). \<not> rawCounts i ms)"
    by (simp add: baselineFacts_def Let_def countedModules_empty)
  ultimately show ?thesis by (auto simp: baselineSound_def rawBaselineSound_def)
qed

lemma showsDetection_raw:
  "showsDetection (experimentRunFacts record loads i ae) \<longleftrightarrow> rawDetects record i ae"
proof -
  have "rf_unhandledErrorCount (runFacts record i ae) = 0 \<longleftrightarrow> rr_unhandledErrors record = []"
    by (simp add: runFacts_def)
  moreover have "rf_test (runFacts record i ae) = map_option (\<lambda>t. testFacts t ae) (rawTest record i)"
    by (simp add: runFacts_def testResultIn_raw)
  ultimately show ?thesis
    by (auto simp: showsDetection_def experimentRunFacts_def endedCleanly_raw moduleSound_raw
        rawDetects_def failsByAssertion_def testFacts_def isAssertion_errorFact split: option.splits)
qed

lemma pairedFacts_Inr:
  "pairedFacts runs job exps ae (index, record) = Inr d \<longleftrightarrow>
     (\<exists>experiment. at exps index = Some experiment \<and> de_defectId experiment = er_defectId record \<and>
        d = \<lparr>df_defectId = er_defectId record,
             df_facts = factsOfRecord runs job (de_test experiment) ae index record\<rparr>)"
  by (auto simp: pairedFacts_def Let_def split: option.splits)

lemma experimentFacts_Inr:
  "experimentFacts runs e exps ae = Inr fs \<longleftrightarrow>
     map er_defectId (jr_experiments runs) = map de_defectId exps \<and>
     fs = map (\<lambda>(i, record).
            \<lparr>df_defectId = er_defectId record,
             df_facts = factsOfRecord runs (jobFacts e) (de_test (exps ! i)) ae i record\<rparr>)
          (enumerate 0 (jr_experiments runs))"
    (is "?l \<longleftrightarrow> ?ids \<and> fs = ?m")
proof -
  let ?rs = "jr_experiments runs"
  have "?l \<longleftrightarrow> length ?rs = length exps \<and> length fs = length ?rs \<and>
      (\<forall>i < length ?rs. pairedFacts runs (jobFacts e) exps ae (i, ?rs ! i) = Inr (fs ! i))"
    by (auto simp: experimentFacts_def Let_def mapE_Inr list_all2_conv_all_nth nth_enumerate_eq)
  also have "\<dots> \<longleftrightarrow> length ?rs = length exps \<and> length fs = length ?rs \<and>
      (\<forall>i < length ?rs. de_defectId (exps ! i) = er_defectId (?rs ! i)) \<and>
      (\<forall>i < length ?rs. fs ! i = ?m ! i)"
    by (auto simp: pairedFacts_Inr nth_enumerate_eq)
  also have "\<dots> \<longleftrightarrow> ?ids \<and> fs = ?m"
    by (auto simp: list_eq_iff_nth_eq)
  finally show ?thesis .
qed

lemma experimentFacts_Inl:
  "experimentFacts runs e exps ae = Inl MispairedRecords \<longleftrightarrow>
     map er_defectId (jr_experiments runs) \<noteq> map de_defectId exps"
proof -
  have "experimentFacts runs e exps ae = Inl MispairedRecords \<longleftrightarrow>
      (\<forall>fs. experimentFacts runs e exps ae \<noteq> Inr fs)"
    by (cases "experimentFacts runs e exps ae"; cases "projl (experimentFacts runs e exps ae)") auto
  then show ?thesis by (simp add: experimentFacts_Inr)
qed

lemma judge_detected_raw:
  "judge (factsOfRecord runs (jobFacts e) test ae index record) = Detected \<longleftrightarrow>
     (\<exists>baseline restored run loads second loads2.
      jr_baseline runs = Some (RunRecorded baseline) \<and>
      jr_restoredBaseline runs = Some (RunRecorded restored) \<and>
      rawBaselineSound baseline test \<and> rawBaselineSound restored test \<and>
      er_status record = ExperimentRan run loads (Some (ConfirmingRan second loads2)) \<and>
      rawDetects run test ae \<and> rawDetects second test ae \<and>
      nextRunAfter runs index = Some (NextRecorded 0) \<and>
      je_unhandledErrors e = [] \<and> je_closeError e = None)"
  by (auto simp: judge_Detected factsOfRecord_def restoredFacts_def ranFacts_def confirmingFacts_def
      jobFacts_def baselineSound_raw showsDetection_raw
      split: option.splits RunOutcome.splits ExperimentStatus.splits ConfirmingRun.splits)

section \<open>Properties\<close>

text \<open>
  The job's records are refused exactly when their defect ids, in order, are not those of the
  experiments the job was given; otherwise each experiment gets facts read from its own record alone,
  its own test and the job's two baselines, in the order given.
\<close>

theorem experimentFacts_pairing:
  "experimentFacts runs e exps ae =
     (if map er_defectId (jr_experiments runs) \<noteq> map de_defectId exps then Inl MispairedRecords
      else Inr (map (\<lambda>(i, record).
              \<lparr>df_defectId = er_defectId record,
               df_facts = factsOfRecord runs (jobFacts e) (de_test (exps ! i)) ae i record\<rparr>)
            (enumerate 0 (jr_experiments runs))))"
  by (simp add: experimentFacts_Inl experimentFacts_Inr del: map_map)

text \<open>
  The test an experiment is judged by is the first recorded test of the run's collected modules
  whose identity is the experiment's, field for field: the lookup by key never mistakes one test for
  another, and never overlooks the test.
\<close>

theorem testResultIn_first:
  "testResultIn record identity =
     find (\<lambda>test. it_identity test = identity)
       (flat_map (\<lambda>m. case rm_body m of CollectedModule _ _ _ tests \<Rightarrow> tests
                      | UncollectedModule _ \<Rightarrow> []) (rr_modules record))"
proof -
  have "modulesTests b = (case b of CollectedModule _ _ _ tests \<Rightarrow> tests | UncollectedModule _ \<Rightarrow> [])" for b
    by (cases b) auto
  then show ?thesis by (simp add: testResultIn_raw rawTest_def)
qed

text \<open>
  C13. A detection reported for an experiment rests on the raw records: the ids of all records pair
  with the experiments; the test passed in a cleanly ended first baseline and again in the restored
  one, with no unhandled error naming its module or naming none; both recorded mutated runs ended
  cleanly with nothing unhandled and show the test failing, at errors that are all assertions, with
  its hooks passed and the mutated site executed; and the next started run and the job were clean.
\<close>

theorem detected_raw_iff:
  "(\<exists>fs. experimentFacts runs e exps ae = Inr fs \<and> index < length fs \<and>
         judge (df_facts (fs ! index)) = Detected) \<longleftrightarrow>
   map er_defectId (jr_experiments runs) = map de_defectId exps \<and> index < length exps \<and>
   (\<exists>baseline restored run loads second loads2.
      jr_baseline runs = Some (RunRecorded baseline) \<and>
      jr_restoredBaseline runs = Some (RunRecorded restored) \<and>
      rawBaselineSound baseline (de_test (exps ! index)) \<and>
      rawBaselineSound restored (de_test (exps ! index)) \<and>
      er_status (jr_experiments runs ! index) =
        ExperimentRan run loads (Some (ConfirmingRan second loads2)) \<and>
      rawDetects run (de_test (exps ! index)) ae \<and> rawDetects second (de_test (exps ! index)) ae \<and>
      nextRunAfter runs index = Some (NextRecorded 0) \<and>
      je_unhandledErrors e = [] \<and> je_closeError e = None)"
    (is "?l \<longleftrightarrow> ?ids \<and> ?i \<and> ?raw")
proof -
  let ?f = "factsOfRecord runs (jobFacts e) (de_test (exps ! index)) ae index
    (jr_experiments runs ! index)"
  have "?l \<longleftrightarrow> ?ids \<and> ?i \<and> judge ?f = Detected"
    by (auto simp: experimentFacts_Inr nth_enumerate_eq dest: map_eq_imp_length_eq)
  moreover have "judge ?f = Detected \<longleftrightarrow> ?raw"
    by (auto simp: judge_detected_raw)
  ultimately show ?thesis by blast
qed

end
