(* ===== verification/Glob.thy ===== *)
theory Glob
  imports Prelude
begin

text \<open>
  The pattern matcher of \<^verbatim>\<open>inputs/non-inputs.ts\<close>: \<open>matchesSequence\<close> is the source's loop with its
  resume point, \<open>matchesPath\<close> and \<open>matchesSegment\<close> its two uses, \<open>matchesBelow\<close> the test that prunes
  directories. \<open>denotes\<close> is what a pattern means, read off the documentation: a run stands for any
  number of elements, any other element for one it accepts. The loop resumes only the latest run,
  and its correctness is that this is enough.
\<close>

section \<open>The loop\<close>

text \<open>
  \<^verbatim>\<open>resumePattern\<close>, \<^verbatim>\<open>-1\<close> until a run was met, is \<open>None\<close> until then. Each iteration moves the
  resume point forward, or else the subject index, or else the pattern index.
\<close>

function matchesLoop :: "'a list \<Rightarrow> 'a list \<Rightarrow> 'a \<Rightarrow> ('a \<Rightarrow> 'a \<Rightarrow> bool) \<Rightarrow> nat \<Rightarrow> nat \<Rightarrow> nat option \<Rightarrow> nat \<Rightarrow> bool" where
  "matchesLoop pattern subject run matchesOne patternIndex subjectIndex resumePattern resumeSubject =
     (if subjectIndex < length subject then
        (if patternIndex < length pattern \<and> pattern ! patternIndex = run
         then matchesLoop pattern subject run matchesOne
                (patternIndex + 1) subjectIndex (Some patternIndex) subjectIndex
         else if patternIndex < length pattern \<and>
                 matchesOne (pattern ! patternIndex) (subject ! subjectIndex)
         then matchesLoop pattern subject run matchesOne
                (patternIndex + 1) (subjectIndex + 1) resumePattern resumeSubject
         else (case resumePattern of
                 Some resume \<Rightarrow> matchesLoop pattern subject run matchesOne
                   (resume + 1) (resumeSubject + 1) resumePattern (resumeSubject + 1)
               | None \<Rightarrow> False))
      else dropWhile (\<lambda>wanted. wanted = run) (drop patternIndex pattern) = [])"
  by auto

termination
  by (relation "measures
       [\<lambda>(p, s, run, one, i, j, r, k). Suc (length s) - min k j,
        \<lambda>(p, s, run, one, i, j, r, k). length s - j,
        \<lambda>(p, s, run, one, i, j, r, k). length p - i]")
     (auto simp: min_def)

declare matchesLoop.simps [simp del]

definition matchesSequence :: "'a list \<Rightarrow> 'a list \<Rightarrow> 'a \<Rightarrow> ('a \<Rightarrow> 'a \<Rightarrow> bool) \<Rightarrow> bool" where
  "matchesSequence pattern subject run matchesOne =
     matchesLoop pattern subject run matchesOne 0 0 None 0"

definition anyRun :: char where
  "anyRun = CHR ''*''"

definition anyCharacter :: char where
  "anyCharacter = CHR ''?''"

definition globstar :: string where
  "globstar = ''**''"

definition matchesSegment :: "string \<Rightarrow> string \<Rightarrow> bool" where
  "matchesSegment pattern name =
     (if \<not> (anyRun \<in> set pattern \<or> anyCharacter \<in> set pattern) then pattern = name
      else matchesSequence pattern name anyRun (\<lambda>wanted c. wanted = anyCharacter \<or> wanted = c))"

definition matchesPath :: "string list \<Rightarrow> string list \<Rightarrow> bool" where
  "matchesPath pattern path = matchesSequence pattern path globstar matchesSegment"

fun matchesBelowFrom :: "string list \<Rightarrow> string list \<Rightarrow> bool" where
  "matchesBelowFrom pattern [] = (pattern \<noteq> [])"
| "matchesBelowFrom [] (name # rest) = False"
| "matchesBelowFrom (wanted # pattern) (name # rest) =
     (if wanted = globstar then True
      else if \<not> matchesSegment wanted name then False
      else matchesBelowFrom pattern rest)"

definition matchesBelow :: "string list \<Rightarrow> string list \<Rightarrow> bool" where
  "matchesBelow pattern directory = matchesBelowFrom pattern directory"

section \<open>What a pattern means\<close>

fun denotes :: "'a \<Rightarrow> ('a \<Rightarrow> 'a \<Rightarrow> bool) \<Rightarrow> 'a list \<Rightarrow> 'a list \<Rightarrow> bool" where
  "denotes run ok [] s = (s = [])"
| "denotes run ok (w # p) s =
     (if w = run then list_ex (\<lambda>k. denotes run ok p (drop k s)) [0..<Suc (length s)]
      else (case s of [] \<Rightarrow> False | x # s' \<Rightarrow> ok w x \<and> denotes run ok p s'))"

text \<open>A run takes any number of elements; a number beyond the end takes them all.\<close>

lemma denotes_run: "denotes run ok (run # p) s \<longleftrightarrow> (\<exists>k. denotes run ok p (drop k s))"
proof
  assume "\<exists>k. denotes run ok p (drop k s)"
  then obtain k where k: "denotes run ok p (drop k s)" ..
  then have "denotes run ok p (drop (min k (length s)) s)"
    by (cases "k \<le> length s") (auto simp: min_def)
  then show "denotes run ok (run # p) s"
    by (auto simp: list_ex_iff less_Suc_eq_le intro!: bexI [of _ "min k (length s)"]
        simp del: upt_Suc)
next
  assume "denotes run ok (run # p) s"
  then show "\<exists>k. denotes run ok p (drop k s)"
    by (auto simp del: upt_Suc simp: list_ex_iff)
qed

lemma denotes_literal:
  "w \<noteq> run \<Longrightarrow> denotes run ok (w # p) s \<longleftrightarrow> s \<noteq> [] \<and> ok w (hd s) \<and> denotes run ok p (tl s)"
  by (cases s) auto

lemma denotes_literal': "w \<noteq> run \<Longrightarrow> \<not> denotes run ok (w # p) []"
  "w \<noteq> run \<Longrightarrow> denotes run ok (w # p) (x # s) \<longleftrightarrow> ok w x \<and> denotes run ok p s"
  by simp_all

declare denotes.simps(2) [simp del]

lemma denotes_Nil: "denotes run ok p [] \<longleftrightarrow> dropWhile (\<lambda>w. w = run) p = []"
  by (induction p) (auto simp: denotes_run denotes_literal)

text \<open>A stretch of a pattern without runs takes exactly its own length.\<close>

lemma denotes_stretch:
  "run \<notin> set lit \<Longrightarrow> denotes run ok (lit @ p) s \<longleftrightarrow>
     length lit \<le> length s \<and> list_all2 ok lit (take (length lit) s) \<and> denotes run ok p (drop (length lit) s)"
proof (induction lit arbitrary: s)
  case Nil
  then show ?case by simp
next
  case (Cons w lit)
  from Cons.prems have "w \<noteq> run" "run \<notin> set lit" by auto
  then show ?case by (cases s) (auto simp: denotes_literal' Cons.IH)
qed

section \<open>The loop decides the meaning\<close>

text \<open>
  While no run was met the rest must match the rest. Once one was, the pattern after it must match
  from the resume point or later, and what lies between the resume point and the two indices is a
  stretch that matches.
\<close>

definition stretch :: "'a list \<Rightarrow> nat \<Rightarrow> nat \<Rightarrow> 'a list" where
  "stretch xs i j = take (j - i) (drop i xs)"

definition loopGoal :: "'a list \<Rightarrow> 'a list \<Rightarrow> 'a \<Rightarrow> ('a \<Rightarrow> 'a \<Rightarrow> bool) \<Rightarrow> nat \<Rightarrow> nat \<Rightarrow> nat option \<Rightarrow> nat \<Rightarrow> bool" where
  "loopGoal p s run ok i j r k =
     (case r of
        None \<Rightarrow> denotes run ok (drop i p) (drop j s)
      | Some a \<Rightarrow> (\<exists>m \<ge> k. denotes run ok (drop (Suc a) p) (drop m s)))"

definition loopInv :: "'a list \<Rightarrow> 'a list \<Rightarrow> 'a \<Rightarrow> ('a \<Rightarrow> 'a \<Rightarrow> bool) \<Rightarrow> nat \<Rightarrow> nat \<Rightarrow> nat option \<Rightarrow> nat \<Rightarrow> bool" where
  "loopInv p s run ok i j r k =
     (i \<le> length p \<and> j \<le> length s \<and>
      (case r of
         None \<Rightarrow> True
       | Some a \<Rightarrow> a < i \<and> k \<le> j \<and> i - Suc a = j - k \<and> run \<notin> set (stretch p (Suc a) i) \<and>
           list_all2 ok (stretch p (Suc a) i) (stretch s k j)))"

lemma stretch_length: "j \<le> length xs \<Longrightarrow> length (stretch xs i j) = j - i"
  by (simp add: stretch_def)

lemma stretch_same [simp]: "stretch xs i i = []"
  by (simp add: stretch_def)

lemma drop_stretch: "i \<le> j \<Longrightarrow> j \<le> length xs \<Longrightarrow> drop i xs = stretch xs i j @ drop j xs"
  by (metis append_take_drop_id drop_drop le_add_diff_inverse2 stretch_def)

lemma stretch_Suc: "i \<le> j \<Longrightarrow> j < length xs \<Longrightarrow> stretch xs i (Suc j) = stretch xs i j @ [xs ! j]"
  by (simp add: stretch_def Suc_diff_le take_Suc_conv_app_nth)

lemma drop_nth_Cons: "i < length xs \<Longrightarrow> drop i xs = xs ! i # drop (Suc i) xs"
  by (simp add: Cons_nth_drop_Suc)

lemma goal_stretch:
  assumes inv: "loopInv p s run ok i j (Some a) k"
  shows "denotes run ok (drop (Suc a) p) (drop m s) \<longleftrightarrow>
     (i - Suc a \<le> length s - m \<and> list_all2 ok (stretch p (Suc a) i) (take (i - Suc a) (drop m s)) \<and>
      denotes run ok (drop i p) (drop (m + (i - Suc a)) s))"
proof -
  have "drop (Suc a) p = stretch p (Suc a) i @ drop i p"
    using inv by (intro drop_stretch) (auto simp: loopInv_def)
  moreover have "length (stretch p (Suc a) i) = i - Suc a"
    using inv by (auto simp: loopInv_def stretch_length)
  moreover have "run \<notin> set (stretch p (Suc a) i)"
    using inv by (simp add: loopInv_def)
  ultimately show ?thesis
    by (simp add: denotes_stretch add.commute)
qed

lemma goal_at_resume:
  assumes inv: "loopInv p s run ok i j (Some a) k"
  shows "denotes run ok (drop (Suc a) p) (drop k s) \<longleftrightarrow> denotes run ok (drop i p) (drop j s)"
proof -
  have "k + (i - Suc a) = j" "take (i - Suc a) (drop k s) = stretch s k j" "i - Suc a \<le> length s - k"
    using inv by (auto simp: loopInv_def stretch_def)
  then show ?thesis
    using inv by (simp add: goal_stretch [OF inv]) (simp add: loopInv_def)
qed

lemma loop_run:
  assumes inv: "loopInv p s run ok i j r k" and i: "i < length p" "p ! i = run" and j: "j < length s"
  shows "loopInv p s run ok (Suc i) j (Some i) j"
    and "loopGoal p s run ok (Suc i) j (Some i) j = loopGoal p s run ok i j r k"
proof -
  show "loopInv p s run ok (Suc i) j (Some i) j"
    using i j by (simp add: loopInv_def)
  have d: "denotes run ok (drop i p) s' \<longleftrightarrow> (\<exists>m. denotes run ok (drop (Suc i) p) (drop m s'))" for s'
    using i by (simp add: drop_nth_Cons denotes_run)
  have later: "denotes run ok (drop i p) (drop n s) \<longleftrightarrow> (\<exists>m \<ge> n. denotes run ok (drop (Suc i) p) (drop m s))" for n
    by (simp add: d) (metis add.commute le_add1 le_add_diff_inverse2 add.commute)
  show "loopGoal p s run ok (Suc i) j (Some i) j = loopGoal p s run ok i j r k"
  proof (cases r)
    case None
    then show ?thesis by (simp add: loopGoal_def later)
  next
    case (Some a)
    note inv' = inv [unfolded Some]
    have len: "k + (i - Suc a) = j" using inv' by (auto simp: loopInv_def)
    have "(\<exists>m \<ge> k. denotes run ok (drop (Suc a) p) (drop m s)) \<longleftrightarrow> denotes run ok (drop i p) (drop j s)"
    proof
      assume "\<exists>m \<ge> k. denotes run ok (drop (Suc a) p) (drop m s)"
      then obtain m where "m \<ge> k" "denotes run ok (drop i p) (drop (m + (i - Suc a)) s)"
        by (auto simp: goal_stretch [OF inv'])
      moreover from this have "j \<le> m + (i - Suc a)" using len by simp
      ultimately show "denotes run ok (drop i p) (drop j s)"
        unfolding later by (meson le_trans)
    next
      assume "denotes run ok (drop i p) (drop j s)"
      then show "\<exists>m \<ge> k. denotes run ok (drop (Suc a) p) (drop m s)"
        using goal_at_resume [OF inv'] by blast
    qed
    then show ?thesis using Some by (simp add: loopGoal_def later)
  qed
qed

lemma loop_one:
  assumes inv: "loopInv p s run ok i j r k" and i: "i < length p" "p ! i \<noteq> run" and j: "j < length s"
    and one: "ok (p ! i) (s ! j)"
  shows "loopInv p s run ok (Suc i) (Suc j) r k"
    and "loopGoal p s run ok (Suc i) (Suc j) r k = loopGoal p s run ok i j r k"
  using assms
  by (auto simp: loopInv_def loopGoal_def stretch_Suc Suc_diff_le drop_nth_Cons denotes_literal
      list_all2_appendI split: option.splits)

lemma mismatch:
  assumes i: "i < length p \<longrightarrow> p ! i \<noteq> run \<and> \<not> ok (p ! i) (s ! j)" and j: "j < length s"
  shows "\<not> denotes run ok (drop i p) (drop j s)"
proof (cases "i < length p")
  case True
  then show ?thesis using i j by (simp add: drop_nth_Cons denotes_literal)
next
  case False
  then show ?thesis using j by simp
qed

lemma loop_resume:
  assumes inv: "loopInv p s run ok i j (Some a) k"
    and miss: "\<not> denotes run ok (drop i p) (drop j s)" and j: "j < length s"
  shows "loopInv p s run ok (Suc a) (Suc k) (Some a) (Suc k)"
    and "loopGoal p s run ok (Suc a) (Suc k) (Some a) (Suc k) = loopGoal p s run ok i j (Some a) k"
proof -
  show "loopInv p s run ok (Suc a) (Suc k) (Some a) (Suc k)"
    using inv j by (auto simp: loopInv_def)
  have "\<not> denotes run ok (drop (Suc a) p) (drop k s)"
    using miss by (simp add: goal_at_resume [OF inv])
  then show "loopGoal p s run ok (Suc a) (Suc k) (Some a) (Suc k) = loopGoal p s run ok i j (Some a) k"
    by (auto simp: loopGoal_def) (use Suc_leD in blast, use le_antisym not_less_eq_eq in blast)
qed

lemma loop_end:
  assumes inv: "loopInv p s run ok i j r k" and j: "\<not> j < length s"
  shows "loopGoal p s run ok i j r k \<longleftrightarrow> dropWhile (\<lambda>w. w = run) (drop i p) = []"
proof -
  have js: "j = length s" using inv j by (simp add: loopInv_def)
  show ?thesis
  proof (cases r)
    case None
    then show ?thesis using js by (simp add: loopGoal_def denotes_Nil)
  next
    case (Some a)
    note inv' = inv [unfolded Some]
    have len: "k + (i - Suc a) = length s" using inv' js by (auto simp: loopInv_def)
    have "denotes run ok (drop i p) []" if "m \<ge> k" "denotes run ok (drop (Suc a) p) (drop m s)" for m
      using that len by (auto simp: goal_stretch [OF inv'])
    moreover have "denotes run ok (drop (Suc a) p) (drop k s) \<longleftrightarrow> denotes run ok (drop i p) []"
      using goal_at_resume [OF inv'] js by simp
    ultimately have "loopGoal p s run ok i j r k \<longleftrightarrow> denotes run ok (drop i p) []"
      using Some by (auto simp: loopGoal_def)
    then show ?thesis by (simp only: denotes_Nil)
  qed
qed

lemma matchesLoop_goal:
  "loopInv p s run ok i j r k \<Longrightarrow> matchesLoop p s run ok i j r k = loopGoal p s run ok i j r k"
proof (induction p s run ok i j r k rule: matchesLoop.induct)
  case (1 p s run ok i j r k)
  note inv = "1.prems"
  show ?case
  proof (cases "j < length s")
    case False
    then show ?thesis using loop_end [OF inv] by (subst matchesLoop.simps) simp
  next
    case j: True
    consider (star) "i < length p" "p ! i = run"
      | (one) "i < length p" "p ! i \<noteq> run" "ok (p ! i) (s ! j)"
      | (miss) "i < length p \<longrightarrow> p ! i \<noteq> run \<and> \<not> ok (p ! i) (s ! j)"
      by blast
    then show ?thesis
    proof cases
      case star
      then show ?thesis
        using "1.IH"(1) [OF j] loop_run [OF inv star j] j
        by (subst matchesLoop.simps) simp
    next
      case one
      then show ?thesis
        using "1.IH"(2) [OF j] loop_one [OF inv one(1,2) j one(3)] j
        by (subst matchesLoop.simps) simp
    next
      case miss
      have no: "\<not> denotes run ok (drop i p) (drop j s)" by (rule mismatch) (use miss j in auto)
      show ?thesis
      proof (cases r)
        case None
        then show ?thesis using miss j no by (subst matchesLoop.simps) (auto simp: loopGoal_def)
      next
        case (Some a)
        then show ?thesis
          using "1.IH"(3) [OF j _ _ Some] loop_resume [OF inv [unfolded Some] no j] miss j
          by (subst matchesLoop.simps) auto
      qed
    qed
  qed
qed

lemma matchesSequence_denotes: "matchesSequence p s run ok \<longleftrightarrow> denotes run ok p s"
  by (simp add: matchesSequence_def matchesLoop_goal loopInv_def loopGoal_def)

section \<open>Patterns below a directory\<close>

text \<open>What pruning rests on: an element that accepts itself.\<close>

locale accepting_itself =
  fixes run :: 'a and ok :: "'a \<Rightarrow> 'a \<Rightarrow> bool"
  assumes ok_refl: "ok w w"
begin

lemma denotes_itself: "denotes run ok p p"
proof (induction p)
  case Nil
  then show ?case by simp
next
  case (Cons w p)
  then show ?case
    by (cases "w = run") (auto simp: denotes_run denotes_literal ok_refl intro: exI [of _ 1])
qed

fun below :: "'a list \<Rightarrow> 'a list \<Rightarrow> bool" where
  "below p [] = (p \<noteq> [])"
| "below [] (x # d) = False"
| "below (w # p) (x # d) = (w = run \<or> ok w x \<and> below p d)"

lemma below_iff: "below p d \<longleftrightarrow> (\<exists>rest. rest \<noteq> [] \<and> denotes run ok p (d @ rest))"
proof (induction p d rule: below.induct)
  case (1 p)
  show ?case
  proof (cases p)
    case Nil
    then show ?thesis by simp
  next
    case (Cons w q)
    then show ?thesis using denotes_itself [of p] by auto
  qed
next
  case (2 x d)
  then show ?case by simp
next
  case (3 w p x d)
  show ?case
  proof (cases "w = run")
    case True
    have "denotes run ok (w # p) ((x # d) @ (w # p))"
      using denotes_itself [of p] True
      by (simp add: denotes_run) (rule exI [of _ "Suc (length d + 1)"], simp)
    then show ?thesis using True by auto
  next
    case False
    then show ?thesis by (auto simp: denotes_literal "3.IH")
  qed
qed

end

interpretation characters: accepting_itself anyRun "\<lambda>wanted c. wanted = anyCharacter \<or> wanted = c"
  by unfold_locales auto

definition characterDenotes :: "string \<Rightarrow> string \<Rightarrow> bool" where
  "characterDenotes = denotes anyRun (\<lambda>wanted c. wanted = anyCharacter \<or> wanted = c)"

lemma denotes_plain:
  "anyRun \<notin> set p \<Longrightarrow> anyCharacter \<notin> set p \<Longrightarrow> characterDenotes p s \<longleftrightarrow> p = s"
  unfolding characterDenotes_def
proof (induction p arbitrary: s)
  case Nil
  then show ?case by auto
next
  case (Cons c p)
  from Cons.prems have "c \<noteq> anyRun" "anyCharacter \<noteq> c" "anyRun \<notin> set p" "anyCharacter \<notin> set p"
    by auto
  then show ?case by (cases s) (auto simp: denotes_literal' Cons.IH)
qed

lemma matchesSegment_denotes: "matchesSegment p s \<longleftrightarrow> characterDenotes p s"
  by (auto simp: matchesSegment_def matchesSequence_denotes denotes_plain) (auto simp: characterDenotes_def)

interpretation segments: accepting_itself globstar matchesSegment
  by unfold_locales (simp add: matchesSegment_denotes characterDenotes_def characters.denotes_itself)

lemma matchesBelow_below: "matchesBelow p d = segments.below p d"
  unfolding matchesBelow_def
  by (induction p d rule: matchesBelowFrom.induct) auto

section \<open>Properties\<close>

text \<open>
  C14. A pattern matches a path exactly when it denotes it: \<^verbatim>\<open>**\<close> stands for any number of whole
  segments, within a segment \<^verbatim>\<open>*\<close> for any run of characters and \<^verbatim>\<open>?\<close> for one, every other character
  for itself. Resuming only the latest run loses no match, and the loop returns on every input.
\<close>

theorem matchesPath_denotes:
  "matchesPath pattern path =
     denotes globstar (denotes anyRun (\<lambda>wanted c. wanted = anyCharacter \<or> wanted = c)) pattern path"
proof -
  have "matchesSegment = denotes anyRun (\<lambda>wanted c. wanted = anyCharacter \<or> wanted = c)"
    by (intro ext) (simp add: matchesSegment_denotes characterDenotes_def)
  then show ?thesis by (simp add: matchesPath_def matchesSequence_denotes)
qed

text \<open>
  A directory is kept for a pattern exactly when the pattern matches some path a segment or
  more below it: pruning never loses a match and never keeps a directory in vain.
\<close>

theorem matchesBelow_iff:
  "matchesBelow pattern directory \<longleftrightarrow> (\<exists>rest. rest \<noteq> [] \<and> matchesPath pattern (directory @ rest))"
  by (simp add: matchesBelow_below segments.below_iff matchesPath_def matchesSequence_denotes)

end
