(* ===== verification/Paths.thy ===== *)
theory Paths
  imports Json
begin

text \<open>
  Paths: what the source uses of Node's \<^verbatim>\<open>path.posix\<close> (\<open>normalize\<close>, \<open>basename\<close>, \<open>dirname\<close>,
  \<open>relative\<close>, \<open>join\<close>), and the path functions of \<^verbatim>\<open>vitest/find-workspaces.ts\<close> and
  \<^verbatim>\<open>selection/graph-state.ts\<close> built on them. The host is POSIX: the separator is \<^verbatim>\<open>/\<close> and
  the case-folding branch of Windows is not modelled. \<open>posixRelative\<close> is given absolute paths, as
  every caller of the source does, so no working directory enters it.
\<close>

section \<open>Segments\<close>

definition separator :: char where
  "separator = CHR ''/''"

definition currentSegment :: string where
  "currentSegment = ''.''"

definition parentSegment :: string where
  "parentSegment = ''..''"

definition ROOT_PATH :: string where
  "ROOT_PATH = ''.''"

definition isAbsolute :: "string \<Rightarrow> bool" where
  "isAbsolute path = starts_with path ''/''"

text \<open>One step of \<^verbatim>\<open>normalizeString\<close>: the segments kept so far and the next one.\<close>

definition pushSegment :: "bool \<Rightarrow> string \<Rightarrow> string list \<Rightarrow> string list" where
  "pushSegment allowAboveRoot seg kept =
     (if seg = [] \<or> seg = currentSegment then kept
      else if seg = parentSegment then
        (if kept \<noteq> [] \<and> last kept \<noteq> parentSegment then butlast kept
         else if allowAboveRoot then kept @ [parentSegment] else kept)
      else kept @ [seg])"

definition normalSegments :: "bool \<Rightarrow> string \<Rightarrow> string list" where
  "normalSegments allowAboveRoot path = fold (pushSegment allowAboveRoot) (split_on separator path) []"

definition posixNormalize :: "string \<Rightarrow> string" where
  "posixNormalize path =
     (if path = [] then ''.''
      else let abs = isAbsolute path;
               trailing = ends_with path ''/'';
               body = join ''/'' (normalSegments (\<not> abs) path)
           in if body = [] then (if abs then ''/'' else if trailing then ''./'' else ''.'')
              else (if abs then ''/'' else []) @ body @ (if trailing then ''/'' else []))"

definition posixJoin :: "string list \<Rightarrow> string" where
  "posixJoin parts =
     (let given = filter (\<lambda>p. p \<noteq> []) parts in
      if given = [] then ''.'' else posixNormalize (join ''/'' given))"

text \<open>Trailing separators dropped, as \<^verbatim>\<open>path.replace(/\/+$/, "")\<close> and \<^verbatim>\<open>basename\<close> do.\<close>

definition dropTrailing :: "string \<Rightarrow> string" where
  "dropTrailing path = rev (dropWhile (\<lambda>c. c = separator) (rev path))"

definition posixBasename :: "string \<Rightarrow> string" where
  "posixBasename path = last (split_on separator (dropTrailing path))"

text \<open>
  \<^verbatim>\<open>posix.relative\<close> of two absolute paths: up from the first to the common directory, then down.
\<close>

fun relativeSegments :: "string list \<Rightarrow> string list \<Rightarrow> string list" where
  "relativeSegments (a # as) (b # bs) =
     (if a = b then relativeSegments as bs
      else map (\<lambda>_. parentSegment) (a # as) @ b # bs)"
| "relativeSegments [] bs = bs"
| "relativeSegments as [] = map (\<lambda>_. parentSegment) as"

definition resolvedSegments :: "string \<Rightarrow> string list" where
  "resolvedSegments path = normalSegments False path"

definition posixRelative :: "string \<Rightarrow> string \<Rightarrow> string" where
  "posixRelative origin target =
     join ''/'' (relativeSegments (resolvedSegments origin) (resolvedSegments target))"

section \<open>The paths of the source\<close>

text \<open>\<^verbatim>\<open>vitest/find-workspaces.ts\<close>.\<close>

definition climbsOut :: "string \<Rightarrow> bool" where
  "climbsOut relativePath =
     (relativePath = parentSegment \<or> starts_with relativePath (parentSegment @ ''/''))"

definition liesInside :: "string \<Rightarrow> string \<Rightarrow> bool" where
  "liesInside directory path =
     (let fromDirectory = posixRelative directory path in
      \<not> (climbsOut fromDirectory \<or> isAbsolute fromDirectory))"

text \<open>On a POSIX host \<^verbatim>\<open>relative(from, to).split(sep).join("/")\<close> is the relative path itself.\<close>

definition relativePosixPath :: "string \<Rightarrow> string \<Rightarrow> string" where
  "relativePosixPath origin target = posixRelative origin target"

definition workspacePathOf :: "string \<Rightarrow> string \<Rightarrow> string" where
  "workspacePathOf root directory =
     (let path = relativePosixPath root directory in if path = [] then ROOT_PATH else path)"

definition joinPath :: "string \<Rightarrow> string \<Rightarrow> string" where
  "joinPath workspace file = (if workspace = ROOT_PATH then file else workspace @ ''/'' @ file)"

text \<open>\<^verbatim>\<open>objectField\<close>: the value a JSON object holds under its own key.\<close>

fun objectField :: "json \<Rightarrow> string \<Rightarrow> json option" where
  "objectField (JObj fields) key = map_of fields key"
| "objectField _ key = None"

text \<open>\<^verbatim>\<open>selection/graph-state.ts\<close>.\<close>

definition normalizeRelativePath :: "string \<Rightarrow> string" where
  "normalizeRelativePath path =
     (let normalized = dropTrailing (posixNormalize path) in
      if normalized = [] then ROOT_PATH else normalized)"

record Workspace =
  ws_path :: string
  ws_directory :: string

definition holdsRelativePath :: "string \<Rightarrow> string \<Rightarrow> bool" where
  "holdsRelativePath workspacePath path =
     (if workspacePath = ROOT_PATH then \<not> climbsOut path
      else path = workspacePath \<or> starts_with path (workspacePath @ ''/''))"

definition depth :: "string \<Rightarrow> nat" where
  "depth workspacePath = (if workspacePath = ROOT_PATH then 0 else length (split_on separator workspacePath))"

definition owningStep :: "string \<Rightarrow> Workspace \<Rightarrow> Workspace option \<Rightarrow> Workspace option" where
  "owningStep path workspace owner =
     (if \<not> holdsRelativePath (ws_path workspace) path then owner
      else case owner of
        None \<Rightarrow> Some workspace
      | Some o' \<Rightarrow> (if depth (ws_path workspace) > depth (ws_path o') then Some workspace else owner))"

definition owningWorkspace :: "string \<Rightarrow> Workspace list \<Rightarrow> Workspace option" where
  "owningWorkspace path workspaces = fold (owningStep path) workspaces None"

text \<open>\<^verbatim>\<open>query/path-status.ts\<close>: whether a path is the target or lies under it.\<close>

definition liesAtOrUnder :: "string \<Rightarrow> string \<Rightarrow> bool" where
  "liesAtOrUnder path target =
     (target = ROOT_PATH \<or> path = target \<or> starts_with path (target @ ''/''))"

section \<open>Lemmas\<close>

text \<open>A segment that stands: not empty, not \<^verbatim>\<open>.\<close> or \<^verbatim>\<open>..\<close>, and without a separator.\<close>

definition proper :: "string \<Rightarrow> bool" where
  "proper seg = (seg \<noteq> [] \<and> seg \<noteq> currentSegment \<and> seg \<noteq> parentSegment \<and> separator \<notin> set seg)"

lemma segment_consts [simp]:
  "currentSegment \<noteq> []" "parentSegment \<noteq> []" "separator \<notin> set currentSegment"
  "separator \<notin> set parentSegment" "parentSegment \<noteq> currentSegment" "currentSegment \<noteq> parentSegment"
  by (simp_all add: currentSegment_def parentSegment_def separator_def)

lemma separator_string: "''/'' = [separator]"
  by (simp add: separator_def)

text \<open>Normal segments: parents first, where they are allowed, then proper ones.\<close>

definition normalForm :: "bool \<Rightarrow> string list \<Rightarrow> bool" where
  "normalForm climb segs =
     (\<exists>n ps. segs = replicate n parentSegment @ ps \<and> (\<forall>p \<in> set ps. proper p) \<and> (\<not> climb \<longrightarrow> n = 0))"

lemma normalForm_Nil [simp]: "normalForm climb []"
  by (auto simp: normalForm_def)

lemma normalForm_snoc:
  assumes "normalForm climb segs" "proper p"
  shows "normalForm climb (segs @ [p])"
proof -
  from assms obtain n ps where "segs = replicate n parentSegment @ ps" "\<forall>q \<in> set ps. proper q"
      "\<not> climb \<longrightarrow> n = 0" by (auto simp: normalForm_def)
  then show ?thesis using assms(2)
    unfolding normalForm_def by (intro exI [of _ n] exI [of _ "ps @ [p]"]) auto
qed

lemma normalForm_pop:
  assumes nf: "normalForm climb segs" and ne: "segs \<noteq> []" "last segs \<noteq> parentSegment"
  shows "normalForm climb (butlast segs)"
proof -
  from nf obtain n ps where s: "segs = replicate n parentSegment @ ps" "\<forall>p \<in> set ps. proper p"
      "\<not> climb \<longrightarrow> n = 0" by (auto simp: normalForm_def)
  have "ps \<noteq> []" using s ne by (cases n) (auto simp: replicate_append_same [symmetric])
  then have "butlast segs = replicate n parentSegment @ butlast ps" by (simp add: s butlast_append)
  then show ?thesis using s unfolding normalForm_def
    by (intro exI [of _ n] exI [of _ "butlast ps"]) (auto dest: in_set_butlastD)
qed

lemma normalForm_parent:
  assumes nf: "normalForm True segs" and stuck: "segs = [] \<or> last segs = parentSegment"
  shows "normalForm True (segs @ [parentSegment])"
proof -
  from nf obtain n ps where s: "segs = replicate n parentSegment @ ps" "\<forall>p \<in> set ps. proper p"
    by (auto simp: normalForm_def)
  have "ps = []"
  proof (rule ccontr)
    assume "ps \<noteq> []"
    then have "last segs \<in> set ps" using s by simp
    with s stuck \<open>ps \<noteq> []\<close> show False by (auto simp: proper_def)
  qed
  then have "segs @ [parentSegment] = replicate (Suc n) parentSegment @ []"
    using s by (simp add: replicate_append_same)
  then show ?thesis unfolding normalForm_def
    by (intro exI [of _ "Suc n"] exI [of _ "[]"]) auto
qed

lemma normalForm_single: "proper p \<Longrightarrow> normalForm climb [p]" "normalForm True [parentSegment]"
  using normalForm_snoc [of climb "[]" p] normalForm_parent [of "[]"] by simp_all

lemma normalForm_push:
  assumes "normalForm climb kept" "separator \<notin> set seg"
  shows "normalForm climb (pushSegment climb seg kept)"
  using assms
  by (cases climb)
     (auto simp: pushSegment_def proper_def intro!: normalForm_snoc normalForm_pop
       normalForm_parent normalForm_single)

lemma normalForm_fold:
  "normalForm climb kept \<Longrightarrow> \<forall>s \<in> set segs. separator \<notin> set s \<Longrightarrow>
     normalForm climb (fold (pushSegment climb) segs kept)"
  by (induction segs arbitrary: kept) (auto intro: normalForm_push)

lemma normalSegments_normal: "normalForm climb (normalSegments climb path)"
  unfolding normalSegments_def by (rule normalForm_fold) (auto dest: split_on_no_sep [rule_format])

lemma push_proper: "proper p \<Longrightarrow> pushSegment climb p kept = kept @ [p]"
  by (simp add: pushSegment_def proper_def)

lemma fold_proper: "\<forall>p \<in> set ps. proper p \<Longrightarrow> fold (pushSegment climb) ps kept = kept @ ps"
  by (induction ps arbitrary: kept) (auto simp: push_proper)

lemma fold_parents:
  "fold (pushSegment True) (replicate n parentSegment) (replicate m parentSegment) =
     replicate (m + n) parentSegment"
proof (induction n arbitrary: m)
  case 0
  then show ?case by simp
next
  case (Suc n)
  have "pushSegment True parentSegment (replicate m parentSegment) = replicate (Suc m) parentSegment"
    by (cases m) (auto simp: pushSegment_def replicate_append_same)
  then show ?case using Suc [of "Suc m"] by simp
qed

text \<open>Normal segments stay themselves.\<close>

lemma fold_normal: "normalForm climb segs \<Longrightarrow> fold (pushSegment climb) segs [] = segs"
proof -
  assume "normalForm climb segs"
  then obtain n ps where s: "segs = replicate n parentSegment @ ps" "\<forall>p \<in> set ps. proper p"
      "\<not> climb \<longrightarrow> n = 0" by (auto simp: normalForm_def)
  have "fold (pushSegment climb) (replicate n parentSegment) [] = replicate n parentSegment"
    using s(3) fold_parents [of n 0] by (cases climb) simp_all
  then show "fold (pushSegment climb) segs [] = segs" using s by (simp add: fold_proper)
qed

lemma normalForm_seg: "normalForm climb segs \<Longrightarrow> s \<in> set segs \<Longrightarrow> s \<noteq> [] \<and> separator \<notin> set s \<and> s \<noteq> currentSegment"
proof -
  assume "normalForm climb segs" and s: "s \<in> set segs"
  then obtain n ps where segs: "segs = replicate n parentSegment @ ps" and ps: "\<forall>p \<in> set ps. proper p"
    by (auto simp: normalForm_def)
  from s have "s = parentSegment \<or> s \<in> set ps" by (auto simp: segs)
  then show ?thesis
  proof
    assume "s \<in> set ps"
    with ps have "proper s" by blast
    then show ?thesis by (simp add: proper_def)
  qed simp
qed

lemma split_join_normal:
  assumes "normalForm climb segs" "segs \<noteq> []"
  shows "split_on separator (join ''/'' segs) = segs"
  using assms normalForm_seg [OF assms(1)] unfolding separator_string
  by (intro split_on_join) auto

lemma normalSegments_join:
  "normalForm climb segs \<Longrightarrow> normalSegments climb (join ''/'' segs) = segs"
  by (cases "segs = []")
     (auto simp: normalSegments_def split_join_normal fold_normal pushSegment_def)

lemma normalSegments_abs: "normalSegments False (separator # path) = normalSegments False path"
  by (simp add: normalSegments_def pushSegment_def)

lemma join_Nil_iff: "normalForm climb segs \<Longrightarrow> join ''/'' segs = [] \<longleftrightarrow> segs = []"
proof
  assume nf: "normalForm climb segs" and "join ''/'' segs = []"
  then show "segs = []"
    by (cases segs; cases "tl segs") (auto dest: normalForm_seg)
qed simp

lemma last_join:
  "segs \<noteq> [] \<Longrightarrow> last segs \<noteq> [] \<Longrightarrow> join sep segs \<noteq> [] \<and> last (join sep segs) = last (last segs)"
proof (induction segs)
  case (Cons s segs)
  then show ?case by (cases segs) (auto simp: join_Cons)
qed simp

lemma hd_join: "segs \<noteq> [] \<Longrightarrow> hd segs \<noteq> [] \<Longrightarrow> hd (join sep segs) = hd (hd segs)"
  by (cases segs; cases "tl segs") auto

lemma join_not_trailing:
  assumes "normalForm climb segs" "segs \<noteq> []"
  shows "join ''/'' segs \<noteq> []" "last (join ''/'' segs) \<noteq> separator" "hd (join ''/'' segs) \<noteq> separator"
proof -
  have l: "last segs \<noteq> []" "separator \<notin> set (last segs)"
    using assms normalForm_seg [OF assms(1), of "last segs"] by auto
  have h: "hd segs \<noteq> []" "separator \<notin> set (hd segs)"
    using assms normalForm_seg [OF assms(1), of "hd segs"] by auto
  show "join ''/'' segs \<noteq> []" "last (join ''/'' segs) \<noteq> separator"
    using l last_join [OF assms(2) l(1), of "''/''"] by (auto dest: last_in_set)
  show "hd (join ''/'' segs) \<noteq> separator"
    using h hd_join [OF assms(2) h(1), of "''/''"] by (metis hd_in_set)
qed

lemma dropTrailing_id: "path = [] \<or> last path \<noteq> separator \<Longrightarrow> dropTrailing path = path"
  by (cases path rule: rev_cases) (auto simp: dropTrailing_def)

lemma dropTrailing_sep: "dropTrailing (path @ [separator]) = dropTrailing path"
  by (simp add: dropTrailing_def)

lemma isAbsolute_iff: "isAbsolute path \<longleftrightarrow> path \<noteq> [] \<and> hd path = separator"
  by (cases path) (auto simp: isAbsolute_def starts_with_def separator_def)

text \<open>The normalized path by its segments.\<close>

lemma normalizeRelativePath_segments:
  "normalizeRelativePath path =
     (let segs = normalSegments (\<not> isAbsolute path) path in
      if segs = [] then ROOT_PATH
      else if isAbsolute path then separator # join ''/'' segs else join ''/'' segs)"
proof -
  define segs where "segs = normalSegments (\<not> isAbsolute path) path"
  have nf: "normalForm (\<not> isAbsolute path) segs"
    unfolding segs_def by (rule normalSegments_normal)
  have dot: "dropTrailing ''.'' = ''.''" "dropTrailing ''./'' = ''.''" "dropTrailing ''/'' = []"
    by (simp_all add: dropTrailing_def separator_def)
  show ?thesis
  proof (cases "segs = []")
    case True
    then show ?thesis
      by (auto simp: normalizeRelativePath_def posixNormalize_def Let_def segs_def [symmetric] dot
          ROOT_PATH_def)
  next
    case False
    note j = join_not_trailing [OF nf False]
    have ne: "path \<noteq> []"
      using False by (auto simp: segs_def normalSegments_def pushSegment_def)
    have drop: "dropTrailing (pre @ join ''/'' segs @ (if t then ''/'' else [])) = pre @ join ''/'' segs"
      for pre t
      using j dropTrailing_sep [of "pre @ join ''/'' segs"] by (simp add: dropTrailing_id separator_string)
    show ?thesis
      using j False
      by (simp add: normalizeRelativePath_def posixNormalize_def Let_def ne segs_def [symmetric] drop)
         (simp add: separator_def)
  qed
qed

lemma relativeSegments_prefix: "relativeSegments (as @ bs) (as @ cs) = relativeSegments bs cs"
  by (induction as) auto

lemma relativeSegments_cases:
  "(\<exists>rest. bs = as @ rest \<and> relativeSegments as bs = rest) \<or>
   (\<exists>rest. relativeSegments as bs = parentSegment # rest)"
  by (induction as bs rule: relativeSegments.induct) auto

lemma normalForm_False: "normalForm False segs \<longleftrightarrow> (\<forall>p \<in> set segs. proper p)"
  by (auto simp: normalForm_def)

lemma resolved_proper: "p \<in> set (resolvedSegments path) \<Longrightarrow> proper p"
  using normalSegments_normal [of False path] by (auto simp: resolvedSegments_def normalForm_False)

lemma climbsOut_join_parent: "climbsOut (join ''/'' (parentSegment # rest))"
  by (cases rest) (auto simp: climbsOut_def starts_with_iff)

lemma split_on_parent_prefix:
  "starts_with path (parentSegment @ ''/'') \<Longrightarrow> \<exists>rest. split_on separator path = parentSegment # rest"
  by (auto simp: starts_with_iff separator_string split_on_append)

lemma climbsOut_join_proper:
  assumes "\<forall>p \<in> set segs. proper p"
  shows "\<not> climbsOut (join ''/'' segs)"
proof
  assume c: "climbsOut (join ''/'' segs)"
  have ne: "segs \<noteq> []"
    using c by (auto simp: climbsOut_def starts_with_def parentSegment_def)
  have "\<exists>rest. split_on separator (join ''/'' segs) = parentSegment # rest"
    using c split_on_parent_prefix [of "join ''/'' segs"] by (auto simp: climbsOut_def split_on_single)
  moreover have "split_on separator (join ''/'' segs) = segs"
    using assms ne by (intro split_join_normal [of False]) (simp_all add: normalForm_False)
  ultimately have "parentSegment \<in> set segs" by (metis list.set_intros(1))
  then have "proper parentSegment" using assms by blast
  then show False by (simp add: proper_def)
qed

lemma isAbsolute_join_proper: "\<forall>p \<in> set segs. proper p \<Longrightarrow> \<not> isAbsolute (join ''/'' segs)"
  using join_not_trailing(3) [of False segs]
  by (cases "segs = []") (auto simp: isAbsolute_iff normalForm_False)

lemma liesInside_iff: "liesInside directory path \<longleftrightarrow> prefix (resolvedSegments directory) (resolvedSegments path)"
proof -
  let ?d = "resolvedSegments directory" and ?p = "resolvedSegments path"
  consider (below) rest where "?p = ?d @ rest" "relativeSegments ?d ?p = rest"
    | (up) rest where "relativeSegments ?d ?p = parentSegment # rest"
    using relativeSegments_cases [where as = ?d and bs = ?p] by blast
  then show ?thesis
  proof cases
    case below
    then have "\<forall>p \<in> set rest. proper p" using resolved_proper [of _ path] by auto
    then show ?thesis
      using below climbsOut_join_proper isAbsolute_join_proper
      by (simp add: liesInside_def Let_def posixRelative_def)
  next
    case up
    have "\<not> prefix ?d ?p"
    proof
      assume "prefix ?d ?p"
      then obtain rest' where r: "?p = ?d @ rest'" by (auto simp: prefix_def)
      have "relativeSegments ?d ?p = rest'"
        using relativeSegments_prefix [of ?d "[]" rest'] r by simp
      then have "parentSegment \<in> set ?p" using r up by simp
      then show False using resolved_proper [of parentSegment path] by (simp add: proper_def)
    qed
    then show ?thesis
      using up climbsOut_join_parent by (simp add: liesInside_def Let_def posixRelative_def)
  qed
qed

lemma liesInside_refl [simp]: "liesInside d d"
  by (simp add: liesInside_iff)

lemma liesInside_trans: "liesInside a b \<Longrightarrow> liesInside b c \<Longrightarrow> liesInside a c"
  by (auto simp: liesInside_iff)

lemma owning_fold:
  "(\<forall>w \<in> set ws. \<not> holdsRelativePath (ws_path w) path) \<Longrightarrow> fold (owningStep path) ws o' = o'"
  by (induction ws arbitrary: o') (auto simp: owningStep_def)

definition deepestOwner :: "string \<Rightarrow> Workspace list \<Rightarrow> Workspace option \<Rightarrow> bool" where
  "deepestOwner path ws owner =
     (case owner of
        None \<Rightarrow> (\<forall>w \<in> set ws. \<not> holdsRelativePath (ws_path w) path)
      | Some o' \<Rightarrow>
          (\<exists>before after. ws = before @ o' # after \<and> holdsRelativePath (ws_path o') path \<and>
             (\<forall>w \<in> set before. holdsRelativePath (ws_path w) path \<longrightarrow> depth (ws_path w) < depth (ws_path o')) \<and>
             (\<forall>w \<in> set after. holdsRelativePath (ws_path w) path \<longrightarrow> depth (ws_path w) \<le> depth (ws_path o'))))"

lemma snoc_split:
  "\<forall>v \<in> set ws. P v \<Longrightarrow>
     \<exists>xs. (\<exists>ys. ws @ [w] = xs @ w # ys \<and> (\<forall>v \<in> set xs. P v) \<and> (\<forall>v \<in> set ys. Q v))"
  by (intro exI [of _ ws] exI [of _ "[]"]) simp

lemma exI_pair: "P a b \<Longrightarrow> \<exists>x y. P x y"
  by blast

lemma deepestOwner_step:
  assumes "deepestOwner path ws owner"
  shows "deepestOwner path (ws @ [w]) (owningStep path w owner)"
proof (cases owner)
  case None
  then have "\<forall>v \<in> set ws. \<not> holdsRelativePath (ws_path v) path"
    using assms by (simp add: deepestOwner_def)
  then show ?thesis using None
    by (auto simp: deepestOwner_def owningStep_def intro!: snoc_split)
next
  case (Some o')
  from assms Some obtain before after where s: "ws = before @ o' # after"
      "holdsRelativePath (ws_path o') path"
      "\<forall>w \<in> set before. holdsRelativePath (ws_path w) path \<longrightarrow> depth (ws_path w) < depth (ws_path o')"
      "\<forall>w \<in> set after. holdsRelativePath (ws_path w) path \<longrightarrow> depth (ws_path w) \<le> depth (ws_path o')"
    by (auto simp: deepestOwner_def)
  show ?thesis
  proof (cases "holdsRelativePath (ws_path w) path \<and> depth (ws_path w) > depth (ws_path o')")
    case True
    then have "\<forall>v \<in> set ws. holdsRelativePath (ws_path v) path \<longrightarrow> depth (ws_path v) < depth (ws_path w)"
      using s by fastforce
    then show ?thesis using True Some
      by (auto simp: deepestOwner_def owningStep_def intro!: snoc_split)
  next
    case False
    then show ?thesis using s Some
      by (auto simp: deepestOwner_def owningStep_def intro!: exI_pair [of _ before "after @ [w]"])
  qed
qed

lemma deepestOwner_fold:
  "deepestOwner path done' owner \<Longrightarrow>
     deepestOwner path (done' @ ws) (fold (owningStep path) ws owner)"
proof (induction ws arbitrary: done' owner)
  case Nil
  then show ?case by simp
next
  case (Cons w ws)
  show ?case using Cons.IH [OF deepestOwner_step [OF Cons.prems, of w]] by simp
qed

section \<open>Properties\<close>

text \<open>
  A path counts as inside a directory exactly when the directory's segments, links of \<^verbatim>\<open>.\<close>
  and \<^verbatim>\<open>..\<close> resolved, begin the path's: a sibling whose name begins with the directory's, or
  with two dots, is never mistaken for something inside or outside.
\<close>

theorem liesInside_iff_prefix:
  "liesInside directory path \<longleftrightarrow> prefix (resolvedSegments directory) (resolvedSegments path)"
  by (rule liesInside_iff)

text \<open>
  Normalizing a path that is normalized already leaves it as it is.
\<close>

theorem normalizeRelativePath_idem:
  "normalizeRelativePath (normalizeRelativePath path) = normalizeRelativePath path"
proof -
  define climb where "climb = (\<not> isAbsolute path)"
  define segs where "segs = normalSegments climb path"
  have nf: "normalForm climb segs" unfolding segs_def by (rule normalSegments_normal)
  have root: "normalizeRelativePath ROOT_PATH = ROOT_PATH"
    by (simp add: ROOT_PATH_def normalizeRelativePath_segments isAbsolute_def starts_with_def
        normalSegments_def pushSegment_def separator_def currentSegment_def)
  show ?thesis
  proof (cases "segs = []")
    case True
    then have "normalSegments (\<not> isAbsolute path) path = []" by (simp add: segs_def climb_def)
    then have "normalizeRelativePath path = ROOT_PATH"
      by (simp only: normalizeRelativePath_segments Let_def if_True simp_thms)
    then show ?thesis by (simp add: root)
  next
    case False
    note j = join_not_trailing [OF nf False]
    have same: "normalSegments climb (join ''/'' segs) = segs"
      using nf by (rule normalSegments_join)
    show ?thesis
    proof (cases climb)
      case True
      then have p: "normalizeRelativePath path = join ''/'' segs"
        using False by (simp add: normalizeRelativePath_segments Let_def segs_def climb_def)
      have "\<not> isAbsolute (join ''/'' segs)" using j by (simp add: isAbsolute_iff)
      then show ?thesis
        using same True False by (simp add: p normalizeRelativePath_segments [of "join ''/'' segs"] Let_def)
    next
      case False': False
      then have p: "normalizeRelativePath path = separator # join ''/'' segs"
        using False by (simp add: normalizeRelativePath_segments Let_def segs_def climb_def)
      show ?thesis
        using same False' False
        by (simp add: p normalizeRelativePath_segments [of "separator # join ''/'' segs"]
            isAbsolute_iff normalSegments_abs)
    qed
  qed
qed

text \<open>
  The workspace a path belongs to is the first of the deepest listed ones that hold it, and a
  path has none exactly when no listed workspace holds it.
\<close>

theorem owningWorkspace_deepest:
  "case owningWorkspace path workspaces of
     None \<Rightarrow> list_all (\<lambda>w. \<not> holdsRelativePath (ws_path w) path) workspaces
   | Some owner \<Rightarrow>
       (\<exists>before after. workspaces = before @ owner # after \<and> holdsRelativePath (ws_path owner) path \<and>
          list_all (\<lambda>w. \<not> (holdsRelativePath (ws_path w) path \<and> depth (ws_path w) \<ge> depth (ws_path owner)))
            before \<and>
          list_all (\<lambda>w. \<not> (holdsRelativePath (ws_path w) path \<and> depth (ws_path w) > depth (ws_path owner)))
            after)"
proof -
  have "deepestOwner path ([] @ workspaces) (fold (owningStep path) workspaces None)"
    by (rule deepestOwner_fold) (simp add: deepestOwner_def)
  then have d: "deepestOwner path workspaces (owningWorkspace path workspaces)"
    by (simp add: owningWorkspace_def)
  show ?thesis
  proof (cases "owningWorkspace path workspaces")
    case None
    then show ?thesis using d by (simp add: deepestOwner_def list_all_iff)
  next
    case (Some owner)
    then show ?thesis using d
      by (auto simp: deepestOwner_def list_all_iff not_le not_less)
  qed
qed

end
