(* ===== verification/NonInputs.thy ===== *)
theory NonInputs
  imports Glob Paths
begin

text \<open>
  The consumer's \<^verbatim>\<open>rt-test.json\<close> (\<^verbatim>\<open>inputs/non-inputs.ts\<close> and \<open>variableEntryProblem\<close> of
  \<^verbatim>\<open>inputs/environment-digest.ts\<close>): reading it, refusing an unusable one with its reason, and
  deciding which paths its patterns make no input. What is on disk is an argument: the two looks at
  the file's presence and the parsed JSON between them.
\<close>

section \<open>Names\<close>

definition PACKAGE_JSON :: string where
  "PACKAGE_JSON = ''package.json''"

definition LOCKFILES :: "string list" where
  "LOCKFILES = [''bun.lock'', ''bun.lockb'', ''package-lock.json'', ''npm-shrinkwrap.json'',
     ''pnpm-lock.yaml'', ''yarn.lock'']"

definition PNPM_WORKSPACE_FILE :: string where
  "PNPM_WORKSPACE_FILE = ''pnpm-workspace.yaml''"

definition CONFIG_EXTENSIONS :: "string list" where
  "CONFIG_EXTENSIONS = [''.ts'', ''.mts'', ''.cts'', ''.js'', ''.mjs'', ''.cjs'']"

definition VITEST_CONFIG_FILES :: "string list" where
  "VITEST_CONFIG_FILES = map (\<lambda>ext. ''vitest.config'' @ ext) CONFIG_EXTENSIONS"

definition VITE_CONFIG_FILES :: "string list" where
  "VITE_CONFIG_FILES = map (\<lambda>ext. ''vite.config'' @ ext) CONFIG_EXTENSIONS"

definition PROTECTED_NAMES :: "string list" where
  "PROTECTED_NAMES = [PACKAGE_JSON, PNPM_WORKSPACE_FILE] @ LOCKFILES @ VITEST_CONFIG_FILES @ VITE_CONFIG_FILES"

definition NON_INPUTS_FILE :: string where
  "NON_INPUTS_FILE = ''rt-test.json''"

text \<open>\<^verbatim>\<open>/^(?:ts|js)config.*\.json$/\<close>: the dot takes no line break.\<close>

definition isTypescriptConfig :: "string \<Rightarrow> bool" where
  "isTypescriptConfig name =
     ((starts_with name ''tsconfig'' \<or> starts_with name ''jsconfig'') \<and> ends_with name ''.json'' \<and>
      length name \<ge> 13 \<and>
      list_all (\<lambda>c. c \<noteq> CHR 0x0A \<and> c \<noteq> CHR 0x0D) (drop 8 (take (length name - 5) name)))"

section \<open>The declaration\<close>

datatype NonInputsDeclaration =
    NonInputsAbsent
  | NonInputsDeclared (nd_patterns: "string list") (nd_variables: "string list option")
  | NonInputsUnusable (nd_reason: string)

datatype Presence = PresentFile | PresentNothing | PresentLink | PresentOther | PresentUnreadable string

definition unusable :: "string \<Rightarrow> NonInputsDeclaration" where
  "unusable why = NonInputsUnusable
     (NON_INPUTS_FILE @ '' declares no non-inputs, so every file stays an input: '' @ why)"

text \<open>\<open>None\<close> is the source's \<^verbatim>\<open>true\<close>: a regular file is there.\<close>

fun presenceDeclaration :: "Presence \<Rightarrow> NonInputsDeclaration option" where
  "presenceDeclaration PresentFile = None"
| "presenceDeclaration PresentNothing = Some NonInputsAbsent"
| "presenceDeclaration PresentLink =
     Some (unusable ''it is a symbolic link, and only a regular file at the consumer root is read'')"
| "presenceDeclaration PresentOther = Some (unusable ''it is not a regular file'')"
| "presenceDeclaration (PresentUnreadable reason) = Some (unusable (''it cannot be read: '' @ reason))"

record ListMember =
  lm_member :: string
  lm_max :: nat
  lm_items :: string
  lm_item :: string
  lm_problem :: "string \<Rightarrow> string option"

text \<open>\<^verbatim>\<open>isStringArray\<close>, giving the strings.\<close>

fun stringOf :: "json \<Rightarrow> string option" where
  "stringOf (JStr s) = Some s"
| "stringOf _ = None"

fun stringArray :: "json \<Rightarrow> string list option" where
  "stringArray (JArr vs) =
     (if list_all (\<lambda>v. stringOf v \<noteq> None) vs then Some (map (\<lambda>v. the (stringOf v)) vs) else None)"
| "stringArray _ = None"

definition listProblem :: "json \<Rightarrow> ListMember \<Rightarrow> string option" where
  "listProblem value rule =
     (case objectField value (lm_member rule) of
        None \<Rightarrow> None
      | Some v \<Rightarrow>
          (case stringArray v of
             None \<Rightarrow> Some (''its '' @ lm_member rule @ '' member is not an array of strings'')
           | Some items \<Rightarrow>
               (if length items > lm_max rule
                then Some (''its '' @ lm_member rule @ '' member holds '' @ show_nat (length items) @
                       '' '' @ lm_items rule @ '', more than the '' @ show_nat (lm_max rule) @ '' allowed'')
                else first_some (\<lambda>item. map_option
                       (\<lambda>problem. ''the '' @ lm_item rule @ '' '' @ stringify (JStr item) @ '' '' @ problem)
                       (lm_problem rule item)) items)))"

definition FORBIDDEN_CHARACTERS :: "char list" where
  "FORBIDDEN_CHARACTERS = [CHR 0x5C, CHR ''['', CHR '']'', CHR ''{'', CHR ''}'', CHR ''!'']"

definition INVALID_SEGMENTS :: "string list" where
  "INVALID_SEGMENTS = [[], ''.'', ''..'']"

definition patternProblem :: "string \<Rightarrow> string option" where
  "patternProblem pattern =
     (if pattern = [] then Some ''is empty''
      else if starts_with pattern ''/'' then
        Some ''begins with /; a pattern is relative to the consumer root''
      else case find (\<lambda>c. c \<in> set pattern) FORBIDDEN_CHARACTERS of
        Some c \<Rightarrow> Some (''contains '' @ [c])
      | None \<Rightarrow>
          (let segments = split_on separator pattern in
           if list_ex (\<lambda>segment. segment \<in> set INVALID_SEGMENTS) segments
           then Some ''has an empty, . or .. segment''
           else if list_ex (\<lambda>segment. segment \<noteq> globstar \<and> str_includes segment globstar) segments
           then Some ''uses ** inside a segment rather than as a whole one''
           else None))"

definition isSpace :: "char \<Rightarrow> bool" where
  "isSpace c = ((of_char c :: nat) \<in> {9, 10, 11, 12, 13, 32, 160})"

definition trim :: "string \<Rightarrow> string" where
  "trim s = rev (dropWhile isSpace (rev (dropWhile isSpace s)))"

fun indexOf :: "'a \<Rightarrow> 'a list \<Rightarrow> nat option" where
  "indexOf x [] = None"
| "indexOf x (y # ys) = (if y = x then Some 0 else map_option Suc (indexOf x ys))"

definition variableEntryProblem :: "string \<Rightarrow> string option" where
  "variableEntryProblem entry =
     (if entry = [] then Some ''is empty''
      else if trim entry \<noteq> entry then Some ''begins or ends with whitespace''
      else if CHR ''='' \<in> set entry then Some ''contains =''
      else if CHR 0x00 \<in> set entry then Some ''contains a NUL character''
      else case indexOf CHR ''*'' entry of
        None \<Rightarrow> None
      | Some mark \<Rightarrow>
          (if mark \<noteq> length entry - 1 then Some ''holds * other than as its last character''
           else if mark = 0 then
             Some (''is * alone, which would leave every variable'' @ [CHR 0x27] @ ''s value out'')
           else None))"

definition PATTERNS_MEMBER :: ListMember where
  "PATTERNS_MEMBER = \<lparr>lm_member = ''nonInputs'', lm_max = 256, lm_items = ''patterns'',
     lm_item = ''pattern'', lm_problem = patternProblem\<rparr>"

definition VARIABLES_MEMBER :: ListMember where
  "VARIABLES_MEMBER = \<lparr>lm_member = ''nonInputVariables'', lm_max = 256, lm_items = ''entries'',
     lm_item = ''variable entry'', lm_problem = variableEntryProblem\<rparr>"

definition declarationProblem :: "json \<Rightarrow> string option" where
  "declarationProblem value =
     (if \<not> isRecord value then Some ''its top level is not a JSON object''
      else case listProblem value PATTERNS_MEMBER of
        Some problem \<Rightarrow> Some problem
      | None \<Rightarrow> listProblem value VARIABLES_MEMBER)"

text \<open>A member that passed its check, read as the strings it holds.\<close>

definition listedStrings :: "json \<Rightarrow> string \<Rightarrow> string list option" where
  "listedStrings value member =
     (case objectField value member of None \<Rightarrow> None | Some v \<Rightarrow> stringArray v)"

definition readNonInputs :: "Presence \<Rightarrow> string + json \<Rightarrow> Presence \<Rightarrow> NonInputsDeclaration" where
  "readNonInputs before read after =
     (case presenceDeclaration before of
        Some declaration \<Rightarrow> declaration
      | None \<Rightarrow>
          (case read of
             Inl reason \<Rightarrow>
               (case presenceDeclaration after of
                  None \<Rightarrow> unusable (''it '' @ reason)
                | Some declaration \<Rightarrow> declaration)
           | Inr value \<Rightarrow>
               (case declarationProblem value of
                  Some problem \<Rightarrow> unusable problem
                | None \<Rightarrow> NonInputsDeclared
                    (case listedStrings value ''nonInputs'' of None \<Rightarrow> [] | Some patterns \<Rightarrow> patterns)
                    (listedStrings value ''nonInputVariables''))))"

fun declaredVariables :: "NonInputsDeclaration \<Rightarrow> string list" where
  "declaredVariables (NonInputsDeclared _ variables) =
     (case variables of None \<Rightarrow> [] | Some vs \<Rightarrow> vs)"
| "declaredVariables _ = []"

fun unusableReason :: "NonInputsDeclaration \<Rightarrow> string option" where
  "unusableReason (NonInputsUnusable reason) = Some reason"
| "unusableReason _ = None"

section \<open>Which paths are no input\<close>

text \<open>
  Protection (\<^verbatim>\<open>inputs/protection.ts\<close>) as its users see it: whether patterns apply at all, and
  which paths it protects.
\<close>

datatype Protection = NotApplying string | Applying "string \<Rightarrow> bool"

text \<open>On POSIX \<open>liesInsideOnHost\<close> is \<open>liesInside\<close>.\<close>

definition namesDeclarationFile :: "string \<Rightarrow> bool" where
  "namesDeclarationFile path = liesInside (''/'' @ NON_INPUTS_FILE) (''/'' @ path)"

definition declaredNonInputs :: "NonInputsDeclaration \<Rightarrow> Protection \<Rightarrow> string \<Rightarrow> string option" where
  "declaredNonInputs declaration protection =
     (case (declaration, protection) of
        (NonInputsDeclared patterns _, Applying protects) \<Rightarrow>
          (if patterns = [] then (\<lambda>_. None)
           else (let compiled = map (\<lambda>pattern. (pattern, split_on separator pattern)) patterns in
             (\<lambda>path.
               (if namesDeclarationFile path \<or> isTypescriptConfig (posixBasename path) \<or>
                   posixBasename path \<in> set PROTECTED_NAMES
                then None
                else let segments = split_on separator path in
                  case find (\<lambda>entry. matchesPath (snd entry) segments) compiled of
                    None \<Rightarrow> None
                  | Some entry \<Rightarrow> (if protects path then None else Some (fst entry))))))
      | _ \<Rightarrow> (\<lambda>_. None))"

definition testModuleFile :: "string \<Rightarrow> string \<Rightarrow> string" where
  "testModuleFile workspacePath modulePath =
     (if isAbsolute modulePath then modulePath
      else posixNormalize (posixJoin [workspacePath, modulePath]))"

section \<open>Lemmas\<close>

text \<open>What a pattern may be, without the words of its refusal.\<close>

definition usablePattern :: "string \<Rightarrow> bool" where
  "usablePattern pattern =
     (\<forall>segment \<in> set (split_on separator pattern).
        segment \<notin> {[], ''.'', ''..''} \<and> set segment \<inter> set FORBIDDEN_CHARACTERS = {} \<and>
        (segment = globstar \<or> \<not> str_includes segment globstar))"

lemma set_split_on: "set xs = (if tl (split_on c xs) = [] then {} else {c}) \<union> (\<Union>p \<in> set (split_on c xs). set p)"
proof (induction xs)
  case Nil
  then show ?case by simp
next
  case (Cons x xs)
  then show ?case by (cases "split_on c xs"; cases "tl (split_on c xs)") auto
qed

lemma forbidden_split:
  "set pattern \<inter> set FORBIDDEN_CHARACTERS = {} \<longleftrightarrow>
     (\<forall>segment \<in> set (split_on separator pattern). set segment \<inter> set FORBIDDEN_CHARACTERS = {})"
proof -
  have "separator \<notin> set FORBIDDEN_CHARACTERS"
    by (simp add: FORBIDDEN_CHARACTERS_def separator_def)
  then show ?thesis by (subst set_split_on [of pattern separator]) auto
qed

lemma split_on_starts: "starts_with pattern ''/'' \<Longrightarrow> [] \<in> set (split_on separator pattern)"
  by (cases pattern) (auto simp: starts_with_def separator_def)

lemma invalid_segments: "set INVALID_SEGMENTS = {[], ''.'', ''..''}"
  by (simp add: INVALID_SEGMENTS_def)

lemma patternProblem_None: "patternProblem pattern = None \<longleftrightarrow> usablePattern pattern"
proof -
  have "usablePattern pattern \<Longrightarrow> pattern \<noteq> [] \<and> \<not> starts_with pattern ''/''"
    using split_on_starts [of pattern] by (auto simp: usablePattern_def)
  moreover have "find (\<lambda>c. c \<in> set pattern) FORBIDDEN_CHARACTERS = None \<longleftrightarrow>
      set pattern \<inter> set FORBIDDEN_CHARACTERS = {}"
    by (auto simp: find_None_iff)
  moreover have "usablePattern pattern \<longleftrightarrow> set pattern \<inter> set FORBIDDEN_CHARACTERS = {} \<and>
      \<not> list_ex (\<lambda>segment. segment \<in> set INVALID_SEGMENTS) (split_on separator pattern) \<and>
      \<not> list_ex (\<lambda>segment. segment \<noteq> globstar \<and> str_includes segment globstar) (split_on separator pattern)"
    unfolding usablePattern_def list_ex_iff invalid_segments forbidden_split [of pattern] by blast
  ultimately show ?thesis
    unfolding patternProblem_def Let_def
    by (cases "find (\<lambda>c. c \<in> set pattern) FORBIDDEN_CHARACTERS") (simp_all add: invalid_segments)
qed

definition usableEntry :: "string \<Rightarrow> bool" where
  "usableEntry entry =
     (trim entry = entry \<and> CHR ''='' \<notin> set entry \<and> CHR 0x00 \<notin> set entry \<and>
      (\<exists>name. name \<noteq> [] \<and> CHR ''*'' \<notin> set name \<and> (entry = name \<or> entry = name @ ''*'')))"

lemma indexOf_None: "indexOf x xs = None \<longleftrightarrow> x \<notin> set xs"
  by (induction xs) auto

lemma ex_first:
  "y \<noteq> x \<Longrightarrow> (\<exists>a b. y # xs = a @ x # b \<and> x \<notin> set a \<and> length a = n) \<longleftrightarrow>
     (\<exists>m. n = Suc m \<and> (\<exists>a b. xs = a @ x # b \<and> x \<notin> set a \<and> length a = m))"
  (is "_ \<Longrightarrow> ?l \<longleftrightarrow> ?r")
proof
  assume "y \<noteq> x" ?l
  then obtain a b where "y # xs = a @ x # b" "x \<notin> set a" "length a = n" by blast
  with \<open>y \<noteq> x\<close> show ?r by (cases a) auto
next
  assume "y \<noteq> x" ?r
  then obtain a b where "n = Suc (length a)" "xs = a @ x # b" "x \<notin> set a" by blast
  with \<open>y \<noteq> x\<close> show ?l by (intro exI [of _ "y # a"] exI [of _ b]) auto
qed

lemma indexOf_Some: "indexOf x xs = Some n \<longleftrightarrow> (\<exists>a b. xs = a @ x # b \<and> x \<notin> set a \<and> length a = n)"
proof (induction xs arbitrary: n)
  case Nil
  then show ?case by simp
next
  case (Cons y xs)
  show ?case
  proof (cases "y = x")
    case True
    then have "(\<exists>a b. y # xs = a @ x # b \<and> x \<notin> set a \<and> length a = n) \<longleftrightarrow> n = 0"
      by (auto simp: Cons_eq_append_conv intro: exI [of _ "[]"])
    with True show ?thesis by simp
  next
    case False
    then have "(\<exists>a b. y # xs = a @ x # b \<and> x \<notin> set a \<and> length a = n) \<longleftrightarrow>
        (\<exists>m. n = Suc m \<and> (\<exists>a b. xs = a @ x # b \<and> x \<notin> set a \<and> length a = m))"
      by (rule ex_first)
    with False show ?thesis by (auto simp: Cons.IH)
  qed
qed

lemma variableEntryProblem_None: "variableEntryProblem entry = None \<longleftrightarrow> usableEntry entry"
proof (cases "indexOf CHR ''*'' entry")
  case None
  then have "CHR ''*'' \<notin> set entry" by (simp add: indexOf_None)
  then have "(\<exists>name. name \<noteq> [] \<and> CHR ''*'' \<notin> set name \<and> (entry = name \<or> entry = name @ ''*'')) \<longleftrightarrow> entry \<noteq> []"
    by auto
  then show ?thesis using None
    by (auto simp: variableEntryProblem_def usableEntry_def)
next
  case (Some n)
  then obtain a b where e: "entry = a @ CHR ''*'' # b" "CHR ''*'' \<notin> set a" "length a = n"
    by (auto simp: indexOf_Some)
  have star: "(\<exists>name. name \<noteq> [] \<and> CHR ''*'' \<notin> set name \<and> (entry = name \<or> entry = name @ ''*'')) \<longleftrightarrow>
      b = [] \<and> a \<noteq> []"
  proof
    assume "\<exists>name. name \<noteq> [] \<and> CHR ''*'' \<notin> set name \<and> (entry = name \<or> entry = name @ ''*'')"
    then obtain name where n: "name \<noteq> []" "CHR ''*'' \<notin> set name" "entry = name \<or> entry = name @ ''*''" by blast
    have "entry \<noteq> name" using n(2) e(1) by (metis in_set_conv_decomp)
    with n(3) have "entry = name @ ''*''" by simp
    then have "a @ CHR ''*'' # b = name @ CHR ''*'' # []" using e by simp
    then have "a = name \<and> b = []" using n(2) e(2) by (cases b rule: rev_cases) auto
    then show "b = [] \<and> a \<noteq> []" using n by simp
  qed (use e in auto)
  have "n \<noteq> length entry - 1 \<longleftrightarrow> b \<noteq> []" "n = 0 \<longleftrightarrow> a = []" "entry \<noteq> []"
    unfolding e(1) using e(3) by auto
  then show ?thesis
    unfolding usableEntry_def star variableEntryProblem_def Some option.case by simp
qed

lemma listProblem_None:
  "listProblem value rule = None \<longleftrightarrow>
     (case objectField value (lm_member rule) of
        None \<Rightarrow> True
      | Some v \<Rightarrow> (\<exists>items. stringArray v = Some items \<and> length items \<le> lm_max rule \<and>
                    (\<forall>item \<in> set items. lm_problem rule item = None)))"
  by (auto simp: listProblem_def first_some_None split: option.splits)

lemma find_map: "find P (map f xs) = map_option f (find (P \<circ> f) xs)"
  by (induction xs) auto

lemma member_rules: "lm_member PATTERNS_MEMBER = ''nonInputs''" "lm_member VARIABLES_MEMBER = ''nonInputVariables''"
  "lm_max PATTERNS_MEMBER = 256" "lm_max VARIABLES_MEMBER = 256"
  "lm_problem PATTERNS_MEMBER = patternProblem" "lm_problem VARIABLES_MEMBER = variableEntryProblem"
  by (simp_all add: PATTERNS_MEMBER_def VARIABLES_MEMBER_def)

definition listedUsable :: "(string \<times> json) list \<Rightarrow> string \<Rightarrow> (string \<Rightarrow> bool) \<Rightarrow> string list option \<Rightarrow> bool" where
  "listedUsable members member usable listed =
     (case map_of members member of
        None \<Rightarrow> listed = None
      | Some v \<Rightarrow> (\<exists>items. v = JArr (map JStr items) \<and> listed = Some items \<and>
                    length items \<le> 256 \<and> (\<forall>item \<in> set items. usable item)))"

lemma stringOf_Some: "stringOf w = Some s \<longleftrightarrow> w = JStr s"
  by (cases w) auto

lemma list_all_stringOf: "list_all (\<lambda>v. stringOf v \<noteq> None) vs \<longleftrightarrow> (\<exists>items. vs = map JStr items)"
proof
  assume "list_all (\<lambda>v. stringOf v \<noteq> None) vs"
  then have "vs = map JStr (map (\<lambda>v. the (stringOf v)) vs)"
    by (induction vs) (auto simp: stringOf_Some)
  then show "\<exists>items. vs = map JStr items" ..
next
  assume "\<exists>items. vs = map JStr items"
  then obtain items where "vs = map JStr items" ..
  then show "list_all (\<lambda>v. stringOf v \<noteq> None) vs" by (simp add: list_all_iff)
qed

lemma stringArray_strings [simp]: "stringArray (JArr (map JStr items)) = Some items"
proof -
  have "map (\<lambda>v. the (stringOf v)) (map JStr items) = items" by (induction items) auto
  moreover have "list_all (\<lambda>v. stringOf v \<noteq> None) (map JStr items)"
    unfolding list_all_stringOf by blast
  ultimately show ?thesis unfolding stringArray.simps by metis
qed

lemma stringArray_Some: "stringArray v = Some items \<longleftrightarrow> v = JArr (map JStr items)"
proof
  assume s: "stringArray v = Some items"
  then obtain vs where v: "v = JArr vs" "list_all (\<lambda>v. stringOf v \<noteq> None) vs"
    by (cases v) (auto split: if_splits)
  from v(2) obtain strings where "vs = map JStr strings" unfolding list_all_stringOf ..
  with s v(1) show "v = JArr (map JStr items)" by (simp del: stringArray.simps)
qed (simp del: stringArray.simps)

declare stringArray.simps(1) [simp del]

lemma namesDeclarationFile_iff:
  "namesDeclarationFile path \<longleftrightarrow> prefix [NON_INPUTS_FILE] (resolvedSegments path)"
proof -
  have "resolvedSegments (''/'' @ NON_INPUTS_FILE) = [NON_INPUTS_FILE]"
    by (simp add: resolvedSegments_def normalSegments_def NON_INPUTS_FILE_def separator_def
        pushSegment_def currentSegment_def parentSegment_def)
  moreover have "resolvedSegments (''/'' @ path) = resolvedSegments path"
    using normalSegments_abs [of path] by (simp add: resolvedSegments_def separator_def)
  ultimately show ?thesis by (simp add: namesDeclarationFile_def liesInside_iff)
qed

section \<open>Properties\<close>

text \<open>
  \<^verbatim>\<open>rt-test.json\<close> declares patterns and variables exactly when it is a regular file holding a
  JSON object in which each list, where present, is an array of at most 256 strings, every pattern
  made of plain relative segments with \<^verbatim>\<open>**\<close> only as a whole one, and every variable entry a name or
  a non-empty prefix: anything else on disk declares nothing.
\<close>

theorem readNonInputs_declares_iff:
  "readNonInputs before read after = NonInputsDeclared patterns variables \<longleftrightarrow>
     before = PresentFile \<and>
     (\<exists>members. read = Inr (JObj members) \<and>
        (\<exists>listed. listedUsable members ''nonInputs'' usablePattern listed \<and>
           patterns = (case listed of None \<Rightarrow> [] | Some ps \<Rightarrow> ps)) \<and>
        listedUsable members ''nonInputVariables'' usableEntry variables)"
proof -
  have before: "presenceDeclaration b = None \<longleftrightarrow> b = PresentFile"
    "presenceDeclaration b \<noteq> Some (NonInputsDeclared patterns variables)" for b
    by (cases b; simp add: unusable_def)+
  have listed: "listProblem (JObj members) rule = None \<and> lm_max rule = 256 \<and>
        (\<forall>item. lm_problem rule item = None \<longleftrightarrow> usable item) \<Longrightarrow>
      listedUsable members (lm_member rule) usable l \<longleftrightarrow> l = listedStrings (JObj members) (lm_member rule)"
    for members rule l and usable
    by (cases "map_of members (lm_member rule)")
       (auto simp: listProblem_None listedUsable_def listedStrings_def stringArray_Some)
  have listed': "listedUsable members (lm_member rule) usable l \<Longrightarrow> lm_max rule = 256 \<Longrightarrow>
        (\<forall>item. lm_problem rule item = None \<longleftrightarrow> usable item) \<Longrightarrow> listProblem (JObj members) rule = None"
    for members rule l and usable
    by (auto simp: listProblem_None listedUsable_def stringArray_Some split: option.splits)
  have p: "(\<forall>l. listedUsable members ''nonInputs'' usablePattern l \<longleftrightarrow>
        l = listedStrings (JObj members) ''nonInputs'')"
    if "listProblem (JObj members) PATTERNS_MEMBER = None" for members
    using listed [of members PATTERNS_MEMBER usablePattern] that
    by (simp add: member_rules patternProblem_None)
  have v: "(\<forall>l. listedUsable members ''nonInputVariables'' usableEntry l \<longleftrightarrow>
        l = listedStrings (JObj members) ''nonInputVariables'')"
    if "listProblem (JObj members) VARIABLES_MEMBER = None" for members
    using listed [of members VARIABLES_MEMBER usableEntry] that
    by (simp add: member_rules variableEntryProblem_None)
  have p': "listProblem (JObj members) PATTERNS_MEMBER = None"
    if "listedUsable members ''nonInputs'' usablePattern l" for members l
    using listed' [of members PATTERNS_MEMBER usablePattern l] that
    by (simp add: member_rules patternProblem_None)
  have v': "listProblem (JObj members) VARIABLES_MEMBER = None"
    if "listedUsable members ''nonInputVariables'' usableEntry l" for members l
    using listed' [of members VARIABLES_MEMBER usableEntry l] that
    by (simp add: member_rules variableEntryProblem_None)
  have declares: "(case declarationProblem value of Some problem \<Rightarrow> unusable problem
        | None \<Rightarrow> NonInputsDeclared
            (case listedStrings value ''nonInputs'' of None \<Rightarrow> [] | Some patterns \<Rightarrow> patterns)
            (listedStrings value ''nonInputVariables'')) = NonInputsDeclared patterns variables \<longleftrightarrow>
      (\<exists>members. value = JObj members \<and>
        (\<exists>listed. listedUsable members ''nonInputs'' usablePattern listed \<and>
           patterns = (case listed of None \<Rightarrow> [] | Some ps \<Rightarrow> ps)) \<and>
        listedUsable members ''nonInputVariables'' usableEntry variables)" for "value"
  proof (cases "\<exists>members. value = JObj members")
    case False
    then have "\<not> isRecord value" by (cases "value") auto
    then show ?thesis using False by (auto simp: declarationProblem_def unusable_def)
  next
    case True
    then obtain members where f: "value = JObj members" by blast
    show ?thesis
    proof (cases "declarationProblem value")
      case None
      then have "listProblem (JObj members) PATTERNS_MEMBER = None"
        "listProblem (JObj members) VARIABLES_MEMBER = None"
        by (auto simp: declarationProblem_def f split: option.splits)
      then show ?thesis using None f p v by auto
    next
      case (Some problem)
      then show ?thesis using f p' v'
        by (auto simp: declarationProblem_def unusable_def split: option.splits)
    qed
  qed
  have unusable: "unusable why \<noteq> NonInputsDeclared patterns variables" for why
    by (simp add: unusable_def)
  show ?thesis
  proof (cases "presenceDeclaration before")
    case None
    then have b: "before = PresentFile" by (simp add: before)
    show ?thesis
    proof (cases read)
      case (Inl reason)
      then show ?thesis
        using before(2) [of after] unusable
        by (cases "presenceDeclaration after") (simp_all add: readNonInputs_def b)
    next
      case (Inr v)
      then show ?thesis using declares [of v] by (simp add: readNonInputs_def b)
    qed
  next
    case (Some d)
    then have "before \<noteq> PresentFile" "d \<noteq> NonInputsDeclared patterns variables"
      using before [of before] by auto
    then show ?thesis using Some by (simp add: readNonInputs_def)
  qed
qed

text \<open>
  C15. A path is a declared non-input exactly when patterns apply, the first declared pattern that
  denotes it is the one named, and it is none of the files no pattern may remove: \<^verbatim>\<open>rt-test.json\<close>
  or what lies under it, a manifest, lockfile, workspace list or config file, or a protected file.
\<close>

theorem declaredNonInputs_iff:
  "declaredNonInputs declaration protection path = Some pattern \<longleftrightarrow>
     (\<exists>patterns variables protects.
        declaration = NonInputsDeclared patterns variables \<and> protection = Applying protects \<and>
        find (\<lambda>p. matchesPath (split_on separator p) (split_on separator path)) patterns = Some pattern \<and>
        \<not> prefix [NON_INPUTS_FILE] (resolvedSegments path) \<and>
        \<not> isTypescriptConfig (posixBasename path) \<and>
        posixBasename path \<notin> set PROTECTED_NAMES \<and> \<not> protects path)"
proof -
  have find: "find (\<lambda>entry. matchesPath (snd entry) segs) (map (\<lambda>p. (p, split_on separator p)) ps) =
      map_option (\<lambda>p. (p, split_on separator p)) (find (\<lambda>p. matchesPath (split_on separator p) segs) ps)"
    for segs ps by (simp add: find_map comp_def)
  show ?thesis
    by (auto simp: declaredNonInputs_def Let_def find namesDeclarationFile_iff
        split: NonInputsDeclaration.splits Protection.splits option.splits)
qed

end
