(* ===== verification/InputJobs.thy ===== *)
theory InputJobs
  imports Prelude
begin

text \<open>
  What a running job learns of its inputs (\<^verbatim>\<open>inputs/input-jobs.ts\<close>): \<open>JobWindows\<close>, whose windows
  are shared objects a mark keeps after its job ended, so they live in a store by number; and
  \<open>EventLedger\<close>, whose waiters are the pending promises, named by number and released by the
  operation that resolves them. Sequences of operations are explicit, and the properties hold after
  every one of them.
\<close>

section \<open>Job windows\<close>

text \<open>The committed digests (\<open>'d\<close>) are carried to the callers and never read here.\<close>

record 'd JobWindow =
  jw_paths :: "string list"
  jw_causes :: "string list"
  jw_startDigests :: "'d option"
  jw_endDigests :: "'d option"

record JobMark =
  jm_window :: nat
  jm_unsettled :: "string option"

datatype JobVerdict = Fingerprinted | NotFingerprinted (jv_reason: string) (jv_changedWhileRunning: bool)

record 'd JobWindows =
  jws_windows :: "'d JobWindow list"
  jws_open :: "nat list"

definition emptyWindows :: "'d JobWindows" where
  "emptyWindows = \<lparr>jws_windows = [], jws_open = []\<rparr>"

definition openWindow :: "string option \<Rightarrow> 'd option \<Rightarrow> 'd JobWindows \<Rightarrow> JobMark \<times> 'd JobWindows" where
  "openWindow unsettled digests ws =
     (let window = length (jws_windows ws) in
      (\<lparr>jm_window = window, jm_unsettled = unsettled\<rparr>,
       \<lparr>jws_windows = jws_windows ws @
          [\<lparr>jw_paths = [], jw_causes = [], jw_startDigests = digests, jw_endDigests = None\<rparr>],
        jws_open = jws_open ws @ [window]\<rparr>))"

definition updateOpen :: "('d JobWindow \<Rightarrow> 'd JobWindow) \<Rightarrow> 'd JobWindows \<Rightarrow> 'd JobWindows" where
  "updateOpen f ws =
     ws\<lparr>jws_windows := map (\<lambda>(i, w). if i \<in> set (jws_open ws) then f w else w)
         (enumerate 0 (jws_windows ws))\<rparr>"

definition recordPath :: "string \<Rightarrow> 'd JobWindows \<Rightarrow> 'd JobWindows" where
  "recordPath path = updateOpen (\<lambda>w. w\<lparr>jw_paths := jadd path (jw_paths w)\<rparr>)"

definition recordCause :: "string \<Rightarrow> 'd JobWindows \<Rightarrow> 'd JobWindows" where
  "recordCause cause = updateOpen (\<lambda>w. w\<lparr>jw_causes := jadd cause (jw_causes w)\<rparr>)"

definition MAX_NAMED_CHANGES :: nat where
  "MAX_NAMED_CHANGES = 20"

definition namedList :: "string list \<Rightarrow> string" where
  "namedList descriptions =
     (let named = join '', '' (take MAX_NAMED_CHANGES descriptions) in
      if length descriptions > MAX_NAMED_CHANGES
      then named @ '' and '' @ show_nat (length descriptions - MAX_NAMED_CHANGES) @ '' more''
      else named)"

definition verdictOn :: "string option \<Rightarrow> string option \<Rightarrow> string list \<Rightarrow> string list \<Rightarrow> JobVerdict" where
  "verdictOn unsettled unavailable causes paths =
     (case unsettled of
        Some why \<Rightarrow> NotFingerprinted (''its inputs were unsettled when it started: '' @ why) False
      | None \<Rightarrow>
          (let changes = uniq (causes @ paths) in
           if changes \<noteq> [] then
             NotFingerprinted (''its inputs changed while it ran: '' @ namedList changes) (unavailable = None)
           else case unavailable of
             None \<Rightarrow> Fingerprinted
           | Some why \<Rightarrow> NotFingerprinted why False))"

definition closeWindow :: "JobMark \<Rightarrow> string option \<Rightarrow> 'd option \<Rightarrow> 'd JobWindows \<Rightarrow>
    JobVerdict \<times> 'd JobWindows" where
  "closeWindow mark unavailable digests ws =
     (let i = jm_window mark;
          windows = (if i \<in> set (jws_open ws)
                     then (jws_windows ws)[i := (jws_windows ws ! i)\<lparr>jw_endDigests := digests\<rparr>]
                     else jws_windows ws);
          ws' = ws\<lparr>jws_windows := windows, jws_open := filter (\<lambda>w. w \<noteq> i) (jws_open ws)\<rparr>;
          window = jws_windows ws' ! i
      in (verdictOn (jm_unsettled mark) unavailable (jw_causes window) (jw_paths window), ws'))"

subsection \<open>Sequences of operations\<close>

datatype 'd JobEvent =
    Opened "string option" "'d option"
  | PathChanged string
  | CauseSeen string
  | Closed JobMark "string option" "'d option"

fun stepWindows :: "'d JobEvent \<Rightarrow> 'd JobWindows \<Rightarrow> 'd JobWindows" where
  "stepWindows (Opened unsettled digests) ws = snd (openWindow unsettled digests ws)"
| "stepWindows (PathChanged path) ws = recordPath path ws"
| "stepWindows (CauseSeen cause) ws = recordCause cause ws"
| "stepWindows (Closed mark unavailable digests) ws = snd (closeWindow mark unavailable digests ws)"

definition runWindows :: "'d JobEvent list \<Rightarrow> 'd JobWindows \<Rightarrow> 'd JobWindows" where
  "runWindows es ws = fold stepWindows es ws"

text \<open>What a sequence records, and the part of it before a window closes.\<close>

fun pathsRecorded :: "'d JobEvent list \<Rightarrow> string list" where
  "pathsRecorded [] = []"
| "pathsRecorded (PathChanged path # es) = path # pathsRecorded es"
| "pathsRecorded (_ # es) = pathsRecorded es"

fun causesRecorded :: "'d JobEvent list \<Rightarrow> string list" where
  "causesRecorded [] = []"
| "causesRecorded (CauseSeen cause # es) = cause # causesRecorded es"
| "causesRecorded (_ # es) = causesRecorded es"

fun closes :: "nat \<Rightarrow> 'd JobEvent \<Rightarrow> bool" where
  "closes i (Closed mark _ _) = (jm_window mark = i)"
| "closes i _ = False"

definition whileOpen :: "nat \<Rightarrow> 'd JobEvent list \<Rightarrow> 'd JobEvent list" where
  "whileOpen i es = takeWhile (\<lambda>e. \<not> closes i e) es"

subsection \<open>Lemmas\<close>

definition windowAt :: "'d JobWindows \<Rightarrow> nat \<Rightarrow> 'd JobWindow" where
  "windowAt ws i = jws_windows ws ! i"

definition windowsInv :: "'d JobWindows \<Rightarrow> bool" where
  "windowsInv ws = (\<forall>i \<in> set (jws_open ws). i < length (jws_windows ws))"

lemma updateOpen_simps [simp]:
  "length (jws_windows (updateOpen f ws)) = length (jws_windows ws)"
  "jws_open (updateOpen f ws) = jws_open ws"
  "i < length (jws_windows ws) \<Longrightarrow>
     windowAt (updateOpen f ws) i = (if i \<in> set (jws_open ws) then f (windowAt ws i) else windowAt ws i)"
  by (simp_all add: updateOpen_def windowAt_def nth_enumerate_eq)

lemma closeWindow_simps:
  "length (jws_windows (snd (closeWindow mark u d ws))) = length (jws_windows ws)"
  "jws_open (snd (closeWindow mark u d ws)) = filter (\<lambda>w. w \<noteq> jm_window mark) (jws_open ws)"
  "i < length (jws_windows ws) \<Longrightarrow>
     jw_paths (windowAt (snd (closeWindow mark u d ws)) i) = jw_paths (windowAt ws i) \<and>
     jw_causes (windowAt (snd (closeWindow mark u d ws)) i) = jw_causes (windowAt ws i)"
  by (cases "i = jm_window mark"; auto simp: closeWindow_def Let_def windowAt_def)+

lemma openWindow_simps:
  "length (jws_windows (snd (openWindow u d ws))) = Suc (length (jws_windows ws))"
  "jws_open (snd (openWindow u d ws)) = jws_open ws @ [length (jws_windows ws)]"
  "i < length (jws_windows ws) \<Longrightarrow> windowAt (snd (openWindow u d ws)) i = windowAt ws i"
  "windowAt (snd (openWindow u d ws)) (length (jws_windows ws)) =
     \<lparr>jw_paths = [], jw_causes = [], jw_startDigests = d, jw_endDigests = None\<rparr>"
  "jm_window (fst (openWindow u d ws)) = length (jws_windows ws)"
  "jm_unsettled (fst (openWindow u d ws)) = u"
  by (simp_all add: openWindow_def Let_def windowAt_def nth_append)

lemmas window_simps = openWindow_simps closeWindow_simps recordPath_def recordCause_def

lemma step_length: "length (jws_windows ws) \<le> length (jws_windows (stepWindows e ws))"
  by (cases e) (simp_all add: window_simps)

lemma windowsInv_step: "windowsInv ws \<Longrightarrow> windowsInv (stepWindows e ws)"
  by (cases e) (auto simp: windowsInv_def window_simps)

lemma windowsInv_run: "windowsInv ws \<Longrightarrow> windowsInv (runWindows es ws)"
  unfolding runWindows_def by (induction es arbitrary: ws) (auto simp: windowsInv_step)

lemma pathsRecorded_Cons: "pathsRecorded (e # es) = pathsRecorded [e] @ pathsRecorded es"
  by (cases e) auto

lemma causesRecorded_Cons: "causesRecorded (e # es) = causesRecorded [e] @ causesRecorded es"
  by (cases e) auto

text \<open>A closed window changes no more; an open one holds exactly what is recorded until it closes.\<close>

lemma run_closed:
  "i < length (jws_windows ws) \<Longrightarrow> i \<notin> set (jws_open ws) \<Longrightarrow>
     jw_paths (windowAt (runWindows es ws) i) = jw_paths (windowAt ws i) \<and>
     jw_causes (windowAt (runWindows es ws) i) = jw_causes (windowAt ws i)"
proof (induction es arbitrary: ws)
  case Nil
  then show ?case by (simp add: runWindows_def)
next
  case (Cons e es)
  have i: "i < length (jws_windows (stepWindows e ws))"
    using Cons.prems(1) step_length [of ws e] by simp
  have "i \<notin> set (jws_open (stepWindows e ws))"
    using Cons.prems by (cases e) (auto simp: window_simps)
  moreover have "jw_paths (windowAt (stepWindows e ws) i) = jw_paths (windowAt ws i) \<and>
      jw_causes (windowAt (stepWindows e ws) i) = jw_causes (windowAt ws i)"
    using Cons.prems by (cases e) (auto simp: window_simps)
  ultimately show ?case using Cons.IH [OF i] by (simp add: runWindows_def)
qed

lemma run_open:
  "i < length (jws_windows ws) \<Longrightarrow> i \<in> set (jws_open ws) \<Longrightarrow>
     jw_paths (windowAt (runWindows es ws) i) =
       fold jadd (pathsRecorded (whileOpen i es)) (jw_paths (windowAt ws i)) \<and>
     jw_causes (windowAt (runWindows es ws) i) =
       fold jadd (causesRecorded (whileOpen i es)) (jw_causes (windowAt ws i))"
proof (induction es arbitrary: ws)
  case Nil
  then show ?case by (simp add: runWindows_def whileOpen_def)
next
  case (Cons e es)
  have i: "i < length (jws_windows (stepWindows e ws))"
    using Cons.prems(1) step_length [of ws e] by simp
  show ?case
  proof (cases "closes i e")
    case True
    then obtain mark u d where e: "e = Closed mark u d" "jm_window mark = i"
      by (cases e) auto
    have "i \<notin> set (jws_open (stepWindows e ws))" by (simp add: e window_simps)
    from run_closed [OF i this, of es] show ?thesis
      using Cons.prems True by (simp add: runWindows_def whileOpen_def e window_simps)
  next
    case False
    then have "i \<in> set (jws_open (stepWindows e ws))"
      using Cons.prems by (cases e) (auto simp: window_simps)
    from Cons.IH [OF i this]
    have IH: "jw_paths (windowAt (runWindows (e # es) ws) i) =
          fold jadd (pathsRecorded (whileOpen i es)) (jw_paths (windowAt (stepWindows e ws) i))"
        "jw_causes (windowAt (runWindows (e # es) ws) i) =
          fold jadd (causesRecorded (whileOpen i es)) (jw_causes (windowAt (stepWindows e ws) i))"
      by (simp_all add: runWindows_def)
    have w: "whileOpen i (e # es) = e # whileOpen i es"
      using False by (simp add: whileOpen_def)
    show ?thesis
      unfolding IH w using Cons.prems False
      by (cases e) (auto simp: window_simps)
  qed
qed

lemma uniq_fold_append:
  "uniq (fold jadd cs [] @ fold jadd ps []) = uniq (cs @ ps)"
proof -
  have fold_same: "set ys \<subseteq> set s \<Longrightarrow> fold jadd ys s = s" for ys s :: "'b list"
    by (induction ys) (auto simp: jadd_def)
  have app: "fold jadd (fold jadd ys t) s = fold jadd ys (fold jadd t s)" for ys t s :: "'b list"
  proof (induction ys arbitrary: t)
    case Nil
    then show ?case by simp
  next
    case (Cons y ys)
    have "fold jadd (jadd y t) s = jadd y (fold jadd t s)"
      by (auto simp: jadd_def set_fold_jadd)
    then show ?case by (simp add: Cons)
  qed
  show ?thesis by (simp add: uniq_def app)
qed

lemma verdictOn_recorded:
  "verdictOn u a (fold jadd cs []) (fold jadd ps []) = verdictOn u a cs ps"
  unfolding verdictOn_def uniq_fold_append by (rule refl)

text \<open>The verdict over every change recorded, each counted once in the order first recorded.\<close>

lemma verdictOn_Fingerprinted:
  "verdictOn u a cs ps = Fingerprinted \<longleftrightarrow> u = None \<and> a = None \<and> uniq (cs @ ps) = []"
  by (auto simp: verdictOn_def Let_def split: option.splits if_splits)

lemma verdictOn_NotFingerprinted:
  "verdictOn u a cs ps = NotFingerprinted reason changed \<longleftrightarrow>
     (\<exists>why. u = Some why \<and> reason = ''its inputs were unsettled when it started: '' @ why \<and> \<not> changed) \<or>
     (u = None \<and> uniq (cs @ ps) \<noteq> [] \<and>
        reason = ''its inputs changed while it ran: '' @ namedList (uniq (cs @ ps)) \<and>
        changed = (a = None)) \<or>
     (u = None \<and> uniq (cs @ ps) = [] \<and> a = Some reason \<and> \<not> changed)"
  by (auto simp: verdictOn_def Let_def split: option.splits if_splits)

lemma namedList_eq:
  "namedList xs = join '', '' (take 20 xs) @
     (if length xs > 20 then '' and '' @ show_nat (length xs - 20) @ '' more'' else [])"
  by (simp add: namedList_def MAX_NAMED_CHANGES_def Let_def)

text \<open>The window of a job, once it closes, holds what was recorded while it was open.\<close>

lemma closeWindow_recorded:
  fixes before :: "'d JobEvent list" and unsettled :: "string option" and digests :: "'d option"
  defines "start \<equiv> openWindow unsettled digests (runWindows before emptyWindows)"
  fixes events :: "'d JobEvent list"
  defines "during \<equiv> whileOpen (jm_window (fst start)) events"
  shows "fst (closeWindow (fst start) unavailable endDigests (runWindows events (snd start))) =
           verdictOn unsettled unavailable (causesRecorded during) (pathsRecorded during)"
proof -
  define ws where "ws = runWindows before emptyWindows"
  define w where "w = runWindows events (snd start)"
  let ?i = "length (jws_windows ws)"
  have i: "?i < length (jws_windows (snd start))" "?i \<in> set (jws_open (snd start))"
      "jm_window (fst start) = ?i"
    by (simp_all add: start_def ws_def window_simps)
  have settled: "jm_unsettled (fst start) = unsettled" by (simp add: start_def window_simps)
  have empty: "jw_paths (windowAt (snd start) ?i) = []" "jw_causes (windowAt (snd start) ?i) = []"
    by (simp_all add: start_def ws_def window_simps)
  have after: "jw_paths (windowAt w ?i) = fold jadd (pathsRecorded during) [] \<and>
      jw_causes (windowAt w ?i) = fold jadd (causesRecorded during) []"
    using run_open [OF i(1,2), of events] by (simp add: w_def during_def i(3) empty)
  have grows: "length (jws_windows v) \<le> length (jws_windows (runWindows events v))"
    for v :: "'d JobWindows"
    unfolding runWindows_def
  proof (induction events arbitrary: v)
    case (Cons e es)
    then show ?case using step_length le_trans by (metis fold_simps(2))
  qed simp
  have "?i < length (jws_windows w)" using i(1) grows [of "snd start"] by (simp add: w_def)
  then have "fst (closeWindow (fst start) unavailable endDigests w) =
      verdictOn unsettled unavailable (jw_causes (windowAt w ?i)) (jw_paths (windowAt w ?i))"
    by (simp add: closeWindow_def Let_def windowAt_def nth_list_update i(3) settled)
  then show ?thesis using after by (simp add: w_def verdictOn_recorded)
qed

section \<open>The event ledger\<close>

record LedgerWait =
  lw_id :: nat
  lw_through :: nat
  lw_endsAtReconciliation :: bool

text \<open>\<open>el_reconciling\<close> is what the constructor's callback answers.\<close>

record EventLedger =
  el_reconciling :: bool
  el_accepted :: nat
  el_readThrough :: nat
  el_waiters :: "LedgerWait list"

definition emptyLedger :: EventLedger where
  "emptyLedger = \<lparr>el_reconciling = False, el_accepted = 0, el_readThrough = 0, el_waiters = []\<rparr>"

definition hasRead :: "EventLedger \<Rightarrow> nat \<Rightarrow> bool" where
  "hasRead l through = (\<not> el_reconciling l \<and> el_readThrough l \<ge> through)"

definition canEnd :: "EventLedger \<Rightarrow> nat \<Rightarrow> bool \<Rightarrow> bool" where
  "canEnd l through endsAtReconciliation =
     (if endsAtReconciliation \<and> el_reconciling l then True else hasRead l through)"

definition accept :: "nat \<Rightarrow> EventLedger \<Rightarrow> EventLedger" where
  "accept count l = l\<lparr>el_accepted := el_accepted l + count\<rparr>"

definition acceptHeld :: "nat \<Rightarrow> EventLedger \<Rightarrow> EventLedger" where
  "acceptHeld count l =
     (if count = 0 then l
      else let l' = accept count l in
        l'\<lparr>el_waiters := map (\<lambda>w. w\<lparr>lw_through := el_accepted l'\<rparr>) (el_waiters l')\<rparr>)"

text \<open>Each operation that resolves promises answers their numbers.\<close>

definition notify :: "EventLedger \<Rightarrow> nat list \<times> EventLedger" where
  "notify l =
     (let ending = (\<lambda>w. canEnd l (lw_through w) (lw_endsAtReconciliation w)) in
      (map lw_id (filter ending (el_waiters l)),
       l\<lparr>el_waiters := filter (\<lambda>w. \<not> ending w) (el_waiters l)\<rparr>))"

definition readUpTo :: "nat \<Rightarrow> EventLedger \<Rightarrow> nat list \<times> EventLedger" where
  "readUpTo through l = notify (l\<lparr>el_readThrough := max (el_readThrough l) through\<rparr>)"

definition waitFor :: "nat \<Rightarrow> bool \<Rightarrow> EventLedger \<Rightarrow> nat list \<times> EventLedger" where
  "waitFor i endsAtReconciliation l =
     (let through = el_accepted l in
      if canEnd l through endsAtReconciliation then ([i], l)
      else ([], l\<lparr>el_waiters := el_waiters l @
        [\<lparr>lw_id = i, lw_through = through, lw_endsAtReconciliation = endsAtReconciliation\<rparr>]\<rparr>))"

definition releaseAll :: "EventLedger \<Rightarrow> nat list \<times> EventLedger" where
  "releaseAll l = (map lw_id (el_waiters l), l\<lparr>el_waiters := []\<rparr>)"

subsection \<open>Sequences of operations\<close>

text \<open>
  The tracker notifies the ledger whenever a reconciliation begins or ends, so that the flag and its
  notification are one event here.
\<close>

datatype LedgerEvent =
    Accepted nat
  | AcceptedHeld nat
  | ReadUpTo nat
  | WaitForRead nat
  | WaitForReadOrReconciliation nat
  | ReconciliationBegins
  | ReconciliationEnds
  | Stopped

fun stepLedger :: "LedgerEvent \<Rightarrow> EventLedger \<Rightarrow> nat list \<times> EventLedger" where
  "stepLedger (Accepted count) l = ([], accept count l)"
| "stepLedger (AcceptedHeld count) l = ([], acceptHeld count l)"
| "stepLedger (ReadUpTo through) l = readUpTo through l"
| "stepLedger (WaitForRead i) l = waitFor i False l"
| "stepLedger (WaitForReadOrReconciliation i) l = waitFor i True l"
| "stepLedger ReconciliationBegins l = notify (l\<lparr>el_reconciling := True\<rparr>)"
| "stepLedger ReconciliationEnds l = notify (l\<lparr>el_reconciling := False\<rparr>)"
| "stepLedger Stopped l = releaseAll l"

definition runLedger :: "LedgerEvent list \<Rightarrow> EventLedger \<Rightarrow> EventLedger" where
  "runLedger es l = fold (\<lambda>e l. snd (stepLedger e l)) es l"

text \<open>The waits a sequence places, and those it resolves, by their numbers and in their order.\<close>

fun asksFor :: "LedgerEvent \<Rightarrow> nat list" where
  "asksFor (WaitForRead i) = [i]"
| "asksFor (WaitForReadOrReconciliation i) = [i]"
| "asksFor _ = []"

fun resolvedBy :: "LedgerEvent list \<Rightarrow> EventLedger \<Rightarrow> nat list" where
  "resolvedBy [] l = []"
| "resolvedBy (e # es) l = fst (stepLedger e l) @ resolvedBy es (snd (stepLedger e l))"

subsection \<open>Lemmas\<close>

text \<open>No waiter is left that could end, and none waits for more than was accepted.\<close>

definition ledgerInv :: "EventLedger \<Rightarrow> bool" where
  "ledgerInv l = (\<forall>w \<in> set (el_waiters l). lw_through w \<le> el_accepted l \<and>
     \<not> canEnd l (lw_through w) (lw_endsAtReconciliation w))"

lemma canEnd_cong [simp]:
  "canEnd (l\<lparr>el_waiters := ws\<rparr>) = canEnd l"
  "canEnd (l\<lparr>el_accepted := n\<rparr>) = canEnd l"
  by (simp_all add: canEnd_def hasRead_def fun_eq_iff)

lemma notify_inv:
  "(\<forall>w \<in> set (el_waiters l). lw_through w \<le> el_accepted l) \<Longrightarrow> ledgerInv (snd (notify l))"
  by (auto simp: ledgerInv_def notify_def Let_def)

lemma acceptHeld_inv:
  assumes "ledgerInv l"
  shows "ledgerInv (acceptHeld count l)"
proof (cases "count = 0")
  case True
  then show ?thesis using assms by (simp add: acceptHeld_def)
next
  case False
  have "\<not> canEnd l (el_accepted l + count) (lw_endsAtReconciliation w)"
    if "w \<in> set (el_waiters l)" for w
    using that assms by (fastforce simp: ledgerInv_def canEnd_def hasRead_def split: if_splits)
  then show ?thesis using False by (auto simp: acceptHeld_def Let_def accept_def ledgerInv_def)
qed

lemma stepLedger_inv: "ledgerInv l \<Longrightarrow> ledgerInv (snd (stepLedger e l))"
proof (cases e)
  case (AcceptedHeld n)
  then show "ledgerInv l \<Longrightarrow> ?thesis" by (simp add: acceptHeld_inv)
next
  case (ReadUpTo n)
  then show "ledgerInv l \<Longrightarrow> ?thesis"
    by (auto simp: readUpTo_def ledgerInv_def [of l] intro!: notify_inv)
qed (auto simp: ledgerInv_def accept_def waitFor_def releaseAll_def Let_def notify_def trans_le_add1)

lemma runLedger_inv: "ledgerInv l \<Longrightarrow> ledgerInv (runLedger es l)"
  unfolding runLedger_def by (induction es arbitrary: l) (auto simp: stepLedger_inv)

lemma reachable_ledgerInv: "ledgerInv (runLedger es emptyLedger)"
  by (rule runLedger_inv) (simp add: ledgerInv_def emptyLedger_def)

text \<open>Every wait placed is resolved or still pending, and as often as it was placed.\<close>

abbreviation waitsOf :: "EventLedger \<Rightarrow> nat list" where
  "waitsOf l \<equiv> map lw_id (el_waiters l)"

lemma count_list_split:
  "count_list (map f (filter P xs)) i + count_list (map f (filter (\<lambda>x. \<not> P x) xs)) i =
     count_list (map f xs) i"
  by (induction xs) auto

lemma notify_split:
  "el_waiters l' = el_waiters l \<Longrightarrow>
     count_list (fst (notify l')) i + count_list (waitsOf (snd (notify l'))) i = count_list (waitsOf l) i"
  by (simp add: notify_def Let_def count_list_split)

lemma stepLedger_accounts:
  "count_list (fst (stepLedger e l)) i + count_list (waitsOf (snd (stepLedger e l))) i =
     count_list (asksFor e) i + count_list (waitsOf l) i"
  by (cases e)
     (simp_all add: acceptHeld_def accept_def readUpTo_def waitFor_def releaseAll_def Let_def o_def notify_split)

lemma runLedger_accounts:
  "count_list (resolvedBy es l) i + count_list (waitsOf (runLedger es l)) i =
     count_list (flat_map asksFor es) i + count_list (waitsOf l) i"
proof (induction es arbitrary: l)
  case Nil
  then show ?case by (simp add: runLedger_def)
next
  case (Cons e es)
  have "count_list (resolvedBy es (snd (stepLedger e l))) i + count_list (waitsOf (runLedger (e # es) l)) i =
      count_list (flat_map asksFor es) i + count_list (waitsOf (snd (stepLedger e l))) i"
    using Cons [of "snd (stepLedger e l)"] by (simp add: runLedger_def)
  then show ?case using stepLedger_accounts [of e l i] by simp
qed

text \<open>What a wait waits for, written out.\<close>

lemma canEnd_iff:
  "canEnd l through ends \<longleftrightarrow> (ends \<and> el_reconciling l) \<or> (\<not> el_reconciling l \<and> through \<le> el_readThrough l)"
  by (auto simp: canEnd_def hasRead_def)

lemma notify_sound:
  "i \<in> set (fst (notify l)) \<Longrightarrow> \<exists>w \<in> set (el_waiters l). lw_id w = i \<and>
     canEnd (snd (notify l)) (lw_through w) (lw_endsAtReconciliation w)"
  by (auto simp: notify_def Let_def)

lemma stepLedger_sound:
  assumes "i \<in> set (fst (stepLedger e l))" "e \<noteq> Stopped"
  shows "\<exists>w. lw_id w = i \<and> (w \<in> set (el_waiters l) \<or> (asksFor e = [i] \<and> lw_through w = el_accepted l \<and>
           lw_endsAtReconciliation w = (e = WaitForReadOrReconciliation i))) \<and>
           canEnd (snd (stepLedger e l)) (lw_through w) (lw_endsAtReconciliation w)"
proof (cases e)
  case (ReadUpTo n)
  then show ?thesis using assms notify_sound [of i "l\<lparr>el_readThrough := max (el_readThrough l) n\<rparr>"]
    by (auto simp: readUpTo_def)
next
  case ReconciliationBegins
  then show ?thesis using assms notify_sound [of i "l\<lparr>el_reconciling := True\<rparr>"] by auto
next
  case ReconciliationEnds
  then show ?thesis using assms notify_sound [of i "l\<lparr>el_reconciling := False\<rparr>"] by auto
next
  case (WaitForRead j)
  then show ?thesis using assms
    by (intro exI [of _ "\<lparr>lw_id = i, lw_through = el_accepted l, lw_endsAtReconciliation = False\<rparr>"])
       (auto simp: waitFor_def Let_def split: if_splits)
next
  case (WaitForReadOrReconciliation j)
  then show ?thesis using assms
    by (intro exI [of _ "\<lparr>lw_id = i, lw_through = el_accepted l, lw_endsAtReconciliation = True\<rparr>"])
       (auto simp: waitFor_def Let_def split: if_splits)
qed (use assms in auto)

lemma readAll_resolves:
  assumes "ledgerInv l"
  shows "fst (readUpTo (el_accepted l) (l\<lparr>el_reconciling := False\<rparr>)) = waitsOf l"
    "el_waiters (snd (readUpTo (el_accepted l) (l\<lparr>el_reconciling := False\<rparr>))) = []"
proof -
  have "\<forall>w \<in> set (el_waiters l). lw_through w \<le> max (el_readThrough l) (el_accepted l)"
    using assms by (auto simp: ledgerInv_def)
  then show "fst (readUpTo (el_accepted l) (l\<lparr>el_reconciling := False\<rparr>)) = waitsOf l"
    "el_waiters (snd (readUpTo (el_accepted l) (l\<lparr>el_reconciling := False\<rparr>))) = []"
    by (simp_all add: readUpTo_def notify_def Let_def canEnd_def hasRead_def filter_empty_conv
        cong: filter_cong)
qed

section \<open>Properties\<close>

text \<open>
  C16. A job's verdict, whatever else ran before and beside it: with the causes and then the paths
  recorded between its start and its end, each once and in the order first recorded, it is bound to a
  fingerprint exactly when its inputs were settled at its start, nothing was recorded and a
  fingerprint can be computed at its end. Otherwise it is refused with the first reason that holds:
  inputs unsettled at the start, by their own text; something recorded, by the names of the first
  twenty and the number of the rest, and only then, and only when a fingerprint could be computed, is
  the job one whose inputs changed while it ran; and a fingerprint that cannot be computed, by its text.
\<close>

theorem job_verdict_exact:
  "let (mark, opened) = openWindow unsettled digests (runWindows before emptyWindows);
       during = whileOpen (jm_window mark) events;
       recorded = uniq (causesRecorded during @ pathsRecorded during);
       verdict = fst (closeWindow mark unavailable endDigests (runWindows events opened))
   in (verdict = Fingerprinted \<longleftrightarrow> unsettled = None \<and> unavailable = None \<and> recorded = []) \<and>
      (verdict = NotFingerprinted reason changed \<longleftrightarrow>
         (\<exists>why. unsettled = Some why \<and>
            reason = ''its inputs were unsettled when it started: '' @ why \<and> \<not> changed) \<or>
         (unsettled = None \<and> recorded \<noteq> [] \<and>
            reason = ''its inputs changed while it ran: '' @ join '', '' (take 20 recorded) @
              (if length recorded > 20 then '' and '' @ show_nat (length recorded - 20) @ '' more'' else []) \<and>
            changed = (unavailable = None)) \<or>
         (unsettled = None \<and> recorded = [] \<and> unavailable = Some reason \<and> \<not> changed))"
  unfolding Let_def case_prod_beta closeWindow_recorded verdictOn_Fingerprinted
    verdictOn_NotFingerprinted namedList_eq
  by (rule conjI; rule refl)

text \<open>
  C5. No wait is lost and none ends early, after any sequence of operations. The waits resolved and
  those still pending are together the waits placed, each as often as it was placed. Each pending
  one waits for no more than was accepted and could not end now: what it waits for is unread or a
  reconciliation runs, which one that ends at a reconciliation does not wait out. Reading everything
  accepted, with no reconciliation running, resolves every pending wait and leaves none. And whatever
  operation comes next, unless it stops the ledger, each wait it resolves was pending, or is placed
  by it for what is accepted by then, and has its reading or its reconciliation once the operation
  is done.
\<close>

theorem ledger_no_lost_wait:
  "let l = runLedger events emptyLedger in
     count_list (resolvedBy events emptyLedger) i + count_list (map lw_id (el_waiters l)) i =
       count_list (flat_map asksFor events) i \<and>
     list_all (\<lambda>w. lw_through w \<le> el_accepted l \<and>
        (if el_reconciling l then \<not> lw_endsAtReconciliation w else el_readThrough l < lw_through w))
       (el_waiters l) \<and>
     fst (readUpTo (el_accepted l) (l\<lparr>el_reconciling := False\<rparr>)) = map lw_id (el_waiters l) \<and>
     el_waiters (snd (readUpTo (el_accepted l) (l\<lparr>el_reconciling := False\<rparr>))) = [] \<and>
     (event = Stopped \<or>
      list_all (\<lambda>j. \<exists>w. lw_id w = j \<and>
          (w \<in> set (el_waiters l) \<or> (asksFor event = [j] \<and> lw_through w = el_accepted l \<and>
             lw_endsAtReconciliation w = (event = WaitForReadOrReconciliation j))) \<and>
          (let l' = snd (stepLedger event l) in
             (lw_endsAtReconciliation w \<and> el_reconciling l') \<or>
             (\<not> el_reconciling l' \<and> lw_through w \<le> el_readThrough l')))
        (fst (stepLedger event l)))"
proof -
  define l where "l = runLedger events emptyLedger"
  have inv: "ledgerInv l" using reachable_ledgerInv [of events] by (simp add: l_def)
  have "count_list (resolvedBy events emptyLedger) i + count_list (map lw_id (el_waiters l)) i =
      count_list (flat_map asksFor events) i"
    using runLedger_accounts [of events emptyLedger i] by (simp add: l_def emptyLedger_def)
  moreover have "list_all (\<lambda>w. lw_through w \<le> el_accepted l \<and>
      (if el_reconciling l then \<not> lw_endsAtReconciliation w else el_readThrough l < lw_through w))
      (el_waiters l)"
    using inv by (auto simp: ledgerInv_def list_all_iff canEnd_iff)
  moreover note readAll_resolves [OF inv]
  moreover note stepLedger_sound [of _ event l, unfolded canEnd_iff]
  ultimately show ?thesis
    by (cases "event = Stopped") (simp_all add: l_def [symmetric] Let_def list_all_iff)
qed

end
