(* ===== verification/ChangeRecord.thy ===== *)
theory ChangeRecord
  imports InputJobs
begin

text \<open>
  Telling edits from changes a run or discovery made (\<^verbatim>\<open>daemon/change-record.ts\<close>): per subject, what
  changed since its last job began, up to a bound past which every input counts as edited. The
  object identity the source short-cuts on (\<^verbatim>\<open>from === to\<close>) is equality of the digests here, where
  both branches add nothing. A report is named by its number.
\<close>

section \<open>Digests\<close>

type_synonym InputDigests = "(string, string) jsmap"

definition changedPaths :: "InputDigests \<Rightarrow> InputDigests \<Rightarrow> string list" where
  "changedPaths before after =
     sort (filter (\<lambda>path. map_of before path \<noteq> map_of after path) (uniq (keys before @ keys after)))"

lemma set_changedPaths: "set (changedPaths before after) = {p. map_of before p \<noteq> map_of after p}"
  by (auto simp: changedPaths_def set_keys)

lemma changedPaths_refl [simp]: "changedPaths d d = []"
  by (simp add: changedPaths_def)

section \<open>One subject's changes\<close>

type_synonym Job = "string option"

definition MAX_COUNTED_CHANGES :: nat where
  "MAX_COUNTED_CHANGES = 1000"

record ChangeSets =
  cs_byJobs :: "(string, Job list) jsmap"
  cs_edits :: "string list"
  cs_everywhere :: bool
  cs_distinct :: nat

definition newChangeSets :: ChangeSets where
  "newChangeSets = \<lparr>cs_byJobs = [], cs_edits = [], cs_everywhere = False, cs_distinct = 0\<rparr>"

definition editedEverywhere :: "ChangeSets \<Rightarrow> ChangeSets" where
  "editedEverywhere cs = cs\<lparr>cs_everywhere := True, cs_byJobs := [], cs_edits := []\<rparr>"

definition counts :: "string \<Rightarrow> ChangeSets \<Rightarrow> bool \<times> ChangeSets" where
  "counts path cs =
     (if cs_everywhere cs then (False, cs)
      else if jhas (cs_byJobs cs) path \<or> path \<in> set (cs_edits cs) then (True, cs)
      else let cs' = cs\<lparr>cs_distinct := cs_distinct cs + 1\<rparr> in
        if cs_distinct cs' \<le> MAX_COUNTED_CHANGES then (True, cs')
        else (False, editedEverywhere cs'))"

definition addJobPath :: "Job \<Rightarrow> string \<Rightarrow> ChangeSets \<Rightarrow> ChangeSets" where
  "addJobPath job path cs =
     (case map_of (cs_byJobs cs) path of
        Some jobs \<Rightarrow> cs\<lparr>cs_byJobs := jset path (jadd job jobs) (cs_byJobs cs)\<rparr>
      | None \<Rightarrow>
          (let (counted, cs') = counts path cs in
           if counted then cs'\<lparr>cs_byJobs := jset path [job] (cs_byJobs cs')\<rparr> else cs'))"

fun addJob :: "string list \<Rightarrow> Job \<Rightarrow> ChangeSets \<Rightarrow> ChangeSets" where
  "addJob [] job cs = cs"
| "addJob (path # paths) job cs =
     (let cs' = addJobPath job path cs in
      if cs_everywhere cs' then cs' else addJob paths job cs')"

definition addEdit :: "string \<Rightarrow> ChangeSets \<Rightarrow> ChangeSets" where
  "addEdit path cs =
     (if path \<in> set (cs_edits cs) then cs
      else let (counted, cs') = counts path cs in
        if counted then cs'\<lparr>cs_edits := jadd path (cs_edits cs')\<rparr> else cs')"

fun addEdits :: "string list \<Rightarrow> ChangeSets \<Rightarrow> ChangeSets" where
  "addEdits [] cs = cs"
| "addEdits (path # paths) cs =
     (let cs' = addEdit path cs in
      if cs_everywhere cs' then cs' else addEdits paths cs')"

definition moveToEdits :: "string list \<Rightarrow> ChangeSets \<Rightarrow> ChangeSets" where
  "moveToEdits paths cs =
     fold (\<lambda>path cs. if jhas (cs_byJobs cs) path
                     then cs\<lparr>cs_byJobs := jdel path (cs_byJobs cs), cs_edits := jadd path (cs_edits cs)\<rparr>
                     else cs) paths cs"

section \<open>The record\<close>

record ChangeRecord =
  cr_subjects :: "(Job, ChangeSets) jsmap"
  cr_last :: "InputDigests option"
  cr_running :: "(Job, string list) jsmap"
  cr_unread :: "(nat \<times> string list) list"
  cr_nextReport :: nat

definition emptyRecord :: ChangeRecord where
  "emptyRecord = \<lparr>cr_subjects = [], cr_last = None, cr_running = [], cr_unread = [], cr_nextReport = 0\<rparr>"

definition onSubjects :: "(ChangeSets \<Rightarrow> ChangeSets) \<Rightarrow> ChangeRecord \<Rightarrow> ChangeRecord" where
  "onSubjects f r = r\<lparr>cr_subjects := map (\<lambda>(s, cs). (s, f cs)) (cr_subjects r)\<rparr>"

definition changesOf :: "Job \<Rightarrow> ChangeRecord \<Rightarrow> ChangeSets option" where
  "changesOf subject r = map_of (cr_subjects r) subject"

definition startAfresh :: "Job \<Rightarrow> ChangeRecord \<Rightarrow> ChangeRecord" where
  "startAfresh subject r = r\<lparr>cr_subjects := jset subject newChangeSets (cr_subjects r)\<rparr>"

definition everywhere :: "ChangeRecord \<Rightarrow> ChangeRecord" where
  "everywhere = onSubjects editedEverywhere"

definition jobBegan :: "Job \<Rightarrow> ChangeRecord \<Rightarrow> ChangeRecord" where
  "jobBegan subject r =
     r\<lparr>cr_running := jset subject (uniq (flat_map snd (cr_unread r))) (cr_running r)\<rparr>"

definition jobNotBegun :: "Job \<Rightarrow> ChangeRecord \<Rightarrow> ChangeRecord" where
  "jobNotBegun subject r = r\<lparr>cr_running := jdel subject (cr_running r)\<rparr>"

definition jobThrew :: "Job \<Rightarrow> ChangeRecord \<Rightarrow> ChangeRecord" where
  "jobThrew subject r = startAfresh subject (r\<lparr>cr_running := jdel subject (cr_running r)\<rparr>)"

definition reportEdits :: "string list \<Rightarrow> ChangeRecord \<Rightarrow> nat \<times> ChangeRecord" where
  "reportEdits ks r =
     (let r1 = onSubjects (moveToEdits ks) r;
          r2 = r1\<lparr>cr_running := map (\<lambda>(s, held). (s, fold jadd ks held)) (cr_running r1)\<rparr>
      in (cr_nextReport r,
          r2\<lparr>cr_unread := cr_unread r2 @ [(cr_nextReport r, ks)], cr_nextReport := cr_nextReport r + 1\<rparr>))"

definition readReport :: "nat \<Rightarrow> ChangeRecord \<Rightarrow> ChangeRecord" where
  "readReport i r = r\<lparr>cr_unread := filter (\<lambda>report. fst report \<noteq> i) (cr_unread r)\<rparr>"

definition interval :: "InputDigests option \<Rightarrow> ChangeRecord \<Rightarrow> ChangeRecord" where
  "interval to r =
     (case (cr_last r, to) of
        (Some before, Some after) \<Rightarrow>
          (if before = after then r
           else let edits = changedPaths before after in
             if length edits > MAX_COUNTED_CHANGES then everywhere r
             else onSubjects (addEdits edits) r)
      | _ \<Rightarrow> everywhere r)"

definition observed :: "InputDigests option \<Rightarrow> ChangeRecord \<Rightarrow> ChangeRecord" where
  "observed digests r = (interval digests r)\<lparr>cr_last := digests\<rparr>"

text \<open>Whether the job held a report of the path.\<close>

definition heldBy :: "string list option \<Rightarrow> string \<Rightarrow> bool" where
  "heldBy reported path = (case reported of None \<Rightarrow> False | Some held \<Rightarrow> path \<in> set held)"

definition jobEnded :: "InputDigests JobWindow \<Rightarrow> Job \<Rightarrow> ChangeRecord \<Rightarrow> ChangeRecord" where
  "jobEnded window job r =
     (let reported = map_of (cr_running r) job;
          r1 = r\<lparr>cr_running := jdel job (cr_running r)\<rparr>;
          r2 = startAfresh job (interval (jw_startDigests window) r1);
          r3 = (if jw_causes window \<noteq> [] \<or> length (jw_paths window) > MAX_COUNTED_CHANGES
                then everywhere r2
                else let edits = filter (heldBy reported) (jw_paths window);
                         caused = filter (\<lambda>p. \<not> heldBy reported p) (jw_paths window)
                     in onSubjects (\<lambda>cs. addEdits edits (addJob caused job cs)) r2)
      in r3\<lparr>cr_last := jw_endDigests window\<rparr>)"

section \<open>Lemmas on one subject\<close>

text \<open>The paths a subject holds, counted once; once everything counts as edited it holds none.\<close>

definition heldPaths :: "ChangeSets \<Rightarrow> string set" where
  "heldPaths cs = set (keys (cs_byJobs cs)) \<union> set (cs_edits cs)"

definition setsInv :: "ChangeSets \<Rightarrow> bool" where
  "setsInv cs =
     (if cs_everywhere cs then cs_byJobs cs = [] \<and> cs_edits cs = []
      else cs_distinct cs = card (heldPaths cs) \<and> cs_distinct cs \<le> MAX_COUNTED_CHANGES)"

lemma finite_heldPaths [simp]: "finite (heldPaths cs)"
  by (simp add: heldPaths_def)

lemma setsInv_everywhere [simp]: "setsInv (editedEverywhere cs)"
  by (simp add: setsInv_def editedEverywhere_def)

lemma editedEverywhere_flag [simp]: "cs_everywhere (editedEverywhere cs)"
  by (simp add: editedEverywhere_def)

lemma setsInv_new [simp]: "setsInv newChangeSets"
  by (simp add: setsInv_def newChangeSets_def heldPaths_def)

lemma counts_cases:
  assumes "counts path cs = (counted, cs')"
  obtains (refused) "\<not> counted" "cs_everywhere cs'" "cs' = cs \<or> cs' = editedEverywhere (cs\<lparr>cs_distinct := cs_distinct cs + 1\<rparr>)"
    | (held) "counted" "cs' = cs" "\<not> cs_everywhere cs" "path \<in> heldPaths cs"
    | (new) "counted" "cs' = cs\<lparr>cs_distinct := cs_distinct cs + 1\<rparr>" "\<not> cs_everywhere cs"
        "path \<notin> heldPaths cs" "cs_distinct cs + 1 \<le> MAX_COUNTED_CHANGES"
  using assms by (auto simp: counts_def Let_def heldPaths_def split: if_splits)

lemma keys_jset_set: "set (keys (jset k v m)) = insert k (set (keys m))"
  by (auto simp: keys_jset)

lemma addJobPath_inv: "setsInv cs \<Longrightarrow> setsInv (addJobPath job path cs)"
proof (cases "map_of (cs_byJobs cs) path")
  case (Some jobs)
  moreover from this have "path \<in> set (keys (cs_byJobs cs))" by (simp add: in_keys_iff)
  moreover assume "setsInv cs"
  ultimately show ?thesis
    by (auto simp: addJobPath_def setsInv_def heldPaths_def keys_jset split: if_splits)
next
  case None
  assume inv: "setsInv cs"
  obtain counted cs' where c: "counts path cs = (counted, cs')" by fastforce
  then show ?thesis
  proof (cases rule: counts_cases)
    case refused
    then show ?thesis using inv None c by (auto simp: addJobPath_def)
  next
    case held
    then show ?thesis using inv None c
      by (auto simp: addJobPath_def setsInv_def heldPaths_def keys_jset_set insert_absorb)
  next
    case new
    then show ?thesis using inv None c
      by (auto simp: addJobPath_def setsInv_def heldPaths_def keys_jset_set)
  qed
qed

lemma addEdit_inv: "setsInv cs \<Longrightarrow> setsInv (addEdit path cs)"
proof -
  assume inv: "setsInv cs"
  obtain counted cs' where c: "counts path cs = (counted, cs')" by fastforce
  then show ?thesis
  proof (cases rule: counts_cases)
    case refused
    then show ?thesis using inv c by (auto simp: addEdit_def)
  next
    case held
    then show ?thesis using inv c
      by (auto simp: addEdit_def setsInv_def heldPaths_def insert_absorb)
  next
    case new
    then show ?thesis using inv c
      by (auto simp: addEdit_def setsInv_def heldPaths_def)
  qed
qed

lemma addJob_inv: "setsInv cs \<Longrightarrow> setsInv (addJob paths job cs)"
  by (induction paths arbitrary: cs) (auto simp: Let_def addJobPath_inv)

lemma addEdits_inv: "setsInv cs \<Longrightarrow> setsInv (addEdits paths cs)"
  by (induction paths arbitrary: cs) (auto simp: Let_def addEdit_inv)

lemma moveToEdits_inv: "setsInv cs \<Longrightarrow> setsInv (moveToEdits paths cs)"
  unfolding moveToEdits_def
proof (induction paths arbitrary: cs)
  case Nil
  then show ?case by simp
next
  case (Cons p paths)
  have "setsInv (cs\<lparr>cs_byJobs := jdel p (cs_byJobs cs), cs_edits := jadd p (cs_edits cs)\<rparr>)"
    if "p \<in> set (keys (cs_byJobs cs))"
  proof -
    have "set (keys (jdel p (cs_byJobs cs))) \<union> insert p (set (cs_edits cs)) = heldPaths cs"
      using that by (auto simp: heldPaths_def keys_jdel)
    then show ?thesis using Cons.prems that
      by (auto simp: setsInv_def heldPaths_def split: if_splits)
  qed
  then show ?case using Cons by auto
qed

lemmas sets_inv = addJob_inv addEdits_inv moveToEdits_inv

text \<open>A change is accounted for when the subject holds it, or counts everything as edited.\<close>

definition editHeld :: "string \<Rightarrow> ChangeSets \<Rightarrow> bool" where
  "editHeld path cs = (cs_everywhere cs \<or> path \<in> set (cs_edits cs))"

definition jobHeld :: "Job \<Rightarrow> string \<Rightarrow> ChangeSets \<Rightarrow> bool" where
  "jobHeld job path cs =
     (cs_everywhere cs \<or> (\<exists>jobs. map_of (cs_byJobs cs) path = Some jobs \<and> job \<in> set jobs))"

lemma counts_keeps:
  assumes "counts path cs = (counted, cs')"
  shows "editHeld p cs \<Longrightarrow> editHeld p cs'" "jobHeld j p cs \<Longrightarrow> jobHeld j p cs'"
    "counted \<or> cs_everywhere cs'"
  using assms by (auto elim!: counts_cases simp: editHeld_def jobHeld_def)

lemma addJobPath_held:
  "jobHeld job path (addJobPath job path cs)"
  "editHeld p cs \<Longrightarrow> editHeld p (addJobPath job path cs)"
  "jobHeld j p cs \<Longrightarrow> jobHeld j p (addJobPath job path cs)"
proof -
  obtain counted cs' where c: "counts path cs = (counted, cs')" by fastforce
  note k = counts_keeps [OF c]
  have none: "map_of (cs_byJobs cs) path = None \<Longrightarrow> counted \<Longrightarrow> map_of (cs_byJobs cs') path = None"
    using c by (auto elim!: counts_cases)
  show "jobHeld job path (addJobPath job path cs)"
    using k(3) by (auto simp: addJobPath_def c jobHeld_def split: option.splits)
  show "editHeld p cs \<Longrightarrow> editHeld p (addJobPath job path cs)"
    using k(1) [of p] by (auto simp: addJobPath_def c editHeld_def split: option.splits)
  show "jobHeld j p cs \<Longrightarrow> jobHeld j p (addJobPath job path cs)"
    using k(2) [of j p] none by (auto simp: addJobPath_def c jobHeld_def split: option.splits)
qed

lemma addEdit_held:
  "editHeld path (addEdit path cs)"
  "editHeld p cs \<Longrightarrow> editHeld p (addEdit path cs)"
  "jobHeld j p cs \<Longrightarrow> jobHeld j p (addEdit path cs)"
proof -
  obtain counted cs' where c: "counts path cs = (counted, cs')" by fastforce
  note k = counts_keeps [OF c]
  show "editHeld path (addEdit path cs)"
    using k(3) by (auto simp: addEdit_def c editHeld_def)
  show "editHeld p cs \<Longrightarrow> editHeld p (addEdit path cs)"
    using k(1) [of p] by (auto simp: addEdit_def c editHeld_def)
  show "jobHeld j p cs \<Longrightarrow> jobHeld j p (addEdit path cs)"
    using k(2) [of j p] by (auto simp: addEdit_def c jobHeld_def)
qed

lemma addJob_held:
  "p \<in> set paths \<Longrightarrow> jobHeld job p (addJob paths job cs)"
  "editHeld p cs \<Longrightarrow> editHeld p (addJob paths job cs)"
  "jobHeld j p cs \<Longrightarrow> jobHeld j p (addJob paths job cs)"
proof -
  show keep: "jobHeld j p cs \<Longrightarrow> jobHeld j p (addJob paths job cs)" for j p paths cs
    by (induction paths arbitrary: cs) (auto simp: Let_def addJobPath_held)
  show "editHeld p cs \<Longrightarrow> editHeld p (addJob paths job cs)"
    by (induction paths arbitrary: cs) (auto simp: Let_def addJobPath_held)
  show "p \<in> set paths \<Longrightarrow> jobHeld job p (addJob paths job cs)"
  proof (induction paths arbitrary: cs)
    case (Cons q paths)
    then show ?case using keep addJobPath_held(1) [of job q cs]
      by (auto simp: Let_def) (auto simp: jobHeld_def)
  qed simp
qed

lemma addEdits_held:
  "p \<in> set paths \<Longrightarrow> editHeld p (addEdits paths cs)"
  "editHeld p cs \<Longrightarrow> editHeld p (addEdits paths cs)"
  "jobHeld j p cs \<Longrightarrow> jobHeld j p (addEdits paths cs)"
proof -
  show keep: "editHeld p cs \<Longrightarrow> editHeld p (addEdits paths cs)" for p paths cs
    by (induction paths arbitrary: cs) (auto simp: Let_def addEdit_held)
  show "jobHeld j p cs \<Longrightarrow> jobHeld j p (addEdits paths cs)"
    by (induction paths arbitrary: cs) (auto simp: Let_def addEdit_held)
  show "p \<in> set paths \<Longrightarrow> editHeld p (addEdits paths cs)"
  proof (induction paths arbitrary: cs)
    case (Cons q paths)
    then show ?case using keep addEdit_held(1) [of q cs]
      by (auto simp: Let_def) (auto simp: editHeld_def)
  qed simp
qed

section \<open>Lemmas on the record\<close>

definition allSubjects :: "(ChangeSets \<Rightarrow> bool) \<Rightarrow> ChangeRecord \<Rightarrow> bool" where
  "allSubjects P r = all_vals P (cr_subjects r)"

lemma allSubjects_onSubjects [simp]: "allSubjects P (onSubjects f r) = allSubjects (\<lambda>cs. P (f cs)) r"
  by (simp add: allSubjects_def onSubjects_def)

lemma allSubjects_startAfresh: "allSubjects P r \<Longrightarrow> P newChangeSets \<Longrightarrow> allSubjects P (startAfresh s r)"
  by (simp add: allSubjects_def startAfresh_def all_vals_jset)

lemma allSubjects_mono: "allSubjects P r \<Longrightarrow> (\<And>cs. P cs \<Longrightarrow> Q cs) \<Longrightarrow> allSubjects Q r"
  unfolding allSubjects_def by (rule all_vals_mono)

lemma allSubjects_update [simp]:
  "allSubjects P (r\<lparr>cr_running := x\<rparr>) = allSubjects P r"
  "allSubjects P (r\<lparr>cr_last := d\<rparr>) = allSubjects P r"
  "allSubjects P (r\<lparr>cr_unread := u\<rparr>) = allSubjects P r"
  "allSubjects P (r\<lparr>cr_nextReport := n\<rparr>) = allSubjects P r"
  by (simp_all add: allSubjects_def)

text \<open>What an interval between two readings does to one subject, and what a job's end does.\<close>

definition intervalOn :: "InputDigests option \<Rightarrow> InputDigests option \<Rightarrow> ChangeSets \<Rightarrow> ChangeSets" where
  "intervalOn before after cs =
     (case (before, after) of
        (Some b, Some a) \<Rightarrow>
          (if length (changedPaths b a) > MAX_COUNTED_CHANGES then editedEverywhere cs
           else addEdits (changedPaths b a) cs)
      | _ \<Rightarrow> editedEverywhere cs)"

lemma interval_onSubjects: "interval d r = onSubjects (intervalOn (cr_last r) d) r"
proof -
  have id: "onSubjects (\<lambda>cs. cs) r = r" by (cases r) (simp add: onSubjects_def)
  show ?thesis
    by (auto simp: interval_def intervalOn_def [abs_def] everywhere_def Let_def id MAX_COUNTED_CHANGES_def
        split: option.splits)
qed

definition endOn :: "InputDigests JobWindow \<Rightarrow> Job \<Rightarrow> string list option \<Rightarrow> ChangeSets \<Rightarrow> ChangeSets" where
  "endOn window job reported cs =
     (if jw_causes window \<noteq> [] \<or> length (jw_paths window) > MAX_COUNTED_CHANGES then editedEverywhere cs
      else addEdits (filter (heldBy reported) (jw_paths window))
             (addJob (filter (\<lambda>p. \<not> heldBy reported p) (jw_paths window)) job cs))"

lemma jobEnded_onSubjects:
  "cr_subjects (jobEnded window job r) =
     cr_subjects (onSubjects (endOn window job (map_of (cr_running r) job))
       (startAfresh job (onSubjects (intervalOn (cr_last r) (jw_startDigests window)) r)))"
  by (simp add: jobEnded_def Let_def interval_onSubjects endOn_def [abs_def] everywhere_def
      onSubjects_def startAfresh_def)

lemma intervalOn_inv: "setsInv cs \<Longrightarrow> setsInv (intervalOn b a cs)"
  by (auto simp: intervalOn_def sets_inv split: option.splits)

lemma endOn_inv: "setsInv cs \<Longrightarrow> setsInv (endOn w job reported cs)"
  by (simp add: endOn_def sets_inv)

lemma intervalOn_held:
  "cs_everywhere (intervalOn before after cs) \<or>
     (\<exists>b a. before = Some b \<and> after = Some a \<and> (\<forall>p \<in> set (changedPaths b a). editHeld p (intervalOn before after cs)))"
  by (auto simp: intervalOn_def addEdits_held split: option.splits)

lemma endOn_held:
  "p \<in> set (jw_paths w) \<Longrightarrow> jobHeld job p (endOn w job reported cs) \<or> editHeld p (endOn w job reported cs)"
  "editHeld p cs \<Longrightarrow> editHeld p (endOn w job reported cs)"
proof -
  let ?caused = "filter (\<lambda>p. \<not> heldBy reported p) (jw_paths w)"
    and ?edits = "filter (heldBy reported) (jw_paths w)"
  have everywhere: "jobHeld job q (editedEverywhere cs)" "editHeld q (editedEverywhere cs)" for q
    by (simp_all add: jobHeld_def editHeld_def)
  show "jobHeld job p (endOn w job reported cs) \<or> editHeld p (endOn w job reported cs)"
    if "p \<in> set (jw_paths w)"
  proof (cases "heldBy reported p")
    case True
    then have "editHeld p (addEdits ?edits (addJob ?caused job cs))"
      using that by (intro addEdits_held(1)) simp
    then show ?thesis by (simp add: endOn_def everywhere)
  next
    case False
    then have "jobHeld job p (addEdits ?edits (addJob ?caused job cs))"
      using that by (intro addEdits_held(3) addJob_held(1)) simp
    then show ?thesis by (simp add: endOn_def everywhere)
  qed
  show "editHeld p cs \<Longrightarrow> editHeld p (endOn w job reported cs)"
    by (simp add: endOn_def everywhere addEdits_held(2) addJob_held(2))
qed

lemma everywhere_stays:
  "cs_everywhere cs \<Longrightarrow> cs_everywhere (addJob paths job cs)"
  "cs_everywhere cs \<Longrightarrow> cs_everywhere (addEdits paths cs)"
  "cs_everywhere cs \<Longrightarrow> cs_everywhere (endOn w job reported cs)"
proof -
  have c: "cs_everywhere cs \<Longrightarrow> counts p cs = (False, cs)" for p cs by (simp add: counts_def)
  show job: "cs_everywhere cs \<Longrightarrow> cs_everywhere (addJob paths job cs)" for paths cs
    by (induction paths arbitrary: cs) (auto simp: Let_def addJobPath_def c split: option.splits)
  show edits: "cs_everywhere cs \<Longrightarrow> cs_everywhere (addEdits paths cs)" for paths cs
    by (induction paths arbitrary: cs) (auto simp: Let_def addEdit_def c)
  show "cs_everywhere cs \<Longrightarrow> cs_everywhere (endOn w job reported cs)"
    by (simp add: endOn_def job edits)
qed

lemma allSubjects_cong: "cr_subjects r = cr_subjects r' \<Longrightarrow> allSubjects P r = allSubjects P r'"
  by (simp add: allSubjects_def)

lemma allSubjects_jobEnded:
  "allSubjects P (jobEnded window job r) =
     allSubjects P (onSubjects (endOn window job (map_of (cr_running r) job))
       (startAfresh job (onSubjects (intervalOn (cr_last r) (jw_startDigests window)) r)))"
  by (rule allSubjects_cong) (rule jobEnded_onSubjects)

subsection \<open>Sequences of operations\<close>

datatype RecordEvent =
    Began Job
  | NotBegun Job
  | Threw Job
  | Ended "InputDigests JobWindow" Job
  | Reported "string list"
  | ReadReport nat
  | Observed "InputDigests option"

fun stepRecord :: "RecordEvent \<Rightarrow> ChangeRecord \<Rightarrow> ChangeRecord" where
  "stepRecord (Began job) r = jobBegan job r"
| "stepRecord (NotBegun job) r = jobNotBegun job r"
| "stepRecord (Threw job) r = jobThrew job r"
| "stepRecord (Ended window job) r = jobEnded window job r"
| "stepRecord (Reported ks) r = snd (reportEdits ks r)"
| "stepRecord (ReadReport i) r = readReport i r"
| "stepRecord (Observed d) r = observed d r"

definition runRecord :: "RecordEvent list \<Rightarrow> ChangeRecord \<Rightarrow> ChangeRecord" where
  "runRecord es r = fold stepRecord es r"

lemma jobEnded_inv: "allSubjects setsInv r \<Longrightarrow> allSubjects setsInv (jobEnded w job r)"
  unfolding allSubjects_jobEnded allSubjects_onSubjects
  by (intro allSubjects_startAfresh)
     (auto simp: endOn_inv intervalOn_inv elim!: allSubjects_mono)

lemma stepRecord_inv: "allSubjects setsInv r \<Longrightarrow> allSubjects setsInv (stepRecord e r)"
proof (cases e)
  case (Ended w job)
  then show "allSubjects setsInv r \<Longrightarrow> ?thesis" by (simp add: jobEnded_inv)
qed (auto simp: jobBegan_def jobNotBegun_def jobThrew_def reportEdits_def readReport_def observed_def
    interval_onSubjects Let_def sets_inv intervalOn_inv intro!: allSubjects_startAfresh
    elim!: allSubjects_mono)

lemma runRecord_inv: "allSubjects setsInv r \<Longrightarrow> allSubjects setsInv (runRecord es r)"
  unfolding runRecord_def by (induction es arbitrary: r) (auto simp: stepRecord_inv)

lemma reachable_setsInv: "allSubjects setsInv (runRecord es emptyRecord)"
  by (rule runRecord_inv) (simp add: allSubjects_def emptyRecord_def)

section \<open>Properties\<close>

text \<open>
  After any sequence of operations each subject holds at most a thousand changed paths, or
  counts every input as edited and holds none.
\<close>

theorem changes_bounded:
  "list_all (\<lambda>(subject, cs). card (set (keys (cs_byJobs cs)) \<union> set (cs_edits cs)) \<le> 1000 \<and>
       (if cs_everywhere cs then cs_byJobs cs = [] \<and> cs_edits cs = []
        else cs_distinct cs = card (set (keys (cs_byJobs cs)) \<union> set (cs_edits cs))))
     (cr_subjects (runRecord events emptyRecord))"
  using reachable_setsInv [of events]
  by (auto simp: allSubjects_def all_vals_def setsInv_def heldPaths_def MAX_COUNTED_CHANGES_def
      list_all_iff split: if_splits)

text \<open>
  No change is lost when a job ends: for every subject, each path the job changed is held as
  that job's or as an edit, or everything counts as edited; and for every subject but the job's own,
  which starts afresh, so is each path whose digest moved between the last reading and the job's start.
\<close>

theorem jobEnded_accounts:
  "list_all (\<lambda>(subject, cs).
       list_all (\<lambda>p. jobHeld job p cs \<or> editHeld p cs) (jw_paths window) \<and>
       (subject = job \<or> cs_everywhere cs \<or>
        (\<exists>from to. cr_last r = Some from \<and> jw_startDigests window = Some to \<and>
           list_all (\<lambda>p. p \<in> set (cs_edits cs)) (changedPaths from to))))
     (cr_subjects (jobEnded window job r))"
proof -
  let ?f = "intervalOn (cr_last r) (jw_startDigests window)"
    and ?g = "endOn window job (map_of (cr_running r) job)"
  have ended: "list_all (\<lambda>p. jobHeld job p (?g cs) \<or> editHeld p (?g cs)) (jw_paths window)" for cs
    using endOn_held(1) by (auto simp: list_all_iff)
  have between: "cs_everywhere (?g (?f cs)) \<or>
      (\<exists>from to. cr_last r = Some from \<and> jw_startDigests window = Some to \<and>
         list_all (\<lambda>p. p \<in> set (cs_edits (?g (?f cs)))) (changedPaths from to))" for cs
  proof -
    have "cs_everywhere (?g (?f cs))" if "cs_everywhere (?f cs)"
      using that by (rule everywhere_stays(3))
    moreover have "cs_everywhere (?g (?f cs)) \<or> p \<in> set (cs_edits (?g (?f cs)))" if "editHeld p (?f cs)" for p
      using endOn_held(2) [OF that] by (simp add: editHeld_def)
    ultimately show ?thesis
      using intervalOn_held [of "cr_last r" "jw_startDigests window" cs] by (auto simp: list_all_iff)
  qed
  have "s = job \<and> c = ?g newChangeSets \<or> (\<exists>cs. c = ?g (?f cs))"
    if mem: "(s, c) \<in> set (cr_subjects (jobEnded window job r))" for s c
  proof -
    obtain c' where c': "c = ?g c'" "(s, c') \<in> set (jset job newChangeSets (map (\<lambda>(s, cs). (s, ?f cs)) (cr_subjects r)))"
      using mem unfolding jobEnded_onSubjects by (auto simp: onSubjects_def startAfresh_def)
    from subsetD [OF set_jset c'(2)] show ?thesis using c'(1) by auto
  qed
  note mem = this
  show ?thesis
    unfolding list_all_iff [of _ "cr_subjects (jobEnded window job r)"]
  proof (rule ballI, clarify, intro conjI)
    fix s c
    assume "(s, c) \<in> set (cr_subjects (jobEnded window job r))"
    from mem [OF this] consider "s = job" "c = ?g newChangeSets" | cs where "c = ?g (?f cs)" by blast
    note cases = this
    show "list_all (\<lambda>p. jobHeld job p c \<or> editHeld p c) (jw_paths window)"
      using cases ended by cases simp_all
    show "s = job \<or> cs_everywhere c \<or>
        (\<exists>from to. cr_last r = Some from \<and> jw_startDigests window = Some to \<and>
           list_all (\<lambda>p. p \<in> set (cs_edits c)) (changedPaths from to))"
      using cases between by cases simp_all
  qed
qed

text \<open>
  The order the operations are told in: a job ends only after it began. Every state reached by such
  a sequence keeps what reports promise.
\<close>

inductive reached :: "ChangeRecord \<Rightarrow> bool" where
  reached_start: "reached emptyRecord"
| reached_ended: "reached r \<Longrightarrow> jhas (cr_running r) job \<Longrightarrow> reached (jobEnded window job r)"
| reached_step: "reached r \<Longrightarrow> \<forall>window job. e \<noteq> Ended window job \<Longrightarrow> reached (stepRecord e r)"

definition noneOf :: "string list \<Rightarrow> ChangeSets \<Rightarrow> bool" where
  "noneOf ks cs = (set ks \<inter> set (keys (cs_byJobs cs)) = {})"

definition allRunning :: "(string list \<Rightarrow> bool) \<Rightarrow> ChangeRecord \<Rightarrow> bool" where
  "allRunning P r = all_vals P (cr_running r)"

definition reportsKept :: "ChangeRecord \<Rightarrow> bool" where
  "reportsKept r =
     (\<forall>(i, ks) \<in> set (cr_unread r). allSubjects (noneOf ks) r \<and> allRunning (\<lambda>held. set ks \<subseteq> set held) r)"

lemma reportsKeptI [inv_intro]:
  assumes "\<And>i ks. (i, ks) \<in> set (cr_unread r) \<Longrightarrow> allSubjects (noneOf ks) r"
    and "\<And>i ks. (i, ks) \<in> set (cr_unread r) \<Longrightarrow> allRunning (\<lambda>held. set ks \<subseteq> set held) r"
  shows "reportsKept r"
  using assms by (auto simp: reportsKept_def)

lemma reportsKeptD:
  assumes "reportsKept r" "(i, ks) \<in> set (cr_unread r)"
  shows "allSubjects (noneOf ks) r" "allRunning (\<lambda>held. set ks \<subseteq> set held) r"
  using assms by (auto simp: reportsKept_def)

lemma counts_byJobs:
  assumes "counts p cs = (counted, cs')"
  shows "set (keys (cs_byJobs cs')) \<subseteq> set (keys (cs_byJobs cs))"
  using assms by (auto elim!: counts_cases simp: editedEverywhere_def)

lemma addJobPath_byJobs:
  "set (keys (cs_byJobs (addJobPath job p cs))) \<subseteq> insert p (set (keys (cs_byJobs cs)))"
proof -
  obtain counted cs' where c: "counts p cs = (counted, cs')" by fastforce
  show ?thesis using counts_byJobs [OF c]
    by (auto simp: addJobPath_def c keys_jset_set split: option.splits)
qed

lemma addJob_byJobs: "set (keys (cs_byJobs (addJob ps job cs))) \<subseteq> set ps \<union> set (keys (cs_byJobs cs))"
proof (induction ps arbitrary: cs)
  case (Cons p ps)
  show ?case using Cons [of "addJobPath job p cs"] addJobPath_byJobs [of job p cs]
    by (auto simp: Let_def)
qed simp

lemma addEdit_byJobs: "set (keys (cs_byJobs (addEdit p cs))) \<subseteq> set (keys (cs_byJobs cs))"
proof -
  obtain counted cs' where c: "counts p cs = (counted, cs')" by fastforce
  show ?thesis using counts_byJobs [OF c] by (auto simp: addEdit_def c)
qed

lemma addEdits_byJobs: "set (keys (cs_byJobs (addEdits ps cs))) \<subseteq> set (keys (cs_byJobs cs))"
proof (induction ps arbitrary: cs)
  case (Cons p ps)
  show ?case using Cons [of "addEdit p cs"] addEdit_byJobs [of p cs] by (auto simp: Let_def)
qed simp

lemma moveToEdits_byJobs:
  "set (keys (cs_byJobs (moveToEdits ps cs))) = set (keys (cs_byJobs cs)) - set ps"
  unfolding moveToEdits_def
  by (induction ps arbitrary: cs) (auto simp: keys_jdel)

lemma intervalOn_byJobs: "set (keys (cs_byJobs (intervalOn b a cs))) \<subseteq> set (keys (cs_byJobs cs))"
  using addEdits_byJobs by (auto simp: intervalOn_def editedEverywhere_def split: option.splits)

lemma endOn_byJobs:
  "set (keys (cs_byJobs (endOn w job (Some held) cs))) \<subseteq> set (keys (cs_byJobs cs)) \<union> (set (jw_paths w) - set held)"
proof -
  have "set (keys (cs_byJobs (addEdits ps (addJob (filter (\<lambda>p. \<not> heldBy (Some held) p) (jw_paths w)) job cs))))
      \<subseteq> set (keys (cs_byJobs cs)) \<union> (set (jw_paths w) - set held)" for ps
    using addEdits_byJobs addJob_byJobs by (fastforce simp: heldBy_def)
  then show ?thesis by (simp add: endOn_def) (simp add: editedEverywhere_def)
qed

lemma noneOf_mono: "noneOf ks cs \<Longrightarrow> set (keys (cs_byJobs cs')) \<subseteq> set (keys (cs_byJobs cs)) \<Longrightarrow> noneOf ks cs'"
  by (auto simp: noneOf_def)

lemma noneOf_new [simp]: "noneOf ks newChangeSets"
  by (simp add: noneOf_def newChangeSets_def)

lemma jobEnded_simps:
  "cr_unread (jobEnded w job r) = cr_unread r"
  "cr_running (jobEnded w job r) = jdel job (cr_running r)"
  by (simp_all add: jobEnded_def Let_def interval_onSubjects onSubjects_def startAfresh_def
      everywhere_def)

lemma reportsKept_ended:
  assumes kept: "reportsKept r" and began: "jhas (cr_running r) job"
  shows "reportsKept (jobEnded w job r)"
proof (rule reportsKeptI)
  fix i ks
  assume "(i, ks) \<in> set (cr_unread (jobEnded w job r))"
  then have mem: "(i, ks) \<in> set (cr_unread r)" by (simp add: jobEnded_simps)
  note kept' = reportsKeptD [OF kept mem]
  from began obtain held where held: "map_of (cr_running r) job = Some held"
    by (auto simp: in_keys_iff)
  have "set ks \<subseteq> set held"
    using kept'(2) held unfolding allRunning_def by (rule all_vals_get)
  then have e: "noneOf ks (endOn w job (Some held) cs)" if "noneOf ks cs" for cs
    using that endOn_byJobs [of w job held cs] by (auto simp: noneOf_def)
  show "allSubjects (noneOf ks) (jobEnded w job r)"
    unfolding allSubjects_jobEnded allSubjects_onSubjects held
    by (intro allSubjects_startAfresh)
       (auto intro!: e noneOf_mono [OF _ intervalOn_byJobs] intro: allSubjects_mono [OF kept'(1)])
  show "allRunning (\<lambda>held. set ks \<subseteq> set held) (jobEnded w job r)"
    using kept'(2) by (simp add: allRunning_def jobEnded_simps all_vals_jdel)
qed

lemma reportsKept_reported:
  assumes kept: "reportsKept r"
  shows "reportsKept (snd (reportEdits new r))"
proof (rule reportsKeptI)
  fix i ks
  assume "(i, ks) \<in> set (cr_unread (snd (reportEdits new r)))"
  then consider "(i, ks) \<in> set (cr_unread r)" | "ks = new"
    by (auto simp: reportEdits_def Let_def onSubjects_def)
  note cases = this
  have moved: "noneOf new (moveToEdits new cs)" "noneOf ks cs \<Longrightarrow> noneOf ks (moveToEdits new cs)" for cs
    by (auto simp: noneOf_def moveToEdits_byJobs)
  have all: "allSubjects (\<lambda>cs. True) r" by (simp add: allSubjects_def all_vals_def list_all_iff)
  show "allSubjects (noneOf ks) (snd (reportEdits new r))"
    using cases
    by cases
       (auto simp: reportEdits_def Let_def moved intro: allSubjects_mono [OF reportsKeptD(1) [OF kept]]
         allSubjects_mono [OF all])
  have run: "allRunning (\<lambda>h. True) r" by (simp add: allRunning_def all_vals_def list_all_iff)
  show "allRunning (\<lambda>held. set ks \<subseteq> set held) (snd (reportEdits new r))"
    using cases
  proof cases
    case 1
    then show ?thesis using reportsKeptD(2) [OF kept 1]
      by (auto simp: reportEdits_def Let_def onSubjects_def allRunning_def set_fold_jadd elim: all_vals_mono)
  next
    case 2
    then show ?thesis using run
      by (auto simp: reportEdits_def Let_def onSubjects_def allRunning_def set_fold_jadd elim: all_vals_mono)
  qed
qed

lemma reportsKept_step:
  assumes kept: "reportsKept r" and no: "\<forall>w job. e \<noteq> Ended w job"
  shows "reportsKept (stepRecord e r)"
proof (cases e)
  case (Began job)
  show ?thesis unfolding Began
    by (rule reportsKeptI)
       (auto simp: jobBegan_def allSubjects_def allRunning_def
         intro!: all_vals_jset bexI [rotated] dest: reportsKeptD [OF kept, unfolded allSubjects_def allRunning_def])
next
  case (NotBegun job)
  show ?thesis unfolding NotBegun
    by (rule reportsKeptI)
       (auto simp: jobNotBegun_def allSubjects_def allRunning_def
         intro!: all_vals_jdel dest: reportsKeptD [OF kept, unfolded allSubjects_def allRunning_def])
next
  case (Threw job)
  show ?thesis unfolding Threw
    by (rule reportsKeptI)
       (auto simp: jobThrew_def startAfresh_def allSubjects_def allRunning_def
         intro!: all_vals_jdel all_vals_jset dest: reportsKeptD [OF kept, unfolded allSubjects_def allRunning_def])
next
  case (Ended w job)
  then show ?thesis using no by simp
next
  case (Reported ks)
  then show ?thesis using kept by (simp add: reportsKept_reported)
next
  case (ReadReport i)
  show ?thesis unfolding ReadReport
    by (rule reportsKeptI)
       (auto simp: readReport_def allSubjects_def allRunning_def
         dest: reportsKeptD [OF kept, unfolded allSubjects_def allRunning_def])
next
  case (Observed d)
  show ?thesis unfolding Observed
  proof (rule reportsKeptI)
    fix i ks
    assume "(i, ks) \<in> set (cr_unread (stepRecord (Observed d) r))"
    then have mem: "(i, ks) \<in> set (cr_unread r)"
      by (simp add: observed_def interval_onSubjects onSubjects_def)
    show "allSubjects (noneOf ks) (stepRecord (Observed d) r)"
      using reportsKeptD(1) [OF kept mem]
      by (auto simp: observed_def interval_onSubjects elim!: allSubjects_mono
          intro: noneOf_mono [OF _ intervalOn_byJobs])
    show "allRunning (\<lambda>held. set ks \<subseteq> set held) (stepRecord (Observed d) r)"
      using reportsKeptD(2) [OF kept mem]
      by (simp add: observed_def interval_onSubjects onSubjects_def allRunning_def)
  qed
qed

text \<open>
  C17. A change a caller reported as its own edit is never counted as a job's: while its report is
  open, in every state reached by jobs told in order, no subject holds a reported key as a change a
  job made, and every running job holds the key, so that its end cannot make it one.
\<close>

theorem reported_edit_never_a_jobs:
  "reached r \<Longrightarrow>
     list_all (\<lambda>(report, ks).
         list_all (\<lambda>(subject, cs). set ks \<inter> set (keys (cs_byJobs cs)) = {}) (cr_subjects r) \<and>
         list_all (\<lambda>(job, held). set ks \<subseteq> set held) (cr_running r))
       (cr_unread r)"
proof -
  assume "reached r"
  then have "reportsKept r"
  proof (induction rule: reached.induct)
    case reached_start
    then show ?case by (simp add: reportsKept_def emptyRecord_def)
  next
    case (reached_ended r job w)
    then show ?case by (intro reportsKept_ended)
  next
    case (reached_step r e)
    then show ?case by (intro reportsKept_step)
  qed
  then show ?thesis
    by (auto simp: reportsKept_def allSubjects_def allRunning_def all_vals_def noneOf_def list_all_iff)
qed

definition sampleRecord :: ChangeRecord where
  "sampleRecord =
     stepRecord (Reported [''src/a.ts'']) (stepRecord (Began (Some ''web'')) emptyRecord)"

lemma sampleRecord_reached: "reached sampleRecord"
  unfolding sampleRecord_def by (intro reached_step reached_start) simp_all

lemma sampleRecord_states: "cr_unread sampleRecord = [(0, [''src/a.ts''])]"
  "cr_running sampleRecord = [(Some ''web'', [''src/a.ts''])]"
  by code_simp+

text \<open>A job runs when its caller reports an edit: the job holds the edited path.\<close>

theorem reported_edit_never_a_jobs_witness:
  "list_all (\<lambda>(report, ks). list_all (\<lambda>(job, held). set ks \<subseteq> set held) (cr_running sampleRecord))
     (cr_unread sampleRecord) \<and> cr_unread sampleRecord \<noteq> []"
  using reported_edit_never_a_jobs [OF sampleRecord_reached]
  by (simp add: sampleRecord_states)

end
