(* ===== verification/Workspaces.thy ===== *)
theory Workspaces
  imports NonInputs
begin

text \<open>
  Listing the consumer's workspaces (\<^verbatim>\<open>vitest/find-workspaces.ts\<close>): which directories the root
  manifest's patterns name, which of them are Vitest workspaces, and what could not be read. The file
  system is an argument, a record of what each call of \<^verbatim>\<open>node:fs\<close> answers, with the error text where
  it throws; the lists the source pushes notes onto are passed through and returned.
\<close>

section \<open>The data\<close>

record UnreadWorkspaceSource =
  us_source :: string
  us_reason :: string

record NotCoveredWorkspace =
  ncw_path :: string
  ncw_reason :: string

text \<open>The two lists of notes the source's functions push onto.\<close>

record ListingNotes =
  ln_notRead :: "UnreadWorkspaceSource list"
  ln_notCovered :: "NotCoveredWorkspace list"

record VitestWorkspaceListing =
  wl_workspaces :: "Workspace list"
  wl_notes :: ListingNotes

text \<open>Reading a file and parsing it: the text of the error, or the JSON value.\<close>

datatype FileReading = CannotRead string | InvalidJson string | JsonFile json

record FileSystem =
  fs_existsSync :: "string \<Rightarrow> bool"
  fs_realpathSync :: "string \<Rightarrow> string + string"
  fs_readFile :: "string \<Rightarrow> FileReading"
  fs_readdirSync :: "string \<Rightarrow> string + string list"
  fs_isDirectory :: "string \<Rightarrow> string + bool"

definition noteUnread :: "string \<Rightarrow> string \<Rightarrow> ListingNotes \<Rightarrow> ListingNotes" where
  "noteUnread source reason ns =
     ns\<lparr>ln_notRead := ln_notRead ns @ [\<lparr>us_source = source, us_reason = reason\<rparr>]\<rparr>"

section \<open>Reading\<close>

definition realPath :: "FileSystem \<Rightarrow> string \<Rightarrow> string + string" where
  "realPath fs path =
     (case fs_realpathSync fs path of
        Inl e \<Rightarrow> Inl (''cannot resolve its real path: '' @ e)
      | Inr real \<Rightarrow> Inr real)"

definition readJson :: "FileSystem \<Rightarrow> string \<Rightarrow> string + json" where
  "readJson fs file =
     (case fs_readFile fs file of
        CannotRead e \<Rightarrow> Inl (''cannot be read: '' @ e)
      | InvalidJson e \<Rightarrow> Inl (''is not valid JSON: '' @ e)
      | JsonFile value \<Rightarrow> Inr value)"

definition listDirectory :: "FileSystem \<Rightarrow> string \<Rightarrow> string + string list" where
  "listDirectory fs directory =
     (case fs_readdirSync fs directory of
        Inl e \<Rightarrow> Inl (''cannot list: '' @ e)
      | Inr names \<Rightarrow> Inr names)"

definition isReadableDirectory :: "FileSystem \<Rightarrow> string \<Rightarrow> string \<Rightarrow> ListingNotes \<Rightarrow> bool \<times> ListingNotes" where
  "isReadableDirectory fs path pattern ns =
     (case fs_isDirectory fs path of
        Inl e \<Rightarrow> (False, noteUnread pattern (''cannot stat: '' @ e) ns)
      | Inr isDirectory \<Rightarrow> (isDirectory, ns))"

section \<open>The patterns of the root manifest\<close>

definition keepStringPattern :: "json \<Rightarrow> string list \<times> ListingNotes \<Rightarrow> string list \<times> ListingNotes" where
  "keepStringPattern pattern acc =
     (case stringOf pattern of
        Some s \<Rightarrow> (fst acc @ [s], snd acc)
      | None \<Rightarrow> (fst acc, noteUnread (PACKAGE_JSON @ '' workspaces'')
                   (''pattern '' @ stringify pattern @ '' is not a string'') (snd acc)))"

definition workspacePatterns :: "FileSystem \<Rightarrow> string \<Rightarrow> ListingNotes \<Rightarrow> string list \<times> ListingNotes" where
  "workspacePatterns fs root ns =
     (if \<not> fs_existsSync fs (posixJoin [root, PACKAGE_JSON]) then ([], ns)
      else case readJson fs (posixJoin [root, PACKAGE_JSON]) of
        Inl reason \<Rightarrow> ([], noteUnread PACKAGE_JSON (''it '' @ reason) ns)
      | Inr manifest \<Rightarrow>
          (case objectField manifest ''workspaces'' of
             None \<Rightarrow> ([], ns)
           | Some field \<Rightarrow>
               (case (case field of JArr vs \<Rightarrow> Some field | _ \<Rightarrow> objectField field ''packages'') of
                  Some (JArr patterns) \<Rightarrow> fold keepStringPattern patterns ([], ns)
                | _ \<Rightarrow> ([], noteUnread (PACKAGE_JSON @ '' workspaces'')
                         ''workspaces is neither an array nor { packages: [...] }'' ns))))"

text \<open>\<^verbatim>\<open>paths.filter(isDirectory)\<close>, the notes passed through.\<close>

fun filterNoting :: "('a \<Rightarrow> ListingNotes \<Rightarrow> bool \<times> ListingNotes) \<Rightarrow> 'a list \<Rightarrow> ListingNotes \<Rightarrow>
    'a list \<times> ListingNotes" where
  "filterNoting keep [] ns = ([], ns)"
| "filterNoting keep (x # xs) ns =
     (let (kept, ns') = keep x ns; (ys, ns'') = filterNoting keep xs ns'
      in (if kept then x # ys else ys, ns''))"

definition CHILDREN_SUFFIX :: string where
  "CHILDREN_SUFFIX = ''/*''"

definition expandPattern :: "FileSystem \<Rightarrow> string \<Rightarrow> string \<Rightarrow> ListingNotes \<Rightarrow> string list \<times> ListingNotes" where
  "expandPattern fs root pattern ns =
     (let parent = (if ends_with pattern CHILDREN_SUFFIX then Some (take (length pattern - 2) pattern) else None);
          expandable = (case parent of Some p \<Rightarrow> p | None \<Rightarrow> pattern) in
      if starts_with pattern ''!'' then
        ([], noteUnread pattern
           ''exclusion patterns are not applied, so the directories it excludes are still searched'' ns)
      else if CHR ''*'' \<in> set expandable then
        ([], noteUnread pattern (''only a literal directory or a parent/* pattern is expanded, '' @
           ''so the directories it matches were not searched'') ns)
      else case parent of
        None \<Rightarrow>
          (let (ok, ns') = isReadableDirectory fs (posixJoin [root, pattern]) pattern ns
           in (if ok then [posixJoin [root, pattern]] else [], ns'))
      | Some p \<Rightarrow>
          (let parentDirectory = posixJoin [root, p];
               (ok, ns') = isReadableDirectory fs parentDirectory pattern ns in
           if \<not> ok then ([], ns')
           else case listDirectory fs parentDirectory of
             Inl reason \<Rightarrow> ([], noteUnread pattern reason ns')
           | Inr names \<Rightarrow>
               filterNoting (\<lambda>path. isReadableDirectory fs path pattern)
                 (map (\<lambda>name. posixJoin [parentDirectory, name]) (sort names)) ns'))"

definition outsideRootReason :: "FileSystem \<Rightarrow> string + string \<Rightarrow> string \<Rightarrow> string option" where
  "outsideRootReason fs realRoot directory =
     (case realRoot of
        Inl reason \<Rightarrow> Some (''the consumer root '' @ reason @ '', so '' @ directory @
          '' could not be checked to lie inside it and was not searched'')
      | Inr rootPath \<Rightarrow>
          (case realPath fs directory of
             Inl reason \<Rightarrow> Some (directory @ '' '' @ reason @
               '', so it could not be checked to lie inside the consumer root and was not searched'')
           | Inr real \<Rightarrow>
               (if liesInside rootPath real then None
                else Some (directory @ '' resolves to '' @ real @ '', outside the consumer root '' @ rootPath @
                       '', so it was not searched''))))"

definition keepInside :: "FileSystem \<Rightarrow> string + string \<Rightarrow> string \<Rightarrow> string \<Rightarrow> ListingNotes \<Rightarrow>
    bool \<times> ListingNotes" where
  "keepInside fs realRoot pattern directory ns =
     (case outsideRootReason fs realRoot directory of
        None \<Rightarrow> (True, ns)
      | Some refusal \<Rightarrow> (False, noteUnread pattern refusal ns))"

fun patternDirectories :: "FileSystem \<Rightarrow> string \<Rightarrow> string + string \<Rightarrow> string list \<Rightarrow> ListingNotes \<Rightarrow>
    string list \<times> ListingNotes" where
  "patternDirectories fs root realRoot [] ns = ([], ns)"
| "patternDirectories fs root realRoot (pattern # rest) ns =
     (let (expanded, notes1) = expandPattern fs root pattern ns;
          (inside, notes2) = filterNoting (keepInside fs realRoot pattern) expanded notes1;
          (others, notes3) = patternDirectories fs root realRoot rest notes2
      in (inside @ others, notes3))"

definition workspaceDirectories :: "FileSystem \<Rightarrow> string \<Rightarrow> ListingNotes \<Rightarrow> string list \<times> ListingNotes" where
  "workspaceDirectories fs root ns =
     (let (patterns, ns') = workspacePatterns fs root ns in
      if patterns = [] then ([], ns')
      else patternDirectories fs root (realPath fs root) patterns ns')"

section \<open>The listing\<close>

type_synonym WorkspaceFilter = "string \<Rightarrow> string \<Rightarrow> ListingNotes \<Rightarrow> bool \<times> ListingNotes"

definition directoryKey :: "FileSystem \<Rightarrow> string \<Rightarrow> string" where
  "directoryKey fs directory = (case realPath fs directory of Inr real \<Rightarrow> real | Inl _ \<Rightarrow> directory)"

definition duplicateReason :: "FileSystem \<Rightarrow> (string, string) jsmap \<Rightarrow> string \<Rightarrow> string \<Rightarrow>
    string option \<times> (string, string) jsmap" where
  "duplicateReason fs listedByRealPath directory path =
     (let key = directoryKey fs directory in
      case map_of listedByRealPath key of
        None \<Rightarrow> (None, jset key path listedByRealPath)
      | Some listed \<Rightarrow> (Some (''resolves to '' @ key @ '', the directory of workspace '' @ listed @
          '', which is listed in its place''), listedByRealPath))"

record ListingState =
  ls_visited :: "string list"
  ls_listed :: "(string, string) jsmap"
  ls_workspaces :: "(string, Workspace) jsmap"
  ls_notes :: ListingNotes

definition listCandidate :: "FileSystem \<Rightarrow> string \<Rightarrow> WorkspaceFilter \<Rightarrow> string \<Rightarrow> ListingState \<Rightarrow> ListingState" where
  "listCandidate fs root keep directory s =
     (let path = workspacePathOf root directory in
      if path \<in> set (ls_visited s) then s
      else
        (let (kept, ns) = keep directory path (ls_notes s);
             s1 = s\<lparr>ls_visited := jadd path (ls_visited s), ls_notes := ns\<rparr> in
         if \<not> kept then s1
         else case duplicateReason fs (ls_listed s1) directory path of
           (Some duplicate, listed) \<Rightarrow>
             s1\<lparr>ls_listed := listed, ls_notes := noteUnread path duplicate (ls_notes s1)\<rparr>
         | (None, listed) \<Rightarrow>
             s1\<lparr>ls_listed := listed,
                ls_workspaces := jset path \<lparr>ws_path = path, ws_directory = directory\<rparr> (ls_workspaces s1)\<rparr>))"

definition pnpmNotes :: "FileSystem \<Rightarrow> string \<Rightarrow> ListingNotes" where
  "pnpmNotes fs root =
     (let ns = \<lparr>ln_notRead = [], ln_notCovered = []\<rparr> in
      if fs_existsSync fs (posixJoin [root, PNPM_WORKSPACE_FILE])
      then noteUnread PNPM_WORKSPACE_FILE
             ''pnpm workspaces are not read, so its packages were not searched'' ns
      else ns)"

definition listWorkspaces :: "FileSystem \<Rightarrow> string \<Rightarrow> WorkspaceFilter \<Rightarrow> VitestWorkspaceListing" where
  "listWorkspaces fs root keep =
     (let (directories, ns) = workspaceDirectories fs root (pnpmNotes fs root);
          s = fold (listCandidate fs root keep) (root # directories)
                \<lparr>ls_visited = [], ls_listed = [], ls_workspaces = [], ls_notes = ns\<rparr>
      in \<lparr>wl_workspaces = map snd (ls_workspaces s), wl_notes = ls_notes s\<rparr>)"

definition findPackageWorkspaces :: "FileSystem \<Rightarrow> string \<Rightarrow> VitestWorkspaceListing" where
  "findPackageWorkspaces fs root = listWorkspaces fs root (\<lambda>_ _ ns. (True, ns))"

section \<open>Vitest workspaces\<close>

definition optionalField :: "json option \<Rightarrow> string \<Rightarrow> json option" where
  "optionalField value key = (case value of None \<Rightarrow> None | Some v \<Rightarrow> objectField v key)"

definition dependsOnVitest :: "json \<Rightarrow> bool" where
  "dependsOnVitest manifest =
     list_ex (\<lambda>field. optionalField (objectField manifest field) ''vitest'' \<noteq> None)
       [''dependencies'', ''devDependencies'']"

definition notCoveredCandidate :: "string \<Rightarrow> json \<Rightarrow> NotCoveredWorkspace option" where
  "notCoveredCandidate path manifest =
     (case optionalField (objectField manifest ''scripts'') ''test'' of
        Some (JStr script) \<Rightarrow>
          (if path = ROOT_PATH then None
           else Some \<lparr>ncw_path = path,
             ncw_reason = ''has a test script, '' @ stringify (JStr script) @
               '', but is not a Vitest workspace: it holds no Vitest config file and lists no Vitest in its '' @
               ''dependencies or devDependencies, so RT Test does not discover or run its tests''\<rparr>)
      | _ \<Rightarrow> None)"

definition holdsVitestConfig :: "FileSystem \<Rightarrow> WorkspaceFilter" where
  "holdsVitestConfig fs directory path ns =
     (case listDirectory fs directory of
        Inl reason \<Rightarrow> (False, noteUnread path reason ns)
      | Inr names \<Rightarrow>
          (if list_ex (\<lambda>file. file \<in> set names) VITEST_CONFIG_FILES then (True, ns)
           else if PACKAGE_JSON \<notin> set names then (False, ns)
           else case readJson fs (posixJoin [directory, PACKAGE_JSON]) of
             Inl reason \<Rightarrow> (False, noteUnread (joinPath path PACKAGE_JSON)
               (''it '' @ reason @ '', so it was not checked for a Vitest dependency'') ns)
           | Inr manifest \<Rightarrow>
               (if \<not> dependsOnVitest manifest then
                  (False, (case notCoveredCandidate path manifest of
                     None \<Rightarrow> ns
                   | Some notVitest \<Rightarrow> ns\<lparr>ln_notCovered := ln_notCovered ns @ [notVitest]\<rparr>))
                else if list_ex (\<lambda>file. file \<in> set names) VITE_CONFIG_FILES then (True, ns)
                else (False, noteUnread path
                  (''depends on Vitest but holds no Vitest or Vite config file, so it is not a Vitest workspace '' @
                   ''and its tests were not discovered'') ns))))"

definition findVitestWorkspaces :: "FileSystem \<Rightarrow> string \<Rightarrow> VitestWorkspaceListing" where
  "findVitestWorkspaces fs root = listWorkspaces fs root (holdsVitestConfig fs)"

section \<open>What the listing lists\<close>

text \<open>The first of each of the values \<^verbatim>\<open>f\<close> takes.\<close>

definition addBy :: "('a \<Rightarrow> 'b) \<Rightarrow> 'a \<Rightarrow> 'a list \<Rightarrow> 'a list" where
  "addBy f x acc = (if f x \<in> f ` set acc then acc else acc @ [x])"

definition uniqBy :: "('a \<Rightarrow> 'b) \<Rightarrow> 'a list \<Rightarrow> 'a list" where
  "uniqBy f xs = fold (addBy f) xs []"

lemma uniqBy_Nil [simp]: "uniqBy f [] = []"
  by (simp add: uniqBy_def)

lemma uniqBy_snoc: "uniqBy f (xs @ [x]) = addBy f x (uniqBy f xs)"
  by (simp add: uniqBy_def)

lemma image_uniqBy [simp]: "f ` set (uniqBy f xs) = f ` set xs"
  by (induction xs rule: rev_induct) (auto simp: uniqBy_snoc addBy_def)

lemma set_uniqBy: "set (uniqBy f xs) \<subseteq> set xs"
  by (induction xs rule: rev_induct) (auto simp: uniqBy_snoc addBy_def)

lemma distinct_uniqBy: "distinct (map f (uniqBy f xs))"
  by (induction xs rule: rev_induct) (auto simp: uniqBy_snoc addBy_def)

text \<open>What makes a directory a Vitest workspace.\<close>

definition isVitestWorkspace :: "FileSystem \<Rightarrow> string \<Rightarrow> bool" where
  "isVitestWorkspace fs directory =
     (case listDirectory fs directory of
        Inl _ \<Rightarrow> False
      | Inr names \<Rightarrow>
          set VITEST_CONFIG_FILES \<inter> set names \<noteq> {} \<or>
          PACKAGE_JSON \<in> set names \<and> set VITE_CONFIG_FILES \<inter> set names \<noteq> {} \<and>
          (case readJson fs (posixJoin [directory, PACKAGE_JSON]) of
             Inl _ \<Rightarrow> False
           | Inr manifest \<Rightarrow> dependsOnVitest manifest))"

lemma fst_holdsVitestConfig [simp]:
  "fst (holdsVitestConfig fs directory path ns) = isVitestWorkspace fs directory"
proof -
  have ex: "list_ex (\<lambda>file. file \<in> set names) files \<longleftrightarrow> set files \<inter> set names \<noteq> {}" for names files :: "string list"
    by (auto simp: list_ex_iff)
  show ?thesis
    by (simp add: holdsVitestConfig_def isVitestWorkspace_def ex Let_def split: sum.splits)
qed

text \<open>The listing, for a filter whose answer depends on the directory alone.\<close>

definition listedDirectories :: "FileSystem \<Rightarrow> string \<Rightarrow> (string \<Rightarrow> bool) \<Rightarrow> string list \<Rightarrow> string list" where
  "listedDirectories fs root V candidates =
     uniqBy (directoryKey fs) (filter V (uniqBy (workspacePathOf root) candidates))"

definition workspaceAt :: "string \<Rightarrow> string \<Rightarrow> Workspace" where
  "workspaceAt root directory = \<lparr>ws_path = workspacePathOf root directory, ws_directory = directory\<rparr>"

definition listingInv :: "FileSystem \<Rightarrow> string \<Rightarrow> (string \<Rightarrow> bool) \<Rightarrow> string list \<Rightarrow> ListingState \<Rightarrow> bool" where
  "listingInv fs root V candidates s =
     (set (ls_visited s) = workspacePathOf root ` set candidates \<and>
      set (keys (ls_listed s)) = directoryKey fs ` set (listedDirectories fs root V candidates) \<and>
      ls_workspaces s = map (\<lambda>d. (workspacePathOf root d, workspaceAt root d))
        (listedDirectories fs root V candidates))"

lemma listedDirectories_sub: "set (listedDirectories fs root V cs) \<subseteq> set cs"
  unfolding listedDirectories_def
  using set_uniqBy [of "directoryKey fs" "filter V (uniqBy (workspacePathOf root) cs)"]
    set_uniqBy [of "workspacePathOf root" cs] by auto

lemma listCandidate_inv:
  assumes keep: "\<And>d p n. fst (keep d p n) = V d"
    and inv: "listingInv fs root V cs s"
  shows "listingInv fs root V (cs @ [d]) (listCandidate fs root keep d s)"
proof -
  let ?p = "workspacePathOf root d"
  have vis: "set (ls_visited s) = workspacePathOf root ` set cs"
    and lst: "set (keys (ls_listed s)) = directoryKey fs ` set (listedDirectories fs root V cs)"
    and wss: "ls_workspaces s = map (\<lambda>d. (workspacePathOf root d, workspaceAt root d))
        (listedDirectories fs root V cs)"
    using inv by (simp_all add: listingInv_def)
  obtain kept ns where k: "keep d ?p (ls_notes s) = (kept, ns)" by (cases "keep d ?p (ls_notes s)")
  have kept: "kept = V d" using keep [of d ?p "ls_notes s"] k by simp
  show ?thesis
  proof (cases "?p \<in> set (ls_visited s)")
    case True
    then have "listedDirectories fs root V (cs @ [d]) = listedDirectories fs root V cs"
      using vis by (simp add: listedDirectories_def uniqBy_snoc addBy_def)
    with True show ?thesis using inv vis
      by (auto simp: listCandidate_def listingInv_def)
  next
    case False
    then have U: "uniqBy (workspacePathOf root) (cs @ [d]) = uniqBy (workspacePathOf root) cs @ [d]"
      using vis by (simp add: uniqBy_snoc addBy_def)
    have L: "listedDirectories fs root V (cs @ [d]) =
        (if V d then addBy (directoryKey fs) d (listedDirectories fs root V cs)
         else listedDirectories fs root V cs)"
      unfolding listedDirectories_def U by (simp add: uniqBy_snoc)
    have new: "?p \<notin> set (keys (ls_workspaces s))"
      using False vis listedDirectories_sub [of fs root V cs] by (auto simp: wss keys_def)
    show ?thesis
    proof (cases "V d")
      case notV: False
      then show ?thesis using False vis lst wss
        by (simp add: listCandidate_def listingInv_def k kept L Let_def insert_commute)
    next
      case V: True
      show ?thesis
      proof (cases "directoryKey fs d \<in> set (keys (ls_listed s))")
        case True
        then obtain p where "map_of (ls_listed s) (directoryKey fs d) = Some p"
          by (auto simp: in_keys_iff)
        then show ?thesis using False V vis lst wss True
          by (simp add: listCandidate_def listingInv_def k kept L Let_def duplicateReason_def addBy_def)
      next
        case fresh: False
        then have "map_of (ls_listed s) (directoryKey fs d) = None" by (simp add: in_keys_iff)
        then show ?thesis using False V vis lst wss fresh jset_new [OF new] jset_new [OF fresh]
          by (simp add: listCandidate_def listingInv_def k kept L Let_def duplicateReason_def addBy_def
              workspaceAt_def)
      qed
    qed
  qed
qed

lemma fold_listCandidate_inv:
  assumes keep: "\<And>d p n. fst (keep d p n) = V d"
  shows "listingInv fs root V cs
     (fold (listCandidate fs root keep) cs \<lparr>ls_visited = [], ls_listed = [], ls_workspaces = [], ls_notes = ns\<rparr>)"
proof (induction cs rule: rev_induct)
  case Nil
  show ?case by (simp add: listingInv_def listedDirectories_def)
next
  case (snoc d cs)
  then show ?case by (simp add: listCandidate_inv [OF keep])
qed

lemma listWorkspaces_exact:
  assumes keep: "\<And>d p n. fst (keep d p n) = V d"
  shows "wl_workspaces (listWorkspaces fs root keep) =
     map (workspaceAt root) (listedDirectories fs root V
       (root # fst (workspaceDirectories fs root (pnpmNotes fs root))))"
proof -
  obtain ds ns where d: "workspaceDirectories fs root (pnpmNotes fs root) = (ds, ns)"
    by (cases "workspaceDirectories fs root (pnpmNotes fs root)")
  from fold_listCandidate_inv [OF keep, where cs = "root # ds" and ns = ns, of fs root] show ?thesis
    by (simp add: listWorkspaces_def d listingInv_def Let_def o_def)
qed

text \<open>No candidate but the root lies outside it.\<close>

definition insideRoot :: "FileSystem \<Rightarrow> string \<Rightarrow> string \<Rightarrow> bool" where
  "insideRoot fs root directory =
     (case (realPath fs root, realPath fs directory) of
        (Inr rootPath, Inr real) \<Rightarrow> liesInside rootPath real
      | _ \<Rightarrow> False)"

lemma fst_keepInside: "fst (keepInside fs (realPath fs root) pattern d ns) = insideRoot fs root d"
  by (simp add: keepInside_def outsideRootReason_def insideRoot_def split: sum.splits)

lemma fst_filterNoting:
  "(\<And>x n. fst (keep x n) = V x) \<Longrightarrow> fst (filterNoting keep xs ns) = filter V xs"
  by (induction xs arbitrary: ns) (auto simp: split_beta Let_def)

lemma patternDirectories_inside:
  "list_all (insideRoot fs root) (fst (patternDirectories fs root (realPath fs root) patterns ns))"
proof (induction patterns arbitrary: ns)
  case (Cons pattern patterns)
  then show ?case
    by (auto simp: Let_def split_beta list_all_iff
        fst_filterNoting [where V = "insideRoot fs root", OF fst_keepInside])
qed simp

lemma workspaceDirectories_inside: "list_all (insideRoot fs root) (fst (workspaceDirectories fs root ns))"
  by (simp add: workspaceDirectories_def Let_def split_beta patternDirectories_inside)

text \<open>
  C20. The Vitest workspaces listed are exactly the candidate directories, the root first, each
  root-relative path once, that hold a Vitest config or a Vite config beside a manifest that depends
  on Vitest, and of two that resolve to one directory the first; each carries its root-relative path,
  and every candidate but the root resolves to a directory inside the root's own.
\<close>

theorem findVitestWorkspaces_exact:
  "(let candidates = fst (workspaceDirectories fs root (pnpmNotes fs root));
        listed = uniqBy (directoryKey fs)
          (filter (isVitestWorkspace fs) (uniqBy (workspacePathOf root) (root # candidates)))
    in wl_workspaces (findVitestWorkspaces fs root) = map (workspaceAt root) listed \<and>
       distinct (map (workspacePathOf root) listed) \<and> distinct (map (directoryKey fs) listed) \<and>
       list_all (insideRoot fs root) candidates)"
proof -
  have "distinct (map (workspacePathOf root) (listedDirectories fs root V cs))" for V cs
  proof -
    have filtered: "distinct (map f xs) \<Longrightarrow> distinct (map f (filter P xs))" for f :: "string \<Rightarrow> string" and P xs
      by (induction xs) auto
    have sub: "distinct (map f xs) \<Longrightarrow> distinct (map f (uniqBy g xs))" for f g :: "string \<Rightarrow> string" and xs
    proof (induction xs rule: rev_induct)
      case (snoc x xs)
      then show ?case using set_uniqBy [of g xs] by (auto simp: uniqBy_snoc addBy_def)
    qed simp
    show ?thesis unfolding listedDirectories_def by (intro sub filtered distinct_uniqBy)
  qed
  then show ?thesis
    using listWorkspaces_exact [of "holdsVitestConfig fs" "isVitestWorkspace fs" fs root]
    by (simp add: findVitestWorkspaces_def listedDirectories_def Let_def distinct_uniqBy
        workspaceDirectories_inside)
qed

end
