(* ===== verification/Records.thy ===== *)
theory Records
  imports FactTypes Workspaces
begin

text \<open>
  The records the daemon's answers are read from: runs (\<^verbatim>\<open>vitest/run-states.ts\<close>,
  \<^verbatim>\<open>vitest/run-workspace.ts\<close>), discoveries (\<^verbatim>\<open>vitest/discover-tests.ts\<close>) and the stored
  ones (\<^verbatim>\<open>store/stored-records.ts\<close>); the states an answer gives a test (\<^verbatim>\<open>query/answer.ts\<close>);
  and two questions asked of a record alone, \<open>nothingRanReason\<close> and \<open>workspaceTestModules\<close>.
\<close>

section \<open>Runs\<close>

datatype TestRunState = Finished (trs_outcome: TestOutcome) (trs_errors: "string list") | InterruptedTest

record RecordedTest = IdentifiedTest +
  rct_state :: TestRunState

datatype RecordedModuleState =
    ModuleRan (rms_tests: "RecordedTest list") (rms_errors: "string list")
  | ModuleFailed "string list"
  | ModuleCrashed
  | ModuleNotRun

record RecordedModule = ModuleReport +
  rcm_state :: RecordedModuleState

datatype NothingRanReason =
    NoModule
  | NoModuleRan
  | NoTestDeclared
  | EveryTestSkipped
  | TestsBlockedByHook
  | InterruptedBeforeAnyTestFinished

record UnsupportedProject =
  up_projectName :: string
  up_reason :: string

text \<open>A Vitest outside the supported range, and a session that failed (\<^verbatim>\<open>vitest/workspace-session.ts\<close>).\<close>

record UnsupportedVitest =
  uv_version :: "string option"
  uv_supportedRange :: string
  uv_reason :: string

record FailedSession =
  fs_vitestVersion :: string
  fs_error :: string
  fs_closeError :: "string option"

text \<open>What a run that ran holds beside its modules.\<close>

record RanFacts =
  rn_vitestVersion :: string
  rn_execution :: RunExecution
  rn_typecheckModules :: "ModuleReport list"
  rn_unsupportedProjects :: "UnsupportedProject list"
  rn_unhandledErrors :: "string list"
  rn_nothingRan :: "NothingRanReason option"
  rn_forceStopped :: bool
  rn_cancelError :: "string option"
  rn_closeError :: "string option"

text \<open>A run by its status.\<close>

datatype WorkspaceRun =
    RanRun (wr_ran: RanFacts) (wr_modules: "RecordedModule list")
  | FailedRun FailedSession
  | UnsupportedRun UnsupportedVitest
  | InterruptedBeforeLoadRun
  | CrashedRun string

fun testsOf :: "RecordedModule \<Rightarrow> RecordedTest list" where
  "testsOf module = (case rcm_state module of ModuleRan tests _ \<Rightarrow> tests | _ \<Rightarrow> [])"

fun ranModule :: "RecordedModule \<Rightarrow> bool" where
  "ranModule module = (case rcm_state module of ModuleRan _ _ \<Rightarrow> True | _ \<Rightarrow> False)"

fun hasOutcome :: "TestOutcome list \<Rightarrow> RecordedTest \<Rightarrow> bool" where
  "hasOutcome outcomes test =
     (case rct_state test of Finished outcome _ \<Rightarrow> outcome \<in> set outcomes | InterruptedTest \<Rightarrow> False)"

definition executedBody :: "RecordedTest \<Rightarrow> bool" where
  "executedBody test = hasOutcome [Passed, Failed] test"

definition isError :: "RecordedTest \<Rightarrow> bool" where
  "isError test = hasOutcome [Error] test"

definition nothingRanReason :: "RunExecution \<Rightarrow> RecordedModule list \<Rightarrow> NothingRanReason option" where
  "nothingRanReason execution modules =
     (let tests = flat_map testsOf modules in
      if list_ex executedBody tests then None
      else if execution = InterruptedRun then Some InterruptedBeforeAnyTestFinished
      else if modules = [] then Some NoModule
      else if \<not> list_ex ranModule modules then Some NoModuleRan
      else if tests = [] then Some NoTestDeclared
      else if list_ex isError tests then Some TestsBlockedByHook else Some EveryTestSkipped)"

section \<open>Stored records\<close>

datatype InputFingerprint = FingerprintDigest string | NoFingerprint

record StoredBasis =
  sb_adapterVersion :: nat
  sb_inputFingerprint :: InputFingerprint

text \<open>Every run names its workspace, so a stored run keeps it beside the run by its status.\<close>

record StoredRun = StoredBasis +
  sr_runId :: string
  sr_workspace :: Workspace
  sr_run :: WorkspaceRun

definition VITEST_ADAPTER_VERSION :: nat where
  "VITEST_ADAPTER_VERSION = 4"

section \<open>Discoveries\<close>

record DiscoveredTest = IdentifiedTest +
  dt_mode :: string

record FailedModule = ModuleReport +
  fm_errors :: "string list"

text \<open>What a discovery reports of its projects for selection and protection (\<^verbatim>\<open>vitest/selection-facts.ts\<close>).\<close>

datatype AliasFindKind = StringFind | RegexpFind

record ReportedAlias =
  ra_find :: string
  ra_findKind :: AliasFindKind
  ra_flags :: string
  ra_replacement :: string
  ra_hasCustomResolver :: bool

record SpelledDirectory =
  sd_spelled :: string
  sd_directory :: string

datatype CrawledLinks = LinksComplete "SpelledDirectory list" | LinksUnknown string

record TestFilePatterns =
  tp_directory :: string
  tp_vitestDirectory :: string
  tp_patternBases :: "SpelledDirectory list"
  tp_crawledLinks :: CrawledLinks
  tp_include :: "string list"
  tp_exclude :: "string list"
  tp_includeSource :: "string list"

record EnvSource =
  es_envDirectory :: "string option"
  es_envPrefixes :: "string list"
  es_mode :: string

datatype EnvSources = EnvSourcesKnown "EnvSource list" | EnvSourcesNotKnown string

record ProjectSelectionFacts =
  pf_projectName :: string
  pf_viteRoot :: string
  pf_setupFiles :: "string list"
  pf_globalSetupFiles :: "string list"
  pf_aliases :: "ReportedAlias list"
  pf_testFilePatterns :: TestFilePatterns
  pf_envSources :: EnvSources

datatype SelectionFacts = FactsReported "ProjectSelectionFacts list" | FactsNotReported

record DiscoveredWorkspace =
  dw_workspace :: Workspace
  dw_vitestVersion :: string
  dw_tests :: "DiscoveredTest list"
  dw_failedModules :: "FailedModule list"
  dw_typecheckModules :: "ModuleReport list"
  dw_unsupportedProjects :: "UnsupportedProject list"
  dw_unhandledErrors :: "string list"
  dw_selectionFacts :: SelectionFacts
  dw_closeError :: "string option"

datatype WorkspaceDiscovery =
    WsDiscovered DiscoveredWorkspace
  | WsUnsupported Workspace UnsupportedVitest
  | WsFailed Workspace FailedSession
  | WsNotConfirmed Workspace string

fun entryWorkspace :: "WorkspaceDiscovery \<Rightarrow> Workspace" where
  "entryWorkspace (WsDiscovered d) = dw_workspace d"
| "entryWorkspace (WsUnsupported w _) = w"
| "entryWorkspace (WsFailed w _) = w"
| "entryWorkspace (WsNotConfirmed w _) = w"

abbreviation entryPath :: "WorkspaceDiscovery \<Rightarrow> string" where
  "entryPath entry \<equiv> ws_path (entryWorkspace entry)"

record TestDiscovery =
  td_workspaces :: "WorkspaceDiscovery list"
  td_notRead :: "UnreadWorkspaceSource list"
  td_notCovered :: "NotCoveredWorkspace list option"

record StoredDiscovery = StoredBasis +
  st_discoveryId :: string
  st_discovery :: TestDiscovery

definition workspaceTestModules :: "WorkspaceDiscovery \<Rightarrow> string list" where
  "workspaceTestModules entry =
     (case entry of
        WsDiscovered d \<Rightarrow>
          (let modulePaths = map (\<lambda>test. modulePath (it_identity test)) (dw_tests d) @
                 map mr_modulePath (dw_failedModules d) @ map mr_modulePath (dw_typecheckModules d)
           in uniq (map (testModuleFile (ws_path (dw_workspace d))) modulePaths))
      | _ \<Rightarrow> [])"

section \<open>The states of a test\<close>

datatype TestState =
    SOutcome TestOutcome
  | SInterrupted
  | SModuleNotRun
  | SModuleCrashed
  | SModuleFailedToLoad
  | SRunFailed
  | SRunUnsupportedVitest
  | SRunInterruptedBeforeLoad
  | SRunCrashed
  | SRunRefused
  | SNotInLatestRun
  | SNeverRun

definition TEST_STATES :: "TestState list" where
  "TEST_STATES =
     [SOutcome Passed, SOutcome Failed, SOutcome Skipped, SOutcome Error, SInterrupted, SModuleNotRun,
      SModuleCrashed, SModuleFailedToLoad, SRunFailed, SRunUnsupportedVitest,
      SRunInterruptedBeforeLoad, SRunCrashed, SRunRefused, SNotInLatestRun, SNeverRun]"

definition FRESHNESS_VALUES :: "Freshness list" where
  "FRESHNESS_VALUES = [Current, Stale, Unknown]"

record TestStanding =
  ts_test :: DiscoveredTest
  ts_state :: TestState
  ts_freshness :: Freshness

text \<open>An entry the latest discovery did not turn into tests: its kind, the path fields it has, and why.\<close>

record NotDiscoveredEntry =
  ne_kind :: string
  ne_workspacePath :: "string option"
  ne_projectName :: "string option"
  ne_modulePath :: "string option"
  ne_source :: "string option"
  ne_errorCount :: "nat option"
  ne_reason :: string
  ne_omittedCharacters :: nat

section \<open>Lemmas\<close>

lemma TEST_STATES_all: "s \<in> set TEST_STATES"
  by (cases s; cases "case s of SOutcome outcome \<Rightarrow> outcome | _ \<Rightarrow> Passed") (simp_all add: TEST_STATES_def)

lemma TEST_STATES_distinct: "distinct TEST_STATES"
  by (simp add: TEST_STATES_def)

lemma FRESHNESS_all: "f \<in> set FRESHNESS_VALUES"
  by (cases f) (simp_all add: FRESHNESS_VALUES_def)

lemma FRESHNESS_distinct: "distinct FRESHNESS_VALUES"
  by (simp add: FRESHNESS_VALUES_def)

section \<open>Properties\<close>

text \<open>
  A run is not said to have run nothing exactly when some recorded test passed or failed.
\<close>

theorem nothingRanReason_iff:
  "nothingRanReason execution modules = None \<longleftrightarrow>
     (\<exists>module \<in> set modules. \<exists>test \<in> set (testsOf module).
        \<exists>outcome errors. rct_state test = Finished outcome errors \<and> outcome \<in> {Passed, Failed})"
proof -
  have "executedBody test \<longleftrightarrow> (\<exists>outcome errors. rct_state test = Finished outcome errors \<and> outcome \<in> {Passed, Failed})"
    for test by (auto simp: executedBody_def split: TestRunState.splits)
  then have "list_ex executedBody (flat_map testsOf modules) \<longleftrightarrow>
      (\<exists>module \<in> set modules. \<exists>test \<in> set (testsOf module).
         \<exists>outcome errors. rct_state test = Finished outcome errors \<and> outcome \<in> {Passed, Failed})"
    by (auto simp: list_ex_iff simp del: testsOf.simps)
  then show ?thesis by (simp add: nothingRanReason_def Let_def del: testsOf.simps)
qed

end
