(* ===== verification/TestStates.thy ===== *)
theory TestStates
  imports Records "HOL-Library.Multiset"
begin

text \<open>
  Which state and freshness each discovered test reads with (\<^verbatim>\<open>query/test-states.ts\<close>), the test
  lists a run vouches for (\<^verbatim>\<open>vitest/test-lists.ts\<close>), and the freshness of the discovery an answer
  counts from (\<^verbatim>\<open>query/list-freshness.ts\<close>). Fingerprints now are an argument.
\<close>

section \<open>Freshness of a stored record\<close>

type_synonym CurrentFingerprints = "string \<Rightarrow> string option"

definition isCurrentAdapterVersion :: "nat \<Rightarrow> bool" where
  "isCurrentAdapterVersion adapterVersion = (adapterVersion = VITEST_ADAPTER_VERSION)"

definition NO_FINGERPRINT :: string where
  "NO_FINGERPRINT = []"

definition storedFreshness :: "'a StoredBasis_scheme \<Rightarrow> (string \<Rightarrow> Freshness) \<Rightarrow> Freshness" where
  "storedFreshness stored assess =
     (if \<not> isCurrentAdapterVersion (sb_adapterVersion stored) then Stale
      else assess (case sb_inputFingerprint stored of
        NoFingerprint \<Rightarrow> NO_FINGERPRINT
      | FingerprintDigest digest \<Rightarrow> digest))"

definition recordFreshness :: "'a StoredBasis_scheme \<Rightarrow> string option \<Rightarrow> Freshness" where
  "recordFreshness stored currentFingerprint =
     storedFreshness stored (\<lambda>digest. assessFreshness (Some digest) currentFingerprint)"

section \<open>The state a run gives a test\<close>

datatype RunAnswer = OutcomeAnswer (ra_outcome: TestOutcome) (ra_positional: bool) | StateAnswer TestState

definition moduleKey :: "string \<Rightarrow> string \<Rightarrow> string" where
  "moduleKey project path = stringify (JArr [JStr project, JStr path])"

definition recordedAnswer :: "RecordedTest \<Rightarrow> RunAnswer" where
  "recordedAnswer test =
     (case rct_state test of
        Finished outcome _ \<Rightarrow> OutcomeAnswer outcome (it_isDuplicate test)
      | InterruptedTest \<Rightarrow> StateAnswer SInterrupted)"

definition runAnswerer :: "StoredRun \<Rightarrow> TestIdentity \<Rightarrow> RunAnswer" where
  "runAnswerer stored =
     (case sr_run stored of
        FailedRun _ \<Rightarrow> (\<lambda>_. StateAnswer SRunFailed)
      | UnsupportedRun _ \<Rightarrow> (\<lambda>_. StateAnswer SRunUnsupportedVitest)
      | InterruptedBeforeLoadRun \<Rightarrow> (\<lambda>_. StateAnswer SRunInterruptedBeforeLoad)
      | CrashedRun _ \<Rightarrow> (\<lambda>_. StateAnswer SRunCrashed)
      | RanRun _ recorded \<Rightarrow>
          (let modules = jmap_of (map (\<lambda>m. (moduleKey (mr_projectName m) (mr_modulePath m), m)) recorded);
               tests = jmap_of (map (\<lambda>t. (testIdentityKey (it_identity t), t)) (flat_map testsOf recorded))
           in (\<lambda>identity.
             case map_of tests (testIdentityKey identity) of
               Some test \<Rightarrow> recordedAnswer test
             | None \<Rightarrow>
                 (case map_of modules (moduleKey (projectName identity) (modulePath identity)) of
                    None \<Rightarrow> StateAnswer SNotInLatestRun
                  | Some module \<Rightarrow>
                      (case rcm_state module of
                         ModuleRan _ _ \<Rightarrow> StateAnswer SNotInLatestRun
                       | ModuleNotRun \<Rightarrow> StateAnswer SModuleNotRun
                       | ModuleCrashed \<Rightarrow> StateAnswer SModuleCrashed
                       | ModuleFailed _ \<Rightarrow> StateAnswer SModuleFailedToLoad)))))"

definition positionUnvouched :: "DiscoveredTest \<Rightarrow> bool \<Rightarrow> bool \<Rightarrow> bool" where
  "positionUnvouched test recordedPositional discoveryIsCurrent =
     ((it_isDuplicate test \<or> recordedPositional) \<and> \<not> discoveryIsCurrent)"

definition unanswered :: "DiscoveredTest list \<Rightarrow> TestState \<Rightarrow> TestStanding list" where
  "unanswered tests state =
     map (\<lambda>test. \<lparr>ts_test = test, ts_state = state, ts_freshness = Unknown\<rparr>) tests"

definition workspaceStandings :: "DiscoveredTest list \<Rightarrow> StoredRun option \<Rightarrow> string option \<Rightarrow> bool \<Rightarrow>
    TestStanding list" where
  "workspaceStandings tests stored currentFingerprint discoveryIsCurrent =
     (case stored of
        None \<Rightarrow> unanswered tests SNeverRun
      | Some run \<Rightarrow>
          (let answer = runAnswerer run in
           map (\<lambda>test.
             case answer (it_identity test) of
               OutcomeAnswer outcome positional \<Rightarrow>
                 \<lparr>ts_test = test, ts_state = SOutcome outcome,
                  ts_freshness = storedFreshness run (\<lambda>digest.
                    if positionUnvouched test positional discoveryIsCurrent then Unknown
                    else ea_freshness (assessEvidence
                      (Some \<lparr>te_fingerprint = digest, te_outcome = outcome\<rparr>) currentFingerprint))\<rparr>
             | StateAnswer state \<Rightarrow> \<lparr>ts_test = test, ts_state = state, ts_freshness = Unknown\<rparr>) tests))"

definition testStandings :: "TestDiscovery \<Rightarrow> (string, StoredRun) jsmap \<Rightarrow> (string, string) jsmap \<Rightarrow>
    CurrentFingerprints \<Rightarrow> bool \<Rightarrow> TestStanding list" where
  "testStandings discovery latestRuns refusedRuns current discoveryIsCurrent =
     flat_map (\<lambda>entry. case entry of
         WsDiscovered d \<Rightarrow>
           (let path = ws_path (dw_workspace d) in
            if jhas refusedRuns path then unanswered (dw_tests d) SRunRefused
            else workspaceStandings (dw_tests d) (map_of latestRuns path) (current path) discoveryIsCurrent)
       | _ \<Rightarrow> []) (td_workspaces discovery)"

section \<open>Counts\<close>

record TestCounts =
  tc_tests :: nat
  tc_states :: "(TestState, nat) jsmap"
  tc_freshness :: "(Freshness, nat) jsmap"

definition zeroCounts :: "'k list \<Rightarrow> ('k, nat) jsmap" where
  "zeroCounts ks = map (\<lambda>k. (k, 0)) ks"

definition bump :: "'k \<Rightarrow> ('k, nat) jsmap \<Rightarrow> ('k, nat) jsmap" where
  "bump k m = (case map_of m k of Some n \<Rightarrow> jset k (n + 1) m | None \<Rightarrow> m)"

definition countStandings :: "TestStanding list \<Rightarrow> TestCounts" where
  "countStandings standings =
     \<lparr>tc_tests = length standings,
      tc_states = fold (\<lambda>s. bump (ts_state s)) standings (zeroCounts TEST_STATES),
      tc_freshness = fold (\<lambda>s. bump (ts_freshness s)) standings (zeroCounts FRESHNESS_VALUES)\<rparr>"

section \<open>Test lists by module\<close>

record ModuleTests = ModuleReport +
  mt_tests :: "DiscoveredTest list"

definition moduleListKey :: "'a ModuleReport_scheme \<Rightarrow> string" where
  "moduleListKey module = moduleKey (mr_projectName module) (mr_modulePath module)"

definition addToModule :: "DiscoveredTest \<Rightarrow> (string, ModuleTests) jsmap \<Rightarrow> (string, ModuleTests) jsmap" where
  "addToModule test modules =
     (let key = moduleKey (projectName (it_identity test)) (modulePath (it_identity test)) in
      case map_of modules key of
        None \<Rightarrow> jset key \<lparr>mr_projectName = projectName (it_identity test),
                         mr_modulePath = modulePath (it_identity test), mt_tests = [test]\<rparr> modules
      | Some listed \<Rightarrow> jset key (listed\<lparr>mt_tests := mt_tests listed @ [test]\<rparr>) modules)"

definition testsByModule :: "DiscoveredTest list \<Rightarrow> (string, ModuleTests) jsmap" where
  "testsByModule tests = fold addToModule tests []"

definition listedModules :: "DiscoveredWorkspace \<Rightarrow> ModuleTests list" where
  "listedModules entry =
     (let failed = map moduleListKey (dw_failedModules entry) in
      map snd (filter (\<lambda>(key, _). key \<notin> set failed) (testsByModule (dw_tests entry))))"

definition identities :: "'a IdentifiedTest_scheme list \<Rightarrow> string" where
  "identities tests = stringify (JArr (map JStr (sort (map (\<lambda>test. testIdentityKey (it_identity test)) tests))))"

definition vouchedModules :: "DiscoveredWorkspace \<Rightarrow> WorkspaceRun \<Rightarrow> ModuleTests list" where
  "vouchedModules entry run =
     (case run of
        RanRun _ modules \<Rightarrow>
          (let recorded = jmap_of (flat_map (\<lambda>m. case rcm_state m of
                 ModuleRan tests _ \<Rightarrow> [(moduleListKey m, identities tests)] | _ \<Rightarrow> []) modules)
           in filter (\<lambda>module. map_of recorded (moduleListKey module) = Some (identities (mt_tests module)))
                (listedModules entry))
      | _ \<Rightarrow> [])"

definition vouchedFreshness :: "DiscoveredWorkspace \<Rightarrow> StoredRun \<Rightarrow> string option \<Rightarrow> Freshness" where
  "vouchedFreshness entry latest currentFingerprint =
     (let freshness = recordFreshness latest currentFingerprint in
      if freshness \<noteq> Current then freshness
      else if length (vouchedModules entry (sr_run latest)) = length (listedModules entry)
      then Current else Unknown)"

fun listFreshnessFrom :: "Freshness \<Rightarrow> WorkspaceDiscovery list \<Rightarrow> (string, StoredRun) jsmap \<Rightarrow>
    (string, string) jsmap \<Rightarrow> CurrentFingerprints \<Rightarrow> Freshness" where
  "listFreshnessFrom rated [] latestRuns refusedRuns current = rated"
| "listFreshnessFrom rated (WsDiscovered entry # rest) latestRuns refusedRuns current =
     (let path = ws_path (dw_workspace entry); latest = map_of latestRuns path in
      if latest = None \<and> \<not> jhas refusedRuns path
      then listFreshnessFrom rated rest latestRuns refusedRuns current
      else let vouched = (case latest of None \<Rightarrow> Unknown | Some run \<Rightarrow> vouchedFreshness entry run (current path)) in
        if vouched = Stale then Stale
        else listFreshnessFrom (if vouched = Unknown then Unknown else rated) rest
               latestRuns refusedRuns current)"
| "listFreshnessFrom rated (_ # rest) latestRuns refusedRuns current =
     listFreshnessFrom rated rest latestRuns refusedRuns current"

definition listFreshness :: "Freshness \<Rightarrow> TestDiscovery \<Rightarrow> (string, StoredRun) jsmap \<Rightarrow>
    (string, string) jsmap \<Rightarrow> CurrentFingerprints \<Rightarrow> Freshness" where
  "listFreshness own discovery latestRuns refusedRuns current =
     (if own \<noteq> Current then own
      else listFreshnessFrom Current (td_workspaces discovery) latestRuns refusedRuns current)"

section \<open>Lemmas\<close>

lemma storedFreshness_Current:
  "storedFreshness stored assess = Current \<longleftrightarrow>
     sb_adapterVersion stored = 4 \<and>
     assess (case sb_inputFingerprint stored of NoFingerprint \<Rightarrow> [] | FingerprintDigest d \<Rightarrow> d) = Current"
  unfolding storedFreshness_def isCurrentAdapterVersion_def VITEST_ADAPTER_VERSION_def NO_FINGERPRINT_def
  by auto

text \<open>A stored record is bound to the current fingerprint.\<close>

definition boundTo :: "'a StoredBasis_scheme \<Rightarrow> string option \<Rightarrow> bool" where
  "boundTo stored currentFingerprint =
     (sb_adapterVersion stored = 4 \<and>
      (\<exists>digest. digest \<noteq> [] \<and> sb_inputFingerprint stored = FingerprintDigest digest \<and>
         currentFingerprint = Some digest))"

lemma recordFreshness_Current: "recordFreshness stored c = Current \<longleftrightarrow> boundTo stored c"
  by (auto simp: recordFreshness_def storedFreshness_Current assessFreshness_Current boundTo_def
      split: InputFingerprint.splits)

lemma moduleKey_inj [simp]: "moduleKey p m = moduleKey q n \<longleftrightarrow> p = q \<and> m = n"
  by (auto simp: moduleKey_def)

lemma map_of_keyed:
  assumes inj: "\<And>x. (f x = k) = P x"
  shows "map_of (rev (map (\<lambda>x. (f x, g x)) xs)) k = map_option g (find P (rev xs))"
proof -
  have "map_of (map (\<lambda>x. (f x, g x)) ys) k = map_option g (find P ys)" for ys
    by (induction ys) (auto simp: inj [symmetric])
  then show ?thesis by (simp add: rev_map)
qed

definition lastRecorded :: "RecordedModule list \<Rightarrow> TestIdentity \<Rightarrow> RecordedTest option" where
  "lastRecorded modules identity = find (\<lambda>t. it_identity t = identity) (rev (flat_map testsOf modules))"

lemma recorded_tests:
  "map_of (jmap_of (map (\<lambda>t. (testIdentityKey (it_identity t), t)) ts)) (testIdentityKey identity) =
     find (\<lambda>t. it_identity t = identity) (rev ts)"
  by (simp add: map_of_jmap_of map_of_keyed [where P = "\<lambda>t. it_identity t = identity"]
      testIdentityKey_iff option.map_ident)

lemma recordedAnswer_outcome:
  "recordedAnswer t = OutcomeAnswer outcome positional \<longleftrightarrow>
     (\<exists>errors. rct_state t = Finished outcome errors) \<and> positional = it_isDuplicate t"
  by (auto simp: recordedAnswer_def split: TestRunState.splits)

lemma runAnswerer_outcome:
  "runAnswerer stored identity = OutcomeAnswer outcome positional \<longleftrightarrow>
     (\<exists>execution modules t errors. sr_run stored = RanRun execution modules \<and>
        lastRecorded modules identity = Some t \<and> rct_state t = Finished outcome errors \<and>
        positional = it_isDuplicate t)"
  by (auto simp: runAnswerer_def Let_def recorded_tests lastRecorded_def recordedAnswer_outcome
      split: WorkspaceRun.splits option.splits RecordedModuleState.splits)

definition standingOf :: "StoredRun \<Rightarrow> string option \<Rightarrow> bool \<Rightarrow> DiscoveredTest \<Rightarrow> TestStanding" where
  "standingOf run c vouched test =
     (case runAnswerer run (it_identity test) of
        OutcomeAnswer outcome positional \<Rightarrow>
          \<lparr>ts_test = test, ts_state = SOutcome outcome,
           ts_freshness = storedFreshness run (\<lambda>digest.
             if positionUnvouched test positional vouched then Unknown
             else assessFreshness (Some digest) c)\<rparr>
      | StateAnswer state \<Rightarrow> \<lparr>ts_test = test, ts_state = state, ts_freshness = Unknown\<rparr>)"

lemma workspaceStandings_Some:
  "workspaceStandings tests (Some run) c vouched = map (standingOf run c vouched) tests"
proof -
  have fresh: "ea_freshness (assessEvidence (Some \<lparr>te_fingerprint = digest, te_outcome = outcome\<rparr>) c) =
      assessFreshness (Some digest) c" for digest outcome
    by (simp add: assessEvidence_def Let_def)
  show ?thesis
    unfolding workspaceStandings_def standingOf_def Let_def fresh by simp
qed

lemma runAnswerer_never_SOutcome: "runAnswerer run identity \<noteq> StateAnswer (SOutcome outcome)"
  by (auto simp: runAnswerer_def Let_def recordedAnswer_def
      split: WorkspaceRun.splits option.splits RecordedModuleState.splits TestRunState.splits)

lemma standingOf_current:
  "ts_state (standingOf run c vouched test) = SOutcome outcome \<and>
   ts_freshness (standingOf run c vouched test) = Current \<longleftrightarrow>
     boundTo run c \<and>
     (\<exists>execution modules t errors. sr_run run = RanRun execution modules \<and>
        lastRecorded modules (it_identity test) = Some t \<and> rct_state t = Finished outcome errors \<and>
        (\<not> it_isDuplicate test \<and> \<not> it_isDuplicate t \<or> vouched))"
proof (cases "runAnswerer run (it_identity test)")
  case (OutcomeAnswer o' positional)
  from OutcomeAnswer [THEN runAnswerer_outcome [THEN iffD1]]
  obtain execution modules t errors where r: "sr_run run = RanRun execution modules"
      "lastRecorded modules (it_identity test) = Some t" "rct_state t = Finished o' errors"
      "positional = it_isDuplicate t" by blast
  have "storedFreshness run (\<lambda>digest. if positionUnvouched test positional vouched then Unknown
          else assessFreshness (Some digest) c) = Current \<longleftrightarrow>
      boundTo run c \<and> \<not> positionUnvouched test positional vouched"
    by (auto simp: storedFreshness_Current boundTo_def assessFreshness_Current
        split: InputFingerprint.splits)
  then show ?thesis using OutcomeAnswer r
    by (auto simp: standingOf_def positionUnvouched_def)
next
  case (StateAnswer state)
  then have "\<not> (\<exists>execution modules t errors. sr_run run = RanRun execution modules \<and>
      lastRecorded modules (it_identity test) = Some t \<and> rct_state t = Finished outcome errors)"
    by (metis RunAnswer.distinct(1) runAnswerer_outcome)
  then show ?thesis using StateAnswer by (auto simp: standingOf_def)
qed

lemma bump_count:
  "map_of (fold (\<lambda>x. bump (f x)) xs m) k = map_option (\<lambda>n. n + length (filter (\<lambda>x. f x = k) xs)) (map_of m k)"
proof (induction xs arbitrary: m)
  case Nil
  then show ?case by (simp add: option.map_ident)
next
  case (Cons x xs)
  have "map_of (bump (f x) m) k = map_option (\<lambda>n. n + (if f x = k then 1 else 0)) (map_of m k)"
    by (auto simp: bump_def split: option.splits)
  then show ?case by (simp add: Cons option.map_comp comp_def)
qed

lemma keys_bump: "keys (fold (\<lambda>x. bump (f x)) xs m) = keys m"
  by (induction xs arbitrary: m) (auto simp: bump_def keys_jset in_keys_iff split: option.splits)

lemma map_of_zeroCounts: "map_of (zeroCounts ks) k = (if k \<in> set ks then Some 0 else None)"
  by (induction ks) (auto simp: zeroCounts_def)

lemma keys_zeroCounts [simp]: "keys (zeroCounts ks) = ks"
  by (simp add: zeroCounts_def keys_def comp_def)

lemma jsmap_eq:
  assumes "distinct (keys m)" "keys m = keys n" "\<And>k. k \<in> set (keys m) \<Longrightarrow> map_of m k = map_of n k"
  shows "m = n"
  using assms
proof (induction m arbitrary: n)
  case Nil
  then show ?case by (cases n) (auto simp: keys_def)
next
  case (Cons p m)
  obtain k v where p: "p = (k, v)" by (cases p)
  from Cons.prems(2) p obtain w n' where n: "n = (k, w) # n'" "keys m = keys n'"
    by (cases n) (auto simp: keys_def)
  have "v = w" using Cons.prems(3) [of k] p n by simp
  moreover have "m = n'"
  proof (rule Cons.IH)
    show "distinct (keys m)" using Cons.prems(1) by simp
    show "keys m = keys n'" by fact
    fix k' assume k': "k' \<in> set (keys m)"
    then have "k' \<noteq> k" using Cons.prems(1) p by auto
    then show "map_of m k' = map_of n' k'" using Cons.prems(3) [of k'] k' p n by simp
  qed
  ultimately show ?case using p n by simp
qed

lemma counts_eq:
  assumes "distinct ks"
  shows "fold (\<lambda>x. bump (f x)) xs (zeroCounts ks) =
     map (\<lambda>k. (k, length (filter (\<lambda>x. f x = k) xs))) ks"
proof (rule jsmap_eq)
  have ks: "keys (fold (\<lambda>x. bump (f x)) xs (zeroCounts ks)) = ks" by (simp add: keys_bump)
  then show "distinct (keys (fold (\<lambda>x. bump (f x)) xs (zeroCounts ks)))" using assms by simp
  show "keys (fold (\<lambda>x. bump (f x)) xs (zeroCounts ks)) =
      keys (map (\<lambda>k. (k, length (filter (\<lambda>x. f x = k) xs))) ks)"
    unfolding ks by (simp add: keys_def comp_def)
  fix k assume "k \<in> set (keys (fold (\<lambda>x. bump (f x)) xs (zeroCounts ks)))"
  then have k: "k \<in> set ks" by (simp add: ks)
  have "map_of (map (\<lambda>k. (k, g k)) ks) k = Some (g k)" for g :: "'a \<Rightarrow> nat"
    using k by (induction ks) auto
  then show "map_of (fold (\<lambda>x. bump (f x)) xs (zeroCounts ks)) k =
      map_of (map (\<lambda>k. (k, length (filter (\<lambda>x. f x = k) xs))) ks) k"
    using k by (simp add: bump_count map_of_zeroCounts)
qed

lemma identities_iff:
  "identities xs = identities ys \<longleftrightarrow>
     mset (map it_identity xs) = mset (map it_identity ys)"
proof -
  have inj: "inj testIdentityKey" by (auto simp: inj_def testIdentityKey_iff)
  have sorts: "sort us = sort vs \<longleftrightarrow> mset us = mset vs" for us vs :: "string list"
    by (metis mset_sort properties_for_sort sorted_sort)
  have "identities xs = identities ys \<longleftrightarrow>
      sort (map (\<lambda>t. testIdentityKey (it_identity t)) xs) = sort (map (\<lambda>t. testIdentityKey (it_identity t)) ys)"
    by (simp add: identities_def map_JStr_inj del: mset_map)
  also have "\<dots> \<longleftrightarrow> mset (map (\<lambda>t. testIdentityKey (it_identity t)) xs) = mset (map (\<lambda>t. testIdentityKey (it_identity t)) ys)"
    by (rule sorts)
  also have "\<dots> \<longleftrightarrow> image_mset testIdentityKey (mset (map it_identity xs)) =
      image_mset testIdentityKey (mset (map it_identity ys))"
    by (simp add: image_mset.compositionality comp_def)
  also have "\<dots> \<longleftrightarrow> mset (map it_identity xs) = mset (map it_identity ys)"
    using inj by (intro inj_eq multiset.inj_map)
  finally show ?thesis .
qed

text \<open>Per module, the tests in the order listed; each module under its own key.\<close>

lemma addToModule_keys:
  "wf_map ms \<Longrightarrow> wf_map (addToModule t ms)"
  "set (keys (addToModule t ms)) =
     insert (moduleKey (projectName (it_identity t)) (modulePath (it_identity t))) (set (keys ms))"
  by (auto simp: addToModule_def Let_def keys_jset in_keys_iff split: option.splits)

definition inModule :: "string \<Rightarrow> DiscoveredTest \<Rightarrow> bool" where
  "inModule key t = (moduleKey (projectName (it_identity t)) (modulePath (it_identity t)) = key)"

lemma addToModule_get:
  "map_option mt_tests (map_of (addToModule t ms) key) =
     (if inModule key t
      then Some ((case map_of ms key of None \<Rightarrow> [] | Some m \<Rightarrow> mt_tests m) @ [t])
      else map_option mt_tests (map_of ms key))"
  by (auto simp: addToModule_def Let_def inModule_def split: option.splits)

lemma fold_addToModule:
  "map_option mt_tests (map_of (fold addToModule ts ms) key) =
     (case map_of ms key of
        Some m \<Rightarrow> Some (mt_tests m @ filter (inModule key) ts)
      | None \<Rightarrow> (if filter (inModule key) ts = [] then None else Some (filter (inModule key) ts)))"
proof (induction ts arbitrary: ms)
  case Nil
  then show ?case by (simp split: option.splits)
next
  case (Cons t ts)
  show ?case using addToModule_get [of t ms key]
    by (auto simp: Cons split: option.splits if_splits)
qed

lemma testsByModule_get:
  "map_option mt_tests (map_of (testsByModule ts) key) =
     (if filter (inModule key) ts = [] then None else Some (filter (inModule key) ts))"
  by (simp add: testsByModule_def fold_addToModule)

definition keyedRight :: "(string, ModuleTests) jsmap \<Rightarrow> bool" where
  "keyedRight ms = (\<forall>(key, m) \<in> set ms. moduleListKey m = key)"

lemma keyedRight_jset: "keyedRight ms \<Longrightarrow> moduleListKey m = key \<Longrightarrow> keyedRight (jset key m ms)"
  using set_jset [of key m ms] by (auto simp: keyedRight_def)

lemma keyedRight_fold: "keyedRight ms \<Longrightarrow> keyedRight (fold addToModule ts ms)"
proof (induction ts arbitrary: ms)
  case (Cons t ts)
  have "keyedRight (addToModule t ms)"
    using Cons.prems
    by (auto simp: addToModule_def Let_def split: option.splits intro!: keyedRight_jset)
       (auto simp: keyedRight_def moduleListKey_def dest!: map_of_mem)
  then show ?case using Cons.IH by simp
qed simp

lemma wf_testsByModule: "wf_map (testsByModule ts)" "keyedRight (testsByModule ts)"
proof -
  have "wf_map ms \<Longrightarrow> wf_map (fold addToModule ts ms)" for ms
    by (induction ts arbitrary: ms) (auto simp: addToModule_keys)
  then show "wf_map (testsByModule ts)" by (simp add: testsByModule_def)
  show "keyedRight (testsByModule ts)"
    unfolding testsByModule_def by (rule keyedRight_fold) (simp add: keyedRight_def)
qed

text \<open>A listed module, with exactly the discovery's tests of it, in order.\<close>

definition listsModule :: "DiscoveredWorkspace \<Rightarrow> ModuleTests \<Rightarrow> bool" where
  "listsModule entry m =
     (mt_tests m \<noteq> [] \<and>
      mt_tests m = filter (\<lambda>t. projectName (it_identity t) = mr_projectName m \<and>
                              modulePath (it_identity t) = mr_modulePath m) (dw_tests entry) \<and>
      (\<forall>failed \<in> set (dw_failedModules entry).
         mr_projectName failed \<noteq> mr_projectName m \<or> mr_modulePath failed \<noteq> mr_modulePath m))"

lemma inModule_key: "inModule (moduleKey p m) t \<longleftrightarrow> projectName (it_identity t) = p \<and> modulePath (it_identity t) = m"
  by (simp add: inModule_def)

lemma testsByModule_mem:
  "(key, m) \<in> set (testsByModule ts) \<longleftrightarrow>
     key = moduleListKey m \<and> mt_tests m \<noteq> [] \<and> mt_tests m = filter (inModule key) ts"
proof
  assume mem: "(key, m) \<in> set (testsByModule ts)"
  then have "map_of (testsByModule ts) key = Some m"
    using wf_testsByModule(1) by (simp add: map_of_eq_Some_mem)
  then have "(if filter (inModule key) ts = [] then None else Some (filter (inModule key) ts)) = Some (mt_tests m)"
    using testsByModule_get [of ts key] by simp
  moreover have "key = moduleListKey m"
    using mem wf_testsByModule(2) [of ts] by (auto simp: keyedRight_def)
  ultimately show "key = moduleListKey m \<and> mt_tests m \<noteq> [] \<and> mt_tests m = filter (inModule key) ts"
    by (auto split: if_splits)
next
  assume r: "key = moduleListKey m \<and> mt_tests m \<noteq> [] \<and> mt_tests m = filter (inModule key) ts"
  then have ne: "filter (inModule key) ts \<noteq> []" and mt: "mt_tests m = filter (inModule key) ts"
    by auto
  have "map_option mt_tests (map_of (testsByModule ts) key) = Some (mt_tests m)"
    unfolding testsByModule_get mt using ne by (rule if_not_P)
  then obtain m' where m': "map_of (testsByModule ts) key = Some m'" "mt_tests m' = mt_tests m" by auto
  then have "moduleListKey m' = moduleListKey m"
    using wf_testsByModule(2) [of ts] r by (auto simp: keyedRight_def dest!: map_of_mem)
  then have "m' = m" using m'(2) by (cases m; cases m') (simp add: moduleListKey_def)
  then show "(key, m) \<in> set (testsByModule ts)" using m'(1) by (simp add: map_of_mem)
qed

lemma listedModules_mem: "m \<in> set (listedModules entry) \<longleftrightarrow> listsModule entry m"
proof -
  have "inModule (moduleListKey m) =
      (\<lambda>t. projectName (it_identity t) = mr_projectName m \<and> modulePath (it_identity t) = mr_modulePath m)"
    by (rule ext) (simp add: moduleListKey_def inModule_key)
  moreover have "m \<in> set (listedModules entry) \<longleftrightarrow>
      (\<exists>key. (key, m) \<in> set (testsByModule (dw_tests entry)) \<and>
         key \<notin> moduleListKey ` set (dw_failedModules entry))"
    by (force simp: listedModules_def Let_def)
  ultimately show ?thesis
    by (auto simp: testsByModule_mem listsModule_def) (auto simp: moduleListKey_def image_iff)
qed

text \<open>What the run recorded last for a module that ran.\<close>

definition lastRan :: "RecordedModule list \<Rightarrow> ModuleTests \<Rightarrow> RecordedTest list option" where
  "lastRan modules m =
     map_option testsOf (find (\<lambda>r. ranModule r \<and> mr_projectName r = mr_projectName m \<and>
        mr_modulePath r = mr_modulePath m) (rev modules))"

lemma recorded_identities:
  "map_of (jmap_of (flat_map (\<lambda>m. case rcm_state m of
       ModuleRan tests _ \<Rightarrow> [(moduleListKey m, identities tests)] | _ \<Rightarrow> []) modules)) (moduleListKey m) =
     map_option identities (lastRan modules m)"
proof -
  let ?f = "\<lambda>m. case rcm_state m of ModuleRan tests _ \<Rightarrow> [(moduleListKey m, identities tests)] | _ \<Rightarrow> []"
  have "map_of (rev (flat_map ?f modules)) (moduleListKey m) = map_option identities (lastRan modules m)"
  proof (induction modules rule: rev_induct)
    case Nil
    then show ?case by (simp add: lastRan_def)
  next
    case (snoc r modules)
    then show ?case
      by (cases "rcm_state r") (auto simp: lastRan_def moduleListKey_def map_add_def split: option.splits)
  qed
  then show ?thesis by (simp add: map_of_jmap_of)
qed

lemma vouched_mem:
  "m \<in> set (vouchedModules entry run) \<longleftrightarrow>
     listsModule entry m \<and>
     (\<exists>execution modules tests. run = RanRun execution modules \<and> lastRan modules m = Some tests \<and>
        mset (map it_identity tests) = mset (map it_identity (mt_tests m)))"
  by (cases run)
     (auto simp: vouchedModules_def Let_def recorded_identities listedModules_mem identities_iff)

lemma vouched_all:
  "length (vouchedModules entry run) = length (listedModules entry) \<longleftrightarrow>
     (\<forall>m. listsModule entry m \<longrightarrow> m \<in> set (vouchedModules entry run))"
proof (cases run)
  case (RanRun execution modules)
  have len: "length (filter P xs) = length xs \<longleftrightarrow> (\<forall>x \<in> set xs. P x)" for P and xs :: "'b list"
    by (metis filter_True length_filter_less nat_neq_iff)
  show ?thesis using RanRun
    by (auto simp: vouchedModules_def Let_def len listedModules_mem)
next
  case (FailedRun e)
  then show ?thesis by (auto simp: vouchedModules_def listedModules_mem [symmetric])
next
  case (UnsupportedRun v)
  then show ?thesis by (auto simp: vouchedModules_def listedModules_mem [symmetric])
next
  case InterruptedBeforeLoadRun
  then show ?thesis by (auto simp: vouchedModules_def listedModules_mem [symmetric])
next
  case (CrashedRun e)
  then show ?thesis by (auto simp: vouchedModules_def listedModules_mem [symmetric])
qed

text \<open>How an answer rates one discovered workspace; none is rated without a stored run.\<close>

fun entryRating :: "(string, StoredRun) jsmap \<Rightarrow> (string, string) jsmap \<Rightarrow> CurrentFingerprints \<Rightarrow>
    WorkspaceDiscovery \<Rightarrow> Freshness option" where
  "entryRating latestRuns refusedRuns current (WsDiscovered entry) =
     (let path = ws_path (dw_workspace entry) in
      case map_of latestRuns path of
        Some run \<Rightarrow> Some (vouchedFreshness entry run (current path))
      | None \<Rightarrow> (if jhas refusedRuns path then Some Unknown else None))"
| "entryRating _ _ _ _ = None"

lemma listFreshnessFrom_rated:
  "rated \<noteq> Stale \<Longrightarrow> listFreshnessFrom rated entries latestRuns refusedRuns current =
     (let ratings = map (entryRating latestRuns refusedRuns current) entries in
      if Some Stale \<in> set ratings then Stale
      else if Some Unknown \<in> set ratings then Unknown else rated)"
proof (induction rated entries latestRuns refusedRuns current rule: listFreshnessFrom.induct)
  case (2 rated entry rest latestRuns refusedRuns current)
  show ?case
  proof (cases "map_of latestRuns (ws_path (dw_workspace entry))")
    case None
    then show ?thesis using 2
      by (cases "ws_path (dw_workspace entry) \<in> set (keys refusedRuns)") (auto simp: Let_def)
  next
    case (Some run)
    then show ?thesis using 2
      by (cases "vouchedFreshness entry run (current (ws_path (dw_workspace entry)))")
         (auto simp: Let_def)
  qed
qed (auto simp: Let_def)

subsection \<open>The standings that read current\<close>

lemma outcome_current_iff:
  "(\<exists>standing \<in> set (testStandings discovery latestRuns refusedRuns current vouched).
      ts_test standing = test \<and> ts_state standing = SOutcome outcome \<and> ts_freshness standing = Current) \<longleftrightarrow>
   (\<exists>entry run execution modules recorded errors.
      WsDiscovered entry \<in> set (td_workspaces discovery) \<and> test \<in> set (dw_tests entry) \<and>
      \<not> jhas refusedRuns (ws_path (dw_workspace entry)) \<and>
      map_of latestRuns (ws_path (dw_workspace entry)) = Some run \<and>
      boundTo run (current (ws_path (dw_workspace entry))) \<and>
      sr_run run = RanRun execution modules \<and>
      lastRecorded modules (it_identity test) = Some recorded \<and>
      rct_state recorded = Finished outcome errors \<and>
      (\<not> it_isDuplicate test \<and> \<not> it_isDuplicate recorded \<or> vouched))"
    (is "?l \<longleftrightarrow> ?r")
proof -
  let ?S = "\<lambda>entry. case entry of
      WsDiscovered d \<Rightarrow>
        (let path = ws_path (dw_workspace d) in
         if jhas refusedRuns path then unanswered (dw_tests d) SRunRefused
         else workspaceStandings (dw_tests d) (map_of latestRuns path) (current path) vouched)
    | _ \<Rightarrow> []"
  have un: "\<not> (\<exists>s \<in> set (unanswered ts state). ts_state s = SOutcome outcome \<and> ts_freshness s = Current)"
    for ts state by (auto simp: unanswered_def)
  have test: "ts_test (standingOf run c v t) = t" for run c v t
    by (simp add: standingOf_def split: RunAnswer.splits)
  have one: "(\<exists>s \<in> set (?S (WsDiscovered d)). ts_test s = test \<and> ts_state s = SOutcome outcome \<and>
        ts_freshness s = Current) \<longleftrightarrow>
      test \<in> set (dw_tests d) \<and> \<not> jhas refusedRuns (ws_path (dw_workspace d)) \<and>
      (\<exists>run execution modules recorded errors. map_of latestRuns (ws_path (dw_workspace d)) = Some run \<and>
        boundTo run (current (ws_path (dw_workspace d))) \<and> sr_run run = RanRun execution modules \<and>
        lastRecorded modules (it_identity test) = Some recorded \<and>
        rct_state recorded = Finished outcome errors \<and>
        (\<not> it_isDuplicate test \<and> \<not> it_isDuplicate recorded \<or> vouched))" for d
  proof (cases "jhas refusedRuns (ws_path (dw_workspace d))")
    case True
    then show ?thesis using un [of "dw_tests d" SRunRefused] by (auto simp: Let_def)
  next
    case False
    show ?thesis
    proof (cases "map_of latestRuns (ws_path (dw_workspace d))")
      case None
      then show ?thesis using False un [of "dw_tests d" SNeverRun]
        by (auto simp: Let_def workspaceStandings_def)
    next
      case (Some run)
      then have "?S (WsDiscovered d) =
          map (standingOf run (current (ws_path (dw_workspace d))) vouched) (dw_tests d)"
        using False by (simp add: Let_def workspaceStandings_Some)
      then have "(\<exists>s \<in> set (?S (WsDiscovered d)). ts_test s = test \<and> ts_state s = SOutcome outcome \<and>
            ts_freshness s = Current) \<longleftrightarrow>
          test \<in> set (dw_tests d) \<and>
          (ts_state (standingOf run (current (ws_path (dw_workspace d))) vouched test) = SOutcome outcome \<and>
           ts_freshness (standingOf run (current (ws_path (dw_workspace d))) vouched test) = Current)"
        by (auto simp: test)
      then show ?thesis unfolding standingOf_current using Some False by auto
    qed
  qed
  have "?l \<longleftrightarrow> (\<exists>entry \<in> set (td_workspaces discovery). \<exists>s \<in> set (?S entry). ts_test s = test \<and>
      ts_state s = SOutcome outcome \<and> ts_freshness s = Current)"
    by (auto simp: testStandings_def)
  also have "\<dots> \<longleftrightarrow> (\<exists>d. WsDiscovered d \<in> set (td_workspaces discovery) \<and>
      (\<exists>s \<in> set (?S (WsDiscovered d)). ts_test s = test \<and>
        ts_state s = SOutcome outcome \<and> ts_freshness s = Current))"
  proof
    assume "\<exists>entry \<in> set (td_workspaces discovery). \<exists>s \<in> set (?S entry). ts_test s = test \<and>
      ts_state s = SOutcome outcome \<and> ts_freshness s = Current"
    then obtain entry where e: "entry \<in> set (td_workspaces discovery)" "\<exists>s \<in> set (?S entry). ts_test s = test \<and>
      ts_state s = SOutcome outcome \<and> ts_freshness s = Current" by blast
    then obtain d where "entry = WsDiscovered d" by (cases entry) auto
    with e show "\<exists>d. WsDiscovered d \<in> set (td_workspaces discovery) \<and> (\<exists>s \<in> set (?S (WsDiscovered d)). ts_test s = test \<and>
        ts_state s = SOutcome outcome \<and> ts_freshness s = Current)" by blast
  qed blast
  also have "\<dots> \<longleftrightarrow> ?r" unfolding one by blast
  finally show ?thesis .
qed

text \<open>Only an outcome ever reads as current.\<close>

lemma workspaceStandings_Current:
  "s \<in> set (workspaceStandings tests stored c vouched) \<Longrightarrow> ts_freshness s = Current \<Longrightarrow>
     \<exists>outcome. ts_state s = SOutcome outcome"
  by (auto simp: workspaceStandings_def unanswered_def Let_def split: option.splits RunAnswer.splits)

lemma testStandings_Current:
  assumes "s \<in> set (testStandings discovery latestRuns refusedRuns current vouched)"
    "ts_freshness s = Current"
  shows "\<exists>outcome. ts_state s = SOutcome outcome"
  using assms
  by (auto simp: testStandings_def Let_def unanswered_def dest: workspaceStandings_Current
      split: WorkspaceDiscovery.splits if_splits)

section \<open>Properties\<close>

text \<open>
  C8. Whatever reads as current is a recorded outcome: a standing of a test reads as current exactly
  when its state is an outcome, the latest attempt to run its workspace was not refused, and the
  workspace's latest stored run is by the adapter version now in use (4), bound to a fingerprint that
  is the workspace's current one, ran, and recorded that outcome for that very identity last; and,
  when its position alone tells it from another test of its name, the discovery is current too. No
  refused, never run, interrupted, crashed or failed standing ever does.
\<close>

theorem current_outcome_iff:
  "(\<exists>standing \<in> set (testStandings discovery latestRuns refusedRuns current vouched).
      ts_test standing = test \<and> ts_state standing = state \<and> ts_freshness standing = Current) \<longleftrightarrow>
   (\<exists>outcome entry run execution modules recorded errors.
      state = SOutcome outcome \<and>
      WsDiscovered entry \<in> set (td_workspaces discovery) \<and> test \<in> set (dw_tests entry) \<and>
      \<not> jhas refusedRuns (ws_path (dw_workspace entry)) \<and>
      map_of latestRuns (ws_path (dw_workspace entry)) = Some run \<and>
      sb_adapterVersion run = 4 \<and>
      (\<exists>digest. digest \<noteq> [] \<and> sb_inputFingerprint run = FingerprintDigest digest \<and>
         current (ws_path (dw_workspace entry)) = Some digest) \<and>
      sr_run run = RanRun execution modules \<and>
      find (\<lambda>t. it_identity t = it_identity test) (rev (flat_map testsOf modules)) = Some recorded \<and>
      rct_state recorded = Finished outcome errors \<and>
      (\<not> it_isDuplicate test \<and> \<not> it_isDuplicate recorded \<or> vouched))"
  (is "?l \<longleftrightarrow> ?r")
proof
  assume l: ?l
  then obtain outcome where "state = SOutcome outcome" using testStandings_Current by blast
  with l show ?r
    using outcome_current_iff [of discovery latestRuns refusedRuns current vouched test outcome]
    unfolding boundTo_def lastRecorded_def by blast
next
  assume ?r
  then show ?l
    using outcome_current_iff [of discovery latestRuns refusedRuns current vouched test]
    unfolding boundTo_def lastRecorded_def by blast
qed


text \<open>
  An answer counts every standing once by its state and once by its freshness, each state and
  freshness listed in order, and both totals are the number of tests.
\<close>

theorem countStandings_exact:
  "countStandings standings =
     \<lparr>tc_tests = length standings,
      tc_states = map (\<lambda>s. (s, length (filter (\<lambda>standing. ts_state standing = s) standings))) TEST_STATES,
      tc_freshness = map (\<lambda>f. (f, length (filter (\<lambda>standing. ts_freshness standing = f) standings)))
        FRESHNESS_VALUES\<rparr> \<and>
   sum_list (map snd (tc_states (countStandings standings))) = length standings \<and>
   sum_list (map snd (tc_freshness (countStandings standings))) = length standings"
proof -
  have total: "sum_list (map (\<lambda>k. length (filter (\<lambda>x. f x = k) xs)) ks) = length xs"
    if "distinct ks" "\<forall>x. f x \<in> set ks" for ks and f :: "'x \<Rightarrow> 'k" and xs
  proof (induction xs)
    case (Cons x xs)
    have "sum_list (map (\<lambda>k. length (filter (\<lambda>x. f x = k) (x # xs))) ks) =
        sum_list (map (\<lambda>k. (if f x = k then 1 else 0) + length (filter (\<lambda>x. f x = k) xs)) ks)"
      by (rule arg_cong [where f = sum_list], rule map_cong) auto
    also have "\<dots> = sum_list (map (\<lambda>k. if f x = k then 1 else 0) ks) +
        sum_list (map (\<lambda>k. length (filter (\<lambda>x. f x = k) xs)) ks)"
      by (simp add: sum_list_addf)
    also have "sum_list (map (\<lambda>k. if f x = k then 1 else (0::nat)) ks) = 1"
    proof -
      have "sum_list (map (\<lambda>k. if y = k then 1 else (0::nat)) ks) = (if y \<in> set ks then 1 else 0)" for y
        using that(1) by (induction ks) auto
      then show ?thesis using that(2) by simp
    qed
    finally show ?case by (simp only: Cons) simp
  qed simp
  have states: "tc_states (countStandings standings) =
      map (\<lambda>s. (s, length (filter (\<lambda>standing. ts_state standing = s) standings))) TEST_STATES"
    by (simp add: countStandings_def counts_eq TEST_STATES_distinct)
  have fresh: "tc_freshness (countStandings standings) =
      map (\<lambda>f. (f, length (filter (\<lambda>standing. ts_freshness standing = f) standings))) FRESHNESS_VALUES"
    by (simp add: countStandings_def counts_eq FRESHNESS_distinct)
  have "countStandings standings = \<lparr>tc_tests = length standings,
      tc_states = tc_states (countStandings standings), tc_freshness = tc_freshness (countStandings standings)\<rparr>"
    by (simp add: countStandings_def)
  then show ?thesis
    using total [OF TEST_STATES_distinct, of ts_state standings]
      total [OF FRESHNESS_distinct, of ts_freshness standings] TEST_STATES_all FRESHNESS_all
    unfolding states fresh by (simp add: comp_def)
qed

text \<open>
  A run vouches for a module's list exactly when the discovery lists the module, could collect
  it, and the run recorded the module last as ran with the same tests, however ordered.
\<close>

theorem vouchedModules_iff:
  "m \<in> set (vouchedModules entry run) \<longleftrightarrow>
     listsModule entry m \<and>
     (\<exists>execution modules tests. run = RanRun execution modules \<and> lastRan modules m = Some tests \<and>
        mset (map it_identity tests) = mset (map it_identity (mt_tests m)))"
  by (rule vouched_mem)

text \<open>
  The discovery an answer counts from reads current exactly when its own fingerprint does and,
  for each discovered workspace with a stored run, the latest run is readable, bound to the current
  fingerprint, and vouches for every list of the discovery.
\<close>

theorem listFreshness_current_iff:
  "listFreshness own discovery latestRuns refusedRuns current = Current \<longleftrightarrow>
     own = Current \<and>
     list_all (\<lambda>entry. case entry of
         WsDiscovered d \<Rightarrow>
           (case map_of latestRuns (ws_path (dw_workspace d)) of
              None \<Rightarrow> \<not> jhas refusedRuns (ws_path (dw_workspace d))
            | Some run \<Rightarrow> boundTo run (current (ws_path (dw_workspace d))) \<and>
                list_all (\<lambda>m. m \<in> set (vouchedModules d (sr_run run))) (listedModules d))
       | _ \<Rightarrow> True) (td_workspaces discovery)"
proof -
  have vouched: "vouchedFreshness d run c = Current \<longleftrightarrow>
      boundTo run c \<and> list_all (\<lambda>m. m \<in> set (vouchedModules d (sr_run run))) (listedModules d)" for d run c
    by (auto simp: vouchedFreshness_def Let_def recordFreshness_Current vouched_all list_all_iff
        listedModules_mem)
  have "entryRating latestRuns refusedRuns current entry \<in> {None, Some Current} \<longleftrightarrow>
      (case entry of
         WsDiscovered d \<Rightarrow>
           (case map_of latestRuns (ws_path (dw_workspace d)) of
              None \<Rightarrow> \<not> jhas refusedRuns (ws_path (dw_workspace d))
            | Some run \<Rightarrow> boundTo run (current (ws_path (dw_workspace d))) \<and>
                list_all (\<lambda>m. m \<in> set (vouchedModules d (sr_run run))) (listedModules d))
       | _ \<Rightarrow> True)" for entry
    by (cases entry) (simp_all add: Let_def vouched split: option.splits)
  moreover have "listFreshnessFrom Current (td_workspaces discovery) latestRuns refusedRuns current = Current \<longleftrightarrow>
      list_all (\<lambda>entry. entryRating latestRuns refusedRuns current entry \<in> {None, Some Current}) (td_workspaces discovery)"
  proof -
    have "r \<in> {None, Some Current} \<longleftrightarrow> r \<noteq> Some Stale \<and> r \<noteq> Some Unknown" for r
      by (cases r; cases "the r") auto
    then show ?thesis
      unfolding list_all_iff
      by (subst listFreshnessFrom_rated) (auto simp: Let_def image_iff)
  qed
  ultimately show ?thesis by (simp add: listFreshness_def)
qed

end
