(* ===== verification/TestLists.thy ===== *)
theory TestLists
  imports TestStates
begin

text \<open>
  Replacing a workspace's test lists by those a run collected (\<open>withModuleLists\<close> of
  \<^verbatim>\<open>vitest/test-lists.ts\<close>). The property says what a refreshed discovery holds: the collected
  list where it changed, the discovery's own everywhere else, and the same modules.
\<close>

definition listSignature :: "DiscoveredTest list \<Rightarrow> string" where
  "listSignature tests = stringify (JArr (map (\<lambda>test.
     JArr [JStr (testIdentityKey (it_identity test)), JBool (it_isDuplicate test), JStr (dt_mode test)]) tests))"

record ReplacedLists =
  rl_discovery :: TestDiscovery
  rl_changedModules :: nat

text \<open>\<^verbatim>\<open>findIndex\<close>, with the entry found there.\<close>

fun findIndexEntry :: "string \<Rightarrow> WorkspaceDiscovery list \<Rightarrow> (nat \<times> WorkspaceDiscovery) option" where
  "findIndexEntry path [] = None"
| "findIndexEntry path (entry # rest) =
     (if ws_path (entryWorkspace entry) = path then Some (0, entry)
      else map_option (\<lambda>(i, e). (Suc i, e)) (findIndexEntry path rest))"

definition changedLists :: "(string, ModuleTests) jsmap \<Rightarrow> ModuleTests list \<Rightarrow> ModuleTests list" where
  "changedLists modules given =
     filter (\<lambda>l. case map_of modules (moduleListKey l) of
         None \<Rightarrow> False
       | Some held \<Rightarrow> mt_tests l \<noteq> [] \<and> listSignature (mt_tests held) \<noteq> listSignature (mt_tests l)) given"

definition refreshedModules :: "(string, ModuleTests) jsmap \<Rightarrow> ModuleTests list \<Rightarrow> (string, ModuleTests) jsmap" where
  "refreshedModules modules changed = fold (\<lambda>l. jset (moduleListKey l) l) changed modules"

definition withModuleLists :: "TestDiscovery \<Rightarrow> string \<Rightarrow> ModuleTests list \<Rightarrow> ReplacedLists option" where
  "withModuleLists discovery wsPath given =
     (case findIndexEntry wsPath (td_workspaces discovery) of
        Some (index, WsDiscovered entry) \<Rightarrow>
          (let modules = testsByModule (dw_tests entry);
               changed = changedLists modules given
           in if changed = [] then None
              else let refreshed = entry\<lparr>dw_tests :=
                     flat_map (\<lambda>(_, m). mt_tests m) (refreshedModules modules changed)\<rparr>
                in Some \<lparr>rl_discovery = discovery\<lparr>td_workspaces := (td_workspaces discovery)[index := WsDiscovered refreshed]\<rparr>,
                         rl_changedModules = length changed\<rparr>)
      | _ \<Rightarrow> None)"

section \<open>Lemmas\<close>

lemma listSignature_iff: "listSignature xs = listSignature ys \<longleftrightarrow>
    map (\<lambda>t. (it_identity t, it_isDuplicate t, dt_mode t)) xs =
    map (\<lambda>t. (it_identity t, it_isDuplicate t, dt_mode t)) ys"
proof -
  have "inj (\<lambda>(k, d, m). JArr [JStr (testIdentityKey k), JBool d, JStr m])"
    by (auto simp: inj_def testIdentityKey_iff)
  then have "map (\<lambda>(k, d, m). JArr [JStr (testIdentityKey k), JBool d, JStr m]) us =
      map (\<lambda>(k, d, m). JArr [JStr (testIdentityKey k), JBool d, JStr m]) vs \<longleftrightarrow> us = vs" for us vs
    by (rule inj_map_eq_map)
  from this [of "map (\<lambda>t. (it_identity t, it_isDuplicate t, dt_mode t)) xs"
      "map (\<lambda>t. (it_identity t, it_isDuplicate t, dt_mode t)) ys"]
  show ?thesis by (simp add: listSignature_def comp_def)
qed

lemma listSignature_inj: "listSignature xs = listSignature ys \<longleftrightarrow> xs = ys"
proof -
  have "(\<lambda>t. (it_identity t, it_isDuplicate t, dt_mode t)) t = (\<lambda>t. (it_identity t, it_isDuplicate t, dt_mode t)) u
      \<Longrightarrow> t = u" for t u :: DiscoveredTest
    by (cases t; cases u) simp
  then have "inj (\<lambda>t :: DiscoveredTest. (it_identity t, it_isDuplicate t, dt_mode t))"
    by (auto simp: inj_def)
  then show ?thesis by (simp add: listSignature_iff inj_map_eq_map)
qed

text \<open>Lists whose tests are all of the module they are listed for.\<close>

definition ownTests :: "ModuleTests \<Rightarrow> bool" where
  "ownTests m = list_all (inModule (moduleListKey m)) (mt_tests m)"

definition tidy :: "(string, ModuleTests) jsmap \<Rightarrow> bool" where
  "tidy ms = (wf_map ms \<and> (\<forall>(key, m) \<in> set ms. moduleListKey m = key \<and> ownTests m \<and> mt_tests m \<noteq> []))"

lemma tidy_testsByModule: "tidy (testsByModule ts)"
  using wf_testsByModule [of ts]
  by (auto simp: tidy_def testsByModule_mem ownTests_def list_all_iff)

lemma tidy_jset: "tidy ms \<Longrightarrow> ownTests m \<Longrightarrow> mt_tests m \<noteq> [] \<Longrightarrow> tidy (jset (moduleListKey m) m ms)"
  using set_jset [of "moduleListKey m" m ms] by (auto simp: tidy_def)

lemma tidy_refreshed:
  "tidy ms \<Longrightarrow> (\<forall>l \<in> set changed. ownTests l \<and> mt_tests l \<noteq> []) \<Longrightarrow> tidy (refreshedModules ms changed)"
  unfolding refreshedModules_def
  by (induction changed arbitrary: ms) (auto intro: tidy_jset)

lemma filter_other: "ownTests m \<Longrightarrow> moduleListKey m \<noteq> key \<Longrightarrow> filter (inModule key) (mt_tests m) = []"
  by (auto simp: ownTests_def list_all_iff filter_empty_conv inModule_def)

lemma filter_own: "ownTests m \<Longrightarrow> filter (inModule (moduleListKey m)) (mt_tests m) = mt_tests m"
  by (simp add: ownTests_def list_all_iff)

lemma filter_flat:
  "tidy ms \<Longrightarrow> filter (inModule key) (flat_map (\<lambda>(_, m). mt_tests m) ms) =
     (case map_of ms key of None \<Rightarrow> [] | Some m \<Rightarrow> mt_tests m)"
proof (induction ms)
  case Nil
  then show ?case by simp
next
  case (Cons p ms)
  obtain k m where p: "p = (k, m)" by (cases p)
  have t: "tidy ms" "moduleListKey m = k" "ownTests m" "k \<notin> set (keys ms)"
    using Cons.prems p by (auto simp: tidy_def)
  show ?case
  proof (cases "k = key")
    case True
    then have "map_of ms key = None" using t(4) by (simp add: in_keys_iff)
    then show ?thesis using Cons.IH [OF t(1)] t(2,3) True filter_own [of m] by (simp add: p)
  next
    case False
    then show ?thesis using Cons.IH [OF t(1)] t(2,3) filter_other [of m key] by (simp add: p)
  qed
qed

lemma keys_refreshed:
  "set (map moduleListKey changed) \<subseteq> set (keys ms) \<Longrightarrow> keys (refreshedModules ms changed) = keys ms"
  unfolding refreshedModules_def
  by (induction changed arbitrary: ms) (auto simp: keys_jset)

lemma refreshed_get:
  "map_of (refreshedModules ms changed) key =
     (case find (\<lambda>l. moduleListKey l = key) (rev changed) of Some l \<Rightarrow> Some l | None \<Rightarrow> map_of ms key)"
  unfolding refreshedModules_def using alist.get_fold_put [of moduleListKey "\<lambda>l. l" changed ms key] by simp

text \<open>The list a module reads with once the collected lists replaced their own.\<close>

definition refreshedList :: "DiscoveredTest list \<Rightarrow> ModuleTests list \<Rightarrow> string \<Rightarrow> DiscoveredTest list" where
  "refreshedList ts given key =
     (case find (\<lambda>l. moduleListKey l = key \<and> mt_tests l \<noteq> [] \<and> mt_tests l \<noteq> filter (inModule key) ts) (rev given) of
        Some l \<Rightarrow> mt_tests l
      | None \<Rightarrow> filter (inModule key) ts)"

lemma find_filter: "find P (filter Q xs) = find (\<lambda>x. Q x \<and> P x) xs"
  by (induction xs) auto

lemma changed_find:
  assumes "filter (inModule key) ts \<noteq> []"
  shows "find (\<lambda>l. moduleListKey l = key) (rev (changedLists (testsByModule ts) given)) =
     find (\<lambda>l. moduleListKey l = key \<and> mt_tests l \<noteq> [] \<and> mt_tests l \<noteq> filter (inModule key) ts) (rev given)"
proof -
  have held: "\<exists>m. map_of (testsByModule ts) key = Some m \<and> mt_tests m = filter (inModule key) ts"
    using testsByModule_get [of ts key] assms by (auto split: if_splits)
  have "(case map_of (testsByModule ts) (moduleListKey l) of None \<Rightarrow> False
        | Some h \<Rightarrow> mt_tests l \<noteq> [] \<and> listSignature (mt_tests h) \<noteq> listSignature (mt_tests l)) \<and>
        moduleListKey l = key \<longleftrightarrow>
      moduleListKey l = key \<and> mt_tests l \<noteq> [] \<and> mt_tests l \<noteq> filter (inModule key) ts" for l :: ModuleTests
    using held by (auto simp: listSignature_inj)
  then show ?thesis
    by (simp only: changedLists_def rev_filter find_filter)
qed

section \<open>Property\<close>

text \<open>
  C18. Replacing lists keeps every entry but the workspace's own and every module the workspace
  lists; each module then reads with the last collected list that holds a test and differs from its
  own, and with its own list otherwise.
\<close>

theorem withModuleLists_refreshes:
  assumes own: "list_all ownTests given"
    and result: "withModuleLists discovery path given = Some replaced"
  shows "\<exists>index entry refreshed.
     findIndexEntry path (td_workspaces discovery) = Some (index, WsDiscovered entry) \<and>
     rl_discovery replaced = discovery\<lparr>td_workspaces := (td_workspaces discovery)[index := WsDiscovered refreshed]\<rparr> \<and>
     refreshed = entry\<lparr>dw_tests := dw_tests refreshed\<rparr> \<and>
     set (keys (testsByModule (dw_tests refreshed))) = set (keys (testsByModule (dw_tests entry))) \<and>
     list_all (\<lambda>key. filter (inModule key) (dw_tests refreshed) = refreshedList (dw_tests entry) given key)
       (keys (testsByModule (dw_tests entry)))"
proof -
  from result obtain index entry where f: "findIndexEntry path (td_workspaces discovery) = Some (index, WsDiscovered entry)"
    by (auto simp: withModuleLists_def split: option.splits WorkspaceDiscovery.splits)
  define ts where "ts = dw_tests entry"
  define changed where "changed = changedLists (testsByModule ts) given"
  define ms where "ms = refreshedModules (testsByModule ts) changed"
  define refreshed where "refreshed = entry\<lparr>dw_tests := flat_map (\<lambda>(_, m). mt_tests m) ms\<rparr>"
  have r: "rl_discovery replaced = discovery\<lparr>td_workspaces := (td_workspaces discovery)[index := WsDiscovered refreshed]\<rparr>"
    using result by (auto simp: withModuleLists_def f Let_def ts_def changed_def ms_def refreshed_def split: if_splits)
  have sub: "set (map moduleListKey changed) \<subseteq> set (keys (testsByModule ts))"
    by (auto simp: changed_def changedLists_def in_keys_iff split: option.splits)
  have tidy: "tidy ms"
    unfolding ms_def
    by (rule tidy_refreshed [OF tidy_testsByModule])
       (use own in \<open>auto simp: changed_def changedLists_def list_all_iff split: option.splits\<close>)
  have keys: "keys ms = keys (testsByModule ts)"
    unfolding ms_def by (rule keys_refreshed [OF sub])
  have filt: "filter (inModule key) (dw_tests refreshed) = (case map_of ms key of None \<Rightarrow> [] | Some m \<Rightarrow> mt_tests m)"
    for key by (simp add: refreshed_def filter_flat [OF tidy])
  have nonempty: "key \<in> set (keys (testsByModule us)) \<longleftrightarrow> filter (inModule key) us \<noteq> []" for key us
    using testsByModule_get [of us key] by (auto simp: in_keys_iff split: if_splits)
  have given: "filter (inModule key) (dw_tests refreshed) = refreshedList ts given key"
    if key: "key \<in> set (keys (testsByModule ts))" for key
  proof -
    have ne: "filter (inModule key) ts \<noteq> []" using key nonempty by blast
    have own': "\<exists>m. map_of (testsByModule ts) key = Some m \<and> mt_tests m = filter (inModule key) ts"
      using testsByModule_get [of ts key] ne by (auto split: if_splits)
    show ?thesis
      unfolding filt refreshedList_def ms_def refreshed_get changed_def changed_find [OF ne]
      using own' by (auto split: option.splits)
  qed
  have "set (keys (testsByModule (dw_tests refreshed))) = set (keys ms)"
  proof (rule set_eqI)
    fix key
    have "key \<in> set (keys (testsByModule (dw_tests refreshed))) \<longleftrightarrow>
        (case map_of ms key of None \<Rightarrow> False | Some m \<Rightarrow> mt_tests m \<noteq> [])"
      unfolding nonempty filt by (simp split: option.splits)
    also have "\<dots> \<longleftrightarrow> key \<in> set (keys ms)"
      using tidy by (auto simp: tidy_def in_keys_iff split: option.splits dest!: map_of_mem)
    finally show "key \<in> set (keys (testsByModule (dw_tests refreshed))) \<longleftrightarrow> key \<in> set (keys ms)" .
  qed
  then show ?thesis
    using f r keys given
    by (intro exI [of _ index] exI [of _ entry] exI [of _ refreshed])
       (simp add: ts_def [symmetric] list_all_iff, simp add: refreshed_def)
qed

definition sampleListed :: "nat \<Rightarrow> DiscoveredTest" where
  "sampleListed n =
     \<lparr>it_identity = \<lparr>workspacePath = ''.'', projectName = ''p'', modulePath = ''a.test.ts'',
        namePath = [''t''], occurrence = n\<rparr>, it_isDuplicate = False, dt_mode = ''run''\<rparr>"

definition sampleDiscovery :: TestDiscovery where
  "sampleDiscovery =
     \<lparr>td_workspaces = [WsDiscovered \<lparr>dw_workspace = \<lparr>ws_path = ''.'', ws_directory = ''/r''\<rparr>,
        dw_vitestVersion = ''3.2.4'', dw_tests = [sampleListed 0], dw_failedModules = [],
        dw_typecheckModules = [], dw_unsupportedProjects = [], dw_unhandledErrors = [],
        dw_selectionFacts = FactsNotReported, dw_closeError = None\<rparr>],
      td_notRead = [], td_notCovered = None\<rparr>"

definition sampleLists :: "ModuleTests list" where
  "sampleLists = [\<lparr>mr_projectName = ''p'', mr_modulePath = ''a.test.ts'',
     mt_tests = [sampleListed 0, sampleListed 1]\<rparr>]"

lemma sampleLists_own: "list_all ownTests sampleLists"
  by (simp add: sampleLists_def ownTests_def sampleListed_def inModule_def moduleListKey_def)

lemma sample_replaced: "\<exists>replaced. withModuleLists sampleDiscovery ''.'' sampleLists = Some replaced"
proof -
  have "map_of (testsByModule [sampleListed 0]) (moduleKey ''p'' ''a.test.ts'') =
      Some \<lparr>mr_projectName = ''p'', mr_modulePath = ''a.test.ts'', mt_tests = [sampleListed 0]\<rparr>"
    by (simp add: testsByModule_def addToModule_def sampleListed_def)
  then show ?thesis
    by (simp add: withModuleLists_def sampleDiscovery_def changedLists_def sampleLists_def
        moduleListKey_def listSignature_inj Let_def)
qed

text \<open>A run that collected a second test of a module refreshes the module's list.\<close>

theorem withModuleLists_refreshes_witness:
  "\<exists>replaced. withModuleLists sampleDiscovery ''.'' sampleLists = Some replaced \<and>
     (\<exists>index entry. findIndexEntry ''.'' (td_workspaces sampleDiscovery) = Some (index, WsDiscovered entry))"
  using sample_replaced withModuleLists_refreshes [OF sampleLists_own] by metis

end
