(* ===== verification/ChangeJournal.thy ===== *)
theory ChangeJournal
  imports Records
begin

text \<open>
  The journal of what changed between two moments (\<^verbatim>\<open>daemon/change-journal.ts\<close>). Its life, the
  random prefix of its cursors, is a field the constructor is given. The history a cursor points
  into is not kept by the code; the properties compare what \<open>since\<close> answers with the standings the
  journal held when it issued the cursor.
\<close>

section \<open>Standings\<close>

datatype RecordedStanding =
    RecordedTestStanding TestIdentity TestState Freshness
  | RecordedEntry NotDiscoveredEntry

fun same :: "RecordedStanding option \<Rightarrow> RecordedStanding option \<Rightarrow> bool" where
  "same None None = True"
| "same None (Some _) = False"
| "same (Some _) None = False"
| "same (Some (RecordedEntry _)) (Some (RecordedEntry _)) = True"
| "same (Some (RecordedEntry _)) (Some (RecordedTestStanding _ _ _)) = False"
| "same (Some (RecordedTestStanding _ _ _)) (Some (RecordedEntry _)) = False"
| "same (Some (RecordedTestStanding _ s f)) (Some (RecordedTestStanding _ s' f')) = (s = s' \<and> f = f')"

definition testKey :: "TestIdentity \<Rightarrow> string" where
  "testKey identity = ''test:'' @ testIdentityKey identity"

definition jsonOrNull :: "string option \<Rightarrow> json" where
  "jsonOrNull s = (case s of None \<Rightarrow> JNull | Some t \<Rightarrow> JStr t)"

definition entryKey :: "NotDiscoveredEntry \<Rightarrow> string" where
  "entryKey entry = ''entry:'' @ stringify (JArr
     [JStr (ne_kind entry), jsonOrNull (ne_workspacePath entry), jsonOrNull (ne_projectName entry),
      jsonOrNull (ne_modulePath entry), jsonOrNull (ne_source entry)])"

section \<open>The journal\<close>

definition MAX_RECORDED_CHANGES :: nat where
  "MAX_RECORDED_CHANGES = 100000"

record RecordedChange =
  rc_sequence :: nat
  rc_key :: string
  rc_before :: "RecordedStanding option"

record ChangeJournal =
  cj_life :: string
  cj_sequence :: nat
  cj_latest :: "(string, RecordedStanding) jsmap"
  cj_changes :: "RecordedChange list"
  cj_dropped :: nat

definition newJournal :: "string \<Rightarrow> ChangeJournal" where
  "newJournal life =
     \<lparr>cj_life = life, cj_sequence = 0, cj_latest = [], cj_changes = [], cj_dropped = 0\<rparr>"

text \<open>
  \<open>dropUnneeded\<close>: the outer loop stops once fewer than the maximum are left, the inner one drops a
  whole sequence; what is left and the latest dropped sequence are its state.
\<close>

function dropLoop :: "RecordedChange list \<Rightarrow> nat \<Rightarrow> RecordedChange list \<times> nat" where
  "dropLoop changes dropped =
     (if length changes \<ge> MAX_RECORDED_CHANGES then
        (case changes of
           [] \<Rightarrow> (changes, dropped)
         | oldest # _ \<Rightarrow>
             dropLoop (dropWhile (\<lambda>c. rc_sequence c = rc_sequence oldest) changes) (rc_sequence oldest))
      else (changes, dropped))"
  by auto

termination
proof (relation "measure (\<lambda>(changes, dropped). length changes)")
  fix changes :: "RecordedChange list" and dropped oldest rest
  assume "changes = oldest # rest"
  then show "((dropWhile (\<lambda>c. rc_sequence c = rc_sequence oldest) changes, rc_sequence oldest), (changes, dropped))
      \<in> measure (\<lambda>(changes, dropped). length changes)"
    using length_dropWhile_le [of "\<lambda>c. rc_sequence c = rc_sequence oldest" rest]
    by (simp add: less_Suc_eq_le)
qed simp

declare dropLoop.simps [simp del]

definition dropUnneeded :: "ChangeJournal \<Rightarrow> ChangeJournal" where
  "dropUnneeded j =
     (let (changes, dropped) = dropLoop (cj_changes j) (cj_dropped j)
      in j\<lparr>cj_changes := changes, cj_dropped := dropped\<rparr>)"

definition cursorOf :: "ChangeJournal \<Rightarrow> nat \<Rightarrow> string" where
  "cursorOf j sequence = cj_life j @ ''.'' @ show_nat sequence"

definition nextStandings :: "TestStanding list \<Rightarrow> NotDiscoveredEntry list \<Rightarrow> (string, RecordedStanding) jsmap" where
  "nextStandings standings entries =
     fold (\<lambda>e. jset (entryKey e) (RecordedEntry e)) entries
       (fold (\<lambda>s. jset (testKey (it_identity (ts_test s)))
            (RecordedTestStanding (it_identity (ts_test s)) (ts_state s) (ts_freshness s))) standings [])"

definition changedKeys :: "(string, RecordedStanding) jsmap \<Rightarrow> (string, RecordedStanding) jsmap \<Rightarrow> string list" where
  "changedKeys latest next =
     map fst (filter (\<lambda>(key, now). \<not> same (map_of latest key) (Some now)) next) @
     filter (\<lambda>key. \<not> jhas next key) (keys latest)"

definition recordNext :: "(string, RecordedStanding) jsmap \<Rightarrow> ChangeJournal \<Rightarrow> string \<times> ChangeJournal" where
  "recordNext next j =
     (let changed = changedKeys (cj_latest j) next;
          j1 = (if cj_sequence j = 0 then j\<lparr>cj_sequence := 1\<rparr>
                else if changed \<noteq> [] then
                  (let sequence = cj_sequence j + 1 in
                   j\<lparr>cj_sequence := sequence,
                     cj_changes := cj_changes j @ map (\<lambda>key.
                       \<lparr>rc_sequence = sequence, rc_key = key, rc_before = map_of (cj_latest j) key\<rparr>) changed\<rparr>)
                else j);
          j2 = dropUnneeded (j1\<lparr>cj_latest := next\<rparr>)
      in (cursorOf j2 (cj_sequence j2), j2))"

definition recordMoment :: "TestStanding list \<Rightarrow> NotDiscoveredEntry list \<Rightarrow> ChangeJournal \<Rightarrow> string \<times> ChangeJournal" where
  "recordMoment standings entries j = recordNext (nextStandings standings entries) j"

definition latestCursor :: "ChangeJournal \<Rightarrow> string option" where
  "latestCursor j = (if cj_sequence j = 0 then None else Some (cursorOf j (cj_sequence j)))"

section \<open>Reading a cursor\<close>

text \<open>\<^verbatim>\<open>lastIndexOf\<close>: what stands before and after the last separator.\<close>

definition splitLast :: "char \<Rightarrow> string \<Rightarrow> (string \<times> string) option" where
  "splitLast c s =
     (if c \<in> set s
      then Some (rev (tl (dropWhile (\<lambda>x. x \<noteq> c) (rev s))), rev (takeWhile (\<lambda>x. x \<noteq> c) (rev s)))
      else None)"

text \<open>\<^verbatim>\<open>/^[1-9][0-9]*$/\<close>.\<close>

definition sequenceForm :: "string \<Rightarrow> bool" where
  "sequenceForm s = (s \<noteq> [] \<and> list_all is_digit s \<and> hd s \<noteq> CHR ''0'')"

definition sequenceOf :: "ChangeJournal \<Rightarrow> string \<Rightarrow> nat option" where
  "sequenceOf j cursor =
     (case splitLast CHR ''.'' cursor of
        None \<Rightarrow> None
      | Some (life, digits) \<Rightarrow>
          (if life \<noteq> cj_life j then None
           else if \<not> sequenceForm digits then None
           else let sequence = read_digits 0 digits in
             if sequence \<le> cj_sequence j then Some sequence else None))"

datatype 'a CursorReading = Used 'a | NoneGiven | NotIssued | Expired

definition usable :: "string option \<Rightarrow> ChangeJournal \<Rightarrow> nat CursorReading" where
  "usable cursor j =
     (case cursor of
        None \<Rightarrow> NoneGiven
      | Some c \<Rightarrow>
          (case sequenceOf j c of
             None \<Rightarrow> NotIssued
           | Some sequence \<Rightarrow> (if sequence < cj_dropped j then Expired else Used sequence)))"

record NetChange =
  nc_key :: string
  nc_atCursor :: "RecordedStanding option"
  nc_now :: "RecordedStanding option"

definition noteFirst :: "nat \<Rightarrow> RecordedChange \<Rightarrow> (string, RecordedStanding option) jsmap \<Rightarrow>
    (string, RecordedStanding option) jsmap" where
  "noteFirst sequence c m =
     (if rc_sequence c > sequence \<and> \<not> jhas m (rc_key c) then jset (rc_key c) (rc_before c) m else m)"

definition firstBefore :: "nat \<Rightarrow> RecordedChange list \<Rightarrow> (string, RecordedStanding option) jsmap" where
  "firstBefore sequence changes =
     fold (noteFirst sequence) changes []"

definition since :: "string option \<Rightarrow> ChangeJournal \<Rightarrow> NetChange list CursorReading" where
  "since cursor j =
     (case usable cursor j of
        Used sequence \<Rightarrow>
          Used (map (\<lambda>(key, before). \<lparr>nc_key = key, nc_atCursor = before, nc_now = map_of (cj_latest j) key\<rparr>)
                 (filter (\<lambda>(key, before). \<not> same before (map_of (cj_latest j) key))
                   (firstBefore sequence (cj_changes j))))
      | NoneGiven \<Rightarrow> NoneGiven
      | NotIssued \<Rightarrow> NotIssued
      | Expired \<Rightarrow> Expired)"

section \<open>Lemmas\<close>

lemma same_refl [simp]: "same a a"
  by (cases "(a, a)" rule: same.cases) auto

lemma same_sym: "same a b \<Longrightarrow> same b a"
  by (cases "(a, b)" rule: same.cases) auto

lemma same_trans: "same a b \<Longrightarrow> same b c \<Longrightarrow> same a c"
  by (cases "(a, b)" rule: same.cases; cases "(b, c)" rule: same.cases) auto

lemma same_None [simp]: "same None b \<longleftrightarrow> b = None" "same a None \<longleftrightarrow> a = None"
  by (cases a; cases b; auto)+

subsection \<open>Cursors\<close>

lemma splitLast_append: "c \<notin> set b \<Longrightarrow> splitLast c (a @ c # b) = Some (a, b)"
  by (simp add: splitLast_def) (simp add: dropWhile_append takeWhile_append)

lemma show_nat_no_dot: "CHR ''.'' \<notin> set (show_nat n)"
  using show_nat_digits [of n] by (auto simp: is_digit_def)

lemma show_nat_hd_zero: "n \<noteq> 0 \<Longrightarrow> hd (show_nat n) \<noteq> CHR ''0''"
proof (induction n rule: show_nat.induct)
  case (1 n)
  show ?case
  proof (cases "n < 10")
    case True
    then have "n \<in> {1, 2, 3, 4, 5, 6, 7, 8, 9}" using 1(2) by auto
    then show ?thesis by (auto simp: show_nat.simps [of n] char_of_def)
  next
    case False
    then have "n div 10 \<noteq> 0" by simp
    with 1(1) [OF False] False show ?thesis
      by (simp add: show_nat.simps [of n] hd_append)
  qed
qed

lemma sequenceForm_show: "n \<noteq> 0 \<Longrightarrow> sequenceForm (show_nat n)"
  using show_nat_digits [of n] show_nat_hd_zero [of n] by (simp add: sequenceForm_def list_all_iff)

lemma sequenceOf_cursor:
  "0 < s \<Longrightarrow> cj_life j = cj_life j' \<Longrightarrow>
     sequenceOf j (cursorOf j' s) = (if s \<le> cj_sequence j then Some s else None)"
  using splitLast_append [OF show_nat_no_dot [of s], of "cj_life j'"]
  by (simp add: sequenceOf_def cursorOf_def sequenceForm_show read_show_nat)

subsection \<open>The first change of a key after a sequence\<close>

lemma firstBefore_fold:
  "map_of (fold (noteFirst s) cs m) key =
     (case map_of m key of
        Some b \<Rightarrow> Some b
      | None \<Rightarrow> map_option rc_before (find (\<lambda>c. rc_sequence c > s \<and> rc_key c = key) cs))"
proof (induction cs arbitrary: m)
  case Nil
  then show ?case by (simp split: option.splits)
next
  case (Cons c cs)
  have "map_of (noteFirst s c m) key =
      (case map_of m key of
         Some b \<Rightarrow> Some b
       | None \<Rightarrow> if rc_sequence c > s \<and> rc_key c = key then Some (rc_before c) else None)"
    by (auto simp: noteFirst_def in_keys_iff split: option.splits)
  then show ?case by (simp add: Cons split: option.splits)
qed

lemma wf_firstBefore_fold:
  "wf_map m \<Longrightarrow>
     wf_map (fold (noteFirst s) cs m)"
  by (induction cs arbitrary: m) (auto simp: noteFirst_def)

lemma firstBefore_get:
  "map_of (firstBefore s cs) key = map_option rc_before (find (\<lambda>c. rc_sequence c > s \<and> rc_key c = key) cs)"
  by (simp add: firstBefore_def firstBefore_fold)

lemma wf_firstBefore: "wf_map (firstBefore s cs)"
  by (simp add: firstBefore_def wf_firstBefore_fold)

subsection \<open>What the journal keeps of the past\<close>

text \<open>
  \<open>past s\<close> is what the journal held at sequence \<open>s\<close>, up to \<open>same\<close>: the standing before the
  key's first later change, or the latest one.
\<close>

definition pastOf :: "ChangeJournal \<Rightarrow> nat \<Rightarrow> string \<Rightarrow> RecordedStanding option" where
  "pastOf j s key =
     (case find (\<lambda>c. rc_sequence c > s \<and> rc_key c = key) (cj_changes j) of
        Some c \<Rightarrow> rc_before c
      | None \<Rightarrow> map_of (cj_latest j) key)"

definition journalInv :: "ChangeJournal \<Rightarrow> bool" where
  "journalInv j =
     (sorted (map rc_sequence (cj_changes j)) \<and>
      (\<forall>c \<in> set (cj_changes j). cj_dropped j < rc_sequence c \<and> rc_sequence c \<le> cj_sequence j) \<and>
      cj_dropped j \<le> cj_sequence j \<and> (cj_sequence j = 0 \<longrightarrow> cj_changes j = []) \<and> wf_map (cj_latest j))"

lemma since_pastOf:
  "since (Some (cursorOf j' s)) j =
     (if cj_sequence j < s then NotIssued
      else if s < cj_dropped j then Expired
      else Used (map (\<lambda>(key, before). \<lparr>nc_key = key, nc_atCursor = before, nc_now = map_of (cj_latest j) key\<rparr>)
             (filter (\<lambda>(key, before). \<not> same before (map_of (cj_latest j) key)) (firstBefore s (cj_changes j)))))"
  if "0 < s" "cj_life j = cj_life j'"
  using sequenceOf_cursor [OF that] by (auto simp: since_def usable_def)

lemma later_after_drop:
  "sorted (map rc_sequence (oldest # rest)) \<Longrightarrow>
     c \<in> set (dropWhile (\<lambda>c. rc_sequence c = rc_sequence oldest) rest) \<Longrightarrow> rc_sequence oldest < rc_sequence c"
proof (induction rest)
  case (Cons y rest)
  show ?case
  proof (cases "rc_sequence y = rc_sequence oldest")
    case True
    then show ?thesis using Cons by simp
  next
    case False
    then have "rc_sequence oldest < rc_sequence y" "rc_sequence y \<le> rc_sequence c"
      using Cons.prems by auto
    then show ?thesis by simp
  qed
qed simp

lemma in_keys_filter:
  "wf_map m \<Longrightarrow> key \<in> set (keys (filter (\<lambda>(k, v). P k v) m)) \<longleftrightarrow> (\<exists>v. map_of m key = Some v \<and> P key v)"
  by (auto simp: in_keys_iff map_of_filter_wf split: option.splits)

lemma dropLoop_suffix:
  "dropLoop cs d = (cs', d') \<Longrightarrow> sorted (map rc_sequence cs) \<Longrightarrow>
     (\<exists>dropped. cs = dropped @ cs' \<and> (\<forall>c \<in> set dropped. rc_sequence c \<le> d') \<and>
        (cs' = cs \<and> d' = d \<or> d' \<in> rc_sequence ` set dropped) \<and> (\<forall>c \<in> set cs'. d' < rc_sequence c \<or> d' = d \<and> cs' = cs)) \<and>
     length cs' < MAX_RECORDED_CHANGES"
proof (induction cs d arbitrary: cs' d' rule: dropLoop.induct)
  case (1 cs d)
  show ?case
  proof (cases "length cs \<ge> MAX_RECORDED_CHANGES")
    case False
    then show ?thesis using "1.prems" by (subst (asm) dropLoop.simps) auto
  next
    case True
    then obtain oldest rest where cs: "cs = oldest # rest"
      by (cases cs) (auto simp: MAX_RECORDED_CHANGES_def)
    let ?P = "\<lambda>c. rc_sequence c = rc_sequence oldest"
    let ?ds = "dropWhile ?P cs"
    have step: "dropLoop ?ds (rc_sequence oldest) = (cs', d')"
      using "1.prems"(1) True cs by (subst (asm) dropLoop.simps) simp
    have sorted: "sorted (map rc_sequence ?ds)"
      using "1.prems"(2) by (simp add: dropWhile_eq_drop drop_map [symmetric] sorted_wrt_drop)
    from "1.IH" [OF True cs step sorted] obtain dropped where d: "?ds = dropped @ cs'"
        "\<forall>c \<in> set dropped. rc_sequence c \<le> d'"
        "cs' = ?ds \<and> d' = rc_sequence oldest \<or> d' \<in> rc_sequence ` set dropped"
        "\<forall>c \<in> set cs'. d' < rc_sequence c \<or> d' = rc_sequence oldest \<and> cs' = ?ds"
      and len: "length cs' < MAX_RECORDED_CHANGES" by blast
    have split: "cs = (takeWhile ?P cs @ dropped) @ cs'"
      using d(1) by (metis append_assoc takeWhile_dropWhile_id)
    have tw: "\<forall>c \<in> set (takeWhile ?P cs). rc_sequence c = rc_sequence oldest"
      by (auto dest: set_takeWhileD)
    have oldest: "oldest \<in> set (takeWhile ?P cs)" by (simp add: cs)
    have le: "rc_sequence oldest \<le> d'"
    proof -
      have "rc_sequence oldest \<le> rc_sequence c" if "c \<in> set cs" for c
        using "1.prems"(2) cs that by auto
      moreover have "set dropped \<subseteq> set cs" using split by (metis le_sup_iff set_append subset_refl)
      ultimately show ?thesis using d(3) by auto
    qed
    have later: "d' < rc_sequence c" if c: "c \<in> set cs'" for c
    proof (cases "d' = rc_sequence oldest \<and> cs' = ?ds")
      case True
      then have "c \<in> set (dropWhile ?P rest)" using c by (simp add: cs)
      then show ?thesis using True later_after_drop [of oldest rest c] "1.prems"(2) cs by simp
    next
      case False
      then show ?thesis using d(4) c by blast
    qed
    have c1: "d' \<in> rc_sequence ` set (takeWhile ?P cs @ dropped)"
      using d(3) oldest by auto
    have c2: "\<forall>c \<in> set (takeWhile ?P cs @ dropped). rc_sequence c \<le> d'"
    proof
      fix c assume "c \<in> set (takeWhile ?P cs @ dropped)"
      then have "c \<in> set (takeWhile ?P cs) \<or> c \<in> set dropped" by (simp del: set_takeWhileD)
      then show "rc_sequence c \<le> d'" using tw d(2) le by metis
    qed
    have c3: "\<forall>c \<in> set cs'. d' < rc_sequence c \<or> d' = d \<and> cs' = cs"
      using later by blast
    show ?thesis
      by (rule conjI [OF exI [of _ "takeWhile ?P cs @ dropped"] len], intro conjI)
        (rule split c2 disjI2 [OF c1] c3)+
  qed
qed

text \<open>Journals reached by recording moments.\<close>

fun recordAll :: "(TestStanding list \<times> NotDiscoveredEntry list) list \<Rightarrow> ChangeJournal \<Rightarrow> ChangeJournal" where
  "recordAll [] j = j"
| "recordAll ((standings, entries) # rest) j = recordAll rest (snd (recordMoment standings entries j))"

lemma wf_nextStandings [simp]: "wf_map (nextStandings standings entries)"
  by (simp add: nextStandings_def alist.wf_fold_put)

definition bumped :: "(string, RecordedStanding) jsmap \<Rightarrow> ChangeJournal \<Rightarrow> ChangeJournal" where
  "bumped next j =
     (let changed = changedKeys (cj_latest j) next in
      if cj_sequence j = 0 then j\<lparr>cj_sequence := 1\<rparr>
      else if changed \<noteq> [] then
        (let sequence = cj_sequence j + 1 in
         j\<lparr>cj_sequence := sequence,
           cj_changes := cj_changes j @ map (\<lambda>key.
             \<lparr>rc_sequence = sequence, rc_key = key, rc_before = map_of (cj_latest j) key\<rparr>) changed\<rparr>)
      else j)\<lparr>cj_latest := next\<rparr>"

lemma recordNext_bumped: "snd (recordNext next j) = dropUnneeded (bumped next j)"
  by (simp add: recordNext_def bumped_def Let_def)

lemma bumped_inv: "journalInv j \<Longrightarrow> wf_map next \<Longrightarrow> journalInv (bumped next j)"
  by (auto simp: journalInv_def bumped_def Let_def sorted_append comp_def less_Suc_eq_le
      map_replicate_const intro: le_SucI)

lemma dropUnneeded_simps [simp]:
  "cj_life (dropUnneeded j) = cj_life j" "cj_sequence (dropUnneeded j) = cj_sequence j"
  "cj_latest (dropUnneeded j) = cj_latest j"
  by (simp_all add: dropUnneeded_def split: prod.splits)

lemma find_append_none: "find P (xs @ ys) = (case find P xs of None \<Rightarrow> find P ys | Some x \<Rightarrow> Some x)"
  by (induction xs) auto

lemma dropUnneeded_inv:
  assumes inv: "journalInv j"
  shows "journalInv (dropUnneeded j)" "length (cj_changes (dropUnneeded j)) < MAX_RECORDED_CHANGES"
    "cj_dropped j \<le> cj_dropped (dropUnneeded j)"
    "cj_dropped (dropUnneeded j) \<le> s \<Longrightarrow> pastOf (dropUnneeded j) s = pastOf j s"
proof -
  obtain cs d where l: "dropLoop (cj_changes j) (cj_dropped j) = (cs, d)" by fastforce
  from dropLoop_suffix [OF l] inv obtain dropped where d: "cj_changes j = dropped @ cs"
      "\<forall>c \<in> set dropped. rc_sequence c \<le> d"
      "cs = cj_changes j \<and> d = cj_dropped j \<or> d \<in> rc_sequence ` set dropped"
      "\<forall>c \<in> set cs. d < rc_sequence c \<or> d = cj_dropped j \<and> cs = cj_changes j"
    and len: "length cs < MAX_RECORDED_CHANGES" by (auto simp: journalInv_def)
  have u: "cj_changes (dropUnneeded j) = cs" "cj_dropped (dropUnneeded j) = d"
    by (simp_all add: dropUnneeded_def l)
  show "journalInv (dropUnneeded j)"
    using inv d by (auto simp: journalInv_def u sorted_append)
  show "length (cj_changes (dropUnneeded j)) < MAX_RECORDED_CHANGES" using len by (simp add: u)
  show "cj_dropped j \<le> cj_dropped (dropUnneeded j)"
    using inv d by (auto simp: journalInv_def u less_imp_le)
  assume "cj_dropped (dropUnneeded j) \<le> s"
  then have "find (\<lambda>c. rc_sequence c > s \<and> rc_key c = key) dropped = None" for key
    using d(2) by (auto simp: find_None_iff u)
  then have "find (\<lambda>c. rc_sequence c > s \<and> rc_key c = key) (cj_changes j) =
      find (\<lambda>c. rc_sequence c > s \<and> rc_key c = key) cs" for key
    unfolding d(1) by (simp add: find_append_none)
  then show "pastOf (dropUnneeded j) s = pastOf j s"
    unfolding pastOf_def [abs_def] u(1) dropUnneeded_simps by presburger
qed

lemma changedKeys_mem:
  assumes "wf_map next" "wf_map latest"
  shows "key \<in> set (changedKeys latest next) \<longleftrightarrow> \<not> same (map_of latest key) (map_of next key)"
proof -
  have "key \<in> set (map fst (filter (\<lambda>(key, now). \<not> same (map_of latest key) (Some now)) next)) \<longleftrightarrow>
      (\<exists>now. map_of next key = Some now \<and> \<not> same (map_of latest key) (Some now))"
    using in_keys_filter [OF assms(1), of key "\<lambda>key now. \<not> same (map_of latest key) (Some now)"]
    by (simp add: keys_def)
  then show ?thesis
    unfolding changedKeys_def set_append Un_iff
    by (cases "map_of next key") (auto simp: in_keys_iff)
qed

text \<open>A moment recorded leaves every earlier past as it was, up to \<open>same\<close>.\<close>

lemma bumped_past:
  assumes inv: "journalInv j" and wf: "wf_map next" and s: "0 < s" "s \<le> cj_sequence j"
  shows "same (pastOf (bumped next j) s key) (pastOf j s key)"
proof (cases "find (\<lambda>c. rc_sequence c > s \<and> rc_key c = key) (cj_changes j)")
  case (Some c)
  then have "pastOf (bumped next j) s key = rc_before c" "pastOf j s key = rc_before c"
    using s by (auto simp: bumped_def Let_def pastOf_def find_append_none)
  then show ?thesis by simp
next
  case None
  define changed where "changed = changedKeys (cj_latest j) next"
  have mem: "key \<in> set changed \<longleftrightarrow> \<not> same (map_of (cj_latest j) key) (map_of next key)"
    using wf inv by (simp add: changed_def changedKeys_mem journalInv_def)
  have new: "find (\<lambda>c. rc_sequence c > s \<and> rc_key c = key)
      (map (\<lambda>key. \<lparr>rc_sequence = Suc (cj_sequence j), rc_key = key, rc_before = map_of (cj_latest j) key\<rparr>) ks) =
      (if key \<in> set ks then Some \<lparr>rc_sequence = Suc (cj_sequence j), rc_key = key,
         rc_before = map_of (cj_latest j) key\<rparr> else None)" for ks
    using s by (induction ks) auto
  show ?thesis
  proof (cases "key \<in> set changed")
    case True
    then have "changed \<noteq> []" by auto
    then have "pastOf (bumped next j) s key = map_of (cj_latest j) key"
      using None True s by (simp add: bumped_def Let_def pastOf_def find_append_none changed_def [symmetric] new)
    then show ?thesis using None by (simp add: pastOf_def)
  next
    case False
    then have "pastOf (bumped next j) s key = map_of next key"
      using None s by (simp add: bumped_def Let_def pastOf_def find_append_none changed_def [symmetric] new)
    then show ?thesis using None False mem by (simp add: pastOf_def same_sym)
  qed
qed

lemma recordMoment_step:
  assumes inv: "journalInv j"
  shows "journalInv (snd (recordMoment standings entries j))"
    and "cj_life (snd (recordMoment standings entries j)) = cj_life j"
    and "cj_sequence j \<le> cj_sequence (snd (recordMoment standings entries j))"
    and "0 < cj_sequence (snd (recordMoment standings entries j))"
    and "length (cj_changes (snd (recordMoment standings entries j))) < MAX_RECORDED_CHANGES"
    and "cj_dropped j \<le> cj_dropped (snd (recordMoment standings entries j))"
    and "0 < s \<Longrightarrow> s \<le> cj_sequence j \<Longrightarrow> cj_dropped (snd (recordMoment standings entries j)) \<le> s \<Longrightarrow>
       same (pastOf (snd (recordMoment standings entries j)) s key) (pastOf j s key)"
proof -
  let ?next = "nextStandings standings entries"
  have b: "journalInv (bumped ?next j)" by (rule bumped_inv [OF inv wf_nextStandings])
  have r: "snd (recordMoment standings entries j) = dropUnneeded (bumped ?next j)"
    by (simp add: recordMoment_def recordNext_bumped)
  note d = dropUnneeded_inv [OF b]
  show "journalInv (snd (recordMoment standings entries j))"
    "length (cj_changes (snd (recordMoment standings entries j))) < MAX_RECORDED_CHANGES"
    unfolding r using d(1,2) by simp_all
  show "cj_life (snd (recordMoment standings entries j)) = cj_life j"
    "cj_sequence j \<le> cj_sequence (snd (recordMoment standings entries j))"
    "0 < cj_sequence (snd (recordMoment standings entries j))"
    by (auto simp: r bumped_def Let_def)
  have "cj_dropped (bumped ?next j) = cj_dropped j" by (simp add: bumped_def Let_def)
  then show "cj_dropped j \<le> cj_dropped (snd (recordMoment standings entries j))"
    using d(3) by (simp add: r)
  assume "0 < s" "s \<le> cj_sequence j" "cj_dropped (snd (recordMoment standings entries j)) \<le> s"
  then show "same (pastOf (snd (recordMoment standings entries j)) s key) (pastOf j s key)"
    using d(4) bumped_past [OF inv wf_nextStandings] by (simp add: r)
qed

lemma recordAll_steps:
  "journalInv j \<Longrightarrow> journalInv (recordAll ms j) \<and> cj_life (recordAll ms j) = cj_life j \<and>
     cj_sequence j \<le> cj_sequence (recordAll ms j) \<and> cj_dropped j \<le> cj_dropped (recordAll ms j) \<and>
     (0 < s \<longrightarrow> s \<le> cj_sequence j \<longrightarrow> cj_dropped (recordAll ms j) \<le> s \<longrightarrow>
        same (pastOf (recordAll ms j) s key) (pastOf j s key))"
proof (induction ms arbitrary: j)
  case Nil
  then show ?case by simp
next
  case (Cons m ms)
  obtain standings entries where m: "m = (standings, entries)" by (cases m)
  note step = recordMoment_step [OF Cons.prems, where standings = standings and entries = entries]
  note IH = Cons.IH [OF step(1)]
  show ?case
    using IH step(2,3,6) step(7) [of s key] by (auto simp: m intro: same_trans le_trans)
qed

lemma newJournal_inv: "journalInv (newJournal life)"
  by (simp add: journalInv_def newJournal_def)

subsection \<open>What recording a moment adds and drops\<close>

lemma dropLoop_least:
  "dropLoop cs d = (cs', d') \<Longrightarrow> sorted (map rc_sequence cs) \<Longrightarrow>
     d' = d \<and> cs' = cs \<or> MAX_RECORDED_CHANGES \<le> length (filter (\<lambda>c. d' \<le> rc_sequence c) cs)"
proof (induction cs d arbitrary: cs' d' rule: dropLoop.induct)
  case (1 cs d)
  show ?case
  proof (cases "length cs \<ge> MAX_RECORDED_CHANGES")
    case False
    then show ?thesis using "1.prems" by (subst (asm) dropLoop.simps) auto
  next
    case True
    then obtain oldest rest where cs: "cs = oldest # rest"
      by (cases cs) (auto simp: MAX_RECORDED_CHANGES_def)
    let ?P = "\<lambda>c. rc_sequence c = rc_sequence oldest"
    have loop: "dropLoop (dropWhile ?P cs) (rc_sequence oldest) = (cs', d')"
      using "1.prems"(1) True by (subst (asm) dropLoop.simps) (simp add: cs)
    have sorted: "sorted (map rc_sequence (dropWhile ?P cs))"
      using "1.prems"(2) sorted_wrt_dropWhile by (simp add: sorted_map sorted_wrt_dropWhile)
    have more: "length (filter Q (dropWhile ?P cs)) \<le> length (filter Q cs)" for Q
      using filter_append [of Q "takeWhile ?P cs" "dropWhile ?P cs"] by simp
    have all: "filter (\<lambda>c. rc_sequence oldest \<le> rc_sequence c) cs = cs"
      using "1.prems"(2) by (auto simp: cs filter_id_conv)
    show ?thesis
      using "1.IH" [OF True cs loop sorted] True more [of "\<lambda>c. d' \<le> rc_sequence c"] by (auto simp: all)
  qed
qed

lemma dropUnneeded_kept:
  assumes inv: "journalInv j"
  shows "cj_changes (dropUnneeded j) = filter (\<lambda>c. cj_dropped (dropUnneeded j) < rc_sequence c) (cj_changes j)"
    and "length (cj_changes (dropUnneeded j)) < MAX_RECORDED_CHANGES"
    and "cj_dropped (dropUnneeded j) = cj_dropped j \<or>
      MAX_RECORDED_CHANGES \<le> length (filter (\<lambda>c. cj_dropped (dropUnneeded j) \<le> rc_sequence c) (cj_changes j))"
proof -
  obtain cs d where l: "dropLoop (cj_changes j) (cj_dropped j) = (cs, d)" by fastforce
  have u: "cj_changes (dropUnneeded j) = cs" "cj_dropped (dropUnneeded j) = d"
    by (simp_all add: dropUnneeded_def l)
  have sorted: "sorted (map rc_sequence (cj_changes j))" using inv by (simp add: journalInv_def)
  from dropLoop_suffix [OF l sorted] obtain dropped where c: "cj_changes j = dropped @ cs"
    "\<forall>c \<in> set dropped. rc_sequence c \<le> d" by auto
  have "\<forall>c \<in> set cs. d < rc_sequence c"
    using dropUnneeded_inv(1) [OF inv] by (simp add: journalInv_def u)
  then show "cj_changes (dropUnneeded j) =
      filter (\<lambda>c. cj_dropped (dropUnneeded j) < rc_sequence c) (cj_changes j)"
    using c by (auto simp: u filter_empty_conv filter_id_conv leD)
  show "length (cj_changes (dropUnneeded j)) < MAX_RECORDED_CHANGES" by (rule dropUnneeded_inv(2) [OF inv])
  show "cj_dropped (dropUnneeded j) = cj_dropped j \<or>
      MAX_RECORDED_CHANGES \<le> length (filter (\<lambda>c. cj_dropped (dropUnneeded j) \<le> rc_sequence c) (cj_changes j))"
    using dropLoop_least [OF l sorted] by (auto simp: u)
qed

lemma distinct_changedKeys:
  assumes "wf_map next" "wf_map latest"
  shows "distinct (changedKeys latest next)"
proof -
  have "distinct (map fst (filter (\<lambda>(key, now). \<not> same (map_of latest key) (Some now)) next))"
    using wf_map_filter [OF assms(1)] by (simp add: keys_def)
  then show ?thesis
    using assms(2) by (force simp: changedKeys_def keys_def in_keys_iff)
qed

lemma bumped_added:
  fixes later :: "(string, RecordedStanding) jsmap" and j :: ChangeJournal
  defines "added \<equiv> (if cj_sequence j = 0 then [] else
    map (\<lambda>key. \<lparr>rc_sequence = cj_sequence j + 1, rc_key = key, rc_before = map_of (cj_latest j) key\<rparr>)
      (changedKeys (cj_latest j) later))"
  shows "cj_changes (bumped later j) = cj_changes j @ added"
    and "cj_dropped (bumped later j) = cj_dropped j"
    and "list_all (\<lambda>c. rc_sequence c = cj_sequence (bumped later j) \<and>
           rc_before c = map_of (cj_latest j) (rc_key c)) added"
    and "cj_sequence (bumped later j) =
           (if cj_sequence j = 0 \<or> added \<noteq> [] then cj_sequence j + 1 else cj_sequence j)"
    and "cj_latest (bumped later j) = later"
  by (simp_all add: added_def bumped_def Let_def list_all_iff)

section \<open>Properties\<close>

text \<open>
  C11. A cursor the journal issued is never taken for a foreign one, and while it is usable it reads
  exactly the net difference: each key whose standing then and now differ, once, with the standing
  then (up to what counts as the same) and the one now, whatever was recorded in between.
\<close>

theorem since_net_difference:
  "let j = recordAll before (newJournal life);
       (cursor, then_j) = recordMoment standings entries j;
       now_j = recordAll later then_j
   in case since (Some cursor) now_j of
        Used changes \<Rightarrow>
          distinct (map nc_key changes) \<and>
          (\<forall>key. (key \<in> nc_key ` set changes) =
                 (\<not> same (map_of (cj_latest then_j) key) (map_of (cj_latest now_j) key))) \<and>
          list_all (\<lambda>c. same (nc_atCursor c) (map_of (cj_latest then_j) (nc_key c)) \<and>
                        nc_now c = map_of (cj_latest now_j) (nc_key c)) changes
      | Expired \<Rightarrow> cj_sequence then_j < cj_dropped now_j
      | _ \<Rightarrow> False"
proof -
  define j where "j = recordAll before (newJournal life)"
  define t where "t = snd (recordMoment standings entries j)"
  define n where "n = recordAll later t"
  define s where "s = cj_sequence t"
  have j: "journalInv j" using recordAll_steps [OF newJournal_inv] by (simp add: j_def)
  note step = recordMoment_step [OF j, where standings = standings and entries = entries, folded t_def]
  have cursor: "fst (recordMoment standings entries j) = cursorOf t s"
    by (simp add: t_def s_def recordMoment_def recordNext_def Let_def cursorOf_def)
  have n: "journalInv n" "cj_life n = cj_life t" "s \<le> cj_sequence n"
      "cj_dropped n \<le> s \<Longrightarrow> same (pastOf n s key) (pastOf t s key)" for key
    using recordAll_steps [OF step(1), of later s key] step(4) by (auto simp: n_def s_def)
  have t_past: "pastOf t s key = map_of (cj_latest t) key" for key
  proof -
    have "find (\<lambda>c. rc_sequence c > s \<and> rc_key c = key) (cj_changes t) = None"
      using step(1) by (auto simp: find_None_iff journalInv_def s_def)
    then show ?thesis by (simp add: pastOf_def)
  qed
  have s: "0 < s" using step(4) by (simp add: s_def)
  note since = since_pastOf [OF s n(2)]
  show ?thesis
  proof (cases "s < cj_dropped n")
    case True
    then show ?thesis using n(3)
      by (simp add: j_def [symmetric] t_def [symmetric] n_def [symmetric] case_prod_beta Let_def cursor since)
         (simp add: s_def)
  next
    case False
    let ?fb = "firstBefore s (cj_changes n)"
    let ?diff = "filter (\<lambda>(key, before). \<not> same before (map_of (cj_latest n) key)) ?fb"
    let ?changes = "map (\<lambda>(key, before). \<lparr>nc_key = key, nc_atCursor = before, nc_now = map_of (cj_latest n) key\<rparr>) ?diff"
    have then_past: "same (pastOf n s key) (map_of (cj_latest t) key)" for key
      using n(4) [of key] False by (simp add: t_past)
    have fb_past: "map_of ?fb key = Some b \<Longrightarrow> pastOf n s key = b" for key b
      by (auto simp: firstBefore_get pastOf_def)
    have fb_none: "map_of ?fb key = None \<Longrightarrow> pastOf n s key = map_of (cj_latest n) key" for key
      by (auto simp: firstBefore_get pastOf_def)
    have mem: "(key, b) \<in> set ?fb \<longleftrightarrow> map_of ?fb key = Some b" for key b
      using wf_firstBefore by (simp add: map_of_eq_Some_mem)
    have names: "map nc_key ?changes = keys ?diff" by (simp add: keys_def comp_def case_prod_beta)
    have 1: "distinct (map nc_key ?changes)"
      unfolding names using wf_firstBefore by (rule wf_map_filter)
    have 2: "key \<in> nc_key ` set ?changes \<longleftrightarrow>
        \<not> same (map_of (cj_latest t) key) (map_of (cj_latest n) key)" for key
    proof -
      have "nc_key ` set ?changes = set (keys ?diff)" using names by (metis set_map)
      then have "key \<in> nc_key ` set ?changes \<longleftrightarrow>
          (\<exists>b. map_of ?fb key = Some b \<and> \<not> same b (map_of (cj_latest n) key))"
        using in_keys_filter [OF wf_firstBefore, of key "\<lambda>key b. \<not> same b (map_of (cj_latest n) key)" s "cj_changes n"]
        by simp
      also have "\<dots> \<longleftrightarrow> \<not> same (pastOf n s key) (map_of (cj_latest n) key)"
        by (cases "map_of ?fb key") (auto simp: fb_past fb_none)
      also have "\<dots> \<longleftrightarrow> \<not> same (map_of (cj_latest t) key) (map_of (cj_latest n) key)"
        using then_past [of key] by (meson same_sym same_trans)
      finally show ?thesis .
    qed
    have 3: "list_all (\<lambda>c. same (nc_atCursor c) (map_of (cj_latest t) (nc_key c)) \<and>
        nc_now c = map_of (cj_latest n) (nc_key c)) ?changes"
      using mem fb_past then_past by (fastforce simp: list_all_iff)
    have "since (Some (fst (recordMoment standings entries j))) n = Used ?changes"
      using False n(3) by (simp add: cursor since)
    then show ?thesis using 1 2 3
      by (simp add: j_def [symmetric] t_def [symmetric] n_def [symmetric] case_prod_beta Let_def)
  qed
qed

text \<open>
  C19. Recording a moment, in a journal any moments were recorded in, adds one change for each key
  whose standing differs, with the standing before and the moment's own new sequence, and none for
  the first moment. Of what it held and added the journal then keeps exactly the changes after the
  latest sequence it dropped, so that a sequence is kept whole or dropped whole and the oldest go
  first; these are fewer than a hundred thousand, and a sequence is dropped only where it and what
  follows it are a hundred thousand or more.
\<close>

theorem journal_bounded:
  "let j = recordAll before (newJournal life);
       j' = snd (recordMoment standings entries j)
   in \<exists>added.
        distinct (map rc_key added) \<and>
        (\<forall>key. (key \<in> rc_key ` set added) =
           (cj_sequence j \<noteq> 0 \<and> \<not> same (map_of (cj_latest j) key) (map_of (cj_latest j') key))) \<and>
        list_all (\<lambda>c. rc_sequence c = cj_sequence j' \<and> rc_before c = map_of (cj_latest j) (rc_key c)) added \<and>
        cj_sequence j' = (if cj_sequence j \<noteq> 0 \<and> added = [] then cj_sequence j else cj_sequence j + 1) \<and>
        cj_changes j' = filter (\<lambda>c. cj_dropped j' < rc_sequence c) (cj_changes j @ added) \<and>
        length (cj_changes j') < 100000 \<and>
        (cj_dropped j' = cj_dropped j \<or>
         100000 \<le> length (filter (\<lambda>c. cj_dropped j' \<le> rc_sequence c) (cj_changes j @ added)))"
proof -
  define j where "j = recordAll before (newJournal life)"
  let ?next = "nextStandings standings entries"
  define added where "added = (if cj_sequence j = 0 then [] else
    map (\<lambda>key. \<lparr>rc_sequence = cj_sequence j + 1, rc_key = key, rc_before = map_of (cj_latest j) key\<rparr>)
      (changedKeys (cj_latest j) ?next))"
  have j: "journalInv j" using recordAll_steps [OF newJournal_inv] by (simp add: j_def)
  have r: "snd (recordMoment standings entries j) = dropUnneeded (bumped ?next j)"
    by (simp add: recordMoment_def recordNext_bumped)
  note b = bumped_added [of ?next j, folded added_def]
  note d = dropUnneeded_kept [OF bumped_inv [OF j wf_nextStandings [of standings entries]], unfolded b(1,2)]
  have wf: "wf_map (cj_latest j)" using j by (simp add: journalInv_def)
  have 1: "distinct (map rc_key added)"
    using distinct_changedKeys [OF wf_nextStandings wf, of standings entries] by (simp add: added_def comp_def)
  have 2: "(key \<in> rc_key ` set added) =
      (cj_sequence j \<noteq> 0 \<and> \<not> same (map_of (cj_latest j) key) (map_of ?next key))" for key
    using changedKeys_mem [OF wf_nextStandings wf, of key standings entries] by (force simp: added_def)
  show ?thesis
    unfolding Let_def j_def [symmetric] r
    by (rule exI [of _ added]) (use 1 2 b(3) d in \<open>auto simp: b(4,5) MAX_RECORDED_CHANGES_def [symmetric]\<close>)
qed

end
