(* ===== verification/Listings.thy ===== *)
theory Listings
  imports TestStates
begin

text \<open>
  What a discovery lists by path for each workspace (\<^verbatim>\<open>inputs/protection.ts\<close>): its test modules,
  the setup files of its projects and the env files Vite loads for them (\<^verbatim>\<open>inputs/env-files.ts\<close>),
  and whether those env files are known. Fingerprints, protection and the judgement of a run all read
  this one listing. The host is POSIX, so a listed file is compared as it is spelled.
\<close>

section \<open>Env files\<close>

definition ENV_FILE :: string where
  "ENV_FILE = ''.env''"

definition LOCAL_SUFFIX :: string where
  "LOCAL_SUFFIX = ''.local''"

definition sourceEnvFiles :: "EnvSource \<Rightarrow> string list" where
  "sourceEnvFiles source =
     (case es_envDirectory source of
        None \<Rightarrow> []
      | Some envDirectory \<Rightarrow>
          map (\<lambda>name. posixJoin [envDirectory, name])
            [ENV_FILE, ENV_FILE @ LOCAL_SUFFIX, ENV_FILE @ ''.'' @ es_mode source,
             ENV_FILE @ ''.'' @ es_mode source @ LOCAL_SUFFIX])"

definition projectEnvFiles :: "ProjectSelectionFacts \<Rightarrow> string list" where
  "projectEnvFiles project =
     (case pf_envSources project of
        EnvSourcesNotKnown _ \<Rightarrow> []
      | EnvSourcesKnown sources \<Rightarrow> uniq (flat_map sourceEnvFiles sources))"

datatype EnvFilesKnown = EnvKnown | EnvUnknown (envUnknown_workspace: string) (envUnknown_reason: "string option")

fun isNotKnown :: "EnvSources \<Rightarrow> bool" where
  "isNotKnown (EnvSourcesNotKnown _) = True"
| "isNotKnown (EnvSourcesKnown _) = False"

definition workspaceEnvFilesKnown :: "WorkspaceDiscovery \<Rightarrow> EnvFilesKnown" where
  "workspaceEnvFilesKnown entry =
     (case entry of
        WsDiscovered d \<Rightarrow>
          (let path = ws_path (dw_workspace d) in
           case dw_selectionFacts d of
             FactsNotReported \<Rightarrow> EnvUnknown path None
           | FactsReported projects \<Rightarrow>
               (case find isNotKnown (map pf_envSources projects) of
                  Some (EnvSourcesNotKnown notKnown) \<Rightarrow> EnvUnknown path (Some notKnown)
                | _ \<Rightarrow> EnvKnown))
      | _ \<Rightarrow> EnvKnown)"

fun firstUnknown :: "WorkspaceDiscovery list \<Rightarrow> EnvFilesKnown" where
  "firstUnknown [] = EnvKnown"
| "firstUnknown (entry # rest) =
     (case workspaceEnvFilesKnown entry of
        EnvUnknown path reason \<Rightarrow> EnvUnknown path reason
      | EnvKnown \<Rightarrow> firstUnknown rest)"

definition discoveryEnvFilesKnown :: "TestDiscovery \<Rightarrow> EnvFilesKnown" where
  "discoveryEnvFilesKnown discovery = firstUnknown (td_workspaces discovery)"

section \<open>The listing\<close>

text \<open>\<^verbatim>\<open>caseComparable\<close> on a POSIX host.\<close>

definition caseComparable :: "string \<Rightarrow> string" where
  "caseComparable path = path"

definition workspaceName :: "string \<Rightarrow> string" where
  "workspaceName path = (if path = ROOT_PATH then ''at the consumer root'' else path)"

record WorkspaceListing =
  li_testModules :: "string list"
  li_setupFiles :: "string list"
  li_envFiles :: "string list"

definition reportedProjects :: "WorkspaceDiscovery \<Rightarrow> ProjectSelectionFacts list" where
  "reportedProjects entry =
     (case entry of
        WsDiscovered d \<Rightarrow> (case dw_selectionFacts d of FactsReported projects \<Rightarrow> projects | FactsNotReported \<Rightarrow> [])
      | _ \<Rightarrow> [])"

definition workspaceListing :: "WorkspaceDiscovery \<Rightarrow> WorkspaceListing" where
  "workspaceListing entry =
     (let projects = reportedProjects entry in
      \<lparr>li_testModules = workspaceTestModules entry,
       li_setupFiles = uniq (flat_map (\<lambda>project. pf_setupFiles project @ pf_globalSetupFiles project) projects),
       li_envFiles = uniq (flat_map projectEnvFiles projects)\<rparr>)"

definition listedPaths :: "WorkspaceListing \<Rightarrow> string list" where
  "listedPaths listing = uniq (li_testModules listing @ li_setupFiles listing @ li_envFiles listing)"

definition protectedFiles :: "TestDiscovery \<Rightarrow> string list" where
  "protectedFiles discovery = uniq (flat_map listedPaths (map workspaceListing (td_workspaces discovery)))"

definition protectedModules :: "TestDiscovery \<Rightarrow> string list" where
  "protectedModules discovery =
     uniq (flat_map (\<lambda>listing. li_testModules listing @ li_setupFiles listing)
       (map workspaceListing (td_workspaces discovery)))"

text \<open>\<^verbatim>\<open>workspaceListedFiles\<close> of \<^verbatim>\<open>daemon/run-judgment.ts\<close>.\<close>

definition workspaceListedFiles :: "WorkspaceDiscovery \<Rightarrow> string list" where
  "workspaceListedFiles entry = uniq (map caseComparable (listedPaths (workspaceListing entry)))"

section \<open>Lemmas\<close>

lemma set_listedPaths:
  "set (listedPaths listing) = set (li_testModules listing) \<union> set (li_setupFiles listing) \<union> set (li_envFiles listing)"
  by (auto simp: listedPaths_def)

lemma workspaceEnvFilesKnown_iff:
  "workspaceEnvFilesKnown entry = EnvKnown \<longleftrightarrow>
     (case entry of
        WsDiscovered d \<Rightarrow>
          (case dw_selectionFacts d of
             FactsNotReported \<Rightarrow> False
           | FactsReported projects \<Rightarrow> list_all (\<lambda>project. \<not> isNotKnown (pf_envSources project)) projects)
      | _ \<Rightarrow> True)"
proof (cases entry)
  case (WsDiscovered d)
  show ?thesis
  proof (cases "dw_selectionFacts d")
    case (FactsReported projects)
    have "(case find isNotKnown (map pf_envSources projects) of
        Some (EnvSourcesNotKnown notKnown) \<Rightarrow> EnvUnknown path (Some notKnown) | _ \<Rightarrow> EnvKnown) = EnvKnown \<longleftrightarrow>
        list_all (\<lambda>project. \<not> isNotKnown (pf_envSources project)) projects" for path
      by (induction projects) (auto split: EnvSources.splits)
    then show ?thesis by (simp add: workspaceEnvFilesKnown_def WsDiscovered FactsReported Let_def)
  qed (simp add: workspaceEnvFilesKnown_def WsDiscovered Let_def)
qed (simp_all add: workspaceEnvFilesKnown_def)

lemma discoveryEnvFilesKnown_iff:
  "discoveryEnvFilesKnown discovery = EnvKnown \<longleftrightarrow>
     list_all (\<lambda>entry. workspaceEnvFilesKnown entry = EnvKnown) (td_workspaces discovery)"
proof -
  have "firstUnknown entries = EnvKnown \<longleftrightarrow> list_all (\<lambda>entry. workspaceEnvFilesKnown entry = EnvKnown) entries"
    for entries by (induction entries) (auto split: EnvFilesKnown.splits)
  then show ?thesis by (simp add: discoveryEnvFilesKnown_def)
qed

end
