(* ===== verification/Environment.thy ===== *)
theory Environment
  imports Listings "HOL-Library.While_Combinator"
begin

text \<open>
  How the environment the daemon started with enters a fingerprint (\<^verbatim>\<open>inputs/environment-digest.ts\<close>
  and \<^verbatim>\<open>inputs/carried-variables.ts\<close>): a variable counts by its value, unless an entry names it, when
  the entry counts once as set; and a variable Vite can carry to a workspace's tests, because an env
  file refers to it or an env prefix begins its name, counts by value all the same. The hash is a
  parameter, taken over the whole text it is fed. The host is POSIX, so names keep their case.
\<close>

section \<open>Entries\<close>

type_synonym StartEnvironment = "(string, string option) jsmap"

definition SESSION_VARIABLES :: "string list" where
  "SESSION_VARIABLES =
     [''_'', ''PWD'', ''OLDPWD'', ''SHLVL'', ''SESSIONNAME'', ''EFC_*'', ''WT_SESSION'', ''WT_PROFILE_ID'',
      ''TERM_SESSION_ID'', ''ITERM_SESSION_ID'', ''WINDOWID'', ''TMUX'', ''TMUX_PANE'', ''STY'',
      ''KITTY_WINDOW_ID'', ''KITTY_PID'', ''ALACRITTY_WINDOW_ID'', ''WEZTERM_PANE'', ''VSCODE_*'',
      ''CLAUDE_CODE_SESSION_ID'', ''CLAUDE_PID'', ''CLAUDE_CODE_MESSAGING_SOCKET'',
      ''CLAUDE_CODE_MESSAGING_TOKEN'', ''CLAUDE_CODE_SSE_PORT'', ''CODEX_THREAD_ID'', ''CURSOR_TRACE_ID'',
      ''STARSHIP_SESSION_KEY'', ''POSH_SESSION_ID'', ''POSH_PID'', ''SSH_CLIENT'', ''SSH_CONNECTION'',
      ''SSH_TTY'', ''XDG_SESSION_ID'']"

text \<open>\<^verbatim>\<open>comparable\<close> on a POSIX host.\<close>

definition comparable :: "string \<Rightarrow> string" where
  "comparable name = name"

text \<open>\<^verbatim>\<open>names\<close>: whether an entry names a variable.\<close>

definition entryNames :: "string \<Rightarrow> string \<Rightarrow> bool" where
  "entryNames entry name =
     (if ends_with entry ''*'' then starts_with name (butlast entry) else name = entry)"

definition variableEntries :: "string list \<Rightarrow> string list" where
  "variableEntries declared = uniq (map comparable SESSION_VARIABLES @ map comparable declared)"

definition namedByEntry :: "string list \<Rightarrow> string \<Rightarrow> bool" where
  "namedByEntry entries name = list_ex (\<lambda>entry. entryNames entry name) entries"

section \<open>Counting the environment\<close>

record EnvironmentCount =
  ec_digest :: string
  ec_byValue :: "string list"
  ec_sessionEntriesSet :: "string list"

text \<open>\<^verbatim>\<open>byName\<close>: the held values in the order of the names holding them.\<close>

definition byName :: "(string, string) jsmap \<Rightarrow> string list" where
  "byName held = map snd (sort_key fst held)"

definition heldText :: "string option \<Rightarrow> string" where
  "heldText value = (case value of None \<Rightarrow> [] | Some text \<Rightarrow> text)"

text \<open>The loop over the environment: the values counted, the entries set, and those set non-empty.\<close>

definition countVariable ::
  "string list \<Rightarrow> (string \<Rightarrow> bool) \<Rightarrow> string \<times> string option \<Rightarrow>
     (string, (string, string) jsmap) jsmap \<times> string list \<times> string list \<Rightarrow>
     (string, (string, string) jsmap) jsmap \<times> string list \<times> string list" where
  "countVariable entries countsByValue variable counted =
     (case (variable, counted) of ((name, value), (vals, entriesSet, nonEmpty)) \<Rightarrow>
       (let key = comparable name;
            naming = filter (\<lambda>entry. entryNames entry key) entries;
            held = heldText value
        in (if naming = [] \<or> countsByValue key
            then jset key (jset name held (case map_of vals key of Some m \<Rightarrow> m | None \<Rightarrow> [])) vals
            else vals,
            fold jadd naming entriesSet,
            if held \<noteq> [] then fold jadd naming nonEmpty else nonEmpty)))"

definition lineOf :: "json \<Rightarrow> string" where
  "lineOf line = stringify line @ [CHR 0x0A]"

definition countEnvironment ::
  "(string \<Rightarrow> string) \<Rightarrow> StartEnvironment \<Rightarrow> string list \<Rightarrow> (string \<Rightarrow> bool) \<Rightarrow> EnvironmentCount" where
  "countEnvironment hash environment declared countsByValue =
     (case fold (countVariable (variableEntries declared) countsByValue) environment ([], [], []) of
        (vals, entriesSet, nonEmpty) \<Rightarrow>
          (let jsonLines =
             map (\<lambda>(key, held). JArr (JStr ''value'' # JStr key # map JStr (byName held))) vals @
             map (\<lambda>entry. JArr [JStr ''set'', JStr entry, JBool (entry \<in> set nonEmpty)]) entriesSet
           in \<lparr>ec_digest = hash (flat_map (\<lambda>line. line @ [CHR 0x0A]) (sort (map stringify jsonLines))),
               ec_byValue = sort (keys vals),
               ec_sessionEntriesSet = filter (\<lambda>entry. entry \<in> set entriesSet) (map comparable SESSION_VARIABLES)\<rparr>))"

section \<open>References\<close>

definition nameStart :: "char \<Rightarrow> bool" where
  "nameStart c = (CHR ''A'' \<le> c \<and> c \<le> CHR ''Z'' \<or> CHR ''a'' \<le> c \<and> c \<le> CHR ''z'' \<or> c = CHR ''_'')"

definition nameChar :: "char \<Rightarrow> bool" where
  "nameChar c = (nameStart c \<or> CHR ''0'' \<le> c \<and> c \<le> CHR ''9'')"

fun nameAt :: "string \<Rightarrow> (string \<times> string) option" where
  "nameAt [] = None"
| "nameAt (c # cs) = (if nameStart c then Some (c # takeWhile nameChar cs, dropWhile nameChar cs) else None)"

definition closesName :: "string \<Rightarrow> bool" where
  "closesName rest = list_ex (starts_with rest) [''}'', '':-'', ''-'', '':+'', ''+'']"

text \<open>The name a \<^verbatim>\<open>$\<close> begins by \<^verbatim>\<open>DOLLAR\<close>, with what follows the match; none when it is stray.\<close>

definition dollarName :: "string \<Rightarrow> (string \<times> string) option" where
  "dollarName text =
     (if starts_with text ''{'' then
        (case nameAt (tl text) of
           Some (name, rest) \<Rightarrow> (if closesName rest then Some (name, rest) else None)
         | None \<Rightarrow> None)
      else nameAt text)"

record Scan =
  sc_names :: "string list"
  sc_stray :: bool

lemma nameAt_length: "nameAt cs = Some (name, rest) \<Longrightarrow> length rest < length cs"
proof (cases cs)
  case (Cons c ds)
  moreover assume "nameAt cs = Some (name, rest)"
  ultimately show ?thesis using length_dropWhile_le [of nameChar ds] by (auto split: if_splits)
qed simp

lemma dollarName_length: "dollarName cs = Some (name, rest) \<Longrightarrow> length rest < length cs"
  using nameAt_length [of "tl cs"] nameAt_length [of cs]
  by (fastforce simp: dollarName_def split: if_splits option.splits)

function scan :: "string \<Rightarrow> Scan" where
  "scan [] = \<lparr>sc_names = [], sc_stray = False\<rparr>"
| "scan (c # cs) =
     (if c \<noteq> CHR ''$'' then scan cs
      else (case dollarName cs of
          None \<Rightarrow> \<lparr>sc_names = [], sc_stray = True\<rparr>
        | Some (name, rest) \<Rightarrow>
            (let read = scan rest in \<lparr>sc_names = comparable name # sc_names read, sc_stray = sc_stray read\<rparr>)))"
  by pat_completeness auto
termination by (relation "measure length") (auto dest: dollarName_length)

section \<open>What the environment carries\<close>

record FoundIn =
  fi_file :: string
  fi_through :: "string option"

datatype CarriedReason = ByReference FoundIn | ByPrefix string

datatype CarriedVariables = CarriesNames "(string, CarriedReason) jsmap" | CarriesEvery FoundIn

text \<open>\<^verbatim>\<open>CountedEnvironment\<close>; what it memoises of pure functions is computed again here.\<close>

record CountedEnvironment =
  ce_start :: StartEnvironment
  ce_declared :: "string list"

definition ce_entries :: "CountedEnvironment \<Rightarrow> string list" where
  "ce_entries env = variableEntries (ce_declared env)"

definition addValue :: "string \<times> string option \<Rightarrow> (string, string list) jsmap \<Rightarrow> (string, string list) jsmap" where
  "addValue variable vals =
     (case variable of
        (name, None) \<Rightarrow> vals
      | (name, Some value) \<Rightarrow>
          (let key = comparable name in
           jset key ((case map_of vals key of Some held \<Rightarrow> held | None \<Rightarrow> []) @ [value]) vals))"

definition ce_values :: "CountedEnvironment \<Rightarrow> (string, string list) jsmap" where
  "ce_values env = fold addValue (ce_start env) []"

definition ce_namedSet :: "CountedEnvironment \<Rightarrow> string list" where
  "ce_namedSet env = filter (namedByEntry (ce_entries env)) (keys (ce_values env))"

definition reach :: "CountedEnvironment \<Rightarrow> string \<Rightarrow> string list" where
  "reach env name =
     name # filter (\<lambda>key. key \<noteq> name \<and> (starts_with key name \<or> starts_with name key)) (keys (ce_values env))"

definition valueScan :: "CountedEnvironment \<Rightarrow> string \<Rightarrow> Scan" where
  "valueScan env name =
     (let scans = map scan (case map_of (ce_values env) name of Some vals \<Rightarrow> vals | None \<Rightarrow> []) in
      \<lparr>sc_names = flat_map sc_names scans, sc_stray = list_ex sc_stray scans\<rparr>)"

text \<open>A reference: the name referred to, and where it was found.\<close>

type_synonym EnvReference = "string \<times> FoundIn"

text \<open>\<^verbatim>\<open>fileReferences\<close>, of the workspace's env files; the left is the stray \<^verbatim>\<open>$\<close> found first.\<close>

fun fileReferencesFrom :: "(string, string option) jsmap \<Rightarrow> string list \<Rightarrow> FoundIn + EnvReference list" where
  "fileReferencesFrom texts [] = Inr []"
| "fileReferencesFrom texts (file # rest) =
     (case map_of texts file of
        Some (Some text) \<Rightarrow>
          (let read = scan text; origin = \<lparr>fi_file = file, fi_through = None\<rparr> in
           if sc_stray read then Inl origin
           else map_sum id ((@) (map (\<lambda>name. (name, origin)) (sc_names read))) (fileReferencesFrom texts rest))
      | _ \<Rightarrow> fileReferencesFrom texts rest)"

definition fileReferences :: "WorkspaceDiscovery \<Rightarrow> (string, string option) jsmap \<Rightarrow> FoundIn + EnvReference list" where
  "fileReferences entry texts = fileReferencesFrom texts (sort (li_envFiles (workspaceListing entry)))"

text \<open>
  \<^verbatim>\<open>#referenced\<close>: the loop visits the references, those a scanned value appends with the rest, until
  none is left or a stray \<^verbatim>\<open>$\<close> ends it.
\<close>

record ReferenceLoop =
  rf_references :: "EnvReference list"
  rf_visited :: "string list"
  rf_names :: "(string, CarriedReason) jsmap"
  rf_stray :: "FoundIn option"

fun visitReached :: "CountedEnvironment \<Rightarrow> FoundIn \<Rightarrow> string list \<Rightarrow> ReferenceLoop \<Rightarrow> ReferenceLoop" where
  "visitReached env origin [] loop = loop"
| "visitReached env origin (reached # rest) loop =
     (let through = \<lparr>fi_file = fi_file origin, fi_through = Some reached\<rparr>;
          value = valueScan env reached;
          visited = loop\<lparr>rf_visited := jadd reached (rf_visited loop),
            rf_names := (if namedByEntry (ce_entries env) reached
              then jset reached (ByReference origin) (rf_names loop) else rf_names loop)\<rparr>
      in if sc_stray value then visited\<lparr>rf_stray := Some through\<rparr>
         else visitReached env origin rest
           (visited\<lparr>rf_references := rf_references visited @ map (\<lambda>name. (name, through)) (sc_names value)\<rparr>))"

definition followReference :: "CountedEnvironment \<Rightarrow> ReferenceLoop \<Rightarrow> ReferenceLoop" where
  "followReference env loop =
     (case rf_references loop of
        [] \<Rightarrow> loop
      | (name, origin) # rest \<Rightarrow>
          visitReached env origin (filter (\<lambda>each. each \<notin> set (rf_visited loop)) (reach env name))
            (loop\<lparr>rf_references := rest\<rparr>))"

definition loopContinues :: "ReferenceLoop \<Rightarrow> bool" where
  "loopContinues loop = (rf_references loop \<noteq> [] \<and> rf_stray loop = None)"

definition startLoop :: "EnvReference list \<Rightarrow> ReferenceLoop" where
  "startLoop references = \<lparr>rf_references = references, rf_visited = [], rf_names = [], rf_stray = None\<rparr>"

text \<open>\<^const>\<open>None\<close> is a loop that does not end, which is proved below not to occur.\<close>

definition referenced :: "CountedEnvironment \<Rightarrow> WorkspaceDiscovery \<Rightarrow> (string, string option) jsmap \<Rightarrow>
    CarriedVariables option" where
  "referenced env entry texts =
     (case fileReferences entry texts of
        Inl origin \<Rightarrow> Some (CarriesEvery origin)
      | Inr references \<Rightarrow>
          map_option (\<lambda>loop. case rf_stray loop of Some origin \<Rightarrow> CarriesEvery origin | None \<Rightarrow> CarriesNames (rf_names loop))
            (while_option loopContinues (followReference env) (startLoop references)))"

definition envPrefixes :: "WorkspaceDiscovery \<Rightarrow> string list" where
  "envPrefixes entry =
     flat_map (\<lambda>project. case pf_envSources project of
         EnvSourcesNotKnown _ \<Rightarrow> []
       | EnvSourcesKnown sources \<Rightarrow> flat_map es_envPrefixes sources) (reportedProjects entry)"

definition addPrefixed :: "string list \<Rightarrow> string \<Rightarrow> (string, CarriedReason) jsmap \<Rightarrow> (string, CarriedReason) jsmap" where
  "addPrefixed ps name names =
     (if jhas names name then names
      else (case find (\<lambda>candidate. starts_with name (comparable candidate)) ps of
          Some p \<Rightarrow> jset name (ByPrefix p) names
        | None \<Rightarrow> names))"

definition withPrefixes :: "CountedEnvironment \<Rightarrow> WorkspaceDiscovery \<Rightarrow> (string, CarriedReason) jsmap \<Rightarrow>
    (string, CarriedReason) jsmap" where
  "withPrefixes env entry names =
     fold (addPrefixed (envPrefixes entry)) (ce_namedSet env) names"

definition carried :: "CountedEnvironment \<Rightarrow> WorkspaceDiscovery \<Rightarrow> (string, string option) jsmap \<Rightarrow>
    CarriedVariables option" where
  "carried env entry texts =
     map_option (\<lambda>c. case c of
         CarriesEvery origin \<Rightarrow> CarriesEvery origin
       | CarriesNames names \<Rightarrow> CarriesNames (withPrefixes env entry names)) (referenced env entry texts)"

fun countsByValue :: "CarriedVariables \<Rightarrow> string \<Rightarrow> bool" where
  "countsByValue (CarriesEvery _) name = True"
| "countsByValue (CarriesNames names) name = jhas names name"

text \<open>\<^verbatim>\<open>digest\<close>; with no variable carried it is the count the environment was opened with.\<close>

definition environmentDigest :: "(string \<Rightarrow> string) \<Rightarrow> CountedEnvironment \<Rightarrow> CarriedVariables \<Rightarrow> string" where
  "environmentDigest hash env vars =
     ec_digest (if vars = CarriesNames [] then countEnvironment hash (ce_start env) (ce_declared env) (\<lambda>_. False)
       else countEnvironment hash (ce_start env) (ce_declared env) (countsByValue vars))"

fun carriedUnionFrom :: "(string, CarriedReason) jsmap \<Rightarrow> CarriedVariables list \<Rightarrow> CarriedVariables" where
  "carriedUnionFrom names [] = CarriesNames names"
| "carriedUnionFrom names (CarriesEvery origin # rest) = CarriesEvery origin"
| "carriedUnionFrom names (CarriesNames others # rest) =
     carriedUnionFrom (fold (\<lambda>(name, reason) m. if jhas m name then m else jset name reason m) others names) rest"

definition carriedUnion :: "CarriedVariables list \<Rightarrow> CarriedVariables" where
  "carriedUnion = carriedUnionFrom []"

section \<open>The references followed\<close>

text \<open>The names a reference can read, from the names referred to at the start.\<close>

inductive reached :: "CountedEnvironment \<Rightarrow> string set \<Rightarrow> string \<Rightarrow> bool" for env starts where
  first: "n \<in> starts \<Longrightarrow> m \<in> set (reach env n) \<Longrightarrow> reached env starts m"
| through: "reached env starts m \<Longrightarrow> n \<in> set (sc_names (valueScan env m)) \<Longrightarrow> k \<in> set (reach env n) \<Longrightarrow>
    reached env starts k"

definition demanded :: "CountedEnvironment \<Rightarrow> string set \<Rightarrow> string set \<Rightarrow> string \<Rightarrow> bool" where
  "demanded env starts visited n = (n \<in> starts \<or> (\<exists>m \<in> visited. n \<in> set (sc_names (valueScan env m))))"

lemma demanded_reached:
  "demanded env starts visited n \<Longrightarrow> \<forall>m \<in> visited. reached env starts m \<Longrightarrow> m \<in> set (reach env n) \<Longrightarrow> reached env starts m"
  unfolding demanded_def by (blast intro: reached.intros)

text \<open>The loop's state while the names \<open>us\<close> of one reference are still to be visited.\<close>

definition loopInv :: "CountedEnvironment \<Rightarrow> string set \<Rightarrow> string list \<Rightarrow> ReferenceLoop \<Rightarrow> bool" where
  "loopInv env starts us loop =
     (case rf_stray loop of
        Some w \<Rightarrow> \<exists>m. fi_through w = Some m \<and> reached env starts m \<and> sc_stray (valueScan env m)
      | None \<Rightarrow>
          (\<forall>m \<in> set (rf_visited loop) \<union> set us. reached env starts m) \<and>
          (\<forall>n \<in> fst ` set (rf_references loop). demanded env starts (set (rf_visited loop)) n) \<and>
          (\<forall>n. demanded env starts (set (rf_visited loop)) n \<longrightarrow>
             n \<in> fst ` set (rf_references loop) \<or> set (reach env n) \<subseteq> set (rf_visited loop) \<union> set us) \<and>
          (\<forall>m \<in> set (rf_visited loop). \<not> sc_stray (valueScan env m)) \<and>
          set (keys (rf_names loop)) = {m \<in> set (rf_visited loop). namedByEntry (ce_entries env) m})"

lemma loopInv_visit:
  "loopInv env starts us loop \<Longrightarrow> rf_stray loop = None \<Longrightarrow> loopInv env starts [] (visitReached env w us loop)"
proof (induction env w us loop rule: visitReached.induct)
  case (2 env w r rest loop)
  let ?through = "\<lparr>fi_file = fi_file w, fi_through = Some r\<rparr>"
  let ?visited = "loop\<lparr>rf_visited := jadd r (rf_visited loop),
     rf_names := (if namedByEntry (ce_entries env) r then jset r (ByReference w) (rf_names loop) else rf_names loop)\<rparr>"
  let ?next = "?visited\<lparr>rf_references := rf_references ?visited @ map (\<lambda>name. (name, ?through)) (sc_names (valueScan env r))\<rparr>"
  have r: "reached env starts r" using 2(2,3) by (auto simp: loopInv_def)
  show ?case
  proof (cases "sc_stray (valueScan env r)")
    case True
    then show ?thesis using r by (simp add: Let_def loopInv_def)
  next
    case False
    have dem: "demanded env starts (insert r V) n \<longleftrightarrow> demanded env starts V n \<or> n \<in> set (sc_names (valueScan env r))" for n V
      by (auto simp: demanded_def)
    have "loopInv env starts rest ?next"
      using 2(2,3) False r
      by (simp add: loopInv_def dem image_Un image_image ball_Un keys_jset) (auto simp: in_keys_iff)
    from 2(1) [OF refl refl refl False this] 2(3) False show ?thesis by (simp add: Let_def)
  qed
qed simp

lemma loopInv_follow:
  assumes "loopInv env starts [] loop" and "loopContinues loop"
  shows "loopInv env starts [] (followReference env loop)"
proof -
  from assms(2) obtain name w rest where r: "rf_references loop = (name, w) # rest"
    by (cases "rf_references loop") (auto simp: loopContinues_def)
  let ?us = "filter (\<lambda>each. each \<notin> set (rf_visited loop)) (reach env name)"
  have n: "rf_stray loop = None" using assms(2) by (simp add: loopContinues_def)
  have d: "demanded env starts (set (rf_visited loop)) name" "\<forall>m \<in> set (rf_visited loop). reached env starts m"
    using assms(1) n r by (auto simp: loopInv_def)
  have "reached env starts m" if "m \<in> set (reach env name)" for m
    using demanded_reached [OF d that] .
  then have "loopInv env starts ?us (loop\<lparr>rf_references := rest\<rparr>)"
    using assms(1) n r by (auto simp: loopInv_def)
  from loopInv_visit [OF this, of w] n show ?thesis by (simp add: followReference_def r)
qed

text \<open>The loop ends: every round visits a new name, or leaves one reference fewer.\<close>

definition knownNames :: "CountedEnvironment \<Rightarrow> string set" where
  "knownNames env = set (keys (ce_values env)) \<union>
     (\<Union>m \<in> set (keys (ce_values env)). set (sc_names (valueScan env m)))"

lemma finite_knownNames [simp]: "finite (knownNames env)"
  by (simp add: knownNames_def)

lemma scan_known: "n \<in> set (sc_names (valueScan env m)) \<Longrightarrow> n \<in> knownNames env"
proof -
  assume n: "n \<in> set (sc_names (valueScan env m))"
  then have "m \<in> set (keys (ce_values env))"
    by (cases "map_of (ce_values env) m") (auto simp: valueScan_def in_keys_iff)
  with n show ?thesis by (auto simp: knownNames_def)
qed

lemma reach_known: "m \<in> set (reach env n) \<Longrightarrow> m = n \<or> m \<in> knownNames env"
  by (auto simp: reach_def knownNames_def)

lemma visitReached_None:
  "rf_stray (visitReached env w us loop) = None \<Longrightarrow>
     set (rf_visited (visitReached env w us loop)) = set (rf_visited loop) \<union> set us \<and>
     fst ` set (rf_references (visitReached env w us loop)) \<subseteq> fst ` set (rf_references loop) \<union> knownNames env"
proof (induction env w us loop rule: visitReached.induct)
  case (2 env w r rest loop)
  let ?through = "\<lparr>fi_file = fi_file w, fi_through = Some r\<rparr>"
  let ?visited = "loop\<lparr>rf_visited := jadd r (rf_visited loop),
     rf_names := (if namedByEntry (ce_entries env) r then jset r (ByReference w) (rf_names loop) else rf_names loop)\<rparr>"
  let ?next = "?visited\<lparr>rf_references := rf_references ?visited @ map (\<lambda>name. (name, ?through)) (sc_names (valueScan env r))\<rparr>"
  have s: "\<not> sc_stray (valueScan env r)" using 2(2) by (auto simp: Let_def)
  then have eq: "visitReached env w (r # rest) loop = visitReached env w rest ?next" by (simp add: Let_def)
  define n where "n = visitReached env w rest ?next"
  have "rf_stray n = None" using 2(2) unfolding eq n_def .
  then have ih: "set (rf_visited n) = set (rf_visited ?next) \<union> set rest"
      "fst ` set (rf_references n) \<subseteq> fst ` set (rf_references ?next) \<union> knownNames env"
    unfolding n_def using 2(1) [OF refl refl refl s] by blast+
  have "fst ` set (rf_references ?next) = fst ` set (rf_references loop) \<union> set (sc_names (valueScan env r))"
    by (simp add: image_Un image_image)
  moreover have "set (sc_names (valueScan env r)) \<subseteq> knownNames env" using scan_known by blast
  ultimately have "fst ` set (rf_references n) \<subseteq> fst ` set (rf_references loop) \<union> knownNames env"
    using ih(2) by auto
  moreover have "set (rf_visited n) = set (rf_visited loop) \<union> set (r # rest)" using ih(1) by simp
  ultimately show ?case unfolding eq n_def [symmetric] by simp
qed simp

definition undone :: "CountedEnvironment \<Rightarrow> ReferenceLoop \<Rightarrow> nat" where
  "undone env loop = card ((knownNames env \<union> fst ` set (rf_references loop)) - set (rf_visited loop))"

lemma followReference_decreases:
  assumes "loopContinues loop" and "rf_stray (followReference env loop) = None"
  shows "undone env (followReference env loop) < undone env loop \<or>
     undone env (followReference env loop) \<le> undone env loop \<and>
     length (rf_references (followReference env loop)) < length (rf_references loop)"
proof -
  from assms(1) obtain name w rest where r: "rf_references loop = (name, w) # rest"
    by (cases "rf_references loop") (auto simp: loopContinues_def)
  let ?us = "filter (\<lambda>each. each \<notin> set (rf_visited loop)) (reach env name)"
  let ?next = "followReference env loop"
  let ?left = "\<lambda>loop. (knownNames env \<union> fst ` set (rf_references loop)) - set (rf_visited loop)"
  have step: "?next = visitReached env w ?us (loop\<lparr>rf_references := rest\<rparr>)"
    by (simp add: followReference_def r)
  have next': "set (rf_visited ?next) = set (rf_visited loop) \<union> set ?us"
    "fst ` set (rf_references ?next) \<subseteq> fst ` set rest \<union> knownNames env"
    using visitReached_None [of env w ?us "loop\<lparr>rf_references := rest\<rparr>"] assms(2) unfolding step by simp_all
  have sub: "?left ?next \<subseteq> ?left loop" using next' r by auto
  have fin: "finite (?left loop)" by simp
  show ?thesis
  proof (cases "?us = []")
    case True
    then have "length (rf_references ?next) < length (rf_references loop)" by (simp add: step r)
    then show ?thesis using card_mono [OF fin sub] by (simp add: undone_def)
  next
    case False
    then obtain m where m: "m \<in> set ?us" using hd_in_set by blast
    then have "m \<in> ?left loop" using reach_known [of m env name] r by auto
    moreover have "m \<notin> ?left ?next" using m next' by auto
    ultimately have "?left ?next \<subset> ?left loop" using sub by blast
    then show ?thesis using psubset_card_mono [OF fin] by (simp add: undone_def)
  qed
qed

lemma follow_ends: "\<exists>loop. while_option loopContinues (followReference env) (startLoop references) = Some loop"
proof (rule wf_while_option_Some [where P = "\<lambda>_. True"])
  let ?f = "\<lambda>loop. if rf_stray loop = None then (undone env loop, length (rf_references loop)) else (0, 0)"
  have "(followReference env s, s) \<in> inv_image (less_than <*lex*> less_than) ?f" if "loopContinues s" for s
    using followReference_decreases [OF that, of env] that by (auto simp: loopContinues_def)
  then have "{(t, s). (True \<and> loopContinues s) \<and> t = followReference env s} \<subseteq>
      inv_image (less_than <*lex*> less_than) ?f" by blast
  then show "wf {(t, s). (True \<and> loopContinues s) \<and> t = followReference env s}"
    by (rule wf_subset [rotated]) (blast intro: wf_inv_image wf_lex_prod wf_less_than)
qed simp_all

lemma follow_result:
  assumes "while_option loopContinues (followReference env) (startLoop references) = Some loop"
  shows "case rf_stray loop of
     Some w \<Rightarrow> \<exists>m. fi_through w = Some m \<and> reached env (fst ` set references) m \<and> sc_stray (valueScan env m)
   | None \<Rightarrow> (\<forall>m. reached env (fst ` set references) m \<longrightarrow> \<not> sc_stray (valueScan env m)) \<and>
       set (keys (rf_names loop)) = {m. reached env (fst ` set references) m \<and> namedByEntry (ce_entries env) m}"
proof -
  let ?starts = "fst ` set references"
  have "loopInv env ?starts [] (startLoop references)"
    by (auto simp: loopInv_def startLoop_def demanded_def)
  then have inv: "loopInv env ?starts [] loop"
    by (rule while_option_rule [OF _ assms, rotated]) (auto intro: loopInv_follow)
  show ?thesis
  proof (cases "rf_stray loop")
    case None
    then have ended: "rf_references loop = []"
      using while_option_stop [OF assms] by (simp add: loopContinues_def)
    have visited: "reached env ?starts m \<longleftrightarrow> m \<in> set (rf_visited loop)" for m
    proof
      assume "reached env ?starts m"
      then show "m \<in> set (rf_visited loop)"
        by (induction) (use inv None ended in \<open>auto simp: loopInv_def demanded_def\<close>)
    qed (use inv None in \<open>auto simp: loopInv_def\<close>)
    show ?thesis using inv None by (simp add: visited) (auto simp: loopInv_def visited)
  qed (use inv in \<open>auto simp: loopInv_def\<close>)
qed

section \<open>What is carried\<close>

text \<open>The text Vite reads of a listed env file, and the names and stray \<^verbatim>\<open>$\<close> in it.\<close>

definition envTexts :: "WorkspaceDiscovery \<Rightarrow> (string, string option) jsmap \<Rightarrow> string set" where
  "envTexts entry texts = {text. \<exists>file \<in> set (li_envFiles (workspaceListing entry)). map_of texts file = Some (Some text)}"

definition referredTo :: "WorkspaceDiscovery \<Rightarrow> (string, string option) jsmap \<Rightarrow> string set" where
  "referredTo entry texts = (\<Union>text \<in> envTexts entry texts. set (sc_names (scan text)))"

lemma fileReferencesFrom_Inl:
  "(\<exists>w. fileReferencesFrom texts files = Inl w) \<longleftrightarrow>
     (\<exists>file \<in> set files. \<exists>text. map_of texts file = Some (Some text) \<and> sc_stray (scan text))"
proof (induction files)
  case (Cons path rest)
  then show ?case
    by (cases "map_of texts path"; cases "the (map_of texts path)"; cases "fileReferencesFrom texts rest")
       (auto simp: Let_def)
qed simp

lemma fileReferencesFrom_Inr:
  "fileReferencesFrom texts files = Inr references \<Longrightarrow>
     fst ` set references = (\<Union>file \<in> set files. \<Union>text \<in> {text. map_of texts file = Some (Some text)}. set (sc_names (scan text)))"
proof (induction files arbitrary: references)
  case (Cons path rest)
  show ?case
  proof (cases "\<exists>text. map_of texts path = Some (Some text)")
    case True
    then obtain body where t: "map_of texts path = Some (Some body)" by blast
    then obtain others where m: "fileReferencesFrom texts rest = Inr others"
      "references = map (\<lambda>name. (name, \<lparr>fi_file = path, fi_through = None\<rparr>)) (sc_names (scan body)) @ others"
      using Cons.prems by (cases "fileReferencesFrom texts rest") (auto simp: Let_def split: if_splits)
    show ?thesis using Cons.IH [OF m(1)] t by (simp add: m(2) image_Un image_image)
  next
    case False
    then have "fileReferencesFrom texts rest = Inr references"
      using Cons.prems by (auto split: option.splits)
    then show ?thesis using Cons.IH False by simp
  qed
qed simp

lemma fileReferences_Inl:
  "(\<exists>w. fileReferences entry texts = Inl w) \<longleftrightarrow> (\<exists>text \<in> envTexts entry texts. sc_stray (scan text))"
  unfolding fileReferences_def fileReferencesFrom_Inl by (auto simp: envTexts_def)

lemma fileReferences_Inr:
  "fileReferences entry texts = Inr references \<Longrightarrow> fst ` set references = referredTo entry texts"
  unfolding fileReferences_def by (drule fileReferencesFrom_Inr) (auto simp: referredTo_def envTexts_def)

lemma withPrefixes_keys:
  "set (keys (withPrefixes env entry names)) = set (keys names) \<union>
     {name \<in> set (keys (ce_values env)). namedByEntry (ce_entries env) name \<and>
        (\<exists>p \<in> set (envPrefixes entry). starts_with name p)}"
proof -
  have one: "set (keys (addPrefixed ps n m)) = set (keys m) \<union> (if \<exists>p \<in> set ps. starts_with n p then {n} else {})" for ps n m
  proof -
    have "(\<exists>p \<in> set ps. starts_with n p) \<longleftrightarrow> find (\<lambda>candidate. starts_with n (comparable candidate)) ps \<noteq> None"
      by (auto simp: find_None_iff comparable_def)
    then show ?thesis by (auto simp: addPrefixed_def keys_jset split: option.split)
  qed
  have "set (keys (fold (addPrefixed ps) ns m)) = set (keys m) \<union> {name \<in> set ns. \<exists>p \<in> set ps. starts_with name p}" for ps ns m
    by (induction ns arbitrary: m) (auto simp: one)
  then show ?thesis by (auto simp: withPrefixes_def ce_namedSet_def)
qed

section \<open>What the digest tells apart\<close>

text \<open>The value a variable counts by, and whether an entry counts as set, with whether it is non-empty.\<close>

definition countedValue :: "StartEnvironment \<Rightarrow> string list \<Rightarrow> (string \<Rightarrow> bool) \<Rightarrow> string \<Rightarrow> string option" where
  "countedValue environment declared counts name =
     (if \<not> namedByEntry (variableEntries declared) name \<or> counts name
      then map_option heldText (map_of environment name) else None)"

definition countedEntry :: "StartEnvironment \<Rightarrow> string list \<Rightarrow> string \<Rightarrow> bool option" where
  "countedEntry environment declared entry =
     (if entry \<in> set (variableEntries declared) \<and> list_ex (\<lambda>(name, _). entryNames entry name) environment
      then Some (list_ex (\<lambda>(name, value). entryNames entry name \<and> heldText value \<noteq> []) environment) else None)"

lemma countVariable_fold:
  assumes "wf_map environment" and "set (keys environment) \<inter> set (keys vals) = {}"
    and "fold (countVariable entries counts) environment (vals, es, ne) = (vals', es', ne')"
  shows "map_of vals' key = (case map_of environment key of
            Some value \<Rightarrow> (if \<not> namedByEntry entries key \<or> counts key then Some [(key, heldText value)] else None)
          | None \<Rightarrow> map_of vals key)"
    and "set es' = set es \<union> {e \<in> set entries. list_ex (\<lambda>(name, _). entryNames e name) environment}"
    and "set ne' = set ne \<union> {e \<in> set entries. list_ex (\<lambda>(name, value). entryNames e name \<and> heldText value \<noteq> []) environment}"
    and "wf_map vals \<Longrightarrow> wf_map vals'" and "distinct es \<Longrightarrow> distinct es'"
  using assms
proof (atomize (full), induction environment arbitrary: vals es ne)
  case (Cons v rest)
  obtain name val where v: "v = (name, val)" by (cases v)
  let ?naming = "filter (\<lambda>entry. entryNames entry name) entries"
  let ?vals = "if ?naming = [] \<or> counts name then jset name (jset name (heldText val) []) vals else vals"
  have fresh: "map_of vals name = None" using Cons.prems by (auto simp: v in_keys_iff)
  have named: "?naming = [] \<longleftrightarrow> \<not> namedByEntry entries name"
    by (auto simp: namedByEntry_def list_ex_iff filter_empty_conv)
  have step: "countVariable entries counts v (vals, es, ne) =
      (?vals, fold jadd ?naming es, if heldText val \<noteq> [] then fold jadd ?naming ne else ne)"
    by (simp add: countVariable_def v comparable_def Let_def fresh)
  have one: "jset name t [] = [(name, t)]" for t :: string by (simp add: jset_def)
  have disjoint: "set (keys rest) \<inter> set (keys ?vals) = {}"
    using Cons.prems by (auto simp: v keys_jset split: if_splits)
  have ih: "map_of vals' key = (case map_of rest key of
            Some value \<Rightarrow> (if \<not> namedByEntry entries key \<or> counts key then Some [(key, heldText value)] else None)
          | None \<Rightarrow> map_of ?vals key)"
    "set es' = set (fold jadd ?naming es) \<union> {e \<in> set entries. list_ex (\<lambda>(name, _). entryNames e name) rest}"
    "set ne' = set (if heldText val \<noteq> [] then fold jadd ?naming ne else ne) \<union>
       {e \<in> set entries. list_ex (\<lambda>(name, value). entryNames e name \<and> heldText value \<noteq> []) rest}"
    "wf_map ?vals \<longrightarrow> wf_map vals'" "distinct (fold jadd ?naming es) \<longrightarrow> distinct es'"
    using Cons.IH [of ?vals "fold jadd ?naming es" "if heldText val \<noteq> [] then fold jadd ?naming ne else ne"]
      Cons.prems disjoint by (simp_all add: v step [unfolded v])
  have "map_of rest name = None" using Cons.prems by (auto simp: v in_keys_iff)
  then show ?case
    using ih fresh by (auto simp: v set_fold_jadd distinct_fold_jadd named one split: option.splits if_splits)
qed auto

lemma json_escape_no_newline: "CHR 0x0A \<notin> set (json_escape c)"
proof -
  have digits: "\<forall>n < 16. hex_digit n \<noteq> CHR 0x0A" by (simp add: hex_digit_def All_less_Suc numeral_eq_Suc)
  have "(of_char c :: nat) < 256" by (rule of_char_lt_256)
  then have "(of_char c :: nat) div 16 < 16" "(of_char c :: nat) mod 16 < 16" by linarith+
  then have "hex_digit (of_char c div 16) \<noteq> CHR 0x0A" "hex_digit (of_char c mod 16) \<noteq> CHR 0x0A" using digits by blast+
  then show ?thesis by (auto simp: json_escape_def)
qed

lemma set_join: "set (join sep ps) \<subseteq> set sep \<union> (\<Union>p \<in> set ps. set p)"
  by (induction sep ps rule: join.induct) auto

lemma stringify_no_newline: "CHR 0x0A \<notin> set (stringify v)"
proof (induction v rule: stringify.induct)
  case (4 n)
  have "\<not> is_digit (CHR 0x0A)" by (simp add: is_digit_def)
  then show ?case using show_nat_digits [of n] by (auto simp only: stringify.simps)
next
  case (6 vs)
  then show ?case using set_join [of "'',''" "map stringify vs"] by (auto simp: stringify.simps)
next
  case (7 ps)
  have "CHR 0x0A \<notin> set (json_quote k)" for k using json_escape_no_newline by (auto simp: json_quote_def)
  then show ?case using 7 set_join [of "'',''" "map (\<lambda>(k, v). json_quote k @ '':'' @ stringify v) ps"]
    by (fastforce simp: stringify.simps)
qed (use json_escape_no_newline in \<open>auto simp: json_quote_def stringify.simps\<close>)

lemma lines_inj:
  assumes "\<forall>l \<in> set xs \<union> set ys. CHR 0x0A \<notin> set l"
    and "flat_map (\<lambda>line. line @ [CHR 0x0A]) xs = flat_map (\<lambda>line. line @ [CHR 0x0A]) ys"
  shows "xs = ys"
  using assms
proof (induction xs arbitrary: ys)
  case Nil
  then show ?case by (cases ys) auto
next
  case (Cons x xs)
  then obtain y zs where ys: "ys = y # zs" by (cases ys) auto
  let ?text = "flat_map (\<lambda>line. line @ [CHR 0x0A])"
  have eq: "x @ CHR 0x0A # ?text xs = y @ CHR 0x0A # ?text zs" using Cons.prems(2) ys by simp
  have "takeWhile (\<lambda>c. c \<noteq> CHR 0x0A) (x @ CHR 0x0A # ?text xs) = x"
    "takeWhile (\<lambda>c. c \<noteq> CHR 0x0A) (y @ CHR 0x0A # ?text zs) = y"
    using Cons.prems(1) ys by (auto simp: takeWhile_tail takeWhile_eq_all_conv)
  then have "x = y" using eq by metis
  then show ?case using Cons.IH [of zs] Cons.prems(1) eq ys by auto
qed

definition environmentLines :: "(string, (string, string) jsmap) jsmap \<Rightarrow> string list \<Rightarrow> string list \<Rightarrow> json list" where
  "environmentLines vals es ne =
     map (\<lambda>(key, held). JArr (JStr ''value'' # JStr key # map JStr (byName held))) vals @
     map (\<lambda>entry. JArr [JStr ''set'', JStr entry, JBool (entry \<in> set ne)]) es"

text \<open>The lines a count of the environment hashes, as a set.\<close>

definition countedLines :: "StartEnvironment \<Rightarrow> string list \<Rightarrow> (string \<Rightarrow> bool) \<Rightarrow> json set" where
  "countedLines environment declared counts =
     {JArr [JStr ''value'', JStr name, JStr text] | name text. countedValue environment declared counts name = Some text} \<union>
     {JArr [JStr ''set'', JStr entry, JBool nonEmpty] | entry nonEmpty. countedEntry environment declared entry = Some nonEmpty}"

lemma countEnvironment_digest:
  assumes "wf_map environment"
  shows "\<exists>jsonLines. ec_digest (countEnvironment hash environment declared counts) =
        hash (flat_map (\<lambda>line. line @ [CHR 0x0A]) (sort (map stringify jsonLines))) \<and>
     set jsonLines = countedLines environment declared counts \<and> distinct jsonLines"
proof -
  let ?entries = "variableEntries declared"
  obtain vals es ne where f: "fold (countVariable ?entries counts) environment ([], [], []) = (vals, es, ne)"
    by (metis prod_cases3)
  note r = countVariable_fold [OF assms _ f, simplified]
  let ?lines = "environmentLines vals es ne"
  have one: "byName [(key, t)] = [t]" for key t :: string by (simp add: byName_def)
  have wf: "wf_map vals" using r(4) by simp
  have vals: "(key, held) \<in> set vals \<longleftrightarrow>
      (\<exists>t. countedValue environment declared counts key = Some t \<and> held = [(key, t)])" for key held
    using r(1) [of key] wf by (auto simp: map_of_eq_Some_mem [symmetric] countedValue_def split: option.splits if_splits)
  have "set ?lines = countedLines environment declared counts"
  proof -
    have img: "set vals = (\<lambda>(key, t). (key, [(key, t)])) ` {(key, t). countedValue environment declared counts key = Some t}"
      by (auto simp: vals)
    have "(\<lambda>(key, held). JArr (JStr ''value'' # JStr key # map JStr (byName held))) ` set vals =
        {JArr [JStr ''value'', JStr name, JStr text] | name text. countedValue environment declared counts name = Some text}"
      unfolding img image_image by (auto simp: one intro!: image_eqI [where x = "(n, t)" for n t])
    moreover have "(\<lambda>entry. JArr [JStr ''set'', JStr entry, JBool (entry \<in> set ne)]) ` set es =
        {JArr [JStr ''set'', JStr entry, JBool nonEmpty] | entry nonEmpty. countedEntry environment declared entry = Some nonEmpty}"
      by (auto simp: r(2,3) countedEntry_def image_iff)
    ultimately show ?thesis by (simp add: environmentLines_def countedLines_def)
  qed
  moreover have "distinct ?lines"
  proof -
    have "distinct (map (\<lambda>(key, held). JArr (JStr ''value'' # JStr key # map JStr (byName held))) vals)"
      using wf by (auto simp: distinct_map keys_def inj_on_def vals one dest: map_of_eq_Some_mem)
    moreover have "distinct (map (\<lambda>entry. JArr [JStr ''set'', JStr entry, JBool (entry \<in> set ne)]) es)"
      using r(5) by (auto simp: distinct_map inj_on_def)
    ultimately show ?thesis by (auto simp: environmentLines_def)
  qed
  ultimately show ?thesis
    by (intro exI [of _ ?lines]) (simp add: countEnvironment_def f Let_def environmentLines_def)
qed

lemma environment_digest_iff:
  assumes "inj hash" and "wf_map a" and "wf_map b"
  shows "ec_digest (countEnvironment hash a ds cs) = ec_digest (countEnvironment hash b es ks) \<longleftrightarrow>
     countedValue a ds cs = countedValue b es ks \<and> countedEntry a ds = countedEntry b es"
proof -
  obtain xs where x: "ec_digest (countEnvironment hash a ds cs) =
      hash (flat_map (\<lambda>line. line @ [CHR 0x0A]) (sort (map stringify xs)))"
    "set xs = countedLines a ds cs" "distinct xs" using countEnvironment_digest [OF assms(2)] by blast
  obtain ys where y: "ec_digest (countEnvironment hash b es ks) =
      hash (flat_map (\<lambda>line. line @ [CHR 0x0A]) (sort (map stringify ys)))"
    "set ys = countedLines b es ks" "distinct ys" using countEnvironment_digest [OF assms(3)] by blast
  have inj: "inj stringify" by (auto simp: inj_def stringify_inj)
  have "ec_digest (countEnvironment hash a ds cs) = ec_digest (countEnvironment hash b es ks) \<longleftrightarrow>
      sort (map stringify xs) = sort (map stringify ys)"
    unfolding x(1) y(1) using lines_inj [of "sort (map stringify xs)" "sort (map stringify ys)"] stringify_no_newline
    by (auto simp: inj_eq [OF assms(1)])
  also have "\<dots> \<longleftrightarrow> stringify ` set xs = stringify ` set ys"
  proof
    assume "stringify ` set xs = stringify ` set ys"
    then show "sort (map stringify xs) = sort (map stringify ys)"
      by (intro sorted_distinct_set_unique)
         (use x(3) y(3) inj_on_subset [OF inj] in \<open>auto simp: distinct_map\<close>)
  qed (metis set_map set_sort)
  also have "\<dots> \<longleftrightarrow> countedLines a ds cs = countedLines b es ks"
    unfolding x(2) y(2) by (rule inj_image_eq_iff [OF inj])
  also have "\<dots> \<longleftrightarrow> countedValue a ds cs = countedValue b es ks \<and> countedEntry a ds = countedEntry b es"
  proof
    assume eq: "countedLines a ds cs = countedLines b es ks"
    have option_eqI: "x = y" if "\<And>t. x = Some t \<longleftrightarrow> y = Some t" for x y :: "'o option"
      using that [of "the x"] that [of "the y"] by (cases x; cases y) simp_all
    have v: "countedValue e d c n = Some t \<longleftrightarrow> JArr [JStr ''value'', JStr n, JStr t] \<in> countedLines e d c" for e d c n t
      by (auto simp: countedLines_def)
    have s: "countedEntry e d n = Some t \<longleftrightarrow> JArr [JStr ''set'', JStr n, JBool t] \<in> countedLines e d c" for e d c n t
      by (auto simp: countedLines_def)
    have "countedValue a ds cs n = Some t \<longleftrightarrow> countedValue b es ks n = Some t" for n t by (simp only: v eq)
    moreover have "countedEntry a ds n = Some t \<longleftrightarrow> countedEntry b es n = Some t" for n t
      by (simp only: s [of a ds n t cs] s [of b es n t ks] eq)
    ultimately show "countedValue a ds cs = countedValue b es ks \<and> countedEntry a ds = countedEntry b es"
      by (intro conjI ext option_eqI) simp_all
  qed (simp add: countedLines_def)
  finally show ?thesis .
qed

section \<open>Properties\<close>


end
