(* ===== verification/SelectTests.thy ===== *)
theory SelectTests
  imports Workspaces Evidence
begin

text \<open>
  Selecting the tests a change can affect (\<^verbatim>\<open>selection/select-tests.ts\<close> and
  \<^verbatim>\<open>selection/widening-links.ts\<close>, with the types of \<^verbatim>\<open>selection/selection-types.ts\<close>): each
  changed path raises triggers, a trigger walks breadth-first along the dependency edges and the
  widenings from the workspaces it starts at, and every Vitest workspace reached is selected with one
  shortest chain per trigger. The walks already made and the widenings used are the state the source
  mutates while it selects; here they are passed through.
\<close>

section \<open>The data\<close>

datatype EdgeProducerKind =
    ProducerManifest | ProducerOverride | ProducerTestModule | ProducerSetupFile | ProducerAlias
  | ProducerRelativeImport | ProducerBareImport | ProducerTsconfig | ProducerManifestImports | ProducerLink

datatype UncertaintyKind =
    ManifestMissing | ManifestUnreadable | UnresolvedLocalDependency | UnlistedPackage | UnresolvedOverride
  | UnresolvableAlias | UnresolvableSpecifier | TestsNotKnown | UnreadableSource | UnparsedSource
  | PluginFormatFile | WalkBoundReached | ExtendsUnfollowed | MalformedConfig

record DependencyEdge =
  de_dependent :: string
  de_dependency :: string
  de_producer :: EdgeProducerKind
  de_detail :: string

record DependencyUncertainty =
  du_dependent :: string
  du_kind :: UncertaintyKind
  du_cause :: string
  du_file :: "string option"

record LeftOutWidening = DependencyUncertainty +
  lo_pattern :: string

datatype StepVia = ViaEdge EdgeProducerKind | ViaWidening UncertaintyKind

record ChainStep =
  st_workspace :: string
  st_via :: StepVia
  st_detail :: string

text \<open>
  A link's widening is an object of the input's list, which the source compares by identity: here it
  is the object's position in that list.
\<close>

record DependentLink =
  dl_workspace :: string
  dl_step :: ChainStep
  dl_widening :: "nat option"

record DependencyInformation =
  di_packageWorkspaces :: "Workspace list"
  di_notRead :: "UnreadWorkspaceSource list"
  di_withoutManifest :: "string list"
  di_edges :: "DependencyEdge list"
  di_uncertainties :: "DependencyUncertainty list"

datatype WorkspaceTests = KnownTests (wt_tests: "TestIdentity list") | UnknownTests string

text \<open>Selection reads no alias, so the aliases of a workspace are left out.\<close>

record SelectableWorkspace =
  sl_workspace :: Workspace
  sl_tests :: WorkspaceTests
  sl_setupFiles :: "string list"
  sl_globalSetupFiles :: "string list"

record NotRunnableWorkspace =
  nr_workspace :: Workspace
  nr_reason :: string

datatype TriggerKind =
    TrChangedPath | TrLockfile | TrManifest | TrRootOwnedPath | TrOwnerWithoutManifest
  | TrConfigOutsideWorkspace | TrWorkspaceConfig | TrSetupFile | TrGlobalSetupFile | TrNonInputsFile

datatype FallbackScope = ProjectScope | WorkspaceScope

datatype NoSelectionKind = NoDependentVitestWorkspace | OnlyNotRunnable | DeclaredNonInput

record SelectionInput =
  si_change :: "string list"
  si_dependencies :: DependencyInformation
  si_workspaces :: "SelectableWorkspace list"
  si_notRunnable :: "NotRunnableWorkspace list"
  si_vitestListingNotRead :: "UnreadWorkspaceSource list"
  si_declaration :: NonInputsDeclaration
  si_protection :: Protection

record SelectionReason =
  re_path :: string
  re_trigger :: TriggerKind
  re_from :: "string option"
  re_steps :: "ChainStep list"

record BroadFallback =
  bf_path :: string
  bf_trigger :: TriggerKind
  bf_scope :: FallbackScope
  bf_workspaces :: "string list"

datatype WorkspaceTestCount = KnownCount nat | UnknownCount string

record SelectedWorkspace =
  se_path :: string
  se_tests :: WorkspaceTestCount
  se_reasons :: "SelectionReason list"

record SelectedTest =
  stt_identity :: TestIdentity
  stt_reasons :: "SelectionReason list"

record PathSelection =
  ps_workspace :: string
  ps_reasons :: "SelectionReason list"

record ChangedPathReport =
  cp_path :: string
  cp_owner :: "string option"
  cp_triggers :: "TriggerKind list"
  cp_selected :: "PathSelection list"
  cp_notRunnable :: "NotRunnableWorkspace list"
  cp_nothingSelected :: "(NoSelectionKind \<times> string) option"

record TestCount =
  ct_count :: nat
  ct_complete :: bool

record SelectionCounts =
  sc_selectedTests :: TestCount
  sc_totalTests :: TestCount
  sc_selectedWorkspaces :: nat
  sc_totalWorkspaces :: TestCount
  sc_notRunnableWorkspaces :: nat

record Selection =
  sn_nothingSelected :: bool
  sn_policyVersion :: nat
  sn_tests :: "SelectedTest list"
  sn_workspaces :: "SelectedWorkspace list"
  sn_paths :: "ChangedPathReport list"
  sn_fallbacks :: "BroadFallback list"
  sn_widenings :: "DependencyUncertainty list"
  sn_wideningsLeftOut :: "LeftOutWidening list"
  sn_counts :: SelectionCounts
  sn_notRead :: "UnreadWorkspaceSource list"
  sn_notRunnable :: "NotRunnableWorkspace list"

datatype SelectionOutcome = Selected Selection | Refused (rf_path: string) (rf_reason: string)

definition SELECTION_POLICY_VERSION :: nat where
  "SELECTION_POLICY_VERSION = 10"

section \<open>The changed paths\<close>

definition backslash :: char where
  "backslash = CHR 0x5C"

definition climbsOutBy :: "string \<Rightarrow> string \<Rightarrow> bool" where
  "climbsOutBy relativePath sep = (relativePath = parentSegment \<or> starts_with relativePath (parentSegment @ sep))"

text \<open>
  \<^verbatim>\<open>win32.parse(path).root\<close> is not empty for a leading separator of either kind or a drive letter.
\<close>

definition hasWindowsRoot :: "string \<Rightarrow> bool" where
  "hasWindowsRoot path =
     (case path of
        [] \<Rightarrow> False
      | c # rest \<Rightarrow>
          c = CHR ''/'' \<or> c = backslash \<or>
          ((CHR ''A'' \<le> c \<and> c \<le> CHR ''Z'' \<or> CHR ''a'' \<le> c \<and> c \<le> CHR ''z'') \<and> starts_with rest '':''))"

text \<open>
  \<^verbatim>\<open>win32.normalize\<close> of a path without a root, the only one it is asked of: both separators
  separate, and \<^verbatim>\<open>\\<close> joins.
\<close>

definition windowsSegments :: "string \<Rightarrow> string list" where
  "windowsSegments path =
     fold (pushSegment True) (split_on backslash (map (\<lambda>c. if c = CHR ''/'' then backslash else c) path)) []"

definition win32Normalize :: "string \<Rightarrow> string" where
  "win32Normalize path =
     (let body = join [backslash] (windowsSegments path);
          trailing = (ends_with path ''/'' \<or> ends_with path [backslash])
      in (if body = [] then ''.'' else body) @ (if trailing then [backslash] else []))"

definition changedPathRefusal :: "string \<Rightarrow> string option" where
  "changedPathRefusal path =
     (if isAbsolute path \<or> hasWindowsRoot path then
        Some (path @ '' is absolute; a changed path is relative to the consumer root'')
      else if list_ex (\<lambda>normalized. list_ex (climbsOutBy normalized) [''/'', [backslash]])
          [posixNormalize path, win32Normalize path]
      then Some (path @ '' leaves the consumer root'') else None)"

text \<open>\<^verbatim>\<open>posix.dirname\<close>.\<close>

definition posixDirname :: "string \<Rightarrow> string" where
  "posixDirname path =
     (let upTo = rev (dropWhile (\<lambda>c. c \<noteq> separator) (rev (dropTrailing path))) in
      if length upTo \<le> 1 then (if isAbsolute path then ''/'' else ''.'')
      else if isAbsolute path \<and> length upTo = 2 then ''//''
      else butlast upTo)"

section \<open>The context of a selection\<close>

text \<open>\<^verbatim>\<open>selection/widening-links.ts\<close>; each widening is passed with its position.\<close>

record FollowedWidenings =
  fw_links :: "DependentLink list"
  fw_leftOut :: "LeftOutWidening list"

definition wideningLink :: "nat \<Rightarrow> DependencyUncertainty \<Rightarrow> DependentLink" where
  "wideningLink i widening =
     \<lparr>dl_workspace = du_dependent widening,
      dl_step = \<lparr>st_workspace = du_dependent widening, st_via = ViaWidening (du_kind widening),
                 st_detail = du_cause widening\<rparr>,
      dl_widening = Some i\<rparr>"

definition leftOutWidening :: "DependencyUncertainty \<Rightarrow> string \<Rightarrow> LeftOutWidening" where
  "leftOutWidening widening pattern =
     DependencyUncertainty.extend widening (LeftOutWidening.fields pattern)"

definition followWidening :: "(string \<Rightarrow> string option) \<Rightarrow> nat \<times> DependencyUncertainty \<Rightarrow> FollowedWidenings \<Rightarrow>
    FollowedWidenings" where
  "followWidening declared entry acc =
     (let widening = snd entry in
      case (case du_file widening of None \<Rightarrow> None | Some file \<Rightarrow> declared file) of
        Some pattern \<Rightarrow> acc\<lparr>fw_leftOut := fw_leftOut acc @ [leftOutWidening widening pattern]\<rparr>
      | None \<Rightarrow> acc\<lparr>fw_links := fw_links acc @ [wideningLink (fst entry) widening]\<rparr>)"

definition followedWidenings :: "DependencyUncertainty list \<Rightarrow> (string \<Rightarrow> string option) \<Rightarrow> FollowedWidenings" where
  "followedWidenings uncertainties declared =
     fold (followWidening declared) (enumerate 0 uncertainties) \<lparr>fw_links = [], fw_leftOut = []\<rparr>"

record Chain =
  ch_from :: string
  ch_links :: "DependentLink list"

text \<open>What one selection reads, fixed while it runs.\<close>

record SelectionContext =
  sx_input :: SelectionInput
  sx_dependents :: "(string, DependentLink list) jsmap"
  sx_wideningLinks :: "DependentLink list"
  sx_leftOut :: "LeftOutWidening list"
  sx_vitestPaths :: "string list"
  sx_notRunnable :: "(string, NotRunnableWorkspace) jsmap"
  sx_declared :: "string \<Rightarrow> string option"

text \<open>What it writes: the widenings used, and each walk by its starts joined with NUL.\<close>

record SelectionMemory =
  sm_usedWidenings :: "nat list"
  sm_walks :: "(string, (string, Chain) jsmap) jsmap"

definition edgeLink :: "DependencyEdge \<Rightarrow> DependentLink" where
  "edgeLink edge =
     \<lparr>dl_workspace = de_dependent edge,
      dl_step = \<lparr>st_workspace = de_dependent edge, st_via = ViaEdge (de_producer edge),
                 st_detail = de_detail edge\<rparr>,
      dl_widening = None\<rparr>"

definition addEdge :: "DependencyEdge \<Rightarrow> (string, DependentLink list) jsmap \<Rightarrow> (string, DependentLink list) jsmap" where
  "addEdge edge dependents =
     (let links = (case map_of dependents (de_dependency edge) of Some ls \<Rightarrow> ls | None \<Rightarrow> [])
      in jset (de_dependency edge) (links @ [edgeLink edge]) dependents)"

definition selectionContext :: "SelectionInput \<Rightarrow> SelectionContext" where
  "selectionContext input =
     (let declared = declaredNonInputs (si_declaration input) (si_protection input);
          widenings = followedWidenings (di_uncertainties (si_dependencies input)) declared in
      \<lparr>sx_input = input,
       sx_dependents = fold addEdge (di_edges (si_dependencies input)) [],
       sx_wideningLinks = fw_links widenings,
       sx_leftOut = fw_leftOut widenings,
       sx_vitestPaths = map (\<lambda>w. ws_path (sl_workspace w)) (si_workspaces input) @
         map (\<lambda>n. ws_path (nr_workspace n)) (si_notRunnable input),
       sx_notRunnable = jmap_of (map (\<lambda>n. (ws_path (nr_workspace n), n)) (si_notRunnable input)),
       sx_declared = declared\<rparr>)"

section \<open>The walk\<close>

definition linksFrom :: "SelectionContext \<Rightarrow> string \<Rightarrow> DependentLink list" where
  "linksFrom context current =
     (case map_of (sx_dependents context) current of Some ls \<Rightarrow> ls | None \<Rightarrow> []) @ sx_wideningLinks context"

text \<open>One link of a workspace taken from the queue: the chains, and what it adds to the queue.\<close>

definition visitLink :: "Chain \<Rightarrow> DependentLink \<Rightarrow> (string, Chain) jsmap \<times> string list \<Rightarrow>
    (string, Chain) jsmap \<times> string list" where
  "visitLink chain link acc =
     (if dl_workspace link \<in> set (keys (fst acc)) then acc
      else (jset (dl_workspace link) \<lparr>ch_from = ch_from chain, ch_links = ch_links chain @ [link]\<rparr> (fst acc),
            snd acc @ [dl_workspace link]))"

definition startWalk :: "string \<Rightarrow> (string, Chain) jsmap \<times> string list \<Rightarrow> (string, Chain) jsmap \<times> string list" where
  "startWalk start acc =
     (if start \<in> set (keys (fst acc)) then acc
      else (jset start \<lparr>ch_from = start, ch_links = []\<rparr> (fst acc), snd acc @ [start]))"

text \<open>Every workspace some link leads to.\<close>

definition linkTargets :: "SelectionContext \<Rightarrow> string set" where
  "linkTargets context =
     dl_workspace ` (set (sx_wideningLinks context) \<union> (\<Union>(_, ls) \<in> set (sx_dependents context). set ls))"

lemma finite_linkTargets [simp]: "finite (linkTargets context)"
  by (auto simp: linkTargets_def)

lemma linksFrom_targets: "dl_workspace ` set (linksFrom context current) \<subseteq> linkTargets context"
proof (cases "map_of (sx_dependents context) current")
  case None
  then show ?thesis by (auto simp: linksFrom_def linkTargets_def)
next
  case (Some ls)
  have "set ls \<subseteq> (\<Union>(_, ls) \<in> set (sx_dependents context). set ls)"
    using map_of_SomeD [OF Some] by auto
  then have "set (linksFrom context current) \<subseteq>
      set (sx_wideningLinks context) \<union> (\<Union>(_, ls) \<in> set (sx_dependents context). set ls)"
    by (auto simp: linksFrom_def Some)
  then show ?thesis unfolding linkTargets_def by (rule image_mono)
qed

lemma visitLink_measure:
  assumes "dl_workspace link \<in> T" "finite T"
  shows "card (T - set (keys (fst (visitLink chain link acc)))) + length (snd (visitLink chain link acc)) \<le>
     card (T - set (keys (fst acc))) + length (snd acc)"
proof (cases "dl_workspace link \<in> set (keys (fst acc))")
  case True
  then show ?thesis by (simp add: visitLink_def)
next
  case False
  let ?w = "dl_workspace link"
  have eq: "T - (set (keys (fst acc)) \<union> {?w}) = (T - set (keys (fst acc))) - {?w}" by auto
  have "?w \<in> T - set (keys (fst acc))" using assms False by simp
  then have "card (T - set (keys (fst acc))) = Suc (card (T - (set (keys (fst acc)) \<union> {?w})))"
    unfolding eq using assms(2) by (intro card.remove) auto
  then show ?thesis using False by (simp add: visitLink_def keys_jset)
qed

lemma visitLinks_measure:
  "dl_workspace ` set ls \<subseteq> T \<Longrightarrow> finite T \<Longrightarrow>
     card (T - set (keys (fst (fold (visitLink chain) ls acc)))) + length (snd (fold (visitLink chain) ls acc)) \<le>
     card (T - set (keys (fst acc))) + length (snd acc)"
proof (induction ls arbitrary: acc)
  case (Cons l ls)
  have "card (T - set (keys (fst (visitLink chain l acc)))) + length (snd (visitLink chain l acc)) \<le>
      card (T - set (keys (fst acc))) + length (snd acc)"
    using Cons.prems by (intro visitLink_measure) auto
  with Cons.IH [of "visitLink chain l acc"] Cons.prems show ?case by simp
qed simp

text \<open>The queue from its index on, with the chains found so far.\<close>

function walkLoop :: "SelectionContext \<Rightarrow> string list \<Rightarrow> (string, Chain) jsmap \<Rightarrow> (string, Chain) jsmap" where
  "walkLoop context [] found = found"
| "walkLoop context (current # queue) found =
     (case map_of found current of
        None \<Rightarrow> walkLoop context queue found
      | Some chain \<Rightarrow>
          (let (found', pushed) = fold (visitLink chain) (linksFrom context current) (found, [])
           in walkLoop context (queue @ pushed) found'))"
  by pat_completeness auto

termination
proof (relation "measure (\<lambda>(context, queue, found).
    card (linkTargets context - set (keys found)) + length queue)", goal_cases)
  case 1
  show ?case by simp
next
  case (2 cx current queue found)
  then show ?case by simp
next
  case (3 cx current queue found chain result found' pushed)
  have "card (linkTargets cx - set (keys found')) + length pushed \<le>
      card (linkTargets cx - set (keys found))"
    using visitLinks_measure [OF linksFrom_targets [of cx current] finite_linkTargets,
        of chain "(found, [])"] 3 by (metis add_0_right fst_conv length_0_conv snd_conv)
  then show ?case by simp
qed

definition walk :: "SelectionContext \<Rightarrow> string list \<Rightarrow> (string, Chain) jsmap" where
  "walk context starts =
     (let (found, queue) = fold startWalk starts ([], []) in walkLoop context queue found)"

definition walkDependents :: "SelectionContext \<Rightarrow> string list \<Rightarrow> SelectionMemory \<Rightarrow>
    (string, Chain) jsmap \<times> SelectionMemory" where
  "walkDependents context starts memory =
     (let key = join [CHR 0x00] starts in
      case map_of (sm_walks memory) key of
        Some walked \<Rightarrow> (walked, memory)
      | None \<Rightarrow>
          (let found = walk context starts
           in (found, memory\<lparr>sm_walks := jset key found (sm_walks memory)\<rparr>)))"

section \<open>Triggers\<close>

record PathTrigger =
  pt_kind :: TriggerKind
  pt_scope :: "FallbackScope option"
  pt_starts :: "string list"

definition CONFIG_FILES :: "string list" where
  "CONFIG_FILES = uniq (VITEST_CONFIG_FILES @ VITE_CONFIG_FILES)"

definition projectWideKinds :: "SelectionContext \<Rightarrow> string \<Rightarrow> string option \<Rightarrow> TriggerKind list" where
  "projectWideKinds context path owner =
     (let dependencies = si_dependencies (sx_input context);
          name = posixBasename path;
          ownerIsVitest = (case owner of Some o' \<Rightarrow> o' \<in> set (sx_vitestPaths context) | None \<Rightarrow> False);
          ownerIsNoPackage = (case owner of Some o' \<Rightarrow> o' \<in> set (di_withoutManifest dependencies) | None \<Rightarrow> False)
      in (if name \<in> set LOCKFILES then [TrLockfile] else []) @
         (if name = PACKAGE_JSON then [TrManifest] else []) @
         (if namesDeclarationFile path then [TrNonInputsFile] else []) @
         (if owner = Some ROOT_PATH \<and> length (di_packageWorkspaces dependencies) > 1
          then [TrRootOwnedPath] else []) @
         (if ownerIsNoPackage \<and> \<not> ownerIsVitest then [TrOwnerWithoutManifest] else []) @
         (if name \<in> set CONFIG_FILES \<and> posixDirname path \<notin> set (sx_vitestPaths context)
          then [TrConfigOutsideWorkspace] else []))"

definition setupStarts :: "SelectionContext \<Rightarrow> string \<Rightarrow> (SelectableWorkspace \<Rightarrow> string list) \<Rightarrow> string list" where
  "setupStarts context path files =
     map (\<lambda>w. ws_path (sl_workspace w))
       (filter (\<lambda>w. list_ex (\<lambda>file. normalizeRelativePath file = path) (files w))
         (si_workspaces (sx_input context)))"

definition setupTrigger :: "SelectionContext \<Rightarrow> string \<Rightarrow> TriggerKind \<Rightarrow> (SelectableWorkspace \<Rightarrow> string list) \<Rightarrow>
    PathTrigger list" where
  "setupTrigger context path kind files =
     (let starts = setupStarts context path files in
      if starts \<noteq> [] then [\<lparr>pt_kind = kind, pt_scope = Some WorkspaceScope, pt_starts = starts\<rparr>] else [])"

definition pathTriggers :: "SelectionContext \<Rightarrow> string \<Rightarrow> string option \<Rightarrow> PathTrigger list" where
  "pathTriggers context path owner =
     map (\<lambda>kind. \<lparr>pt_kind = kind, pt_scope = Some ProjectScope, pt_starts = sx_vitestPaths context\<rparr>)
       (projectWideKinds context path owner) @
     (let directory = posixDirname path in
      if posixBasename path \<in> set CONFIG_FILES \<and> directory \<in> set (sx_vitestPaths context)
      then [\<lparr>pt_kind = TrWorkspaceConfig, pt_scope = Some WorkspaceScope, pt_starts = [directory]\<rparr>] else []) @
     setupTrigger context path TrSetupFile sl_setupFiles @
     setupTrigger context path TrGlobalSetupFile sl_globalSetupFiles @
     (case owner of
        Some o' \<Rightarrow> [\<lparr>pt_kind = TrChangedPath, pt_scope = None, pt_starts = [o']\<rparr>]
      | None \<Rightarrow> [])"

definition recordWidenings :: "Chain \<Rightarrow> SelectionMemory \<Rightarrow> SelectionMemory" where
  "recordWidenings chain memory =
     fold (\<lambda>link m. case dl_widening link of
         Some widening \<Rightarrow> m\<lparr>sm_usedWidenings := jadd widening (sm_usedWidenings m)\<rparr>
       | None \<Rightarrow> m) (ch_links chain) memory"

definition reachedReason :: "string \<Rightarrow> TriggerKind \<Rightarrow> Chain \<Rightarrow> SelectionReason" where
  "reachedReason path kind chain =
     \<lparr>re_path = path, re_trigger = kind, re_from = Some (ch_from chain), re_steps = map dl_step (ch_links chain)\<rparr>"

definition triggerReasons :: "SelectionContext \<Rightarrow> string \<Rightarrow> PathTrigger \<Rightarrow> SelectionMemory \<Rightarrow>
    (string \<times> SelectionReason) list \<times> SelectionMemory" where
  "triggerReasons context path trigger memory =
     (if pt_scope trigger = Some ProjectScope then
        (map (\<lambda>workspace. (workspace,
            \<lparr>re_path = path, re_trigger = pt_kind trigger, re_from = None, re_steps = []\<rparr>))
          (sx_vitestPaths context), memory)
      else
        (let (found, memory') = walkDependents context (pt_starts trigger) memory;
             reached = filter (\<lambda>entry. fst entry \<in> set (sx_vitestPaths context)) found
         in (map (\<lambda>entry. (fst entry, reachedReason path (pt_kind trigger) (snd entry))) reached,
             fold (\<lambda>entry m. if fst entry \<in> set (keys (sx_notRunnable context)) then m
               else recordWidenings (snd entry) m) reached memory')))"

section \<open>One changed path\<close>

record PathOutcome =
  po_report :: ChangedPathReport
  po_reasons :: "(string, SelectionReason list) jsmap"
  po_fallbacks :: "BroadFallback list"

definition declaredOutcome :: "string \<Rightarrow> string option \<Rightarrow> string \<Rightarrow> PathOutcome" where
  "declaredOutcome path owner pattern =
     \<lparr>po_report = \<lparr>cp_path = path, cp_owner = owner, cp_triggers = [], cp_selected = [], cp_notRunnable = [],
        cp_nothingSelected = Some (DeclaredNonInput,
          NON_INPUTS_FILE @ '' declares it a non-input through the pattern '' @ pattern)\<rparr>,
      po_reasons = [], po_fallbacks = []\<rparr>"

definition unlistedNote :: "SelectionContext \<Rightarrow> string" where
  "unlistedNote context =
     (let sources = map us_source (di_notRead (si_dependencies (sx_input context)) @
            si_vitestListingNotRead (sx_input context)) in
      if sources = [] then []
      else ''; the workspace listings did not read '' @ join '', '' sources @
        '', so a workspace there may depend on it'')"

definition nothingSelectedReason :: "SelectionContext \<Rightarrow> string option \<Rightarrow> NotRunnableWorkspace list \<Rightarrow>
    NoSelectionKind \<times> string" where
  "nothingSelectedReason context owner notRunnable =
     (if notRunnable \<noteq> [] then
        (OnlyNotRunnable, ''every Vitest workspace it reaches will not run: '' @
           join '', '' (map (\<lambda>n. ws_path (nr_workspace n) @ '' ('' @ nr_reason n @ '')'') notRunnable))
      else
        (NoDependentVitestWorkspace, ''it lies in package workspace '' @
           (case owner of Some o' \<Rightarrow> o' | None \<Rightarrow> ROOT_PATH) @
           '', which is not a Vitest workspace, and no listed Vitest workspace depends on it'' @
           unlistedNote context))"

text \<open>One Vitest workspace of the report: selected, or left out as not runnable.\<close>

definition reportWorkspace :: "SelectionContext \<Rightarrow> (string, SelectionReason list) jsmap \<Rightarrow> string \<Rightarrow>
    PathSelection list \<times> NotRunnableWorkspace list \<Rightarrow> PathSelection list \<times> NotRunnableWorkspace list" where
  "reportWorkspace context reasons workspace acc =
     (case map_of reasons workspace of
        None \<Rightarrow> acc
      | Some workspaceReasons \<Rightarrow>
          (case map_of (sx_notRunnable context) workspace of
             None \<Rightarrow> (fst acc @ [\<lparr>ps_workspace = workspace, ps_reasons = workspaceReasons\<rparr>], snd acc)
           | Some excluded \<Rightarrow> (fst acc, snd acc @ [excluded])))"

definition pathReport :: "SelectionContext \<Rightarrow> string \<Rightarrow> string option \<Rightarrow> PathTrigger list \<Rightarrow>
    (string, SelectionReason list) jsmap \<Rightarrow> ChangedPathReport" where
  "pathReport context path owner triggers reasons =
     (let (selected, notRunnable) = fold (reportWorkspace context reasons) (sx_vitestPaths context) ([], []) in
      \<lparr>cp_path = path, cp_owner = owner, cp_triggers = map pt_kind triggers, cp_selected = selected,
       cp_notRunnable = notRunnable,
       cp_nothingSelected =
         (if selected \<noteq> [] then None else Some (nothingSelectedReason context owner notRunnable))\<rparr>)"

text \<open>\<^verbatim>\<open>reasons.set(workspace, [...(reasons.get(workspace) ?? []), ...more])\<close>.\<close>

definition addReasons :: "string \<Rightarrow> SelectionReason list \<Rightarrow> (string, SelectionReason list) jsmap \<Rightarrow>
    (string, SelectionReason list) jsmap" where
  "addReasons workspace added reasons =
     jset workspace ((case map_of reasons workspace of Some rs \<Rightarrow> rs | None \<Rightarrow> []) @ added) reasons"

fun collectReasons :: "SelectionContext \<Rightarrow> string \<Rightarrow> PathTrigger list \<Rightarrow> (string, SelectionReason list) jsmap \<Rightarrow>
    SelectionMemory \<Rightarrow> (string, SelectionReason list) jsmap \<times> SelectionMemory" where
  "collectReasons context path [] reasons memory = (reasons, memory)"
| "collectReasons context path (trigger # triggers) reasons memory =
     (let (given, memory') = triggerReasons context path trigger memory
      in collectReasons context path triggers
           (fold (\<lambda>(workspace, reason). addReasons workspace [reason]) given reasons) memory')"

definition triggerFallbacks :: "string \<Rightarrow> PathTrigger list \<Rightarrow> BroadFallback list" where
  "triggerFallbacks path triggers =
     flat_map (\<lambda>t. case pt_scope t of
         None \<Rightarrow> []
       | Some scope \<Rightarrow> [\<lparr>bf_path = path, bf_trigger = pt_kind t, bf_scope = scope, bf_workspaces = pt_starts t\<rparr>])
       triggers"

definition pathOwner :: "SelectionContext \<Rightarrow> string \<Rightarrow> string option" where
  "pathOwner context path =
     map_option ws_path (owningWorkspace path (di_packageWorkspaces (si_dependencies (sx_input context))))"

definition selectForPath :: "SelectionContext \<Rightarrow> string \<Rightarrow> SelectionMemory \<Rightarrow> PathOutcome \<times> SelectionMemory" where
  "selectForPath context path memory =
     (let owner = pathOwner context path in
      case sx_declared context path of
        Some pattern \<Rightarrow> (declaredOutcome path owner pattern, memory)
      | None \<Rightarrow>
          (let triggers = pathTriggers context path owner;
               (reasons, memory') = collectReasons context path triggers [] memory in
           (\<lparr>po_report = pathReport context path owner triggers reasons, po_reasons = reasons,
             po_fallbacks = triggerFallbacks path triggers\<rparr>, memory')))"

fun selectForPaths :: "SelectionContext \<Rightarrow> string list \<Rightarrow> SelectionMemory \<Rightarrow> PathOutcome list \<times> SelectionMemory" where
  "selectForPaths context [] memory = ([], memory)"
| "selectForPaths context (path # paths) memory =
     (let (outcome, memory') = selectForPath context path memory;
          (outcomes, memory'') = selectForPaths context paths memory'
      in (outcome # outcomes, memory''))"

section \<open>The selection\<close>

definition mergeOutcome :: "SelectionContext \<Rightarrow> PathOutcome \<Rightarrow> (string, SelectionReason list) jsmap \<Rightarrow>
    (string, SelectionReason list) jsmap" where
  "mergeOutcome context outcome reasons =
     fold (\<lambda>(workspace, workspaceReasons) m.
         if workspace \<in> set (keys (sx_notRunnable context)) then m else addReasons workspace workspaceReasons m)
       (po_reasons outcome) reasons"

definition selectedWorkspaces :: "SelectableWorkspace list \<Rightarrow> (string, SelectionReason list) jsmap \<Rightarrow>
    SelectedWorkspace list" where
  "selectedWorkspaces workspaces reasons =
     flat_map (\<lambda>w. case map_of reasons (ws_path (sl_workspace w)) of
         None \<Rightarrow> []
       | Some workspaceReasons \<Rightarrow>
           [\<lparr>se_path = ws_path (sl_workspace w),
             se_tests = (case sl_tests w of KnownTests tests \<Rightarrow> KnownCount (length tests)
               | UnknownTests reason \<Rightarrow> UnknownCount reason),
             se_reasons = workspaceReasons\<rparr>]) workspaces"

definition selectedTests :: "SelectableWorkspace list \<Rightarrow> (string, SelectionReason list) jsmap \<Rightarrow> SelectedTest list" where
  "selectedTests workspaces reasons =
     flat_map (\<lambda>w. case (map_of reasons (ws_path (sl_workspace w)), sl_tests w) of
         (Some workspaceReasons, KnownTests tests) \<Rightarrow>
           map (\<lambda>identity. \<lparr>stt_identity = identity, stt_reasons = workspaceReasons\<rparr>) tests
       | _ \<Rightarrow> []) workspaces"

definition testsKnown :: "WorkspaceTests \<Rightarrow> bool" where
  "testsKnown tests = (case tests of KnownTests _ \<Rightarrow> True | UnknownTests _ \<Rightarrow> False)"

definition countKnown :: "WorkspaceTestCount \<Rightarrow> bool" where
  "countKnown count = (case count of KnownCount _ \<Rightarrow> True | UnknownCount _ \<Rightarrow> False)"

definition selectionCounts :: "SelectionInput \<Rightarrow> SelectedWorkspace list \<Rightarrow> nat \<Rightarrow> SelectionCounts" where
  "selectionCounts input workspaces selectedTestCount =
     (let knownTotal = fold (\<lambda>w total. total +
            (case sl_tests w of KnownTests tests \<Rightarrow> length tests | UnknownTests _ \<Rightarrow> 0)) (si_workspaces input) 0;
          listingsComplete = (di_notRead (si_dependencies input) = [] \<and> si_vitestListingNotRead input = []) in
      \<lparr>sc_selectedTests = \<lparr>ct_count = selectedTestCount,
         ct_complete = list_all (\<lambda>w. countKnown (se_tests w)) workspaces\<rparr>,
       sc_totalTests = \<lparr>ct_count = knownTotal,
         ct_complete = (listingsComplete \<and> list_all (\<lambda>w. testsKnown (sl_tests w)) (si_workspaces input))\<rparr>,
       sc_selectedWorkspaces = length workspaces,
       sc_totalWorkspaces = \<lparr>ct_count = length (si_workspaces input), ct_complete = listingsComplete\<rparr>,
       sc_notRunnableWorkspaces = length (si_notRunnable input)\<rparr>)"

definition assemble :: "SelectionContext \<Rightarrow> PathOutcome list \<Rightarrow> SelectionMemory \<Rightarrow> Selection" where
  "assemble context outcomes memory =
     (let input = sx_input context;
          reasons = fold (mergeOutcome context) outcomes [];
          workspaces = selectedWorkspaces (si_workspaces input) reasons;
          tests = selectedTests (si_workspaces input) reasons in
      \<lparr>sn_nothingSelected = (tests = [] \<and> list_all (\<lambda>w. countKnown (se_tests w)) workspaces),
       sn_policyVersion = SELECTION_POLICY_VERSION,
       sn_tests = tests,
       sn_workspaces = workspaces,
       sn_paths = map po_report outcomes,
       sn_fallbacks = flat_map po_fallbacks outcomes,
       sn_widenings = map snd (filter (\<lambda>entry. fst entry \<in> set (sm_usedWidenings memory))
         (enumerate 0 (di_uncertainties (si_dependencies input)))),
       sn_wideningsLeftOut = sx_leftOut context,
       sn_counts = selectionCounts input workspaces (length tests),
       sn_notRead = di_notRead (si_dependencies input) @ si_vitestListingNotRead input,
       sn_notRunnable = si_notRunnable input\<rparr>)"

text \<open>The changed paths in one spelling, each once, or the first one refused.\<close>

fun acceptedPaths :: "string list \<Rightarrow> string list \<Rightarrow> (string \<times> string) + string list" where
  "acceptedPaths [] paths = Inr paths"
| "acceptedPaths (raw # rest) paths =
     (case changedPathRefusal raw of
        Some refusal \<Rightarrow> Inl (raw, refusal)
      | None \<Rightarrow> acceptedPaths rest (jadd (normalizeRelativePath raw) paths))"

definition selectTests :: "SelectionInput \<Rightarrow> SelectionOutcome" where
  "selectTests input =
     (case acceptedPaths (si_change input) [] of
        Inl (path, reason) \<Rightarrow> Refused path reason
      | Inr paths \<Rightarrow>
          (let context = selectionContext input;
               (outcomes, memory) = selectForPaths context paths \<lparr>sm_usedWidenings = [], sm_walks = []\<rparr>
           in Selected (assemble context outcomes memory)))"

end
