(* ===== verification/SelectionCorrect.thy ===== *)
theory SelectionCorrect
  imports SelectTests
begin

text \<open>
  What selection promises: the breadth-first walk finds exactly the workspaces a start can affect,
  each by a shortest chain; a workspace is selected exactly when some changed path that is no declared
  non-input can affect it; and every reason given is such a chain. The walk's contract is a locale,
  interpreted on the walk of the source.
\<close>

section \<open>Chains of dependents\<close>

fun leads :: "(string \<Rightarrow> DependentLink list) \<Rightarrow> string \<Rightarrow> DependentLink list \<Rightarrow> string \<Rightarrow> bool" where
  "leads succ origin [] w = (origin = w)"
| "leads succ origin (l # ls) w = (l \<in> set (succ origin) \<and> leads succ (dl_workspace l) ls w)"

lemma leads_snoc:
  "leads succ origin (ls @ [l]) w \<longleftrightarrow> (\<exists>v. leads succ origin ls v \<and> l \<in> set (succ v) \<and> dl_workspace l = w)"
  by (induction ls arbitrary: origin) auto

definition linksAt :: "(string, Chain) jsmap \<Rightarrow> string \<Rightarrow> nat" where
  "linksAt found w = (case map_of found w of Some c \<Rightarrow> length (ch_links c) | None \<Rightarrow> 0)"

text \<open>What a walk of the dependents promises, whatever makes it.\<close>

locale dependents_walk =
  fixes succ :: "string \<Rightarrow> DependentLink list"
    and walked :: "string list \<Rightarrow> (string, Chain) jsmap"
  assumes start_found: "s \<in> set starts \<Longrightarrow> map_of (walked starts) s = Some \<lparr>ch_from = s, ch_links = []\<rparr>"
    and chain_leads: "map_of (walked starts) w = Some c \<Longrightarrow>
      ch_from c \<in> set starts \<and> leads succ (ch_from c) (ch_links c) w"
    and closed: "u \<in> set (keys (walked starts)) \<Longrightarrow> l \<in> set (succ u) \<Longrightarrow>
      dl_workspace l \<in> set (keys (walked starts)) \<and>
      linksAt (walked starts) (dl_workspace l) \<le> Suc (linksAt (walked starts) u)"
begin

lemma leads_found:
  assumes "s \<in> set starts"
  shows "leads succ s ls w \<Longrightarrow> w \<in> set (keys (walked starts)) \<and> linksAt (walked starts) w \<le> length ls"
proof (induction ls arbitrary: w rule: rev_induct)
  case Nil
  with start_found [OF assms] show ?case by (simp add: in_keys_iff linksAt_def)
next
  case (snoc l ls)
  then obtain v where v: "leads succ s ls v" "l \<in> set (succ v)" "dl_workspace l = w"
    by (auto simp: leads_snoc)
  from snoc.IH [OF v(1)] closed [of v starts l] v show ?case by auto
qed

lemma found_iff: "w \<in> set (keys (walked starts)) \<longleftrightarrow> (\<exists>s \<in> set starts. \<exists>ls. leads succ s ls w)"
proof
  assume "w \<in> set (keys (walked starts))"
  then obtain c where "map_of (walked starts) w = Some c" by (auto simp: in_keys_iff)
  with chain_leads show "\<exists>s \<in> set starts. \<exists>ls. leads succ s ls w" by blast
next
  assume "\<exists>s \<in> set starts. \<exists>ls. leads succ s ls w"
  then show "w \<in> set (keys (walked starts))" using leads_found by blast
qed

lemma chain_shortest:
  "map_of (walked starts) w = Some c \<Longrightarrow> s \<in> set starts \<Longrightarrow> leads succ s ls w \<Longrightarrow> length (ch_links c) \<le> length ls"
  using leads_found [of s starts ls w] by (simp add: linksAt_def)

end

section \<open>The walk of the source\<close>

definition visitedAll :: "DependentLink list \<Rightarrow> Chain \<Rightarrow> (string, Chain) jsmap \<Rightarrow>
    (string, Chain) jsmap \<times> string list \<Rightarrow> bool" where
  "visitedAll ls chain found acc =
     ((\<forall>w c. map_of found w = Some c \<longrightarrow> map_of (fst acc) w = Some c) \<and>
      (\<forall>w. map_of found w = None \<longrightarrow> map_of (fst acc) w \<noteq> None \<longrightarrow> w \<in> set (snd acc)) \<and>
      (\<forall>w \<in> set (snd acc). map_of found w = None \<and>
         (\<exists>l \<in> set ls. dl_workspace l = w \<and>
            map_of (fst acc) w = Some \<lparr>ch_from = ch_from chain, ch_links = ch_links chain @ [l]\<rparr>)) \<and>
      (\<forall>l \<in> set ls. map_of (fst acc) (dl_workspace l) \<noteq> None))"

lemma fold_visitLink: "visitedAll ls chain found (fold (visitLink chain) ls (found, []))"
proof (induction ls rule: rev_induct)
  case Nil
  show ?case by (simp add: visitedAll_def)
next
  case (snoc l ls)
  let ?acc = "fold (visitLink chain) ls (found, [])"
  show ?case
  proof (cases "map_of (fst ?acc) (dl_workspace l)")
    case None
    have "map_of found (dl_workspace l) = None"
      using snoc None unfolding visitedAll_def by (metis not_Some_eq)
    with snoc None show ?thesis
      by (simp add: visitedAll_def visitLink_def in_keys_iff)
  next
    case (Some c)
    then have same: "fold (visitLink chain) (ls @ [l]) (found, []) = ?acc"
      by (simp add: visitLink_def in_keys_iff)
    have some: "map_of (fst ?acc) (dl_workspace l) \<noteq> None" using Some by simp
    show ?thesis unfolding same using snoc some unfolding visitedAll_def set_append ball_Un bex_Un by simp
  qed
qed

text \<open>The walk's state between two turns of its loop.\<close>

definition walkInv :: "SelectionContext \<Rightarrow> string list \<Rightarrow> string list \<Rightarrow> (string, Chain) jsmap \<Rightarrow> bool" where
  "walkInv cx starts queue found =
     ((\<forall>s \<in> set starts. map_of found s = Some \<lparr>ch_from = s, ch_links = []\<rparr>) \<and>
      (\<forall>w c. map_of found w = Some c \<longrightarrow> ch_from c \<in> set starts \<and> leads (linksFrom cx) (ch_from c) (ch_links c) w) \<and>
      set queue \<subseteq> set (keys found) \<and>
      (\<forall>u \<in> set (keys found). u \<in> set queue \<or> (\<forall>l \<in> set (linksFrom cx u).
          dl_workspace l \<in> set (keys found) \<and> linksAt found (dl_workspace l) \<le> Suc (linksAt found u))) \<and>
      sorted (map (linksAt found) queue) \<and>
      (\<forall>q \<in> set (take 1 queue). \<forall>u \<in> set (keys found). linksAt found u \<le> Suc (linksAt found q)))"

lemma walkInv_step:
  assumes inv: "walkInv cx starts (current # queue) found"
    and chain: "map_of found current = Some chain"
    and step: "fold (visitLink chain) (linksFrom cx current) (found, []) = (found', pushed)"
  shows "walkInv cx starts (queue @ pushed) found'"
proof -
  have visited: "visitedAll (linksFrom cx current) chain found (found', pushed)"
    using fold_visitLink [of "linksFrom cx current" chain found] by (simp add: step)
  let ?d = "linksAt found current"
  have kept: "map_of found' w = Some c" if "map_of found w = Some c" for w c
    using visited that by (auto simp: visitedAll_def)
  have fresh: "w \<in> set pushed" if "map_of found w = None" "map_of found' w \<noteq> None" for w
    using visited that by (auto simp: visitedAll_def)
  have pushed: "map_of found w = None \<and> (\<exists>l \<in> set (linksFrom cx current). dl_workspace l = w \<and>
      map_of found' w = Some \<lparr>ch_from = ch_from chain, ch_links = ch_links chain @ [l]\<rparr>)"
    if "w \<in> set pushed" for w
    using visited that by (auto simp: visitedAll_def)
  have seen: "dl_workspace l \<in> set (keys found')" if "l \<in> set (linksFrom cx current)" for l
    using visited that by (auto simp: visitedAll_def in_keys_iff)
  have old: "linksAt found' w = linksAt found w" if "w \<in> set (keys found)" for w
    using that kept by (auto simp: linksAt_def in_keys_iff)
  have new: "linksAt found' w = Suc ?d" if "w \<in> set pushed" for w
    using pushed [OF that] chain by (auto simp: linksAt_def)
  have keys': "set (keys found') = set (keys found) \<union> set pushed"
    using kept fresh pushed by (auto simp: in_keys_iff) blast+
  have current: "current \<in> set (keys found)" using chain by (simp add: in_keys_iff)
  have i3: "set (current # queue) \<subseteq> set (keys found)"
    and i4: "\<And>u. u \<in> set (keys found) \<Longrightarrow> u \<in> set (current # queue) \<or> (\<forall>l \<in> set (linksFrom cx u).
          dl_workspace l \<in> set (keys found) \<and> linksAt found (dl_workspace l) \<le> Suc (linksAt found u))"
    and i5: "sorted (map (linksAt found) (current # queue))"
    and i6: "\<And>u. u \<in> set (keys found) \<Longrightarrow> linksAt found u \<le> Suc ?d"
    using inv by (auto simp: walkInv_def)
  have near: "linksAt found' u \<le> Suc ?d" if "u \<in> set (keys found')" for u
    using that i6 old new by (auto simp: keys')
  have ge: "?d \<le> linksAt found' u" if "u \<in> set (queue @ pushed)" for u
    using that i5 i3 old new by auto
  have c2: "ch_from c \<in> set starts \<and> leads (linksFrom cx) (ch_from c) (ch_links c) w"
    if "map_of found' w = Some c" for w c
  proof (cases "map_of found w")
    case None
    then have "w \<in> set pushed" using fresh that by simp
    from pushed [OF this] that have "\<exists>l \<in> set (linksFrom cx current). dl_workspace l = w \<and>
        c = \<lparr>ch_from = ch_from chain, ch_links = ch_links chain @ [l]\<rparr>" by auto
    moreover have "ch_from chain \<in> set starts \<and> leads (linksFrom cx) (ch_from chain) (ch_links chain) current"
      using inv chain by (auto simp: walkInv_def)
    ultimately show ?thesis by (auto simp: leads_snoc)
  next
    case (Some c0)
    then have "c0 = c" using kept that by fastforce
    then show ?thesis using inv Some by (auto simp: walkInv_def)
  qed
  have c4: "u \<in> set (queue @ pushed) \<or> (\<forall>l \<in> set (linksFrom cx u).
      dl_workspace l \<in> set (keys found') \<and> linksAt found' (dl_workspace l) \<le> Suc (linksAt found' u))"
    if u: "u \<in> set (keys found')" for u
  proof (cases "u = current")
    case True
    then show ?thesis using seen near old [OF current] by auto
  next
    case False
    show ?thesis
    proof (cases "u \<in> set pushed")
      case notpushed: False
      then have uk: "u \<in> set (keys found)" using u by (simp add: keys')
      from i4 [OF uk] False show ?thesis using old [OF uk] old by (auto simp: keys')
    qed simp
  qed
  have c5: "sorted (map (linksAt found') (queue @ pushed))"
  proof -
    have q: "map (linksAt found') queue = map (linksAt found) queue"
      using i3 old by (intro map_cong) auto
    have "map (linksAt found') pushed = map (\<lambda>_. Suc ?d) pushed" using new by (intro map_cong) auto
    then have p: "map (linksAt found') pushed = replicate (length pushed) (Suc ?d)"
      by (simp add: map_replicate_const)
    have le: "linksAt found x \<le> Suc ?d" if "x \<in> set queue" for x using that i3 i6 by auto
    then show ?thesis using i5 by (auto simp: q p sorted_append)
  qed
  have c1: "\<forall>s \<in> set starts. map_of found' s = Some \<lparr>ch_from = s, ch_links = []\<rparr>"
    using inv kept by (auto simp: walkInv_def)
  have c3: "set (queue @ pushed) \<subseteq> set (keys found')" using i3 by (auto simp: keys')
  have c6: "linksAt found' u \<le> Suc (linksAt found' q)"
    if "q \<in> set (take 1 (queue @ pushed))" "u \<in> set (keys found')" for q u
    using ge [OF in_set_takeD [OF that(1)]] near [OF that(2)] by simp
  show ?thesis unfolding walkInv_def using c1 c2 c3 c4 c5 c6 by blast
qed

lemma walkLoop_inv: "walkInv cx starts queue found \<Longrightarrow> walkInv cx starts [] (walkLoop cx queue found)"
proof (induction cx queue found rule: walkLoop.induct)
  case (1 cx found)
  then show ?case by simp
next
  case (2 cx current queue found)
  then have "current \<in> set (keys found)" by (simp add: walkInv_def)
  then obtain chain where chain: "map_of found current = Some chain" by (auto simp: in_keys_iff)
  obtain found' pushed where step: "fold (visitLink chain) (linksFrom cx current) (found, []) = (found', pushed)"
    by (cases "fold (visitLink chain) (linksFrom cx current) (found, [])")
  from "2.IH"(2) [OF chain step [symmetric] refl walkInv_step [OF "2.prems" chain step]]
  show ?case by (simp add: chain step)
qed

lemma fold_startWalk:
  "(\<forall>s. map_of (fst (fold startWalk starts ([], []))) s =
      (if s \<in> set starts then Some \<lparr>ch_from = s, ch_links = []\<rparr> else None)) \<and>
   set (snd (fold startWalk starts ([], []))) = set starts"
  by (induction starts rule: rev_induct) (auto simp: startWalk_def in_keys_iff)

lemma walk_inv: "walkInv cx starts [] (walk cx starts)"
proof -
  obtain found queue where f: "fold startWalk starts ([], []) = (found, queue)"
    by (cases "fold startWalk starts ([], [])")
  have m: "map_of found s = (if s \<in> set starts then Some \<lparr>ch_from = s, ch_links = []\<rparr> else None)" for s
    using fold_startWalk [of starts] by (simp add: f)
  have q: "set queue = set starts" using fold_startWalk [of starts] by (simp add: f)
  have zero: "linksAt found w = 0" for w by (simp add: linksAt_def m)
  have k: "set (keys found) = set starts" by (auto simp: in_keys_iff m split: if_splits)
  have "sorted (map (linksAt found) queue)" by (simp add: zero sorted_iff_nth_mono)
  then have "walkInv cx starts queue found" unfolding walkInv_def using q k m zero by (simp split: if_splits)
  from walkLoop_inv [OF this] show ?thesis by (simp add: walk_def f)
qed

interpretation affected: dependents_walk "linksFrom cx" "walk cx" for cx
proof (unfold_locales, goal_cases)
  case (1 s starts)
  then show ?case using walk_inv [of cx starts] by (simp add: walkInv_def)
next
  case (2 starts w c)
  then show ?case using walk_inv [of cx starts] by (simp add: walkInv_def)
next
  case (3 u starts l)
  then show ?case using walk_inv [of cx starts] by (simp add: walkInv_def)
qed

section \<open>The walks kept\<close>

text \<open>The workspaces a walk can start from: the Vitest workspaces and the owners.\<close>

definition startPaths :: "SelectionInput \<Rightarrow> string list" where
  "startPaths input =
     map (\<lambda>w. ws_path (sl_workspace w)) (si_workspaces input) @
     map (\<lambda>n. ws_path (nr_workspace n)) (si_notRunnable input) @
     map ws_path (di_packageWorkspaces (si_dependencies input))"

definition nulFree :: "string \<Rightarrow> bool" where
  "nulFree path = (CHR 0x00 \<notin> set path)"

definition walksKept :: "SelectionContext \<Rightarrow> SelectionMemory \<Rightarrow> bool" where
  "walksKept cx memory =
     (\<forall>starts found. starts \<noteq> [] \<longrightarrow> list_all nulFree starts \<longrightarrow>
        map_of (sm_walks memory) (join [CHR 0x00] starts) = Some found \<longrightarrow> found = walk cx starts)"

lemma join_nul_inj:
  assumes "starts \<noteq> []" "list_all nulFree starts" "starts' \<noteq> []" "list_all nulFree starts'"
    and "join [CHR 0x00] starts = join [CHR 0x00] starts'"
  shows "starts = starts'"
proof -
  have "split_on (CHR 0x00) (join [CHR 0x00] xs) = xs" if "xs \<noteq> []" "list_all nulFree xs" for xs
    using that by (intro split_on_join) (auto simp: list_all_iff nulFree_def)
  then show ?thesis using assms by metis
qed

lemma walkDependents_kept:
  assumes kept: "walksKept cx memory" and starts: "starts \<noteq> []" "list_all nulFree starts"
  shows "fst (walkDependents cx starts memory) = walk cx starts \<and>
     walksKept cx (snd (walkDependents cx starts memory))"
proof (cases "map_of (sm_walks memory) (join [CHR 0x00] starts)")
  case None
  have "walksKept cx (memory\<lparr>sm_walks := jset (join [CHR 0x00] starts) (walk cx starts) (sm_walks memory)\<rparr>)"
    unfolding walksKept_def
  proof (intro allI impI)
    fix starts' found
    assume s: "starts' \<noteq> []" "list_all nulFree starts'"
      and f: "map_of (sm_walks (memory\<lparr>sm_walks := jset (join [CHR 0x00] starts) (walk cx starts) (sm_walks memory)\<rparr>))
        (join [CHR 0x00] starts') = Some found"
    show "found = walk cx starts'"
    proof (cases "join [CHR 0x00] starts' = join [CHR 0x00] starts")
      case True
      then have "starts' = starts" by (rule join_nul_inj [OF s starts])
      with f show ?thesis by simp
    next
      case False
      with f kept s show ?thesis by (simp add: walksKept_def)
    qed
  qed
  with None show ?thesis by (simp add: walkDependents_def Let_def)
next
  case (Some found)
  then have "found = walk cx starts" using kept starts by (auto simp: walksKept_def)
  with Some kept show ?thesis by (simp add: walkDependents_def Let_def)
qed

lemma walks_recordWidenings [simp]: "sm_walks (recordWidenings chain memory) = sm_walks memory"
  unfolding recordWidenings_def
proof (induction "ch_links chain" arbitrary: memory)
  case (Cons l ls)
  have "sm_walks (fold (\<lambda>link m. case dl_widening link of
         Some widening \<Rightarrow> m\<lparr>sm_usedWidenings := jadd widening (sm_usedWidenings m)\<rparr>
       | None \<Rightarrow> m) xs memory) = sm_walks memory" for xs memory
    by (induction xs arbitrary: memory) (auto split: option.split)
  then show ?case .
qed simp

section \<open>The reasons given\<close>

definition reasonsAt :: "(string, SelectionReason list) jsmap \<Rightarrow> string \<Rightarrow> SelectionReason list" where
  "reasonsAt m w = (case map_of m w of Some rs \<Rightarrow> rs | None \<Rightarrow> [])"

definition reasonsMap :: "(string, SelectionReason list) jsmap \<Rightarrow> bool" where
  "reasonsMap m = (wf_map m \<and> (\<forall>w rs. map_of m w = Some rs \<longrightarrow> rs \<noteq> []))"

lemma reasonsMap_Nil [simp]: "reasonsMap []" "reasonsAt [] w = []"
  by (simp_all add: reasonsMap_def reasonsAt_def)

lemma reasonsAt_empty: "reasonsMap m \<Longrightarrow> map_of m w = None \<longleftrightarrow> reasonsAt m w = []"
  by (auto simp: reasonsMap_def reasonsAt_def split: option.splits)

lemma reasonsMap_addReasons: "reasonsMap m \<Longrightarrow> rs \<noteq> [] \<Longrightarrow> reasonsMap (addReasons workspace rs m)"
  by (auto simp: reasonsMap_def addReasons_def split: if_splits)

lemma reasonsAt_addReasons:
  "reasonsAt (addReasons workspace rs m) w = (if w = workspace then reasonsAt m w @ rs else reasonsAt m w)"
  by (simp add: reasonsAt_def addReasons_def)

abbreviation givenTo :: "string \<Rightarrow> (string \<times> 'r) list \<Rightarrow> 'r list" where
  "givenTo w given \<equiv> map snd (filter (\<lambda>p. fst p = w) given)"

lemma fold_addReason:
  "reasonsMap m \<Longrightarrow> reasonsMap (fold (\<lambda>(v, r). addReasons v [r]) given m) \<and>
     reasonsAt (fold (\<lambda>(v, r). addReasons v [r]) given m) w = reasonsAt m w @ givenTo w given"
proof (induction given arbitrary: m)
  case (Cons p given)
  obtain v r where p: "p = (v, r)" by (cases p)
  have "reasonsMap (addReasons v [r] m)" using Cons.prems by (simp add: reasonsMap_addReasons)
  from Cons.IH [OF this] show ?case by (simp add: p reasonsAt_addReasons)
qed simp

text \<open>What one trigger gives, whatever walks are kept.\<close>

definition triggerGiven :: "SelectionContext \<Rightarrow> string \<Rightarrow> PathTrigger \<Rightarrow> (string \<times> SelectionReason) list" where
  "triggerGiven cx path trigger =
     (if pt_scope trigger = Some ProjectScope then
        map (\<lambda>w. (w, \<lparr>re_path = path, re_trigger = pt_kind trigger, re_from = None, re_steps = []\<rparr>))
          (sx_vitestPaths cx)
      else map (\<lambda>entry. (fst entry, reachedReason path (pt_kind trigger) (snd entry)))
        (filter (\<lambda>entry. fst entry \<in> set (sx_vitestPaths cx)) (walk cx (pt_starts trigger))))"

definition goodTrigger :: "PathTrigger \<Rightarrow> bool" where
  "goodTrigger trigger =
     (pt_scope trigger = Some ProjectScope \<or> pt_starts trigger \<noteq> [] \<and> list_all nulFree (pt_starts trigger))"

lemma walksKept_cong: "sm_walks m = sm_walks m' \<Longrightarrow> walksKept cx m = walksKept cx m'"
  by (simp add: walksKept_def)

lemma triggerReasons_given:
  assumes kept: "walksKept cx memory" and good: "goodTrigger trigger"
  shows "fst (triggerReasons cx path trigger memory) = triggerGiven cx path trigger \<and>
     walksKept cx (snd (triggerReasons cx path trigger memory))"
proof (cases "pt_scope trigger = Some ProjectScope")
  case True
  then show ?thesis using kept by (simp add: triggerReasons_def triggerGiven_def)
next
  case False
  then have starts: "pt_starts trigger \<noteq> []" "list_all nulFree (pt_starts trigger)"
    using good by (auto simp: goodTrigger_def)
  obtain found memory' where w: "walkDependents cx (pt_starts trigger) memory = (found, memory')"
    by (cases "walkDependents cx (pt_starts trigger) memory")
  have same: "sm_walks (fold (\<lambda>entry m. if fst entry \<in> set (keys (sx_notRunnable cx)) then m
      else recordWidenings (snd entry) m) es m) = sm_walks m" for es m
    by (induction es arbitrary: m) auto
  from walkDependents_kept [OF kept starts] w have "found = walk cx (pt_starts trigger)" "walksKept cx memory'"
    by simp_all
  with False w same show ?thesis
    by (simp add: triggerReasons_def triggerGiven_def Let_def walksKept_cong [OF same])
qed

lemma collectReasons_given:
  "walksKept cx memory \<Longrightarrow> list_all goodTrigger triggers \<Longrightarrow> reasonsMap reasons \<Longrightarrow>
     reasonsMap (fst (collectReasons cx path triggers reasons memory)) \<and>
     walksKept cx (snd (collectReasons cx path triggers reasons memory)) \<and>
     reasonsAt (fst (collectReasons cx path triggers reasons memory)) w =
       reasonsAt reasons w @ flat_map (\<lambda>t. givenTo w (triggerGiven cx path t)) triggers"
proof (induction triggers arbitrary: reasons memory)
  case (Cons t triggers)
  obtain given memory' where t: "triggerReasons cx path t memory = (given, memory')"
    by (cases "triggerReasons cx path t memory")
  have g: "given = triggerGiven cx path t" "walksKept cx memory'"
    using triggerReasons_given [of cx memory t path] Cons.prems t by simp_all
  from fold_addReason [OF Cons.prems(3)] have
    "reasonsMap (fold (\<lambda>(v, r). addReasons v [r]) given reasons)"
    "reasonsAt (fold (\<lambda>(v, r). addReasons v [r]) given reasons) w = reasonsAt reasons w @ givenTo w given"
    by blast+
  with Cons.IH [OF g(2)] Cons.prems(2) show ?case by (simp add: t g flat_map_def)
qed (simp add: flat_map_def)

definition pathGiven :: "SelectionContext \<Rightarrow> string \<Rightarrow> string \<Rightarrow> SelectionReason list" where
  "pathGiven cx path w =
     (if sx_declared cx path \<noteq> None then []
      else flat_map (\<lambda>t. givenTo w (triggerGiven cx path t)) (pathTriggers cx path (pathOwner cx path)))"

definition goodContext :: "SelectionContext \<Rightarrow> bool" where
  "goodContext cx =
     (sx_vitestPaths cx = map (\<lambda>w. ws_path (sl_workspace w)) (si_workspaces (sx_input cx)) @
        map (\<lambda>n. ws_path (nr_workspace n)) (si_notRunnable (sx_input cx)) \<and>
      list_all nulFree (startPaths (sx_input cx)))"

lemma owningWorkspace_mem: "owningWorkspace path ws = Some w \<Longrightarrow> w \<in> set ws"
proof -
  have "fold (owningStep path) ws owner = Some w \<Longrightarrow> w \<in> set ws \<or> owner = Some w" for owner
    by (induction ws arbitrary: owner) (auto simp: owningStep_def split: if_splits option.splits)
  then show "owningWorkspace path ws = Some w \<Longrightarrow> w \<in> set ws"
    by (auto simp: owningWorkspace_def)
qed

lemma pathTriggers_good:
  assumes "goodContext cx"
  shows "list_all goodTrigger (pathTriggers cx path (pathOwner cx path))"
proof -
  have nf: "nulFree p" if "p \<in> set (startPaths (sx_input cx))" for p
    using assms that by (auto simp: goodContext_def list_all_iff)
  have vp: "nulFree p" if "p \<in> set (sx_vitestPaths cx)" for p
    using assms that by (intro nf) (auto simp: goodContext_def startPaths_def)
  have owner: "nulFree p" if "pathOwner cx path = Some p" for p
    using that by (intro nf) (auto simp: pathOwner_def startPaths_def dest: owningWorkspace_mem)
  have setups: "nulFree p" if "p \<in> set (setupStarts cx path files)" for p files
    using that by (intro nf) (auto simp: setupStarts_def startPaths_def)
  show ?thesis
    using vp owner setups
    by (auto simp: pathTriggers_def goodTrigger_def setupTrigger_def Let_def list_all_iff split: option.splits)
qed

lemma selectForPath_given:
  assumes "goodContext cx" "walksKept cx memory"
  shows "reasonsMap (po_reasons (fst (selectForPath cx path memory))) \<and>
     walksKept cx (snd (selectForPath cx path memory)) \<and>
     reasonsAt (po_reasons (fst (selectForPath cx path memory))) w = pathGiven cx path w"
proof (cases "sx_declared cx path")
  case (Some pattern)
  then show ?thesis using assms by (simp add: selectForPath_def pathGiven_def declaredOutcome_def)
next
  case None
  from collectReasons_given [OF assms(2) pathTriggers_good [OF assms(1)] reasonsMap_Nil(1)] None
  show ?thesis by (simp add: selectForPath_def pathGiven_def Let_def split_beta)
qed

lemma selectForPaths_given:
  "goodContext cx \<Longrightarrow> walksKept cx memory \<Longrightarrow>
     list_all (\<lambda>o'. reasonsMap (po_reasons o')) (fst (selectForPaths cx paths memory)) \<and>
     map (\<lambda>o'. reasonsAt (po_reasons o') w) (fst (selectForPaths cx paths memory)) =
       map (\<lambda>p. pathGiven cx p w) paths"
proof (induction paths arbitrary: memory)
  case (Cons path paths)
  from selectForPath_given [OF Cons.prems] Cons.IH [OF Cons.prems(1)] show ?case
    by (simp add: split_beta)
qed simp

lemma mergeOutcome_at:
  assumes "reasonsMap (po_reasons o')" "reasonsMap m"
  shows "reasonsMap (mergeOutcome cx o' m) \<and> reasonsAt (mergeOutcome cx o' m) w =
     (if w \<in> set (keys (sx_notRunnable cx)) then reasonsAt m w else reasonsAt m w @ reasonsAt (po_reasons o') w)"
proof -
  let ?f = "\<lambda>(v, rs) m. if v \<in> set (keys (sx_notRunnable cx)) then m else addReasons v rs m"
  have fold: "(\<forall>p \<in> set ps. snd p \<noteq> []) \<Longrightarrow> reasonsMap m \<Longrightarrow> reasonsMap (fold ?f ps m) \<and>
      reasonsAt (fold ?f ps m) w = (if w \<in> set (keys (sx_notRunnable cx)) then reasonsAt m w
        else reasonsAt m w @ concat (givenTo w ps))" for ps m
    by (induction ps arbitrary: m) (auto simp: reasonsMap_addReasons reasonsAt_addReasons)
  have at: "wf_map ps \<Longrightarrow> concat (givenTo w ps) = reasonsAt ps w" for ps
  proof (induction ps)
    case (Cons p ps)
    have "fst p = w \<Longrightarrow> map_of ps w = None" using Cons.prems in_keys_iff [of w ps] by auto
    then show ?case using Cons by (cases p) (auto simp: reasonsAt_def)
  qed (simp add: reasonsAt_def)
  have "\<forall>p \<in> set (po_reasons o'). snd p \<noteq> []"
    using assms(1) by (auto simp: reasonsMap_def map_of_eq_Some_mem)
  from fold [OF this assms(2)] at assms(1) show ?thesis
    unfolding mergeOutcome_def by (simp add: reasonsMap_def)
qed

lemma fold_mergeOutcome:
  "list_all (\<lambda>o'. reasonsMap (po_reasons o')) outcomes \<Longrightarrow> reasonsMap m \<Longrightarrow>
     reasonsMap (fold (mergeOutcome cx) outcomes m) \<and>
     reasonsAt (fold (mergeOutcome cx) outcomes m) w =
       (if w \<in> set (keys (sx_notRunnable cx)) then reasonsAt m w
        else reasonsAt m w @ concat (map (\<lambda>o'. reasonsAt (po_reasons o') w) outcomes))"
  by (induction outcomes arbitrary: m) (simp_all add: mergeOutcome_at)

section \<open>The links of a selection\<close>

lemma fold_addEdge:
  "(case map_of (fold addEdge es m) v of Some ls \<Rightarrow> ls | None \<Rightarrow> []) =
     (case map_of m v of Some ls \<Rightarrow> ls | None \<Rightarrow> []) @ map edgeLink (filter (\<lambda>e. de_dependency e = v) es)"
  by (induction es arbitrary: m) (auto simp: addEdge_def Let_def)

definition followed :: "(string \<Rightarrow> string option) \<Rightarrow> DependencyUncertainty \<Rightarrow> bool" where
  "followed declared u = (case du_file u of None \<Rightarrow> True | Some file \<Rightarrow> declared file = None)"

lemma followedWidenings_split:
  "fw_links (followedWidenings us declared) =
     map (\<lambda>(i, u). wideningLink i u) (filter (\<lambda>(i, u). followed declared u) (enumerate 0 us)) \<and>
   fw_leftOut (followedWidenings us declared) =
     flat_map (\<lambda>u. case du_file u of None \<Rightarrow> [] | Some file \<Rightarrow>
       (case declared file of None \<Rightarrow> [] | Some pattern \<Rightarrow> [leftOutWidening u pattern])) us"
proof -
  have "fw_links (fold (followWidening declared) es acc) =
      fw_links acc @ map (\<lambda>(i, u). wideningLink i u) (filter (\<lambda>(i, u). followed declared u) es) \<and>
    fw_leftOut (fold (followWidening declared) es acc) =
      fw_leftOut acc @ flat_map (\<lambda>u. case du_file u of None \<Rightarrow> [] | Some file \<Rightarrow>
       (case declared file of None \<Rightarrow> [] | Some pattern \<Rightarrow> [leftOutWidening u pattern])) (map snd es)" for es acc
    by (induction es arbitrary: acc) (auto simp: followWidening_def followed_def Let_def split: option.splits)
  from this [of "enumerate 0 us" "\<lparr>fw_links = [], fw_leftOut = []\<rparr>"] show ?thesis
    by (simp add: followedWidenings_def)
qed

definition declaredBy :: "SelectionInput \<Rightarrow> string \<Rightarrow> string option" where
  "declaredBy input = declaredNonInputs (si_declaration input) (si_protection input)"

lemma context_simps [simp]:
  "sx_input (selectionContext input) = input"
  "sx_declared (selectionContext input) = declaredBy input"
  "sx_vitestPaths (selectionContext input) = map (\<lambda>w. ws_path (sl_workspace w)) (si_workspaces input) @
     map (\<lambda>n. ws_path (nr_workspace n)) (si_notRunnable input)"
  "set (keys (sx_notRunnable (selectionContext input))) =
     (\<lambda>n. ws_path (nr_workspace n)) ` set (si_notRunnable input)"
  by (auto simp: selectionContext_def Let_def declaredBy_def in_keys_iff map_of_jmap_of map_of_eq_None_iff)
    (force simp: map_of_eq_None_iff)+

lemma linksFrom_context:
  "linksFrom (selectionContext input) v =
     map edgeLink (filter (\<lambda>e. de_dependency e = v) (di_edges (si_dependencies input))) @
     map (\<lambda>(i, u). wideningLink i u)
       (filter (\<lambda>(i, u). followed (declaredBy input) u) (enumerate 0 (di_uncertainties (si_dependencies input))))"
  using fold_addEdge [of "di_edges (si_dependencies input)" "[]" v]
  by (simp add: linksFrom_def selectionContext_def Let_def followedWidenings_split declaredBy_def)

text \<open>
  A change in one workspace can affect another: along an edge, or because what the other depends on
  could not be told, and the file that says so is no declared non-input.
\<close>

inductive affects :: "SelectionInput \<Rightarrow> string \<Rightarrow> string \<Rightarrow> bool" for input where
  affects_refl: "affects input v v"
| affects_edge: "affects input u v \<Longrightarrow> e \<in> set (di_edges (si_dependencies input)) \<Longrightarrow> de_dependency e = v \<Longrightarrow>
    affects input u (de_dependent e)"
| affects_widening: "affects input u v \<Longrightarrow> d \<in> set (di_uncertainties (si_dependencies input)) \<Longrightarrow>
    followed (declaredBy input) d \<Longrightarrow> affects input u (du_dependent d)"

lemma linksFrom_cases:
  "l \<in> set (linksFrom (selectionContext input) v) \<longleftrightarrow>
     (\<exists>e \<in> set (di_edges (si_dependencies input)). de_dependency e = v \<and> l = edgeLink e) \<or>
     (\<exists>i < length (di_uncertainties (si_dependencies input)).
        followed (declaredBy input) (di_uncertainties (si_dependencies input) ! i) \<and>
        l = wideningLink i (di_uncertainties (si_dependencies input) ! i))"
  by (auto simp: linksFrom_context in_set_enumerate_eq)

lemma edgeLink_workspace [simp]: "dl_workspace (edgeLink e) = de_dependent e"
  by (simp add: edgeLink_def)

lemma wideningLink_workspace [simp]: "dl_workspace (wideningLink i u) = du_dependent u"
  by (simp add: wideningLink_def)

lemma affects_iff_leads: "affects input s w \<longleftrightarrow> (\<exists>ls. leads (linksFrom (selectionContext input)) s ls w)"
proof
  assume "affects input s w"
  then show "\<exists>ls. leads (linksFrom (selectionContext input)) s ls w"
  proof (induction rule: affects.induct)
    case (affects_refl v)
    have "leads (linksFrom (selectionContext input)) v [] v" by simp
    then show ?case by blast
  next
    case (affects_edge u v e)
    then obtain ls where "leads (linksFrom (selectionContext input)) u ls v" by blast
    then have "leads (linksFrom (selectionContext input)) u (ls @ [edgeLink e]) (de_dependent e)"
      unfolding leads_snoc using affects_edge.hyps by (auto simp: linksFrom_cases)
    then show ?case by blast
  next
    case (affects_widening u v d)
    then obtain ls where ls: "leads (linksFrom (selectionContext input)) u ls v" by blast
    from affects_widening.hyps(2) obtain i where
      i: "i < length (di_uncertainties (si_dependencies input))" "di_uncertainties (si_dependencies input) ! i = d"
      by (auto simp: in_set_conv_nth)
    have "wideningLink i d \<in> set (linksFrom (selectionContext input) v)"
      unfolding linksFrom_cases using i affects_widening.hyps(3) by blast
    then have "leads (linksFrom (selectionContext input)) u (ls @ [wideningLink i d]) (du_dependent d)"
      unfolding leads_snoc using ls by auto
    then show ?case by blast
  qed
next
  assume "\<exists>ls. leads (linksFrom (selectionContext input)) s ls w"
  then obtain ls where "leads (linksFrom (selectionContext input)) s ls w" by blast
  then show "affects input s w"
  proof (induction ls arbitrary: w rule: rev_induct)
    case Nil
    then show ?case by (simp add: affects_refl)
  next
    case (snoc l ls)
    then obtain v where v: "affects input s v" "l \<in> set (linksFrom (selectionContext input) v)"
        "dl_workspace l = w" unfolding leads_snoc by blast
    from v(2) show ?case unfolding linksFrom_cases
    proof (elim disjE bexE exE conjE)
      fix e assume "e \<in> set (di_edges (si_dependencies input))" "de_dependency e = v" "l = edgeLink e"
      with affects_edge [OF v(1)] v(3) show ?thesis by auto
    next
      fix i assume i: "i < length (di_uncertainties (si_dependencies input))"
        "followed (declaredBy input) (di_uncertainties (si_dependencies input) ! i)"
        "l = wideningLink i (di_uncertainties (si_dependencies input) ! i)"
      from affects_widening [OF v(1) nth_mem [OF i(1)] i(2)] i(3) v(3) show ?thesis by simp
    qed
  qed
qed

section \<open>What is selected\<close>

definition ownerOf :: "SelectionInput \<Rightarrow> string \<Rightarrow> string option" where
  "ownerOf input path = pathOwner (selectionContext input) path"

text \<open>Where a change to a path starts, beside the project-wide triggers.\<close>

definition changeStarts :: "SelectionInput \<Rightarrow> string \<Rightarrow> string list" where
  "changeStarts input path =
     flat_map (\<lambda>t. if pt_scope t = Some ProjectScope then [] else pt_starts t)
       (pathTriggers (selectionContext input) path (ownerOf input path))"

definition projectWide :: "SelectionInput \<Rightarrow> string \<Rightarrow> bool" where
  "projectWide input path = (projectWideKinds (selectionContext input) path (ownerOf input path) \<noteq> [])"

definition canAffect :: "SelectionInput \<Rightarrow> string \<Rightarrow> string \<Rightarrow> bool" where
  "canAffect input path w =
     (declaredBy input path = None \<and>
      (projectWide input path \<or> (\<exists>s \<in> set (changeStarts input path). affects input s w)))"

lemma project_trigger:
  "(\<exists>t \<in> set (pathTriggers cx path owner). pt_scope t = Some ProjectScope) \<longleftrightarrow> projectWideKinds cx path owner \<noteq> []"
  by (cases "projectWideKinds cx path owner")
    (auto simp: pathTriggers_def setupTrigger_def Let_def split: option.splits)

lemma givenTo_ne: "givenTo w given \<noteq> [] \<longleftrightarrow> w \<in> set (map fst given)"
  by (auto simp: filter_empty_conv)

lemma flat_map_ne: "flat_map f xs \<noteq> [] \<longleftrightarrow> (\<exists>x \<in> set xs. f x \<noteq> [])"
  by (auto simp: flat_map_def)

lemma fst_triggerGiven:
  "fst ` set (triggerGiven cx path t) =
     (if pt_scope t = Some ProjectScope then set (sx_vitestPaths cx)
      else set (sx_vitestPaths cx) \<inter> set (keys (walk cx (pt_starts t))))"
  by (auto simp: triggerGiven_def image_image keys_def)

lemma triggerGiven_ne:
  "givenTo w (triggerGiven (selectionContext input) path t) \<noteq> [] \<longleftrightarrow>
     w \<in> set (sx_vitestPaths (selectionContext input)) \<and>
     (pt_scope t = Some ProjectScope \<or> (\<exists>s \<in> set (pt_starts t). affects input s w))"
proof -
  have "w \<in> set (keys (walk (selectionContext input) (pt_starts t))) \<longleftrightarrow>
      (\<exists>s \<in> set (pt_starts t). affects input s w)"
    using affected.found_iff [of w "selectionContext input" "pt_starts t"] by (simp add: affects_iff_leads)
  then show ?thesis unfolding givenTo_ne set_map fst_triggerGiven by auto
qed

lemma pathGiven_ne:
  "pathGiven (selectionContext input) path w \<noteq> [] \<longleftrightarrow>
     w \<in> set (sx_vitestPaths (selectionContext input)) \<and> canAffect input path w"
proof (cases "declaredBy input path")
  case None
  let ?ts = "pathTriggers (selectionContext input) path (ownerOf input path)"
  have "pathGiven (selectionContext input) path w \<noteq> [] \<longleftrightarrow>
      (\<exists>t \<in> set ?ts. givenTo w (triggerGiven (selectionContext input) path t) \<noteq> [])"
    using None by (simp add: pathGiven_def flat_map_ne ownerOf_def del: context_simps(3))
  also have "\<dots> \<longleftrightarrow> w \<in> set (sx_vitestPaths (selectionContext input)) \<and>
      ((\<exists>t \<in> set ?ts. pt_scope t = Some ProjectScope) \<or>
       (\<exists>t \<in> set ?ts. pt_scope t \<noteq> Some ProjectScope \<and> (\<exists>s \<in> set (pt_starts t). affects input s w)))"
    unfolding triggerGiven_ne by blast
  also have "(\<exists>t \<in> set ?ts. pt_scope t \<noteq> Some ProjectScope \<and> (\<exists>s \<in> set (pt_starts t). affects input s w)) \<longleftrightarrow>
      (\<exists>s \<in> set (changeStarts input path). affects input s w)"
    by (auto simp: changeStarts_def)
  finally show ?thesis using None by (simp add: canAffect_def projectWide_def project_trigger)
next
  case (Some pattern)
  then show ?thesis by (simp add: pathGiven_def canAffect_def)
qed

lemma acceptedPaths_iff:
  "case acceptedPaths raws paths of
     Inl (path, reason) \<Rightarrow> path \<in> set raws \<and> changedPathRefusal path = Some reason
   | Inr ps \<Rightarrow> list_all (\<lambda>raw. changedPathRefusal raw = None) raws \<and>
       set ps = set paths \<union> normalizeRelativePath ` set raws"
proof (induction raws arbitrary: paths)
  case (Cons raw raws)
  show ?case
  proof (cases "changedPathRefusal raw")
    case None
    with Cons.IH [of "jadd (normalizeRelativePath raw) paths"] show ?thesis
      by (simp split: sum.splits prod.splits)
  qed simp
qed simp

lemma selectTests_reasons:
  assumes nul: "list_all nulFree (startPaths input)"
    and accepted: "acceptedPaths (si_change input) [] = Inr paths"
    and sel: "selectTests input = Selected sel"
  obtains reasons where "reasonsMap reasons"
    and "sn_workspaces sel = selectedWorkspaces (si_workspaces input) reasons"
    and "sn_tests sel = selectedTests (si_workspaces input) reasons"
    and "\<And>w. reasonsAt reasons w =
      (if w \<in> (\<lambda>n. ws_path (nr_workspace n)) ` set (si_notRunnable input) then []
       else concat (map (\<lambda>p. pathGiven (selectionContext input) p w) paths))"
proof -
  let ?cx = "selectionContext input"
  have good: "goodContext ?cx" using nul by (simp add: goodContext_def)
  have kept: "walksKept ?cx \<lparr>sm_usedWidenings = [], sm_walks = []\<rparr>" by (simp add: walksKept_def)
  obtain outcomes memory where o': "selectForPaths ?cx paths \<lparr>sm_usedWidenings = [], sm_walks = []\<rparr> = (outcomes, memory)"
    by (cases "selectForPaths ?cx paths \<lparr>sm_usedWidenings = [], sm_walks = []\<rparr>")
  let ?reasons = "fold (mergeOutcome ?cx) outcomes []"
  have given: "list_all (\<lambda>o'. reasonsMap (po_reasons o')) outcomes"
    "map (\<lambda>o'. reasonsAt (po_reasons o') w) outcomes = map (\<lambda>p. pathGiven ?cx p w) paths" for w
    using selectForPaths_given [OF good kept, of paths w] by (simp_all add: o')
  have s: "sel = assemble ?cx outcomes memory"
    using sel accepted by (simp add: selectTests_def o' Let_def)
  have at: "reasonsAt ?reasons w =
      (if w \<in> (\<lambda>n. ws_path (nr_workspace n)) ` set (si_notRunnable input) then []
       else concat (map (\<lambda>p. pathGiven ?cx p w) paths))" for w
    using fold_mergeOutcome [OF given(1) reasonsMap_Nil(1), of ?cx w]
    unfolding given(2) context_simps(4) reasonsMap_Nil(2) append_Nil by (rule conjunct2)
  have wf: "reasonsMap ?reasons"
    using fold_mergeOutcome [OF given(1) reasonsMap_Nil(1), of ?cx] by blast
  show ?thesis
    by (rule that [OF wf _ _ at]) (simp_all add: s assemble_def Let_def del: context_simps(3))
qed

lemma selectedWorkspaces_paths:
  "w \<in> se_path ` set (selectedWorkspaces ws reasons) \<longleftrightarrow>
     w \<in> (\<lambda>s. ws_path (sl_workspace s)) ` set ws \<and> map_of reasons w \<noteq> None"
proof (induction ws)
  case Nil
  show ?case by (simp add: selectedWorkspaces_def)
next
  case (Cons s ws)
  have "se_path ` set (selectedWorkspaces (s # ws) reasons) =
      (if map_of reasons (ws_path (sl_workspace s)) = None then {} else {ws_path (sl_workspace s)}) \<union>
      se_path ` set (selectedWorkspaces ws reasons)"
    by (cases "map_of reasons (ws_path (sl_workspace s))")
      (simp_all add: selectedWorkspaces_def del: set_flat_map)
  with Cons show ?case by auto
qed

lemma selectTests_accepted:
  "case selectTests input of
     Refused path reason \<Rightarrow> acceptedPaths (si_change input) [] = Inl (path, reason)
   | Selected sel \<Rightarrow> (\<exists>paths. acceptedPaths (si_change input) [] = Inr paths)"
  by (auto simp: selectTests_def Let_def split: sum.split prod.split)

text \<open>
  C7. A change is refused for a path that is absolute or leaves the root, and otherwise a Vitest
  workspace is selected exactly when it is runnable and some changed path, in its one spelling, that
  is no declared non-input raises a project-wide trigger or starts at a workspace whose changes can
  reach it along the dependency edges and the widenings followed.
\<close>

theorem selected_workspace_iff:
  assumes "list_all nulFree (startPaths input)"
  shows "case selectTests input of
     Refused path reason \<Rightarrow> path \<in> set (si_change input) \<and> changedPathRefusal path = Some reason
   | Selected sel \<Rightarrow> list_all (\<lambda>raw. changedPathRefusal raw = None) (si_change input) \<and>
       set (map se_path (sn_workspaces sel)) =
         {w \<in> set (map (\<lambda>s. ws_path (sl_workspace s)) (si_workspaces input)).
            w \<notin> set (map (\<lambda>n. ws_path (nr_workspace n)) (si_notRunnable input)) \<and>
            (\<exists>raw \<in> set (si_change input). canAffect input (normalizeRelativePath raw) w)}"
proof (cases "selectTests input")
  case (Refused path reason)
  with selectTests_accepted [of input] acceptedPaths_iff [of "si_change input" "[]"] show ?thesis by simp
next
  case (Selected sel)
  with selectTests_accepted [of input] obtain paths where p: "acceptedPaths (si_change input) [] = Inr paths"
    by auto
  from selectTests_reasons [OF assms p Selected] obtain reasons where
    r: "reasonsMap reasons" "sn_workspaces sel = selectedWorkspaces (si_workspaces input) reasons"
      "\<And>w. reasonsAt reasons w =
      (if w \<in> (\<lambda>n. ws_path (nr_workspace n)) ` set (si_notRunnable input) then []
       else concat (map (\<lambda>p. pathGiven (selectionContext input) p w) paths))" by metis
  have paths: "set paths = normalizeRelativePath ` set (si_change input)"
    "list_all (\<lambda>raw. changedPathRefusal raw = None) (si_change input)"
    using acceptedPaths_iff [of "si_change input" "[]"] p by simp_all
  have "map_of reasons w \<noteq> None \<longleftrightarrow> w \<notin> (\<lambda>n. ws_path (nr_workspace n)) ` set (si_notRunnable input) \<and>
      (\<exists>p \<in> set paths. w \<in> set (sx_vitestPaths (selectionContext input)) \<and> canAffect input p w)" for w
    unfolding reasonsAt_empty [OF r(1)] r(3) pathGiven_ne [symmetric] by auto
  then have "set (map se_path (sn_workspaces sel)) =
         {w \<in> set (map (\<lambda>s. ws_path (sl_workspace s)) (si_workspaces input)).
            w \<notin> set (map (\<lambda>n. ws_path (nr_workspace n)) (si_notRunnable input)) \<and>
            (\<exists>raw \<in> set (si_change input). canAffect input (normalizeRelativePath raw) w)}"
    unfolding set_map r(2) set_eq_iff selectedWorkspaces_paths paths(1) by auto
  with Selected paths(2) show ?thesis by simp
qed

section \<open>What is reported of a path\<close>

lemma fold_reportWorkspace:
  "map ps_workspace (fst (fold (reportWorkspace cx reasons) ws acc)) =
     map ps_workspace (fst acc) @
     filter (\<lambda>w. map_of reasons w \<noteq> None \<and> w \<notin> set (keys (sx_notRunnable cx))) ws"
  by (induction ws arbitrary: acc) (auto simp: reportWorkspace_def in_keys_iff split: option.splits)

lemma pathReport_simps:
  "cp_path (pathReport cx path owner triggers reasons) = path"
  "map ps_workspace (cp_selected (pathReport cx path owner triggers reasons)) =
     filter (\<lambda>w. map_of reasons w \<noteq> None \<and> w \<notin> set (keys (sx_notRunnable cx))) (sx_vitestPaths cx)"
  "map_option fst (cp_nothingSelected (pathReport cx path owner triggers reasons)) \<noteq> Some DeclaredNonInput"
  using fold_reportWorkspace [of cx reasons "sx_vitestPaths cx" "([], [])"]
  by (simp_all add: pathReport_def nothingSelectedReason_def split_beta Let_def)

lemma selectForPath_report:
  fixes path :: string
  assumes "goodContext cx" "walksKept cx memory"
  defines "report \<equiv> po_report (fst (selectForPath cx path memory))"
  shows "cp_path report = path \<and>
     (map_option fst (cp_nothingSelected report) = Some DeclaredNonInput \<longleftrightarrow> sx_declared cx path \<noteq> None) \<and>
     map ps_workspace (cp_selected report) = (if sx_declared cx path \<noteq> None then []
        else filter (\<lambda>w. pathGiven cx path w \<noteq> [] \<and> w \<notin> set (keys (sx_notRunnable cx))) (sx_vitestPaths cx))"
proof (cases "sx_declared cx path")
  case (Some pattern)
  then show ?thesis by (simp add: report_def selectForPath_def declaredOutcome_def)
next
  case None
  let ?rs = "fst (collectReasons cx path (pathTriggers cx path (pathOwner cx path)) [] memory)"
  have "po_reasons (fst (selectForPath cx path memory)) = ?rs"
    using None by (simp add: selectForPath_def split_beta Let_def)
  then have rs: "reasonsMap ?rs" "reasonsAt ?rs w = pathGiven cx path w" for w
    using selectForPath_given [OF assms(1,2), of path w] by simp_all
  have given: "map_of ?rs w \<noteq> None \<longleftrightarrow> pathGiven cx path w \<noteq> []" for w
    using reasonsAt_empty [OF rs(1), of w] by (simp add: rs(2))
  have "report = pathReport cx path (pathOwner cx path) (pathTriggers cx path (pathOwner cx path)) ?rs"
    using None by (simp add: report_def selectForPath_def split_beta Let_def)
  then show ?thesis using None pathReport_simps(3) by (simp add: pathReport_simps(1,2) given del: not_None_eq)
qed

text \<open>The workspaces a report names are those the path can affect, none for a declared non-input, which it says.\<close>

definition reportedFor :: "SelectionInput \<Rightarrow> string \<Rightarrow> ChangedPathReport \<Rightarrow> bool" where
  "reportedFor input path report =
     (cp_path report = path \<and>
      (map_option fst (cp_nothingSelected report) = Some DeclaredNonInput \<longleftrightarrow> declaredBy input path \<noteq> None) \<and>
      set (map ps_workspace (cp_selected report)) =
        {w \<in> set (sx_vitestPaths (selectionContext input)).
           canAffect input path w \<and> w \<notin> (\<lambda>n. ws_path (nr_workspace n)) ` set (si_notRunnable input)})"

lemma selectForPaths_reports:
  "goodContext (selectionContext input) \<Longrightarrow> walksKept (selectionContext input) memory \<Longrightarrow>
     list_all2 (reportedFor input) paths
       (map po_report (fst (selectForPaths (selectionContext input) paths memory)))"
proof (induction paths arbitrary: memory)
  case (Cons path paths)
  let ?cx = "selectionContext input"
  have "reportedFor input path (po_report (fst (selectForPath ?cx path memory)))"
    using selectForPath_report [OF Cons.prems, of path] pathGiven_ne [of input path]
    unfolding reportedFor_def by (auto simp: canAffect_def simp del: context_simps(3))
  moreover have "walksKept ?cx (snd (selectForPath ?cx path memory))"
    using selectForPath_given [OF Cons.prems] by blast
  ultimately show ?case using Cons.IH [OF Cons.prems(1)] by (simp add: split_beta)
qed simp

lemma acceptedPaths_Inr:
  "list_all (\<lambda>raw. changedPathRefusal raw = None) raws \<Longrightarrow>
     acceptedPaths raws paths = Inr (fold jadd (map normalizeRelativePath raws) paths)"
  by (induction raws arbitrary: paths) auto

lemma selectTests_reports:
  assumes "list_all nulFree (startPaths input)" "list_all (\<lambda>raw. changedPathRefusal raw = None) (si_change input)"
  obtains sel where "selectTests input = Selected sel"
    "list_all2 (reportedFor input) (uniq (map normalizeRelativePath (si_change input))) (sn_paths sel)"
proof -
  let ?cx = "selectionContext input"
  let ?ps = "uniq (map normalizeRelativePath (si_change input))"
  have good: "goodContext ?cx" using assms(1) by (simp add: goodContext_def)
  have kept: "walksKept ?cx \<lparr>sm_usedWidenings = [], sm_walks = []\<rparr>" by (simp add: walksKept_def)
  have acc: "acceptedPaths (si_change input) [] = Inr ?ps"
    using acceptedPaths_Inr [OF assms(2), of "[]"] by (simp add: uniq_def)
  show ?thesis
    by (rule that [of "assemble ?cx (fst (selectForPaths ?cx ?ps \<lparr>sm_usedWidenings = [], sm_walks = []\<rparr>))
          (snd (selectForPaths ?cx ?ps \<lparr>sm_usedWidenings = [], sm_walks = []\<rparr>))"])
      (simp_all add: selectTests_def acc split_beta Let_def assemble_def
        selectForPaths_reports [OF good kept] del: context_simps(3))
qed

section \<open>What a reason says\<close>

definition shortestChain :: "SelectionInput \<Rightarrow> string list \<Rightarrow> string \<Rightarrow> DependentLink list \<Rightarrow> string \<Rightarrow> bool" where
  "shortestChain input starts s ls w =
     (s \<in> set starts \<and> leads (linksFrom (selectionContext input)) s ls w \<and>
      (\<forall>s' \<in> set starts. \<forall>ls'. leads (linksFrom (selectionContext input)) s' ls' w \<longrightarrow> length ls \<le> length ls'))"

definition reasonHolds :: "SelectionInput \<Rightarrow> string \<Rightarrow> SelectionReason \<Rightarrow> bool" where
  "reasonHolds input w r =
     (re_path r \<in> normalizeRelativePath ` set (si_change input) \<and> declaredBy input (re_path r) = None \<and>
      (\<exists>t \<in> set (pathTriggers (selectionContext input) (re_path r) (ownerOf input (re_path r))).
         pt_kind t = re_trigger r \<and>
         (if pt_scope t = Some ProjectScope then re_from r = None \<and> re_steps r = []
          else \<exists>s ls. re_from r = Some s \<and> re_steps r = map dl_step ls \<and>
            shortestChain input (pt_starts t) s ls w)))"

lemma walk_shortestChain:
  "map_of (walk (selectionContext input) starts) w = Some c \<Longrightarrow>
     shortestChain input starts (ch_from c) (ch_links c) w"
  unfolding shortestChain_def
  using affected.chain_leads [of "selectionContext input" starts w c]
    affected.chain_shortest [of "selectionContext input" starts w c] by blast

lemma wf_walk: "wf_map (walk cx starts)"
proof -
  have visit: "wf_map m \<Longrightarrow> wf_map (fst (fold (visitLink chain) ls (m, q)))" for chain ls m q
    by (induction ls arbitrary: m q) (auto simp: visitLink_def)
  have loop: "wf_map found \<Longrightarrow> wf_map (walkLoop cx queue found)" for queue found
  proof (induction cx queue found rule: walkLoop.induct)
    case (2 cx current queue found)
    show ?case
    proof (cases "map_of found current")
      case None
      with 2 show ?thesis by simp
    next
      case (Some chain)
      obtain found' pushed where step: "fold (visitLink chain) (linksFrom cx current) (found, []) = (found', pushed)"
        by (cases "fold (visitLink chain) (linksFrom cx current) (found, [])")
      have "wf_map found'" using visit [OF "2.prems", of chain "linksFrom cx current" "[]"] by (simp add: step)
      from "2.IH"(2) [OF Some step [symmetric] refl this] show ?thesis by (simp add: Some step)
    qed
  qed simp
  have "wf_map (fst (fold startWalk starts acc))" if "wf_map (fst acc)" for acc
    using that by (induction starts arbitrary: acc) (auto simp: startWalk_def)
  from loop [OF this [of "([], [])"]] show ?thesis by (simp add: walk_def split_beta)
qed

lemma pathGiven_holds:
  assumes r: "r \<in> set (pathGiven (selectionContext input) path w)"
    and path: "path \<in> normalizeRelativePath ` set (si_change input)"
  shows "reasonHolds input w r"
proof -
  have d: "declaredBy input path = None"
    using r by (auto simp: pathGiven_def split: if_splits)
  from r obtain t where t: "t \<in> set (pathTriggers (selectionContext input) path (ownerOf input path))"
      "(w, r) \<in> set (triggerGiven (selectionContext input) path t)"
    using d by (auto simp: pathGiven_def ownerOf_def)
  show ?thesis
  proof (cases "pt_scope t = Some ProjectScope")
    case True
    with t(2) have "r = \<lparr>re_path = path, re_trigger = pt_kind t, re_from = None, re_steps = []\<rparr>"
      unfolding triggerGiven_def by auto
    then show ?thesis using True t(1) d path by (auto simp: reasonHolds_def)
  next
    case False
    with t(2) obtain c where c: "(w, c) \<in> set (walk (selectionContext input) (pt_starts t))"
        "r = reachedReason path (pt_kind t) c"
      unfolding triggerGiven_def by auto
    have "map_of (walk (selectionContext input) (pt_starts t)) w = Some c"
      using c(1) wf_walk by (simp add: map_of_eq_Some_mem)
    from walk_shortestChain [OF this] False t(1) d path c(2) show ?thesis
      unfolding reasonHolds_def reachedReason_def by auto
  qed
qed

lemma selectedWorkspaces_reasons:
  "s \<in> set (selectedWorkspaces ws reasons) \<Longrightarrow> se_reasons s = reasonsAt reasons (se_path s)"
  by (auto simp: selectedWorkspaces_def reasonsAt_def split: option.splits)

text \<open>
  C21. Every reason an answer gives for a selected workspace holds: it names a changed path that is no
  declared non-input and a trigger that path raises, and for a trigger that is not project-wide a start
  of it with the steps of a chain of dependents from there to the workspace, one as short as any from
  any of its starts.
\<close>

theorem selection_reasons_hold:
  assumes "list_all nulFree (startPaths input)"
  shows "case selectTests input of
     Refused path reason \<Rightarrow> changedPathRefusal path \<noteq> None
   | Selected sel \<Rightarrow>
       list_all (\<lambda>s. se_reasons s \<noteq> [] \<and> list_all (reasonHolds input (se_path s)) (se_reasons s)) (sn_workspaces sel)"
proof (cases "selectTests input")
  case (Refused path reason)
  with selectTests_accepted [of input] acceptedPaths_iff [of "si_change input" "[]"] show ?thesis by simp
next
  case (Selected sel)
  with selectTests_accepted [of input] obtain paths where p: "acceptedPaths (si_change input) [] = Inr paths"
    by auto
  from selectTests_reasons [OF assms p Selected] obtain reasons where
    r: "reasonsMap reasons" "sn_workspaces sel = selectedWorkspaces (si_workspaces input) reasons"
      "\<And>w. reasonsAt reasons w =
      (if w \<in> (\<lambda>n. ws_path (nr_workspace n)) ` set (si_notRunnable input) then []
       else concat (map (\<lambda>p. pathGiven (selectionContext input) p w) paths))" by metis
  have paths: "set paths = normalizeRelativePath ` set (si_change input)"
    using acceptedPaths_iff [of "si_change input" "[]"] p by simp
  have "se_reasons s \<noteq> [] \<and> list_all (reasonHolds input (se_path s)) (se_reasons s)"
    if s: "s \<in> set (sn_workspaces sel)" for s
  proof -
    have at: "se_reasons s = reasonsAt reasons (se_path s)"
      using s selectedWorkspaces_reasons by (simp add: r(2))
    have "se_path s \<in> se_path ` set (selectedWorkspaces (si_workspaces input) reasons)"
      using s by (simp add: r(2))
    then have "map_of reasons (se_path s) \<noteq> None" by (simp only: selectedWorkspaces_paths simp_thms)
    then have ne: "se_reasons s \<noteq> []"
      using reasonsAt_empty [OF r(1), of "se_path s"] by (simp add: at)
    have "reasonHolds input (se_path s) q" if q: "q \<in> set (se_reasons s)" for q
    proof -
      from q obtain path where "path \<in> set paths" "q \<in> set (pathGiven (selectionContext input) path (se_path s))"
        unfolding at r(3) by (auto split: if_splits)
      then show ?thesis by (intro pathGiven_holds) (simp_all only: paths)
    qed
    with ne show ?thesis by (simp add: list_all_iff)
  qed
  with Selected show ?thesis by (simp add: list_all_iff)
qed

text \<open>A library and an application that depends on it, and a change in the library.\<close>

definition sampleInput :: SelectionInput where
  "sampleInput =
     (let lib = \<lparr>ws_path = ''lib'', ws_directory = ''/r/lib''\<rparr>; app = \<lparr>ws_path = ''app'', ws_directory = ''/r/app''\<rparr> in
     \<lparr>si_change = [''lib/x.ts''],
      si_dependencies = \<lparr>di_packageWorkspaces = [\<lparr>ws_path = ''.'', ws_directory = ''/r''\<rparr>, lib, app],
        di_notRead = [], di_withoutManifest = [],
        di_edges = [\<lparr>de_dependent = ''app'', de_dependency = ''lib'', de_producer = ProducerManifest, de_detail = []\<rparr>],
        di_uncertainties = []\<rparr>,
      si_workspaces = [\<lparr>sl_workspace = app, sl_tests = KnownTests [], sl_setupFiles = [], sl_globalSetupFiles = []\<rparr>],
      si_notRunnable = [], si_vitestListingNotRead = [], si_declaration = NonInputsAbsent,
      si_protection = NotApplying []\<rparr>)"

lemma sampleInput_ok: "list_all nulFree (startPaths sampleInput)"
  by (simp add: sampleInput_def startPaths_def nulFree_def Let_def)

lemma sample_selects:
  "case selectTests sampleInput of
     Selected sel \<Rightarrow> map se_path (sn_workspaces sel) = [''app''] | Refused path reason \<Rightarrow> False"
  by code_simp

theorem selected_workspace_iff_witness:
  "(case selectTests sampleInput of
     Selected sel \<Rightarrow> map se_path (sn_workspaces sel) = [''app''] | Refused path reason \<Rightarrow> False) \<and>
   list_all nulFree (startPaths sampleInput) \<and>
   (case selectTests sampleInput of
     Refused path reason \<Rightarrow> path \<in> set (si_change sampleInput) \<and> changedPathRefusal path = Some reason
   | Selected sel \<Rightarrow> list_all (\<lambda>raw. changedPathRefusal raw = None) (si_change sampleInput) \<and>
       set (map se_path (sn_workspaces sel)) =
         {w \<in> set (map (\<lambda>s. ws_path (sl_workspace s)) (si_workspaces sampleInput)).
            w \<notin> set (map (\<lambda>n. ws_path (nr_workspace n)) (si_notRunnable sampleInput)) \<and>
            (\<exists>raw \<in> set (si_change sampleInput). canAffect sampleInput (normalizeRelativePath raw) w)})"
  by (rule conjI [OF sample_selects conjI [OF sampleInput_ok selected_workspace_iff [OF sampleInput_ok]]])

theorem selection_reasons_hold_witness:
  "list_all nulFree (startPaths sampleInput) \<and>
   (case selectTests sampleInput of
     Refused path reason \<Rightarrow> changedPathRefusal path \<noteq> None
   | Selected sel \<Rightarrow>
       list_all (\<lambda>s. se_reasons s \<noteq> [] \<and> list_all (reasonHolds sampleInput (se_path s)) (se_reasons s))
         (sn_workspaces sel))"
  by (rule conjI [OF sampleInput_ok selection_reasons_hold [OF sampleInput_ok]])

end
