(* ===== verification/Narrowing.thy ===== *)
theory Narrowing
  imports SelectionCorrect ChangeRecord
begin

text \<open>
  Which inputs each workspace depends on (\<^verbatim>\<open>inputs/narrowed-inputs.ts\<close>, with \<^verbatim>\<open>ProjectInputs\<close> of
  \<^verbatim>\<open>inputs/fingerprint.ts\<close>): a dependency build places a changed path among the workspaces selection
  picks for it, remembering each path it placed, and gives every workspace the inputs its selection
  includes. Selection is \<^verbatim>\<open>SelectTests\<close>; the identity of a build's narrowing is a type parameter
  wherever only the identity is read.
\<close>

section \<open>The data\<close>

record ProjectInputs =
  pi_root :: string
  pi_digests :: InputDigests
  pi_listed :: InputDigests

text \<open>\<^verbatim>\<open>comparedDigests\<close>: the digests with those of the listed files they leave out.\<close>

definition comparedDigests :: "ProjectInputs \<Rightarrow> InputDigests" where
  "comparedDigests project =
     (if pi_listed project = [] then pi_digests project else jmap_of (pi_listed project @ pi_digests project))"

datatype BuildFailureKind = DependencyBuildFailed | DependencyBuildTimedOut

datatype NotNarrowedKind =
    BuildFailure BuildFailureKind
  | DependencyBuildsEnded
  | NoSelectionInput
  | SelectionRefused

record InputsNotNarrowed =
  inn_kind :: NotNarrowedKind
  inn_reason :: string

text \<open>\<^verbatim>\<open>'n\<close> stands for a build's narrowing.\<close>

datatype 'n EndedBuild =
    Built (eb_revision: nat) (eb_narrowing: 'n)
  | NotBuilt (eb_revision: nat) (eb_kind: BuildFailureKind) (eb_reason: string)

datatype 'n NarrowingState =
    WithoutSelectionInput (ns_discoveryId: string) (ns_reason: string)
  | WithSelectionInput (ns_discoveryId: string) (ns_latest: "'n EndedBuild option")
      (ns_lastFailure: "(BuildFailureKind \<times> string) option")

record 'n QueryNarrowing =
  qn_discoveryId :: "string option"
  qn_state :: "'n NarrowingState option"
  qn_buildsEnded :: "string option"

datatype 'n WorkspaceNarrowing =
    Narrowed 'n
  | Building string "InputsNotNarrowed option"
  | Widened InputsNotNarrowed

definition building :: "nat \<Rightarrow> InputsNotNarrowed option \<Rightarrow> 'n WorkspaceNarrowing" where
  "building revision notNarrowed =
     Building (''the dependency build that decides its inputs at input revision '' @ show_nat revision @
       '' has not ended'') notNarrowed"

definition narrowingAt :: "'n QueryNarrowing \<Rightarrow> nat \<Rightarrow> 'n WorkspaceNarrowing" where
  "narrowingAt query revision =
     (case qn_buildsEnded query of
        Some ended \<Rightarrow> Widened \<lparr>inn_kind = DependencyBuildsEnded, inn_reason = ended\<rparr>
      | None \<Rightarrow>
          (case qn_state query of
             None \<Rightarrow> building revision None
           | Some state \<Rightarrow>
               (if Some (ns_discoveryId state) \<noteq> qn_discoveryId query then building revision None
                else case state of
                  WithoutSelectionInput _ reason \<Rightarrow>
                    Widened \<lparr>inn_kind = NoSelectionInput, inn_reason = reason\<rparr>
                | WithSelectionInput _ latest lastFailure \<Rightarrow>
                    (case latest of
                       None \<Rightarrow> building revision (map_option (\<lambda>(kind, reason).
                         \<lparr>inn_kind = BuildFailure kind, inn_reason = reason\<rparr>) lastFailure)
                     | Some build \<Rightarrow>
                         (if eb_revision build \<noteq> revision then
                            building revision (map_option (\<lambda>(kind, reason).
                              \<lparr>inn_kind = BuildFailure kind, inn_reason = reason\<rparr>) lastFailure)
                          else case build of
                            Built _ build' \<Rightarrow> Narrowed build'
                          | NotBuilt _ kind reason \<Rightarrow>
                              Widened \<lparr>inn_kind = BuildFailure kind, inn_reason = reason\<rparr>)))))"

section \<open>Placing paths over one build\<close>

record DiscoveredSelectionInput =
  ds_workspaces :: "SelectableWorkspace list"
  ds_notRunnable :: "NotRunnableWorkspace list"
  ds_vitestListingNotRead :: "UnreadWorkspaceSource list"
  ds_declaration :: NonInputsDeclaration
  ds_protection :: Protection

definition selectionInputOf :: "DiscoveredSelectionInput \<Rightarrow> DependencyInformation \<Rightarrow> string list \<Rightarrow> SelectionInput" where
  "selectionInputOf input dependencies paths =
     \<lparr>si_change = paths, si_dependencies = dependencies, si_workspaces = ds_workspaces input,
      si_notRunnable = ds_notRunnable input, si_vitestListingNotRead = ds_vitestListingNotRead input,
      si_declaration = ds_declaration input, si_protection = ds_protection input\<rparr>"

record PathPlacement =
  pp_inside :: "string list"
  pp_widened :: "string list"

text \<open>Where each placed path lies; \<open>None\<close> is the source's \<^verbatim>\<open>REFUSED\<close>.\<close>

record BuildPlacement =
  bp_input :: DiscoveredSelectionInput
  bp_dependencies :: DependencyInformation
  bp_placed :: "(string, string list option) jsmap"

definition newPlacement :: "DiscoveredSelectionInput \<Rightarrow> DependencyInformation \<Rightarrow> BuildPlacement" where
  "newPlacement input dependencies =
     \<lparr>bp_input = input, bp_dependencies = dependencies, bp_placed = []\<rparr>"

definition selectOver :: "BuildPlacement \<Rightarrow> string list \<Rightarrow> SelectionOutcome" where
  "selectOver b paths = selectTests (selectionInputOf (bp_input b) (bp_dependencies b) paths)"

definition everyWorkspace :: "DiscoveredSelectionInput \<Rightarrow> string list" where
  "everyWorkspace input = map (\<lambda>w. ws_path (sl_workspace w)) (ds_workspaces input)"

definition includingWorkspaces :: "ChangedPathReport \<Rightarrow> string list \<Rightarrow> string list" where
  "includingWorkspaces report every =
     (if map_option fst (cp_nothingSelected report) = Some DeclaredNonInput then every
      else map ps_workspace (cp_selected report))"

definition byReportedPath :: "string list \<Rightarrow> (string, string list) jsmap" where
  "byReportedPath paths =
     fold (\<lambda>path m. let reported = normalizeRelativePath path in
       jset reported ((case map_of m reported of Some ps \<Rightarrow> ps | None \<Rightarrow> []) @ [path]) m) paths []"

definition includingByPath :: "Selection \<Rightarrow> string list \<Rightarrow> DiscoveredSelectionInput \<Rightarrow> (string, string list) jsmap" where
  "includingByPath selection paths input =
     (let reported = byReportedPath paths in
      fold (\<lambda>report m.
          fold (\<lambda>path. jset path (includingWorkspaces report (everyWorkspace input)))
            (case map_of reported (cp_path report) of Some ps \<Rightarrow> ps | None \<Rightarrow> []) m)
        (sn_paths selection) [])"

text \<open>\<^verbatim>\<open>#placeUnplaced\<close>.\<close>

definition placeUnplaced :: "string list \<Rightarrow> BuildPlacement \<Rightarrow> BuildPlacement" where
  "placeUnplaced paths b =
     (let selectable = filter (\<lambda>path. changedPathRefusal path = None) paths;
          refused = filter (\<lambda>path. changedPathRefusal path \<noteq> None) paths;
          b1 = b\<lparr>bp_placed := fold (\<lambda>path. jset path None) refused (bp_placed b)\<rparr> in
      if selectable = [] then b1
      else
        (let including = (case selectOver b1 selectable of
               Refused _ _ \<Rightarrow> None
             | Selected selection \<Rightarrow> Some (includingByPath selection selectable (bp_input b1)))
         in b1\<lparr>bp_placed := fold (\<lambda>path. jset path
              (case including of
                 None \<Rightarrow> None
               | Some m \<Rightarrow> Some (case map_of m path of Some ws \<Rightarrow> ws | None \<Rightarrow> [])))
              selectable (bp_placed b1)\<rparr>))"

definition place :: "string list \<Rightarrow> string \<Rightarrow> BuildPlacement \<Rightarrow> PathPlacement \<times> BuildPlacement" where
  "place paths wsPath b =
     (if wsPath \<notin> set (everyWorkspace (bp_input b)) then (\<lparr>pp_inside = [], pp_widened = paths\<rparr>, b)
      else
        (let b' = placeUnplaced (filter (\<lambda>path. path \<notin> set (keys (bp_placed b))) paths) b in
         (\<lparr>pp_inside = filter (\<lambda>path. case map_of (bp_placed b') path of
               Some (Some ws) \<Rightarrow> wsPath \<in> set ws | _ \<Rightarrow> False) paths,
           pp_widened = filter (\<lambda>path. map_of (bp_placed b') path = Some None) paths\<rparr>, b')))"

section \<open>The narrowed sets\<close>

datatype NarrowedSets = SetsOf "(string, ProjectInputs) jsmap" | SetsRefused string

definition addMember :: "string \<Rightarrow> string \<Rightarrow> string \<Rightarrow> (string, InputDigests) jsmap \<Rightarrow> (string, InputDigests) jsmap" where
  "addMember path digest workspace members =
     (case map_of members workspace of
        Some digests \<Rightarrow> jset workspace (jset path digest digests) members
      | None \<Rightarrow> members)"

definition narrowedSets :: "ProjectInputs \<Rightarrow> BuildPlacement \<Rightarrow> NarrowedSets" where
  "narrowedSets project b =
     (let paths = keys (pi_digests project) in
      case selectOver b paths of
        Refused _ reason \<Rightarrow> SetsRefused reason
      | Selected selection \<Rightarrow>
          (let members = jmap_of (map (\<lambda>w. (w, [])) (everyWorkspace (bp_input b)));
               filled = fold (\<lambda>(path, workspaces) m.
                   case map_of (pi_digests project) path of
                     None \<Rightarrow> m
                   | Some digest \<Rightarrow> fold (addMember path digest) workspaces m)
                 (includingByPath selection paths (bp_input b)) members
           in SetsOf (map (\<lambda>(workspace, digests).
                (workspace, \<lparr>pi_root = pi_root project, pi_digests = digests, pi_listed = []\<rparr>)) filled)))"

text \<open>\<^verbatim>\<open>heard\<close> holds the reasons the refusal listener was given.\<close>

record Narrowing =
  nw_placement :: BuildPlacement
  nw_sets :: "NarrowedSets option"
  nw_heard :: "string list"

definition newNarrowing :: "DiscoveredSelectionInput \<Rightarrow> DependencyInformation \<Rightarrow> Narrowing" where
  "newNarrowing input dependencies =
     \<lparr>nw_placement = newPlacement input dependencies, nw_sets = None, nw_heard = []\<rparr>"

text \<open>\<^verbatim>\<open>#setsFor\<close>: computed once, from the first project given.\<close>

definition setsFor :: "ProjectInputs \<Rightarrow> Narrowing \<Rightarrow> NarrowedSets \<times> Narrowing" where
  "setsFor project n =
     (case nw_sets n of
        Some sets \<Rightarrow> (sets, n)
      | None \<Rightarrow>
          (let sets = narrowedSets project (nw_placement n) in
           (sets, n\<lparr>nw_sets := Some sets,
              nw_heard := (case sets of SetsRefused reason \<Rightarrow> nw_heard n @ [reason] | SetsOf _ \<Rightarrow> nw_heard n)\<rparr>)))"

definition refusal :: "ProjectInputs \<Rightarrow> Narrowing \<Rightarrow> string option \<times> Narrowing" where
  "refusal project n =
     (let (sets, n') = setsFor project n
      in (case sets of SetsRefused reason \<Rightarrow> Some reason | SetsOf _ \<Rightarrow> None, n'))"

definition workspaceInputs :: "ProjectInputs \<Rightarrow> string \<Rightarrow> Narrowing \<Rightarrow> ProjectInputs \<times> Narrowing" where
  "workspaceInputs project wsPath n =
     (let (sets, n') = setsFor project n
      in (case sets of
            SetsRefused _ \<Rightarrow> project
          | SetsOf m \<Rightarrow> (case map_of m wsPath of Some inputs \<Rightarrow> inputs | None \<Rightarrow> project), n'))"

section \<open>Where a path lies\<close>

text \<open>The discovered input and the dependencies of a build, with no change.\<close>

definition buildInput :: "BuildPlacement \<Rightarrow> SelectionInput" where
  "buildInput b = selectionInputOf (bp_input b) (bp_dependencies b) []"

lemma context_change:
  "selectionContext (input\<lparr>si_change := ps\<rparr>) = (selectionContext input)\<lparr>sx_input := input\<lparr>si_change := ps\<rparr>\<rparr>"
  by (simp add: selectionContext_def Let_def)

lemma declaredBy_change [simp]: "declaredBy (input\<lparr>si_change := ps\<rparr>) = declaredBy input"
  by (simp add: declaredBy_def fun_eq_iff)

lemma linksFrom_change: "linksFrom (selectionContext (input\<lparr>si_change := ps\<rparr>)) = linksFrom (selectionContext input)"
  by (simp add: fun_eq_iff linksFrom_context)

lemma affects_change [simp]: "affects (input\<lparr>si_change := ps\<rparr>) = affects input"
  by (simp add: fun_eq_iff affects_iff_leads linksFrom_change)

lemma setupStarts_change: "setupStarts (cx\<lparr>sx_input := (sx_input cx)\<lparr>si_change := ps\<rparr>\<rparr>) path files = setupStarts cx path files"
  by (simp add: setupStarts_def)

lemma pathTriggers_change:
  "pathTriggers (cx\<lparr>sx_input := (sx_input cx)\<lparr>si_change := ps\<rparr>\<rparr>) path owner = pathTriggers cx path owner"
  "projectWideKinds (cx\<lparr>sx_input := (sx_input cx)\<lparr>si_change := ps\<rparr>\<rparr>) path owner = projectWideKinds cx path owner"
  "pathOwner (cx\<lparr>sx_input := (sx_input cx)\<lparr>si_change := ps\<rparr>\<rparr>) path = pathOwner cx path"
  by (cases owner; simp add: pathTriggers_def projectWideKinds_def pathOwner_def setupTrigger_def
      setupStarts_change Let_def)+

lemma canAffect_change [simp]: "canAffect (input\<lparr>si_change := ps\<rparr>) path w = canAffect input path w"
proof -
  have cx: "selectionContext (input\<lparr>si_change := ps\<rparr>) =
      (selectionContext input)\<lparr>sx_input := (sx_input (selectionContext input))\<lparr>si_change := ps\<rparr>\<rparr>"
    by (simp only: context_change context_simps(1))
  show ?thesis
    by (simp only: canAffect_def projectWide_def changeStarts_def ownerOf_def cx pathTriggers_change
        affects_change declaredBy_change)
qed

lemma reportedFor_change [simp]: "reportedFor (input\<lparr>si_change := ps\<rparr>) = reportedFor input"
  by (simp add: fun_eq_iff reportedFor_def)

lemma selectionInputOf_change:
  "selectionInputOf i d ps = (selectionInputOf i d [])\<lparr>si_change := ps\<rparr>"
  by (simp add: selectionInputOf_def)

lemma selectOver_reports:
  assumes "list_all nulFree (startPaths (buildInput b))" "list_all (\<lambda>p. changedPathRefusal p = None) ps"
  obtains sel where "selectOver b ps = Selected sel"
    "list_all2 (reportedFor (buildInput b)) (uniq (map normalizeRelativePath ps)) (sn_paths sel)"
proof -
  have i: "selectionInputOf (bp_input b) (bp_dependencies b) ps = (buildInput b)\<lparr>si_change := ps\<rparr>"
    unfolding buildInput_def by (rule selectionInputOf_change)
  have nul: "list_all nulFree (startPaths ((buildInput b)\<lparr>si_change := ps\<rparr>))"
    using assms(1) by (simp add: startPaths_def)
  have acc: "list_all (\<lambda>p. changedPathRefusal p = None) (si_change ((buildInput b)\<lparr>si_change := ps\<rparr>))"
    using assms(2) by simp
  obtain sel where "selectTests ((buildInput b)\<lparr>si_change := ps\<rparr>) = Selected sel"
    "list_all2 (reportedFor ((buildInput b)\<lparr>si_change := ps\<rparr>))
      (uniq (map normalizeRelativePath (si_change ((buildInput b)\<lparr>si_change := ps\<rparr>)))) (sn_paths sel)"
    by (rule selectTests_reports [OF nul acc])
  then show ?thesis using that by (simp add: selectOver_def i)
qed

lemma selectOver_refused:
  "selectOver b ps = Refused path reason \<Longrightarrow> path \<in> set ps \<and> changedPathRefusal path = Some reason"
  using selectTests_accepted [of "selectionInputOf (bp_input b) (bp_dependencies b) ps"]
    acceptedPaths_iff [of ps "[]"]
  by (simp add: selectOver_def selectionInputOf_def)

text \<open>The workspaces a path lies in, by selection of it alone.\<close>

definition liesIn :: "BuildPlacement \<Rightarrow> string \<Rightarrow> string set" where
  "liesIn b path =
     (let p = normalizeRelativePath path in
      if declaredBy (buildInput b) p \<noteq> None then set (everyWorkspace (bp_input b))
      else {w \<in> set (sx_vitestPaths (selectionContext (buildInput b))). canAffect (buildInput b) p w \<and>
        w \<notin> (\<lambda>n. ws_path (nr_workspace n)) ` set (ds_notRunnable (bp_input b))})"

lemma includingWorkspaces_liesIn:
  "reportedFor (buildInput b) (normalizeRelativePath path) report \<Longrightarrow>
     set (includingWorkspaces report (everyWorkspace (bp_input b))) = liesIn b path"
  unfolding reportedFor_def includingWorkspaces_def liesIn_def Let_def
  by (auto simp: buildInput_def selectionInputOf_def simp del: context_simps(3))

lemma byReportedPath_get:
  "set (case map_of (byReportedPath ps) r of Some qs \<Rightarrow> qs | None \<Rightarrow> []) = {p \<in> set ps. normalizeRelativePath p = r}"
proof -
  have "set (case map_of (fold (\<lambda>path m. let reported = normalizeRelativePath path in
       jset reported ((case map_of m reported of Some ps \<Rightarrow> ps | None \<Rightarrow> []) @ [path]) m) ps m) r of
         Some qs \<Rightarrow> qs | None \<Rightarrow> []) =
      set (case map_of m r of Some qs \<Rightarrow> qs | None \<Rightarrow> []) \<union> {p \<in> set ps. normalizeRelativePath p = r}" for m
    by (induction ps arbitrary: m) (auto simp: Let_def)
  from this [of "[]"] show ?thesis by (simp add: byReportedPath_def)
qed

lemma map_of_fold_const: "map_of (fold (\<lambda>p. jset p v) ps m) q = (if q \<in> set ps then Some v else map_of m q)"
  by (induction ps arbitrary: m) auto

lemma includingByPath_get:
  assumes reports: "list_all2 (reportedFor (buildInput b)) (uniq (map normalizeRelativePath ps)) (sn_paths sel)"
  shows "case map_of (includingByPath sel ps (bp_input b)) path of
     Some ws \<Rightarrow> path \<in> set ps \<and> set ws = liesIn b path
   | None \<Rightarrow> path \<notin> set ps"
proof -
  let ?step = "\<lambda>report m. fold (\<lambda>path. jset path (includingWorkspaces report (everyWorkspace (bp_input b))))
      (case map_of (byReportedPath ps) (cp_path report) of Some qs \<Rightarrow> qs | None \<Rightarrow> []) m"
  have step: "map_of (?step report m) path =
      (if path \<in> set ps \<and> normalizeRelativePath path = cp_path report
       then Some (includingWorkspaces report (everyWorkspace (bp_input b))) else map_of m path)" for report m
    unfolding map_of_fold_const byReportedPath_get by auto
  have "list_all2 (reportedFor (buildInput b)) qs rs \<Longrightarrow>
      (case map_of (fold ?step rs m) path of
         Some ws \<Rightarrow> (path \<in> set ps \<and> normalizeRelativePath path \<in> set qs \<and> set ws = liesIn b path) \<or>
            map_of m path = Some ws \<and> \<not> (path \<in> set ps \<and> normalizeRelativePath path \<in> set qs)
       | None \<Rightarrow> map_of m path = None \<and> \<not> (path \<in> set ps \<and> normalizeRelativePath path \<in> set qs))" for qs rs m
  proof (induction qs arbitrary: rs m)
    case Nil
    then show ?case by (simp split: option.split)
  next
    case (Cons q qs)
    then obtain r rs' where rs: "rs = r # rs'" "reportedFor (buildInput b) q r"
      "list_all2 (reportedFor (buildInput b)) qs rs'" by (cases rs) auto
    have q: "cp_path r = q" using rs(2) by (simp add: reportedFor_def)
    have at: "path \<in> set ps \<Longrightarrow> normalizeRelativePath path = q \<Longrightarrow>
        set (includingWorkspaces r (everyWorkspace (bp_input b))) = liesIn b path"
      using includingWorkspaces_liesIn [of b path r] rs(2) by simp
    show ?case
    proof (cases "path \<in> set ps \<and> normalizeRelativePath path = q")
      case True
      have "map_of (?step r m) path = Some (includingWorkspaces r (everyWorkspace (bp_input b)))"
        by (subst step) (use q True in simp)
      with Cons.IH [OF rs(3), of "?step r m"] at True show ?thesis
        unfolding rs(1) fold_Cons o_def by (auto split: option.splits)
    next
      case False
      have "map_of (?step r m) path = map_of m path" by (subst step) (use q False in auto)
      with Cons.IH [OF rs(3), of "?step r m"] False show ?thesis
        unfolding rs(1) fold_Cons o_def by (auto split: option.splits)
    qed
  qed
  from this [OF reports, of "[]"] show ?thesis
    by (auto simp: includingByPath_def Let_def split: option.splits)
qed

text \<open>Every path placed so far lies where selection of it alone puts it.\<close>

definition placedAlone :: "BuildPlacement \<Rightarrow> string \<Rightarrow> string list option \<Rightarrow> bool" where
  "placedAlone b path placed =
     (case placed of
        None \<Rightarrow> changedPathRefusal path \<noteq> None
      | Some ws \<Rightarrow> changedPathRefusal path = None \<and> set ws = liesIn b path)"

definition placedWell :: "BuildPlacement \<Rightarrow> bool" where
  "placedWell b = (\<forall>path placed. map_of (bp_placed b) path = Some placed \<longrightarrow> placedAlone b path placed)"

lemma buildInput_placed [simp]: "buildInput (b\<lparr>bp_placed := m\<rparr>) = buildInput b"
  by (simp add: buildInput_def)

lemma liesIn_placed [simp]: "liesIn (b\<lparr>bp_placed := m\<rparr>) = liesIn b"
  by (simp add: fun_eq_iff liesIn_def Let_def)

lemma placedAlone_placed [simp]: "placedAlone (b\<lparr>bp_placed := m\<rparr>) = placedAlone b"
  by (simp add: fun_eq_iff placedAlone_def split: option.split)

lemma placeUnplaced_placed:
  assumes nul: "list_all nulFree (startPaths (buildInput b))"
  shows "\<exists>m. placeUnplaced ps b = b\<lparr>bp_placed := m\<rparr> \<and>
     (\<forall>path. (path \<in> set ps \<longrightarrow> (\<exists>placed. map_of m path = Some placed \<and> placedAlone b path placed)) \<and>
       (path \<notin> set ps \<longrightarrow> map_of m path = map_of (bp_placed b) path))"
proof -
  let ?sel = "filter (\<lambda>path. changedPathRefusal path = None) ps"
  let ?ref = "filter (\<lambda>path. changedPathRefusal path \<noteq> None) ps"
  let ?m1 = "fold (\<lambda>path. jset path None) ?ref (bp_placed b)"
  have m1: "map_of ?m1 q = (if q \<in> set ?ref then Some None else map_of (bp_placed b) q)" for q
    by (rule map_of_fold_const)
  show ?thesis
  proof (cases "?sel = []")
    case True
    then have all: "changedPathRefusal p \<noteq> None" if "p \<in> set ps" for p
      using that by (auto simp: filter_empty_conv)
    have eq: "placeUnplaced ps b = b\<lparr>bp_placed := ?m1\<rparr>"
      using True by (simp add: placeUnplaced_def Let_def del: not_None_eq)
    have "map_of ?m1 q = Some None \<and> placedAlone b q None" if "q \<in> set ps" for q
      using that all [OF that] m1 [of q] by (simp add: placedAlone_def)
    moreover have "map_of ?m1 q = map_of (bp_placed b) q" if "q \<notin> set ps" for q
      using that m1 [of q] by simp
    ultimately show ?thesis using eq by blast
  next
    case False
    have acc: "list_all (\<lambda>p. changedPathRefusal p = None) ?sel" by (simp add: list_all_iff)
    obtain sel where sel: "selectOver b ?sel = Selected sel"
      "list_all2 (reportedFor (buildInput b)) (uniq (map normalizeRelativePath ?sel)) (sn_paths sel)"
      by (rule selectOver_reports [OF nul acc])
    let ?inc = "includingByPath sel ?sel (bp_input b)"
    let ?v = "\<lambda>path. Some (case map_of ?inc path of Some ws \<Rightarrow> ws | None \<Rightarrow> [])"
    let ?m = "fold (\<lambda>path. jset path (?v path)) ?sel ?m1"
    have "map_of (fold (\<lambda>path. jset path (?v path)) qs n) q = (if q \<in> set qs then Some (?v q) else map_of n q)"
      for qs n q by (induction qs arbitrary: n) auto
    then have m: "map_of ?m q = (if q \<in> set ?sel then Some (?v q)
        else if q \<in> set ?ref then Some None else map_of (bp_placed b) q)" for q
      by (simp only: m1)
    have eq: "placeUnplaced ps b = b\<lparr>bp_placed := ?m\<rparr>"
      using False sel(1) by (simp add: placeUnplaced_def Let_def selectOver_def)
    have alone: "placedAlone b q (?v q)" if "q \<in> set ?sel" for q
      using includingByPath_get [OF sel(2), of q] that by (auto simp: placedAlone_def split: option.splits)
    show ?thesis
    proof (intro exI [of _ ?m] conjI allI impI)
      show "placeUnplaced ps b = b\<lparr>bp_placed := ?m\<rparr>" by (rule eq)
    next
      fix q assume q: "q \<in> set ps"
      show "\<exists>placed. map_of ?m q = Some placed \<and> placedAlone b q placed"
      proof (cases "changedPathRefusal q")
        case None
        then have sel: "q \<in> set ?sel" using q by simp
        then have "map_of ?m q = Some (?v q)" unfolding m by (rule if_P)
        then show ?thesis using alone [OF sel] by (rule exI [of _ "?v q", OF conjI])
      next
        case (Some reason)
        then have "map_of ?m q = Some None" using q m [of q] by simp
        with Some show ?thesis by (auto simp: placedAlone_def)
      qed
    next
      fix q assume "q \<notin> set ps"
      then show "map_of ?m q = map_of (bp_placed b) q" using m [of q] by simp
    qed
  qed
qed

lemma place_inside:
  assumes nul: "list_all nulFree (startPaths (buildInput b))" and well: "placedWell b"
    and w: "w \<in> set (everyWorkspace (bp_input b))"
  shows "fst (place ps w b) =
     \<lparr>pp_inside = filter (\<lambda>p. changedPathRefusal p = None \<and> w \<in> liesIn b p) ps,
      pp_widened = filter (\<lambda>p. changedPathRefusal p \<noteq> None) ps\<rparr> \<and> placedWell (snd (place ps w b)) \<and>
     bp_input (snd (place ps w b)) = bp_input b \<and> bp_dependencies (snd (place ps w b)) = bp_dependencies b"
proof -
  let ?new = "filter (\<lambda>path. path \<notin> set (keys (bp_placed b))) ps"
  obtain m where eq: "placeUnplaced ?new b = b\<lparr>bp_placed := m\<rparr>"
    and m: "\<And>q. (q \<in> set ?new \<longrightarrow> (\<exists>placed. map_of m q = Some placed \<and> placedAlone b q placed)) \<and>
       (q \<notin> set ?new \<longrightarrow> map_of m q = map_of (bp_placed b) q)"
    using placeUnplaced_placed [OF nul, of ?new] by blast
  have alone: "placedAlone b q placed" if "map_of m q = Some placed" for q placed
    using that m [of q] well by (cases "q \<in> set ?new") (auto simp: placedWell_def)
  have some: "\<exists>placed. map_of m q = Some placed" if "q \<in> set ps" for q
    using that m [of q] by (cases "q \<in> set ?new") (auto simp: in_keys_iff)
  have at: "(case map_of m q of Some (Some ws) \<Rightarrow> w \<in> set ws | _ \<Rightarrow> False) \<longleftrightarrow>
      changedPathRefusal q = None \<and> w \<in> liesIn b q"
    "map_of m q = Some None \<longleftrightarrow> changedPathRefusal q \<noteq> None" if "q \<in> set ps" for q
    using some [OF that] alone [of q] by (auto simp: placedAlone_def split: option.splits)
  have "placedWell (b\<lparr>bp_placed := m\<rparr>)" using alone by (simp add: placedWell_def)
  then show ?thesis using w at by (simp add: place_def eq Let_def cong: filter_cong)
qed

section \<open>The narrowed sets and the placement agree\<close>

lemma fold_addMember:
  "map_of members w = Some m \<Longrightarrow>
     (\<exists>m'. map_of (fold (addMember path digest) ws members) w = Some m' \<and>
       map_of m' = (if w \<in> set ws then (map_of m)(path \<mapsto> digest) else map_of m))"
proof (induction ws arbitrary: members m)
  case (Cons v ws)
  show ?case
  proof (cases "v = w")
    case True
    have "map_of (addMember path digest v members) w = Some (jset path digest m)"
      using True Cons.prems by (simp add: addMember_def)
    from Cons.IH [OF this] True show ?thesis by (auto simp: fun_eq_iff)
  next
    case False
    have "map_of (addMember path digest v members) w = Some m"
      using False Cons.prems by (simp add: addMember_def split: option.split)
    from Cons.IH [OF this] False show ?thesis by simp
  qed
qed simp

lemma fold_members:
  "map_of members w = Some m \<Longrightarrow>
     (\<exists>m'. map_of (fold (\<lambda>(path, workspaces) m.
          case map_of digests path of None \<Rightarrow> m | Some digest \<Rightarrow> fold (addMember path digest) workspaces m)
        incl members) w = Some m' \<and>
      map_of m' = (\<lambda>q. if (\<exists>ws. (q, ws) \<in> set incl \<and> w \<in> set ws) \<and> map_of digests q \<noteq> None
        then map_of digests q else map_of m q))"
proof (induction incl arbitrary: members m)
  case (Cons p incl)
  obtain path ws where p: "p = (path, ws)" by (cases p)
  show ?case
  proof (cases "map_of digests path")
    case None
    from Cons.IH [OF Cons.prems] obtain m' where m':
      "map_of (fold (\<lambda>(path, workspaces) m.
          case map_of digests path of None \<Rightarrow> m | Some digest \<Rightarrow> fold (addMember path digest) workspaces m)
        incl members) w = Some m'"
      "map_of m' = (\<lambda>q. if (\<exists>ws. (q, ws) \<in> set incl \<and> w \<in> set ws) \<and> map_of digests q \<noteq> None
        then map_of digests q else map_of m q)" by blast
    show ?thesis
      by (rule exI [of _ m']) (auto simp: p None m' fun_eq_iff)
  next
    case (Some digest)
    obtain n where n: "map_of (fold (addMember path digest) ws members) w = Some n"
      "map_of n = (if w \<in> set ws then (map_of m)(path \<mapsto> digest) else map_of m)"
      using fold_addMember [OF Cons.prems] by blast
    from Cons.IH [OF n(1)] obtain m' where m':
      "map_of (fold (\<lambda>(path, workspaces) m.
          case map_of digests path of None \<Rightarrow> m | Some digest \<Rightarrow> fold (addMember path digest) workspaces m)
        incl (fold (addMember path digest) ws members)) w = Some m'"
      "map_of m' = (\<lambda>q. if (\<exists>ws. (q, ws) \<in> set incl \<and> w \<in> set ws) \<and> map_of digests q \<noteq> None
        then map_of digests q else map_of n q)" by blast
    show ?thesis
      by (rule exI [of _ m']) (use Some in \<open>auto simp: p m' n(2) fun_eq_iff\<close>)
  qed
qed auto

lemma wf_includingByPath: "wf_map (includingByPath sel ps input)"
proof -
  have inner: "wf_map m \<Longrightarrow> wf_map (fold (\<lambda>p. jset p v) qs m)" for m :: "(string, string list) jsmap" and v qs
    by (induction qs arbitrary: m) auto
  have "wf_map m \<Longrightarrow> wf_map (fold (\<lambda>report m.
      fold (\<lambda>path. jset path (includingWorkspaces report (everyWorkspace input))) (g report) m) rs m)"
    for m :: "(string, string list) jsmap" and g rs
    by (induction rs arbitrary: m) (auto simp: inner)
  then show ?thesis by (simp add: includingByPath_def Let_def)
qed

text \<open>A build's placement after any earlier placements.\<close>

definition placements :: "DiscoveredSelectionInput \<Rightarrow> DependencyInformation \<Rightarrow> (string list \<times> string) list \<Rightarrow>
    BuildPlacement" where
  "placements input dependencies calls =
     fold (\<lambda>(paths, w) b. snd (place paths w b)) calls (newPlacement input dependencies)"

lemma placements_well:
  assumes nul: "list_all nulFree (startPaths (buildInput (newPlacement input dependencies)))"
  shows "placedWell (placements input dependencies calls) \<and>
     bp_input (placements input dependencies calls) = input \<and>
     bp_dependencies (placements input dependencies calls) = dependencies"
proof (induction calls rule: rev_induct)
  case Nil
  show ?case by (simp add: placements_def placedWell_def newPlacement_def)
next
  case (snoc call calls)
  obtain ps w where call: "call = (ps, w)" by (cases call)
  let ?b = "placements input dependencies calls"
  have snoc': "placements input dependencies (calls @ [call]) = snd (place ps w ?b)"
    by (simp add: placements_def call)
  have nul': "list_all nulFree (startPaths (buildInput ?b))"
    using nul snoc.IH by (simp add: buildInput_def newPlacement_def)
  show ?case
  proof (cases "w \<in> set (everyWorkspace (bp_input ?b))")
    case True
    show ?thesis unfolding snoc' using place_inside [OF nul' _ True, of ps] snoc.IH by simp
  next
    case False
    then show ?thesis unfolding snoc' using snoc.IH by (simp add: place_def)
  qed
qed

lemma liesIn_cong: "bp_input b = bp_input c \<Longrightarrow> bp_dependencies b = bp_dependencies c \<Longrightarrow> liesIn b = liesIn c"
  by (simp add: fun_eq_iff liesIn_def buildInput_def Let_def)

lemma map_of_pairs: "map_of (map (\<lambda>w. (w, v)) ws) w = (if w \<in> set ws then Some v else None)"
  by (induction ws) auto

lemma narrowedSets_get:
  assumes nul: "list_all nulFree (startPaths (buildInput b))" and w: "w \<in> set (everyWorkspace (bp_input b))"
    and sets: "narrowedSets project b = SetsOf sets"
  shows "list_all (\<lambda>p. changedPathRefusal p = None) (keys (pi_digests project)) \<and>
     (\<exists>inputs. map_of sets w = Some inputs \<and>
       map_of (pi_digests inputs) = (\<lambda>q. if w \<in> liesIn b q then map_of (pi_digests project) q else None))"
proof -
  let ?ps = "keys (pi_digests project)"
  obtain sel where s: "selectOver b ?ps = Selected sel"
    using sets by (auto simp: narrowedSets_def Let_def split: SelectionOutcome.splits)
  have acc: "list_all (\<lambda>p. changedPathRefusal p = None) ?ps"
    using selectTests_accepted [of "selectionInputOf (bp_input b) (bp_dependencies b) ?ps"]
      acceptedPaths_iff [of ?ps "[]"] s
    by (auto simp: selectOver_def selectionInputOf_def)
  obtain sel' where sel': "selectOver b ?ps = Selected sel'"
    "list_all2 (reportedFor (buildInput b)) (uniq (map normalizeRelativePath ?ps)) (sn_paths sel')"
    by (rule selectOver_reports [OF nul acc])
  let ?inc = "includingByPath sel' ?ps (bp_input b)"
  let ?members = "jmap_of (map (\<lambda>w. (w, [])) (everyWorkspace (bp_input b))) :: (string, InputDigests) jsmap"
  have "map_of ?members w = Some []"
    using w by (simp add: map_of_jmap_of rev_map map_of_pairs)
  from fold_members [OF this, of "pi_digests project" ?inc] obtain m where m:
    "map_of (fold (\<lambda>(path, workspaces) m. case map_of (pi_digests project) path of None \<Rightarrow> m
        | Some digest \<Rightarrow> fold (addMember path digest) workspaces m) ?inc ?members) w = Some m"
    "map_of m = (\<lambda>q. if (\<exists>ws. (q, ws) \<in> set ?inc \<and> w \<in> set ws) \<and> map_of (pi_digests project) q \<noteq> None
      then map_of (pi_digests project) q else map_of [] q)" by blast
  have "(\<exists>ws. (q, ws) \<in> set ?inc \<and> w \<in> set ws) \<longleftrightarrow> q \<in> set ?ps \<and> w \<in> liesIn b q" for q
    unfolding map_of_eq_Some_mem [OF wf_includingByPath, symmetric]
    using includingByPath_get [OF sel'(2), of q] by (auto split: option.splits)
  then have at: "map_of m = (\<lambda>q. if w \<in> liesIn b q then map_of (pi_digests project) q else None)"
    unfolding m(2) by (auto simp: fun_eq_iff in_keys_iff)
  have "map_of sets w = Some \<lparr>pi_root = pi_root project, pi_digests = m, pi_listed = []\<rparr>"
    using sets m(1) by (auto simp: narrowedSets_def Let_def sel'(1) map_of_map_vals)
  with at acc show ?thesis by simp
qed

text \<open>
  C22. Staleness and selection never disagree: the inputs a build narrows a workspace to are exactly
  the project's inputs that the same build places inside the workspace when they change, whatever
  paths it has placed before; and it narrows nothing only when it names an input selection refuses.
\<close>

theorem narrowed_sets_agree:
  assumes "list_all nulFree (startPaths (buildInput (newPlacement input dependencies)))"
    and "wsPath \<in> set (everyWorkspace input)"
  shows "case narrowedSets project (newPlacement input dependencies) of
     SetsRefused reason \<Rightarrow> (\<exists>path \<in> set (keys (pi_digests project)). changedPathRefusal path = Some reason)
   | SetsOf sets \<Rightarrow>
       (case map_of sets wsPath of
          None \<Rightarrow> False
        | Some inputs \<Rightarrow> map_of (pi_digests inputs) = (\<lambda>path.
            if path \<in> set (pp_inside (fst (place [path] wsPath (placements input dependencies calls))))
            then map_of (pi_digests project) path else None))"
proof (cases "narrowedSets project (newPlacement input dependencies)")
  case (SetsRefused reason)
  then obtain path where "selectOver (newPlacement input dependencies) (keys (pi_digests project)) = Refused path reason"
    by (auto simp: narrowedSets_def Let_def split: SelectionOutcome.splits)
  from selectOver_refused [OF this] SetsRefused show ?thesis by auto
next
  case (SetsOf sets)
  let ?b = "placements input dependencies calls"
  have b: "placedWell ?b" "bp_input ?b = input" "bp_dependencies ?b = dependencies"
    using placements_well [OF assms(1), of calls] by simp_all
  have new: "bp_input (newPlacement input dependencies) = input"
    "bp_dependencies (newPlacement input dependencies) = dependencies" by (simp_all add: newPlacement_def)
  have same: "liesIn ?b = liesIn (newPlacement input dependencies)" "buildInput ?b = buildInput (newPlacement input dependencies)"
    by (rule liesIn_cong) (simp_all add: b new buildInput_def)
  from narrowedSets_get [OF assms(1) _ SetsOf, of wsPath] assms(2) new obtain inputs where
    acc: "list_all (\<lambda>p. changedPathRefusal p = None) (keys (pi_digests project))"
    and i: "map_of sets wsPath = Some inputs"
    "map_of (pi_digests inputs) = (\<lambda>q. if wsPath \<in> liesIn ?b q then map_of (pi_digests project) q else None)"
    unfolding same by auto
  have "pp_inside (fst (place [path] wsPath ?b)) =
      filter (\<lambda>p. changedPathRefusal p = None \<and> wsPath \<in> liesIn ?b p) [path]" for path
    using place_inside [of ?b wsPath "[path]"] assms b same by simp
  moreover have "map_of (pi_digests project) path = None" if "changedPathRefusal path \<noteq> None" for path
    using that acc in_keys_iff [of path "pi_digests project"] by (auto simp: list_all_iff)
  ultimately show ?thesis using SetsOf i by (auto simp: fun_eq_iff)
qed

text \<open>A build over an application that depends on a library, beside a package nothing depends on.\<close>

definition sampleDiscovered :: DiscoveredSelectionInput where
  "sampleDiscovered =
     \<lparr>ds_workspaces = [\<lparr>sl_workspace = \<lparr>ws_path = ''app'', ws_directory = ''/r/app''\<rparr>, sl_tests = KnownTests [],
        sl_setupFiles = [], sl_globalSetupFiles = []\<rparr>],
      ds_notRunnable = [], ds_vitestListingNotRead = [], ds_declaration = NonInputsAbsent,
      ds_protection = NotApplying []\<rparr>"

definition sampleDependencies :: DependencyInformation where
  "sampleDependencies =
     \<lparr>di_packageWorkspaces = map (\<lambda>p. \<lparr>ws_path = p, ws_directory = p\<rparr>) [''.'', ''lib'', ''docs'', ''app''],
      di_notRead = [], di_withoutManifest = [],
      di_edges = [\<lparr>de_dependent = ''app'', de_dependency = ''lib'', de_producer = ProducerManifest, de_detail = []\<rparr>],
      di_uncertainties = []\<rparr>"

definition sampleProject :: ProjectInputs where
  "sampleProject = \<lparr>pi_root = ''/r'', pi_digests = [(''lib/x.ts'', ''d1''), (''docs/y.md'', ''d2'')], pi_listed = []\<rparr>"

lemma sampleBuild_ok:
  "list_all nulFree (startPaths (buildInput (newPlacement sampleDiscovered sampleDependencies)))"
  "''app'' \<in> set (everyWorkspace sampleDiscovered)"
  by (simp_all add: sampleDiscovered_def sampleDependencies_def buildInput_def newPlacement_def selectionInputOf_def
      startPaths_def nulFree_def everyWorkspace_def)

lemma sampleBuild_narrows:
  "case narrowedSets sampleProject (newPlacement sampleDiscovered sampleDependencies) of
     SetsOf sets \<Rightarrow> map_option pi_digests (map_of sets ''app'') = Some [(''lib/x.ts'', ''d1'')]
   | SetsRefused reason \<Rightarrow> False"
  by code_simp

theorem narrowed_sets_agree_witness:
  "(case narrowedSets sampleProject (newPlacement sampleDiscovered sampleDependencies) of
     SetsOf sets \<Rightarrow> map_option pi_digests (map_of sets ''app'') = Some [(''lib/x.ts'', ''d1'')]
   | SetsRefused reason \<Rightarrow> False) \<and>
   list_all nulFree (startPaths (buildInput (newPlacement sampleDiscovered sampleDependencies))) \<and>
   (case narrowedSets sampleProject (newPlacement sampleDiscovered sampleDependencies) of
     SetsRefused reason \<Rightarrow> (\<exists>path \<in> set (keys (pi_digests sampleProject)). changedPathRefusal path = Some reason)
   | SetsOf sets \<Rightarrow>
       (case map_of sets ''app'' of
          None \<Rightarrow> False
        | Some inputs \<Rightarrow> map_of (pi_digests inputs) = (\<lambda>path.
            if path \<in> set (pp_inside (fst (place [path] ''app'' (placements sampleDiscovered sampleDependencies []))))
            then map_of (pi_digests sampleProject) path else None)))"
  by (rule conjI [OF sampleBuild_narrows conjI [OF sampleBuild_ok(1) narrowed_sets_agree [OF sampleBuild_ok]]])

end
