(* ===== verification/Fingerprint.thy ===== *)
theory Fingerprint
  imports Environment Narrowing
begin

text \<open>
  The input fingerprint of a workspace and of a discovery (\<^verbatim>\<open>inputs/fingerprint.ts\<close>, with
  \<^verbatim>\<open>envFileDigest\<close> of \<^verbatim>\<open>inputs/env-files.ts\<close> and the two helpers on held digests of
  \<^verbatim>\<open>inputs/input-inventory.ts\<close>). The hash is a parameter. A snapshot reads each file outside the
  inputs at most once, so what it reads is a function of the path here: the answers of \<^verbatim>\<open>node:fs\<close>
  and of the Vitest resolution at the snapshot's moment.
\<close>

section \<open>Reads outside the inputs\<close>

datatype FingerprintResult = Digest string | NoDigest string

fun fingerprintOk :: "FingerprintResult \<Rightarrow> bool" where
  "fingerprintOk (Digest _) = True"
| "fingerprintOk (NoDigest _) = False"

definition ABSENT_FILE :: string where
  "ABSENT_FILE = ''absent''"

definition FILE_PREFIX :: string where
  "FILE_PREFIX = ''file:''"

definition holdsFileContent :: "string \<Rightarrow> bool" where
  "holdsFileContent digest = starts_with digest FILE_PREFIX"

definition heldFileDigest :: "string \<Rightarrow> string" where
  "heldFileDigest content = FILE_PREFIX @ content"

text \<open>What \<^verbatim>\<open>readFileSync\<close> answers: a content, an error that says the file is missing, or another.\<close>

datatype FileRead = ReadContent string | ReadMissing | ReadError string

definition moduleDigest :: "(string \<Rightarrow> string) \<Rightarrow> FileRead \<Rightarrow> FingerprintResult" where
  "moduleDigest hash read =
     (case read of
        ReadContent content \<Rightarrow> Digest (hash content)
      | ReadMissing \<Rightarrow> Digest ABSENT_FILE
      | ReadError message \<Rightarrow> NoDigest message)"

datatype EnvFileDigest = EnvNothing | EnvDigest string string | EnvRefused string

text \<open>What \<^verbatim>\<open>statSync\<close> and \<^verbatim>\<open>fstatSync\<close> say an entry is.\<close>

datatype EntryKind = NoEntry | RegularFile | Fifo | OtherEntry

datatype OpenAnswer = OpenedFile | OpenFoundAbsent | OpenFailed string

record EnvFileAnswers =
  ea_stat :: "string + EntryKind"
  ea_open :: OpenAnswer
  ea_fstat :: "string + EntryKind"
  ea_content :: "string + string"
  ea_closeError :: "string option"

definition FIFO_REASON :: string where
  "FIFO_REASON = ''it is a FIFO, whose read could block''"

fun readableKind :: "EntryKind \<Rightarrow> EnvFileDigest option" where
  "readableKind Fifo = Some (EnvRefused FIFO_REASON)"
| "readableKind RegularFile = None"
| "readableKind _ = Some EnvNothing"

definition envFileDigest :: "(string \<Rightarrow> string) \<Rightarrow> EnvFileAnswers \<Rightarrow> EnvFileDigest" where
  "envFileDigest hash answers =
     (case ea_stat answers of
        Inl message \<Rightarrow> EnvRefused message
      | Inr entry \<Rightarrow>
          (case readableKind entry of
             Some kind \<Rightarrow> kind
           | None \<Rightarrow>
               (case ea_open answers of
                  OpenFoundAbsent \<Rightarrow> EnvNothing
                | OpenFailed message \<Rightarrow> EnvRefused message
                | OpenedFile \<Rightarrow>
                    (let read = (case ea_fstat answers of
                         Inl message \<Rightarrow> EnvRefused message
                       | Inr opened \<Rightarrow>
                           (case readableKind opened of
                              Some kind \<Rightarrow> kind
                            | None \<Rightarrow>
                                (case ea_content answers of
                                   Inl message \<Rightarrow> EnvRefused message
                                 | Inr content \<Rightarrow> EnvDigest (hash content) content)))
                     in case ea_closeError answers of Some message \<Rightarrow> EnvRefused message | None \<Rightarrow> read))))"

text \<open>
  \<^verbatim>\<open>SnapshotReads\<close>: the counted environment, and what is read of a listed module, of an env file and
  of the Vitest that resolves from a directory.
\<close>

record SnapshotReads =
  sp_environment :: CountedEnvironment
  sp_module :: "string \<Rightarrow> FileRead"
  sp_envFile :: "string \<Rightarrow> EnvFileAnswers"
  sp_vitestVersion :: "string \<Rightarrow> string option"

section \<open>The inputs of a workspace\<close>

record WorkspaceInputs = WorkspaceListing +
  wi_selected :: ProjectInputs
  wi_project :: ProjectInputs

definition listedInputs :: "ProjectInputs \<Rightarrow> WorkspaceListing \<Rightarrow> ProjectInputs option \<Rightarrow> WorkspaceInputs" where
  "listedInputs project listed narrowed =
     WorkspaceListing.extend listed
       (WorkspaceInputs.fields (case narrowed of Some selected \<Rightarrow> selected | None \<Rightarrow> project) project)"

definition heldEnvDigest :: "ProjectInputs \<Rightarrow> string \<Rightarrow> string option" where
  "heldEnvDigest project path =
     (case map_of (pi_digests project) path of
        Some held \<Rightarrow> (if holdsFileContent held then Some held else None)
      | None \<Rightarrow> None)"

definition heldDigest :: "ProjectInputs \<Rightarrow> string \<Rightarrow> FingerprintResult option" where
  "heldDigest project path = map_option Digest (map_of (pi_digests project) path)"

fun describesRead :: "string \<Rightarrow> EnvFileDigest \<Rightarrow> bool" where
  "describesRead held (EnvDigest digest _) = (heldFileDigest digest = held)"
| "describesRead held _ = False"

type_synonym Digests = "(string \<times> string) list"

text \<open>\<^verbatim>\<open>unselectedModuleDigests\<close>, the left being the reason.\<close>

fun moduleDigestsFrom :: "(string \<Rightarrow> string) \<Rightarrow> WorkspaceInputs \<Rightarrow> SnapshotReads \<Rightarrow> string list \<Rightarrow> string + Digests" where
  "moduleDigestsFrom hash inputs reads [] = Inr []"
| "moduleDigestsFrom hash inputs reads (path # rest) =
     (if jhas (pi_digests (wi_selected inputs)) path then moduleDigestsFrom hash inputs reads rest
      else (case (case heldDigest (wi_project inputs) path of
            Some held \<Rightarrow> held | None \<Rightarrow> moduleDigest hash (sp_module reads path)) of
          NoDigest reason \<Rightarrow>
            Inl (''the '' @ (if path \<in> set (li_testModules inputs) then ''test module'' else ''setup file'') @ '' '' @
              path @ '' cannot be read: '' @ reason)
        | Digest digest \<Rightarrow>
            map_sum id ((#) (path, digest)) (moduleDigestsFrom hash inputs reads rest)))"

definition unselectedModuleDigests :: "(string \<Rightarrow> string) \<Rightarrow> WorkspaceInputs \<Rightarrow> SnapshotReads \<Rightarrow> string + Digests" where
  "unselectedModuleDigests hash inputs reads =
     moduleDigestsFrom hash inputs reads (sort (uniq (li_testModules inputs @ li_setupFiles inputs)))"

text \<open>\<^verbatim>\<open>envFileDigests\<close>: the digests, and the text Vite reads of each file.\<close>

type_synonym EnvFileTexts = "(string, string option) jsmap"

fun readText :: "EnvFileDigest \<Rightarrow> string option" where
  "readText (EnvDigest _ text) = Some text"
| "readText _ = None"

definition envDigestOf :: "EnvFileDigest \<Rightarrow> string" where
  "envDigestOf read = (case read of EnvDigest digest _ \<Rightarrow> digest | _ \<Rightarrow> ABSENT_FILE)"

fun envDigestsFrom :: "(string \<Rightarrow> string) \<Rightarrow> WorkspaceInputs \<Rightarrow> SnapshotReads \<Rightarrow> string list \<Rightarrow>
    string + Digests \<times> EnvFileTexts" where
  "envDigestsFrom hash inputs reads [] = Inr ([], [])"
| "envDigestsFrom hash inputs reads (path # rest) =
     (let read = envFileDigest hash (sp_envFile reads path);
          later = (\<lambda>digests. map_sum id (\<lambda>(ds, texts). (digests @ ds, (path, readText read) # texts))
            (envDigestsFrom hash inputs reads rest)) in
      case read of
        EnvRefused reason \<Rightarrow> Inl (''the env file '' @ path @ '' cannot be read: '' @ reason)
      | _ \<Rightarrow>
          (case heldEnvDigest (wi_project inputs) path of
             None \<Rightarrow> later [(path, envDigestOf read)]
           | Some held \<Rightarrow>
               (if \<not> describesRead held read
                then Inl (''the env file '' @ path @ '' changed since the inputs were read'')
                else if \<not> jhas (pi_digests (wi_selected inputs)) path then later [(path, held)]
                else later [])))"

definition envFileDigests :: "(string \<Rightarrow> string) \<Rightarrow> WorkspaceInputs \<Rightarrow> SnapshotReads \<Rightarrow>
    string + Digests \<times> EnvFileTexts" where
  "envFileDigests hash inputs reads = envDigestsFrom hash inputs reads (sort (uniq (li_envFiles inputs)))"

record ListedDigests =
  ld_modules :: Digests
  ld_envFiles :: Digests
  ld_envFileTexts :: EnvFileTexts

definition listedDigests :: "(string \<Rightarrow> string) \<Rightarrow> WorkspaceInputs \<Rightarrow> SnapshotReads \<Rightarrow> string + ListedDigests" where
  "listedDigests hash inputs reads =
     (case unselectedModuleDigests hash inputs reads of
        Inl reason \<Rightarrow> Inl reason
      | Inr modules \<Rightarrow>
          (case envFileDigests hash inputs reads of
             Inl reason \<Rightarrow> Inl reason
           | Inr (envFiles, texts) \<Rightarrow>
               Inr \<lparr>ld_modules = modules, ld_envFiles = envFiles, ld_envFileTexts = texts\<rparr>))"

section \<open>The fingerprints\<close>

definition digestOfEntries :: "(string \<Rightarrow> string) \<Rightarrow> InputDigests \<Rightarrow> string" where
  "digestOfEntries hash entries =
     hash (flat_map (\<lambda>key. lineOf (JArr [JStr key, case map_of entries key of Some d \<Rightarrow> JStr d | None \<Rightarrow> JNull]))
       (sort (keys entries)))"

text \<open>The parts of \<^verbatim>\<open>process\<close> a fingerprint takes.\<close>

record Host =
  ho_node :: string
  ho_platform :: string
  ho_arch :: string

definition sharedParts :: "Host \<Rightarrow> string \<Rightarrow> (string \<times> json) list" where
  "sharedParts host digest =
     [(''environment'', JStr digest), (''node'', JStr (ho_node host)),
      (''platform'', JStr (ho_platform host)), (''arch'', JStr (ho_arch host)),
      (''adapterVersion'', JNum VITEST_ADAPTER_VERSION),
      (''selectionPolicyVersion'', JNum SELECTION_POLICY_VERSION)]"

definition digestOf :: "(string \<Rightarrow> string) \<Rightarrow> (string \<times> json) list \<Rightarrow> string" where
  "digestOf hash parts = hash (stringify (JObj parts))"

definition jsonDigests :: "Digests \<Rightarrow> json" where
  "jsonDigests digests = JArr (map (\<lambda>(path, digest). JArr [JStr path, JStr digest]) digests)"

definition jsonVersion :: "string option \<Rightarrow> json" where
  "jsonVersion version = (case version of Some v \<Rightarrow> JStr v | None \<Rightarrow> JNull)"

definition envFilesUnknown :: "string \<Rightarrow> string option \<Rightarrow> FingerprintResult" where
  "envFilesUnknown wsPath reason =
     NoDigest (''the env files of the workspace '' @ workspaceName wsPath @ '' are not known: '' @
       (case reason of Some r \<Rightarrow> r
        | None \<Rightarrow> ''its discovery does not report the env sources of its projects''))"

text \<open>
  The loop of \<^const>\<open>referenced\<close> always ends (\<open>carried_exact\<close>), so a missing decision, which counts
  every variable here, does not occur.
\<close>

definition carriedIn :: "SnapshotReads \<Rightarrow> WorkspaceDiscovery \<Rightarrow> EnvFileTexts \<Rightarrow> CarriedVariables" where
  "carriedIn reads entry texts =
     (case carried (sp_environment reads) entry texts of
        Some vars \<Rightarrow> vars
      | None \<Rightarrow> CarriesEvery \<lparr>fi_file = [], fi_through = None\<rparr>)"

definition workspaceFingerprint ::
  "(string \<Rightarrow> string) \<Rightarrow> Host \<Rightarrow> ProjectInputs \<Rightarrow> WorkspaceDiscovery \<Rightarrow> SnapshotReads \<Rightarrow> ProjectInputs option \<Rightarrow>
     FingerprintResult" where
  "workspaceFingerprint hash host project entry reads narrowed =
     (case workspaceEnvFilesKnown entry of
        EnvUnknown wsPath reason \<Rightarrow> envFilesUnknown wsPath reason
      | EnvKnown \<Rightarrow>
          (let inputs = listedInputs project (workspaceListing entry) narrowed in
           case listedDigests hash inputs reads of
             Inl reason \<Rightarrow> NoDigest reason
           | Inr listed \<Rightarrow>
               Digest (digestOf hash
                 (sharedParts host (environmentDigest hash (sp_environment reads)
                    (carriedIn reads entry (ld_envFileTexts listed))) @
                  [(''inputs'', JStr (digestOfEntries hash (pi_digests (wi_selected inputs)))),
                   (''testModules'', jsonDigests (ld_modules listed)),
                   (''envFiles'', jsonDigests (ld_envFiles listed)),
                   (''vitestVersion'', jsonVersion (sp_vitestVersion reads (ws_directory (entryWorkspace entry))))]))))"

definition discoveryFingerprint ::
  "(string \<Rightarrow> string) \<Rightarrow> Host \<Rightarrow> ProjectInputs \<Rightarrow> TestDiscovery \<Rightarrow> SnapshotReads \<Rightarrow> FingerprintResult" where
  "discoveryFingerprint hash host project discovery reads =
     (case discoveryEnvFilesKnown discovery of
        EnvUnknown wsPath reason \<Rightarrow> envFilesUnknown wsPath reason
      | EnvKnown \<Rightarrow>
          (let listings = map workspaceListing (td_workspaces discovery);
               inputs = listedInputs project
                 \<lparr>li_testModules = flat_map li_testModules listings,
                  li_setupFiles = flat_map li_setupFiles listings,
                  li_envFiles = flat_map li_envFiles listings\<rparr> None in
           case listedDigests hash inputs reads of
             Inl reason \<Rightarrow> NoDigest reason
           | Inr listed \<Rightarrow>
               Digest (digestOf hash
                 (sharedParts host (environmentDigest hash (sp_environment reads)
                    (carriedUnion (map (\<lambda>entry. carriedIn reads entry (ld_envFileTexts listed))
                       (td_workspaces discovery)))) @
                  [(''inputs'', JStr (digestOfEntries hash (pi_digests (wi_selected inputs)))),
                   (''testModules'', jsonDigests (ld_modules listed)),
                   (''envFiles'', jsonDigests (ld_envFiles listed)),
                   (''vitestVersions'', JArr (map (\<lambda>entry.
                      JArr [JStr (entryPath entry),
                        jsonVersion (sp_vitestVersion reads (ws_directory (entryWorkspace entry)))])
                      (td_workspaces discovery)))]))))"

section \<open>Files that may have changed\<close>

text \<open>What \<^verbatim>\<open>modifiedAt\<close> answers: a time in ms, no entry, or that the time cannot be read.\<close>

datatype ModifiedAt = ModifiedMs nat | NothingThere | NotReadable

definition MODIFIED_TIME_RESOLUTION_MS :: nat where
  "MODIFIED_TIME_RESOLUTION_MS = 2000"

definition mayHaveChanged :: "ProjectInputs \<Rightarrow> string list \<Rightarrow> (string \<Rightarrow> ModifiedAt) \<Rightarrow> nat \<Rightarrow> string \<Rightarrow> bool" where
  "mayHaveChanged project modules modified since path =
     (if (if path \<in> set modules then jhas (pi_digests project) path else heldEnvDigest project path \<noteq> None) then False
      else (case modified path of
          NothingThere \<Rightarrow> path \<in> set modules
        | NotReadable \<Rightarrow> True
        | ModifiedMs ms \<Rightarrow> since \<le> ms + MODIFIED_TIME_RESOLUTION_MS))"

definition protectedFileChangedSince :: "ProjectInputs \<Rightarrow> TestDiscovery \<Rightarrow> (string \<Rightarrow> ModifiedAt) \<Rightarrow> nat \<Rightarrow> string option" where
  "protectedFileChangedSince project discovery modified since =
     map_option (\<lambda>path. path @ '', which the discovery protects and the inputs leave out, may have changed while the job ran'')
       (find (mayHaveChanged project (protectedModules discovery) modified since) (protectedFiles discovery))"

section \<open>What a fingerprint saw\<close>

definition moduleSeen :: "(string \<Rightarrow> string) \<Rightarrow> WorkspaceInputs \<Rightarrow> SnapshotReads \<Rightarrow> string \<Rightarrow> FingerprintResult" where
  "moduleSeen hash inputs reads path =
     (case heldDigest (wi_project inputs) path of
        Some held \<Rightarrow> held | None \<Rightarrow> moduleDigest hash (sp_module reads path))"

text \<open>The digest taken of a listed module the selected inputs leave out, and of a listed env file.\<close>

definition listedModuleDigest :: "(string \<Rightarrow> string) \<Rightarrow> WorkspaceInputs \<Rightarrow> SnapshotReads \<Rightarrow> string \<Rightarrow> string option" where
  "listedModuleDigest hash inputs reads path =
     (if path \<in> set (li_testModules inputs @ li_setupFiles inputs) \<and> \<not> jhas (pi_digests (wi_selected inputs)) path
      then (case moduleSeen hash inputs reads path of Digest d \<Rightarrow> Some d | NoDigest _ \<Rightarrow> None)
      else None)"

definition listedEnvDigest :: "(string \<Rightarrow> string) \<Rightarrow> WorkspaceInputs \<Rightarrow> SnapshotReads \<Rightarrow> string \<Rightarrow> string option" where
  "listedEnvDigest hash inputs reads path =
     (if path \<in> set (li_envFiles inputs)
      then (case heldEnvDigest (wi_project inputs) path of
          Some held \<Rightarrow> (if jhas (pi_digests (wi_selected inputs)) path then None else Some held)
        | None \<Rightarrow> Some (envDigestOf (envFileDigest hash (sp_envFile reads path))))
      else None)"

definition envTextsRead :: "(string \<Rightarrow> string) \<Rightarrow> WorkspaceInputs \<Rightarrow> SnapshotReads \<Rightarrow> EnvFileTexts" where
  "envTextsRead hash inputs reads =
     map (\<lambda>path. (path, readText (envFileDigest hash (sp_envFile reads path)))) (sort (uniq (li_envFiles inputs)))"

lemma moduleDigestsFrom_Inr:
  "moduleDigestsFrom hash inputs reads paths = Inr ds \<Longrightarrow>
     map fst ds = filter (\<lambda>path. \<not> jhas (pi_digests (wi_selected inputs)) path) paths \<and>
     (\<forall>(path, d) \<in> set ds. moduleSeen hash inputs reads path = Digest d)"
proof (induction paths arbitrary: ds)
  case (Cons path rest)
  show ?case
  proof (cases "jhas (pi_digests (wi_selected inputs)) path")
    case True
    then show ?thesis using Cons by simp
  next
    case False
    then obtain d more where m: "moduleSeen hash inputs reads path = Digest d"
      "moduleDigestsFrom hash inputs reads rest = Inr more" "ds = (path, d) # more"
      using Cons.prems
      by (cases "moduleSeen hash inputs reads path"; cases "moduleDigestsFrom hash inputs reads rest")
         (auto simp: moduleSeen_def)
    then show ?thesis using Cons.IH [OF m(2)] False by auto
  qed
qed simp

lemma map_of_functional:
  "map fst ds = filter P ps \<Longrightarrow> distinct ps \<Longrightarrow> \<forall>(p, d) \<in> set ds. f p = Some d \<Longrightarrow>
     map_of ds p = (if p \<in> set ps \<and> P p then f p else None)"
proof (cases "map_of ds p")
  case None
  moreover assume "map fst ds = filter P ps"
  ultimately have "p \<notin> set (filter P ps)" by (metis map_of_eq_None_iff list.set_map)
  then show ?thesis using None by auto
next
  case (Some d)
  moreover assume "map fst ds = filter P ps" "\<forall>(p, d) \<in> set ds. f p = Some d"
  moreover have "(p, d) \<in> set ds" using Some by (rule map_of_SomeD)
  moreover have "p \<in> set (map fst ds)" using Some by (force dest: map_of_SomeD)
  ultimately have "f p = Some d" "p \<in> set (filter P ps)" by auto
  then show ?thesis using Some by simp
qed

lemma unselectedModuleDigests_Inr:
  assumes "unselectedModuleDigests hash inputs reads = Inr ds"
  shows "map_of ds = listedModuleDigest hash inputs reads" and "sorted (map fst ds)" and "distinct (map fst ds)"
proof -
  let ?paths = "sort (uniq (li_testModules inputs @ li_setupFiles inputs))"
  note r = moduleDigestsFrom_Inr [OF assms [unfolded unselectedModuleDigests_def]]
  show "map_of ds = listedModuleDigest hash inputs reads"
  proof
    fix path
    have "map_of ds path = (if path \<in> set ?paths \<and> \<not> jhas (pi_digests (wi_selected inputs)) path
        then (case moduleSeen hash inputs reads path of Digest d \<Rightarrow> Some d | NoDigest _ \<Rightarrow> None) else None)"
      by (rule map_of_functional [OF conjunct1 [OF r]]) (use r in auto)
    then show "map_of ds path = listedModuleDigest hash inputs reads path" by (simp add: listedModuleDigest_def)
  qed
  show "sorted (map fst ds)" "distinct (map fst ds)" using r by (simp_all add: sorted_filter [of id, simplified])
qed

lemma envDigestsFrom_Inr:
  "envDigestsFrom hash inputs reads paths = Inr (ds, texts) \<Longrightarrow>
     texts = map (\<lambda>path. (path, readText (envFileDigest hash (sp_envFile reads path)))) paths \<and>
     map fst ds = filter (\<lambda>path. heldEnvDigest (wi_project inputs) path = None \<or> \<not> jhas (pi_digests (wi_selected inputs)) path) paths \<and>
     (\<forall>(path, d) \<in> set ds. d = (case heldEnvDigest (wi_project inputs) path of
        Some held \<Rightarrow> held | None \<Rightarrow> envDigestOf (envFileDigest hash (sp_envFile reads path))))"
proof (induction paths arbitrary: ds texts)
  case (Cons path rest)
  let ?read = "envFileDigest hash (sp_envFile reads path)"
  obtain ds' texts' where rest: "envDigestsFrom hash inputs reads rest = Inr (ds', texts')"
    using Cons.prems
    by (cases "envDigestsFrom hash inputs reads rest")
       (auto simp: Let_def split: EnvFileDigest.splits option.splits if_splits)
  have "texts = (path, readText ?read) # texts' \<and>
      (case heldEnvDigest (wi_project inputs) path of
         None \<Rightarrow> ds = (path, envDigestOf ?read) # ds'
       | Some held \<Rightarrow> (if jhas (pi_digests (wi_selected inputs)) path then ds = ds' else ds = (path, held) # ds'))"
    using Cons.prems rest
    by (auto simp: Let_def split: EnvFileDigest.splits option.splits if_splits)
  then show ?case using Cons.IH [OF rest]
    by (auto split: option.splits if_splits)
qed simp

lemma envFileDigests_Inr:
  assumes "envFileDigests hash inputs reads = Inr (ds, texts)"
  shows "map_of ds = listedEnvDigest hash inputs reads" and "sorted (map fst ds)" and "distinct (map fst ds)"
    and "texts = envTextsRead hash inputs reads"
proof -
  let ?paths = "sort (uniq (li_envFiles inputs))"
  let ?P = "\<lambda>path. heldEnvDigest (wi_project inputs) path = None \<or> \<not> jhas (pi_digests (wi_selected inputs)) path"
  let ?f = "\<lambda>path. Some (case heldEnvDigest (wi_project inputs) path of
        Some held \<Rightarrow> held | None \<Rightarrow> envDigestOf (envFileDigest hash (sp_envFile reads path)))"
  note r = envDigestsFrom_Inr [OF assms [unfolded envFileDigests_def]]
  show "map_of ds = listedEnvDigest hash inputs reads"
  proof
    fix path
    have "map_of ds path = (if path \<in> set ?paths \<and> ?P path then ?f path else None)"
      by (rule map_of_functional [where P = ?P and f = ?f and ps = ?paths]) (use r in auto)
    then show "map_of ds path = listedEnvDigest hash inputs reads path"
      by (auto simp: listedEnvDigest_def split: option.splits)
  qed
  show "sorted (map fst ds)" "distinct (map fst ds)" using r by (simp_all add: sorted_filter [of id, simplified])
  show "texts = envTextsRead hash inputs reads" using r by (simp add: envTextsRead_def)
qed

lemma sorted_map_of_unique:
  fixes xs ys :: "(string \<times> 'v) list"
  assumes "sorted (map fst xs)" "distinct (map fst xs)" "sorted (map fst ys)" "distinct (map fst ys)"
  shows "xs = ys \<longleftrightarrow> map_of xs = map_of ys"
proof
  assume eq: "map_of xs = map_of ys"
  then have "set xs = set ys" using assms(2,4) by (metis map_of_eq_Some_iff subrelI subset_antisym surj_pair map_of_inject_set)
  with assms show "xs = ys"
    by (intro map_sorted_distinct_set_unique [where f = fst]) (simp_all add: distinct_map)
qed simp

lemma digestOfEntries_iff:
  assumes "inj hash" and "wf_map a" and "wf_map b"
  shows "digestOfEntries hash a = digestOfEntries hash b \<longleftrightarrow> map_of a = map_of b"
proof -
  let ?line = "\<lambda>m key. JArr [JStr key, case map_of m key of Some d \<Rightarrow> JStr d | None \<Rightarrow> JNull]"
  let ?lines = "\<lambda>m. map (stringify \<circ> ?line m) (sort (keys m))"
  have shape: "digestOfEntries hash m = hash (flat_map (\<lambda>line. line @ [CHR 0x0A]) (?lines m))" for m
    by (simp add: digestOfEntries_def lineOf_def flat_map_def comp_def)
  have nl: "\<forall>l \<in> set (?lines a) \<union> set (?lines b). CHR 0x0A \<notin> set l" using stringify_no_newline by auto
  have "digestOfEntries hash a = digestOfEntries hash b \<longleftrightarrow> ?lines a = ?lines b"
    unfolding shape inj_eq [OF assms(1)]
    by (rule iffI [OF lines_inj [OF nl]]) (assumption, simp only:)
  also have "\<dots> \<longleftrightarrow> map_of a = map_of b"
  proof
    assume eq: "?lines a = ?lines b"
    then have pairs: "map (?line a) (sort (keys a)) = map (?line b) (sort (keys b))"
      by (metis (no_types, lifting) inj_map_eq_map injI map_map stringify_inj)
    have "sort (keys a) = sort (keys b)"
      using arg_cong [OF pairs, of "map (\<lambda>j. case j of JArr (JStr k # _) \<Rightarrow> k)"] by (simp add: comp_def)
    then have keys: "set (keys a) = set (keys b)" by (metis set_sort)
    have "map_of a k = map_of b k" if "k \<in> set (keys a)" for k
    proof -
      have "?line a k = ?line b k" using pairs \<open>sort (keys a) = sort (keys b)\<close> that keys by (simp add: map_eq_conv)
      then show ?thesis using that keys by (auto simp: in_keys_iff split: option.splits)
    qed
    moreover have "map_of a k = map_of b k" if "k \<notin> set (keys a)" for k
    proof -
      from that keys have "k \<notin> set (keys b)" by simp
      with that have "map_of a k = None" "map_of b k = None" by (simp_all add: in_keys_iff)
      then show ?thesis by simp
    qed
    ultimately show "map_of a = map_of b" by blast
  next
    assume eq: "map_of a = map_of b"
    then have "set (keys a) = set (keys b)" by (auto simp: in_keys_iff)
    then have "sort (keys a) = sort (keys b)"
      by (intro sorted_distinct_set_unique) (use assms in simp_all)
    then show "?lines a = ?lines b" by (simp add: eq)
  qed
  finally show ?thesis .
qed

lemma jsonDigests_inj: "jsonDigests xs = jsonDigests ys \<longleftrightarrow> xs = ys"
proof -
  have "inj (\<lambda>(path, digest). JArr [JStr path, JStr digest])" by (auto simp: inj_def)
  then show ?thesis by (simp add: jsonDigests_def inj_map_eq_map)
qed

lemma jsonVersion_inj: "jsonVersion v = jsonVersion w \<longleftrightarrow> v = w"
  by (auto simp: jsonVersion_def split: option.splits)

lemma environmentDigest_counts:
  "environmentDigest hash env vars = ec_digest (countEnvironment hash (ce_start env) (ce_declared env) (countsByValue vars))"
  by (auto simp: environmentDigest_def intro!: arg_cong [where f = "\<lambda>c. ec_digest (countEnvironment hash s d c)" for s d])

section \<open>Property\<close>

lemma workspaceFingerprint_parts:
  assumes "workspaceFingerprint hash host project entry reads narrowed = Digest digest"
  shows "\<exists>modules envFiles texts.
     unselectedModuleDigests hash (listedInputs project (workspaceListing entry) narrowed) reads = Inr modules \<and>
     envFileDigests hash (listedInputs project (workspaceListing entry) narrowed) reads = Inr (envFiles, texts) \<and>
     digest = digestOf hash
       (sharedParts host (environmentDigest hash (sp_environment reads) (carriedIn reads entry texts)) @
         [(''inputs'', JStr (digestOfEntries hash (pi_digests (wi_selected (listedInputs project (workspaceListing entry) narrowed))))),
          (''testModules'', jsonDigests modules), (''envFiles'', jsonDigests envFiles),
          (''vitestVersion'', jsonVersion (sp_vitestVersion reads (ws_directory (entryWorkspace entry))))])"
  using assms
  by (cases "workspaceEnvFilesKnown entry";
      cases "unselectedModuleDigests hash (listedInputs project (workspaceListing entry) narrowed) reads";
      cases "envFileDigests hash (listedInputs project (workspaceListing entry) narrowed) reads")
     (auto simp: workspaceFingerprint_def envFilesUnknown_def listedDigests_def Let_def split: prod.splits)

text \<open>
  C9. For a hash without collisions, two fingerprints of workspaces are equal exactly when they were
  taken on the same host and Vitest, over the same selected inputs with the same content, with the same
  content of every listed module and env file the inputs leave out, and with the same variables counted
  by the same values and the same entries set.
\<close>

theorem workspaceFingerprint_iff:
  assumes "inj hash"
    and "wf_map (pi_digests (case narrowed of Some selected \<Rightarrow> selected | None \<Rightarrow> project))"
    and "wf_map (pi_digests (case narrowed' of Some selected \<Rightarrow> selected | None \<Rightarrow> project'))"
    and "wf_map (ce_start (sp_environment reads))" and "wf_map (ce_start (sp_environment reads'))"
    and "workspaceFingerprint hash host project entry reads narrowed = Digest digest"
    and "workspaceFingerprint hash host' project' entry' reads' narrowed' = Digest digest'"
    and "inputs = listedInputs project (workspaceListing entry) narrowed"
    and "inputs' = listedInputs project' (workspaceListing entry') narrowed'"
    and "env = sp_environment reads" and "env' = sp_environment reads'"
    and "vars = countsByValue (carriedIn reads entry (envTextsRead hash inputs reads))"
    and "vars' = countsByValue (carriedIn reads' entry' (envTextsRead hash inputs' reads'))"
  shows "digest = digest' \<longleftrightarrow>
     host = host' \<and>
     sp_vitestVersion reads (ws_directory (entryWorkspace entry)) =
       sp_vitestVersion reads' (ws_directory (entryWorkspace entry')) \<and>
     map_of (pi_digests (wi_selected inputs)) = map_of (pi_digests (wi_selected inputs')) \<and>
     listedModuleDigest hash inputs reads = listedModuleDigest hash inputs' reads' \<and>
     listedEnvDigest hash inputs reads = listedEnvDigest hash inputs' reads' \<and>
     countedValue (ce_start env) (ce_declared env) vars = countedValue (ce_start env') (ce_declared env') vars' \<and>
     countedEntry (ce_start env) (ce_declared env) = countedEntry (ce_start env') (ce_declared env')"
proof -
  obtain ms es ts where a: "unselectedModuleDigests hash inputs reads = Inr ms"
    "envFileDigests hash inputs reads = Inr (es, ts)"
    "digest = digestOf hash
       (sharedParts host (environmentDigest hash env (carriedIn reads entry ts)) @
         [(''inputs'', JStr (digestOfEntries hash (pi_digests (wi_selected inputs)))),
          (''testModules'', jsonDigests ms), (''envFiles'', jsonDigests es),
          (''vitestVersion'', jsonVersion (sp_vitestVersion reads (ws_directory (entryWorkspace entry))))])"
    using workspaceFingerprint_parts [OF assms(6)] assms(8,10) by blast
  obtain ms' es' ts' where b: "unselectedModuleDigests hash inputs' reads' = Inr ms'"
    "envFileDigests hash inputs' reads' = Inr (es', ts')"
    "digest' = digestOf hash
       (sharedParts host' (environmentDigest hash env' (carriedIn reads' entry' ts')) @
         [(''inputs'', JStr (digestOfEntries hash (pi_digests (wi_selected inputs')))),
          (''testModules'', jsonDigests ms'), (''envFiles'', jsonDigests es'),
          (''vitestVersion'', jsonVersion (sp_vitestVersion reads' (ws_directory (entryWorkspace entry'))))])"
    using workspaceFingerprint_parts [OF assms(7)] assms(9,11) by blast
  note ma = unselectedModuleDigests_Inr [OF a(1)] and mb = unselectedModuleDigests_Inr [OF b(1)]
  note ea = envFileDigests_Inr [OF a(2)] and eb = envFileDigests_Inr [OF b(2)]
  have wf: "wf_map (pi_digests (wi_selected inputs))" "wf_map (pi_digests (wi_selected inputs'))"
    using assms(2,3,8,9) by (simp_all add: listedInputs_def WorkspaceListing.defs WorkspaceInputs.defs)
  have modules: "ms = ms' \<longleftrightarrow> listedModuleDigest hash inputs reads = listedModuleDigest hash inputs' reads'"
    using sorted_map_of_unique [OF ma(2,3) mb(2,3)] unfolding ma(1) mb(1) .
  have envs: "es = es' \<longleftrightarrow> listedEnvDigest hash inputs reads = listedEnvDigest hash inputs' reads'"
    using sorted_map_of_unique [OF ea(2,3) eb(2,3)] unfolding ea(1) eb(1) .
  have environment: "environmentDigest hash env (carriedIn reads entry ts) =
        environmentDigest hash env' (carriedIn reads' entry' ts') \<longleftrightarrow>
      countedValue (ce_start env) (ce_declared env) vars = countedValue (ce_start env') (ce_declared env') vars' \<and>
      countedEntry (ce_start env) (ce_declared env) = countedEntry (ce_start env') (ce_declared env')"
    unfolding environmentDigest_counts assms(12,13) ea(4) eb(4)
    by (rule environment_digest_iff) (use assms(1,4,5,10,11) in simp_all)
  have host: "ho_node host = ho_node host' \<and> ho_platform host = ho_platform host' \<and> ho_arch host = ho_arch host' \<longleftrightarrow> host = host'"
    by (cases host; cases host') auto
  show ?thesis
    unfolding a(3) b(3) digestOf_def inj_eq [OF assms(1)] stringify_inj
    using modules envs environment host digestOfEntries_iff [OF assms(1) wf]
    by (auto simp: sharedParts_def jsonDigests_inj jsonVersion_inj)
qed

definition sampleHost :: Host where
  "sampleHost = \<lparr>ho_node = ''v22.0.0'', ho_platform = ''linux'', ho_arch = ''x64''\<rparr>"

definition sampleInputs :: ProjectInputs where
  "sampleInputs = \<lparr>pi_root = ''/r'', pi_digests = [(''b.ts'', ''file:1'')], pi_listed = []\<rparr>"

definition sampleEntry :: WorkspaceDiscovery where
  "sampleEntry = WsDiscovered \<lparr>dw_workspace = \<lparr>ws_path = ''.'', ws_directory = ''/r''\<rparr>,
     dw_vitestVersion = ''3.2.4'',
     dw_tests = [\<lparr>it_identity = \<lparr>workspacePath = ''.'', projectName = ''p'', modulePath = ''a.test.ts'',
        namePath = [''t''], occurrence = 0\<rparr>, it_isDuplicate = False, dt_mode = ''run''\<rparr>],
     dw_failedModules = [], dw_typecheckModules = [], dw_unsupportedProjects = [], dw_unhandledErrors = [],
     dw_selectionFacts = FactsReported [], dw_closeError = None\<rparr>"

definition sampleReads :: "string \<Rightarrow> SnapshotReads" where
  "sampleReads content =
     \<lparr>sp_environment = \<lparr>ce_start = [(''HOME'', Some ''/h'')], ce_declared = []\<rparr>,
      sp_module = (\<lambda>path. if path = ''a.test.ts'' then ReadContent content else ReadMissing),
      sp_envFile = (\<lambda>_. \<lparr>ea_stat = Inr NoEntry, ea_open = OpenFoundAbsent, ea_fstat = Inr NoEntry,
        ea_content = Inl [], ea_closeError = None\<rparr>),
      sp_vitestVersion = (\<lambda>_. Some ''3.2.4'')\<rparr>"

definition sampleFingerprint :: "string \<Rightarrow> FingerprintResult" where
  "sampleFingerprint content = workspaceFingerprint id sampleHost sampleInputs sampleEntry (sampleReads content) None"

lemma sampleFingerprint_ok: "fingerprintOk (sampleFingerprint ''x'')" "fingerprintOk (sampleFingerprint ''y'')"
  by code_simp+

lemma sampleDigest_moves:
  "listedModuleDigest id (listedInputs sampleInputs (workspaceListing sampleEntry) None) (sampleReads ''x'') ''a.test.ts'' \<noteq>
     listedModuleDigest id (listedInputs sampleInputs (workspaceListing sampleEntry) None) (sampleReads ''y'') ''a.test.ts''"
  by code_simp

text \<open>A change of a test module the inputs leave out moves the fingerprint.\<close>

theorem workspaceFingerprint_iff_witness:
  "\<exists>digest digest'. sampleFingerprint ''x'' = Digest digest \<and> sampleFingerprint ''y'' = Digest digest' \<and>
     digest \<noteq> digest'"
proof -
  obtain d where d: "sampleFingerprint ''x'' = Digest d"
    using sampleFingerprint_ok(1) by (cases "sampleFingerprint ''x''") auto
  obtain e where e: "sampleFingerprint ''y'' = Digest e"
    using sampleFingerprint_ok(2) by (cases "sampleFingerprint ''y''") auto
  let ?i = "listedInputs sampleInputs (workspaceListing sampleEntry) None"
  have "listedModuleDigest id ?i (sampleReads ''x'') \<noteq> listedModuleDigest id ?i (sampleReads ''y'')"
    using sampleDigest_moves by metis
  moreover have "wf_map (pi_digests sampleInputs)" "wf_map (ce_start (sp_environment (sampleReads c)))" for c
    by (simp_all add: sampleInputs_def sampleReads_def)
  ultimately have "d \<noteq> e"
    using workspaceFingerprint_iff [OF inj_on_id _ _ _ _ d [unfolded sampleFingerprint_def] e [unfolded sampleFingerprint_def]
        refl refl refl refl refl refl] by simp
  with d e show ?thesis by blast
qed

end
