(* ===== verification/InputState.thy ===== *)
theory InputState
  imports Fingerprint
begin

text \<open>
  The inputs the tracker holds (\<^verbatim>\<open>inputs/input-state.ts\<close>): each with the digest and the stamp its
  last read saw, the listed files the inputs leave out, and the revision, which a commit raises when
  any digest changed since the last one. A time is an integer of the file system's unit, in ms.
\<close>

section \<open>The state\<close>

record InputStamp =
  im_size :: nat
  im_modifiedMs :: int
  im_changedMs :: int
  im_readAtMs :: int

record InputRead =
  ir_digest :: string
  ir_stamp :: InputStamp

type_synonym InputReads = "(string, InputRead) jsmap"

record InputState =
  is_root :: string
  is_inputs :: InputReads
  is_listed :: InputReads
  is_listedRead :: "string list"
  is_listedEverEstablished :: bool
  is_directories :: "string list"
  is_everEstablished :: bool
  is_established :: bool
  is_revision :: nat
  is_changed :: bool
  is_project :: "ProjectInputs option"

definition newInputState :: "string \<Rightarrow> InputState" where
  "newInputState root =
     \<lparr>is_root = root, is_inputs = [], is_listed = [], is_listedRead = [], is_listedEverEstablished = False,
      is_directories = [], is_everEstablished = False, is_established = False, is_revision = 0,
      is_changed = False, is_project = None\<rparr>"

record ListedReads =
  lr_files :: "string list"
  lr_reads :: InputReads

section \<open>Comparing reads\<close>

definition digestsOf :: "InputReads \<Rightarrow> InputDigests" where
  "digestsOf reads = map (\<lambda>(path, read). (path, ir_digest read)) reads"

definition inputLiesUnder :: "string \<Rightarrow> string \<Rightarrow> bool" where
  "inputLiesUnder input path = (path = [] \<or> input = path \<or> starts_with input (path @ [separator]))"

definition unmoved :: "InputRead \<Rightarrow> InputRead \<Rightarrow> bool" where
  "unmoved held walked =
     (ir_digest held = ir_digest walked \<and> im_size (ir_stamp held) = im_size (ir_stamp walked) \<and>
      im_modifiedMs (ir_stamp held) = im_modifiedMs (ir_stamp walked) \<and>
      im_changedMs (ir_stamp held) = im_changedMs (ir_stamp walked))"

definition restedSince :: "InputRead \<Rightarrow> InputRead \<Rightarrow> bool" where
  "restedSince held walked =
     (let lastWriteMs = max (im_modifiedMs (ir_stamp held)) (im_changedMs (ir_stamp held)) in
      unmoved held walked \<and> im_readAtMs (ir_stamp held) - lastWriteMs \<ge> int MODIFIED_TIME_RESOLUTION_MS)"

definition keptRead :: "InputReads \<Rightarrow> (string \<Rightarrow> bool) \<Rightarrow> string \<Rightarrow> InputRead \<Rightarrow> InputRead" where
  "keptRead held unread path read =
     (case map_of held path of
        None \<Rightarrow> read
      | Some before \<Rightarrow>
          (if ir_digest before = ir_digest read \<and> (unread path \<or> \<not> unmoved before read) then before else read))"

definition keptReads :: "InputReads \<Rightarrow> InputReads \<Rightarrow> (string \<Rightarrow> bool) \<Rightarrow> InputReads" where
  "keptReads held walked unread = map (\<lambda>(path, read). (path, keptRead held unread path read)) walked"

definition unrestedPaths :: "InputReads \<Rightarrow> InputReads \<Rightarrow> string list" where
  "unrestedPaths before after =
     map fst (filter (\<lambda>(path, read). case map_of before path of
         None \<Rightarrow> False
       | Some held \<Rightarrow> ir_digest held = ir_digest read \<and> \<not> restedSince held read) after)"

definition restampedPaths :: "InputReads \<Rightarrow> InputReads \<Rightarrow> string list" where
  "restampedPaths held walked =
     map fst (filter (\<lambda>(path, read). case map_of held path of
         None \<Rightarrow> False
       | Some before \<Rightarrow> ir_digest before = ir_digest read \<and> \<not> unmoved before read) walked)"

definition changedReads :: "InputReads \<Rightarrow> InputReads \<Rightarrow> string list" where
  "changedReads before after =
     map fst (filter (\<lambda>(path, read). map_option ir_digest (map_of before path) \<noteq> Some (ir_digest read)) after) @
     filter (\<lambda>path. \<not> jhas after path) (keys before)"

section \<open>The operations\<close>

definition hasInput :: "InputState \<Rightarrow> string \<Rightarrow> bool" where
  "hasInput s path = jhas (is_inputs s) path"

definition holdsDigest :: "InputState \<Rightarrow> string \<Rightarrow> string \<Rightarrow> bool" where
  "holdsDigest s path digest = (map_option ir_digest (map_of (is_inputs s) path) = Some digest)"

definition hasDirectory :: "InputState \<Rightarrow> string \<Rightarrow> bool" where
  "hasDirectory s directory = (directory \<in> set (is_directories s))"

definition establish :: "InputReads \<Rightarrow> string list \<Rightarrow> string list \<Rightarrow> InputState \<Rightarrow> string list \<times> InputState" where
  "establish inputs directories unread s =
     (let changed = (if is_everEstablished s then changedReads (is_inputs s) inputs else []) in
      (changed,
       s\<lparr>is_inputs := keptReads (is_inputs s) inputs (\<lambda>path. path \<in> set unread),
         is_directories := uniq directories, is_everEstablished := True, is_established := True,
         is_project := None, is_changed := (changed \<noteq> [] \<or> is_changed s)\<rparr>))"

definition lose :: "InputState \<Rightarrow> InputState" where
  "lose s = s\<lparr>is_established := False\<rparr>"

text \<open>\<^verbatim>\<open>#record\<close>: the reads with the new one, whether the digest differs, whether a write may have landed.\<close>

definition recordRead :: "InputReads \<Rightarrow> string \<Rightarrow> InputRead \<Rightarrow> InputReads \<times> bool \<times> bool" where
  "recordRead reads path read =
     (let held = map_of reads path in
      (jset path read reads, map_option ir_digest held \<noteq> Some (ir_digest read),
       (case held of None \<Rightarrow> True | Some before \<Rightarrow> \<not> restedSince before read)))"

definition setInput :: "string \<Rightarrow> InputRead \<Rightarrow> InputState \<Rightarrow> bool \<times> InputState" where
  "setInput path read s =
     (case recordRead (is_inputs s) path read of (reads, differs, landed) \<Rightarrow>
        (landed, s\<lparr>is_inputs := reads, is_changed := (differs \<or> is_changed s)\<rparr>))"

definition holdListed :: "string \<Rightarrow> InputRead \<Rightarrow> InputState \<Rightarrow> bool \<times> InputState" where
  "holdListed path read s =
     (case recordRead (is_listed s) path read of (reads, differs, landed) \<Rightarrow>
        (landed, s\<lparr>is_listedRead := jadd path (is_listedRead s), is_listed := reads,
                   is_changed := (differs \<or> is_changed s)\<rparr>))"

definition dropListed :: "string \<Rightarrow> InputState \<Rightarrow> bool \<times> InputState" where
  "dropListed path s =
     (let s1 = s\<lparr>is_listedRead := jadd path (is_listedRead s)\<rparr> in
      if \<not> jhas (is_listed s) path then (False, s1)
      else (True, s1\<lparr>is_listed := jdel path (is_listed s), is_changed := True\<rparr>))"

definition keepListed :: "string list \<Rightarrow> InputState \<Rightarrow> InputState" where
  "keepListed listed s =
     (let s1 = fold (\<lambda>path t. if path \<notin> set listed then snd (dropListed path t) else t) (keys (is_listed s)) s in
      s1\<lparr>is_listedRead := filter (\<lambda>path. path \<in> set listed) (is_listedRead s1)\<rparr>)"

definition establishListed :: "ListedReads \<Rightarrow> string list \<Rightarrow> InputState \<Rightarrow> string list \<times> InputState" where
  "establishListed given unread s =
     (let moved = (if is_listedEverEstablished s then changedReads (is_listed s) (lr_reads given) else []) in
      (filter (\<lambda>path. path \<in> set (lr_files given) \<and> path \<in> set (is_listedRead s)) moved,
       s\<lparr>is_listed := keptReads (is_listed s) (lr_reads given) (\<lambda>path. path \<in> set unread),
         is_listedRead := uniq (lr_files given), is_listedEverEstablished := True, is_project := None,
         is_changed := (moved \<noteq> [] \<or> is_changed s)\<rparr>))"

definition restamped :: "InputReads \<Rightarrow> InputReads \<Rightarrow> InputState \<Rightarrow> string list" where
  "restamped inputs listed s = restampedPaths (is_inputs s) inputs @ restampedPaths (is_listed s) listed"

definition removeDirectoriesInside :: "string \<Rightarrow> InputState \<Rightarrow> InputState" where
  "removeDirectoriesInside absolutePath s =
     s\<lparr>is_directories := filter (\<lambda>directory. \<not> liesInside absolutePath directory) (is_directories s)\<rparr>"

definition removeInput :: "string \<Rightarrow> string \<Rightarrow> InputState \<Rightarrow> string list \<times> InputState" where
  "removeInput path absolutePath s =
     (let isDirectory = hasDirectory s absolutePath;
          removed = (if isDirectory then filter (\<lambda>input. inputLiesUnder input path) (keys (is_inputs s))
                     else if jhas (is_inputs s) path then [path] else []);
          s1 = s\<lparr>is_inputs := fold jdel removed (is_inputs s)\<rparr>;
          s2 = (if isDirectory then removeDirectoriesInside absolutePath s1 else s1)
      in (removed, s2\<lparr>is_changed := (removed \<noteq> [] \<or> is_changed s)\<rparr>))"

definition replaceUnder :: "string \<Rightarrow> string \<Rightarrow> InputReads \<Rightarrow> string list \<Rightarrow> InputState \<Rightarrow> string list \<times> InputState" where
  "replaceUnder path absolutePath inputs directories s =
     (let before = filter (\<lambda>(input, _). inputLiesUnder input path) (is_inputs s);
          emptied = removeDirectoriesInside absolutePath (s\<lparr>is_inputs := fold jdel (keys before) (is_inputs s)\<rparr>);
          changed = changedReads before inputs
      in (changed @ unrestedPaths before inputs,
          emptied\<lparr>is_inputs := fold (\<lambda>(input, read). jset input read) (keptReads before inputs (\<lambda>_. True)) (is_inputs emptied),
            is_directories := fold jadd directories (is_directories emptied),
            is_changed := (changed \<noteq> [] \<or> is_changed s)\<rparr>))"

definition commit :: "InputState \<Rightarrow> InputState" where
  "commit s =
     (if \<not> is_changed s then s
      else s\<lparr>is_changed := False, is_revision := is_revision s + 1, is_project := None\<rparr>)"

definition project :: "InputState \<Rightarrow> ProjectInputs \<times> InputState" where
  "project s =
     (case is_project s of
        Some held \<Rightarrow> (held, s)
      | None \<Rightarrow>
          (let inputs = \<lparr>pi_root = is_root s, pi_digests = digestsOf (is_inputs s), pi_listed = digestsOf (is_listed s)\<rparr>
           in (inputs, s\<lparr>is_project := Some inputs\<rparr>)))"

section \<open>Lemmas\<close>

lemma map_of_digestsOf: "map_of (digestsOf reads) path = map_option ir_digest (map_of reads path)"
  by (induction reads) (auto simp: digestsOf_def)

lemma keys_digestsOf [simp]: "keys (digestsOf reads) = keys reads"
  by (simp add: digestsOf_def)

text \<open>A walk's reads are held with the digests the walk saw, whichever read is kept.\<close>

lemma digestsOf_keptReads [simp]: "digestsOf (keptReads held walked unread) = digestsOf walked"
  by (auto simp: digestsOf_def keptReads_def keptRead_def split: option.splits)

lemma changedReads_empty:
  "changedReads before after = [] \<Longrightarrow> map_of (digestsOf after) = map_of (digestsOf before)"
proof
  fix path
  assume e: "changedReads before after = []"
  show "map_of (digestsOf after) path = map_of (digestsOf before) path"
  proof (cases "map_of after path")
    case None
    then have "path \<notin> set (keys after)" by (simp add: in_keys_iff)
    moreover have "\<forall>p \<in> set (keys before). p \<in> set (keys after)"
      using e by (auto simp: changedReads_def filter_empty_conv)
    ultimately have "path \<notin> set (keys before)" by blast
    then have "map_of before path = None" by (simp add: in_keys_iff)
    with \<open>map_of after path = None\<close> show ?thesis by (simp add: map_of_digestsOf)
  next
    case (Some read)
    then have "(path, read) \<in> set after" by (rule map_of_SomeD)
    then have "map_option ir_digest (map_of before path) = Some (ir_digest read)"
      using e by (auto simp: changedReads_def filter_empty_conv)
    then show ?thesis using Some by (auto simp: map_of_digestsOf)
  qed
qed

section \<open>Sequences of operations\<close>

datatype InputEvent =
    EvEstablish InputReads "string list" "string list"
  | EvLose
  | EvSet string InputRead
  | EvHoldListed string InputRead
  | EvDropListed string
  | EvKeepListed "string list"
  | EvEstablishListed ListedReads "string list"
  | EvRemove string string
  | EvReplaceUnder string string InputReads "string list"
  | EvCommit
  | EvProject

fun inputStep :: "InputEvent \<Rightarrow> InputState \<Rightarrow> InputState" where
  "inputStep (EvEstablish inputs directories unread) s = snd (establish inputs directories unread s)"
| "inputStep EvLose s = lose s"
| "inputStep (EvSet path read) s = snd (setInput path read s)"
| "inputStep (EvHoldListed path read) s = snd (holdListed path read s)"
| "inputStep (EvDropListed path) s = snd (dropListed path s)"
| "inputStep (EvKeepListed listed) s = keepListed listed s"
| "inputStep (EvEstablishListed given unread) s = snd (establishListed given unread s)"
| "inputStep (EvRemove path absolutePath) s = snd (removeInput path absolutePath s)"
| "inputStep (EvReplaceUnder path absolutePath inputs directories) s =
     snd (replaceUnder path absolutePath inputs directories s)"
| "inputStep EvCommit s = commit s"
| "inputStep EvProject s = snd (project s)"

definition runInputs :: "InputEvent list \<Rightarrow> InputState \<Rightarrow> InputState" where
  "runInputs events = fold inputStep events"

text \<open>What a fingerprint sees of the held inputs.\<close>

definition heldDigests :: "InputState \<Rightarrow> (string \<rightharpoonup> string) \<times> (string \<rightharpoonup> string)" where
  "heldDigests s = (map_of (digestsOf (is_inputs s)), map_of (digestsOf (is_listed s)))"

text \<open>An operation other than a commit marks a change whenever it moves a digest.\<close>

definition marks :: "InputState \<Rightarrow> InputState \<Rightarrow> bool" where
  "marks t u =
     ((is_changed u \<or> \<not> is_changed t \<and> heldDigests u = heldDigests t) \<and>
      is_revision u = is_revision t \<and> is_everEstablished u \<and> is_listedEverEstablished u \<and> is_root u = is_root t \<and>
      (is_project u = None \<or> is_project u = is_project t))"

lemma recordRead_same:
  "recordRead reads path read = (reads', False, landed) \<Longrightarrow> map_of (digestsOf reads') = map_of (digestsOf reads)"
  by (auto simp: recordRead_def Let_def fun_eq_iff map_of_digestsOf)

lemma fold_jdel_get: "map_of (fold jdel ps m) path = (if path \<in> set ps then None else map_of m path)"
  by (induction ps arbitrary: m) auto

lemma dropListed_marks:
  "is_everEstablished t \<Longrightarrow> is_listedEverEstablished t \<Longrightarrow> marks t (snd (dropListed path t))"
  by (auto simp: marks_def dropListed_def Let_def heldDigests_def)

lemma marks_trans: "marks s t \<Longrightarrow> marks t u \<Longrightarrow> marks s u"
  by (auto simp: marks_def)

lemma replaceUnder_held:
  assumes "changedReads (filter (\<lambda>(input, _). inputLiesUnder input path) m) inputs = []"
  shows "map_of (digestsOf (fold (\<lambda>(input, read). jset input read)
      (keptReads (filter (\<lambda>(input, _). inputLiesUnder input path) m) inputs (\<lambda>_. True))
      (fold jdel (keys (filter (\<lambda>(input, _). inputLiesUnder input path) m)) m))) = map_of (digestsOf m)"
proof
  fix q
  let ?before = "filter (\<lambda>(input, _). inputLiesUnder input path) m"
  let ?kept = "keptReads ?before inputs (\<lambda>_. True)"
  have setting: "map_of (fold (\<lambda>(input, read). jset input read) ks n) q =
      (case map_of (rev ks) q of Some v \<Rightarrow> Some v | None \<Rightarrow> map_of n q)" for ks :: InputReads and n
    by (induction ks arbitrary: n) (auto simp: map_add_def split: option.split)
  have digest: "map_option ir_digest (map_of ?before q) = Some (ir_digest v)" if "(q, v) \<in> set ?kept" for v
  proof -
    from that obtain read where "(q, read) \<in> set inputs" "v = keptRead ?before (\<lambda>_. True) q read"
      by (auto simp: keptReads_def)
    moreover from this(1) have "map_option ir_digest (map_of ?before q) = Some (ir_digest read)"
      using assms by (auto simp: changedReads_def filter_empty_conv)
    ultimately show ?thesis by (auto simp: keptRead_def split: option.splits)
  qed
  have before: "map_of ?before q = (if inputLiesUnder q path then map_of m q else None)"
    using map_of_filter_keys [of "\<lambda>k. inputLiesUnder k path" m q] by (simp add: case_prod_unfold)
  show "map_of (digestsOf (fold (\<lambda>(input, read). jset input read) ?kept (fold jdel (keys ?before) m))) q = map_of (digestsOf m) q"
  proof (cases "map_of (rev ?kept) q")
    case None
    then have "q \<notin> set (keys ?kept)" by (simp add: map_of_eq_None_iff keys_def)
    then have "q \<notin> set (keys inputs)" by (simp add: keptReads_def)
    then have "q \<notin> set (keys ?before)"
      using assms by (auto simp: changedReads_def filter_empty_conv)
    then show ?thesis using None by (simp add: map_of_digestsOf setting fold_jdel_get)
  next
    case (Some v)
    then have "(q, v) \<in> set ?kept" by (auto dest: map_of_SomeD)
    from digest [OF this] show ?thesis
      using Some before by (auto simp: map_of_digestsOf setting split: if_splits)
  qed
qed

lemma keepListed_marks:
  "is_everEstablished t \<Longrightarrow> is_listedEverEstablished t \<Longrightarrow> marks t (keepListed listed t)"
proof -
  have "marks t (fold (\<lambda>path t. if path \<notin> set listed then snd (dropListed path t) else t) ps u)"
    if "marks t u" for ps u
    using that
  proof (induction ps arbitrary: u)
    case (Cons p ps)
    have "is_everEstablished u" "is_listedEverEstablished u" using Cons.prems by (simp_all add: marks_def)
    then have "marks t (snd (dropListed p u))" using marks_trans [OF Cons.prems dropListed_marks] by blast
    then show ?case using Cons by simp
  qed simp
  moreover assume "is_everEstablished t" "is_listedEverEstablished t"
  then have "marks t t" by (simp add: marks_def)
  ultimately show ?thesis by (auto simp: keepListed_def Let_def marks_def heldDigests_def)
qed

lemma inputStep_marks:
  assumes "is_everEstablished t" and "is_listedEverEstablished t" and "event \<noteq> EvCommit" and "event \<noteq> EvProject"
  shows "marks t (inputStep event t)"
proof (cases event)
  case (EvEstablish inputs directories unread)
  then show ?thesis using assms
    by (auto simp: marks_def establish_def Let_def heldDigests_def dest!: changedReads_empty)
next
  case (EvEstablishListed given unread)
  then show ?thesis using assms
    by (auto simp: marks_def establishListed_def Let_def heldDigests_def dest!: changedReads_empty)
next
  case (EvSet path read)
  then show ?thesis using assms
    by (auto simp: marks_def setInput_def heldDigests_def dest!: recordRead_same split: prod.splits)
next
  case (EvHoldListed path read)
  then show ?thesis using assms
    by (auto simp: marks_def holdListed_def heldDigests_def dest!: recordRead_same split: prod.splits)
next
  case (EvRemove path absolutePath)
  then show ?thesis using assms
    by (auto simp: marks_def removeInput_def Let_def heldDigests_def removeDirectoriesInside_def)
next
  case (EvReplaceUnder path absolutePath inputs directories)
  then show ?thesis using assms
    by (auto simp: marks_def replaceUnder_def Let_def heldDigests_def removeDirectoriesInside_def replaceUnder_held)
next
  case (EvDropListed path)
  then show ?thesis using dropListed_marks assms by simp
next
  case (EvKeepListed listed)
  then show ?thesis using keepListed_marks assms by simp
qed (use assms in \<open>auto simp: lose_def marks_def heldDigests_def\<close>)

text \<open>A held view of the inputs is the inputs themselves whenever no change waits for a commit.\<close>

definition projectHolds :: "InputState \<Rightarrow> bool" where
  "projectHolds s =
     (case is_project s of
        None \<Rightarrow> True
      | Some held \<Rightarrow> pi_root held = is_root s \<and>
          (is_changed s \<or> (map_of (pi_digests held), map_of (pi_listed held)) = heldDigests s))"

text \<open>What holds at \<open>t\<close>, a state reached from the established \<open>s\<close>.\<close>

definition clocked :: "InputState \<Rightarrow> InputState \<Rightarrow> bool" where
  "clocked s t =
     (is_everEstablished t \<and> is_listedEverEstablished t \<and> projectHolds t \<and>
      (is_revision s < is_revision t \<or>
       is_revision s = is_revision t \<and> (is_changed t \<or> \<not> is_changed s \<and> heldDigests t = heldDigests s)))"

lemma clocked_marks: "clocked s t \<Longrightarrow> marks t u \<Longrightarrow> clocked s u"
  by (auto simp: clocked_def marks_def projectHolds_def split: option.splits)

lemma inputStep_clocked: "clocked s t \<Longrightarrow> clocked s (inputStep event t)"
proof (cases "event = EvCommit \<or> event = EvProject")
  case False
  assume c: "clocked s t"
  then have "marks t (inputStep event t)" using False by (intro inputStep_marks) (auto simp: clocked_def)
  then show ?thesis by (rule clocked_marks [OF c])
next
  case True
  assume c: "clocked s t"
  have "clocked s (commit t)" using c by (cases "is_changed t") (auto simp: clocked_def commit_def projectHolds_def)
  moreover have "clocked s (snd (project t))" using c
    by (cases "is_project t") (auto simp: clocked_def project_def projectHolds_def heldDigests_def Let_def)
  ultimately show ?thesis using True by auto
qed

lemma runInputs_clocked: "clocked s t \<Longrightarrow> clocked s (runInputs events t)"
  unfolding runInputs_def by (induction events arbitrary: t) (auto dest: inputStep_clocked)

section \<open>Property\<close>


definition sampleRead :: "string \<Rightarrow> int \<Rightarrow> InputRead" where
  "sampleRead digest ms = \<lparr>ir_digest = digest,
     ir_stamp = \<lparr>im_size = 1, im_modifiedMs = ms, im_changedMs = ms, im_readAtMs = ms\<rparr>\<rparr>"

definition sampleState :: InputState where
  "sampleState = runInputs
     [EvEstablish [(''a.ts'', sampleRead ''file:1'' 0)] [''/r''] [],
      EvEstablishListed \<lparr>lr_files = [], lr_reads = []\<rparr> []] (newInputState ''/r'')"


end
