(* ===== verification/CurrentInputs.thy ===== *)
theory CurrentInputs
  imports Fingerprint
begin

text \<open>
  What a query or a run reads of the inputs at one moment (\<^verbatim>\<open>inputs/current-inputs.ts\<close>): whether
  they can be vouched for, and every fingerprint of the moment, taken over one snapshot and one reading
  of the narrowing at the moment's revision. An object of functions is a record of functions here.
\<close>

section \<open>The facts\<close>

datatype Reconciliation = ReconciliationComplete | ReconciliationIncomplete string

datatype WatcherHealth = WatcherHealthy | WatcherUnhealthy string

record InputFacts =
  if_revision :: nat
  if_reconciliation :: Reconciliation
  if_lastReconciledAt :: "string option"
  if_watcher :: WatcherHealth
  if_pendingChanges :: nat
  if_gitUnread :: "string list"

record TrackerCondition =
  tk_stopped :: bool
  tk_lastReconciledAt :: "string option"
  tk_reconciling :: bool
  tk_establishFailure :: "string option"
  tk_watchFailure :: "string option"
  tk_protecting :: bool
  tk_pending :: nat

definition incompleteReason :: "TrackerCondition \<Rightarrow> string option" where
  "incompleteReason c =
     (if tk_stopped c then Some ''the daemon is stopping''
      else if tk_lastReconciledAt c = None then Some ''the first reconciliation has not ended''
      else if tk_reconciling c then Some ''a reconciliation of the inputs is running''
      else case tk_establishFailure c of
        Some failure \<Rightarrow> Some (''the input set could not be established: '' @ failure)
      | None \<Rightarrow>
          (if tk_protecting c
           then Some ''a change of protection is finding the files a declared pattern no longer hides'' else None))"

definition inputFacts :: "TrackerCondition \<Rightarrow> nat \<Rightarrow> string list \<Rightarrow> InputFacts" where
  "inputFacts c revision gitUnread =
     \<lparr>if_revision = revision,
      if_reconciliation = (case incompleteReason c of
         None \<Rightarrow> ReconciliationComplete | Some reason \<Rightarrow> ReconciliationIncomplete reason),
      if_lastReconciledAt = tk_lastReconciledAt c,
      if_watcher = (case tk_watchFailure c of None \<Rightarrow> WatcherHealthy | Some reason \<Rightarrow> WatcherUnhealthy reason),
      if_pendingChanges = tk_pending c, if_gitUnread = gitUnread\<rparr>"

definition unavailableReason :: "TrackerCondition \<Rightarrow> string option" where
  "unavailableReason c =
     (case incompleteReason c of
        Some incomplete \<Rightarrow> Some incomplete
      | None \<Rightarrow>
          (case tk_watchFailure c of
             Some failure \<Rightarrow> Some (''the input watcher is unhealthy: '' @ failure)
           | None \<Rightarrow>
               (if tk_pending c > 0 then Some (show_nat (tk_pending c) @ '' changed paths have not been read yet'')
                else None)))"

section \<open>The view\<close>

record CurrentInputs =
  ci_facts :: InputFacts
  ci_unavailable :: "string option"
  ci_nonInputsUnusable :: "string option"
  ci_inputsNotNarrowed :: "InputsNotNarrowed option"
  ci_snapshot :: "ProjectInputs option"
  ci_workspaceFingerprint :: "WorkspaceDiscovery \<Rightarrow> FingerprintResult"
  ci_discoveryFingerprint :: "TestDiscovery \<Rightarrow> FingerprintResult"
  ci_protectedFileChangedSince :: "TestDiscovery \<Rightarrow> nat \<Rightarrow> string option"

text \<open>The moment, with what its reads outside the inputs answer.\<close>

record InputsMoment =
  mo_facts :: InputFacts
  mo_unavailable :: "string option"
  mo_nonInputsUnusable :: "string option"
  mo_narrowing :: "Narrowing QueryNarrowing option"
  mo_project :: ProjectInputs
  mo_reads :: SnapshotReads
  mo_modifiedAt :: "string \<Rightarrow> ModifiedAt"

definition unlessRefused :: "Narrowing WorkspaceNarrowing option \<Rightarrow> ProjectInputs \<Rightarrow> Narrowing WorkspaceNarrowing option" where
  "unlessRefused workspaces project =
     (case workspaces of
        Some (Narrowed n) \<Rightarrow>
          (case fst (refusal project n) of
             None \<Rightarrow> workspaces
           | Some reason \<Rightarrow> Some (Widened \<lparr>inn_kind = SelectionRefused, inn_reason = reason\<rparr>))
      | _ \<Rightarrow> workspaces)"

definition notNarrowedFact :: "Narrowing WorkspaceNarrowing option \<Rightarrow> InputsNotNarrowed option" where
  "notNarrowedFact workspaces =
     (case workspaces of
        Some (Building _ notNarrowed) \<Rightarrow> notNarrowed
      | Some (Widened notNarrowed) \<Rightarrow> Some notNarrowed
      | _ \<Rightarrow> None)"

definition narrowedFingerprint ::
  "(string \<Rightarrow> string) \<Rightarrow> Host \<Rightarrow> Narrowing WorkspaceNarrowing option \<Rightarrow> ProjectInputs \<Rightarrow> WorkspaceDiscovery \<Rightarrow>
     SnapshotReads \<Rightarrow> FingerprintResult" where
  "narrowedFingerprint hash host workspaces project entry reads =
     (case workspaces of
        Some (Building reason _) \<Rightarrow> NoDigest reason
      | Some (Narrowed n) \<Rightarrow>
          workspaceFingerprint hash host project entry reads (Some (fst (workspaceInputs project (entryPath entry) n)))
      | _ \<Rightarrow> workspaceFingerprint hash host project entry reads None)"

definition currentInputs :: "(string \<Rightarrow> string) \<Rightarrow> Host \<Rightarrow> InputsMoment \<Rightarrow> CurrentInputs" where
  "currentInputs hash host m =
     (let workspaces = map_option (\<lambda>query. narrowingAt query (if_revision (mo_facts m))) (mo_narrowing m) in
      case mo_unavailable m of
        Some reason \<Rightarrow>
          \<lparr>ci_facts = mo_facts m, ci_unavailable = Some reason, ci_nonInputsUnusable = mo_nonInputsUnusable m,
           ci_inputsNotNarrowed = notNarrowedFact workspaces, ci_snapshot = None,
           ci_workspaceFingerprint = (\<lambda>_. NoDigest reason), ci_discoveryFingerprint = (\<lambda>_. NoDigest reason),
           ci_protectedFileChangedSince = (\<lambda>_ _. Some reason)\<rparr>
      | None \<Rightarrow>
          (let inputs = mo_project m; selected = unlessRefused workspaces inputs in
           \<lparr>ci_facts = mo_facts m, ci_unavailable = None, ci_nonInputsUnusable = mo_nonInputsUnusable m,
            ci_inputsNotNarrowed = notNarrowedFact selected, ci_snapshot = Some inputs,
            ci_workspaceFingerprint = (\<lambda>entry. narrowedFingerprint hash host selected inputs entry (mo_reads m)),
            ci_discoveryFingerprint = (\<lambda>discovery. discoveryFingerprint hash host inputs discovery (mo_reads m)),
            ci_protectedFileChangedSince = (\<lambda>discovery since.
               protectedFileChangedSince inputs discovery (mo_modifiedAt m) since)\<rparr>))"

section \<open>Lemmas\<close>

lemma unavailableReason_None:
  "unavailableReason c = None \<longleftrightarrow>
     \<not> tk_stopped c \<and> tk_lastReconciledAt c \<noteq> None \<and> \<not> tk_reconciling c \<and> tk_establishFailure c = None \<and>
     \<not> tk_protecting c \<and> tk_watchFailure c = None \<and> tk_pending c = 0"
  by (auto simp: unavailableReason_def incompleteReason_def split: option.splits)

text \<open>Without a vouched snapshot, or while the build that decides the narrowing runs, nothing is fingerprinted.\<close>

lemma view_fingerprinted:
  assumes "ci_workspaceFingerprint (currentInputs hash host m) entry = Digest digest"
  shows "mo_unavailable m = None" and "ci_snapshot (currentInputs hash host m) = Some (mo_project m)"
    and "workspaceEnvFilesKnown entry = EnvKnown"
    and "map_option (\<lambda>query. narrowingAt query (if_revision (mo_facts m))) (mo_narrowing m) \<noteq> Some (Building reason notNarrowed)"
  using assms
  by (auto simp: currentInputs_def Let_def narrowedFingerprint_def unlessRefused_def workspaceFingerprint_def
      envFilesUnknown_def split: option.splits WorkspaceNarrowing.splits EnvFilesKnown.splits)

end
