(* ===== verification/RunJudgment.thy ===== *)
theory RunJudgment
  imports CurrentInputs
begin

text \<open>
  Whether a run can be stored under the fingerprint it started from (\<^verbatim>\<open>daemon/run-judgment.ts\<close>), and
  the watch that holds how every dependency build ended while the run runs places a path and interrupts
  the run once it can no longer become current. \<^verbatim>\<open>'n\<close> is the identity of a build's narrowing; the
  argument \<open>placing\<close> is what that build's placement of paths for a workspace answers, or the error it
  throws. Each round of the watch's loop is one step, with what it reads at that moment.
\<close>

section \<open>The judgement\<close>

datatype NotKeptKind = KindNoStartFingerprint | KindChangedInside | KindCauses | KindEndUnavailable | KindMoved

record NotKeptVerdict =
  nk_kind :: NotKeptKind
  nk_reason :: string

datatype RunJudgment =
    NoStartFingerprint string
  | ChangedInside (ch_paths: "string list") (ch_narrowed: "string list") (ch_endFingerprinted: bool)
  | CausedBy "string list"
  | EndUnavailable string
  | Moved
  | Kept "string list"

datatype 'n ChangePlacement = PlacedBy 'n | PlacedWidened

record ('n, 'd) WatchedRunFacts =
  rf_workspacePath :: string
  rf_start :: FingerprintResult
  rf_window :: "'d JobWindow"
  rf_listedFiles :: "string list"
  rf_placements :: "'n ChangePlacement list"
  rf_end :: "FingerprintResult option"

record PathsInside =
  pt_inside :: "string list"
  pt_narrowed :: "string list"

type_synonym 'n Placing = "'n \<Rightarrow> string list \<Rightarrow> string \<Rightarrow> string + PathPlacement"

text \<open>The loop of \<^verbatim>\<open>placeFor\<close>: the paths found inside, and those a narrowed build places inside.\<close>

fun placeOver :: "'n Placing \<Rightarrow> string list \<Rightarrow> string \<Rightarrow> string list \<Rightarrow> 'n ChangePlacement list \<Rightarrow>
    string list \<times> string list \<Rightarrow> string + string list \<times> string list" where
  "placeOver placing paths wsPath listed [] found = Inr found"
| "placeOver placing paths wsPath listed (PlacedWidened # rest) (inside, narrowed) =
     placeOver placing paths wsPath listed rest (fold jadd paths inside, narrowed)"
| "placeOver placing paths wsPath listed (PlacedBy build # rest) (inside, narrowed) =
     (case placing build paths wsPath of
        Inl error \<Rightarrow> Inl error
      | Inr placed \<Rightarrow>
          (let both = pp_inside placed @ listed in
           placeOver placing paths wsPath listed rest
             (fold jadd (pp_widened placed) (fold jadd both inside), fold jadd both narrowed)))"

definition placeFor :: "'n Placing \<Rightarrow> string list \<Rightarrow> string \<Rightarrow> string list \<Rightarrow> 'n ChangePlacement list \<Rightarrow>
    string + PathsInside" where
  "placeFor placing paths wsPath listedFiles places =
     (let listed = filter (\<lambda>path. caseComparable path \<in> set listedFiles) paths in
      map_sum id (\<lambda>(inside, narrowed).
        \<lparr>pt_inside = filter (\<lambda>path. path \<in> set inside) paths,
         pt_narrowed = filter (\<lambda>path. path \<in> set narrowed) paths\<rparr>)
        (placeOver placing paths wsPath listed places (uniq listed, [])))"

definition placedInside :: "'n Placing \<Rightarrow> ('n, 'd) WatchedRunFacts \<Rightarrow> string + PathsInside" where
  "placedInside placing facts =
     placeFor placing (jw_paths (rf_window facts)) (rf_workspacePath facts) (rf_listedFiles facts) (rf_placements facts)"

definition judgeRun :: "'n Placing \<Rightarrow> ('n, 'd) WatchedRunFacts \<Rightarrow> string + RunJudgment" where
  "judgeRun placing facts =
     (case rf_start facts of
        NoDigest reason \<Rightarrow> Inr (NoStartFingerprint reason)
      | Digest started \<Rightarrow>
          (case placedInside placing facts of
             Inl error \<Rightarrow> Inl error
           | Inr placed \<Rightarrow>
               Inr (if pt_inside placed \<noteq> []
                    then ChangedInside (pt_inside placed) (pt_narrowed placed)
                      (case rf_end facts of Some ended \<Rightarrow> fingerprintOk ended | None \<Rightarrow> False)
                    else if jw_causes (rf_window facts) \<noteq> [] then CausedBy (jw_causes (rf_window facts))
                    else (case rf_end facts of
                        Some (NoDigest reason) \<Rightarrow> EndUnavailable reason
                      | Some (Digest ended) \<Rightarrow> (if ended \<noteq> started then Moved else Kept (jw_paths (rf_window facts)))
                      | None \<Rightarrow> Kept (jw_paths (rf_window facts))))))"

section \<open>What a judgement says\<close>

definition judgmentReason :: "RunJudgment \<Rightarrow> string" where
  "judgmentReason judgment =
     (case judgment of
        NoStartFingerprint reason \<Rightarrow> ''it started without an input fingerprint: '' @ reason
      | ChangedInside paths _ _ \<Rightarrow> ''its inputs changed while it ran: '' @ namedList paths
      | CausedBy causes \<Rightarrow> ''its inputs could not be vouched for while it ran: '' @ namedList causes
      | EndUnavailable reason \<Rightarrow> ''its workspace's input fingerprint could not be taken at its end: '' @ reason
      | Moved \<Rightarrow> ''its workspace's input fingerprint at its end differs from the one at its start''
      | Kept _ \<Rightarrow> [])"

definition judgmentKind :: "RunJudgment \<Rightarrow> NotKeptKind option" where
  "judgmentKind judgment =
     (case judgment of
        NoStartFingerprint _ \<Rightarrow> Some KindNoStartFingerprint
      | ChangedInside _ _ _ \<Rightarrow> Some KindChangedInside
      | CausedBy _ \<Rightarrow> Some KindCauses
      | EndUnavailable _ \<Rightarrow> Some KindEndUnavailable
      | Moved \<Rightarrow> Some KindMoved
      | Kept _ \<Rightarrow> None)"

definition runVerdict :: "RunJudgment \<Rightarrow> JobVerdict" where
  "runVerdict judgment =
     (case judgment of
        Kept _ \<Rightarrow> Fingerprinted
      | _ \<Rightarrow> NotFingerprinted (judgmentReason judgment)
          (judgment = Moved \<or> (case judgment of ChangedInside _ _ endFingerprinted \<Rightarrow> endFingerprinted | _ \<Rightarrow> False)))"

definition notKeptVerdict :: "RunJudgment \<Rightarrow> NotKeptVerdict option" where
  "notKeptVerdict judgment =
     map_option (\<lambda>kind. \<lparr>nk_kind = kind, nk_reason = judgmentReason judgment\<rparr>) (judgmentKind judgment)"

definition labelsInvalidated :: "NotKeptVerdict option \<Rightarrow> bool" where
  "labelsInvalidated notKept =
     (case notKept of Some verdict \<Rightarrow> nk_kind verdict \<in> {KindChangedInside, KindMoved} | None \<Rightarrow> False)"

definition changedWhileRunning :: "RunJudgment \<Rightarrow> bool" where
  "changedWhileRunning judgment =
     (case runVerdict judgment of Fingerprinted \<Rightarrow> False | NotFingerprinted _ changed \<Rightarrow> changed)"

definition interruptingPaths :: "RunJudgment \<Rightarrow> string list option" where
  "interruptingPaths judgment =
     (case judgment of
        ChangedInside _ narrowed _ \<Rightarrow> (if narrowed = [] then None else Some narrowed)
      | _ \<Rightarrow> None)"

definition keptAlthoughChanged :: "RunJudgment \<Rightarrow> string option" where
  "keptAlthoughChanged judgment =
     (case judgment of
        Kept outside \<Rightarrow>
          (if outside = [] then None
           else Some (''is stored under its input fingerprint, since only paths outside its workspace's inputs changed while it ran: '' @
             namedList outside))
      | _ \<Rightarrow> None)"

section \<open>How a build places changes\<close>

definition placementOf :: "CurrentInputs \<Rightarrow> 'n QueryNarrowing \<Rightarrow> 'n ChangePlacement option" where
  "placementOf view query =
     (if ci_unavailable view \<noteq> None then None
      else (case narrowingAt query (if_revision (ci_facts view)) of
          Building _ _ \<Rightarrow> None
        | Narrowed build \<Rightarrow> Some (if ci_inputsNotNarrowed view = None then PlacedBy build else PlacedWidened)
        | Widened _ \<Rightarrow> Some PlacedWidened))"

definition roundPlacement :: "CurrentInputs \<Rightarrow> 'n QueryNarrowing \<Rightarrow> 'n ChangePlacement" where
  "roundPlacement view query = (case placementOf view query of Some placement \<Rightarrow> placement | None \<Rightarrow> PlacedWidened)"

definition pathsInside :: "'n Placing \<Rightarrow> string list \<Rightarrow> WorkspaceDiscovery \<Rightarrow> 'n ChangePlacement \<Rightarrow> string + string list" where
  "pathsInside placing paths entry placement =
     map_sum id pt_inside (placeFor placing paths (entryPath entry) (workspaceListedFiles entry) [placement])"

text \<open>\<^verbatim>\<open>latestEnded\<close>; the number is the identity of the build last recorded.\<close>

datatype 'n LatestEnded = LatestWidened | LatestBuild nat "'n EndedBuild"

definition latestEnded :: "'n QueryNarrowing \<Rightarrow> nat \<Rightarrow> 'n LatestEnded option" where
  "latestEnded query build =
     (if qn_buildsEnded query \<noteq> None then Some LatestWidened
      else (case qn_state query of
          None \<Rightarrow> None
        | Some state \<Rightarrow>
            (if Some (ns_discoveryId state) \<noteq> qn_discoveryId query then None
             else (case state of
                 WithoutSelectionInput _ _ \<Rightarrow> Some LatestWidened
               | WithSelectionInput _ latest _ \<Rightarrow> map_option (LatestBuild build) latest))))"

section \<open>The watch of a run\<close>

record 'n RunWatch =
  rw_started :: FingerprintResult
  rw_held :: "'n ChangePlacement list"
  rw_heldBuilds :: "'n list"
  rw_seen :: "nat list"
  rw_heldWidened :: bool
  rw_newerBuildEnded :: bool
  rw_returned :: bool
  rw_closed :: bool
  rw_interruption :: "string option"
  rw_interruptedBy :: "string list option"
  rw_watching :: bool
  rw_log :: "string list"

text \<open>What the watch reads at a moment, and whether an interrupt then reaches the run's job.\<close>

record ('n, 'd) WatchMoment =
  wm_query :: "'n QueryNarrowing"
  wm_build :: nat
  wm_view :: CurrentInputs
  wm_window :: "'d JobWindow"
  wm_stopping :: bool
  wm_interrupts :: bool

definition holdPlacement :: "'n ChangePlacement \<Rightarrow> 'n RunWatch \<Rightarrow> 'n RunWatch" where
  "holdPlacement placement w =
     (case placement of
        PlacedWidened \<Rightarrow>
          (if rw_heldWidened w then w else w\<lparr>rw_heldWidened := True, rw_held := rw_held w @ [placement]\<rparr>)
      | PlacedBy build \<Rightarrow>
          (if build \<in> set (rw_heldBuilds w) then w
           else w\<lparr>rw_heldBuilds := rw_heldBuilds w @ [build], rw_held := rw_held w @ [placement]\<rparr>))"

definition newRunWatch :: "WorkspaceDiscovery \<Rightarrow> CurrentInputs \<Rightarrow> 'n QueryNarrowing \<Rightarrow> nat \<Rightarrow> 'n RunWatch" where
  "newRunWatch entry startView query build =
     (let w = \<lparr>rw_started = ci_workspaceFingerprint startView entry, rw_held = [], rw_heldBuilds = [],
            rw_seen = (case latestEnded query build of Some (LatestBuild b _) \<Rightarrow> [b] | _ \<Rightarrow> []),
            rw_heldWidened = False, rw_newerBuildEnded = False, rw_returned = False, rw_closed = False,
            rw_interruption = None, rw_interruptedBy = None, rw_watching = True, rw_log = []\<rparr>
      in case placementOf startView query of Some start \<Rightarrow> holdPlacement start w | None \<Rightarrow> w)"

definition runReturned :: "'n RunWatch \<Rightarrow> 'n RunWatch" where
  "runReturned w = w\<lparr>rw_returned := True\<rparr>"

definition closeWatch :: "'n RunWatch \<Rightarrow> 'n RunWatch" where
  "closeWatch w = w\<lparr>rw_closed := True\<rparr>"

text \<open>\<^verbatim>\<open>#judgment\<close>.\<close>

definition watchJudgment :: "'n Placing \<Rightarrow> WorkspaceDiscovery \<Rightarrow> 'd JobWindow \<Rightarrow> FingerprintResult option \<Rightarrow>
    'n ChangePlacement list \<Rightarrow> 'n RunWatch \<Rightarrow> string + RunJudgment" where
  "watchJudgment placing entry window ended places w =
     judgeRun placing \<lparr>rf_workspacePath = entryPath entry, rf_start = rw_started w, rf_window = window,
       rf_listedFiles = workspaceListedFiles entry, rf_placements = places, rf_end = ended\<rparr>"

definition judgeWatched :: "'n Placing \<Rightarrow> WorkspaceDiscovery \<Rightarrow> ('n, 'd) WatchMoment \<Rightarrow> 'n RunWatch \<Rightarrow>
    (string + RunJudgment) \<times> 'n RunWatch" where
  "judgeWatched placing entry m w =
     (let held = (case placementOf (wm_view m) (wm_query m) of Some ended \<Rightarrow> holdPlacement ended w | None \<Rightarrow> w);
          fingerprint = ci_workspaceFingerprint (wm_view m) entry
      in case watchJudgment placing entry (wm_window m) (Some fingerprint) (rw_held held) held of
           Inr judgment \<Rightarrow> (Inr judgment, held)
         | Inl error \<Rightarrow>
             (watchJudgment placing entry (wm_window m) (Some fingerprint) [PlacedWidened] held,
              held\<lparr>rw_log := rw_log held @ [''placing the paths that changed during the run of '' @ entryPath entry @
                '', so every one counts inside its inputs: '' @ error]\<rparr>))"

definition captureBuild :: "('n, 'd) WatchMoment \<Rightarrow> 'n RunWatch \<Rightarrow> bool \<times> 'n RunWatch" where
  "captureBuild m w =
     (case latestEnded (wm_query m) (wm_build m) of
        None \<Rightarrow> (False, w)
      | Some LatestWidened \<Rightarrow> (False, holdPlacement PlacedWidened w)
      | Some (LatestBuild number build) \<Rightarrow>
          (if number \<in> set (rw_seen w) then (False, w)
           else
             (let placement = (if if_revision (ci_facts (wm_view m)) = eb_revision build
                    then placementOf (wm_view m) (wm_query m) else None)
              in (True, holdPlacement (case placement of Some p \<Rightarrow> p | None \<Rightarrow> PlacedWidened)
                   (w\<lparr>rw_seen := number # rw_seen w\<rparr>)))))"

definition interruptIfWorthless :: "'n Placing \<Rightarrow> WorkspaceDiscovery \<Rightarrow> ('n, 'd) WatchMoment \<Rightarrow> 'n RunWatch \<Rightarrow>
    string + 'n RunWatch" where
  "interruptIfWorthless placing entry m w =
     (if rw_returned w \<or> rw_closed w \<or> wm_stopping m \<or> rw_interruption w \<noteq> None then Inr w
      else (case watchJudgment placing entry (wm_window m) None (rw_held w) w of
          Inl error \<Rightarrow> Inl error
        | Inr judgment \<Rightarrow>
            Inr (case interruptingPaths judgment of
                None \<Rightarrow> w
              | Some paths \<Rightarrow>
                  (if \<not> wm_interrupts m then w
                   else w\<lparr>rw_interruptedBy := Some paths,
                     rw_interruption := Some (''a change inside its workspace's inputs interrupted it, so nothing of it was stored: '' @ namedList paths),
                     rw_log := rw_log w @ [''the run of '' @ entryPath entry @
                       '' is being interrupted, since a change inside its workspace's inputs means it can no longer become current: '' @
                       namedList paths]\<rparr>))))"

text \<open>One round of \<^verbatim>\<open>#watch\<close>; an error thrown ends the loop, with every path counted inside from then on.\<close>

definition watchRound :: "'n Placing \<Rightarrow> WorkspaceDiscovery \<Rightarrow> ('n, 'd) WatchMoment \<Rightarrow> 'n RunWatch \<Rightarrow> 'n RunWatch" where
  "watchRound placing entry m w =
     (if \<not> rw_watching w then w
      else if rw_closed w \<or> wm_stopping m then w\<lparr>rw_watching := False\<rparr>
      else
        (let (ended, captured) = captureBuild m w;
             noted = (if ended then captured\<lparr>rw_newerBuildEnded := True\<rparr> else captured)
         in if \<not> rw_newerBuildEnded noted then noted
            else (case interruptIfWorthless placing entry m noted of
                Inr w' \<Rightarrow> w'
              | Inl error \<Rightarrow>
                  (holdPlacement PlacedWidened noted)\<lparr>rw_watching := False,
                    rw_log := rw_log noted @ [''watching the run of '' @ entryPath entry @
                      '', so every path it saw change counts inside its inputs: '' @ error]\<rparr>)))"

datatype ('n, 'd) WatchEvent = Round "('n, 'd) WatchMoment" | RunReturned | WatchClosed

fun watchStep :: "'n Placing \<Rightarrow> WorkspaceDiscovery \<Rightarrow> ('n, 'd) WatchEvent \<Rightarrow> 'n RunWatch \<Rightarrow> 'n RunWatch" where
  "watchStep placing entry (Round m) w = watchRound placing entry m w"
| "watchStep placing entry RunReturned w = runReturned w"
| "watchStep placing entry WatchClosed w = closeWatch w"

definition runWatch :: "'n Placing \<Rightarrow> WorkspaceDiscovery \<Rightarrow> ('n, 'd) WatchEvent list \<Rightarrow> 'n RunWatch \<Rightarrow> 'n RunWatch" where
  "runWatch placing entry = fold (watchStep placing entry)"

section \<open>Where a path is placed\<close>

definition placedOutside :: "'n Placing \<Rightarrow> string list \<Rightarrow> string \<Rightarrow> string \<Rightarrow> 'n ChangePlacement \<Rightarrow> bool" where
  "placedOutside placing paths wsPath path placement =
     (case placement of
        PlacedWidened \<Rightarrow> False
      | PlacedBy build \<Rightarrow>
          (case placing build paths wsPath of
             Inl _ \<Rightarrow> False
           | Inr placed \<Rightarrow> path \<notin> set (pp_inside placed) \<and> path \<notin> set (pp_widened placed)))"

definition placedNarrowly :: "'n Placing \<Rightarrow> string list \<Rightarrow> string \<Rightarrow> string \<Rightarrow> 'n ChangePlacement \<Rightarrow> bool" where
  "placedNarrowly placing paths wsPath path placement =
     (case placement of
        PlacedWidened \<Rightarrow> False
      | PlacedBy build \<Rightarrow>
          (case placing build paths wsPath of Inl _ \<Rightarrow> False | Inr placed \<Rightarrow> path \<in> set (pp_inside placed)))"

fun placementThrows :: "'n Placing \<Rightarrow> string list \<Rightarrow> string \<Rightarrow> 'n ChangePlacement \<Rightarrow> bool" where
  "placementThrows placing paths wsPath PlacedWidened = False"
| "placementThrows placing paths wsPath (PlacedBy build) = isl (placing build paths wsPath)"

lemma placeOver_found:
  "placeOver placing paths wsPath listed ps (inside, narrowed) = Inr (inside', narrowed') \<Longrightarrow>
     set listed \<subseteq> set inside \<Longrightarrow>
     list_all (\<lambda>p. \<not> placementThrows placing paths wsPath p) ps \<and>
     set inside \<subseteq> set inside' \<and> set narrowed \<subseteq> set narrowed' \<and>
     (\<forall>path \<in> set paths. path \<in> set inside' \<longleftrightarrow>
        path \<in> set inside \<or> \<not> list_all (placedOutside placing paths wsPath path) ps) \<and>
     (\<forall>path. path \<in> set narrowed' \<longleftrightarrow>
        path \<in> set narrowed \<or> list_ex (\<lambda>p. placedNarrowly placing paths wsPath path p \<or>
          path \<in> set listed \<and> p \<noteq> PlacedWidened) ps)"
proof (induction placing paths wsPath listed ps "(inside, narrowed)" arbitrary: inside narrowed rule: placeOver.induct)
  case (2 placing paths wsPath listed rest inside narrowed)
  have "placeOver placing paths wsPath listed rest (fold jadd paths inside, narrowed) = Inr (inside', narrowed')"
    using 2(2) by simp
  moreover have "set listed \<subseteq> set (fold jadd paths inside)" using 2(3) by (auto simp: set_fold_jadd)
  ultimately show ?case
    using 2(1) by (simp add: set_fold_jadd placedOutside_def placedNarrowly_def)
next
  case (3 placing paths wsPath listed build rest inside narrowed)
  then obtain placed where p: "placing build paths wsPath = Inr placed" by (cases "placing build paths wsPath") auto
  have "placeOver placing paths wsPath listed rest
      (fold jadd (pp_widened placed) (fold jadd (pp_inside placed @ listed) inside),
       fold jadd (pp_inside placed @ listed) narrowed) = Inr (inside', narrowed')"
    using 3(2) by (simp add: p Let_def)
  moreover have "set listed \<subseteq> set (fold jadd (pp_widened placed) (fold jadd (pp_inside placed @ listed) inside))"
    by (auto simp: set_fold_jadd)
  ultimately show ?case
    using 3(1) [OF p refl] p 3(3)
    by (simp add: set_fold_jadd placedOutside_def placedNarrowly_def subset_iff) blast
qed simp

lemma placeOver_throws:
  "isl (placeOver placing paths wsPath listed ps found) \<longleftrightarrow> list_ex (placementThrows placing paths wsPath) ps"
proof (induction placing paths wsPath listed ps found rule: placeOver.induct)
  case (3 placing paths wsPath listed build rest inside narrowed)
  then show ?case by (cases "placing build paths wsPath") (simp_all add: Let_def)
qed simp_all

lemma placeFor_found:
  assumes "placeFor placing paths wsPath listedFiles ps = Inr placed"
  shows "pt_inside placed = filter (\<lambda>path. path \<in> set listedFiles \<or> \<not> list_all (placedOutside placing paths wsPath path) ps) paths"
    and "pt_narrowed placed = filter (\<lambda>path. list_ex (\<lambda>p. placedNarrowly placing paths wsPath path p \<or>
      path \<in> set listedFiles \<and> p \<noteq> PlacedWidened) ps) paths"
proof -
  let ?listed = "filter (\<lambda>path. caseComparable path \<in> set listedFiles) paths"
  obtain inside narrowed where o: "placeOver placing paths wsPath ?listed ps (uniq ?listed, []) = Inr (inside, narrowed)"
    "placed = \<lparr>pt_inside = filter (\<lambda>path. path \<in> set inside) paths, pt_narrowed = filter (\<lambda>path. path \<in> set narrowed) paths\<rparr>"
    using assms unfolding placeFor_def Let_def
    by (cases "placeOver placing paths wsPath ?listed ps (uniq ?listed, [])") auto
  note r = placeOver_found [OF o(1)]
  show "pt_inside placed = filter (\<lambda>path. path \<in> set listedFiles \<or> \<not> list_all (placedOutside placing paths wsPath path) ps) paths"
    using r by (simp add: o(2) caseComparable_def cong: filter_cong)
  show "pt_narrowed placed = filter (\<lambda>path. list_ex (\<lambda>p. placedNarrowly placing paths wsPath path p \<or>
      path \<in> set listedFiles \<and> p \<noteq> PlacedWidened) ps) paths"
    using r by (simp add: o(2) caseComparable_def cong: filter_cong)
qed

lemma placeFor_throws:
  "isl (placeFor placing paths wsPath listedFiles ps) \<longleftrightarrow> list_ex (placementThrows placing paths wsPath) ps"
  unfolding placeFor_def Let_def using placeOver_throws
  by (metis (no_types, lifting) isl_map_sum)

lemma throws_not_outside: "placementThrows placing paths wsPath p \<Longrightarrow> \<not> placedOutside placing paths wsPath path p"
  by (cases p; cases "placing (case p of PlacedBy b \<Rightarrow> b) paths wsPath") (auto simp: placedOutside_def)

text \<open>Every changed path outside the inputs of the workspace, by each placement held and by the listing.\<close>

definition everyPathOutside :: "'n Placing \<Rightarrow> WorkspaceDiscovery \<Rightarrow> string list \<Rightarrow> 'n ChangePlacement list \<Rightarrow> bool" where
  "everyPathOutside placing entry paths places =
     list_all (\<lambda>path. path \<notin> set (listedPaths (workspaceListing entry)) \<and>
       list_all (placedOutside placing paths (entryPath entry) path) places) paths"

lemma watchJudgment_eq:
  "watchJudgment placing entry window ended ps w =
     (case rw_started w of
        NoDigest reason \<Rightarrow> Inr (NoStartFingerprint reason)
      | Digest started \<Rightarrow>
          (case placeFor placing (jw_paths window) (entryPath entry) (workspaceListedFiles entry) ps of
             Inl error \<Rightarrow> Inl error
           | Inr placed \<Rightarrow>
               Inr (if pt_inside placed \<noteq> []
                    then ChangedInside (pt_inside placed) (pt_narrowed placed)
                      (case ended of Some e \<Rightarrow> fingerprintOk e | None \<Rightarrow> False)
                    else if jw_causes window \<noteq> [] then CausedBy (jw_causes window)
                    else (case ended of
                        Some (NoDigest reason) \<Rightarrow> EndUnavailable reason
                      | Some (Digest e) \<Rightarrow> (if e \<noteq> started then Moved else Kept (jw_paths window))
                      | None \<Rightarrow> Kept (jw_paths window)))))"
  by (cases "rw_started w"; cases "placeFor placing (jw_paths window) (entryPath entry) (workspaceListedFiles entry) ps")
     (simp_all add: watchJudgment_def judgeRun_def placedInside_def split: option.split FingerprintResult.split)

lemma watchJudgment_kept:
  "watchJudgment placing entry window (Some ended) ps w = Inr (Kept outside) \<longleftrightarrow>
     (\<exists>digest. rw_started w = Digest digest \<and> ended = Digest digest) \<and> jw_causes window = [] \<and>
     outside = jw_paths window \<and> everyPathOutside placing entry (jw_paths window) ps \<and>
     list_all (\<lambda>p. \<not> placementThrows placing (jw_paths window) (entryPath entry) p) ps"
proof -
  have listed: "set (workspaceListedFiles entry) = set (listedPaths (workspaceListing entry))"
    by (auto simp: workspaceListedFiles_def caseComparable_def)
  show ?thesis
  proof (cases "placeFor placing (jw_paths window) (entryPath entry) (workspaceListedFiles entry) ps")
    case (Inl a)
    then have "list_ex (placementThrows placing (jw_paths window) (entryPath entry)) ps"
      using placeFor_throws [of placing "jw_paths window" "entryPath entry" "workspaceListedFiles entry" ps] by simp
    then show ?thesis
      by (auto simp: watchJudgment_eq Inl list_all_iff list_ex_iff split: FingerprintResult.split)
  next
    case (Inr placed)
    then have "list_all (\<lambda>p. \<not> placementThrows placing (jw_paths window) (entryPath entry) p) ps"
      using placeFor_throws [of placing "jw_paths window" "entryPath entry" "workspaceListedFiles entry" ps]
      by (auto simp: list_all_iff list_ex_iff)
    moreover have "pt_inside placed = [] \<longleftrightarrow> everyPathOutside placing entry (jw_paths window) ps"
      unfolding placeFor_found(1) [OF Inr] by (auto simp: everyPathOutside_def filter_empty_conv listed list_all_iff)
    ultimately show ?thesis
      by (auto simp: watchJudgment_eq Inr split: FingerprintResult.split)
  qed
qed

section \<open>What the watch holds and when it interrupts\<close>

lemma holdPlacement_simps [simp]:
  "rw_started (holdPlacement p w) = rw_started w" "rw_returned (holdPlacement p w) = rw_returned w"
  "rw_closed (holdPlacement p w) = rw_closed w" "rw_interruption (holdPlacement p w) = rw_interruption w"
  "rw_interruptedBy (holdPlacement p w) = rw_interruptedBy w" "rw_watching (holdPlacement p w) = rw_watching w"
  "rw_newerBuildEnded (holdPlacement p w) = rw_newerBuildEnded w"
  by (auto simp: holdPlacement_def split: ChangePlacement.split)

lemma captureBuild_simps [simp]:
  "rw_started (snd (captureBuild m w)) = rw_started w" "rw_returned (snd (captureBuild m w)) = rw_returned w"
  "rw_closed (snd (captureBuild m w)) = rw_closed w" "rw_interruption (snd (captureBuild m w)) = rw_interruption w"
  "rw_interruptedBy (snd (captureBuild m w)) = rw_interruptedBy w" "rw_watching (snd (captureBuild m w)) = rw_watching w"
  by (auto simp: captureBuild_def Let_def split: option.split LatestEnded.split)

lemma interruptingPaths_Some:
  "interruptingPaths j = Some paths \<longleftrightarrow> (\<exists>inside ended. j = ChangedInside inside paths ended) \<and> paths \<noteq> []"
  by (cases j) (auto simp: interruptingPaths_def)

lemma watchJudgment_inside:
  assumes "watchJudgment placing entry window ended ps w = Inr (ChangedInside inside narrowed e)"
  shows "(\<exists>digest. rw_started w = Digest digest) \<and>
     (\<forall>path \<in> set narrowed. path \<in> set (jw_paths window) \<and>
        list_ex (\<lambda>p. placedNarrowly placing (jw_paths window) (entryPath entry) path p \<or>
          path \<in> set (listedPaths (workspaceListing entry)) \<and> p \<noteq> PlacedWidened) ps)"
proof -
  obtain digest placed where p: "rw_started w = Digest digest"
    "placeFor placing (jw_paths window) (entryPath entry) (workspaceListedFiles entry) ps = Inr placed"
    "narrowed = pt_narrowed placed"
    using assms by (auto simp: watchJudgment_eq split: FingerprintResult.splits sum.splits if_splits option.splits)
  have "set (workspaceListedFiles entry) = set (listedPaths (workspaceListing entry))"
    by (auto simp: workspaceListedFiles_def caseComparable_def)
  then show ?thesis using placeFor_found(2) [OF p(2)] p(1,3) by (auto simp: list_ex_iff)
qed

text \<open>What is true of the round that interrupted the run.\<close>

definition interruptingRound :: "'n Placing \<Rightarrow> WorkspaceDiscovery \<Rightarrow> ('n, 'd) WatchMoment \<Rightarrow> 'n RunWatch \<Rightarrow> string list \<Rightarrow> bool" where
  "interruptingRound placing entry m w paths =
     (\<not> rw_returned w \<and> \<not> rw_closed w \<and> \<not> wm_stopping m \<and> wm_interrupts m \<and> paths \<noteq> [] \<and>
      (\<exists>digest. rw_started w = Digest digest) \<and>
      list_all (\<lambda>path. path \<in> set (jw_paths (wm_window m)) \<and>
        list_ex (\<lambda>p. placedNarrowly placing (jw_paths (wm_window m)) (entryPath entry) path p \<or>
            path \<in> set (listedPaths (workspaceListing entry)) \<and> p \<noteq> PlacedWidened)
          (rw_held (watchRound placing entry m w))) paths)"

lemma watchRound_interrupts:
  assumes "rw_interruptedBy (watchRound placing entry m w) = Some paths" and "rw_interruptedBy w \<noteq> Some paths"
  shows "interruptingRound placing entry m w paths"
proof -
  obtain ended captured where c: "captureBuild m w = (ended, captured)" by (cases "captureBuild m w")
  define noted where "noted = (if ended then captured\<lparr>rw_newerBuildEnded := True\<rparr> else captured)"
  have same: "rw_started noted = rw_started w" "rw_returned noted = rw_returned w" "rw_closed noted = rw_closed w"
    "rw_interruptedBy noted = rw_interruptedBy w"
    using captureBuild_simps [of m w] by (simp_all add: noted_def c)
  have round: "watchRound placing entry m w =
      (if \<not> rw_watching w then w else if rw_closed w \<or> wm_stopping m then w\<lparr>rw_watching := False\<rparr>
       else if \<not> rw_newerBuildEnded noted then noted
       else case interruptIfWorthless placing entry m noted of
           Inr w' \<Rightarrow> w'
         | Inl error \<Rightarrow> (holdPlacement PlacedWidened noted)\<lparr>rw_watching := False,
             rw_log := rw_log noted @ [''watching the run of '' @ entryPath entry @
               '', so every path it saw change counts inside its inputs: '' @ error]\<rparr>)"
    unfolding noted_def by (simp only: watchRound_def c prod.case Let_def)
  have live: "rw_watching w" "\<not> rw_closed w" "\<not> wm_stopping m" "rw_newerBuildEnded noted"
    using assms same unfolding round by (auto split: if_splits)
  obtain w' where w': "interruptIfWorthless placing entry m noted = Inr w'"
    using assms same live unfolding round by (cases "interruptIfWorthless placing entry m noted") auto
  then have result: "watchRound placing entry m w = w'" using live by (simp add: round)
  have changed: "rw_interruptedBy w' = Some paths" "rw_interruptedBy noted \<noteq> Some paths"
    using assms same by (simp_all add: result)
  then have quiet: "\<not> rw_returned noted" "\<not> rw_closed noted" "rw_interruption noted = None"
    using w' by (auto simp: interruptIfWorthless_def split: if_splits)
  then obtain j where j: "watchJudgment placing entry (wm_window m) None (rw_held noted) noted = Inr j"
    using w' live(3)
    by (cases "watchJudgment placing entry (wm_window m) None (rw_held noted) noted") (auto simp: interruptIfWorthless_def)
  have "interruptingPaths j = Some paths" "wm_interrupts m" "rw_held w' = rw_held noted"
    using w' changed quiet live(3) j by (auto simp: interruptIfWorthless_def split: option.splits if_splits)
  then obtain inside e where i: "j = ChangedInside inside paths e" "paths \<noteq> []" by (auto simp: interruptingPaths_Some)
  show ?thesis
    using watchJudgment_inside [OF j [unfolded i(1)]] \<open>wm_interrupts m\<close> \<open>rw_held w' = rw_held noted\<close> quiet live i(2)
    by (auto simp: interruptingRound_def result same list_all_iff)
qed

lemma interruptIfWorthless_same:
  "interruptIfWorthless placing entry m w = Inr w' \<Longrightarrow> rw_returned w' = rw_returned w \<and> rw_closed w' = rw_closed w"
  by (auto simp: interruptIfWorthless_def split: if_splits sum.splits option.splits)

lemma watchRound_same [simp]:
  "rw_returned (watchRound placing entry m w) = rw_returned w" "rw_closed (watchRound placing entry m w) = rw_closed w"
proof -
  obtain ended captured where c: "captureBuild m w = (ended, captured)" by (cases "captureBuild m w")
  define noted where "noted = (if ended then captured\<lparr>rw_newerBuildEnded := True\<rparr> else captured)"
  have same: "rw_returned noted = rw_returned w" "rw_closed noted = rw_closed w"
    using captureBuild_simps [of m w] by (simp_all add: noted_def c)
  have "rw_returned (watchRound placing entry m w) = rw_returned w \<and> rw_closed (watchRound placing entry m w) = rw_closed w"
    using same interruptIfWorthless_same [of placing entry m noted]
    unfolding watchRound_def c prod.case Let_def noted_def [symmetric] by (auto split: sum.split)
  then show "rw_returned (watchRound placing entry m w) = rw_returned w" "rw_closed (watchRound placing entry m w) = rw_closed w"
    by simp_all
qed

lemma watchStep_stays:
  "rw_returned w \<Longrightarrow> rw_returned (watchStep placing entry event w)"
  "rw_closed w \<Longrightarrow> rw_closed (watchStep placing entry event w)"
  by (cases event; simp add: runReturned_def closeWatch_def)+

lemma returned_stays: "rw_returned w \<Longrightarrow> rw_returned (fold (watchStep placing entry) es w)"
  by (induction es arbitrary: w) (auto intro: watchStep_stays)

lemma closed_stays: "rw_closed w \<Longrightarrow> rw_closed (fold (watchStep placing entry) es w)"
  by (induction es arbitrary: w) (auto intro: watchStep_stays)

subsection \<open>The builds a watch holds\<close>

definition heldInv :: "'n RunWatch \<Rightarrow> bool" where
  "heldInv w =
     ((\<forall>build. build \<in> set (rw_heldBuilds w) \<longleftrightarrow> PlacedBy build \<in> set (rw_held w)) \<and>
      (rw_heldWidened w \<longleftrightarrow> PlacedWidened \<in> set (rw_held w)))"

lemma hold_holds:
  "heldInv w \<Longrightarrow> heldInv (holdPlacement p w)"
  "heldInv w \<Longrightarrow> p \<in> set (rw_held (holdPlacement p w))"
  "set (rw_held w) \<subseteq> set (rw_held (holdPlacement p w))"
  "rw_started (holdPlacement p w) = rw_started w"
  by (cases p; auto simp: heldInv_def holdPlacement_def)+

text \<open>What a step keeps: the builds held, with more of them, and the start.\<close>

definition holdsOn :: "'n RunWatch \<Rightarrow> 'n RunWatch \<Rightarrow> bool" where
  "holdsOn w w' = ((heldInv w \<longrightarrow> heldInv w') \<and> set (rw_held w) \<subseteq> set (rw_held w') \<and> rw_started w' = rw_started w)"

lemma holdsOn_trans: "holdsOn u v \<Longrightarrow> holdsOn v w \<Longrightarrow> holdsOn u w"
  by (auto simp: holdsOn_def)

lemma holdsOn_same:
  "rw_held w' = rw_held w \<Longrightarrow> rw_heldBuilds w' = rw_heldBuilds w \<Longrightarrow> rw_heldWidened w' = rw_heldWidened w \<Longrightarrow>
     rw_started w' = rw_started w \<Longrightarrow> holdsOn w w'"
  by (auto simp: holdsOn_def heldInv_def)

lemma holdsOn_hold: "holdsOn w (holdPlacement p w)"
  by (simp add: holdsOn_def hold_holds)

lemma holdsOn_capture: "holdsOn w (snd (captureBuild m w))"
proof -
  have "holdsOn w (holdPlacement p (w\<lparr>rw_seen := seen\<rparr>))" for p seen
    by (rule holdsOn_trans [OF _ holdsOn_hold]) (simp add: holdsOn_same)
  then show ?thesis
    by (simp add: captureBuild_def holdsOn_hold holdsOn_same Let_def split: option.split LatestEnded.split)
qed

lemma interrupt_same:
  assumes "interruptIfWorthless placing entry m w = Inr w'"
  shows "holdsOn w w'"
  using assms
  by (auto simp: interruptIfWorthless_def holdsOn_same split: if_splits sum.splits option.splits)

lemma holdsOn_round: "holdsOn w (watchRound placing entry m w)"
proof -
  obtain ended captured where c: "captureBuild m w = (ended, captured)" by (cases "captureBuild m w")
  define noted where "noted = (if ended then captured\<lparr>rw_newerBuildEnded := True\<rparr> else captured)"
  have "holdsOn w captured" using holdsOn_capture [of w m] by (simp add: c)
  then have noted: "holdsOn w noted"
    by (rule holdsOn_trans) (simp add: noted_def holdsOn_same)
  have failed: "holdsOn noted ((holdPlacement PlacedWidened noted)\<lparr>rw_watching := b, rw_log := l\<rparr>)" for b l
    by (rule holdsOn_trans [OF holdsOn_hold [where p = PlacedWidened]]) (simp add: holdsOn_same)
  have "holdsOn w (case interruptIfWorthless placing entry m noted of Inr w' \<Rightarrow> w'
      | Inl error \<Rightarrow> (holdPlacement PlacedWidened noted)\<lparr>rw_watching := False, rw_log := l error\<rparr>)" for l
    by (cases "interruptIfWorthless placing entry m noted")
      (simp_all add: holdsOn_trans [OF noted failed] holdsOn_trans [OF noted interrupt_same])
  then show ?thesis
    unfolding watchRound_def c Let_def prod.case noted_def [symmetric] using noted by (simp add: holdsOn_same)
qed

lemma holdsOn_step: "holdsOn w (watchStep placing entry event w)"
  by (cases event) (simp_all add: holdsOn_round holdsOn_same runReturned_def closeWatch_def)

lemma holdsOn_run: "holdsOn w (runWatch placing entry events w)"
  unfolding runWatch_def
  by (induction events arbitrary: w) (auto simp: holdsOn_same intro: holdsOn_trans [OF holdsOn_step])

lemma runWatch_holds:
  assumes "heldInv w"
  shows "heldInv (runWatch placing entry events w)"
    and "set (rw_held w) \<subseteq> set (rw_held (runWatch placing entry events w))"
    and "rw_started (runWatch placing entry events w) = rw_started w"
  using holdsOn_run [of w placing entry events] assms by (simp_all add: holdsOn_def)

lemma newRunWatch_holds:
  fixes query :: "'n QueryNarrowing"
  shows "heldInv (newRunWatch entry startView query build)"
  "set_option (placementOf startView query) \<subseteq> set (rw_held (newRunWatch entry startView query build))"
  "rw_started (newRunWatch entry startView query build) = ci_workspaceFingerprint startView entry"
proof -
  define w :: "'n RunWatch" where "w = \<lparr>rw_started = ci_workspaceFingerprint startView entry, rw_held = [],
    rw_heldBuilds = [], rw_seen = (case latestEnded query build of Some (LatestBuild b _) \<Rightarrow> [b] | _ \<Rightarrow> []),
    rw_heldWidened = False, rw_newerBuildEnded = False, rw_returned = False, rw_closed = False,
    rw_interruption = None, rw_interruptedBy = None, rw_watching = True, rw_log = []\<rparr>"
  have empty: "heldInv w" "rw_started w = ci_workspaceFingerprint startView entry" by (simp_all add: w_def heldInv_def)
  have new: "newRunWatch entry startView query build =
      (case placementOf startView query of Some start \<Rightarrow> holdPlacement start w | None \<Rightarrow> w)"
    unfolding newRunWatch_def Let_def w_def by (rule refl)
  show "heldInv (newRunWatch entry startView query build)"
    "set_option (placementOf startView query) \<subseteq> set (rw_held (newRunWatch entry startView query build))"
    "rw_started (newRunWatch entry startView query build) = ci_workspaceFingerprint startView entry"
    unfolding new using empty hold_holds by (auto split: option.split)
qed

lemma judgeWatched_holds:
  "set (rw_held w) \<subseteq> set (rw_held (snd (judgeWatched placing entry m w)))"
  "heldInv w \<Longrightarrow> set_option (placementOf (wm_view m) (wm_query m)) \<subseteq> set (rw_held (snd (judgeWatched placing entry m w)))"
proof -
  have held: "rw_held (snd (judgeWatched placing entry m w)) =
      rw_held (case placementOf (wm_view m) (wm_query m) of Some ended \<Rightarrow> holdPlacement ended w | None \<Rightarrow> w)"
    by (simp add: judgeWatched_def Let_def split: sum.split)
  show "set (rw_held w) \<subseteq> set (rw_held (snd (judgeWatched placing entry m w)))"
    "heldInv w \<Longrightarrow> set_option (placementOf (wm_view m) (wm_query m)) \<subseteq> set (rw_held (snd (judgeWatched placing entry m w)))"
    unfolding held by (auto simp: hold_holds(2) subsetD [OF hold_holds(3)] split: option.split)
qed

subsection \<open>What is kept\<close>

lemma judgeWatched_kept:
  "fst (judgeWatched placing entry m w) = Inr (Kept outside) \<longleftrightarrow>
     (\<exists>digest. rw_started w = Digest digest \<and> ci_workspaceFingerprint (wm_view m) entry = Digest digest) \<and>
     jw_causes (wm_window m) = [] \<and> outside = jw_paths (wm_window m) \<and>
     everyPathOutside placing entry (jw_paths (wm_window m)) (rw_held (snd (judgeWatched placing entry m w)))"
proof -
  let ?held = "case placementOf (wm_view m) (wm_query m) of Some ended \<Rightarrow> holdPlacement ended w | None \<Rightarrow> w"
  let ?now = "ci_workspaceFingerprint (wm_view m) entry"
  let ?paths = "jw_paths (wm_window m)"
  have started: "rw_started ?held = rw_started w"
    by (auto simp: holdPlacement_def split: option.split ChangePlacement.split)
  have held: "rw_held (snd (judgeWatched placing entry m w)) = rw_held ?held"
    by (simp add: judgeWatched_def Let_def split: sum.split)
  show ?thesis
  proof (cases "list_ex (placementThrows placing ?paths (entryPath entry)) (rw_held ?held)")
    case True
    then obtain p where p: "p \<in> set (rw_held ?held)" "placementThrows placing ?paths (entryPath entry) p"
      by (auto simp: list_ex_iff)
    have outside: "everyPathOutside placing entry ?paths (rw_held ?held) \<longleftrightarrow> ?paths = []"
      "everyPathOutside placing entry ?paths [PlacedWidened] \<longleftrightarrow> ?paths = []"
      using p throws_not_outside [OF p(2)]
      by (cases ?paths; auto simp: everyPathOutside_def list_all_iff placedOutside_def)+
    have "(\<exists>digest. rw_started w = Digest digest) \<Longrightarrow>
        \<exists>error. watchJudgment placing entry (wm_window m) (Some ?now) (rw_held ?held) ?held = Inl error"
      using True placeFor_throws [of placing ?paths "entryPath entry" "workspaceListedFiles entry" "rw_held ?held"]
      by (auto simp: watchJudgment_eq started isl_def)
    moreover have "watchJudgment placing entry (wm_window m) (Some ?now) (rw_held ?held) ?held = Inr (NoStartFingerprint reason)"
      if "rw_started w = NoDigest reason" for reason
      using that by (simp add: watchJudgment_eq started)
    ultimately show ?thesis
      unfolding held outside(1)
      using watchJudgment_kept [of placing entry "wm_window m" ?now "[PlacedWidened]" ?held outside] outside(2)
      by (cases "rw_started w") (auto simp: judgeWatched_def Let_def started)
  next
    case False
    then have ok: "list_all (\<lambda>p. \<not> placementThrows placing ?paths (entryPath entry) p) (rw_held ?held)"
      by (auto simp: list_all_iff list_ex_iff)
    then obtain made where j: "watchJudgment placing entry (wm_window m) (Some ?now) (rw_held ?held) ?held = Inr made"
      using False placeFor_throws [of placing ?paths "entryPath entry" "workspaceListedFiles entry" "rw_held ?held"]
      by (cases "watchJudgment placing entry (wm_window m) (Some ?now) (rw_held ?held) ?held")
         (auto simp: watchJudgment_eq split: FingerprintResult.splits sum.splits)
    have "fst (judgeWatched placing entry m w) = Inr made" using j by (simp add: judgeWatched_def Let_def)
    then show ?thesis
      unfolding held using watchJudgment_kept [of placing entry "wm_window m" ?now "rw_held ?held" ?held outside] ok
      by (simp add: j started)
  qed
qed

section \<open>Properties\<close>

text \<open>
  C4. A run that ends is stored under its fingerprint exactly when one was taken at its start and the
  same one at its end, nothing refused to vouch for its inputs meanwhile, and each path that changed
  while it ran is not listed by the workspace's discovery and lies outside its inputs by every build
  the watch holds at the end, whatever came before; the builds in effect at the run's start and at its
  end are among them. A build that cannot place the paths, or throws, or did not narrow, keeps no run
  during which anything changed.
\<close>

theorem run_kept_iff:
  "let (judgment, closed) =
       judgeWatched placing entry m (runWatch placing entry events (newRunWatch entry startView query build))
   in (judgment = Inr (Kept outside) \<longleftrightarrow>
        (\<exists>digest. ci_workspaceFingerprint startView entry = Digest digest \<and>
           ci_workspaceFingerprint (wm_view m) entry = Digest digest) \<and>
        jw_causes (wm_window m) = [] \<and> outside = jw_paths (wm_window m) \<and>
        everyPathOutside placing entry (jw_paths (wm_window m)) (rw_held closed)) \<and>
      set_option (placementOf startView query) \<union> set_option (placementOf (wm_view m) (wm_query m)) \<subseteq>
        set (rw_held closed)"
proof -
  let ?w = "runWatch placing entry events (newRunWatch entry startView query build)"
  note kept = runWatch_holds [OF newRunWatch_holds(1) [of entry startView query build],
      where placing = placing and entry = entry and events = events]
  have start: "set_option (placementOf startView query) \<subseteq> set (rw_held (snd (judgeWatched placing entry m ?w)))"
    using newRunWatch_holds(2) kept(2) judgeWatched_holds(1) by (rule subset_trans [OF subset_trans])
  have ended: "set_option (placementOf (wm_view m) (wm_query m)) \<subseteq> set (rw_held (snd (judgeWatched placing entry m ?w)))"
    by (rule judgeWatched_holds(2) [OF kept(1)])
  have "rw_started ?w = ci_workspaceFingerprint startView entry" by (simp add: kept(3) newRunWatch_holds(3))
  then show ?thesis using judgeWatched_kept [of placing entry m ?w outside] start ended by (simp add: case_prod_beta)
qed

text \<open>
  C25. A change interrupts a run only while the executor has not returned it and the daemon is not
  stopping, only a run that started fingerprinted, and only by paths that changed while it ran, each
  of which a build that narrowed places inside the workspace's inputs or the discovery lists; a
  widened placement interrupts nothing.
\<close>

theorem run_interrupted_only_inside:
  assumes "rw_interruptedBy (runWatch placing entry events (newRunWatch entry startView query build)) = Some paths"
  shows "\<exists>before m after. events = before @ Round m # after \<and> RunReturned \<notin> set before \<and> WatchClosed \<notin> set before \<and>
     interruptingRound placing entry m (runWatch placing entry before (newRunWatch entry startView query build)) paths"
  using assms
proof (induction events rule: rev_induct)
  case Nil
  then show ?case
    by (simp add: runWatch_def newRunWatch_def Let_def split: option.splits)
next
  case (snoc event events)
  let ?opened = "newRunWatch entry startView query build"
  let ?w = "runWatch placing entry events ?opened"
  have step: "runWatch placing entry (events @ [event]) ?opened = watchStep placing entry event ?w"
    by (simp add: runWatch_def)
  show ?case
  proof (cases "rw_interruptedBy ?w = Some paths")
    case True
    from snoc.IH [OF True] obtain before m after where
      "events = before @ Round m # after" "RunReturned \<notin> set before" "WatchClosed \<notin> set before"
      "interruptingRound placing entry m (runWatch placing entry before ?opened) paths" by blast
    then show ?thesis by (intro exI [of _ before] exI [of _ m] exI [of _ "after @ [event]"]) simp
  next
    case False
    then obtain m where e: "event = Round m"
      using snoc.prems unfolding step by (cases event) (auto simp: runReturned_def closeWatch_def)
    have i: "interruptingRound placing entry m ?w paths"
      using snoc.prems False step e by (intro watchRound_interrupts) simp_all
    have "RunReturned \<notin> set events"
    proof
      assume "RunReturned \<in> set events"
      then obtain us vs where s: "events = us @ RunReturned # vs" by (auto simp: in_set_conv_decomp)
      have "rw_returned (fold (watchStep placing entry) vs (runReturned (fold (watchStep placing entry) us ?opened)))"
        by (rule returned_stays) (simp add: runReturned_def)
      then show False using i by (simp add: s runWatch_def interruptingRound_def)
    qed
    moreover have "WatchClosed \<notin> set events"
    proof
      assume "WatchClosed \<in> set events"
      then obtain us vs where s: "events = us @ WatchClosed # vs" by (auto simp: in_set_conv_decomp)
      have "rw_closed (fold (watchStep placing entry) vs (closeWatch (fold (watchStep placing entry) us ?opened)))"
        by (rule closed_stays) (simp add: closeWatch_def)
      then show False using i by (simp add: s runWatch_def interruptingRound_def)
    qed
    ultimately show ?thesis using i e by (intro exI [of _ events] exI [of _ m] exI [of _ "[]"]) simp
  qed
qed

section \<open>A placing that always answers\<close>

text \<open>The placing of the narrowings themselves, whatever each has placed before.\<close>

definition narrowingPlacing :: "('n \<Rightarrow> BuildPlacement) \<Rightarrow> 'n Placing" where
  "narrowingPlacing buildOf build paths wsPath = Inr (fst (place paths wsPath (buildOf build)))"

definition sampleWindow :: "nat JobWindow" where
  "sampleWindow = \<lparr>jw_paths = [''a.ts''], jw_causes = [], jw_startDigests = None, jw_endDigests = None\<rparr>"

definition sampleView :: CurrentInputs where
  "sampleView =
     \<lparr>ci_facts = \<lparr>if_revision = 0, if_reconciliation = ReconciliationComplete, if_lastReconciledAt = None,
        if_watcher = WatcherHealthy, if_pendingChanges = 0, if_gitUnread = []\<rparr>,
      ci_unavailable = None, ci_nonInputsUnusable = None, ci_inputsNotNarrowed = None, ci_snapshot = None,
      ci_workspaceFingerprint = (\<lambda>_. Digest ''d''), ci_discoveryFingerprint = (\<lambda>_. Digest ''d''),
      ci_protectedFileChangedSince = (\<lambda>_ _. None)\<rparr>"

definition sampleQuery :: "nat \<Rightarrow> nat QueryNarrowing" where
  "sampleQuery build = \<lparr>qn_discoveryId = Some ''i'',
     qn_state = Some (WithSelectionInput ''i'' (Some (Built 0 build)) None), qn_buildsEnded = None\<rparr>"

definition sampleMoment :: "(nat, nat) WatchMoment" where
  "sampleMoment = \<lparr>wm_query = sampleQuery 2, wm_build = 2, wm_view = sampleView, wm_window = sampleWindow,
     wm_stopping = False, wm_interrupts = True\<rparr>"

definition sampleFailure :: FailedSession where
  "sampleFailure = \<lparr>fs_vitestVersion = ''3.2.4'', fs_error = ''cannot load'', fs_closeError = None\<rparr>"

definition samplePlacing :: "nat Placing" where
  "samplePlacing build paths wsPath = Inr \<lparr>pp_inside = (if build = 2 then paths else []), pp_widened = []\<rparr>"

lemma sampleInterrupt:
  "rw_interruptedBy (runWatch samplePlacing (WsFailed \<lparr>ws_path = ''.'', ws_directory = ''/r''\<rparr> sampleFailure) [Round sampleMoment]
     (newRunWatch (WsFailed \<lparr>ws_path = ''.'', ws_directory = ''/r''\<rparr> sampleFailure) sampleView (sampleQuery 1) 1)) = Some [''a.ts'']"
  by code_simp

text \<open>A build that ends while the run runs and places the change inside interrupts it.\<close>

theorem run_interrupted_only_inside_witness:
  "\<exists>before m after. [Round sampleMoment] = before @ Round m # after \<and>
     interruptingRound samplePlacing (WsFailed \<lparr>ws_path = ''.'', ws_directory = ''/r''\<rparr> sampleFailure) m
       (runWatch samplePlacing (WsFailed \<lparr>ws_path = ''.'', ws_directory = ''/r''\<rparr> sampleFailure) before
         (newRunWatch (WsFailed \<lparr>ws_path = ''.'', ws_directory = ''/r''\<rparr> sampleFailure) sampleView (sampleQuery 1) 1)) [''a.ts'']"
  using run_interrupted_only_inside [OF sampleInterrupt] by blast

end
