(* ===== verification/DueWorkspaces.thy ===== *)
theory DueWorkspaces
  imports TestStates
begin

text \<open>
  Which workspaces a round runs and in which order (\<^verbatim>\<open>daemon/due-workspaces.ts\<close>): why a latest run
  no longer counts, which run the periodic reconciliation retries, and the round's queue.
\<close>

datatype DueReason =
    DueNoRun
  | DueRunRefused
  | DueAnotherAdapterVersion
  | DueNotFingerprinted
  | DueNoCurrentFingerprint
  | DueInputsChanged
  | DueFailedRun
  | DueCrashedRun

definition retryReason :: "StoredRun option \<Rightarrow> DueReason option" where
  "retryReason latest =
     (case latest of
        None \<Rightarrow> None
      | Some run \<Rightarrow>
          (case sr_run run of
             FailedRun _ \<Rightarrow> Some DueFailedRun
           | CrashedRun _ \<Rightarrow> Some DueCrashedRun
           | _ \<Rightarrow> None))"

definition retryOwed :: "StoredRun option \<Rightarrow> DueReason option \<Rightarrow> bool \<Rightarrow> bool" where
  "retryOwed latest stale attemptStoredNothing =
     (retryReason latest \<noteq> None \<or> attemptStoredNothing \<and> stale \<noteq> None)"

datatype QueueGroup = DirectTarget | PriorFailure | Rest

definition GROUP_ORDER :: "QueueGroup list" where
  "GROUP_ORDER = [DirectTarget, PriorFailure, Rest]"

record QueuedWorkspace =
  qw_entry :: WorkspaceDiscovery
  qw_reason :: DueReason
  qw_group :: QueueGroup

definition staleReason :: "StoredRun option \<Rightarrow> string option \<Rightarrow> bool \<Rightarrow> DueReason option" where
  "staleReason latest currentDigest refused =
     (case latest of
        None \<Rightarrow> Some (if refused then DueRunRefused else DueNoRun)
      | Some run \<Rightarrow>
          (if recordFreshness run currentDigest = Current then None
           else if \<not> isCurrentAdapterVersion (sb_adapterVersion run) then Some DueAnotherAdapterVersion
           else if sb_inputFingerprint run = NoFingerprint then Some DueNotFingerprinted
           else Some (if currentDigest = None then DueNoCurrentFingerprint else DueInputsChanged)))"

definition holdsFailingTest :: "StoredRun option \<Rightarrow> bool" where
  "holdsFailingTest latest =
     (case latest of
        None \<Rightarrow> False
      | Some run \<Rightarrow>
          (case sr_run run of
             RanRun _ modules \<Rightarrow> list_ex (\<lambda>m. list_ex (hasOutcome [Failed, Error]) (testsOf m)) modules
           | _ \<Rightarrow> False))"

definition queueGroup :: "string \<Rightarrow> StoredRun option \<Rightarrow> string list \<Rightarrow> QueueGroup" where
  "queueGroup wsPath latest directTargets =
     (if wsPath \<in> set directTargets then DirectTarget
      else if holdsFailingTest latest then PriorFailure else Rest)"

definition orderQueue :: "QueuedWorkspace list \<Rightarrow> QueuedWorkspace list" where
  "orderQueue queue = flat_map (\<lambda>group. filter (\<lambda>q. qw_group q = group) queue) GROUP_ORDER"

definition testModulesKey :: "WorkspaceDiscovery \<Rightarrow> string" where
  "testModulesKey entry = stringify (JArr (map JStr (sort (workspaceTestModules entry))))"

section \<open>The order of the groups\<close>

instantiation QueueGroup :: linorder
begin

fun rank :: "QueueGroup \<Rightarrow> nat" where
  "rank DirectTarget = 0"
| "rank PriorFailure = 1"
| "rank Rest = 2"

definition less_eq_QueueGroup :: "QueueGroup \<Rightarrow> QueueGroup \<Rightarrow> bool" where
  "less_eq_QueueGroup a b = (rank a \<le> rank b)"

definition less_QueueGroup :: "QueueGroup \<Rightarrow> QueueGroup \<Rightarrow> bool" where
  "less_QueueGroup a b = (rank a < rank b)"

instance
proof
  fix a b c :: QueueGroup
  show "a < b \<longleftrightarrow> a \<le> b \<and> \<not> b \<le> a" by (auto simp: less_eq_QueueGroup_def less_QueueGroup_def)
  show "a \<le> a" by (simp add: less_eq_QueueGroup_def)
  show "a \<le> b \<Longrightarrow> b \<le> c \<Longrightarrow> a \<le> c" by (simp add: less_eq_QueueGroup_def)
  show "a \<le> b \<Longrightarrow> b \<le> a \<Longrightarrow> a = b" by (cases a; cases b) (simp_all add: less_eq_QueueGroup_def)
  show "a \<le> b \<or> b \<le> a" by (auto simp: less_eq_QueueGroup_def)
qed

end

lemma group_filters:
  "flat_map (\<lambda>group. filter (\<lambda>q. qw_group q = group) queue) GROUP_ORDER =
     filter (\<lambda>q. qw_group q = DirectTarget) queue @ filter (\<lambda>q. qw_group q = PriorFailure) queue @
     filter (\<lambda>q. qw_group q = Rest) queue"
  by (simp add: GROUP_ORDER_def)

lemma group_replicate:
  "map qw_group (filter (\<lambda>q. qw_group q = g) queue) =
     replicate (length (filter (\<lambda>q. qw_group q = g) queue)) g"
  by (induction queue) auto

lemma sort_three:
  "sort_key qw_group queue =
     filter (\<lambda>q. qw_group q = DirectTarget) queue @ filter (\<lambda>q. qw_group q = PriorFailure) queue @
     filter (\<lambda>q. qw_group q = Rest) queue"
proof (rule properties_for_sort_key)
  show "mset (filter (\<lambda>q. qw_group q = DirectTarget) queue @ filter (\<lambda>q. qw_group q = PriorFailure) queue @
      filter (\<lambda>q. qw_group q = Rest) queue) = mset queue"
  proof (induction queue)
    case (Cons q queue)
    then show ?case by (cases "qw_group q") (auto simp: union_commute)
  qed simp
  show "sorted (map qw_group (filter (\<lambda>q. qw_group q = DirectTarget) queue @
      filter (\<lambda>q. qw_group q = PriorFailure) queue @ filter (\<lambda>q. qw_group q = Rest) queue))"
    unfolding map_append group_replicate
    by (auto simp: sorted_append less_eq_QueueGroup_def)
  show "filter (\<lambda>x. qw_group k = qw_group x) (filter (\<lambda>q. qw_group q = DirectTarget) queue @
      filter (\<lambda>q. qw_group q = PriorFailure) queue @ filter (\<lambda>q. qw_group q = Rest) queue) =
      filter (\<lambda>x. qw_group k = qw_group x) queue" for k
    by (cases "qw_group k") (auto simp: filter_empty_conv intro: filter_cong)
qed

section \<open>Properties\<close>

text \<open>
  The round's queue holds every due workspace once, direct targets first, then those whose
  latest run holds a failed test, then the rest, and keeps the discovery's order within each group:
  it is the stable sort by group.
\<close>

theorem orderQueue_stable_sort:
  "orderQueue queue = sort_key qw_group queue"
  by (simp add: orderQueue_def group_filters sort_three)

text \<open>
  A workspace is not stale exactly when its latest run is by this adapter version and bound to a
  fingerprint that is the workspace's current one.
\<close>

theorem staleReason_None_iff:
  "staleReason latest currentDigest refused = None \<longleftrightarrow>
     (\<exists>run digest. latest = Some run \<and> sb_adapterVersion run = 4 \<and> digest \<noteq> [] \<and>
        sb_inputFingerprint run = FingerprintDigest digest \<and> currentDigest = Some digest)"
  by (auto simp: staleReason_def recordFreshness_Current boundTo_def split: option.splits)

end
