(* ===== verification/Answers.thy ===== *)
theory Answers
  imports SelectTests RunJudgment DueWorkspaces
begin

text \<open>
  What the daemon's answers are made of (\<^verbatim>\<open>query/answer.ts\<close>): the round, each workspace's execution
  state with why it is due or idle, the explained selection, and the texts the daemon gives of them; with
  the activity of \<^verbatim>\<open>daemon/protocol.ts\<close> and the two bounds every answer is cut to, of a reason by
  characters (\<^verbatim>\<open>cutReason\<close> of \<^verbatim>\<open>query/summary.ts\<close>) and of a list by items
  (\<^verbatim>\<open>boundedList\<close> and \<^verbatim>\<open>mappedList\<close> of \<^verbatim>\<open>daemon/workspace-schedule.ts\<close>).
  A text is a list of its characters, which are code points here.
\<close>

section \<open>Fingerprints\<close>

text \<open>\<^verbatim>\<open>fingerprintDigest\<close> of \<^verbatim>\<open>query/test-states.ts\<close>.\<close>

definition fingerprintDigest :: "FingerprintResult option \<Rightarrow> string option" where
  "fingerprintDigest print = (case print of Some (Digest digest) \<Rightarrow> Some digest | _ \<Rightarrow> None)"

section \<open>The latest stored results\<close>

record RunRefusal =
  ru_workspacePath :: string
  ru_reason :: string

record EvidenceRefusal =
  eu_defectId :: string
  eu_reason :: string

text \<open>\<^verbatim>\<open>LatestResults\<close> of \<^verbatim>\<open>store/open-store.ts\<close>, less the defects' evidence records.\<close>

record LatestResults =
  lr_discovery :: "StoredDiscovery option"
  lr_discoveryRefusal :: "string option"
  lr_latestRuns :: "StoredRun list"
  lr_runRefusals :: "RunRefusal list"
  lr_evidenceRefusals :: "EvidenceRefusal list"

definition latestRunsMap :: "LatestResults \<Rightarrow> (string, StoredRun) jsmap" where
  "latestRunsMap results = jmap_of (map (\<lambda>run. (ws_path (sr_workspace run), run)) (lr_latestRuns results))"

definition refusedRunsMap :: "LatestResults \<Rightarrow> (string, string) jsmap" where
  "refusedRunsMap results = jmap_of (map (\<lambda>r. (ru_workspacePath r, ru_reason r)) (lr_runRefusals results))"

section \<open>Bounds\<close>

record CutReason =
  cr_reason :: string
  cr_omittedCharacters :: nat

definition MAX_REASON_CHARACTERS :: nat where
  "MAX_REASON_CHARACTERS = 1000"

definition cutReason :: "string \<Rightarrow> CutReason" where
  "cutReason text =
     \<lparr>cr_reason = take MAX_REASON_CHARACTERS text, cr_omittedCharacters = length text - MAX_REASON_CHARACTERS\<rparr>"

definition omittedText :: "nat \<Rightarrow> string" where
  "omittedText omittedCharacters =
     (if omittedCharacters = 0 then []
      else '' ('' @ show_nat omittedCharacters @ '' more characters are in the daemon log)'')"

record 'a NamedList =
  nl_named :: "'a list"
  nl_more :: nat

definition boundedList :: "'a list \<Rightarrow> nat \<Rightarrow> 'a NamedList" where
  "boundedList items bound = \<lparr>nl_named = take bound items, nl_more = length items - bound\<rparr>"

definition mappedList :: "'a list \<Rightarrow> nat \<Rightarrow> ('a \<Rightarrow> 'b) \<Rightarrow> 'b NamedList" where
  "mappedList items bound f =
     (case boundedList items bound of bounded \<Rightarrow> \<lparr>nl_named = map f (nl_named bounded), nl_more = nl_more bounded\<rparr>)"

section \<open>What the daemon is doing\<close>

datatype DaemonActivity =
    Discovering
  | Running (dy_workspacePath: string)
  | Falsifying string nat
  | IdleActivity

text \<open>\<^verbatim>\<open>kind\<close> is present for a falsification only.\<close>

record UnstoredJob =
  uj_workspacePath :: "string option"
  uj_falsification :: bool
  uj_reason :: string

fun activityText :: "DaemonActivity \<Rightarrow> string" where
  "activityText Discovering = ''discovering tests''"
| "activityText (Running path) = ''running workspace '' @ path"
| "activityText (Falsifying path definitions) =
     ''falsifying workspace '' @ path @ '', with '' @ show_nat definitions @ '' of its defect definitions in the job''"
| "activityText IdleActivity = ''idle''"

datatype RoundWait =
    WaitFirstReconciliation | WaitQuietWindow | WaitInputsSettling | WaitDependencyBuild | WaitRediscovery
  | WaitJobInProgress

datatype RoundFacts =
    RoundPending (rf_waitsFor: RoundWait)
  | RoundPlanned (rf_revision: nat)
  | RoundHeld (rf_failure: CutReason)

fun ROUND_WAIT_TEXT :: "RoundWait \<Rightarrow> string" where
  "ROUND_WAIT_TEXT WaitFirstReconciliation = ''the first reconciliation of the inputs''"
| "ROUND_WAIT_TEXT WaitQuietWindow = ''the input revision to hold still''"
| "ROUND_WAIT_TEXT WaitInputsSettling = ''the input events seen so far to be read''"
| "ROUND_WAIT_TEXT WaitDependencyBuild = ''the dependency build at the input revision''"
| "ROUND_WAIT_TEXT WaitRediscovery = ''a rediscovery''"
| "ROUND_WAIT_TEXT WaitJobInProgress = ''the job in progress, begun at an earlier input revision''"

fun roundText :: "RoundFacts \<Rightarrow> string" where
  "roundText (RoundPending waitsFor) = ''a round is pending, waiting for '' @ ROUND_WAIT_TEXT waitsFor"
| "roundText (RoundPlanned revision) = ''the round was planned at input revision '' @ show_nat revision"
| "roundText (RoundHeld failure) =
     ''a scheduling step failed, so the daemon tries again at the next input event or reconciliation: '' @
     cr_reason failure @ omittedText (cr_omittedCharacters failure)"

section \<open>Each workspace's execution\<close>

datatype ScheduleDueReason = Due DueReason | Invalidated | EarlierDaemonLife

record DueFacts =
  df_kind :: ScheduleDueReason
  df_detail :: "CutReason option"

text \<open>The reasons that do not rest on the workspace's own changes.\<close>

datatype NotSelfChangingReason = RetryPending | NoRunUntilInputChange | RoundHeldReason

record SelfChangedPath =
  sp_path :: string
  sp_jobs :: "Job NamedList"

record ChoosingReason =
  cs_path :: string
  cs_trigger :: TriggerKind
  cs_scope :: "FallbackScope option"

datatype NotRunning =
    SelfChanging (nu_due: DueFacts) "SelfChangedPath NamedList"
  | NotSelfChanging (nu_why: NotSelfChangingReason) (nu_due: DueFacts)

datatype ExecutionState =
    ExecutionRunning
  | ExecutionQueued (ex_due: DueFacts) "ChoosingReason NamedList" "string NamedList option"
  | ExecutionInterrupted "string NamedList"
  | ExecutionIdle (ex_notRunning: "NotRunning option")

record WorkspaceExecution =
  we_workspacePath :: string
  we_state :: ExecutionState

record ScheduleFacts =
  sf_round :: RoundFacts
  sf_workspaces :: "WorkspaceExecution list"
  sf_selfChangingDiscovery :: "SelfChangedPath NamedList option"

section \<open>The explained selection\<close>

datatype NoRoundSelection = NotNarrowedRound NotNarrowedKind | NoBuildEnded | InputDigestsUnread | FirstRound

record ExplainedStep =
  es_workspace :: string
  es_via :: StepVia
  es_detail :: CutReason

record ExplainedReason =
  er_path :: string
  er_trigger :: TriggerKind
  er_from :: "string option"
  er_steps :: "ExplainedStep list"

record ExplainedSelection =
  el_workspace :: string
  el_reasons :: "ExplainedReason list"

record ExplainedNotRunnable =
  en_workspace :: Workspace
  en_reason :: CutReason

record ExplainedPath =
  ep_path :: string
  ep_owner :: "string option"
  ep_triggers :: "TriggerKind list"
  ep_selected :: "ExplainedSelection NamedList"
  ep_notRunnable :: "ExplainedNotRunnable NamedList"
  ep_nothingSelected :: "(NoSelectionKind \<times> CutReason) option"

record ExplainedFallback =
  ef_path :: string
  ef_trigger :: TriggerKind
  ef_scope :: FallbackScope
  ef_workspaces :: "string NamedList"

datatype SelectionExplanation =
    NoRoundYet
  | SelectionMade nat "ExplainedPath NamedList" "ExplainedFallback NamedList" SelectionCounts
  | SelectionNotMade nat NoRoundSelection CutReason

section \<open>Lemmas\<close>

lemma cutReason_whole: "length text \<le> MAX_REASON_CHARACTERS \<Longrightarrow> cutReason text = \<lparr>cr_reason = text, cr_omittedCharacters = 0\<rparr>"
  by (simp add: cutReason_def)

lemma cutReason_length:
  "length (cr_reason (cutReason text)) \<le> MAX_REASON_CHARACTERS"
  "length (cr_reason (cutReason text)) + cr_omittedCharacters (cutReason text) = length text"
  by (simp_all add: cutReason_def)

lemma boundedList_length:
  "length (nl_named (boundedList items bound)) \<le> bound"
  "length (nl_named (boundedList items bound)) + nl_more (boundedList items bound) = length items"
  by (simp_all add: boundedList_def)

lemma mappedList_length:
  "length (nl_named (mappedList items bound f)) \<le> bound"
  "length (nl_named (mappedList items bound f)) + nl_more (mappedList items bound f) = length items"
  by (simp_all add: mappedList_def boundedList_def)

end
