(* ===== verification/RoundSelection.thy ===== *)
theory RoundSelection
  imports Answers
begin

text \<open>
  A round's selection (\<^verbatim>\<open>daemon/round-selection.ts\<close>): the paths that changed since the previous
  round's snapshot, selected over the build that decides the inputs at the round's revision, with what
  the log says of it. The log is the list of its entries, and every entry's text is the code's.
\<close>

section \<open>Texts\<close>

fun producerText :: "EdgeProducerKind \<Rightarrow> string" where
  "producerText ProducerManifest = ''manifest''"
| "producerText ProducerOverride = ''override''"
| "producerText ProducerTestModule = ''test-module''"
| "producerText ProducerSetupFile = ''setup-file''"
| "producerText ProducerAlias = ''alias''"
| "producerText ProducerRelativeImport = ''relative-import''"
| "producerText ProducerBareImport = ''bare-import''"
| "producerText ProducerTsconfig = ''tsconfig''"
| "producerText ProducerManifestImports = ''manifest-imports''"
| "producerText ProducerLink = ''link''"

fun uncertaintyText :: "UncertaintyKind \<Rightarrow> string" where
  "uncertaintyText ManifestMissing = ''manifest-missing''"
| "uncertaintyText ManifestUnreadable = ''manifest-unreadable''"
| "uncertaintyText UnresolvedLocalDependency = ''unresolved-local-dependency''"
| "uncertaintyText UnlistedPackage = ''unlisted-package''"
| "uncertaintyText UnresolvedOverride = ''unresolved-override''"
| "uncertaintyText UnresolvableAlias = ''unresolvable-alias''"
| "uncertaintyText UnresolvableSpecifier = ''unresolvable-specifier''"
| "uncertaintyText TestsNotKnown = ''tests-not-known''"
| "uncertaintyText UnreadableSource = ''unreadable-source''"
| "uncertaintyText UnparsedSource = ''unparsed-source''"
| "uncertaintyText PluginFormatFile = ''plugin-format-file''"
| "uncertaintyText WalkBoundReached = ''walk-bound-reached''"
| "uncertaintyText ExtendsUnfollowed = ''extends-unfollowed''"
| "uncertaintyText MalformedConfig = ''malformed-config''"

fun triggerText :: "TriggerKind \<Rightarrow> string" where
  "triggerText TrChangedPath = ''changed-path''"
| "triggerText TrLockfile = ''lockfile''"
| "triggerText TrManifest = ''manifest''"
| "triggerText TrRootOwnedPath = ''root-owned-path''"
| "triggerText TrOwnerWithoutManifest = ''owner-without-manifest''"
| "triggerText TrConfigOutsideWorkspace = ''config-outside-workspace''"
| "triggerText TrWorkspaceConfig = ''workspace-config''"
| "triggerText TrSetupFile = ''setup-file''"
| "triggerText TrGlobalSetupFile = ''global-setup-file''"
| "triggerText TrNonInputsFile = ''non-inputs-file''"

fun scopeText :: "FallbackScope \<Rightarrow> string" where
  "scopeText ProjectScope = ''project''"
| "scopeText WorkspaceScope = ''workspace''"

fun noSelectionText :: "NoSelectionKind \<Rightarrow> string" where
  "noSelectionText NoDependentVitestWorkspace = ''no-dependent-vitest-workspace''"
| "noSelectionText OnlyNotRunnable = ''only-not-runnable''"
| "noSelectionText DeclaredNonInput = ''declared-non-input''"

fun notNarrowedText :: "NotNarrowedKind \<Rightarrow> string" where
  "notNarrowedText (BuildFailure DependencyBuildFailed) = ''dependency-build-failed''"
| "notNarrowedText (BuildFailure DependencyBuildTimedOut) = ''dependency-build-timed-out''"
| "notNarrowedText DependencyBuildsEnded = ''dependency-builds-ended''"
| "notNarrowedText NoSelectionInput = ''no-selection-input''"
| "notNarrowedText SelectionRefused = ''selection-refused''"

fun noRoundText :: "NoRoundSelection \<Rightarrow> string" where
  "noRoundText (NotNarrowedRound kind) = notNarrowedText kind"
| "noRoundText NoBuildEnded = ''no-build-ended''"
| "noRoundText InputDigestsUnread = ''input-digests-unread''"
| "noRoundText FirstRound = ''first-round''"

fun viaText :: "StepVia \<Rightarrow> string" where
  "viaText (ViaEdge producer) = producerText producer"
| "viaText (ViaWidening kind) = uncertaintyText kind"

definition stepText :: "ChainStep \<Rightarrow> string" where
  "stepText step =
     st_workspace step @ '' by '' @ viaText (st_via step) @
     (if st_detail step = [] then [] else '' ('' @ st_detail step @ '')'')"

definition reasonText :: "SelectionReason \<Rightarrow> string" where
  "reasonText reason =
     (let steps = join '' then '' (map stepText (re_steps reason)) in
      triggerText (re_trigger reason) @
      (case re_from reason of None \<Rightarrow> [] | Some from_ws \<Rightarrow> '' from '' @ from_ws) @
      (if steps = [] then [] else '' through '' @ steps))"

definition notRunnableText :: "ChangedPathReport \<Rightarrow> string" where
  "notRunnableText report =
     (if cp_selected report = [] \<or> cp_notRunnable report = [] then []
      else ''; not runnable: '' @
        join '', '' (map (\<lambda>excluded. ws_path (nr_workspace excluded) @ '' ('' @ nr_reason excluded @ '')'')
          (cp_notRunnable report)))"

definition pathText :: "ChangedPathReport \<Rightarrow> string" where
  "pathText report =
     (let owner = (case cp_owner report of Some ws \<Rightarrow> ws | None \<Rightarrow> ''no package workspace'');
          chosen = (if cp_selected report = [] then
              ''selected no workspace'' @ (case cp_nothingSelected report of
                None \<Rightarrow> [] | Some (kind, detail) \<Rightarrow> '', '' @ noSelectionText kind @ '': '' @ detail)
            else ''selected '' @ join '', '' (map (\<lambda>selection. ps_workspace selection @ '' ('' @
              join ''; '' (map reasonText (ps_reasons selection)) @ '')'') (cp_selected report)))
      in ''changed path '' @ cp_path report @ '', owned by '' @ owner @ '', '' @ chosen @ notRunnableText report)"

definition fallbackText :: "BroadFallback \<Rightarrow> string" where
  "fallbackText fallback =
     ''broad fallback to the '' @ scopeText (bf_scope fallback) @ '' for '' @ bf_path fallback @ '', triggered by '' @
     triggerText (bf_trigger fallback) @ '', from '' @ join '', '' (bf_workspaces fallback)"

text \<open>A widening left out names the file it rests on.\<close>

definition leftOutText :: "LeftOutWidening \<Rightarrow> string" where
  "leftOutText leftOut =
     ''widening left out: '' @ du_dependent leftOut @ '' by '' @ uncertaintyText (du_kind leftOut) @ '' ('' @
     du_cause leftOut @ ''), since '' @ NON_INPUTS_FILE @ '' declares '' @
     (case du_file leftOut of Some path \<Rightarrow> path | None \<Rightarrow> ''undefined'') @
     '' a non-input through the pattern '' @ lo_pattern leftOut"

definition countText :: "TestCount \<Rightarrow> string" where
  "countText c = show_nat (ct_count c) @ (if ct_complete c then [] else '' (incomplete)'')"

definition countsText :: "SelectionCounts \<Rightarrow> string" where
  "countsText c =
     ''selected '' @ countText (sc_selectedTests c) @ '' of '' @ countText (sc_totalTests c) @ '' tests and '' @
     show_nat (sc_selectedWorkspaces c) @ '' of '' @ show_nat (ct_count (sc_totalWorkspaces c)) @ '' workspaces'' @
     (if ct_complete (sc_totalWorkspaces c) then [] else '' (workspace total incomplete)'') @ '', '' @
     show_nat (sc_notRunnableWorkspaces c) @ '' not runnable''"

section \<open>The selection of a round\<close>

datatype RoundExplanation =
    RoundMade nat "ChangedPathReport list" "BroadFallback list" SelectionCounts
  | RoundNotMade nat NoRoundSelection string

record RoundSelection =
  rs_directTargets :: "string list"
  rs_selected :: "string list"
  rs_explanation :: RoundExplanation

definition unselectedRound :: "nat \<Rightarrow> NoRoundSelection \<Rightarrow> string \<Rightarrow> RoundSelection" where
  "unselectedRound revision kind reason =
     \<lparr>rs_directTargets = [], rs_selected = [], rs_explanation = RoundNotMade revision kind reason\<rparr>"

definition NO_SELECTION_CONSEQUENCE :: string where
  "NO_SELECTION_CONSEQUENCE =
     ''so every workspace whose latest run is not bound to its current fingerprint still runs''"

definition noBuildEndedReason :: "InputsNotNarrowed option \<Rightarrow> string" where
  "noBuildEndedReason earlier =
     (let noBuild = ''no dependency build ended at this input revision, because the wait for it was released'' in
      case earlier of
        None \<Rightarrow> noBuild
      | Some failure \<Rightarrow>
          noBuild @ ''; an earlier build '' @ notNarrowedText (inn_kind failure) @ '': '' @ inn_reason failure)"

definition noSelection :: "nat \<Rightarrow> NoRoundSelection \<Rightarrow> string \<Rightarrow> RoundSelection \<times> string list" where
  "noSelection revision kind reason =
     (unselectedRound revision kind reason,
      [''warning: no selection was made ('' @ noRoundText kind @ ''), '' @ NO_SELECTION_CONSEQUENCE @ '': '' @ reason])"

definition logSelection :: "nat \<Rightarrow> Selection \<Rightarrow> RoundSelection \<times> string list" where
  "logSelection revision selection =
     (\<lparr>rs_directTargets = uniq (flat_map (\<lambda>report. case cp_owner report of None \<Rightarrow> [] | Some owner \<Rightarrow> [owner])
         (sn_paths selection)),
       rs_selected = uniq (map se_path (sn_workspaces selection)),
       rs_explanation = RoundMade revision (sn_paths selection) (sn_fallbacks selection) (sn_counts selection)\<rparr>,
      map pathText (sn_paths selection) @ map fallbackText (sn_fallbacks selection) @
      map leftOutText (sn_wideningsLeftOut selection) @ [countsText (sn_counts selection)])"

definition explainRound :: "Narrowing QueryNarrowing \<Rightarrow> nat \<Rightarrow> string list \<Rightarrow> RoundSelection \<times> string list" where
  "explainRound query revision changed =
     (let entry = ''round at input revision '' @ show_nat revision @ '': '' @ show_nat (length changed) @
            '' changed input paths'';
          result = (case narrowingAt query revision of
              Narrowed narrowed \<Rightarrow>
                (case selectOver (nw_placement narrowed) changed of
                   Selected selection \<Rightarrow> logSelection revision selection
                 | Refused _ reason \<Rightarrow> noSelection revision (NotNarrowedRound SelectionRefused) reason)
            | Widened notNarrowed \<Rightarrow>
                noSelection revision (NotNarrowedRound (inn_kind notNarrowed)) (inn_reason notNarrowed)
            | Building _ earlier \<Rightarrow> noSelection revision NoBuildEnded (noBuildEndedReason earlier))
      in (fst result, entry # snd result))"

text \<open>What a round's selection reads; \<open>rr_isHeld\<close> is asked of each selected workspace.\<close>

record RoundReading =
  rr_narrowing :: "Narrowing QueryNarrowing"
  rr_before :: "InputDigests option"
  rr_now :: "InputDigests option"
  rr_due :: "string list"
  rr_confirmed :: "string list"
  rr_isHeld :: "string \<Rightarrow> bool"

definition holdsCurrent :: "RoundReading \<Rightarrow> string \<Rightarrow> bool" where
  "holdsCurrent reading path =
     (path \<in> set (rr_confirmed reading) \<and> path \<notin> set (rr_due reading) \<and> \<not> rr_isHeld reading path)"

text \<open>The round's selection, the snapshot the next round compares with, and the entries logged.\<close>

definition selectRound :: "nat \<Rightarrow> RoundReading \<Rightarrow> RoundSelection \<times> InputDigests option \<times> string list" where
  "selectRound revision reading =
     (case rr_now reading of
        None \<Rightarrow>
          (unselectedRound revision InputDigestsUnread ''the inputs' digests cannot be read now'', rr_before reading,
           [''warning: no selection was made, because the inputs' digests cannot be read now, '' @ NO_SELECTION_CONSEQUENCE])
      | Some now \<Rightarrow>
          (case rr_before reading of
             None \<Rightarrow>
               (unselectedRound revision FirstRound ''no previous round read the inputs to compare with'', Some now,
                [''round without a selection: no previous round read the inputs to compare with''])
           | Some before \<Rightarrow>
               (case explainRound (rr_narrowing reading) revision (changedPaths before now) of
                  (selection, entries) \<Rightarrow>
                    (selection, Some now,
                     entries @ map (\<lambda>path. ''not run: '' @ path @
                         '' was selected, and holds results bound to its current input fingerprint'')
                       (filter (holdsCurrent reading) (rs_selected selection))))))"

section \<open>Lemmas\<close>

text \<open>A snapshot once read is only replaced by a later one.\<close>

lemma selectRound_snapshot:
  "fst (snd (selectRound revision reading)) = (case rr_now reading of None \<Rightarrow> rr_before reading | Some now \<Rightarrow> Some now)"
  by (auto simp: selectRound_def split: option.splits prod.splits)

lemma explainRound_targets:
  "set (rs_directTargets (fst (explainRound query revision changed))) \<subseteq>
     {owner. \<exists>narrowed selection. narrowingAt query revision = Narrowed narrowed \<and>
        selectOver (nw_placement narrowed) changed = Selected selection \<and>
        (\<exists>report \<in> set (sn_paths selection). cp_owner report = Some owner)}"
  by (auto simp: explainRound_def Let_def noSelection_def unselectedRound_def logSelection_def
      split: WorkspaceNarrowing.splits SelectionOutcome.splits option.splits)

lemma selectRound_explanation_revision:
  "(case rs_explanation (fst (selectRound revision reading)) of
      RoundMade r _ _ _ \<Rightarrow> r | RoundNotMade r _ _ \<Rightarrow> r) = revision"
  by (auto simp: selectRound_def explainRound_def Let_def noSelection_def unselectedRound_def logSelection_def
      split: option.splits prod.splits WorkspaceNarrowing.splits SelectionOutcome.splits)

end
