(* ===== verification/RunHistory.thy ===== *)
theory RunHistory
  imports RunJudgment DueWorkspaces
begin

text \<open>
  What the scheduler remembers of the runs it began (\<^verbatim>\<open>daemon/run-history.ts\<close>): per workspace the last
  attempt, whether it is owed once more, and how many times in a row it became due only through changes
  the daemon's own jobs made to the same input, which holds it at \<^verbatim>\<open>SELF_CHANGE_HOLD_COUNT\<close> until an
  edit reaches its inputs. The object a begun run's end is recorded through is the record \<open>BegunRun\<close>;
  the log is the list of its entries.
\<close>

section \<open>Counts\<close>

definition SELF_CHANGE_HOLD_COUNT :: nat where
  "SELF_CHANGE_HOLD_COUNT = 3"

definition UNINTERRUPTIBLE_COUNT :: nat where
  "UNINTERRUPTIBLE_COUNT = SELF_CHANGE_HOLD_COUNT - 1"

type_synonym JobsByPath = "(string, Job list) jsmap"

record SelfChangeCount =
  sf_count :: nat
  sf_shared :: JobsByPath

definition NO_COUNT :: SelfChangeCount where
  "NO_COUNT = \<lparr>sf_count = 0, sf_shared = []\<rparr>"

definition sharedPaths :: "JobsByPath \<Rightarrow> JobsByPath \<Rightarrow> JobsByPath" where
  "sharedPaths base caused =
     fold (\<lambda>(path, jobs) shared. case map_of base path of
         Some before \<Rightarrow> jset path (uniq (before @ jobs)) shared
       | None \<Rightarrow> shared) caused []"

definition followOn :: "SelfChangeCount \<Rightarrow> JobsByPath \<Rightarrow> SelfChangeCount" where
  "followOn base caused =
     (let shared = (if sf_count base > 0 then sharedPaths (sf_shared base) caused else []) in
      if shared \<noteq> [] then \<lparr>sf_count = sf_count base + 1, sf_shared = shared\<rparr>
      else \<lparr>sf_count = 1, sf_shared = caused\<rparr>)"

definition jobText :: "Job \<Rightarrow> string" where
  "jobText job = (case job of None \<Rightarrow> ''the discovery'' | Some wsPath \<Rightarrow> ''the run of '' @ wsPath)"

definition changesText :: "JobsByPath \<Rightarrow> string" where
  "changesText shared =
     namedList (map (\<lambda>(path, jobs). path @ '' (during '' @ namedList (map jobText jobs) @ '')'') shared)"

section \<open>The history\<close>

record HistoryReport =
  hr_revision :: nat
  hr_stored :: bool
  hr_changedWhileRunning :: bool
  hr_window :: "InputDigests JobWindow"
  hr_notKept :: "NotKeptVerdict option"
  hr_interruptedBy :: "string list option"

record 'n DueWorkspaceFacts =
  du_entry :: WorkspaceDiscovery
  du_retryOnly :: bool
  du_fingerprinted :: bool
  du_placement :: "'n ChangePlacement"

record Attempt =
  at_revision :: nat
  at_modules :: string
  at_nothingStored :: bool
  at_rerunOwed :: bool
  at_startCount :: SelfChangeCount
  at_qualifies :: bool

record RunHistory =
  rh_attempts :: "(string, Attempt) jsmap"
  rh_changes :: ChangeRecord
  rh_decided :: "(string, SelfChangeCount) jsmap"
  rh_held :: "(string, SelfChangeCount) jsmap"
  rh_log :: "string list"

definition newRunHistory :: RunHistory where
  "newRunHistory = \<lparr>rh_attempts = [], rh_changes = emptyRecord, rh_decided = [], rh_held = [], rh_log = []\<rparr>"

definition logEntry :: "string \<Rightarrow> RunHistory \<Rightarrow> RunHistory" where
  "logEntry text h = h\<lparr>rh_log := rh_log h @ [text]\<rparr>"

text \<open>\<^verbatim>\<open>qualifies\<close>.\<close>

definition reportQualifies :: "HistoryReport \<Rightarrow> bool" where
  "reportQualifies report =
     (hr_interruptedBy report \<noteq> None \<or>
      hr_stored report \<and> (hr_notKept report = None \<or> labelsInvalidated (hr_notKept report)))"

definition storedNothing :: "string \<Rightarrow> RunHistory \<Rightarrow> bool" where
  "storedNothing path h = (case map_of (rh_attempts h) path of Some attempt \<Rightarrow> at_nothingStored attempt | None \<Rightarrow> False)"

definition ranAlready :: "string \<Rightarrow> nat \<Rightarrow> WorkspaceDiscovery \<Rightarrow> RunHistory \<Rightarrow> bool" where
  "ranAlready path revision entry h =
     (case map_of (rh_attempts h) path of
        None \<Rightarrow> False
      | Some attempt \<Rightarrow>
          at_revision attempt = revision \<and> at_modules attempt = testModulesKey entry \<and> \<not> at_rerunOwed attempt)"

definition onChanges :: "(ChangeRecord \<Rightarrow> ChangeRecord) \<Rightarrow> RunHistory \<Rightarrow> RunHistory" where
  "onChanges f h = h\<lparr>rh_changes := f (rh_changes h)\<rparr>"

text \<open>The discovery's part of the change record, under the subject no workspace path can equal.\<close>

definition DISCOVERY :: Job where
  "DISCOVERY = None"

definition runsObserved :: "InputDigests option \<Rightarrow> RunHistory \<Rightarrow> RunHistory" where
  "runsObserved digests = onChanges (observed digests)"

definition runsReportEdits :: "string list \<Rightarrow> RunHistory \<Rightarrow> nat \<times> RunHistory" where
  "runsReportEdits ks h = (case reportEdits ks (rh_changes h) of (report, r) \<Rightarrow> (report, h\<lparr>rh_changes := r\<rparr>))"

definition discoveryBegan :: "RunHistory \<Rightarrow> RunHistory" where
  "discoveryBegan = onChanges (jobBegan DISCOVERY)"

definition discoveryNotBegun :: "RunHistory \<Rightarrow> RunHistory" where
  "discoveryNotBegun = onChanges (jobNotBegun DISCOVERY)"

definition discoveryEnded :: "InputDigests JobWindow \<Rightarrow> RunHistory \<Rightarrow> RunHistory" where
  "discoveryEnded window = onChanges (jobEnded window DISCOVERY)"

definition discoveryThrew :: "RunHistory \<Rightarrow> RunHistory" where
  "discoveryThrew = onChanges (jobThrew DISCOVERY)"

definition discoveryChanges :: "RunHistory \<Rightarrow> ChangeSets option" where
  "discoveryChanges h = changesOf DISCOVERY (rh_changes h)"

definition isHeld :: "string \<Rightarrow> RunHistory \<Rightarrow> bool" where
  "isHeld path h = jhas (rh_held h) path"

definition runHeldBy :: "string \<Rightarrow> RunHistory \<Rightarrow> JobsByPath option" where
  "runHeldBy path h = map_option sf_shared (map_of (rh_held h) path)"

definition uninterruptible :: "string \<Rightarrow> RunHistory \<Rightarrow> string option" where
  "uninterruptible path h =
     (case map_of (rh_decided h) path of
        None \<Rightarrow> None
      | Some decided \<Rightarrow>
          (if sf_count decided \<noteq> UNINTERRUPTIBLE_COUNT then None
           else Some (''the daemon's own runs and discoveries changed '' @ changesText (sf_shared decided) @
             '' each of the '' @ show_nat (sf_count decided) @ '' times in a row it became due, and one more holds it'')))"

section \<open>Deciding\<close>

text \<open>\<^verbatim>\<open>#inside\<close>: none when the placement throws, which is logged.\<close>

definition insideInputs :: "'n Placing \<Rightarrow> 'n DueWorkspaceFacts \<Rightarrow> string list \<Rightarrow> RunHistory \<Rightarrow>
    string list option \<times> RunHistory" where
  "insideInputs placing due paths h =
     (case pathsInside placing paths (du_entry due) (du_placement due) of
        Inr inside \<Rightarrow> (Some inside, h)
      | Inl error \<Rightarrow> (None, logEntry (''placing the paths that changed since the last run of '' @
          entryPath (du_entry due) @ '', so they count as an edit to its inputs: '' @ error) h))"

text \<open>\<^verbatim>\<open>#edited\<close>.\<close>

definition editedInputs :: "'n Placing \<Rightarrow> 'n DueWorkspaceFacts \<Rightarrow> ChangeSets option \<Rightarrow> RunHistory \<Rightarrow>
    bool \<times> RunHistory" where
  "editedInputs placing due changes h =
     (case changes of
        None \<Rightarrow> (True, h)
      | Some cs \<Rightarrow>
          (if cs_everywhere cs then (True, h)
           else (case insideInputs placing due (cs_edits cs) h of
               (inside, h') \<Rightarrow> (inside \<noteq> Some [], h'))))"

text \<open>\<^verbatim>\<open>#nextCount\<close>.\<close>

definition nextCount :: "'n Placing \<Rightarrow> 'n DueWorkspaceFacts \<Rightarrow> RunHistory \<Rightarrow> SelfChangeCount \<times> RunHistory" where
  "nextCount placing due h =
     (let path = entryPath (du_entry due); changes = changesOf (Some path) (rh_changes h) in
      case map_of (rh_attempts h) path of
        None \<Rightarrow> (NO_COUNT, h)
      | Some attempt \<Rightarrow>
          (if \<not> at_qualifies attempt \<or> du_retryOnly due \<or> \<not> du_fingerprinted due then (NO_COUNT, h)
           else (case changes of
               None \<Rightarrow> (NO_COUNT, h)
             | Some cs \<Rightarrow>
                 (case editedInputs placing due changes h of
                    (True, h1) \<Rightarrow> (NO_COUNT, h1)
                  | (False, h1) \<Rightarrow>
                      (case insideInputs placing due (keys (cs_byJobs cs)) h1 of
                         (None, h2) \<Rightarrow> (NO_COUNT, h2)
                       | (Some inside, h2) \<Rightarrow>
                           (let caused = filter (\<lambda>(changed, _). changed \<in> set inside) (cs_byJobs cs) in
                            (if caused = [] then NO_COUNT else followOn (at_startCount attempt) caused, h2)))))))"

definition HELD_ENTRY :: string where
  "HELD_ENTRY = ''runs no more until an edit reaches its inputs, since the daemon's own runs and discoveries changed the same inputs each of the '' @
     show_nat SELF_CHANGE_HOLD_COUNT @ '' times in a row it became due''"

definition decideCount :: "'n Placing \<Rightarrow> 'n DueWorkspaceFacts \<Rightarrow> RunHistory \<Rightarrow> bool \<times> RunHistory" where
  "decideCount placing due h =
     (let path = entryPath (du_entry due) in
      case nextCount placing due h of
        (counted, h1) \<Rightarrow>
          (let h2 = h1\<lparr>rh_decided := jset path counted (rh_decided h1)\<rparr> in
           if sf_count counted < SELF_CHANGE_HOLD_COUNT then (False, h2)
           else (True, logEntry (''held: '' @ path @ '' '' @ HELD_ENTRY @ '': '' @ changesText (sf_shared counted))
             (h2\<lparr>rh_held := jset path counted (rh_held h2)\<rparr>))))"

definition decide :: "'n Placing \<Rightarrow> 'n DueWorkspaceFacts \<Rightarrow> RunHistory \<Rightarrow> bool \<times> RunHistory" where
  "decide placing due h =
     (let path = entryPath (du_entry due) in
      if \<not> isHeld path h then decideCount placing due h
      else (case editedInputs placing due (changesOf (Some path) (rh_changes h)) h of
          (False, h1) \<Rightarrow> (True, h1)
        | (True, h1) \<Rightarrow>
            decideCount placing due
              (logEntry (path @ '' is no longer held, since an edit reached its inputs'')
                (h1\<lparr>rh_held := jdel path (rh_held h1)\<rparr>))))"

section \<open>A begun run\<close>

record BegunRun =
  br_path :: string
  br_modules :: string
  br_isRerun :: bool
  br_startCount :: SelfChangeCount
  br_before :: "Attempt option"

definition began :: "WorkspaceDiscovery \<Rightarrow> nat \<Rightarrow> RunHistory \<Rightarrow> BegunRun \<times> RunHistory" where
  "began entry revision h =
     (let path = entryPath entry;
          modules = testModulesKey entry;
          before = map_of (rh_attempts h) path;
          isRerun = (case before of None \<Rightarrow> False
            | Some b \<Rightarrow> at_rerunOwed b \<and> at_revision b = revision \<and> at_modules b = modules);
          startCount = (case map_of (rh_decided h) path of Some decided \<Rightarrow> decided | None \<Rightarrow> NO_COUNT)
      in (\<lparr>br_path = path, br_modules = modules, br_isRerun = isRerun, br_startCount = startCount, br_before = before\<rparr>,
          h\<lparr>rh_changes := jobBegan (Some path) (rh_changes h),
            rh_attempts := jset path \<lparr>at_revision = revision, at_modules = modules, at_nothingStored = True,
              at_rerunOwed = False, at_startCount = startCount, at_qualifies = False\<rparr> (rh_attempts h)\<rparr>))"

text \<open>\<^verbatim>\<open>#ended\<close>; \<open>now\<close> is the input revision when the report comes.\<close>

definition recordEnd :: "BegunRun \<Rightarrow> HistoryReport \<Rightarrow> nat \<Rightarrow> RunHistory \<Rightarrow> bool \<times> RunHistory" where
  "recordEnd begun report now h =
     (let unmoved = (hr_changedWhileRunning report \<and> hr_revision report = now);
          owedAgain = (unmoved \<and> \<not> br_isRerun begun);
          h1 = (if \<not> unmoved then h
                else logEntry (''the run of '' @ br_path begun @ '' was stored not fingerprinted '' @
                  (if br_isRerun begun then ''again '' else []) @
                  ''because its inputs changed while it ran at input revision '' @ show_nat (hr_revision report) @
                  '', which the change did not move, so it '' @
                  (if br_isRerun begun
                   then ''is held until the input revision or its list of test modules changes''
                   else ''runs once more'')) h)
      in (owedAgain,
          h1\<lparr>rh_attempts := jset (br_path begun)
            \<lparr>at_revision = hr_revision report, at_modules = br_modules begun, at_nothingStored = (\<not> hr_stored report),
             at_rerunOwed = owedAgain, at_startCount = br_startCount begun, at_qualifies = reportQualifies report\<rparr>
            (rh_attempts h1)\<rparr>))"

definition runEnded :: "BegunRun \<Rightarrow> HistoryReport \<Rightarrow> nat \<Rightarrow> RunHistory \<Rightarrow> bool \<times> RunHistory" where
  "runEnded begun report now h =
     recordEnd begun report now (onChanges (jobEnded (hr_window report) (Some (br_path begun))) h)"

definition runNotBegun :: "BegunRun \<Rightarrow> RunHistory \<Rightarrow> RunHistory" where
  "runNotBegun begun h =
     (let h1 = onChanges (jobNotBegun (Some (br_path begun))) h in
      h1\<lparr>rh_attempts := (case br_before begun of
          None \<Rightarrow> jdel (br_path begun) (rh_attempts h1)
        | Some before \<Rightarrow> jset (br_path begun) before (rh_attempts h1))\<rparr>)"

definition runThrew :: "BegunRun \<Rightarrow> RunHistory \<Rightarrow> RunHistory" where
  "runThrew begun = onChanges (jobThrew (Some (br_path begun)))"

definition runRefused :: "BegunRun \<Rightarrow> RunHistory \<Rightarrow> RunHistory" where
  "runRefused begun = onChanges (jobNotBegun (Some (br_path begun)))"

section \<open>Counts follow each other\<close>

lemma keys_sharedPaths: "set (keys (sharedPaths base caused)) = set (keys base) \<inter> set (keys caused)"
proof -
  have "set (keys (fold (\<lambda>(path, jobs) shared. case map_of base path of
         Some before \<Rightarrow> jset path (uniq (before @ jobs)) shared | None \<Rightarrow> shared) caused shared)) =
      set (keys shared) \<union> (set (keys base) \<inter> set (keys caused))" for shared
  proof (induction caused arbitrary: shared)
    case (Cons c caused)
    obtain path jobs where c: "c = (path, jobs)" by (cases c)
    show ?case
    proof (cases "map_of base path")
      case None
      then have "path \<notin> set (keys base)" by (simp add: in_keys_iff)
      then show ?thesis by (simp add: c Cons.IH None)
    next
      case (Some before)
      then have "path \<in> set (keys base)" by (simp add: in_keys_iff)
      then show ?thesis by (auto simp: c Cons.IH Some keys_jset)
    qed
  qed simp
  from this [of "[]"] show ?thesis by (simp add: sharedPaths_def)
qed

text \<open>How near a count is to a hold, as seen by a path that changes every time.\<close>

definition nearness :: "string \<Rightarrow> SelfChangeCount \<Rightarrow> nat" where
  "nearness x c =
     (if sf_count c = 0 then 0 else if sf_count c \<ge> SELF_CHANGE_HOLD_COUNT then 5
      else sf_count c + (if x \<in> set (keys (sf_shared c)) then 2 else 0))"

lemma followOn_nearer:
  assumes "x \<in> set (keys caused)"
  shows "nearness x base < 5 \<Longrightarrow> nearness x base < nearness x (followOn base caused)"
    and "sf_count (followOn base caused) > 0"
proof -
  have "keys (sharedPaths b caused) \<noteq> []" if "x \<in> set (keys b)" for b
    using assms keys_sharedPaths [of b caused] that by (metis IntI empty_iff empty_set)
  then have "sharedPaths b caused \<noteq> []" if "x \<in> set (keys b)" for b using that by fastforce
  then show "nearness x base < 5 \<Longrightarrow> nearness x base < nearness x (followOn base caused)"
    using assms by (auto simp: nearness_def followOn_def Let_def SELF_CHANGE_HOLD_COUNT_def keys_sharedPaths)
  show "sf_count (followOn base caused) > 0" by (simp add: followOn_def Let_def)
qed

text \<open>
  A workspace due only through changes its own daemon's jobs made, \<open>x\<close> inside its inputs among them:
  no edit lies inside its inputs, and its last run ended as a count can follow.
\<close>

definition selfCaused :: "'n Placing \<Rightarrow> 'n DueWorkspaceFacts \<Rightarrow> string \<Rightarrow> RunHistory \<Rightarrow> bool" where
  "selfCaused placing due x h =
     (\<not> du_retryOnly due \<and> du_fingerprinted due \<and>
      (case map_of (rh_attempts h) (entryPath (du_entry due)) of Some attempt \<Rightarrow> at_qualifies attempt | None \<Rightarrow> False) \<and>
      (case changesOf (Some (entryPath (du_entry due))) (rh_changes h) of
         None \<Rightarrow> False
       | Some cs \<Rightarrow> \<not> cs_everywhere cs \<and>
           pathsInside placing (cs_edits cs) (du_entry due) (du_placement due) = Inr [] \<and>
           (case pathsInside placing (keys (cs_byJobs cs)) (du_entry due) (du_placement due) of
              Inl _ \<Rightarrow> False
            | Inr inside \<Rightarrow> x \<in> set inside \<and> x \<in> set (keys (cs_byJobs cs)))))"

lemma nextCount_selfCaused:
  assumes "selfCaused placing due x h"
  shows "\<exists>attempt caused. map_of (rh_attempts h) (entryPath (du_entry due)) = Some attempt \<and>
     x \<in> set (keys caused) \<and> nextCount placing due h = (followOn (at_startCount attempt) caused, h)"
proof -
  obtain attempt where a: "map_of (rh_attempts h) (entryPath (du_entry due)) = Some attempt" "at_qualifies attempt"
    using assms by (auto simp: selfCaused_def split: option.splits)
  obtain cs inside where c: "changesOf (Some (entryPath (du_entry due))) (rh_changes h) = Some cs"
    "\<not> cs_everywhere cs" "pathsInside placing (cs_edits cs) (du_entry due) (du_placement due) = Inr []"
    "pathsInside placing (keys (cs_byJobs cs)) (du_entry due) (du_placement due) = Inr inside"
    "x \<in> set inside" "x \<in> set (keys (cs_byJobs cs))"
    using assms by (auto simp: selfCaused_def split: option.splits sum.splits)
  let ?caused = "filter (\<lambda>(changed, _). changed \<in> set inside) (cs_byJobs cs)"
  have x: "x \<in> set (keys ?caused)"
    using c(5,6) by (auto simp: keys_def image_iff)
  then have "?caused \<noteq> []" by force
  then have "nextCount placing due h = (followOn (at_startCount attempt) ?caused, h)"
    using assms a c by (simp add: selfCaused_def nextCount_def editedInputs_def insideInputs_def Let_def)
  with a(1) x show ?thesis by blast
qed

lemma edited_selfCaused:
  "selfCaused placing due x h \<Longrightarrow>
     editedInputs placing due (changesOf (Some (entryPath (du_entry due))) (rh_changes h)) h = (False, h)"
  by (auto simp: selfCaused_def editedInputs_def insideInputs_def split: option.splits)

section \<open>Rounds of one workspace\<close>

record 'n SelfRound =
  sd_due :: "'n DueWorkspaceFacts"
  sd_revision :: nat
  sd_report :: HistoryReport
  sd_now :: nat

text \<open>A round decides the workspace and, when it is not held, runs it.\<close>

definition runRound :: "'n Placing \<Rightarrow> 'n SelfRound \<Rightarrow> RunHistory \<Rightarrow> RunHistory" where
  "runRound placing r h =
     (case decide placing (sd_due r) h of
        (True, h1) \<Rightarrow> h1
      | (False, h1) \<Rightarrow>
          (case began (du_entry (sd_due r)) (sd_revision r) h1 of
             (begun, h2) \<Rightarrow> snd (runEnded begun (sd_report r) (sd_now r) h2)))"

definition runRounds :: "'n Placing \<Rightarrow> 'n SelfRound list \<Rightarrow> RunHistory \<Rightarrow> RunHistory" where
  "runRounds placing = fold (runRound placing)"

lemma logEntry_simps [simp]:
  "rh_attempts (logEntry t h) = rh_attempts h" "rh_changes (logEntry t h) = rh_changes h"
  "rh_decided (logEntry t h) = rh_decided h" "rh_held (logEntry t h) = rh_held h"
  by (simp_all add: logEntry_def)

lemma onChanges_simps [simp]:
  "rh_attempts (onChanges f h) = rh_attempts h" "rh_decided (onChanges f h) = rh_decided h"
  "rh_held (onChanges f h) = rh_held h"
  by (simp_all add: onChanges_def)

lemma runRound_nearer:
  assumes "selfCaused placing (sd_due r) x h" and "entryPath (du_entry (sd_due r)) = wsPath"
    and "map_of (rh_attempts h) wsPath = Some attempt" and "sf_count (at_startCount attempt) < SELF_CHANGE_HOLD_COUNT"
  shows "isHeld wsPath (runRound placing r h) \<or>
     (\<exists>attempt'. map_of (rh_attempts (runRound placing r h)) wsPath = Some attempt' \<and>
        sf_count (at_startCount attempt') < SELF_CHANGE_HOLD_COUNT \<and>
        nearness x (at_startCount attempt) < nearness x (at_startCount attempt'))"
proof (cases "isHeld wsPath h")
  case True
  then have "decide placing (sd_due r) h = (True, h)"
    using edited_selfCaused [OF assms(1)] assms(2) by (simp add: decide_def Let_def)
  with True show ?thesis by (simp add: runRound_def)
next
  case False
  obtain caused where n: "x \<in> set (keys caused)"
    "nextCount placing (sd_due r) h = (followOn (at_startCount attempt) caused, h)"
    using nextCount_selfCaused [OF assms(1)] assms(2,3) by auto
  let ?c = "followOn (at_startCount attempt) caused"
  have d: "decide placing (sd_due r) h = decideCount placing (sd_due r) h"
    using False assms(2) by (simp add: decide_def Let_def)
  show ?thesis
  proof (cases "sf_count ?c < SELF_CHANGE_HOLD_COUNT")
    case True
    have "nearness x (at_startCount attempt) < 5"
      using assms(4) by (auto simp: nearness_def SELF_CHANGE_HOLD_COUNT_def)
    then have "nearness x (at_startCount attempt) < nearness x ?c" by (rule followOn_nearer [OF n(1)])
    with True show ?thesis
      using assms(2)
      by (auto simp: runRound_def d decideCount_def n(2) Let_def began_def runEnded_def recordEnd_def)
  next
    case False
    then show ?thesis
      using assms(2) by (simp add: runRound_def d decideCount_def n(2) Let_def isHeld_def keys_jset)
  qed
qed

lemma isHeld_stays:
  assumes "isHeld wsPath h" and "selfCaused placing (sd_due r) x h" and "entryPath (du_entry (sd_due r)) = wsPath"
  shows "isHeld wsPath (runRound placing r h)"
  using assms edited_selfCaused [OF assms(2)] by (simp add: runRound_def decide_def Let_def)

lemma runRounds_nearer:
  assumes "\<And>i. i < length rounds \<Longrightarrow> entryPath (du_entry (sd_due (rounds ! i))) = wsPath \<and>
      selfCaused placing (sd_due (rounds ! i)) x (runRounds placing (take i rounds) h)"
    and "map_of (rh_attempts h) wsPath = Some attempt" and "sf_count (at_startCount attempt) < SELF_CHANGE_HOLD_COUNT"
  shows "isHeld wsPath (runRounds placing rounds h) \<or>
     (\<exists>attempt'. map_of (rh_attempts (runRounds placing rounds h)) wsPath = Some attempt' \<and>
        sf_count (at_startCount attempt') < SELF_CHANGE_HOLD_COUNT \<and> length rounds \<le> nearness x (at_startCount attempt'))"
  using assms(1)
proof (induction rounds rule: rev_induct)
  case Nil
  then show ?case using assms(2,3) by (simp add: runRounds_def)
next
  case (snoc r rounds)
  let ?h = "runRounds placing rounds h"
  have step: "runRounds placing (rounds @ [r]) h = runRound placing r ?h" by (simp add: runRounds_def)
  have r: "entryPath (du_entry (sd_due r)) = wsPath" "selfCaused placing (sd_due r) x ?h"
    using snoc.prems [of "length rounds"] by simp_all
  have "entryPath (du_entry (sd_due (rounds ! i))) = wsPath \<and>
      selfCaused placing (sd_due (rounds ! i)) x (runRounds placing (take i rounds) h)" if "i < length rounds" for i
    using snoc.prems [of i] that by (simp add: nth_append)
  from snoc.IH [OF this] show ?case
  proof
    assume "isHeld wsPath ?h"
    from isHeld_stays [OF this r(2) r(1)] show ?thesis unfolding step by blast
  next
    assume "\<exists>attempt'. map_of (rh_attempts ?h) wsPath = Some attempt' \<and>
        sf_count (at_startCount attempt') < SELF_CHANGE_HOLD_COUNT \<and> length rounds \<le> nearness x (at_startCount attempt')"
    then obtain b where b: "map_of (rh_attempts ?h) wsPath = Some b"
      "sf_count (at_startCount b) < SELF_CHANGE_HOLD_COUNT" "length rounds \<le> nearness x (at_startCount b)" by blast
    from runRound_nearer [OF r(2,1) b(1,2)] b(3) show ?thesis unfolding step by fastforce
  qed
qed

section \<open>Property\<close>

text \<open>
  C10. The daemon does not run a workspace for ever on its own changes: once one whose count is below
  the limit of three has become due five times in a row only through changes its own jobs made, with one
  input among them each time and no edit inside its inputs, it is held.
\<close>

theorem self_changes_held:
  assumes "length rounds = 5"
    and "\<forall>i < 5. entryPath (du_entry (sd_due (rounds ! i))) = wsPath \<and>
      selfCaused placing (sd_due (rounds ! i)) x (runRounds placing (take i rounds) h)"
    and "map_of (rh_attempts h) wsPath = Some attempt" and "sf_count (at_startCount attempt) < 3"
  shows "isHeld wsPath (runRounds placing rounds h)"
proof (rule ccontr)
  assume "\<not> isHeld wsPath (runRounds placing rounds h)"
  moreover have s: "sf_count (at_startCount attempt) < SELF_CHANGE_HOLD_COUNT"
    using assms(4) by (simp add: SELF_CHANGE_HOLD_COUNT_def)
  have "entryPath (du_entry (sd_due (rounds ! i))) = wsPath \<and>
      selfCaused placing (sd_due (rounds ! i)) x (runRounds placing (take i rounds) h)" if "i < length rounds" for i
    using assms(2) that unfolding assms(1) by blast
  then have "isHeld wsPath (runRounds placing rounds h) \<or>
     (\<exists>attempt'. map_of (rh_attempts (runRounds placing rounds h)) wsPath = Some attempt' \<and>
        sf_count (at_startCount attempt') < SELF_CHANGE_HOLD_COUNT \<and> length rounds \<le> nearness x (at_startCount attempt'))"
    by (rule runRounds_nearer [OF _ assms(3) s])
  ultimately obtain b :: Attempt where "sf_count (at_startCount b) < SELF_CHANGE_HOLD_COUNT" "5 \<le> nearness x (at_startCount b)"
    unfolding assms(1) by blast
  then show False by (auto simp: nearness_def SELF_CHANGE_HOLD_COUNT_def split: if_splits)
qed

definition sampleDue :: "nat DueWorkspaceFacts" where
  "sampleDue = \<lparr>du_entry = WsFailed \<lparr>ws_path = ''.'', ws_directory = ''/r''\<rparr> sampleFailure, du_retryOnly = False,
     du_fingerprinted = True, du_placement = PlacedBy 0\<rparr>"

definition sampleReport :: HistoryReport where
  "sampleReport = \<lparr>hr_revision = 0, hr_stored = True, hr_changedWhileRunning = False,
     hr_window = \<lparr>jw_paths = [''out.json''], jw_causes = [], jw_startDigests = Some [], jw_endDigests = Some []\<rparr>,
     hr_notKept = None, hr_interruptedBy = None\<rparr>"

definition sampleRound :: "nat SelfRound" where
  "sampleRound = \<lparr>sd_due = sampleDue, sd_revision = 0, sd_report = sampleReport, sd_now = 1\<rparr>"

definition insidePlacing :: "nat Placing" where
  "insidePlacing build paths wsPath = Inr \<lparr>pp_inside = paths, pp_widened = []\<rparr>"

definition sampleHistory :: RunHistory where
  "sampleHistory = runRound insidePlacing sampleRound newRunHistory"

lemma sampleHistory_self:
  "\<forall>i < 5. entryPath (du_entry (sd_due (replicate 5 sampleRound ! i))) = ''.'' \<and>
     selfCaused insidePlacing (sd_due (replicate 5 sampleRound ! i)) ''out.json''
       (runRounds insidePlacing (take i (replicate 5 sampleRound)) sampleHistory)"
proof -
  have "list_all (\<lambda>i. entryPath (du_entry (sd_due (replicate 5 sampleRound ! i))) = ''.'' \<and>
     selfCaused insidePlacing (sd_due (replicate 5 sampleRound ! i)) ''out.json''
       (runRounds insidePlacing (take i (replicate 5 sampleRound)) sampleHistory)) [0..<5]"
    by code_simp
  then show ?thesis by (simp add: list_all_iff)
qed

lemma sampleAttempt:
  "\<exists>attempt. map_of (rh_attempts sampleHistory) ''.'' = Some attempt \<and> sf_count (at_startCount attempt) < 3"
proof -
  have "case map_of (rh_attempts sampleHistory) ''.'' of None \<Rightarrow> False | Some attempt \<Rightarrow> sf_count (at_startCount attempt) < 3"
    by code_simp
  then show ?thesis by (simp split: option.splits)
qed

text \<open>A workspace whose every run writes one of its own inputs comes to be held.\<close>

theorem self_changes_held_witness:
  "isHeld ''.'' (runRounds insidePlacing (replicate 5 sampleRound) sampleHistory)"
proof -
  obtain attempt where a: "map_of (rh_attempts sampleHistory) ''.'' = Some attempt" "sf_count (at_startCount attempt) < 3"
    using sampleAttempt by blast
  show ?thesis by (rule self_changes_held [OF _ sampleHistory_self a]) simp
qed

end
