(* ===== verification/Schedule.thy ===== *)
theory Schedule
  imports RoundSelection RunHistory
begin

text \<open>
  The scheduler's record of what it is doing with each confirmed workspace, and the read every answer
  gives of it (\<^verbatim>\<open>daemon/workspace-schedule.ts\<close>). What the class asks of its parts at a read
  is the record \<open>ScheduleParts\<close>; a promise of \<^verbatim>\<open>moved\<close> is the number its caller is known by,
  and \<^verbatim>\<open>during\<close> is the two moments its job is marked and settles.
\<close>

section \<open>The record\<close>

definition MAX_EXPLAINED :: nat where
  "MAX_EXPLAINED = 20"

definition MAX_CHOOSING_REASONS :: nat where
  "MAX_CHOOSING_REASONS = 3"

datatype RecordedRound = RecPending | RecPlanned nat "(string, DueReason) jsmap" | RecHeld string

record StoredVerdict =
  sv_runId :: string
  sv_notKept :: "NotKeptVerdict option"

record EndedRun =
  ed_runId :: "string option"
  ed_notKept :: "NotKeptVerdict option"
  ed_interruptedBy :: "string list option"

record ScheduleQuery =
  sq_revision :: nat
  sq_activity :: DaemonActivity
  sq_workspaces :: "WorkspaceDiscovery list"
  sq_latestRuns :: "(string, StoredRun) jsmap"
  sq_refusedRuns :: "(string, string) jsmap"
  sq_fingerprint :: "WorkspaceDiscovery \<Rightarrow> FingerprintResult"

record ScheduleParts =
  sa_confirmed :: "WorkspaceDiscovery \<Rightarrow> bool"
  sa_storedNothing :: "string \<Rightarrow> bool"
  sa_heldBy :: "string \<Rightarrow> JobsByPath option"
  sa_discoveryHeldBy :: "JobsByPath option"

record WorkspaceSchedule =
  sk_round :: RecordedRound
  sk_wait :: RoundWait
  sk_jobRevision :: "nat option"
  sk_explanation :: "RoundExplanation option"
  sk_chosen :: "(string, ChoosingReason NamedList) jsmap"
  sk_interrupted :: "string list"
  sk_interruptions :: "(string, string list) jsmap"
  sk_stored :: "(string, StoredVerdict) jsmap"
  sk_movedWaiters :: "nat list"
  sk_resolved :: "nat list"

definition newSchedule :: WorkspaceSchedule where
  "newSchedule = \<lparr>sk_round = RecPending, sk_wait = WaitFirstReconciliation, sk_jobRevision = None,
     sk_explanation = None, sk_chosen = [], sk_interrupted = [], sk_interruptions = [], sk_stored = [],
     sk_movedWaiters = [], sk_resolved = []\<rparr>"

definition awaitMoved :: "nat \<Rightarrow> WorkspaceSchedule \<Rightarrow> WorkspaceSchedule" where
  "awaitMoved caller s = s\<lparr>sk_movedWaiters := sk_movedWaiters s @ [caller]\<rparr>"

text \<open>\<^verbatim>\<open>#move\<close>.\<close>

definition move :: "WorkspaceSchedule \<Rightarrow> WorkspaceSchedule" where
  "move s = s\<lparr>sk_movedWaiters := [], sk_resolved := sk_resolved s @ sk_movedWaiters s\<rparr>"

definition pending :: "RoundWait \<Rightarrow> WorkspaceSchedule \<Rightarrow> WorkspaceSchedule" where
  "pending waitsFor s = move (s\<lparr>sk_wait := waitsFor, sk_round := RecPending\<rparr>)"

definition waiting :: "RoundWait \<Rightarrow> nat \<Rightarrow> WorkspaceSchedule \<Rightarrow> WorkspaceSchedule" where
  "waiting waitsFor revision s =
     (let s1 = move s in
      case sk_round s of
        RecPlanned planned _ \<Rightarrow> (if planned = revision then s1\<lparr>sk_wait := waitsFor\<rparr> else pending waitsFor s1)
      | _ \<Rightarrow> pending waitsFor s1)"

definition planned :: "nat \<Rightarrow> (string, DueReason) jsmap \<Rightarrow> WorkspaceSchedule \<Rightarrow> WorkspaceSchedule" where
  "planned revision due s = move (s\<lparr>sk_round := RecPlanned revision due, sk_interrupted := []\<rparr>)"

definition heldRound :: "string \<Rightarrow> WorkspaceSchedule \<Rightarrow> WorkspaceSchedule" where
  "heldRound failure s = move (s\<lparr>sk_round := RecHeld failure\<rparr>)"

definition duringBegan :: "nat \<Rightarrow> WorkspaceSchedule \<Rightarrow> WorkspaceSchedule" where
  "duringBegan revision s = move (s\<lparr>sk_jobRevision := Some revision\<rparr>)"

definition duringSettled :: "WorkspaceSchedule \<Rightarrow> WorkspaceSchedule" where
  "duringSettled s = move (s\<lparr>sk_jobRevision := None\<rparr>)"

text \<open>\<^verbatim>\<open>#leaveDue\<close> and \<^verbatim>\<open>#requeue\<close>.\<close>

definition leaveDue :: "string \<Rightarrow> WorkspaceSchedule \<Rightarrow> WorkspaceSchedule" where
  "leaveDue path s =
     (case sk_round s of
        RecPlanned revision due \<Rightarrow> s\<lparr>sk_round := RecPlanned revision (jdel path due)\<rparr>
      | _ \<Rightarrow> s)"

definition requeue :: "string \<Rightarrow> DueReason \<Rightarrow> WorkspaceSchedule \<Rightarrow> WorkspaceSchedule" where
  "requeue path reason s =
     (case sk_round s of
        RecPlanned revision due \<Rightarrow> s\<lparr>sk_round := RecPlanned revision (jset path reason due)\<rparr>
      | _ \<Rightarrow> s)"

definition scheduleRunEnded :: "string \<Rightarrow> EndedRun \<Rightarrow> bool \<Rightarrow> WorkspaceSchedule \<Rightarrow> WorkspaceSchedule" where
  "scheduleRunEnded path run owedAgain s =
     (let s1 = (if owedAgain \<and> ed_runId run \<noteq> None then requeue path DueNotFingerprinted s
                else if \<not> owedAgain then leaveDue path s else s);
          s2 = (case ed_runId run of
              None \<Rightarrow> s1
            | Some runId \<Rightarrow> s1\<lparr>sk_stored := jset path \<lparr>sv_runId = runId, sv_notKept = ed_notKept run\<rparr> (sk_stored s1)\<rparr>);
          s3 = move s2;
          s4 = s3\<lparr>sk_interruptions := jdel path (sk_interruptions s3)\<rparr>
      in case ed_interruptedBy run of
           None \<Rightarrow> s4
         | Some paths \<Rightarrow> s4\<lparr>sk_interruptions := jset path paths (sk_interruptions s4),
             sk_interrupted := jadd path (sk_interrupted s4)\<rparr>)"

definition scheduleRunThrew :: "string \<Rightarrow> WorkspaceSchedule \<Rightarrow> WorkspaceSchedule" where
  "scheduleRunThrew path s =
     (let s1 = leaveDue path s in move (s1\<lparr>sk_interruptions := jdel path (sk_interruptions s1)\<rparr>))"

section \<open>Why the selection chose a workspace\<close>

definition fallbackKey :: "string \<Rightarrow> TriggerKind \<Rightarrow> string" where
  "fallbackKey path trigger = stringify (JArr [JStr path, JStr (triggerText trigger)])"

definition choosingReasons :: "ChangedPathReport \<Rightarrow> (string, FallbackScope) jsmap \<Rightarrow> (string \<times> ChoosingReason) list" where
  "choosingReasons report scopes =
     flat_map (\<lambda>selection. map (\<lambda>trigger.
         (ps_workspace selection,
          \<lparr>cs_path = cp_path report, cs_trigger = trigger, cs_scope = map_of scopes (fallbackKey (cp_path report) trigger)\<rparr>))
       (uniq (map re_trigger (ps_reasons selection)))) (cp_selected report)"

definition addChosen :: "string list \<Rightarrow> nat \<Rightarrow> string \<times> ChoosingReason \<Rightarrow> (string, ChoosingReason NamedList) jsmap \<Rightarrow>
    (string, ChoosingReason NamedList) jsmap" where
  "addChosen namedFallbacks position chosen index =
     (case chosen of (workspace, reason) \<Rightarrow>
       (let entry = (case map_of index workspace of Some e \<Rightarrow> e | None \<Rightarrow> \<lparr>nl_named = [], nl_more = 0\<rparr>);
            nameable = (position < MAX_EXPLAINED \<and>
              (cs_scope reason = None \<or> fallbackKey (cs_path reason) (cs_trigger reason) \<in> set namedFallbacks))
        in jset workspace
             (if nameable \<and> length (nl_named entry) < MAX_CHOOSING_REASONS
              then entry\<lparr>nl_named := nl_named entry @ [reason]\<rparr>
              else entry\<lparr>nl_more := nl_more entry + 1\<rparr>) index))"

definition choosingIndex :: "RoundExplanation \<Rightarrow> (string, ChoosingReason NamedList) jsmap" where
  "choosingIndex explanation =
     (case explanation of
        RoundNotMade _ _ _ \<Rightarrow> []
      | RoundMade _ paths fallbacks _ \<Rightarrow>
          (let scopes = jmap_of (map (\<lambda>f. (fallbackKey (bf_path f) (bf_trigger f), bf_scope f)) fallbacks);
               namedFallbacks = map (\<lambda>f. fallbackKey (bf_path f) (bf_trigger f)) (take MAX_EXPLAINED fallbacks)
           in fold (\<lambda>(position, report). fold (addChosen namedFallbacks position) (choosingReasons report scopes))
                (zip [0..<length paths] paths) []))"

definition selected :: "RoundExplanation \<Rightarrow> WorkspaceSchedule \<Rightarrow> WorkspaceSchedule" where
  "selected explanation s =
     move (s\<lparr>sk_explanation := Some explanation, sk_chosen := choosingIndex explanation\<rparr>)"

section \<open>What an answer reads\<close>

definition selfChangedList :: "JobsByPath \<Rightarrow> SelfChangedPath NamedList" where
  "selfChangedList shared =
     mappedList shared MAX_NAMED_CHANGES
       (\<lambda>(path, jobs). \<lparr>sp_path = path, sp_jobs = mappedList jobs MAX_NAMED_CHANGES (\<lambda>job. job)\<rparr>)"

definition explainedStep :: "ChainStep \<Rightarrow> ExplainedStep" where
  "explainedStep step = \<lparr>es_workspace = st_workspace step, es_via = st_via step, es_detail = cutReason (st_detail step)\<rparr>"

definition explainedSelection :: "PathSelection \<Rightarrow> ExplainedSelection" where
  "explainedSelection selection =
     \<lparr>el_workspace = ps_workspace selection,
      el_reasons = map (\<lambda>reason. \<lparr>er_path = re_path reason, er_trigger = re_trigger reason, er_from = re_from reason,
        er_steps = map explainedStep (re_steps reason)\<rparr>) (ps_reasons selection)\<rparr>"

definition explainedPath :: "ChangedPathReport \<Rightarrow> ExplainedPath" where
  "explainedPath report =
     \<lparr>ep_path = cp_path report, ep_owner = cp_owner report, ep_triggers = cp_triggers report,
      ep_selected = mappedList (cp_selected report) MAX_EXPLAINED explainedSelection,
      ep_notRunnable = mappedList (cp_notRunnable report) MAX_EXPLAINED
        (\<lambda>excluded. \<lparr>en_workspace = nr_workspace excluded, en_reason = cutReason (nr_reason excluded)\<rparr>),
      ep_nothingSelected = map_option (\<lambda>(kind, detail). (kind, cutReason detail)) (cp_nothingSelected report)\<rparr>"

definition explainedFallback :: "BroadFallback \<Rightarrow> ExplainedFallback" where
  "explainedFallback fallback =
     \<lparr>ef_path = bf_path fallback, ef_trigger = bf_trigger fallback, ef_scope = bf_scope fallback,
      ef_workspaces = boundedList (bf_workspaces fallback) MAX_EXPLAINED\<rparr>"

text \<open>\<^verbatim>\<open>#latestSelection\<close>.\<close>

definition latestSelection :: "WorkspaceSchedule \<Rightarrow> SelectionExplanation" where
  "latestSelection s =
     (case sk_explanation s of
        None \<Rightarrow> NoRoundYet
      | Some (RoundNotMade revision kind reason) \<Rightarrow> SelectionNotMade revision kind (cutReason reason)
      | Some (RoundMade revision paths fallbacks c) \<Rightarrow>
          SelectionMade revision (mappedList paths MAX_EXPLAINED explainedPath)
            (mappedList fallbacks MAX_EXPLAINED explainedFallback) c)"

text \<open>\<^verbatim>\<open>round\<close>.\<close>

definition roundAt :: "nat \<Rightarrow> WorkspaceSchedule \<Rightarrow> RoundFacts" where
  "roundAt revision s =
     (let waitsFor = (case sk_jobRevision s of
          Some job \<Rightarrow> (if job \<noteq> revision then WaitJobInProgress else sk_wait s)
        | None \<Rightarrow> sk_wait s) in
      case sk_round s of
        RecHeld failure \<Rightarrow> RoundHeld (cutReason failure)
      | RecPlanned plannedAt _ \<Rightarrow> (if plannedAt = revision then RoundPlanned revision else RoundPending waitsFor)
      | RecPending \<Rightarrow> RoundPending waitsFor)"

text \<open>\<^verbatim>\<open>#verdictOf\<close>.\<close>

definition verdictOf :: "StoredRun \<Rightarrow> WorkspaceSchedule \<Rightarrow> NotKeptVerdict option" where
  "verdictOf run s =
     (case map_of (sk_stored s) (ws_path (sr_workspace run)) of
        Some stored \<Rightarrow> (if sv_runId stored = sr_runId run then sv_notKept stored else None)
      | None \<Rightarrow> None)"

definition invalidation :: "StoredRun \<Rightarrow> WorkspaceSchedule \<Rightarrow> CutReason option" where
  "invalidation run s =
     (case verdictOf run s of
        Some notKept \<Rightarrow> (if labelsInvalidated (Some notKept) then Some (cutReason (nk_reason notKept)) else None)
      | None \<Rightarrow> None)"

text \<open>\<^verbatim>\<open>#dueFacts\<close>.\<close>

definition dueFacts :: "DueReason \<Rightarrow> StoredRun option \<Rightarrow> FingerprintResult \<Rightarrow> WorkspaceSchedule \<Rightarrow> DueFacts" where
  "dueFacts due latest print s =
     (if due = DueNoCurrentFingerprint then
        (case print of
           Digest _ \<Rightarrow> \<lparr>df_kind = Due due, df_detail = None\<rparr>
         | NoDigest reason \<Rightarrow> \<lparr>df_kind = Due due, df_detail = Some (cutReason reason)\<rparr>)
      else if due \<noteq> DueNotFingerprinted then \<lparr>df_kind = Due due, df_detail = None\<rparr>
      else case latest of
        None \<Rightarrow> \<lparr>df_kind = Due due, df_detail = None\<rparr>
      | Some run \<Rightarrow>
          (case verdictOf run s of
             None \<Rightarrow> \<lparr>df_kind = EarlierDaemonLife, df_detail = None\<rparr>
           | Some notKept \<Rightarrow>
               \<lparr>df_kind = (if labelsInvalidated (Some notKept) then Invalidated else Due due),
                df_detail = Some (cutReason (nk_reason notKept))\<rparr>))"

definition idleReason :: "RoundFacts \<Rightarrow> bool \<Rightarrow> NotSelfChangingReason" where
  "idleReason round retrying =
     (case round of
        RoundHeld _ \<Rightarrow> RoundHeldReason
      | _ \<Rightarrow> (if retrying then RetryPending else NoRunUntilInputChange))"

text \<open>\<^verbatim>\<open>#dueAt\<close>.\<close>

definition dueAt :: "string \<Rightarrow> RoundFacts \<Rightarrow> WorkspaceSchedule \<Rightarrow> DueReason option" where
  "dueAt path round s =
     (case (round, sk_round s) of
        (RoundPlanned _, RecPlanned _ due) \<Rightarrow> map_of due path
      | _ \<Rightarrow> None)"

text \<open>\<^verbatim>\<open>#notRunning\<close>.\<close>

definition notRunning :: "ScheduleParts \<Rightarrow> string \<Rightarrow> RoundFacts \<Rightarrow> StoredRun option \<Rightarrow> FingerprintResult \<Rightarrow>
    ScheduleQuery \<Rightarrow> WorkspaceSchedule \<Rightarrow> NotRunning option" where
  "notRunning parts path round latest current query s =
     (case round of
        RoundPending _ \<Rightarrow> None
      | _ \<Rightarrow>
          (let stale = staleReason latest (fingerprintDigest (Some current)) (jhas (sq_refusedRuns query) path) in
           case (case stale of Some reason \<Rightarrow> Some reason | None \<Rightarrow> retryReason latest) of
             None \<Rightarrow> None
           | Some due \<Rightarrow>
               (let facts = dueFacts due latest current s in
                case sa_heldBy parts path of
                  Some shared \<Rightarrow> Some (SelfChanging facts (selfChangedList shared))
                | None \<Rightarrow>
                    Some (NotSelfChanging
                      (idleReason round ((case round of RoundPlanned _ \<Rightarrow> True | _ \<Rightarrow> False) \<and>
                         retryOwed latest stale (sa_storedNothing parts path))) facts))))"

text \<open>\<^verbatim>\<open>#execution\<close>.\<close>

definition executionState :: "ScheduleParts \<Rightarrow> WorkspaceDiscovery \<Rightarrow> RoundFacts \<Rightarrow> ScheduleQuery \<Rightarrow> WorkspaceSchedule \<Rightarrow>
    ExecutionState" where
  "executionState parts entry round query s =
     (let path = entryPath entry;
          interruptedBy = map_option (\<lambda>paths. boundedList paths MAX_NAMED_CHANGES) (map_of (sk_interruptions s) path);
          latest = map_of (sq_latestRuns query) path;
          print = sq_fingerprint query entry
      in if sq_activity query = Running path then ExecutionRunning
         else case (if path \<in> set (sk_interrupted s) then interruptedBy else None) of
           Some paths \<Rightarrow> ExecutionInterrupted paths
         | None \<Rightarrow>
             (case dueAt path round s of
                Some due \<Rightarrow>
                  ExecutionQueued (dueFacts due latest print s)
                    (case map_of (sk_chosen s) path of Some chosen \<Rightarrow> chosen | None \<Rightarrow> \<lparr>nl_named = [], nl_more = 0\<rparr>)
                    interruptedBy
              | None \<Rightarrow> ExecutionIdle (notRunning parts path round latest print query s)))"

definition readSchedule :: "ScheduleParts \<Rightarrow> ScheduleQuery \<Rightarrow> WorkspaceSchedule \<Rightarrow> ScheduleFacts \<times> SelectionExplanation" where
  "readSchedule parts query s =
     (let round = roundAt (sq_revision query) s in
      (\<lparr>sf_round = round,
        sf_workspaces = map (\<lambda>entry. \<lparr>we_workspacePath = entryPath entry, we_state = executionState parts entry round query s\<rparr>)
          (filter (sa_confirmed parts) (sq_workspaces query)),
        sf_selfChangingDiscovery = (case round of
            RoundPending _ \<Rightarrow> None
          | _ \<Rightarrow> map_option selfChangedList (sa_discoveryHeldBy parts))\<rparr>,
       latestSelection s))"

section \<open>The reasons are all counted\<close>

definition namedReasons :: "string \<Rightarrow> (string, ChoosingReason NamedList) jsmap \<Rightarrow> ChoosingReason list" where
  "namedReasons workspace index = (case map_of index workspace of None \<Rightarrow> [] | Some e \<Rightarrow> nl_named e)"

definition reasonTotal :: "string \<Rightarrow> (string, ChoosingReason NamedList) jsmap \<Rightarrow> nat" where
  "reasonTotal workspace index =
     (case map_of index workspace of None \<Rightarrow> 0 | Some e \<Rightarrow> length (nl_named e) + nl_more e)"

definition reasonsFor :: "string \<Rightarrow> (string \<times> ChoosingReason) list \<Rightarrow> ChoosingReason list" where
  "reasonsFor workspace chosen = map snd (filter (\<lambda>p. fst p = workspace) chosen)"

lemma addChosen_total:
  "reasonTotal workspace (addChosen names position chosen index) =
     reasonTotal workspace index + (if fst chosen = workspace then 1 else 0)"
  by (auto simp: addChosen_def reasonTotal_def Let_def split: prod.splits option.splits)

lemma addChosen_named:
  "length (namedReasons workspace index) \<le> MAX_CHOOSING_REASONS \<Longrightarrow>
     length (namedReasons workspace (addChosen names position chosen index)) \<le> MAX_CHOOSING_REASONS"
  by (auto simp: addChosen_def namedReasons_def Let_def split: prod.splits option.splits)

lemma addChosen_named_subset:
  "set (namedReasons workspace (addChosen names position chosen index)) \<subseteq>
     set (namedReasons workspace index) \<union> set (reasonsFor workspace [chosen])"
  by (auto simp: addChosen_def namedReasons_def reasonsFor_def Let_def split: prod.splits option.splits if_splits)

lemma fold_addChosen:
  "reasonTotal workspace (fold (addChosen names position) chosen index) =
     reasonTotal workspace index + length (reasonsFor workspace chosen)"
  "length (namedReasons workspace index) \<le> MAX_CHOOSING_REASONS \<Longrightarrow>
     length (namedReasons workspace (fold (addChosen names position) chosen index)) \<le> MAX_CHOOSING_REASONS"
  "set (namedReasons workspace (fold (addChosen names position) chosen index)) \<subseteq>
     set (namedReasons workspace index) \<union> set (reasonsFor workspace chosen)"
proof (induction chosen arbitrary: index)
  case (Cons c chosen)
  { case 1 show ?case by (simp add: Cons.IH(1) addChosen_total reasonsFor_def) }
  { case 2 then show ?case by (simp add: Cons.IH(2) addChosen_named) }
  { case 3
    have "set (reasonsFor workspace (c # chosen)) = set (reasonsFor workspace [c]) \<union> set (reasonsFor workspace chosen)"
      by (auto simp: reasonsFor_def)
    then show ?case
      using Cons.IH(3) [of "addChosen names position c index"] addChosen_named_subset [of workspace names position c index]
      by auto }
qed (simp_all add: reasonsFor_def)

definition allChoosing :: "ChangedPathReport list \<Rightarrow> (string, FallbackScope) jsmap \<Rightarrow> (string \<times> ChoosingReason) list" where
  "allChoosing paths scopes = flat_map (\<lambda>report. choosingReasons report scopes) paths"

lemma fold_reports:
  "reasonTotal workspace (fold (\<lambda>(position, report). fold (addChosen names position) (choosingReasons report scopes)) ps index) =
     reasonTotal workspace index + length (reasonsFor workspace (allChoosing (map snd ps) scopes))"
  "length (namedReasons workspace index) \<le> MAX_CHOOSING_REASONS \<Longrightarrow>
     length (namedReasons workspace (fold (\<lambda>(position, report).
       fold (addChosen names position) (choosingReasons report scopes)) ps index)) \<le> MAX_CHOOSING_REASONS"
proof (induction ps arbitrary: index)
  case (Cons p ps)
  { case 1 show ?case
      by (simp add: Cons.IH(1) fold_addChosen(1) allChoosing_def reasonsFor_def split: prod.splits) }
  { case 2 then show ?case
      by (simp add: Cons.IH(2) fold_addChosen(2) split: prod.splits) }
qed (simp_all add: allChoosing_def reasonsFor_def)

definition fallbackScopes :: "BroadFallback list \<Rightarrow> (string, FallbackScope) jsmap" where
  "fallbackScopes fallbacks = jmap_of (map (\<lambda>f. (fallbackKey (bf_path f) (bf_trigger f), bf_scope f)) fallbacks)"

section \<open>Properties\<close>

text \<open>
  A queued workspace's answer names at most three of the reasons the latest selection chose it, and
  counts every other: what is named and what is left out add up to one reason for each changed path and
  each distinct trigger of it that selected the workspace.
\<close>

theorem choosing_reasons_counted:
  "length (namedReasons workspace (choosingIndex (RoundMade revision paths fallbacks c))) \<le> 3 \<and>
   reasonTotal workspace (choosingIndex (RoundMade revision paths fallbacks c)) =
     length (reasonsFor workspace (allChoosing paths (fallbackScopes fallbacks)))"
  using fold_reports [where workspace = workspace and scopes = "fallbackScopes fallbacks" and index = "[]"
      and ps = "zip [0..<length paths] paths"
      and names = "map (\<lambda>f. fallbackKey (bf_path f) (bf_trigger f)) (take MAX_EXPLAINED fallbacks)"]
  by (simp add: choosingIndex_def Let_def fallbackScopes_def MAX_CHOOSING_REASONS_def namedReasons_def reasonTotal_def)

text \<open>
  An answer says nothing of an idle workspace exactly when a round is pending, or its latest run is
  current and neither failed nor crashed: while a round is planned or held, a workspace that is not
  current is never idle without a reason.
\<close>

theorem idle_without_reason_iff:
  "notRunning parts path round latest current query s = None \<longleftrightarrow>
     (\<exists>waitsFor. round = RoundPending waitsFor) \<or>
     (\<exists>run. latest = Some run \<and> recordFreshness run (fingerprintDigest (Some current)) = Current \<and>
        (\<forall>error. sr_run run \<noteq> FailedRun error) \<and> (\<forall>error. sr_run run \<noteq> CrashedRun error))"
  by (cases latest)
    (auto simp: notRunning_def staleReason_def retryReason_def Let_def
      split: RoundFacts.splits option.splits WorkspaceRun.splits if_splits)

end
