(* ===== verification/DiscoveryHistory.thy ===== *)
theory DiscoveryHistory
  imports RunHistory Answers
begin

text \<open>
  What the scheduler remembers of the last discovery it began (\<^verbatim>\<open>daemon/discovery-history.ts\<close>):
  the revision it was tried at, whether it stored nothing, the once-more discovery it is owed, its count
  of changes made only by the daemon's own jobs, and the hold such a count ends in. The change record is
  the one the run history owns, so an operation that records there takes and returns that history too. A
  time of \<^verbatim>\<open>performance.now()\<close> is a number of milliseconds, an argument of what reads it.
\<close>

section \<open>The discovery in effect\<close>

record DiscoverReport =
  dr_window :: "InputDigests JobWindow"
  dr_stored :: bool
  dr_changedWhileRunning :: bool

record DiscoveryInEffect =
  ie_current :: bool
  ie_fingerprinted :: bool

definition discoveryInEffect :: "LatestResults \<Rightarrow> CurrentInputs \<Rightarrow> DiscoveryInEffect option" where
  "discoveryInEffect results inputs =
     (case lr_discovery results of
        None \<Rightarrow> None
      | Some discovery \<Rightarrow>
          (let print = ci_discoveryFingerprint inputs (st_discovery discovery) in
           Some \<lparr>ie_current = (recordFreshness discovery (fingerprintDigest (Some print)) = Current),
             ie_fingerprinted = fingerprintOk print\<rparr>))"

section \<open>The history\<close>

record DiscoveryAttempt =
  da_revision :: nat
  da_stored :: bool
  da_onceMoreFrom :: "nat option"
  da_startCount :: SelfChangeCount

record DiscoveryHistory =
  dh_attempt :: "DiscoveryAttempt option"
  dh_retry :: bool
  dh_decided :: SelfChangeCount
  dh_held :: "JobsByPath option"
  dh_latestHold :: "JobsByPath option"
  dh_log :: "string list"

definition newDiscoveryHistory :: DiscoveryHistory where
  "newDiscoveryHistory = \<lparr>dh_attempt = None, dh_retry = False, dh_decided = NO_COUNT, dh_held = None,
     dh_latestHold = None, dh_log = []\<rparr>"

definition discoveryEntry :: "string \<Rightarrow> DiscoveryHistory \<Rightarrow> DiscoveryHistory" where
  "discoveryEntry text h = h\<lparr>dh_log := dh_log h @ [text]\<rparr>"

definition untilTime :: "nat \<Rightarrow> nat \<Rightarrow> nat" where
  "untilTime now time = time - now"

text \<open>No record reads as an edit, as does a change that reaches every input.\<close>

definition unedited :: "ChangeSets option \<Rightarrow> bool" where
  "unedited changes = (case changes of None \<Rightarrow> False | Some cs \<Rightarrow> \<not> cs_everywhere cs \<and> cs_edits cs = [])"

definition releaseCause :: "DiscoveryInEffect option \<Rightarrow> ChangeSets option \<Rightarrow> string option" where
  "releaseCause inEffect changes =
     (if inEffect = None then Some ''no discovery is in effect''
      else if unedited changes then None
      else Some ''an edit or a change the daemon cannot attribute reached the inputs'')"

text \<open>\<^verbatim>\<open>#hold\<close>.\<close>

definition holdDiscovery :: "JobsByPath \<Rightarrow> string \<Rightarrow> DiscoveryHistory \<Rightarrow> DiscoveryHistory" where
  "holdDiscovery shared text h =
     discoveryEntry (text @ '': '' @ changesText shared)
       (h\<lparr>dh_held := Some shared, dh_latestHold := Some shared, dh_retry := False\<rparr>)"

definition UNTIL_EDIT :: string where
  "UNTIL_EDIT = ''begins no more until an edit or a change the daemon cannot attribute reaches the inputs''"

definition DISCOVERY_HELD_ENTRY :: string where
  "DISCOVERY_HELD_ENTRY = ''held: the discovery '' @ UNTIL_EDIT @
     '', since the daemon's own runs and discoveries changed the same inputs each of the '' @
     show_nat SELF_CHANGE_HOLD_COUNT @ '' times in a row it became due''"

definition HELD_AGAIN_ENTRY :: string where
  "HELD_AGAIN_ENTRY = ''held again: the discovery '' @ UNTIL_EDIT @
     '', since the daemon's own runs and discoveries changed again inputs its latest hold named''"

text \<open>\<^verbatim>\<open>#holdAt\<close>.\<close>

definition holdAt :: "SelfChangeCount \<Rightarrow> DiscoveryHistory \<Rightarrow> DiscoveryHistory" where
  "holdAt c h =
     (if sf_count c \<ge> SELF_CHANGE_HOLD_COUNT then holdDiscovery (sf_shared c) DISCOVERY_HELD_ENTRY h
      else case dh_latestHold h of
        None \<Rightarrow> h
      | Some latest \<Rightarrow>
          (if sf_count c \<noteq> 1 then h
           else (let again = sharedPaths latest (sf_shared c) in
             if again \<noteq> [] then holdDiscovery again HELD_AGAIN_ENTRY h else h)))"

text \<open>\<^verbatim>\<open>#nextCount\<close>.\<close>

definition discoveryNextCount :: "DiscoveryInEffect \<Rightarrow> ChangeSets option \<Rightarrow> DiscoveryHistory \<Rightarrow> SelfChangeCount" where
  "discoveryNextCount inEffect changes h =
     (case dh_attempt h of
        None \<Rightarrow> NO_COUNT
      | Some attempt \<Rightarrow>
          (if \<not> da_stored attempt \<or> \<not> ie_fingerprinted inEffect then NO_COUNT
           else case changes of
             None \<Rightarrow> NO_COUNT
           | Some cs \<Rightarrow>
               (if \<not> unedited changes \<or> cs_byJobs cs = [] then NO_COUNT
                else followOn (da_startCount attempt) (cs_byJobs cs))))"

definition decideUnheld :: "DiscoveryInEffect option \<Rightarrow> ChangeSets option \<Rightarrow> DiscoveryHistory \<Rightarrow> DiscoveryHistory" where
  "decideUnheld inEffect changes h =
     (let decided = (case inEffect of
          None \<Rightarrow> NO_COUNT
        | Some effect \<Rightarrow> (if ie_current effect then NO_COUNT else discoveryNextCount effect changes h))
      in holdAt decided (h\<lparr>dh_decided := decided\<rparr>))"

definition decideDiscovery :: "DiscoveryInEffect option \<Rightarrow> RunHistory \<Rightarrow> DiscoveryHistory \<Rightarrow> DiscoveryHistory" where
  "decideDiscovery inEffect runs h =
     (let changes = discoveryChanges runs in
      if dh_held h = None then decideUnheld inEffect changes h
      else case releaseCause inEffect changes of
        None \<Rightarrow> h
      | Some cause \<Rightarrow>
          decideUnheld inEffect changes
            (discoveryEntry (''the discovery is no longer held, since '' @ cause) (h\<lparr>dh_held := None\<rparr>)))"

definition armRetry :: "bool \<Rightarrow> DiscoveryHistory \<Rightarrow> bool \<times> DiscoveryHistory" where
  "armRetry listsFailed h =
     (let retry = (dh_held h = None \<and>
          ((case dh_attempt h of None \<Rightarrow> False | Some attempt \<Rightarrow> \<not> da_stored attempt) \<or> listsFailed))
      in (retry, h\<lparr>dh_retry := retry\<rparr>))"

text \<open>\<^verbatim>\<open>#restartedWait\<close>.\<close>

definition restartedWait :: "nat \<Rightarrow> nat \<Rightarrow> DiscoveryHistory \<Rightarrow> nat" where
  "restartedWait now changedAt h =
     (case Option.bind (dh_attempt h) da_onceMoreFrom of
        Some onceMore \<Rightarrow>
          (if changedAt < onceMore then untilTime now (changedAt + MODIFIED_TIME_RESOLUTION_MS) else 0)
      | None \<Rightarrow> 0)"

definition dueDiscovery :: "nat \<Rightarrow> nat \<Rightarrow> nat \<Rightarrow> DiscoveryInEffect option \<Rightarrow> DiscoveryHistory \<Rightarrow> nat option" where
  "dueDiscovery now changedAt revision inEffect h =
     (let notCurrent = (case inEffect of None \<Rightarrow> True | Some effect \<Rightarrow> \<not> ie_current effect) in
      if dh_held h \<noteq> None then None
      else if map_option da_revision (dh_attempt h) \<noteq> Some revision then
        (if dh_retry h \<or> notCurrent then Some (restartedWait now changedAt h) else None)
      else case Option.bind (dh_attempt h) da_onceMoreFrom of
        Some onceMore \<Rightarrow>
          (if notCurrent then Some (untilTime now onceMore) else if dh_retry h then Some 0 else None)
      | None \<Rightarrow> (if dh_retry h then Some 0 else None))"

section \<open>A begun discovery\<close>

record BegunDiscovery =
  bd_revision :: nat
  bd_isOnceMore :: bool
  bd_startCount :: SelfChangeCount
  bd_before :: "DiscoveryAttempt option"
  bd_retry :: bool

definition beganDiscovery :: "nat \<Rightarrow> RunHistory \<times> DiscoveryHistory \<Rightarrow> BegunDiscovery \<times> RunHistory \<times> DiscoveryHistory" where
  "beganDiscovery revision hs =
     (case hs of (runs, h) \<Rightarrow>
       (let before = dh_attempt h;
            isOnceMore = (case before of None \<Rightarrow> False
              | Some b \<Rightarrow> da_onceMoreFrom b \<noteq> None \<and> da_revision b = revision)
        in (\<lparr>bd_revision = revision, bd_isOnceMore = isOnceMore, bd_startCount = dh_decided h, bd_before = before,
              bd_retry = dh_retry h\<rparr>,
            discoveryBegan runs,
            h\<lparr>dh_retry := False, dh_attempt := Some \<lparr>da_revision = revision, da_stored = False,
              da_onceMoreFrom = None, da_startCount = dh_decided h\<rparr>\<rparr>)))"

text \<open>\<^verbatim>\<open>#ended\<close>; \<open>revision\<close> is the input revision when the report comes.\<close>

definition recordDiscoveryEnd :: "nat \<Rightarrow> nat \<Rightarrow> BegunDiscovery \<Rightarrow> DiscoverReport \<Rightarrow> DiscoveryHistory \<Rightarrow> DiscoveryHistory" where
  "recordDiscoveryEnd now revision begun report h =
     (let unmoved = (dr_stored report \<and> dr_changedWhileRunning report \<and> bd_revision begun = revision);
          origin = ''because an input or a listed file changed while it ran at input revision '' @
            show_nat (bd_revision begun) @ '', which the change did not move, so '';
          h1 = (if unmoved \<and> bd_isOnceMore begun then
              discoveryEntry (''the discovery was stored not fingerprinted again '' @ origin @
                ''no discovery begins at that revision again, apart from the periodic reconciliation's retry, until the input revision moves'') h
            else if unmoved then
              discoveryEntry (''the discovery was stored not fingerprinted '' @ origin @
                ''it is discovered once more at that revision, no sooner than '' @
                show_nat MODIFIED_TIME_RESOLUTION_MS @ '' ms after it ended'') h
            else h)
      in h1\<lparr>dh_attempt := Some \<lparr>da_revision = bd_revision begun, da_stored = dr_stored report,
           da_onceMoreFrom = (if unmoved \<and> \<not> bd_isOnceMore begun then Some (now + MODIFIED_TIME_RESOLUTION_MS) else None),
           da_startCount = bd_startCount begun\<rparr>\<rparr>)"

definition endedDiscovery :: "nat \<Rightarrow> nat \<Rightarrow> BegunDiscovery \<Rightarrow> DiscoverReport \<Rightarrow> RunHistory \<times> DiscoveryHistory \<Rightarrow>
    RunHistory \<times> DiscoveryHistory" where
  "endedDiscovery now revision begun report hs =
     (case hs of (runs, h) \<Rightarrow>
       (discoveryEnded (dr_window report) runs, recordDiscoveryEnd now revision begun report h))"

definition notBegunDiscovery :: "BegunDiscovery \<Rightarrow> RunHistory \<times> DiscoveryHistory \<Rightarrow> RunHistory \<times> DiscoveryHistory" where
  "notBegunDiscovery begun hs =
     (case hs of (runs, h) \<Rightarrow>
       (discoveryNotBegun runs, h\<lparr>dh_attempt := bd_before begun, dh_retry := (dh_retry h \<or> bd_retry begun)\<rparr>))"

definition threwDiscovery :: "RunHistory \<times> DiscoveryHistory \<Rightarrow> RunHistory \<times> DiscoveryHistory" where
  "threwDiscovery hs = (case hs of (runs, h) \<Rightarrow> (discoveryThrew runs, h))"

section \<open>Lemmas\<close>

lemma dueDiscovery_held: "dh_held h \<noteq> None \<Longrightarrow> dueDiscovery now changedAt revision inEffect h = None"
  by (simp add: dueDiscovery_def)

text \<open>An armed retry never outlives a hold.\<close>

definition discoveryInv :: "DiscoveryHistory \<Rightarrow> bool" where
  "discoveryInv h = (dh_held h \<noteq> None \<longrightarrow> \<not> dh_retry h \<and> dh_latestHold h = dh_held h)"

lemma discoveryEntry_simps [simp]:
  "dh_attempt (discoveryEntry t h) = dh_attempt h" "dh_retry (discoveryEntry t h) = dh_retry h"
  "dh_decided (discoveryEntry t h) = dh_decided h" "dh_held (discoveryEntry t h) = dh_held h"
  "dh_latestHold (discoveryEntry t h) = dh_latestHold h"
  by (simp_all add: discoveryEntry_def)

lemma holdAt_inv: "discoveryInv h \<Longrightarrow> discoveryInv (holdAt c h)"
  by (auto simp: holdAt_def holdDiscovery_def discoveryInv_def Let_def split: option.splits)

lemma holdAt_attempt [simp]: "dh_attempt (holdAt c h) = dh_attempt h"
  by (auto simp: holdAt_def holdDiscovery_def Let_def split: option.splits)

lemma decideUnheld_inv: "dh_held h = None \<Longrightarrow> discoveryInv (decideUnheld inEffect changes h)"
  by (simp add: decideUnheld_def Let_def, rule holdAt_inv, simp add: discoveryInv_def)

lemma decideDiscovery_inv: "discoveryInv h \<Longrightarrow> discoveryInv (decideDiscovery inEffect runs h)"
  by (auto simp: decideDiscovery_def Let_def decideUnheld_inv split: option.splits)

lemma armRetry_inv: "discoveryInv h \<Longrightarrow> discoveryInv (snd (armRetry listsFailed h))"
  by (auto simp: armRetry_def discoveryInv_def Let_def)

lemma beganDiscovery_inv: "discoveryInv h \<Longrightarrow> beganDiscovery r (runs, h) = (b, runs', h') \<Longrightarrow> discoveryInv h'"
  by (auto simp: beganDiscovery_def discoveryInv_def Let_def)

lemma recordDiscoveryEnd_inv: "discoveryInv h \<Longrightarrow> discoveryInv (recordDiscoveryEnd now revision b report h)"
  by (auto simp: recordDiscoveryEnd_def discoveryInv_def Let_def)

lemma decideUnheld_attempt [simp]: "dh_attempt (decideUnheld inEffect changes h) = dh_attempt h"
  by (simp add: decideUnheld_def Let_def)

lemma decideDiscovery_attempt [simp]: "dh_attempt (decideDiscovery inEffect runs h) = dh_attempt h"
  by (auto simp: decideDiscovery_def Let_def split: option.splits)

text \<open>
  Without a retry, a discovery begins at most twice at one revision: the second is the once-more one, and
  whatever it reports, nothing is due at that revision after it.
\<close>

definition tried :: "nat \<Rightarrow> DiscoveryHistory \<Rightarrow> bool" where
  "tried revision h = (case dh_attempt h of None \<Rightarrow> False
     | Some a \<Rightarrow> da_revision a = revision \<and> da_onceMoreFrom a = None)"

lemma tried_not_due: "tried revision h \<Longrightarrow> \<not> dh_retry h \<Longrightarrow> dueDiscovery now changedAt revision inEffect h = None"
  by (auto simp: tried_def dueDiscovery_def Let_def split: option.splits)

lemma once_more_tried:
  assumes "beganDiscovery revision (runs, h) = (begun, runs', h')" and "bd_isOnceMore begun"
  shows "tried revision (snd (endedDiscovery now now_revision begun report (runs2, h2)))"
  using assms
  by (auto simp: beganDiscovery_def endedDiscovery_def recordDiscoveryEnd_def tried_def Let_def)

lemma due_again_once_more:
  assumes "map_option da_revision (dh_attempt h) = Some revision" and "\<not> dh_retry h"
    and "dueDiscovery now changedAt revision inEffect h = Some wait"
  shows "bd_isOnceMore (fst (beganDiscovery revision (runs, h)))"
  using assms by (auto simp: dueDiscovery_def beganDiscovery_def Let_def split: option.splits if_splits)

end
