(* ===== verification/Scheduler.thy ===== *)
theory Scheduler
  imports Schedule DiscoveryHistory
begin

text \<open>
  What the daemon discovers and runs, and when (\<^verbatim>\<open>daemon/scheduler.ts\<close>), over the run and
  discovery histories, the due workspaces, the round's selection and the schedule. A plan reads the
  moment it is made at, the record \<open>PlanMoment\<close>, and is one function, as the code makes it with no await.
  A job is the two moments the scheduler acts at: when it begins, and when it settles with the outcome
  its executor gave. Waiting (timers, the promises of the inputs and the stop) is not modelled: the
  quiet window, the idle wait and each job's end are functions of what is read when they resume. Each of
  the three records keeps the log entries it makes, in order.
\<close>

section \<open>Moments and parts\<close>

record ConfirmedWorkspace =
  cw_path :: string
  cw_configFile :: string

record ConfirmedStart =
  ct_consumerRoot :: string
  ct_workspaces :: "ConfirmedWorkspace list"

definition confirmedEntry :: "ConfirmedStart \<Rightarrow> Workspace \<Rightarrow> ConfirmedWorkspace option" where
  "confirmedEntry start workspace = find (\<lambda>entry. cw_path entry = ws_path workspace) (ct_workspaces start)"

fun isNotConfirmed :: "WorkspaceDiscovery \<Rightarrow> bool" where
  "isNotConfirmed (WsNotConfirmed _ _) = True"
| "isNotConfirmed _ = False"

fun isFailed :: "WorkspaceDiscovery \<Rightarrow> bool" where
  "isFailed (WsFailed _ _) = True"
| "isFailed _ = False"

definition confirmed :: "ConfirmedStart \<Rightarrow> WorkspaceDiscovery \<Rightarrow> bool" where
  "confirmed start entry = (\<not> isNotConfirmed entry \<and> confirmedEntry start (entryWorkspace entry) \<noteq> None)"

record ScheduleView =
  vw_results :: LatestResults
  vw_inputs :: CurrentInputs

record PlanMoment =
  pm_view :: ScheduleView
  pm_narrowing :: "Narrowing QueryNarrowing"
  pm_placing :: "Narrowing Placing"
  pm_start :: ConfirmedStart
  pm_periodicReconciliations :: nat
  pm_now :: nat

record EligibleWorkspace =
  el_entry :: WorkspaceDiscovery
  el_latest :: "StoredRun option"
  el_refused :: bool

record DueWorkspace = EligibleWorkspace +
  el_reason :: DueReason

datatype Step = StepDiscover | StepWait nat | StepRun QueuedWorkspace | StepIdle | StepAgain

record Scheduler =
  sh_windowRevision :: "nat option"
  sh_windowStart :: nat
  sh_roundRevision :: "nat option"
  sh_selectionOwed :: bool
  sh_snapshot :: "InputDigests option"
  sh_directTargets :: "string list"
  sh_runs :: RunHistory
  sh_discoveries :: DiscoveryHistory
  sh_announced :: "(string, string) jsmap"
  sh_periodicSeen :: nat
  sh_periodicOwed :: bool
  sh_retryWorkspaces :: "string list"
  sh_dirty :: bool
  sh_schedule :: WorkspaceSchedule
  sh_log :: "string list"

definition newScheduler :: Scheduler where
  "newScheduler = \<lparr>sh_windowRevision = None, sh_windowStart = 0, sh_roundRevision = None, sh_selectionOwed = False,
     sh_snapshot = None, sh_directTargets = [], sh_runs = newRunHistory, sh_discoveries = newDiscoveryHistory,
     sh_announced = [], sh_periodicSeen = 0, sh_periodicOwed = False, sh_retryWorkspaces = [], sh_dirty = True,
     sh_schedule = newSchedule, sh_log = []\<rparr>"

definition onSchedule :: "(WorkspaceSchedule \<Rightarrow> WorkspaceSchedule) \<Rightarrow> Scheduler \<Rightarrow> Scheduler" where
  "onSchedule f s = s\<lparr>sh_schedule := f (sh_schedule s)\<rparr>"

definition schedulerEntry :: "string \<Rightarrow> Scheduler \<Rightarrow> Scheduler" where
  "schedulerEntry text s = s\<lparr>sh_log := sh_log s @ [text]\<rparr>"

text \<open>The parts the schedule asks at a read are this scheduler's.\<close>

definition scheduleParts :: "ConfirmedStart \<Rightarrow> Scheduler \<Rightarrow> ScheduleParts" where
  "scheduleParts start s =
     \<lparr>sa_confirmed = confirmed start, sa_storedNothing = (\<lambda>path. storedNothing path (sh_runs s)),
      sa_heldBy = (\<lambda>path. runHeldBy path (sh_runs s)), sa_discoveryHeldBy = dh_held (sh_discoveries s)\<rparr>"

section \<open>The quiet window\<close>

definition QUIET_WINDOW_MS :: nat where
  "QUIET_WINDOW_MS = 1000"

text \<open>
  One turn of \<^verbatim>\<open>#quietWindow\<close>: what is left of the window, none when it has passed. The wait that
  follows a positive rest ends at the rest or at the next change, and the turn is taken again.
\<close>

definition quietWindow :: "nat \<Rightarrow> nat \<Rightarrow> nat \<Rightarrow> Scheduler \<Rightarrow> nat \<times> Scheduler" where
  "quietWindow quietWindowMs revision now s =
     (let s1 = (if sh_windowRevision s = Some revision then s
                else s\<lparr>sh_windowRevision := Some revision, sh_windowStart := now\<rparr>)
      in (sh_windowStart s1 + quietWindowMs - now, s1))"

section \<open>The plan\<close>

definition noteRevision :: "nat \<Rightarrow> Scheduler \<Rightarrow> Scheduler" where
  "noteRevision revision s =
     (if sh_roundRevision s = Some revision then s
      else s\<lparr>sh_roundRevision := Some revision, sh_selectionOwed := True, sh_dirty := True\<rparr>)"

definition discoveredWorkspaces :: "LatestResults \<Rightarrow> WorkspaceDiscovery list" where
  "discoveredWorkspaces results =
     (case lr_discovery results of None \<Rightarrow> [] | Some stored \<Rightarrow> td_workspaces (st_discovery stored))"

definition eligible :: "PlanMoment \<Rightarrow> EligibleWorkspace list" where
  "eligible m =
     (let results = vw_results (pm_view m); runs = latestRunsMap results;
          refused = map ru_workspacePath (lr_runRefusals results)
      in map (\<lambda>entry. \<lparr>el_entry = entry, el_latest = map_of runs (entryPath entry),
             el_refused = (entryPath entry \<in> set refused)\<rparr>)
           (filter (confirmed (pm_start m)) (discoveredWorkspaces results)))"

definition staleAt :: "CurrentInputs \<Rightarrow> 'z EligibleWorkspace_scheme \<Rightarrow> DueReason option" where
  "staleAt inputs e =
     staleReason (el_latest e) (fingerprintDigest (Some (ci_workspaceFingerprint inputs (el_entry e)))) (el_refused e)"

definition armRetries :: "PlanMoment \<Rightarrow> EligibleWorkspace list \<Rightarrow> nat \<Rightarrow> Scheduler \<Rightarrow> Scheduler" where
  "armRetries m workspaces revision s =
     (let ended = pm_periodicReconciliations m;
          s1 = (if ended > sh_periodicSeen s then s\<lparr>sh_periodicSeen := ended, sh_periodicOwed := True\<rparr> else s)
      in if \<not> sh_periodicOwed s1 then s1
         else (case armRetry (list_ex isFailed (discoveredWorkspaces (vw_results (pm_view m)))) (sh_discoveries s1) of
           (retryDiscovery, discoveries) \<Rightarrow>
             (let retried = uniq (map (\<lambda>e. entryPath (el_entry e)) (filter (\<lambda>e.
                    \<not> isHeld (entryPath (el_entry e)) (sh_runs s1) \<and>
                    retryOwed (el_latest e) (staleAt (vw_inputs (pm_view m)) e)
                      (storedNothing (entryPath (el_entry e)) (sh_runs s1))) workspaces));
                  s2 = s1\<lparr>sh_periodicOwed := False, sh_discoveries := discoveries, sh_retryWorkspaces := retried\<rparr>
              in if \<not> retryDiscovery \<and> retried = [] then s2
                 else schedulerEntry (''periodic reconciliation ended at input revision '' @ show_nat revision @
                   '': retrying '' @ (if retryDiscovery then ''the discovery and '' else []) @
                   show_nat (length retried) @ '' workspaces'') (s2\<lparr>sh_dirty := True\<rparr>))))"

text \<open>\<^verbatim>\<open>#due\<close>, over the eligible workspaces in order, with the run history and the retries it changes.\<close>

fun dueFrom :: "PlanMoment \<Rightarrow> nat \<Rightarrow> EligibleWorkspace list \<Rightarrow> RunHistory \<times> string list \<Rightarrow>
    DueWorkspace list \<times> RunHistory \<times> string list" where
  "dueFrom m revision [] (runs, retries) = ([], runs, retries)"
| "dueFrom m revision (e # rest) (runs, retries) =
     (let path = entryPath (el_entry e);
          retry = (path \<in> set retries);
          stale = staleAt (vw_inputs (pm_view m)) e
      in case (case stale of Some reason \<Rightarrow> Some reason | None \<Rightarrow> if retry then retryReason (el_latest e) else None) of
           None \<Rightarrow> dueFrom m revision rest (runs, retries)
         | Some reason \<Rightarrow>
             (case decide (pm_placing m)
                 \<lparr>du_entry = el_entry e, du_retryOnly = (stale = None),
                  du_fingerprinted = fingerprintOk (ci_workspaceFingerprint (vw_inputs (pm_view m)) (el_entry e)),
                  du_placement = roundPlacement (vw_inputs (pm_view m)) (pm_narrowing m)\<rparr> runs of
                (True, runs1) \<Rightarrow> dueFrom m revision rest (runs1, filter (\<lambda>p. p \<noteq> path) retries)
              | (False, runs1) \<Rightarrow>
                  (if \<not> retry \<and> ranAlready path revision (el_entry e) runs1
                   then dueFrom m revision rest (runs1, retries)
                   else (case dueFrom m revision rest (runs1, retries) of
                       (due, after) \<Rightarrow> (EligibleWorkspace.extend e \<lparr>el_reason = reason\<rparr> # due, after)))))"

fun DUE_REASON_TEXT :: "DueReason \<Rightarrow> string" where
  "DUE_REASON_TEXT DueNoRun = ''it has no stored run''"
| "DUE_REASON_TEXT DueRunRefused = ''its latest stored run was refused as unreadable''"
| "DUE_REASON_TEXT DueAnotherAdapterVersion = ''its latest run was stored under another adapter version''"
| "DUE_REASON_TEXT DueNotFingerprinted = ''its latest run was stored not fingerprinted''"
| "DUE_REASON_TEXT DueNoCurrentFingerprint = ''its current input fingerprint cannot be computed''"
| "DUE_REASON_TEXT DueInputsChanged = ''its inputs differ from those of its latest run''"
| "DUE_REASON_TEXT DueFailedRun =
     ''its latest run failed with no input change to blame, so the periodic reconciliation retries it''"
| "DUE_REASON_TEXT DueCrashedRun =
     ''its latest run's executor process ended during the run with no input change to blame, so the periodic reconciliation retries it''"

definition announce :: "nat \<Rightarrow> DueWorkspace \<Rightarrow> Scheduler \<Rightarrow> Scheduler" where
  "announce revision w s =
     (let path = entryPath (el_entry w); key = show_nat revision @ '':'' @ testModulesKey (el_entry w) in
      if map_of (sh_announced s) path = Some key then s
      else schedulerEntry (''due: '' @ path @ '', '' @ DUE_REASON_TEXT (el_reason w))
        (s\<lparr>sh_announced := jset path key (sh_announced s)\<rparr>))"

definition explain :: "PlanMoment \<Rightarrow> nat \<Rightarrow> EligibleWorkspace list \<Rightarrow> DueWorkspace list \<Rightarrow> Scheduler \<Rightarrow> Scheduler" where
  "explain m revision workspaces due s =
     fold (announce revision) due
       (if \<not> sh_selectionOwed s then s
        else (case selectRound revision
            \<lparr>rr_narrowing = pm_narrowing m, rr_before = sh_snapshot s,
             rr_now = map_option comparedDigests (ci_snapshot (vw_inputs (pm_view m))),
             rr_due = map (\<lambda>w. entryPath (el_entry w)) due,
             rr_confirmed = map (\<lambda>e. entryPath (el_entry e)) workspaces,
             rr_isHeld = (\<lambda>path. isHeld path (sh_runs s))\<rparr> of
            (selection, snapshot, entries) \<Rightarrow>
              onSchedule (selected (rs_explanation selection))
                (s\<lparr>sh_snapshot := snapshot, sh_selectionOwed := False,
                   sh_directTargets := rs_directTargets selection, sh_log := sh_log s @ entries\<rparr>)))"

text \<open>The round of due workspaces: the end of \<^verbatim>\<open>#plan\<close>, once no discovery is due.\<close>

definition planRuns :: "PlanMoment \<Rightarrow> nat \<Rightarrow> EligibleWorkspace list \<Rightarrow> Scheduler \<Rightarrow> Step \<times> Scheduler" where
  "planRuns m revision workspaces s =
     (case dueFrom m revision workspaces (sh_runs s, sh_retryWorkspaces s) of
        (due, runs, retries) \<Rightarrow>
          (let s1 = explain m revision workspaces due (s\<lparr>sh_runs := runs, sh_retryWorkspaces := retries\<rparr>);
               s2 = onSchedule (planned revision
                 (jmap_of (map (\<lambda>w. (entryPath (el_entry w), el_reason w)) due))) s1;
               queue = orderQueue (map (\<lambda>w. \<lparr>qw_entry = el_entry w, qw_reason = el_reason w,
                 qw_group = queueGroup (entryPath (el_entry w)) (el_latest w) (sh_directTargets s1)\<rparr>) due)
           in (case queue of [] \<Rightarrow> StepIdle | q # _ \<Rightarrow> StepRun q, s2)))"

definition plan :: "PlanMoment \<Rightarrow> nat \<Rightarrow> Scheduler \<Rightarrow> Step \<times> Scheduler" where
  "plan m revision s =
     (let inputs = vw_inputs (pm_view m) in
      if if_revision (ci_facts inputs) \<noteq> revision then (StepAgain, s)
      else
        (let s1 = noteRevision revision s;
             s2 = s1\<lparr>sh_runs := runsObserved (map_option comparedDigests (ci_snapshot inputs)) (sh_runs s1)\<rparr>;
             inEffect = discoveryInEffect (vw_results (pm_view m)) inputs;
             s3 = s2\<lparr>sh_discoveries := decideDiscovery inEffect (sh_runs s2) (sh_discoveries s2)\<rparr>;
             workspaces = eligible m;
             s4 = armRetries m workspaces revision s3
         in case dueDiscovery (pm_now m) (sh_windowStart s4) revision inEffect (sh_discoveries s4) of
              Some wait \<Rightarrow>
                (let s5 = onSchedule (pending WaitRediscovery) s4 in
                 if wait > 0 then (StepWait wait, s5) else (StepDiscover, s5\<lparr>sh_dirty := True\<rparr>))
            | None \<Rightarrow> planRuns m revision workspaces s4))"

section \<open>Jobs\<close>

text \<open>How a job settled: it threw, it did not begin, or it left its report.\<close>

datatype 'r JobOutcome = JobThrew | JobNotBegun | JobReported 'r

record SettleMoment =
  se_revision :: nat
  se_now :: nat
  se_stopping :: bool

definition beginDiscover :: "nat \<Rightarrow> Scheduler \<Rightarrow> BegunDiscovery \<times> Scheduler" where
  "beginDiscover revision s =
     (case beganDiscovery revision (sh_runs s, sh_discoveries s) of
        (begun, runs, discoveries) \<Rightarrow>
          (begun, onSchedule (duringBegan revision)
            (s\<lparr>sh_dirty := True, sh_runs := runs, sh_discoveries := discoveries\<rparr>)))"

definition settleDiscover :: "BegunDiscovery \<Rightarrow> DiscoverReport JobOutcome \<Rightarrow> SettleMoment \<Rightarrow> Scheduler \<Rightarrow> Scheduler" where
  "settleDiscover begun outcome moment s =
     (let s1 = onSchedule duringSettled s; hs = (sh_runs s1, sh_discoveries s1) in
      case (case outcome of
          JobThrew \<Rightarrow> threwDiscovery hs
        | JobNotBegun \<Rightarrow> notBegunDiscovery begun hs
        | JobReported report \<Rightarrow> endedDiscovery (se_now moment) (se_revision moment) begun report hs) of
        (runs, discoveries) \<Rightarrow> s1\<lparr>sh_runs := runs, sh_discoveries := discoveries\<rparr>)"

record RunReport = HistoryReport +
  rp_runId :: "string option"

record StartedRun =
  sd_path :: string
  sd_retried :: bool
  sd_plannedAt :: nat
  sd_uninterruptible :: "string option"
  sd_begun :: BegunRun

fun GROUP_REASON :: "QueueGroup \<Rightarrow> string" where
  "GROUP_REASON DirectTarget = ''it owns a path that changed since the previous round''"
| "GROUP_REASON PriorFailure = ''its latest run holds a failed or errored test''"
| "GROUP_REASON Rest = ''no changed path names it and its latest run holds no failed test''"

definition beginRun :: "QueuedWorkspace \<Rightarrow> nat \<Rightarrow> Scheduler \<Rightarrow> StartedRun \<times> Scheduler" where
  "beginRun queued revision s =
     (let path = entryPath (qw_entry queued);
          retried = (path \<in> set (sh_retryWorkspaces s));
          s1 = s\<lparr>sh_retryWorkspaces := filter (\<lambda>p. p \<noteq> path) (sh_retryWorkspaces s)\<rparr>;
          uninterrupted = uninterruptible path (sh_runs s1)
      in case began (qw_entry queued) revision (sh_runs s1) of
           (begun, runs) \<Rightarrow>
             (\<lparr>sd_path = path, sd_retried = retried, sd_plannedAt = revision, sd_uninterruptible = uninterrupted,
               sd_begun = begun\<rparr>,
              onSchedule (duringBegan revision)
                (schedulerEntry (''next in the queue: '' @ path @ '', '' @ GROUP_REASON (qw_group queued))
                  (s1\<lparr>sh_runs := runs, sh_dirty := True\<rparr>))))"

definition settleRun :: "StartedRun \<Rightarrow> RunReport JobOutcome \<Rightarrow> SettleMoment \<Rightarrow> Scheduler \<Rightarrow> Scheduler" where
  "settleRun started outcome moment s =
     (let s1 = onSchedule duringSettled s; path = sd_path started; begun = sd_begun started in
      case outcome of
        JobThrew \<Rightarrow>
          (let s2 = onSchedule (scheduleRunThrew path) s1 in s2\<lparr>sh_runs := runThrew begun (sh_runs s2)\<rparr>)
      | JobNotBegun \<Rightarrow>
          (if \<not> se_stopping moment \<and> se_revision moment = sd_plannedAt started
           then s1\<lparr>sh_runs := runRefused begun (sh_runs s1)\<rparr>
           else s1\<lparr>sh_runs := runNotBegun begun (sh_runs s1),
             sh_retryWorkspaces := (if sd_retried started then jadd path (sh_retryWorkspaces s1)
               else sh_retryWorkspaces s1)\<rparr>)
      | JobReported report \<Rightarrow>
          (case runEnded begun (HistoryReport.truncate report) (se_revision moment) (sh_runs s1) of
             (owedAgain, runs) \<Rightarrow>
               onSchedule (scheduleRunEnded path
                 \<lparr>ed_runId = rp_runId report, ed_notKept = hr_notKept report, ed_interruptedBy = hr_interruptedBy report\<rparr>
                 owedAgain) (s1\<lparr>sh_runs := runs\<rparr>)))"

section \<open>Idle\<close>

text \<open>One turn of \<^verbatim>\<open>#idle\<close>: whether a round is to be planned; \<open>IDLE_ENTRY\<close> is logged once after work.\<close>

definition idleTurn :: "nat \<Rightarrow> nat \<Rightarrow> Scheduler \<Rightarrow> bool \<times> Scheduler" where
  "idleTurn revision periodicReconciliations s =
     (if sh_roundRevision s \<noteq> Some revision \<or> periodicReconciliations > sh_periodicSeen s then (True, s)
      else (False, if sh_dirty s then schedulerEntry ''idle: no confirmed workspace is due'' (s\<lparr>sh_dirty := False\<rparr>) else s))"

text \<open>A step that threw holds the round, and is tried again at the next change.\<close>

definition stepThrew :: "string \<Rightarrow> Scheduler \<Rightarrow> Scheduler" where
  "stepThrew failure = onSchedule (heldRound failure)"

text \<open>A falsification look, which plans again after a job or after a workspace it cannot send one for.\<close>

definition beginFalsify :: "nat \<Rightarrow> Scheduler \<Rightarrow> Scheduler" where
  "beginFalsify revision = onSchedule (duringBegan revision)"

definition settleFalsify :: "bool \<Rightarrow> Scheduler \<Rightarrow> Scheduler" where
  "settleFalsify again s =
     (let s1 = onSchedule duringSettled s in if again then s1\<lparr>sh_dirty := True\<rparr> else s1)"

text \<open>A caller's report of the input keys it edited.\<close>

definition schedulerReportEdits :: "string list \<Rightarrow> Scheduler \<Rightarrow> nat \<times> Scheduler" where
  "schedulerReportEdits ks s = (case runsReportEdits ks (sh_runs s) of (report, runs) \<Rightarrow> (report, s\<lparr>sh_runs := runs\<rparr>))"

text \<open>The first reconciliation ended, so only later periodic ones retry.\<close>

definition startScheduler :: "nat \<Rightarrow> Scheduler \<Rightarrow> Scheduler" where
  "startScheduler periodicReconciliations s = s\<lparr>sh_periodicSeen := periodicReconciliations\<rparr>"

section \<open>What a decision leaves\<close>

lemma insideInputs_keeps:
  "insideInputs placing due paths h = (b, h') \<Longrightarrow> rh_attempts h' = rh_attempts h"
  "insideInputs placing due paths h = (b, h') \<Longrightarrow> rh_held h' = rh_held h"
  by (auto simp: insideInputs_def split: sum.splits)

lemma editedInputs_keeps:
  "editedInputs placing due changes h = (b, h') \<Longrightarrow> rh_attempts h' = rh_attempts h"
  "editedInputs placing due changes h = (b, h') \<Longrightarrow> rh_held h' = rh_held h"
  by (auto simp: editedInputs_def insideInputs_keeps split: option.splits prod.splits if_splits)

lemma nextCount_keeps:
  assumes "nextCount placing due h = (c, h')"
  shows "rh_attempts h' = rh_attempts h" and "rh_held h' = rh_held h"
proof -
  define kept where "kept h1 h2 \<longleftrightarrow> rh_attempts h2 = rh_attempts h1 \<and> rh_held h2 = rh_held h1" for h1 h2 :: RunHistory
  have e: "kept h1 h2" if "editedInputs placing due changes h1 = (b, h2)" for changes b h1 h2
    using editedInputs_keeps [OF that] by (simp add: kept_def)
  have i: "kept h1 h2" if "insideInputs placing due paths h1 = (b, h2)" for paths b h1 h2
    using insideInputs_keeps [OF that] by (simp add: kept_def)
  have trans: "kept h1 h3" if "kept h1 h2" "kept h2 h3" for h1 h2 h3
    using that by (simp add: kept_def)
  have "kept h h" by (simp add: kept_def)
  then have "kept h h'"
    using assms
    by (auto simp: nextCount_def Let_def split: option.splits prod.splits bool.splits if_splits dest!: e i intro: trans)
  then show "rh_attempts h' = rh_attempts h" and "rh_held h' = rh_held h" by (simp_all add: kept_def)
qed

lemma decideCount_keeps:
  assumes "decideCount placing due h = (b, h')"
  shows "rh_attempts h' = rh_attempts h"
    and "p \<noteq> entryPath (du_entry due) \<Longrightarrow> isHeld p h' = isHeld p h"
    and "\<not> isHeld (entryPath (du_entry due)) h \<Longrightarrow> b = isHeld (entryPath (du_entry due)) h'"
proof -
  obtain c h1 where n: "nextCount placing due h = (c, h1)" by (cases "nextCount placing due h")
  note k = nextCount_keeps [OF n]
  show "rh_attempts h' = rh_attempts h"
    using assms k by (auto simp: decideCount_def Let_def n split: if_splits)
  show "p \<noteq> entryPath (du_entry due) \<Longrightarrow> isHeld p h' = isHeld p h"
    using assms k by (auto simp: decideCount_def Let_def n isHeld_def keys_jset split: if_splits)
  show "\<not> isHeld (entryPath (du_entry due)) h \<Longrightarrow> b = isHeld (entryPath (du_entry due)) h'"
    using assms k by (auto simp: decideCount_def Let_def n isHeld_def keys_jset split: if_splits)
qed

lemma decide_keeps:
  assumes "decide placing due h = (b, h')"
  shows "rh_attempts h' = rh_attempts h"
    and "p \<noteq> entryPath (du_entry due) \<Longrightarrow> isHeld p h' = isHeld p h"
    and "b = isHeld (entryPath (du_entry due)) h'"
proof -
  let ?path = "entryPath (du_entry due)"
  obtain edited h1 where e: "editedInputs placing due (changesOf (Some ?path) (rh_changes h)) h = (edited, h1)"
    by (cases "editedInputs placing due (changesOf (Some ?path) (rh_changes h)) h")
  note k1 = editedInputs_keeps [OF e]
  define h2 where "h2 = logEntry (?path @ '' is no longer held, since an edit reached its inputs'') (h1\<lparr>rh_held := jdel ?path (rh_held h1)\<rparr>)"
  have k2: "rh_attempts h2 = rh_attempts h" "\<not> isHeld ?path h2" "\<And>q. q \<noteq> ?path \<Longrightarrow> isHeld q h2 = isHeld q h"
    using k1 by (auto simp: isHeld_def keys_jdel h2_def)
  have d: "decide placing due h = (if \<not> isHeld ?path h then decideCount placing due h
      else if edited then decideCount placing due h2 else (True, h1))"
    by (simp add: decide_def Let_def e h2_def split: bool.splits)
  have "rh_attempts h' = rh_attempts h \<and> (p \<noteq> ?path \<longrightarrow> isHeld p h' = isHeld p h) \<and> b = isHeld ?path h'"
  proof (cases "isHeld ?path h")
    case False
    then have c: "decideCount placing due h = (b, h')" using assms d by simp
    from decideCount_keeps [OF c] False show ?thesis by blast
  next
    case held: True
    show ?thesis
    proof (cases edited)
      case True
      with held have c: "decideCount placing due h2 = (b, h')" using assms d by simp
      from decideCount_keeps [OF c] k2 show ?thesis by metis
    next
      case False
      with held have "b" "h' = h1" using assms d by simp_all
      with held k1 show ?thesis by (simp add: isHeld_def)
    qed
  qed
  then show "rh_attempts h' = rh_attempts h" and "p \<noteq> ?path \<Longrightarrow> isHeld p h' = isHeld p h"
    and "b = isHeld ?path h'" by blast+
qed

section \<open>Which workspaces a round finds due\<close>

definition eligiblePath :: "'z EligibleWorkspace_scheme \<Rightarrow> string" where
  "eligiblePath e = entryPath (el_entry e)"

definition dueReason :: "PlanMoment \<Rightarrow> string list \<Rightarrow> EligibleWorkspace \<Rightarrow> DueReason option" where
  "dueReason m retries e =
     (case staleAt (vw_inputs (pm_view m)) e of
        Some reason \<Rightarrow> Some reason
      | None \<Rightarrow> if eligiblePath e \<in> set retries then retryReason (el_latest e) else None)"

text \<open>
  A workspace is due when its latest run is not bound to its current fingerprint, or its retry is owed; it
  is not held; and it did not run already at this revision, unless its retry is owed.
\<close>

definition isDue :: "PlanMoment \<Rightarrow> nat \<Rightarrow> RunHistory \<Rightarrow> string list \<Rightarrow> EligibleWorkspace \<Rightarrow> bool" where
  "isDue m revision runs retries e =
     (dueReason m retries e \<noteq> None \<and> \<not> isHeld (eligiblePath e) runs \<and>
      (eligiblePath e \<in> set retries \<or> \<not> ranAlready (eligiblePath e) revision (el_entry e) runs))"

definition asDue :: "PlanMoment \<Rightarrow> string list \<Rightarrow> EligibleWorkspace \<Rightarrow> DueWorkspace" where
  "asDue m retries e = EligibleWorkspace.extend e \<lparr>el_reason = the (dueReason m retries e)\<rparr>"

lemma ranAlready_attempts: "rh_attempts h = rh_attempts h' \<Longrightarrow> ranAlready p revision entry h = ranAlready p revision entry h'"
  by (simp add: ranAlready_def)

lemma dueFrom_exact:
  assumes "dueFrom m revision es (runs, retries) = (due, runs', retries')" and "distinct (map eligiblePath es)"
  shows "rh_attempts runs' = rh_attempts runs"
    and "\<And>p. p \<notin> eligiblePath ` set es \<Longrightarrow> isHeld p runs' = isHeld p runs \<and> (p \<in> set retries' \<longleftrightarrow> p \<in> set retries)"
    and "due = map (asDue m retries') (filter (isDue m revision runs' retries') es)"
proof -
  have "rh_attempts runs' = rh_attempts runs \<and>
    (\<forall>p. p \<notin> eligiblePath ` set es \<longrightarrow> isHeld p runs' = isHeld p runs \<and> (p \<in> set retries' \<longleftrightarrow> p \<in> set retries)) \<and>
    due = map (asDue m retries') (filter (isDue m revision runs' retries') es)"
    using assms
  proof (induction es arbitrary: runs retries due)
    case (Cons e es)
    let ?path = "eligiblePath e"
    let ?due = "\<lparr>du_entry = el_entry e, du_retryOnly = (staleAt (vw_inputs (pm_view m)) e = None),
      du_fingerprinted = fingerprintOk (ci_workspaceFingerprint (vw_inputs (pm_view m)) (el_entry e)),
      du_placement = roundPlacement (vw_inputs (pm_view m)) (pm_narrowing m)\<rparr>"
    have fresh: "?path \<notin> eligiblePath ` set es" and dist: "distinct (map eligiblePath es)"
      using Cons.prems(2) by auto
    obtain b runs1 where d: "decide (pm_placing m) ?due runs = (b, runs1)"
      by (cases "decide (pm_placing m) ?due runs")
    have k: "rh_attempts runs1 = rh_attempts runs" "\<And>p. p \<noteq> ?path \<Longrightarrow> isHeld p runs1 = isHeld p runs" "b = isHeld ?path runs1"
      using decide_keeps [OF d] by (simp_all add: eligiblePath_def)
    have eq: "dueFrom m revision (e # es) (runs, retries) =
      (case dueReason m retries e of None \<Rightarrow> dueFrom m revision es (runs, retries)
       | Some reason \<Rightarrow>
          (if b then dueFrom m revision es (runs1, filter (\<lambda>p. p \<noteq> ?path) retries)
           else if ?path \<notin> set retries \<and> ranAlready ?path revision (el_entry e) runs1 then dueFrom m revision es (runs1, retries)
           else (case dueFrom m revision es (runs1, retries) of (due, after) \<Rightarrow>
             (EligibleWorkspace.extend e \<lparr>el_reason = reason\<rparr> # due, after))))"
    proof (cases "staleAt (vw_inputs (pm_view m)) e")
      case None
      with d show ?thesis
        by (cases b) (simp_all add: Let_def dueReason_def eligiblePath_def split: option.splits)
    next
      case (Some reason)
      with d show ?thesis by (cases b) (simp_all add: Let_def dueReason_def eligiblePath_def)
    qed
    show ?case
    proof (cases "dueReason m retries e")
      case None
      then have step: "dueFrom m revision es (runs, retries) = (due, runs', retries')" using Cons.prems(1) eq by simp
      note ih = Cons.IH [OF step dist]
      have "dueReason m retries' e = None"
        using None ih fresh by (auto simp: dueReason_def split: option.splits if_splits)
      then have "\<not> isDue m revision runs' retries' e" by (simp add: isDue_def)
      then show ?thesis using ih by auto
    next
      case (Some reason)
      show ?thesis
      proof (cases b)
        case True
        then have step: "dueFrom m revision es (runs1, filter (\<lambda>p. p \<noteq> ?path) retries) = (due, runs', retries')"
          using Cons.prems(1) eq Some by simp
        note ih = Cons.IH [OF step dist]
        have "isHeld ?path runs'" using ih fresh k(3) True by auto
        then have "\<not> isDue m revision runs' retries' e" by (simp add: isDue_def)
        then show ?thesis using ih k by auto
      next
        case False
        obtain due1 where step: "dueFrom m revision es (runs1, retries) = (due1, runs', retries')"
          and due: "due = (if ?path \<notin> set retries \<and> ranAlready ?path revision (el_entry e) runs1 then due1
            else EligibleWorkspace.extend e \<lparr>el_reason = reason\<rparr> # due1)"
        proof (cases "dueFrom m revision es (runs1, retries)")
          case (fields due1 r t)
          with Cons.prems(1) [unfolded eq] Some False show ?thesis by (intro that [of due1]) (auto split: if_splits)
        qed
        note ih = Cons.IH [OF step dist]
        have same: "?path \<in> set retries' \<longleftrightarrow> ?path \<in> set retries" "\<not> isHeld ?path runs'"
          using ih fresh k(3) False by auto
        have reason: "dueReason m retries' e = Some reason"
          using Some same(1) by (simp add: dueReason_def split: option.splits if_splits)
        have ran: "ranAlready ?path revision (el_entry e) runs' = ranAlready ?path revision (el_entry e) runs1"
          using ih by (intro ranAlready_attempts) simp
        have "isDue m revision runs' retries' e \<longleftrightarrow> \<not> (?path \<notin> set retries \<and> ranAlready ?path revision (el_entry e) runs1)"
          using reason same ran by (auto simp: isDue_def)
        then show ?thesis using ih k due reason by (auto simp: asDue_def)
      qed
    qed
  qed simp
  then show "rh_attempts runs' = rh_attempts runs"
    and "\<And>p. p \<notin> eligiblePath ` set es \<Longrightarrow> isHeld p runs' = isHeld p runs \<and> (p \<in> set retries' \<longleftrightarrow> p \<in> set retries)"
    and "due = map (asDue m retries') (filter (isDue m revision runs' retries') es)" by blast+
qed

section \<open>What a plan leaves\<close>

lemma announce_keeps [simp]:
  "sh_runs (announce revision w s) = sh_runs s" "sh_retryWorkspaces (announce revision w s) = sh_retryWorkspaces s"
  by (simp_all add: announce_def schedulerEntry_def Let_def)

lemma explain_keeps [simp]:
  "sh_runs (explain m revision workspaces due s) = sh_runs s"
  "sh_retryWorkspaces (explain m revision workspaces due s) = sh_retryWorkspaces s"
proof -
  have "sh_runs (fold (announce revision) due s) = sh_runs s \<and>
      sh_retryWorkspaces (fold (announce revision) due s) = sh_retryWorkspaces s" for s
    by (induction due arbitrary: s) simp_all
  then show "sh_runs (explain m revision workspaces due s) = sh_runs s"
    and "sh_retryWorkspaces (explain m revision workspaces due s) = sh_retryWorkspaces s"
    by (auto simp: explain_def onSchedule_def split: prod.splits)
qed

lemma orderQueue_head:
  assumes "orderQueue queue = q # rest"
  shows "q \<in> set queue" and "p \<in> set queue \<Longrightarrow> qw_group q \<le> qw_group p"
proof -
  have s: "sort_key qw_group queue = q # rest" using assms by (simp add: orderQueue_def group_filters sort_three)
  then have "set queue = set (q # rest)" by (metis set_sort)
  moreover have "sorted (map qw_group (q # rest))" using sorted_sort_key [of qw_group queue] unfolding s .
  ultimately show "q \<in> set queue" and "p \<in> set queue \<Longrightarrow> qw_group q \<le> qw_group p" by auto
qed

lemma orderQueue_Nil: "orderQueue queue = [] \<longleftrightarrow> queue = []"
proof -
  have "orderQueue queue = sort_key qw_group queue" by (simp add: orderQueue_def group_filters sort_three)
  then show ?thesis by (metis set_empty set_sort)
qed

definition groupOf :: "Scheduler \<Rightarrow> EligibleWorkspace \<Rightarrow> QueueGroup" where
  "groupOf s e = queueGroup (eligiblePath e) (el_latest e) (sh_directTargets s)"

lemma planRuns_exact:
  assumes "planRuns m revision workspaces s = (step, s')" and "distinct (map eligiblePath workspaces)"
  defines "due \<equiv> filter (isDue m revision (sh_runs s') (sh_retryWorkspaces s')) workspaces"
  shows "step = StepIdle \<and> due = [] \<or>
      (\<exists>q e. step = StepRun q \<and> e \<in> set due \<and> qw_entry q = el_entry e \<and>
         Some (qw_reason q) = dueReason m (sh_retryWorkspaces s') e \<and>
         (\<forall>e' \<in> set due. groupOf s' e \<le> groupOf s' e'))"
    and "sk_round (sh_schedule s') = RecPlanned revision
      (jmap_of (map (\<lambda>e. (eligiblePath e, the (dueReason m (sh_retryWorkspaces s') e))) due))"
proof -
  obtain found runs retries where d: "dueFrom m revision workspaces (sh_runs s, sh_retryWorkspaces s) = (found, runs, retries)"
    by (cases "dueFrom m revision workspaces (sh_runs s, sh_retryWorkspaces s)")
  define s1 where "s1 = explain m revision workspaces found (s\<lparr>sh_runs := runs, sh_retryWorkspaces := retries\<rparr>)"
  define queue where "queue = map (\<lambda>w. \<lparr>qw_entry = el_entry w, qw_reason = el_reason w,
      qw_group = queueGroup (entryPath (el_entry w)) (el_latest w) (sh_directTargets s1)\<rparr>) found"
  have p: "step = (case orderQueue queue of [] \<Rightarrow> StepIdle | q # _ \<Rightarrow> StepRun q)"
    "s' = onSchedule (planned revision (jmap_of (map (\<lambda>w. (entryPath (el_entry w), el_reason w)) found))) s1"
    using assms(1) by (simp_all add: planRuns_def d Let_def s1_def queue_def)
  have k: "sh_runs s' = runs" "sh_retryWorkspaces s' = retries" "sh_directTargets s' = sh_directTargets s1"
    "sh_retryWorkspaces s1 = retries"
    by (simp_all add: p(2) onSchedule_def s1_def)
  have found: "found = map (asDue m retries) due"
    using dueFrom_exact(3) [OF d assms(2)] by (simp add: due_def k)
  show "sk_round (sh_schedule s') = RecPlanned revision
      (jmap_of (map (\<lambda>e. (eligiblePath e, the (dueReason m (sh_retryWorkspaces s') e))) due))"
    by (simp add: p(2) onSchedule_def planned_def move_def found k comp_def asDue_def EligibleWorkspace.defs eligiblePath_def)
  have queue: "queue = map (\<lambda>e. \<lparr>qw_entry = el_entry e, qw_reason = the (dueReason m retries e), qw_group = groupOf s' e\<rparr>) due"
    by (simp add: queue_def found comp_def asDue_def EligibleWorkspace.defs eligiblePath_def groupOf_def k)
  show "step = StepIdle \<and> due = [] \<or>
      (\<exists>q e. step = StepRun q \<and> e \<in> set due \<and> qw_entry q = el_entry e \<and>
         Some (qw_reason q) = dueReason m (sh_retryWorkspaces s') e \<and>
         (\<forall>e' \<in> set due. groupOf s' e \<le> groupOf s' e'))"
  proof (cases "orderQueue queue")
    case Nil
    then have "due = []" using orderQueue_Nil [of queue] by (simp add: queue)
    with Nil show ?thesis by (simp add: p(1))
  next
    case (Cons q rest)
    note h = orderQueue_head [OF Cons]
    from h(1) obtain e where e: "e \<in> set due" "qw_entry q = el_entry e" "qw_reason q = the (dueReason m retries e)"
      "qw_group q = groupOf s' e" by (auto simp: queue)
    have "dueReason m retries e \<noteq> None" using e(1) by (simp add: due_def isDue_def k)
    moreover have "\<forall>e' \<in> set due. groupOf s' e \<le> groupOf s' e'"
    proof
      fix e' assume "e' \<in> set due"
      then have "\<lparr>qw_entry = el_entry e', qw_reason = the (dueReason m retries e'), qw_group = groupOf s' e'\<rparr> \<in> set queue"
        by (auto simp: queue)
      from h(2) [OF this] show "groupOf s' e \<le> groupOf s' e'" by (simp add: e(4))
    qed
    ultimately show ?thesis using e Cons by (auto simp: p(1) k)
  qed
qed

lemma eligible_distinct:
  "distinct (map entryPath (discoveredWorkspaces (vw_results (pm_view m)))) \<Longrightarrow> distinct (map eligiblePath (eligible m))"
  by (simp add: eligible_def Let_def comp_def eligiblePath_def distinct_map_filter)

section \<open>Properties\<close>


definition sampleWorkspace :: Workspace where
  "sampleWorkspace = \<lparr>ws_path = ''a'', ws_directory = ''/r/a''\<rparr>"

text \<open>A moment at which the one confirmed workspace has no stored run, and the discovery is current.\<close>

definition sampleFacts :: InputFacts where
  "sampleFacts = \<lparr>if_revision = 3, if_reconciliation = ReconciliationComplete, if_lastReconciledAt = None,
     if_watcher = WatcherHealthy, if_pendingChanges = 0, if_gitUnread = []\<rparr>"

definition samplePlan :: PlanMoment where
  "samplePlan =
     \<lparr>pm_view = \<lparr>vw_results = \<lparr>lr_discovery = Some \<lparr>sb_adapterVersion = VITEST_ADAPTER_VERSION,
            sb_inputFingerprint = FingerprintDigest ''d'', st_discoveryId = ''1'',
            st_discovery = \<lparr>td_workspaces = [WsFailed sampleWorkspace sampleFailure], td_notRead = [], td_notCovered = None\<rparr>\<rparr>,
          lr_discoveryRefusal = None, lr_latestRuns = [], lr_runRefusals = [], lr_evidenceRefusals = []\<rparr>,
        vw_inputs = \<lparr>ci_facts = sampleFacts, ci_unavailable = None, ci_nonInputsUnusable = None,
          ci_inputsNotNarrowed = None, ci_snapshot = Some \<lparr>pi_root = ''/r'', pi_digests = [], pi_listed = []\<rparr>,
          ci_workspaceFingerprint = (\<lambda>_. Digest ''w''), ci_discoveryFingerprint = (\<lambda>_. Digest ''d''),
          ci_protectedFileChangedSince = (\<lambda>_ _. None)\<rparr>\<rparr>,
      pm_narrowing = \<lparr>qn_discoveryId = None, qn_state = None, qn_buildsEnded = None\<rparr>,
      pm_placing = (\<lambda>_ _ _. Inl []),
      pm_start = \<lparr>ct_consumerRoot = ''/r'', ct_workspaces = [\<lparr>cw_path = ''a'', cw_configFile = ''a/vitest.config.ts''\<rparr>]\<rparr>,
      pm_periodicReconciliations = 0, pm_now = 0\<rparr>"

lemma samplePlan_distinct: "distinct (map entryPath (discoveredWorkspaces (vw_results (pm_view samplePlan))))"
  by code_simp

lemma samplePlan_runs: "\<exists>q. fst (plan samplePlan 3 newScheduler) = StepRun q"
proof -
  have "case fst (plan samplePlan 3 newScheduler) of StepRun q \<Rightarrow> True | _ \<Rightarrow> False" by code_simp
  then show ?thesis by (auto split: Step.splits)
qed


end
