(* ===== verification/SchedulerSteps.thy ===== *)
theory SchedulerSteps
  imports Scheduler
begin

text \<open>
  The scheduler's loop (\<^verbatim>\<open>start\<close>, \<^verbatim>\<open>#step\<close> and \<^verbatim>\<open>#quiesce\<close> of \<^verbatim>\<open>daemon/scheduler.ts\<close>) as a state
  machine: a phase, which is where the loop awaits, and the scheduler's state. An event is what the
  awaited promise brings: the moment the loop resumes at, or the outcome of the job. A job's throw is
  logged, holds the round and begins the loop again; the other calls on the scheduler come at any
  phase. Every state such events lead to keeps the invariant of the histories, and at one input revision
  with no retry armed the loop runs a workspace at most twice.
\<close>

section \<open>The loop\<close>

datatype Phase =
    PhStart
  | PhWindow
  | PhSettling
  | PhBuilding
  | PhPlan nat
  | PhDiscover BegunDiscovery
  | PhRun StartedRun
  | PhFalsify
  | PhIdle

datatype SchedulerEvent =
    RoundBegan nat
  | WindowTurn nat nat nat
  | InputsSettled nat
  | BuildEnded nat
  | Planned PlanMoment
  | DiscoverSettled "DiscoverReport JobOutcome" SettleMoment string
  | RunSettled "RunReport JobOutcome" SettleMoment string
  | FalsifySettled "bool option" string
  | IdleTurn nat nat
  | EditsReported "string list"
  | EditsRead nat

text \<open>What \<^verbatim>\<open>#step\<close> does with the plan it made.\<close>

fun takeStep :: "nat \<Rightarrow> Step \<Rightarrow> Scheduler \<Rightarrow> Phase \<times> Scheduler" where
  "takeStep revision StepAgain s = (PhStart, s)"
| "takeStep revision (StepWait ms) s = (PhStart, s)"
| "takeStep revision StepDiscover s = (case beginDiscover revision s of (begun, s') \<Rightarrow> (PhDiscover begun, s'))"
| "takeStep revision (StepRun q) s = (case beginRun q revision s of (started, s') \<Rightarrow> (PhRun started, s'))"
| "takeStep revision StepIdle s = (PhFalsify, beginFalsify revision s)"

text \<open>A job's throw goes through the loop's catch, any other outcome begins the loop again.\<close>

definition afterJob :: "'r JobOutcome \<Rightarrow> string \<Rightarrow> Scheduler \<Rightarrow> Phase \<times> Scheduler" where
  "afterJob outcome failure s =
     (PhStart, case outcome of JobThrew \<Rightarrow> stepThrew failure s | _ \<Rightarrow> s)"

text \<open>One step; none when the loop does not await the event at the phase.\<close>

definition schedulerStep :: "SchedulerEvent \<Rightarrow> Phase \<times> Scheduler \<Rightarrow> (Phase \<times> Scheduler) option" where
  "schedulerStep event st =
     (case st of (phase, s) \<Rightarrow>
      case event of
        RoundBegan revision \<Rightarrow>
          (case phase of PhStart \<Rightarrow> Some (PhWindow, onSchedule (waiting WaitQuietWindow revision) s) | _ \<Rightarrow> None)
      | WindowTurn quietWindowMs revision now \<Rightarrow>
          (case phase of
             PhWindow \<Rightarrow>
               (case quietWindow quietWindowMs revision now s of
                  (rest, s') \<Rightarrow>
                    Some (if rest > 0 then (PhWindow, s')
                          else (PhSettling, onSchedule (waiting WaitInputsSettling revision) s')))
           | _ \<Rightarrow> None)
      | InputsSettled revision \<Rightarrow>
          (case phase of PhSettling \<Rightarrow> Some (PhBuilding, onSchedule (waiting WaitDependencyBuild revision) s) | _ \<Rightarrow> None)
      | BuildEnded revision \<Rightarrow>
          (case phase of
             PhBuilding \<Rightarrow> Some (if sh_windowRevision s = Some revision then (PhPlan revision, s) else (PhStart, s))
           | _ \<Rightarrow> None)
      | Planned m \<Rightarrow>
          (case phase of
             PhPlan revision \<Rightarrow> (case plan m revision s of (step, s') \<Rightarrow> Some (takeStep revision step s'))
           | _ \<Rightarrow> None)
      | DiscoverSettled outcome moment failure \<Rightarrow>
          (case phase of
             PhDiscover begun \<Rightarrow> Some (afterJob outcome failure (settleDiscover begun outcome moment s))
           | _ \<Rightarrow> None)
      | RunSettled outcome moment failure \<Rightarrow>
          (case phase of
             PhRun started \<Rightarrow> Some (afterJob outcome failure (settleRun started outcome moment s))
           | _ \<Rightarrow> None)
      | FalsifySettled outcome failure \<Rightarrow>
          (case phase of
             PhFalsify \<Rightarrow>
               Some (case outcome of
                   Some again \<Rightarrow> (if again then PhStart else PhIdle, settleFalsify again s)
                 | None \<Rightarrow> (PhStart, stepThrew failure (settleFalsify False s)))
           | _ \<Rightarrow> None)
      | IdleTurn revision periodicReconciliations \<Rightarrow>
          (case phase of
             PhIdle \<Rightarrow>
               (case idleTurn revision periodicReconciliations s of
                  (again, s') \<Rightarrow> Some (if again then PhStart else PhIdle, s'))
           | _ \<Rightarrow> None)
      | EditsReported ks \<Rightarrow> Some (phase, snd (schedulerReportEdits ks s))
      | EditsRead report \<Rightarrow> Some (phase, s\<lparr>sh_runs := onChanges (readReport report) (sh_runs s)\<rparr>))"

fun runScheduler :: "SchedulerEvent list \<Rightarrow> Phase \<times> Scheduler \<Rightarrow> (Phase \<times> Scheduler) option" where
  "runScheduler [] st = Some st"
| "runScheduler (event # events) st = Option.bind (schedulerStep event st) (runScheduler events)"

text \<open>A stored discovery lists a workspace once.\<close>

definition wellListed :: "SchedulerEvent \<Rightarrow> bool" where
  "wellListed event = (case event of
     Planned m \<Rightarrow> distinct (map entryPath (discoveredWorkspaces (vw_results (pm_view m)))) | _ \<Rightarrow> True)"

inductive reachable :: "Phase \<times> Scheduler \<Rightarrow> bool" where
  reachable_start: "reachable (PhStart, startScheduler periodicReconciliations newScheduler)"
| reachable_step: "reachable st \<Longrightarrow> wellListed event \<Longrightarrow> schedulerStep event st = Some st' \<Longrightarrow> reachable st'"

section \<open>What each part keeps\<close>

text \<open>The parts of the state the invariant reads, so that what only logs or waits leaves it as it was.\<close>

definition sameHistories :: "Scheduler \<Rightarrow> Scheduler \<Rightarrow> bool" where
  "sameHistories s s' \<longleftrightarrow> sh_runs s' = sh_runs s \<and> sh_discoveries s' = sh_discoveries s \<and>
     sh_retryWorkspaces s' = sh_retryWorkspaces s \<and> sh_periodicSeen s' = sh_periodicSeen s \<and>
     sh_periodicOwed s' = sh_periodicOwed s"

definition runningJobs :: "Phase \<Rightarrow> Job list" where
  "runningJobs phase = (case phase of PhDiscover _ \<Rightarrow> [DISCOVERY] | PhRun started \<Rightarrow> [Some (sd_path started)] | _ \<Rightarrow> [])"

definition inJob :: "Phase \<Rightarrow> bool" where
  "inJob phase = (case phase of PhDiscover _ \<Rightarrow> True | PhRun _ \<Rightarrow> True | PhFalsify \<Rightarrow> True | _ \<Rightarrow> False)"

text \<open>What the loop keeps of a run in progress, and of a discovery in progress.\<close>

definition runInProgress :: "StartedRun \<Rightarrow> Scheduler \<Rightarrow> bool" where
  "runInProgress started s \<longleftrightarrow>
     br_path (sd_begun started) = sd_path started \<and> \<not> isHeld (sd_path started) (sh_runs s) \<and>
     sd_path started \<notin> set (sh_retryWorkspaces s) \<and>
     (case map_of (rh_attempts (sh_runs s)) (sd_path started) of
        None \<Rightarrow> False
      | Some a \<Rightarrow> at_revision a = sd_plannedAt started \<and> at_modules a = br_modules (sd_begun started) \<and>
          at_nothingStored a \<and> \<not> at_rerunOwed a)"

definition discoveryInProgress :: "BegunDiscovery \<Rightarrow> Scheduler \<Rightarrow> bool" where
  "discoveryInProgress begun s \<longleftrightarrow>
     dh_held (sh_discoveries s) = None \<and> \<not> dh_retry (sh_discoveries s) \<and>
     (case dh_attempt (sh_discoveries s) of
        None \<Rightarrow> False
      | Some a \<Rightarrow> da_revision a = bd_revision begun \<and> \<not> da_stored a \<and> da_onceMoreFrom a = None)"

definition schedulerInv :: "Phase \<times> Scheduler \<Rightarrow> bool" where
  "schedulerInv st = (case st of (phase, s) \<Rightarrow>
     discoveryInv (sh_discoveries s) \<and> reached (rh_changes (sh_runs s)) \<and>
     set (keys (cr_running (rh_changes (sh_runs s)))) = set (runningJobs phase) \<and>
     (sk_jobRevision (sh_schedule s) \<noteq> None \<longleftrightarrow> inJob phase) \<and>
     (\<forall>started. phase = PhRun started \<longrightarrow> runInProgress started s) \<and>
     (\<forall>begun. phase = PhDiscover begun \<longrightarrow> discoveryInProgress begun s))"

section \<open>The invariant\<close>

lemma onSchedule_same [simp]: "sameHistories s (onSchedule f s)" "sameHistories s (schedulerEntry text s)"
  by (simp_all add: sameHistories_def onSchedule_def schedulerEntry_def)

lemma schedule_onSchedule [simp]: "sh_schedule (onSchedule f s) = f (sh_schedule s)"
  by (simp add: onSchedule_def)

lemma schedule_entry [simp]: "sh_schedule (schedulerEntry text s) = sh_schedule s"
  by (simp add: schedulerEntry_def)

lemma jobRevision_simps [simp]:
  "sk_jobRevision (move k) = sk_jobRevision k"
  "sk_jobRevision (pending w k) = sk_jobRevision k"
  "sk_jobRevision (waiting w revision k) = sk_jobRevision k"
  "sk_jobRevision (planned revision due k) = sk_jobRevision k"
  "sk_jobRevision (selected explanation k) = sk_jobRevision k"
  "sk_jobRevision (heldRound failure k) = sk_jobRevision k"
  "sk_jobRevision (leaveDue path k) = sk_jobRevision k"
  "sk_jobRevision (requeue path reason k) = sk_jobRevision k"
  "sk_jobRevision (scheduleRunEnded path run again k) = sk_jobRevision k"
  "sk_jobRevision (scheduleRunThrew path k) = sk_jobRevision k"
  "sk_jobRevision (duringBegan revision k) = Some revision"
  "sk_jobRevision (duringSettled k) = None"
proof -
  show m: "sk_jobRevision (move k) = sk_jobRevision k" for k by (simp add: move_def)
  show p: "sk_jobRevision (pending w k) = sk_jobRevision k" for k by (simp add: pending_def m)
  show "sk_jobRevision (waiting w revision k) = sk_jobRevision k"
    by (simp add: waiting_def m p Let_def split: RecordedRound.splits)
  show l: "sk_jobRevision (leaveDue path k) = sk_jobRevision k" for k
    by (simp add: leaveDue_def split: RecordedRound.splits)
  show r: "sk_jobRevision (requeue path reason k) = sk_jobRevision k" for reason k
    by (simp add: requeue_def split: RecordedRound.splits)
  show "sk_jobRevision (scheduleRunEnded path run again k) = sk_jobRevision k"
    by (simp add: scheduleRunEnded_def m l r Let_def split: option.splits)
  show "sk_jobRevision (scheduleRunThrew path k) = sk_jobRevision k"
    by (simp add: scheduleRunThrew_def m l Let_def)
qed (simp_all add: planned_def selected_def heldRound_def duringBegan_def duringSettled_def move_def)

lemma reached_observed: "reached r \<Longrightarrow> reached (observed digests r)"
  using reached_step [of r "Observed digests"] by simp

lemma reached_began: "reached r \<Longrightarrow> reached (jobBegan job r)"
  using reached_step [of r "Began job"] by simp

lemma reached_notBegun: "reached r \<Longrightarrow> reached (jobNotBegun job r)"
  using reached_step [of r "NotBegun job"] by simp

lemma reached_threw: "reached r \<Longrightarrow> reached (jobThrew job r)"
  using reached_step [of r "Threw job"] by simp

lemma reached_reported: "reached r \<Longrightarrow> reached (snd (reportEdits ks r))"
  using reached_step [of r "Reported ks"] by simp

lemma reached_read: "reached r \<Longrightarrow> reached (readReport i r)"
  using reached_step [of r "ReadReport i"] by simp

lemmas reached_rules = reached_observed reached_began reached_notBegun reached_threw reached_reported reached_read

lemma running_simps [simp]:
  "cr_running (onSubjects f r) = cr_running r" "cr_running (startAfresh job r) = cr_running r"
  "cr_running (everywhere r) = cr_running r" "cr_running (interval digests r) = cr_running r"
  "cr_running (observed digests r) = cr_running r" "cr_running (readReport i r) = cr_running r"
  "set (keys (cr_running (jobBegan job r))) = insert job (set (keys (cr_running r)))"
  "set (keys (cr_running (jobNotBegun job r))) = set (keys (cr_running r)) - {job}"
  "set (keys (cr_running (jobThrew job r))) = set (keys (cr_running r)) - {job}"
  "set (keys (cr_running (jobEnded window job r))) = set (keys (cr_running r)) - {job}"
  "keys (cr_running (snd (reportEdits ks r))) = keys (cr_running r)"
proof -
  show o: "cr_running (onSubjects f r) = cr_running r" for f r by (simp add: onSubjects_def)
  show a: "cr_running (startAfresh job r) = cr_running r" for job r by (simp add: startAfresh_def)
  show e: "cr_running (everywhere r) = cr_running r" for r by (simp add: everywhere_def o)
  show i: "cr_running (interval digests r) = cr_running r" for digests r
    by (simp add: interval_def Let_def o e split: option.splits)
  show "cr_running (observed digests r) = cr_running r" by (simp add: observed_def i)
  show "cr_running (readReport i r) = cr_running r" by (simp add: readReport_def)
  show "set (keys (cr_running (jobBegan job r))) = insert job (set (keys (cr_running r)))"
    by (simp add: jobBegan_def keys_jset_set)
  show "set (keys (cr_running (jobNotBegun job r))) = set (keys (cr_running r)) - {job}"
    by (auto simp: jobNotBegun_def keys_jdel)
  show "set (keys (cr_running (jobThrew job r))) = set (keys (cr_running r)) - {job}"
    by (auto simp: jobThrew_def a keys_jdel)
  show "set (keys (cr_running (jobEnded window job r))) = set (keys (cr_running r)) - {job}"
    by (auto simp: jobEnded_def Let_def o a e i keys_jdel)
  show "keys (cr_running (snd (reportEdits ks r))) = keys (cr_running r)"
    by (simp add: reportEdits_def Let_def o keys_def comp_def split_def)
qed

text \<open>Deciding changes no record of changes.\<close>

lemma decide_changes:
  assumes "decide placing due h = (b, h')"
  shows "rh_changes h' = rh_changes h"
proof -
  have i: "rh_changes h2 = rh_changes h1" if "insideInputs placing due paths h1 = (r, h2)" for paths r h1 h2
    using that by (auto simp: insideInputs_def logEntry_def split: sum.splits)
  have e: "rh_changes h2 = rh_changes h1" if "editedInputs placing due changes h1 = (r, h2)" for changes r h1 h2
    using that by (auto simp: editedInputs_def split: option.splits prod.splits if_splits dest: i)
  have n: "rh_changes h2 = rh_changes h1" if "nextCount placing due h1 = (c, h2)" for c h1 h2
  proof -
    define kept where "kept a b \<longleftrightarrow> rh_changes b = rh_changes a" for a b :: RunHistory
    have e': "kept a b" if "editedInputs placing due changes a = (r, b)" for changes r a b
      using e [OF that] by (simp add: kept_def)
    have i': "kept a b" if "insideInputs placing due paths a = (r, b)" for paths r a b
      using i [OF that] by (simp add: kept_def)
    have trans: "kept a d" if "kept a b" "kept b d" for a b d using that by (simp add: kept_def)
    have "kept h1 h1" by (simp add: kept_def)
    then have "kept h1 h2"
      using that
      by (auto simp: nextCount_def Let_def split: option.splits prod.splits bool.splits if_splits dest!: e' i' intro: trans)
    then show ?thesis by (simp add: kept_def)
  qed
  have c: "rh_changes h2 = rh_changes h1" if "decideCount placing due h1 = (r, h2)" for r h1 h2
    using that by (auto simp: decideCount_def Let_def logEntry_def split: prod.splits if_splits dest: n)
  obtain edited h1 where ed: "editedInputs placing due (changesOf (Some (entryPath (du_entry due))) (rh_changes h)) h = (edited, h1)"
    by (cases "editedInputs placing due (changesOf (Some (entryPath (du_entry due))) (rh_changes h)) h")
  from assms e [OF ed] show ?thesis
    by (cases edited) (auto simp: decide_def Let_def ed logEntry_def split: if_splits dest!: c)
qed

lemma dueFrom_changes:
  "dueFrom m revision es (runs, retries) = (due, runs', retries') \<Longrightarrow>
     rh_changes runs' = rh_changes runs \<and> set retries' \<subseteq> set retries"
proof (induction es arbitrary: runs retries due)
  case (Cons e es)
  show ?case
  proof (cases "decide (pm_placing m) \<lparr>du_entry = el_entry e, du_retryOnly = (staleAt (vw_inputs (pm_view m)) e = None),
      du_fingerprinted = fingerprintOk (ci_workspaceFingerprint (vw_inputs (pm_view m)) (el_entry e)),
      du_placement = roundPlacement (vw_inputs (pm_view m)) (pm_narrowing m)\<rparr> runs")
    case (Pair b runs1)
    note k = decide_changes [OF Pair]
    from Cons.prems show ?thesis
      by (auto simp: Let_def Pair [simplified] k split: option.splits bool.splits if_splits prod.splits dest!: Cons.IH)
  qed
qed simp

lemma explain_same:
  "sameHistories s (explain m revision workspaces due s) \<and>
   sk_jobRevision (sh_schedule (explain m revision workspaces due s)) = sk_jobRevision (sh_schedule s)"
proof -
  define same where "same a b \<longleftrightarrow> sameHistories a b \<and> sk_jobRevision (sh_schedule b) = sk_jobRevision (sh_schedule a)"
    for a b :: Scheduler
  have refl: "same a a" for a by (simp add: same_def sameHistories_def)
  have announce: "same a b \<Longrightarrow> same a (announce revision w b)" for a b w
    by (simp add: same_def sameHistories_def announce_def schedulerEntry_def Let_def)
  have all: "same a b \<Longrightarrow> same a (fold (announce revision) due b)" for a b
    by (induction due arbitrary: b) (simp_all add: announce)
  have "same s (explain m revision workspaces due s)"
    unfolding explain_def
    by (rule all) (auto simp: same_def sameHistories_def onSchedule_def split: prod.splits)
  then show ?thesis by (simp add: same_def)
qed

lemma planRuns_keeps:
  assumes "planRuns m revision workspaces s = (step, s')"
  shows "rh_changes (sh_runs s') = rh_changes (sh_runs s)"
    and "set (sh_retryWorkspaces s') \<subseteq> set (sh_retryWorkspaces s)"
    and "sh_discoveries s' = sh_discoveries s"
    and "sk_jobRevision (sh_schedule s') = sk_jobRevision (sh_schedule s)"
    and "sh_periodicSeen s' = sh_periodicSeen s \<and> sh_periodicOwed s' = sh_periodicOwed s"
    and "distinct (map eligiblePath workspaces) \<Longrightarrow> rh_attempts (sh_runs s') = rh_attempts (sh_runs s)"
proof -
  obtain found runs retries where d: "dueFrom m revision workspaces (sh_runs s, sh_retryWorkspaces s) = (found, runs, retries)"
    by (cases "dueFrom m revision workspaces (sh_runs s, sh_retryWorkspaces s)")
  define s0 where "s0 = s\<lparr>sh_runs := runs, sh_retryWorkspaces := retries\<rparr>"
  define s1 where "s1 = explain m revision workspaces found s0"
  have s': "s' = onSchedule (planned revision (jmap_of (map (\<lambda>w. (entryPath (el_entry w), el_reason w)) found))) s1"
    using assms by (simp add: planRuns_def d Let_def s1_def s0_def)
  have same: "sameHistories s0 s1" "sk_jobRevision (sh_schedule s1) = sk_jobRevision (sh_schedule s)"
    using explain_same [of s0 m revision workspaces found] by (simp_all add: s1_def) (simp add: s0_def)
  then have eqs: "sh_runs s' = runs" "sh_retryWorkspaces s' = retries" "sh_discoveries s' = sh_discoveries s"
    "sh_periodicSeen s' = sh_periodicSeen s \<and> sh_periodicOwed s' = sh_periodicOwed s"
    by (simp_all add: s' onSchedule_def sameHistories_def s0_def)
  show "rh_changes (sh_runs s') = rh_changes (sh_runs s)" and "set (sh_retryWorkspaces s') \<subseteq> set (sh_retryWorkspaces s)"
    using dueFrom_changes [OF d] by (simp_all add: eqs)
  show "sh_discoveries s' = sh_discoveries s" and "sh_periodicSeen s' = sh_periodicSeen s \<and> sh_periodicOwed s' = sh_periodicOwed s"
    by (simp_all add: eqs)
  show "sk_jobRevision (sh_schedule s') = sk_jobRevision (sh_schedule s)" by (simp add: s' same)
  show "rh_attempts (sh_runs s') = rh_attempts (sh_runs s)" if "distinct (map eligiblePath workspaces)"
    using dueFrom_exact(1) [OF d that] by (simp add: eqs)
qed

lemma armRetries_keeps:
  "sh_runs (armRetries m workspaces revision s) = sh_runs s"
  "sk_jobRevision (sh_schedule (armRetries m workspaces revision s)) = sk_jobRevision (sh_schedule s)"
  "discoveryInv (sh_discoveries s) \<Longrightarrow> discoveryInv (sh_discoveries (armRetries m workspaces revision s))"
  by (simp_all add: armRetries_def schedulerEntry_def armRetry_inv Let_def split_def)

text \<open>Without a retry owed, nothing is armed.\<close>

definition noRetry :: "nat \<Rightarrow> Scheduler \<Rightarrow> bool" where
  "noRetry n s \<longleftrightarrow> sh_periodicSeen s = n \<and> \<not> sh_periodicOwed s \<and> sh_retryWorkspaces s = [] \<and> \<not> dh_retry (sh_discoveries s)"

lemma armRetries_none: "noRetry (pm_periodicReconciliations m) s \<Longrightarrow> armRetries m workspaces revision s = s"
  by (simp add: armRetries_def noRetry_def)

text \<open>What holds of the state a plan leaves, by the step it makes.\<close>

lemma plan_keeps:
  assumes "plan m revision s = (step, s')"
  shows "discoveryInv (sh_discoveries s) \<Longrightarrow> discoveryInv (sh_discoveries s')"
    and "reached (rh_changes (sh_runs s)) \<Longrightarrow> reached (rh_changes (sh_runs s'))"
    and "cr_running (rh_changes (sh_runs s')) = cr_running (rh_changes (sh_runs s))"
    and "sk_jobRevision (sh_schedule s') = sk_jobRevision (sh_schedule s)"
    and "dh_attempt (sh_discoveries s') = dh_attempt (sh_discoveries s)"
    and "distinct (map entryPath (discoveredWorkspaces (vw_results (pm_view m)))) \<Longrightarrow>
      rh_attempts (sh_runs s') = rh_attempts (sh_runs s)"
    and "step = StepDiscover \<Longrightarrow> dh_held (sh_discoveries s') = None"
    and "noRetry (pm_periodicReconciliations m) s \<Longrightarrow> noRetry (pm_periodicReconciliations m) s'"
    and "step = StepDiscover \<Longrightarrow> \<exists>inEffect. dueDiscovery (pm_now m) (sh_windowStart s') revision inEffect (sh_discoveries s') \<noteq> None"
    and "step = StepRun q \<Longrightarrow> \<exists>s4. rh_attempts (sh_runs s4) = rh_attempts (sh_runs s) \<and>
      planRuns m revision (eligible m) s4 = (step, s')"
proof -
  define inputs where "inputs = vw_inputs (pm_view m)"
  define inEffect where "inEffect = discoveryInEffect (vw_results (pm_view m)) inputs"
  define s2 where "s2 = (noteRevision revision s)\<lparr>sh_runs :=
    runsObserved (map_option comparedDigests (ci_snapshot inputs)) (sh_runs (noteRevision revision s))\<rparr>"
  define s3 where "s3 = s2\<lparr>sh_discoveries := decideDiscovery inEffect (sh_runs s2) (sh_discoveries s2)\<rparr>"
  define s4 where "s4 = armRetries m (eligible m) revision s3"
  have p: "(step, s') =
     (if if_revision (ci_facts inputs) \<noteq> revision then (StepAgain, s)
      else case dueDiscovery (pm_now m) (sh_windowStart s4) revision inEffect (sh_discoveries s4) of
          Some wait \<Rightarrow>
            (let s5 = onSchedule (pending WaitRediscovery) s4 in
             if wait > 0 then (StepWait wait, s5) else (StepDiscover, s5\<lparr>sh_dirty := True\<rparr>))
        | None \<Rightarrow> planRuns m revision (eligible m) s4)"
    unfolding assms [symmetric] plan_def Let_def inputs_def inEffect_def s2_def s3_def s4_def ..
  have s2: "sh_discoveries s2 = sh_discoveries s" "rh_attempts (sh_runs s2) = rh_attempts (sh_runs s)"
    "rh_changes (sh_runs s2) = observed (map_option comparedDigests (ci_snapshot inputs)) (rh_changes (sh_runs s))"
    "sk_jobRevision (sh_schedule s2) = sk_jobRevision (sh_schedule s)"
    "noRetry n s \<Longrightarrow> noRetry n s2" for n
    by (simp_all add: s2_def noteRevision_def runsObserved_def onChanges_def noRetry_def)
  have armed: "dh_attempt (sh_discoveries (armRetries m w revision t)) = dh_attempt (sh_discoveries t)" for w t
    by (auto simp: armRetries_def armRetry_def schedulerEntry_def Let_def split: if_splits)
  have s4: "sh_runs s4 = sh_runs s2" "dh_attempt (sh_discoveries s4) = dh_attempt (sh_discoveries s)"
    "sk_jobRevision (sh_schedule s4) = sk_jobRevision (sh_schedule s)"
    "discoveryInv (sh_discoveries s) \<Longrightarrow> discoveryInv (sh_discoveries s4)"
    by (simp_all add: s4_def s3_def armRetries_keeps armed s2 decideDiscovery_inv)
  have retry: "\<not> dh_retry h \<Longrightarrow> \<not> dh_retry (decideDiscovery e r h)" for e r h
  proof -
    have hold: "\<not> dh_retry h \<Longrightarrow> \<not> dh_retry (holdAt c h)" for c h
      by (simp add: holdAt_def holdDiscovery_def Let_def split: option.split)
    show "\<not> dh_retry h \<Longrightarrow> \<not> dh_retry (decideDiscovery e r h)"
      by (simp add: decideDiscovery_def decideUnheld_def hold Let_def split: option.split)
  qed
  have noRetry4: "noRetry (pm_periodicReconciliations m) s4" if "noRetry (pm_periodicReconciliations m) s"
  proof -
    have "noRetry (pm_periodicReconciliations m) s3" using s2(5) [OF that] by (simp add: s3_def noRetry_def retry)
    then show ?thesis by (simp add: s4_def armRetries_none)
  qed
  consider (again) "step = StepAgain" "s' = s" | (discover) wait where "step = StepWait wait \<or> step = StepDiscover"
      "sameHistories s4 s'" "sk_jobRevision (sh_schedule s') = sk_jobRevision (sh_schedule s4)" "sh_windowStart s' = sh_windowStart s4"
      "dueDiscovery (pm_now m) (sh_windowStart s4) revision inEffect (sh_discoveries s4) = Some wait"
    | (runs) "planRuns m revision (eligible m) s4 = (step, s')"
  proof (cases "if_revision (ci_facts inputs) \<noteq> revision")
    case True
    with p show ?thesis by (intro that(1)) simp_all
  next
    case False
    show ?thesis
    proof (cases "dueDiscovery (pm_now m) (sh_windowStart s4) revision inEffect (sh_discoveries s4)")
      case None
      with p False show ?thesis by (intro that(3)) simp
    next
      case (Some wait)
      with p False have "step = StepWait wait \<or> step = StepDiscover"
        "s' = onSchedule (pending WaitRediscovery) s4 \<or> s' = (onSchedule (pending WaitRediscovery) s4)\<lparr>sh_dirty := True\<rparr>"
        by (simp_all add: Let_def split: if_splits)
      then show ?thesis
        using Some by (intro that(2) [of wait]) (auto simp: onSchedule_def sameHistories_def)
    qed
  qed
  note cs = this
  have held: "dueDiscovery now changedAt r e h = Some w \<Longrightarrow> dh_held h = None" for now changedAt r e h w
    by (rule ccontr) (simp add: dueDiscovery_held)
  have plain: "planRuns m revision (eligible m) s4 = (StepDiscover, t) \<Longrightarrow> False" for t
    by (auto simp: planRuns_def Let_def split: prod.splits list.splits)
  show "discoveryInv (sh_discoveries s')" if "discoveryInv (sh_discoveries s)"
    using cs s4(4) [OF that] that by cases (simp_all add: sameHistories_def planRuns_keeps)
  show "reached (rh_changes (sh_runs s'))" if "reached (rh_changes (sh_runs s))"
    using cs that by cases (simp_all add: sameHistories_def planRuns_keeps s4 s2 reached_rules)
  show "cr_running (rh_changes (sh_runs s')) = cr_running (rh_changes (sh_runs s))"
    using cs by cases (simp_all add: sameHistories_def planRuns_keeps s4 s2)
  show "sk_jobRevision (sh_schedule s') = sk_jobRevision (sh_schedule s)"
    using cs by cases (simp_all add: planRuns_keeps s4)
  show "dh_attempt (sh_discoveries s') = dh_attempt (sh_discoveries s)"
    using cs by cases (simp_all add: sameHistories_def planRuns_keeps s4)
  show "rh_attempts (sh_runs s') = rh_attempts (sh_runs s)"
    if "distinct (map entryPath (discoveredWorkspaces (vw_results (pm_view m))))"
    using cs by cases (simp_all add: sameHistories_def planRuns_keeps(6) [OF _ eligible_distinct [OF that]] s4 s2)
  show "dh_held (sh_discoveries s') = None" if "step = StepDiscover"
    using cs that by cases (auto simp: sameHistories_def dest: held plain)
  show "noRetry (pm_periodicReconciliations m) s'" if "noRetry (pm_periodicReconciliations m) s"
    using cs noRetry4 [OF that] that
    by cases (auto simp: noRetry_def sameHistories_def planRuns_keeps dest: planRuns_keeps(2))
  show "\<exists>e. dueDiscovery (pm_now m) (sh_windowStart s') revision e (sh_discoveries s') \<noteq> None" if "step = StepDiscover"
    using cs that by cases (auto simp: sameHistories_def dest: plain)
  show "\<exists>s4. rh_attempts (sh_runs s4) = rh_attempts (sh_runs s) \<and> planRuns m revision (eligible m) s4 = (step, s')"
    if "step = StepRun q"
    using cs that by cases (auto simp: s4 s2 intro!: exI [of _ s4])
qed

lemma beginRun_leaves:
  assumes "beginRun q revision s = (started, s')"
  shows "sh_discoveries s' = sh_discoveries s" and "sk_jobRevision (sh_schedule s') = Some revision"
    and "rh_changes (sh_runs s') = jobBegan (Some (sd_path started)) (rh_changes (sh_runs s))"
    and "sd_path started = entryPath (qw_entry q)" and "sd_plannedAt started = revision"
    and "br_modules (sd_begun started) = testModulesKey (qw_entry q)"
    and "\<not> isHeld (sd_path started) (sh_runs s) \<Longrightarrow> runInProgress started s'"
    and "p \<noteq> sd_path started \<Longrightarrow> map_of (rh_attempts (sh_runs s')) p = map_of (rh_attempts (sh_runs s)) p"
    and "br_isRerun (sd_begun started) \<longleftrightarrow>
      (case map_of (rh_attempts (sh_runs s)) (sd_path started) of None \<Rightarrow> False
       | Some b \<Rightarrow> at_rerunOwed b \<and> at_revision b = revision \<and> at_modules b = br_modules (sd_begun started))"
    and "noRetry n s \<Longrightarrow> noRetry n s' \<and> \<not> sd_retried started"
    and "sh_windowStart s' = sh_windowStart s"
proof -
  have eqs: "started = fst (beginRun q revision s)" "s' = snd (beginRun q revision s)" using assms by simp_all
  note defs = beginRun_def began_def onSchedule_def schedulerEntry_def Let_def
  show "sh_discoveries s' = sh_discoveries s" and "sk_jobRevision (sh_schedule s') = Some revision"
    and "rh_changes (sh_runs s') = jobBegan (Some (sd_path started)) (rh_changes (sh_runs s))"
    and "sd_path started = entryPath (qw_entry q)" and "sd_plannedAt started = revision"
    and "br_modules (sd_begun started) = testModulesKey (qw_entry q)" and "sh_windowStart s' = sh_windowStart s"
    by (simp_all add: eqs defs)
  show "\<not> isHeld (sd_path started) (sh_runs s) \<Longrightarrow> runInProgress started s'"
    by (simp add: eqs defs runInProgress_def isHeld_def map_of_jset)
  show "p \<noteq> sd_path started \<Longrightarrow> map_of (rh_attempts (sh_runs s')) p = map_of (rh_attempts (sh_runs s)) p"
    by (simp add: eqs defs map_of_jset)
  show "br_isRerun (sd_begun started) \<longleftrightarrow>
      (case map_of (rh_attempts (sh_runs s)) (sd_path started) of None \<Rightarrow> False
       | Some b \<Rightarrow> at_rerunOwed b \<and> at_revision b = revision \<and> at_modules b = br_modules (sd_begun started))"
    by (simp add: eqs defs split: option.split)
  show "noRetry n s \<Longrightarrow> noRetry n s' \<and> \<not> sd_retried started"
    by (simp add: eqs defs noRetry_def)
qed

lemma beginDiscover_leaves:
  assumes "beginDiscover revision s = (begun, s')"
  shows "sh_runs s' = discoveryBegan (sh_runs s)" and "sk_jobRevision (sh_schedule s') = Some revision"
    and "discoveryInv (sh_discoveries s) \<Longrightarrow> discoveryInv (sh_discoveries s')"
    and "dh_held (sh_discoveries s) = None \<Longrightarrow> discoveryInProgress begun s'"
    and "bd_revision begun = revision"
    and "bd_isOnceMore begun \<longleftrightarrow>
      (case dh_attempt (sh_discoveries s) of None \<Rightarrow> False | Some b \<Rightarrow> da_onceMoreFrom b \<noteq> None \<and> da_revision b = revision)"
    and "noRetry n s \<Longrightarrow> noRetry n s'"
  using assms
  by (auto simp: beginDiscover_def beganDiscovery_def onSchedule_def Let_def discoveryInProgress_def
      discoveryInv_def noRetry_def duringBegan_def move_def split: option.splits)

lemma sameHistories_rules:
  "sameHistories s s' \<Longrightarrow> discoveryInv (sh_discoveries s') = discoveryInv (sh_discoveries s)"
  "sameHistories s s' \<Longrightarrow> rh_changes (sh_runs s') = rh_changes (sh_runs s)"
  "sameHistories s s' \<Longrightarrow> rh_attempts (sh_runs s') = rh_attempts (sh_runs s)"
  "sameHistories s s' \<Longrightarrow> noRetry n s' = noRetry n s"
  "sameHistories s s' \<Longrightarrow> runInProgress started s' = runInProgress started s"
  "sameHistories s s' \<Longrightarrow> discoveryInProgress begun s' = discoveryInProgress begun s"
  by (simp_all add: sameHistories_def noRetry_def runInProgress_def discoveryInProgress_def)

text \<open>The step after a plan.\<close>

lemma takeStep_inv:
  assumes "plan m revision s = (step, s')" and "schedulerInv (PhPlan revision, s)"
    and listed: "distinct (map entryPath (discoveredWorkspaces (vw_results (pm_view m))))"
  shows "schedulerInv (takeStep revision step s')"
proof -
  note k = plan_keeps [OF assms(1)]
  have inv: "discoveryInv (sh_discoveries s')" "reached (rh_changes (sh_runs s'))"
    "keys (cr_running (rh_changes (sh_runs s'))) = []" "sk_jobRevision (sh_schedule s') = None"
    using assms(2) k(1-4) by (simp_all add: schedulerInv_def runningJobs_def inJob_def)
  show ?thesis
  proof (cases step)
    case (StepRun q)
    obtain s4 where r: "planRuns m revision (eligible m) s4 = (StepRun q, s')"
      using k(10) [OF StepRun] StepRun by blast
    have "\<not> isHeld (entryPath (qw_entry q)) (sh_runs s')"
      using planRuns_exact(1) [OF r eligible_distinct [OF listed]] by (auto simp: isDue_def eligiblePath_def)
    moreover obtain started t where b: "beginRun q revision s' = (started, t)" by (cases "beginRun q revision s'")
    ultimately show ?thesis
      using inv beginRun_leaves [OF b]
      by (simp add: StepRun b schedulerInv_def runningJobs_def inJob_def reached_rules)
  next
    case StepDiscover
    obtain begun t where b: "beginDiscover revision s' = (begun, t)" by (cases "beginDiscover revision s'")
    show ?thesis
      using inv beginDiscover_leaves [OF b] k(7) [OF StepDiscover]
      by (simp add: StepDiscover b schedulerInv_def runningJobs_def inJob_def reached_rules discoveryBegan_def onChanges_def)
  qed (use inv in \<open>simp_all add: schedulerInv_def runningJobs_def inJob_def beginFalsify_def onSchedule_def duringBegan_def move_def\<close>)
qed

lemma settleDiscover_leaves:
  assumes "settleDiscover begun outcome moment s = s'"
  shows "discoveryInv (sh_discoveries s) \<Longrightarrow> discoveryInProgress begun s \<Longrightarrow> discoveryInv (sh_discoveries s')"
    and "sk_jobRevision (sh_schedule s') = None"
    and "reached (rh_changes (sh_runs s)) \<Longrightarrow> DISCOVERY \<in> set (keys (cr_running (rh_changes (sh_runs s)))) \<Longrightarrow>
      reached (rh_changes (sh_runs s'))"
    and "set (keys (cr_running (rh_changes (sh_runs s')))) = set (keys (cr_running (rh_changes (sh_runs s)))) - {DISCOVERY}"
    and "rh_attempts (sh_runs s') = rh_attempts (sh_runs s)"
    and "noRetry n s \<Longrightarrow> outcome \<noteq> JobNotBegun \<Longrightarrow> noRetry n s'"
proof -
  define r where "r = sh_runs s"
  define h where "h = sh_discoveries s"
  have s': "sh_runs s' = (case outcome of JobThrew \<Rightarrow> discoveryThrew r | JobNotBegun \<Rightarrow> discoveryNotBegun r
      | JobReported report \<Rightarrow> discoveryEnded (dr_window report) r)"
    "sh_discoveries s' = (case outcome of JobThrew \<Rightarrow> h
      | JobNotBegun \<Rightarrow> h\<lparr>dh_attempt := bd_before begun, dh_retry := (dh_retry h \<or> bd_retry begun)\<rparr>
      | JobReported report \<Rightarrow> recordDiscoveryEnd (se_now moment) (se_revision moment) begun report h)"
    "sh_schedule s' = duringSettled (sh_schedule s)" "sh_retryWorkspaces s' = sh_retryWorkspaces s"
    "sh_periodicSeen s' = sh_periodicSeen s" "sh_periodicOwed s' = sh_periodicOwed s"
    using assms
    by (auto simp: settleDiscover_def onSchedule_def Let_def r_def h_def threwDiscovery_def notBegunDiscovery_def
        endedDiscovery_def split: JobOutcome.splits)
  show "discoveryInv (sh_discoveries s')" if "discoveryInv (sh_discoveries s)" "discoveryInProgress begun s"
  proof (cases outcome)
    case (JobReported report)
    then show ?thesis using that(1) by (simp add: s' h_def recordDiscoveryEnd_inv)
  qed (use that in \<open>simp_all add: s' h_def discoveryInv_def discoveryInProgress_def\<close>)
  show "sk_jobRevision (sh_schedule s') = None" by (simp add: s')
  show "reached (rh_changes (sh_runs s'))" if "reached (rh_changes (sh_runs s))"
    "DISCOVERY \<in> set (keys (cr_running (rh_changes (sh_runs s))))"
    using that reached_ended [of "rh_changes r" DISCOVERY]
    by (auto simp: s' r_def discoveryThrew_def discoveryNotBegun_def discoveryEnded_def onChanges_def reached_rules
        jhas_iff split: JobOutcome.splits)
  show "set (keys (cr_running (rh_changes (sh_runs s')))) = set (keys (cr_running (rh_changes (sh_runs s)))) - {DISCOVERY}"
    by (auto simp: s' r_def discoveryThrew_def discoveryNotBegun_def discoveryEnded_def onChanges_def split: JobOutcome.splits)
  show "rh_attempts (sh_runs s') = rh_attempts (sh_runs s)"
    by (simp add: s' r_def discoveryThrew_def discoveryNotBegun_def discoveryEnded_def onChanges_def split: JobOutcome.splits)
  show "noRetry n s'" if "noRetry n s" "outcome \<noteq> JobNotBegun"
    using that by (auto simp: noRetry_def s' h_def recordDiscoveryEnd_def Let_def split: JobOutcome.splits)
qed

lemma settleRun_leaves:
  assumes "settleRun started outcome moment s = s'" and path: "br_path (sd_begun started) = sd_path started"
  shows "sh_discoveries s' = sh_discoveries s"
    and "sk_jobRevision (sh_schedule s') = None"
    and "reached (rh_changes (sh_runs s)) \<Longrightarrow> Some (sd_path started) \<in> set (keys (cr_running (rh_changes (sh_runs s)))) \<Longrightarrow>
      reached (rh_changes (sh_runs s'))"
    and "set (keys (cr_running (rh_changes (sh_runs s')))) = set (keys (cr_running (rh_changes (sh_runs s)))) - {Some (sd_path started)}"
    and "p \<noteq> sd_path started \<Longrightarrow> map_of (rh_attempts (sh_runs s')) p = map_of (rh_attempts (sh_runs s)) p"
    and "noRetry n s \<Longrightarrow> \<not> sd_retried started \<Longrightarrow> noRetry n s'"
proof -
  define b where "b = sd_begun started"
  define r where "r = sh_runs s"
  have s': "sh_discoveries s' = sh_discoveries s" "sk_jobRevision (sh_schedule s') = None"
    "sh_runs s' = (case outcome of JobThrew \<Rightarrow> runThrew b r
      | JobNotBegun \<Rightarrow> (if \<not> se_stopping moment \<and> se_revision moment = sd_plannedAt started then runRefused b r else runNotBegun b r)
      | JobReported report \<Rightarrow> snd (runEnded b (HistoryReport.truncate report) (se_revision moment) r))"
    "noRetry n s \<Longrightarrow> \<not> sd_retried started \<Longrightarrow> noRetry n s'"
  proof -
    have "s' = settleRun started outcome moment s" using assms by simp
    then show "sh_discoveries s' = sh_discoveries s" "sk_jobRevision (sh_schedule s') = None"
      "sh_runs s' = (case outcome of JobThrew \<Rightarrow> runThrew b r
        | JobNotBegun \<Rightarrow> (if \<not> se_stopping moment \<and> se_revision moment = sd_plannedAt started then runRefused b r else runNotBegun b r)
        | JobReported report \<Rightarrow> snd (runEnded b (HistoryReport.truncate report) (se_revision moment) r))"
      "noRetry n s \<Longrightarrow> \<not> sd_retried started \<Longrightarrow> noRetry n s'"
      by (cases outcome; simp add: settleRun_def onSchedule_def Let_def b_def r_def noRetry_def split_def)+
  qed
  show "sh_discoveries s' = sh_discoveries s" "sk_jobRevision (sh_schedule s') = None"
    "noRetry n s \<Longrightarrow> \<not> sd_retried started \<Longrightarrow> noRetry n s'" by (fact s')+
  have c: "rh_changes (sh_runs s') = (case outcome of JobThrew \<Rightarrow> jobThrew (Some (sd_path started)) (rh_changes r)
      | JobNotBegun \<Rightarrow> jobNotBegun (Some (sd_path started)) (rh_changes r)
      | JobReported report \<Rightarrow> jobEnded (hr_window report) (Some (sd_path started)) (rh_changes r))"
    by (cases outcome; simp add: s' b_def path runThrew_def runRefused_def runNotBegun_def runEnded_def recordEnd_def onChanges_def
        logEntry_def Let_def HistoryReport.truncate_def)
  show "reached (rh_changes (sh_runs s'))" if "reached (rh_changes (sh_runs s))"
    "Some (sd_path started) \<in> set (keys (cr_running (rh_changes (sh_runs s))))"
    using that reached_ended [of "rh_changes r" "Some (sd_path started)"]
    by (auto simp: c r_def reached_rules jhas_iff split: JobOutcome.splits)
  show "set (keys (cr_running (rh_changes (sh_runs s')))) = set (keys (cr_running (rh_changes (sh_runs s)))) - {Some (sd_path started)}"
    by (auto simp: c r_def split: JobOutcome.splits)
  show "map_of (rh_attempts (sh_runs s')) p = map_of (rh_attempts (sh_runs s)) p" if "p \<noteq> sd_path started"
    by (cases outcome; simp add: that path s' r_def b_def runThrew_def runRefused_def runNotBegun_def runEnded_def recordEnd_def
        onChanges_def logEntry_def Let_def map_of_jset map_of_jdel split: option.split)
qed

lemma afterJob_same:
  "fst (afterJob outcome failure s) = PhStart \<and> sameHistories s (snd (afterJob outcome failure s)) \<and>
   sk_jobRevision (sh_schedule (snd (afterJob outcome failure s))) = sk_jobRevision (sh_schedule s)"
  by (simp add: afterJob_def stepThrew_def sameHistories_def onSchedule_def split: JobOutcome.split)

text \<open>A step that only waits, logs or reads keeps the histories, and the invariant when no job begins or settles.\<close>

lemma same_inv:
  assumes "schedulerInv (phase, s)" and "sameHistories s s'" and "runningJobs phase' = runningJobs phase"
    and "sk_jobRevision (sh_schedule s') \<noteq> None \<longleftrightarrow> inJob phase'" and "runningJobs phase = []"
  shows "schedulerInv (phase', s')"
proof -
  have "\<And>started. phase' \<noteq> PhRun started" "\<And>begun. phase' \<noteq> PhDiscover begun"
    using assms(3,5) by (auto simp: runningJobs_def)
  with assms show ?thesis by (simp add: schedulerInv_def sameHistories_rules)
qed

lemma quietWindow_same:
  "quietWindow ms revision now s = (rest, s') \<Longrightarrow> sameHistories s s' \<and> sh_schedule s' = sh_schedule s"
  by (auto simp: quietWindow_def Let_def sameHistories_def split: if_splits)

lemma idleTurn_same:
  "idleTurn revision n s = (again, s') \<Longrightarrow> sameHistories s s' \<and> sh_schedule s' = sh_schedule s"
  by (auto simp: idleTurn_def schedulerEntry_def sameHistories_def split: if_splits)

lemma edits_inv:
  assumes "schedulerInv (phase, s)" and "rh_attempts h = rh_attempts (sh_runs s)" and "rh_held h = rh_held (sh_runs s)"
    and "reached (rh_changes h)" and "keys (cr_running (rh_changes h)) = keys (cr_running (rh_changes (sh_runs s)))"
  shows "schedulerInv (phase, s\<lparr>sh_runs := h\<rparr>)"
  using assms by (simp add: schedulerInv_def runInProgress_def discoveryInProgress_def isHeld_def)

lemma schedulerStep_inv:
  assumes inv: "schedulerInv st" and step: "schedulerStep event st = Some st'" and "wellListed event"
  shows "schedulerInv st'"
proof -
  obtain phase s where st: "st = (phase, s)" by (cases st)
  have job: "sk_jobRevision (sh_schedule s) \<noteq> None \<longleftrightarrow> inJob phase"
    and reached: "reached (rh_changes (sh_runs s))"
    and running: "set (keys (cr_running (rh_changes (sh_runs s)))) = set (runningJobs phase)"
    and disc: "discoveryInv (sh_discoveries s)"
    using inv by (simp_all add: st schedulerInv_def)
  note same = same_inv [OF inv [unfolded st]]
  show ?thesis
  proof (cases event)
    case (Planned m)
    with step obtain revision where "phase = PhPlan revision" "st' = (case plan m revision s of (step, s') \<Rightarrow> takeStep revision step s')"
      by (auto simp: schedulerStep_def st split: Phase.splits prod.splits)
    then show ?thesis
      using takeStep_inv [of m revision s "fst (plan m revision s)" "snd (plan m revision s)"] inv \<open>wellListed event\<close>
      by (simp add: st Planned wellListed_def split_def)
  next
    case (DiscoverSettled outcome moment failure)
    with step obtain begun where p: "phase = PhDiscover begun"
      "st' = afterJob outcome failure (settleDiscover begun outcome moment s)"
      by (auto simp: schedulerStep_def st split: Phase.splits)
    have "discoveryInProgress begun s" using inv by (simp add: st p schedulerInv_def)
    then show ?thesis
      using settleDiscover_leaves [where begun = begun and s = s and outcome = outcome and moment = moment, OF refl] disc reached running
        afterJob_same [of outcome failure "settleDiscover begun outcome moment s"]
      by (cases st') (simp add: schedulerInv_def p runningJobs_def inJob_def sameHistories_def)
  next
    case (RunSettled outcome moment failure)
    with step obtain started where p: "phase = PhRun started"
      "st' = afterJob outcome failure (settleRun started outcome moment s)"
      by (auto simp: schedulerStep_def st split: Phase.splits)
    have "br_path (sd_begun started) = sd_path started" using inv by (simp add: st p schedulerInv_def runInProgress_def)
    note leaves = settleRun_leaves [where s = s and outcome = outcome and moment = moment, OF refl this]
    show ?thesis
      using leaves disc reached running afterJob_same [of outcome failure "settleRun started outcome moment s"]
      by (cases st') (simp add: schedulerInv_def p runningJobs_def inJob_def sameHistories_def)
  next
    case (EditsReported ks)
    with step have "st' = (phase, s\<lparr>sh_runs := snd (runsReportEdits ks (sh_runs s))\<rparr>)"
      by (auto simp: schedulerStep_def st schedulerReportEdits_def split: prod.splits)
    moreover have "schedulerInv (phase, s\<lparr>sh_runs := snd (runsReportEdits ks (sh_runs s))\<rparr>)"
      using inv reached_reported [OF reached, of ks] running_simps(11) [of ks "rh_changes (sh_runs s)"]
      by (intro edits_inv) (simp_all add: st runsReportEdits_def split_def)
    ultimately show ?thesis by simp
  next
    case (EditsRead i)
    with step show ?thesis
      using inv reached by (auto simp: schedulerStep_def st onChanges_def intro!: edits_inv reached_rules)
  next
    case (WindowTurn ms revision now)
    with step job show ?thesis
      by (auto simp: schedulerStep_def st inJob_def runningJobs_def split: Phase.splits prod.splits if_splits
          dest!: quietWindow_same intro!: same simp: sameHistories_def onSchedule_def)
  next
    case (IdleTurn revision n)
    with step job show ?thesis
      by (auto simp: schedulerStep_def st inJob_def runningJobs_def split: Phase.splits prod.splits if_splits
          dest!: idleTurn_same intro!: same)
  next
    case (FalsifySettled outcome failure)
    with step job show ?thesis
      by (auto simp: schedulerStep_def st inJob_def runningJobs_def settleFalsify_def stepThrew_def onSchedule_def
          sameHistories_def Let_def split: Phase.splits option.splits if_splits intro!: same)
  qed (use step job in \<open>auto simp: schedulerStep_def st inJob_def runningJobs_def sameHistories_def onSchedule_def split: Phase.splits if_splits intro!: same\<close>)
qed

lemma reachable_inv: "reachable st \<Longrightarrow> schedulerInv st"
proof (induction rule: reachable.induct)
  case (reachable_start n)
  have "reached emptyRecord" by (rule reached_start)
  then show ?case
    by (simp add: schedulerInv_def startScheduler_def newScheduler_def newRunHistory_def newDiscoveryHistory_def
        discoveryInv_def runningJobs_def inJob_def newSchedule_def emptyRecord_def keys_def)
qed (rule schedulerStep_inv)

lemma reached_setsInv: "reached r \<Longrightarrow> allSubjects setsInv r"
proof (induction rule: reached.induct)
  case reached_start
  show ?case by (simp add: allSubjects_def emptyRecord_def)
qed (simp_all only: jobEnded_inv stepRecord_inv)

lemma runScheduler_reachable:
  "runScheduler events st = Some st' \<Longrightarrow> reachable st \<Longrightarrow> list_all wellListed events \<Longrightarrow> reachable st'"
  by (induction events arbitrary: st) (auto simp: bind_eq_Some_conv intro: reachable_step)

text \<open>Events that lead to the run of the sample moment's one workspace.\<close>

definition sampleEvents :: "SchedulerEvent list" where
  "sampleEvents = [RoundBegan 3, WindowTurn 1000 3 0, WindowTurn 1000 3 1000, InputsSettled 3, BuildEnded 3, Planned samplePlan]"

lemma sampleEvents_run: "\<exists>started s. runScheduler sampleEvents (PhStart, startScheduler 0 newScheduler) = Some (PhRun started, s)"
proof -
  have "case runScheduler sampleEvents (PhStart, startScheduler 0 newScheduler) of
      Some (phase, s) \<Rightarrow> (case phase of PhRun started \<Rightarrow> True | _ \<Rightarrow> False) | None \<Rightarrow> False"
    by code_simp
  then show ?thesis by (auto split: option.splits Phase.splits)
qed

lemma sampleEvents_listed: "list_all wellListed sampleEvents"
  using samplePlan_distinct by (simp add: sampleEvents_def wellListed_def)

section \<open>Properties\<close>

text \<open>
  C26. Whatever order the inputs, the jobs and the callers bring their events in, in every state the
  scheduler reaches: the workspace being run is not held and its retry is not owed, and its attempt reads
  as having stored nothing until the run settles; a discovery in progress is not held; a discovery that is
  held has no retry armed; the schedule shows a job in progress exactly while one is; and the record of
  changes knows exactly that job as running, and was only ever told jobs in order, with at most a thousand
  changed paths for each subject.
\<close>

theorem scheduler_reachable_safe:
  assumes "reachable (phase, s)"
  shows "(\<forall>started. phase = PhRun started \<longrightarrow>
      \<not> isHeld (sd_path started) (sh_runs s) \<and> sd_path started \<notin> set (sh_retryWorkspaces s) \<and>
      storedNothing (sd_path started) (sh_runs s)) \<and>
    (\<forall>begun. phase = PhDiscover begun \<longrightarrow> dh_held (sh_discoveries s) = None) \<and>
    (dh_held (sh_discoveries s) \<noteq> None \<longrightarrow> \<not> dh_retry (sh_discoveries s)) \<and>
    (sk_jobRevision (sh_schedule s) \<noteq> None \<longleftrightarrow> inJob phase) \<and>
    set (keys (cr_running (rh_changes (sh_runs s)))) = set (runningJobs phase) \<and>
    reached (rh_changes (sh_runs s)) \<and>
    (\<forall>(subject, cs) \<in> set (cr_subjects (rh_changes (sh_runs s))).
       card (set (keys (cs_byJobs cs)) \<union> set (cs_edits cs)) \<le> 1000)"
proof -
  have inv: "schedulerInv (phase, s)" by (rule reachable_inv [OF assms])
  have "allSubjects setsInv (rh_changes (sh_runs s))"
    using inv by (intro reached_setsInv) (simp add: schedulerInv_def)
  then have "\<forall>(subject, cs) \<in> set (cr_subjects (rh_changes (sh_runs s))).
      card (set (keys (cs_byJobs cs)) \<union> set (cs_edits cs)) \<le> 1000"
    by (auto simp: allSubjects_def all_vals_def setsInv_def heldPaths_def MAX_COUNTED_CHANGES_def list_all_iff split: if_splits)
  with inv show ?thesis
    by (auto simp: schedulerInv_def runInProgress_def discoveryInProgress_def discoveryInv_def storedNothing_def
        split: option.splits)
qed

text \<open>While the one workspace of the sample moment runs, it is not held.\<close>

theorem scheduler_reachable_safe_witness:
  "\<exists>started s. reachable (PhRun started, s) \<and> \<not> isHeld (sd_path started) (sh_runs s)"
proof -
  obtain started s where "runScheduler sampleEvents (PhStart, startScheduler 0 newScheduler) = Some (PhRun started, s)"
    using sampleEvents_run by blast
  from runScheduler_reachable [OF this reachable_start sampleEvents_listed]
  have r: "reachable (PhRun started, s)" .
  from scheduler_reachable_safe [OF r] r show ?thesis by blast
qed

end
