(* ===== verification/SchedulerBounds.thy ===== *)
theory SchedulerBounds
  imports SchedulerSteps
begin

text \<open>
  How often the scheduler's loop runs one workspace, or discovers, while the inputs stay at one revision:
  at most twice, counted by what is left to begin, which every settled job lowers.
\<close>

section \<open>How often one revision runs a workspace\<close>

text \<open>
  The runs still to begin at a revision with a list of test modules: two before the first, one when the
  first is owed once more, none after. A run in progress counts once more when it is not itself the rerun.
\<close>

definition runsLeft :: "string \<Rightarrow> nat \<Rightarrow> string \<Rightarrow> Phase \<times> Scheduler \<Rightarrow> nat" where
  "runsLeft path revision modules st =
     (case st of (phase, s) \<Rightarrow>
        let after = (case map_of (rh_attempts (sh_runs s)) path of
            None \<Rightarrow> 2
          | Some a \<Rightarrow> (if at_revision a \<noteq> revision \<or> at_modules a \<noteq> modules then 2 else if at_rerunOwed a then 1 else 0))
        in case phase of
             PhRun started \<Rightarrow> (if sd_path started = path then (if br_isRerun (sd_begun started) then 1 else 2) else after)
           | _ \<Rightarrow> after)"

definition discoveriesLeft :: "nat \<Rightarrow> Phase \<times> Scheduler \<Rightarrow> nat" where
  "discoveriesLeft revision st =
     (case st of (phase, s) \<Rightarrow>
        case phase of
          PhDiscover begun \<Rightarrow> (if bd_isOnceMore begun then 1 else 2)
        | _ \<Rightarrow> (case dh_attempt (sh_discoveries s) of
              None \<Rightarrow> 2
            | Some a \<Rightarrow> (if da_revision a \<noteq> revision then 2 else if da_onceMoreFrom a \<noteq> None then 1 else 0)))"

definition endsRun :: "string \<Rightarrow> SchedulerEvent \<Rightarrow> Phase \<times> Scheduler \<Rightarrow> bool" where
  "endsRun path event st =
     (case (event, fst st) of (RunSettled _ _ _, PhRun started) \<Rightarrow> sd_path started = path | _ \<Rightarrow> False)"

definition endsDiscovery :: "SchedulerEvent \<Rightarrow> Phase \<times> Scheduler \<Rightarrow> bool" where
  "endsDiscovery event st = (case (event, fst st) of (DiscoverSettled _ _ _, PhDiscover _) \<Rightarrow> True | _ \<Rightarrow> False)"

text \<open>How many of the steps the events make do it.\<close>

fun countSteps :: "(SchedulerEvent \<Rightarrow> Phase \<times> Scheduler \<Rightarrow> bool) \<Rightarrow> SchedulerEvent list \<Rightarrow> Phase \<times> Scheduler \<Rightarrow> nat" where
  "countSteps P [] st = 0"
| "countSteps P (event # events) st =
     (if P event st then 1 else 0) +
     (case schedulerStep event st of None \<Rightarrow> 0 | Some st' \<Rightarrow> countSteps P events st')"

text \<open>
  The inputs stay at one revision and nothing stops: a job begins, its report is of the revision, and the
  revision is still the same when it settles; no periodic reconciliation ended, and the workspace's list
  of test modules is one.
\<close>

definition steady :: "nat \<Rightarrow> nat \<Rightarrow> string \<Rightarrow> string \<Rightarrow> SchedulerEvent \<Rightarrow> bool" where
  "steady n revision path modules event =
     (case event of
        BuildEnded r \<Rightarrow> r = revision
      | Planned m \<Rightarrow> pm_periodicReconciliations m = n \<and>
          distinct (map entryPath (discoveredWorkspaces (vw_results (pm_view m)))) \<and>
          (\<forall>entry \<in> set (discoveredWorkspaces (vw_results (pm_view m))). entryPath entry = path \<longrightarrow> testModulesKey entry = modules)
      | DiscoverSettled outcome moment _ \<Rightarrow> outcome \<noteq> JobNotBegun \<and> se_revision moment = revision
      | RunSettled outcome moment _ \<Rightarrow> se_revision moment = revision \<and> \<not> se_stopping moment \<and>
          (case outcome of JobReported report \<Rightarrow> hr_revision report = revision | _ \<Rightarrow> True)
      | _ \<Rightarrow> True)"

definition steadyState :: "nat \<Rightarrow> nat \<Rightarrow> string \<Rightarrow> string \<Rightarrow> Phase \<times> Scheduler \<Rightarrow> bool" where
  "steadyState n revision path modules st =
     (schedulerInv st \<and> noRetry n (snd st) \<and>
      (case fst st of
         PhPlan r \<Rightarrow> r = revision
       | PhRun started \<Rightarrow> \<not> sd_retried started \<and> sd_plannedAt started = revision \<and>
           (sd_path started = path \<longrightarrow> br_modules (sd_begun started) = modules)
       | PhDiscover begun \<Rightarrow> bd_revision begun = revision
       | _ \<Rightarrow> True))"

lemma leaves_same:
  assumes "sameHistories s s'" and "\<And>started. phase \<noteq> PhRun started" and "\<And>started. phase' \<noteq> PhRun started"
    and "\<And>begun. phase \<noteq> PhDiscover begun" and "\<And>begun. phase' \<noteq> PhDiscover begun"
  shows "runsLeft path revision modules (phase', s') = runsLeft path revision modules (phase, s)"
    and "discoveriesLeft revision (phase', s') = discoveriesLeft revision (phase, s)"
  using assms by (cases phase; cases phase'; simp add: runsLeft_def discoveriesLeft_def sameHistories_def)+

lemma noRetry_same: "sameHistories s s' \<Longrightarrow> noRetry n s \<Longrightarrow> noRetry n s'"
  by (simp add: noRetry_def sameHistories_def)

text \<open>What lowers: a planned run has one left to begin, and a planned discovery too.\<close>

definition lowers :: "string \<Rightarrow> nat \<Rightarrow> string \<Rightarrow> SchedulerEvent \<Rightarrow> Phase \<times> Scheduler \<Rightarrow> Phase \<times> Scheduler \<Rightarrow> bool" where
  "lowers path revision modules event st st' \<longleftrightarrow>
     runsLeft path revision modules st' + (if endsRun path event st then 1 else 0) \<le> runsLeft path revision modules st \<and>
     discoveriesLeft revision st' + (if endsDiscovery event st then 1 else 0) \<le> discoveriesLeft revision st"

lemma takeStep_lowers:
  assumes p: "plan m revision s = (step, s')" and n: "noRetry (pm_periodicReconciliations m) s"
    and listed: "distinct (map entryPath (discoveredWorkspaces (vw_results (pm_view m))))"
    and one: "\<forall>entry \<in> set (discoveredWorkspaces (vw_results (pm_view m))). entryPath entry = path \<longrightarrow> testModulesKey entry = modules"
  shows "runsLeft path revision modules (takeStep revision step s') \<le> runsLeft path revision modules (PhPlan revision, s)"
    and "discoveriesLeft revision (takeStep revision step s') \<le> discoveriesLeft revision (PhPlan revision, s)"
    and "noRetry (pm_periodicReconciliations m) (snd (takeStep revision step s'))"
    and "case fst (takeStep revision step s') of
         PhPlan r \<Rightarrow> r = revision
       | PhRun started \<Rightarrow> \<not> sd_retried started \<and> sd_plannedAt started = revision \<and>
           (sd_path started = path \<longrightarrow> br_modules (sd_begun started) = modules)
       | PhDiscover begun \<Rightarrow> bd_revision begun = revision
       | _ \<Rightarrow> True"
proof -
  note k = plan_keeps [OF p]
  have attempts: "rh_attempts (sh_runs s') = rh_attempts (sh_runs s)" by (rule k(6) [OF listed])
  have attempt: "dh_attempt (sh_discoveries s') = dh_attempt (sh_discoveries s)" by (rule k(5))
  have n': "noRetry (pm_periodicReconciliations m) s'" by (rule k(8) [OF n])
  have "runsLeft path revision modules (takeStep revision step s') \<le> runsLeft path revision modules (PhPlan revision, s) \<and>
    discoveriesLeft revision (takeStep revision step s') \<le> discoveriesLeft revision (PhPlan revision, s) \<and>
    noRetry (pm_periodicReconciliations m) (snd (takeStep revision step s')) \<and>
    (case fst (takeStep revision step s') of
         PhPlan r \<Rightarrow> r = revision
       | PhRun started \<Rightarrow> \<not> sd_retried started \<and> sd_plannedAt started = revision \<and>
           (sd_path started = path \<longrightarrow> br_modules (sd_begun started) = modules)
       | PhDiscover begun \<Rightarrow> bd_revision begun = revision
       | _ \<Rightarrow> True)"
  proof (cases step)
    case (StepRun q)
    obtain s4 where r: "planRuns m revision (eligible m) s4 = (StepRun q, s')"
      using k(10) [OF StepRun] StepRun by blast
    from planRuns_exact(1) [OF r eligible_distinct [OF listed]] obtain e where e: "e \<in> set (eligible m)"
      "isDue m revision (sh_runs s') (sh_retryWorkspaces s') e" "qw_entry q = el_entry e"
      by auto
    have entry: "el_entry e \<in> set (discoveredWorkspaces (vw_results (pm_view m)))"
      using e(1) by (auto simp: eligible_def Let_def)
    have ran: "\<not> ranAlready (eligiblePath e) revision (el_entry e) (sh_runs s')"
      using e(2) n' by (simp add: isDue_def noRetry_def)
    obtain started t where b: "beginRun q revision s' = (started, t)" by (cases "beginRun q revision s'")
    note l = beginRun_leaves [OF b]
    have path: "sd_path started = eligiblePath e" "br_modules (sd_begun started) = testModulesKey (el_entry e)"
      by (simp_all add: l e eligiblePath_def)
    have same: "path = eligiblePath e \<Longrightarrow> testModulesKey (el_entry e) = modules"
      using one entry by (simp add: eligiblePath_def)
    have "runsLeft path revision modules (PhRun started, t) \<le> runsLeft path revision modules (PhPlan revision, s)"
    proof (cases "path = eligiblePath e")
      case True
      then show ?thesis
        using ran same l(9) by (auto simp: runsLeft_def ranAlready_def path attempts split: option.splits)
    next
      case False
      then have "map_of (rh_attempts (sh_runs t)) path = map_of (rh_attempts (sh_runs s)) path"
        using l(8) [of path] by (simp add: path attempts)
      with False show ?thesis by (simp add: runsLeft_def path)
    qed
    moreover have "discoveriesLeft revision (PhRun started, t) = discoveriesLeft revision (PhPlan revision, s)"
      by (simp add: discoveriesLeft_def l(1) attempt)
    ultimately show ?thesis
      using l(10) [OF n'] same by (auto simp: StepRun b l path e(3) eligiblePath_def)
  next
    case StepDiscover
    obtain begun t where b: "beginDiscover revision s' = (begun, t)" by (cases "beginDiscover revision s'")
    note l = beginDiscover_leaves [OF b]
    from k(9) [OF StepDiscover] obtain inEffect wait where
      due: "dueDiscovery (pm_now m) (sh_windowStart s') revision inEffect (sh_discoveries s') = Some wait" by blast
    have "discoveriesLeft revision (PhDiscover begun, t) \<le> discoveriesLeft revision (PhPlan revision, s)"
      using due n' l(6)
      by (auto simp: discoveriesLeft_def attempt dueDiscovery_def noRetry_def Let_def split: option.splits if_splits)
    moreover have "runsLeft path revision modules (PhDiscover begun, t) = runsLeft path revision modules (PhPlan revision, s)"
      by (simp add: runsLeft_def l(1) attempts discoveryBegan_def onChanges_def)
    ultimately show ?thesis using l(7) [OF n'] by (simp add: StepDiscover b l)
  qed (use n' in \<open>simp_all add: runsLeft_def discoveriesLeft_def attempts attempt beginFalsify_def onSchedule_def noRetry_def\<close>)
  then show "runsLeft path revision modules (takeStep revision step s') \<le> runsLeft path revision modules (PhPlan revision, s)"
    and "discoveriesLeft revision (takeStep revision step s') \<le> discoveriesLeft revision (PhPlan revision, s)"
    and "noRetry (pm_periodicReconciliations m) (snd (takeStep revision step s'))"
    and "case fst (takeStep revision step s') of
         PhPlan r \<Rightarrow> r = revision
       | PhRun started \<Rightarrow> \<not> sd_retried started \<and> sd_plannedAt started = revision \<and>
           (sd_path started = path \<longrightarrow> br_modules (sd_begun started) = modules)
       | PhDiscover begun \<Rightarrow> bd_revision begun = revision
       | _ \<Rightarrow> True" by blast+
qed

lemma settleRun_lowers:
  assumes inv: "schedulerInv (PhRun started, s)" and steady: "steady n revision p modules (RunSettled outcome moment failure)"
    and run: "\<not> sd_retried started" "sd_plannedAt started = revision"
      "sd_path started = path \<longrightarrow> br_modules (sd_begun started) = modules"
    and s': "s' = settleRun started outcome moment s"
  shows "runsLeft path revision modules (PhStart, s') + (if sd_path started = path then 1 else 0)
      \<le> runsLeft path revision modules (PhRun started, s)"
proof (cases "sd_path started = path")
  case False
  have "br_path (sd_begun started) = sd_path started" using inv by (simp add: schedulerInv_def runInProgress_def)
  from settleRun_leaves(5) [OF s' [symmetric] this, of path] False
  have "map_of (rh_attempts (sh_runs s')) path = map_of (rh_attempts (sh_runs s)) path" by simp
  with False show ?thesis by (simp add: runsLeft_def)
next
  case True
  have r: "runInProgress started s" using inv by (simp add: schedulerInv_def)
  then obtain a where a: "map_of (rh_attempts (sh_runs s)) path = Some a" "at_revision a = revision"
    "at_modules a = modules" "\<not> at_rerunOwed a"
    using run True by (auto simp: runInProgress_def split: option.splits)
  have b: "br_path (sd_begun started) = path" "br_modules (sd_begun started) = modules"
    using r run True by (auto simp: runInProgress_def)
  have now: "se_revision moment = revision" "\<not> se_stopping moment"
    using steady by (simp_all add: steady_def)
  have "case map_of (rh_attempts (sh_runs s')) path of None \<Rightarrow> False
    | Some a \<Rightarrow> at_revision a = revision \<and> at_modules a = modules \<and> (at_rerunOwed a \<longrightarrow> \<not> br_isRerun (sd_begun started))"
  proof (cases outcome)
    case (JobReported report)
    then have "hr_revision report = revision" using steady by (simp add: steady_def)
    then show ?thesis
      by (simp add: s' settleRun_def JobReported Let_def split_def runEnded_def recordEnd_def onSchedule_def map_of_jset b
          HistoryReport.truncate_def)
  qed (use a b now run in \<open>simp_all add: s' settleRun_def runThrew_def runRefused_def onChanges_def onSchedule_def Let_def\<close>)
  with True show ?thesis by (auto simp: runsLeft_def split: option.splits)
qed

lemma settleDiscover_lowers:
  assumes inv: "schedulerInv (PhDiscover begun, s)" and steady: "steady n revision p modules (DiscoverSettled outcome moment failure)"
    and "bd_revision begun = revision" and s': "s' = settleDiscover begun outcome moment s"
  shows "discoveriesLeft revision (PhStart, s') + 1 \<le> discoveriesLeft revision (PhDiscover begun, s)"
proof -
  from inv obtain a where a: "dh_attempt (sh_discoveries s) = Some a" "da_revision a = revision" "da_onceMoreFrom a = None"
    using assms(3) by (auto simp: schedulerInv_def discoveryInProgress_def split: option.splits)
  have "case dh_attempt (sh_discoveries s') of None \<Rightarrow> False
    | Some a \<Rightarrow> da_revision a = revision \<and> (da_onceMoreFrom a \<noteq> None \<longrightarrow> \<not> bd_isOnceMore begun)"
  proof (cases outcome)
    case (JobReported report)
    then show ?thesis
      by (simp add: s' settleDiscover_def Let_def split_def endedDiscovery_def recordDiscoveryEnd_def onSchedule_def assms(3))
  qed (use a steady in \<open>simp_all add: s' settleDiscover_def onSchedule_def Let_def threwDiscovery_def steady_def\<close>)
  then show ?thesis by (auto simp: discoveriesLeft_def split: option.splits)
qed

lemma afterJob_left:
  "runsLeft path revision modules (afterJob outcome failure s) = runsLeft path revision modules (PhStart, s)"
  "discoveriesLeft revision (afterJob outcome failure s) = discoveriesLeft revision (PhStart, s)"
  "noRetry n (snd (afterJob outcome failure s)) = noRetry n s" "fst (afterJob outcome failure s) = PhStart"
  by (cases outcome; simp add: afterJob_def stepThrew_def onSchedule_def runsLeft_def discoveriesLeft_def noRetry_def)+

lemma steady_wellListed: "steady n revision path modules event \<Longrightarrow> wellListed event"
  by (cases event) (simp_all add: steady_def wellListed_def)

lemma lowersI:
  assumes "sameHistories s s'" and "\<And>started. phase \<noteq> PhRun started" and "\<And>started. phase' \<noteq> PhRun started"
    and "\<And>begun. phase \<noteq> PhDiscover begun" and "\<And>begun. phase' \<noteq> PhDiscover begun"
    and "\<And>r. phase' = PhPlan r \<Longrightarrow> r = revision" and "steadyState n revision path modules (phase, s)"
  shows "lowers path revision modules event (phase, s) (phase', s') \<and> noRetry n s' \<and>
    (case phase' of PhPlan r \<Rightarrow> r = revision | PhRun started \<Rightarrow> False | PhDiscover begun \<Rightarrow> False | _ \<Rightarrow> True)"
proof -
  have "\<not> endsRun path event (phase, s)" "\<not> endsDiscovery event (phase, s)"
    using assms(2,4) by (auto simp: endsRun_def endsDiscovery_def split: SchedulerEvent.splits Phase.splits)
  with leaves_same [OF assms(1-5)] noRetry_same [OF assms(1)] assms(3,5-7) show ?thesis
    by (auto simp: lowers_def steadyState_def split: Phase.splits)
qed

lemma edits_left:
  assumes "rh_attempts h = rh_attempts (sh_runs s)"
  shows "runsLeft path revision modules (phase, s\<lparr>sh_runs := h\<rparr>) = runsLeft path revision modules (phase, s)"
    and "discoveriesLeft revision (phase, s\<lparr>sh_runs := h\<rparr>) = discoveriesLeft revision (phase, s)"
    and "noRetry n (s\<lparr>sh_runs := h\<rparr>) = noRetry n s"
  using assms by (cases phase; simp add: runsLeft_def discoveriesLeft_def noRetry_def)+

lemma step_lowers:
  assumes state: "steadyState n revision path modules st" and steady: "steady n revision path modules event"
    and step: "schedulerStep event st = Some st'"
  shows "lowers path revision modules event st st' \<and> steadyState n revision path modules st'"
proof -
  obtain phase s where st: "st = (phase, s)" by (cases st)
  obtain phase' s' where st': "st' = (phase', s')" by (cases st')
  have inv: "schedulerInv (phase, s)" and retry: "noRetry n s" using state by (simp_all add: steadyState_def st)
  have inv': "schedulerInv st'"
    using schedulerStep_inv [OF _ step steady_wellListed [OF steady]] state by (simp add: steadyState_def)
  note plain = lowersI [OF _ _ _ _ _ _ state [unfolded st], of s' phase' event]
  have waits: "sameHistories s (onSchedule f s)" for f by (simp add: sameHistories_def onSchedule_def)
  have "lowers path revision modules event st st' \<and> noRetry n s' \<and>
    (case phase' of PhPlan r \<Rightarrow> r = revision
       | PhRun started \<Rightarrow> \<not> sd_retried started \<and> sd_plannedAt started = revision \<and>
           (sd_path started = path \<longrightarrow> br_modules (sd_begun started) = modules)
       | PhDiscover begun \<Rightarrow> bd_revision begun = revision
       | _ \<Rightarrow> True)"
  proof (cases event)
    case (Planned m)
    with step obtain r where p: "phase = PhPlan r" "st' = (case plan m r s of (step, s') \<Rightarrow> takeStep r step s')"
      by (auto simp: schedulerStep_def st split: Phase.splits prod.splits)
    have r: "r = revision" using state by (simp add: steadyState_def st p)
    have t: "takeStep revision (fst (plan m revision s)) (snd (plan m revision s)) = (phase', s')"
      using p(2) st' by (simp add: r split_def)
    have "noRetry (pm_periodicReconciliations m) s" and "pm_periodicReconciliations m = n"
      using retry steady by (simp_all add: Planned steady_def)
    then show ?thesis
      using takeStep_lowers [of m revision s "fst (plan m revision s)" "snd (plan m revision s)" path modules, unfolded t] steady
      by (simp add: Planned steady_def lowers_def endsRun_def endsDiscovery_def st p(1) r st')
  next
    case (RunSettled outcome moment failure)
    with step obtain started where p: "phase = PhRun started" "st' = afterJob outcome failure (settleRun started outcome moment s)"
      by (auto simp: schedulerStep_def st split: Phase.splits)
    have run: "\<not> sd_retried started" "sd_plannedAt started = revision" "sd_path started = path \<longrightarrow> br_modules (sd_begun started) = modules"
      using state by (simp_all add: steadyState_def st p)
    have path: "br_path (sd_begun started) = sd_path started" using inv by (simp add: p schedulerInv_def runInProgress_def)
    note leaves = settleRun_leaves [where s = s and outcome = outcome and moment = moment, OF refl path]
    show ?thesis
      using settleRun_lowers [OF inv [unfolded p] steady [unfolded RunSettled] run refl] leaves(1,6) retry run(1)
        afterJob_left [where outcome = outcome and failure = failure and s = "settleRun started outcome moment s"] p(2) st'
      by (auto simp: RunSettled lowers_def endsRun_def endsDiscovery_def st p discoveriesLeft_def)
  next
    case (DiscoverSettled outcome moment failure)
    with step obtain begun where p: "phase = PhDiscover begun" "st' = afterJob outcome failure (settleDiscover begun outcome moment s)"
      by (auto simp: schedulerStep_def st split: Phase.splits)
    have begun: "bd_revision begun = revision" using state by (simp add: steadyState_def st p)
    note leaves = settleDiscover_leaves [where begun = begun and s = s and outcome = outcome and moment = moment, OF refl]
    have "outcome \<noteq> JobNotBegun" using steady by (simp add: DiscoverSettled steady_def)
    then show ?thesis
      using settleDiscover_lowers [OF inv [unfolded p] steady [unfolded DiscoverSettled] begun refl] leaves(5,6) retry
        afterJob_left [where outcome = outcome and failure = failure and s = "settleDiscover begun outcome moment s"] p(2) st'
      by (auto simp: DiscoverSettled lowers_def endsRun_def endsDiscovery_def st p runsLeft_def)
  next
    case (EditsReported ks)
    with step have "phase' = phase" "s' = s\<lparr>sh_runs := snd (runsReportEdits ks (sh_runs s))\<rparr>"
      by (auto simp: schedulerStep_def st st' schedulerReportEdits_def split: prod.splits)
    moreover have "rh_attempts (snd (runsReportEdits ks (sh_runs s))) = rh_attempts (sh_runs s)"
      by (simp add: runsReportEdits_def split_def)
    ultimately show ?thesis
      using state by (simp add: EditsReported lowers_def endsRun_def endsDiscovery_def edits_left st st' steadyState_def)
  next
    case (EditsRead i)
    with step have "phase' = phase" "s' = s\<lparr>sh_runs := onChanges (readReport i) (sh_runs s)\<rparr>"
      by (auto simp: schedulerStep_def st st')
    then show ?thesis
      using state by (simp add: EditsRead lowers_def endsRun_def endsDiscovery_def edits_left st st' steadyState_def onChanges_def)
  next
    case (WindowTurn ms r now)
    with step have "phase = PhWindow" "phase' \<in> {PhWindow, PhSettling}" "sameHistories s s'"
      by (auto simp: schedulerStep_def st st' sameHistories_def onSchedule_def split: Phase.splits prod.splits if_splits
          dest!: quietWindow_same)
    then show ?thesis using plain by (auto simp: st st' split: Phase.splits)
  next
    case (IdleTurn r k)
    with step have "phase = PhIdle" "phase' \<in> {PhStart, PhIdle}" "sameHistories s s'"
      by (auto simp: schedulerStep_def st st' split: Phase.splits prod.splits if_splits dest!: idleTurn_same)
    then show ?thesis using plain by (auto simp: st st' split: Phase.splits)
  next
    case (FalsifySettled outcome failure)
    with step have "phase = PhFalsify" "phase' \<in> {PhStart, PhIdle}" "sameHistories s s'"
      by (auto simp: schedulerStep_def st st' settleFalsify_def stepThrew_def onSchedule_def sameHistories_def Let_def
          split: Phase.splits option.splits if_splits)
    then show ?thesis using plain by (auto simp: st st' split: Phase.splits)
  next
    case (RoundBegan r)
    with step waits have "phase = PhStart" "phase' = PhWindow" "sameHistories s s'"
      by (auto simp: schedulerStep_def st st' split: Phase.splits)
    then show ?thesis using plain by (auto simp: st st' split: Phase.splits)
  next
    case (InputsSettled r)
    with step waits have "phase = PhSettling" "phase' = PhBuilding" "sameHistories s s'"
      by (auto simp: schedulerStep_def st st' split: Phase.splits)
    then show ?thesis using plain by (auto simp: st st' split: Phase.splits)
  next
    case (BuildEnded r)
    with step steady have "phase = PhBuilding" "phase' \<in> {PhPlan revision, PhStart}" "sameHistories s s'"
      by (auto simp: schedulerStep_def st st' steady_def sameHistories_def split: Phase.splits if_splits)
    then show ?thesis using plain by (auto simp: st st' split: Phase.splits)
  qed
  with inv' show ?thesis by (simp add: steadyState_def st')
qed

lemma counts_left:
  assumes "steadyState n revision path modules st" and "list_all (steady n revision path modules) events"
  shows "countSteps (endsRun path) events st \<le> runsLeft path revision modules st \<and>
    countSteps endsDiscovery events st \<le> discoveriesLeft revision st"
  using assms
proof (induction events arbitrary: st)
  case (Cons event events)
  show ?case
  proof (cases "schedulerStep event st")
    case None
    have "\<not> endsRun path event st \<and> \<not> endsDiscovery event st"
      using None by (cases st; cases "fst st"; cases event)
        (auto simp: schedulerStep_def endsRun_def endsDiscovery_def)
    with None show ?thesis by simp
  next
    case (Some st')
    from step_lowers [OF Cons.prems(1) _ Some] Cons.prems(2) Cons.IH [of st'] show ?thesis
      by (auto simp: Some lowers_def)
  qed
qed simp

lemma countSteps_append:
  "countSteps P (events @ later) st =
     countSteps P events st + (case runScheduler events st of None \<Rightarrow> 0 | Some st' \<Rightarrow> countSteps P later st')"
  by (induction events arbitrary: st) (auto split: option.splits)

section \<open>Properties\<close>

text \<open>
  C27. From a state with no retry owed, while the inputs stay at one revision, no periodic reconciliation ends,
  the daemon is not stopping and each discovery it starts begins: whatever its jobs do, store or throw, and
  however often their reports say an input changed meanwhile, it runs a workspace whose list of test modules
  stays the same at most twice, and discovers at most twice.
\<close>

theorem one_revision_at_most_twice:
  assumes "reachable (PhStart, s)" and "noRetry n s" and "list_all (steady n revision path modules) events"
  shows "countSteps (endsRun path) events (PhStart, s) \<le> 2 \<and> countSteps endsDiscovery events (PhStart, s) \<le> 2"
proof -
  have "steadyState n revision path modules (PhStart, s)"
    using reachable_inv [OF assms(1)] assms(2) by (simp add: steadyState_def)
  from counts_left [OF this assms(3)] show ?thesis
    by (auto simp: runsLeft_def discoveriesLeft_def split: option.splits if_splits)
qed

text \<open>The sample moment's run, whose executor throws, is one of the two.\<close>

theorem one_revision_at_most_twice_witness:
  "\<exists>path events. countSteps (endsRun path) events (PhStart, startScheduler 0 newScheduler) \<in> {1, 2}"
proof -
  define begun where "begun = (PhStart, startScheduler 0 newScheduler)"
  define settled where "settled = RunSettled JobThrew \<lparr>se_revision = 3, se_now = 2000, se_stopping = False\<rparr> ''lost''"
  obtain started s where r: "runScheduler sampleEvents begun = Some (PhRun started, s)"
    using sampleEvents_run by (auto simp: begun_def)
  have "noRetry 0 (startScheduler 0 newScheduler)"
    by (simp add: noRetry_def startScheduler_def newScheduler_def newDiscoveryHistory_def)
  moreover have "list_all (steady 0 3 (sd_path started) (testModulesKey (WsFailed sampleWorkspace sampleFailure))) (sampleEvents @ [settled])"
    using samplePlan_distinct
    by (simp add: sampleEvents_def settled_def steady_def samplePlan_def discoveredWorkspaces_def)
  ultimately have "countSteps (endsRun (sd_path started)) (sampleEvents @ [settled]) begun \<le> 2"
    unfolding begun_def using one_revision_at_most_twice [OF reachable_start] by blast
  moreover have "1 \<le> countSteps (endsRun (sd_path started)) (sampleEvents @ [settled]) begun"
    by (simp add: countSteps_append r settled_def endsRun_def)
  ultimately have "countSteps (endsRun (sd_path started)) (sampleEvents @ [settled]) begun \<in> {1, 2}" by auto
  then show ?thesis unfolding begun_def by blast
qed

end
