(* ===== verification/JsonParse.thy ===== *)
theory JsonParse
  imports Json
begin

text \<open>
  The language's \<^verbatim>\<open>JSON.parse\<close>, by recursive descent over the text, with the fuel the length of
  the text gives, which is enough. White space may stand around every value, a string may hold every
  escape, and a later member of an object replaces an earlier one of its name. A number the value type
  cannot hold (signed, with a fraction or an exponent) and a code unit beyond 255 are refused: nothing
  the source writes holds one. What \<^verbatim>\<open>JSON.stringify\<close> writes is read back as it was.
\<close>

section \<open>Tokens\<close>

definition is_space :: "char \<Rightarrow> bool" where
  "is_space c = (c \<in> {CHR '' '', CHR 0x09, CHR 0x0A, CHR 0x0D})"

definition skip_space :: "string \<Rightarrow> string" where
  "skip_space s = dropWhile is_space s"

definition hex_value :: "char \<Rightarrow> nat option" where
  "hex_value c =
     (let n = (of_char c :: nat) in
      if 48 \<le> n \<and> n \<le> 57 then Some (n - 48)
      else if 97 \<le> n \<and> n \<le> 102 then Some (n - 87)
      else if 65 \<le> n \<and> n \<le> 70 then Some (n - 55) else None)"

text \<open>The code unit four hexadecimal digits name.\<close>

definition hex_unit :: "char \<Rightarrow> char \<Rightarrow> char \<Rightarrow> char \<Rightarrow> char option" where
  "hex_unit a b c d =
     (case (hex_value a, hex_value b, hex_value c, hex_value d) of
        (Some i, Some j, Some k, Some l) \<Rightarrow>
          (if i = 0 \<and> j = 0 then Some (char_of (16 * k + l)) else None)
      | _ \<Rightarrow> None)"

definition unescape :: "char \<Rightarrow> char option" where
  "unescape c =
     (if c = CHR 0x22 then Some (CHR 0x22) else if c = CHR 0x5C then Some (CHR 0x5C)
      else if c = CHR ''/'' then Some (CHR ''/'')
      else if c = CHR ''b'' then Some (CHR 0x08) else if c = CHR ''f'' then Some (CHR 0x0C)
      else if c = CHR ''n'' then Some (CHR 0x0A) else if c = CHR ''r'' then Some (CHR 0x0D)
      else if c = CHR ''t'' then Some (CHR 0x09) else None)"

abbreviation prepend :: "char \<Rightarrow> (string \<times> string) option \<Rightarrow> (string \<times> string) option" where
  "prepend c \<equiv> map_option (map_prod (Cons c) id)"

text \<open>The characters after an opening quote, up to the closing one, and what follows it.\<close>

fun read_chars :: "nat \<Rightarrow> string \<Rightarrow> (string \<times> string) option" where
  "read_chars 0 s = None"
| "read_chars (Suc n) [] = None"
| "read_chars (Suc n) (c # r) =
     (if c = CHR 0x22 then Some ([], r)
      else if c = CHR 0x5C then
        (case r of
           [] \<Rightarrow> None
         | d # r1 \<Rightarrow>
             (if d = CHR ''u'' then
                (case r1 of
                   i # j # k # l # r2 \<Rightarrow>
                     (case hex_unit i j k l of None \<Rightarrow> None | Some x \<Rightarrow> prepend x (read_chars n r2))
                 | _ \<Rightarrow> None)
              else (case unescape d of None \<Rightarrow> None | Some x \<Rightarrow> prepend x (read_chars n r1))))
      else if (of_char c :: nat) < 32 then None
      else prepend c (read_chars n r))"

text \<open>A whole number from its first digit, without a leading zero, and what follows it.\<close>

definition read_number :: "string \<Rightarrow> (nat \<times> string) option" where
  "read_number s =
     (let digits = takeWhile is_digit s; rest = dropWhile is_digit s in
      if digits = [] \<or> (hd digits = CHR ''0'' \<and> length digits > 1) then None
      else if rest \<noteq> [] \<and> hd rest \<in> set ''.eE'' then None
      else Some (read_digits 0 digits, rest))"

definition after_word :: "string \<Rightarrow> string \<Rightarrow> string option" where
  "after_word word s = (if take (length word) s = word then Some (drop (length word) s) else None)"

section \<open>Values\<close>

fun read_value :: "nat \<Rightarrow> string \<Rightarrow> (json \<times> string) option"
and read_elements :: "nat \<Rightarrow> string \<Rightarrow> (json list \<times> string) option"
and read_members :: "nat \<Rightarrow> string \<Rightarrow> ((string \<times> json) list \<times> string) option" where
  "read_value 0 s = None"
| "read_value (Suc n) s =
     (case skip_space s of
        [] \<Rightarrow> None
      | c # r \<Rightarrow>
          (if c = CHR 0x22 then map_option (map_prod JStr id) (read_chars (Suc (length r)) r)
           else if c = CHR ''['' then
             (case skip_space r of
                [] \<Rightarrow> None
              | d # r1 \<Rightarrow>
                  (if d = CHR '']'' then Some (JArr [], r1)
                   else map_option (map_prod JArr id) (read_elements n r)))
           else if c = CHR ''{'' then
             (case skip_space r of
                [] \<Rightarrow> None
              | d # r1 \<Rightarrow>
                  (if d = CHR ''}'' then Some (JObj [], r1)
                   else map_option (map_prod (\<lambda>ps. JObj (jmap_of ps)) id) (read_members n r)))
           else if is_digit c then map_option (map_prod JNum id) (read_number (c # r))
           else (case after_word ''null'' (c # r) of Some r1 \<Rightarrow> Some (JNull, r1)
             | None \<Rightarrow> (case after_word ''true'' (c # r) of Some r1 \<Rightarrow> Some (JBool True, r1)
               | None \<Rightarrow> (case after_word ''false'' (c # r) of Some r1 \<Rightarrow> Some (JBool False, r1)
                 | None \<Rightarrow> None)))))"
| "read_elements 0 s = None"
| "read_elements (Suc n) s =
     (case read_value n s of
        None \<Rightarrow> None
      | Some (v, r) \<Rightarrow>
          (case skip_space r of
             [] \<Rightarrow> None
           | c # r1 \<Rightarrow>
               (if c = CHR '','' then map_option (map_prod (Cons v) id) (read_elements n r1)
                else if c = CHR '']'' then Some ([v], r1) else None)))"
| "read_members 0 s = None"
| "read_members (Suc n) s =
     (case skip_space s of
        [] \<Rightarrow> None
      | q # r \<Rightarrow>
          (if q \<noteq> CHR 0x22 then None
           else case read_chars (Suc (length r)) r of
             None \<Rightarrow> None
           | Some (k, r1) \<Rightarrow>
               (case skip_space r1 of
                  [] \<Rightarrow> None
                | colon # r2 \<Rightarrow>
                    (if colon \<noteq> CHR '':'' then None
                     else case read_value n r2 of
                       None \<Rightarrow> None
                     | Some (v, r3) \<Rightarrow>
                         (case skip_space r3 of
                            [] \<Rightarrow> None
                          | c # r4 \<Rightarrow>
                              (if c = CHR '','' then map_option (map_prod (Cons (k, v)) id) (read_members n r4)
                               else if c = CHR ''}'' then Some ([(k, v)], r4) else None))))))"

text \<open>The whole text is one value, with the fuel its length gives.\<close>

definition json_parse :: "string \<Rightarrow> json option" where
  "json_parse s =
     (case read_value (Suc (length s)) s of
        None \<Rightarrow> None
      | Some (v, r) \<Rightarrow> (if skip_space r = [] then Some v else None))"

section \<open>What was written is read back\<close>

text \<open>The values the source writes: the names of an object's members are distinct.\<close>

fun json_wf :: "json \<Rightarrow> bool" where
  "json_wf (JArr vs) = list_all json_wf vs"
| "json_wf (JObj ps) = (distinct (map fst ps) \<and> list_all (\<lambda>(k, v). json_wf v) ps)"
| "json_wf _ = True"

lemma hex_value_digit: "k < 16 \<Longrightarrow> hex_value (hex_digit k) = Some k"
proof -
  assume "k < 16"
  then have "k = 0 \<or> k = 1 \<or> k = 2 \<or> k = 3 \<or> k = 4 \<or> k = 5 \<or> k = 6 \<or> k = 7 \<or> k = 8 \<or> k = 9 \<or>
    k = 10 \<or> k = 11 \<or> k = 12 \<or> k = 13 \<or> k = 14 \<or> k = 15" by presburger
  then show ?thesis by (elim disjE) (simp_all add: hex_value_def hex_digit_def)
qed

lemma hex_unit_digits:
  "hex_unit CHR ''0'' CHR ''0'' (hex_digit (of_char c div 16)) (hex_digit (of_char c mod 16)) = Some c"
proof -
  have "(of_char c :: nat) div 16 < 16" using of_char_lt_256 [of c] by (simp add: div_less_iff_less_mult)
  moreover have "(of_char c :: nat) mod 16 < 16" by simp
  moreover have "hex_value CHR ''0'' = Some 0" by (simp add: hex_value_def)
  moreover have "16 * (of_char c div 16) + of_char c mod 16 = (of_char c :: nat)" by simp
  ultimately show ?thesis by (simp only: hex_unit_def hex_value_digit prod.case option.case) simp
qed

lemma read_escape: "read_chars (Suc n) (json_escape c @ s) = prepend c (read_chars n s)"
proof (cases "escape_tail c")
  case None
  then have "json_escape c = [c]" by (simp add: json_escape_tail)
  moreover have "c \<noteq> CHR 0x22" "c \<noteq> CHR 0x5C" "\<not> (of_char c :: nat) < 32"
    using None by (auto simp: escape_tail_def split: if_splits)
  ultimately show ?thesis by simp
next
  case (Some t)
  then have e: "json_escape c = CHR 0x5C # t" by (simp add: json_escape_tail)
  from escape_tail_Some [OF Some] show ?thesis
    unfolding e by (elim disjE conjE) (simp_all add: unescape_def hex_unit_digits)
qed

lemma read_chars_escaped:
  "length xs < n \<Longrightarrow> read_chars n (flat_map json_escape xs @ CHR 0x22 # r) = Some (xs, r)"
proof (induction xs arbitrary: n)
  case Nil
  then obtain m where "n = Suc m" by (cases n) auto
  then show ?case by simp
next
  case (Cons c xs)
  then obtain m where n: "n = Suc m" "length xs < m" by (cases n) auto
  with Cons.IH [of m] show ?case by (simp add: read_escape)
qed

lemma length_escaped: "length xs \<le> length (flat_map json_escape xs)"
proof (induction xs)
  case (Cons c xs)
  have "1 \<le> length (json_escape c)" by (simp add: Suc_leI)
  with Cons.IH show ?case by simp
qed simp

lemma read_quoted:
  "read_chars (Suc (length (flat_map json_escape xs @ CHR 0x22 # r))) (flat_map json_escape xs @ CHR 0x22 # r) = Some (xs, r)"
  using length_escaped [of xs] by (intro read_chars_escaped) simp

lemma show_nat_no_zero: "n \<noteq> 0 \<Longrightarrow> hd (show_nat n) \<noteq> CHR ''0''"
proof (induction n rule: show_nat.induct)
  case (1 n)
  show ?case
  proof (cases "n < 10")
    case True
    with "1.prems" have "n \<in> {1, 2, 3, 4, 5, 6, 7, 8, 9}" by auto
    moreover have "show_nat n = [''0123456789'' ! n]" using True by (simp add: show_nat.simps [of n] digit_char)
    ultimately show ?thesis by (elim insertE) simp_all
  next
    case False
    then show ?thesis using "1.IH" by (simp add: show_nat.simps [of n])
  qed
qed

lemma read_number_show:
  assumes "at_boundary r"
  shows "read_number (show_nat n @ r) = Some (n, r)"
proof -
  have t: "takeWhile is_digit (show_nat n @ r) = show_nat n" "dropWhile is_digit (show_nat n @ r) = r"
    using show_nat_digits [of n] at_boundary_no_digit [OF assms]
    by (auto simp: takeWhile_append dropWhile_append takeWhile_eq_Nil_iff dropWhile_eq_self_iff)
  have "hd (show_nat n) = CHR ''0'' \<Longrightarrow> length (show_nat n) = 1"
    using show_nat_no_zero [of n] by (cases "n = 0") (simp_all add: show_nat.simps [of 0])
  moreover have "r \<noteq> [] \<Longrightarrow> hd r \<notin> set ''.eE''" using assms by (auto simp: at_boundary_def)
  ultimately show ?thesis by (auto simp: read_number_def Let_def t read_show_nat)
qed

lemma is_space_cases:
  "is_space c \<Longrightarrow> (c = CHR '' '' \<Longrightarrow> P) \<Longrightarrow> (c = CHR 0x09 \<Longrightarrow> P) \<Longrightarrow> (c = CHR 0x0A \<Longrightarrow> P) \<Longrightarrow> (c = CHR 0x0D \<Longrightarrow> P) \<Longrightarrow> P"
  by (auto simp: is_space_def)

lemma skip_boundary: "at_boundary r \<Longrightarrow> skip_space r = r"
  by (cases r) (auto simp: at_boundary_def skip_space_def is_space_def)

lemma skip_value: "skip_space (stringify v @ r) = stringify v @ r"
proof -
  obtain c s where s: "stringify v = c # s" by (cases "stringify v") simp_all
  have "\<not> is_space c"
  proof
    assume "is_space c"
    then have "kind_of_hd c = 6" by (elim is_space_cases) (simp_all add: kind_of_hd_def is_digit_def)
    then have "json_kind v = 6" using hd_stringify [of v] s by simp
    then obtain ps where "v = JObj ps" by (cases v) (auto split: if_splits)
    with s have "c = CHR ''{''" by (simp add: stringify.simps)
    with \<open>is_space c\<close> show False by (simp add: is_space_def)
  qed
  then show ?thesis by (simp add: s skip_space_def)
qed

lemma read_value_hd:
  assumes "stringify v = c # s"
  shows "skip_space (stringify v @ r) = c # (s @ r)"
  using skip_value [of v r] assms by simp

text \<open>The text of a value is read back with as much fuel as it is long, before anything that may follow it.\<close>

definition reads :: "json \<Rightarrow> bool" where
  "reads v = (\<forall>n r. length (stringify v) \<le> n \<longrightarrow> at_boundary r \<longrightarrow> read_value n (stringify v @ r) = Some (v, r))"

lemma readsD: "reads v \<Longrightarrow> length (stringify v) \<le> n \<Longrightarrow> at_boundary r \<Longrightarrow> read_value n (stringify v @ r) = Some (v, r)"
  by (simp add: reads_def)

lemma skip_comma: "skip_space (CHR '','' # r) = CHR '','' # r" "skip_space (CHR '']'' # r) = CHR '']'' # r"
  "skip_space (CHR ''}'' # r) = CHR ''}'' # r" "skip_space (CHR '':'' # r) = CHR '':'' # r"
  "skip_space (CHR 0x22 # r) = CHR 0x22 # r" "skip_space (CHR ''['' # r) = CHR ''['' # r"
  "skip_space (CHR ''{'' # r) = CHR ''{'' # r"
  by (simp_all add: skip_space_def is_space_def)

lemma tail_text_Cons: "tail_text f (x # xs) @ r = CHR '','' # (f x @ (tail_text f xs @ r))"
  by (simp add: tail_text_def)

lemma read_elements_text:
  assumes "\<forall>w \<in> set (v # vs). reads w" and "length (stringify v @ tail_text stringify vs) < n"
  shows "read_elements n (stringify v @ tail_text stringify vs @ CHR '']'' # r) = Some (v # vs, r)"
  using assms
proof (induction vs arbitrary: v n)
  case Nil
  then obtain m where n: "n = Suc m" "length (stringify v) \<le> m" by (cases n) (auto simp: tail_text_def)
  have "read_value m (stringify v @ CHR '']'' # r) = Some (v, CHR '']'' # r)"
    using Nil.prems n by (intro readsD) (auto simp: at_boundary_def)
  then show ?case by (simp add: n tail_text_def skip_comma)
next
  case (Cons w vs)
  then obtain m where n: "n = Suc m" "length (stringify v) \<le> m" "length (stringify w @ tail_text stringify vs) < m"
    by (cases n) (auto simp: tail_text_def)
  have "read_value m (stringify v @ (tail_text stringify (w # vs) @ CHR '']'' # r)) =
      Some (v, tail_text stringify (w # vs) @ CHR '']'' # r)"
    using Cons.prems n by (intro readsD at_boundary_tail) auto
  moreover have "read_elements m (stringify w @ tail_text stringify vs @ CHR '']'' # r) = Some (w # vs, r)"
    using Cons.prems n by (intro Cons.IH) auto
  ultimately show ?case by (simp add: n tail_text_Cons skip_comma)
qed

lemma quote_hd: "json_quote k = CHR 0x22 # (flat_map json_escape k @ [CHR 0x22])"
  by (simp add: json_quote_def)

lemma read_member:
  assumes "reads v" and "length (member_text (k, v)) \<le> n" and "at_boundary t" and "t = c # s"
  shows "read_members (Suc n) (member_text (k, v) @ t) =
    (if c = CHR '','' then map_option (map_prod (Cons (k, v)) id) (read_members n s)
     else if c = CHR ''}'' then Some ([(k, v)], s) else None)"
proof -
  have t: "member_text (k, v) @ t =
      CHR 0x22 # (flat_map json_escape k @ CHR 0x22 # (CHR '':'' # (stringify v @ t)))"
    by (simp add: member_text_def json_quote_def)
  have "read_value n (stringify v @ t) = Some (v, t)"
    using assms by (intro readsD) (auto simp: member_text_def)
  moreover have "skip_space t = c # s" using skip_boundary [OF assms(3)] assms(4) by simp
  ultimately show ?thesis
    unfolding t using length_escaped [of k] by (simp add: skip_comma read_chars_escaped)
qed

lemma read_members_text:
  assumes "\<forall>p \<in> set ((k, v) # ps). reads (snd p)" and "length (member_text (k, v) @ tail_text member_text ps) < n"
  shows "read_members n (member_text (k, v) @ tail_text member_text ps @ CHR ''}'' # r) = Some ((k, v) # ps, r)"
  using assms
proof (induction ps arbitrary: k v n)
  case Nil
  then obtain m where n: "n = Suc m" "length (member_text (k, v)) \<le> m" by (cases n) (auto simp: tail_text_def)
  have "reads v" using Nil.prems by simp
  from read_member [OF this n(2), of "CHR ''}'' # r"] show ?case
    by (simp add: n tail_text_def at_boundary_def)
next
  case (Cons p ps)
  obtain l w where p: "p = (l, w)" by (cases p)
  from Cons.prems obtain m where n: "n = Suc m" "length (member_text (k, v)) \<le> m"
    "length (member_text (l, w) @ tail_text member_text ps) < m"
    by (cases n) (auto simp: tail_text_def p)
  have "reads v" using Cons.prems by simp
  from read_member [OF this n(2) at_boundary_tail(2), of member_text "p # ps" r "CHR '',''"
      "member_text p @ tail_text member_text ps @ CHR ''}'' # r"]
  have "read_members n (member_text (k, v) @ tail_text member_text (p # ps) @ CHR ''}'' # r) =
      map_option (map_prod (Cons (k, v)) id) (read_members m (member_text (l, w) @ tail_text member_text ps @ CHR ''}'' # r))"
    by (simp add: n tail_text_Cons p)
  moreover have "read_members m (member_text (l, w) @ tail_text member_text ps @ CHR ''}'' # r) = Some ((l, w) # ps, r)"
    using Cons.prems n by (intro Cons.IH) (auto simp: p)
  ultimately show ?case by (simp add: p)
qed


lemma jmap_of_distinct: "distinct (map fst ps) \<Longrightarrow> jmap_of ps = ps"
proof -
  have "distinct (map fst (m @ ps)) \<Longrightarrow> fold (\<lambda>(k, v) m. jset k v m) ps m = m @ ps" for m :: "('a \<times> 'b) list"
  proof (induction ps arbitrary: m)
    case (Cons p ps)
    obtain k v where p: "p = (k, v)" by (cases p)
    have "k \<notin> fst ` set m" using Cons.prems by (auto simp: p)
    then have "jset k v m = m @ [(k, v)]"
    proof (induction m)
      case (Cons q m)
      then show ?case by (cases q) (auto simp: jset_def)
    qed (simp add: jset_def)
    then show ?case using Cons.IH [of "m @ [p]"] Cons.prems by (simp add: p)
  qed simp
  from this [of "[]"] show "distinct (map fst ps) \<Longrightarrow> jmap_of ps = ps" by (simp add: jmap_of_def)
qed

lemma wf_reads: "json_wf v \<Longrightarrow> reads v"
proof (induction v)
  case JNull
  show ?case unfolding reads_def
  proof (intro allI impI)
    fix n r assume "length (stringify JNull) \<le> n" then obtain m where "n = Suc m" by (cases n) (auto simp: stringify.simps)
    then show "read_value n (stringify JNull @ r) = Some (JNull, r)"
      by (simp add: stringify.simps skip_space_def is_space_def is_digit_def after_word_def)
  qed
next
  case (JBool b)
  show ?case unfolding reads_def
  proof (intro allI impI)
    fix n r assume "length (stringify (JBool b)) \<le> n" then obtain m where "n = Suc m" by (cases n) auto
    then show "read_value n (stringify (JBool b) @ r) = Some (JBool b, r)"
      by (cases b) (simp_all add: stringify.simps skip_space_def is_space_def is_digit_def after_word_def)
  qed
next
  case (JNum k)
  show ?case unfolding reads_def
  proof (intro allI impI)
    fix n r assume "length (stringify (JNum k)) \<le> n" and b: "at_boundary r"
    then obtain m where n: "n = Suc m" by (cases n) auto
    obtain c s where s: "show_nat k = c # s" by (cases "show_nat k") simp_all
    then have c: "is_digit c" using show_nat_hd [of k] by simp
    have "skip_space (stringify (JNum k) @ r) = c # (s @ r)" by (rule read_value_hd) (simp add: stringify.simps s)
    moreover have "read_number (c # (s @ r)) = Some (k, r)" using read_number_show [OF b, of k] by (simp add: s)
    ultimately show "read_value n (stringify (JNum k) @ r) = Some (JNum k, r)"
      using c by (auto simp: n is_digit_def)
  qed
next
  case (JStr x)
  show ?case unfolding reads_def
  proof (intro allI impI)
    fix n r assume "length (stringify (JStr x)) \<le> n" then obtain m where n: "n = Suc m" by (cases n) auto
    have "stringify (JStr x) @ r = CHR 0x22 # (flat_map json_escape x @ CHR 0x22 # r)"
      by (simp add: stringify.simps json_quote_def)
    then show "read_value n (stringify (JStr x) @ r) = Some (JStr x, r)"
      using length_escaped [of x] by (simp add: n skip_comma read_chars_escaped)
  qed
next
  case (JArr vs)
  have vs: "\<forall>w \<in> set vs. reads w" using JArr by (auto simp: list_all_iff)
  show ?case unfolding reads_def
  proof (intro allI impI)
    fix n r assume l: "length (stringify (JArr vs)) \<le> n"
    then obtain m where n: "n = Suc m" by (cases n) auto
    show "read_value n (stringify (JArr vs) @ r) = Some (JArr vs, r)"
    proof (cases vs)
      case Nil
      then show ?thesis by (simp add: n stringify.simps skip_comma)
    next
      case (Cons w ws)
      have t: "stringify (JArr vs) @ r = CHR ''['' # (stringify w @ tail_text stringify ws @ CHR '']'' # r)"
        by (simp add: stringify.simps Cons join_map_Cons del: list.map)
      obtain c s where s: "stringify w = c # s" by (cases "stringify w") simp_all
      have "c \<noteq> CHR '']''" using hd_stringify_no_close [of w] s by simp
      moreover have "skip_space (stringify w @ tail_text stringify ws @ CHR '']'' # r) = c # (s @ tail_text stringify ws @ CHR '']'' # r)"
        using read_value_hd [OF s] by simp
      moreover have "length (stringify w @ tail_text stringify ws) < m"
        using l by (simp add: n stringify.simps Cons join_map_Cons del: list.map)
      then have "read_elements m (stringify w @ tail_text stringify ws @ CHR '']'' # r) = Some (vs, r)"
        using read_elements_text [of w ws m r] vs by (simp add: Cons)
      ultimately show ?thesis unfolding t by (simp add: n skip_comma)
    qed
  qed
next
  case (JObj ps)
  have ps: "\<forall>p \<in> set ps. reads (snd p)"
  proof
    fix p assume p: "p \<in> set ps"
    then have "json_wf (snd p)" using JObj.prems by (auto simp: list_all_iff)
    then show "reads (snd p)" using JObj.IH [OF p] by (metis prod.collapse snds.intros snd_conv)
  qed
  show ?case unfolding reads_def
  proof (intro allI impI)
    fix n r assume l: "length (stringify (JObj ps)) \<le> n"
    then obtain m where n: "n = Suc m" by (cases n) auto
    show "read_value n (stringify (JObj ps) @ r) = Some (JObj ps, r)"
    proof (cases ps)
      case Nil
      then show ?thesis by (simp add: n stringify.simps skip_comma)
    next
      case (Cons p qs)
      obtain k w where p: "p = (k, w)" by (cases p)
      have j: "stringify (JObj ps) = CHR ''{'' # (join '','' (map member_text ps) @ ''}'')"
        by (simp add: stringify.simps member_text_def)
      have t: "stringify (JObj ps) @ r = CHR ''{'' # (member_text (k, w) @ tail_text member_text qs @ CHR ''}'' # r)"
        unfolding j by (simp add: Cons p join_map_Cons del: list.map)
      have "length (member_text (k, w) @ tail_text member_text qs) < m"
        using l unfolding j by (simp add: n Cons p join_map_Cons del: list.map)
      then have "read_members m (member_text (k, w) @ tail_text member_text qs @ CHR ''}'' # r) = Some (ps, r)"
        using read_members_text [of k w qs m r] ps by (simp add: Cons p)
      moreover have "member_text (k, w) @ tail_text member_text qs @ CHR ''}'' # r =
          CHR 0x22 # (flat_map json_escape k @ CHR 0x22 # (CHR '':'' # (stringify w @ tail_text member_text qs @ CHR ''}'' # r)))"
        by (simp add: member_text_def json_quote_def)
      ultimately show ?thesis
        unfolding t using JObj.prems by (simp add: n skip_comma jmap_of_distinct)
    qed
  qed
qed

text \<open>\<^verbatim>\<open>JSON.parse(JSON.stringify(v))\<close> is \<open>v\<close>.\<close>

lemma json_parse_stringify [simp]: "json_wf v \<Longrightarrow> json_parse (stringify v) = Some v"
  using readsD [OF wf_reads, of v "Suc (length (stringify v))" "[]"]
  by (simp add: json_parse_def at_boundary_def skip_space_def)

end
