(* ===== verification/Columns.thy ===== *)
theory Columns
  imports JsonParse Records
begin

text \<open>
  How the store's readers take a record out of rows (\<^verbatim>\<open>store/columns.ts\<close>). A row is the values of
  its columns by name; a throw is an error value, which tells an unreadable record from a failure of the
  store. A closed set of strings is the table of its members. Beside each reader stands the value
  \<^verbatim>\<open>JSON.stringify\<close> is given by the writers, in the order of the fields of its type, with the lemma
  that the reader gives the record back.
\<close>

section \<open>Rows\<close>

datatype SqlValue = SqlNull | SqlText string | SqlInt nat

type_synonym Row = "(string, SqlValue) jsmap"

datatype StoreError = UnreadableRecordError string | NewerStoreSchemaError string | StoreFailure string

text \<open>Sequencing of what may throw.\<close>

definition bindE :: "'e + 'a \<Rightarrow> ('a \<Rightarrow> 'e + 'b) \<Rightarrow> 'e + 'b" where
  "bindE m f = (case m of Inl e \<Rightarrow> Inl e | Inr x \<Rightarrow> f x)"

lemma bindE_simps [simp]: "bindE (Inr x) f = f x" "bindE (Inl e) f = Inl e"
  by (simp_all add: bindE_def)

lemma bindE_Inr: "bindE m f = Inr y \<longleftrightarrow> (\<exists>x. m = Inr x \<and> f x = Inr y)"
  by (cases m) simp_all

definition sqlJson :: "SqlValue \<Rightarrow> json" where
  "sqlJson v = (case v of SqlNull \<Rightarrow> JNull | SqlText s \<Rightarrow> JStr s | SqlInt n \<Rightarrow> JNum n)"

definition unreadable :: "string \<Rightarrow> json \<Rightarrow> StoreError" where
  "unreadable name shown = UnreadableRecordError (''The store holds an unreadable '' @ name @ '': '' @ stringify shown)"

definition column :: "Row \<Rightarrow> string \<Rightarrow> StoreError + SqlValue" where
  "column row name =
     (case map_of row name of
        None \<Rightarrow> Inl (StoreFailure (''The store query returned no '' @ name @ '' column''))
      | Some v \<Rightarrow> Inr v)"

definition rowText :: "Row \<Rightarrow> string \<Rightarrow> StoreError + string" where
  "rowText row name = bindE (column row name) (\<lambda>v. case v of SqlText s \<Rightarrow> Inr s | _ \<Rightarrow> Inl (unreadable name (sqlJson v)))"

definition optionalText :: "Row \<Rightarrow> string \<Rightarrow> StoreError + string option" where
  "optionalText row name =
     bindE (column row name) (\<lambda>v. if v = SqlNull then Inr None else bindE (rowText row name) (\<lambda>s. Inr (Some s)))"

definition closeError :: "Row \<Rightarrow> StoreError + string option" where
  "closeError row = optionalText row ''close_error''"

definition rowInteger :: "Row \<Rightarrow> string \<Rightarrow> StoreError + nat" where
  "rowInteger row name = bindE (column row name) (\<lambda>v. case v of SqlInt n \<Rightarrow> Inr n | _ \<Rightarrow> Inl (unreadable name (sqlJson v)))"

text \<open>Rows by an integer column, in order within each group.\<close>

fun rowsFrom :: "string \<Rightarrow> Row list \<Rightarrow> (nat, Row list) jsmap \<Rightarrow> StoreError + (nat, Row list) jsmap" where
  "rowsFrom name [] groups = Inr groups"
| "rowsFrom name (row # rows) groups =
     bindE (rowInteger row name) (\<lambda>key. rowsFrom name rows
       (jset key ((case map_of groups key of None \<Rightarrow> [] | Some held \<Rightarrow> held) @ [row]) groups))"

definition rowsBy :: "Row list \<Rightarrow> string \<Rightarrow> StoreError + (nat, Row list) jsmap" where
  "rowsBy rows name = rowsFrom name rows []"

definition rowJson :: "Row \<Rightarrow> string \<Rightarrow> StoreError + json" where
  "rowJson row name =
     bindE (rowText row name) (\<lambda>s. case json_parse s of Some v \<Rightarrow> Inr v | None \<Rightarrow> Inl (unreadable name (JStr s)))"

definition memberOf :: "(string \<times> 'a) list \<Rightarrow> string \<Rightarrow> string \<Rightarrow> StoreError + 'a" where
  "memberOf members s name =
     (case map_of members s of Some x \<Rightarrow> Inr x | None \<Rightarrow> Inl (unreadable name (JStr s)))"

text \<open>The string a member is.\<close>

fun nameIn :: "(string \<times> 'a) list \<Rightarrow> 'a \<Rightarrow> string" where
  "nameIn [] x = []"
| "nameIn ((name, y) # members) x = (if y = x then name else nameIn members x)"

definition arrayOf :: "Row \<Rightarrow> string \<Rightarrow> (json \<Rightarrow> StoreError + 'a) \<Rightarrow> StoreError + 'a list" where
  "arrayOf row name item =
     bindE (rowJson row name) (\<lambda>v. case v of JArr vs \<Rightarrow> mapE item vs | _ \<Rightarrow> Inl (unreadable name v))"

text \<open>\<^verbatim>\<open>isStringArray\<close> and what the array then holds.\<close>

definition strings :: "json \<Rightarrow> string list option" where
  "strings v =
     (case v of
        JArr vs \<Rightarrow>
          (if list_all (\<lambda>x. case x of JStr _ \<Rightarrow> True | _ \<Rightarrow> False) vs
           then Some (map (\<lambda>x. case x of JStr s \<Rightarrow> s | _ \<Rightarrow> []) vs) else None)
      | _ \<Rightarrow> None)"

definition rowStrings :: "Row \<Rightarrow> string \<Rightarrow> StoreError + string list" where
  "rowStrings row name =
     bindE (rowJson row name) (\<lambda>v. case strings v of Some ss \<Rightarrow> Inr ss | None \<Rightarrow> Inl (unreadable name v))"

section \<open>Fields of a value\<close>

text \<open>A field, none where it is undefined.\<close>

definition jsonField :: "json \<Rightarrow> string \<Rightarrow> json option" where
  "jsonField v key = (case v of JObj ps \<Rightarrow> map_of ps key | _ \<Rightarrow> None)"

definition unreadableField :: "string \<Rightarrow> json \<Rightarrow> StoreError" where
  "unreadableField key v = unreadable (''JSON field '' @ key) v"

definition jsonText :: "json \<Rightarrow> string \<Rightarrow> StoreError + string" where
  "jsonText v key = (case jsonField v key of Some (JStr s) \<Rightarrow> Inr s | _ \<Rightarrow> Inl (unreadableField key v))"

definition jsonBoolean :: "json \<Rightarrow> string \<Rightarrow> StoreError + bool" where
  "jsonBoolean v key = (case jsonField v key of Some (JBool b) \<Rightarrow> Inr b | _ \<Rightarrow> Inl (unreadableField key v))"

definition jsonArray :: "json \<Rightarrow> string \<Rightarrow> (json \<Rightarrow> StoreError + 'a) \<Rightarrow> StoreError + 'a list" where
  "jsonArray v key item = (case jsonField v key of Some (JArr vs) \<Rightarrow> mapE item vs | _ \<Rightarrow> Inl (unreadableField key v))"

definition jsonStrings :: "json \<Rightarrow> string \<Rightarrow> StoreError + string list" where
  "jsonStrings v key =
     (case Option.bind (jsonField v key) strings of Some ss \<Rightarrow> Inr ss | None \<Rightarrow> Inl (unreadableField key v))"

definition jsonRecord :: "json \<Rightarrow> string \<Rightarrow> StoreError + json" where
  "jsonRecord v key =
     (case jsonField v key of Some field \<Rightarrow> (if isRecord field then Inr field else Inl (unreadableField key v))
      | None \<Rightarrow> Inl (unreadableField key v))"

definition jsonCount :: "json \<Rightarrow> string \<Rightarrow> StoreError + nat" where
  "jsonCount v key = (case jsonField v key of Some (JNum n) \<Rightarrow> Inr n | _ \<Rightarrow> Inl (unreadableField key v))"

definition jsonMember :: "(string \<times> 'a) list \<Rightarrow> json \<Rightarrow> string \<Rightarrow> StoreError + 'a" where
  "jsonMember members v key = bindE (jsonText v key) (\<lambda>s. memberOf members s (''JSON field '' @ key))"

definition jsonOptional :: "json \<Rightarrow> string \<Rightarrow> (json \<Rightarrow> string \<Rightarrow> StoreError + 'a) \<Rightarrow> StoreError + 'a option" where
  "jsonOptional v key read = (if jsonField v key = None then Inr None else bindE (read v key) (\<lambda>x. Inr (Some x)))"

section \<open>Tests\<close>

definition DUPLICATE_MARK :: nat where
  "DUPLICATE_MARK = 1"

definition NOT_DUPLICATE_MARK :: nat where
  "NOT_DUPLICATE_MARK = 0"

abbreviation textsJson :: "string list \<Rightarrow> json" where
  "textsJson ss \<equiv> JArr (map JStr ss)"

definition jsonColumn :: "json \<Rightarrow> SqlValue" where
  "jsonColumn v = SqlText (stringify v)"

definition identifiedTestColumns :: "'z IdentifiedTest_scheme \<Rightarrow> SqlValue list" where
  "identifiedTestColumns test =
     (let identity = it_identity test in
      [SqlText (workspacePath identity), SqlText (projectName identity), SqlText (modulePath identity),
       jsonColumn (textsJson (namePath identity)), SqlInt (occurrence identity),
       SqlInt (if it_isDuplicate test then DUPLICATE_MARK else NOT_DUPLICATE_MARK)])"

definition duplicateMark :: "Row \<Rightarrow> StoreError + bool" where
  "duplicateMark row =
     bindE (rowInteger row ''is_duplicate'') (\<lambda>n.
       if n = DUPLICATE_MARK then Inr True else if n = NOT_DUPLICATE_MARK then Inr False
       else Inl (unreadable ''is_duplicate'' (JNum n)))"

definition identifiedTest :: "Row \<Rightarrow> StoreError + IdentifiedTest" where
  "identifiedTest row =
     bindE (rowText row ''workspace_path'') (\<lambda>wsPath.
     bindE (rowText row ''project_name'') (\<lambda>project.
     bindE (rowText row ''module_path'') (\<lambda>modPath.
     bindE (rowStrings row ''name_path'') (\<lambda>names.
     bindE (rowInteger row ''occurrence'') (\<lambda>nth.
     bindE (duplicateMark row) (\<lambda>dup.
       Inr \<lparr>it_identity = \<lparr>workspacePath = wsPath, projectName = project, modulePath = modPath,
              namePath = names, occurrence = nth\<rparr>, it_isDuplicate = dup\<rparr>))))))"

section \<open>Values carried whole\<close>

definition optionalMember :: "string \<Rightarrow> string option \<Rightarrow> (string \<times> json) list" where
  "optionalMember key v = (case v of None \<Rightarrow> [] | Some s \<Rightarrow> [(key, JStr s)])"

definition unsupportedVitestJson :: "UnsupportedVitest \<Rightarrow> json" where
  "unsupportedVitestJson v =
     JObj ([(''supported'', JBool False)] @ optionalMember ''version'' (uv_version v) @
       [(''supportedRange'', JStr (uv_supportedRange v)), (''reason'', JStr (uv_reason v))])"

definition unsupportedVitest :: "json \<Rightarrow> StoreError + UnsupportedVitest" where
  "unsupportedVitest v =
     (if \<not> isRecord v \<or> jsonField v ''supported'' \<noteq> Some (JBool False)
      then Inl (unreadable ''unsupported Vitest report'' v)
      else bindE (case jsonField v ''version'' of None \<Rightarrow> Inr None | Some (JStr s) \<Rightarrow> Inr (Some s)
          | Some _ \<Rightarrow> Inl (unreadable ''unsupported Vitest report'' v)) (\<lambda>version.
        bindE (jsonText v ''supportedRange'') (\<lambda>range.
        bindE (jsonText v ''reason'') (\<lambda>reason.
          Inr \<lparr>uv_version = version, uv_supportedRange = range, uv_reason = reason\<rparr>))))"

definition moduleReportJson :: "ModuleReport \<Rightarrow> json" where
  "moduleReportJson m = JObj [(''projectName'', JStr (mr_projectName m)), (''modulePath'', JStr (mr_modulePath m))]"

definition moduleReport :: "json \<Rightarrow> StoreError + ModuleReport" where
  "moduleReport v =
     bindE (jsonText v ''projectName'') (\<lambda>project.
     bindE (jsonText v ''modulePath'') (\<lambda>path. Inr \<lparr>mr_projectName = project, mr_modulePath = path\<rparr>))"

definition failedModuleJson :: "FailedModule \<Rightarrow> json" where
  "failedModuleJson m = JObj [(''projectName'', JStr (mr_projectName m)), (''modulePath'', JStr (mr_modulePath m)),
     (''errors'', textsJson (fm_errors m))]"

definition failedModule :: "json \<Rightarrow> StoreError + FailedModule" where
  "failedModule v =
     bindE (moduleReport v) (\<lambda>report.
     bindE (jsonStrings v ''errors'') (\<lambda>errors. Inr (ModuleReport.extend report \<lparr>fm_errors = errors\<rparr>)))"

definition unsupportedProjectJson :: "UnsupportedProject \<Rightarrow> json" where
  "unsupportedProjectJson p = JObj [(''projectName'', JStr (up_projectName p)), (''reason'', JStr (up_reason p))]"

definition unsupportedProject :: "json \<Rightarrow> StoreError + UnsupportedProject" where
  "unsupportedProject v =
     bindE (jsonText v ''projectName'') (\<lambda>project.
     bindE (jsonText v ''reason'') (\<lambda>reason. Inr \<lparr>up_projectName = project, up_reason = reason\<rparr>))"

definition unreadWorkspaceSourceJson :: "UnreadWorkspaceSource \<Rightarrow> json" where
  "unreadWorkspaceSourceJson u = JObj [(''source'', JStr (us_source u)), (''reason'', JStr (us_reason u))]"

definition unreadWorkspaceSource :: "json \<Rightarrow> StoreError + UnreadWorkspaceSource" where
  "unreadWorkspaceSource v =
     bindE (jsonText v ''source'') (\<lambda>source.
     bindE (jsonText v ''reason'') (\<lambda>reason. Inr \<lparr>us_source = source, us_reason = reason\<rparr>))"

definition notCoveredWorkspaceJson :: "NotCoveredWorkspace \<Rightarrow> json" where
  "notCoveredWorkspaceJson w = JObj [(''path'', JStr (ncw_path w)), (''reason'', JStr (ncw_reason w))]"

definition notCoveredWorkspace :: "json \<Rightarrow> StoreError + NotCoveredWorkspace" where
  "notCoveredWorkspace v =
     bindE (jsonText v ''path'') (\<lambda>path.
     bindE (jsonText v ''reason'') (\<lambda>reason. Inr \<lparr>ncw_path = path, ncw_reason = reason\<rparr>))"

section \<open>Selection facts\<close>

definition ALIAS_FIND_KINDS :: "(string \<times> AliasFindKind) list" where
  "ALIAS_FIND_KINDS = [(''string'', StringFind), (''regexp'', RegexpFind)]"

definition STRING_FIND_FLAGS :: string where
  "STRING_FIND_FLAGS = []"

definition spelledDirectoryJson :: "SpelledDirectory \<Rightarrow> json" where
  "spelledDirectoryJson d = JObj [(''spelled'', JStr (sd_spelled d)), (''directory'', JStr (sd_directory d))]"

definition spelledDirectory :: "json \<Rightarrow> StoreError + SpelledDirectory" where
  "spelledDirectory v =
     bindE (jsonText v ''spelled'') (\<lambda>spelled.
     bindE (jsonText v ''directory'') (\<lambda>directory. Inr \<lparr>sd_spelled = spelled, sd_directory = directory\<rparr>))"

definition crawledLinksJson :: "CrawledLinks \<Rightarrow> json" where
  "crawledLinksJson c = (case c of
     LinksComplete links \<Rightarrow> JObj [(''complete'', JBool True), (''links'', JArr (map spelledDirectoryJson links))]
   | LinksUnknown reason \<Rightarrow> JObj [(''complete'', JBool False), (''reason'', JStr reason)])"

definition crawledLinks :: "json \<Rightarrow> StoreError + CrawledLinks" where
  "crawledLinks v =
     bindE (jsonBoolean v ''complete'') (\<lambda>complete.
       if complete then bindE (jsonArray v ''links'' spelledDirectory) (\<lambda>links. Inr (LinksComplete links))
       else bindE (jsonText v ''reason'') (\<lambda>reason. Inr (LinksUnknown reason)))"

definition testFilePatternsJson :: "TestFilePatterns \<Rightarrow> json" where
  "testFilePatternsJson p = JObj [(''directory'', JStr (tp_directory p)), (''vitestDirectory'', JStr (tp_vitestDirectory p)),
     (''patternBases'', JArr (map spelledDirectoryJson (tp_patternBases p))),
     (''crawledLinks'', crawledLinksJson (tp_crawledLinks p)), (''include'', textsJson (tp_include p)),
     (''exclude'', textsJson (tp_exclude p)), (''includeSource'', textsJson (tp_includeSource p))]"

definition testFilePatterns :: "json \<Rightarrow> StoreError + TestFilePatterns" where
  "testFilePatterns v =
     bindE (jsonText v ''directory'') (\<lambda>directory.
     bindE (jsonText v ''vitestDirectory'') (\<lambda>vitestDirectory.
     bindE (jsonArray v ''patternBases'' spelledDirectory) (\<lambda>bases.
     bindE (bindE (jsonRecord v ''crawledLinks'') crawledLinks) (\<lambda>links.
     bindE (jsonStrings v ''include'') (\<lambda>incl.
     bindE (jsonStrings v ''exclude'') (\<lambda>excl.
     bindE (jsonStrings v ''includeSource'') (\<lambda>inSource.
       Inr \<lparr>tp_directory = directory, tp_vitestDirectory = vitestDirectory, tp_patternBases = bases,
         tp_crawledLinks = links, tp_include = incl, tp_exclude = excl, tp_includeSource = inSource\<rparr>)))))))"

definition findKindText :: "AliasFindKind \<Rightarrow> string" where
  "findKindText k = (case k of StringFind \<Rightarrow> ''string'' | RegexpFind \<Rightarrow> ''regexp'')"

definition reportedAliasJson :: "ReportedAlias \<Rightarrow> json" where
  "reportedAliasJson a = JObj [(''find'', JStr (ra_find a)), (''findKind'', JStr (findKindText (ra_findKind a))),
     (''flags'', JStr (ra_flags a)), (''replacement'', JStr (ra_replacement a)),
     (''hasCustomResolver'', JBool (ra_hasCustomResolver a))]"

definition aliasFlags :: "json \<Rightarrow> AliasFindKind \<Rightarrow> StoreError + string" where
  "aliasFlags v findKind =
     bindE (jsonText v ''flags'') (\<lambda>flags.
       if findKind = StringFind \<and> flags \<noteq> STRING_FIND_FLAGS then Inl (unreadable ''JSON field flags'' v) else Inr flags)"

definition reportedAlias :: "json \<Rightarrow> StoreError + ReportedAlias" where
  "reportedAlias v =
     bindE (bindE (jsonText v ''findKind'') (\<lambda>s. memberOf ALIAS_FIND_KINDS s ''JSON field findKind'')) (\<lambda>findKind.
     bindE (jsonText v ''find'') (\<lambda>found.
     bindE (aliasFlags v findKind) (\<lambda>flags.
     bindE (jsonText v ''replacement'') (\<lambda>replacement.
     bindE (jsonBoolean v ''hasCustomResolver'') (\<lambda>custom.
       Inr \<lparr>ra_find = found, ra_findKind = findKind, ra_flags = flags, ra_replacement = replacement,
         ra_hasCustomResolver = custom\<rparr>)))))"

definition envSourceJson :: "EnvSource \<Rightarrow> json" where
  "envSourceJson e = JObj [(''envDirectory'', case es_envDirectory e of None \<Rightarrow> JNull | Some d \<Rightarrow> JStr d),
     (''envPrefixes'', textsJson (es_envPrefixes e)), (''mode'', JStr (es_mode e))]"

definition envSource :: "json \<Rightarrow> StoreError + EnvSource" where
  "envSource v =
     bindE (if jsonField v ''envDirectory'' = Some JNull then Inr None
       else bindE (jsonText v ''envDirectory'') (\<lambda>d. Inr (Some d))) (\<lambda>directory.
     bindE (jsonStrings v ''envPrefixes'') (\<lambda>prefs.
     bindE (jsonText v ''mode'') (\<lambda>mode.
       Inr \<lparr>es_envDirectory = directory, es_envPrefixes = prefs, es_mode = mode\<rparr>)))"

definition envSourcesJson :: "EnvSources \<Rightarrow> json" where
  "envSourcesJson e = (case e of EnvSourcesKnown es \<Rightarrow> JArr (map envSourceJson es)
     | EnvSourcesNotKnown reason \<Rightarrow> JObj [(''notKnown'', JStr reason)])"

definition storedEnvSources :: "json \<Rightarrow> StoreError + EnvSources" where
  "storedEnvSources v =
     (case jsonField v ''envSources'' of
        Some (JObj ps) \<Rightarrow> bindE (jsonText (JObj ps) ''notKnown'') (\<lambda>reason. Inr (EnvSourcesNotKnown reason))
      | _ \<Rightarrow> bindE (jsonArray v ''envSources'' envSource) (\<lambda>es. Inr (EnvSourcesKnown es)))"

definition projectSelectionFactsJson :: "ProjectSelectionFacts \<Rightarrow> json" where
  "projectSelectionFactsJson p = JObj [(''projectName'', JStr (pf_projectName p)), (''viteRoot'', JStr (pf_viteRoot p)),
     (''setupFiles'', textsJson (pf_setupFiles p)), (''globalSetupFiles'', textsJson (pf_globalSetupFiles p)),
     (''aliases'', JArr (map reportedAliasJson (pf_aliases p))),
     (''testFilePatterns'', testFilePatternsJson (pf_testFilePatterns p)),
     (''envSources'', envSourcesJson (pf_envSources p))]"

definition projectSelectionFacts :: "json \<Rightarrow> StoreError + ProjectSelectionFacts" where
  "projectSelectionFacts v =
     bindE (jsonText v ''projectName'') (\<lambda>project.
     bindE (jsonText v ''viteRoot'') (\<lambda>viteRoot.
     bindE (jsonStrings v ''setupFiles'') (\<lambda>setupFiles.
     bindE (jsonStrings v ''globalSetupFiles'') (\<lambda>globalSetupFiles.
     bindE (jsonArray v ''aliases'' reportedAlias) (\<lambda>aliases.
     bindE (bindE (jsonRecord v ''testFilePatterns'') testFilePatterns) (\<lambda>patterns.
     bindE (storedEnvSources v) (\<lambda>envSources.
       Inr \<lparr>pf_projectName = project, pf_viteRoot = viteRoot, pf_setupFiles = setupFiles,
         pf_globalSetupFiles = globalSetupFiles, pf_aliases = aliases, pf_testFilePatterns = patterns,
         pf_envSources = envSources\<rparr>)))))))"

section \<open>A value reads back as it was\<close>

named_theorems json_reads \<open>what a reader gives of the value a writer stored\<close>

lemma mapE_Json: "(\<And>x. x \<in> set xs \<Longrightarrow> read (enc x) = Inr x) \<Longrightarrow> mapE read (map enc xs) = Inr xs"
  by (induction xs) simp_all

lemma strings_texts [json_reads]: "strings (textsJson ss) = Some ss"
  by (simp add: strings_def list_all_iff comp_def)

lemma jsonField_JObj [json_reads]: "jsonField (JObj ps) key = map_of ps key"
  by (simp add: jsonField_def)

lemmas field_readers = jsonText_def jsonBoolean_def jsonArray_def jsonStrings_def jsonRecord_def jsonCount_def jsonMember_def

lemma unsupportedVitest_reads [json_reads]: "unsupportedVitest (unsupportedVitestJson v) = Inr v"
  by (cases "uv_version v")
     (simp_all add: unsupportedVitest_def unsupportedVitestJson_def optionalMember_def field_readers json_reads)

lemma moduleReport_reads [json_reads]: "moduleReport (moduleReportJson m) = Inr m"
  by (simp add: moduleReport_def moduleReportJson_def field_readers json_reads)

lemma failedModule_reads [json_reads]: "failedModule (failedModuleJson m) = Inr m"
  by (simp add: failedModule_def failedModuleJson_def moduleReport_def field_readers json_reads ModuleReport.extend_def)

lemma unsupportedProject_reads [json_reads]: "unsupportedProject (unsupportedProjectJson p) = Inr p"
  by (simp add: unsupportedProject_def unsupportedProjectJson_def field_readers json_reads)

lemma unreadWorkspaceSource_reads [json_reads]: "unreadWorkspaceSource (unreadWorkspaceSourceJson u) = Inr u"
  by (simp add: unreadWorkspaceSource_def unreadWorkspaceSourceJson_def field_readers json_reads)

lemma notCoveredWorkspace_reads [json_reads]: "notCoveredWorkspace (notCoveredWorkspaceJson w) = Inr w"
  by (simp add: notCoveredWorkspace_def notCoveredWorkspaceJson_def field_readers json_reads)

lemma spelledDirectory_reads [json_reads]: "spelledDirectory (spelledDirectoryJson d) = Inr d"
  by (simp add: spelledDirectory_def spelledDirectoryJson_def field_readers json_reads)

lemma crawledLinks_reads [json_reads]: "crawledLinks (crawledLinksJson c) = Inr c"
  by (cases c) (simp_all add: crawledLinks_def crawledLinksJson_def field_readers json_reads mapE_Json)

lemma crawledLinks_record [json_reads]: "isRecord (crawledLinksJson c)"
  by (cases c) (simp_all add: crawledLinksJson_def)

lemma testFilePatterns_reads [json_reads]: "testFilePatterns (testFilePatternsJson p) = Inr p"
  by (simp add: testFilePatterns_def testFilePatternsJson_def field_readers json_reads mapE_Json)

lemma testFilePatterns_record [json_reads]: "isRecord (testFilePatternsJson p)"
  by (simp add: testFilePatternsJson_def)

text \<open>Only a RegExp find carries flags.\<close>

definition aliasOk :: "ReportedAlias \<Rightarrow> bool" where
  "aliasOk a = (ra_findKind a = StringFind \<longrightarrow> ra_flags a = STRING_FIND_FLAGS)"

lemma reportedAlias_reads: "aliasOk a \<Longrightarrow> reportedAlias (reportedAliasJson a) = Inr a"
  by (cases "ra_findKind a")
     (simp_all add: reportedAlias_def reportedAliasJson_def aliasFlags_def aliasOk_def findKindText_def memberOf_def
       ALIAS_FIND_KINDS_def field_readers json_reads)

lemma envSource_reads [json_reads]: "envSource (envSourceJson e) = Inr e"
  by (cases "es_envDirectory e") (simp_all add: envSource_def envSourceJson_def field_readers json_reads)

lemma storedEnvSources_reads [json_reads]:
  "map_of ps ''envSources'' = Some (envSourcesJson e) \<Longrightarrow> storedEnvSources (JObj ps) = Inr e"
  by (cases e) (simp_all add: storedEnvSources_def envSourcesJson_def field_readers json_reads mapE_Json)

definition factsOk :: "ProjectSelectionFacts \<Rightarrow> bool" where
  "factsOk p = list_all aliasOk (pf_aliases p)"

lemma projectSelectionFacts_reads:
  assumes "factsOk p"
  shows "projectSelectionFacts (projectSelectionFactsJson p) = Inr p"
proof -
  have "mapE reportedAlias (map reportedAliasJson (pf_aliases p)) = Inr (pf_aliases p)"
    using assms by (intro mapE_Json reportedAlias_reads) (simp add: factsOk_def list_all_iff)
  then show ?thesis
    by (simp add: projectSelectionFacts_def projectSelectionFactsJson_def field_readers json_reads)
qed

text \<open>Every value stored is one \<^verbatim>\<open>JSON.parse\<close> gives back.\<close>

named_theorems json_wfs \<open>the values the writers store are well-formed\<close>

lemma wf_array [json_wfs]: "json_wf (JArr vs) = list_all json_wf vs" "json_wf (JStr s)" "json_wf (JBool b)" "json_wf JNull"
  "json_wf (JNum n)"
  by simp_all

lemma wf_texts [json_wfs]: "json_wf (textsJson ss)"
  by (simp add: list_all_iff)

lemma wf_map_array: "(\<And>x. json_wf (enc x)) \<Longrightarrow> json_wf (JArr (map enc xs))"
  by (simp add: list_all_iff)

lemma wf_unsupportedVitest [json_wfs]: "json_wf (unsupportedVitestJson v)"
  by (cases "uv_version v") (simp_all add: unsupportedVitestJson_def optionalMember_def)

lemma wf_values [json_wfs]:
  "json_wf (moduleReportJson m)" "json_wf (unsupportedProjectJson p)" "json_wf (unreadWorkspaceSourceJson u)"
  "json_wf (notCoveredWorkspaceJson w)" "json_wf (spelledDirectoryJson d)" "json_wf (failedModuleJson fm)"
  "json_wf (reportedAliasJson a)"
  by (simp_all add: moduleReportJson_def unsupportedProjectJson_def unreadWorkspaceSourceJson_def
      notCoveredWorkspaceJson_def spelledDirectoryJson_def failedModuleJson_def reportedAliasJson_def list_all_iff)

lemma wf_links [json_wfs]: "json_wf (crawledLinksJson c)"
  by (cases c) (simp_all add: crawledLinksJson_def list_all_iff json_wfs)

lemma wf_patterns [json_wfs]: "json_wf (testFilePatternsJson p)"
  by (simp add: testFilePatternsJson_def list_all_iff json_wfs)

lemma wf_env [json_wfs]: "json_wf (envSourceJson e)"
  by (simp add: envSourceJson_def list_all_iff split: option.split)

lemma wf_envs [json_wfs]: "json_wf (envSourcesJson e)"
  by (cases e) (simp_all add: envSourcesJson_def list_all_iff json_wfs)

lemma wf_facts [json_wfs]: "json_wf (projectSelectionFactsJson p)"
  by (simp add: projectSelectionFactsJson_def list_all_iff json_wfs)

text \<open>What a row holds in a column, read back.\<close>

lemma rowText_reads [json_reads]: "map_of row name = Some (SqlText s) \<Longrightarrow> rowText row name = Inr s"
  by (simp add: rowText_def column_def)

lemma rowInteger_reads [json_reads]: "map_of row name = Some (SqlInt n) \<Longrightarrow> rowInteger row name = Inr n"
  by (simp add: rowInteger_def column_def)

lemma rowJson_reads: "map_of row name = Some (jsonColumn v) \<Longrightarrow> json_wf v \<Longrightarrow> rowJson row name = Inr v"
  by (simp add: rowJson_def rowText_def column_def jsonColumn_def)

lemma stringArray_reads [json_reads]:
  "map_of row name = Some (jsonColumn (textsJson ss)) \<Longrightarrow> rowStrings row name = Inr ss"
  using rowJson_reads [OF _ wf_texts, of row name ss] by (simp add: rowStrings_def json_reads)

lemma arrayOf_reads:
  assumes "map_of row name = Some (jsonColumn (JArr (map enc xs)))" and "\<And>x. json_wf (enc x)"
    and "\<And>x. x \<in> set xs \<Longrightarrow> read (enc x) = Inr x"
  shows "arrayOf row name read = Inr xs"
  using assms by (simp add: arrayOf_def rowJson_reads list_all_iff mapE_Json)

definition textOrNull :: "string option \<Rightarrow> SqlValue" where
  "textOrNull v = (case v of None \<Rightarrow> SqlNull | Some s \<Rightarrow> SqlText s)"

lemma optionalText_reads [json_reads]: "map_of row name = Some (textOrNull v) \<Longrightarrow> optionalText row name = Inr v"
  by (cases v) (simp_all add: optionalText_def rowText_def column_def textOrNull_def)

end
