(* ===== verification/StoreSchema.thy ===== *)
theory StoreSchema
  imports Columns "HOL-Library.Product_Lexorder"
begin

text \<open>
  The store's tables and their constraints (\<^verbatim>\<open>store/schema.ts\<close>), its transactions
  (\<^verbatim>\<open>store/transaction.ts\<close>) and the bindings of a record (\<^verbatim>\<open>store/stored-records.ts\<close>). The
  database is the rows of its tables in stored order. A statement that changes it takes effect whole when
  what it leaves meets every constraint of the schema, the types of the \<^verbatim>\<open>STRICT\<close> tables, the keys and
  the references among them, and otherwise throws; that is SQLite's part. A transaction that throws leaves
  the database as it was.
\<close>

section \<open>The tables\<close>

datatype ColumnType = TypeText | TypeTextNull | TypeInteger | TypeIntegerNull

type_synonym TableColumns = "(string \<times> ColumnType) list"

definition RUNS :: TableColumns where
  "RUNS = [(''sequence'', TypeInteger), (''run_id'', TypeText), (''project_identity'', TypeText),
     (''worktree_identity'', TypeText), (''fingerprint_kind'', TypeText), (''fingerprint_digest'', TypeTextNull),
     (''adapter_version'', TypeInteger), (''status'', TypeText), (''workspace_path'', TypeText),
     (''workspace_directory'', TypeText), (''vitest_version'', TypeTextNull), (''unsupported_vitest'', TypeTextNull),
     (''error'', TypeTextNull), (''execution'', TypeTextNull), (''nothing_ran'', TypeTextNull),
     (''cancel_error'', TypeTextNull), (''close_error'', TypeTextNull), (''unhandled_errors'', TypeTextNull),
     (''typecheck_modules'', TypeTextNull), (''unsupported_projects'', TypeTextNull), (''force_stopped'', TypeIntegerNull)]"

definition RUN_MODULES :: TableColumns where
  "RUN_MODULES = [(''run_sequence'', TypeInteger), (''module_index'', TypeInteger), (''project_name'', TypeText),
     (''module_path'', TypeText), (''state'', TypeText), (''errors'', TypeTextNull)]"

definition RUN_TESTS :: TableColumns where
  "RUN_TESTS = [(''run_sequence'', TypeInteger), (''module_index'', TypeInteger), (''test_index'', TypeInteger),
     (''workspace_path'', TypeText), (''project_name'', TypeText), (''module_path'', TypeText), (''name_path'', TypeText),
     (''occurrence'', TypeInteger), (''is_duplicate'', TypeInteger), (''execution'', TypeText), (''outcome'', TypeTextNull),
     (''errors'', TypeTextNull)]"

definition DISCOVERIES :: TableColumns where
  "DISCOVERIES = [(''sequence'', TypeInteger), (''discovery_id'', TypeText), (''project_identity'', TypeText),
     (''worktree_identity'', TypeText), (''fingerprint_kind'', TypeText), (''fingerprint_digest'', TypeTextNull),
     (''adapter_version'', TypeInteger), (''not_read'', TypeText), (''not_covered'', TypeTextNull)]"

definition DISCOVERY_WORKSPACES :: TableColumns where
  "DISCOVERY_WORKSPACES = [(''discovery_sequence'', TypeInteger), (''workspace_index'', TypeInteger), (''status'', TypeText),
     (''workspace_path'', TypeText), (''workspace_directory'', TypeText), (''vitest_version'', TypeTextNull),
     (''unsupported_vitest'', TypeTextNull), (''error'', TypeTextNull), (''close_error'', TypeTextNull),
     (''failed_modules'', TypeTextNull), (''typecheck_modules'', TypeTextNull), (''unsupported_projects'', TypeTextNull),
     (''unhandled_errors'', TypeTextNull), (''selection_facts'', TypeTextNull)]"

definition DISCOVERED_TESTS :: TableColumns where
  "DISCOVERED_TESTS = [(''discovery_sequence'', TypeInteger), (''workspace_index'', TypeInteger), (''test_index'', TypeInteger),
     (''workspace_path'', TypeText), (''project_name'', TypeText), (''module_path'', TypeText), (''name_path'', TypeText),
     (''occurrence'', TypeInteger), (''is_duplicate'', TypeInteger), (''mode'', TypeText)]"

definition STORE_SCHEMA_VERSION :: nat where
  "STORE_SCHEMA_VERSION = 11"

definition FINGERPRINT_DIGEST :: string where
  "FINGERPRINT_DIGEST = ''digest''"

definition NOT_FINGERPRINTED :: string where
  "NOT_FINGERPRINTED = ''not-fingerprinted''"

definition FORCE_STOPPED :: nat where
  "FORCE_STOPPED = 1"

definition NOT_FORCE_STOPPED :: nat where
  "NOT_FORCE_STOPPED = 0"

record StoreTables =
  tb_userVersion :: nat
  tb_runs :: "Row list"
  tb_runModules :: "Row list"
  tb_runTests :: "Row list"
  tb_discoveries :: "Row list"
  tb_discoveryWorkspaces :: "Row list"
  tb_discoveredTests :: "Row list"

definition emptyStore :: StoreTables where
  "emptyStore = \<lparr>tb_userVersion = STORE_SCHEMA_VERSION, tb_runs = [], tb_runModules = [], tb_runTests = [],
     tb_discoveries = [], tb_discoveryWorkspaces = [], tb_discoveredTests = []\<rparr>"

section \<open>The constraints\<close>

definition intOf :: "Row \<Rightarrow> string \<Rightarrow> nat" where
  "intOf row name = (case map_of row name of Some (SqlInt n) \<Rightarrow> n | _ \<Rightarrow> 0)"

definition textOf :: "Row \<Rightarrow> string \<Rightarrow> string" where
  "textOf row name = (case map_of row name of Some (SqlText s) \<Rightarrow> s | _ \<Rightarrow> [])"

definition fits :: "ColumnType \<Rightarrow> SqlValue \<Rightarrow> bool" where
  "fits t v = (case v of
     SqlNull \<Rightarrow> t \<in> {TypeTextNull, TypeIntegerNull}
   | SqlText _ \<Rightarrow> t \<in> {TypeText, TypeTextNull}
   | SqlInt _ \<Rightarrow> t \<in> {TypeInteger, TypeIntegerNull})"

definition rowFits :: "TableColumns \<Rightarrow> Row \<Rightarrow> bool" where
  "rowFits columns row = list_all2 (\<lambda>(name, t) (name', v). name = name' \<and> fits t v) columns row"

definition nonEmptyText :: "Row \<Rightarrow> string \<Rightarrow> bool" where
  "nonEmptyText row name = (textOf row name \<noteq> [])"

text \<open>The checks \<^verbatim>\<open>runs\<close> and \<^verbatim>\<open>discoveries\<close> share, and those of \<^verbatim>\<open>force_stopped\<close> and \<^verbatim>\<open>is_duplicate\<close>.\<close>

definition boundRow :: "Row \<Rightarrow> bool" where
  "boundRow row =
     (nonEmptyText row ''project_identity'' \<and> nonEmptyText row ''worktree_identity'' \<and>
      textOf row ''fingerprint_kind'' \<in> {FINGERPRINT_DIGEST, NOT_FINGERPRINTED} \<and>
      (textOf row ''fingerprint_kind'' = FINGERPRINT_DIGEST \<longleftrightarrow>
        map_of row ''fingerprint_digest'' \<noteq> Some SqlNull \<and> nonEmptyText row ''fingerprint_digest''))"

definition forceStoppedRow :: "Row \<Rightarrow> bool" where
  "forceStoppedRow row =
     (map_of row ''force_stopped'' \<in> {Some SqlNull, Some (SqlInt NOT_FORCE_STOPPED), Some (SqlInt FORCE_STOPPED)})"

definition markedRow :: "Row \<Rightarrow> bool" where
  "markedRow row = (intOf row ''is_duplicate'' \<le> 1)"

definition runKey :: "Row \<Rightarrow> nat" where
  "runKey row = intOf row ''sequence''"

definition runModuleKey :: "Row \<Rightarrow> nat \<times> nat" where
  "runModuleKey row = (intOf row ''run_sequence'', intOf row ''module_index'')"

definition runTestKey :: "Row \<Rightarrow> (nat \<times> nat) \<times> nat" where
  "runTestKey row = (runModuleKey row, intOf row ''test_index'')"

definition workspaceKey :: "Row \<Rightarrow> nat \<times> nat" where
  "workspaceKey row = (intOf row ''discovery_sequence'', intOf row ''workspace_index'')"

definition discoveredKey :: "Row \<Rightarrow> (nat \<times> nat) \<times> nat" where
  "discoveredKey row = (workspaceKey row, intOf row ''test_index'')"

definition runsHold :: "StoreTables \<Rightarrow> bool" where
  "runsHold db =
     (distinct (map runKey (tb_runs db)) \<and> distinct (map (\<lambda>row. textOf row ''run_id'') (tb_runs db)) \<and>
      list_all (\<lambda>row. rowFits RUNS row \<and> boundRow row \<and> forceStoppedRow row) (tb_runs db) \<and>
      distinct (map runModuleKey (tb_runModules db)) \<and>
      list_all (\<lambda>row. rowFits RUN_MODULES row \<and> fst (runModuleKey row) \<in> set (map runKey (tb_runs db))) (tb_runModules db) \<and>
      distinct (map runTestKey (tb_runTests db)) \<and>
      list_all (\<lambda>row. rowFits RUN_TESTS row \<and> markedRow row \<and> fst (runTestKey row) \<in> set (map runModuleKey (tb_runModules db)))
        (tb_runTests db))"

definition discoveriesHold :: "StoreTables \<Rightarrow> bool" where
  "discoveriesHold db =
     (distinct (map runKey (tb_discoveries db)) \<and> distinct (map (\<lambda>row. textOf row ''discovery_id'') (tb_discoveries db)) \<and>
      list_all (\<lambda>row. rowFits DISCOVERIES row \<and> boundRow row) (tb_discoveries db) \<and>
      distinct (map workspaceKey (tb_discoveryWorkspaces db)) \<and>
      list_all (\<lambda>row. rowFits DISCOVERY_WORKSPACES row \<and> fst (workspaceKey row) \<in> set (map runKey (tb_discoveries db)))
        (tb_discoveryWorkspaces db) \<and>
      distinct (map discoveredKey (tb_discoveredTests db)) \<and>
      list_all (\<lambda>row. rowFits DISCOVERED_TESTS row \<and> markedRow row \<and>
          fst (discoveredKey row) \<in> set (map workspaceKey (tb_discoveryWorkspaces db)))
        (tb_discoveredTests db))"

definition schemaHolds :: "StoreTables \<Rightarrow> bool" where
  "schemaHolds db = (runsHold db \<and> discoveriesHold db)"

section \<open>Statements\<close>

text \<open>A statement leaves the tables it would, when they meet the schema.\<close>

definition statement :: "StoreTables \<Rightarrow> StoreError + StoreTables" where
  "statement db = (if schemaHolds db then Inr db else Inl (StoreFailure ''constraint failed''))"

text \<open>\<^verbatim>\<open>INSERT\<close>: the named columns hold the values, the others NULL.\<close>

definition insertedRow :: "TableColumns \<Rightarrow> string list \<Rightarrow> SqlValue list \<Rightarrow> Row" where
  "insertedRow columns names values =
     map (\<lambda>(name, t). (name, case map_of (zip names values) name of Some v \<Rightarrow> v | None \<Rightarrow> SqlNull)) columns"

text \<open>The row id SQLite gives a new row: one more than the largest.\<close>

definition nextSequence :: "Row list \<Rightarrow> nat" where
  "nextSequence rows = Suc (foldr (\<lambda>row n. max (runKey row) n) rows 0)"

text \<open>The columns a \<^verbatim>\<open>SELECT\<close> names.\<close>

definition selectColumns :: "string list \<Rightarrow> Row \<Rightarrow> Row" where
  "selectColumns names row = filter (\<lambda>(name, v). name \<in> set names) row"

section \<open>Transactions\<close>

definition NOTHING_READ :: string where
  "NOTHING_READ = ''nothing was read''"

definition NOTHING_STORED :: string where
  "NOTHING_STORED = ''nothing was stored''"

definition isNewerSchema :: "nat \<Rightarrow> bool" where
  "isNewerSchema userVersion = (userVersion > STORE_SCHEMA_VERSION)"

definition refuseNewerSchema :: "'z StoreTables_scheme \<Rightarrow> string \<Rightarrow> StoreError + unit" where
  "refuseNewerSchema db outcome =
     (if \<not> isNewerSchema (tb_userVersion db) then Inr ()
      else Inl (NewerStoreSchemaError (''The RT Test store is at schema version '' @ show_nat (tb_userVersion db) @
        '', newer than the version '' @ show_nat STORE_SCHEMA_VERSION @
        '' this RT Test reads and writes: a newer RT Test migrated it after this daemon opened it, so '' @ outcome @
        ''. Restart the daemon with the newer RT Test.'')))"

text \<open>\<^verbatim>\<open>finishTransaction\<close> of a write and of a read.\<close>

definition inRecordWrite :: "'z StoreTables_scheme \<Rightarrow> ('z StoreTables_scheme \<Rightarrow> StoreError + 'a \<times> 'z StoreTables_scheme) \<Rightarrow>
    (StoreError + 'a) \<times> 'z StoreTables_scheme" where
  "inRecordWrite db work =
     (case bindE (refuseNewerSchema db NOTHING_STORED) (\<lambda>_. work db) of
        Inl e \<Rightarrow> (Inl e, db)
      | Inr (x, db') \<Rightarrow> (Inr x, db'))"

definition inRecordRead :: "'z StoreTables_scheme \<Rightarrow> ('z StoreTables_scheme \<Rightarrow> StoreError + 'a) \<Rightarrow> StoreError + 'a" where
  "inRecordRead db work = bindE (refuseNewerSchema db NOTHING_READ) (\<lambda>_. work db)"

section \<open>Bindings\<close>

record StoreScope =
  sc_projectIdentity :: string
  sc_worktreeIdentity :: string

record StoreBindings = StoreScope +
  sc_inputFingerprint :: InputFingerprint

definition requireNonEmpty :: "string \<Rightarrow> string \<Rightarrow> StoreError + unit" where
  "requireNonEmpty name v =
     (if v = [] then Inl (StoreFailure (''The '' @ name @ '' is required and must be a non-empty string; got '' @
        stringify (JStr v)))
      else Inr ())"

definition requireScope :: "'z StoreScope_scheme \<Rightarrow> StoreError + unit" where
  "requireScope scope =
     bindE (requireNonEmpty ''project identity'' (sc_projectIdentity scope)) (\<lambda>_.
       requireNonEmpty ''worktree identity'' (sc_worktreeIdentity scope))"

definition fingerprintColumns :: "InputFingerprint \<Rightarrow> StoreError + string \<times> string option" where
  "fingerprintColumns fingerprint = (case fingerprint of
     NoFingerprint \<Rightarrow> Inr (NOT_FINGERPRINTED, None)
   | FingerprintDigest digest \<Rightarrow>
       bindE (requireNonEmpty ''input fingerprint digest'' digest) (\<lambda>_. Inr (FINGERPRINT_DIGEST, Some digest)))"

definition requireBindings :: "'z StoreBindings_scheme \<Rightarrow> StoreError + unit" where
  "requireBindings bindings =
     bindE (requireScope bindings) (\<lambda>_. bindE (fingerprintColumns (sc_inputFingerprint bindings)) (\<lambda>_. Inr ()))"

text \<open>\<^verbatim>\<open>String(value)\<close> of a column.\<close>

definition shownColumn :: "SqlValue \<Rightarrow> string" where
  "shownColumn v = (case v of SqlNull \<Rightarrow> ''null'' | SqlText s \<Rightarrow> s | SqlInt n \<Rightarrow> show_nat n)"

definition fingerprintFromColumns :: "SqlValue \<Rightarrow> SqlValue \<Rightarrow> StoreError + InputFingerprint" where
  "fingerprintFromColumns kind digest =
     (if kind = SqlText NOT_FINGERPRINTED then Inr NoFingerprint
      else case digest of
          SqlText d \<Rightarrow> (if kind = SqlText FINGERPRINT_DIGEST then Inr (FingerprintDigest d)
            else Inl (UnreadableRecordError (''The store holds an unreadable input fingerprint: kind '' @ shownColumn kind @
              '', digest '' @ shownColumn digest)))
        | _ \<Rightarrow> Inl (UnreadableRecordError (''The store holds an unreadable input fingerprint: kind '' @ shownColumn kind @
              '', digest '' @ shownColumn digest)))"

end
