(* ===== verification/StoredRuns.thy ===== *)
theory StoredRuns
  imports StoreSchema
begin

text \<open>
  Writing a run into the store (\<^verbatim>\<open>store/write-run.ts\<close>) and reading runs from it
  (\<^verbatim>\<open>store/read-runs.ts\<close>). The run id a write gives is its argument, a random UUID in the code. A
  record names the project and worktree it is of, the scope, which is a pair with the stored run here.
\<close>

section \<open>Members\<close>

definition TEST_OUTCOMES :: "(string \<times> TestOutcome) list" where
  "TEST_OUTCOMES = [(''passed'', Passed), (''failed'', Failed), (''skipped'', Skipped), (''error'', Error)]"

definition RUN_EXECUTIONS :: "(string \<times> RunExecution) list" where
  "RUN_EXECUTIONS = [(''completed'', Completed), (''interrupted'', InterruptedRun)]"

definition NOTHING_RAN_REASONS :: "(string \<times> NothingRanReason) list" where
  "NOTHING_RAN_REASONS = [(''no-module'', NoModule), (''no-module-ran'', NoModuleRan), (''no-test-declared'', NoTestDeclared),
     (''every-test-skipped'', EveryTestSkipped), (''tests-blocked-by-hook'', TestsBlockedByHook),
     (''interrupted-before-any-test-finished'', InterruptedBeforeAnyTestFinished)]"

section \<open>Writing\<close>

definition INSERT_RUN :: "string list" where
  "INSERT_RUN = [''run_id'', ''project_identity'', ''worktree_identity'', ''fingerprint_kind'', ''fingerprint_digest'',
     ''adapter_version'', ''status'', ''workspace_path'', ''workspace_directory'', ''vitest_version'', ''unsupported_vitest'',
     ''error'', ''execution'', ''nothing_ran'', ''cancel_error'', ''close_error'', ''unhandled_errors'', ''typecheck_modules'',
     ''unsupported_projects'', ''force_stopped'']"

definition INSERT_MODULE :: "string list" where
  "INSERT_MODULE = [''run_sequence'', ''module_index'', ''project_name'', ''module_path'', ''state'', ''errors'']"

definition INSERT_TEST :: "string list" where
  "INSERT_TEST = [''run_sequence'', ''module_index'', ''test_index'', ''workspace_path'', ''project_name'', ''module_path'',
     ''name_path'', ''occurrence'', ''is_duplicate'', ''execution'', ''outcome'', ''errors'']"

record RunColumns =
  rl_vitestVersion :: SqlValue
  rl_unsupportedVitest :: SqlValue
  rl_error :: SqlValue
  rl_execution :: SqlValue
  rl_nothingRan :: SqlValue
  rl_cancelError :: SqlValue
  rl_closeError :: SqlValue
  rl_unhandledErrors :: SqlValue
  rl_typecheckModules :: SqlValue
  rl_unsupportedProjects :: SqlValue
  rl_forceStopped :: SqlValue

definition NO_RUN_COLUMNS :: RunColumns where
  "NO_RUN_COLUMNS = \<lparr>rl_vitestVersion = SqlNull, rl_unsupportedVitest = SqlNull, rl_error = SqlNull, rl_execution = SqlNull,
     rl_nothingRan = SqlNull, rl_cancelError = SqlNull, rl_closeError = SqlNull, rl_unhandledErrors = SqlNull,
     rl_typecheckModules = SqlNull, rl_unsupportedProjects = SqlNull, rl_forceStopped = SqlNull\<rparr>"

definition ranColumns :: "RanFacts \<Rightarrow> RunColumns" where
  "ranColumns run = NO_RUN_COLUMNS\<lparr>
     rl_vitestVersion := SqlText (rn_vitestVersion run),
     rl_execution := SqlText (nameIn RUN_EXECUTIONS (rn_execution run)),
     rl_nothingRan := textOrNull (map_option (nameIn NOTHING_RAN_REASONS) (rn_nothingRan run)),
     rl_cancelError := textOrNull (rn_cancelError run),
     rl_closeError := textOrNull (rn_closeError run),
     rl_unhandledErrors := jsonColumn (textsJson (rn_unhandledErrors run)),
     rl_typecheckModules := jsonColumn (JArr (map moduleReportJson (rn_typecheckModules run))),
     rl_unsupportedProjects := jsonColumn (JArr (map unsupportedProjectJson (rn_unsupportedProjects run))),
     rl_forceStopped := SqlInt (if rn_forceStopped run then FORCE_STOPPED else NOT_FORCE_STOPPED)\<rparr>"

definition runColumns :: "WorkspaceRun \<Rightarrow> RunColumns" where
  "runColumns run = (case run of
     RanRun facts _ \<Rightarrow> ranColumns facts
   | UnsupportedRun vitest \<Rightarrow> NO_RUN_COLUMNS\<lparr>rl_unsupportedVitest := jsonColumn (unsupportedVitestJson vitest)\<rparr>
   | FailedRun failed \<Rightarrow> NO_RUN_COLUMNS\<lparr>rl_vitestVersion := SqlText (fs_vitestVersion failed),
       rl_error := SqlText (fs_error failed), rl_closeError := textOrNull (fs_closeError failed)\<rparr>
   | InterruptedBeforeLoadRun \<Rightarrow> NO_RUN_COLUMNS
   | CrashedRun error \<Rightarrow> NO_RUN_COLUMNS\<lparr>rl_error := SqlText error\<rparr>)"

definition runStatus :: "WorkspaceRun \<Rightarrow> string" where
  "runStatus run = (case run of
     RanRun _ _ \<Rightarrow> ''ran'' | UnsupportedRun _ \<Rightarrow> ''unsupported'' | FailedRun _ \<Rightarrow> ''failed''
   | InterruptedBeforeLoadRun \<Rightarrow> ''interrupted-before-load'' | CrashedRun _ \<Rightarrow> ''crashed'')"

definition runValues :: "StoreScope \<Rightarrow> StoredRun \<Rightarrow> string \<times> string option \<Rightarrow> SqlValue list" where
  "runValues scope stored fingerprint =
     (let columns = runColumns (sr_run stored) in
      [SqlText (sr_runId stored), SqlText (sc_projectIdentity scope), SqlText (sc_worktreeIdentity scope),
       SqlText (fst fingerprint), textOrNull (snd fingerprint), SqlInt (sb_adapterVersion stored),
       SqlText (runStatus (sr_run stored)), SqlText (ws_path (sr_workspace stored)), SqlText (ws_directory (sr_workspace stored)),
       rl_vitestVersion columns, rl_unsupportedVitest columns, rl_error columns, rl_execution columns, rl_nothingRan columns,
       rl_cancelError columns, rl_closeError columns, rl_unhandledErrors columns, rl_typecheckModules columns,
       rl_unsupportedProjects columns, rl_forceStopped columns])"

definition runRow :: "nat \<Rightarrow> StoreScope \<Rightarrow> StoredRun \<Rightarrow> string \<times> string option \<Rightarrow> Row" where
  "runRow sequence scope stored fingerprint =
     insertedRow RUNS (''sequence'' # INSERT_RUN) (SqlInt sequence # runValues scope stored fingerprint)"

definition moduleState :: "RecordedModule \<Rightarrow> string" where
  "moduleState module = (case rcm_state module of
     ModuleRan _ _ \<Rightarrow> ''ran'' | ModuleFailed _ \<Rightarrow> ''failed'' | ModuleCrashed \<Rightarrow> ''crashed'' | ModuleNotRun \<Rightarrow> ''not-run'')"

definition moduleErrors :: "RecordedModule \<Rightarrow> SqlValue" where
  "moduleErrors module = (case rcm_state module of
     ModuleRan _ errors \<Rightarrow> jsonColumn (textsJson errors) | ModuleFailed errors \<Rightarrow> jsonColumn (textsJson errors) | _ \<Rightarrow> SqlNull)"

definition moduleRow :: "nat \<Rightarrow> nat \<Rightarrow> RecordedModule \<Rightarrow> Row" where
  "moduleRow sequence index module =
     insertedRow RUN_MODULES INSERT_MODULE
       [SqlInt sequence, SqlInt index, SqlText (mr_projectName module), SqlText (mr_modulePath module),
        SqlText (moduleState module), moduleErrors module]"

definition testResultColumns :: "TestRunState \<Rightarrow> SqlValue list" where
  "testResultColumns state = (case state of
     Finished outcome errors \<Rightarrow> [SqlText (nameIn TEST_OUTCOMES outcome), jsonColumn (textsJson errors)]
   | InterruptedTest \<Rightarrow> [SqlNull, SqlNull])"

definition testExecution :: "TestRunState \<Rightarrow> string" where
  "testExecution state = (case state of Finished _ _ \<Rightarrow> ''finished'' | InterruptedTest \<Rightarrow> ''interrupted'')"

definition testColumns :: "RecordedTest \<Rightarrow> SqlValue list" where
  "testColumns test =
     identifiedTestColumns test @ [SqlText (testExecution (rct_state test))] @ testResultColumns (rct_state test)"

definition testRow :: "nat \<Rightarrow> nat \<Rightarrow> nat \<Rightarrow> RecordedTest \<Rightarrow> Row" where
  "testRow sequence moduleIndex testIndex test =
     insertedRow RUN_TESTS INSERT_TEST
       ([SqlInt sequence, SqlInt moduleIndex, SqlInt testIndex] @ testColumns test)"

fun insertTests :: "nat \<Rightarrow> nat \<Rightarrow> nat \<Rightarrow> RecordedTest list \<Rightarrow> StoreTables \<Rightarrow> StoreError + StoreTables" where
  "insertTests sequence moduleIndex testIndex [] db = Inr db"
| "insertTests sequence moduleIndex testIndex (test # tests) db =
     bindE (statement (db\<lparr>tb_runTests := tb_runTests db @ [testRow sequence moduleIndex testIndex test]\<rparr>))
       (insertTests sequence moduleIndex (Suc testIndex) tests)"

fun insertModules :: "nat \<Rightarrow> nat \<Rightarrow> RecordedModule list \<Rightarrow> StoreTables \<Rightarrow> StoreError + StoreTables" where
  "insertModules sequence moduleIndex [] db = Inr db"
| "insertModules sequence moduleIndex (module # modules) db =
     bindE (statement (db\<lparr>tb_runModules := tb_runModules db @ [moduleRow sequence moduleIndex module]\<rparr>)) (\<lambda>db1.
       bindE (insertTests sequence moduleIndex 0 (testsOf module) db1)
         (insertModules sequence (Suc moduleIndex) modules))"

definition insertRun :: "StoreScope \<Rightarrow> StoredRun \<Rightarrow> StoreTables \<Rightarrow> StoreError + StoreTables" where
  "insertRun scope stored db =
     bindE (fingerprintColumns (sb_inputFingerprint stored)) (\<lambda>fingerprint.
       let sequence = nextSequence (tb_runs db) in
       bindE (statement (db\<lparr>tb_runs := tb_runs db @ [runRow sequence scope stored fingerprint]\<rparr>)) (\<lambda>db1.
         case sr_run stored of RanRun _ modules \<Rightarrow> insertModules sequence 0 modules db1 | _ \<Rightarrow> Inr db1))"

text \<open>The sequences of the workspace's runs, and the three deletions, children first.\<close>

definition inScope :: "StoreScope \<Rightarrow> Row \<Rightarrow> bool" where
  "inScope scope row =
     (textOf row ''project_identity'' = sc_projectIdentity scope \<and> textOf row ''worktree_identity'' = sc_worktreeIdentity scope)"

definition workspaceRuns :: "StoreScope \<Rightarrow> string \<Rightarrow> StoreTables \<Rightarrow> nat list" where
  "workspaceRuns scope path db =
     map runKey (filter (\<lambda>row. inScope scope row \<and> textOf row ''workspace_path'' = path) (tb_runs db))"

definition removeEarlierRuns :: "StoreScope \<Rightarrow> string \<Rightarrow> StoreTables \<Rightarrow> StoreError + StoreTables" where
  "removeEarlierRuns scope path db =
     bindE (statement (db\<lparr>tb_runTests := filter (\<lambda>row. intOf row ''run_sequence'' \<notin> set (workspaceRuns scope path db)) (tb_runTests db)\<rparr>)) (\<lambda>db1.
     bindE (statement (db1\<lparr>tb_runModules := filter (\<lambda>row. intOf row ''run_sequence'' \<notin> set (workspaceRuns scope path db1)) (tb_runModules db1)\<rparr>)) (\<lambda>db2.
       statement (db2\<lparr>tb_runs := filter (\<lambda>row. runKey row \<notin> set (workspaceRuns scope path db2)) (tb_runs db2)\<rparr>)))"

section \<open>Reading\<close>

record RunChildren =
  ch_modules :: "Row list"
  ch_tests :: "Row list"

definition testRunState :: "Row \<Rightarrow> StoreError + TestRunState" where
  "testRunState row =
     bindE (rowText row ''execution'') (\<lambda>execution.
       if execution = ''interrupted'' then Inr InterruptedTest
       else if execution \<noteq> ''finished'' then Inl (unreadable ''run_tests.execution'' (JStr execution))
       else bindE (bindE (rowText row ''outcome'') (\<lambda>s. memberOf TEST_OUTCOMES s ''run_tests.outcome'')) (\<lambda>outcome.
         bindE (rowStrings row ''errors'') (\<lambda>errors. Inr (Finished outcome errors))))"

definition recordedTest :: "Row \<Rightarrow> StoreError + RecordedTest" where
  "recordedTest row =
     bindE (identifiedTest row) (\<lambda>test. bindE (testRunState row) (\<lambda>state. Inr (IdentifiedTest.extend test \<lparr>rct_state = state\<rparr>)))"

definition recordedModule :: "Row \<Rightarrow> RecordedTest list \<Rightarrow> StoreError + RecordedModule" where
  "recordedModule row tests =
     bindE (rowText row ''project_name'') (\<lambda>project.
     bindE (rowText row ''module_path'') (\<lambda>path.
     bindE (rowText row ''state'') (\<lambda>state.
       let report = (\<lambda>s. ModuleReport.extend \<lparr>mr_projectName = project, mr_modulePath = path\<rparr> \<lparr>rcm_state = s\<rparr>) in
       if state = ''ran'' then bindE (rowStrings row ''errors'') (\<lambda>errors. Inr (report (ModuleRan tests errors)))
       else if tests \<noteq> [] then Inl (unreadable (''tests under the '' @ state @ '' module'') (JStr path))
       else if state = ''failed'' then bindE (rowStrings row ''errors'') (\<lambda>errors. Inr (report (ModuleFailed errors)))
       else if state = ''crashed'' then Inr (report ModuleCrashed)
       else if state = ''not-run'' then Inr (report ModuleNotRun)
       else Inl (unreadable ''run_modules.state'' (JStr state)))))"

text \<open>Each module takes its tests from the groups; what is left names no module.\<close>

fun modulesFrom :: "Row list \<Rightarrow> (nat, Row list) jsmap \<Rightarrow> StoreError + RecordedModule list \<times> (nat, Row list) jsmap" where
  "modulesFrom [] tests = Inr ([], tests)"
| "modulesFrom (row # rows) tests =
     bindE (rowInteger row ''module_index'') (\<lambda>index.
     bindE (mapE recordedTest (case map_of tests index of Some held \<Rightarrow> held | None \<Rightarrow> [])) (\<lambda>moduleTests.
     bindE (recordedModule row moduleTests) (\<lambda>module.
     bindE (modulesFrom rows (jdel index tests)) (\<lambda>(modules, rest). Inr (module # modules, rest)))))"

definition recordedModules :: "RunChildren \<Rightarrow> StoreError + RecordedModule list" where
  "recordedModules children =
     bindE (rowsBy (ch_tests children) ''module_index'') (\<lambda>tests.
     bindE (modulesFrom (ch_modules children) tests) (\<lambda>(modules, rest).
       if rest \<noteq> [] then Inl (unreadable ''run_tests.module_index'' (JArr (map JNum (keys rest)))) else Inr modules))"

definition requireNoChildren :: "RunChildren \<Rightarrow> string \<Rightarrow> StoreError + unit" where
  "requireNoChildren children owner =
     (if ch_modules children \<noteq> [] \<or> ch_tests children \<noteq> []
      then Inl (unreadable (''modules or tests under a '' @ owner)
        (JObj [(''modules'', JNum (length (ch_modules children))), (''tests'', JNum (length (ch_tests children)))]))
      else Inr ())"

definition forceStopped :: "Row \<Rightarrow> StoreError + bool" where
  "forceStopped row =
     bindE (rowInteger row ''force_stopped'') (\<lambda>mark.
       if mark = FORCE_STOPPED then Inr True else if mark = NOT_FORCE_STOPPED then Inr False
       else Inl (unreadable ''runs.force_stopped'' (JNum mark)))"

definition ranRun :: "Row \<Rightarrow> RecordedModule list \<Rightarrow> StoreError + WorkspaceRun" where
  "ranRun row modules =
     bindE (optionalText row ''nothing_ran'') (\<lambda>nothing.
     bindE (optionalText row ''cancel_error'') (\<lambda>cancelled.
     bindE (rowText row ''vitest_version'') (\<lambda>version.
     bindE (bindE (rowText row ''execution'') (\<lambda>s. memberOf RUN_EXECUTIONS s ''runs.execution'')) (\<lambda>execution.
     bindE (forceStopped row) (\<lambda>stopped.
     bindE (arrayOf row ''typecheck_modules'' moduleReport) (\<lambda>typecheck.
     bindE (arrayOf row ''unsupported_projects'' unsupportedProject) (\<lambda>unsupported.
     bindE (rowStrings row ''unhandled_errors'') (\<lambda>unhandled.
     bindE (case nothing of None \<Rightarrow> Inr None
         | Some s \<Rightarrow> bindE (memberOf NOTHING_RAN_REASONS s ''runs.nothing_ran'') (\<lambda>reason. Inr (Some reason))) (\<lambda>nothingRan.
     bindE (closeError row) (\<lambda>closed.
       Inr (RanRun \<lparr>rn_vitestVersion = version, rn_execution = execution, rn_typecheckModules = typecheck,
         rn_unsupportedProjects = unsupported, rn_unhandledErrors = unhandled, rn_nothingRan = nothingRan,
         rn_forceStopped = stopped, rn_cancelError = cancelled, rn_closeError = closed\<rparr> modules)))))))))))"

definition workspaceRun :: "Row \<Rightarrow> RunChildren \<Rightarrow> StoreError + Workspace \<times> WorkspaceRun" where
  "workspaceRun row children =
     bindE (rowText row ''status'') (\<lambda>status.
     bindE (rowText row ''workspace_path'') (\<lambda>path.
     bindE (rowText row ''workspace_directory'') (\<lambda>directory.
       let workspace = \<lparr>ws_path = path, ws_directory = directory\<rparr> in
       bindE (if status \<noteq> ''ran'' then requireNoChildren children (status @ '' run'') else Inr ()) (\<lambda>_.
       bindE (if status = ''ran'' then bindE (recordedModules children) (ranRun row)
         else if status = ''unsupported'' then
           bindE (bindE (rowJson row ''unsupported_vitest'') unsupportedVitest) (\<lambda>vitest. Inr (UnsupportedRun vitest))
         else if status = ''failed'' then
           bindE (rowText row ''vitest_version'') (\<lambda>version.
           bindE (rowText row ''error'') (\<lambda>error.
           bindE (closeError row) (\<lambda>closed.
             Inr (FailedRun \<lparr>fs_vitestVersion = version, fs_error = error, fs_closeError = closed\<rparr>))))
         else if status = ''interrupted-before-load'' then Inr InterruptedBeforeLoadRun
         else if status = ''crashed'' then bindE (rowText row ''error'') (\<lambda>error. Inr (CrashedRun error))
         else Inl (unreadable ''runs.status'' (JStr status))) (\<lambda>run. Inr (workspace, run))))))"

definition storedRun :: "Row \<Rightarrow> RunChildren \<Rightarrow> StoreError + StoreScope \<times> StoredRun" where
  "storedRun row children =
     bindE (rowText row ''project_identity'') (\<lambda>project.
     bindE (rowText row ''worktree_identity'') (\<lambda>worktree.
     bindE (bindE (column row ''fingerprint_kind'') (\<lambda>kind.
       bindE (column row ''fingerprint_digest'') (fingerprintFromColumns kind))) (\<lambda>fingerprint.
     bindE (rowInteger row ''adapter_version'') (\<lambda>version.
     bindE (rowText row ''run_id'') (\<lambda>runId.
     bindE (workspaceRun row children) (\<lambda>(workspace, run).
       Inr (\<lparr>sc_projectIdentity = project, sc_worktreeIdentity = worktree\<rparr>,
         \<lparr>sb_adapterVersion = version, sb_inputFingerprint = fingerprint, sr_runId = runId, sr_workspace = workspace,
           sr_run = run\<rparr>)))))))"

section \<open>Queries\<close>

definition RUN_COLUMNS :: "string list" where
  "RUN_COLUMNS = [''sequence'', ''run_id'', ''project_identity'', ''worktree_identity'', ''fingerprint_kind'',
     ''fingerprint_digest'', ''adapter_version'', ''status'', ''workspace_path'', ''workspace_directory'', ''vitest_version'',
     ''unsupported_vitest'', ''error'', ''execution'', ''nothing_ran'', ''cancel_error'', ''close_error'', ''unhandled_errors'',
     ''typecheck_modules'', ''unsupported_projects'', ''force_stopped'']"

definition MODULE_COLUMNS :: "string list" where
  "MODULE_COLUMNS = [''run_sequence'', ''module_index'', ''project_name'', ''module_path'', ''state'', ''errors'']"

definition TEST_COLUMNS :: "string list" where
  "TEST_COLUMNS = [''run_sequence'', ''module_index'', ''workspace_path'', ''project_name'', ''module_path'', ''name_path'',
     ''occurrence'', ''is_duplicate'', ''execution'', ''outcome'', ''errors'']"

definition selectRunModules :: "nat \<Rightarrow> StoreTables \<Rightarrow> Row list" where
  "selectRunModules sequence db =
     map (selectColumns MODULE_COLUMNS) (sort_key runModuleKey (filter (\<lambda>row. intOf row ''run_sequence'' = sequence) (tb_runModules db)))"

definition selectRunTests :: "nat \<Rightarrow> StoreTables \<Rightarrow> Row list" where
  "selectRunTests sequence db =
     map (selectColumns TEST_COLUMNS) (sort_key runTestKey (filter (\<lambda>row. intOf row ''run_sequence'' = sequence) (tb_runTests db)))"

definition runWithChildren :: "StoreTables \<Rightarrow> Row \<Rightarrow> StoreError + StoreScope \<times> StoredRun" where
  "runWithChildren db row =
     bindE (rowInteger row ''sequence'') (\<lambda>sequence.
       storedRun row \<lparr>ch_modules = selectRunModules sequence db, ch_tests = selectRunTests sequence db\<rparr>)"

definition selectRun :: "StoreScope \<Rightarrow> string \<Rightarrow> StoreTables \<Rightarrow> StoreError + (StoreScope \<times> StoredRun) option" where
  "selectRun scope runId db =
     (case filter (\<lambda>row. inScope scope row \<and> textOf row ''run_id'' = runId) (tb_runs db) of
        [] \<Rightarrow> Inr None
      | row # _ \<Rightarrow> bindE (runWithChildren db (selectColumns RUN_COLUMNS row)) (\<lambda>run. Inr (Some run)))"

text \<open>Every run of a scope in stored order: its children are grouped by run, in one query each.\<close>

definition selectScopeRuns :: "StoreScope \<Rightarrow> StoreTables \<Rightarrow> StoreError + (StoreScope \<times> StoredRun) list" where
  "selectScopeRuns scope db =
     (let runs = sort_key runKey (filter (inScope scope) (tb_runs db)); sequences = set (map runKey runs);
          ofScope = filter (\<lambda>row. intOf row ''run_sequence'' \<in> sequences) in
      bindE (rowsBy (map (selectColumns MODULE_COLUMNS) (sort_key runModuleKey (ofScope (tb_runModules db)))) ''run_sequence'') (\<lambda>modules.
      bindE (rowsBy (map (selectColumns TEST_COLUMNS) (sort_key runTestKey (ofScope (tb_runTests db)))) ''run_sequence'') (\<lambda>tests.
        mapE (\<lambda>row. bindE (rowInteger row ''sequence'') (\<lambda>sequence.
          storedRun row \<lparr>ch_modules = (case map_of modules sequence of Some held \<Rightarrow> held | None \<Rightarrow> []),
            ch_tests = (case map_of tests sequence of Some held \<Rightarrow> held | None \<Rightarrow> [])\<rparr>))
          (map (selectColumns RUN_COLUMNS) runs))))"

definition readRuns :: "StoreScope \<Rightarrow> StoreTables \<Rightarrow> StoreError + (StoreScope \<times> StoredRun) list" where
  "readRuns scope db = bindE (requireScope scope) (\<lambda>_. inRecordRead db (selectScopeRuns scope))"

definition readStoredRun :: "StoreScope \<Rightarrow> string \<Rightarrow> StoreTables \<Rightarrow> StoreError + (StoreScope \<times> StoredRun) option" where
  "readStoredRun scope runId db = bindE (requireScope scope) (\<lambda>_. inRecordRead db (selectRun scope runId))"

record StoredRunRefusal =
  rf_workspacePath :: string
  rf_reason :: string

record LatestRuns =
  lt_latestRuns :: "(StoreScope \<times> StoredRun) list"
  lt_runRefusals :: "StoredRunRefusal list"

text \<open>The row stored last for each workspace path of the scope, in stored order.\<close>

definition latestRows :: "StoreScope \<Rightarrow> StoreTables \<Rightarrow> Row list" where
  "latestRows scope db =
     (let runs = filter (inScope scope) (tb_runs db) in
      sort_key runKey (filter (\<lambda>row. list_all (\<lambda>other. textOf other ''workspace_path'' = textOf row ''workspace_path'' \<longrightarrow>
        runKey other \<le> runKey row) runs) runs))"

fun latestFrom :: "StoreTables \<Rightarrow> Row list \<Rightarrow> LatestRuns \<Rightarrow> StoreError + LatestRuns" where
  "latestFrom db [] latest = Inr latest"
| "latestFrom db (row # rows) latest =
     (case runWithChildren db row of
        Inr run \<Rightarrow> latestFrom db rows (latest\<lparr>lt_latestRuns := lt_latestRuns latest @ [run]\<rparr>)
      | Inl (UnreadableRecordError reason) \<Rightarrow>
          bindE (rowText row ''workspace_path'') (\<lambda>path.
            latestFrom db rows (latest\<lparr>lt_runRefusals := lt_runRefusals latest @ [\<lparr>rf_workspacePath = path, rf_reason = reason\<rparr>]\<rparr>))
      | Inl e \<Rightarrow> Inl e)"

definition selectLatestRuns :: "StoreScope \<Rightarrow> StoreTables \<Rightarrow> StoreError + LatestRuns" where
  "selectLatestRuns scope db =
     latestFrom db (map (selectColumns RUN_COLUMNS) (latestRows scope db)) \<lparr>lt_latestRuns = [], lt_runRefusals = []\<rparr>"

section \<open>The write\<close>

definition readBack :: "string \<Rightarrow> (StoreScope \<times> StoredRun) option \<Rightarrow> StoreError + StoreScope \<times> StoredRun" where
  "readBack runId stored = (case stored of
     None \<Rightarrow> Inl (StoreFailure (''The store could not read back run '' @ runId @ '' it just wrote''))
   | Some run \<Rightarrow> Inr run)"

definition writeRun :: "StoreBindings \<Rightarrow> string \<Rightarrow> Workspace \<Rightarrow> WorkspaceRun \<Rightarrow> StoreTables \<Rightarrow>
    (StoreError + StoreScope \<times> StoredRun) \<times> StoreTables" where
  "writeRun bindings runId workspace run db =
     (let scope = StoreScope.truncate bindings;
          stored = \<lparr>sb_adapterVersion = VITEST_ADAPTER_VERSION, sb_inputFingerprint = sc_inputFingerprint bindings,
            sr_runId = runId, sr_workspace = workspace, sr_run = run\<rparr>
      in case requireBindings bindings of
           Inl e \<Rightarrow> (Inl e, db)
         | Inr _ \<Rightarrow> inRecordWrite db (\<lambda>db0.
             bindE (removeEarlierRuns scope (ws_path workspace) db0) (\<lambda>db1.
             bindE (insertRun scope stored db1) (\<lambda>db2.
             bindE (bindE (selectRun scope runId db2) (readBack runId)) (\<lambda>back. Inr (back, db2))))))"

end
