(* ===== verification/StoreRoundTrip.thy ===== *)
theory StoreRoundTrip
  imports StoredRuns
begin

text \<open>
  What the store keeps of a run: every statement of a write meets the schema, a run just written reads
  back as it was, and it takes the place of every earlier run of its workspace and of no other.
\<close>

section \<open>Rows\<close>

lemma map_of_selectColumns:
  "map_of (selectColumns names row) name = (if name \<in> set names then map_of row name else None)"
  by (induction row) (auto simp: selectColumns_def)

lemma intOf_selectColumns: "name \<in> set names \<Longrightarrow> intOf (selectColumns names row) name = intOf row name"
  by (simp add: intOf_def map_of_selectColumns)

text \<open>An insertion that names every column of its table, in the table's order, is the row of its values.\<close>

lemma insertedRow_zip:
  assumes "names = map fst columns" and "distinct names" and "length vs = length columns"
  shows "insertedRow columns names vs = zip names vs"
proof (rule nth_equalityI)
  fix i assume "i < length (insertedRow columns names vs)"
  then have i: "i < length columns" by (simp add: insertedRow_def)
  then have "map_of (zip names vs) (names ! i) = Some (vs ! i)"
    using assms by (intro map_of_zip_nth) auto
  with i show "insertedRow columns names vs ! i = zip names vs ! i"
    using assms by (simp add: insertedRow_def split_def)
qed (use assms in \<open>simp add: insertedRow_def\<close>)

lemma testColumns_length: "length (testColumns t) = 9"
  by (cases "rct_state t") (simp_all add: testColumns_def identifiedTestColumns_def testResultColumns_def Let_def)

lemma rows_zip:
  "runRow n scope stored fp = zip (''sequence'' # INSERT_RUN) (SqlInt n # runValues scope stored fp)"
  "moduleRow n i m = zip INSERT_MODULE [SqlInt n, SqlInt i, SqlText (mr_projectName m), SqlText (mr_modulePath m),
     SqlText (moduleState m), moduleErrors m]"
  "testRow n i j t = zip INSERT_TEST ([SqlInt n, SqlInt i, SqlInt j] @ testColumns t)"
proof -
  have names: "''sequence'' # INSERT_RUN = map fst RUNS" "INSERT_MODULE = map fst RUN_MODULES" "INSERT_TEST = map fst RUN_TESTS"
    by (simp_all add: INSERT_RUN_def RUNS_def INSERT_MODULE_def RUN_MODULES_def INSERT_TEST_def RUN_TESTS_def)
  have d: "distinct (''sequence'' # INSERT_RUN)" "distinct INSERT_MODULE" "distinct INSERT_TEST" by code_simp+
  have l: "length RUNS = 21" "length RUN_MODULES = 6" "length RUN_TESTS = 12"
    by (simp_all add: RUNS_def RUN_MODULES_def RUN_TESTS_def)
  show "runRow n scope stored fp = zip (''sequence'' # INSERT_RUN) (SqlInt n # runValues scope stored fp)"
    unfolding runRow_def by (rule insertedRow_zip [OF names(1) d(1)]) (simp add: l runValues_def Let_def)
  show "moduleRow n i m = zip INSERT_MODULE [SqlInt n, SqlInt i, SqlText (mr_projectName m), SqlText (mr_modulePath m),
     SqlText (moduleState m), moduleErrors m]"
    unfolding moduleRow_def by (rule insertedRow_zip [OF names(2) d(2)]) (simp add: l)
  show "testRow n i j t = zip INSERT_TEST ([SqlInt n, SqlInt i, SqlInt j] @ testColumns t)"
    unfolding testRow_def by (rule insertedRow_zip [OF names(3) d(3)]) (simp add: l testColumns_length)
qed

lemma runRow_at:
  fixes stored :: StoredRun and scope :: StoreScope and fp :: "string \<times> string option" and n :: nat
  defines "row \<equiv> runRow n scope stored fp"
  defines "columns \<equiv> runColumns (sr_run stored)"
  shows "map_of row ''sequence'' = Some (SqlInt n)" "map_of row ''run_id'' = Some (SqlText (sr_runId stored))"
    "map_of row ''project_identity'' = Some (SqlText (sc_projectIdentity scope))"
    "map_of row ''worktree_identity'' = Some (SqlText (sc_worktreeIdentity scope))"
    "map_of row ''fingerprint_kind'' = Some (SqlText (fst fp))"
    "map_of row ''fingerprint_digest'' = Some (textOrNull (snd fp))"
    "map_of row ''adapter_version'' = Some (SqlInt (sb_adapterVersion stored))"
    "map_of row ''status'' = Some (SqlText (runStatus (sr_run stored)))"
    "map_of row ''workspace_path'' = Some (SqlText (ws_path (sr_workspace stored)))"
    "map_of row ''workspace_directory'' = Some (SqlText (ws_directory (sr_workspace stored)))"
    "map_of row ''vitest_version'' = Some (rl_vitestVersion columns)"
    "map_of row ''unsupported_vitest'' = Some (rl_unsupportedVitest columns)"
    "map_of row ''error'' = Some (rl_error columns)" "map_of row ''execution'' = Some (rl_execution columns)"
    "map_of row ''nothing_ran'' = Some (rl_nothingRan columns)"
    "map_of row ''cancel_error'' = Some (rl_cancelError columns)"
    "map_of row ''close_error'' = Some (rl_closeError columns)"
    "map_of row ''unhandled_errors'' = Some (rl_unhandledErrors columns)"
    "map_of row ''typecheck_modules'' = Some (rl_typecheckModules columns)"
    "map_of row ''unsupported_projects'' = Some (rl_unsupportedProjects columns)"
    "map_of row ''force_stopped'' = Some (rl_forceStopped columns)"
  unfolding row_def columns_def rows_zip by (simp_all add: INSERT_RUN_def runValues_def Let_def)

lemma moduleRow_at:
  "map_of (moduleRow n i m) ''run_sequence'' = Some (SqlInt n)" "map_of (moduleRow n i m) ''module_index'' = Some (SqlInt i)"
  "map_of (moduleRow n i m) ''project_name'' = Some (SqlText (mr_projectName m))"
  "map_of (moduleRow n i m) ''module_path'' = Some (SqlText (mr_modulePath m))"
  "map_of (moduleRow n i m) ''state'' = Some (SqlText (moduleState m))"
  "map_of (moduleRow n i m) ''errors'' = Some (moduleErrors m)"
  unfolding rows_zip by (simp_all add: INSERT_MODULE_def)

lemma testRow_at:
  "map_of (testRow n i j t) ''run_sequence'' = Some (SqlInt n)" "map_of (testRow n i j t) ''module_index'' = Some (SqlInt i)"
  "map_of (testRow n i j t) ''test_index'' = Some (SqlInt j)"
  "map_of (testRow n i j t) ''workspace_path'' = Some (SqlText (workspacePath (it_identity t)))"
  "map_of (testRow n i j t) ''project_name'' = Some (SqlText (projectName (it_identity t)))"
  "map_of (testRow n i j t) ''module_path'' = Some (SqlText (modulePath (it_identity t)))"
  "map_of (testRow n i j t) ''name_path'' = Some (jsonColumn (textsJson (namePath (it_identity t))))"
  "map_of (testRow n i j t) ''occurrence'' = Some (SqlInt (occurrence (it_identity t)))"
  "map_of (testRow n i j t) ''is_duplicate'' = Some (SqlInt (if it_isDuplicate t then DUPLICATE_MARK else NOT_DUPLICATE_MARK))"
  "map_of (testRow n i j t) ''execution'' = Some (SqlText (testExecution (rct_state t)))"
  "map_of (testRow n i j t) ''outcome'' = Some (testResultColumns (rct_state t) ! 0)"
  "map_of (testRow n i j t) ''errors'' = Some (testResultColumns (rct_state t) ! 1)"
  unfolding rows_zip
  by (cases "rct_state t"; simp add: INSERT_TEST_def testColumns_def identifiedTestColumns_def testResultColumns_def Let_def)+

lemma row_keys [simp]:
  "runKey (runRow n scope stored fp) = n" "runModuleKey (moduleRow n i m) = (n, i)" "runTestKey (testRow n i j t) = ((n, i), j)"
  "intOf (moduleRow n i m) ''run_sequence'' = n" "intOf (testRow n i j t) ''run_sequence'' = n"
  "textOf (runRow n scope stored fp) ''run_id'' = sr_runId stored"
  "textOf (runRow n scope stored fp) ''workspace_path'' = ws_path (sr_workspace stored)"
  "inScope sc (runRow n scope stored fp) = (sc_projectIdentity scope = sc_projectIdentity sc \<and> sc_worktreeIdentity scope = sc_worktreeIdentity sc)"
  by (simp_all add: runKey_def runModuleKey_def runTestKey_def intOf_def textOf_def inScope_def runRow_at moduleRow_at testRow_at)

lemma fits_simps [simp]:
  "fits TypeText (SqlText s)" "fits TypeTextNull (SqlText s)" "fits TypeInteger (SqlInt k)" "fits TypeIntegerNull (SqlInt k)"
  "fits TypeTextNull SqlNull" "fits TypeIntegerNull SqlNull" "fits TypeText (jsonColumn v)" "fits TypeTextNull (jsonColumn v)"
  "fits TypeTextNull (textOrNull x)"
  by (simp_all add: fits_def jsonColumn_def textOrNull_def split: option.split)

lemma moduleRow_fits: "rowFits RUN_MODULES (moduleRow n i m)"
  unfolding rows_zip
  by (cases "rcm_state m") (simp_all add: rowFits_def RUN_MODULES_def INSERT_MODULE_def moduleErrors_def)

lemma testRow_fits: "rowFits RUN_TESTS (testRow n i j t) \<and> markedRow (testRow n i j t)"
proof
  show "rowFits RUN_TESTS (testRow n i j t)"
    unfolding rows_zip
    by (cases "rct_state t") (simp_all add: rowFits_def RUN_TESTS_def INSERT_TEST_def testColumns_def identifiedTestColumns_def
      testResultColumns_def Let_def)
  show "markedRow (testRow n i j t)"
    by (simp add: markedRow_def intOf_def testRow_at DUPLICATE_MARK_def NOT_DUPLICATE_MARK_def)
qed

lemma runColumns_fit:
  "fits TypeTextNull (rl_vitestVersion (runColumns run))" "fits TypeTextNull (rl_unsupportedVitest (runColumns run))"
  "fits TypeTextNull (rl_error (runColumns run))" "fits TypeTextNull (rl_execution (runColumns run))"
  "fits TypeTextNull (rl_nothingRan (runColumns run))" "fits TypeTextNull (rl_cancelError (runColumns run))"
  "fits TypeTextNull (rl_closeError (runColumns run))" "fits TypeTextNull (rl_unhandledErrors (runColumns run))"
  "fits TypeTextNull (rl_typecheckModules (runColumns run))" "fits TypeTextNull (rl_unsupportedProjects (runColumns run))"
  "fits TypeIntegerNull (rl_forceStopped (runColumns run))"
  "rl_forceStopped (runColumns run) \<in> {SqlNull, SqlInt NOT_FORCE_STOPPED, SqlInt FORCE_STOPPED}"
  by (cases run; simp add: runColumns_def ranColumns_def NO_RUN_COLUMNS_def)+

lemma runRow_fits: "rowFits RUNS (runRow n scope stored fp) \<and> forceStoppedRow (runRow n scope stored fp)"
proof
  show "rowFits RUNS (runRow n scope stored fp)"
    unfolding rows_zip by (simp add: rowFits_def RUNS_def INSERT_RUN_def runValues_def Let_def runColumns_fit)
  show "forceStoppedRow (runRow n scope stored fp)"
    using runColumns_fit(12) [of "sr_run stored"] by (auto simp: forceStoppedRow_def runRow_at)
qed

lemma runRow_bound:
  assumes "requireBindings bindings = Inr ()" and "fingerprintColumns (sc_inputFingerprint bindings) = Inr fp"
    and "scope = StoreScope.truncate bindings"
  shows "boundRow (runRow n scope stored fp)"
proof -
  have "sc_projectIdentity scope \<noteq> []" "sc_worktreeIdentity scope \<noteq> []"
    using assms by (auto simp: requireBindings_def requireScope_def requireNonEmpty_def StoreScope.truncate_def bindE_def
        split: if_splits sum.splits)
  moreover have "fp = (NOT_FINGERPRINTED, None) \<or> (\<exists>d. d \<noteq> [] \<and> fp = (FINGERPRINT_DIGEST, Some d))"
    using assms(2) by (auto simp: fingerprintColumns_def requireNonEmpty_def bindE_def split: InputFingerprint.splits if_splits)
  ultimately show ?thesis
    by (auto simp: boundRow_def nonEmptyText_def textOf_def runRow_at textOrNull_def FINGERPRINT_DIGEST_def NOT_FINGERPRINTED_def)
qed

section \<open>A row reads back as what it was made from\<close>

lemma closeError_reads: "map_of row ''close_error'' = Some (textOrNull v) \<Longrightarrow> closeError row = Inr v"
  by (simp add: closeError_def json_reads)

lemma memberOf_names:
  "memberOf TEST_OUTCOMES (nameIn TEST_OUTCOMES outcome) name = Inr outcome"
  "memberOf RUN_EXECUTIONS (nameIn RUN_EXECUTIONS execution) name = Inr execution"
  "memberOf NOTHING_RAN_REASONS (nameIn NOTHING_RAN_REASONS reason) name = Inr reason"
proof -
  show "memberOf TEST_OUTCOMES (nameIn TEST_OUTCOMES outcome) name = Inr outcome"
    by (cases outcome) (simp_all add: memberOf_def TEST_OUTCOMES_def)
  show "memberOf RUN_EXECUTIONS (nameIn RUN_EXECUTIONS execution) name = Inr execution"
    by (cases execution) (simp_all add: memberOf_def RUN_EXECUTIONS_def)
  show "memberOf NOTHING_RAN_REASONS (nameIn NOTHING_RAN_REASONS reason) name = Inr reason"
    by (cases reason) (simp_all add: memberOf_def NOTHING_RAN_REASONS_def)
qed

lemma duplicateMark_reads:
  "map_of row ''is_duplicate'' = Some (SqlInt (if b then DUPLICATE_MARK else NOT_DUPLICATE_MARK)) \<Longrightarrow> duplicateMark row = Inr b"
  by (simp add: duplicateMark_def json_reads DUPLICATE_MARK_def NOT_DUPLICATE_MARK_def)

lemma identifiedTest_reads:
  assumes "map_of row ''workspace_path'' = Some (SqlText (workspacePath (it_identity t)))"
    and "map_of row ''project_name'' = Some (SqlText (projectName (it_identity t)))"
    and "map_of row ''module_path'' = Some (SqlText (modulePath (it_identity t)))"
    and "map_of row ''name_path'' = Some (jsonColumn (textsJson (namePath (it_identity t))))"
    and "map_of row ''occurrence'' = Some (SqlInt (occurrence (it_identity t)))"
    and "map_of row ''is_duplicate'' = Some (SqlInt (if it_isDuplicate t then DUPLICATE_MARK else NOT_DUPLICATE_MARK))"
  shows "identifiedTest row = Inr (IdentifiedTest.truncate t)"
  using assms by (simp add: identifiedTest_def json_reads duplicateMark_reads IdentifiedTest.truncate_def)

lemma recordedTest_reads: "recordedTest (selectColumns TEST_COLUMNS (testRow n i j t)) = Inr t"
proof -
  define row where "row = selectColumns TEST_COLUMNS (testRow n i j t)"
  have at: "map_of row c = map_of (testRow n i j t) c" if "c \<in> set TEST_COLUMNS" for c
    using that by (simp add: row_def map_of_selectColumns)
  have "identifiedTest row = Inr (IdentifiedTest.truncate t)"
    by (rule identifiedTest_reads) (simp_all add: at TEST_COLUMNS_def testRow_at)
  moreover have "testRunState row = Inr (rct_state t)"
  proof (cases "rct_state t")
    case (Finished outcome errors)
    have "map_of row ''outcome'' = Some (SqlText (nameIn TEST_OUTCOMES outcome))"
      "map_of row ''errors'' = Some (jsonColumn (textsJson errors))" "map_of row ''execution'' = Some (SqlText ''finished'')"
      by (simp_all add: at TEST_COLUMNS_def testRow_at testResultColumns_def testExecution_def Finished)
    then show ?thesis by (simp add: testRunState_def json_reads memberOf_names Finished)
  next
    case InterruptedTest
    have "map_of row ''execution'' = Some (SqlText ''interrupted'')"
      by (simp add: at TEST_COLUMNS_def testRow_at testExecution_def InterruptedTest)
    then show ?thesis by (simp add: testRunState_def json_reads InterruptedTest)
  qed
  ultimately show ?thesis
    by (simp add: recordedTest_def row_def [symmetric] IdentifiedTest.truncate_def IdentifiedTest.extend_def)
qed

lemma recordedModule_reads: "recordedModule (selectColumns MODULE_COLUMNS (moduleRow n i m)) (testsOf m) = Inr m"
proof -
  define row where "row = selectColumns MODULE_COLUMNS (moduleRow n i m)"
  have at: "map_of row c = map_of (moduleRow n i m) c" if "c \<in> set MODULE_COLUMNS" for c
    using that by (simp add: row_def map_of_selectColumns)
  have "map_of row ''project_name'' = Some (SqlText (mr_projectName m))" "map_of row ''module_path'' = Some (SqlText (mr_modulePath m))"
    "map_of row ''state'' = Some (SqlText (moduleState m))" "map_of row ''errors'' = Some (moduleErrors m)"
    by (simp_all add: at MODULE_COLUMNS_def moduleRow_at)
  then show ?thesis
    by (cases "rcm_state m")
       (simp_all add: recordedModule_def row_def [symmetric] json_reads moduleState_def moduleErrors_def Let_def ModuleReport.extend_def)
qed

lemma moduleIndex_reads: "rowInteger (selectColumns MODULE_COLUMNS (moduleRow n i m)) ''module_index'' = Inr i"
  by (intro json_reads) (simp add: map_of_selectColumns MODULE_COLUMNS_def moduleRow_at)

lemma testIndex_reads: "rowInteger (selectColumns TEST_COLUMNS (testRow n i j t)) ''module_index'' = Inr i"
  by (intro json_reads) (simp add: map_of_selectColumns TEST_COLUMNS_def testRow_at)

section \<open>The rows of a run's modules\<close>

declare testsOf.simps [simp del]

primrec testRowsFrom :: "nat \<Rightarrow> nat \<Rightarrow> nat \<Rightarrow> RecordedTest list \<Rightarrow> Row list" where
  "testRowsFrom n i j [] = []"
| "testRowsFrom n i j (t # ts) = testRow n i j t # testRowsFrom n i (Suc j) ts"

primrec moduleRowsFrom :: "nat \<Rightarrow> nat \<Rightarrow> RecordedModule list \<Rightarrow> Row list" where
  "moduleRowsFrom n i [] = []"
| "moduleRowsFrom n i (m # ms) = moduleRow n i m # moduleRowsFrom n (Suc i) ms"

primrec allTestRows :: "nat \<Rightarrow> nat \<Rightarrow> RecordedModule list \<Rightarrow> Row list" where
  "allTestRows n i [] = []"
| "allTestRows n i (m # ms) = testRowsFrom n i 0 (testsOf m) @ allTestRows n (Suc i) ms"

primrec groupsFrom :: "nat \<Rightarrow> nat \<Rightarrow> RecordedModule list \<Rightarrow> (nat, Row list) jsmap" where
  "groupsFrom n i [] = []"
| "groupsFrom n i (m # ms) =
     (if testsOf m = [] then [] else [(i, map (selectColumns TEST_COLUMNS) (testRowsFrom n i 0 (testsOf m)))]) @
     groupsFrom n (Suc i) ms"

lemma jset_last: "k \<notin> set (keys m) \<Longrightarrow> jset k v (m @ [(k, w)]) = m @ [(k, v)]"
  by (induction m) (auto simp: jset_def keys_def)

text \<open>Rows of one group, one after another, are gathered under its key.\<close>

lemma rowsFrom_group:
  assumes "i \<notin> set (keys groups)" and "list_all (\<lambda>row. rowInteger row name = Inr i) rows"
  shows "rowsFrom name (rows @ rest) (groups @ [(i, before)]) = rowsFrom name rest (groups @ [(i, before @ rows)])"
  using assms(2)
proof (induction rows arbitrary: before)
  case (Cons row rows)
  have "map_of (groups @ [(i, before)]) i = Some before"
    using assms(1) by (auto simp: in_keys_iff map_of_append map_add_def split: option.splits)
  with Cons assms(1) show ?case by (simp add: jset_last)
qed simp

lemma rowsFrom_new:
  assumes "i \<notin> set (keys groups)" and "list_all (\<lambda>row. rowInteger row name = Inr i) rows"
  shows "rowsFrom name (rows @ rest) groups = rowsFrom name rest (groups @ (if rows = [] then [] else [(i, rows)]))"
proof (cases rows)
  case (Cons row more)
  have none: "map_of groups i = None" using assms(1) by (simp add: in_keys_iff)
  from Cons assms(2) have "rowInteger row name = Inr i" "list_all (\<lambda>row. rowInteger row name = Inr i) more" by simp_all
  with rowsFrom_group [OF assms(1), of name more rest "[row]"] show ?thesis
    by (simp add: Cons none jset_new [OF assms(1)])
qed simp

lemma testRows_index: "list_all (\<lambda>row. rowInteger row ''module_index'' = Inr i) (map (selectColumns TEST_COLUMNS) (testRowsFrom n i j ts))"
  by (induction ts arbitrary: j) (simp_all add: testIndex_reads)

lemma rowsFrom_all:
  "(\<forall>k \<in> set (keys groups). k < i) \<Longrightarrow>
   rowsFrom ''module_index'' (map (selectColumns TEST_COLUMNS) (allTestRows n i ms)) groups = Inr (groups @ groupsFrom n i ms)"
proof (induction ms arbitrary: i groups)
  case (Cons m ms)
  have new: "i \<notin> set (keys groups)" using Cons.prems by auto
  define group where "group = (if testsOf m = [] then [] else [(i, map (selectColumns TEST_COLUMNS) (testRowsFrom n i 0 (testsOf m)))])"
  have "(map (selectColumns TEST_COLUMNS) (testRowsFrom n i 0 (testsOf m)) = []) = (testsOf m = [])" by (cases "testsOf m") simp_all
  then have "rowsFrom ''module_index'' (map (selectColumns TEST_COLUMNS) (allTestRows n i (m # ms))) groups =
      rowsFrom ''module_index'' (map (selectColumns TEST_COLUMNS) (allTestRows n (Suc i) ms)) (groups @ group)"
    using rowsFrom_new [OF new testRows_index, of n 0 "testsOf m"] by (simp add: group_def)
  also have "\<dots> = Inr ((groups @ group) @ groupsFrom n (Suc i) ms)"
    using Cons.prems by (intro Cons.IH) (auto simp: group_def keys_def)
  finally show ?case by (simp add: group_def)
qed simp

lemma groupsFrom_keys: "k \<in> set (keys (groupsFrom n i ms)) \<Longrightarrow> i \<le> k"
  by (induction ms arbitrary: i) (auto simp: keys_def split: if_splits dest!: Suc_leD)

lemma recordedTests_read: "mapE recordedTest (map (selectColumns TEST_COLUMNS) (testRowsFrom n i j ts)) = Inr ts"
  by (induction ts arbitrary: j) (simp_all add: recordedTest_reads)

lemma modulesFrom_read:
  "modulesFrom (map (selectColumns MODULE_COLUMNS) (moduleRowsFrom n i ms)) (groupsFrom n i ms) = Inr (ms, [])"
proof (induction ms arbitrary: i)
  case (Cons m ms)
  have later: "i \<notin> set (keys (groupsFrom n (Suc i) ms))" using groupsFrom_keys [of i n "Suc i" ms] by auto
  then have none: "map_of (groupsFrom n (Suc i) ms) i = None" by (simp add: in_keys_iff)
  have del: "jdel i (groupsFrom n (Suc i) ms) = groupsFrom n (Suc i) ms"
    using later by (auto simp: jdel_def keys_def filter_id_conv)
  have g: "jdel i (groupsFrom n i (m # ms)) = groupsFrom n (Suc i) ms" using del by (simp add: jdel_def)
  have t: "mapE recordedTest (case map_of (groupsFrom n i (m # ms)) i of Some held \<Rightarrow> held | None \<Rightarrow> []) = Inr (testsOf m)"
    using none by (simp add: recordedTests_read)
  show ?case
    using Cons.IH [of "Suc i"] by (simp add: moduleIndex_reads t g recordedModule_reads del: groupsFrom.simps(2))
qed simp

lemma recordedModules_read:
  "recordedModules \<lparr>ch_modules = map (selectColumns MODULE_COLUMNS) (moduleRowsFrom n 0 ms),
     ch_tests = map (selectColumns TEST_COLUMNS) (allTestRows n 0 ms)\<rparr> = Inr ms"
  using rowsFrom_all [of "[]" 0 n ms] by (simp add: recordedModules_def rowsBy_def keys_def modulesFrom_read)

section \<open>A run reads back\<close>

definition modulesOf :: "WorkspaceRun \<Rightarrow> RecordedModule list" where
  "modulesOf run = (case run of RanRun _ modules \<Rightarrow> modules | _ \<Rightarrow> [])"

definition childrenOf :: "nat \<Rightarrow> WorkspaceRun \<Rightarrow> RunChildren" where
  "childrenOf n run = \<lparr>ch_modules = map (selectColumns MODULE_COLUMNS) (moduleRowsFrom n 0 (modulesOf run)),
     ch_tests = map (selectColumns TEST_COLUMNS) (allTestRows n 0 (modulesOf run))\<rparr>"

text \<open>What a row holds of a run, column by column.\<close>

definition holdsRun :: "Row \<Rightarrow> WorkspaceRun \<Rightarrow> bool" where
  "holdsRun row run \<longleftrightarrow>
     map_of row ''vitest_version'' = Some (rl_vitestVersion (runColumns run)) \<and>
     map_of row ''unsupported_vitest'' = Some (rl_unsupportedVitest (runColumns run)) \<and>
     map_of row ''error'' = Some (rl_error (runColumns run)) \<and>
     map_of row ''execution'' = Some (rl_execution (runColumns run)) \<and>
     map_of row ''nothing_ran'' = Some (rl_nothingRan (runColumns run)) \<and>
     map_of row ''cancel_error'' = Some (rl_cancelError (runColumns run)) \<and>
     map_of row ''close_error'' = Some (rl_closeError (runColumns run)) \<and>
     map_of row ''unhandled_errors'' = Some (rl_unhandledErrors (runColumns run)) \<and>
     map_of row ''typecheck_modules'' = Some (rl_typecheckModules (runColumns run)) \<and>
     map_of row ''unsupported_projects'' = Some (rl_unsupportedProjects (runColumns run)) \<and>
     map_of row ''force_stopped'' = Some (rl_forceStopped (runColumns run))"

lemma ranRun_reads:
  assumes "holdsRun row (RanRun facts modules)"
  shows "ranRun row modules = Inr (RanRun facts modules)"
proof -
  note h = assms [unfolded holdsRun_def runColumns_def ranColumns_def NO_RUN_COLUMNS_def, simplified]
  have "arrayOf row ''typecheck_modules'' moduleReport = Inr (rn_typecheckModules facts)"
    using h by (intro arrayOf_reads [where enc = moduleReportJson]) (simp_all add: json_wfs json_reads)
  moreover have "arrayOf row ''unsupported_projects'' unsupportedProject = Inr (rn_unsupportedProjects facts)"
    using h by (intro arrayOf_reads [where enc = unsupportedProjectJson]) (simp_all add: json_wfs json_reads)
  moreover have "rowStrings row ''unhandled_errors'' = Inr (rn_unhandledErrors facts)"
    using h by (intro json_reads) simp
  moreover have "forceStopped row = Inr (rn_forceStopped facts)"
    using h by (simp add: forceStopped_def json_reads FORCE_STOPPED_def NOT_FORCE_STOPPED_def)
  moreover have "optionalText row ''nothing_ran'' = Inr (map_option (nameIn NOTHING_RAN_REASONS) (rn_nothingRan facts))"
    "optionalText row ''cancel_error'' = Inr (rn_cancelError facts)" "closeError row = Inr (rn_closeError facts)"
    "rowText row ''vitest_version'' = Inr (rn_vitestVersion facts)"
    "rowText row ''execution'' = Inr (nameIn RUN_EXECUTIONS (rn_execution facts))"
    using h by (simp_all add: json_reads closeError_def)
  ultimately show ?thesis
    by (cases "rn_nothingRan facts") (simp_all add: ranRun_def memberOf_names)
qed

lemma workspaceRun_reads:
  assumes "holdsRun row run" and "map_of row ''status'' = Some (SqlText (runStatus run))"
    and "map_of row ''workspace_path'' = Some (SqlText (ws_path w))"
    and "map_of row ''workspace_directory'' = Some (SqlText (ws_directory w))"
  shows "workspaceRun row (childrenOf n run) = Inr (w, run)"
proof -
  have texts: "rowText row ''status'' = Inr (runStatus run)" "rowText row ''workspace_path'' = Inr (ws_path w)"
    "rowText row ''workspace_directory'' = Inr (ws_directory w)"
    using assms by (simp_all add: json_reads)
  show ?thesis
  proof (cases run)
    case (RanRun facts modules)
    then show ?thesis
      using texts ranRun_reads [of row facts modules] assms(1) recordedModules_read [of n modules]
      by (simp add: workspaceRun_def runStatus_def childrenOf_def modulesOf_def Let_def)
  next
    case (UnsupportedRun v)
    then have "rowJson row ''unsupported_vitest'' = Inr (unsupportedVitestJson v)"
      using assms(1) by (intro rowJson_reads) (simp_all add: holdsRun_def runColumns_def NO_RUN_COLUMNS_def json_wfs)
    then show ?thesis
      using texts by (simp add: UnsupportedRun workspaceRun_def runStatus_def childrenOf_def modulesOf_def requireNoChildren_def
          Let_def json_reads)
  next
    case (FailedRun f)
    then have "rowText row ''vitest_version'' = Inr (fs_vitestVersion f)" "rowText row ''error'' = Inr (fs_error f)"
      "closeError row = Inr (fs_closeError f)"
      using assms(1) by (simp_all add: holdsRun_def runColumns_def NO_RUN_COLUMNS_def json_reads closeError_def)
    then show ?thesis
      using texts by (simp add: FailedRun workspaceRun_def runStatus_def childrenOf_def modulesOf_def requireNoChildren_def Let_def)
  next
    case InterruptedBeforeLoadRun
    then show ?thesis
      using texts by (simp add: workspaceRun_def runStatus_def childrenOf_def modulesOf_def requireNoChildren_def Let_def)
  next
    case (CrashedRun e)
    then have "rowText row ''error'' = Inr e"
      using assms(1) by (simp add: holdsRun_def runColumns_def NO_RUN_COLUMNS_def json_reads)
    then show ?thesis
      using texts by (simp add: CrashedRun workspaceRun_def runStatus_def childrenOf_def modulesOf_def requireNoChildren_def Let_def)
  qed
qed

lemma fingerprint_reads:
  "fingerprintColumns fingerprint = Inr fp \<Longrightarrow>
     fingerprintFromColumns (SqlText (fst fp)) (textOrNull (snd fp)) = Inr fingerprint"
  by (auto simp: fingerprintColumns_def fingerprintFromColumns_def textOrNull_def bindE_def FINGERPRINT_DIGEST_def
      NOT_FINGERPRINTED_def split: InputFingerprint.splits sum.splits)

lemma selectedRun_at:
  "map_of (selectColumns RUN_COLUMNS row) c = map_of row c" if "c \<in> set RUN_COLUMNS"
  using that by (simp add: map_of_selectColumns)

lemma storedRun_reads:
  assumes "fingerprintColumns (sb_inputFingerprint stored) = Inr fp"
  shows "storedRun (selectColumns RUN_COLUMNS (runRow n scope stored fp)) (childrenOf n (sr_run stored)) = Inr (scope, stored)"
proof -
  define row where "row = selectColumns RUN_COLUMNS (runRow n scope stored fp)"
  have at: "map_of row c = map_of (runRow n scope stored fp) c" if "c \<in> set RUN_COLUMNS" for c
    using that by (simp add: row_def selectedRun_at)
  have "workspaceRun row (childrenOf n (sr_run stored)) = Inr (sr_workspace stored, sr_run stored)"
    by (rule workspaceRun_reads) (simp_all add: holdsRun_def at RUN_COLUMNS_def runRow_at)
  moreover have "rowText row ''project_identity'' = Inr (sc_projectIdentity scope)"
    "rowText row ''worktree_identity'' = Inr (sc_worktreeIdentity scope)" "rowText row ''run_id'' = Inr (sr_runId stored)"
    "rowInteger row ''adapter_version'' = Inr (sb_adapterVersion stored)"
    "column row ''fingerprint_kind'' = Inr (SqlText (fst fp))" "column row ''fingerprint_digest'' = Inr (textOrNull (snd fp))"
    by (simp_all add: json_reads column_def at RUN_COLUMNS_def runRow_at)
  ultimately show ?thesis
    using fingerprint_reads [OF assms] by (simp add: storedRun_def row_def [symmetric])
qed

end
