(* ===== verification/StoreWrite.thy ===== *)
theory StoreWrite
  imports StoreRoundTrip
begin

text \<open>
  Writing a run (\<^verbatim>\<open>store/write-run.ts\<close>): every statement of a write meets the schema, the run just
  written reads back as it was, it takes the place of every earlier run of its workspace, and every other
  run reads as it did.
\<close>

section \<open>Removing the earlier runs\<close>

definition withoutRuns :: "nat set \<Rightarrow> StoreTables \<Rightarrow> StoreTables" where
  "withoutRuns S db = db\<lparr>tb_runs := filter (\<lambda>row. runKey row \<notin> S) (tb_runs db),
     tb_runModules := filter (\<lambda>row. intOf row ''run_sequence'' \<notin> S) (tb_runModules db),
     tb_runTests := filter (\<lambda>row. intOf row ''run_sequence'' \<notin> S) (tb_runTests db)\<rparr>"

lemma key_parts [simp]: "fst (runModuleKey row) = intOf row ''run_sequence''" "fst (runTestKey row) = runModuleKey row"
  by (simp_all add: runModuleKey_def runTestKey_def)

lemma discoveriesHold_runs [simp]:
  "discoveriesHold (db\<lparr>tb_runs := r\<rparr>) = discoveriesHold db" "discoveriesHold (db\<lparr>tb_runModules := m\<rparr>) = discoveriesHold db"
  "discoveriesHold (db\<lparr>tb_runTests := t\<rparr>) = discoveriesHold db"
  by (simp_all add: discoveriesHold_def)

lemma schemaHolds_fewer_tests:
  "schemaHolds db \<Longrightarrow> schemaHolds (db\<lparr>tb_runTests := filter P (tb_runTests db)\<rparr>)"
  by (auto simp: schemaHolds_def runsHold_def list_all_iff distinct_map_filter)

lemma schemaHolds_fewer_modules:
  assumes "schemaHolds db" and "\<forall>row \<in> set (tb_runTests db). intOf row ''run_sequence'' \<notin> S"
  shows "schemaHolds (db\<lparr>tb_runModules := filter (\<lambda>row. intOf row ''run_sequence'' \<notin> S) (tb_runModules db)\<rparr>)"
proof -
  have "runModuleKey row \<in> runModuleKey ` {m \<in> set (tb_runModules db). intOf m ''run_sequence'' \<notin> S}"
    if row: "row \<in> set (tb_runTests db)" for row
  proof -
    have "runModuleKey row \<in> runModuleKey ` set (tb_runModules db)"
      using assms(1) row by (simp add: schemaHolds_def runsHold_def list_all_iff)
    then obtain m where m: "m \<in> set (tb_runModules db)" "runModuleKey row = runModuleKey m" by auto
    then have "intOf m ''run_sequence'' = intOf row ''run_sequence''" by (simp add: runModuleKey_def)
    with assms(2) row m show ?thesis by auto
  qed
  with assms(1) show ?thesis
    by (simp add: schemaHolds_def runsHold_def list_all_iff distinct_map_filter)
qed

lemma schemaHolds_fewer_runs:
  assumes "schemaHolds db" and "\<forall>row \<in> set (tb_runModules db). intOf row ''run_sequence'' \<notin> S"
  shows "schemaHolds (db\<lparr>tb_runs := filter (\<lambda>row. runKey row \<notin> S) (tb_runs db)\<rparr>)"
proof -
  have "intOf row ''run_sequence'' \<in> runKey ` {r \<in> set (tb_runs db). runKey r \<notin> S}" if row: "row \<in> set (tb_runModules db)" for row
  proof -
    have "intOf row ''run_sequence'' \<in> runKey ` set (tb_runs db)"
      using assms(1) row by (simp add: schemaHolds_def runsHold_def list_all_iff)
    with assms(2) row show ?thesis by auto
  qed
  with assms(1) show ?thesis
    by (simp add: schemaHolds_def runsHold_def list_all_iff distinct_map_filter)
qed

lemma workspaceRuns_runs [simp]:
  "workspaceRuns scope path (db\<lparr>tb_runModules := m\<rparr>) = workspaceRuns scope path db"
  "workspaceRuns scope path (db\<lparr>tb_runTests := t\<rparr>) = workspaceRuns scope path db"
  by (simp_all add: workspaceRuns_def)

lemma removeEarlierRuns_removes:
  assumes "schemaHolds db"
  shows "removeEarlierRuns scope path db = Inr (withoutRuns (set (workspaceRuns scope path db)) db) \<and>
    schemaHolds (withoutRuns (set (workspaceRuns scope path db)) db)"
proof -
  define S where "S = set (workspaceRuns scope path db)"
  define db1 where "db1 = db\<lparr>tb_runTests := filter (\<lambda>row. intOf row ''run_sequence'' \<notin> S) (tb_runTests db)\<rparr>"
  define db2 where "db2 = db1\<lparr>tb_runModules := filter (\<lambda>row. intOf row ''run_sequence'' \<notin> S) (tb_runModules db1)\<rparr>"
  define db3 where "db3 = db2\<lparr>tb_runs := filter (\<lambda>row. runKey row \<notin> S) (tb_runs db2)\<rparr>"
  have h1: "schemaHolds db1" unfolding db1_def by (rule schemaHolds_fewer_tests [OF assms])
  have h2: "schemaHolds db2" unfolding db2_def by (rule schemaHolds_fewer_modules [OF h1]) (simp add: db1_def)
  have h3: "schemaHolds db3" unfolding db3_def by (rule schemaHolds_fewer_runs [OF h2]) (simp add: db2_def)
  have same: "set (workspaceRuns scope path db1) = S" "set (workspaceRuns scope path db2) = S"
    by (simp_all add: db1_def db2_def S_def)
  have s1: "statement (db\<lparr>tb_runTests := filter (\<lambda>row. intOf row ''run_sequence'' \<notin> S) (tb_runTests db)\<rparr>) = Inr db1"
    using h1 by (simp add: statement_def db1_def)
  have s2: "statement (db1\<lparr>tb_runModules := filter (\<lambda>row. intOf row ''run_sequence'' \<notin> S) (tb_runModules db1)\<rparr>) = Inr db2"
    using h2 by (simp add: statement_def db2_def)
  have s3: "statement (db2\<lparr>tb_runs := filter (\<lambda>row. runKey row \<notin> S) (tb_runs db2)\<rparr>) = Inr db3"
    using h3 by (simp add: statement_def db3_def)
  have "removeEarlierRuns scope path db = Inr db3"
    by (simp add: removeEarlierRuns_def S_def [symmetric] s1 same s2 s3)
  moreover have "db3 = withoutRuns S db" by (simp add: withoutRuns_def db1_def db2_def db3_def)
  ultimately show ?thesis using h3 by (simp add: S_def)
qed

section \<open>Inserting\<close>

lemma nextSequence_above: "row \<in> set rows \<Longrightarrow> runKey row < nextSequence rows"
  by (induction rows) (auto simp: nextSequence_def less_Suc_eq_le le_max_iff_disj)

lemma testRow_module [simp]: "runModuleKey (testRow n i j t) = (n, i)"
  by (simp add: runModuleKey_def intOf_def testRow_at)

lemma insertTests_inserts:
  assumes "schemaHolds db" and "(n, i) \<in> runModuleKey ` set (tb_runModules db)"
    and "\<forall>row \<in> set (tb_runTests db). runModuleKey row = (n, i) \<longrightarrow> intOf row ''test_index'' < j"
  shows "insertTests n i j ts db = Inr (db\<lparr>tb_runTests := tb_runTests db @ testRowsFrom n i j ts\<rparr>) \<and>
    schemaHolds (db\<lparr>tb_runTests := tb_runTests db @ testRowsFrom n i j ts\<rparr>)"
  using assms
proof (induction ts arbitrary: j db)
  case (Cons t ts)
  define db' where "db' = db\<lparr>tb_runTests := tb_runTests db @ [testRow n i j t]\<rparr>"
  have "((n, i), j) \<notin> runTestKey ` set (tb_runTests db)"
    using Cons.prems(3) by (auto simp: runTestKey_def)
  then have h: "schemaHolds db'"
    using Cons.prems(1,2) testRow_fits [of n i j t]
    by (simp add: db'_def schemaHolds_def runsHold_def list_all_iff)
  have "insertTests n i (Suc j) ts db' = Inr (db'\<lparr>tb_runTests := tb_runTests db' @ testRowsFrom n i (Suc j) ts\<rparr>) \<and>
      schemaHolds (db'\<lparr>tb_runTests := tb_runTests db' @ testRowsFrom n i (Suc j) ts\<rparr>)"
  proof (rule Cons.IH [OF h])
    show "(n, i) \<in> runModuleKey ` set (tb_runModules db')" using Cons.prems(2) by (simp add: db'_def)
    show "\<forall>row \<in> set (tb_runTests db'). runModuleKey row = (n, i) \<longrightarrow> intOf row ''test_index'' < Suc j"
      using Cons.prems(3) by (auto simp: db'_def intOf_def testRow_at less_Suc_eq)
  qed
  then show ?case using h by (simp add: statement_def db'_def [symmetric]) (simp add: db'_def)
qed simp

lemma insertModules_inserts:
  assumes "schemaHolds db" and "n \<in> runKey ` set (tb_runs db)"
    and "\<forall>row \<in> set (tb_runModules db). intOf row ''run_sequence'' = n \<longrightarrow> intOf row ''module_index'' < i"
  shows "insertModules n i ms db = Inr (db\<lparr>tb_runModules := tb_runModules db @ moduleRowsFrom n i ms,
      tb_runTests := tb_runTests db @ allTestRows n i ms\<rparr>) \<and>
    schemaHolds (db\<lparr>tb_runModules := tb_runModules db @ moduleRowsFrom n i ms,
      tb_runTests := tb_runTests db @ allTestRows n i ms\<rparr>)"
  using assms
proof (induction ms arbitrary: i db)
  case (Cons m ms)
  define db1 where "db1 = db\<lparr>tb_runModules := tb_runModules db @ [moduleRow n i m]\<rparr>"
  define db2 where "db2 = db1\<lparr>tb_runTests := tb_runTests db1 @ testRowsFrom n i 0 (testsOf m)\<rparr>"
  have new: "(n, i) \<notin> runModuleKey ` set (tb_runModules db)"
    using Cons.prems(3) by (auto simp: runModuleKey_def)
  then have h1: "schemaHolds db1"
    using Cons.prems(1,2) moduleRow_fits [of n i m]
    by (simp add: db1_def schemaHolds_def runsHold_def list_all_iff image_iff)
  have none: "runModuleKey row \<noteq> (n, i)" if "row \<in> set (tb_runTests db1)" for row
  proof -
    have "runModuleKey row \<in> runModuleKey ` set (tb_runModules db)"
      using Cons.prems(1) that by (simp add: db1_def schemaHolds_def runsHold_def list_all_iff)
    with new show ?thesis by auto
  qed
  have "insertTests n i 0 (testsOf m) db1 = Inr db2 \<and> schemaHolds db2"
    unfolding db2_def
    by (rule insertTests_inserts [OF h1]) (use none in \<open>auto simp: db1_def\<close>)
  moreover have "insertModules n (Suc i) ms db2 = Inr (db2\<lparr>tb_runModules := tb_runModules db2 @ moduleRowsFrom n (Suc i) ms,
      tb_runTests := tb_runTests db2 @ allTestRows n (Suc i) ms\<rparr>) \<and>
    schemaHolds (db2\<lparr>tb_runModules := tb_runModules db2 @ moduleRowsFrom n (Suc i) ms,
      tb_runTests := tb_runTests db2 @ allTestRows n (Suc i) ms\<rparr>)"
  proof (rule Cons.IH)
    show "schemaHolds db2" using calculation by simp
    show "n \<in> runKey ` set (tb_runs db2)" using Cons.prems(2) by (simp add: db2_def db1_def)
    show "\<forall>row \<in> set (tb_runModules db2). intOf row ''run_sequence'' = n \<longrightarrow> intOf row ''module_index'' < Suc i"
      using Cons.prems(3) by (auto simp: db2_def db1_def intOf_def moduleRow_at less_Suc_eq)
  qed
  ultimately show ?case
    using h1 by (simp add: statement_def db1_def [symmetric]) (simp add: db1_def db2_def)
qed simp

text \<open>What inserting a run under a sequence leaves.\<close>

definition withRun :: "nat \<Rightarrow> StoreScope \<Rightarrow> StoredRun \<Rightarrow> string \<times> string option \<Rightarrow> StoreTables \<Rightarrow> StoreTables" where
  "withRun n scope stored fp db = db\<lparr>tb_runs := tb_runs db @ [runRow n scope stored fp],
     tb_runModules := tb_runModules db @ moduleRowsFrom n 0 (modulesOf (sr_run stored)),
     tb_runTests := tb_runTests db @ allTestRows n 0 (modulesOf (sr_run stored))\<rparr>"

lemma insertRun_inserts:
  assumes "schemaHolds db" and "fingerprintColumns (sb_inputFingerprint stored) = Inr fp"
    and "\<And>n. boundRow (runRow n scope stored fp)" and "sr_runId stored \<notin> (\<lambda>row. textOf row ''run_id'') ` set (tb_runs db)"
  shows "insertRun scope stored db = Inr (withRun (nextSequence (tb_runs db)) scope stored fp db) \<and>
    schemaHolds (withRun (nextSequence (tb_runs db)) scope stored fp db)"
proof -
  define n where "n = nextSequence (tb_runs db)"
  define db1 where "db1 = db\<lparr>tb_runs := tb_runs db @ [runRow n scope stored fp]\<rparr>"
  have new: "n \<notin> runKey ` set (tb_runs db)" using nextSequence_above n_def by fastforce
  then have h: "schemaHolds db1"
    using assms runRow_fits [of n scope stored fp]
    by (simp add: db1_def schemaHolds_def runsHold_def list_all_iff)
  have none: "intOf row ''run_sequence'' \<noteq> n" if "row \<in> set (tb_runModules db)" for row
  proof -
    have "intOf row ''run_sequence'' \<in> runKey ` set (tb_runs db)"
      using assms(1) that by (simp add: schemaHolds_def runsHold_def list_all_iff)
    with new show ?thesis by auto
  qed
  have "insertModules n 0 ms db1 = Inr (db1\<lparr>tb_runModules := tb_runModules db1 @ moduleRowsFrom n 0 ms,
      tb_runTests := tb_runTests db1 @ allTestRows n 0 ms\<rparr>) \<and>
    schemaHolds (db1\<lparr>tb_runModules := tb_runModules db1 @ moduleRowsFrom n 0 ms,
      tb_runTests := tb_runTests db1 @ allTestRows n 0 ms\<rparr>)" for ms
    by (rule insertModules_inserts [OF h]) (use none in \<open>auto simp: db1_def\<close>)
  with h show ?thesis
    by (cases "sr_run stored")
       (simp_all add: insertRun_def assms(2) statement_def Let_def n_def [symmetric] db1_def [symmetric],
        simp_all add: withRun_def db1_def modulesOf_def)
qed

section \<open>Reading the run back\<close>

lemma moduleRows_keys: "row \<in> set (moduleRowsFrom n i ms) \<Longrightarrow> \<exists>k \<ge> i. runModuleKey row = (n, k)"
  by (induction ms arbitrary: i) (auto dest: Suc_leD)

lemma testRows_keys: "row \<in> set (testRowsFrom n i j ts) \<Longrightarrow> \<exists>k \<ge> j. runTestKey row = ((n, i), k)"
  by (induction ts arbitrary: j) (auto dest: Suc_leD)

lemma allTestRows_keys: "row \<in> set (allTestRows n i ms) \<Longrightarrow> \<exists>k \<ge> i. \<exists>l. runTestKey row = ((n, k), l)"
  by (induction ms arbitrary: i) (auto dest!: testRows_keys, meson Suc_leD)

lemma sorted_module_rows: "sorted (map runModuleKey (moduleRowsFrom n i ms))"
  by (induction ms arbitrary: i) (auto dest!: moduleRows_keys)

lemma sorted_test_rows: "sorted (map runTestKey (testRowsFrom n i j ts))"
  by (induction ts arbitrary: j) (auto dest!: testRows_keys)

lemma sorted_all_test_rows: "sorted (map runTestKey (allTestRows n i ms))"
  by (induction ms arbitrary: i) (auto simp: sorted_append sorted_test_rows dest!: testRows_keys allTestRows_keys)

lemma new_rows_of_run:
  "row \<in> set (moduleRowsFrom n i ms) \<Longrightarrow> intOf row ''run_sequence'' = n"
  "row \<in> set (allTestRows n i ms) \<Longrightarrow> intOf row ''run_sequence'' = n"
  using moduleRows_keys [of row n i ms] allTestRows_keys [of row n i ms] by (auto simp: runTestKey_def runModuleKey_def)

lemma select_new:
  assumes "\<forall>row \<in> set (tb_runModules db). intOf row ''run_sequence'' \<noteq> n"
    and "\<forall>row \<in> set (tb_runTests db). intOf row ''run_sequence'' \<noteq> n"
  shows "\<lparr>ch_modules = selectRunModules n (withRun n scope stored fp db), ch_tests = selectRunTests n (withRun n scope stored fp db)\<rparr> =
    childrenOf n (sr_run stored)"
proof -
  let ?ms = "modulesOf (sr_run stored)"
  have "filter (\<lambda>row. intOf row ''run_sequence'' = n) (moduleRowsFrom n 0 ?ms) = moduleRowsFrom n 0 ?ms"
    "filter (\<lambda>row. intOf row ''run_sequence'' = n) (allTestRows n 0 ?ms) = allTestRows n 0 ?ms"
    by (auto simp: filter_id_conv new_rows_of_run)
  moreover have "filter (\<lambda>row. intOf row ''run_sequence'' = n) (tb_runModules db) = []"
    "filter (\<lambda>row. intOf row ''run_sequence'' = n) (tb_runTests db) = []"
    using assms by (auto simp: filter_empty_conv)
  ultimately show ?thesis
    by (simp add: selectRunModules_def selectRunTests_def withRun_def childrenOf_def sort_key_id_if_sorted sorted_module_rows
        sorted_all_test_rows)
qed

lemma select_others:
  assumes "k \<noteq> n"
  shows "selectRunModules k (withRun n scope stored fp db) = selectRunModules k db"
    "selectRunTests k (withRun n scope stored fp db) = selectRunTests k db"
proof -
  let ?ms = "modulesOf (sr_run stored)"
  have "filter (\<lambda>row. intOf row ''run_sequence'' = k) (moduleRowsFrom n 0 ?ms) = []"
    "filter (\<lambda>row. intOf row ''run_sequence'' = k) (allTestRows n 0 ?ms) = []"
    using assms by (auto simp: filter_empty_conv dest: new_rows_of_run)
  then show "selectRunModules k (withRun n scope stored fp db) = selectRunModules k db"
    "selectRunTests k (withRun n scope stored fp db) = selectRunTests k db"
    by (simp_all add: selectRunModules_def selectRunTests_def withRun_def)
qed

lemma select_kept:
  assumes "k \<notin> S"
  shows "selectRunModules k (withoutRuns S db) = selectRunModules k db" "selectRunTests k (withoutRuns S db) = selectRunTests k db"
proof -
  have "(\<lambda>row. intOf row ''run_sequence'' \<notin> S \<and> intOf row ''run_sequence'' = k) = (\<lambda>row. intOf row ''run_sequence'' = k)"
    using assms by auto
  then show "selectRunModules k (withoutRuns S db) = selectRunModules k db" "selectRunTests k (withoutRuns S db) = selectRunTests k db"
    by (simp_all add: selectRunModules_def selectRunTests_def withoutRuns_def conj_commute)
qed

text \<open>Reading a row's integer or text gives what the row holds.\<close>

lemma rowInteger_of: "rowInteger row name = Inr k \<Longrightarrow> intOf row name = k"
  by (auto simp: rowInteger_def column_def intOf_def bindE_def split: option.splits SqlValue.splits sum.splits)

lemma rowText_of: "rowText row name = Inr s \<Longrightarrow> textOf row name = s"
  by (auto simp: rowText_def column_def textOf_def bindE_def split: option.splits SqlValue.splits sum.splits)

lemma textOf_selectColumns: "name \<in> set names \<Longrightarrow> textOf (selectColumns names row) name = textOf row name"
  by (simp add: textOf_def map_of_selectColumns)

lemma sequence_selected [simp]: "runKey (selectColumns RUN_COLUMNS row) = runKey row"
  by (simp add: runKey_def intOf_selectColumns RUN_COLUMNS_def)

lemma path_selected [simp]: "textOf (selectColumns RUN_COLUMNS row) ''workspace_path'' = textOf row ''workspace_path''"
  by (simp add: textOf_selectColumns RUN_COLUMNS_def)

lemma runWithChildren_same:
  assumes "selectRunModules (runKey row) db' = selectRunModules (runKey row) db" and "selectRunTests (runKey row) db' = selectRunTests (runKey row) db"
  shows "runWithChildren db' (selectColumns RUN_COLUMNS row) = runWithChildren db (selectColumns RUN_COLUMNS row)"
proof (cases "rowInteger (selectColumns RUN_COLUMNS row) ''sequence''")
  case (Inr k)
  then have "k = runKey row" using rowInteger_of [OF Inr] by (simp flip: runKey_def)
  with assms show ?thesis by (simp add: runWithChildren_def Inr)
qed (simp add: runWithChildren_def)

lemma runWithChildren_new:
  assumes "fingerprintColumns (sb_inputFingerprint stored) = Inr fp"
    and "\<forall>row \<in> set (tb_runModules db). intOf row ''run_sequence'' \<noteq> n"
    and "\<forall>row \<in> set (tb_runTests db). intOf row ''run_sequence'' \<noteq> n"
  shows "runWithChildren (withRun n scope stored fp db) (selectColumns RUN_COLUMNS (runRow n scope stored fp)) = Inr (scope, stored)"
proof -
  have "rowInteger (selectColumns RUN_COLUMNS (runRow n scope stored fp)) ''sequence'' = Inr n"
    by (intro json_reads) (simp add: map_of_selectColumns RUN_COLUMNS_def runRow_at)
  then show ?thesis
    by (simp add: runWithChildren_def select_new [OF assms(2,3)] storedRun_reads [OF assms(1)])
qed

lemma workspaceRun_path: "workspaceRun row children = Inr (w, r) \<Longrightarrow> ws_path w = textOf row ''workspace_path''"
  by (simp only: workspaceRun_def Let_def bindE_Inr) (auto simp: rowText_of)

lemma runWithChildren_path: "runWithChildren db row = Inr (sc, r) \<Longrightarrow> ws_path (sr_workspace r) = textOf row ''workspace_path''"
  by (auto simp: runWithChildren_def storedRun_def bindE_Inr dest!: workspaceRun_path)

section \<open>The write as a whole\<close>

definition storedBy :: "StoreBindings \<Rightarrow> string \<Rightarrow> Workspace \<Rightarrow> WorkspaceRun \<Rightarrow> StoredRun" where
  "storedBy bindings runId workspace run = \<lparr>sb_adapterVersion = VITEST_ADAPTER_VERSION,
     sb_inputFingerprint = sc_inputFingerprint bindings, sr_runId = runId, sr_workspace = workspace, sr_run = run\<rparr>"

text \<open>The store after a write that stores: the kept rows, and those of the run under the next sequence.\<close>

definition keptStore :: "StoreScope \<Rightarrow> string \<Rightarrow> StoreTables \<Rightarrow> StoreTables" where
  "keptStore scope path db = withoutRuns (set (workspaceRuns scope path db)) db"

definition writtenStore :: "StoreScope \<Rightarrow> StoredRun \<Rightarrow> string \<times> string option \<Rightarrow> StoreTables \<Rightarrow> StoreTables" where
  "writtenStore scope stored fp db =
     (let kept = keptStore scope (ws_path (sr_workspace stored)) db in withRun (nextSequence (tb_runs kept)) scope stored fp kept)"

lemma no_children_yet:
  assumes "schemaHolds db"
  shows "\<forall>row \<in> set (tb_runModules db). intOf row ''run_sequence'' \<noteq> nextSequence (tb_runs db)"
    "\<forall>row \<in> set (tb_runTests db). intOf row ''run_sequence'' \<noteq> nextSequence (tb_runs db)"
proof -
  have new: "nextSequence (tb_runs db) \<notin> runKey ` set (tb_runs db)" using nextSequence_above by fastforce
  have modules: "intOf row ''run_sequence'' \<in> runKey ` set (tb_runs db)" if "row \<in> set (tb_runModules db)" for row
    using assms that by (simp add: schemaHolds_def runsHold_def list_all_iff)
  then show "\<forall>row \<in> set (tb_runModules db). intOf row ''run_sequence'' \<noteq> nextSequence (tb_runs db)" using new by metis
  have "runModuleKey row \<in> runModuleKey ` set (tb_runModules db)" if "row \<in> set (tb_runTests db)" for row
    using assms that by (simp add: schemaHolds_def runsHold_def list_all_iff)
  then have "\<exists>m \<in> set (tb_runModules db). intOf m ''run_sequence'' = intOf row ''run_sequence''" if "row \<in> set (tb_runTests db)" for row
    using that by (fastforce simp: runModuleKey_def)
  then show "\<forall>row \<in> set (tb_runTests db). intOf row ''run_sequence'' \<noteq> nextSequence (tb_runs db)"
    using new modules by metis
qed

definition runIds :: "StoreTables \<Rightarrow> string list" where
  "runIds db = map (\<lambda>row. textOf row ''run_id'') (tb_runs db)"

lemma runIds_without: "set (runIds (withoutRuns S db)) \<subseteq> set (runIds db)"
  by (auto simp: runIds_def withoutRuns_def)

lemma writeRun_writes:
  assumes "schemaHolds db" and "tb_userVersion db \<le> STORE_SCHEMA_VERSION" and "requireBindings bindings = Inr ()"
    and fresh: "runId \<notin> set (runIds (keptStore (StoreScope.truncate bindings) (ws_path workspace) db))"
    and scope: "scope = StoreScope.truncate bindings" and stored: "stored = storedBy bindings runId workspace run"
  obtains fp where "fingerprintColumns (sb_inputFingerprint stored) = Inr fp"
    and "writeRun bindings runId workspace run db = (Inr (scope, stored), writtenStore scope stored fp db)"
    and "schemaHolds (keptStore scope (ws_path workspace) db)" and "schemaHolds (writtenStore scope stored fp db)"
    and "selectRun scope runId (writtenStore scope stored fp db) = Inr (Some (scope, stored))"
proof -
  obtain fp where fp: "fingerprintColumns (sb_inputFingerprint stored) = Inr fp"
    using assms(3) by (auto simp: requireBindings_def bindE_Inr stored storedBy_def)
  define kept where "kept = keptStore scope (ws_path workspace) db"
  define n where "n = nextSequence (tb_runs kept)"
  have path: "sr_workspace stored = workspace" "sr_runId stored = runId" by (simp_all add: stored storedBy_def)
  have removed: "removeEarlierRuns scope (ws_path workspace) db = Inr kept" "schemaHolds kept"
    using removeEarlierRuns_removes [OF assms(1)] by (simp_all add: kept_def keptStore_def)
  note fresh = fresh [folded scope, folded kept_def]
  have bound: "boundRow (runRow k scope stored fp)" for k
    using runRow_bound [OF assms(3) _ scope] fp by (simp add: stored storedBy_def)
  have inserted: "insertRun scope stored kept = Inr (withRun n scope stored fp kept)" "schemaHolds (withRun n scope stored fp kept)"
    using insertRun_inserts [OF removed(2) fp bound] fresh path by (simp_all add: n_def runIds_def)
  have "filter (\<lambda>row. inScope scope row \<and> textOf row ''run_id'' = runId) (tb_runs kept) = []"
    using fresh by (auto simp: filter_empty_conv runIds_def)
  then have "filter (\<lambda>row. inScope scope row \<and> textOf row ''run_id'' = runId) (tb_runs (withRun n scope stored fp kept)) =
      [runRow n scope stored fp]"
    by (simp add: withRun_def path)
  then have selected: "selectRun scope runId (withRun n scope stored fp kept) = Inr (Some (scope, stored))"
    using runWithChildren_new [OF fp] no_children_yet [OF removed(2)] by (simp add: selectRun_def n_def)
  then have "writeRun bindings runId workspace run db = (Inr (scope, stored), withRun n scope stored fp kept)"
    using selected removed inserted assms(2,3)
    by (simp add: writeRun_def Let_def inRecordWrite_def refuseNewerSchema_def isNewerSchema_def readBack_def
        scope [symmetric] stored [unfolded storedBy_def, symmetric])
  moreover have "withRun n scope stored fp kept = writtenStore scope stored fp db"
    by (simp add: writtenStore_def n_def kept_def path Let_def)
  ultimately show thesis using that fp removed(2) inserted(2) selected by (simp add: kept_def)
qed

section \<open>The latest runs\<close>

lemma latestFrom_append: "latestFrom db (xs @ ys) latest = bindE (latestFrom db xs latest) (latestFrom db ys)"
  by (induction db xs latest rule: latestFrom.induct) (auto simp: bindE_def split: sum.splits StoreError.splits)

definition withoutPath :: "string \<Rightarrow> LatestRuns \<Rightarrow> LatestRuns" where
  "withoutPath path latest =
     \<lparr>lt_latestRuns = filter (\<lambda>(_, r). ws_path (sr_workspace r) \<noteq> path) (lt_latestRuns latest),
      lt_runRefusals = filter (\<lambda>refusal. rf_workspacePath refusal \<noteq> path) (lt_runRefusals latest)\<rparr>"

text \<open>Reading only the other workspaces' rows, from a store that holds their children unchanged.\<close>

lemma latestFrom_others:
  assumes "\<And>row. row \<in> set rows \<Longrightarrow> textOf row ''workspace_path'' \<noteq> path \<Longrightarrow>
      runWithChildren db' (selectColumns RUN_COLUMNS row) = runWithChildren db (selectColumns RUN_COLUMNS row)"
    and "latestFrom db (map (selectColumns RUN_COLUMNS) rows) latest = Inr result"
  shows "latestFrom db' (map (selectColumns RUN_COLUMNS) (filter (\<lambda>row. textOf row ''workspace_path'' \<noteq> path) rows))
    (withoutPath path latest) = Inr (withoutPath path result)"
  using assms
proof (induction rows arbitrary: latest)
  case (Cons row rows)
  let ?row = "selectColumns RUN_COLUMNS row"
  have same: "textOf row ''workspace_path'' \<noteq> path \<Longrightarrow> runWithChildren db' ?row = runWithChildren db ?row"
    using Cons.prems(1) by simp
  have IH: "latestFrom db (map (selectColumns RUN_COLUMNS) rows) next = Inr result \<Longrightarrow>
      latestFrom db' (map (selectColumns RUN_COLUMNS) (filter (\<lambda>row. textOf row ''workspace_path'' \<noteq> path) rows))
        (withoutPath path next) = Inr (withoutPath path result)" for "next"
    using Cons.prems(1) by (intro Cons.IH) auto
  show ?case
  proof (cases "runWithChildren db ?row")
    case (Inr held)
    obtain sc r where held: "held = (sc, r)" by (cases held)
    have path: "ws_path (sr_workspace r) = textOf row ''workspace_path''"
      using runWithChildren_path [of db ?row sc r] Inr held by simp
    have "withoutPath path (latest\<lparr>lt_latestRuns := lt_latestRuns latest @ [held]\<rparr>) =
        (if textOf row ''workspace_path'' = path then withoutPath path latest
         else (withoutPath path latest)\<lparr>lt_latestRuns := lt_latestRuns (withoutPath path latest) @ [held]\<rparr>)"
      by (simp add: withoutPath_def held path)
    with IH [of "latest\<lparr>lt_latestRuns := lt_latestRuns latest @ [held]\<rparr>"] Cons.prems(2) same show ?thesis
      by (cases "textOf row ''workspace_path'' = path") (simp_all add: Inr)
  next
    case (Inl e)
    show ?thesis
    proof (cases "\<exists>reason. e = UnreadableRecordError reason")
      case True
      then obtain reason where e: "e = UnreadableRecordError reason" by blast
      obtain p where p: "rowText ?row ''workspace_path'' = Inr p"
        using Cons.prems(2) by (auto simp: Inl e bindE_def split: sum.splits)
      have shown: "p = textOf row ''workspace_path''" using rowText_of [OF p] by simp
      let ?refusal = "\<lparr>rf_workspacePath = p, rf_reason = reason\<rparr>"
      have "withoutPath path (latest\<lparr>lt_runRefusals := lt_runRefusals latest @ [?refusal]\<rparr>) =
          (if textOf row ''workspace_path'' = path then withoutPath path latest
           else (withoutPath path latest)\<lparr>lt_runRefusals := lt_runRefusals (withoutPath path latest) @ [?refusal]\<rparr>)"
        by (simp add: withoutPath_def shown)
      with IH [of "latest\<lparr>lt_runRefusals := lt_runRefusals latest @ [?refusal]\<rparr>"] Cons.prems(2) same p show ?thesis
        by (cases "textOf row ''workspace_path'' = path") (simp_all add: Inl e)
    next
      case False
      with Cons.prems(2) show ?thesis by (cases e) (simp_all add: Inl)
    qed
  qed
qed simp

lemma latestRows_in: "row \<in> set (latestRows scope db) \<Longrightarrow> row \<in> set (tb_runs db) \<and> inScope scope row"
  by (auto simp: latestRows_def Let_def)

lemma insort_key_snoc: "f x \<le> f y \<Longrightarrow> insort_key f x (zs @ [y]) = insort_key f x zs @ [y]"
  by (induction zs) auto

lemma sort_key_snoc: "(\<And>x. x \<in> set xs \<Longrightarrow> f x \<le> f y) \<Longrightarrow> sort_key f (xs @ [y]) = sort_key f xs @ [y]"
  by (induction xs) (auto simp: insort_key_snoc)

text \<open>The removal takes the rows of the workspace alone.\<close>

lemma kept_rows:
  assumes "schemaHolds db" and "row \<in> set (tb_runs db)"
  shows "runKey row \<in> set (workspaceRuns scope path db) \<longleftrightarrow> inScope scope row \<and> textOf row ''workspace_path'' = path"
proof -
  have "inj_on runKey (set (tb_runs db))"
    using assms(1) by (simp add: schemaHolds_def runsHold_def distinct_map)
  with assms(2) show ?thesis by (auto simp: workspaceRuns_def dest: inj_onD)
qed

lemma latestRows_written:
  assumes "schemaHolds db"
  shows "latestRows scope (writtenStore scope stored fp db) =
    filter (\<lambda>row. textOf row ''workspace_path'' \<noteq> ws_path (sr_workspace stored)) (latestRows scope db) @
    [runRow (nextSequence (tb_runs (keptStore scope (ws_path (sr_workspace stored)) db))) scope stored fp]"
proof -
  define path where "path = ws_path (sr_workspace stored)"
  define keep where "keep = (\<lambda>row. textOf row ''workspace_path'' \<noteq> path)"
  define rows where "rows = tb_runs (keptStore scope path db)"
  define new where "new = runRow (nextSequence rows) scope stored fp"
  define runs where "runs = filter (inScope scope) (tb_runs db)"
  define above where "above = (\<lambda>rs row. list_all (\<lambda>other. textOf other ''workspace_path'' = textOf row ''workspace_path'' \<longrightarrow>
    runKey other \<le> runKey row) rs)"
  have latest: "latestRows scope d = sort_key runKey (filter (above (filter (inScope scope) (tb_runs d))) (filter (inScope scope) (tb_runs d)))" for d
    by (simp add: latestRows_def Let_def above_def)
  have kept: "filter (inScope scope) rows = filter keep runs"
    using kept_rows [OF assms, of _ scope path]
    by (auto simp: rows_def keptStore_def withoutRuns_def runs_def keep_def intro!: filter_cong)
  have after: "filter (inScope scope) (tb_runs (writtenStore scope stored fp db)) = filter keep runs @ [new]"
    using kept by (simp add: writtenStore_def withRun_def Let_def path_def [symmetric] rows_def [symmetric] new_def)
  have "above (filter keep runs @ [new]) row = above runs row" if "row \<in> set (filter keep runs)" for row
    using that by (auto simp: above_def list_all_iff keep_def new_def path_def)
  moreover have "above (filter keep runs @ [new]) new"
    by (auto simp: above_def list_all_iff keep_def new_def path_def)
  ultimately have "filter (above (filter keep runs @ [new])) (filter keep runs @ [new]) =
      filter keep (filter (above runs) runs) @ [new]"
    by (auto intro: filter_cong)
  moreover have "runKey row \<le> runKey new" if "row \<in> set (filter keep (filter (above runs) runs))" for row
  proof -
    from that have "row \<in> set (filter (inScope scope) rows)" unfolding kept by simp
    then have "row \<in> set rows" by simp
    then show ?thesis by (simp add: new_def nextSequence_above less_imp_le)
  qed
  ultimately have "latestRows scope (writtenStore scope stored fp db) = sort_key runKey (filter keep (filter (above runs) runs)) @ [new]"
    by (simp only: latest after sort_key_snoc)
  also have "sort_key runKey (filter keep (filter (above runs) runs)) = filter keep (latestRows scope db)"
    by (simp only: latest runs_def [symmetric] filter_sort)
  finally show ?thesis by (simp add: keep_def path_def new_def rows_def)
qed

text \<open>Another run reads as it did.\<close>

lemma runWithChildren_kept:
  assumes "schemaHolds db" and "row \<in> set (tb_runs db)" and "\<not> (inScope scope row \<and> textOf row ''workspace_path'' = ws_path (sr_workspace stored))"
  shows "runWithChildren (writtenStore scope stored fp db) (selectColumns RUN_COLUMNS row) = runWithChildren db (selectColumns RUN_COLUMNS row)"
proof -
  define path where "path = ws_path (sr_workspace stored)"
  define kept where "kept = keptStore scope path db"
  have out: "runKey row \<notin> set (workspaceRuns scope path db)"
    using kept_rows [OF assms(1,2), of scope path] assms(3) by (simp add: path_def)
  have "row \<in> set (tb_runs kept)"
    using assms(2) out by (simp add: kept_def keptStore_def withoutRuns_def)
  then have "runKey row < nextSequence (tb_runs kept)" by (rule nextSequence_above)
  then have "runKey row \<noteq> nextSequence (tb_runs kept)" by simp
  from select_others [OF this, of scope stored fp kept] select_kept [OF out, of db] show ?thesis
    by (intro runWithChildren_same)
       (simp_all add: writtenStore_def Let_def path_def [symmetric] kept_def [symmetric], simp_all add: kept_def keptStore_def)
qed

lemma written_run_at:
  assumes "schemaHolds (keptStore scope (ws_path (sr_workspace stored)) db)"
    and "fingerprintColumns (sb_inputFingerprint stored) = Inr fp"
  shows "runWithChildren (writtenStore scope stored fp db) (selectColumns RUN_COLUMNS
      (runRow (nextSequence (tb_runs (keptStore scope (ws_path (sr_workspace stored)) db))) scope stored fp)) = Inr (scope, stored)"
  using runWithChildren_new [OF assms(2) no_children_yet [OF assms(1)]] by (simp add: writtenStore_def Let_def)

lemma requireScope_truncate: "requireBindings bindings = Inr () \<Longrightarrow> requireScope (StoreScope.truncate bindings) = Inr ()"
  by (auto simp: requireBindings_def bindE_Inr requireScope_def StoreScope.truncate_def)

lemma runIds_written: "sr_runId stored \<in> set (runIds (writtenStore scope stored fp db))"
  by (simp add: runIds_def writtenStore_def withRun_def Let_def)

lemma insertRun_taken:
  assumes "sr_runId stored \<in> set (runIds db)"
  shows "\<exists>e. insertRun scope stored db = Inl e"
proof -
  have "\<not> schemaHolds (db\<lparr>tb_runs := tb_runs db @ [runRow n scope stored fp]\<rparr>)" for n fp
    using assms by (auto simp: schemaHolds_def runsHold_def runIds_def)
  then show ?thesis
    by (cases "fingerprintColumns (sb_inputFingerprint stored)") (simp_all add: insertRun_def statement_def Let_def)
qed

lemma withoutPath_none: "withoutPath path \<lparr>lt_latestRuns = [], lt_runRefusals = []\<rparr> = \<lparr>lt_latestRuns = [], lt_runRefusals = []\<rparr>"
  by (simp add: withoutPath_def)

lemma inScope_same: "inScope scope row \<Longrightarrow> inScope scope' row \<Longrightarrow> scope = scope'"
  by (cases scope, cases scope') (auto simp: inScope_def)

lemma latestFrom_cong:
  "(\<And>row. row \<in> set rows \<Longrightarrow> runWithChildren db' (selectColumns RUN_COLUMNS row) = runWithChildren db (selectColumns RUN_COLUMNS row)) \<Longrightarrow>
   latestFrom db' (map (selectColumns RUN_COLUMNS) rows) latest = latestFrom db (map (selectColumns RUN_COLUMNS) rows) latest"
  by (induction rows arbitrary: latest) (auto split: sum.splits StoreError.splits simp: bindE_def)

lemma latestRows_other:
  assumes "schemaHolds db" and "scope \<noteq> own"
  shows "latestRows scope (writtenStore own stored fp db) = latestRows scope db"
proof -
  have "filter (inScope scope) (tb_runs (keptStore own path db)) = filter (inScope scope) (tb_runs db)" for path
    using kept_rows [OF assms(1), of _ own path] inScope_same [of scope _ own] assms(2)
    by (auto simp: keptStore_def withoutRuns_def intro!: filter_cong)
  moreover have "\<not> inScope scope (runRow n own stored fp)" for n
    using assms(2) by (cases scope, cases own) auto
  ultimately have "filter (inScope scope) (tb_runs (writtenStore own stored fp db)) = filter (inScope scope) (tb_runs db)"
    by (simp add: writtenStore_def withRun_def Let_def del: row_keys)
  then show ?thesis by (simp only: latestRows_def)
qed

lemma writtenStore_version [simp]: "tb_userVersion (writtenStore scope stored fp db) = tb_userVersion db"
  by (simp add: writtenStore_def Let_def withRun_def keptStore_def withoutRuns_def)

lemma writeRun_stored:
  assumes "schemaHolds db"
  shows "case writeRun bindings runId workspace run db of
      (Inl e, db') \<Rightarrow> db' = db \<and> \<not> (requireBindings bindings = Inr () \<and> tb_userVersion db \<le> STORE_SCHEMA_VERSION \<and>
        runId \<notin> set (runIds (keptStore (StoreScope.truncate bindings) (ws_path workspace) db)))
    | (Inr _, db') \<Rightarrow> requireBindings bindings = Inr () \<and> tb_userVersion db \<le> STORE_SCHEMA_VERSION \<and>
        runId \<notin> set (runIds (keptStore (StoreScope.truncate bindings) (ws_path workspace) db)) \<and> runId \<in> set (runIds db') \<and>
        schemaHolds db'"
proof (cases "requireBindings bindings = Inr () \<and> tb_userVersion db \<le> STORE_SCHEMA_VERSION \<and>
    runId \<notin> set (runIds (keptStore (StoreScope.truncate bindings) (ws_path workspace) db))")
  case True
  then have ok: "requireBindings bindings = Inr ()" "tb_userVersion db \<le> STORE_SCHEMA_VERSION"
    "runId \<notin> set (runIds (keptStore (StoreScope.truncate bindings) (ws_path workspace) db))" by simp_all
  have "runId \<in> set (runIds (writtenStore scope (storedBy bindings runId workspace run) fp db))" for scope fp
    using runIds_written [of "storedBy bindings runId workspace run"] by (simp add: storedBy_def)
  with ok show ?thesis by (rule_tac writeRun_writes [OF assms ok(2,1,3) refl refl, of run]) simp
next
  case False
  have "\<exists>e. writeRun bindings runId workspace run db = (Inl e, db)"
  proof (cases "requireBindings bindings = Inr () \<and> tb_userVersion db \<le> STORE_SCHEMA_VERSION")
    case True
    then have "runId \<in> set (runIds (keptStore (StoreScope.truncate bindings) (ws_path workspace) db))" using False by simp
    then have "\<exists>e. insertRun (StoreScope.truncate bindings) (storedBy bindings runId workspace run)
        (keptStore (StoreScope.truncate bindings) (ws_path workspace) db) = Inl e"
      by (intro insertRun_taken) (simp add: storedBy_def)
    then show ?thesis
      using True removeEarlierRuns_removes [OF assms, of "StoreScope.truncate bindings" "ws_path workspace"]
      by (auto simp: writeRun_def Let_def inRecordWrite_def refuseNewerSchema_def isNewerSchema_def keptStore_def storedBy_def)
  next
    case False
    then show ?thesis
      by (cases "requireBindings bindings")
         (auto simp: writeRun_def Let_def inRecordWrite_def refuseNewerSchema_def isNewerSchema_def)
  qed
  with False show ?thesis by auto
qed

lemma latest_after_write:
  assumes "schemaHolds db" and "writeRun bindings runId workspace run db = (Inr written, db')"
    and "selectLatestRuns scope db = Inr latest"
  shows "selectLatestRuns scope db' = Inr (if scope = StoreScope.truncate bindings
    then (withoutPath (ws_path workspace) latest)\<lparr>lt_latestRuns := lt_latestRuns (withoutPath (ws_path workspace) latest) @ [written]\<rparr>
    else latest)"
proof -
  define own where "own = StoreScope.truncate bindings"
  define stored where "stored = storedBy bindings runId workspace run"
  have path: "sr_workspace stored = workspace" by (simp add: stored_def storedBy_def)
  have ok: "tb_userVersion db \<le> STORE_SCHEMA_VERSION" "requireBindings bindings = Inr ()"
    "runId \<notin> set (runIds (keptStore (StoreScope.truncate bindings) (ws_path workspace) db))"
    using writeRun_stored [OF assms(1), of bindings runId workspace run] assms(2) by auto
  obtain fp where fp: "fingerprintColumns (sb_inputFingerprint stored) = Inr fp"
    and wrote: "written = (own, stored)" "db' = writtenStore own stored fp db"
    and kept: "schemaHolds (keptStore own (ws_path workspace) db)"
    by (rule writeRun_writes [OF assms(1) ok own_def stored_def]) (use assms(2) in auto)
  let ?select = "map (selectColumns RUN_COLUMNS)"
  let ?none = "\<lparr>lt_latestRuns = [], lt_runRefusals = []\<rparr>"
  have rows: "latestFrom db (?select (latestRows scope db)) ?none = Inr latest"
    using assms(3) by (simp add: selectLatestRuns_def)
  have others: "runWithChildren db' (selectColumns RUN_COLUMNS row) = runWithChildren db (selectColumns RUN_COLUMNS row)"
    if "row \<in> set (latestRows scope db)" "scope = own \<Longrightarrow> textOf row ''workspace_path'' \<noteq> ws_path workspace" for row
    unfolding wrote(2)
    using latestRows_in [OF that(1)] that(2) inScope_same [of scope row own]
    by (intro runWithChildren_kept [OF assms(1)]) (auto simp: path)
  show ?thesis
  proof (cases "scope = own")
    case True
    then have after: "latestRows scope db' = filter (\<lambda>row. textOf row ''workspace_path'' \<noteq> ws_path workspace) (latestRows scope db) @
        [runRow (nextSequence (tb_runs (keptStore own (ws_path workspace) db))) own stored fp]"
      using latestRows_written [OF assms(1), of own stored fp] by (simp add: wrote(2) path)
    have "latestFrom db' (?select (filter (\<lambda>row. textOf row ''workspace_path'' \<noteq> ws_path workspace) (latestRows scope db)))
        (withoutPath (ws_path workspace) ?none) = Inr (withoutPath (ws_path workspace) latest)"
      by (rule latestFrom_others [OF _ rows]) (use others in blast)
    then show ?thesis
      using written_run_at [OF _ fp, of own db] kept
      by (simp add: selectLatestRuns_def after [unfolded True wrote(2)] latestFrom_append withoutPath_none path wrote True own_def [symmetric])
  next
    case False
    have same: "latestRows scope db' = latestRows scope db"
      using latestRows_other [OF assms(1), of scope own stored fp] False by (simp add: wrote(2))
    have "latestFrom db' (?select (latestRows scope db)) ?none = latestFrom db (?select (latestRows scope db)) ?none"
      by (rule latestFrom_cong) (use others False in auto)
    with rows show ?thesis using False by (simp add: selectLatestRuns_def same own_def)
  qed
qed

text \<open>The store after writes one after another, whatever became of each.\<close>

definition writeAll :: "(StoreBindings \<times> string \<times> Workspace \<times> WorkspaceRun) list \<Rightarrow> StoreTables \<Rightarrow> StoreTables" where
  "writeAll = fold (\<lambda>(bindings, runId, workspace, run) db. snd (writeRun bindings runId workspace run db))"

definition allRead :: "StoreTables \<Rightarrow> bool" where
  "allRead db \<longleftrightarrow> schemaHolds db \<and> (\<forall>scope. \<exists>latest. selectLatestRuns scope db = Inr latest \<and> lt_runRefusals latest = [])"

lemma writeRun_allRead:
  assumes "allRead db"
  shows "allRead (snd (writeRun bindings runId workspace run db))"
proof (cases "writeRun bindings runId workspace run db")
  case (Pair result db')
  have holds: "schemaHolds db" using assms by (simp add: allRead_def)
  show ?thesis
  proof (cases result)
    case (Inl e)
    then show ?thesis using writeRun_stored [OF holds, of bindings runId workspace run] assms by (simp add: Pair)
  next
    case (Inr written)
    have "\<exists>latest. selectLatestRuns scope db' = Inr latest \<and> lt_runRefusals latest = []" for scope
    proof -
      obtain latest where "selectLatestRuns scope db = Inr latest" "lt_runRefusals latest = []"
        using assms by (auto simp: allRead_def)
      with latest_after_write [OF holds, of bindings runId workspace run written db' scope latest] Inr Pair show ?thesis
        by (simp add: withoutPath_def)
    qed
    with Inr Pair writeRun_stored [OF holds, of bindings runId workspace run] show ?thesis by (simp add: allRead_def)
  qed
qed

lemma emptyStore_allRead: "allRead emptyStore"
  by (simp add: allRead_def emptyStore_def schemaHolds_def runsHold_def discoveriesHold_def selectLatestRuns_def latestRows_def)

definition sampleBindings :: StoreBindings where
  "sampleBindings = \<lparr>sc_projectIdentity = ''p'', sc_worktreeIdentity = ''w'', sc_inputFingerprint = FingerprintDigest ''d''\<rparr>"

definition storedWorkspace :: Workspace where
  "storedWorkspace = \<lparr>ws_path = ''.'', ws_directory = ''/r''\<rparr>"

definition sampleStoredRun :: WorkspaceRun where
  "sampleStoredRun = RanRun \<lparr>rn_vitestVersion = ''3.2.4'', rn_execution = Completed, rn_typecheckModules = [],
       rn_unsupportedProjects = [], rn_unhandledErrors = [''boom''], rn_nothingRan = None, rn_forceStopped = True,
       rn_cancelError = None, rn_closeError = Some ''late''\<rparr>
     [\<lparr>mr_projectName = ''unit'', mr_modulePath = ''a.test.ts'', rcm_state = ModuleRan
        [\<lparr>it_identity = \<lparr>workspacePath = ''.'', projectName = ''unit'', modulePath = ''a.test.ts'', namePath = [''adds'', ''1''],
            occurrence = 0\<rparr>, it_isDuplicate = False, rct_state = Finished Failed [''1 is not 2'']\<rparr>] []\<rparr>,
      \<lparr>mr_projectName = ''unit'', mr_modulePath = ''b.test.ts'', rcm_state = ModuleCrashed\<rparr>]"

section \<open>Properties\<close>

text \<open>
  C28. A run written under a new id and complete bindings, into tables that meet a schema that is not newer, is
  read back by its id exactly as it was, every module, test, error list, digest and refused project of it,
  from tables that meet the schema again.
\<close>

theorem written_run_reads_back:
  assumes "schemaHolds db" and "tb_userVersion db \<le> STORE_SCHEMA_VERSION" and "requireBindings bindings = Inr ()"
    and "runId \<notin> set (runIds db)"
  shows "\<exists>db'. writeRun bindings runId workspace run db =
        (Inr (StoreScope.truncate bindings, storedBy bindings runId workspace run), db') \<and> schemaHolds db' \<and>
      readStoredRun (StoreScope.truncate bindings) runId db' =
        Inr (Some (StoreScope.truncate bindings, storedBy bindings runId workspace run))"
proof -
  have "runId \<notin> set (runIds (keptStore (StoreScope.truncate bindings) (ws_path workspace) db))"
    using assms(4) runIds_without unfolding keptStore_def by blast
  note wrote = writeRun_writes [OF assms(1-3) this refl refl, of run]
  show ?thesis
    by (rule wrote) (use assms(2,3) in \<open>auto simp: readStoredRun_def inRecordRead_def refuseNewerSchema_def isNewerSchema_def
      requireScope_truncate\<close>)
qed

theorem written_run_reads_back_witness:
  "\<exists>db. writeRun sampleBindings ''run-1'' storedWorkspace sampleStoredRun emptyStore =
      (Inr (StoreScope.truncate sampleBindings, storedBy sampleBindings ''run-1'' storedWorkspace sampleStoredRun), db)"
proof -
  have "schemaHolds emptyStore" "tb_userVersion emptyStore \<le> STORE_SCHEMA_VERSION" "requireBindings sampleBindings = Inr ()"
    "''run-1'' \<notin> set (runIds emptyStore)" by code_simp+
  from written_run_reads_back [OF this] show ?thesis by blast
qed

text \<open>
  C29. A write stores nothing and removes nothing, or stores the run: it stores it exactly when its bindings are
  complete, the store's schema is not newer than this program's, and no kept run has its id.
\<close>

theorem write_whole_or_nothing:
  assumes "schemaHolds db"
  shows "(case writeRun bindings runId workspace run db of
      (Inl e, db') \<Rightarrow> db' = db \<and> \<not> (requireBindings bindings = Inr () \<and> tb_userVersion db \<le> STORE_SCHEMA_VERSION \<and>
        runId \<notin> set (runIds (keptStore (StoreScope.truncate bindings) (ws_path workspace) db)))
    | (Inr _, db') \<Rightarrow> requireBindings bindings = Inr () \<and> tb_userVersion db \<le> STORE_SCHEMA_VERSION \<and>
        runId \<notin> set (runIds (keptStore (StoreScope.truncate bindings) (ws_path workspace) db)) \<and> runId \<in> set (runIds db'))"
  using writeRun_stored [OF assms, of bindings runId workspace run] by (auto split: prod.splits sum.splits)

text \<open>
  After a write the latest runs of its project and worktree are what they were of the other workspaces,
  with the run just written last; no refusal to read an earlier run of its workspace is left. The latest runs
  of every other project or worktree are what they were.
\<close>

theorem latest_runs_after_write:
  assumes "schemaHolds db" and "writeRun bindings runId workspace run db = (Inr written, db')"
    and "selectLatestRuns scope db = Inr latest"
  shows "selectLatestRuns scope db' = Inr (if scope = StoreScope.truncate bindings
    then (withoutPath (ws_path workspace) latest)\<lparr>lt_latestRuns := lt_latestRuns (withoutPath (ws_path workspace) latest) @ [written]\<rparr>
    else latest)"
  by (rule latest_after_write [OF assms])

text \<open>The sample run written twice leaves one run, the second.\<close>

theorem latest_runs_after_write_witness:
  "\<exists>db db' latest. selectLatestRuns (StoreScope.truncate sampleBindings) db = Inr latest \<and> length (lt_latestRuns latest) = 1 \<and>
     selectLatestRuns (StoreScope.truncate sampleBindings) db' = Inr (latest\<lparr>lt_latestRuns :=
       [(StoreScope.truncate sampleBindings, storedBy sampleBindings ''run-2'' storedWorkspace sampleStoredRun)]\<rparr>)"
proof -
  let ?own = "StoreScope.truncate sampleBindings"
  let ?stored = "\<lambda>runId. storedBy sampleBindings runId storedWorkspace sampleStoredRun"
  have ok: "schemaHolds emptyStore" "tb_userVersion emptyStore \<le> STORE_SCHEMA_VERSION" "requireBindings sampleBindings = Inr ()" by code_simp+
  have ids: "runIds (writtenStore ?own (?stored ''run-1'') fp emptyStore) = [''run-1'']" for fp
    by (simp add: runIds_def writtenStore_def keptStore_def withoutRuns_def emptyStore_def withRun_def Let_def storedBy_def)
  have "''run-1'' \<notin> set (runIds (keptStore ?own (ws_path storedWorkspace) emptyStore))"
    by (simp add: runIds_def keptStore_def withoutRuns_def emptyStore_def)
  then obtain fp where first: "writeRun sampleBindings ''run-1'' storedWorkspace sampleStoredRun emptyStore =
      (Inr (?own, ?stored ''run-1''), writtenStore ?own (?stored ''run-1'') fp emptyStore)"
    and holds: "schemaHolds (writtenStore ?own (?stored ''run-1'') fp emptyStore)"
    by (rule writeRun_writes [OF ok _ refl refl])
  let ?db = "writtenStore ?own (?stored ''run-1'') fp emptyStore"
  have one: "selectLatestRuns ?own ?db = Inr \<lparr>lt_latestRuns = [(?own, ?stored ''run-1'')], lt_runRefusals = []\<rparr>"
    using latest_runs_after_write [OF ok(1) first, of ?own "\<lparr>lt_latestRuns = [], lt_runRefusals = []\<rparr>"]
    by (simp add: selectLatestRuns_def latestRows_def emptyStore_def withoutPath_none)
  have fresh: "''run-2'' \<notin> set (runIds (keptStore ?own (ws_path storedWorkspace) ?db))"
  proof
    assume "''run-2'' \<in> set (runIds (keptStore ?own (ws_path storedWorkspace) ?db))"
    then have "''run-2'' \<in> set (runIds ?db)" using runIds_without unfolding keptStore_def by blast
    then show False by (simp add: ids)
  qed
  have version: "tb_userVersion ?db \<le> STORE_SCHEMA_VERSION" using ok(2) by simp
  obtain db' where "writeRun sampleBindings ''run-2'' storedWorkspace sampleStoredRun ?db = (Inr (?own, ?stored ''run-2''), db')"
    by (rule writeRun_writes [OF holds version ok(3) fresh refl refl])
  from latest_runs_after_write [OF holds this one]
  have "selectLatestRuns ?own db' = Inr \<lparr>lt_latestRuns = [(?own, ?stored ''run-2'')], lt_runRefusals = []\<rparr>"
    by (simp add: withoutPath_def storedBy_def)
  with one show ?thesis
    by (intro exI [of _ ?db] exI [of _ db'] exI [of _ "\<lparr>lt_latestRuns = [(?own, ?stored ''run-1'')], lt_runRefusals = []\<rparr>"]) simp
qed

theorem write_whole_or_nothing_witness:
  "\<exists>e. writeRun sampleBindings ''run-1'' storedWorkspace sampleStoredRun (emptyStore\<lparr>tb_userVersion := 12\<rparr>) =
     (Inl e, emptyStore\<lparr>tb_userVersion := 12\<rparr>)"
proof -
  have "schemaHolds (emptyStore\<lparr>tb_userVersion := 12\<rparr>)" by code_simp
  moreover have "\<not> tb_userVersion (emptyStore\<lparr>tb_userVersion := 12\<rparr>) \<le> STORE_SCHEMA_VERSION" by code_simp
  ultimately show ?thesis
    using write_whole_or_nothing [of "emptyStore\<lparr>tb_userVersion := 12\<rparr>" sampleBindings "''run-1''" "storedWorkspace" sampleStoredRun]
    by (auto split: prod.splits sum.splits)
qed

text \<open>
  C30. Whatever is written one after another into an empty store, every row stays of its table's types with its
  keys, checks and references held, and every latest run of every project and worktree reads back: the store
  never refuses what it wrote.
\<close>

theorem stored_runs_well_typed:
  "schemaHolds (writeAll writes emptyStore) \<and>
   (\<exists>latest. selectLatestRuns scope (writeAll writes emptyStore) = Inr latest \<and> lt_runRefusals latest = [])"
proof -
  have "allRead db \<Longrightarrow> allRead (writeAll writes db)" for db
    by (induction writes arbitrary: db) (auto simp: writeAll_def intro: writeRun_allRead)
  from this [OF emptyStore_allRead] show ?thesis by (simp add: allRead_def)
qed

end
