(* ===== verification/StoredDiscoveries.thy ===== *)
theory StoredDiscoveries
  imports StoredRuns
begin

text \<open>
  Writing a discovery into the store (\<^verbatim>\<open>store/write-discovery.ts\<close>) and reading the latest one from it
  (\<^verbatim>\<open>store/read-discovery.ts\<close>). A write takes the place of every earlier discovery of its project and
  worktree. The discovery id is an argument, a random UUID in the code.
\<close>

section \<open>Writing\<close>

definition INSERT_DISCOVERY :: "string list" where
  "INSERT_DISCOVERY = [''discovery_id'', ''project_identity'', ''worktree_identity'', ''fingerprint_kind'',
     ''fingerprint_digest'', ''adapter_version'', ''not_read'', ''not_covered'']"

definition INSERT_WORKSPACE :: "string list" where
  "INSERT_WORKSPACE = [''discovery_sequence'', ''workspace_index'', ''status'', ''workspace_path'', ''workspace_directory'',
     ''vitest_version'', ''unsupported_vitest'', ''error'', ''close_error'', ''failed_modules'', ''typecheck_modules'',
     ''unsupported_projects'', ''unhandled_errors'', ''selection_facts'']"

definition INSERT_DISCOVERED_TEST :: "string list" where
  "INSERT_DISCOVERED_TEST = [''discovery_sequence'', ''workspace_index'', ''test_index'', ''workspace_path'', ''project_name'',
     ''module_path'', ''name_path'', ''occurrence'', ''is_duplicate'', ''mode'']"

record WorkspaceColumns =
  wl_vitestVersion :: SqlValue
  wl_unsupportedVitest :: SqlValue
  wl_error :: SqlValue
  wl_closeError :: SqlValue
  wl_failedModules :: SqlValue
  wl_typecheckModules :: SqlValue
  wl_unsupportedProjects :: SqlValue
  wl_unhandledErrors :: SqlValue
  wl_selectionFacts :: SqlValue

definition NO_WORKSPACE_COLUMNS :: WorkspaceColumns where
  "NO_WORKSPACE_COLUMNS = \<lparr>wl_vitestVersion = SqlNull, wl_unsupportedVitest = SqlNull, wl_error = SqlNull,
     wl_closeError = SqlNull, wl_failedModules = SqlNull, wl_typecheckModules = SqlNull, wl_unsupportedProjects = SqlNull,
     wl_unhandledErrors = SqlNull, wl_selectionFacts = SqlNull\<rparr>"

definition workspaceColumns :: "WorkspaceDiscovery \<Rightarrow> WorkspaceColumns" where
  "workspaceColumns entry = (case entry of
     WsDiscovered d \<Rightarrow> NO_WORKSPACE_COLUMNS\<lparr>
       wl_vitestVersion := SqlText (dw_vitestVersion d),
       wl_closeError := textOrNull (dw_closeError d),
       wl_failedModules := jsonColumn (JArr (map failedModuleJson (dw_failedModules d))),
       wl_typecheckModules := jsonColumn (JArr (map moduleReportJson (dw_typecheckModules d))),
       wl_unsupportedProjects := jsonColumn (JArr (map unsupportedProjectJson (dw_unsupportedProjects d))),
       wl_unhandledErrors := jsonColumn (textsJson (dw_unhandledErrors d)),
       wl_selectionFacts := (case dw_selectionFacts d of
           FactsReported projects \<Rightarrow> jsonColumn (JArr (map projectSelectionFactsJson projects))
         | FactsNotReported \<Rightarrow> SqlNull)\<rparr>
   | WsUnsupported _ vitest \<Rightarrow> NO_WORKSPACE_COLUMNS\<lparr>wl_unsupportedVitest := jsonColumn (unsupportedVitestJson vitest)\<rparr>
   | WsFailed _ failed \<Rightarrow> NO_WORKSPACE_COLUMNS\<lparr>wl_vitestVersion := SqlText (fs_vitestVersion failed),
       wl_error := SqlText (fs_error failed), wl_closeError := textOrNull (fs_closeError failed)\<rparr>
   | WsNotConfirmed _ reason \<Rightarrow> NO_WORKSPACE_COLUMNS\<lparr>wl_error := SqlText reason\<rparr>)"

definition entryStatus :: "WorkspaceDiscovery \<Rightarrow> string" where
  "entryStatus entry = (case entry of WsDiscovered _ \<Rightarrow> ''discovered'' | WsUnsupported _ _ \<Rightarrow> ''unsupported''
     | WsFailed _ _ \<Rightarrow> ''failed'' | WsNotConfirmed _ _ \<Rightarrow> ''not-confirmed'')"

definition discoveryRow :: "nat \<Rightarrow> StoreScope \<Rightarrow> StoredDiscovery \<Rightarrow> string \<times> string option \<Rightarrow> Row" where
  "discoveryRow sequence scope stored fingerprint =
     insertedRow DISCOVERIES (''sequence'' # INSERT_DISCOVERY)
       [SqlInt sequence, SqlText (st_discoveryId stored), SqlText (sc_projectIdentity scope), SqlText (sc_worktreeIdentity scope),
        SqlText (fst fingerprint), textOrNull (snd fingerprint), SqlInt (sb_adapterVersion stored),
        jsonColumn (JArr (map unreadWorkspaceSourceJson (td_notRead (st_discovery stored)))),
        (case td_notCovered (st_discovery stored) of None \<Rightarrow> SqlNull
         | Some notCovered \<Rightarrow> jsonColumn (JArr (map notCoveredWorkspaceJson notCovered)))]"

definition workspaceRow :: "nat \<Rightarrow> nat \<Rightarrow> WorkspaceDiscovery \<Rightarrow> Row" where
  "workspaceRow sequence index entry =
     (let columns = workspaceColumns entry in
      insertedRow DISCOVERY_WORKSPACES INSERT_WORKSPACE
        [SqlInt sequence, SqlInt index, SqlText (entryStatus entry), SqlText (ws_path (entryWorkspace entry)),
         SqlText (ws_directory (entryWorkspace entry)), wl_vitestVersion columns, wl_unsupportedVitest columns, wl_error columns,
         wl_closeError columns, wl_failedModules columns, wl_typecheckModules columns, wl_unsupportedProjects columns,
         wl_unhandledErrors columns, wl_selectionFacts columns])"

definition discoveredTestRow :: "nat \<Rightarrow> nat \<Rightarrow> nat \<Rightarrow> DiscoveredTest \<Rightarrow> Row" where
  "discoveredTestRow sequence workspaceIndex testIndex test =
     insertedRow DISCOVERED_TESTS INSERT_DISCOVERED_TEST
       ([SqlInt sequence, SqlInt workspaceIndex, SqlInt testIndex] @ identifiedTestColumns test @ [SqlText (dt_mode test)])"

definition entryTests :: "WorkspaceDiscovery \<Rightarrow> DiscoveredTest list" where
  "entryTests entry = (case entry of WsDiscovered d \<Rightarrow> dw_tests d | _ \<Rightarrow> [])"

fun insertDiscoveredTests :: "nat \<Rightarrow> nat \<Rightarrow> nat \<Rightarrow> DiscoveredTest list \<Rightarrow> StoreTables \<Rightarrow> StoreError + StoreTables" where
  "insertDiscoveredTests sequence workspaceIndex testIndex [] db = Inr db"
| "insertDiscoveredTests sequence workspaceIndex testIndex (test # tests) db =
     bindE (statement (db\<lparr>tb_discoveredTests := tb_discoveredTests db @ [discoveredTestRow sequence workspaceIndex testIndex test]\<rparr>))
       (insertDiscoveredTests sequence workspaceIndex (Suc testIndex) tests)"

fun writeWorkspaces :: "nat \<Rightarrow> nat \<Rightarrow> WorkspaceDiscovery list \<Rightarrow> StoreTables \<Rightarrow> StoreError + StoreTables" where
  "writeWorkspaces sequence workspaceIndex [] db = Inr db"
| "writeWorkspaces sequence workspaceIndex (entry # entries) db =
     bindE (statement (db\<lparr>tb_discoveryWorkspaces := tb_discoveryWorkspaces db @ [workspaceRow sequence workspaceIndex entry]\<rparr>)) (\<lambda>db1.
       bindE (insertDiscoveredTests sequence workspaceIndex 0 (entryTests entry) db1)
         (writeWorkspaces sequence (Suc workspaceIndex) entries))"

definition worktreeDiscoveries :: "StoreScope \<Rightarrow> StoreTables \<Rightarrow> nat list" where
  "worktreeDiscoveries scope db = map runKey (filter (inScope scope) (tb_discoveries db))"

definition removeEarlierDiscoveries :: "StoreScope \<Rightarrow> StoreTables \<Rightarrow> StoreError + StoreTables" where
  "removeEarlierDiscoveries scope db =
     bindE (statement (db\<lparr>tb_discoveredTests :=
       filter (\<lambda>row. intOf row ''discovery_sequence'' \<notin> set (worktreeDiscoveries scope db)) (tb_discoveredTests db)\<rparr>)) (\<lambda>db1.
     bindE (statement (db1\<lparr>tb_discoveryWorkspaces :=
       filter (\<lambda>row. intOf row ''discovery_sequence'' \<notin> set (worktreeDiscoveries scope db1)) (tb_discoveryWorkspaces db1)\<rparr>)) (\<lambda>db2.
       statement (db2\<lparr>tb_discoveries := filter (\<lambda>row. runKey row \<notin> set (worktreeDiscoveries scope db2)) (tb_discoveries db2)\<rparr>)))"

section \<open>Reading\<close>

definition TEST_MODES :: "(string \<times> string) list" where
  "TEST_MODES = [(''run'', ''run''), (''only'', ''only''), (''skip'', ''skip''), (''todo'', ''todo'')]"

definition DISCOVERY_COLUMNS :: "string list" where
  "DISCOVERY_COLUMNS = [''sequence'', ''discovery_id'', ''project_identity'', ''worktree_identity'', ''fingerprint_kind'',
     ''fingerprint_digest'', ''adapter_version'', ''not_read'', ''not_covered'']"

definition SELECT_WORKSPACES :: "string list" where
  "SELECT_WORKSPACES = [''workspace_index'', ''status'', ''workspace_path'', ''workspace_directory'', ''vitest_version'',
     ''unsupported_vitest'', ''error'', ''close_error'', ''failed_modules'', ''typecheck_modules'', ''unsupported_projects'',
     ''unhandled_errors'', ''selection_facts'']"

definition SELECT_TESTS :: "string list" where
  "SELECT_TESTS = [''workspace_index'', ''workspace_path'', ''project_name'', ''module_path'', ''name_path'', ''occurrence'',
     ''is_duplicate'', ''mode'']"

definition discoveredTest :: "Row \<Rightarrow> StoreError + DiscoveredTest" where
  "discoveredTest row =
     bindE (identifiedTest row) (\<lambda>test.
     bindE (bindE (rowText row ''mode'') (\<lambda>s. memberOf TEST_MODES s ''discovered_tests.mode'')) (\<lambda>mode.
       Inr (IdentifiedTest.extend test \<lparr>dt_mode = mode\<rparr>)))"

text \<open>NULL is a report never made.\<close>

definition notCovered :: "Row \<Rightarrow> StoreError + NotCoveredWorkspace list option" where
  "notCovered row =
     bindE (column row ''not_covered'') (\<lambda>v.
       if v = SqlNull then Inr None
       else bindE (arrayOf row ''not_covered'' notCoveredWorkspace) (\<lambda>ws. Inr (Some ws)))"

definition selectionFacts :: "Row \<Rightarrow> StoreError + SelectionFacts" where
  "selectionFacts row =
     bindE (column row ''selection_facts'') (\<lambda>v.
       if v = SqlNull then Inr FactsNotReported
       else bindE (arrayOf row ''selection_facts'' projectSelectionFacts) (\<lambda>ps. Inr (FactsReported ps)))"

definition discoveredWorkspace :: "Row \<Rightarrow> Workspace \<Rightarrow> DiscoveredTest list \<Rightarrow> StoreError + WorkspaceDiscovery" where
  "discoveredWorkspace row workspace tests =
     bindE (rowText row ''vitest_version'') (\<lambda>version.
     bindE (arrayOf row ''failed_modules'' failedModule) (\<lambda>failed.
     bindE (arrayOf row ''typecheck_modules'' moduleReport) (\<lambda>typecheck.
     bindE (arrayOf row ''unsupported_projects'' unsupportedProject) (\<lambda>unsupported.
     bindE (rowStrings row ''unhandled_errors'') (\<lambda>unhandled.
     bindE (selectionFacts row) (\<lambda>facts.
     bindE (closeError row) (\<lambda>closed.
       Inr (WsDiscovered \<lparr>dw_workspace = workspace, dw_vitestVersion = version, dw_tests = tests, dw_failedModules = failed,
         dw_typecheckModules = typecheck, dw_unsupportedProjects = unsupported, dw_unhandledErrors = unhandled,
         dw_selectionFacts = facts, dw_closeError = closed\<rparr>))))))))"

definition refuseDiscoveredDetails :: "Row \<Rightarrow> string \<Rightarrow> Workspace \<Rightarrow> DiscoveredTest list \<Rightarrow> StoreError + unit" where
  "refuseDiscoveredDetails row status workspace tests =
     (if tests \<noteq> []
      then Inl (UnreadableRecordError (''The store holds tests under the '' @ status @ '' workspace '' @ ws_path workspace))
      else bindE (column row ''selection_facts'') (\<lambda>v.
        if v \<noteq> SqlNull
        then Inl (UnreadableRecordError (''The store holds selection facts under the '' @ status @ '' workspace '' @ ws_path workspace))
        else Inr ()))"

definition workspaceDiscovery :: "Row \<Rightarrow> DiscoveredTest list \<Rightarrow> StoreError + WorkspaceDiscovery" where
  "workspaceDiscovery row tests =
     bindE (rowText row ''status'') (\<lambda>status.
     bindE (rowText row ''workspace_path'') (\<lambda>path.
     bindE (rowText row ''workspace_directory'') (\<lambda>directory.
       let workspace = \<lparr>ws_path = path, ws_directory = directory\<rparr> in
       bindE (if status \<noteq> ''discovered'' then refuseDiscoveredDetails row status workspace tests else Inr ()) (\<lambda>_.
         if status = ''discovered'' then discoveredWorkspace row workspace tests
         else if status = ''unsupported'' then
           bindE (bindE (rowJson row ''unsupported_vitest'') unsupportedVitest) (\<lambda>vitest. Inr (WsUnsupported workspace vitest))
         else if status = ''failed'' then
           bindE (rowText row ''vitest_version'') (\<lambda>version.
           bindE (rowText row ''error'') (\<lambda>error.
           bindE (closeError row) (\<lambda>closed.
             Inr (WsFailed workspace \<lparr>fs_vitestVersion = version, fs_error = error, fs_closeError = closed\<rparr>))))
         else if status = ''not-confirmed'' then bindE (rowText row ''error'') (\<lambda>reason. Inr (WsNotConfirmed workspace reason))
         else Inl (unreadable ''discovery_workspaces.status'' (JStr status))))))"

fun workspacesFrom :: "Row list \<Rightarrow> (nat, Row list) jsmap \<Rightarrow> StoreError + WorkspaceDiscovery list \<times> (nat, Row list) jsmap" where
  "workspacesFrom [] tests = Inr ([], tests)"
| "workspacesFrom (row # rows) tests =
     bindE (rowInteger row ''workspace_index'') (\<lambda>index.
     bindE (mapE discoveredTest (case map_of tests index of Some held \<Rightarrow> held | None \<Rightarrow> [])) (\<lambda>workspaceTests.
     bindE (workspaceDiscovery row workspaceTests) (\<lambda>entry.
     bindE (workspacesFrom rows (jdel index tests)) (\<lambda>(entries, rest). Inr (entry # entries, rest)))))"

definition selectWorkspaceRows :: "nat \<Rightarrow> StoreTables \<Rightarrow> Row list" where
  "selectWorkspaceRows sequence db = map (selectColumns SELECT_WORKSPACES)
     (sort_key workspaceKey (filter (\<lambda>row. intOf row ''discovery_sequence'' = sequence) (tb_discoveryWorkspaces db)))"

definition selectTestRows :: "nat \<Rightarrow> StoreTables \<Rightarrow> Row list" where
  "selectTestRows sequence db = map (selectColumns SELECT_TESTS)
     (sort_key discoveredKey (filter (\<lambda>row. intOf row ''discovery_sequence'' = sequence) (tb_discoveredTests db)))"

definition readWorkspaces :: "Row list \<Rightarrow> Row list \<Rightarrow> StoreError + WorkspaceDiscovery list" where
  "readWorkspaces workspaceRows testRows =
     bindE (rowsBy testRows ''workspace_index'') (\<lambda>tests.
     bindE (workspacesFrom workspaceRows tests) (\<lambda>(workspaces, rest).
       if rest \<noteq> [] then Inl (unreadable ''discovered_tests.workspace_index'' (JArr (map JNum (keys rest)))) else Inr workspaces))"

definition storedDiscovery :: "StoreTables \<Rightarrow> Row \<Rightarrow> StoreError + StoreScope \<times> StoredDiscovery" where
  "storedDiscovery db row =
     bindE (rowText row ''project_identity'') (\<lambda>project.
     bindE (rowText row ''worktree_identity'') (\<lambda>worktree.
     bindE (bindE (column row ''fingerprint_kind'') (\<lambda>kind.
       bindE (column row ''fingerprint_digest'') (fingerprintFromColumns kind))) (\<lambda>fingerprint.
     bindE (rowInteger row ''adapter_version'') (\<lambda>version.
     bindE (rowText row ''discovery_id'') (\<lambda>discoveryId.
     bindE (rowInteger row ''sequence'') (\<lambda>sequence.
     bindE (readWorkspaces (selectWorkspaceRows sequence db) (selectTestRows sequence db)) (\<lambda>workspaces.
     bindE (arrayOf row ''not_read'' unreadWorkspaceSource) (\<lambda>notRead.
     bindE (notCovered row) (\<lambda>uncovered.
       Inr (\<lparr>sc_projectIdentity = project, sc_worktreeIdentity = worktree\<rparr>,
         \<lparr>sb_adapterVersion = version, sb_inputFingerprint = fingerprint, st_discoveryId = discoveryId,
           st_discovery = \<lparr>td_workspaces = workspaces, td_notRead = notRead, td_notCovered = uncovered\<rparr>\<rparr>))))))))))"

text \<open>The rows of the scope, the one stored last first, and the one with an id.\<close>

definition selectLatestDiscovery :: "StoreScope \<Rightarrow> StoreTables \<Rightarrow> StoreError + (StoreScope \<times> StoredDiscovery) option" where
  "selectLatestDiscovery scope db =
     (case List.rev (sort_key runKey (filter (inScope scope) (tb_discoveries db))) of
        [] \<Rightarrow> Inr None
      | row # _ \<Rightarrow> bindE (storedDiscovery db (selectColumns DISCOVERY_COLUMNS row)) (\<lambda>stored. Inr (Some stored)))"

definition selectDiscovery :: "StoreScope \<Rightarrow> string \<Rightarrow> StoreTables \<Rightarrow> StoreError + (StoreScope \<times> StoredDiscovery) option" where
  "selectDiscovery scope discoveryId db =
     (case filter (\<lambda>row. inScope scope row \<and> textOf row ''discovery_id'' = discoveryId) (tb_discoveries db) of
        [] \<Rightarrow> Inr None
      | row # _ \<Rightarrow> bindE (storedDiscovery db (selectColumns DISCOVERY_COLUMNS row)) (\<lambda>stored. Inr (Some stored)))"

definition readLatestDiscovery :: "StoreScope \<Rightarrow> StoreTables \<Rightarrow> StoreError + (StoreScope \<times> StoredDiscovery) option" where
  "readLatestDiscovery scope db = bindE (requireScope scope) (\<lambda>_. inRecordRead db (selectLatestDiscovery scope))"

section \<open>The write\<close>

definition readDiscoveryBack :: "string \<Rightarrow> (StoreScope \<times> StoredDiscovery) option \<Rightarrow> StoreError + StoreScope \<times> StoredDiscovery" where
  "readDiscoveryBack discoveryId stored = (case stored of
     None \<Rightarrow> Inl (StoreFailure (''The store could not read back discovery '' @ discoveryId @ '' it just wrote''))
   | Some discovery \<Rightarrow> Inr discovery)"

definition insertDiscovery :: "StoreScope \<Rightarrow> StoredDiscovery \<Rightarrow> string \<times> string option \<Rightarrow> StoreTables \<Rightarrow> StoreError + StoreTables" where
  "insertDiscovery scope stored fingerprint db =
     (let sequence = nextSequence (tb_discoveries db) in
      bindE (statement (db\<lparr>tb_discoveries := tb_discoveries db @ [discoveryRow sequence scope stored fingerprint]\<rparr>))
        (writeWorkspaces sequence 0 (td_workspaces (st_discovery stored))))"

definition writeDiscovery :: "StoreBindings \<Rightarrow> string \<Rightarrow> TestDiscovery \<Rightarrow> StoreTables \<Rightarrow>
    (StoreError + StoreScope \<times> StoredDiscovery) \<times> StoreTables" where
  "writeDiscovery bindings discoveryId discovery db =
     (let scope = StoreScope.truncate bindings;
          stored = \<lparr>sb_adapterVersion = VITEST_ADAPTER_VERSION, sb_inputFingerprint = sc_inputFingerprint bindings,
            st_discoveryId = discoveryId, st_discovery = discovery\<rparr>
      in case bindE (requireBindings bindings) (\<lambda>_. fingerprintColumns (sc_inputFingerprint bindings)) of
           Inl e \<Rightarrow> (Inl e, db)
         | Inr fingerprint \<Rightarrow> inRecordWrite db (\<lambda>db0.
             bindE (removeEarlierDiscoveries scope db0) (\<lambda>db1.
             bindE (insertDiscovery scope stored fingerprint db1) (\<lambda>db2.
             bindE (bindE (selectDiscovery scope discoveryId db2) (readDiscoveryBack discoveryId)) (\<lambda>back. Inr (back, db2))))))"

end
