(* ===== verification/StoreDiscovery.thy ===== *)
theory StoreDiscovery
  imports StoreWrite StoredDiscoveries
begin

text \<open>
  What the store keeps of a discovery: a discovery the reader can rebuild, which is every one a discovery
  makes, reads back as it was written and takes the place of the earlier ones of its project and worktree.
\<close>

section \<open>Rows\<close>

lemma discovery_rows_zip:
  "discoveryRow n scope stored fp = zip (''sequence'' # INSERT_DISCOVERY)
     [SqlInt n, SqlText (st_discoveryId stored), SqlText (sc_projectIdentity scope), SqlText (sc_worktreeIdentity scope),
      SqlText (fst fp), textOrNull (snd fp), SqlInt (sb_adapterVersion stored),
      jsonColumn (JArr (map unreadWorkspaceSourceJson (td_notRead (st_discovery stored)))),
      (case td_notCovered (st_discovery stored) of None \<Rightarrow> SqlNull | Some ws \<Rightarrow> jsonColumn (JArr (map notCoveredWorkspaceJson ws)))]"
  "workspaceRow n i entry = zip INSERT_WORKSPACE (let columns = workspaceColumns entry in
     [SqlInt n, SqlInt i, SqlText (entryStatus entry), SqlText (ws_path (entryWorkspace entry)),
      SqlText (ws_directory (entryWorkspace entry)), wl_vitestVersion columns, wl_unsupportedVitest columns, wl_error columns,
      wl_closeError columns, wl_failedModules columns, wl_typecheckModules columns, wl_unsupportedProjects columns,
      wl_unhandledErrors columns, wl_selectionFacts columns])"
  "discoveredTestRow n i j t = zip INSERT_DISCOVERED_TEST ([SqlInt n, SqlInt i, SqlInt j] @ identifiedTestColumns t @ [SqlText (dt_mode t)])"
proof -
  have names: "''sequence'' # INSERT_DISCOVERY = map fst DISCOVERIES" "INSERT_WORKSPACE = map fst DISCOVERY_WORKSPACES"
    "INSERT_DISCOVERED_TEST = map fst DISCOVERED_TESTS"
    by (simp_all add: INSERT_DISCOVERY_def DISCOVERIES_def INSERT_WORKSPACE_def DISCOVERY_WORKSPACES_def
        INSERT_DISCOVERED_TEST_def DISCOVERED_TESTS_def)
  have d: "distinct (''sequence'' # INSERT_DISCOVERY)" "distinct INSERT_WORKSPACE" "distinct INSERT_DISCOVERED_TEST" by code_simp+
  have l: "length DISCOVERIES = 9" "length DISCOVERY_WORKSPACES = 14" "length DISCOVERED_TESTS = 10"
    by (simp_all add: DISCOVERIES_def DISCOVERY_WORKSPACES_def DISCOVERED_TESTS_def)
  show "discoveryRow n scope stored fp = zip (''sequence'' # INSERT_DISCOVERY)
     [SqlInt n, SqlText (st_discoveryId stored), SqlText (sc_projectIdentity scope), SqlText (sc_worktreeIdentity scope),
      SqlText (fst fp), textOrNull (snd fp), SqlInt (sb_adapterVersion stored),
      jsonColumn (JArr (map unreadWorkspaceSourceJson (td_notRead (st_discovery stored)))),
      (case td_notCovered (st_discovery stored) of None \<Rightarrow> SqlNull | Some ws \<Rightarrow> jsonColumn (JArr (map notCoveredWorkspaceJson ws)))]"
    unfolding discoveryRow_def by (rule insertedRow_zip [OF names(1) d(1)]) (simp add: l)
  show "workspaceRow n i entry = zip INSERT_WORKSPACE (let columns = workspaceColumns entry in
     [SqlInt n, SqlInt i, SqlText (entryStatus entry), SqlText (ws_path (entryWorkspace entry)),
      SqlText (ws_directory (entryWorkspace entry)), wl_vitestVersion columns, wl_unsupportedVitest columns, wl_error columns,
      wl_closeError columns, wl_failedModules columns, wl_typecheckModules columns, wl_unsupportedProjects columns,
      wl_unhandledErrors columns, wl_selectionFacts columns])"
    unfolding workspaceRow_def Let_def by (rule insertedRow_zip [OF names(2) d(2)]) (simp add: l)
  show "discoveredTestRow n i j t = zip INSERT_DISCOVERED_TEST ([SqlInt n, SqlInt i, SqlInt j] @ identifiedTestColumns t @ [SqlText (dt_mode t)])"
    unfolding discoveredTestRow_def by (rule insertedRow_zip [OF names(3) d(3)]) (simp add: l identifiedTestColumns_def Let_def)
qed

lemma discoveryRow_at:
  fixes stored :: StoredDiscovery and scope :: StoreScope and fp :: "string \<times> string option" and n :: nat
  defines "row \<equiv> discoveryRow n scope stored fp"
  shows "map_of row ''sequence'' = Some (SqlInt n)" "map_of row ''discovery_id'' = Some (SqlText (st_discoveryId stored))"
    "map_of row ''project_identity'' = Some (SqlText (sc_projectIdentity scope))"
    "map_of row ''worktree_identity'' = Some (SqlText (sc_worktreeIdentity scope))"
    "map_of row ''fingerprint_kind'' = Some (SqlText (fst fp))"
    "map_of row ''fingerprint_digest'' = Some (textOrNull (snd fp))"
    "map_of row ''adapter_version'' = Some (SqlInt (sb_adapterVersion stored))"
    "map_of row ''not_read'' = Some (jsonColumn (JArr (map unreadWorkspaceSourceJson (td_notRead (st_discovery stored)))))"
    "map_of row ''not_covered'' = Some (case td_notCovered (st_discovery stored) of None \<Rightarrow> SqlNull
       | Some ws \<Rightarrow> jsonColumn (JArr (map notCoveredWorkspaceJson ws)))"
  unfolding row_def discovery_rows_zip by (simp_all add: INSERT_DISCOVERY_def)

lemma workspaceRow_at:
  fixes entry :: WorkspaceDiscovery and n i :: nat
  defines "row \<equiv> workspaceRow n i entry"
  defines "columns \<equiv> workspaceColumns entry"
  shows "map_of row ''discovery_sequence'' = Some (SqlInt n)" "map_of row ''workspace_index'' = Some (SqlInt i)"
    "map_of row ''status'' = Some (SqlText (entryStatus entry))"
    "map_of row ''workspace_path'' = Some (SqlText (ws_path (entryWorkspace entry)))"
    "map_of row ''workspace_directory'' = Some (SqlText (ws_directory (entryWorkspace entry)))"
    "map_of row ''vitest_version'' = Some (wl_vitestVersion columns)"
    "map_of row ''unsupported_vitest'' = Some (wl_unsupportedVitest columns)"
    "map_of row ''error'' = Some (wl_error columns)" "map_of row ''close_error'' = Some (wl_closeError columns)"
    "map_of row ''failed_modules'' = Some (wl_failedModules columns)"
    "map_of row ''typecheck_modules'' = Some (wl_typecheckModules columns)"
    "map_of row ''unsupported_projects'' = Some (wl_unsupportedProjects columns)"
    "map_of row ''unhandled_errors'' = Some (wl_unhandledErrors columns)"
    "map_of row ''selection_facts'' = Some (wl_selectionFacts columns)"
  unfolding row_def columns_def discovery_rows_zip by (simp_all add: INSERT_WORKSPACE_def Let_def)

lemma discoveredTestRow_at:
  fixes t :: DiscoveredTest and n i j :: nat
  defines "row \<equiv> discoveredTestRow n i j t"
  shows "map_of row ''discovery_sequence'' = Some (SqlInt n)" "map_of row ''workspace_index'' = Some (SqlInt i)"
    "map_of row ''test_index'' = Some (SqlInt j)"
    "map_of row ''workspace_path'' = Some (SqlText (workspacePath (it_identity t)))"
    "map_of row ''project_name'' = Some (SqlText (projectName (it_identity t)))"
    "map_of row ''module_path'' = Some (SqlText (modulePath (it_identity t)))"
    "map_of row ''name_path'' = Some (jsonColumn (textsJson (namePath (it_identity t))))"
    "map_of row ''occurrence'' = Some (SqlInt (occurrence (it_identity t)))"
    "map_of row ''is_duplicate'' = Some (SqlInt (if it_isDuplicate t then DUPLICATE_MARK else NOT_DUPLICATE_MARK))"
    "map_of row ''mode'' = Some (SqlText (dt_mode t))"
  unfolding row_def discovery_rows_zip by (simp_all add: INSERT_DISCOVERED_TEST_def identifiedTestColumns_def Let_def)

lemma discovery_row_keys [simp]:
  "runKey (discoveryRow n scope stored fp) = n" "workspaceKey (workspaceRow n i entry) = (n, i)"
  "workspaceKey (discoveredTestRow n i j t) = (n, i)" "discoveredKey (discoveredTestRow n i j t) = ((n, i), j)"
  "intOf (discoveredTestRow n i j t) ''test_index'' = j" "intOf (workspaceRow n i entry) ''workspace_index'' = i"
  "textOf (discoveryRow n scope stored fp) ''discovery_id'' = st_discoveryId stored"
  "inScope sc (discoveryRow n scope stored fp) = (sc_projectIdentity scope = sc_projectIdentity sc \<and> sc_worktreeIdentity scope = sc_worktreeIdentity sc)"
  by (simp_all add: runKey_def workspaceKey_def discoveredKey_def intOf_def textOf_def inScope_def discoveryRow_at
      workspaceRow_at discoveredTestRow_at)

lemma workspaceColumns_fit:
  "fits TypeTextNull (wl_vitestVersion (workspaceColumns e))" "fits TypeTextNull (wl_unsupportedVitest (workspaceColumns e))"
  "fits TypeTextNull (wl_error (workspaceColumns e))" "fits TypeTextNull (wl_closeError (workspaceColumns e))"
  "fits TypeTextNull (wl_failedModules (workspaceColumns e))" "fits TypeTextNull (wl_typecheckModules (workspaceColumns e))"
  "fits TypeTextNull (wl_unsupportedProjects (workspaceColumns e))" "fits TypeTextNull (wl_unhandledErrors (workspaceColumns e))"
  "fits TypeTextNull (wl_selectionFacts (workspaceColumns e))"
  by (cases e; simp add: workspaceColumns_def NO_WORKSPACE_COLUMNS_def split: SelectionFacts.split)+

lemma workspaceRow_fits: "rowFits DISCOVERY_WORKSPACES (workspaceRow n i e)"
  unfolding discovery_rows_zip
  by (simp add: rowFits_def DISCOVERY_WORKSPACES_def INSERT_WORKSPACE_def Let_def workspaceColumns_fit)

lemma discoveredTestRow_fits: "rowFits DISCOVERED_TESTS (discoveredTestRow n i j t) \<and> markedRow (discoveredTestRow n i j t)"
proof
  show "rowFits DISCOVERED_TESTS (discoveredTestRow n i j t)"
    unfolding discovery_rows_zip
    by (simp add: rowFits_def DISCOVERED_TESTS_def INSERT_DISCOVERED_TEST_def identifiedTestColumns_def Let_def)
  show "markedRow (discoveredTestRow n i j t)"
    by (simp add: markedRow_def intOf_def discoveredTestRow_at DUPLICATE_MARK_def NOT_DUPLICATE_MARK_def)
qed

lemma discoveryRow_fits: "rowFits DISCOVERIES (discoveryRow n scope stored fp)"
  unfolding discovery_rows_zip by (simp add: rowFits_def DISCOVERIES_def INSERT_DISCOVERY_def split: option.split)

lemma bound_discovery:
  assumes "boundRow (runRow n scope run fp)"
  shows "boundRow (discoveryRow n scope stored fp)"
  using assms by (auto simp: boundRow_def nonEmptyText_def textOf_def runRow_at discoveryRow_at)

section \<open>Reading back\<close>

text \<open>
  What a discovery reports: a declared mode Vitest has, and flags on a RegExp find alone. The reader refuses
  a record without them.
\<close>

definition readableEntry :: "WorkspaceDiscovery \<Rightarrow> bool" where
  "readableEntry entry = (case entry of
     WsDiscovered d \<Rightarrow> list_all (\<lambda>t. dt_mode t \<in> set (keys TEST_MODES)) (dw_tests d) \<and>
       (case dw_selectionFacts d of FactsReported ps \<Rightarrow> list_all factsOk ps | FactsNotReported \<Rightarrow> True)
   | _ \<Rightarrow> True)"

primrec discoveredRowsFrom :: "nat \<Rightarrow> nat \<Rightarrow> nat \<Rightarrow> DiscoveredTest list \<Rightarrow> Row list" where
  "discoveredRowsFrom n i j [] = []"
| "discoveredRowsFrom n i j (t # ts) = discoveredTestRow n i j t # discoveredRowsFrom n i (Suc j) ts"

primrec workspaceRowsFrom :: "nat \<Rightarrow> nat \<Rightarrow> WorkspaceDiscovery list \<Rightarrow> Row list" where
  "workspaceRowsFrom n i [] = []"
| "workspaceRowsFrom n i (e # es) = workspaceRow n i e # workspaceRowsFrom n (Suc i) es"

primrec allDiscoveredRows :: "nat \<Rightarrow> nat \<Rightarrow> WorkspaceDiscovery list \<Rightarrow> Row list" where
  "allDiscoveredRows n i [] = []"
| "allDiscoveredRows n i (e # es) = discoveredRowsFrom n i 0 (entryTests e) @ allDiscoveredRows n (Suc i) es"

primrec discoveredGroups :: "nat \<Rightarrow> nat \<Rightarrow> WorkspaceDiscovery list \<Rightarrow> (nat, Row list) jsmap" where
  "discoveredGroups n i [] = []"
| "discoveredGroups n i (e # es) =
     (if entryTests e = [] then [] else [(i, map (selectColumns SELECT_TESTS) (discoveredRowsFrom n i 0 (entryTests e)))]) @
     discoveredGroups n (Suc i) es"

lemma discoveredTest_reads:
  assumes "dt_mode t \<in> set (keys TEST_MODES)"
  shows "discoveredTest (selectColumns SELECT_TESTS (discoveredTestRow n i j t)) = Inr t"
proof -
  define row where "row = selectColumns SELECT_TESTS (discoveredTestRow n i j t)"
  have at: "map_of row c = map_of (discoveredTestRow n i j t) c" if "c \<in> set SELECT_TESTS" for c
    using that by (simp add: row_def map_of_selectColumns)
  have "identifiedTest row = Inr (IdentifiedTest.truncate t)"
    by (rule identifiedTest_reads) (simp_all add: at SELECT_TESTS_def discoveredTestRow_at)
  moreover have "rowText row ''mode'' = Inr (dt_mode t)"
    by (intro json_reads) (simp add: at SELECT_TESTS_def discoveredTestRow_at)
  moreover have "memberOf TEST_MODES (dt_mode t) ''discovered_tests.mode'' = Inr (dt_mode t)"
    using assms by (auto simp: memberOf_def TEST_MODES_def keys_def)
  ultimately show ?thesis
    by (simp add: discoveredTest_def row_def [symmetric] IdentifiedTest.truncate_def IdentifiedTest.extend_def)
qed

lemma discovered_index_reads:
  "rowInteger (selectColumns SELECT_TESTS (discoveredTestRow n i j t)) ''workspace_index'' = Inr i"
  "rowInteger (selectColumns SELECT_WORKSPACES (workspaceRow n i e)) ''workspace_index'' = Inr i"
  by (rule rowInteger_reads, simp add: map_of_selectColumns SELECT_TESTS_def SELECT_WORKSPACES_def discoveredTestRow_at workspaceRow_at)+

lemma discoveredWorkspace_reads:
  assumes "readableEntry (WsDiscovered d)"
  shows "discoveredWorkspace (selectColumns SELECT_WORKSPACES (workspaceRow n i (WsDiscovered d))) (dw_workspace d) (dw_tests d) =
    Inr (WsDiscovered d)"
proof -
  define row where "row = selectColumns SELECT_WORKSPACES (workspaceRow n i (WsDiscovered d))"
  have at: "map_of row c = map_of (workspaceRow n i (WsDiscovered d)) c" if "c \<in> set SELECT_WORKSPACES" for c
    using that by (simp add: row_def map_of_selectColumns)
  note h = at workspaceRow_at SELECT_WORKSPACES_def workspaceColumns_def NO_WORKSPACE_COLUMNS_def
  have "arrayOf row ''failed_modules'' failedModule = Inr (dw_failedModules d)"
    by (rule arrayOf_reads [where enc = failedModuleJson]) (simp_all add: h json_wfs json_reads)
  moreover have "arrayOf row ''typecheck_modules'' moduleReport = Inr (dw_typecheckModules d)"
    by (rule arrayOf_reads [where enc = moduleReportJson]) (simp_all add: h json_wfs json_reads)
  moreover have "arrayOf row ''unsupported_projects'' unsupportedProject = Inr (dw_unsupportedProjects d)"
    by (rule arrayOf_reads [where enc = unsupportedProjectJson]) (simp_all add: h json_wfs json_reads)
  moreover have "rowStrings row ''unhandled_errors'' = Inr (dw_unhandledErrors d)"
    by (rule stringArray_reads) (simp add: h)
  moreover have "rowText row ''vitest_version'' = Inr (dw_vitestVersion d)" "closeError row = Inr (dw_closeError d)"
    by (simp_all add: h json_reads closeError_def)
  moreover have "selectionFacts row = Inr (dw_selectionFacts d)"
  proof (cases "dw_selectionFacts d")
    case (FactsReported ps)
    then have "projectSelectionFacts (projectSelectionFactsJson p) = Inr p" if "p \<in> set ps" for p
      using assms that by (auto simp: readableEntry_def list_all_iff intro: projectSelectionFacts_reads)
    then have "arrayOf row ''selection_facts'' projectSelectionFacts = Inr ps"
      by (intro arrayOf_reads [where enc = projectSelectionFactsJson]) (simp_all add: h json_wfs FactsReported)
    then show ?thesis by (simp add: selectionFacts_def column_def h FactsReported jsonColumn_def)
  next
    case FactsNotReported
    then show ?thesis by (simp add: selectionFacts_def column_def h)
  qed
  ultimately show ?thesis by (simp add: discoveredWorkspace_def row_def [symmetric])
qed

lemma workspaceDiscovery_reads:
  assumes "readableEntry e"
  shows "workspaceDiscovery (selectColumns SELECT_WORKSPACES (workspaceRow n i e)) (entryTests e) = Inr e"
proof -
  define row where "row = selectColumns SELECT_WORKSPACES (workspaceRow n i e)"
  have at: "map_of row c = map_of (workspaceRow n i e) c" if "c \<in> set SELECT_WORKSPACES" for c
    using that by (simp add: row_def map_of_selectColumns)
  have texts: "rowText row ''status'' = Inr (entryStatus e)" "rowText row ''workspace_path'' = Inr (ws_path (entryWorkspace e))"
    "rowText row ''workspace_directory'' = Inr (ws_directory (entryWorkspace e))"
    by (simp_all add: json_reads at workspaceRow_at SELECT_WORKSPACES_def)
  note h = at workspaceRow_at SELECT_WORKSPACES_def workspaceColumns_def NO_WORKSPACE_COLUMNS_def
  have none: "column row ''selection_facts'' = Inr SqlNull" if "\<forall>d. e \<noteq> WsDiscovered d"
    using that by (cases e) (simp_all add: column_def h)
  have "workspaceDiscovery row (entryTests e) = Inr e"
  proof (cases e)
    case (WsDiscovered d)
    have eta: "\<lparr>ws_path = ws_path w, ws_directory = ws_directory w\<rparr> = w" for w :: Workspace by simp
    from WsDiscovered show ?thesis
      using texts discoveredWorkspace_reads [of d n i] assms
      by (simp add: workspaceDiscovery_def entryStatus_def entryTests_def row_def WsDiscovered Let_def eta)
  next
    case (WsUnsupported w v)
    then have "rowJson row ''unsupported_vitest'' = Inr (unsupportedVitestJson v)"
      by (intro rowJson_reads) (simp_all add: h json_wfs)
    with WsUnsupported texts none show ?thesis
      by (simp add: workspaceDiscovery_def entryStatus_def entryTests_def refuseDiscoveredDetails_def Let_def json_reads)
  next
    case (WsFailed w f)
    then have "rowText row ''vitest_version'' = Inr (fs_vitestVersion f)" "rowText row ''error'' = Inr (fs_error f)"
      "closeError row = Inr (fs_closeError f)"
      by (simp_all add: h json_reads closeError_def)
    with WsFailed texts none show ?thesis
      by (simp add: workspaceDiscovery_def entryStatus_def entryTests_def refuseDiscoveredDetails_def Let_def)
  next
    case (WsNotConfirmed w reason)
    then have "rowText row ''error'' = Inr reason" by (simp add: h json_reads)
    with WsNotConfirmed texts none show ?thesis
      by (simp add: workspaceDiscovery_def entryStatus_def entryTests_def refuseDiscoveredDetails_def Let_def)
  qed
  then show ?thesis by (simp add: row_def)
qed

lemma discoveredRows_index:
  "list_all (\<lambda>row. rowInteger row ''workspace_index'' = Inr i) (map (selectColumns SELECT_TESTS) (discoveredRowsFrom n i j ts))"
  by (induction ts arbitrary: j) (simp_all add: discovered_index_reads)

lemma discovered_rowsFrom_all:
  "(\<forall>k \<in> set (keys groups). k < i) \<Longrightarrow>
   rowsFrom ''workspace_index'' (map (selectColumns SELECT_TESTS) (allDiscoveredRows n i es)) groups =
     Inr (groups @ discoveredGroups n i es)"
proof (induction es arbitrary: i groups)
  case (Cons e es)
  have new: "i \<notin> set (keys groups)" using Cons.prems by auto
  define group where "group = (if entryTests e = [] then [] else [(i, map (selectColumns SELECT_TESTS) (discoveredRowsFrom n i 0 (entryTests e)))])"
  have "(map (selectColumns SELECT_TESTS) (discoveredRowsFrom n i 0 (entryTests e)) = []) = (entryTests e = [])"
    by (cases "entryTests e") simp_all
  then have "rowsFrom ''workspace_index'' (map (selectColumns SELECT_TESTS) (allDiscoveredRows n i (e # es))) groups =
      rowsFrom ''workspace_index'' (map (selectColumns SELECT_TESTS) (allDiscoveredRows n (Suc i) es)) (groups @ group)"
    using rowsFrom_new [OF new discoveredRows_index, of n 0 "entryTests e"] by (simp add: group_def)
  also have "\<dots> = Inr ((groups @ group) @ discoveredGroups n (Suc i) es)"
    using Cons.prems by (intro Cons.IH) (auto simp: group_def keys_def)
  finally show ?case by (simp add: group_def)
qed simp

lemma discoveredGroups_keys: "k \<in> set (keys (discoveredGroups n i es)) \<Longrightarrow> i \<le> k"
  by (induction es arbitrary: i) (auto simp: keys_def split: if_splits dest!: Suc_leD)

lemma discoveredTests_read:
  "list_all (\<lambda>t. dt_mode t \<in> set (keys TEST_MODES)) ts \<Longrightarrow>
   mapE discoveredTest (map (selectColumns SELECT_TESTS) (discoveredRowsFrom n i j ts)) = Inr ts"
  by (induction ts arbitrary: j) (simp_all add: discoveredTest_reads)

lemma readable_tests: "readableEntry e \<Longrightarrow> list_all (\<lambda>t. dt_mode t \<in> set (keys TEST_MODES)) (entryTests e)"
  by (cases e) (simp_all add: readableEntry_def entryTests_def)

lemma workspacesFrom_read:
  "list_all readableEntry es \<Longrightarrow>
   workspacesFrom (map (selectColumns SELECT_WORKSPACES) (workspaceRowsFrom n i es)) (discoveredGroups n i es) = Inr (es, [])"
proof (induction es arbitrary: i)
  case (Cons e es)
  have later: "i \<notin> set (keys (discoveredGroups n (Suc i) es))" using discoveredGroups_keys [of i n "Suc i" es] by auto
  then have none: "map_of (discoveredGroups n (Suc i) es) i = None" by (simp add: in_keys_iff)
  have "jdel i (discoveredGroups n (Suc i) es) = discoveredGroups n (Suc i) es"
    using later by (auto simp: jdel_def keys_def filter_id_conv)
  then have g: "jdel i (discoveredGroups n i (e # es)) = discoveredGroups n (Suc i) es" by (simp add: jdel_def)
  have t: "mapE discoveredTest (case map_of (discoveredGroups n i (e # es)) i of Some held \<Rightarrow> held | None \<Rightarrow> []) = Inr (entryTests e)"
    using none Cons.prems by (simp add: discoveredTests_read readable_tests)
  show ?case
    using Cons.IH [of "Suc i"] Cons.prems
    by (simp add: discovered_index_reads t g workspaceDiscovery_reads del: discoveredGroups.simps(2))
qed simp

lemma readWorkspaces_reads:
  "list_all readableEntry es \<Longrightarrow>
   readWorkspaces (map (selectColumns SELECT_WORKSPACES) (workspaceRowsFrom n 0 es))
     (map (selectColumns SELECT_TESTS) (allDiscoveredRows n 0 es)) = Inr es"
  using discovered_rowsFrom_all [of "[]" 0 n es] by (simp add: readWorkspaces_def rowsBy_def keys_def workspacesFrom_read)

section \<open>The rows the reader selects\<close>

definition withDiscovery :: "nat \<Rightarrow> StoreScope \<Rightarrow> StoredDiscovery \<Rightarrow> string \<times> string option \<Rightarrow> StoreTables \<Rightarrow> StoreTables" where
  "withDiscovery n scope stored fp db = db\<lparr>tb_discoveries := tb_discoveries db @ [discoveryRow n scope stored fp],
     tb_discoveryWorkspaces := tb_discoveryWorkspaces db @ workspaceRowsFrom n 0 (td_workspaces (st_discovery stored)),
     tb_discoveredTests := tb_discoveredTests db @ allDiscoveredRows n 0 (td_workspaces (st_discovery stored))\<rparr>"

lemma workspaceRows_keys: "row \<in> set (workspaceRowsFrom n i es) \<Longrightarrow> \<exists>k \<ge> i. workspaceKey row = (n, k)"
  by (induction es arbitrary: i) (auto dest: Suc_leD)

lemma discoveredRows_keys: "row \<in> set (discoveredRowsFrom n i j ts) \<Longrightarrow> \<exists>k \<ge> j. discoveredKey row = ((n, i), k)"
  by (induction ts arbitrary: j) (auto dest: Suc_leD)

lemma allDiscoveredRows_keys: "row \<in> set (allDiscoveredRows n i es) \<Longrightarrow> \<exists>k \<ge> i. \<exists>l. discoveredKey row = ((n, k), l)"
  by (induction es arbitrary: i) (auto dest!: discoveredRows_keys, meson Suc_leD)

lemma sorted_workspace_rows: "sorted (map workspaceKey (workspaceRowsFrom n i es))"
  by (induction es arbitrary: i) (auto dest!: workspaceRows_keys)

lemma sorted_discovered_rows: "sorted (map discoveredKey (discoveredRowsFrom n i j ts))"
  by (induction ts arbitrary: j) (auto dest!: discoveredRows_keys)

lemma sorted_all_discovered: "sorted (map discoveredKey (allDiscoveredRows n i es))"
  by (induction es arbitrary: i) (auto simp: sorted_append sorted_discovered_rows dest!: discoveredRows_keys allDiscoveredRows_keys)

lemma new_rows_of_discovery:
  "row \<in> set (workspaceRowsFrom n i es) \<Longrightarrow> intOf row ''discovery_sequence'' = n"
  "row \<in> set (allDiscoveredRows n i es) \<Longrightarrow> intOf row ''discovery_sequence'' = n"
  using workspaceRows_keys [of row n i es] allDiscoveredRows_keys [of row n i es] by (auto simp: workspaceKey_def discoveredKey_def)

lemma storedDiscovery_new:
  assumes "fingerprintColumns (sb_inputFingerprint stored) = Inr fp"
    and "list_all readableEntry (td_workspaces (st_discovery stored))"
    and "\<forall>row \<in> set (tb_discoveryWorkspaces db). intOf row ''discovery_sequence'' \<noteq> n"
    and "\<forall>row \<in> set (tb_discoveredTests db). intOf row ''discovery_sequence'' \<noteq> n"
  shows "storedDiscovery (withDiscovery n scope stored fp db) (selectColumns DISCOVERY_COLUMNS (discoveryRow n scope stored fp)) =
    Inr (scope, stored)"
proof -
  let ?es = "td_workspaces (st_discovery stored)"
  have "filter (\<lambda>row. intOf row ''discovery_sequence'' = n) (workspaceRowsFrom n 0 ?es) = workspaceRowsFrom n 0 ?es"
    "filter (\<lambda>row. intOf row ''discovery_sequence'' = n) (allDiscoveredRows n 0 ?es) = allDiscoveredRows n 0 ?es"
    by (auto simp: filter_id_conv new_rows_of_discovery)
  moreover have "filter (\<lambda>row. intOf row ''discovery_sequence'' = n) (tb_discoveryWorkspaces db) = []"
    "filter (\<lambda>row. intOf row ''discovery_sequence'' = n) (tb_discoveredTests db) = []"
    using assms(3,4) by (auto simp: filter_empty_conv)
  ultimately have "selectWorkspaceRows n (withDiscovery n scope stored fp db) = map (selectColumns SELECT_WORKSPACES) (workspaceRowsFrom n 0 ?es)"
    "selectTestRows n (withDiscovery n scope stored fp db) = map (selectColumns SELECT_TESTS) (allDiscoveredRows n 0 ?es)"
    by (simp_all add: selectWorkspaceRows_def selectTestRows_def withDiscovery_def sort_key_id_if_sorted sorted_workspace_rows
        sorted_all_discovered)
  with readWorkspaces_reads [OF assms(2)]
  have read: "readWorkspaces (selectWorkspaceRows n (withDiscovery n scope stored fp db)) (selectTestRows n (withDiscovery n scope stored fp db)) =
      Inr ?es" by simp
  define row where "row = selectColumns DISCOVERY_COLUMNS (discoveryRow n scope stored fp)"
  have at: "map_of row c = map_of (discoveryRow n scope stored fp) c" if "c \<in> set DISCOVERY_COLUMNS" for c
    using that by (simp add: row_def map_of_selectColumns)
  note h = at discoveryRow_at DISCOVERY_COLUMNS_def
  have "arrayOf row ''not_read'' unreadWorkspaceSource = Inr (td_notRead (st_discovery stored))"
    by (rule arrayOf_reads [where enc = unreadWorkspaceSourceJson]) (simp_all add: h json_wfs json_reads)
  moreover have "notCovered row = Inr (td_notCovered (st_discovery stored))"
  proof (cases "td_notCovered (st_discovery stored)")
    case (Some ws)
    then have "arrayOf row ''not_covered'' notCoveredWorkspace = Inr ws"
      by (intro arrayOf_reads [where enc = notCoveredWorkspaceJson]) (simp_all add: h json_wfs json_reads)
    then show ?thesis by (simp add: notCovered_def column_def h Some jsonColumn_def)
  qed (simp add: notCovered_def column_def h)
  moreover have "rowText row ''project_identity'' = Inr (sc_projectIdentity scope)" "rowInteger row ''sequence'' = Inr n"
    "rowText row ''worktree_identity'' = Inr (sc_worktreeIdentity scope)" "rowText row ''discovery_id'' = Inr (st_discoveryId stored)"
    "rowInteger row ''adapter_version'' = Inr (sb_adapterVersion stored)"
    "column row ''fingerprint_kind'' = Inr (SqlText (fst fp))" "column row ''fingerprint_digest'' = Inr (textOrNull (snd fp))"
    by (simp_all add: json_reads column_def h)
  ultimately show ?thesis
    using fingerprint_reads [OF assms(1)] read by (simp add: storedDiscovery_def row_def [symmetric])
qed

section \<open>The write\<close>

definition withoutDiscoveries :: "nat set \<Rightarrow> StoreTables \<Rightarrow> StoreTables" where
  "withoutDiscoveries S db = db\<lparr>tb_discoveries := filter (\<lambda>row. runKey row \<notin> S) (tb_discoveries db),
     tb_discoveryWorkspaces := filter (\<lambda>row. intOf row ''discovery_sequence'' \<notin> S) (tb_discoveryWorkspaces db),
     tb_discoveredTests := filter (\<lambda>row. intOf row ''discovery_sequence'' \<notin> S) (tb_discoveredTests db)\<rparr>"

lemma discovery_key_parts [simp]: "fst (workspaceKey row) = intOf row ''discovery_sequence''" "fst (discoveredKey row) = workspaceKey row"
  by (simp_all add: workspaceKey_def discoveredKey_def)

lemma runsHold_discoveries [simp]:
  "runsHold (db\<lparr>tb_discoveries := r\<rparr>) = runsHold db" "runsHold (db\<lparr>tb_discoveryWorkspaces := m\<rparr>) = runsHold db"
  "runsHold (db\<lparr>tb_discoveredTests := t\<rparr>) = runsHold db"
  by (simp_all add: runsHold_def)

lemma schemaHolds_fewer_discovered:
  "schemaHolds db \<Longrightarrow> schemaHolds (db\<lparr>tb_discoveredTests := filter P (tb_discoveredTests db)\<rparr>)"
  by (auto simp: schemaHolds_def discoveriesHold_def list_all_iff distinct_map_filter)

lemma schemaHolds_fewer_workspaces:
  assumes "schemaHolds db" and "\<forall>row \<in> set (tb_discoveredTests db). intOf row ''discovery_sequence'' \<notin> S"
  shows "schemaHolds (db\<lparr>tb_discoveryWorkspaces := filter (\<lambda>row. intOf row ''discovery_sequence'' \<notin> S) (tb_discoveryWorkspaces db)\<rparr>)"
proof -
  have "workspaceKey row \<in> workspaceKey ` {m \<in> set (tb_discoveryWorkspaces db). intOf m ''discovery_sequence'' \<notin> S}"
    if row: "row \<in> set (tb_discoveredTests db)" for row
  proof -
    have "workspaceKey row \<in> workspaceKey ` set (tb_discoveryWorkspaces db)"
      using assms(1) row by (simp add: schemaHolds_def discoveriesHold_def list_all_iff)
    then obtain m where m: "m \<in> set (tb_discoveryWorkspaces db)" "workspaceKey row = workspaceKey m" by auto
    then have "intOf m ''discovery_sequence'' = intOf row ''discovery_sequence''" by (simp add: workspaceKey_def)
    with assms(2) row m show ?thesis by auto
  qed
  with assms(1) show ?thesis
    by (simp add: schemaHolds_def discoveriesHold_def list_all_iff distinct_map_filter)
qed

lemma schemaHolds_fewer_discoveries:
  assumes "schemaHolds db" and "\<forall>row \<in> set (tb_discoveryWorkspaces db). intOf row ''discovery_sequence'' \<notin> S"
  shows "schemaHolds (db\<lparr>tb_discoveries := filter (\<lambda>row. runKey row \<notin> S) (tb_discoveries db)\<rparr>)"
proof -
  have "intOf row ''discovery_sequence'' \<in> runKey ` {r \<in> set (tb_discoveries db). runKey r \<notin> S}"
    if row: "row \<in> set (tb_discoveryWorkspaces db)" for row
  proof -
    have "intOf row ''discovery_sequence'' \<in> runKey ` set (tb_discoveries db)"
      using assms(1) row by (simp add: schemaHolds_def discoveriesHold_def list_all_iff)
    with assms(2) row show ?thesis by auto
  qed
  with assms(1) show ?thesis
    by (simp add: schemaHolds_def discoveriesHold_def list_all_iff distinct_map_filter)
qed

lemma removeEarlierDiscoveries_removes:
  assumes "schemaHolds db"
  shows "removeEarlierDiscoveries scope db = Inr (withoutDiscoveries (set (worktreeDiscoveries scope db)) db) \<and>
    schemaHolds (withoutDiscoveries (set (worktreeDiscoveries scope db)) db)"
proof -
  define S where "S = set (worktreeDiscoveries scope db)"
  define db1 where "db1 = db\<lparr>tb_discoveredTests := filter (\<lambda>row. intOf row ''discovery_sequence'' \<notin> S) (tb_discoveredTests db)\<rparr>"
  define db2 where "db2 = db1\<lparr>tb_discoveryWorkspaces := filter (\<lambda>row. intOf row ''discovery_sequence'' \<notin> S) (tb_discoveryWorkspaces db1)\<rparr>"
  define db3 where "db3 = db2\<lparr>tb_discoveries := filter (\<lambda>row. runKey row \<notin> S) (tb_discoveries db2)\<rparr>"
  have h1: "schemaHolds db1" unfolding db1_def by (rule schemaHolds_fewer_discovered [OF assms])
  have h2: "schemaHolds db2" unfolding db2_def by (rule schemaHolds_fewer_workspaces [OF h1]) (simp add: db1_def)
  have h3: "schemaHolds db3" unfolding db3_def by (rule schemaHolds_fewer_discoveries [OF h2]) (simp add: db2_def)
  have same: "set (worktreeDiscoveries scope db1) = S" "set (worktreeDiscoveries scope db2) = S"
    by (simp_all add: db1_def db2_def S_def worktreeDiscoveries_def)
  have s1: "statement (db\<lparr>tb_discoveredTests := filter (\<lambda>row. intOf row ''discovery_sequence'' \<notin> S) (tb_discoveredTests db)\<rparr>) = Inr db1"
    using h1 by (simp add: statement_def db1_def)
  have s2: "statement (db1\<lparr>tb_discoveryWorkspaces := filter (\<lambda>row. intOf row ''discovery_sequence'' \<notin> S) (tb_discoveryWorkspaces db1)\<rparr>) = Inr db2"
    using h2 by (simp add: statement_def db2_def)
  have s3: "statement (db2\<lparr>tb_discoveries := filter (\<lambda>row. runKey row \<notin> S) (tb_discoveries db2)\<rparr>) = Inr db3"
    using h3 by (simp add: statement_def db3_def)
  have "removeEarlierDiscoveries scope db = Inr db3"
    by (simp add: removeEarlierDiscoveries_def S_def [symmetric] s1 same s2 s3)
  moreover have "db3 = withoutDiscoveries S db" by (simp add: withoutDiscoveries_def db1_def db2_def db3_def)
  ultimately show ?thesis using h3 by (simp add: S_def)
qed

lemma insertDiscoveredTests_inserts:
  assumes "schemaHolds db" and "(n, i) \<in> workspaceKey ` set (tb_discoveryWorkspaces db)"
    and "\<forall>row \<in> set (tb_discoveredTests db). workspaceKey row = (n, i) \<longrightarrow> intOf row ''test_index'' < j"
  shows "insertDiscoveredTests n i j ts db = Inr (db\<lparr>tb_discoveredTests := tb_discoveredTests db @ discoveredRowsFrom n i j ts\<rparr>) \<and>
    schemaHolds (db\<lparr>tb_discoveredTests := tb_discoveredTests db @ discoveredRowsFrom n i j ts\<rparr>)"
  using assms
proof (induction ts arbitrary: j db)
  case (Cons t ts)
  define db' where "db' = db\<lparr>tb_discoveredTests := tb_discoveredTests db @ [discoveredTestRow n i j t]\<rparr>"
  have "((n, i), j) \<notin> discoveredKey ` set (tb_discoveredTests db)"
    using Cons.prems(3) by (auto simp: discoveredKey_def)
  then have h: "schemaHolds db'"
    using Cons.prems(1,2) discoveredTestRow_fits [of n i j t]
    by (simp add: db'_def schemaHolds_def discoveriesHold_def list_all_iff)
  have "insertDiscoveredTests n i (Suc j) ts db' = Inr (db'\<lparr>tb_discoveredTests := tb_discoveredTests db' @ discoveredRowsFrom n i (Suc j) ts\<rparr>) \<and>
      schemaHolds (db'\<lparr>tb_discoveredTests := tb_discoveredTests db' @ discoveredRowsFrom n i (Suc j) ts\<rparr>)"
  proof (rule Cons.IH [OF h])
    show "(n, i) \<in> workspaceKey ` set (tb_discoveryWorkspaces db')" using Cons.prems(2) by (simp add: db'_def)
    show "\<forall>row \<in> set (tb_discoveredTests db'). workspaceKey row = (n, i) \<longrightarrow> intOf row ''test_index'' < Suc j"
      using Cons.prems(3) by (auto simp: db'_def less_Suc_eq)
  qed
  then show ?case using h by (simp add: statement_def db'_def [symmetric]) (simp add: db'_def)
qed simp

lemma writeWorkspaces_writes:
  assumes "schemaHolds db" and "n \<in> runKey ` set (tb_discoveries db)"
    and "\<forall>row \<in> set (tb_discoveryWorkspaces db). intOf row ''discovery_sequence'' = n \<longrightarrow> intOf row ''workspace_index'' < i"
  shows "writeWorkspaces n i es db = Inr (db\<lparr>tb_discoveryWorkspaces := tb_discoveryWorkspaces db @ workspaceRowsFrom n i es,
      tb_discoveredTests := tb_discoveredTests db @ allDiscoveredRows n i es\<rparr>) \<and>
    schemaHolds (db\<lparr>tb_discoveryWorkspaces := tb_discoveryWorkspaces db @ workspaceRowsFrom n i es,
      tb_discoveredTests := tb_discoveredTests db @ allDiscoveredRows n i es\<rparr>)"
  using assms
proof (induction es arbitrary: i db)
  case (Cons e es)
  define db1 where "db1 = db\<lparr>tb_discoveryWorkspaces := tb_discoveryWorkspaces db @ [workspaceRow n i e]\<rparr>"
  define db2 where "db2 = db1\<lparr>tb_discoveredTests := tb_discoveredTests db1 @ discoveredRowsFrom n i 0 (entryTests e)\<rparr>"
  have new: "(n, i) \<notin> workspaceKey ` set (tb_discoveryWorkspaces db)"
    using Cons.prems(3) by (auto simp: workspaceKey_def)
  then have h1: "schemaHolds db1"
    using Cons.prems(1,2) workspaceRow_fits [of n i e]
    by (simp add: db1_def schemaHolds_def discoveriesHold_def list_all_iff image_iff intOf_def workspaceRow_at)
  have none: "workspaceKey row \<noteq> (n, i)" if "row \<in> set (tb_discoveredTests db1)" for row
  proof -
    have "workspaceKey row \<in> workspaceKey ` set (tb_discoveryWorkspaces db)"
      using Cons.prems(1) that by (simp add: db1_def schemaHolds_def discoveriesHold_def list_all_iff)
    with new show ?thesis by auto
  qed
  have "insertDiscoveredTests n i 0 (entryTests e) db1 = Inr db2 \<and> schemaHolds db2"
    unfolding db2_def
    by (rule insertDiscoveredTests_inserts [OF h1]) (use none in \<open>auto simp: db1_def\<close>)
  moreover have "writeWorkspaces n (Suc i) es db2 = Inr (db2\<lparr>tb_discoveryWorkspaces := tb_discoveryWorkspaces db2 @ workspaceRowsFrom n (Suc i) es,
      tb_discoveredTests := tb_discoveredTests db2 @ allDiscoveredRows n (Suc i) es\<rparr>) \<and>
    schemaHolds (db2\<lparr>tb_discoveryWorkspaces := tb_discoveryWorkspaces db2 @ workspaceRowsFrom n (Suc i) es,
      tb_discoveredTests := tb_discoveredTests db2 @ allDiscoveredRows n (Suc i) es\<rparr>)"
  proof (rule Cons.IH)
    show "schemaHolds db2" using calculation by simp
    show "n \<in> runKey ` set (tb_discoveries db2)" using Cons.prems(2) by (simp add: db2_def db1_def)
    show "\<forall>row \<in> set (tb_discoveryWorkspaces db2). intOf row ''discovery_sequence'' = n \<longrightarrow> intOf row ''workspace_index'' < Suc i"
      using Cons.prems(3) by (auto simp: db2_def db1_def less_Suc_eq)
  qed
  ultimately show ?case
    using h1 by (simp add: statement_def db1_def [symmetric]) (simp add: db1_def db2_def)
qed simp

definition discoveryBy :: "StoreBindings \<Rightarrow> string \<Rightarrow> TestDiscovery \<Rightarrow> StoredDiscovery" where
  "discoveryBy bindings discoveryId discovery = \<lparr>sb_adapterVersion = VITEST_ADAPTER_VERSION,
     sb_inputFingerprint = sc_inputFingerprint bindings, st_discoveryId = discoveryId, st_discovery = discovery\<rparr>"

definition discoveryIds :: "StoreTables \<Rightarrow> string list" where
  "discoveryIds db = map (\<lambda>row. textOf row ''discovery_id'') (tb_discoveries db)"

definition keptDiscoveries :: "StoreScope \<Rightarrow> StoreTables \<Rightarrow> StoreTables" where
  "keptDiscoveries scope db = withoutDiscoveries (set (worktreeDiscoveries scope db)) db"

definition discoveryWritten :: "StoreScope \<Rightarrow> StoredDiscovery \<Rightarrow> string \<times> string option \<Rightarrow> StoreTables \<Rightarrow> StoreTables" where
  "discoveryWritten scope stored fp db =
     withDiscovery (nextSequence (tb_discoveries (keptDiscoveries scope db))) scope stored fp (keptDiscoveries scope db)"

lemma insertDiscovery_inserts:
  assumes "schemaHolds db" and "\<And>n. boundRow (discoveryRow n scope stored fp)" and "st_discoveryId stored \<notin> set (discoveryIds db)"
  shows "insertDiscovery scope stored fp db = Inr (withDiscovery (nextSequence (tb_discoveries db)) scope stored fp db) \<and>
    schemaHolds (withDiscovery (nextSequence (tb_discoveries db)) scope stored fp db)"
proof -
  define n where "n = nextSequence (tb_discoveries db)"
  define db1 where "db1 = db\<lparr>tb_discoveries := tb_discoveries db @ [discoveryRow n scope stored fp]\<rparr>"
  have new: "n \<notin> runKey ` set (tb_discoveries db)" using nextSequence_above n_def by fastforce
  then have h: "schemaHolds db1"
    using assms discoveryRow_fits [of n scope stored fp]
    by (simp add: db1_def schemaHolds_def discoveriesHold_def list_all_iff discoveryIds_def)
  have none: "intOf row ''discovery_sequence'' \<noteq> n" if "row \<in> set (tb_discoveryWorkspaces db)" for row
  proof -
    have "intOf row ''discovery_sequence'' \<in> runKey ` set (tb_discoveries db)"
      using assms(1) that by (simp add: schemaHolds_def discoveriesHold_def list_all_iff)
    with new show ?thesis by auto
  qed
  have "writeWorkspaces n 0 es db1 = Inr (db1\<lparr>tb_discoveryWorkspaces := tb_discoveryWorkspaces db1 @ workspaceRowsFrom n 0 es,
      tb_discoveredTests := tb_discoveredTests db1 @ allDiscoveredRows n 0 es\<rparr>) \<and>
    schemaHolds (db1\<lparr>tb_discoveryWorkspaces := tb_discoveryWorkspaces db1 @ workspaceRowsFrom n 0 es,
      tb_discoveredTests := tb_discoveredTests db1 @ allDiscoveredRows n 0 es\<rparr>)" for es
    by (rule writeWorkspaces_writes [OF h]) (use none in \<open>auto simp: db1_def\<close>)
  with h show ?thesis
    by (simp add: insertDiscovery_def statement_def Let_def n_def [symmetric] db1_def [symmetric])
       (simp add: withDiscovery_def db1_def)
qed

lemma no_workspaces_yet:
  assumes "schemaHolds db"
  shows "\<forall>row \<in> set (tb_discoveryWorkspaces db). intOf row ''discovery_sequence'' \<noteq> nextSequence (tb_discoveries db)"
    "\<forall>row \<in> set (tb_discoveredTests db). intOf row ''discovery_sequence'' \<noteq> nextSequence (tb_discoveries db)"
proof -
  have new: "nextSequence (tb_discoveries db) \<notin> runKey ` set (tb_discoveries db)" using nextSequence_above by fastforce
  have ws: "intOf row ''discovery_sequence'' \<in> runKey ` set (tb_discoveries db)" if "row \<in> set (tb_discoveryWorkspaces db)" for row
    using assms that by (simp add: schemaHolds_def discoveriesHold_def list_all_iff)
  then show "\<forall>row \<in> set (tb_discoveryWorkspaces db). intOf row ''discovery_sequence'' \<noteq> nextSequence (tb_discoveries db)" using new by metis
  have "workspaceKey row \<in> workspaceKey ` set (tb_discoveryWorkspaces db)" if "row \<in> set (tb_discoveredTests db)" for row
    using assms that by (simp add: schemaHolds_def discoveriesHold_def list_all_iff)
  then have "\<exists>m \<in> set (tb_discoveryWorkspaces db). intOf m ''discovery_sequence'' = intOf row ''discovery_sequence''"
    if "row \<in> set (tb_discoveredTests db)" for row
    using that by (fastforce simp: workspaceKey_def)
  then show "\<forall>row \<in> set (tb_discoveredTests db). intOf row ''discovery_sequence'' \<noteq> nextSequence (tb_discoveries db)"
    using new ws by metis
qed

lemma writeDiscovery_writes:
  assumes "schemaHolds db" and "tb_userVersion db \<le> STORE_SCHEMA_VERSION" and "requireBindings bindings = Inr ()"
    and fresh: "discoveryId \<notin> set (discoveryIds (keptDiscoveries (StoreScope.truncate bindings) db))"
    and readable: "list_all readableEntry (td_workspaces discovery)"
    and scope: "scope = StoreScope.truncate bindings" and stored: "stored = discoveryBy bindings discoveryId discovery"
  obtains fp where "fingerprintColumns (sb_inputFingerprint stored) = Inr fp"
    and "writeDiscovery bindings discoveryId discovery db = (Inr (scope, stored), discoveryWritten scope stored fp db)"
    and "schemaHolds (keptDiscoveries scope db)" and "schemaHolds (discoveryWritten scope stored fp db)"
proof -
  obtain fp where fp: "fingerprintColumns (sb_inputFingerprint stored) = Inr fp"
    using assms(3) by (auto simp: requireBindings_def bindE_Inr stored discoveryBy_def)
  define kept where "kept = keptDiscoveries scope db"
  define n where "n = nextSequence (tb_discoveries kept)"
  have parts: "st_discoveryId stored = discoveryId" "st_discovery stored = discovery" by (simp_all add: stored discoveryBy_def)
  have removed: "removeEarlierDiscoveries scope db = Inr kept" "schemaHolds kept"
    using removeEarlierDiscoveries_removes [OF assms(1)] by (simp_all add: kept_def keptDiscoveries_def)
  note fresh = fresh [folded scope, folded kept_def]
  have bound: "boundRow (discoveryRow k scope stored fp)" for k
    using bound_discovery [OF runRow_bound [OF assms(3) _ scope]] fp by (simp add: stored discoveryBy_def)
  have inserted: "insertDiscovery scope stored fp kept = Inr (withDiscovery n scope stored fp kept)" "schemaHolds (withDiscovery n scope stored fp kept)"
    using insertDiscovery_inserts [OF removed(2) bound] fresh by (simp_all add: n_def parts)
  have "filter (\<lambda>row. inScope scope row \<and> textOf row ''discovery_id'' = discoveryId) (tb_discoveries kept) = []"
    using fresh by (auto simp: filter_empty_conv discoveryIds_def)
  then have "filter (\<lambda>row. inScope scope row \<and> textOf row ''discovery_id'' = discoveryId)
      (tb_discoveries (withDiscovery n scope stored fp kept)) = [discoveryRow n scope stored fp]"
    by (simp add: withDiscovery_def parts)
  then have selected: "selectDiscovery scope discoveryId (withDiscovery n scope stored fp kept) = Inr (Some (scope, stored))"
    using storedDiscovery_new [OF fp] no_workspaces_yet [OF removed(2)] readable by (simp add: selectDiscovery_def n_def parts)
  have "writeDiscovery bindings discoveryId discovery db = (Inr (scope, stored), withDiscovery n scope stored fp kept)"
    using selected removed inserted assms(2,3) fp
    by (simp add: writeDiscovery_def Let_def inRecordWrite_def refuseNewerSchema_def isNewerSchema_def readDiscoveryBack_def
        scope [symmetric] stored discoveryBy_def)
  moreover have "withDiscovery n scope stored fp kept = discoveryWritten scope stored fp db"
    by (simp add: discoveryWritten_def n_def kept_def)
  ultimately show thesis using that fp removed(2) inserted(2) by (simp add: kept_def)
qed

lemma kept_discovery_rows:
  assumes "schemaHolds db" and "row \<in> set (tb_discoveries db)"
  shows "runKey row \<in> set (worktreeDiscoveries scope db) \<longleftrightarrow> inScope scope row"
proof -
  have "inj_on runKey (set (tb_discoveries db))"
    using assms(1) by (simp add: schemaHolds_def discoveriesHold_def distinct_map)
  with assms(2) show ?thesis by (auto simp: worktreeDiscoveries_def dest: inj_onD)
qed

lemma storedDiscovery_same:
  assumes "selectWorkspaceRows (runKey row) db' = selectWorkspaceRows (runKey row) db"
    and "selectTestRows (runKey row) db' = selectTestRows (runKey row) db"
  shows "storedDiscovery db' (selectColumns DISCOVERY_COLUMNS row) = storedDiscovery db (selectColumns DISCOVERY_COLUMNS row)"
proof -
  have "intOf (selectColumns DISCOVERY_COLUMNS row) ''sequence'' = runKey row"
    by (simp add: intOf_selectColumns runKey_def DISCOVERY_COLUMNS_def)
  then have "k = runKey row" if "rowInteger (selectColumns DISCOVERY_COLUMNS row) ''sequence'' = Inr k" for k
    using rowInteger_of [OF that] by simp
  then have "bindE (rowInteger (selectColumns DISCOVERY_COLUMNS row) ''sequence'')
        (\<lambda>k. f (readWorkspaces (selectWorkspaceRows k db') (selectTestRows k db'))) =
      bindE (rowInteger (selectColumns DISCOVERY_COLUMNS row) ''sequence'')
        (\<lambda>k. f (readWorkspaces (selectWorkspaceRows k db) (selectTestRows k db)))" for f :: "_ \<Rightarrow> StoreError + StoreScope \<times> StoredDiscovery"
    using assms by (cases "rowInteger (selectColumns DISCOVERY_COLUMNS row) ''sequence''") auto
  from this [of "\<lambda>m. bindE m _"] show ?thesis by (simp only: storedDiscovery_def)
qed

lemma storedDiscovery_other:
  assumes "schemaHolds db" and "row \<in> set (tb_discoveries db)" and "\<not> inScope scope row"
  shows "storedDiscovery (discoveryWritten scope stored fp db) (selectColumns DISCOVERY_COLUMNS row) =
    storedDiscovery db (selectColumns DISCOVERY_COLUMNS row)"
proof -
  define S where "S = set (worktreeDiscoveries scope db)"
  define kept where "kept = keptDiscoveries scope db"
  define n where "n = nextSequence (tb_discoveries kept)"
  let ?es = "td_workspaces (st_discovery stored)"
  have out: "runKey row \<notin> S" using kept_discovery_rows [OF assms(1,2), of scope] assms(3) by (simp add: S_def)
  have "row \<in> set (tb_discoveries kept)"
    using assms(2) out by (simp add: kept_def keptDiscoveries_def withoutDiscoveries_def S_def)
  then have "runKey row \<noteq> n" using nextSequence_above n_def by fastforce
  then have "filter (\<lambda>r. intOf r ''discovery_sequence'' = runKey row) (workspaceRowsFrom n 0 ?es) = []"
    "filter (\<lambda>r. intOf r ''discovery_sequence'' = runKey row) (allDiscoveredRows n 0 ?es) = []"
    by (auto simp: filter_empty_conv dest: new_rows_of_discovery)
  moreover have "(\<lambda>r. intOf r ''discovery_sequence'' \<notin> S \<and> intOf r ''discovery_sequence'' = runKey row) =
      (\<lambda>r. intOf r ''discovery_sequence'' = runKey row)"
    using out by auto
  ultimately show ?thesis
    by (intro storedDiscovery_same)
       (simp_all add: discoveryWritten_def n_def [symmetric] kept_def [symmetric] selectWorkspaceRows_def selectTestRows_def withDiscovery_def,
        simp_all add: kept_def keptDiscoveries_def withoutDiscoveries_def S_def [symmetric] conj_commute)
qed

definition sampleStoredDiscovery :: TestDiscovery where
  "sampleStoredDiscovery = \<lparr>td_workspaces = [WsNotConfirmed storedWorkspace ''not the one confirmed'',
       WsDiscovered \<lparr>dw_workspace = \<lparr>ws_path = ''b'', ws_directory = ''/r/b''\<rparr>, dw_vitestVersion = ''3.2.4'',
         dw_tests = [\<lparr>it_identity = \<lparr>workspacePath = ''b'', projectName = ''unit'', modulePath = ''a.test.ts'', namePath = [''adds''],
             occurrence = 0\<rparr>, it_isDuplicate = True, dt_mode = ''skip''\<rparr>],
         dw_failedModules = [], dw_typecheckModules = [], dw_unsupportedProjects = [], dw_unhandledErrors = [],
         dw_selectionFacts = FactsNotReported, dw_closeError = None\<rparr>],
     td_notRead = [\<lparr>us_source = ''pnpm-workspace.yaml'', us_reason = ''cannot be read''\<rparr>], td_notCovered = None\<rparr>"

section \<open>Property\<close>

text \<open>
  C31. The store is a map from a project and worktree to its latest discovery: a write that has complete
  bindings, a new id, and the test modes and alias flags Vitest gives sets its own entry to the discovery as it
  was given and leaves every other entry, and every stored run, as it was.
\<close>

theorem discovery_write_updates_map:
  assumes "schemaHolds db" and "tb_userVersion db \<le> STORE_SCHEMA_VERSION" and "requireBindings bindings = Inr ()"
    and "discoveryId \<notin> set (discoveryIds db)" and "list_all readableEntry (td_workspaces discovery)"
  shows "\<exists>db'. writeDiscovery bindings discoveryId discovery db =
        (Inr (StoreScope.truncate bindings, discoveryBy bindings discoveryId discovery), db') \<and> schemaHolds db' \<and>
      (\<lambda>scope. selectLatestDiscovery scope db') = (\<lambda>scope. selectLatestDiscovery scope db)
        (StoreScope.truncate bindings := Inr (Some (StoreScope.truncate bindings, discoveryBy bindings discoveryId discovery))) \<and>
      tb_runs db' = tb_runs db \<and> tb_runModules db' = tb_runModules db \<and> tb_runTests db' = tb_runTests db"
proof -
  define own where "own = StoreScope.truncate bindings"
  define stored where "stored = discoveryBy bindings discoveryId discovery"
  have fresh: "discoveryId \<notin> set (discoveryIds (keptDiscoveries (StoreScope.truncate bindings) db))"
    using assms(4) by (auto simp: discoveryIds_def keptDiscoveries_def withoutDiscoveries_def)
  obtain fp where fp: "fingerprintColumns (sb_inputFingerprint stored) = Inr fp"
    and wrote: "writeDiscovery bindings discoveryId discovery db = (Inr (own, stored), discoveryWritten own stored fp db)"
    and kept: "schemaHolds (keptDiscoveries own db)" and holds: "schemaHolds (discoveryWritten own stored fp db)"
    by (rule writeDiscovery_writes [OF assms(1-3) fresh assms(5) own_def stored_def])
  let ?db = "discoveryWritten own stored fp db"
  define n where "n = nextSequence (tb_discoveries (keptDiscoveries own db))"
  have rows: "tb_discoveries ?db = tb_discoveries (keptDiscoveries own db) @ [discoveryRow n own stored fp]"
    by (simp add: discoveryWritten_def withDiscovery_def n_def)
  have "list_all readableEntry (td_workspaces (st_discovery stored))"
    using assms(5) by (simp add: stored_def discoveryBy_def)
  from storedDiscovery_new [OF fp this no_workspaces_yet [OF kept], of own]
  have read: "storedDiscovery ?db (selectColumns DISCOVERY_COLUMNS (discoveryRow n own stored fp)) = Inr (own, stored)"
    by (simp add: discoveryWritten_def n_def)
  have "filter (inScope own) (tb_discoveries (keptDiscoveries own db)) = []"
    using kept_discovery_rows [OF assms(1), of _ own]
    by (auto simp: filter_empty_conv keptDiscoveries_def withoutDiscoveries_def)
  then have latest: "selectLatestDiscovery own ?db = Inr (Some (own, stored))"
    by (simp add: selectLatestDiscovery_def rows read)
  have others: "selectLatestDiscovery scope ?db = selectLatestDiscovery scope db" if other: "scope \<noteq> own" for scope
  proof -
    have "filter (inScope scope) (tb_discoveries (keptDiscoveries own db)) = filter (inScope scope) (tb_discoveries db)"
      using kept_discovery_rows [OF assms(1), of _ own] inScope_same [of scope _ own] other
      by (auto simp: keptDiscoveries_def withoutDiscoveries_def intro!: filter_cong)
    moreover have "\<not> inScope scope (discoveryRow n own stored fp)"
      using other by (cases scope, cases own) auto
    ultimately have "filter (inScope scope) (tb_discoveries ?db) = filter (inScope scope) (tb_discoveries db)"
      by (simp add: rows del: discovery_row_keys)
    moreover have "storedDiscovery ?db (selectColumns DISCOVERY_COLUMNS row) = storedDiscovery db (selectColumns DISCOVERY_COLUMNS row)"
      if "row \<in> set (filter (inScope scope) (tb_discoveries db))" for row
      using that inScope_same [of scope row own] other by (intro storedDiscovery_other [OF assms(1)]) auto
    then have "storedDiscovery ?db (selectColumns DISCOVERY_COLUMNS row) = storedDiscovery db (selectColumns DISCOVERY_COLUMNS row)"
      if "List.rev (sort_key runKey (filter (inScope scope) (tb_discoveries db))) = row # rest" for row rest
      using that by (metis list.set_intros(1) set_rev set_sort)
    ultimately show ?thesis by (simp add: selectLatestDiscovery_def split: list.split)
  qed
  have runs: "tb_runs ?db = tb_runs db \<and> tb_runModules ?db = tb_runModules db \<and> tb_runTests ?db = tb_runTests db"
    by (simp add: discoveryWritten_def withDiscovery_def keptDiscoveries_def withoutDiscoveries_def)
  show ?thesis
    using wrote holds latest others runs unfolding own_def [symmetric] stored_def [symmetric] by (auto simp: fun_eq_iff)
qed

theorem discovery_write_updates_map_witness:
  "\<exists>db'. selectLatestDiscovery (StoreScope.truncate sampleBindings) db' =
     Inr (Some (StoreScope.truncate sampleBindings, discoveryBy sampleBindings ''d-1'' sampleStoredDiscovery)) \<and>
     selectLatestDiscovery \<lparr>sc_projectIdentity = ''p'', sc_worktreeIdentity = ''other''\<rparr> db' = Inr None"
proof -
  have "schemaHolds emptyStore" "tb_userVersion emptyStore \<le> STORE_SCHEMA_VERSION" "requireBindings sampleBindings = Inr ()"
    "''d-1'' \<notin> set (discoveryIds emptyStore)" "list_all readableEntry (td_workspaces sampleStoredDiscovery)" by code_simp+
  from discovery_write_updates_map [OF this] obtain db' where db':
    "(\<lambda>scope. selectLatestDiscovery scope db') = (\<lambda>scope. selectLatestDiscovery scope emptyStore)
      (StoreScope.truncate sampleBindings := Inr (Some (StoreScope.truncate sampleBindings, discoveryBy sampleBindings ''d-1'' sampleStoredDiscovery)))"
    by blast
  have at: "selectLatestDiscovery scope db' = (if scope = StoreScope.truncate sampleBindings
      then Inr (Some (StoreScope.truncate sampleBindings, discoveryBy sampleBindings ''d-1'' sampleStoredDiscovery))
      else selectLatestDiscovery scope emptyStore)" for scope
    using fun_cong [OF db', of scope] by simp
  show ?thesis
    by (rule exI [of _ db'])
       (simp add: at sampleBindings_def StoreScope.truncate_def, simp add: selectLatestDiscovery_def emptyStore_def)
qed

end
