(* ===== verification/GitIgnored.thy ===== *)
theory GitIgnored
  imports NonInputs
begin

text \<open>
  Which paths git ignores (\<^verbatim>\<open>selection/git-ignored.ts\<close>, its asynchronous readers): the listing of the
  ignored paths of a repository, each directory it names asked about again. Running git is a parameter: how the
  process ended for a repository, its arguments and its input. Node's \<^verbatim>\<open>spawn\<close> options, the time limit
  and the bound on the output show only as the ways it can end without a code.
\<close>

section \<open>Running git\<close>

text \<open>
  The process ended with an exit code, its output and what it wrote to stderr; or it failed, with the reason; or
  it did not end in time.
\<close>

datatype GitEnding = GitExited nat string string | GitFailed string | GitNotEnded string

type_synonym Git = "string \<Rightarrow> string list \<Rightarrow> string option \<Rightarrow> GitEnding"

definition FSMONITOR_OFF :: "string list" where
  "FSMONITOR_OFF = [''-c'', ''core.fsmonitor=false'']"

definition IGNORED_PATHS_ARGUMENTS :: "string list" where
  "IGNORED_PATHS_ARGUMENTS =
     FSMONITOR_OFF @ [''ls-files'', ''--others'', ''--ignored'', ''--exclude-standard'', ''--directory'', ''-z'']"

definition CHECK_IGNORE_ARGUMENTS :: "string list" where
  "CHECK_IGNORE_ARGUMENTS = FSMONITOR_OFF @ [''check-ignore'', ''--stdin'', ''-z'']"

definition GIT_TIMEOUT_MS :: nat where
  "GIT_TIMEOUT_MS = 30000"

definition MAX_GIT_ERROR_CHARACTERS :: nat where
  "MAX_GIT_ERROR_CHARACTERS = 2000"

definition commandText :: "string list \<Rightarrow> string" where
  "commandText args = join '' '' (filter (\<lambda>arg. arg \<notin> set FSMONITOR_OFF) args)"

text \<open>What \<^verbatim>\<open>runGit\<close> settles with once the process closed: the output, or why there is none.\<close>

definition runGit :: "Git \<Rightarrow> string \<Rightarrow> string list \<Rightarrow> string option \<Rightarrow> nat list \<Rightarrow> string + string" where
  "runGit git directory args input acceptedExitCodes =
     (let reasonOf = (\<lambda>ending stderr. ''git '' @ commandText args @ '' '' @ ending @ '': '' @
            trim (take MAX_GIT_ERROR_CHARACTERS stderr)) in
      case git directory args input of
        GitExited code stdout stderr \<Rightarrow>
          (if code \<in> set acceptedExitCodes then Inr stdout
           else Inl (reasonOf (''ended with exit code '' @ show_nat code) stderr))
      | GitFailed failure \<Rightarrow> Inl failure
      | GitNotEnded stderr \<Rightarrow> Inl (reasonOf (''did not end within '' @ show_nat GIT_TIMEOUT_MS @ '' ms'') stderr))"

section \<open>Reading its output\<close>

text \<open>The paths of an output, relative to the repository, a directory's without its last \<^verbatim>\<open>/\<close>.\<close>

record ListedEntries =
  le_files :: "string list"
  le_directories :: "string list"

definition listEntry :: "string \<Rightarrow> ListedEntries \<Rightarrow> ListedEntries" where
  "listEntry entry listed =
     (if entry = [] then listed
      else if ends_with entry ''/'' then listed\<lparr>le_directories := le_directories listed @ [butlast entry]\<rparr>
      else listed\<lparr>le_files := le_files listed @ [entry]\<rparr>)"

definition listedEntries :: "string \<Rightarrow> ListedEntries" where
  "listedEntries stdout = fold listEntry (split_on (CHR 0x00) stdout) \<lparr>le_files = [], le_directories = []\<rparr>"

text \<open>\<^verbatim>\<open>resolve(root, entry)\<close> of an absolute root.\<close>

definition resolveAt :: "string \<Rightarrow> string \<Rightarrow> string" where
  "resolveAt root entry =
     ''/'' @ join ''/'' (resolvedSegments (if isAbsolute entry then entry else root @ ''/'' @ entry))"

definition absolutePaths :: "string \<Rightarrow> string list \<Rightarrow> string list" where
  "absolutePaths root entries = uniq (map (resolveAt root) entries)"

definition checkInput :: "string list \<Rightarrow> string" where
  "checkInput paths = flat_map (\<lambda>path. path @ [CHR 0x00]) paths"

section \<open>The readers\<close>

record IgnoredListing =
  il_paths :: "string list"
  il_unconfirmed :: "string list"

definition readCheckedIgnored :: "Git \<Rightarrow> string \<Rightarrow> string list \<Rightarrow> string + string list" where
  "readCheckedIgnored git repository paths =
     (let absolute = resolveAt repository [] in
      if paths = [] then Inr []
      else case runGit git absolute CHECK_IGNORE_ARGUMENTS (Some (checkInput paths)) [0, 1] of
          Inl reason \<Rightarrow> Inl reason
        | Inr stdout \<Rightarrow> Inr (absolutePaths absolute (le_files (listedEntries stdout))))"

definition readIgnoredPaths :: "Git \<Rightarrow> string \<Rightarrow> string + IgnoredListing" where
  "readIgnoredPaths git repository =
     (let absolute = resolveAt repository [] in
      case runGit git absolute IGNORED_PATHS_ARGUMENTS None [0] of
        Inl reason \<Rightarrow> Inl reason
      | Inr stdout \<Rightarrow>
          (let listed = listedEntries stdout in
           case readCheckedIgnored git absolute (le_directories listed) of
             Inl reason \<Rightarrow> Inl reason
           | Inr checked \<Rightarrow> Inr \<lparr>
               il_paths = uniq (absolutePaths absolute (le_files listed) @ checked),
               il_unconfirmed = filter (\<lambda>path. path \<notin> set checked) (absolutePaths absolute (le_directories listed))\<rparr>))"

text \<open>The reader of a scan, which does not wait for git otherwise than the scan itself does.\<close>

definition runGitSync :: "Git \<Rightarrow> string \<Rightarrow> string list \<Rightarrow> string option \<Rightarrow> string option" where
  "runGitSync git directory args input =
     (case git directory args input of
        GitExited code stdout stderr \<Rightarrow> if code = 0 then Some stdout else None
      | _ \<Rightarrow> None)"

definition gitIgnoredPaths :: "Git \<Rightarrow> string \<Rightarrow> string list" where
  "gitIgnoredPaths git root =
     (let absoluteRoot = resolveAt root [] in
      case runGitSync git absoluteRoot IGNORED_PATHS_ARGUMENTS None of
        None \<Rightarrow> []
      | Some out \<Rightarrow>
          (let listed = listedEntries out;
               checked = (if le_directories listed = [] then Some []
                 else runGitSync git absoluteRoot CHECK_IGNORE_ARGUMENTS (Some (checkInput (le_directories listed))))
           in absolutePaths absoluteRoot
                (le_files listed @ (case checked of None \<Rightarrow> [] | Some text \<Rightarrow> le_files (listedEntries text)))))"

record IgnoredPaths =
  ip_listings :: "string list list"
  ip_asked :: "string list"

definition ignoredPathsReader :: "Git \<Rightarrow> string \<Rightarrow> IgnoredPaths" where
  "ignoredPathsReader git root = \<lparr>ip_listings = [gitIgnoredPaths git root], ip_asked = [resolveAt root []]\<rparr>"

definition hasIgnored :: "IgnoredPaths \<Rightarrow> string \<Rightarrow> bool" where
  "hasIgnored reader path = list_ex (\<lambda>listing. path \<in> set listing) (ip_listings reader)"

definition addRepository :: "Git \<Rightarrow> string \<Rightarrow> IgnoredPaths \<Rightarrow> IgnoredPaths" where
  "addRepository git directory reader =
     (let repository = resolveAt directory [] in
      if repository \<in> set (ip_asked reader) then reader
      else \<lparr>ip_listings = ip_listings reader @ [gitIgnoredPaths git repository],
             ip_asked = ip_asked reader @ [repository]\<rparr>)"

section \<open>Lemmas\<close>

text \<open>Adding a repository only ever adds ignored paths, and asking for one again changes nothing.\<close>

lemma addRepository_keeps: "hasIgnored reader path \<Longrightarrow> hasIgnored (addRepository git directory reader) path"
  by (simp add: addRepository_def hasIgnored_def Let_def)

lemma addRepository_twice:
  "addRepository git directory (addRepository git directory reader) = addRepository git directory reader"
  by (simp add: addRepository_def Let_def)

text \<open>What a listing reads of an output: each entry once, by its last character.\<close>

lemma fold_listEntry:
  "fold listEntry entries listed = \<lparr>
     le_files = le_files listed @ filter (\<lambda>e. e \<noteq> [] \<and> \<not> ends_with e ''/'') entries,
     le_directories = le_directories listed @ map butlast (filter (\<lambda>e. e \<noteq> [] \<and> ends_with e ''/'') entries)\<rparr>"
  by (induction entries arbitrary: listed) (auto simp: listEntry_def)

lemma set_absolutePaths: "set (absolutePaths root entries) = resolveAt root ` set entries"
  by (simp add: absolutePaths_def)

text \<open>
  Where git prints back only directories it was asked about, a path the listing names is ignored, or it is one
  of its directories that git denies and then unconfirmed.
\<close>

lemma readIgnoredPaths_paths:
  assumes "runGit git (resolveAt repository []) IGNORED_PATHS_ARGUMENTS None [0] = Inr stdout"
    and "readIgnoredPaths git repository = Inr listing"
  shows "resolveAt (resolveAt repository []) ` set (le_files (listedEntries stdout)) \<subseteq> set (il_paths listing)"
    and "resolveAt (resolveAt repository []) ` set (le_directories (listedEntries stdout)) \<subseteq>
      set (il_paths listing) \<union> set (il_unconfirmed listing)"
  using assms by (auto simp: readIgnoredPaths_def Let_def set_absolutePaths split: sum.splits)

end
