(* ===== verification/DefinitionFiles.thy ===== *)
theory DefinitionFiles
  imports GitIgnored Workspaces RawFacts "HOL-Library.Multiset"
begin

text \<open>
  The definition files of a worktree: what \<^verbatim>\<open>rt-test.json\<close> declares for the defects query
  (\<^verbatim>\<open>defects/declared-settings.ts\<close>), and the walk that finds and reads the files its patterns name
  (\<^verbatim>\<open>defects/definition-files.ts\<close>). The host (\<open>WalkHost\<close>) is what Node and git answer while the walk
  runs: its answers of the listing of a directory and of a later look at one of its files are apart from each
  other, so a file can be gone, or another kind of entry, by the time it is read. The signal that stops a query
  nobody waits for is not modelled.
\<close>

section \<open>The declared settings\<close>

record DeclaredSettings =
  st_patterns :: "string list"
  st_assertionErrors :: "string list"
  st_problems :: "string list"

record DeclaredList =
  dl_items :: "string list"
  dl_problems :: "string list"

definition nameProblem :: "string \<Rightarrow> string option" where
  "nameProblem name =
     (if name = [] then Some ''is empty''
      else if name = plainErrorName then
        Some (''is what every plain thrown error is called, a setup failure among them, and an error must have a name '' @
          ''or a class of its own to be declared; throw an error with a name or a class of its own and declare that '' @
          ''name, or fail through expect'')
      else None)"

definition DEFECTS_RULE :: ListMember where
  "DEFECTS_RULE = \<lparr>lm_member = ''defects'', lm_max = 256, lm_items = ''patterns'', lm_item = ''pattern'',
     lm_problem = patternProblem\<rparr>"

definition ASSERTION_ERRORS_RULE :: ListMember where
  "ASSERTION_ERRORS_RULE = \<lparr>lm_member = ''assertionErrors'', lm_max = 256, lm_items = ''names'', lm_item = ''name'',
     lm_problem = nameProblem\<rparr>"

definition NAMES_NO_FILES :: string where
  "NAMES_NO_FILES = ''names no definition files''"

definition DECLARES_NO_NAMES :: string where
  "DECLARES_NO_NAMES = ''declares no assertion error names''"

definition problemText :: "string \<Rightarrow> string \<Rightarrow> string" where
  "problemText declaresNothing why = NON_INPUTS_FILE @ '' '' @ declaresNothing @ '': '' @ why"

definition NOTHING_DECLARED :: DeclaredSettings where
  "NOTHING_DECLARED = \<lparr>st_patterns = [], st_assertionErrors = [], st_problems = []\<rparr>"

definition unreadSettings :: "string \<Rightarrow> DeclaredSettings" where
  "unreadSettings why = NOTHING_DECLARED\<lparr>st_problems := [problemText NAMES_NO_FILES why]\<rparr>"

definition declaredList :: "json \<Rightarrow> ListMember \<Rightarrow> string \<Rightarrow> DeclaredList" where
  "declaredList v rule declaresNothing =
     (case listProblem v rule of
        Some problem \<Rightarrow> \<lparr>dl_items = [], dl_problems = [problemText declaresNothing problem]\<rparr>
      | None \<Rightarrow> \<lparr>dl_items = (case listedStrings v (lm_member rule) of None \<Rightarrow> [] | Some items \<Rightarrow> items), dl_problems = []\<rparr>)"

definition declaredSettings :: "json \<Rightarrow> DeclaredSettings" where
  "declaredSettings v =
     (if \<not> isRecord v then unreadSettings ''its top level is not a JSON object''
      else let patterns = declaredList v DEFECTS_RULE NAMES_NO_FILES;
               names = declaredList v ASSERTION_ERRORS_RULE DECLARES_NO_NAMES
           in \<lparr>st_patterns = dl_items patterns, st_assertionErrors = dl_items names,
               st_problems = dl_problems patterns @ dl_problems names\<rparr>)"

section \<open>The entries of the walk\<close>

datatype InvalidEntryKind =
    SettingsUnusable
  | PatternMatchedNothing
  | DepthBoundPassed
  | DirectoryLink
  | DirectoryNotListed
  | NotARegularFile
  | UnreadableEntry
  | NotJson
  | NoDefectsArray

record InvalidEntry =
  ie_kind :: InvalidEntryKind
  ie_path :: string
  ie_reason :: string

record DefinitionSource =
  ds_file :: string
  ds_position :: nat
  ds_value :: json

record DefinitionFiles =
  df_definitions :: "DefinitionSource list"
  df_invalidEntries :: "InvalidEntry list"
  df_assertionErrors :: "string list"

text \<open>A pattern by its text: patterns of one text match the same entries, so they need no identity of their own.\<close>

record DefinitionPattern =
  pt_text :: string
  pt_segments :: "string list"

text \<open>The entries of a directory as \<^verbatim>\<open>opendir\<close> gives them, and the errors of the file system.\<close>

datatype ItemKind = LinkEntry | DirectoryEntry | FileEntry | OtherEntry

record DirectoryItem =
  di_name :: string
  di_kind :: ItemKind

record IoError =
  io_code :: "string option"
  io_text :: string

record WalkHost =
  wh_git :: Git
  wh_opendir :: "string \<Rightarrow> IoError + DirectoryItem list"
  wh_holdsRepository :: "string \<Rightarrow> bool"
  wh_statIsDirectory :: "string \<Rightarrow> IoError + bool"
  wh_presence :: "string \<Rightarrow> Presence"
  wh_readFile :: "string \<Rightarrow> IoError + string"
  wh_parse :: "string \<Rightarrow> string + json"

definition isMissing :: "IoError \<Rightarrow> bool" where
  "isMissing error = (case io_code error of Some code \<Rightarrow> code \<in> {''ENOENT'', ''ENOTDIR''} | None \<Rightarrow> False)"

section \<open>Reading one JSON file\<close>

datatype Parsed = ParsedJson json | AbsentJson | InvalidJsonFile InvalidEntry

definition invalid :: "InvalidEntryKind \<Rightarrow> string \<Rightarrow> string \<Rightarrow> Parsed" where
  "invalid kind path reason = InvalidJsonFile \<lparr>ie_kind = kind, ie_path = path, ie_reason = reason\<rparr>"

text \<open>\<^verbatim>\<open>JSON_POSITION\<close>, anchored at the end of the message: the first place from which the rest of it matches.\<close>

definition digitsOf :: "string \<Rightarrow> (string \<times> string) option" where
  "digitsOf s = (let digits = takeWhile is_digit s in
     if digits = [] then None else Some (digits, drop (length digits) s))"

definition afterText :: "string \<Rightarrow> string \<Rightarrow> string option" where
  "afterText wanted s = (if starts_with s wanted then Some (drop (length wanted) s) else None)"

definition lineColumn :: "string \<Rightarrow> string option" where
  "lineColumn s =
     Option.bind (afterText '' (line '' s) (\<lambda>r. Option.bind (digitsOf r) (\<lambda>(line, r').
     Option.bind (afterText '' column '' r') (\<lambda>r''. Option.bind (digitsOf r'') (\<lambda>(column, r''').
     if r''' = '')'' then Some ('' (line '' @ line @ '', column '' @ column @ '')'') else None))))"

definition positionAt :: "string \<Rightarrow> string option" where
  "positionAt s =
     Option.bind (afterText '' JSON at position '' s) (\<lambda>r. Option.bind (digitsOf r) (\<lambda>(position, r').
     if r' = [] then Some ('' at position '' @ position)
     else map_option (\<lambda>where. '' at position '' @ position @ where) (lineColumn r')))"

definition positionText :: "string \<Rightarrow> string" where
  "positionText message = (case first_some positionAt (rev (suffixes message)) of None \<Rightarrow> [] | Some s \<Rightarrow> s)"

text \<open>The mark U+FEFF by its bytes in UTF-8, since a character of the model is a byte.\<close>

definition BYTE_ORDER_MARK :: string where
  "BYTE_ORDER_MARK = [CHR 0xEF, CHR 0xBB, CHR 0xBF]"

definition parseJson :: "WalkHost \<Rightarrow> string \<Rightarrow> string \<Rightarrow> Parsed" where
  "parseJson host file contents =
     (let json = (if starts_with contents BYTE_ORDER_MARK then drop (length BYTE_ORDER_MARK) contents else contents) in
      case wh_parse host json of
        Inl message \<Rightarrow> invalid NotJson file (''it is not valid JSON'' @ positionText message)
      | Inr v \<Rightarrow> ParsedJson v)"

definition readRegularFile :: "WalkHost \<Rightarrow> string \<Rightarrow> string \<Rightarrow> Parsed" where
  "readRegularFile host path file =
     (case wh_readFile host path of
        Inl error \<Rightarrow> (if isMissing error then AbsentJson
          else invalid UnreadableEntry file (''it cannot be read: '' @ io_text error))
      | Inr contents \<Rightarrow> parseJson host file contents)"

definition readJsonFile :: "WalkHost \<Rightarrow> string \<Rightarrow> string \<Rightarrow> Parsed" where
  "readJsonFile host root file =
     (let path = posixJoin [root, file] in
      case wh_presence host path of
        PresentNothing \<Rightarrow> AbsentJson
      | PresentLink \<Rightarrow> invalid NotARegularFile file ''it is a symbolic link, which is never followed''
      | PresentOther \<Rightarrow> invalid NotARegularFile file ''it is not a regular file''
      | PresentUnreadable reason \<Rightarrow> invalid UnreadableEntry file (''it cannot be read: '' @ reason)
      | PresentFile \<Rightarrow> readRegularFile host path file)"

section \<open>The walk\<close>

definition MAX_WALK_DEPTH :: nat where
  "MAX_WALK_DEPTH = 40"

definition SKIPPED_DIRECTORIES :: "string list" where
  "SKIPPED_DIRECTORIES = [''node_modules'', ''.git'']"

record WalkScope =
  wk_root :: string
  wk_patterns :: "DefinitionPattern list"
  wk_stateDirectory :: string

record WalkState =
  ww_ignored :: "string list"
  ww_unconfirmed :: "(string, string) jsmap"
  ww_files :: "string list"
  ww_matched :: "DefinitionPattern list"
  ww_invalidEntries :: "InvalidEntry list"

record PendingDirectory =
  pd_directory :: string
  pd_segments :: "string list"

definition relativePath :: "string list \<Rightarrow> string" where
  "relativePath segments = (if segments = [] then ROOT_PATH else join ''/'' segments)"

definition noteInvalid :: "InvalidEntryKind \<Rightarrow> string \<Rightarrow> string \<Rightarrow> WalkState \<Rightarrow> WalkState" where
  "noteInvalid kind path reason s =
     s\<lparr>ww_invalidEntries := ww_invalidEntries s @ [\<lparr>ie_kind = kind, ie_path = path, ie_reason = reason\<rparr>]\<rparr>"

definition notAFile :: "string list \<Rightarrow> string \<Rightarrow> WalkState \<Rightarrow> WalkState" where
  "notAFile segments why =
     noteInvalid NotARegularFile (relativePath segments)
       (''a pattern matches it, but '' @ why @ '', and only a regular file is read as a definition file'')"

definition patternsText :: "DefinitionPattern list \<Rightarrow> string" where
  "patternsText patterns = join '', '' (map (\<lambda>pattern. stringify (JStr (pt_text pattern))) patterns)"

definition addIgnored :: "WalkHost \<Rightarrow> string \<Rightarrow> WalkState \<Rightarrow> WalkState" where
  "addIgnored host repository s =
     (case readIgnoredPaths (wh_git host) repository of
        Inl _ \<Rightarrow> s
      | Inr listing \<Rightarrow> s\<lparr>
          ww_ignored := ww_ignored s @ il_paths listing,
          ww_unconfirmed := fold (\<lambda>directory. jset directory repository) (il_unconfirmed listing) (ww_unconfirmed s)\<rparr>)"

text \<open>
  From a directory up to the root, the first that is unconfirmed. \<^verbatim>\<open>dirname\<close> of a path of \<open>n\<close> segments
  is the path of its first \<open>n - 1\<close>.
\<close>

definition segmentsPath :: "string list \<Rightarrow> string" where
  "segmentsPath segments = ''/'' @ join ''/'' segments"

fun unconfirmedAbove :: "string \<Rightarrow> (string, string) jsmap \<Rightarrow> string list \<Rightarrow> string option" where
  "unconfirmedAbove root unconfirmed reversed =
     (case map_of unconfirmed (segmentsPath (rev reversed)) of
        Some repository \<Rightarrow> Some repository
      | None \<Rightarrow>
          (if segmentsPath (rev reversed) = root then None
           else case reversed of [] \<Rightarrow> None | _ # parent \<Rightarrow> unconfirmedAbove root unconfirmed parent))"

definition unconfirmedRepository :: "WalkScope \<Rightarrow> WalkState \<Rightarrow> string \<Rightarrow> string option" where
  "unconfirmedRepository scope s directory =
     unconfirmedAbove (wk_root scope) (ww_unconfirmed s) (rev (resolvedSegments directory))"

definition checkUnconfirmed :: "WalkHost \<Rightarrow> WalkScope \<Rightarrow> string \<Rightarrow> DirectoryItem list \<Rightarrow> WalkState \<Rightarrow> WalkState" where
  "checkUnconfirmed host scope directory entries s =
     (case unconfirmedRepository scope s directory of
        None \<Rightarrow> s
      | Some repository \<Rightarrow>
          (if entries = [] then s
           else case readCheckedIgnored (wh_git host) repository
                  (map (\<lambda>entry. relativePosixPath repository (posixJoin [directory, di_name entry])) entries) of
               Inl _ \<Rightarrow> s
             | Inr paths \<Rightarrow> s\<lparr>ww_ignored := ww_ignored s @ paths\<rparr>))"

definition isSkipped :: "WalkScope \<Rightarrow> WalkState \<Rightarrow> string \<Rightarrow> string \<Rightarrow> bool" where
  "isSkipped scope s path name =
     (name \<in> set SKIPPED_DIRECTORIES \<or> path \<in> set (ww_ignored s) \<or> path = wk_stateDirectory scope)"

definition listedItems :: "WalkHost \<Rightarrow> PendingDirectory \<Rightarrow> WalkState \<Rightarrow> DirectoryItem list \<times> WalkState" where
  "listedItems host pending s =
     (case wh_opendir host (pd_directory pending) of
        Inr entries \<Rightarrow> (sort_key di_name entries, s)
      | Inl error \<Rightarrow> ([], if isMissing error then s
          else noteInvalid DirectoryNotListed (relativePath (pd_segments pending))
            (''the directory cannot be listed, so the definition files it may hold are not read: '' @ io_text error) s))"

definition directoryLinkProblem :: "WalkHost \<Rightarrow> string \<Rightarrow> string option" where
  "directoryLinkProblem host path =
     (case wh_statIsDirectory host path of
        Inr isDirectory \<Rightarrow>
          (if isDirectory then Some ''it links to a directory, which the walk never enters'' else None)
      | Inl error \<Rightarrow>
          (if isMissing error then None
           else Some (''it is a link whose target cannot be checked ('' @ io_text error @
             ''), and the walk never follows a link'')))"

definition visitDefinitionLink :: "WalkHost \<Rightarrow> string \<Rightarrow> string list \<Rightarrow> DefinitionPattern list \<Rightarrow> DefinitionPattern list \<Rightarrow>
    WalkState \<Rightarrow> WalkState" where
  "visitDefinitionLink host path segments matching below s =
     (if matching \<noteq> [] then notAFile segments ''it is a symbolic link, which is never followed'' s
      else if below = [] then s
      else case directoryLinkProblem host path of
          None \<Rightarrow> s
        | Some problem \<Rightarrow> noteInvalid DirectoryLink (relativePath segments)
            (problem @ '', so the definition files '' @ patternsText below @
             '' may match below it are not read; narrow the pattern or move the files'') s)"

definition belowDirectory :: "string \<Rightarrow> string list \<Rightarrow> DefinitionPattern list \<Rightarrow> WalkState \<Rightarrow>
    PendingDirectory option \<times> WalkState" where
  "belowDirectory path segments below s =
     (if below = [] then (None, s)
      else if length segments > MAX_WALK_DEPTH then
        (None, noteInvalid DepthBoundPassed (relativePath segments)
          (''it lies more than '' @ show_nat MAX_WALK_DEPTH @
           '' levels below the consumer root, so the definition files '' @ patternsText below @
           '' may match below it are not read'') s)
      else (Some \<lparr>pd_directory = path, pd_segments = segments\<rparr>, s))"

definition visitItem :: "WalkHost \<Rightarrow> WalkScope \<Rightarrow> DirectoryItem \<Rightarrow> string \<Rightarrow> string list \<Rightarrow> WalkState \<Rightarrow>
    PendingDirectory option \<times> WalkState" where
  "visitItem host scope entry path segments s =
     (let matching = filter (\<lambda>pattern. matchesPath (pt_segments pattern) segments) (wk_patterns scope);
          below = filter (\<lambda>pattern. matchesBelow (pt_segments pattern) segments) (wk_patterns scope);
          s = s\<lparr>ww_matched := fold jadd matching (ww_matched s)\<rparr>
      in case di_kind entry of
           LinkEntry \<Rightarrow> (None, visitDefinitionLink host path segments matching below s)
         | DirectoryEntry \<Rightarrow>
             belowDirectory path segments below
               (if list_ex (\<lambda>pattern. pattern \<notin> set below) matching
                then notAFile segments ''it is a directory'' s else s)
         | FileEntry \<Rightarrow>
             (None, if matching = [] then s else s\<lparr>ww_files := ww_files s @ [relativePath segments]\<rparr>)
         | OtherEntry \<Rightarrow>
             (None, if matching = [] then s else notAFile segments ''it is not a regular file'' s))"

definition walkEntry :: "WalkHost \<Rightarrow> WalkScope \<Rightarrow> PendingDirectory \<Rightarrow> DirectoryItem \<Rightarrow>
    PendingDirectory list \<times> WalkState \<Rightarrow> PendingDirectory list \<times> WalkState" where
  "walkEntry host scope parent entry = (\<lambda>(found, s).
     let segments = pd_segments parent @ [di_name entry];
         path = posixJoin [pd_directory parent, di_name entry]
     in if isSkipped scope s path (di_name entry) then (found, s)
        else case visitItem host scope entry path segments s of
               (Some directory, s') \<Rightarrow> (found @ [directory], s')
             | (None, s') \<Rightarrow> (found, s'))"

text \<open>One directory of the walk: the directories to walk below it, in order, and the state.\<close>

definition walkDirectory :: "WalkHost \<Rightarrow> WalkScope \<Rightarrow> PendingDirectory \<Rightarrow> WalkState \<Rightarrow>
    PendingDirectory list \<times> WalkState" where
  "walkDirectory host scope parent s =
     (let s = (if pd_segments parent \<noteq> [] \<and> wh_holdsRepository host (pd_directory parent)
               then addIgnored host (pd_directory parent) s else s);
          (entries, s) = listedItems host parent s;
          s = checkUnconfirmed host scope (pd_directory parent) entries s
      in fold (walkEntry host scope parent) entries ([], s))"

lemma belowDirectory_Some:
  "fst (belowDirectory path segments below s) = Some d \<Longrightarrow>
   below \<noteq> [] \<and> length segments \<le> MAX_WALK_DEPTH \<and> d = \<lparr>pd_directory = path, pd_segments = segments\<rparr>"
  by (auto simp: belowDirectory_def split: if_splits)

lemma visitItem_Some:
  assumes "fst (visitItem host scope entry path segments s) = Some d"
  shows "di_kind entry = DirectoryEntry \<and> length segments \<le> MAX_WALK_DEPTH \<and>
    d = \<lparr>pd_directory = path, pd_segments = segments\<rparr>"
  using assms by (cases "di_kind entry") (auto simp: visitItem_def Let_def dest!: belowDirectory_Some)

lemma visitItem_found:
  "visitItem host scope entry path segments s = (Some d, s') \<Longrightarrow>
   di_kind entry = DirectoryEntry \<and> length segments \<le> MAX_WALK_DEPTH \<and> d = \<lparr>pd_directory = path, pd_segments = segments\<rparr>"
  by (rule visitItem_Some [of host scope entry path segments s]) simp

text \<open>A directory found lies one level lower, and not beyond the bound.\<close>

definition oneBelow :: "PendingDirectory \<Rightarrow> PendingDirectory \<Rightarrow> bool" where
  "oneBelow parent d =
     (length (pd_segments d) = Suc (length (pd_segments parent)) \<and> length (pd_segments d) \<le> MAX_WALK_DEPTH)"

lemma walkEntry_oneBelow:
  "list_all (oneBelow parent) (fst acc) \<Longrightarrow> list_all (oneBelow parent) (fst (walkEntry host scope parent entry acc))"
  by (cases acc) (auto simp: walkEntry_def Let_def oneBelow_def split: prod.splits option.splits
    dest!: visitItem_found)

lemma walkDirectory_oneBelow: "list_all (oneBelow parent) (fst (walkDirectory host scope parent s))"
proof -
  have "list_all (oneBelow parent) (fst (fold (walkEntry host scope parent) entries acc))"
    if "list_all (oneBelow parent) (fst acc)" for entries acc
    using that by (induction entries arbitrary: acc) (simp_all add: walkEntry_oneBelow)
  then show ?thesis by (simp add: walkDirectory_def Let_def split_beta)
qed

text \<open>
  The walk of a queue of directories. It ends whatever the host answers, since each directory found lies one
  level lower than the one it was found in, and none lies beyond the bound.
\<close>

definition levelsLeft :: "PendingDirectory list \<Rightarrow> nat multiset" where
  "levelsLeft queue = mset (map (\<lambda>d. Suc MAX_WALK_DEPTH - length (pd_segments d)) queue)"

lemma levelsLeft_decreases:
  assumes "list_all (oneBelow parent) found"
  shows "(levelsLeft (rest @ found), levelsLeft (parent # rest)) \<in> mult less_than"
proof -
  have "\<forall>k \<in># levelsLeft found. k < Suc MAX_WALK_DEPTH - length (pd_segments parent)"
    using assms by (auto simp: levelsLeft_def list_all_iff oneBelow_def)
  then have "(levelsLeft rest + levelsLeft found, levelsLeft rest + {#Suc MAX_WALK_DEPTH - length (pd_segments parent)#})
      \<in> mult less_than"
    by (intro one_step_implies_mult) auto
  then show ?thesis by (simp add: levelsLeft_def)
qed

function walkFrom :: "WalkHost \<Rightarrow> WalkScope \<Rightarrow> PendingDirectory list \<Rightarrow> WalkState \<Rightarrow> WalkState" where
  "walkFrom host scope [] s = s"
| "walkFrom host scope (parent # rest) s =
     walkFrom host scope (rest @ fst (walkDirectory host scope parent s)) (snd (walkDirectory host scope parent s))"
  by pat_completeness auto
termination
  by (relation "inv_image (mult less_than) (\<lambda>(_, _, queue, _). levelsLeft queue)")
     (auto simp: wf_mult intro: levelsLeft_decreases walkDirectory_oneBelow)

definition walkRoot :: "WalkHost \<Rightarrow> WalkScope \<Rightarrow> WalkState \<Rightarrow> WalkState" where
  "walkRoot host scope s =
     walkFrom host scope [\<lparr>pd_directory = wk_root scope, pd_segments = []\<rparr>] (addIgnored host (wk_root scope) s)"

definition unmatchedPatterns :: "WalkScope \<Rightarrow> WalkState \<Rightarrow> InvalidEntry list" where
  "unmatchedPatterns scope s =
     map (\<lambda>pattern. \<lparr>ie_kind = PatternMatchedNothing, ie_path = NON_INPUTS_FILE,
            ie_reason = ''the pattern '' @ stringify (JStr (pt_text pattern)) @
              '' matches no file, so no definition file it was written to name is read; the walk skips node_modules, '' @
              ''.git, the state directory and what git ignores''\<rparr>)
       (filter (\<lambda>pattern. pattern \<notin> set (ww_matched s)) (wk_patterns scope))"

section \<open>Reading the definition files\<close>

text \<open>The definitions of a file, none when it is gone, or the one entry its problem makes.\<close>

fun numberedFrom :: "string \<Rightarrow> nat \<Rightarrow> json list \<Rightarrow> DefinitionSource list" where
  "numberedFrom path position [] = []"
| "numberedFrom path position (v # vs) =
     \<lparr>ds_file = path, ds_position = position, ds_value = v\<rparr> # numberedFrom path (Suc position) vs"

definition readDefinitions :: "WalkHost \<Rightarrow> string \<Rightarrow> string \<Rightarrow> InvalidEntry + DefinitionSource list" where
  "readDefinitions host root path =
     (case readJsonFile host root path of
        AbsentJson \<Rightarrow> Inr []
      | InvalidJsonFile entry \<Rightarrow> Inl entry
      | ParsedJson v \<Rightarrow>
          (case objectField v ''defects'' of
             Some (JArr defects) \<Rightarrow> Inr (numberedFrom path 0 defects)
           | _ \<Rightarrow> Inl \<lparr>ie_kind = NoDefectsArray, ie_path = path,
               ie_reason = ''it holds no defects array at its top level''\<rparr>))"

definition readSettings :: "WalkHost \<Rightarrow> string \<Rightarrow> DeclaredSettings" where
  "readSettings host consumerRoot =
     (case readJsonFile host consumerRoot NON_INPUTS_FILE of
        AbsentJson \<Rightarrow> NOTHING_DECLARED
      | InvalidJsonFile entry \<Rightarrow> unreadSettings (ie_reason entry)
      | ParsedJson v \<Rightarrow> declaredSettings v)"

definition settingsEntry :: "string \<Rightarrow> InvalidEntry" where
  "settingsEntry reason = \<lparr>ie_kind = SettingsUnusable, ie_path = NON_INPUTS_FILE, ie_reason = reason\<rparr>"

definition addRead :: "WalkHost \<Rightarrow> string \<Rightarrow> string \<Rightarrow> DefinitionSource list \<times> InvalidEntry list \<Rightarrow>
    DefinitionSource list \<times> InvalidEntry list" where
  "addRead host root path = (\<lambda>(definitions, entries).
     case readDefinitions host root path of
       Inl entry \<Rightarrow> (definitions, entries @ [entry])
     | Inr read \<Rightarrow> (definitions @ read, entries))"

definition walkScope :: "string \<Rightarrow> string \<Rightarrow> string list \<Rightarrow> WalkScope" where
  "walkScope consumerRoot stateDirectory patterns =
     \<lparr>wk_root = resolveAt consumerRoot [],
      wk_patterns = map (\<lambda>pattern. \<lparr>pt_text = pattern, pt_segments = split_on separator pattern\<rparr>) patterns,
      wk_stateDirectory = resolveAt stateDirectory []\<rparr>"

definition startedWalk :: "InvalidEntry list \<Rightarrow> WalkState" where
  "startedWalk entries = \<lparr>ww_ignored = [], ww_unconfirmed = [], ww_files = [], ww_matched = [],
     ww_invalidEntries = entries\<rparr>"

definition readDefinitionFiles :: "WalkHost \<Rightarrow> string \<Rightarrow> string \<Rightarrow> DefinitionFiles" where
  "readDefinitionFiles host consumerRoot stateDirectory =
     (let settings = readSettings host consumerRoot;
          invalidEntries = map settingsEntry (st_problems settings)
      in if st_patterns settings = [] then
           \<lparr>df_definitions = [], df_invalidEntries = invalidEntries, df_assertionErrors = st_assertionErrors settings\<rparr>
         else let scope = walkScope consumerRoot stateDirectory (st_patterns settings);
                  walked = walkRoot host scope (startedWalk invalidEntries);
                  (definitions, entries) = fold (addRead host (wk_root scope)) (ww_files walked)
                    ([], ww_invalidEntries walked @ unmatchedPatterns scope walked)
              in \<lparr>df_definitions = definitions, df_invalidEntries = entries,
                  df_assertionErrors = st_assertionErrors settings\<rparr>)"

section \<open>What the walk finds\<close>

text \<open>
  A directory holds a definition file at the names given when they lead to it through directories no deeper than
  the bound, none of them skipped, ignored or the state directory, and a pattern matches the path. Which
  directories some pattern could match below does not enter it.
\<close>

definition mayVisit :: "WalkScope \<Rightarrow> string list \<Rightarrow> string \<Rightarrow> string \<Rightarrow> bool" where
  "mayVisit scope ignored path name =
     (name \<notin> set SKIPPED_DIRECTORIES \<and> path \<notin> set ignored \<and> path \<noteq> wk_stateDirectory scope)"

definition itemsOf :: "WalkHost \<Rightarrow> string \<Rightarrow> DirectoryItem list" where
  "itemsOf host directory = (case wh_opendir host directory of Inl _ \<Rightarrow> [] | Inr entries \<Rightarrow> entries)"

fun holdsFile :: "WalkHost \<Rightarrow> WalkScope \<Rightarrow> string list \<Rightarrow> string \<Rightarrow> string list \<Rightarrow> string list \<Rightarrow> bool" where
  "holdsFile host scope ignored directory segments [] = False"
| "holdsFile host scope ignored directory segments (name # names) =
     (mayVisit scope ignored (posixJoin [directory, name]) name \<and>
      (if names = [] then
         \<lparr>di_name = name, di_kind = FileEntry\<rparr> \<in> set (itemsOf host directory) \<and>
         list_ex (\<lambda>pattern. matchesPath (pt_segments pattern) (segments @ [name])) (wk_patterns scope)
       else
         \<lparr>di_name = name, di_kind = DirectoryEntry\<rparr> \<in> set (itemsOf host directory) \<and>
         length (segments @ [name]) \<le> MAX_WALK_DEPTH \<and>
         holdsFile host scope ignored (posixJoin [directory, name]) (segments @ [name]) names))"

lemma holdsFile_fewer_ignored:
  "holdsFile host scope ignored directory segments names \<Longrightarrow> set fewer \<subseteq> set ignored \<Longrightarrow>
   holdsFile host scope fewer directory segments names"
  by (induction names arbitrary: directory segments) (auto simp: mayVisit_def split: if_splits)

lemma holdsFile_matches:
  "holdsFile host scope ignored directory segments names \<Longrightarrow>
   list_ex (\<lambda>pattern. matchesPath (pt_segments pattern) (segments @ names)) (wk_patterns scope)"
  by (induction names arbitrary: directory segments) (force split: if_splits)+

text \<open>A pattern that matches below a directory is one the directory is walked for.\<close>

lemma matches_below: "matchesPath pattern (directory @ rest) \<Longrightarrow> rest \<noteq> [] \<Longrightarrow> matchesBelow pattern directory"
  by (auto simp: matchesBelow_below segments.below_iff matchesPath_def matchesSequence_denotes)

text \<open>The walk only ever adds files and ignored paths.\<close>

definition grows :: "WalkState \<Rightarrow> WalkState \<Rightarrow> bool" where
  "grows s s' = (set (ww_ignored s) \<subseteq> set (ww_ignored s') \<and> set (ww_files s) \<subseteq> set (ww_files s'))"

lemma grows_refl [simp]: "grows s s"
  by (simp add: grows_def)

lemma grows_trans: "grows s t \<Longrightarrow> grows t u \<Longrightarrow> grows s u"
  by (auto simp: grows_def)

lemma grows_noteInvalid [simp]: "grows s (noteInvalid kind path reason s)"
  by (simp add: grows_def noteInvalid_def)

lemma grows_notAFile [simp]: "grows s (notAFile segments why s)"
  by (simp add: notAFile_def)

text \<open>What an item adds, of the parts of the state these lemmas read.\<close>

lemma noteInvalid_same [simp]:
  "ww_ignored (noteInvalid kind path reason s) = ww_ignored s" "ww_files (noteInvalid kind path reason s) = ww_files s"
  "ww_matched (noteInvalid kind path reason s) = ww_matched s"
  by (simp_all add: noteInvalid_def)

lemma notAFile_same [simp]:
  "ww_ignored (notAFile segments why s) = ww_ignored s" "ww_files (notAFile segments why s) = ww_files s"
  "ww_matched (notAFile segments why s) = ww_matched s"
  by (simp_all add: notAFile_def)

lemma visitDefinitionLink_same [simp]:
  "ww_ignored (visitDefinitionLink host path segments matching below s) = ww_ignored s"
  "ww_files (visitDefinitionLink host path segments matching below s) = ww_files s"
  by (auto simp: visitDefinitionLink_def split: option.splits)

lemma belowDirectory_same [simp]:
  "ww_ignored (snd (belowDirectory path segments below s)) = ww_ignored s"
  "ww_files (snd (belowDirectory path segments below s)) = ww_files s"
  by (auto simp: belowDirectory_def)

definition itemMatches :: "WalkScope \<Rightarrow> string list \<Rightarrow> bool" where
  "itemMatches scope segments = list_ex (\<lambda>pattern. matchesPath (pt_segments pattern) segments) (wk_patterns scope)"

lemma filter_matching: "(filter (\<lambda>pattern. matchesPath (pt_segments pattern) segments) (wk_patterns scope) = []) =
    (\<not> itemMatches scope segments)"
  by (auto simp: itemMatches_def filter_empty_conv list_ex_iff)

lemma visitItem_ignored [simp]: "ww_ignored (snd (visitItem host scope entry path segments s)) = ww_ignored s"
  by (cases "di_kind entry") (simp_all add: visitItem_def Let_def)

lemma visitItem_files:
  "ww_files (snd (visitItem host scope entry path segments s)) =
     (if di_kind entry = FileEntry \<and> itemMatches scope segments then ww_files s @ [relativePath segments] else ww_files s)"
  by (cases "di_kind entry") (simp_all add: visitItem_def Let_def filter_matching)

lemma visitItem_enters:
  assumes "di_kind entry = DirectoryEntry" "length segments \<le> MAX_WALK_DEPTH" "itemMatches scope (segments @ rest)"
    "rest \<noteq> []"
  shows "fst (visitItem host scope entry path segments s) = Some \<lparr>pd_directory = path, pd_segments = segments\<rparr>"
proof -
  have "filter (\<lambda>pattern. matchesBelow (pt_segments pattern) segments) (wk_patterns scope) \<noteq> []"
    using assms(3,4) matches_below by (fastforce simp: itemMatches_def filter_empty_conv list_ex_iff)
  then show ?thesis using assms(1,2) by (simp add: visitItem_def belowDirectory_def Let_def)
qed

lemma walkEntry_eq:
  "walkEntry host scope parent entry acc =
     (let segments = pd_segments parent @ [di_name entry];
          path = posixJoin [pd_directory parent, di_name entry];
          visited = visitItem host scope entry path segments (snd acc)
      in if isSkipped scope (snd acc) path (di_name entry) then acc
         else (fst acc @ (case fst visited of None \<Rightarrow> [] | Some d \<Rightarrow> [d]), snd visited))"
  by (cases acc) (simp add: walkEntry_def Let_def split: prod.split option.split)

lemma walkEntry_ignored [simp]: "ww_ignored (snd (walkEntry host scope parent entry acc)) = ww_ignored (snd acc)"
  by (simp add: walkEntry_eq Let_def)

lemma walkEntry_keeps:
  "set (fst acc) \<subseteq> set (fst (walkEntry host scope parent entry acc))"
  "set (ww_files (snd acc)) \<subseteq> set (ww_files (snd (walkEntry host scope parent entry acc)))"
  by (auto simp: walkEntry_eq Let_def visitItem_files)

lemma fold_walkEntry_ignored [simp]:
  "ww_ignored (snd (fold (walkEntry host scope parent) entries acc)) = ww_ignored (snd acc)"
  by (induction entries arbitrary: acc) simp_all

lemma fold_walkEntry_keeps:
  "set (fst acc) \<subseteq> set (fst (fold (walkEntry host scope parent) entries acc)) \<and>
   set (ww_files (snd acc)) \<subseteq> set (ww_files (snd (fold (walkEntry host scope parent) entries acc)))"
proof (induction entries arbitrary: acc)
  case (Cons entry entries)
  from Cons [of "walkEntry host scope parent entry acc"] walkEntry_keeps [of acc host scope parent entry]
  show ?case by auto
qed simp

lemma isSkipped_iff: "isSkipped scope s path name = (\<not> mayVisit scope (ww_ignored s) path name)"
  by (auto simp: isSkipped_def mayVisit_def)

lemma walkEntry_file:
  assumes "mayVisit scope (ww_ignored (snd acc)) (posixJoin [pd_directory parent, name]) name"
    and "itemMatches scope (pd_segments parent @ [name])"
  shows "relativePath (pd_segments parent @ [name]) \<in>
    set (ww_files (snd (walkEntry host scope parent \<lparr>di_name = name, di_kind = FileEntry\<rparr> acc)))"
  using assms by (simp add: walkEntry_eq Let_def isSkipped_iff visitItem_files)

lemma walkEntry_directory:
  assumes "mayVisit scope (ww_ignored (snd acc)) (posixJoin [pd_directory parent, name]) name"
    and "length (pd_segments parent @ [name]) \<le> MAX_WALK_DEPTH"
    and "itemMatches scope ((pd_segments parent @ [name]) @ rest)" "rest \<noteq> []"
  shows "\<lparr>pd_directory = posixJoin [pd_directory parent, name], pd_segments = pd_segments parent @ [name]\<rparr> \<in>
    set (fst (walkEntry host scope parent \<lparr>di_name = name, di_kind = DirectoryEntry\<rparr> acc))"
  using assms(1) visitItem_enters [of "\<lparr>di_name = name, di_kind = DirectoryEntry\<rparr>", OF _ assms(2-4),
      of host "posixJoin [pd_directory parent, name]" "snd acc"]
  by (simp add: walkEntry_eq Let_def isSkipped_iff)

text \<open>An entry of the listing is visited from some state with the same ignored paths, and what it adds stays.\<close>

lemma fold_walkEntry_visits:
  assumes "entry \<in> set entries"
  obtains acc1 where "ww_ignored (snd acc1) = ww_ignored (snd acc)"
    "set (fst (walkEntry host scope parent entry acc1)) \<subseteq> set (fst (fold (walkEntry host scope parent) entries acc))"
    "set (ww_files (snd (walkEntry host scope parent entry acc1))) \<subseteq>
       set (ww_files (snd (fold (walkEntry host scope parent) entries acc)))"
proof -
  from split_list [OF assms] obtain xs ys where "entries = xs @ entry # ys" by blast
  then show thesis using that [of "fold (walkEntry host scope parent) xs acc"]
    fold_walkEntry_keeps [of "walkEntry host scope parent entry (fold (walkEntry host scope parent) xs acc)"] by simp
qed

lemma listedItems_set: "set (fst (listedItems host parent s)) = set (itemsOf host (pd_directory parent))"
  by (auto simp: listedItems_def itemsOf_def split: sum.split)

lemma listedItems_same [simp]:
  "ww_ignored (snd (listedItems host parent s)) = ww_ignored s" "ww_files (snd (listedItems host parent s)) = ww_files s"
  by (auto simp: listedItems_def split: sum.split)

lemma addIgnored_grows: "grows s (addIgnored host repository s)"
  by (auto simp: addIgnored_def grows_def split: sum.split)

lemma checkUnconfirmed_grows: "grows s (checkUnconfirmed host scope directory entries s)"
  by (auto simp: checkUnconfirmed_def grows_def split: option.split sum.split)

text \<open>The state a directory's entries are visited from.\<close>

definition entered :: "WalkHost \<Rightarrow> WalkScope \<Rightarrow> PendingDirectory \<Rightarrow> WalkState \<Rightarrow> WalkState" where
  "entered host scope parent s =
     (let s = (if pd_segments parent \<noteq> [] \<and> wh_holdsRepository host (pd_directory parent)
               then addIgnored host (pd_directory parent) s else s)
      in checkUnconfirmed host scope (pd_directory parent) (fst (listedItems host parent s)) (snd (listedItems host parent s)))"

lemma walkDirectory_entered:
  "walkDirectory host scope parent s =
     fold (walkEntry host scope parent) (fst (listedItems host parent s)) ([], entered host scope parent s)"
proof -
  have "fst (listedItems host parent t) = fst (listedItems host parent s)" for t
    by (simp add: listedItems_def split: sum.split)
  note same = this [of "if pd_segments parent \<noteq> [] \<and> wh_holdsRepository host (pd_directory parent)
      then addIgnored host (pd_directory parent) s else s"]
  show ?thesis unfolding walkDirectory_def entered_def Let_def split_beta same ..
qed

lemma entered_grows: "grows s (entered host scope parent s)"
proof -
  have "grows t (checkUnconfirmed host scope directory entries (snd (listedItems host parent t)))" for t directory entries
    using checkUnconfirmed_grows [of "snd (listedItems host parent t)"] by (simp add: grows_def)
  then show ?thesis
    using addIgnored_grows [of s host "pd_directory parent"] by (auto simp: entered_def Let_def intro: grows_trans)
qed

lemma walkDirectory_grows: "grows s (snd (walkDirectory host scope parent s))"
  using entered_grows [of s host scope parent] fold_walkEntry_keeps [of "([], entered host scope parent s)" host scope parent
      "fst (listedItems host parent s)"]
  by (auto simp: walkDirectory_entered grows_def)

lemma walkFrom_grows: "grows s (walkFrom host scope queue s)"
  by (induction host scope queue s rule: walkFrom.induct) (auto intro: grows_trans walkDirectory_grows)

text \<open>Nothing a directory of the queue holds is left out, whatever the ignored paths grow to.\<close>

lemma walkFrom_complete:
  assumes "d \<in> set queue"
    and "set (ww_ignored (walkFrom host scope queue s)) \<subseteq> set ignored"
    and "holdsFile host scope ignored (pd_directory d) (pd_segments d) names"
  shows "relativePath (pd_segments d @ names) \<in> set (ww_files (walkFrom host scope queue s))"
  using assms
proof (induction host scope queue s arbitrary: d names rule: walkFrom.induct)
  case (2 host scope parent rest s)
  let ?walked = "walkDirectory host scope parent s"
  have final: "walkFrom host scope (parent # rest) s = walkFrom host scope (rest @ fst ?walked) (snd ?walked)" by simp
  have below: "relativePath (pd_segments e @ more_names) \<in> set (ww_files (walkFrom host scope (parent # rest) s))"
    if "e \<in> set (rest @ fst ?walked)" "holdsFile host scope ignored (pd_directory e) (pd_segments e) more_names" for e more_names
    using 2(1) [OF that(1) _ that(2)] 2(3) unfolding final by blast
  show ?case
  proof (cases "d \<in> set rest")
    case True
    then show ?thesis using below 2(4) by simp
  next
    case False
    then have d: "d = parent" using 2(2) by simp
    from 2(4) obtain name others where names: "names = name # others" by (cases names) auto
    let ?path = "posixJoin [pd_directory d, name]"
    have held: "holdsFile host scope ignored (pd_directory parent) (pd_segments parent) (name # others)"
      using 2(4) unfolding names d .
    have "set (ww_ignored (entered host scope parent s)) \<subseteq> set (ww_ignored (snd ?walked))"
      by (simp add: walkDirectory_entered)
    moreover have "grows (snd ?walked) (walkFrom host scope (parent # rest) s)" unfolding final by (rule walkFrom_grows)
    ultimately have ign: "set (ww_ignored (entered host scope parent s)) \<subseteq> set ignored"
      using 2(3) unfolding grows_def by blast
    have may: "mayVisit scope (ww_ignored (entered host scope parent s)) (posixJoin [pd_directory parent, name]) name"
      using held ign by (auto simp: mayVisit_def)
    have match: "itemMatches scope (pd_segments parent @ name # others)"
      using holdsFile_matches [OF held] by (simp add: itemMatches_def)
    show ?thesis
    proof (cases "others = []")
      case True
      have "\<lparr>di_name = name, di_kind = FileEntry\<rparr> \<in> set (fst (listedItems host parent s))"
        using held True by (simp add: listedItems_set)
      from fold_walkEntry_visits [OF this] obtain acc1 where acc1:
        "ww_ignored (snd acc1) = ww_ignored (entered host scope parent s)"
        "set (ww_files (snd (walkEntry host scope parent \<lparr>di_name = name, di_kind = FileEntry\<rparr> acc1))) \<subseteq> set (ww_files (snd ?walked))"
        by (metis snd_conv walkDirectory_entered)
      have "relativePath (pd_segments parent @ [name]) \<in>
          set (ww_files (snd (walkEntry host scope parent \<lparr>di_name = name, di_kind = FileEntry\<rparr> acc1)))"
        using may match True by (intro walkEntry_file) (simp_all add: acc1(1))
      then show ?thesis using acc1(2) walkFrom_grows [of "snd ?walked" host scope "rest @ fst ?walked"]
        by (auto simp: names d True grows_def)
    next
      case False
      have "\<lparr>di_name = name, di_kind = DirectoryEntry\<rparr> \<in> set (fst (listedItems host parent s))"
        using held False by (simp add: listedItems_set)
      from fold_walkEntry_visits [OF this] obtain acc1 where acc1:
        "ww_ignored (snd acc1) = ww_ignored (entered host scope parent s)"
        "set (fst (walkEntry host scope parent \<lparr>di_name = name, di_kind = DirectoryEntry\<rparr> acc1)) \<subseteq> set (fst ?walked)"
        by (metis snd_conv walkDirectory_entered)
      let ?found = "\<lparr>pd_directory = posixJoin [pd_directory parent, name], pd_segments = pd_segments parent @ [name]\<rparr>"
      have "?found \<in> set (fst (walkEntry host scope parent \<lparr>di_name = name, di_kind = DirectoryEntry\<rparr> acc1))"
        using may match False held by (intro walkEntry_directory [where rest = others]) (simp_all add: acc1(1))
      then have "?found \<in> set (rest @ fst ?walked)" using acc1(2) by auto
      from below [OF this] held False show ?thesis by (simp add: names d)
    qed
  qed
qed simp

text \<open>
  And nothing else is found: each file of the walk is one its root holds, and each directory of its queue one the
  root leads to.
\<close>

fun leadsTo :: "WalkHost \<Rightarrow> WalkScope \<Rightarrow> string \<Rightarrow> string list \<Rightarrow> string list \<Rightarrow> string \<Rightarrow> bool" where
  "leadsTo host scope directory segments [] target = (target = directory)"
| "leadsTo host scope directory segments (name # names) target =
     (mayVisit scope [] (posixJoin [directory, name]) name \<and>
      \<lparr>di_name = name, di_kind = DirectoryEntry\<rparr> \<in> set (itemsOf host directory) \<and>
      length (segments @ [name]) \<le> MAX_WALK_DEPTH \<and>
      leadsTo host scope (posixJoin [directory, name]) (segments @ [name]) names target)"

lemma leadsTo_snoc:
  "leadsTo host scope directory segments names target \<Longrightarrow> mayVisit scope [] (posixJoin [target, name]) name \<Longrightarrow>
   \<lparr>di_name = name, di_kind = DirectoryEntry\<rparr> \<in> set (itemsOf host target) \<Longrightarrow>
   length (segments @ names @ [name]) \<le> MAX_WALK_DEPTH \<Longrightarrow>
   leadsTo host scope directory segments (names @ [name]) (posixJoin [target, name])"
  by (induction names arbitrary: directory segments) auto

lemma leadsTo_file:
  "leadsTo host scope directory segments names target \<Longrightarrow> mayVisit scope [] (posixJoin [target, name]) name \<Longrightarrow>
   \<lparr>di_name = name, di_kind = FileEntry\<rparr> \<in> set (itemsOf host target) \<Longrightarrow>
   itemMatches scope (segments @ names @ [name]) \<Longrightarrow>
   holdsFile host scope [] directory segments (names @ [name])"
  by (induction names arbitrary: directory segments) (auto simp: itemMatches_def)

definition rootHolds :: "WalkHost \<Rightarrow> WalkScope \<Rightarrow> string \<Rightarrow> bool" where
  "rootHolds host scope path = (\<exists>names. path = join ''/'' names \<and> holdsFile host scope [] (wk_root scope) [] names)"

definition rootLeads :: "WalkHost \<Rightarrow> WalkScope \<Rightarrow> PendingDirectory \<Rightarrow> bool" where
  "rootLeads host scope d = leadsTo host scope (wk_root scope) [] (pd_segments d) (pd_directory d)"

lemma walkEntry_sound:
  assumes "entry \<in> set (itemsOf host (pd_directory parent))" "rootLeads host scope parent"
    and "Ball (set (fst acc)) (rootLeads host scope)" "Ball (set (ww_files (snd acc))) (rootHolds host scope)"
  shows "Ball (set (fst (walkEntry host scope parent entry acc))) (rootLeads host scope) \<and>
    Ball (set (ww_files (snd (walkEntry host scope parent entry acc)))) (rootHolds host scope)"
proof (cases "isSkipped scope (snd acc) (posixJoin [pd_directory parent, di_name entry]) (di_name entry)")
  case True
  then show ?thesis using assms(3,4) by (simp add: walkEntry_eq Let_def)
next
  case False
  let ?path = "posixJoin [pd_directory parent, di_name entry]" and ?segments = "pd_segments parent @ [di_name entry]"
  have may: "mayVisit scope [] ?path (di_name entry)" using False by (auto simp: isSkipped_iff mayVisit_def)
  have entry: "\<lparr>di_name = di_name entry, di_kind = k\<rparr> \<in> set (itemsOf host (pd_directory parent))" if "di_kind entry = k" for k
  proof -
    have "entry = \<lparr>di_name = di_name entry, di_kind = k\<rparr>" using that by (cases entry) simp
    then show ?thesis using assms(1) by metis
  qed
  have lead: "leadsTo host scope (wk_root scope) [] (pd_segments parent) (pd_directory parent)"
    using assms(2) by (simp add: rootLeads_def)
  have "rootLeads host scope d" if "fst (visitItem host scope entry ?path ?segments (snd acc)) = Some d" for d
    using visitItem_Some [OF that] leadsTo_snoc [OF lead may entry] by (auto simp: rootLeads_def)
  moreover have "rootHolds host scope (relativePath ?segments)" if "di_kind entry = FileEntry" "itemMatches scope ?segments"
    using leadsTo_file [OF lead may entry [OF that(1)]] that(2) by (auto simp: rootHolds_def relativePath_def)
  ultimately show ?thesis using assms(3,4) False
    by (auto simp: walkEntry_eq Let_def visitItem_files split: option.split if_splits)
qed

lemma walkDirectory_sound:
  assumes "rootLeads host scope parent" "Ball (set (ww_files s)) (rootHolds host scope)"
  shows "Ball (set (fst (walkDirectory host scope parent s))) (rootLeads host scope) \<and>
    Ball (set (ww_files (snd (walkDirectory host scope parent s)))) (rootHolds host scope)"
proof -
  have same: "ww_files (entered host scope parent s) = ww_files s"
    by (simp add: entered_def Let_def checkUnconfirmed_def addIgnored_def split: option.split sum.split)
  have "Ball (set (fst (fold (walkEntry host scope parent) entries acc))) (rootLeads host scope) \<and>
      Ball (set (ww_files (snd (fold (walkEntry host scope parent) entries acc)))) (rootHolds host scope)"
    if "set entries \<subseteq> set (itemsOf host (pd_directory parent))" "Ball (set (fst acc)) (rootLeads host scope)"
      "Ball (set (ww_files (snd acc))) (rootHolds host scope)" for entries acc
    using that
  proof (induction entries arbitrary: acc)
    case (Cons entry entries)
    from walkEntry_sound [of entry host parent scope acc] Cons(2-4) assms(1)
    have "Ball (set (fst (walkEntry host scope parent entry acc))) (rootLeads host scope)"
      "Ball (set (ww_files (snd (walkEntry host scope parent entry acc)))) (rootHolds host scope)" by auto
    from Cons(1) [OF _ this] Cons(2) show ?case by simp
  qed simp
  from this [of "fst (listedItems host parent s)" "([], entered host scope parent s)"] assms(2) same
  show ?thesis by (simp add: walkDirectory_entered listedItems_set)
qed

lemma walkFrom_sound:
  "Ball (set queue) (rootLeads host scope) \<Longrightarrow> Ball (set (ww_files s)) (rootHolds host scope) \<Longrightarrow>
   Ball (set (ww_files (walkFrom host scope queue s))) (rootHolds host scope)"
proof (induction host scope queue s rule: walkFrom.induct)
  case (2 host scope parent rest s)
  then show ?case using walkDirectory_sound [of host scope parent s] by (simp add: ball_Un)
qed simp

section \<open>Property\<close>

text \<open>The walk of a worktree, which reads no directory when nothing is declared.\<close>

definition worktreeScope :: "WalkHost \<Rightarrow> string \<Rightarrow> string \<Rightarrow> WalkScope" where
  "worktreeScope host consumerRoot stateDirectory =
     walkScope consumerRoot stateDirectory (st_patterns (readSettings host consumerRoot))"

definition worktreeWalk :: "WalkHost \<Rightarrow> string \<Rightarrow> string \<Rightarrow> WalkState" where
  "worktreeWalk host consumerRoot stateDirectory =
     walkRoot host (worktreeScope host consumerRoot stateDirectory)
       (startedWalk (map settingsEntry (st_problems (readSettings host consumerRoot))))"

lemma holdsFile_no_pattern:
  assumes "wk_patterns scope = []"
  shows "\<not> holdsFile host scope ignored directory segments names"
  using holdsFile_matches [of host scope ignored directory segments names] assms by auto

lemma startedWalk_files [simp]: "ww_files (startedWalk entries) = []"
  by (simp add: startedWalk_def)

lemma walkRoot_files:
  "holdsFile host scope (ww_ignored (walkRoot host scope s)) (wk_root scope) [] names \<Longrightarrow>
   join ''/'' names \<in> set (ww_files (walkRoot host scope s))"
  using walkFrom_complete [of "\<lparr>pd_directory = wk_root scope, pd_segments = []\<rparr>"
      "[\<lparr>pd_directory = wk_root scope, pd_segments = []\<rparr>]" host scope "addIgnored host (wk_root scope) s" _ names, OF _ order.refl]
  by (cases "names = []") (simp_all add: walkRoot_def relativePath_def del: walkFrom.simps)

lemma walkRoot_sound:
  assumes "ww_files s = []" "path \<in> set (ww_files (walkRoot host scope s))"
  shows "rootHolds host scope path"
proof -
  have "ww_files (addIgnored host (wk_root scope) s) = []"
    using assms(1) by (simp add: addIgnored_def split: sum.split)
  then show ?thesis using assms(2) walkFrom_sound [of "[\<lparr>pd_directory = wk_root scope, pd_segments = []\<rparr>]" host scope
      "addIgnored host (wk_root scope) s"] by (simp add: walkRoot_def rootLeads_def)
qed

lemma fold_addRead:
  "set (fst (fold (addRead host root) paths acc)) = set (fst acc) \<union>
     {d. \<exists>path \<in> set paths. \<exists>ds. readDefinitions host root path = Inr ds \<and> d \<in> set ds}"
  "set (snd (fold (addRead host root) paths acc)) = set (snd acc) \<union>
     {e. \<exists>path \<in> set paths. readDefinitions host root path = Inl e}"
  by (induction paths arbitrary: acc) (auto simp: addRead_def split: sum.splits)

lemma readDefinitionFiles_reads:
  fixes stateDirectory :: string
  assumes "st_patterns (readSettings host consumerRoot) \<noteq> []"
  defines "root \<equiv> wk_root (worktreeScope host consumerRoot stateDirectory)"
    and "paths \<equiv> set (ww_files (worktreeWalk host consumerRoot stateDirectory))"
  shows "set (df_definitions (readDefinitionFiles host consumerRoot stateDirectory)) =
      {d. \<exists>path \<in> paths. \<exists>ds. readDefinitions host root path = Inr ds \<and> d \<in> set ds}"
    and "{e. \<exists>path \<in> paths. readDefinitions host root path = Inl e} \<subseteq>
      set (df_invalidEntries (readDefinitionFiles host consumerRoot stateDirectory))"
  using assms(1) fold_addRead [of host root]
  by (simp_all add: readDefinitionFiles_def Let_def split_beta root_def paths_def worktreeWalk_def worktreeScope_def)

text \<open>
  C36. No definition is lost: every file the declared patterns name, below the root through real directories that
  are not skipped and within the depth bound, gives each of its definitions to the query or an entry that says why
  not, unless git reported it or a directory above it as ignored; and every definition the query takes is one of
  such a file, whatever the host answers and however deep its directories are.
\<close>

theorem no_definition_lost:
  fixes host :: WalkHost and consumerRoot stateDirectory :: string
  defines "scope \<equiv> worktreeScope host consumerRoot stateDirectory"
    and "taken \<equiv> readDefinitionFiles host consumerRoot stateDirectory"
  shows "(\<forall>names. holdsFile host scope (ww_ignored (worktreeWalk host consumerRoot stateDirectory)) (wk_root scope) [] names \<longrightarrow>
      (case readDefinitions host (wk_root scope) (join ''/'' names) of
         Inl entry \<Rightarrow> entry \<in> set (df_invalidEntries taken)
       | Inr definitions \<Rightarrow> set definitions \<subseteq> set (df_definitions taken))) \<and>
    (\<forall>d \<in> set (df_definitions taken). \<exists>names definitions. holdsFile host scope [] (wk_root scope) [] names \<and>
       readDefinitions host (wk_root scope) (join ''/'' names) = Inr definitions \<and> d \<in> set definitions)"
proof (cases "st_patterns (readSettings host consumerRoot) = []")
  case True
  then have "wk_patterns scope = []" by (simp add: scope_def worktreeScope_def walkScope_def)
  then show ?thesis using True by (simp add: taken_def readDefinitionFiles_def Let_def holdsFile_no_pattern)
next
  case False
  note reads = readDefinitionFiles_reads [OF False, of stateDirectory, folded scope_def taken_def]
  have found: "join ''/'' names \<in> set (ww_files (worktreeWalk host consumerRoot stateDirectory))"
    if "holdsFile host scope (ww_ignored (worktreeWalk host consumerRoot stateDirectory)) (wk_root scope) [] names" for names
    using walkRoot_files that by (simp add: worktreeWalk_def scope_def)
  have held: "rootHolds host scope path" if "path \<in> set (ww_files (worktreeWalk host consumerRoot stateDirectory))" for path
    using that unfolding worktreeWalk_def scope_def by (rule walkRoot_sound [OF startedWalk_files])
  show ?thesis
  proof (intro conjI allI impI ballI)
    fix names
    assume "holdsFile host scope (ww_ignored (worktreeWalk host consumerRoot stateDirectory)) (wk_root scope) [] names"
    from found [OF this] reads show "case readDefinitions host (wk_root scope) (join ''/'' names) of
        Inl entry \<Rightarrow> entry \<in> set (df_invalidEntries taken) | Inr definitions \<Rightarrow> set definitions \<subseteq> set (df_definitions taken)"
      by (auto split: sum.split)
  next
    fix d
    assume "d \<in> set (df_definitions taken)"
    then show "\<exists>names definitions. holdsFile host scope [] (wk_root scope) [] names \<and>
        readDefinitions host (wk_root scope) (join ''/'' names) = Inr definitions \<and> d \<in> set definitions"
      using reads(1) held by (fastforce simp: rootHolds_def)
  qed
qed

text \<open>A worktree that declares one pattern, whose directory holds a definition file and a link.\<close>

definition sampleWalkHost :: WalkHost where
  "sampleWalkHost = \<lparr>
     wh_git = (\<lambda>_ _ _. GitFailed ''no git''),
     wh_opendir = (\<lambda>directory. if directory = ''/r'' then
         Inr [\<lparr>di_name = ''d'', di_kind = DirectoryEntry\<rparr>, \<lparr>di_name = ''l'', di_kind = LinkEntry\<rparr>]
       else if directory = ''/r/d'' then Inr [\<lparr>di_name = ''x'', di_kind = FileEntry\<rparr>]
       else Inl \<lparr>io_code = Some ''ENOENT'', io_text = ''gone''\<rparr>),
     wh_holdsRepository = (\<lambda>_. False),
     wh_statIsDirectory = (\<lambda>_. Inr True),
     wh_presence = (\<lambda>_. PresentFile),
     wh_readFile = (\<lambda>path. Inr path),
     wh_parse = (\<lambda>contents. Inr (JObj [(''defects'', JArr (if contents = ''/r/d/x'' then [JNull] else [JStr ''d/*'']))]))\<rparr>"

theorem no_definition_lost_witness:
  "\<lparr>ds_file = ''d/x'', ds_position = 0, ds_value = JNull\<rparr> \<in> set (df_definitions (readDefinitionFiles sampleWalkHost ''/r'' ''/s''))"
proof -
  have held: "holdsFile sampleWalkHost (worktreeScope sampleWalkHost ''/r'' ''/s'') (ww_ignored (worktreeWalk sampleWalkHost ''/r'' ''/s''))
      (wk_root (worktreeScope sampleWalkHost ''/r'' ''/s'')) [] [''d'', ''x'']" by code_simp
  have read: "readDefinitions sampleWalkHost (wk_root (worktreeScope sampleWalkHost ''/r'' ''/s'')) (join ''/'' [''d'', ''x'']) =
      Inr [\<lparr>ds_file = ''d/x'', ds_position = 0, ds_value = JNull\<rparr>]" by code_simp
  from no_definition_lost [of sampleWalkHost "''/r''" "''/s''"] held
  have "case readDefinitions sampleWalkHost (wk_root (worktreeScope sampleWalkHost ''/r'' ''/s'')) (join ''/'' [''d'', ''x'']) of
      Inl entry \<Rightarrow> entry \<in> set (df_invalidEntries (readDefinitionFiles sampleWalkHost ''/r'' ''/s''))
    | Inr definitions \<Rightarrow> set definitions \<subseteq> set (df_definitions (readDefinitionFiles sampleWalkHost ''/r'' ''/s''))" by blast
  then show ?thesis unfolding read by simp
qed

end
