(* ===== verification/AnchorMatch.thy ===== *)
theory AnchorMatch
  imports NonInputs
begin

text \<open>
  Finding and replacing a mutation's anchor in a file's text (\<^verbatim>\<open>falsify/anchor-match.ts\<close>): occurrences
  are counted non-overlapping from the start, and a line break of the anchor matches one of either ending.
  The source writes the anchor as a regular expression of its own characters and \<^verbatim>\<open>\r?\n\<close> for a break, of
  which \<open>matchAnchor\<close> is the match at one place: no character of it can match in two ways.
\<close>

section \<open>The source's functions\<close>

abbreviation CR :: char where "CR \<equiv> CHR 0x0D"
abbreviation LF :: char where "LF \<equiv> CHR 0x0A"

datatype LineEnding = LfEnding | CrLfEnding

record AnchorMatch =
  am_start :: nat
  am_end :: nat
  am_lineEnding :: LineEnding

record AnchorReplacement =
  ar_text :: string
  ar_match :: AnchorMatch
  ar_replacementEnd :: nat

fun toLf :: "string \<Rightarrow> string" where
  "toLf (c # d # cs) = (if c = CR \<and> d = LF then LF # toLf cs else c # toLf (d # cs))"
| "toLf cs = cs"

text \<open>The length of the match at the start of the text.\<close>

fun matchAnchor :: "string \<Rightarrow> string \<Rightarrow> nat option" where
  "matchAnchor [] cs = Some 0"
| "matchAnchor (a # as) [] = None"
| "matchAnchor (a # as) (c # cs) =
     (if a = LF \<and> c = CR \<and> cs \<noteq> [] \<and> hd cs = LF then map_option (\<lambda>n. n + 2) (matchAnchor as (tl cs))
      else if a = c then map_option Suc (matchAnchor as cs)
      else None)"

text \<open>\<^verbatim>\<open>matchAll\<close>: the offset and the length of each match.\<close>

function anchorMatches :: "string \<Rightarrow> nat \<Rightarrow> string \<Rightarrow> (nat \<times> nat) list" where
  "anchorMatches pattern i [] = []"
| "anchorMatches pattern i (c # cs) =
     (case matchAnchor pattern (c # cs) of
        Some (Suc n) \<Rightarrow> (i, Suc n) # anchorMatches pattern (i + Suc n) (drop n cs)
      | _ \<Rightarrow> anchorMatches pattern (Suc i) cs)"
  by pat_completeness auto
termination by (relation "measure (\<lambda>(_, _, cs). length cs)") auto

definition countAnchor :: "string \<Rightarrow> string \<Rightarrow> nat" where
  "countAnchor txt anchor = (if anchor = [] then 0 else length (anchorMatches (toLf anchor) 0 txt))"

definition matchLineEnding :: "string \<Rightarrow> string \<Rightarrow> nat \<Rightarrow> LineEnding" where
  "matchLineEnding txt matched start =
     (case indexOf LF matched of
        Some inMatch \<Rightarrow> (if inMatch > 0 \<and> at matched (inMatch - 1) = Some CR then CrLfEnding else LfEnding)
      | None \<Rightarrow>
          (case indexOf LF (drop start txt) of
             Some further \<Rightarrow>
               (if start + further > 0 \<and> at txt (start + further - 1) = Some CR then CrLfEnding else LfEnding)
           | None \<Rightarrow> LfEnding))"

definition locateAnchor :: "string \<Rightarrow> string \<Rightarrow> nat + AnchorMatch" where
  "locateAnchor txt anchor =
     (let count = countAnchor txt anchor in
      if count \<noteq> 1 then Inl count
      else case anchorMatches (toLf anchor) 0 txt of
          [] \<Rightarrow> Inl 0
        | (start, n) # _ \<Rightarrow> Inr \<lparr>am_start = start, am_end = start + n,
            am_lineEnding = matchLineEnding txt (take n (drop start txt)) start\<rparr>)"

definition withLineEnding :: "string \<Rightarrow> LineEnding \<Rightarrow> string" where
  "withLineEnding s ending = (case ending of
     LfEnding \<Rightarrow> toLf s | CrLfEnding \<Rightarrow> join [CR, LF] (split_on LF (toLf s)))"

definition replaceAnchor :: "string \<Rightarrow> string \<Rightarrow> string \<Rightarrow> nat + AnchorReplacement" where
  "replaceAnchor txt anchor replacement =
     (case locateAnchor txt anchor of
        Inl count \<Rightarrow> Inl count
      | Inr m \<Rightarrow>
          (let written = withLineEnding replacement (am_lineEnding m) in
           Inr \<lparr>ar_text = take (am_start m) txt @ written @ drop (am_end m) txt, ar_match = m,
             ar_replacementEnd = am_start m + length written\<rparr>))"

section \<open>What a match is\<close>

text \<open>A text spells an anchor when it has each of its characters, a line feed alone or after a carriage return.\<close>

fun spells :: "string \<Rightarrow> string \<Rightarrow> bool" where
  "spells [] s = (s = [])"
| "spells (a # as) s = ((s \<noteq> [] \<and> hd s = a \<and> spells as (tl s)) \<or> (\<exists>t. a = LF \<and> s = CR # LF # t \<and> spells as t))"

lemma matchAnchor_sound: "matchAnchor as cs = Some n \<Longrightarrow> n \<le> length cs \<and> spells as (take n cs)"
proof (induction as cs arbitrary: n rule: matchAnchor.induct)
  case (3 a as c cs)
  show ?case
  proof (cases "a = LF \<and> c = CR \<and> cs \<noteq> [] \<and> hd cs = LF")
    case True
    then obtain m where m: "matchAnchor as (tl cs) = Some m" "n = m + 2" using 3(3) by auto
    with 3(1) [OF True m(1)] True show ?thesis by (cases cs) auto
  next
    case False
    then have "a = c" using 3(3) by (auto split: if_splits)
    have "matchAnchor (a # as) (c # cs) = map_option Suc (matchAnchor as cs)"
      using False \<open>a = c\<close> by (cases "a = LF \<and> c = CR") auto
    then obtain m where "matchAnchor as cs = Some m" "n = Suc m" using 3(3) by auto
    with 3(2) [OF False \<open>a = c\<close>] \<open>a = c\<close> show ?thesis by auto
  qed
qed auto

lemma matchAnchor_complete: "spells as s \<Longrightarrow> matchAnchor as (s @ r) = Some (length s)"
proof (induction as arbitrary: s)
  case (Cons a as)
  from Cons.prems consider (same) "s \<noteq> []" "hd s = a" "spells as (tl s)" | (crlf) t where "a = LF" "s = CR # LF # t" "spells as t"
    by auto
  then show ?case
  proof cases
    case same
    then obtain t where s: "s = a # t" by (cases s) auto
    then have "\<not> (a = LF \<and> a = CR)" by simp
    with same Cons.IH [of t] show ?thesis by (auto simp: s)
  next
    case crlf
    then show ?thesis using Cons.IH [of t] by simp
  qed
qed simp

text \<open>An occurrence, by the text before it and the text it spells.\<close>

definition occurs :: "string \<Rightarrow> string \<Rightarrow> nat \<Rightarrow> bool" where
  "occurs pattern txt i = (i \<le> length txt \<and> matchAnchor pattern (drop i txt) \<noteq> None)"

lemma occurs_iff: "occurs pattern txt i \<longleftrightarrow> (\<exists>b s r. txt = b @ s @ r \<and> length b = i \<and> spells pattern s)"
proof
  assume o: "occurs pattern txt i"
  then obtain n where n: "i \<le> length txt" "matchAnchor pattern (drop i txt) = Some n" by (auto simp: occurs_def)
  have "spells pattern (take n (drop i txt))" using matchAnchor_sound [OF n(2)] by simp
  moreover have "txt = take i txt @ take n (drop i txt) @ drop n (drop i txt)" by (metis append_take_drop_id)
  moreover have "length (take i txt) = i" using n(1) by simp
  ultimately show "\<exists>b s r. txt = b @ s @ r \<and> length b = i \<and> spells pattern s" by blast
next
  assume "\<exists>b s r. txt = b @ s @ r \<and> length b = i \<and> spells pattern s"
  then show "occurs pattern txt i" using matchAnchor_complete by (fastforce simp: occurs_def)
qed

section \<open>The scan finds the occurrences\<close>

lemma occurs_simps [simp]:
  "p \<noteq> [] \<Longrightarrow> \<not> occurs p [] i" "occurs p (c # cs) 0 = (matchAnchor p (c # cs) \<noteq> None)"
  "occurs p (c # cs) (Suc i) = occurs p cs i"
  by (cases p; auto simp: occurs_def)+

lemma matchAnchor_pos: "p \<noteq> [] \<Longrightarrow> matchAnchor p cs \<noteq> Some 0"
  by (cases p; cases cs) auto

lemma anchorMatches_Cons:
  assumes "p \<noteq> []"
  shows "anchorMatches p i (c # cs) = (case matchAnchor p (c # cs) of
      Some n \<Rightarrow> (i, n) # anchorMatches p (i + n) (drop n (c # cs)) | None \<Rightarrow> anchorMatches p (Suc i) cs)"
  using matchAnchor_pos [OF assms, of "c # cs"] by (auto split: option.split nat.split)

declare anchorMatches.simps(2) [simp del]

lemma anchorMatches_none: "p \<noteq> [] \<Longrightarrow> (anchorMatches p i txt = []) = (\<forall>k. \<not> occurs p txt k)"
proof (induction "txt" arbitrary: i)
  case (Cons c cs)
  have "(\<forall>k. \<not> occurs p (c # cs) k) = (matchAnchor p (c # cs) = None \<and> (\<forall>k. \<not> occurs p cs k))"
    by (metis nat.exhaust occurs_simps(2,3))
  with Cons show ?case by (simp add: anchorMatches_Cons split: option.split)
qed simp

lemma anchorMatches_first:
  assumes "p \<noteq> []" and "anchorMatches p i txt = (start, n) # ms"
  shows "\<exists>k. start = i + k \<and> matchAnchor p (drop k txt) = Some n \<and> k \<le> length txt \<and> (\<forall>j < k. \<not> occurs p txt j) \<and>
    ms = anchorMatches p (start + n) (drop (k + n) txt)"
  using assms(2)
proof (induction "txt" arbitrary: i)
  case (Cons c cs)
  show ?case
  proof (cases "matchAnchor p (c # cs)")
    case None
    then have "anchorMatches p (Suc i) cs = (start, n) # ms"
      using Cons.prems assms(1) by (simp add: anchorMatches_Cons)
    from Cons.IH [OF this] obtain k where k: "start = Suc i + k" "matchAnchor p (drop k cs) = Some n" "k \<le> length cs"
      "\<forall>j < k. \<not> occurs p cs j" "ms = anchorMatches p (start + n) (drop (k + n) cs)" by blast
    have "\<not> occurs p (c # cs) j" if "j < Suc k" for j
      using that k(4) None by (cases j) simp_all
    with k show ?thesis by (intro exI [of _ "Suc k"]) simp
  next
    case (Some m)
    then show ?thesis using Cons.prems assms(1) by (intro exI [of _ 0]) (auto simp: anchorMatches_Cons)
  qed
qed simp

lemma toLf_Nil [simp]: "(toLf s = []) = (s = [])"
  by (induction s rule: toLf.induct) auto

text \<open>Exactly one match is one occurrence, with no other that does not overlap it.\<close>

definition onlyAt :: "string \<Rightarrow> string \<Rightarrow> nat \<Rightarrow> nat \<Rightarrow> bool" where
  "onlyAt p txt k n \<longleftrightarrow> k \<le> length txt \<and> matchAnchor p (drop k txt) = Some n \<and> (\<forall>j. occurs p txt j \<longrightarrow> k \<le> j \<and> j < k + n)"

lemma anchorMatches_one:
  assumes "p \<noteq> []"
  shows "anchorMatches p 0 txt = [(k, n)] \<longleftrightarrow> onlyAt p txt k n"
proof
  assume one: "anchorMatches p 0 txt = [(k, n)]"
  from anchorMatches_first [OF assms this] have k: "matchAnchor p (drop k txt) = Some n" "k \<le> length txt"
    "\<forall>j < k. \<not> occurs p txt j" "anchorMatches p (k + n) (drop (k + n) txt) = []" by auto
  have "j < k + n" if "occurs p txt j" for j
  proof (rule ccontr)
    assume "\<not> j < k + n"
    then have "occurs p (drop (k + n) txt) (j - (k + n))" using that by (auto simp: occurs_def)
    with k(4) show False by (simp add: anchorMatches_none [OF assms])
  qed
  with k show "onlyAt p txt k n" by (auto simp: onlyAt_def not_less)
next
  assume only: "onlyAt p txt k n"
  then have "occurs p txt k" by (auto simp: onlyAt_def occurs_def)
  then obtain start m ms where ms: "anchorMatches p 0 txt = (start, m) # ms"
    using anchorMatches_none [OF assms, of 0 "txt"] by (metis list.exhaust surj_pair)
  from anchorMatches_first [OF assms ms] have first: "matchAnchor p (drop start txt) = Some m" "start \<le> length txt"
    "\<forall>j < start. \<not> occurs p txt j" "ms = anchorMatches p (start + m) (drop (start + m) txt)" by auto
  then have "occurs p txt start" by (auto simp: occurs_def)
  then have "start = k" using only first(3) \<open>occurs p txt k\<close> by (meson le_antisym not_le_imp_less onlyAt_def)
  then have "m = n" using first(1) only by (simp add: onlyAt_def)
  have "\<not> occurs p (drop (k + n) txt) j" for j
  proof
    assume "occurs p (drop (k + n) txt) j"
    then have "occurs p txt (k + n + j)"
      using matchAnchor_sound only by (fastforce simp: occurs_def onlyAt_def add.commute)
    with only show False by (auto simp: onlyAt_def)
  qed
  then have "ms = []" using first(4) \<open>start = k\<close> \<open>m = n\<close> by (simp add: anchorMatches_none [OF assms])
  with ms \<open>start = k\<close> \<open>m = n\<close> show "anchorMatches p 0 txt = [(k, n)]" by simp
qed

lemma locateAnchor_iff:
  "locateAnchor txt anchor = Inr m \<longleftrightarrow> anchor \<noteq> [] \<and> (\<exists>k n. onlyAt (toLf anchor) txt k n \<and>
     m = \<lparr>am_start = k, am_end = k + n, am_lineEnding = matchLineEnding txt (take n (drop k txt)) k\<rparr>)"
proof (cases "anchor = []")
  case True
  then show ?thesis by (simp add: locateAnchor_def countAnchor_def Let_def)
next
  case False
  then have p: "toLf anchor \<noteq> []" by simp
  have "locateAnchor txt anchor = Inr m \<longleftrightarrow> (\<exists>k n. anchorMatches (toLf anchor) 0 txt = [(k, n)] \<and>
      m = \<lparr>am_start = k, am_end = k + n, am_lineEnding = matchLineEnding txt (take n (drop k txt)) k\<rparr>)"
    using False by (auto simp: locateAnchor_def countAnchor_def Let_def length_Suc_conv split: list.split)
  then show ?thesis using False by (simp add: anchorMatches_one [OF p])
qed

section \<open>Property\<close>

text \<open>
  C35. A mutation is applied exactly when its anchor occurs in the file's text, line breaks of either ending
  matching, and every other occurrence overlaps it; the new text is then the old with that occurrence alone
  replaced, each break of the replacement written with the ending found there.
\<close>

theorem anchor_replaced_iff:
  "(\<exists>out. replaceAnchor txt anchor replacement = Inr out \<and> ar_text out = changed) \<longleftrightarrow>
   anchor \<noteq> [] \<and> (\<exists>before matched after.
     txt = before @ matched @ after \<and> spells (toLf anchor) matched \<and>
     (\<forall>before' matched' after'. txt = before' @ matched' @ after' \<and> spells (toLf anchor) matched' \<longrightarrow>
        length before \<le> length before' \<and> length before' < length before + length matched) \<and>
     changed = before @ withLineEnding replacement (matchLineEnding txt matched (length before)) @ after)"
proof -
  have only: "onlyAt (toLf anchor) txt k n \<longleftrightarrow> (\<exists>b s r. txt = b @ s @ r \<and> length b = k \<and> length s = n \<and> spells (toLf anchor) s \<and>
      (\<forall>b' s' r'. txt = b' @ s' @ r' \<and> spells (toLf anchor) s' \<longrightarrow> k \<le> length b' \<and> length b' < k + n))" for k n
  proof -
    have "k \<le> length txt \<and> matchAnchor (toLf anchor) (drop k txt) = Some n \<longleftrightarrow>
        (\<exists>b s r. txt = b @ s @ r \<and> length b = k \<and> length s = n \<and> spells (toLf anchor) s)" (is "?at = ?split")
    proof
      assume ?at
      then have "spells (toLf anchor) (take n (drop k txt)) \<and> n \<le> length (drop k txt)" using matchAnchor_sound [of "toLf anchor" "drop k txt" n] by blast
      moreover have "txt = take k txt @ take n (drop k txt) @ drop n (drop k txt)" by (metis append_take_drop_id)
      ultimately show ?split using \<open>?at\<close> by (intro exI [of _ "take k txt"] exI [of _ "take n (drop k txt)"] exI [of _ "drop n (drop k txt)"]) simp
    next
      assume ?split
      then show ?at using matchAnchor_complete by fastforce
    qed
    moreover have "(\<forall>j. occurs (toLf anchor) txt j \<longrightarrow> k \<le> j \<and> j < k + n) \<longleftrightarrow>
        (\<forall>b' s' r'. txt = b' @ s' @ r' \<and> spells (toLf anchor) s' \<longrightarrow> k \<le> length b' \<and> length b' < k + n)"
      by (auto simp: occurs_iff)
    ultimately show ?thesis unfolding onlyAt_def by blast
  qed
  define whole where "whole b s r = (txt = b @ s @ r \<and> spells (toLf anchor) s \<and>
      (\<forall>b' s' r'. txt = b' @ s' @ r' \<and> spells (toLf anchor) s' \<longrightarrow> length b \<le> length b' \<and> length b' < length b + length s))"
    for b s r
  define written where "written k n = take k txt @
      withLineEnding replacement (matchLineEnding txt (take n (drop k txt)) k) @ drop (k + n) txt" for k n
  have only: "onlyAt (toLf anchor) txt k n \<longleftrightarrow> (\<exists>b s r. whole b s r \<and> length b = k \<and> length s = n)" for k n
    unfolding only whole_def by blast
  have written: "written (length b) (length s) =
      b @ withLineEnding replacement (matchLineEnding txt s (length b)) @ r" if "whole b s r" for b s r
    using that by (simp add: whole_def written_def)
  have "(\<exists>out. replaceAnchor txt anchor replacement = Inr out \<and> ar_text out = changed) \<longleftrightarrow>
      (\<exists>m. locateAnchor txt anchor = Inr m \<and>
        changed = take (am_start m) txt @ withLineEnding replacement (am_lineEnding m) @ drop (am_end m) txt)"
    by (cases "locateAnchor txt anchor") (auto simp: replaceAnchor_def Let_def)
  also have "\<dots> \<longleftrightarrow> anchor \<noteq> [] \<and> (\<exists>k n. onlyAt (toLf anchor) txt k n \<and> changed = written k n)"
    unfolding locateAnchor_iff written_def by force
  also have "\<dots> \<longleftrightarrow> anchor \<noteq> [] \<and> (\<exists>b s r. whole b s r \<and>
      changed = b @ withLineEnding replacement (matchLineEnding txt s (length b)) @ r)"
    unfolding only by (metis written)
  finally show ?thesis unfolding whole_def by (simp only: conj_assoc)
qed

text \<open>
  An anchor of two lines, found in a file of Windows line breaks: the break of the replacement is written
  the file's way.
\<close>

theorem anchor_replaced_iff_witness:
  "let file = ''f();'' @ [CR, LF] @ ''g();'' @ [CR, LF] @ ''h();'';
       anchor = ''f();'' @ [LF] @ ''g();'';
       replacement = ''g();'' @ [LF] @ ''f();'';
       changed = ''g();'' @ [CR, LF] @ ''f();'' @ [CR, LF] @ ''h();''
   in \<exists>before matched after.
        file = before @ matched @ after \<and> spells (toLf anchor) matched \<and>
        changed = before @ withLineEnding replacement (matchLineEnding file matched (length before)) @ after"
proof -
  let ?file = "''f();'' @ [CR, LF] @ ''g();'' @ [CR, LF] @ ''h();''"
  let ?anchor = "''f();'' @ [LF] @ ''g();''"
  let ?replacement = "''g();'' @ [LF] @ ''f();''"
  let ?changed = "''g();'' @ [CR, LF] @ ''f();'' @ [CR, LF] @ ''h();''"
  have "(case replaceAnchor ?file ?anchor ?replacement of Inr out \<Rightarrow> ar_text out = ?changed | _ \<Rightarrow> False)"
    by code_simp
  then have "\<exists>out. replaceAnchor ?file ?anchor ?replacement = Inr out \<and> ar_text out = ?changed"
    by (auto split: sum.splits)
  then show ?thesis unfolding anchor_replaced_iff Let_def by blast
qed

end
