(* ===== verification/Definitions.thy ===== *)
theory Definitions
  imports DefinitionFiles AnchorMatch
begin

text \<open>
  The check of each definition alone (\<^verbatim>\<open>defects/definitions.ts\<close>): its members, the module of its test and the
  file of its mutation inside the consumer root, and the ids no two definitions may share. The reasons are
  gathered in the order the source pushes them. A JSON number is a natural one in this model, so an
  \<^verbatim>\<open>occurrence\<close> that is a number is a whole one from 0. The source keeps what each path resolved to so as not
  to resolve it again; the model's file system is one snapshot, for which that changes nothing.
\<close>

section \<open>The source's functions\<close>

record DefinitionTest =
  dt_module :: string
  dt_name :: "string list"
  dt_project :: "string option"
  dt_occurrence :: "nat option"

record DefinitionMutation =
  dm_file :: string
  dm_old :: string
  dm_new :: string

record CheckedDefinition =
  cd_file :: string
  cd_position :: nat
  cd_id :: "string option"
  cd_test :: "DefinitionTest option"
  cd_modulePath :: "string option"
  cd_mutation :: "DefinitionMutation option"
  cd_mutationPath :: "string option"
  cd_problems :: "string list"

record ConsumerRoot =
  cr_given :: string
  cr_real :: string

text \<open>\<^verbatim>\<open>path.win32.isAbsolute\<close>: a leading separator of either kind, or a drive's.\<close>

definition isWindowsSeparator :: "char \<Rightarrow> bool" where
  "isWindowsSeparator c = (c = CHR ''/'' \<or> c = CHR 0x5C)"

definition isDriveLetter :: "char \<Rightarrow> bool" where
  "isDriveLetter c = ((CHR ''A'' \<le> c \<and> c \<le> CHR ''Z'') \<or> (CHR ''a'' \<le> c \<and> c \<le> CHR ''z''))"

definition isWindowsAbsolute :: "string \<Rightarrow> bool" where
  "isWindowsAbsolute path =
     (case path of
        [] \<Rightarrow> False
      | c # rest \<Rightarrow> isWindowsSeparator c \<or>
          (case rest of
             colon # mark # _ \<Rightarrow> isDriveLetter c \<and> colon = CHR '':'' \<and> isWindowsSeparator mark
           | _ \<Rightarrow> False))"

definition rootRelativePath :: "string \<Rightarrow> string + string" where
  "rootRelativePath spelling =
     (let slashed = join ''/'' (split_on (CHR 0x5C) spelling) in
      if isAbsolute slashed \<or> isWindowsAbsolute spelling
      then Inl ''is absolute, not relative to the consumer root''
      else let normal = dropTrailing (posixNormalize slashed) in
        if climbsOut normal then Inl ''lies outside the consumer root''
        else if normal = ROOT_PATH \<or> normal = [] then Inl ''names the consumer root, not a file''
        else Inr normal)"

definition problemUnless :: "bool \<Rightarrow> string \<Rightarrow> string list" where
  "problemUnless ok problem = (if ok then [] else [problem])"

definition optionIs :: "('a \<Rightarrow> bool) \<Rightarrow> 'a option \<Rightarrow> bool" where
  "optionIs P x = (case x of None \<Rightarrow> True | Some v \<Rightarrow> P v)"

fun isString :: "json option \<Rightarrow> bool" where
  "isString (Some (JStr _)) = True"
| "isString _ = False"

fun isNonEmptyString :: "json option \<Rightarrow> bool" where
  "isNonEmptyString (Some (JStr s)) = (s \<noteq> [])"
| "isNonEmptyString _ = False"

fun isNumber :: "json \<Rightarrow> bool" where
  "isNumber (JNum _) = True"
| "isNumber _ = False"

fun numberOf :: "json \<Rightarrow> nat option" where
  "numberOf (JNum n) = Some n"
| "numberOf _ = None"

definition fieldString :: "json option \<Rightarrow> string" where
  "fieldString v = (case v of Some (JStr s) \<Rightarrow> s | _ \<Rightarrow> [])"

definition testFound :: "json \<Rightarrow> string list" where
  "testFound v =
     problemUnless (isNonEmptyString (objectField v ''module'')) ''its test's module is not a non-empty string'' @
     problemUnless (case Option.bind (objectField v ''name'') stringArray of Some names \<Rightarrow> names \<noteq> [] | None \<Rightarrow> False)
       ''its test's name is not a non-empty array of strings'' @
     problemUnless (optionIs (\<lambda>p. isString (Some p)) (objectField v ''project'')) ''its test's project is not a string'' @
     problemUnless (optionIs isNumber (objectField v ''occurrence''))
       ''its test's occurrence is not a whole number from 0''"

definition checkedTest :: "json option \<Rightarrow> DefinitionTest option \<times> string list" where
  "checkedTest field =
     (case field of
        Some (JObj members) \<Rightarrow>
          (let v = JObj members; found = testFound v in
           if found \<noteq> [] then (None, found)
           else (Some \<lparr>dt_module = fieldString (objectField v ''module''),
                   dt_name = (case Option.bind (objectField v ''name'') stringArray of Some names \<Rightarrow> names | None \<Rightarrow> []),
                   dt_project = Option.bind (objectField v ''project'') stringOf,
                   dt_occurrence = Option.bind (objectField v ''occurrence'') numberOf\<rparr>, []))
      | _ \<Rightarrow> (None, [''its test is not an object'']))"

definition testModulePath :: "DefinitionTest option \<Rightarrow> string option \<times> string list" where
  "testModulePath test =
     (case test of
        None \<Rightarrow> (None, [])
      | Some t \<Rightarrow>
          (case rootRelativePath (dt_module t) of
             Inr path \<Rightarrow> (Some path, [])
           | Inl problem \<Rightarrow> (None, [''its test's module '' @ stringify (JStr (dt_module t)) @ '' '' @ problem])))"

definition checkedMutation :: "json option \<Rightarrow> DefinitionMutation option \<times> string list" where
  "checkedMutation field =
     (case field of
        Some (JObj members) \<Rightarrow>
          (let v = JObj members;
               found = problemUnless (isNonEmptyString (objectField v ''file''))
                   ''its mutation's file is not a non-empty string'' @
                 problemUnless (isString (objectField v ''old'')) ''its mutation's old is not a string'' @
                 problemUnless (isString (objectField v ''new'')) ''its mutation's new is not a string''
           in if found \<noteq> [] then (None, found)
              else let mutation = \<lparr>dm_file = fieldString (objectField v ''file''),
                         dm_old = fieldString (objectField v ''old''), dm_new = fieldString (objectField v ''new'')\<rparr>
                   in (Some mutation,
                       if dm_old mutation = [] then [''its mutation's old text is empty'']
                       else if toLf (dm_old mutation) = toLf (dm_new mutation)
                       then [''its mutation's old text equals its new text, so it changes nothing'']
                       else []))
      | _ \<Rightarrow> (None, [''its mutation is not an object'']))"

definition leadsOutside :: "FileSystem \<Rightarrow> ConsumerRoot \<Rightarrow> string \<Rightarrow> bool" where
  "leadsOutside fs root path =
     (case realPath fs path of Inr real \<Rightarrow> \<not> liesInside (cr_real root) real | Inl _ \<Rightarrow> False)"

definition mutationFilePath :: "FileSystem \<Rightarrow> ConsumerRoot \<Rightarrow> DefinitionMutation option \<Rightarrow>
    string option \<times> string list" where
  "mutationFilePath fs root mutation =
     (case mutation of
        None \<Rightarrow> (None, [])
      | Some m \<Rightarrow>
          (case rootRelativePath (dm_file m) of
             Inl problem \<Rightarrow> (None, [''its mutation's file '' @ stringify (JStr (dm_file m)) @ '' '' @ problem])
           | Inr spelled \<Rightarrow>
               (let path = posixJoin [cr_given root, spelled] in
                if leadsOutside fs root path
                then (None, [''its mutation's file '' @ stringify (JStr (dm_file m)) @
                   '' resolves through a link to a path outside the consumer root''])
                else (Some path, []))))"

definition checkDefinition :: "FileSystem \<Rightarrow> ConsumerRoot \<Rightarrow> DefinitionSource \<Rightarrow> CheckedDefinition" where
  "checkDefinition fs root source =
     (let v = ds_value source in
      if \<not> isRecord v then
        \<lparr>cd_file = ds_file source, cd_position = ds_position source, cd_id = None, cd_test = None,
         cd_modulePath = None, cd_mutation = None, cd_mutationPath = None, cd_problems = [''it is not a JSON object'']\<rparr>
      else let idField = objectField v ''id'';
               usableId = (if isNonEmptyString idField then Some (fieldString idField) else None);
               (test, testProblems) = checkedTest (objectField v ''test'');
               (module, moduleProblems) = testModulePath test;
               (mutation, mutationProblems) = checkedMutation (objectField v ''mutation'');
               (mutationPath, pathProblems) = mutationFilePath fs root mutation
           in \<lparr>cd_file = ds_file source, cd_position = ds_position source, cd_id = usableId, cd_test = test,
               cd_modulePath = module, cd_mutation = mutation, cd_mutationPath = mutationPath,
               cd_problems = problemUnless (usableId \<noteq> None) ''its id is not a non-empty string'' @
                 problemUnless (isString (objectField v ''defect'')) ''its defect is not a string'' @
                 problemUnless (isString (objectField v ''required'')) ''its required is not a string'' @
                 testProblems @ moduleProblems @ mutationProblems @ pathProblems\<rparr>)"

definition definitionName :: "string \<Rightarrow> nat \<Rightarrow> string" where
  "definitionName path position = path @ '' (definition '' @ show_nat position @ '')''"

text \<open>
  The definitions of one id, by their places in the list, which are their identities: a definition's others are
  those of its id at other places.
\<close>

definition withId :: "CheckedDefinition list \<Rightarrow> string \<Rightarrow> nat list" where
  "withId definitions own = filter (\<lambda>i. cd_id (definitions ! i) = Some own) [0..<length definitions]"

definition withRepeatedIds :: "CheckedDefinition list \<Rightarrow> CheckedDefinition list" where
  "withRepeatedIds definitions =
     map (\<lambda>i. let d = definitions ! i in
        case cd_id d of
          None \<Rightarrow> d
        | Some own \<Rightarrow>
            (if length (withId definitions own) = 1 then d
             else let others = map (\<lambda>j. definitionName (cd_file (definitions ! j)) (cd_position (definitions ! j)))
                         (filter (\<lambda>j. j \<noteq> i) (withId definitions own))
                  in d\<lparr>cd_problems := cd_problems d @
                       [''its id '' @ stringify (JStr own) @ '' repeats in '' @ join '', '' others]\<rparr>))
       [0..<length definitions]"

definition consumerRootOf :: "FileSystem \<Rightarrow> string \<Rightarrow> ConsumerRoot" where
  "consumerRootOf fs consumerRoot = \<lparr>cr_given = consumerRoot,
     cr_real = (case realPath fs consumerRoot of Inr real \<Rightarrow> real | Inl _ \<Rightarrow> consumerRoot)\<rparr>"

definition checkDefinitions :: "FileSystem \<Rightarrow> string \<Rightarrow> DefinitionSource list \<Rightarrow> CheckedDefinition list" where
  "checkDefinitions fs consumerRoot sources =
     withRepeatedIds (map (checkDefinition fs (consumerRootOf fs consumerRoot)) sources)"

section \<open>Paths inside the root\<close>

text \<open>
  The path a spelling names inside the root: relative on either host, with at least one segment left once those it
  climbs back over are gone, and none that climbs above the root.
\<close>

definition pathInside :: "string \<Rightarrow> string option" where
  "pathInside spelling =
     (let slashed = join ''/'' (split_on (CHR 0x5C) spelling); segments = normalSegments True slashed in
      if isAbsolute slashed \<or> isWindowsAbsolute spelling \<or> segments = [] \<or> hd segments = parentSegment then None
      else Some (join ''/'' segments))"

lemma climbsOut_join:
  assumes "normalForm True segs" "segs \<noteq> []"
  shows "climbsOut (join ''/'' segs) \<longleftrightarrow> hd segs = parentSegment"
proof
  assume "hd segs = parentSegment"
  then show "climbsOut (join ''/'' segs)" using climbsOut_join_parent [of "tl segs"] assms(2) by (cases segs) auto
next
  assume climbs: "climbsOut (join ''/'' segs)"
  have split: "split_on separator (join ''/'' segs) = segs" by (rule split_join_normal [OF assms])
  from climbs consider "join ''/'' segs = parentSegment" | "starts_with (join ''/'' segs) (parentSegment @ ''/'')"
    by (auto simp: climbsOut_def)
  then show "hd segs = parentSegment"
  proof cases
    case 1
    then have "segs = [parentSegment]" using split by (simp add: parentSegment_def separator_def)
    then show ?thesis by simp
  next
    case 2
    then show ?thesis using split_on_parent_prefix [OF 2] split by auto
  qed
qed

lemma rootRelativePath_iff: "rootRelativePath spelling = Inr path \<longleftrightarrow> pathInside spelling = Some path"
proof -
  let ?s = "join ''/'' (split_on (CHR 0x5C) spelling)"
  let ?segs = "normalSegments True ?s"
  have nf: "normalForm True ?segs" by (rule normalSegments_normal)
  show ?thesis
  proof (cases "isAbsolute ?s \<or> isWindowsAbsolute spelling")
    case True
    then show ?thesis by (simp add: rootRelativePath_def pathInside_def Let_def) blast
  next
    case False
    have normal: "(if dropTrailing (posixNormalize ?s) = [] then ROOT_PATH else dropTrailing (posixNormalize ?s)) =
        (if ?segs = [] then ROOT_PATH else join ''/'' ?segs)"
      using normalizeRelativePath_segments [of ?s] False by (simp add: normalizeRelativePath_def Let_def)
    show ?thesis
    proof (cases "?segs = []")
      case True
      then have "dropTrailing (posixNormalize ?s) \<in> {[], ROOT_PATH}" using normal by (auto split: if_splits)
      then show ?thesis using False True
        by (auto simp: rootRelativePath_def pathInside_def Let_def climbsOut_def ROOT_PATH_def parentSegment_def starts_with_def)
    next
      case ne: False
      have "join ''/'' ?segs \<noteq> ROOT_PATH"
      proof
        assume "join ''/'' ?segs = ROOT_PATH"
        then have "?segs = [currentSegment]" using split_join_normal [OF nf ne]
          by (simp add: ROOT_PATH_def currentSegment_def separator_def)
        then show False using normalForm_seg [OF nf, of currentSegment] by simp
      qed
      then have "dropTrailing (posixNormalize ?s) = join ''/'' ?segs" using normal ne by (simp split: if_splits)
      then show ?thesis using False ne \<open>join ''/'' ?segs \<noteq> ROOT_PATH\<close> climbsOut_join [OF nf ne] join_Nil_iff [OF nf]
        by (simp add: rootRelativePath_def pathInside_def Let_def)
    qed
  qed
qed

section \<open>Which definitions are valid\<close>

text \<open>
  What a definition must be, read off its format: an object with a non-empty id, both texts, a test by its module
  inside the root and its name, and a mutation of a file inside the root that changes its text other than in its
  line breaks' endings.
\<close>

definition wellFormedTest :: "json \<Rightarrow> DefinitionTest \<Rightarrow> bool" where
  "wellFormedTest v t \<longleftrightarrow>
     objectField v ''module'' = Some (JStr (dt_module t)) \<and> dt_module t \<noteq> [] \<and>
     objectField v ''name'' = Some (JArr (map JStr (dt_name t))) \<and> dt_name t \<noteq> [] \<and>
     objectField v ''project'' = map_option JStr (dt_project t) \<and>
     objectField v ''occurrence'' = map_option JNum (dt_occurrence t)"

definition wellFormedMutation :: "json \<Rightarrow> DefinitionMutation \<Rightarrow> bool" where
  "wellFormedMutation v m \<longleftrightarrow>
     objectField v ''file'' = Some (JStr (dm_file m)) \<and> dm_file m \<noteq> [] \<and>
     objectField v ''old'' = Some (JStr (dm_old m)) \<and> objectField v ''new'' = Some (JStr (dm_new m))"

lemma problemUnless_Nil [simp]: "(problemUnless ok problem = []) = ok"
  by (simp add: problemUnless_def)

lemma isString_iff: "isString v \<longleftrightarrow> (\<exists>s. v = Some (JStr s))"
  by (cases v rule: isString.cases) auto

lemma isNonEmptyString_iff: "isNonEmptyString v \<longleftrightarrow> (\<exists>s. v = Some (JStr s) \<and> s \<noteq> [])"
  by (cases v rule: isNonEmptyString.cases) auto

lemma isNumber_iff: "isNumber v \<longleftrightarrow> (\<exists>n. v = JNum n)"
  by (cases v) auto

lemma stringOf_iff: "stringOf v = Some s \<longleftrightarrow> v = JStr s"
  by (cases v) auto

lemma stringArray_iff: "stringArray v = Some names \<longleftrightarrow> v = JArr (map JStr names)"
proof (cases v)
  case (JArr vs)
  have "(list_all (\<lambda>v. stringOf v \<noteq> None) vs \<and> map (\<lambda>v. the (stringOf v)) vs = names) \<longleftrightarrow> vs = map JStr names"
  proof (induction vs arbitrary: names)
    case (Cons v vs)
    show ?case
    proof (cases names)
      case (Cons n ns)
      then show ?thesis using Cons.IH [of ns] by (auto simp: stringOf_iff)
    qed simp
  qed auto
  then show ?thesis unfolding JArr stringArray.simps by auto
qed simp_all

lemma isRecord_iff: "isRecord v \<longleftrightarrow> (\<exists>members. v = JObj members)"
  by (cases v) auto

lemma checkedTest_iff: "checkedTest field = (Some t, problems) \<longleftrightarrow>
    problems = [] \<and> (\<exists>v. field = Some v \<and> isRecord v \<and> wellFormedTest v t)"
proof -
  have found: "(testFound v = [] \<and>
      t = \<lparr>dt_module = fieldString (objectField v ''module''),
        dt_name = (case Option.bind (objectField v ''name'') stringArray of Some names \<Rightarrow> names | None \<Rightarrow> []),
        dt_project = Option.bind (objectField v ''project'') stringOf,
        dt_occurrence = Option.bind (objectField v ''occurrence'') numberOf\<rparr>) \<longleftrightarrow> wellFormedTest v t" for v
  proof -
    have project: "optionIs (\<lambda>p. isString (Some p)) p \<and> q = Option.bind p stringOf \<longleftrightarrow> p = map_option JStr q" for p q
      by (cases p; cases q) (auto simp: optionIs_def isString_iff stringOf_iff)
    have occurrence: "optionIs isNumber p \<and> q = Option.bind p numberOf \<longleftrightarrow> p = map_option JNum q" for p q
      by (cases p; cases q) (auto simp: optionIs_def isNumber_iff)
    have name: "(case Option.bind p stringArray of Some names \<Rightarrow> names \<noteq> [] | None \<Rightarrow> False) \<and>
        q = (case Option.bind p stringArray of Some names \<Rightarrow> names | None \<Rightarrow> []) \<longleftrightarrow>
        p = Some (JArr (map JStr q)) \<and> q \<noteq> []" for p q
      by (cases p) (auto simp: stringArray_iff inj_map_eq_map inj_def split: option.splits)
    have module: "isNonEmptyString p \<and> q = fieldString p \<longleftrightarrow> p = Some (JStr q) \<and> q \<noteq> []" for p q
      by (auto simp: isNonEmptyString_iff fieldString_def)
    show ?thesis
      using project [of "objectField v ''project''" "dt_project t"] occurrence [of "objectField v ''occurrence''" "dt_occurrence t"]
        name [of "objectField v ''name''" "dt_name t"] module [of "objectField v ''module''" "dt_module t"]
      by (cases t) (simp add: testFound_def wellFormedTest_def conj_ac, blast)
  qed
  show ?thesis
  proof (cases "\<exists>members. field = Some (JObj members)")
    case True
    then obtain members where field: "field = Some (JObj members)" by blast
    show ?thesis unfolding field checkedTest_def Let_def using found [of "JObj members"] by auto
  next
    case False
    then show ?thesis by (auto simp: checkedTest_def isRecord_iff split: option.split json.split)
  qed
qed

lemma checkedMutation_iff: "checkedMutation field = (Some m, []) \<longleftrightarrow>
    (\<exists>v. field = Some v \<and> isRecord v \<and> wellFormedMutation v m) \<and> dm_old m \<noteq> [] \<and> toLf (dm_old m) \<noteq> toLf (dm_new m)"
proof (cases "\<exists>members. field = Some (JObj members)")
  case True
  then obtain members where field: "field = Some (JObj members)" by blast
  have given: "isNonEmptyString p \<and> q = fieldString p \<longleftrightarrow> p = Some (JStr q) \<and> q \<noteq> []"
    "isString p \<and> q = fieldString p \<longleftrightarrow> p = Some (JStr q)" for p q
    by (auto simp: isNonEmptyString_iff isString_iff fieldString_def)
  have whole: "(isNonEmptyString (objectField (JObj members) ''file'') \<and> isString (objectField (JObj members) ''old'') \<and>
      isString (objectField (JObj members) ''new'') \<and>
      m = \<lparr>dm_file = fieldString (objectField (JObj members) ''file''),
        dm_old = fieldString (objectField (JObj members) ''old''), dm_new = fieldString (objectField (JObj members) ''new'')\<rparr>) \<longleftrightarrow>
      wellFormedMutation (JObj members) m"
    using given(1) [of "objectField (JObj members) ''file''" "dm_file m"]
      given(2) [of "objectField (JObj members) ''old''" "dm_old m"]
      given(2) [of "objectField (JObj members) ''new''" "dm_new m"]
    by (cases m) (simp add: wellFormedMutation_def del: objectField.simps, blast)
  show ?thesis unfolding field checkedMutation_def Let_def using whole by (auto simp del: objectField.simps)
next
  case False
  then show ?thesis by (auto simp: checkedMutation_def isRecord_iff split: option.split json.split)
qed

lemma checkedMutation_problems: "snd (checkedMutation field) = [] \<Longrightarrow> fst (checkedMutation field) \<noteq> None"
  by (auto simp: checkedMutation_def Let_def split: option.splits json.splits if_splits)

lemma checkedTest_problems: "snd (checkedTest field) = [] \<Longrightarrow> fst (checkedTest field) \<noteq> None"
  by (auto simp: checkedTest_def Let_def split: option.splits json.splits if_splits)

text \<open>A definition alone: what it is read as when nothing is wrong with it.\<close>

definition readAs :: "FileSystem \<Rightarrow> ConsumerRoot \<Rightarrow> DefinitionSource \<Rightarrow> CheckedDefinition \<Rightarrow> bool" where
  "readAs fs root source d \<longleftrightarrow>
     (let v = ds_value source in
      isRecord v \<and> (\<exists>own t m modulePath spelled tv mv.
        objectField v ''id'' = Some (JStr own) \<and> own \<noteq> [] \<and>
        isString (objectField v ''defect'') \<and> isString (objectField v ''required'') \<and>
        objectField v ''test'' = Some tv \<and> isRecord tv \<and> wellFormedTest tv t \<and> pathInside (dt_module t) = Some modulePath \<and>
        objectField v ''mutation'' = Some mv \<and> isRecord mv \<and> wellFormedMutation mv m \<and>
        dm_old m \<noteq> [] \<and> toLf (dm_old m) \<noteq> toLf (dm_new m) \<and>
        pathInside (dm_file m) = Some spelled \<and> \<not> leadsOutside fs root (posixJoin [cr_given root, spelled]) \<and>
        d = \<lparr>cd_file = ds_file source, cd_position = ds_position source, cd_id = Some own, cd_test = Some t,
              cd_modulePath = Some modulePath, cd_mutation = Some m,
              cd_mutationPath = Some (posixJoin [cr_given root, spelled]), cd_problems = []\<rparr>))"

lemma testModulePath_iff: "testModulePath (Some t) = (Some path, []) \<longleftrightarrow> pathInside (dt_module t) = Some path"
  by (auto simp: testModulePath_def rootRelativePath_iff [symmetric] split: sum.split)

lemma testModulePath_problems: "snd (testModulePath (Some t)) = [] \<Longrightarrow> fst (testModulePath (Some t)) \<noteq> None"
  by (auto simp: testModulePath_def split: sum.splits)

lemma mutationFilePath_iff: "mutationFilePath fs root (Some m) = (Some path, []) \<longleftrightarrow>
    (\<exists>spelled. pathInside (dm_file m) = Some spelled \<and> path = posixJoin [cr_given root, spelled] \<and>
      \<not> leadsOutside fs root path)"
  by (auto simp: mutationFilePath_def Let_def rootRelativePath_iff [symmetric] split: sum.split)

lemma mutationFilePath_problems:
  "snd (mutationFilePath fs root (Some m)) = [] \<Longrightarrow> fst (mutationFilePath fs root (Some m)) \<noteq> None"
  by (auto simp: mutationFilePath_def Let_def split: sum.splits if_splits)

lemma checkDefinition_valid:
  "(cd_problems (checkDefinition fs root source) = [] \<and> d = checkDefinition fs root source) \<longleftrightarrow> readAs fs root source d"
proof (cases "isRecord (ds_value source)")
  case False
  then show ?thesis by (auto simp: checkDefinition_def readAs_def Let_def)
next
  case True
  let ?v = "ds_value source"
  let ?test = "checkedTest (objectField ?v ''test'')" and ?mutation = "checkedMutation (objectField ?v ''mutation'')"
  show ?thesis
  proof
    assume valid: "cd_problems (checkDefinition fs root source) = [] \<and> d = checkDefinition fs root source"
    then have no: "isNonEmptyString (objectField ?v ''id'')" "isString (objectField ?v ''defect'')"
        "isString (objectField ?v ''required'')" "snd ?test = []" "snd (testModulePath (fst ?test)) = []"
        "snd ?mutation = []" "snd (mutationFilePath fs root (fst ?mutation)) = []"
      using True by (auto simp: checkDefinition_def Let_def split_beta split: if_splits)
    from no(4) checkedTest_problems obtain t where t: "?test = (Some t, [])" by (metis option.exhaust surjective_pairing)
    from no(6) checkedMutation_problems obtain m where m: "?mutation = (Some m, [])" by (metis option.exhaust surjective_pairing)
    from no(5) t testModulePath_problems obtain modulePath where module: "testModulePath (Some t) = (Some modulePath, [])"
      by (metis fst_conv option.exhaust surjective_pairing)
    from no(7) m mutationFilePath_problems obtain path where path: "mutationFilePath fs root (Some m) = (Some path, [])"
      by (metis fst_conv option.exhaust surjective_pairing)
    from no(1) obtain own where own: "objectField ?v ''id'' = Some (JStr own)" "own \<noteq> []" by (auto simp: isNonEmptyString_iff)
    have "d = \<lparr>cd_file = ds_file source, cd_position = ds_position source, cd_id = Some own, cd_test = Some t,
        cd_modulePath = Some modulePath, cd_mutation = Some m, cd_mutationPath = Some path, cd_problems = []\<rparr>"
      using valid True own no(2,3) t m module path
      by (simp add: checkDefinition_def Let_def problemUnless_def fieldString_def)
    then show "readAs fs root source d"
      using True own no(2,3) t m module path
      unfolding readAs_def Let_def checkedTest_iff checkedMutation_iff testModulePath_iff mutationFilePath_iff by blast
  next
    assume "readAs fs root source d"
    then obtain own t m modulePath spelled where given: "objectField ?v ''id'' = Some (JStr own)" "own \<noteq> []"
      "isString (objectField ?v ''defect'')" "isString (objectField ?v ''required'')"
      "?test = (Some t, [])" "testModulePath (Some t) = (Some modulePath, [])" "?mutation = (Some m, [])"
      "mutationFilePath fs root (Some m) = (Some (posixJoin [cr_given root, spelled]), [])"
      "d = \<lparr>cd_file = ds_file source, cd_position = ds_position source, cd_id = Some own, cd_test = Some t,
              cd_modulePath = Some modulePath, cd_mutation = Some m,
              cd_mutationPath = Some (posixJoin [cr_given root, spelled]), cd_problems = []\<rparr>"
      unfolding readAs_def Let_def checkedTest_iff checkedMutation_iff testModulePath_iff mutationFilePath_iff by blast
    then show "cd_problems (checkDefinition fs root source) = [] \<and> d = checkDefinition fs root source"
      using True by (simp add: checkDefinition_def Let_def problemUnless_def fieldString_def)
  qed
qed

lemma checkDefinition_id: "cd_id (checkDefinition fs root source) = Some own \<longleftrightarrow>
    objectField (ds_value source) ''id'' = Some (JStr own) \<and> own \<noteq> []"
proof (cases "isRecord (ds_value source)")
  case True
  then show ?thesis by (auto simp: checkDefinition_def Let_def split_beta isNonEmptyString_iff fieldString_def)
next
  case False
  then show ?thesis by (cases "ds_value source") (simp_all add: checkDefinition_def)
qed

lemma withId_one:
  assumes "i < length ds" "cd_id (ds ! i) = Some own"
  shows "length (withId ds own) = 1 \<longleftrightarrow> (\<forall>j < length ds. j \<noteq> i \<longrightarrow> cd_id (ds ! j) \<noteq> Some own)"
proof -
  have i: "i \<in> set (withId ds own)" using assms by (simp add: withId_def)
  have "distinct (withId ds own)" by (simp add: withId_def)
  then have "length (withId ds own) = card (set (withId ds own))" by (simp add: distinct_card)
  also have "\<dots> = 1 \<longleftrightarrow> set (withId ds own) = {i}" using i by (auto simp: card_1_singleton_iff)
  also have "\<dots> \<longleftrightarrow> (\<forall>j < length ds. j \<noteq> i \<longrightarrow> cd_id (ds ! j) \<noteq> Some own)"
    using assms by (auto simp: withId_def)
  finally show ?thesis .
qed

lemma withRepeatedIds_nth:
  assumes "i < length ds"
  shows "(cd_problems (withRepeatedIds ds ! i) = [] \<and> d = withRepeatedIds ds ! i) \<longleftrightarrow>
    cd_problems (ds ! i) = [] \<and> d = ds ! i \<and> (cd_id d = None \<or> (\<forall>j < length ds. j \<noteq> i \<longrightarrow> cd_id (ds ! j) \<noteq> cd_id d))"
proof (cases "cd_id (ds ! i)")
  case None
  then show ?thesis using assms by (auto simp: withRepeatedIds_def)
next
  case (Some own)
  then show ?thesis using assms withId_one [OF assms Some] by (auto simp: withRepeatedIds_def Let_def)
qed

section \<open>Property\<close>

text \<open>
  C37. A definition has no problem exactly when its format is kept, its test's module and its mutation's file lie
  inside the consumer root by their spelling and the file also by its real path, its mutation changes the text it
  names other than in line breaks' endings, and no other definition of the worktree has its id; it is then taken as
  it is written.
\<close>

theorem valid_definition_iff:
  assumes "i < length sources"
  shows "(cd_problems (checkDefinitions fs consumerRoot sources ! i) = [] \<and> d = checkDefinitions fs consumerRoot sources ! i) \<longleftrightarrow>
    readAs fs (consumerRootOf fs consumerRoot) (sources ! i) d \<and>
    (\<forall>j < length sources. j \<noteq> i \<longrightarrow> objectField (ds_value (sources ! j)) ''id'' \<noteq> map_option JStr (cd_id d))"
proof -
  let ?root = "consumerRootOf fs consumerRoot"
  have own: "\<exists>own. cd_id d = Some own \<and> own \<noteq> []" if "readAs fs ?root (sources ! i) d"
    using that by (auto simp: readAs_def Let_def)
  have "(cd_problems (checkDefinitions fs consumerRoot sources ! i) = [] \<and> d = checkDefinitions fs consumerRoot sources ! i) \<longleftrightarrow>
      (cd_problems (checkDefinition fs ?root (sources ! i)) = [] \<and> d = checkDefinition fs ?root (sources ! i)) \<and>
      (cd_id d = None \<or> (\<forall>j < length sources. j \<noteq> i \<longrightarrow> cd_id (checkDefinition fs ?root (sources ! j)) \<noteq> cd_id d))"
    unfolding checkDefinitions_def using withRepeatedIds_nth [of i "map (checkDefinition fs ?root) sources" d] assms by auto
  also have "\<dots> \<longleftrightarrow> readAs fs ?root (sources ! i) d \<and>
      (\<forall>j < length sources. j \<noteq> i \<longrightarrow> objectField (ds_value (sources ! j)) ''id'' \<noteq> map_option JStr (cd_id d))"
    unfolding checkDefinition_valid using own checkDefinition_id [of fs ?root] by fastforce
  finally show ?thesis .
qed

text \<open>One definition beside another of another id.\<close>

definition sampleDefinition :: "string \<Rightarrow> DefinitionSource" where
  "sampleDefinition own = \<lparr>ds_file = ''f'', ds_position = 0, ds_value = JObj [(''id'', JStr own), (''defect'', JStr ''d''),
     (''required'', JStr ''r''), (''test'', JObj [(''module'', JStr ''./a/t''), (''name'', JArr [JStr ''n''])]),
     (''mutation'', JObj [(''file'', JStr ''a/../s''), (''old'', JStr ''x''), (''new'', JStr ''y'')])]\<rparr>"

definition sampleFileSystem :: FileSystem where
  "sampleFileSystem = \<lparr>fs_existsSync = (\<lambda>_. True), fs_realpathSync = (\<lambda>path. Inr path),
     fs_readFile = (\<lambda>_. CannotRead []), fs_readdirSync = (\<lambda>_. Inr []), fs_isDirectory = (\<lambda>_. Inr False)\<rparr>"

theorem valid_definition_iff_witness:
  "readAs sampleFileSystem (consumerRootOf sampleFileSystem ''/r'') (sampleDefinition ''p'')
     (checkDefinitions sampleFileSystem ''/r'' [sampleDefinition ''p'', sampleDefinition ''q''] ! 0)"
proof -
  have "cd_problems (checkDefinitions sampleFileSystem ''/r'' [sampleDefinition ''p'', sampleDefinition ''q''] ! 0) = []"
    by code_simp
  then show ?thesis
    using valid_definition_iff [of 0 "[sampleDefinition ''p'', sampleDefinition ''q'']" sampleFileSystem "''/r''"
      "checkDefinitions sampleFileSystem ''/r'' [sampleDefinition ''p'', sampleDefinition ''q''] ! 0"] by simp
qed

end
