(* ===== verification/ResolveDefinitions.thy ===== *)
theory ResolveDefinitions
  imports Definitions Records
begin

text \<open>
  The definitions against the files and the latest discovery (\<^verbatim>\<open>defects/resolve-definitions.ts\<close>,
  \<^verbatim>\<open>defects/defect-states.ts\<close>): the anchor of each sound definition counted in its mutation's file, the one
  discovered test its test names, and its state before any evidence is read. A definition's identity, by which the
  source keeps what was read for it, is its place in the list. The reader answers each read in turn, so a file that
  changes between two reads answers differently; the hash is a parameter.
\<close>

section \<open>The states\<close>

datatype DefectState =
    InvalidDefinition
  | AnchorMissing
  | SurvivedState
  | InvalidExperimentState
  | UnclearState
  | NeverVerified
  | DetectedState

definition DEFECT_STATES :: "DefectState list" where
  "DEFECT_STATES = [InvalidDefinition, AnchorMissing, SurvivedState, InvalidExperimentState, UnclearState, NeverVerified,
     DetectedState]"

definition NOT_RUNNABLE_STATES :: "DefectState list" where
  "NOT_RUNNABLE_STATES = [InvalidDefinition, AnchorMissing]"

definition UNDETECTED_VERDICTS :: "DefectState list" where
  "UNDETECTED_VERDICTS = [SurvivedState, InvalidExperimentState, UnclearState]"

section \<open>Reading the anchors\<close>

datatype FileText = FileContents string string | UnreadableText string

record AnchorRead =
  ar_missing :: "string option"
  ar_fileDigest :: "string option"

text \<open>What one look at a file answers: whether it is a regular file, and its text.\<close>

record FileLook =
  fl_isFile :: "IoError + bool"
  fl_text :: "IoError + string"

definition readMutationFile :: "(string \<Rightarrow> string) \<Rightarrow> FileLook \<Rightarrow> FileText" where
  "readMutationFile hash look =
     (case fl_isFile look of
        Inl error \<Rightarrow> UnreadableText (io_text error)
      | Inr isFile \<Rightarrow>
          (if \<not> isFile then UnreadableText ''it is not a regular file''
           else case fl_text look of
               Inl error \<Rightarrow> UnreadableText (io_text error)
             | Inr contents \<Rightarrow> FileContents contents (hash contents)))"

definition ANCHOR_NOT_READ :: string where
  "ANCHOR_NOT_READ = ''its mutation's file was not read''"

definition UNREAD_ANCHOR :: AnchorRead where
  "UNREAD_ANCHOR = \<lparr>ar_missing = Some ANCHOR_NOT_READ, ar_fileDigest = None\<rparr>"

definition anchorProblem :: "CheckedDefinition \<Rightarrow> FileText option \<Rightarrow> string option" where
  "anchorProblem definition' content =
     (case (cd_mutation definition', content) of
        (Some mutation, Some (UnreadableText why)) \<Rightarrow>
          Some (''its mutation's file '' @ dm_file mutation @ '' cannot be read: '' @ why)
      | (Some mutation, Some (FileContents contents digest)) \<Rightarrow>
          (let occurrences = countAnchor contents (dm_old mutation) in
           if occurrences = 1 then None
           else Some (''its mutation's old text occurs '' @ show_nat occurrences @ '' times in '' @ dm_file mutation @ '', not once''))
      | _ \<Rightarrow> Some ANCHOR_NOT_READ)"

record AnchorState =
  as_files :: "(string, FileText) jsmap"
  as_anchors :: "(nat, AnchorRead) jsmap"

text \<open>The file is read once: the next read is the one after those of the files read before.\<close>

definition mutationFileText :: "(string \<Rightarrow> string) \<Rightarrow> (nat \<Rightarrow> string \<Rightarrow> FileLook) \<Rightarrow> CheckedDefinition \<Rightarrow>
    (string, FileText) jsmap \<Rightarrow> FileText option \<times> (string, FileText) jsmap" where
  "mutationFileText hash look definition' files =
     (case cd_mutationPath definition' of
        None \<Rightarrow> (None, files)
      | Some path \<Rightarrow>
          (case map_of files path of
             Some content \<Rightarrow> (Some content, files)
           | None \<Rightarrow> (let content = readMutationFile hash (look (length files) path)
                      in (Some content, jset path content files))))"

definition readAnchor :: "(string \<Rightarrow> string) \<Rightarrow> (nat \<Rightarrow> string \<Rightarrow> FileLook) \<Rightarrow> CheckedDefinition \<Rightarrow>
    (string, FileText) jsmap \<Rightarrow> AnchorRead \<times> (string, FileText) jsmap" where
  "readAnchor hash look definition' files =
     (let (content, files) = mutationFileText hash look definition' files
      in (\<lparr>ar_missing = anchorProblem definition' content,
           ar_fileDigest = (case content of Some (FileContents contents digest) \<Rightarrow> Some digest | _ \<Rightarrow> None)\<rparr>, files))"

definition addAnchor :: "(string \<Rightarrow> string) \<Rightarrow> (nat \<Rightarrow> string \<Rightarrow> FileLook) \<Rightarrow> CheckedDefinition list \<Rightarrow> nat \<Rightarrow>
    AnchorState \<Rightarrow> AnchorState" where
  "addAnchor hash look definitions i s =
     (if cd_problems (definitions ! i) \<noteq> [] then s
      else let (anchor, files) = readAnchor hash look (definitions ! i) (as_files s)
           in \<lparr>as_files = files, as_anchors = jset i anchor (as_anchors s)\<rparr>)"

definition readAnchorsFrom :: "(string \<Rightarrow> string) \<Rightarrow> (nat \<Rightarrow> string \<Rightarrow> FileLook) \<Rightarrow> CheckedDefinition list \<Rightarrow> nat list \<Rightarrow>
    AnchorState" where
  "readAnchorsFrom hash look definitions places =
     fold (addAnchor hash look definitions) places \<lparr>as_files = [], as_anchors = []\<rparr>"

definition readAnchors :: "(string \<Rightarrow> string) \<Rightarrow> (nat \<Rightarrow> string \<Rightarrow> FileLook) \<Rightarrow> CheckedDefinition list \<Rightarrow>
    (nat, AnchorRead) jsmap" where
  "readAnchors hash look definitions =
     as_anchors (readAnchorsFrom hash look definitions [0..<length definitions])"

section \<open>Resolving a test\<close>

record DiscoveryIndex =
  dx_tests :: "(string, DiscoveredTest list) jsmap"
  dx_modules :: "string list"
  dx_failedModules :: "string list"
  dx_current :: bool

definition indexTest :: "string \<Rightarrow> DiscoveredTest \<Rightarrow> (string, DiscoveredTest list) jsmap \<Rightarrow>
    (string, DiscoveredTest list) jsmap" where
  "indexTest workspace test tests =
     (let path = testModuleFile workspace (modulePath (it_identity test)) in
      case map_of tests path of
        None \<Rightarrow> jset path [test] tests
      | Some found \<Rightarrow> jset path (found @ [test]) tests)"

definition indexEntry :: "WorkspaceDiscovery \<Rightarrow> DiscoveryIndex \<Rightarrow> DiscoveryIndex" where
  "indexEntry entry index =
     (let index = index\<lparr>dx_modules := fold jadd (workspaceTestModules entry) (dx_modules index)\<rparr> in
      case entry of
        WsDiscovered d \<Rightarrow>
          (let workspace = ws_path (dw_workspace d) in
           index\<lparr>dx_failedModules := fold (\<lambda>failed. jadd (testModuleFile workspace (mr_modulePath failed)))
                    (dw_failedModules d) (dx_failedModules index),
                  dx_tests := fold (indexTest workspace) (dw_tests d) (dx_tests index)\<rparr>)
      | _ \<Rightarrow> index)"

definition discoveryIndex :: "TestDiscovery \<Rightarrow> bool \<Rightarrow> DiscoveryIndex" where
  "discoveryIndex discovery current =
     fold indexEntry (td_workspaces discovery)
       \<lparr>dx_tests = [], dx_modules = [], dx_failedModules = [], dx_current = current\<rparr>"

definition namesTest :: "DefinitionTest \<Rightarrow> DiscoveredTest \<Rightarrow> bool" where
  "namesTest test candidate =
     (let identity = it_identity candidate in
      length (namePath identity) = length (dt_name test) \<and>
      list_all2 (\<lambda>name wanted. name = wanted) (namePath identity) (dt_name test) \<and>
      (dt_project test = None \<or> dt_project test = Some (projectName identity)) \<and>
      (dt_occurrence test = None \<or> dt_occurrence test = Some (occurrence identity)))"

definition listedModuleText :: "string \<Rightarrow> DiscoveryIndex \<Rightarrow> string" where
  "listedModuleText module index =
     (if module \<notin> set (dx_failedModules index) then ''the latest discovery lists that module''
      else if jhas (dx_tests index) module then
        ''that module failed to collect in a project of the latest discovery, so none of its tests there is discovered''
      else ''that module failed to collect in the latest discovery, so none of its tests is discovered'')"

definition narrowingText :: "DefinitionTest \<Rightarrow> string" where
  "narrowingText test =
     (let given = (case dt_project test of None \<Rightarrow> [] | Some p \<Rightarrow> [''project '' @ stringify (JStr p)]) @
            (case dt_occurrence test of None \<Rightarrow> [] | Some n \<Rightarrow> [''occurrence '' @ show_nat n])
      in if given = [] then [] else '' with '' @ join '' and '' given)"

definition notDiscoveredReason :: "DefinitionTest \<Rightarrow> string \<Rightarrow> DiscoveryIndex \<Rightarrow> string" where
  "notDiscoveredReason test module index =
     (let listing = (if module \<in> set (dx_modules index) then listedModuleText module index
            else ''the latest discovery does not list that module'');
          currency = (if dx_current index then []
            else '', and that discovery is not current, so a test added since it was stored is not discovered until '' @
              ''the next one is'')
      in ''its test is not discovered: no discovered test in '' @ module @ '' has the name path '' @
         stringify (JArr (map JStr (dt_name test))) @ narrowingText test @ ''; '' @ listing @ currency)"

definition differ :: "(TestIdentity \<Rightarrow> 'a) \<Rightarrow> DiscoveredTest list \<Rightarrow> bool" where
  "differ read matches = (length (uniq (map (\<lambda>match. read (it_identity match)) matches)) > 1)"

definition ambiguousReason :: "DefinitionTest \<Rightarrow> DiscoveredTest list \<Rightarrow> string" where
  "ambiguousReason test matches =
     (let told = (if dt_project test = None \<and> differ projectName matches then [''project''] else []) @
            (if dt_occurrence test = None \<and> differ occurrence matches then [''occurrence''] else []);
          lead = ''its test is ambiguous: it names '' @ show_nat (length matches) @ '' discovered tests''
      in if told \<noteq> [] then lead @ ''; give its '' @ join '' and '' told @ '' to tell them apart''
         else lead @ '', which lie in the Vitest workspaces '' @
           join '', '' (uniq (map (\<lambda>match. workspacePath (it_identity match)) matches)) @
           '', and no field of the definition format tells them apart'')"

text \<open>\<open>None\<close> when the definition names no usable module, else its problem or the one test it names.\<close>

definition resolveTest :: "CheckedDefinition \<Rightarrow> DiscoveryIndex \<Rightarrow> (string + DiscoveredTest) option" where
  "resolveTest definition' index =
     (case (cd_test definition', cd_modulePath definition') of
        (Some test, Some module) \<Rightarrow>
          (let matches = filter (namesTest test) (case map_of (dx_tests index) module of None \<Rightarrow> [] | Some ts \<Rightarrow> ts) in
           case matches of
             [only] \<Rightarrow> Some (Inr only)
           | [] \<Rightarrow> Some (Inl (notDiscoveredReason test module index))
           | _ \<Rightarrow> Some (Inl (ambiguousReason test matches)))
      | _ \<Rightarrow> None)"

record ResolvedDefinition = CheckedDefinition +
  rd_resolved :: "DiscoveredTest option"
  rd_discoveredModule :: "string option"
  rd_state :: DefectState
  rd_reason :: "string option"
  rd_mutationFileDigest :: "string option"

definition resolvedWith :: "CheckedDefinition \<Rightarrow> DiscoveredTest option \<Rightarrow> string option \<Rightarrow> DefectState \<Rightarrow>
    string option \<Rightarrow> string option \<Rightarrow> ResolvedDefinition" where
  "resolvedWith definition' resolved discovered state reason digest =
     CheckedDefinition.extend definition' (ResolvedDefinition.fields resolved discovered state reason digest)"

definition resolveDefinition :: "DiscoveryIndex \<Rightarrow> (nat, AnchorRead) jsmap \<Rightarrow> nat \<Rightarrow> CheckedDefinition \<Rightarrow>
    ResolvedDefinition" where
  "resolveDefinition index anchors i definition' =
     (let discovered = (case cd_modulePath definition' of
            Some module \<Rightarrow> if module \<in> set (dx_modules index) then Some module else None
          | None \<Rightarrow> None);
          resolution = resolveTest definition' index;
          resolved = (case resolution of Some (Inr test) \<Rightarrow> Some test | _ \<Rightarrow> None);
          problems = (case resolution of Some (Inl problem) \<Rightarrow> cd_problems definition' @ [problem]
            | _ \<Rightarrow> cd_problems definition')
      in if problems \<noteq> [] \<or> resolved = None
         then resolvedWith definition' resolved discovered InvalidDefinition (Some (join ''; '' problems)) None
         else let anchor = (case map_of anchors i of Some anchor \<Rightarrow> anchor | None \<Rightarrow> UNREAD_ANCHOR)
              in case ar_missing anchor of
                   None \<Rightarrow> resolvedWith definition' resolved discovered NeverVerified None (ar_fileDigest anchor)
                 | Some missing \<Rightarrow>
                     resolvedWith definition' resolved discovered AnchorMissing (Some missing) (ar_fileDigest anchor))"

definition resolveDefinitions :: "CheckedDefinition list \<Rightarrow> (nat, AnchorRead) jsmap \<Rightarrow> TestDiscovery \<Rightarrow> bool \<Rightarrow>
    ResolvedDefinition list" where
  "resolveDefinitions definitions anchors discovery discoveryCurrent =
     (let index = discoveryIndex discovery discoveryCurrent
      in map (\<lambda>i. resolveDefinition index anchors i (definitions ! i)) [0..<length definitions])"

section \<open>What the discovery holds of a module\<close>

text \<open>The discovered tests whose module is the file, in the order the discovery lists them.\<close>

definition moduleTestsOf :: "string \<Rightarrow> WorkspaceDiscovery \<Rightarrow> DiscoveredTest list" where
  "moduleTestsOf path entry =
     (case entry of
        WsDiscovered d \<Rightarrow>
          filter (\<lambda>test. testModuleFile (ws_path (dw_workspace d)) (modulePath (it_identity test)) = path) (dw_tests d)
      | _ \<Rightarrow> [])"

definition testsIn :: "TestDiscovery \<Rightarrow> string \<Rightarrow> DiscoveredTest list" where
  "testsIn discovery path = flat_map (moduleTestsOf path) (td_workspaces discovery)"

definition heldTests :: "(string, DiscoveredTest list) jsmap \<Rightarrow> string \<Rightarrow> DiscoveredTest list" where
  "heldTests tests path = (case map_of tests path of None \<Rightarrow> [] | Some ts \<Rightarrow> ts)"

lemma heldTests_indexTest:
  "heldTests (indexTest workspace test tests) path = heldTests tests path @
     (if testModuleFile workspace (modulePath (it_identity test)) = path then [test] else [])"
  by (auto simp: heldTests_def indexTest_def Let_def split: option.split)

lemma heldTests_fold:
  "heldTests (fold (indexTest workspace) ts tests) path = heldTests tests path @
     filter (\<lambda>test. testModuleFile workspace (modulePath (it_identity test)) = path) ts"
  by (induction ts arbitrary: tests) (auto simp: heldTests_indexTest)

lemma heldTests_indexEntry: "heldTests (dx_tests (indexEntry entry index)) path =
    heldTests (dx_tests index) path @ moduleTestsOf path entry"
  by (cases entry) (simp_all add: indexEntry_def moduleTestsOf_def Let_def heldTests_fold)

lemma heldTests_discoveryIndex: "heldTests (dx_tests (discoveryIndex discovery current)) path = testsIn discovery path"
proof -
  have "heldTests (dx_tests (fold indexEntry entries index)) path =
      heldTests (dx_tests index) path @ flat_map (moduleTestsOf path) entries" for entries index
    by (induction entries arbitrary: index) (simp_all add: heldTests_indexEntry flat_map_def)
  then show ?thesis by (simp add: discoveryIndex_def testsIn_def heldTests_def)
qed

text \<open>A test is resolved exactly when it is the only one of its module the definition names.\<close>

lemma resolveTest_Some: "resolveTest definition' (discoveryIndex discovery current) = Some (Inr test) \<longleftrightarrow>
    (\<exists>wanted module. cd_test definition' = Some wanted \<and> cd_modulePath definition' = Some module \<and>
      filter (namesTest wanted) (testsIn discovery module) = [test])"
  by (auto simp: resolveTest_def Let_def heldTests_discoveryIndex [unfolded heldTests_def]
      split: option.splits list.splits)

lemma resolveTest_None: "resolveTest definition' index = None \<longleftrightarrow>
    cd_test definition' = None \<or> cd_modulePath definition' = None"
  by (auto simp: resolveTest_def Let_def split: option.splits list.splits)

section \<open>The anchors as they were read\<close>

text \<open>
  Every file was read once, the n-th of them by the n-th read, and the anchor of each definition read so far is
  what that one read of its file says.
\<close>

definition anchorOf :: "(string, FileText) jsmap \<Rightarrow> CheckedDefinition \<Rightarrow> AnchorRead" where
  "anchorOf files definition' =
     (let content = Option.bind (cd_mutationPath definition') (map_of files)
      in \<lparr>ar_missing = anchorProblem definition' content,
          ar_fileDigest = (case content of Some (FileContents contents digest) \<Rightarrow> Some digest | _ \<Rightarrow> None)\<rparr>)"

definition anchorsRead :: "(string \<Rightarrow> string) \<Rightarrow> (nat \<Rightarrow> string \<Rightarrow> FileLook) \<Rightarrow> CheckedDefinition list \<Rightarrow> nat set \<Rightarrow>
    AnchorState \<Rightarrow> bool" where
  "anchorsRead hash look definitions seen s \<longleftrightarrow>
     wf_map (as_files s) \<and>
     (\<forall>n < length (as_files s). snd (as_files s ! n) = readMutationFile hash (look n (fst (as_files s ! n)))) \<and>
     (\<forall>i. map_of (as_anchors s) i =
        (if i \<in> seen \<and> cd_problems (definitions ! i) = [] then Some (anchorOf (as_files s) (definitions ! i)) else None)) \<and>
     (\<forall>i \<in> seen. cd_problems (definitions ! i) = [] \<longrightarrow>
        (\<forall>path. cd_mutationPath (definitions ! i) = Some path \<longrightarrow> map_of (as_files s) path \<noteq> None))"

lemma mutationFileText_files:
  assumes "wf_map files" "\<forall>n < length files. snd (files ! n) = readMutationFile hash (look n (fst (files ! n)))"
    and "mutationFileText hash look definition' files = (content, files')"
  shows "wf_map files'" "\<forall>n < length files'. snd (files' ! n) = readMutationFile hash (look n (fst (files' ! n)))"
    and "content = Option.bind (cd_mutationPath definition') (map_of files')"
    and "map_of files \<subseteq>\<^sub>m map_of files'"
    and "\<forall>path. cd_mutationPath definition' = Some path \<longrightarrow> map_of files' path \<noteq> None"
proof -
  consider (none) "cd_mutationPath definition' = None" | (held) path where "cd_mutationPath definition' = Some path" "map_of files path \<noteq> None"
    | (new) path where "cd_mutationPath definition' = Some path" "map_of files path = None" by blast
  then have "wf_map files' \<and> (\<forall>n < length files'. snd (files' ! n) = readMutationFile hash (look n (fst (files' ! n)))) \<and>
      content = Option.bind (cd_mutationPath definition') (map_of files') \<and> map_of files \<subseteq>\<^sub>m map_of files' \<and>
      (\<forall>path. cd_mutationPath definition' = Some path \<longrightarrow> map_of files' path \<noteq> None)"
  proof cases
    case none
    then show ?thesis using assms by (simp add: mutationFileText_def)
  next
    case held
    then obtain y where "map_of files path = Some y" by auto
    then have "files' = files" "content = Some y" using assms(3) held(1) by (simp_all add: mutationFileText_def)
    then show ?thesis using assms(1,2) held(1) \<open>map_of files path = Some y\<close> by simp
  next
    case new
    then have "path \<notin> set (keys files)" by (simp add: in_keys_iff)
    then have files': "files' = files @ [(path, readMutationFile hash (look (length files) path))]"
      and content: "content = Some (readMutationFile hash (look (length files) path))"
      using assms(3) new by (simp_all add: mutationFileText_def Let_def jset_new)
    have "map_of files' = (map_of files)(path \<mapsto> readMutationFile hash (look (length files) path))"
      using \<open>path \<notin> set (keys files)\<close> by (simp add: files' jset_new [symmetric])
    then show ?thesis using assms(1,2) new \<open>path \<notin> set (keys files)\<close>
      by (auto simp: files' content nth_append less_Suc_eq map_le_def)
  qed
  then show "wf_map files'" "\<forall>n < length files'. snd (files' ! n) = readMutationFile hash (look n (fst (files' ! n)))"
    "content = Option.bind (cd_mutationPath definition') (map_of files')" "map_of files \<subseteq>\<^sub>m map_of files'"
    "\<forall>path. cd_mutationPath definition' = Some path \<longrightarrow> map_of files' path \<noteq> None" by blast+
qed

lemma anchorOf_extends:
  assumes "map_of files \<subseteq>\<^sub>m map_of files'"
    and "\<forall>path. cd_mutationPath definition' = Some path \<longrightarrow> map_of files path \<noteq> None"
  shows "anchorOf files' definition' = anchorOf files definition'"
proof -
  have "Option.bind (cd_mutationPath definition') (map_of files') = Option.bind (cd_mutationPath definition') (map_of files)"
    using assms by (cases "cd_mutationPath definition'") (auto simp: map_le_def dom_def)
  then show ?thesis by (simp add: anchorOf_def)
qed

lemma addAnchor_reads:
  assumes "anchorsRead hash look definitions seen s"
  shows "anchorsRead hash look definitions (insert i seen) (addAnchor hash look definitions i s)"
proof (cases "cd_problems (definitions ! i) = []")
  case False
  then show ?thesis using assms by (auto simp: anchorsRead_def addAnchor_def)
next
  case True
  obtain content files where looked: "mutationFileText hash look (definitions ! i) (as_files s) = (content, files)" by fastforce
  have s: "wf_map (as_files s)" "\<forall>n < length (as_files s). snd (as_files s ! n) = readMutationFile hash (look n (fst (as_files s ! n)))"
    using assms by (auto simp: anchorsRead_def)
  note read = mutationFileText_files [OF s looked]
  have add: "addAnchor hash look definitions i s =
      \<lparr>as_files = files, as_anchors = jset i (anchorOf files (definitions ! i)) (as_anchors s)\<rparr>"
    using True looked read(3) by (simp add: addAnchor_def readAnchor_def anchorOf_def Let_def)
  have held: "\<forall>path. cd_mutationPath (definitions ! j) = Some path \<longrightarrow> map_of (as_files s) path \<noteq> None"
    if "j \<in> seen" "cd_problems (definitions ! j) = []" for j
    using assms that by (auto simp: anchorsRead_def)
  have same: "anchorOf files (definitions ! j) = anchorOf (as_files s) (definitions ! j)"
    if "j \<in> seen" "cd_problems (definitions ! j) = []" for j
    using anchorOf_extends [OF read(4) held [OF that]] .
  have still: "map_of files path \<noteq> None" if "j \<in> seen" "cd_problems (definitions ! j) = []"
    "cd_mutationPath (definitions ! j) = Some path" for j path
    using held [OF that(1,2)] that(3) read(4) by (fastforce simp: map_le_def dom_def)
  show ?thesis
    using assms read(1,2,5) same still True by (auto simp: anchorsRead_def add)
qed

lemma readAnchorsFrom_reads: "anchorsRead hash look definitions (set places) (readAnchorsFrom hash look definitions places)"
proof -
  have "anchorsRead hash look definitions (seen \<union> set places) (fold (addAnchor hash look definitions) places s)"
    if "anchorsRead hash look definitions seen s" for seen s
    using that
  proof (induction places arbitrary: seen s)
    case (Cons i places)
    show ?case using Cons.IH [OF addAnchor_reads [OF Cons.prems, of i]] by simp
  qed simp
  from this [of "{}" "\<lparr>as_files = [], as_anchors = []\<rparr>"] show ?thesis
    by (simp add: readAnchorsFrom_def anchorsRead_def)
qed

section \<open>Which definitions can run\<close>

text \<open>The files as they were read for the definitions, each once.\<close>

definition filesRead :: "(string \<Rightarrow> string) \<Rightarrow> (nat \<Rightarrow> string \<Rightarrow> FileLook) \<Rightarrow> CheckedDefinition list \<Rightarrow>
    (string, FileText) jsmap" where
  "filesRead hash look definitions = as_files (readAnchorsFrom hash look definitions [0..<length definitions])"

lemma filesRead_once:
  "wf_map (filesRead hash look definitions)"
  "n < length (filesRead hash look definitions) \<Longrightarrow>
   snd (filesRead hash look definitions ! n) = readMutationFile hash (look n (fst (filesRead hash look definitions ! n)))"
  using readAnchorsFrom_reads [of hash look definitions "[0..<length definitions]"] by (simp_all add: anchorsRead_def filesRead_def)

lemma filesRead_look:
  assumes "map_of (filesRead hash look definitions) path = Some content"
  shows "\<exists>n. content = readMutationFile hash (look n path)"
proof -
  from map_of_SomeD [OF assms] obtain n where "n < length (filesRead hash look definitions)"
    "filesRead hash look definitions ! n = (path, content)" by (auto simp: in_set_conv_nth)
  then show ?thesis using filesRead_once(2) [of n hash look definitions] by auto
qed

lemma readAnchors_at:
  assumes "i < length definitions" "cd_problems (definitions ! i) = []"
  shows "map_of (readAnchors hash look definitions) i = Some (anchorOf (filesRead hash look definitions) (definitions ! i))"
  using readAnchorsFrom_reads [of hash look definitions "[0..<length definitions]"] assms
  by (simp add: anchorsRead_def readAnchors_def filesRead_def)

lemma anchorOf_found: "ar_missing (anchorOf files definition') = None \<longleftrightarrow>
    (\<exists>m path contents digest. cd_mutation definition' = Some m \<and> cd_mutationPath definition' = Some path \<and>
      map_of files path = Some (FileContents contents digest) \<and> countAnchor contents (dm_old m) = 1)"
  by (cases "cd_mutationPath definition'")
     (auto simp: anchorOf_def anchorProblem_def Let_def split: option.splits FileText.splits if_splits)

lemma resolvedWith_fields [simp]:
  "rd_resolved (resolvedWith d r m s why digest) = r" "rd_discoveredModule (resolvedWith d r m s why digest) = m"
  "rd_state (resolvedWith d r m s why digest) = s" "rd_reason (resolvedWith d r m s why digest) = why"
  "rd_mutationFileDigest (resolvedWith d r m s why digest) = digest"
  "cd_id (resolvedWith d r m s why digest) = cd_id d" "cd_mutation (resolvedWith d r m s why digest) = cd_mutation d"
  "cd_mutationPath (resolvedWith d r m s why digest) = cd_mutationPath d"
  "cd_file (resolvedWith d r m s why digest) = cd_file d" "cd_position (resolvedWith d r m s why digest) = cd_position d"
  "cd_problems (resolvedWith d r m s why digest) = cd_problems d" "cd_test (resolvedWith d r m s why digest) = cd_test d"
  by (simp_all add: resolvedWith_def CheckedDefinition.defs ResolvedDefinition.defs)

text \<open>A definition can run exactly when nothing is wrong with it, one test is its own, and its anchor is there once.\<close>

lemma resolveDefinition_runnable:
  "(rd_state (resolveDefinition (discoveryIndex discovery current) anchors i d) = NeverVerified \<and>
    rd_resolved (resolveDefinition (discoveryIndex discovery current) anchors i d) = Some test) \<longleftrightarrow>
   cd_problems d = [] \<and>
   (\<exists>wanted module. cd_test d = Some wanted \<and> cd_modulePath d = Some module \<and>
      filter (namesTest wanted) (testsIn discovery module) = [test]) \<and>
   (\<exists>anchor. map_of anchors i = Some anchor \<and> ar_missing anchor = None)"
proof (cases "resolveTest d (discoveryIndex discovery current)")
  case None
  then have "cd_test d = None \<or> cd_modulePath d = None" by (simp add: resolveTest_None)
  then show ?thesis using None by (auto simp: resolveDefinition_def Let_def)
next
  case (Some r)
  show ?thesis
  proof (cases r)
    case (Inl problem)
    then show ?thesis using Some resolveTest_Some [of d discovery current test]
      by (auto simp: resolveDefinition_def Let_def)
  next
    case (Inr found)
    have "(\<exists>wanted module. cd_test d = Some wanted \<and> cd_modulePath d = Some module \<and>
        filter (namesTest wanted) (testsIn discovery module) = [test]) \<longleftrightarrow> found = test"
      using Some Inr resolveTest_Some [of d discovery current test] by simp
    then show ?thesis using Some Inr
      by (auto simp: resolveDefinition_def Let_def UNREAD_ANCHOR_def split: option.split)
  qed
qed

text \<open>Every definition is judged by the one text its mutation's file had when it was read.\<close>

lemma definition_runnable:
  assumes "i < length definitions"
  shows "(rd_state (resolveDefinitions definitions (readAnchors hash look definitions) discovery current ! i) = NeverVerified \<and>
      rd_resolved (resolveDefinitions definitions (readAnchors hash look definitions) discovery current ! i) = Some test) \<longleftrightarrow>
    cd_problems (definitions ! i) = [] \<and>
    (\<exists>wanted module. cd_test (definitions ! i) = Some wanted \<and> cd_modulePath (definitions ! i) = Some module \<and>
       filter (namesTest wanted) (testsIn discovery module) = [test]) \<and>
    (\<exists>m path contents digest. cd_mutation (definitions ! i) = Some m \<and> cd_mutationPath (definitions ! i) = Some path \<and>
       map_of (filesRead hash look definitions) path = Some (FileContents contents digest) \<and>
       countAnchor contents (dm_old m) = 1)"
  using assms readAnchors_at [OF assms, of hash look]
  by (auto simp: resolveDefinitions_def Let_def resolveDefinition_runnable anchorOf_found)

end
