(* ===== verification/EvidenceFacts.thy ===== *)
theory EvidenceFacts
  imports Columns Verdict
begin

text \<open>
  The facts and readings of a stored judgement (\<^verbatim>\<open>store/evidence-facts.ts\<close>): each rebuilt from a JSON
  value by its own named members down to the leaves, and refused as unreadable where a member is missing or is none
  of its type's. The names a member may have are the source's \<^verbatim>\<open>Members\<close> tables. The \<open>\<dots>Json\<close> functions are
  what \<^verbatim>\<open>JSON.stringify\<close> is given of the values the readers rebuild, in the order they write the members.
\<close>

section \<open>Names\<close>

record ProbeSite =
  pb_line :: nat
  pb_column :: nat
  pb_nodeKind :: string

definition named :: "string list \<Rightarrow> (string \<times> string) list" where
  "named names = map (\<lambda>name. (name, name)) names"

definition RUN_INVALID_REASONS :: "string list" where
  "RUN_INVALID_REASONS = [''run-not-clean'', ''module-failed'', ''suite-error'', ''test-not-run'', ''hook-not-passed'',
     ''test-repeated'', ''site-not-executed'', ''reach-unknown'']"

definition INVALID_REASONS :: "string list" where
  "INVALID_REASONS = RUN_INVALID_REASONS @ [''no-probe-site'', ''no-module'', ''baseline-not-passed'',
     ''baseline-not-clean'', ''restored-baseline-not-passed'', ''restored-baseline-not-clean'']"

definition NOT_RUN_TEST_STATES :: "(string \<times> VTestState option) list" where
  "NOT_RUN_TEST_STATES = [(''pending'', Some VPending), (''skipped'', Some VSkipped), (''absent'', None)]"

definition UNEXECUTED_MUTATIONS :: "string list" where
  "UNEXECUTED_MUTATIONS = [''never-transformed'', ''not-applied'']"

definition HOOK_NAMES :: "string list" where
  "HOOK_NAMES = [''beforeAll'', ''afterAll'', ''aroundAll'', ''beforeEach'', ''afterEach'', ''aroundEach'']"

definition HOOK_STATES :: "string list" where
  "HOOK_STATES = [''run'', ''skip'', ''only'', ''todo'', ''queued'', ''pass'', ''fail'']"

definition DETAIL_HOOK_STATES :: "(string \<times> string option) list" where
  "DETAIL_HOOK_STATES = map (\<lambda>s. (s, Some s)) HOOK_STATES @ [(''not-recorded'', None)]"

definition REACH_VALUES :: "string list" where
  "REACH_VALUES = [''in-test'', ''outside-test'', ''no'', ''unknown'']"

definition REACH_UNKNOWN_REASONS :: "(string \<times> ReachUnknownReason) list" where
  "REACH_UNKNOWN_REASONS = [(''not-observed'', NotObserved), (''unattributed'', Unattributed), (''no-probe'', NoProbe)]"

definition ERROR_KINDS :: "string list" where
  "ERROR_KINDS = [''assertion'', ''other'']"

definition ASSERTION_MARKERS :: "(string \<times> AssertionMarker) list" where
  "ASSERTION_MARKERS = [(''assertion-error-name'', AssertionErrorName), (''extended-matcher'', ExtendedMatcher),
     (''declared-name'', DeclaredName)]"

definition VTEST_STATES :: "(string \<times> VTestState) list" where
  "VTEST_STATES = [(''pending'', VPending), (''passed'', VPassed), (''failed'', VFailed), (''skipped'', VSkipped)]"

definition FACT_TEST_MODES :: "string list" where
  "FACT_TEST_MODES = [''run'', ''only'', ''skip'', ''todo'']"

definition UNCOLLECTED_MODULE_STATES :: "string list" where
  "UNCOLLECTED_MODULE_STATES = [''queued'', ''pending'', ''passed'', ''failed'', ''skipped'', ''missing'']"

definition FACT_EXECUTIONS :: "(string \<times> RunExecution) list" where
  "FACT_EXECUTIONS = [(''completed'', Completed), (''interrupted'', InterruptedRun)]"

definition NO_PROBE_SITE_KINDS :: "string list" where
  "NO_PROBE_SITE_KINDS = [''position'', ''unparsed'']"

definition NOT_RUN_KINDS :: "string list" where
  "NOT_RUN_KINDS = [''baseline-not-passed'', ''baseline-not-run'', ''no-module'', ''unreadable'', ''anchor-count'',
     ''no-probe-site'', ''run-unrecorded'', ''interrupted'']"

definition UNRECORDED_KINDS :: "(string \<times> UnrecordedKind) list" where
  "UNRECORDED_KINDS = [(''stale-modules'', StaleModules), (''run-failed'', RunFailed)]"

definition CONFIRMING_STATUSES :: "string list" where
  "CONFIRMING_STATUSES = [''ran'', ''unrecorded'', ''interrupted'']"

section \<open>Readers of the facts\<close>

text \<open>\<^verbatim>\<open>held\<close>: a field that holds an object.\<close>

definition held :: "(json \<Rightarrow> StoreError + 'a) \<Rightarrow> json \<Rightarrow> string \<Rightarrow> StoreError + 'a" where
  "held rebuild v key = bindE (jsonRecord v key) rebuild"

definition probeSiteFrom :: "json \<Rightarrow> StoreError + ProbeSite" where
  "probeSiteFrom v =
     bindE (jsonCount v ''line'') (\<lambda>line.
     bindE (jsonCount v ''column'') (\<lambda>column.
     bindE (jsonText v ''nodeKind'') (\<lambda>kind.
       Inr \<lparr>pb_line = line, pb_column = column, pb_nodeKind = kind\<rparr>)))"

definition noProbeSiteFrom :: "json \<Rightarrow> StoreError + NoProbeSite" where
  "noProbeSiteFrom v =
     bindE (jsonMember (named NO_PROBE_SITE_KINDS) v ''kind'') (\<lambda>kind.
       if kind = ''position'' then
         bindE (probeSiteFrom v) (\<lambda>site.
         bindE (jsonText v ''role'') (\<lambda>role.
           Inr (PositionSite (pb_line site) (pb_column site) (pb_nodeKind site) role)))
       else
         bindE (jsonOptional v ''line'' jsonCount) (\<lambda>line.
         bindE (jsonOptional v ''column'' jsonCount) (\<lambda>column.
         bindE (jsonOptional v ''nesting'' jsonCount) (\<lambda>nesting.
           Inr (UnparsedSite line column nesting)))))"

definition probeFrom :: "json \<Rightarrow> StoreError + ProbeSite ProbePlacement" where
  "probeFrom v =
     bindE (jsonBoolean v ''placed'') (\<lambda>placed.
       if placed then bindE (held probeSiteFrom v ''site'') (\<lambda>site. Inr (ProbePlaced site))
       else bindE (held noProbeSiteFrom v ''reason'') (\<lambda>reason. Inr (ProbeNotPlaced reason)))"

definition mutationLoadFrom :: "json \<Rightarrow> StoreError + ProbeSite MutationLoad" where
  "mutationLoadFrom v =
     bindE (jsonBoolean v ''applied'') (\<lambda>appliedOnce.
       if appliedOnce then bindE (held probeFrom v ''probe'') (\<lambda>probe. Inr (Applied probe))
       else bindE (jsonCount v ''occurrences'') (\<lambda>n. Inr (NotAppliedLoad n)))"

definition failingSuiteFrom :: "json \<Rightarrow> StoreError + FailingSuite" where
  "failingSuiteFrom v =
     bindE (jsonStrings v ''namePath'') (\<lambda>names.
     bindE (jsonCount v ''errorCount'') (\<lambda>n. Inr \<lparr>fs_namePath = names, fs_errorCount = n\<rparr>))"

definition moduleFactsFrom :: "json \<Rightarrow> StoreError + ModuleFacts" where
  "moduleFactsFrom v =
     bindE (jsonBoolean v ''collected'') (\<lambda>collected.
       if collected then
         bindE (jsonCount v ''errorCount'') (\<lambda>n.
         bindE (jsonArray v ''failingSuites'' failingSuiteFrom) (\<lambda>suites. Inr (Collected n suites)))
       else bindE (jsonMember (named UNCOLLECTED_MODULE_STATES) v ''state'') (\<lambda>state. Inr (NotCollected state)))"

definition reachFrom :: "json \<Rightarrow> StoreError + Reach" where
  "reachFrom v =
     bindE (jsonMember (named REACH_VALUES) v ''executed'') (\<lambda>executed.
       if executed = ''in-test'' then Inr InTest
       else if executed = ''outside-test'' then Inr OutsideTest
       else if executed = ''no'' then Inr NotExecuted
       else bindE (jsonMember REACH_UNKNOWN_REASONS v ''reason'') (\<lambda>reason. Inr (UnknownReach reason)))"

text \<open>Over the object's own keys, in order.\<close>

fun hooksFrom :: "json \<Rightarrow> string list \<Rightarrow> HookStates \<Rightarrow> StoreError + HookStates" where
  "hooksFrom v [] states = Inr states"
| "hooksFrom v (name # names) states =
     bindE (memberOf (named HOOK_NAMES) name ''hook name'') (\<lambda>hook.
     bindE (jsonMember (named HOOK_STATES) v name) (\<lambda>state. hooksFrom v names (jset hook state states)))"

fun objectKeys :: "json \<Rightarrow> string list" where
  "objectKeys (JObj members) = map fst members"
| "objectKeys _ = []"

definition hookStatesFrom :: "json \<Rightarrow> StoreError + HookStates" where
  "hookStatesFrom v = hooksFrom v (objectKeys v) []"

definition errorFactFrom :: "json \<Rightarrow> StoreError + ErrorFact" where
  "errorFactFrom v =
     bindE (jsonMember (named ERROR_KINDS) v ''kind'') (\<lambda>kind.
     bindE (jsonOptional v ''name'' jsonText) (\<lambda>name.
       if kind = ''assertion''
       then bindE (jsonMember ASSERTION_MARKERS v ''marker'') (\<lambda>marker. Inr (AssertionError marker name))
       else Inr (OtherError name)))"

definition testStateAndModeFrom :: "json \<Rightarrow> StoreError + VTestState \<times> string" where
  "testStateAndModeFrom v =
     bindE (jsonMember VTEST_STATES v ''state'') (\<lambda>state.
     bindE (jsonMember (named FACT_TEST_MODES) v ''mode'') (\<lambda>mode. Inr (state, mode)))"

definition testFactsFrom :: "json \<Rightarrow> StoreError + TestFacts" where
  "testFactsFrom v =
     bindE (testStateAndModeFrom v) (\<lambda>(state, mode).
     bindE (jsonArray v ''errors'' errorFactFrom) (\<lambda>errors.
     bindE (jsonOptional v ''repeats'' jsonCount) (\<lambda>repeats.
     bindE (jsonOptional v ''hooks'' (held hookStatesFrom)) (\<lambda>hooks.
     bindE (jsonOptional v ''reach'' (held reachFrom)) (\<lambda>reached.
       Inr \<lparr>tf_state = state, tf_mode = mode, tf_errors = errors, tf_repeats = repeats, tf_hooks = hooks,
            tf_reach = reached\<rparr>)))))"

definition runEndingFrom :: "json \<Rightarrow> StoreError + RunEnding" where
  "runEndingFrom v =
     bindE (jsonMember FACT_EXECUTIONS v ''execution'') (\<lambda>execution.
     bindE (jsonBoolean v ''forceStopped'') (\<lambda>forceStopped.
     bindE (jsonBoolean v ''cancelFailed'') (\<lambda>cancelFailed.
       Inr \<lparr>re_execution = execution, re_forceStopped = forceStopped, re_cancelFailed = cancelFailed\<rparr>)))"

definition runFactsFrom :: "json \<Rightarrow> StoreError + RunFacts" where
  "runFactsFrom v =
     bindE (jsonOptional v ''test'' (held testFactsFrom)) (\<lambda>test.
     bindE (jsonOptional v ''module'' (held moduleFactsFrom)) (\<lambda>module.
     bindE (jsonCount v ''unhandledErrorCount'') (\<lambda>n.
     bindE (held runEndingFrom v ''ending'') (\<lambda>ending.
       Inr \<lparr>rf_test = test, rf_module = module, rf_unhandledErrorCount = n, rf_ending = ending\<rparr>))))"

definition baselineFactsFrom :: "json \<Rightarrow> StoreError + BaselineFacts" where
  "baselineFactsFrom v =
     bindE (runFactsFrom v) (\<lambda>run.
     bindE (jsonCount v ''countedUnhandledErrorCount'') (\<lambda>counted.
     bindE (jsonCount v ''unnamedUnhandledErrorCount'') (\<lambda>unnamed.
       Inr (RunFacts.extend run \<lparr>bf_countedUnhandledErrorCount = counted, bf_unnamedUnhandledErrorCount = unnamed\<rparr>))))"

definition experimentRunFactsFrom :: "json \<Rightarrow> StoreError + ProbeSite ExperimentRunFacts" where
  "experimentRunFactsFrom v =
     bindE (runFactsFrom v) (\<lambda>run.
     bindE (jsonArray v ''mutation'' mutationLoadFrom) (\<lambda>loads. Inr (RunFacts.extend run \<lparr>xf_mutation = loads\<rparr>)))"

definition restoredBaselineFactsFrom :: "json \<Rightarrow> StoreError + RestoredBaselineFacts" where
  "restoredBaselineFactsFrom v =
     bindE (jsonBoolean v ''recorded'') (\<lambda>recorded.
       if recorded then bindE (baselineFactsFrom v) (\<lambda>baseline. Inr (Restored baseline))
       else bindE (jsonMember UNRECORDED_KINDS v ''run'') (\<lambda>run. Inr (RestoredUnrecorded run)))"

definition confirmingFactsFrom :: "json \<Rightarrow> StoreError + ProbeSite ConfirmingFacts" where
  "confirmingFactsFrom v =
     bindE (jsonMember (named CONFIRMING_STATUSES) v ''status'') (\<lambda>status.
       if status = ''ran'' then bindE (experimentRunFactsFrom v) (\<lambda>run. Inr (ConfirmingFactsRan run))
       else if status = ''unrecorded'' then
         bindE (jsonMember UNRECORDED_KINDS v ''run'') (\<lambda>run. Inr (ConfirmingFactsUnrecorded run))
       else Inr ConfirmingFactsInterrupted)"

definition nextRunFactFrom :: "json \<Rightarrow> StoreError + NextRunFact" where
  "nextRunFactFrom v =
     bindE (jsonBoolean v ''recorded'') (\<lambda>recorded.
       if recorded then bindE (jsonCount v ''unhandledErrorCount'') (\<lambda>n. Inr (NextRecorded n)) else Inr NextUnrecorded)"

definition jobFactsFrom :: "json \<Rightarrow> StoreError + JobFacts" where
  "jobFactsFrom v =
     bindE (jsonCount v ''unhandledErrorCount'') (\<lambda>n.
     bindE (jsonBoolean v ''closed'') (\<lambda>closed. Inr \<lparr>jf_unhandledErrorCount = n, jf_closed = closed\<rparr>))"

definition notRunFactFrom :: "json \<Rightarrow> StoreError + NotRunFact" where
  "notRunFactFrom v =
     bindE (jsonMember (named NOT_RUN_KINDS) v ''kind'') (\<lambda>kind.
       if kind = ''anchor-count'' then bindE (jsonCount v ''count'') (\<lambda>n. Inr (NotRunAnchorCount n))
       else if kind = ''no-probe-site'' then bindE (held noProbeSiteFrom v ''site'') (\<lambda>site. Inr (NotRunNoProbeSite site))
       else if kind = ''run-unrecorded'' then
         bindE (jsonMember UNRECORDED_KINDS v ''run'') (\<lambda>run. Inr (NotRunUnrecorded run))
       else if kind = ''baseline-not-passed'' then Inr NotRunBaselineNotPassed
       else if kind = ''baseline-not-run'' then Inr NotRunBaselineNotRun
       else if kind = ''no-module'' then Inr NotRunNoModule
       else if kind = ''unreadable'' then Inr NotRunUnreadable
       else Inr NotRunInterrupted)"

definition storedFacts :: "json \<Rightarrow> StoreError + ProbeSite ExperimentFacts" where
  "storedFacts v =
     bindE (jsonOptional v ''baseline'' (held baselineFactsFrom)) (\<lambda>baseline.
     bindE (jsonOptional v ''restoredBaseline'' (held restoredBaselineFactsFrom)) (\<lambda>restored.
     bindE (held jobFactsFrom v ''job'') (\<lambda>job.
     bindE (jsonOptional v ''notRun'' (held notRunFactFrom)) (\<lambda>notRun.
       case notRun of
         Some why \<Rightarrow> Inr \<lparr>sf_baseline = baseline, sf_restoredBaseline = restored, sf_job = job, ef_body = BodyNotRun why\<rparr>
       | None \<Rightarrow>
           bindE (held experimentRunFactsFrom v ''run'') (\<lambda>run.
           bindE (jsonOptional v ''confirming'' (held confirmingFactsFrom)) (\<lambda>confirming.
           bindE (jsonOptional v ''nextRun'' (held nextRunFactFrom)) (\<lambda>nextRun.
             Inr \<lparr>sf_baseline = baseline, sf_restoredBaseline = restored, sf_job = job,
                  ef_body = BodyRan run confirming nextRun\<rparr>)))))))"

section \<open>Readers of a reading\<close>

definition unexecutedDetailFrom :: "json \<Rightarrow> StoreError + UnexecutedDetail" where
  "unexecutedDetailFrom v =
     bindE (jsonMember (named UNEXECUTED_MUTATIONS) v ''mutation'') (\<lambda>mutation.
       if mutation = ''never-transformed'' then Inr NeverTransformed
       else bindE (jsonCount v ''occurrences'') (\<lambda>n. Inr (NotAppliedTimes n)))"

definition reachUnknownDetailFrom :: "json \<Rightarrow> StoreError + ReachUnknownReason" where
  "reachUnknownDetailFrom v = jsonMember REACH_UNKNOWN_REASONS v ''cause''"

definition hookDetailFrom :: "json \<Rightarrow> StoreError + string \<times> string option" where
  "hookDetailFrom v =
     bindE (jsonMember (named HOOK_NAMES) v ''hook'') (\<lambda>hook.
     bindE (jsonMember DETAIL_HOOK_STATES v ''state'') (\<lambda>state. Inr (hook, state)))"

definition noProbeSiteDetailFrom :: "json \<Rightarrow> StoreError + NoProbeSite" where
  "noProbeSiteDetailFrom v = held noProbeSiteFrom v ''site''"

definition runReadingFrom :: "string \<Rightarrow> json \<Rightarrow> StoreError + InvalidReason" where
  "runReadingFrom reason v =
     (if reason = ''run-not-clean'' then Inr InvRunNotClean
      else if reason = ''module-failed'' then Inr InvModuleFailed
      else if reason = ''suite-error'' then
        bindE (held (\<lambda>d. jsonStrings d ''suite'') v ''detail'') (\<lambda>suite. Inr (InvSuiteError suite))
      else if reason = ''test-not-run'' then
        bindE (held (\<lambda>d. jsonMember NOT_RUN_TEST_STATES d ''state'') v ''detail'') (\<lambda>state. Inr (InvTestNotRun state))
      else if reason = ''hook-not-passed'' then
        bindE (held hookDetailFrom v ''detail'') (\<lambda>(hook, state). Inr (InvHookNotPassed hook state))
      else if reason = ''test-repeated'' then
        bindE (held (\<lambda>d. jsonCount d ''repeats'') v ''detail'') (\<lambda>n. Inr (InvTestRepeated n))
      else if reason = ''site-not-executed'' then
        bindE (jsonOptional v ''detail'' (held unexecutedDetailFrom)) (\<lambda>detail. Inr (InvSiteNotExecuted detail))
      else bindE (jsonOptional v ''detail'' (held reachUnknownDetailFrom)) (\<lambda>detail. Inr (InvReachUnknown detail)))"

definition invalidReadingFrom :: "json \<Rightarrow> StoreError + InvalidReason" where
  "invalidReadingFrom v =
     bindE (jsonMember (named INVALID_REASONS) v ''reason'') (\<lambda>reason.
       if reason = ''no-probe-site'' then
         bindE (held noProbeSiteDetailFrom v ''detail'') (\<lambda>site. Inr (InvNoProbeSite site))
       else if reason = ''baseline-not-passed'' then
         bindE (jsonOptional v ''detail'' (held testStateAndModeFrom)) (\<lambda>detail. Inr (InvBaselineNotPassed detail))
       else if reason = ''no-module'' then Inr InvNoModule
       else if reason = ''baseline-not-clean'' then Inr InvBaselineNotClean
       else if reason = ''restored-baseline-not-passed'' then Inr InvRestoredBaselineNotPassed
       else if reason = ''restored-baseline-not-clean'' then Inr InvRestoredBaselineNotClean
       else runReadingFrom reason v)"

definition invalidRunReadingFrom :: "json \<Rightarrow> StoreError + InvalidReason" where
  "invalidRunReadingFrom v =
     bindE (jsonMember (named RUN_INVALID_REASONS) v ''reason'') (\<lambda>reason. runReadingFrom reason v)"

section \<open>The values as they are stored\<close>

definition given :: "string \<Rightarrow> ('a \<Rightarrow> json) \<Rightarrow> 'a option \<Rightarrow> (string \<times> json) list" where
  "given key enc x = (case x of None \<Rightarrow> [] | Some v \<Rightarrow> [(key, enc v)])"

definition probeSiteMembers :: "nat \<Rightarrow> nat \<Rightarrow> string \<Rightarrow> (string \<times> json) list" where
  "probeSiteMembers line col kind = [(''line'', JNum line), (''column'', JNum col), (''nodeKind'', JStr kind)]"

definition noProbeSiteJson :: "NoProbeSite \<Rightarrow> json" where
  "noProbeSiteJson site = (case site of
     PositionSite line col kind role \<Rightarrow>
       JObj ((''kind'', JStr ''position'') # probeSiteMembers line col kind @ [(''role'', JStr role)])
   | UnparsedSite line col nesting \<Rightarrow>
       JObj ((''kind'', JStr ''unparsed'') # given ''line'' JNum line @ given ''column'' JNum col @
         given ''nesting'' JNum nesting))"

definition mutationLoadJson :: "ProbeSite MutationLoad \<Rightarrow> json" where
  "mutationLoadJson load = (case load of
     Applied (ProbePlaced site) \<Rightarrow> JObj [(''applied'', JBool True), (''probe'', JObj [(''placed'', JBool True),
       (''site'', JObj (probeSiteMembers (pb_line site) (pb_column site) (pb_nodeKind site)))])]
   | Applied (ProbeNotPlaced reason) \<Rightarrow> JObj [(''applied'', JBool True), (''probe'', JObj [(''placed'', JBool False),
       (''reason'', noProbeSiteJson reason)])]
   | NotAppliedLoad n \<Rightarrow> JObj [(''applied'', JBool False), (''occurrences'', JNum n)])"

definition failingSuiteJson :: "FailingSuite \<Rightarrow> json" where
  "failingSuiteJson s = JObj [(''namePath'', textsJson (fs_namePath s)), (''errorCount'', JNum (fs_errorCount s))]"

definition moduleFactsJson :: "ModuleFacts \<Rightarrow> json" where
  "moduleFactsJson m = (case m of
     Collected n suites \<Rightarrow> JObj [(''collected'', JBool True), (''errorCount'', JNum n),
       (''failingSuites'', JArr (map failingSuiteJson suites))]
   | NotCollected state \<Rightarrow> JObj [(''collected'', JBool False), (''state'', JStr state)])"

definition reachJson :: "Reach \<Rightarrow> json" where
  "reachJson r = (case r of
     InTest \<Rightarrow> JObj [(''executed'', JStr ''in-test'')]
   | OutsideTest \<Rightarrow> JObj [(''executed'', JStr ''outside-test'')]
   | NotExecuted \<Rightarrow> JObj [(''executed'', JStr ''no'')]
   | UnknownReach reason \<Rightarrow> JObj [(''executed'', JStr ''unknown''), (''reason'', JStr (nameIn REACH_UNKNOWN_REASONS reason))])"

definition hookStatesJson :: "HookStates \<Rightarrow> json" where
  "hookStatesJson states = JObj (map (\<lambda>(hook, state). (hook, JStr state)) states)"

definition errorFactJson :: "ErrorFact \<Rightarrow> json" where
  "errorFactJson e = (case e of
     AssertionError marker name \<Rightarrow> JObj ([(''kind'', JStr ''assertion''), (''marker'', JStr (nameIn ASSERTION_MARKERS marker))] @
       given ''name'' JStr name)
   | OtherError name \<Rightarrow> JObj ((''kind'', JStr ''other'') # given ''name'' JStr name))"

definition testFactsJson :: "TestFacts \<Rightarrow> json" where
  "testFactsJson t = JObj ([(''state'', JStr (nameIn VTEST_STATES (tf_state t))), (''mode'', JStr (tf_mode t)),
     (''errors'', JArr (map errorFactJson (tf_errors t)))] @ given ''repeats'' JNum (tf_repeats t) @
     given ''hooks'' hookStatesJson (tf_hooks t) @ given ''reach'' reachJson (tf_reach t))"

definition runEndingJson :: "RunEnding \<Rightarrow> json" where
  "runEndingJson e = JObj [(''execution'', JStr (nameIn FACT_EXECUTIONS (re_execution e))),
     (''forceStopped'', JBool (re_forceStopped e)), (''cancelFailed'', JBool (re_cancelFailed e))]"

definition runFactsMembers :: "'z RunFacts_scheme \<Rightarrow> (string \<times> json) list" where
  "runFactsMembers r = given ''test'' testFactsJson (rf_test r) @ given ''module'' moduleFactsJson (rf_module r) @
     [(''unhandledErrorCount'', JNum (rf_unhandledErrorCount r)), (''ending'', runEndingJson (rf_ending r))]"

definition baselineMembers :: "BaselineFacts \<Rightarrow> (string \<times> json) list" where
  "baselineMembers b = runFactsMembers b @ [(''countedUnhandledErrorCount'', JNum (bf_countedUnhandledErrorCount b)),
     (''unnamedUnhandledErrorCount'', JNum (bf_unnamedUnhandledErrorCount b))]"

definition experimentRunMembers :: "ProbeSite ExperimentRunFacts \<Rightarrow> (string \<times> json) list" where
  "experimentRunMembers r = runFactsMembers r @ [(''mutation'', JArr (map mutationLoadJson (xf_mutation r)))]"

definition restoredJson :: "RestoredBaselineFacts \<Rightarrow> json" where
  "restoredJson r = (case r of
     Restored b \<Rightarrow> JObj ((''recorded'', JBool True) # baselineMembers b)
   | RestoredUnrecorded run \<Rightarrow> JObj [(''recorded'', JBool False), (''run'', JStr (nameIn UNRECORDED_KINDS run))])"

definition confirmingJson :: "ProbeSite ConfirmingFacts \<Rightarrow> json" where
  "confirmingJson c = (case c of
     ConfirmingFactsRan run \<Rightarrow> JObj ((''status'', JStr ''ran'') # experimentRunMembers run)
   | ConfirmingFactsUnrecorded run \<Rightarrow> JObj [(''status'', JStr ''unrecorded''), (''run'', JStr (nameIn UNRECORDED_KINDS run))]
   | ConfirmingFactsInterrupted \<Rightarrow> JObj [(''status'', JStr ''interrupted'')])"

definition nextRunJson :: "NextRunFact \<Rightarrow> json" where
  "nextRunJson n = (case n of
     NextRecorded k \<Rightarrow> JObj [(''recorded'', JBool True), (''unhandledErrorCount'', JNum k)]
   | NextUnrecorded \<Rightarrow> JObj [(''recorded'', JBool False)])"

definition jobFactsJson :: "JobFacts \<Rightarrow> json" where
  "jobFactsJson j = JObj [(''unhandledErrorCount'', JNum (jf_unhandledErrorCount j)), (''closed'', JBool (jf_closed j))]"

definition notRunJson :: "NotRunFact \<Rightarrow> json" where
  "notRunJson n = (case n of
     NotRunAnchorCount k \<Rightarrow> JObj [(''kind'', JStr ''anchor-count''), (''count'', JNum k)]
   | NotRunNoProbeSite site \<Rightarrow> JObj [(''kind'', JStr ''no-probe-site''), (''site'', noProbeSiteJson site)]
   | NotRunUnrecorded run \<Rightarrow> JObj [(''kind'', JStr ''run-unrecorded''), (''run'', JStr (nameIn UNRECORDED_KINDS run))]
   | NotRunBaselineNotPassed \<Rightarrow> JObj [(''kind'', JStr ''baseline-not-passed'')]
   | NotRunBaselineNotRun \<Rightarrow> JObj [(''kind'', JStr ''baseline-not-run'')]
   | NotRunNoModule \<Rightarrow> JObj [(''kind'', JStr ''no-module'')]
   | NotRunUnreadable \<Rightarrow> JObj [(''kind'', JStr ''unreadable'')]
   | NotRunInterrupted \<Rightarrow> JObj [(''kind'', JStr ''interrupted'')])"

definition experimentFactsJson :: "ProbeSite ExperimentFacts \<Rightarrow> json" where
  "experimentFactsJson f = JObj (given ''baseline'' (\<lambda>b. JObj (baselineMembers b)) (sf_baseline f) @
     given ''restoredBaseline'' restoredJson (sf_restoredBaseline f) @ [(''job'', jobFactsJson (sf_job f))] @
     (case ef_body f of
        BodyNotRun why \<Rightarrow> [(''notRun'', notRunJson why)]
      | BodyRan run confirming nextRun \<Rightarrow> [(''run'', JObj (experimentRunMembers run))] @
          given ''confirming'' confirmingJson confirming @ given ''nextRun'' nextRunJson nextRun))"

section \<open>Facts as the readers give them\<close>

text \<open>The texts a fact may hold; the readers give no others.\<close>

definition hooksOk :: "HookStates \<Rightarrow> bool" where
  "hooksOk states = (wf_map states \<and> list_all (\<lambda>(hook, state). hook \<in> set HOOK_NAMES \<and> state \<in> set HOOK_STATES) states)"

definition testOk :: "TestFacts \<Rightarrow> bool" where
  "testOk t = (tf_mode t \<in> set FACT_TEST_MODES \<and> pred_option hooksOk (tf_hooks t))"

fun moduleOk :: "ModuleFacts \<Rightarrow> bool" where
  "moduleOk (Collected _ _) = True"
| "moduleOk (NotCollected state) = (state \<in> set UNCOLLECTED_MODULE_STATES)"

definition runOk :: "'z RunFacts_scheme \<Rightarrow> bool" where
  "runOk r = (pred_option testOk (rf_test r) \<and> pred_option moduleOk (rf_module r))"

fun restoredOk :: "RestoredBaselineFacts \<Rightarrow> bool" where
  "restoredOk (Restored b) = runOk b"
| "restoredOk (RestoredUnrecorded _) = True"

fun confirmingOk :: "ProbeSite ConfirmingFacts \<Rightarrow> bool" where
  "confirmingOk (ConfirmingFactsRan r) = runOk r"
| "confirmingOk _ = True"

fun bodyOk :: "ProbeSite ExperimentBody \<Rightarrow> bool" where
  "bodyOk (BodyNotRun _) = True"
| "bodyOk (BodyRan run confirming _) = (runOk run \<and> pred_option confirmingOk confirming)"

definition evidenceFactsOk :: "ProbeSite ExperimentFacts \<Rightarrow> bool" where
  "evidenceFactsOk f = (pred_option runOk (sf_baseline f) \<and> pred_option restoredOk (sf_restoredBaseline f) \<and> bodyOk (ef_body f))"

section \<open>What was stored is read back\<close>

lemmas evidence_names = named_def RUN_INVALID_REASONS_def INVALID_REASONS_def NOT_RUN_TEST_STATES_def UNEXECUTED_MUTATIONS_def
  HOOK_NAMES_def HOOK_STATES_def DETAIL_HOOK_STATES_def REACH_VALUES_def REACH_UNKNOWN_REASONS_def ERROR_KINDS_def
  ASSERTION_MARKERS_def VTEST_STATES_def FACT_TEST_MODES_def UNCOLLECTED_MODULE_STATES_def FACT_EXECUTIONS_def
  NO_PROBE_SITE_KINDS_def NOT_RUN_KINDS_def UNRECORDED_KINDS_def CONFIRMING_STATUSES_def

lemma map_of_named: "map_of (named names) s = (if s \<in> set names then Some s else None)"
  by (induction names) (auto simp: named_def)

text \<open>A value of a table, by the name it has in it.\<close>

lemma nameIn_vtest [json_reads]: "memberOf VTEST_STATES (nameIn VTEST_STATES x) key = Inr x"
  by (cases x) (simp_all add: memberOf_def evidence_names)

lemma nameIn_execution [json_reads]: "memberOf FACT_EXECUTIONS (nameIn FACT_EXECUTIONS x) key = Inr x"
  by (cases x) (simp_all add: memberOf_def evidence_names)

lemma nameIn_reason [json_reads]: "memberOf REACH_UNKNOWN_REASONS (nameIn REACH_UNKNOWN_REASONS x) key = Inr x"
  by (cases x) (simp_all add: memberOf_def evidence_names)

lemma nameIn_marker [json_reads]: "memberOf ASSERTION_MARKERS (nameIn ASSERTION_MARKERS x) key = Inr x"
  by (cases x) (simp_all add: memberOf_def evidence_names)

lemma nameIn_unrecorded [json_reads]: "memberOf UNRECORDED_KINDS (nameIn UNRECORDED_KINDS x) key = Inr x"
  by (cases x) (simp_all add: memberOf_def evidence_names)

lemmas nameIn_reads = nameIn_vtest nameIn_execution nameIn_reason nameIn_marker nameIn_unrecorded

lemma memberOf_named [json_reads]: "s \<in> set names \<Longrightarrow> memberOf (named names) s key = Inr s"
  by (simp add: memberOf_def map_of_named)

text \<open>An optional member: absent from the text when there is none.\<close>

lemma given_keys [simp]: "map fst (given key enc x) = (case x of None \<Rightarrow> [] | Some _ \<Rightarrow> [key])"
  by (simp add: given_def split: option.split)

lemma map_of_given: "map_of (given key enc x) k = (if k = key then map_option enc x else None)"
  by (simp add: given_def split: option.split)

lemma held_reads: "map_of members key = Some v \<Longrightarrow> isRecord v \<Longrightarrow> held rebuild (JObj members) key = rebuild v"
  by (simp add: held_def jsonRecord_def json_reads)

lemma jsonCount_reads: "map_of members key = Some (JNum n) \<Longrightarrow> jsonCount (JObj members) key = Inr n"
  by (simp add: jsonCount_def json_reads)

lemma jsonText_reads: "map_of members key = Some (JStr s) \<Longrightarrow> jsonText (JObj members) key = Inr s"
  by (simp add: jsonText_def json_reads)

lemma jsonOptional_held:
  assumes "map_of members key = map_option enc x" and "\<And>y. x = Some y \<Longrightarrow> isRecord (enc y) \<and> rebuild (enc y) = Inr y"
  shows "jsonOptional (JObj members) key (held rebuild) = Inr x"
  using assms by (cases x) (simp_all add: jsonOptional_def held_def jsonRecord_def json_reads)

lemma jsonOptional_count: "map_of members key = map_option JNum x \<Longrightarrow> jsonOptional (JObj members) key jsonCount = Inr x"
  by (cases x) (simp_all add: jsonOptional_def jsonCount_def json_reads)

lemmas given_simps = map_of_given map_add_def jsonOptional_def held_def field_readers jsonField_JObj

lemma noProbeSite_reads [json_reads]: "noProbeSiteFrom (noProbeSiteJson site) = Inr site"
proof (cases site)
  case (UnparsedSite line col nesting)
  then show ?thesis
    by (cases line; cases col; cases nesting; simp add: noProbeSiteFrom_def noProbeSiteJson_def given_simps memberOf_named evidence_names memberOf_def given_def)
qed (simp add: noProbeSiteFrom_def noProbeSiteJson_def probeSiteFrom_def probeSiteMembers_def given_simps memberOf_def evidence_names)

lemma isRecord_Json [simp]:
  "isRecord (noProbeSiteJson site)" "isRecord (moduleFactsJson m)" "isRecord (reachJson r)" "isRecord (hookStatesJson h)"
  "isRecord (testFactsJson t)" "isRecord (runEndingJson e)" "isRecord (restoredJson rb)" "isRecord (confirmingJson c)"
  "isRecord (nextRunJson n)" "isRecord (jobFactsJson j)" "isRecord (notRunJson nr)" "isRecord (experimentFactsJson f)"
  by (simp_all add: noProbeSiteJson_def moduleFactsJson_def reachJson_def hookStatesJson_def testFactsJson_def runEndingJson_def
      restoredJson_def confirmingJson_def nextRunJson_def jobFactsJson_def notRunJson_def experimentFactsJson_def
      split: NoProbeSite.split ModuleFacts.split Reach.split RestoredBaselineFacts.split ConfirmingFacts.split
        NextRunFact.split NotRunFact.split)

lemma mutationLoad_reads [json_reads]: "mutationLoadFrom (mutationLoadJson load) = Inr load"
  by (auto simp: mutationLoadFrom_def mutationLoadJson_def probeFrom_def probeSiteFrom_def probeSiteMembers_def given_simps
      noProbeSite_reads split: MutationLoad.split ProbePlacement.split)

lemma failingSuite_reads [json_reads]: "failingSuiteFrom (failingSuiteJson s) = Inr s"
  by (simp add: failingSuiteFrom_def failingSuiteJson_def field_readers json_reads)

lemma moduleFacts_reads: "moduleOk m \<Longrightarrow> moduleFactsFrom (moduleFactsJson m) = Inr m"
  by (cases m) (simp_all add: moduleFactsFrom_def moduleFactsJson_def field_readers json_reads mapE_Json)

lemma reach_reads [json_reads]: "reachFrom (reachJson r) = Inr r"
  by (cases r) (simp_all add: reachFrom_def reachJson_def field_readers jsonField_JObj memberOf_named nameIn_reads REACH_VALUES_def)

lemma errorFact_reads [json_reads]: "errorFactFrom (errorFactJson e) = Inr e"
proof (cases e)
  case (AssertionError marker name)
  then show ?thesis by (cases name) (simp_all add: errorFactFrom_def errorFactJson_def given_def field_readers jsonOptional_def
      jsonField_JObj memberOf_named nameIn_reads ERROR_KINDS_def)
next
  case (OtherError name)
  then show ?thesis by (cases name) (simp_all add: errorFactFrom_def errorFactJson_def given_def field_readers jsonOptional_def
      jsonField_JObj memberOf_named ERROR_KINDS_def)
qed

lemma hooks_read:
  assumes "wf_map (done' @ todo)" "list_all (\<lambda>(hook, state). hook \<in> set HOOK_NAMES \<and> state \<in> set HOOK_STATES) todo"
    and "\<forall>(hook, state) \<in> set todo. jsonField v hook = Some (JStr state)"
  shows "hooksFrom v (map fst todo) done' = Inr (done' @ todo)"
  using assms
proof (induction todo arbitrary: done')
  case (Cons p todo)
  obtain hook state where p: "p = (hook, state)" by (cases p)
  have "hook \<notin> set (keys done')" using Cons.prems(1) p by (simp add: keys_def)
  then have "jset hook state done' = done' @ [p]" by (simp add: jset_new p)
  with Cons show ?case by (simp add: p memberOf_named jsonMember_def jsonText_def)
qed simp

lemma hookStates_reads: "hooksOk states \<Longrightarrow> hookStatesFrom (hookStatesJson states) = Inr states"
proof -
  assume ok: "hooksOk states"
  have "\<forall>(hook, state) \<in> set states. jsonField (hookStatesJson states) hook = Some (JStr state)"
    using ok by (auto simp: hooksOk_def hookStatesJson_def jsonField_JObj keys_def comp_def split_beta
        intro!: map_of_is_SomeI rev_image_eqI)
  from hooks_read [of "[]" states, OF _ _ this] ok show ?thesis
    by (simp add: hookStatesFrom_def hookStatesJson_def hooksOk_def comp_def split_beta)
qed

lemma testFacts_reads:
  assumes "testOk t"
  shows "testFactsFrom (testFactsJson t) = Inr t"
proof -
  let ?members = "[(''state'', JStr (nameIn VTEST_STATES (tf_state t))), (''mode'', JStr (tf_mode t)),
     (''errors'', JArr (map errorFactJson (tf_errors t)))] @ given ''repeats'' JNum (tf_repeats t) @
     given ''hooks'' hookStatesJson (tf_hooks t) @ given ''reach'' reachJson (tf_reach t)"
  have m: "map_of ?members ''state'' = Some (JStr (nameIn VTEST_STATES (tf_state t)))"
    "map_of ?members ''mode'' = Some (JStr (tf_mode t))"
    "map_of ?members ''errors'' = Some (JArr (map errorFactJson (tf_errors t)))"
    "map_of ?members ''repeats'' = map_option JNum (tf_repeats t)"
    "map_of ?members ''hooks'' = map_option hookStatesJson (tf_hooks t)"
    "map_of ?members ''reach'' = map_option reachJson (tf_reach t)"
    by (simp_all add: map_of_given map_add_def split: option.split)
  have "jsonOptional (JObj ?members) ''repeats'' jsonCount = Inr (tf_repeats t)"
    by (rule jsonOptional_count [OF m(4)])
  moreover have "jsonOptional (JObj ?members) ''hooks'' (held hookStatesFrom) = Inr (tf_hooks t)"
    by (rule jsonOptional_held [OF m(5)]) (use assms in \<open>simp add: hookStates_reads testOk_def\<close>)
  moreover have "jsonOptional (JObj ?members) ''reach'' (held reachFrom) = Inr (tf_reach t)"
    by (rule jsonOptional_held [OF m(6)]) (simp add: reach_reads)
  moreover have "testStateAndModeFrom (JObj ?members) = Inr (tf_state t, tf_mode t)"
    using assms m(1,2) by (simp add: testStateAndModeFrom_def jsonMember_def jsonText_reads nameIn_reads memberOf_named testOk_def)
  moreover have "jsonArray (JObj ?members) ''errors'' errorFactFrom = Inr (tf_errors t)"
    using m(3) by (simp add: jsonArray_def jsonField_JObj mapE_Json errorFact_reads)
  ultimately show ?thesis unfolding testFactsFrom_def testFactsJson_def by simp
qed

lemma runEnding_reads: "runEndingFrom (runEndingJson e) = Inr e"
  by (simp add: runEndingFrom_def runEndingJson_def field_readers jsonField_JObj nameIn_reads)

text \<open>The members of a run's facts among others, whatever comes before and after them under other names.\<close>

lemma runFacts_reads:
  assumes "runOk r" and "map_of before ''test'' = None" "map_of before ''module'' = None"
    "map_of before ''unhandledErrorCount'' = None" "map_of before ''ending'' = None"
    and "map_of after ''test'' = None" "map_of after ''module'' = None"
  shows "runFactsFrom (JObj (before @ runFactsMembers r @ after)) = Inr (RunFacts.truncate r)"
proof -
  let ?members = "before @ runFactsMembers r @ after"
  have m: "map_of ?members ''test'' = map_option testFactsJson (rf_test r)"
    "map_of ?members ''module'' = map_option moduleFactsJson (rf_module r)"
    "map_of ?members ''unhandledErrorCount'' = Some (JNum (rf_unhandledErrorCount r))"
    "map_of ?members ''ending'' = Some (runEndingJson (rf_ending r))"
    using assms(2-7) by (simp_all add: runFactsMembers_def map_of_given map_add_def split: option.split)
  have "jsonOptional (JObj ?members) ''test'' (held testFactsFrom) = Inr (rf_test r)"
    by (rule jsonOptional_held [OF m(1)]) (use assms(1) in \<open>simp add: testFacts_reads runOk_def\<close>)
  moreover have "jsonOptional (JObj ?members) ''module'' (held moduleFactsFrom) = Inr (rf_module r)"
    by (rule jsonOptional_held [OF m(2)]) (use assms(1) in \<open>simp add: moduleFacts_reads runOk_def\<close>)
  moreover have "jsonCount (JObj ?members) ''unhandledErrorCount'' = Inr (rf_unhandledErrorCount r)"
    using m(3) by (rule jsonCount_reads)
  moreover have "held runEndingFrom (JObj ?members) ''ending'' = Inr (rf_ending r)"
    using m(4) by (simp add: held_reads runEnding_reads)
  ultimately show ?thesis unfolding runFactsFrom_def by (simp add: RunFacts.truncate_def)
qed

lemma runFacts_other:
  "key \<notin> {''test'', ''module'', ''unhandledErrorCount'', ''ending''} \<Longrightarrow> map_of (runFactsMembers r) key = None"
  by (simp add: runFactsMembers_def map_of_given map_add_def)

lemma baselineFacts_reads:
  assumes "runOk b" and "map_of before ''test'' = None" "map_of before ''module'' = None"
    "map_of before ''unhandledErrorCount'' = None" "map_of before ''ending'' = None"
    "map_of before ''countedUnhandledErrorCount'' = None" "map_of before ''unnamedUnhandledErrorCount'' = None"
  shows "baselineFactsFrom (JObj (before @ baselineMembers b)) = Inr b"
proof -
  let ?after = "[(''countedUnhandledErrorCount'', JNum (bf_countedUnhandledErrorCount b)),
     (''unnamedUnhandledErrorCount'', JNum (bf_unnamedUnhandledErrorCount b))]"
  have m: "map_of (before @ runFactsMembers b @ ?after) ''countedUnhandledErrorCount'' = Some (JNum (bf_countedUnhandledErrorCount b))"
    "map_of (before @ runFactsMembers b @ ?after) ''unnamedUnhandledErrorCount'' = Some (JNum (bf_unnamedUnhandledErrorCount b))"
    using assms(6,7) by (simp_all add: runFacts_other map_add_def)
  show ?thesis using runFacts_reads [OF assms(1-5), of ?after]
    by (simp add: baselineFactsFrom_def baselineMembers_def jsonCount_reads [OF m(1)] jsonCount_reads [OF m(2)]
        RunFacts.truncate_def RunFacts.extend_def)
qed

lemma experimentRunFacts_reads:
  assumes "runOk r" and "map_of before ''test'' = None" "map_of before ''module'' = None"
    "map_of before ''unhandledErrorCount'' = None" "map_of before ''ending'' = None" "map_of before ''mutation'' = None"
  shows "experimentRunFactsFrom (JObj (before @ experimentRunMembers r)) = Inr r"
proof -
  let ?after = "[(''mutation'', JArr (map mutationLoadJson (xf_mutation r)))]"
  have "map_of (before @ runFactsMembers r @ ?after) ''mutation'' = Some (JArr (map mutationLoadJson (xf_mutation r)))"
    using assms(6) by (simp add: runFacts_other map_add_def)
  then have "jsonArray (JObj (before @ runFactsMembers r @ ?after)) ''mutation'' mutationLoadFrom = Inr (xf_mutation r)"
    by (simp add: jsonArray_def jsonField_JObj mapE_Json mutationLoad_reads)
  then show ?thesis using runFacts_reads [OF assms(1-5), of ?after]
    by (simp add: experimentRunFactsFrom_def experimentRunMembers_def RunFacts.truncate_def RunFacts.extend_def)
qed

lemma restored_reads: "restoredOk r \<Longrightarrow> restoredBaselineFactsFrom (restoredJson r) = Inr r"
proof (cases r)
  case (Restored b)
  then show "restoredOk r \<Longrightarrow> restoredBaselineFactsFrom (restoredJson r) = Inr r"
    using baselineFacts_reads [of b "[(''recorded'', JBool True)]"]
    by (simp add: restoredBaselineFactsFrom_def restoredJson_def jsonBoolean_def jsonField_JObj)
qed (simp add: restoredBaselineFactsFrom_def restoredJson_def field_readers jsonField_JObj nameIn_reads)

lemma confirming_reads: "confirmingOk c \<Longrightarrow> confirmingFactsFrom (confirmingJson c) = Inr c"
proof (cases c)
  case (ConfirmingFactsRan r)
  then show "confirmingOk c \<Longrightarrow> confirmingFactsFrom (confirmingJson c) = Inr c"
    using experimentRunFacts_reads [of r "[(''status'', JStr ''ran'')]"]
    by (simp add: confirmingFactsFrom_def confirmingJson_def jsonMember_def jsonText_def jsonField_JObj memberOf_named
        CONFIRMING_STATUSES_def)
qed (simp_all add: confirmingFactsFrom_def confirmingJson_def field_readers jsonField_JObj nameIn_reads memberOf_named
    CONFIRMING_STATUSES_def)

lemma nextRun_reads: "nextRunFactFrom (nextRunJson n) = Inr n"
  by (cases n) (simp_all add: nextRunFactFrom_def nextRunJson_def field_readers jsonField_JObj)

lemma jobFacts_reads: "jobFactsFrom (jobFactsJson j) = Inr j"
  by (simp add: jobFactsFrom_def jobFactsJson_def field_readers jsonField_JObj)

lemma notRun_reads: "notRunFactFrom (notRunJson n) = Inr n"
  by (cases n) (simp_all add: notRunFactFrom_def notRunJson_def field_readers jsonField_JObj nameIn_reads memberOf_named
    NOT_RUN_KINDS_def held_def noProbeSite_reads)

lemma storedFacts_reads:
  assumes "evidenceFactsOk f"
  shows "storedFacts (experimentFactsJson f) = Inr f"
proof -
  let ?body = "case ef_body f of
        BodyNotRun why \<Rightarrow> [(''notRun'', notRunJson why)]
      | BodyRan run confirming nextRun \<Rightarrow> [(''run'', JObj (experimentRunMembers run))] @
          given ''confirming'' confirmingJson confirming @ given ''nextRun'' nextRunJson nextRun"
  define members where "members = given ''baseline'' (\<lambda>b. JObj (baselineMembers b)) (sf_baseline f) @
     given ''restoredBaseline'' restoredJson (sf_restoredBaseline f) @ [(''job'', jobFactsJson (sf_job f))] @ ?body"
  have body: "map_of ?body ''baseline'' = None" "map_of ?body ''restoredBaseline'' = None"
    by (simp_all add: map_of_given map_add_def split: ExperimentBody.split)
  have m: "map_of members ''baseline'' = map_option (\<lambda>b. JObj (baselineMembers b)) (sf_baseline f)"
    "map_of members ''restoredBaseline'' = map_option restoredJson (sf_restoredBaseline f)"
    "map_of members ''job'' = Some (jobFactsJson (sf_job f))"
    "map_of members ''notRun'' = (case ef_body f of BodyNotRun why \<Rightarrow> Some (notRunJson why) | _ \<Rightarrow> None)"
    using body by (simp_all add: members_def map_of_given map_add_def split: option.split ExperimentBody.split)
  have "jsonOptional (JObj members) ''baseline'' (held baselineFactsFrom) = Inr (sf_baseline f)"
    by (rule jsonOptional_held [OF m(1)]) (use assms baselineFacts_reads [of _ "[]"] in \<open>simp add: evidenceFactsOk_def\<close>)
  moreover have "jsonOptional (JObj members) ''restoredBaseline'' (held restoredBaselineFactsFrom) = Inr (sf_restoredBaseline f)"
    by (rule jsonOptional_held [OF m(2)]) (use assms in \<open>simp add: restored_reads evidenceFactsOk_def\<close>)
  moreover have "held jobFactsFrom (JObj members) ''job'' = Inr (sf_job f)"
    using m(3) by (simp add: held_reads jobFacts_reads)
  ultimately have shared: "storedFacts (JObj members) =
      bindE (jsonOptional (JObj members) ''notRun'' (held notRunFactFrom)) (\<lambda>notRun. case notRun of
         Some why \<Rightarrow> Inr \<lparr>sf_baseline = sf_baseline f, sf_restoredBaseline = sf_restoredBaseline f, sf_job = sf_job f, ef_body = BodyNotRun why\<rparr>
       | None \<Rightarrow>
           bindE (held experimentRunFactsFrom (JObj members) ''run'') (\<lambda>run.
           bindE (jsonOptional (JObj members) ''confirming'' (held confirmingFactsFrom)) (\<lambda>confirming.
           bindE (jsonOptional (JObj members) ''nextRun'' (held nextRunFactFrom)) (\<lambda>nextRun.
             Inr \<lparr>sf_baseline = sf_baseline f, sf_restoredBaseline = sf_restoredBaseline f, sf_job = sf_job f,
                  ef_body = BodyRan run confirming nextRun\<rparr>))))"
    unfolding storedFacts_def by simp
  have facts: "experimentFactsJson f = JObj members" by (simp add: experimentFactsJson_def members_def)
  show ?thesis
  proof (cases "ef_body f")
    case (BodyNotRun why)
    have "jsonOptional (JObj members) ''notRun'' (held notRunFactFrom) = Inr (Some why)"
      using m(4) BodyNotRun by (simp add: jsonOptional_def jsonField_JObj held_reads notRun_reads)
    then show ?thesis unfolding facts shared by (simp add: BodyNotRun [symmetric])
  next
    case (BodyRan run confirming nextRun)
    have m': "map_of members ''run'' = Some (JObj (experimentRunMembers run))"
      "map_of members ''confirming'' = map_option confirmingJson confirming"
      "map_of members ''nextRun'' = map_option nextRunJson nextRun"
      using BodyRan by (simp_all add: members_def map_of_given map_add_def split: option.split)
    have ok: "runOk run" "pred_option confirmingOk confirming" using assms BodyRan by (simp_all add: evidenceFactsOk_def)
    have "jsonOptional (JObj members) ''notRun'' (held notRunFactFrom) = Inr None"
      using m(4) BodyRan by (simp add: jsonOptional_def jsonField_JObj)
    moreover have "held experimentRunFactsFrom (JObj members) ''run'' = Inr run"
      using m'(1) experimentRunFacts_reads [OF ok(1), of "[]"] by (simp add: held_reads)
    moreover have "jsonOptional (JObj members) ''confirming'' (held confirmingFactsFrom) = Inr confirming"
      by (rule jsonOptional_held [OF m'(2)]) (use ok(2) in \<open>simp add: confirming_reads\<close>)
    moreover have "jsonOptional (JObj members) ''nextRun'' (held nextRunFactFrom) = Inr nextRun"
      by (rule jsonOptional_held [OF m'(3)]) (simp add: nextRun_reads)
    ultimately show ?thesis unfolding facts shared by (simp add: BodyRan [symmetric])
  qed
qed

section \<open>The readers give no other facts\<close>

lemma memberOf_named_Inr: "memberOf (named names) s key = Inr x \<Longrightarrow> x = s \<and> s \<in> set names"
  by (auto simp: memberOf_def map_of_named split: if_splits)

lemma jsonMember_named_Inr: "jsonMember (named names) v key = Inr x \<Longrightarrow> x \<in> set names"
  by (auto simp: jsonMember_def bindE_Inr dest: memberOf_named_Inr)

lemma jsonOptional_Inr: "jsonOptional v key read = Inr x \<Longrightarrow> (\<And>y. read v key = Inr y \<Longrightarrow> P y) \<Longrightarrow> pred_option P x"
  by (auto simp: jsonOptional_def bindE_Inr split: if_splits)

lemma held_Inr: "held rebuild v key = Inr x \<Longrightarrow> \<exists>w. rebuild w = Inr x"
  by (auto simp: held_def bindE_Inr)

lemma hooksFrom_ok:
  "hooksFrom v names states = Inr states' \<Longrightarrow> hooksOk states \<Longrightarrow> hooksOk states'"
proof (induction names arbitrary: states)
  case (Cons name names)
  then obtain hook state where read: "memberOf (named HOOK_NAMES) name ''hook name'' = Inr hook"
    "jsonMember (named HOOK_STATES) v name = Inr state" "hooksFrom v names (jset hook state states) = Inr states'"
    by (auto simp: bindE_Inr)
  have "hooksOk (jset hook state states)"
    using Cons.prems(2) memberOf_named_Inr [OF read(1)] jsonMember_named_Inr [OF read(2)] set_jset [of hook state states]
    by (auto simp: hooksOk_def list_all_iff)
  then show ?case by (rule Cons.IH [OF read(3)])
qed simp

lemma testFactsFrom_ok: "testFactsFrom v = Inr t \<Longrightarrow> testOk t"
proof -
  assume "testFactsFrom v = Inr t"
  then obtain state hooks where read: "testStateAndModeFrom v = Inr (state, tf_mode t)"
    "jsonOptional v ''hooks'' (held hookStatesFrom) = Inr hooks" "tf_hooks t = hooks"
    by (auto simp: testFactsFrom_def bindE_Inr)
  have "pred_option hooksOk hooks"
    by (rule jsonOptional_Inr [OF read(2)])
       (auto simp: hookStatesFrom_def hooksOk_def [of "[]"] dest!: held_Inr intro: hooksFrom_ok)
  then show ?thesis using read(1,3) by (auto simp: testOk_def testStateAndModeFrom_def bindE_Inr dest: jsonMember_named_Inr)
qed

lemma moduleFactsFrom_ok: "moduleFactsFrom v = Inr m \<Longrightarrow> moduleOk m"
  by (auto simp: moduleFactsFrom_def bindE_Inr dest: jsonMember_named_Inr split: if_splits)

lemma runFactsFrom_ok: "runFactsFrom v = Inr r \<Longrightarrow> runOk r"
proof -
  assume "runFactsFrom v = Inr r"
  then have read: "jsonOptional v ''test'' (held testFactsFrom) = Inr (rf_test r)"
    "jsonOptional v ''module'' (held moduleFactsFrom) = Inr (rf_module r)"
    by (auto simp: runFactsFrom_def bindE_Inr)
  have "pred_option testOk (rf_test r)" by (rule jsonOptional_Inr [OF read(1)]) (auto dest!: held_Inr intro: testFactsFrom_ok)
  moreover have "pred_option moduleOk (rf_module r)"
    by (rule jsonOptional_Inr [OF read(2)]) (auto dest!: held_Inr intro: moduleFactsFrom_ok)
  ultimately show ?thesis by (simp add: runOk_def)
qed

lemma baselineFactsFrom_ok: "baselineFactsFrom v = Inr b \<Longrightarrow> runOk b"
  using runFactsFrom_ok by (fastforce simp: baselineFactsFrom_def bindE_Inr runOk_def RunFacts.extend_def)

lemma experimentRunFactsFrom_ok: "experimentRunFactsFrom v = Inr r \<Longrightarrow> runOk r"
  using runFactsFrom_ok by (fastforce simp: experimentRunFactsFrom_def bindE_Inr runOk_def RunFacts.extend_def)

lemma restoredFrom_ok: "restoredBaselineFactsFrom v = Inr r \<Longrightarrow> restoredOk r"
  by (auto simp: restoredBaselineFactsFrom_def bindE_Inr baselineFactsFrom_ok split: if_splits)

lemma confirmingFrom_ok: "confirmingFactsFrom v = Inr c \<Longrightarrow> confirmingOk c"
  by (auto simp: confirmingFactsFrom_def bindE_Inr experimentRunFactsFrom_ok split: if_splits)

lemma storedFacts_ok: "storedFacts v = Inr f \<Longrightarrow> evidenceFactsOk f"
proof -
  assume "storedFacts v = Inr f"
  then obtain job notRun where read: "jsonOptional v ''baseline'' (held baselineFactsFrom) = Inr (sf_baseline f)"
    "jsonOptional v ''restoredBaseline'' (held restoredBaselineFactsFrom) = Inr (sf_restoredBaseline f)"
    and body: "(\<exists>why. ef_body f = BodyNotRun why) \<or> (\<exists>run confirming nextRun. ef_body f = BodyRan run confirming nextRun \<and>
      held experimentRunFactsFrom v ''run'' = Inr run \<and> jsonOptional v ''confirming'' (held confirmingFactsFrom) = Inr confirming)"
    by (auto simp: storedFacts_def bindE_Inr split: option.splits)
  have "pred_option runOk (sf_baseline f)"
    by (rule jsonOptional_Inr [OF read(1)]) (auto dest!: held_Inr intro: baselineFactsFrom_ok)
  moreover have "pred_option restoredOk (sf_restoredBaseline f)"
    by (rule jsonOptional_Inr [OF read(2)]) (auto dest!: held_Inr intro: restoredFrom_ok)
  moreover have "pred_option confirmingOk c" if "jsonOptional v ''confirming'' (held confirmingFactsFrom) = Inr c" for c
    by (rule jsonOptional_Inr [OF that]) (auto dest!: held_Inr intro: confirmingFrom_ok)
  ultimately show ?thesis using body by (auto simp: evidenceFactsOk_def dest!: held_Inr intro: experimentRunFactsFrom_ok)
qed

section \<open>The stored values are ones \<open>JSON.parse\<close> gives back\<close>

lemma wf_given: "(\<And>y. json_wf (enc y)) \<Longrightarrow> list_all (\<lambda>(k, v). json_wf v) (given key enc x)"
  by (simp add: given_def split: option.split)

lemma wf_site [json_wfs]: "json_wf (noProbeSiteJson site)"
  by (cases site) (auto simp: noProbeSiteJson_def probeSiteMembers_def given_def split: option.split)

lemma wf_load [json_wfs]: "json_wf (mutationLoadJson load)"
  by (auto simp: mutationLoadJson_def probeSiteMembers_def json_wfs split: MutationLoad.split ProbePlacement.split)

lemma wf_module [json_wfs]: "json_wf (moduleFactsJson m)"
  by (cases m) (simp_all add: moduleFactsJson_def failingSuiteJson_def list_all_iff json_wfs)

lemma wf_reach [json_wfs]: "json_wf (reachJson r)"
  by (cases r) (simp_all add: reachJson_def)

lemma wf_hooks: "hooksOk h \<Longrightarrow> json_wf (hookStatesJson h)"
  by (auto simp: hookStatesJson_def hooksOk_def keys_def list_all_iff comp_def split_beta)

lemma wf_error [json_wfs]: "json_wf (errorFactJson e)"
  by (cases e) (auto simp: errorFactJson_def given_def split: option.split)

lemma wf_test: "testOk t \<Longrightarrow> json_wf (testFactsJson t)"
  by (auto simp: testFactsJson_def given_def list_all_iff json_wfs testOk_def wf_hooks split: option.split)

lemma wf_ending [json_wfs]: "json_wf (runEndingJson e)"
  by (simp add: runEndingJson_def)

lemma wf_runMembers: "runOk r \<Longrightarrow> list_all (\<lambda>(k, v). json_wf v) (runFactsMembers r)"
  by (auto simp: runFactsMembers_def given_def json_wfs runOk_def wf_test split: option.split)

lemma keys_runMembers: "map fst (runFactsMembers r) = (case rf_test r of None \<Rightarrow> [] | Some _ \<Rightarrow> [''test'']) @
    (case rf_module r of None \<Rightarrow> [] | Some _ \<Rightarrow> [''module'']) @ [''unhandledErrorCount'', ''ending'']"
  by (simp add: runFactsMembers_def)

lemma wf_baseline: "runOk b \<Longrightarrow> json_wf (JObj (baselineMembers b))"
  by (auto simp: baselineMembers_def keys_runMembers wf_runMembers split: option.split)

lemma wf_experimentRun: "runOk r \<Longrightarrow> json_wf (JObj (experimentRunMembers r))"
  by (auto simp: experimentRunMembers_def keys_runMembers wf_runMembers list_all_iff json_wfs split: option.split
      dest: wf_runMembers [unfolded list_all_iff])

lemma wf_restored: "restoredOk r \<Longrightarrow> json_wf (restoredJson r)"
  by (cases r) (auto simp: restoredJson_def baselineMembers_def keys_runMembers wf_runMembers split: option.split)

lemma wf_confirming: "confirmingOk c \<Longrightarrow> json_wf (confirmingJson c)"
  by (cases c) (auto simp: confirmingJson_def experimentRunMembers_def keys_runMembers wf_runMembers list_all_iff json_wfs
    split: option.split dest: wf_runMembers [unfolded list_all_iff])

lemma wf_nextRun [json_wfs]: "json_wf (nextRunJson n)"
  by (cases n) (simp_all add: nextRunJson_def)

lemma wf_job [json_wfs]: "json_wf (jobFactsJson j)"
  by (simp add: jobFactsJson_def)

lemma wf_notRun [json_wfs]: "json_wf (notRunJson nr)"
  by (cases nr) (simp_all add: notRunJson_def json_wfs)

lemma wf_experimentFacts: "evidenceFactsOk f \<Longrightarrow> json_wf (experimentFactsJson f)"
  by (cases "ef_body f")
     (auto simp: experimentFactsJson_def given_def evidenceFactsOk_def wf_baseline [simplified] wf_restored wf_confirming
       wf_experimentRun [simplified] json_wfs split: option.split)

section \<open>A reading as it is stored\<close>

definition invalidReasonText :: "InvalidReason \<Rightarrow> string" where
  "invalidReasonText reason = (case reason of
     InvNoProbeSite _ \<Rightarrow> ''no-probe-site''
   | InvNoModule \<Rightarrow> ''no-module''
   | InvBaselineNotPassed _ \<Rightarrow> ''baseline-not-passed''
   | InvBaselineNotClean \<Rightarrow> ''baseline-not-clean''
   | InvRestoredBaselineNotPassed \<Rightarrow> ''restored-baseline-not-passed''
   | InvRestoredBaselineNotClean \<Rightarrow> ''restored-baseline-not-clean''
   | InvRunNotClean \<Rightarrow> ''run-not-clean''
   | InvModuleFailed \<Rightarrow> ''module-failed''
   | InvSuiteError _ \<Rightarrow> ''suite-error''
   | InvTestNotRun _ \<Rightarrow> ''test-not-run''
   | InvHookNotPassed _ _ \<Rightarrow> ''hook-not-passed''
   | InvTestRepeated _ \<Rightarrow> ''test-repeated''
   | InvSiteNotExecuted _ \<Rightarrow> ''site-not-executed''
   | InvReachUnknown _ \<Rightarrow> ''reach-unknown'')"

definition unexecutedJson :: "UnexecutedDetail \<Rightarrow> json" where
  "unexecutedJson d = (case d of
     NeverTransformed \<Rightarrow> JObj [(''mutation'', JStr ''never-transformed'')]
   | NotAppliedTimes n \<Rightarrow> JObj [(''mutation'', JStr ''not-applied''), (''occurrences'', JNum n)])"

definition invalidDetail :: "InvalidReason \<Rightarrow> json option" where
  "invalidDetail reason = (case reason of
     InvNoProbeSite site \<Rightarrow> Some (JObj [(''site'', noProbeSiteJson site)])
   | InvBaselineNotPassed detail \<Rightarrow> map_option (\<lambda>(state, mode).
       JObj [(''state'', JStr (nameIn VTEST_STATES state)), (''mode'', JStr mode)]) detail
   | InvSuiteError suite \<Rightarrow> Some (JObj [(''suite'', textsJson suite)])
   | InvTestNotRun state \<Rightarrow> Some (JObj [(''state'', JStr (nameIn NOT_RUN_TEST_STATES state))])
   | InvHookNotPassed hook state \<Rightarrow>
       Some (JObj [(''hook'', JStr hook), (''state'', JStr (nameIn DETAIL_HOOK_STATES state))])
   | InvTestRepeated n \<Rightarrow> Some (JObj [(''repeats'', JNum n)])
   | InvSiteNotExecuted detail \<Rightarrow> map_option unexecutedJson detail
   | InvReachUnknown detail \<Rightarrow> map_option (\<lambda>cause. JObj [(''cause'', JStr (nameIn REACH_UNKNOWN_REASONS cause))]) detail
   | _ \<Rightarrow> None)"

text \<open>The texts a reason's detail may hold.\<close>

fun invalidOk :: "InvalidReason \<Rightarrow> bool" where
  "invalidOk (InvBaselineNotPassed detail) = pred_option (\<lambda>(state, mode). mode \<in> set FACT_TEST_MODES) detail"
| "invalidOk (InvTestNotRun state) = (state \<in> {None, Some VPending, Some VSkipped})"
| "invalidOk (InvHookNotPassed hook state) = (hook \<in> set HOOK_NAMES \<and> pred_option (\<lambda>s. s \<in> set HOOK_STATES) state)"
| "invalidOk _ = True"

definition isRunInvalid :: "InvalidReason \<Rightarrow> bool" where
  "isRunInvalid reason = (invalidReasonText reason \<in> set RUN_INVALID_REASONS)"

lemma isRecord_details [simp]: "isRecord (unexecutedJson d)"
  by (cases d) (simp_all add: unexecutedJson_def)

lemma nameIn_detailHook: "pred_option (\<lambda>s. s \<in> set HOOK_STATES) state \<Longrightarrow>
    memberOf DETAIL_HOOK_STATES (nameIn DETAIL_HOOK_STATES state) key = Inr state"
  by (cases state) (auto simp: memberOf_def DETAIL_HOOK_STATES_def HOOK_STATES_def)

lemma nameIn_notRunState: "state \<in> {None, Some VPending, Some VSkipped} \<Longrightarrow>
    memberOf NOT_RUN_TEST_STATES (nameIn NOT_RUN_TEST_STATES state) key = Inr state"
  by (auto simp: memberOf_def NOT_RUN_TEST_STATES_def)

lemma unexecuted_reads: "unexecutedDetailFrom (unexecutedJson d) = Inr d"
  by (cases d) (simp_all add: unexecutedDetailFrom_def unexecutedJson_def field_readers jsonField_JObj memberOf_named
    UNEXECUTED_MUTATIONS_def)

text \<open>A reason and its detail among other members, read back.\<close>

lemma runReading_reads:
  assumes "invalidOk reason" "isRunInvalid reason"
    and detail: "map_of members ''detail'' = invalidDetail reason"
  shows "runReadingFrom (invalidReasonText reason) (JObj members) = Inr reason"
proof (cases reason)
  case (InvSiteNotExecuted d)
  have "jsonOptional (JObj members) ''detail'' (held unexecutedDetailFrom) = Inr d"
    by (rule jsonOptional_held [where enc = unexecutedJson])
       (simp_all add: detail InvSiteNotExecuted invalidDetail_def unexecuted_reads)
  then show ?thesis by (simp add: InvSiteNotExecuted runReadingFrom_def invalidReasonText_def)
next
  case (InvReachUnknown d)
  have "jsonOptional (JObj members) ''detail'' (held reachUnknownDetailFrom) = Inr d"
    by (rule jsonOptional_held [where enc = "\<lambda>cause. JObj [(''cause'', JStr (nameIn REACH_UNKNOWN_REASONS cause))]"])
       (simp_all add: detail InvReachUnknown invalidDetail_def reachUnknownDetailFrom_def field_readers jsonField_JObj nameIn_reads)
  then show ?thesis by (simp add: InvReachUnknown runReadingFrom_def invalidReasonText_def)
qed (use assms in \<open>auto simp: runReadingFrom_def invalidReasonText_def invalidDetail_def isRunInvalid_def RUN_INVALID_REASONS_def
    held_def jsonRecord_def jsonField_JObj jsonStrings_def jsonCount_def strings_texts jsonMember_def jsonText_def
    hookDetailFrom_def memberOf_named nameIn_detailHook nameIn_notRunState\<close>)

lemma invalidReading_reads:
  assumes "invalidOk reason" "map_of members ''reason'' = Some (JStr (invalidReasonText reason))"
    and detail: "map_of members ''detail'' = invalidDetail reason"
  shows "invalidReadingFrom (JObj members) = Inr reason"
proof -
  have "invalidReasonText reason \<in> set INVALID_REASONS"
    by (cases reason) (simp_all add: invalidReasonText_def INVALID_REASONS_def RUN_INVALID_REASONS_def)
  then have named: "jsonMember (named INVALID_REASONS) (JObj members) ''reason'' = Inr (invalidReasonText reason)"
    using assms(2) by (simp add: jsonMember_def jsonText_reads memberOf_named)
  show ?thesis
  proof (cases "isRunInvalid reason")
    case True
    then have "invalidReadingFrom (JObj members) = runReadingFrom (invalidReasonText reason) (JObj members)"
      by (cases reason) (simp_all add: invalidReadingFrom_def named invalidReasonText_def isRunInvalid_def RUN_INVALID_REASONS_def)
    then show ?thesis using runReading_reads [OF assms(1) True detail] by simp
  next
    case False
    show ?thesis
    proof (cases reason)
      case (InvBaselineNotPassed d)
      have "jsonOptional (JObj members) ''detail'' (held testStateAndModeFrom) = Inr d"
        by (rule jsonOptional_held [where enc = "\<lambda>(state, mode). JObj [(''state'', JStr (nameIn VTEST_STATES state)), (''mode'', JStr mode)]"])
           (use assms(1) in \<open>auto simp: detail InvBaselineNotPassed invalidDetail_def testStateAndModeFrom_def field_readers
             jsonField_JObj nameIn_reads memberOf_named\<close>)
      then show ?thesis using named by (simp add: InvBaselineNotPassed invalidReadingFrom_def invalidReasonText_def)
    qed (use False named detail in \<open>simp_all add: invalidReadingFrom_def invalidReasonText_def isRunInvalid_def RUN_INVALID_REASONS_def
        invalidDetail_def held_def jsonRecord_def jsonField_JObj noProbeSiteDetailFrom_def noProbeSite_reads\<close>)
  qed
qed

text \<open>And the readers give no other reasons.\<close>

lemma memberOf_Inr: "memberOf members s key = Inr x \<Longrightarrow> (s, x) \<in> set members"
  by (auto simp: memberOf_def split: option.splits dest: map_of_SomeD)

lemma jsonMember_Inr: "jsonMember members v key = Inr x \<Longrightarrow> x \<in> snd ` set members"
  by (force simp: jsonMember_def bindE_Inr dest: memberOf_Inr)

lemma hookDetailFrom_ok: "hookDetailFrom v = Inr (hook, state) \<Longrightarrow> invalidOk (InvHookNotPassed hook state)"
proof -
  assume "hookDetailFrom v = Inr (hook, state)"
  then have read: "jsonMember (named HOOK_NAMES) v ''hook'' = Inr hook" "jsonMember DETAIL_HOOK_STATES v ''state'' = Inr state"
    by (auto simp: hookDetailFrom_def bindE_Inr)
  then show ?thesis using jsonMember_named_Inr [OF read(1)] jsonMember_Inr [OF read(2)] by (auto simp: DETAIL_HOOK_STATES_def)
qed

lemma runReadingFrom_ok: "runReadingFrom name v = Inr reason \<Longrightarrow> invalidOk reason \<and> isRunInvalid reason"
  by (auto simp: runReadingFrom_def bindE_Inr isRunInvalid_def invalidReasonText_def RUN_INVALID_REASONS_def NOT_RUN_TEST_STATES_def
      split: if_splits dest!: held_Inr jsonMember_Inr hookDetailFrom_ok simp del: invalidOk.simps(3))

lemma testStateAndModeFrom_ok: "testStateAndModeFrom v = Inr (state, mode) \<Longrightarrow> mode \<in> set FACT_TEST_MODES"
  by (auto simp: testStateAndModeFrom_def bindE_Inr dest: jsonMember_named_Inr)

lemma invalidReadingFrom_ok: "invalidReadingFrom v = Inr reason \<Longrightarrow> invalidOk reason"
proof -
  assume "invalidReadingFrom v = Inr reason"
  then obtain name where read: "(if name = ''no-probe-site'' then
         bindE (held noProbeSiteDetailFrom v ''detail'') (\<lambda>site. Inr (InvNoProbeSite site))
       else if name = ''baseline-not-passed'' then
         bindE (jsonOptional v ''detail'' (held testStateAndModeFrom)) (\<lambda>detail. Inr (InvBaselineNotPassed detail))
       else if name = ''no-module'' then Inr InvNoModule
       else if name = ''baseline-not-clean'' then Inr InvBaselineNotClean
       else if name = ''restored-baseline-not-passed'' then Inr InvRestoredBaselineNotPassed
       else if name = ''restored-baseline-not-clean'' then Inr InvRestoredBaselineNotClean
       else runReadingFrom name v) = Inr reason"
    unfolding invalidReadingFrom_def bindE_Inr by blast
  show ?thesis
  proof (cases "name = ''baseline-not-passed''")
    case True
    then obtain d where d: "jsonOptional v ''detail'' (held testStateAndModeFrom) = Inr d" "reason = InvBaselineNotPassed d"
      using read by (auto simp: bindE_Inr)
    have "pred_option (\<lambda>(state, mode). mode \<in> set FACT_TEST_MODES) d"
      by (rule jsonOptional_Inr [OF d(1)]) (auto dest!: held_Inr testStateAndModeFrom_ok)
    then show ?thesis using d(2) by simp
  next
    case False
    then have "(\<exists>site. reason = InvNoProbeSite site) \<or> reason \<in> {InvNoModule, InvBaselineNotClean, InvRestoredBaselineNotPassed,
        InvRestoredBaselineNotClean} \<or> runReadingFrom name v = Inr reason"
      using read by (simp split: if_split_asm add: bindE_Inr) auto
    then show ?thesis using runReadingFrom_ok by auto
  qed
qed

lemma invalidRunReading_reads:
  assumes "invalidOk reason" "isRunInvalid reason" "map_of members ''reason'' = Some (JStr (invalidReasonText reason))"
    and "map_of members ''detail'' = invalidDetail reason"
  shows "invalidRunReadingFrom (JObj members) = Inr reason"
  using assms runReading_reads [OF assms(1,2,4)]
  by (simp add: invalidRunReadingFrom_def jsonMember_def jsonText_reads memberOf_named isRunInvalid_def)

lemma wf_unexecuted [json_wfs]: "json_wf (unexecutedJson d)"
  by (cases d) (simp_all add: unexecutedJson_def)

lemma wf_invalidDetail: "invalidDetail reason = Some v \<Longrightarrow> json_wf v"
  by (cases reason) (auto simp: invalidDetail_def list_all_iff json_wfs)

end
