(* ===== verification/DefectEvidence.thy ===== *)
theory DefectEvidence
  imports EvidenceFacts StoredRuns
begin

text \<open>
  The evidence of the defects (\<^verbatim>\<open>store/defect-evidence.ts\<close>, \<^verbatim>\<open>store/kept-evidence.ts\<close>): what of a
  falsification reply is stored, and what of a row is read. One rebuild serves both, and refuses a judgement that is
  not the one the judge gives the facts beside it. The reply is the JSON value it is, since the source checks every
  member of it at run time. The evidence id, random in the source, is an argument.
\<close>

section \<open>The table\<close>

definition DEFECT_EVIDENCE :: TableColumns where
  "DEFECT_EVIDENCE = [(''project_identity'', TypeText), (''worktree_identity'', TypeText), (''defect_id'', TypeText),
     (''evidence_id'', TypeText), (''definition_digest'', TypeText), (''mutation_file_digest'', TypeText),
     (''fingerprint_digest'', TypeText), (''vitest_version'', TypeText), (''falsifier_version'', TypeInteger),
     (''adapter_version'', TypeInteger), (''verdict'', TypeText), (''reason'', TypeTextNull), (''detail'', TypeTextNull),
     (''facts'', TypeText)]"

record EvidenceTables = StoreTables +
  tb_evidence :: "Row list"

definition evidenceKey :: "Row \<Rightarrow> string \<times> string \<times> string" where
  "evidenceKey row = (textOf row ''project_identity'', textOf row ''worktree_identity'', textOf row ''defect_id'')"

definition evidenceRow :: "Row \<Rightarrow> bool" where
  "evidenceRow row =
     (rowFits DEFECT_EVIDENCE row \<and>
      list_all (nonEmptyText row) [''project_identity'', ''worktree_identity'', ''defect_id'', ''evidence_id'',
        ''definition_digest'', ''mutation_file_digest'', ''fingerprint_digest''])"

definition evidenceHolds :: "Row list \<Rightarrow> bool" where
  "evidenceHolds rows = (distinct (map evidenceKey rows) \<and> list_all evidenceRow rows)"

definition evidenceStatement :: "EvidenceTables \<Rightarrow> StoreError + EvidenceTables" where
  "evidenceStatement db =
     (if evidenceHolds (tb_evidence db) then Inr db else Inl (StoreFailure ''constraint failed''))"

section \<open>The records\<close>

definition FALSIFIER_VERSION :: nat where
  "FALSIFIER_VERSION = 4"

datatype Verdict = VerdictSurvived | VerdictInvalid | VerdictUnclear | VerdictDetected

definition CONFIRMING_VERDICTS :: "(string \<times> Verdict) list" where
  "CONFIRMING_VERDICTS = [(''survived'', VerdictSurvived), (''invalid-experiment'', VerdictInvalid), (''unclear'', VerdictUnclear)]"

definition VERDICTS :: "(string \<times> Verdict) list" where
  "VERDICTS = CONFIRMING_VERDICTS @ [(''detected'', VerdictDetected)]"

definition RUN_UNCLEAR_REASONS :: "(string \<times> UnclearRun) list" where
  "RUN_UNCLEAR_REASONS = [(''not-an-assertion'', NotAnAssertion), (''unhandled-error'', UnhandledError)]"

definition UNCLEAR_REASONS :: "string list" where
  "UNCLEAR_REASONS = map fst RUN_UNCLEAR_REASONS @ [''confirming-run-differed'', ''next-run-unclean'', ''job-unclean'']"

record EvidenceBindings = StoreScope +
  eb_inputFingerprintDigest :: string

type_synonym StoredJudgement = "Judgement \<times> ProbeSite ExperimentFacts"

record StoredEvidence = EvidenceBindings +
  se_evidenceId :: string
  se_defectId :: string
  se_definitionDigest :: string
  se_mutationFileDigest :: string
  se_vitestVersion :: string
  se_falsifierVersion :: nat
  se_adapterVersion :: nat
  se_verdict :: Verdict
  se_judgement :: "StoredJudgement option"

record LatestEvidence =
  le_evidence :: "StoredEvidence list"
  le_evidenceRefusals :: "(string \<times> string) list"

section \<open>Readings\<close>

text \<open>The verdict of a judgement; a judgement without one is never stored.\<close>

fun readingVerdict :: "Judgement \<Rightarrow> Verdict option" where
  "readingVerdict Detected = Some VerdictDetected"
| "readingVerdict Survived = Some VerdictSurvived"
| "readingVerdict (InvalidExperiment _) = Some VerdictInvalid"
| "readingVerdict (UnclearExperiment _) = Some VerdictUnclear"
| "readingVerdict (NoVerdict _) = None"

definition confirmingReadingFrom :: "json \<Rightarrow> StoreError + RunReading" where
  "confirmingReadingFrom v =
     bindE (jsonMember CONFIRMING_VERDICTS v ''verdict'') (\<lambda>verdict.
       case verdict of
         VerdictSurvived \<Rightarrow> Inr RSurvived
       | VerdictInvalid \<Rightarrow> bindE (invalidRunReadingFrom v) (\<lambda>reason. Inr (RInvalid reason))
       | _ \<Rightarrow> bindE (jsonMember RUN_UNCLEAR_REASONS v ''reason'') (\<lambda>reason. Inr (RUnclear reason)))"

definition unclearReadingFrom :: "json \<Rightarrow> StoreError + Unclear" where
  "unclearReadingFrom v =
     bindE (jsonMember (named UNCLEAR_REASONS) v ''reason'') (\<lambda>reason.
       if reason = ''not-an-assertion'' then Inr (UnclearOfRun NotAnAssertion)
       else if reason = ''unhandled-error'' then Inr (UnclearOfRun UnhandledError)
       else if reason = ''next-run-unclean'' then Inr NextRunUnclean
       else if reason = ''job-unclean'' then Inr JobUnclean
       else bindE (held (\<lambda>detail. held confirmingReadingFrom detail ''confirming'') v ''detail'') (\<lambda>confirming.
              Inr (ConfirmingRunDiffered confirming)))"

definition verdictReadingFrom :: "json \<Rightarrow> StoreError + Judgement" where
  "verdictReadingFrom v =
     bindE (jsonMember VERDICTS v ''verdict'') (\<lambda>verdict.
       case verdict of
         VerdictDetected \<Rightarrow> Inr Detected
       | VerdictSurvived \<Rightarrow> Inr Survived
       | VerdictInvalid \<Rightarrow> bindE (invalidReadingFrom v) (\<lambda>reason. Inr (InvalidExperiment reason))
       | VerdictUnclear \<Rightarrow> bindE (unclearReadingFrom v) (\<lambda>reason. Inr (UnclearExperiment reason)))"

text \<open>What \<^verbatim>\<open>JSON.stringify\<close> is given of a reading's members.\<close>

definition unclearRunText :: "UnclearRun \<Rightarrow> string" where
  "unclearRunText u = nameIn RUN_UNCLEAR_REASONS u"

definition confirmingReadingJson :: "RunReading \<Rightarrow> json" where
  "confirmingReadingJson r = (case r of
     RSurvived \<Rightarrow> JObj [(''verdict'', JStr ''survived'')]
   | RInvalid reason \<Rightarrow> JObj ([(''verdict'', JStr ''invalid-experiment''), (''reason'', JStr (invalidReasonText reason))] @
       given ''detail'' (\<lambda>d. d) (invalidDetail reason))
   | RUnclear u \<Rightarrow> JObj [(''verdict'', JStr ''unclear''), (''reason'', JStr (unclearRunText u))]
   | RWouldDetect \<Rightarrow> JObj [])"

fun reasonOf :: "Judgement \<Rightarrow> string option" where
  "reasonOf (InvalidExperiment reason) = Some (invalidReasonText reason)"
| "reasonOf (UnclearExperiment (UnclearOfRun u)) = Some (unclearRunText u)"
| "reasonOf (UnclearExperiment (ConfirmingRunDiffered _)) = Some ''confirming-run-differed''"
| "reasonOf (UnclearExperiment NextRunUnclean) = Some ''next-run-unclean''"
| "reasonOf (UnclearExperiment JobUnclean) = Some ''job-unclean''"
| "reasonOf _ = None"

fun detailOf :: "Judgement \<Rightarrow> json option" where
  "detailOf (InvalidExperiment reason) = invalidDetail reason"
| "detailOf (UnclearExperiment (ConfirmingRunDiffered r)) = Some (JObj [(''confirming'', confirmingReadingJson r)])"
| "detailOf _ = None"

definition verdictText :: "Judgement \<Rightarrow> string" where
  "verdictText j = (case readingVerdict j of Some verdict \<Rightarrow> nameIn VERDICTS verdict | None \<Rightarrow> [])"

definition readingMembers :: "Judgement \<Rightarrow> (string \<times> json) list" where
  "readingMembers j = (''verdict'', JStr (verdictText j)) # given ''reason'' JStr (reasonOf j) @ given ''detail'' (\<lambda>d. d) (detailOf j)"

text \<open>The one rebuild, on the way in and on the way out.\<close>

definition storedJudgement :: "json \<Rightarrow> StoreError + StoredJudgement" where
  "storedJudgement v =
     bindE (held storedFacts v ''facts'') (\<lambda>facts.
     bindE (verdictReadingFrom v) (\<lambda>reading.
       if reading \<noteq> judge facts
       then Inl (unreadable ''judgement that its facts do not give'' (JObj (readingMembers reading)))
       else Inr (reading, facts)))"

record JudgementColumns =
  jc_verdict :: string
  jc_reason :: "string option"
  jc_detail :: "string option"
  jc_facts :: string

definition judgementColumns :: "json \<Rightarrow> StoreError + JudgementColumns" where
  "judgementColumns v =
     bindE (storedJudgement v) (\<lambda>(reading, facts).
       Inr \<lparr>jc_verdict = verdictText reading, jc_reason = reasonOf reading,
            jc_detail = map_option stringify (detailOf reading), jc_facts = stringify (experimentFactsJson facts)\<rparr>)"

definition judgementFromColumns :: "Row \<Rightarrow> StoreError + StoredJudgement" where
  "judgementFromColumns row =
     bindE (rowText row ''verdict'') (\<lambda>verdict.
     bindE (optionalText row ''reason'') (\<lambda>reason.
     bindE (bindE (column row ''detail'') (\<lambda>v. if v = SqlNull then Inr None
       else bindE (rowJson row ''detail'') (\<lambda>d. Inr (Some d)))) (\<lambda>detail.
     bindE (rowJson row ''facts'') (\<lambda>facts.
       storedJudgement (JObj ((''verdict'', JStr verdict) # given ''reason'' JStr reason @ given ''detail'' (\<lambda>d. d) detail @
         [(''facts'', facts)]))))))"

section \<open>Reading the rows\<close>

definition storedEvidence :: "Row \<Rightarrow> StoreError + StoredEvidence" where
  "storedEvidence row =
     bindE (rowInteger row ''falsifier_version'') (\<lambda>falsifierVersion.
     bindE (rowText row ''project_identity'') (\<lambda>project.
     bindE (rowText row ''worktree_identity'') (\<lambda>worktree.
     bindE (rowText row ''fingerprint_digest'') (\<lambda>fingerprint.
     bindE (rowText row ''evidence_id'') (\<lambda>evidenceId.
     bindE (rowText row ''defect_id'') (\<lambda>defectId.
     bindE (rowText row ''definition_digest'') (\<lambda>definitionDigest.
     bindE (rowText row ''mutation_file_digest'') (\<lambda>mutationFileDigest.
     bindE (rowText row ''vitest_version'') (\<lambda>vitestVersion.
     bindE (rowInteger row ''adapter_version'') (\<lambda>adapterVersion.
       let bound = (\<lambda>verdict judgement. \<lparr>sc_projectIdentity = project, sc_worktreeIdentity = worktree,
             eb_inputFingerprintDigest = fingerprint, se_evidenceId = evidenceId, se_defectId = defectId,
             se_definitionDigest = definitionDigest, se_mutationFileDigest = mutationFileDigest,
             se_vitestVersion = vitestVersion, se_falsifierVersion = falsifierVersion, se_adapterVersion = adapterVersion,
             se_verdict = verdict, se_judgement = judgement\<rparr>)
       in if falsifierVersion \<noteq> FALSIFIER_VERSION then
            bindE (rowText row ''verdict'') (\<lambda>verdict.
            bindE (memberOf VERDICTS verdict ''defect_evidence.verdict'') (\<lambda>v. Inr (bound v None)))
          else bindE (judgementFromColumns row) (\<lambda>judgement.
            case readingVerdict (fst judgement) of
              Some verdict \<Rightarrow> Inr (bound verdict (Some judgement))
            | None \<Rightarrow> Inl (StoreFailure ''no verdict''))))))))))))"

fun evidenceFrom :: "Row list \<Rightarrow> LatestEvidence \<Rightarrow> StoreError + LatestEvidence" where
  "evidenceFrom [] latest = Inr latest"
| "evidenceFrom (row # rows) latest =
     (case storedEvidence row of
        Inr evidence \<Rightarrow> evidenceFrom rows (latest\<lparr>le_evidence := le_evidence latest @ [evidence]\<rparr>)
      | Inl (UnreadableRecordError reason) \<Rightarrow>
          bindE (rowText row ''defect_id'') (\<lambda>defectId.
            evidenceFrom rows (latest\<lparr>le_evidenceRefusals := le_evidenceRefusals latest @ [(defectId, reason)]\<rparr>))
      | Inl error \<Rightarrow> Inl error)"

definition selectEvidence :: "StoreScope \<Rightarrow> EvidenceTables \<Rightarrow> StoreError + LatestEvidence" where
  "selectEvidence scope db =
     evidenceFrom (sort_key (\<lambda>row. textOf row ''defect_id'') (filter (inScope scope) (tb_evidence db)))
       \<lparr>le_evidence = [], le_evidenceRefusals = []\<rparr>"

section \<open>Checking a reply\<close>

definition isNonEmptyText :: "json option \<Rightarrow> bool" where
  "isNonEmptyText v = (case v of Some (JStr s) \<Rightarrow> s \<noteq> [] | _ \<Rightarrow> False)"

definition textIn :: "json option \<Rightarrow> string" where
  "textIn v = (case v of Some (JStr s) \<Rightarrow> s | _ \<Rightarrow> [])"

text \<open>\<^verbatim>\<open>JSON.stringify\<close> of a value that may be undefined, in a template.\<close>

definition shown :: "json option \<Rightarrow> string" where
  "shown v = (case v of None \<Rightarrow> ''undefined'' | Some u \<Rightarrow> stringify u)"

record RanReply =
  rp_vitestVersion :: string
  rp_falsifierVersion :: nat
  rp_judgements :: "json list"
  rp_experiments :: "json list"

definition ranReply :: "json \<Rightarrow> StoreError + RanReply" where
  "ranReply job =
     (if jsonField job ''status'' \<noteq> Some (JStr ''ran'') then
        Inl (StoreFailure (''The falsification reply must read ran for its evidence to be stored; got status '' @
          shown (jsonField job ''status'')))
      else if \<not> isNonEmptyText (jsonField job ''vitestVersion'') then
        Inl (StoreFailure (''The falsification reply carries no Vitest version; got '' @ shown (jsonField job ''vitestVersion'')))
      else case jsonField job ''falsifierVersion'' of
          Some (JNum version) \<Rightarrow>
            (case (jsonField job ''judgements'', jsonField job ''experiments'') of
               (Some (JArr judgements), Some (JArr experiments)) \<Rightarrow>
                 Inr \<lparr>rp_vitestVersion = textIn (jsonField job ''vitestVersion''), rp_falsifierVersion = version,
                      rp_judgements = judgements, rp_experiments = experiments\<rparr>
             | _ \<Rightarrow> Inl (StoreFailure (''The falsification reply carries no list of judgements, or no list of '' @
                 ''experiment records'')))
        | version \<Rightarrow> Inl (StoreFailure (''The falsification reply carries no falsifier version; got '' @ shown version)))"

definition namedMember :: "string \<Rightarrow> nat \<Rightarrow> json \<Rightarrow> StoreError + string \<times> json" where
  "namedMember kind i entry =
     (if isRecord entry \<and> isNonEmptyText (jsonField entry ''defectId'')
      then Inr (textIn (jsonField entry ''defectId''), entry)
      else Inl (StoreFailure (''The falsification reply's '' @ kind @ '' '' @ show_nat i @
        '' is not an object naming a defect id, so none of the reply was stored'')))"

fun namedMembers :: "string \<Rightarrow> nat \<Rightarrow> json list \<Rightarrow> StoreError + (string \<times> json) list" where
  "namedMembers kind i [] = Inr []"
| "namedMembers kind i (entry # entries) =
     bindE (namedMember kind i entry) (\<lambda>named. bindE (namedMembers kind (Suc i) entries) (\<lambda>rest. Inr (named # rest)))"

fun refuseRepeatedJudgements :: "(string \<times> json) list \<Rightarrow> string list \<Rightarrow> StoreError + unit" where
  "refuseRepeatedJudgements [] seen = Inr ()"
| "refuseRepeatedJudgements ((defectId, _) # rest) seen =
     (if defectId \<in> set seen then
        Inl (StoreFailure (''More than one judgement of the falsification reply names defect '' @ defectId @
          '', so none of the reply was stored''))
      else refuseRepeatedJudgements rest (defectId # seen))"

definition hasVerdict :: "string \<times> json \<Rightarrow> bool" where
  "hasVerdict entry = (jsonField (snd entry) ''verdict'' \<noteq> None)"

definition recordsByDefectId :: "(string \<times> json) list \<Rightarrow> string \<Rightarrow> json list" where
  "recordsByDefectId experiments defectId = map snd (filter (\<lambda>(own, _). own = defectId) experiments)"

definition definitionDigestIn :: "(string, string) jsmap \<Rightarrow> string \<Rightarrow> StoreError + string" where
  "definitionDigestIn digests defectId =
     (let digest = map_option JStr (map_of digests defectId) in
      if isNonEmptyText digest then Inr (textIn digest)
      else Inl (StoreFailure (''No definition digest was handed in for defect '' @ defectId @ ''; got '' @ shown digest)))"

definition mutationFileDigest :: "json list \<Rightarrow> string \<Rightarrow> StoreError + string" where
  "mutationFileDigest records defectId =
     (case records of
        [record'] \<Rightarrow>
          (let digest = jsonField record' ''mutationFileDigest'' in
           if isNonEmptyText digest then Inr (textIn digest)
           else Inl (StoreFailure (''The experiment record for defect '' @ defectId @
             '' carries no mutation file digest; got '' @ shown digest)))
      | _ \<Rightarrow> Inl (StoreFailure (''The verdict for defect '' @ defectId @
          '' must name one experiment record of the falsification reply; it names '' @ show_nat (length records))))"

definition storableJudgement :: "json \<Rightarrow> string \<Rightarrow> StoreError + JudgementColumns" where
  "storableJudgement judgement defectId =
     (case judgementColumns judgement of
        Inr columns \<Rightarrow> Inr columns
      | Inl _ \<Rightarrow> Inl (StoreFailure (''The falsification reply's judgement for defect '' @ defectId @
          '' cannot be stored: it is not one the store could read back, as the cause says of the row it would make'')))"

record EvidenceRow =
  er_defect :: string
  er_definitionDigest :: string
  er_fileDigest :: string
  er_judgement :: JudgementColumns

definition evidenceRows :: "RanReply \<Rightarrow> (string, string) jsmap \<Rightarrow> StoreError + EvidenceRow list" where
  "evidenceRows reply digests =
     bindE (namedMembers ''judgement'' 0 (rp_judgements reply)) (\<lambda>judgements.
     bindE (refuseRepeatedJudgements judgements []) (\<lambda>_.
     bindE (namedMembers ''experiment record'' 0 (rp_experiments reply)) (\<lambda>experiments.
       mapE (\<lambda>(defectId, judgement).
         bindE (definitionDigestIn digests defectId) (\<lambda>digest.
         bindE (mutationFileDigest (recordsByDefectId experiments defectId) defectId) (\<lambda>fileDigest.
         bindE (storableJudgement judgement defectId) (\<lambda>columns.
           Inr \<lparr>er_defect = defectId, er_definitionDigest = digest, er_fileDigest = fileDigest, er_judgement = columns\<rparr>))))
         (filter hasVerdict judgements))))"

section \<open>Writing\<close>

definition requireEvidenceBindings :: "EvidenceBindings \<Rightarrow> StoreError + unit" where
  "requireEvidenceBindings bindings =
     bindE (requireScope bindings) (\<lambda>_.
     bindE (fingerprintColumns (FingerprintDigest (eb_inputFingerprintDigest bindings))) (\<lambda>_. Inr ()))"

definition insertedEvidence :: "EvidenceBindings \<Rightarrow> string \<Rightarrow> RanReply \<Rightarrow> EvidenceRow \<Rightarrow> Row" where
  "insertedEvidence bindings evidenceId reply row =
     zip (map fst DEFECT_EVIDENCE)
       [SqlText (sc_projectIdentity bindings), SqlText (sc_worktreeIdentity bindings), SqlText (er_defect row),
        SqlText evidenceId, SqlText (er_definitionDigest row), SqlText (er_fileDigest row),
        SqlText (eb_inputFingerprintDigest bindings), SqlText (rp_vitestVersion reply), SqlInt (rp_falsifierVersion reply),
        SqlInt VITEST_ADAPTER_VERSION, SqlText (jc_verdict (er_judgement row)), textOrNull (jc_reason (er_judgement row)),
        textOrNull (jc_detail (er_judgement row)), SqlText (jc_facts (er_judgement row))]"

definition ofDefect :: "StoreScope \<Rightarrow> string \<Rightarrow> Row \<Rightarrow> bool" where
  "ofDefect scope defectId row = (inScope scope row \<and> textOf row ''defect_id'' = defectId)"

definition readEvidenceBack :: "Row option \<Rightarrow> string \<Rightarrow> StoreError + StoredEvidence" where
  "readEvidenceBack row defectId =
     (case row of
        None \<Rightarrow> Inl (StoreFailure (''The store could not read back the evidence for defect '' @ defectId @ '' it just wrote''))
      | Some r \<Rightarrow> storedEvidence r)"

definition writeEvidenceRow :: "EvidenceBindings \<Rightarrow> string \<Rightarrow> RanReply \<Rightarrow> EvidenceRow \<Rightarrow> EvidenceTables \<Rightarrow>
    StoreError + StoredEvidence \<times> EvidenceTables" where
  "writeEvidenceRow bindings evidenceId reply row db =
     (let scope = StoreScope.truncate bindings; mine = ofDefect scope (er_defect row) in
      bindE (evidenceStatement (db\<lparr>tb_evidence := filter (\<lambda>r. \<not> mine r) (tb_evidence db)\<rparr>)) (\<lambda>db1.
      bindE (evidenceStatement (db1\<lparr>tb_evidence := tb_evidence db1 @ [insertedEvidence bindings evidenceId reply row]\<rparr>)) (\<lambda>db2.
      bindE (readEvidenceBack (find mine (tb_evidence db2)) (er_defect row)) (\<lambda>evidence. Inr (evidence, db2)))))"

fun writeEvidenceRows :: "EvidenceBindings \<Rightarrow> string \<Rightarrow> RanReply \<Rightarrow> EvidenceRow list \<Rightarrow> EvidenceTables \<Rightarrow>
    StoreError + StoredEvidence list \<times> EvidenceTables" where
  "writeEvidenceRows bindings evidenceId reply [] db = Inr ([], db)"
| "writeEvidenceRows bindings evidenceId reply (row # rows) db =
     bindE (writeEvidenceRow bindings evidenceId reply row db) (\<lambda>(evidence, db1).
     bindE (writeEvidenceRows bindings evidenceId reply rows db1) (\<lambda>(rest, db2). Inr (evidence # rest, db2)))"

definition writeEvidence :: "EvidenceBindings \<Rightarrow> string \<Rightarrow> json \<Rightarrow> (string, string) jsmap \<Rightarrow> EvidenceTables \<Rightarrow>
    (StoreError + StoredEvidence list) \<times> EvidenceTables" where
  "writeEvidence bindings evidenceId job digests db =
     (case bindE (requireEvidenceBindings bindings) (\<lambda>_.
             bindE (ranReply job) (\<lambda>reply. bindE (evidenceRows reply digests) (\<lambda>rows. Inr (reply, rows)))) of
        Inl e \<Rightarrow> (Inl e, db)
      | Inr (reply, rows) \<Rightarrow>
          (if rows = [] then (Inr [], db)
           else inRecordWrite db (writeEvidenceRows bindings evidenceId reply rows)))"

section \<open>The read that is kept\<close>

text \<open>
  \<^verbatim>\<open>KeptEvidence\<close>: the data version is SQLite's, which moves when another connection commits. A store as this
  connection sees it is its rows with that version.
\<close>

record KeptRead = StoreScope +
  kr_dataVersion :: nat
  kr_latest :: LatestEvidence

definition stillAnswers :: "KeptRead \<Rightarrow> StoreScope \<Rightarrow> nat \<Rightarrow> bool" where
  "stillAnswers kept scope dataVersion =
     (kr_dataVersion kept = dataVersion \<and> sc_projectIdentity kept = sc_projectIdentity scope \<and>
      sc_worktreeIdentity kept = sc_worktreeIdentity scope)"

definition readKept :: "StoreScope \<Rightarrow> nat \<Rightarrow> EvidenceTables \<Rightarrow> KeptRead option \<Rightarrow>
    (StoreError + LatestEvidence) \<times> KeptRead option" where
  "readKept scope dataVersion db kept =
     (if (case kept of Some k \<Rightarrow> stillAnswers k scope dataVersion | None \<Rightarrow> False) then (Inr (kr_latest (the kept)), kept)
      else case selectEvidence scope db of
          Inl e \<Rightarrow> (Inl e, kept)
        | Inr latest \<Rightarrow> (Inr latest, Some (StoreScope.extend scope \<lparr>kr_dataVersion = dataVersion, kr_latest = latest\<rparr>)))"

definition writeKept :: "EvidenceBindings \<Rightarrow> string \<Rightarrow> json \<Rightarrow> (string, string) jsmap \<Rightarrow> EvidenceTables \<Rightarrow>
    KeptRead option \<Rightarrow> (StoreError + StoredEvidence list) \<times> EvidenceTables \<times> KeptRead option" where
  "writeKept bindings evidenceId job digests db kept =
     (case writeEvidence bindings evidenceId job digests db of (result, db') \<Rightarrow> (result, db', None))"

section \<open>A reading is read back\<close>

fun readingOk :: "RunReading \<Rightarrow> bool" where
  "readingOk (RInvalid reason) = (invalidOk reason \<and> isRunInvalid reason)"
| "readingOk RWouldDetect = False"
| "readingOk _ = True"

fun judgementOk :: "Judgement \<Rightarrow> bool" where
  "judgementOk (InvalidExperiment reason) = invalidOk reason"
| "judgementOk (UnclearExperiment (ConfirmingRunDiffered reading)) = readingOk reading"
| "judgementOk _ = True"

lemma nameIn_verdict: "memberOf VERDICTS (nameIn VERDICTS v) key = Inr v"
  by (cases v) (simp_all add: memberOf_def VERDICTS_def CONFIRMING_VERDICTS_def)

lemma nameIn_unclearRun: "memberOf RUN_UNCLEAR_REASONS (nameIn RUN_UNCLEAR_REASONS u) key = Inr u"
  by (cases u) (simp_all add: memberOf_def RUN_UNCLEAR_REASONS_def)

lemma confirmingReading_reads: "readingOk r \<Longrightarrow> confirmingReadingFrom (confirmingReadingJson r) = Inr r"
proof (cases r)
  case (RInvalid reason)
  then show "readingOk r \<Longrightarrow> confirmingReadingFrom (confirmingReadingJson r) = Inr r"
    using invalidRunReading_reads [of reason "[(''verdict'', JStr ''invalid-experiment''), (''reason'', JStr (invalidReasonText reason))] @
       given ''detail'' (\<lambda>d. d) (invalidDetail reason)"]
    by (simp add: confirmingReadingFrom_def confirmingReadingJson_def jsonMember_def jsonText_def jsonField_JObj memberOf_def
        CONFIRMING_VERDICTS_def map_of_given option.map_ident)
qed (simp_all add: confirmingReadingFrom_def confirmingReadingJson_def jsonMember_def jsonText_def jsonField_JObj memberOf_def
    CONFIRMING_VERDICTS_def unclearRunText_def nameIn_unclearRun [unfolded memberOf_def])

lemma isRecord_confirming [simp]: "isRecord (confirmingReadingJson r)"
  by (simp add: confirmingReadingJson_def split: RunReading.split)

text \<open>Members that hold a reading: its verdict, its reason and its detail, each absent when it has none.\<close>

definition holdsReading :: "(string \<times> json) list \<Rightarrow> Judgement \<Rightarrow> bool" where
  "holdsReading members j \<longleftrightarrow> map_of members ''verdict'' = Some (JStr (verdictText j)) \<and>
     map_of members ''reason'' = map_option JStr (reasonOf j) \<and> map_of members ''detail'' = detailOf j"

lemma verdictReading_reads:
  assumes "judgementOk j" "readingVerdict j = Some verdict" "holdsReading members j"
  shows "verdictReadingFrom (JObj members) = Inr j"
proof -
  have m: "map_of members ''verdict'' = Some (JStr (nameIn VERDICTS verdict))"
    "map_of members ''reason'' = map_option JStr (reasonOf j)" "map_of members ''detail'' = detailOf j"
    using assms by (simp_all add: holdsReading_def verdictText_def)
  have verdict: "jsonMember VERDICTS (JObj members) ''verdict'' = Inr verdict"
    by (simp add: jsonMember_def jsonText_reads [OF m(1)] nameIn_verdict)
  show ?thesis
  proof (cases j)
    case (InvalidExperiment reason)
    then show ?thesis using assms(1,2) verdict invalidReading_reads [of reason members] m(2,3)
      by (simp add: verdictReadingFrom_def)
  next
    case (UnclearExperiment u)
    have reason: "jsonMember (named UNCLEAR_REASONS) (JObj members) ''reason'' = Inr s"
      if "reasonOf j = Some s" "s \<in> set UNCLEAR_REASONS" for s
      using that m(2) by (simp add: jsonMember_def jsonText_reads memberOf_named)
    have "unclearReadingFrom (JObj members) = Inr u"
    proof (cases u)
      case (UnclearOfRun x)
      then show ?thesis using reason [of "unclearRunText x"] UnclearExperiment
        by (cases x) (simp_all add: unclearReadingFrom_def unclearRunText_def RUN_UNCLEAR_REASONS_def UNCLEAR_REASONS_def)
    next
      case (ConfirmingRunDiffered r)
      then show ?thesis using reason [of "''confirming-run-differed''"] UnclearExperiment assms(1) m(3)
        by (simp add: unclearReadingFrom_def UNCLEAR_REASONS_def held_def jsonRecord_def jsonField_JObj confirmingReading_reads)
    next
      case NextRunUnclean
      then show ?thesis using reason [of "''next-run-unclean''"] UnclearExperiment
        by (simp add: unclearReadingFrom_def UNCLEAR_REASONS_def)
    next
      case JobUnclean
      then show ?thesis using reason [of "''job-unclean''"] UnclearExperiment
        by (simp add: unclearReadingFrom_def UNCLEAR_REASONS_def)
    qed
    then show ?thesis using assms(2) verdict UnclearExperiment by (simp add: verdictReadingFrom_def)
  qed (use assms(2) verdict in \<open>simp_all add: verdictReadingFrom_def\<close>)
qed

section \<open>Every judgement of readable facts can be stored\<close>

lemma isRunInvalid_simps [simp]:
  "isRunInvalid InvRunNotClean" "isRunInvalid InvModuleFailed" "isRunInvalid (InvSuiteError s)" "isRunInvalid (InvTestNotRun t)"
  "isRunInvalid (InvHookNotPassed h st)" "isRunInvalid (InvTestRepeated n)" "isRunInvalid (InvSiteNotExecuted d)"
  "isRunInvalid (InvReachUnknown c)"
  by (simp_all add: isRunInvalid_def invalidReasonText_def RUN_INVALID_REASONS_def)

lemma firstFailedHook_ok: "hooksOk hooks \<Longrightarrow> pred_option readingOk (firstFailedHook hooks)"
  by (induction hooks rule: firstFailedHook.induct) (auto simp: hooksOk_def)

lemma readHooks_ok: "pred_option hooksOk hooks \<Longrightarrow> pred_option readingOk (readHooks hooks)"
  by (auto simp: readHooks_def requiredHook_def HOOK_NAMES_def firstFailedHook_ok split: option.split)

lemma readModule_ok: "pred_option readingOk (readModule module)"
  by (auto simp: readModule_def split: option.split ModuleFacts.split list.split)

lemma readRest_ok: "pred_option readingOk (readRepeats test)" "pred_option readingOk (readReach r loads)"
  by (auto simp: readRepeats_def readReach_def split: option.split Reach.split)

lemma or_else_ok: "pred_option P a \<Longrightarrow> pred_option P b \<Longrightarrow> pred_option P (or_else a b)"
  by (cases a) simp_all

lemma readRun_ok:
  assumes "runOk run" "readRun run \<noteq> RWouldDetect"
  shows "readingOk (readRun run)"
proof (cases "endedCleanly (rf_ending run)")
  case False
  then show ?thesis by (simp add: readRun_def)
next
  case clean: True
  show ?thesis
  proof (cases "readModule (rf_module run)")
    case (Some trouble)
    then show ?thesis using clean readModule_ok [of "rf_module run"] by (simp add: readRun_def)
  next
    case module: None
    show ?thesis
    proof (cases "rf_test run")
      case None
      then show ?thesis using clean module by (simp add: readRun_def)
    next
      case (Some test)
      let ?trouble = "or_else (readHooks (tf_hooks test)) (or_else (readRepeats test) (readReach (tf_reach test) (xf_mutation run)))"
      have "pred_option readingOk ?trouble"
        using assms(1) Some by (intro or_else_ok readHooks_ok readRest_ok) (simp add: runOk_def testOk_def)
      then show ?thesis using clean module Some assms(2)
        by (cases ?trouble; cases "tf_state test") (auto simp: readRun_def readBody_def split: if_splits)
    qed
  qed
qed

lemma baselineNotPassed_ok: "pred_option runOk baseline \<Longrightarrow> judgementOk (baselineNotPassed baseline)"
proof (cases baseline)
  case (Some run)
  then show "pred_option runOk baseline \<Longrightarrow> judgementOk (baselineNotPassed baseline)"
    by (cases "rf_test run") (auto simp: baselineNotPassed_def runOk_def testOk_def)
qed (simp add: baselineNotPassed_def)

lemma settled_ok: "readingOk r \<Longrightarrow> judgementOk (settledJudgement r)"
  by (cases r) auto

lemma judgeRuns_ok:
  assumes "runOk run" "pred_option runOk confirming"
  shows "judgementOk (judgeRuns run confirming nextRun job)"
proof (cases "readRun run = RWouldDetect")
  case False
  then show ?thesis using readRun_ok [OF assms(1)] by (simp add: judgeRuns_def settled_ok)
next
  case True
  then show ?thesis using assms(2) readRun_ok by (auto simp: judgeRuns_def Let_def split: option.split)
qed

lemma baselineTrouble_ok: "runOk baseline \<Longrightarrow> pred_option judgementOk (baselineTrouble baseline restored)"
  using baselineNotPassed_ok [of "Some baseline"] by (simp add: baselineTrouble_def)

lemma judge_ok:
  assumes "evidenceFactsOk facts"
  shows "judgementOk (judge facts)"
proof (cases "ef_body facts")
  case (BodyNotRun notRun)
  then show ?thesis using assms baselineNotPassed_ok by (cases notRun) (simp_all add: judge_def judgeNotRun_def evidenceFactsOk_def)
next
  case (BodyRan run confirming nextRun)
  have ok: "runOk run" "pred_option confirmingOk confirming" "pred_option runOk (sf_baseline facts)"
    using assms BodyRan by (simp_all add: evidenceFactsOk_def)
  have judged: "judgementOk (case sf_restoredBaseline facts of
      Some (Restored restored) \<Rightarrow> (case baselineTrouble baseline restored of
          Some judgement \<Rightarrow> judgement | None \<Rightarrow> judgeRuns run confirmed nextRun job)
    | _ \<Rightarrow> NoVerdict NvRestoredBaselineUnrecorded)"
    if "runOk baseline" "pred_option runOk confirmed" for baseline confirmed job
  proof -
    have "judgementOk j" if "baselineTrouble baseline r = Some j" for r j
      using baselineTrouble_ok [OF \<open>runOk baseline\<close>, of r] that by simp
    then show ?thesis using judgeRuns_ok [OF ok(1) that(2)] by (auto split: option.split RestoredBaselineFacts.split)
  qed
  show ?thesis using ok judged
    by (auto simp: judge_def BodyRan judgeRan_def SharedFacts.truncate_def Let_def split: option.split ConfirmingFacts.split)
qed

lemma judge_stored:
  assumes "evidenceFactsOk facts" "readingVerdict (judge facts) = Some verdict" "holdsReading members (judge facts)"
    and "map_of members ''facts'' = Some (experimentFactsJson facts)"
  shows "storedJudgement (JObj members) = Inr (judge facts, facts)"
  using verdictReading_reads [OF judge_ok [OF assms(1)] assms(2,3)] held_reads [OF assms(4), of storedFacts] storedFacts_reads [OF assms(1)]
  by (simp add: storedJudgement_def)

text \<open>And no value gives a judgement its facts do not.\<close>

lemma storedJudgement_judged: "storedJudgement v = Inr (j, facts) \<Longrightarrow> j = judge facts \<and> evidenceFactsOk facts"
  by (auto simp: storedJudgement_def bindE_Inr split: if_splits dest!: held_Inr storedFacts_ok)

end
