(* ===== verification/EvidenceRoundTrip.thy ===== *)
theory EvidenceRoundTrip
  imports DefectEvidence StoreRoundTrip "HOL-Library.Multiset"
begin

text \<open>
  What the evidence store promises: every judgement it gives out is the one the judge gives the facts beside it, no row
  of a worktree is lost between the evidence and the refusals, and the judgements of a reply are read back as they were
  given, each defect's in place of its last, no other defect's touched.
\<close>

section \<open>What a read gives out\<close>

definition judgedEvidence :: "StoredEvidence \<Rightarrow> bool" where
  "judgedEvidence e = (case se_judgement e of
     None \<Rightarrow> se_falsifierVersion e \<noteq> FALSIFIER_VERSION
   | Some (judgement, facts) \<Rightarrow> se_falsifierVersion e = FALSIFIER_VERSION \<and> judgement = judge facts \<and>
       readingVerdict judgement = Some (se_verdict e))"

lemma bindE_InrE:
  assumes "bindE m f = Inr y"
  obtains x where "m = Inr x" "f x = Inr y"
  using assms by (auto simp: bindE_Inr)

lemma judgementFromColumns_judged: "judgementFromColumns row = Inr (j, facts) \<Longrightarrow> j = judge facts"
  by (auto simp: judgementFromColumns_def bindE_Inr dest: storedJudgement_judged)

lemma rowText_textOf: "rowText row name = Inr s \<Longrightarrow> s = textOf row name"
  by (auto simp: rowText_def column_def bindE_Inr textOf_def split: option.splits SqlValue.splits)

lemma storedEvidence_judged: "storedEvidence row = Inr e \<Longrightarrow> judgedEvidence e \<and> se_defectId e = textOf row ''defect_id''"
  unfolding storedEvidence_def Let_def
proof (elim bindE_InrE)
  fix version project worktree fingerprint evidenceId defectId definitionDigest fileDigest vitestVersion adapterVersion
  let ?bound = "\<lambda>verdict judgement. \<lparr>sc_projectIdentity = project, sc_worktreeIdentity = worktree,
    eb_inputFingerprintDigest = fingerprint, se_evidenceId = evidenceId, se_defectId = defectId,
    se_definitionDigest = definitionDigest, se_mutationFileDigest = fileDigest, se_vitestVersion = vitestVersion,
    se_falsifierVersion = version, se_adapterVersion = adapterVersion, se_verdict = verdict, se_judgement = judgement\<rparr>"
  assume defect: "rowText row ''defect_id'' = Inr defectId"
  assume read: "(if version \<noteq> FALSIFIER_VERSION then
       bindE (rowText row ''verdict'') (\<lambda>verdict.
       bindE (memberOf VERDICTS verdict ''defect_evidence.verdict'') (\<lambda>v. Inr (?bound v None)))
     else bindE (judgementFromColumns row) (\<lambda>judgement. case readingVerdict (fst judgement) of
         Some verdict \<Rightarrow> Inr (?bound verdict (Some judgement)) | None \<Rightarrow> Inl (StoreFailure ''no verdict''))) = Inr e"
  have "\<exists>verdict judgement. e = ?bound verdict judgement \<and> judgedEvidence e"
  proof (cases "version = FALSIFIER_VERSION")
    case True
    then obtain j facts verdict where "judgementFromColumns row = Inr (j, facts)" "readingVerdict j = Some verdict"
      "e = ?bound verdict (Some (j, facts))"
      using read by (auto simp: bindE_Inr split: option.splits)
    then show ?thesis using True judgementFromColumns_judged by (simp add: judgedEvidence_def)
  next
    case False
    then show ?thesis using read by (auto simp: bindE_Inr judgedEvidence_def)
  qed
  then show "judgedEvidence e \<and> se_defectId e = textOf row ''defect_id''" using rowText_textOf [OF defect] by auto
qed

lemma evidenceFrom_all:
  assumes "evidenceFrom rows latest = Inr latest'" "list_all judgedEvidence (le_evidence latest)"
  shows "list_all judgedEvidence (le_evidence latest') \<and>
    mset (map se_defectId (le_evidence latest')) + mset (map fst (le_evidenceRefusals latest')) =
    mset (map se_defectId (le_evidence latest)) + mset (map fst (le_evidenceRefusals latest)) +
      mset (map (\<lambda>row. textOf row ''defect_id'') rows)"
  using assms
proof (induction rows latest rule: evidenceFrom.induct)
  case (2 row rows latest)
  then show ?case
    by (auto simp: bindE_Inr dest: storedEvidence_judged rowText_textOf split: sum.splits StoreError.splits)
qed simp

lemma selectEvidence_all:
  assumes "selectEvidence scope db = Inr latest"
  shows "list_all judgedEvidence (le_evidence latest) \<and>
    mset (map se_defectId (le_evidence latest)) + mset (map fst (le_evidenceRefusals latest)) =
      image_mset (\<lambda>row. textOf row ''defect_id'') (filter_mset (inScope scope) (mset (tb_evidence db)))"
  using evidenceFrom_all [OF assms [unfolded selectEvidence_def]] by simp

section \<open>A judgement, stored\<close>

record Judged =
  jd_defect :: string
  jd_digest :: string
  jd_fileDigest :: string
  jd_facts :: "ProbeSite ExperimentFacts"

text \<open>What is sent of one: its judgement's members with the facts, and the experiment's record.\<close>

definition judgementMembers :: "Judged \<Rightarrow> (string \<times> json) list" where
  "judgementMembers j =
     (''defectId'', JStr (jd_defect j)) # (if readingVerdict (judge (jd_facts j)) = None then [] else readingMembers (judge (jd_facts j))) @
     [(''facts'', experimentFactsJson (jd_facts j))]"

definition recordMembers :: "Judged \<Rightarrow> (string \<times> json) list" where
  "recordMembers j = [(''defectId'', JStr (jd_defect j)), (''mutationFileDigest'', JStr (jd_fileDigest j))]"

definition replyOf :: "string \<Rightarrow> Judged list \<Rightarrow> json" where
  "replyOf vitestVersion js =
     JObj [(''status'', JStr ''ran''), (''vitestVersion'', JStr vitestVersion), (''falsifierVersion'', JNum FALSIFIER_VERSION),
       (''judgements'', JArr (map (\<lambda>j. JObj (judgementMembers j)) js)),
       (''experiments'', JArr (map (\<lambda>j. JObj (recordMembers j)) js))]"

definition judgedColumns :: "ProbeSite ExperimentFacts \<Rightarrow> JudgementColumns" where
  "judgedColumns facts =
     \<lparr>jc_verdict = verdictText (judge facts), jc_reason = reasonOf (judge facts),
      jc_detail = map_option stringify (detailOf (judge facts)), jc_facts = stringify (experimentFactsJson facts)\<rparr>"

definition judgedRow :: "Judged \<Rightarrow> EvidenceRow" where
  "judgedRow j = \<lparr>er_defect = jd_defect j, er_definitionDigest = jd_digest j, er_fileDigest = jd_fileDigest j,
     er_judgement = judgedColumns (jd_facts j)\<rparr>"

definition evidenceOf :: "EvidenceBindings \<Rightarrow> string \<Rightarrow> string \<Rightarrow> Judged \<Rightarrow> StoredEvidence" where
  "evidenceOf bindings evidenceId vitestVersion j =
     EvidenceBindings.extend bindings \<lparr>se_evidenceId = evidenceId, se_defectId = jd_defect j,
       se_definitionDigest = jd_digest j, se_mutationFileDigest = jd_fileDigest j, se_vitestVersion = vitestVersion,
       se_falsifierVersion = FALSIFIER_VERSION, se_adapterVersion = VITEST_ADAPTER_VERSION,
       se_verdict = the (readingVerdict (judge (jd_facts j))), se_judgement = Some (judge (jd_facts j), jd_facts j)\<rparr>"

definition hasJudgement :: "Judged \<Rightarrow> bool" where
  "hasJudgement j = (readingVerdict (judge (jd_facts j)) \<noteq> None)"

lemma map_of_readingMembers:
  "map_of (readingMembers r) key =
     (if key = ''verdict'' then Some (JStr (verdictText r))
      else if key = ''reason'' then map_option JStr (reasonOf r)
      else if key = ''detail'' then detailOf r
      else None)"
  by (auto simp: readingMembers_def map_of_given map_add_def option.map_ident split: option.split)

lemma judgement_held:
  assumes "hasJudgement j"
  shows "holdsReading (judgementMembers j) (judge (jd_facts j))"
    and "map_of (judgementMembers j) ''facts'' = Some (experimentFactsJson (jd_facts j))"
    and "map_of (judgementMembers j) ''defectId'' = Some (JStr (jd_defect j))"
    and "map_of (judgementMembers j) ''verdict'' \<noteq> None"
  using assms by (auto simp: hasJudgement_def judgementMembers_def holdsReading_def map_of_readingMembers map_add_def split: option.split)

lemma judgementColumns_judged:
  assumes "evidenceFactsOk (jd_facts j)" "hasJudgement j"
  shows "judgementColumns (JObj (judgementMembers j)) = Inr (judgedColumns (jd_facts j))"
proof -
  obtain verdict where "readingVerdict (judge (jd_facts j)) = Some verdict" using assms(2) by (auto simp: hasJudgement_def)
  then show ?thesis
    using judge_stored [OF assms(1) _ judgement_held(1) [OF assms(2)] judgement_held(2) [OF assms(2)]]
    by (simp add: judgementColumns_def judgedColumns_def)
qed

lemma wf_detailOf: "detailOf j = Some d \<Longrightarrow> json_wf d"
proof (induction j rule: detailOf.induct)
  case (2 r)
  then show ?case
    by (cases r) (auto simp: confirmingReadingJson_def given_def json_wfs dest: wf_invalidDetail split: option.split)
qed (auto dest: wf_invalidDetail)

section \<open>Its row, read back\<close>

lemma evidence_row_at:
  "map_of (insertedEvidence bindings evidenceId reply row) ''project_identity'' = Some (SqlText (sc_projectIdentity bindings))"
  "map_of (insertedEvidence bindings evidenceId reply row) ''worktree_identity'' = Some (SqlText (sc_worktreeIdentity bindings))"
  "map_of (insertedEvidence bindings evidenceId reply row) ''defect_id'' = Some (SqlText (er_defect row))"
  "map_of (insertedEvidence bindings evidenceId reply row) ''evidence_id'' = Some (SqlText evidenceId)"
  "map_of (insertedEvidence bindings evidenceId reply row) ''definition_digest'' = Some (SqlText (er_definitionDigest row))"
  "map_of (insertedEvidence bindings evidenceId reply row) ''mutation_file_digest'' = Some (SqlText (er_fileDigest row))"
  "map_of (insertedEvidence bindings evidenceId reply row) ''fingerprint_digest'' = Some (SqlText (eb_inputFingerprintDigest bindings))"
  "map_of (insertedEvidence bindings evidenceId reply row) ''vitest_version'' = Some (SqlText (rp_vitestVersion reply))"
  "map_of (insertedEvidence bindings evidenceId reply row) ''falsifier_version'' = Some (SqlInt (rp_falsifierVersion reply))"
  "map_of (insertedEvidence bindings evidenceId reply row) ''adapter_version'' = Some (SqlInt VITEST_ADAPTER_VERSION)"
  "map_of (insertedEvidence bindings evidenceId reply row) ''verdict'' = Some (SqlText (jc_verdict (er_judgement row)))"
  "map_of (insertedEvidence bindings evidenceId reply row) ''reason'' = Some (textOrNull (jc_reason (er_judgement row)))"
  "map_of (insertedEvidence bindings evidenceId reply row) ''detail'' = Some (textOrNull (jc_detail (er_judgement row)))"
  "map_of (insertedEvidence bindings evidenceId reply row) ''facts'' = Some (SqlText (jc_facts (er_judgement row)))"
  by (simp_all add: insertedEvidence_def DEFECT_EVIDENCE_def)

lemma judgedColumns_read:
  assumes "evidenceFactsOk facts" "readingVerdict (judge facts) = Some verdict"
    and row: "map_of row ''verdict'' = Some (SqlText (jc_verdict (judgedColumns facts)))"
      "map_of row ''reason'' = Some (textOrNull (jc_reason (judgedColumns facts)))"
      "map_of row ''detail'' = Some (textOrNull (jc_detail (judgedColumns facts)))"
      "map_of row ''facts'' = Some (SqlText (jc_facts (judgedColumns facts)))"
  shows "judgementFromColumns row = Inr (judge facts, facts)"
proof -
  let ?j = "judge facts"
  let ?members = "(''verdict'', JStr (verdictText ?j)) # given ''reason'' JStr (reasonOf ?j) @ given ''detail'' (\<lambda>d. d) (detailOf ?j) @
    [(''facts'', experimentFactsJson facts)]"
  have detail: "bindE (column row ''detail'') (\<lambda>v. if v = SqlNull then Inr None
      else bindE (rowJson row ''detail'') (\<lambda>d. Inr (Some d))) = Inr (detailOf ?j)"
  proof (cases "detailOf ?j")
    case None
    then show ?thesis using row(3) by (simp add: column_def judgedColumns_def textOrNull_def)
  next
    case (Some d)
    then have "map_of row ''detail'' = Some (jsonColumn d)" using row(3) by (simp add: judgedColumns_def textOrNull_def jsonColumn_def)
    then show ?thesis using rowJson_reads [OF _ wf_detailOf [OF Some]] Some by (simp add: column_def jsonColumn_def)
  qed
  have facts: "rowJson row ''facts'' = Inr (experimentFactsJson facts)"
    using rowJson_reads [OF _ wf_experimentFacts [OF assms(1)]] row(4) by (simp add: judgedColumns_def jsonColumn_def)
  have held: "holdsReading ?members ?j" "map_of ?members ''facts'' = Some (experimentFactsJson facts)"
    by (auto simp: holdsReading_def map_of_given map_add_def split: option.split)
  have texts: "rowText row ''verdict'' = Inr (verdictText ?j)" "optionalText row ''reason'' = Inr (reasonOf ?j)"
    using row(1,2) by (simp_all add: judgedColumns_def json_reads)
  show ?thesis
    unfolding judgementFromColumns_def texts detail facts bindE_simps
    using judge_stored [OF assms(1,2) held] by simp
qed

definition judgedOk :: "(string, string) jsmap \<Rightarrow> Judged \<Rightarrow> bool" where
  "judgedOk digests j =
     (jd_defect j \<noteq> [] \<and> evidenceFactsOk (jd_facts j) \<and>
      (hasJudgement j \<longrightarrow> map_of digests (jd_defect j) = Some (jd_digest j) \<and> jd_digest j \<noteq> [] \<and> jd_fileDigest j \<noteq> []))"

lemma storedEvidence_reads:
  assumes "rp_falsifierVersion reply = FALSIFIER_VERSION" "judgedOk digests j" "hasJudgement j"
  shows "storedEvidence (insertedEvidence bindings evidenceId reply (judgedRow j)) =
    Inr (evidenceOf bindings evidenceId (rp_vitestVersion reply) j)"
proof -
  let ?row = "insertedEvidence bindings evidenceId reply (judgedRow j)"
  obtain verdict where verdict: "readingVerdict (judge (jd_facts j)) = Some verdict" using assms(3) by (auto simp: hasJudgement_def)
  have judgement: "judgementFromColumns ?row = Inr (judge (jd_facts j), jd_facts j)"
    using assms(2) verdict by (intro judgedColumns_read) (simp_all add: judgedOk_def evidence_row_at judgedRow_def)
  show ?thesis
    unfolding storedEvidence_def judgement rowText_reads [OF evidence_row_at(1)] rowText_reads [OF evidence_row_at(2)]
      rowText_reads [OF evidence_row_at(3)] rowText_reads [OF evidence_row_at(4)] rowText_reads [OF evidence_row_at(5)]
      rowText_reads [OF evidence_row_at(6)] rowText_reads [OF evidence_row_at(7)] rowText_reads [OF evidence_row_at(8)]
      rowInteger_reads [OF evidence_row_at(9)] rowInteger_reads [OF evidence_row_at(10)] bindE_simps Let_def
    using assms(1) verdict by (simp add: evidenceOf_def judgedRow_def EvidenceBindings.extend_def)
qed

lemma find_appended: "find P (xs @ ys) = (case find P xs of None \<Rightarrow> find P ys | Some x \<Rightarrow> Some x)"
  by (induction xs) auto

lemma find_filtered: "find P (filter Q xs) = find (\<lambda>x. Q x \<and> P x) xs"
  by (induction xs) auto

lemma find_False: "find (\<lambda>x. False) xs = None"
  by (simp add: find_None_iff)

section \<open>One row, written\<close>

lemma ofDefect_key:
  "ofDefect scope defectId row \<longleftrightarrow> evidenceKey row = (sc_projectIdentity scope, sc_worktreeIdentity scope, defectId)"
  by (auto simp: ofDefect_def inScope_def evidenceKey_def)

lemma inserted_key:
  "evidenceKey (insertedEvidence bindings evidenceId reply row) =
     (sc_projectIdentity bindings, sc_worktreeIdentity bindings, er_defect row)"
  by (simp add: evidenceKey_def textOf_def evidence_row_at)

lemma inserted_row:
  assumes "requireEvidenceBindings bindings = Inr ()" "evidenceId \<noteq> []" "judgedOk digests j" "hasJudgement j"
  shows "evidenceRow (insertedEvidence bindings evidenceId reply (judgedRow j))"
proof -
  have "sc_projectIdentity bindings \<noteq> []" "sc_worktreeIdentity bindings \<noteq> []" "eb_inputFingerprintDigest bindings \<noteq> []"
    using assms(1) by (auto simp: requireEvidenceBindings_def requireScope_def fingerprintColumns_def bindE_Inr requireNonEmpty_def
        split: if_splits)
  moreover have "rowFits DEFECT_EVIDENCE (insertedEvidence bindings evidenceId reply (judgedRow j))"
    by (simp add: rowFits_def insertedEvidence_def DEFECT_EVIDENCE_def)
  ultimately show ?thesis
    using assms(2-4) by (simp add: evidenceRow_def nonEmptyText_def textOf_def evidence_row_at judgedOk_def judgedRow_def)
qed

definition withEvidence :: "EvidenceBindings \<Rightarrow> string \<Rightarrow> RanReply \<Rightarrow> Judged \<Rightarrow> EvidenceTables \<Rightarrow> EvidenceTables" where
  "withEvidence bindings evidenceId reply j db =
     db\<lparr>tb_evidence := filter (\<lambda>r. \<not> ofDefect (StoreScope.truncate bindings) (jd_defect j) r) (tb_evidence db) @
       [insertedEvidence bindings evidenceId reply (judgedRow j)]\<rparr>"

lemma writeEvidenceRow_writes:
  assumes "evidenceHolds (tb_evidence db)" "requireEvidenceBindings bindings = Inr ()" "evidenceId \<noteq> []"
    and "rp_falsifierVersion reply = FALSIFIER_VERSION" "judgedOk digests j" "hasJudgement j"
  shows "writeEvidenceRow bindings evidenceId reply (judgedRow j) db =
      Inr (evidenceOf bindings evidenceId (rp_vitestVersion reply) j, withEvidence bindings evidenceId reply j db)"
    and "evidenceHolds (tb_evidence (withEvidence bindings evidenceId reply j db))"
proof -
  define scope where "scope = StoreScope.truncate bindings"
  define kept where "kept = filter (\<lambda>r. \<not> ofDefect scope (jd_defect j) r) (tb_evidence db)"
  define row where "row = insertedEvidence bindings evidenceId reply (judgedRow j)"
  have mine: "ofDefect scope (jd_defect j) row"
    by (simp add: ofDefect_key row_def inserted_key scope_def StoreScope.truncate_def judgedRow_def)
  have kept: "evidenceHolds kept"
    using assms(1) by (auto simp: kept_def evidenceHolds_def list_all_iff distinct_map_filter)
  have apart: "evidenceKey row \<notin> set (map evidenceKey kept)"
    using mine by (auto simp: kept_def ofDefect_key)
  have held: "evidenceHolds (kept @ [row])"
    using kept apart inserted_row [OF assms(2,3,5,6), of reply] by (simp add: evidenceHolds_def row_def)
  have "find (ofDefect scope (jd_defect j)) (kept @ [row]) = Some row"
    using mine by (simp add: kept_def find_appended find_filtered find_False)
  then show "writeEvidenceRow bindings evidenceId reply (judgedRow j) db =
      Inr (evidenceOf bindings evidenceId (rp_vitestVersion reply) j, withEvidence bindings evidenceId reply j db)"
    using kept held storedEvidence_reads [OF assms(4-6), of bindings evidenceId]
    by (simp add: writeEvidenceRow_def Let_def evidenceStatement_def readEvidenceBack_def withEvidence_def judgedRow_def [of j]
        kept_def row_def scope_def)
  show "evidenceHolds (tb_evidence (withEvidence bindings evidenceId reply j db))"
    using held by (simp add: withEvidence_def kept_def row_def scope_def)
qed

section \<open>The table as a map\<close>

definition evidenceAt :: "StoreScope \<Rightarrow> string \<Rightarrow> EvidenceTables \<Rightarrow> (StoreError + StoredEvidence) option" where
  "evidenceAt scope defectId db = map_option storedEvidence (find (ofDefect scope defectId) (tb_evidence db))"

lemma evidenceAt_written:
  assumes "rp_falsifierVersion reply = FALSIFIER_VERSION" "judgedOk digests j" "hasJudgement j"
  shows "evidenceAt scope defectId (withEvidence bindings evidenceId reply j db) =
    (if scope = StoreScope.truncate bindings \<and> defectId = jd_defect j
     then Some (Inr (evidenceOf bindings evidenceId (rp_vitestVersion reply) j)) else evidenceAt scope defectId db)"
proof -
  define own where "own = StoreScope.truncate bindings"
  define row where "row = insertedEvidence bindings evidenceId reply (judgedRow j)"
  have mine: "ofDefect scope defectId row \<longleftrightarrow> scope = own \<and> defectId = jd_defect j"
    by (auto simp: ofDefect_key row_def inserted_key own_def StoreScope.truncate_def judgedRow_def)
  have read: "storedEvidence row = Inr (evidenceOf bindings evidenceId (rp_vitestVersion reply) j)"
    unfolding row_def by (rule storedEvidence_reads [OF assms])
  show ?thesis
  proof (cases "scope = own \<and> defectId = jd_defect j")
    case True
    then have "find (ofDefect scope defectId) (filter (\<lambda>r. \<not> ofDefect own (jd_defect j) r) (tb_evidence db)) = None"
      by (auto simp: find_None_iff)
    then show ?thesis using True mine read
      by (simp add: evidenceAt_def withEvidence_def find_appended own_def row_def)
  next
    case False
    have "(\<not> ofDefect own (jd_defect j) r \<and> ofDefect scope defectId r) = ofDefect scope defectId r" for r
      using False by (auto simp: ofDefect_key intro!: StoreScope.equality)
    then show ?thesis using False mine
      by (auto simp: evidenceAt_def withEvidence_def find_appended find_filtered own_def [symmetric] row_def [symmetric]
          split: option.split)
  qed
qed

definition judgementOf :: "EvidenceBindings \<Rightarrow> string \<Rightarrow> string \<Rightarrow> Judged list \<Rightarrow> StoreScope \<Rightarrow> string \<Rightarrow> StoredEvidence option" where
  "judgementOf bindings evidenceId vitestVersion js scope defectId =
     (if scope = StoreScope.truncate bindings
      then map_option (evidenceOf bindings evidenceId vitestVersion) (find (\<lambda>j. jd_defect j = defectId) (filter hasJudgement js))
      else None)"

lemma writeEvidenceRows_write:
  assumes "requireEvidenceBindings bindings = Inr ()" "evidenceId \<noteq> []" "rp_falsifierVersion reply = FALSIFIER_VERSION"
    and "evidenceHolds (tb_evidence db)" "list_all (\<lambda>j. judgedOk digests j \<and> hasJudgement j) js" "distinct (map jd_defect js)"
  shows "\<exists>db'. writeEvidenceRows bindings evidenceId reply (map judgedRow js) db =
      Inr (map (evidenceOf bindings evidenceId (rp_vitestVersion reply)) js, db') \<and> evidenceHolds (tb_evidence db') \<and>
      (\<forall>scope defectId. evidenceAt scope defectId db' =
        (case judgementOf bindings evidenceId (rp_vitestVersion reply) js scope defectId of
           Some evidence \<Rightarrow> Some (Inr evidence) | None \<Rightarrow> evidenceAt scope defectId db))"
  using assms(4-6)
proof (induction js arbitrary: db)
  case Nil
  then show ?case by (simp add: judgementOf_def)
next
  case (Cons j js)
  have j: "judgedOk digests j" "hasJudgement j" using Cons.prems(2) by simp_all
  note wrote = writeEvidenceRow_writes [OF Cons.prems(1) assms(1-3) j]
  let ?db = "withEvidence bindings evidenceId reply j db"
  obtain db' where rest: "writeEvidenceRows bindings evidenceId reply (map judgedRow js) ?db =
      Inr (map (evidenceOf bindings evidenceId (rp_vitestVersion reply)) js, db')" "evidenceHolds (tb_evidence db')"
    "\<And>scope defectId. evidenceAt scope defectId db' =
        (case judgementOf bindings evidenceId (rp_vitestVersion reply) js scope defectId of
           Some evidence \<Rightarrow> Some (Inr evidence) | None \<Rightarrow> evidenceAt scope defectId ?db)"
    using Cons.IH [OF wrote(2)] Cons.prems(2,3) by auto
  have "find (\<lambda>x. jd_defect x = jd_defect j) (filter hasJudgement js) = None"
    using Cons.prems(3) by (auto simp: find_None_iff image_iff)
  then have "evidenceAt scope defectId db' =
        (case judgementOf bindings evidenceId (rp_vitestVersion reply) (j # js) scope defectId of
           Some evidence \<Rightarrow> Some (Inr evidence) | None \<Rightarrow> evidenceAt scope defectId db)" for scope defectId
    using rest(3) [of scope defectId] evidenceAt_written [OF assms(3) j, of scope defectId bindings evidenceId db] j(2)
    by (auto simp: judgementOf_def split: option.split)
  then show ?case using wrote(1) rest(1,2) by auto
qed

section \<open>A reply, stored\<close>

lemma namedMembers_named:
  assumes "list_all (\<lambda>j. jd_defect j \<noteq> [] \<and> map_of (members j) ''defectId'' = Some (JStr (jd_defect j))) js"
  shows "namedMembers kind i (map (\<lambda>j. JObj (members j)) js) = Inr (map (\<lambda>j. (jd_defect j, JObj (members j))) js)"
  using assms by (induction js arbitrary: i) (simp_all add: namedMember_def isNonEmptyText_def textIn_def jsonField_JObj)

lemma noRepeatedJudgements:
  "distinct (map fst judgements) \<Longrightarrow> set (map fst judgements) \<inter> set seen = {} \<Longrightarrow> refuseRepeatedJudgements judgements seen = Inr ()"
  by (induction judgements seen rule: refuseRepeatedJudgements.induct) auto

lemma records_of_one:
  assumes "distinct (map jd_defect js)" "j \<in> set js"
  shows "recordsByDefectId (map (\<lambda>j. (jd_defect j, JObj (recordMembers j))) js) (jd_defect j) = [JObj (recordMembers j)]"
  using assms
proof (induction js)
  case (Cons x js)
  have other: "recordsByDefectId (map (\<lambda>j. (jd_defect j, JObj (recordMembers j))) js) (jd_defect x) = []"
    using Cons.prems(1) by (auto simp: recordsByDefectId_def filter_map filter_empty_conv comp_def image_iff)
  show ?case
  proof (cases "j = x")
    case True
    then show ?thesis using other by (simp add: recordsByDefectId_def)
  next
    case False
    then have "jd_defect x \<noteq> jd_defect j" using Cons.prems by (auto simp: image_iff)
    then show ?thesis using False Cons by (simp add: recordsByDefectId_def)
  qed
qed simp

lemma mapE_all: "(\<And>x. x \<in> set xs \<Longrightarrow> f x = Inr (g x)) \<Longrightarrow> mapE f xs = Inr (map g xs)"
  by (induction xs) simp_all

lemma mapE_mapped: "mapE f (map g xs) = mapE (\<lambda>x. f (g x)) xs"
  by (induction xs) (simp_all split: sum.split)

lemma evidenceRows_judged:
  assumes "list_all (judgedOk digests) js" "distinct (map jd_defect js)"
    and "rp_judgements reply = map (\<lambda>j. JObj (judgementMembers j)) js"
    and "rp_experiments reply = map (\<lambda>j. JObj (recordMembers j)) js"
  shows "evidenceRows reply digests = Inr (map judgedRow (filter hasJudgement js))"
proof -
  let ?judgements = "map (\<lambda>j. (jd_defect j, JObj (judgementMembers j))) js"
  have "map_of (judgementMembers j) ''defectId'' = Some (JStr (jd_defect j))" for j
    by (simp add: judgementMembers_def)
  then have judgements: "namedMembers ''judgement'' 0 (rp_judgements reply) = Inr ?judgements"
    unfolding assms(3) using assms(1) by (intro namedMembers_named) (auto simp: list_all_iff judgedOk_def)
  have experiments: "namedMembers ''experiment record'' 0 (rp_experiments reply) =
      Inr (map (\<lambda>j. (jd_defect j, JObj (recordMembers j))) js)"
    unfolding assms(4) using assms(1) by (intro namedMembers_named) (auto simp: list_all_iff judgedOk_def recordMembers_def)
  have once: "refuseRepeatedJudgements ?judgements [] = Inr ()"
    using assms(2) by (intro noRepeatedJudgements) (simp_all add: comp_def)
  have verdicts: "filter hasVerdict ?judgements = map (\<lambda>j. (jd_defect j, JObj (judgementMembers j))) (filter hasJudgement js)"
    by (auto simp: filter_map comp_def hasVerdict_def jsonField_JObj judgementMembers_def hasJudgement_def map_of_readingMembers
        map_add_def intro!: arg_cong2 [where f = map] filter_cong)
  have "mapE (\<lambda>j. bindE (definitionDigestIn digests (jd_defect j)) (\<lambda>digest.
         bindE (mutationFileDigest (recordsByDefectId (map (\<lambda>j. (jd_defect j, JObj (recordMembers j))) js) (jd_defect j)) (jd_defect j)) (\<lambda>fileDigest.
         bindE (storableJudgement (JObj (judgementMembers j)) (jd_defect j)) (\<lambda>columns.
           Inr \<lparr>er_defect = jd_defect j, er_definitionDigest = digest, er_fileDigest = fileDigest, er_judgement = columns\<rparr>))))
       (filter hasJudgement js) = Inr (map judgedRow (filter hasJudgement js))"
    (is "mapE ?row _ = _")
  proof -
    have "?row j = Inr (judgedRow j)" if "j \<in> set js" "hasJudgement j" for j
    proof -
      have "judgedOk digests j" using assms(1) that(1) by (simp add: list_all_iff)
      then show ?thesis
        using that(2) judgementColumns_judged [of j] records_of_one [OF assms(2) that(1)]
        by (simp add: definitionDigestIn_def mutationFileDigest_def storableJudgement_def judgedOk_def isNonEmptyText_def textIn_def
            judgedRow_def recordMembers_def jsonField_JObj)
    qed
    then show ?thesis by (intro mapE_all) simp
  qed
  then show ?thesis
    unfolding evidenceRows_def judgements experiments once bindE_simps verdicts
    by (simp add: mapE_mapped)
qed

lemma ranReply_replyOf:
  "vitestVersion \<noteq> [] \<Longrightarrow> ranReply (replyOf vitestVersion js) =
     Inr \<lparr>rp_vitestVersion = vitestVersion, rp_falsifierVersion = FALSIFIER_VERSION,
          rp_judgements = map (\<lambda>j. JObj (judgementMembers j)) js, rp_experiments = map (\<lambda>j. JObj (recordMembers j)) js\<rparr>"
  by (simp add: ranReply_def replyOf_def jsonField_JObj isNonEmptyText_def textIn_def)

section \<open>The properties\<close>

text \<open>
  C33. What the evidence store gives out of a worktree: every row of it once, as evidence or as a refusal, and
  every piece of evidence this falsifier's version wrote carries facts the judge gives the verdict beside them. A
  stored verdict that its facts do not give is not read as a verdict.
\<close>

theorem stored_verdict_judged:
  assumes "selectEvidence scope db = Inr latest"
  shows "list_all judgedEvidence (le_evidence latest) \<and>
    mset (map se_defectId (le_evidence latest)) + mset (map fst (le_evidenceRefusals latest)) =
      image_mset (\<lambda>row. textOf row ''defect_id'') (filter_mset (inScope scope) (mset (tb_evidence db)))"
  by (rule selectEvidence_all [OF assms])

text \<open>
  C34. A reply's judgements are stored and read back as given. When the reply's defects are distinct and their facts are
  ones the store can read, the write succeeds and keeps the table's constraints, it answers with the judgements that
  carry a verdict, and after it the table is the earlier one updated at exactly those defects of exactly that worktree.
\<close>

theorem judged_reply_stored:
  assumes "evidenceHolds (tb_evidence db)" "tb_userVersion db \<le> STORE_SCHEMA_VERSION"
    and "requireEvidenceBindings bindings = Inr ()" "evidenceId \<noteq> []" "vitestVersion \<noteq> []"
    and "list_all (judgedOk digests) js" "distinct (map jd_defect js)"
  shows "\<exists>db'. writeEvidence bindings evidenceId (replyOf vitestVersion js) digests db =
      (Inr (map (evidenceOf bindings evidenceId vitestVersion) (filter hasJudgement js)), db') \<and>
    evidenceHolds (tb_evidence db') \<and>
    (\<forall>scope defectId. evidenceAt scope defectId db' =
      (case judgementOf bindings evidenceId vitestVersion js scope defectId of
         Some evidence \<Rightarrow> Some (Inr evidence) | None \<Rightarrow> evidenceAt scope defectId db))"
proof -
  define reply where "reply = \<lparr>rp_vitestVersion = vitestVersion, rp_falsifierVersion = FALSIFIER_VERSION,
    rp_judgements = map (\<lambda>j. JObj (judgementMembers j)) js, rp_experiments = map (\<lambda>j. JObj (recordMembers j)) js\<rparr>"
  have ran: "ranReply (replyOf vitestVersion js) = Inr reply"
    unfolding reply_def by (rule ranReply_replyOf [OF assms(5)])
  have rows: "evidenceRows reply digests = Inr (map judgedRow (filter hasJudgement js))"
    by (rule evidenceRows_judged [OF assms(6,7)]) (simp_all add: reply_def)
  have own: "list_all (\<lambda>j. judgedOk digests j \<and> hasJudgement j) (filter hasJudgement js)"
    "distinct (map jd_defect (filter hasJudgement js))" "rp_falsifierVersion reply = FALSIFIER_VERSION"
    using assms(6,7) by (auto simp: list_all_iff distinct_map_filter reply_def)
  obtain db' where "writeEvidenceRows bindings evidenceId reply (map judgedRow (filter hasJudgement js)) db =
      Inr (map (evidenceOf bindings evidenceId vitestVersion) (filter hasJudgement js), db')"
    "evidenceHolds (tb_evidence db')"
    "\<And>scope defectId. evidenceAt scope defectId db' =
        (case judgementOf bindings evidenceId vitestVersion js scope defectId of
           Some evidence \<Rightarrow> Some (Inr evidence) | None \<Rightarrow> evidenceAt scope defectId db)"
    using writeEvidenceRows_write [OF assms(3,4) own(3) assms(1) own(1,2)]
    by (auto simp: reply_def judgementOf_def)
  then show ?thesis
    using assms(1-3) ran rows
    by (auto simp: writeEvidence_def inRecordWrite_def refuseNewerSchema_def isNewerSchema_def judgementOf_def)
qed

section \<open>The read that is kept\<close>

text \<open>A kept read of this data version is the one the tables give, and a read that keeps or reuses it gives no other.\<close>

definition keptSound :: "EvidenceTables \<Rightarrow> nat \<Rightarrow> KeptRead option \<Rightarrow> bool" where
  "keptSound db dataVersion kept = (case kept of None \<Rightarrow> True
     | Some k \<Rightarrow> kr_dataVersion k = dataVersion \<longrightarrow> selectEvidence (StoreScope.truncate k) db = Inr (kr_latest k))"

lemma stillAnswers_scope: "stillAnswers k scope dataVersion \<Longrightarrow> StoreScope.truncate k = scope \<and> kr_dataVersion k = dataVersion"
  by (simp add: stillAnswers_def StoreScope.truncate_def)

lemma readKept_selects:
  assumes "keptSound db dataVersion kept"
  shows "fst (readKept scope dataVersion db kept) = selectEvidence scope db \<and>
    keptSound db dataVersion (snd (readKept scope dataVersion db kept))"
proof (cases "case kept of Some k \<Rightarrow> stillAnswers k scope dataVersion | None \<Rightarrow> False")
  case True
  then show ?thesis using assms
    by (auto simp: readKept_def keptSound_def dest: stillAnswers_scope split: option.splits)
next
  case False
  have "StoreScope.truncate (StoreScope.extend scope x) = scope" for x :: "\<lparr>kr_dataVersion :: nat, kr_latest :: LatestEvidence\<rparr>"
    by (simp add: StoreScope.truncate_def StoreScope.extend_def)
  then show ?thesis using assms False
    by (cases "selectEvidence scope db") (simp_all add: readKept_def keptSound_def StoreScope.extend_def)
qed

lemma writeKept_forgets: "keptSound db' dataVersion (snd (snd (writeKept bindings evidenceId job digests db kept)))"
  by (simp add: writeKept_def keptSound_def split: prod.split)

section \<open>A store\<close>

definition sampleFactsOf :: "ProbeSite ExperimentFacts" where
  "sampleFactsOf = \<lparr>sf_baseline = None, sf_restoredBaseline = None,
     sf_job = \<lparr>jf_unhandledErrorCount = 0, jf_closed = True\<rparr>, ef_body = BodyNotRun NotRunBaselineNotPassed\<rparr>"

definition sampleJudged :: "Judged list" where
  "sampleJudged = [\<lparr>jd_defect = ''d'', jd_digest = ''1'', jd_fileDigest = ''2'', jd_facts = sampleFactsOf\<rparr>]"

definition sampleEvidenceBindings :: EvidenceBindings where
  "sampleEvidenceBindings = \<lparr>sc_projectIdentity = ''p'', sc_worktreeIdentity = ''w'', eb_inputFingerprintDigest = ''f''\<rparr>"

definition sampleEvidenceStore :: EvidenceTables where
  "sampleEvidenceStore = StoreTables.extend emptyStore \<lparr>tb_evidence = []\<rparr>"

definition sampleEvidenceWritten :: EvidenceTables where
  "sampleEvidenceWritten =
     snd (writeEvidence sampleEvidenceBindings ''e'' (replyOf ''4.0.1'' sampleJudged) [(''d'', ''1'')] sampleEvidenceStore)"

lemma stored_verdict_judged_witness:
  "(case selectEvidence (StoreScope.truncate sampleEvidenceBindings) sampleEvidenceWritten of
     Inr latest \<Rightarrow> length (le_evidence latest) = 1 \<and> le_evidenceRefusals latest = [] \<and> list_all judgedEvidence (le_evidence latest)
   | Inl _ \<Rightarrow> False)"
proof -
  have "case selectEvidence (StoreScope.truncate sampleEvidenceBindings) sampleEvidenceWritten of
      Inr latest \<Rightarrow> length (le_evidence latest) = 1 \<and> le_evidenceRefusals latest = [] | Inl _ \<Rightarrow> False"
    by code_simp
  then show ?thesis
    using stored_verdict_judged [of "StoreScope.truncate sampleEvidenceBindings" sampleEvidenceWritten]
    by (auto split: sum.splits)
qed

lemma judged_reply_stored_witness:
  "\<exists>db'. writeEvidence sampleEvidenceBindings ''e'' (replyOf ''4.0.1'' sampleJudged) [(''d'', ''1'')] sampleEvidenceStore =
      (Inr (map (evidenceOf sampleEvidenceBindings ''e'' ''4.0.1'') sampleJudged), db') \<and>
    evidenceAt (StoreScope.truncate sampleEvidenceBindings) ''d'' db' =
      Some (Inr (evidenceOf sampleEvidenceBindings ''e'' ''4.0.1'' (hd sampleJudged)))"
proof -
  have holds: "evidenceHolds (tb_evidence sampleEvidenceStore)" "tb_userVersion sampleEvidenceStore \<le> STORE_SCHEMA_VERSION"
    "requireEvidenceBindings sampleEvidenceBindings = Inr ()" by code_simp+
  have judged: "list_all (judgedOk [(''d'', ''1'')]) sampleJudged" "distinct (map jd_defect sampleJudged)"
    "filter hasJudgement sampleJudged = sampleJudged"
    "find (\<lambda>j. jd_defect j = ''d'') sampleJudged = Some (hd sampleJudged)"
    by (simp_all add: sampleJudged_def judgedOk_def hasJudgement_def evidenceFactsOk_def sampleFactsOf_def judge_def
        judgeNotRun_def baselineNotPassed_def)
  show ?thesis
    using judged_reply_stored [OF holds _ _ judged(1,2), of "''e''" "''4.0.1''"] judged(3,4) by (fastforce simp: judgementOf_def)
qed

end
