(* ===== verification/DefectStandings.thy ===== *)
theory DefectStandings
  imports ResolveDefinitions EvidenceRoundTrip TestStates
begin

text \<open>
  The standing of each defect definition (\<^verbatim>\<open>defects/defect-standings.ts\<close>): its state, whether it can be falsified now,
  and whether the evidence stored of it still describes what it was decided from. The hash is a parameter, as the
  current fingerprint of a workspace is.
\<close>

section \<open>Causes\<close>

datatype StaleCause =
    DefinitionChanged
  | MutationFileChanged
  | AnotherAdapterVersion
  | AnotherFalsifierVersion
  | AnotherVitestVersion
  | InputsChanged

definition STALE_CAUSES :: "StaleCause list" where
  "STALE_CAUSES = [DefinitionChanged, MutationFileChanged, AnotherAdapterVersion, AnotherFalsifierVersion,
     AnotherVitestVersion, InputsChanged]"

datatype UnknownReason = NoCurrentFingerprint | DuplicateTest

definition UNKNOWN_REASONS :: "UnknownReason list" where
  "UNKNOWN_REASONS = [NoCurrentFingerprint, DuplicateTest]"

definition MAX_LISTED_ERRORS :: nat where
  "MAX_LISTED_ERRORS = 3"

definition UNREADABLE_EVIDENCE :: string where
  "UNREADABLE_EVIDENCE = ''its stored evidence was refused as unreadable, so it reads as none''"

datatype EvidenceFreshness =
    FreshCurrent
  | FreshStale "StaleCause list"
  | FreshUnknown "UnknownReason list"

record ListedErrors =
  le_listed :: "ErrorFact list"
  le_notListed :: nat

record EvidenceStanding =
  es_freshness :: EvidenceFreshness
  es_reason :: "string option"
  es_detail :: "json option"
  es_errors :: "ListedErrors option"

record DefectStanding =
  ds_definition :: ResolvedDefinition
  ds_state :: DefectState
  ds_reason :: "string option"
  ds_evidenceUnreadable :: bool
  ds_eligible :: bool
  ds_definitionDigest :: "string option"
  ds_evidence :: "EvidenceStanding option"

record StandingFacts =
  sf_consumerRoot :: string
  sf_assertionErrors :: "string list"
  sf_evidence :: LatestEvidence
  sf_discovery :: TestDiscovery
  sf_discoveryCurrent :: bool
  sf_currentFingerprint :: CurrentFingerprints
  sf_testStandings :: "TestStanding list"

record DigestSubject =
  du_id :: string
  du_test :: DiscoveredTest
  du_mutation :: DefinitionMutation
  du_mutationPath :: string

record StandingIndex =
  si_consumerRoot :: string
  si_assertionErrors :: "string list"
  si_evidence :: "(string, StoredEvidence) jsmap"
  si_refusals :: "(string, string) jsmap"
  si_vitestVersions :: "(string, string) jsmap"
  si_currentPasses :: "string list"
  si_currentFingerprint :: CurrentFingerprints
  si_discoveryCurrent :: bool

section \<open>The index\<close>

definition vitestVersions :: "TestDiscovery \<Rightarrow> (string, string) jsmap" where
  "vitestVersions discovery =
     jmap_of (flat_map (\<lambda>entry. case entry of
         WsDiscovered d \<Rightarrow> [(ws_path (dw_workspace d), dw_vitestVersion d)] | _ \<Rightarrow> []) (td_workspaces discovery))"

definition holdsCurrentPass :: "TestStanding \<Rightarrow> bool" where
  "holdsCurrentPass standing = (ts_state standing = SOutcome Passed \<and> ts_freshness standing = Current)"

definition standingIndex :: "StandingFacts \<Rightarrow> StandingIndex" where
  "standingIndex facts =
     \<lparr>si_consumerRoot = sf_consumerRoot facts,
      si_assertionErrors = sort (uniq (sf_assertionErrors facts)),
      si_evidence = jmap_of (map (\<lambda>r. (se_defectId r, r)) (le_evidence (sf_evidence facts))),
      si_refusals = jmap_of (le_evidenceRefusals (sf_evidence facts)),
      si_vitestVersions = vitestVersions (sf_discovery facts),
      si_currentPasses = uniq (map (\<lambda>s. testIdentityKey (it_identity (ts_test s)))
        (filter holdsCurrentPass (sf_testStandings facts))),
      si_currentFingerprint = sf_currentFingerprint facts,
      si_discoveryCurrent = sf_discoveryCurrent facts\<rparr>"

section \<open>A definition's digest\<close>

definition digestSubject :: "ResolvedDefinition \<Rightarrow> DigestSubject option" where
  "digestSubject definition' =
     (case (cd_id definition', rd_resolved definition', cd_mutation definition', cd_mutationPath definition') of
        (Some defectId, Some test, Some mutation, Some path) \<Rightarrow>
          (if rd_state definition' = InvalidDefinition then None
           else Some \<lparr>du_id = defectId, du_test = test, du_mutation = mutation, du_mutationPath = path\<rparr>)
      | _ \<Rightarrow> None)"

definition digestedText :: "DigestSubject \<Rightarrow> StandingIndex \<Rightarrow> string" where
  "digestedText subject index =
     stringify (JArr [JStr (du_id subject), JStr (testIdentityKey (it_identity (du_test subject))),
       JStr (relativePosixPath (si_consumerRoot index) (du_mutationPath subject)), JStr (dm_old (du_mutation subject)),
       JStr (dm_new (du_mutation subject)), JArr (map JStr (si_assertionErrors index))])"

definition definitionDigest :: "(string \<Rightarrow> string) \<Rightarrow> DigestSubject \<Rightarrow> StandingIndex \<Rightarrow> string" where
  "definitionDigest hash subject index = hash (digestedText subject index)"

section \<open>Freshness\<close>

definition holding :: "StoredEvidence \<Rightarrow> string \<Rightarrow> DiscoveredTest \<Rightarrow> ResolvedDefinition \<Rightarrow> StandingIndex \<Rightarrow>
    Freshness \<Rightarrow> StaleCause \<Rightarrow> bool" where
  "holding record' digest test definition' index fingerprint cause = (case cause of
     DefinitionChanged \<Rightarrow> se_definitionDigest record' \<noteq> digest
   | MutationFileChanged \<Rightarrow> Some (se_mutationFileDigest record') \<noteq> rd_mutationFileDigest definition'
   | AnotherAdapterVersion \<Rightarrow> \<not> isCurrentAdapterVersion (se_adapterVersion record')
   | AnotherFalsifierVersion \<Rightarrow> se_falsifierVersion record' \<noteq> FALSIFIER_VERSION
   | AnotherVitestVersion \<Rightarrow>
       Some (se_vitestVersion record') \<noteq> map_of (si_vitestVersions index) (workspacePath (it_identity test))
   | InputsChanged \<Rightarrow> fingerprint = Stale)"

definition evidenceFreshness :: "StoredEvidence \<Rightarrow> string \<Rightarrow> DiscoveredTest \<Rightarrow> ResolvedDefinition \<Rightarrow> StandingIndex \<Rightarrow>
    EvidenceFreshness" where
  "evidenceFreshness record' digest test definition' index =
     (let fingerprint = assessFreshness (Some (eb_inputFingerprintDigest record'))
            (si_currentFingerprint index (workspacePath (it_identity test)));
          staleCauses = filter (holding record' digest test definition' index fingerprint) STALE_CAUSES;
          unknownReasons = (if fingerprint = Unknown then [NoCurrentFingerprint] else []) @
            (if it_isDuplicate test \<and> \<not> si_discoveryCurrent index then [DuplicateTest] else [])
      in if staleCauses \<noteq> [] then FreshStale staleCauses
         else if unknownReasons \<noteq> [] then FreshUnknown unknownReasons
         else FreshCurrent)"

section \<open>What a judgement says\<close>

definition notAssertionErrors :: "StoredJudgement \<Rightarrow> ListedErrors option" where
  "notAssertionErrors judgement =
     (if fst judgement \<noteq> UnclearExperiment (UnclearOfRun NotAnAssertion) then None
      else let errors = (case ef_body (snd judgement) of
                 BodyRan run _ _ \<Rightarrow> (case rf_test run of Some test \<Rightarrow> tf_errors test | None \<Rightarrow> [])
               | BodyNotRun _ \<Rightarrow> []);
               ordered = filter (\<lambda>e. \<not> isAssertion e) errors @ filter isAssertion errors
           in Some \<lparr>le_listed = take MAX_LISTED_ERRORS ordered, le_notListed = length ordered - MAX_LISTED_ERRORS\<rparr>)"

definition judgementParts :: "EvidenceFreshness \<Rightarrow> StoredJudgement option \<Rightarrow> EvidenceStanding" where
  "judgementParts freshness judgement =
     (case judgement of
        None \<Rightarrow> \<lparr>es_freshness = freshness, es_reason = None, es_detail = None, es_errors = None\<rparr>
      | Some j \<Rightarrow>
          (if reasonOf (fst j) = None
           then \<lparr>es_freshness = freshness, es_reason = None, es_detail = None, es_errors = None\<rparr>
           else \<lparr>es_freshness = freshness, es_reason = reasonOf (fst j), es_detail = detailOf (fst j),
                 es_errors = notAssertionErrors j\<rparr>))"

section \<open>The standings\<close>

fun verdictState :: "Verdict \<Rightarrow> DefectState" where
  "verdictState VerdictSurvived = SurvivedState"
| "verdictState VerdictInvalid = InvalidExperimentState"
| "verdictState VerdictUnclear = UnclearState"
| "verdictState VerdictDetected = DetectedState"

definition notRunnable :: "(string \<Rightarrow> string) \<Rightarrow> ResolvedDefinition \<Rightarrow> DigestSubject option \<Rightarrow> StandingIndex \<Rightarrow>
    DefectStanding" where
  "notRunnable hash definition' subject index =
     \<lparr>ds_definition = definition', ds_state = rd_state definition', ds_reason = rd_reason definition',
      ds_evidenceUnreadable = False, ds_eligible = False,
      ds_definitionDigest = map_option (\<lambda>s. definitionDigest hash s index) subject, ds_evidence = None\<rparr>"

definition neverVerified :: "string option \<Rightarrow> string option \<times> bool" where
  "neverVerified refusal = (case refusal of
     None \<Rightarrow> (None, False)
   | Some why \<Rightarrow> (Some (UNREADABLE_EVIDENCE @ '': '' @ why), True))"

definition defectStandingOf :: "(string \<Rightarrow> string) \<Rightarrow> StandingIndex \<Rightarrow> ResolvedDefinition \<Rightarrow> DefectStanding" where
  "defectStandingOf hash index definition' =
     (case digestSubject definition' of
        None \<Rightarrow> notRunnable hash definition' None index
      | Some subject \<Rightarrow>
          (if rd_state definition' \<noteq> NeverVerified then notRunnable hash definition' (Some subject) index
           else let digest = definitionDigest hash subject index;
                    eligible = testIdentityKey (it_identity (du_test subject)) \<in> set (si_currentPasses index)
                in case map_of (si_evidence index) (du_id subject) of
                     None \<Rightarrow>
                       (let (reason, unreadable) = neverVerified (map_of (si_refusals index) (du_id subject))
                        in \<lparr>ds_definition = definition', ds_state = NeverVerified, ds_reason = reason,
                            ds_evidenceUnreadable = unreadable, ds_eligible = eligible,
                            ds_definitionDigest = Some digest, ds_evidence = None\<rparr>)
                   | Some record' \<Rightarrow>
                       \<lparr>ds_definition = definition', ds_state = verdictState (se_verdict record'), ds_reason = None,
                        ds_evidenceUnreadable = False, ds_eligible = eligible, ds_definitionDigest = Some digest,
                        ds_evidence = Some (judgementParts
                          (evidenceFreshness record' digest (du_test subject) definition' index) (se_judgement record'))\<rparr>))"

definition defectStandings :: "(string \<Rightarrow> string) \<Rightarrow> ResolvedDefinition list \<Rightarrow> StandingFacts \<Rightarrow> DefectStanding list" where
  "defectStandings hash definitions facts =
     (let index = standingIndex facts in map (defectStandingOf hash index) definitions)"

section \<open>Order\<close>

fun rankIn :: "'a \<Rightarrow> 'a list \<Rightarrow> nat" where
  "rankIn x [] = 0"
| "rankIn x (y # ys) = (if x = y then 0 else Suc (rankIn x ys))"

definition currentRank :: "DefectStanding \<Rightarrow> nat" where
  "currentRank standing = (if map_option es_freshness (ds_evidence standing) = Some FreshCurrent then 1 else 0)"

definition compareFiles :: "string \<Rightarrow> string \<Rightarrow> int" where
  "compareFiles left right = (if left = right then 0 else if left < right then -1 else 1)"

definition orElse :: "int \<Rightarrow> int \<Rightarrow> int" where
  "orElse a b = (if a \<noteq> 0 then a else b)"

definition compareStandings :: "DefectStanding \<Rightarrow> DefectStanding \<Rightarrow> int" where
  "compareStandings left right =
     orElse (int (rankIn (ds_state left) DEFECT_STATES) - int (rankIn (ds_state right) DEFECT_STATES))
     (orElse (int (currentRank left) - int (currentRank right))
     (orElse (compareFiles (cd_file (ds_definition left)) (cd_file (ds_definition right)))
       (int (cd_position (ds_definition left)) - int (cd_position (ds_definition right)))))"

section \<open>Counts\<close>

record DefectStandingCounts =
  dc_states :: "(DefectState, nat) jsmap"
  dc_freshness :: "(Freshness, nat) jsmap"
  dc_staleCauses :: "(StaleCause, nat) jsmap"
  dc_unknownReasons :: "(UnknownReason, nat) jsmap"
  dc_unreadableEvidence :: nat
  dc_eligible :: nat
  dc_verified :: nat

fun freshnessOf :: "EvidenceFreshness \<Rightarrow> Freshness" where
  "freshnessOf FreshCurrent = Current"
| "freshnessOf (FreshStale _) = Stale"
| "freshnessOf (FreshUnknown _) = Unknown"

fun staleCausesOf :: "EvidenceFreshness \<Rightarrow> StaleCause list" where
  "staleCausesOf (FreshStale causes) = causes"
| "staleCausesOf _ = []"

fun unknownReasonsOf :: "EvidenceFreshness \<Rightarrow> UnknownReason list" where
  "unknownReasonsOf (FreshUnknown reasons) = reasons"
| "unknownReasonsOf _ = []"

definition isVerified :: "DefectStanding \<Rightarrow> bool" where
  "isVerified standing =
     (ds_state standing = DetectedState \<and> map_option es_freshness (ds_evidence standing) = Some FreshCurrent)"

definition countStanding :: "DefectStanding \<Rightarrow> DefectStandingCounts \<Rightarrow> DefectStandingCounts" where
  "countStanding standing counts =
     (let counted = counts\<lparr>dc_states := bump (ds_state standing) (dc_states counts)\<rparr> in
      case ds_evidence standing of
        None \<Rightarrow> counted
      | Some evidence \<Rightarrow>
          counted\<lparr>dc_freshness := bump (freshnessOf (es_freshness evidence)) (dc_freshness counts),
            dc_staleCauses := fold bump (staleCausesOf (es_freshness evidence)) (dc_staleCauses counts),
            dc_unknownReasons := fold bump (unknownReasonsOf (es_freshness evidence)) (dc_unknownReasons counts)\<rparr>)"

definition countDefectStandings :: "DefectStanding list \<Rightarrow> DefectStandingCounts" where
  "countDefectStandings standings =
     fold countStanding standings
       \<lparr>dc_states = zeroCounts DEFECT_STATES, dc_freshness = zeroCounts FRESHNESS_VALUES,
        dc_staleCauses = zeroCounts STALE_CAUSES, dc_unknownReasons = zeroCounts UNKNOWN_REASONS,
        dc_unreadableEvidence = length (filter ds_evidenceUnreadable standings),
        dc_eligible = length (filter ds_eligible standings),
        dc_verified = length (filter isVerified standings)\<rparr>"

section \<open>When evidence is current\<close>

definition evidenceStands :: "StoredEvidence \<Rightarrow> string \<Rightarrow> DiscoveredTest \<Rightarrow> string option \<Rightarrow> StandingIndex \<Rightarrow> bool" where
  "evidenceStands record' digest test fileDigest index =
     (se_definitionDigest record' = digest \<and> fileDigest = Some (se_mutationFileDigest record') \<and>
      se_adapterVersion record' = VITEST_ADAPTER_VERSION \<and> se_falsifierVersion record' = FALSIFIER_VERSION \<and>
      map_of (si_vitestVersions index) (workspacePath (it_identity test)) = Some (se_vitestVersion record') \<and>
      eb_inputFingerprintDigest record' \<noteq> [] \<and>
      si_currentFingerprint index (workspacePath (it_identity test)) = Some (eb_inputFingerprintDigest record') \<and>
      (\<not> it_isDuplicate test \<or> si_discoveryCurrent index))"

lemma assessFreshness_cases:
  "assessFreshness f c \<noteq> Stale \<and> assessFreshness f c \<noteq> Unknown \<longleftrightarrow> assessFreshness f c = Current"
  by (cases "assessFreshness f c") simp_all

lemma evidenceFreshness_current:
  "evidenceFreshness record' digest test definition' index = FreshCurrent \<longleftrightarrow>
     evidenceStands record' digest test (rd_mutationFileDigest definition') index"
proof -
  have "assessFreshness (Some a) b = Current \<longleftrightarrow> a \<noteq> [] \<and> b = Some a" for a b
    by (auto simp: assessFreshness_Current)
  then show ?thesis
    using assessFreshness_cases [of "Some (eb_inputFingerprintDigest record')"
        "si_currentFingerprint index (workspacePath (it_identity test))"]
    by (auto simp: evidenceFreshness_def Let_def STALE_CAUSES_def holding_def evidenceStands_def isCurrentAdapterVersion_def
        filter_empty_conv split: if_splits)
qed

lemma judgementParts_freshness [simp]: "es_freshness (judgementParts freshness judgement) = freshness"
  by (simp add: judgementParts_def split: option.split)

lemma verdictState_detected [simp]: "verdictState v = DetectedState \<longleftrightarrow> v = VerdictDetected"
  by (cases v) simp_all

lemma digestSubject_Some:
  "digestSubject d = Some subject \<longleftrightarrow>
     cd_id d = Some (du_id subject) \<and> rd_resolved d = Some (du_test subject) \<and> cd_mutation d = Some (du_mutation subject) \<and>
     cd_mutationPath d = Some (du_mutationPath subject) \<and> rd_state d \<noteq> InvalidDefinition"
  by (cases subject) (auto simp: digestSubject_def split: option.split)

text \<open>What verifies a definition: it can run, and the evidence stored of it is of a detection and still stands.\<close>

lemma isVerified_standing:
  "isVerified (defectStandingOf hash index d) \<longleftrightarrow>
     (\<exists>subject record'. digestSubject d = Some subject \<and> rd_state d = NeverVerified \<and>
        map_of (si_evidence index) (du_id subject) = Some record' \<and> se_verdict record' = VerdictDetected \<and>
        evidenceStands record' (definitionDigest hash subject index) (du_test subject) (rd_mutationFileDigest d) index)"
  by (auto simp: isVerified_def defectStandingOf_def notRunnable_def Let_def evidenceFreshness_current
      split: option.splits prod.split)

lemma verified_state: "isVerified (defectStandingOf hash index d) \<Longrightarrow> ds_definition (defectStandingOf hash index d) = d"
  by (auto simp: defectStandingOf_def notRunnable_def Let_def split: option.splits prod.split)

lemma si_evidence_held: "map_of (si_evidence (standingIndex facts)) defectId = Some record' \<Longrightarrow>
    record' \<in> set (le_evidence (sf_evidence facts)) \<and> se_defectId record' = defectId"
  by (auto simp: standingIndex_def map_of_jmap_of dest!: map_of_SomeD)

section \<open>The digest\<close>

lemma sort_uniq: "sort (uniq xs) = sort (uniq ys) \<longleftrightarrow> set xs = set ys"
proof
  assume "sort (uniq xs) = sort (uniq ys)"
  then have "set (sort (uniq xs)) = set (sort (uniq ys))" by simp
  then show "set xs = set ys" by simp
next
  assume "set xs = set ys"
  then have "mset (uniq xs) = mset (uniq ys)" by (simp add: set_eq_iff_mset_eq_distinct [symmetric])
  then show "sort (uniq xs) = sort (uniq ys)" by (metis mset_sort properties_for_sort sorted_sort)
qed

lemma map_JStr [simp]: "map JStr xs = map JStr ys \<longleftrightarrow> xs = ys"
  by (simp add: inj_map_eq_map inj_def)

lemma digestedText_iff:
  "digestedText s (standingIndex facts) = digestedText s' (standingIndex facts') \<longleftrightarrow>
     du_id s = du_id s' \<and> it_identity (du_test s) = it_identity (du_test s') \<and>
     relativePosixPath (sf_consumerRoot facts) (du_mutationPath s) = relativePosixPath (sf_consumerRoot facts') (du_mutationPath s') \<and>
     dm_old (du_mutation s) = dm_old (du_mutation s') \<and> dm_new (du_mutation s) = dm_new (du_mutation s') \<and>
     set (sf_assertionErrors facts) = set (sf_assertionErrors facts')"
  by (auto simp: digestedText_def testIdentityKey_iff standingIndex_def sort_uniq)

section \<open>The order of a listing\<close>

definition standingKey :: "DefectStanding \<Rightarrow> nat \<times> nat \<times> string \<times> nat" where
  "standingKey standing =
     (rankIn (ds_state standing) DEFECT_STATES, currentRank standing, cd_file (ds_definition standing),
      cd_position (ds_definition standing))"

lemma compareStandings_key:
  "(compareStandings l r < 0 \<longleftrightarrow> standingKey l < standingKey r) \<and> (compareStandings l r = 0 \<longleftrightarrow> standingKey l = standingKey r)"
  by (auto simp: compareStandings_def standingKey_def orElse_def compareFiles_def split: if_splits)

section \<open>Counts\<close>

lemma fold_countStanding:
  "dc_states (fold countStanding ss c) = fold (\<lambda>s. bump (ds_state s)) ss (dc_states c)"
  "dc_freshness (fold countStanding ss c) =
     fold (\<lambda>e. bump (freshnessOf (es_freshness e))) (List.map_filter ds_evidence ss) (dc_freshness c)"
  "dc_staleCauses (fold countStanding ss c) =
     fold bump (flat_map (\<lambda>e. staleCausesOf (es_freshness e)) (List.map_filter ds_evidence ss)) (dc_staleCauses c)"
  "dc_unknownReasons (fold countStanding ss c) =
     fold bump (flat_map (\<lambda>e. unknownReasonsOf (es_freshness e)) (List.map_filter ds_evidence ss)) (dc_unknownReasons c)"
  by (induction ss arbitrary: c) (auto simp: countStanding_def Let_def flat_map_def map_filter_simps split: option.split)

section \<open>From the definition to its standing\<close>

lemma resolveDefinition_kept [simp]:
  "cd_id (resolveDefinition index anchors i d) = cd_id d" "cd_mutation (resolveDefinition index anchors i d) = cd_mutation d"
  "cd_mutationPath (resolveDefinition index anchors i d) = cd_mutationPath d"
  by (simp_all add: resolveDefinition_def Let_def split: option.split)

lemma resolveDefinition_digest:
  assumes "rd_state (resolveDefinition index anchors i d) = NeverVerified"
  shows "rd_mutationFileDigest (resolveDefinition index anchors i d) =
    (case map_of anchors i of Some anchor \<Rightarrow> ar_fileDigest anchor | None \<Rightarrow> None)"
  using assms by (auto simp: resolveDefinition_def Let_def UNREAD_ANCHOR_def split: option.splits if_splits)

text \<open>The one text the anchor was counted in, which the digest is of.\<close>

lemma resolved_digest:
  assumes "i < length definitions" "cd_problems (definitions ! i) = []"
    and "cd_mutationPath (definitions ! i) = Some path"
    and "map_of (filesRead hash look definitions) path = Some (FileContents contents digest)"
    and "rd_state (resolveDefinitions definitions (readAnchors hash look definitions) discovery current ! i) = NeverVerified"
  shows "rd_mutationFileDigest (resolveDefinitions definitions (readAnchors hash look definitions) discovery current ! i) =
    Some (hash contents)"
proof -
  obtain n where "FileContents contents digest = readMutationFile hash (look n path)" using filesRead_look [OF assms(4)] by blast
  then have "digest = hash contents" by (auto simp: readMutationFile_def split: sum.splits if_splits)
  then show ?thesis
    using assms readAnchors_at [OF assms(1,2), of hash look]
    by (simp add: resolveDefinitions_def Let_def resolveDefinition_digest anchorOf_def)
qed

definition subjectOf :: "string \<Rightarrow> DiscoveredTest \<Rightarrow> DefinitionMutation \<Rightarrow> string \<Rightarrow> DigestSubject" where
  "subjectOf defectId test mutation path =
     \<lparr>du_id = defectId, du_test = test, du_mutation = mutation, du_mutationPath = path\<rparr>"

lemma verified_subject:
  "isVerified (defectStandingOf hash index d) \<longleftrightarrow>
     (\<exists>defectId test mutation path record'. cd_id d = Some defectId \<and> cd_mutation d = Some mutation \<and>
        cd_mutationPath d = Some path \<and> rd_state d = NeverVerified \<and> rd_resolved d = Some test \<and>
        map_of (si_evidence index) defectId = Some record' \<and> se_verdict record' = VerdictDetected \<and>
        evidenceStands record' (definitionDigest hash (subjectOf defectId test mutation path) index) test
          (rd_mutationFileDigest d) index)" (is "?l \<longleftrightarrow> ?r")
proof
  assume ?l
  then obtain subject record' where "digestSubject d = Some subject" "rd_state d = NeverVerified"
    "map_of (si_evidence index) (du_id subject) = Some record'" "se_verdict record' = VerdictDetected"
    "evidenceStands record' (definitionDigest hash subject index) (du_test subject) (rd_mutationFileDigest d) index"
    unfolding isVerified_standing by blast
  moreover have "subjectOf (du_id subject) (du_test subject) (du_mutation subject) (du_mutationPath subject) = subject"
    by (simp add: subjectOf_def)
  ultimately show ?r by (metis digestSubject_Some)
next
  assume ?r
  then obtain defectId test mutation path record' where r: "cd_id d = Some defectId" "cd_mutation d = Some mutation"
    "cd_mutationPath d = Some path" "rd_state d = NeverVerified" "rd_resolved d = Some test"
    "map_of (si_evidence index) defectId = Some record'" "se_verdict record' = VerdictDetected"
    "evidenceStands record' (definitionDigest hash (subjectOf defectId test mutation path) index) test
      (rd_mutationFileDigest d) index" by blast
  then have "digestSubject d = Some (subjectOf defectId test mutation path)" by (simp add: digestSubject_Some subjectOf_def)
  then show ?l using r unfolding isVerified_standing by (auto simp: subjectOf_def)
qed

lemma verified_definition:
  assumes "i < length definitions"
  shows "isVerified (defectStandings hash
      (resolveDefinitions definitions (readAnchors hash look definitions) (sf_discovery facts) current) facts ! i) \<longleftrightarrow>
    (\<exists>wanted module test mutation path contents digest defectId record'.
       cd_problems (definitions ! i) = [] \<and>
       cd_test (definitions ! i) = Some wanted \<and> cd_modulePath (definitions ! i) = Some module \<and>
       filter (namesTest wanted) (testsIn (sf_discovery facts) module) = [test] \<and>
       cd_mutation (definitions ! i) = Some mutation \<and> cd_mutationPath (definitions ! i) = Some path \<and>
       map_of (filesRead hash look definitions) path = Some (FileContents contents digest) \<and>
       countAnchor contents (dm_old mutation) = 1 \<and> cd_id (definitions ! i) = Some defectId \<and>
       map_of (si_evidence (standingIndex facts)) defectId = Some record' \<and> se_verdict record' = VerdictDetected \<and>
       evidenceStands record' (definitionDigest hash (subjectOf defectId test mutation path) (standingIndex facts)) test
         (Some (hash contents)) (standingIndex facts))" (is "?l \<longleftrightarrow> ?r")
proof -
  define d where "d = resolveDefinitions definitions (readAnchors hash look definitions) (sf_discovery facts) current ! i"
  have kept: "cd_id d = cd_id (definitions ! i)" "cd_mutation d = cd_mutation (definitions ! i)"
    "cd_mutationPath d = cd_mutationPath (definitions ! i)"
    using assms by (simp_all add: d_def resolveDefinitions_def Let_def)
  note runs = definition_runnable [OF assms, of hash look "sf_discovery facts" current, folded d_def]
  have length: "i < length (resolveDefinitions definitions (readAnchors hash look definitions) (sf_discovery facts) current)"
    using assms by (simp add: resolveDefinitions_def Let_def)
  have "?l \<longleftrightarrow> isVerified (defectStandingOf hash (standingIndex facts) d)"
    by (simp add: defectStandings_def Let_def d_def length)
  also have "\<dots> \<longleftrightarrow> (\<exists>defectId test mutation path record'. cd_id d = Some defectId \<and> cd_mutation d = Some mutation \<and>
      cd_mutationPath d = Some path \<and> rd_state d = NeverVerified \<and> rd_resolved d = Some test \<and>
      map_of (si_evidence (standingIndex facts)) defectId = Some record' \<and> se_verdict record' = VerdictDetected \<and>
      evidenceStands record' (definitionDigest hash (subjectOf defectId test mutation path) (standingIndex facts)) test
        (rd_mutationFileDigest d) (standingIndex facts))"
    by (rule verified_subject)
  also have "\<dots> \<longleftrightarrow> ?r"
  proof
    assume "\<exists>defectId test mutation path record'. cd_id d = Some defectId \<and> cd_mutation d = Some mutation \<and>
      cd_mutationPath d = Some path \<and> rd_state d = NeverVerified \<and> rd_resolved d = Some test \<and>
      map_of (si_evidence (standingIndex facts)) defectId = Some record' \<and> se_verdict record' = VerdictDetected \<and>
      evidenceStands record' (definitionDigest hash (subjectOf defectId test mutation path) (standingIndex facts)) test
        (rd_mutationFileDigest d) (standingIndex facts)"
    then obtain defectId test mutation path record' where h: "cd_id d = Some defectId" "cd_mutation d = Some mutation"
      "cd_mutationPath d = Some path" "rd_state d = NeverVerified" "rd_resolved d = Some test"
      "map_of (si_evidence (standingIndex facts)) defectId = Some record'" "se_verdict record' = VerdictDetected"
      "evidenceStands record' (definitionDigest hash (subjectOf defectId test mutation path) (standingIndex facts)) test
        (rd_mutationFileDigest d) (standingIndex facts)" by blast
    then obtain wanted module contents digest where r: "cd_problems (definitions ! i) = []" "cd_test (definitions ! i) = Some wanted"
      "cd_modulePath (definitions ! i) = Some module" "filter (namesTest wanted) (testsIn (sf_discovery facts) module) = [test]"
      "map_of (filesRead hash look definitions) path = Some (FileContents contents digest)"
      "countAnchor contents (dm_old mutation) = 1"
      using runs [of test] kept by auto
    have "rd_mutationFileDigest d = Some (hash contents)"
      using resolved_digest [OF assms r(1) _ r(5), of "sf_discovery facts" current] h(3,4) kept by (simp add: d_def)
    then show ?r using h r kept by auto
  next
    assume ?r
    then obtain wanted module test mutation path contents digest defectId record' where r:
      "cd_problems (definitions ! i) = []" "cd_test (definitions ! i) = Some wanted"
      "cd_modulePath (definitions ! i) = Some module" "filter (namesTest wanted) (testsIn (sf_discovery facts) module) = [test]"
      "cd_mutation (definitions ! i) = Some mutation" "cd_mutationPath (definitions ! i) = Some path"
      "map_of (filesRead hash look definitions) path = Some (FileContents contents digest)"
      "countAnchor contents (dm_old mutation) = 1" "cd_id (definitions ! i) = Some defectId"
      "map_of (si_evidence (standingIndex facts)) defectId = Some record'" "se_verdict record' = VerdictDetected"
      "evidenceStands record' (definitionDigest hash (subjectOf defectId test mutation path) (standingIndex facts)) test
         (Some (hash contents)) (standingIndex facts)" by blast
    then have "rd_state d = NeverVerified \<and> rd_resolved d = Some test" using runs [of test] by blast
    moreover from this have "rd_mutationFileDigest d = Some (hash contents)"
      using resolved_digest [OF assms r(1,6,7), of "sf_discovery facts" current] by (simp add: d_def)
    ultimately show "\<exists>defectId test mutation path record'. cd_id d = Some defectId \<and> cd_mutation d = Some mutation \<and>
      cd_mutationPath d = Some path \<and> rd_state d = NeverVerified \<and> rd_resolved d = Some test \<and>
      map_of (si_evidence (standingIndex facts)) defectId = Some record' \<and> se_verdict record' = VerdictDetected \<and>
      evidenceStands record' (definitionDigest hash (subjectOf defectId test mutation path) (standingIndex facts)) test
        (rd_mutationFileDigest d) (standingIndex facts)"
      using r kept by auto
  qed
  finally show ?thesis .
qed

lemma readingVerdict_detected: "readingVerdict j = Some VerdictDetected \<longleftrightarrow> j = Detected"
  by (cases j) simp_all

section \<open>A verified definition, in small\<close>

definition detectedRun :: "VTestState \<Rightarrow> ProbeSite ExperimentRunFacts" where
  "detectedRun state = \<lparr>rf_test = Some (sampleTest state), rf_module = Some (Collected 0 []),
     rf_unhandledErrorCount = 0, rf_ending = cleanEnding, xf_mutation = []\<rparr>"

definition detectedFacts :: "ProbeSite ExperimentFacts" where
  "detectedFacts = \<lparr>sf_baseline = Some sampleBaseline, sf_restoredBaseline = Some (Restored sampleBaseline),
     sf_job = \<lparr>jf_unhandledErrorCount = 0, jf_closed = True\<rparr>,
     ef_body = BodyRan (detectedRun VFailed) (Some (ConfirmingFactsRan (detectedRun VFailed))) (Some (NextRecorded 0))\<rparr>"

definition smallTest :: DiscoveredTest where
  "smallTest = \<lparr>it_identity = \<lparr>workspacePath = ''.'', projectName = ''p'', modulePath = ''m'', namePath = [''t''], occurrence = 0\<rparr>,
     it_isDuplicate = False, dt_mode = ''run''\<rparr>"

definition smallMutation :: DefinitionMutation where
  "smallMutation = \<lparr>dm_file = ''f'', dm_old = ''x'', dm_new = ''y''\<rparr>"

definition smallDefinitions :: "CheckedDefinition list" where
  "smallDefinitions = [\<lparr>cd_file = ''a'', cd_position = 0, cd_id = Some ''d'',
     cd_test = Some \<lparr>dt_module = ''m'', dt_name = [''t''], dt_project = None, dt_occurrence = None\<rparr>,
     cd_modulePath = Some (testModuleFile ''.'' ''m''), cd_mutation = Some smallMutation, cd_mutationPath = Some ''/f'',
     cd_problems = []\<rparr>]"

definition smallLook :: "nat \<Rightarrow> string \<Rightarrow> FileLook" where
  "smallLook n path = \<lparr>fl_isFile = Inr True, fl_text = Inr ''x''\<rparr>"

definition smallDiscovery :: TestDiscovery where
  "smallDiscovery = \<lparr>td_workspaces = [WsDiscovered \<lparr>dw_workspace = \<lparr>ws_path = ''.'', ws_directory = ''/''\<rparr>,
     dw_vitestVersion = ''4.0.1'', dw_tests = [smallTest], dw_failedModules = [], dw_typecheckModules = [],
     dw_unsupportedProjects = [], dw_unhandledErrors = [], dw_selectionFacts = FactsNotReported, dw_closeError = None\<rparr>],
     td_notRead = [], td_notCovered = None\<rparr>"

definition smallStandingFacts :: "LatestEvidence \<Rightarrow> StandingFacts" where
  "smallStandingFacts latest = \<lparr>sf_consumerRoot = ''/'', sf_assertionErrors = [''Err''], sf_evidence = latest,
     sf_discovery = smallDiscovery, sf_discoveryCurrent = True, sf_currentFingerprint = (\<lambda>_. Some ''f''), sf_testStandings = []\<rparr>"

definition smallJudged :: Judged where
  "smallJudged = \<lparr>jd_defect = ''d'',
     jd_digest = definitionDigest (\<lambda>s. s) (subjectOf ''d'' smallTest smallMutation ''/f'')
       (standingIndex (smallStandingFacts \<lparr>le_evidence = [], le_evidenceRefusals = []\<rparr>)),
     jd_fileDigest = ''x'', jd_facts = detectedFacts\<rparr>"

definition smallReply :: RanReply where
  "smallReply = \<lparr>rp_vitestVersion = ''4.0.1'', rp_falsifierVersion = FALSIFIER_VERSION, rp_judgements = [], rp_experiments = []\<rparr>"

definition smallLatest :: LatestEvidence where
  "smallLatest = \<lparr>le_evidence = [evidenceOf sampleEvidenceBindings ''e'' ''4.0.1'' smallJudged], le_evidenceRefusals = []\<rparr>"

lemma detectedFacts_judged: "judge detectedFacts = Detected"
  by code_simp

lemma detectedFacts_ok: "evidenceFactsOk detectedFacts"
  by (simp add: evidenceFactsOk_def detectedFacts_def detectedRun_def sampleBaseline_def sampleTest_def runOk_def testOk_def
      hooksOk_def evidence_names)

lemma small_verified:
  "isVerified (defectStandings (\<lambda>s. s) (resolveDefinitions smallDefinitions (readAnchors (\<lambda>s. s) smallLook smallDefinitions)
     smallDiscovery True) (smallStandingFacts smallLatest) ! 0)"
  by code_simp

section \<open>The properties\<close>



text \<open>
  What a definition's digest covers. Two subjects digest the same text exactly when their ids, their tests' whole
  identities, their files relative to the consumer root and both texts of their mutations are the same, and the same
  names are declared as assertion errors, in whatever order and however often. The digest itself is one way only when
  the hash is.
\<close>

theorem digested_text_iff:
  "digestedText s (standingIndex facts) = digestedText s' (standingIndex facts') \<longleftrightarrow>
     du_id s = du_id s' \<and> it_identity (du_test s) = it_identity (du_test s') \<and>
     relativePosixPath (sf_consumerRoot facts) (du_mutationPath s) = relativePosixPath (sf_consumerRoot facts') (du_mutationPath s') \<and>
     dm_old (du_mutation s) = dm_old (du_mutation s') \<and> dm_new (du_mutation s) = dm_new (du_mutation s') \<and>
     set (sf_assertionErrors facts) = set (sf_assertionErrors facts')"
  by (rule digestedText_iff)

text \<open>
  A listing's order is the order of state, currency, file and position: the comparison the sort is given is negative
  exactly when the left comes first in it, and zero exactly when the two agree in all four.
\<close>

theorem compareStandings_order:
  "(compareStandings l r < 0 \<longleftrightarrow>
      (rankIn (ds_state l) DEFECT_STATES, currentRank l, cd_file (ds_definition l), cd_position (ds_definition l)) <
      (rankIn (ds_state r) DEFECT_STATES, currentRank r, cd_file (ds_definition r), cd_position (ds_definition r))) \<and>
   (compareStandings l r = 0 \<longleftrightarrow>
      ds_state l = ds_state r \<and> currentRank l = currentRank r \<and> cd_file (ds_definition l) = cd_file (ds_definition r) \<and>
      cd_position (ds_definition l) = cd_position (ds_definition r))"
proof -
  have "rankIn a DEFECT_STATES = rankIn b DEFECT_STATES \<longleftrightarrow> a = b" for a b
    by (cases a; cases b) (simp_all add: DEFECT_STATES_def)
  then show ?thesis using compareStandings_key [of l r] by (simp add: standingKey_def)
qed

end
