(* ===== verification/Summary.thy ===== *)
theory Summary
  imports Schedule CurrentInputs
begin

text \<open>
  The answers over all that is stored (\<^verbatim>\<open>query/summary.ts\<close>) and over what lies at or under one path
  (\<^verbatim>\<open>query/path-status.ts\<close>), with the caller's paths as they are taken (\<^verbatim>\<open>query/caller-paths.ts\<close>).
  A query with nothing to answer is the left of a sum. What the file system says of a path is a parameter.
\<close>

section \<open>What an answer reads\<close>

record DaemonView =
  vw_consumerRoot :: string
  vw_activity :: DaemonActivity
  vw_unstoredJobs :: "UnstoredJob list"
  vw_parts :: ScheduleParts
  vw_schedule :: WorkspaceSchedule

record DiscoveryFacts =
  di_discoveryId :: string
  di_adapterVersion :: nat
  di_adapterVersionCurrent :: bool
  di_freshness :: Freshness

record UnfingerprintedWorkspace =
  uw_workspacePath :: string
  uw_reason :: string

record AnswerContext =
  ac_consumerRoot :: string
  ac_currentAdapterVersion :: nat
  ac_discovery :: DiscoveryFacts
  ac_inputs :: InputFacts
  ac_unfingerprintedWorkspaces :: "UnfingerprintedWorkspace list"
  ac_nonInputsUnusable :: "string option"
  ac_inputsNotNarrowed :: "InputsNotNarrowed option"
  ac_activity :: DaemonActivity
  ac_unstoredJobs :: "UnstoredJob list"
  ac_schedule :: ScheduleFacts
  ac_latestSelection :: SelectionExplanation

record QueryBasis =
  qb_discovery :: StoredDiscovery
  qb_latestRuns :: "(string, StoredRun) jsmap"
  qb_refusedRuns :: "(string, string) jsmap"
  qb_standings :: "TestStanding list"
  qb_currentFingerprint :: CurrentFingerprints
  qb_discoveryCurrent :: bool
  qb_notDiscovered :: "NotDiscoveredEntry list"
  qb_context :: AnswerContext

definition MAX_NAMED_UNSTORED_JOBS :: nat where
  "MAX_NAMED_UNSTORED_JOBS = 20"

definition TYPECHECK_MODULE_REASON :: string where
  "TYPECHECK_MODULE_REASON = ''a typecheck module, whose tests RT Test does not discover or run''"

section \<open>What was not discovered\<close>

definition WORKSPACE_UNSUPPORTED_VITEST :: string where
  "WORKSPACE_UNSUPPORTED_VITEST = ''workspace-unsupported-vitest''"

definition WORKSPACE_DISCOVERY_FAILED :: string where
  "WORKSPACE_DISCOVERY_FAILED = ''workspace-discovery-failed''"

definition WORKSPACE_NOT_CONFIRMED :: string where
  "WORKSPACE_NOT_CONFIRMED = ''workspace-not-confirmed''"

definition WORKSPACE_NOT_VITEST :: string where
  "WORKSPACE_NOT_VITEST = ''workspace-not-vitest''"

definition WORKSPACE_UNHANDLED_ERRORS :: string where
  "WORKSPACE_UNHANDLED_ERRORS = ''workspace-unhandled-errors''"

definition FAILED_MODULE :: string where
  "FAILED_MODULE = ''failed-module''"

definition TYPECHECK_MODULE :: string where
  "TYPECHECK_MODULE = ''typecheck-module''"

definition UNSUPPORTED_PROJECT :: string where
  "UNSUPPORTED_PROJECT = ''unsupported-project''"

definition SOURCE_NOT_READ :: string where
  "SOURCE_NOT_READ = ''source-not-read''"

definition workspaceEntry :: "string \<Rightarrow> string \<Rightarrow> string \<Rightarrow> NotDiscoveredEntry" where
  "workspaceEntry kind path reason =
     \<lparr>ne_kind = kind, ne_workspacePath = Some path, ne_projectName = None, ne_modulePath = None, ne_source = None,
      ne_errorCount = None, ne_reason = cr_reason (cutReason reason),
      ne_omittedCharacters = cr_omittedCharacters (cutReason reason)\<rparr>"

definition errorsText :: "string list \<Rightarrow> string" where
  "errorsText errors = join [CHR 0x0A] errors"

definition discoveredWorkspaceEntries :: "DiscoveredWorkspace \<Rightarrow> NotDiscoveredEntry list" where
  "discoveredWorkspaceEntries d =
     (let path = ws_path (dw_workspace d) in
      (if dw_unhandledErrors d = [] then []
       else [(workspaceEntry WORKSPACE_UNHANDLED_ERRORS path (errorsText (dw_unhandledErrors d)))
               \<lparr>ne_errorCount := Some (length (dw_unhandledErrors d))\<rparr>]) @
      map (\<lambda>module. (workspaceEntry FAILED_MODULE path (errorsText (fm_errors module)))
             \<lparr>ne_projectName := Some (mr_projectName module), ne_modulePath := Some (mr_modulePath module),
              ne_errorCount := Some (length (fm_errors module))\<rparr>) (dw_failedModules d) @
      map (\<lambda>module. (workspaceEntry TYPECHECK_MODULE path TYPECHECK_MODULE_REASON)
             \<lparr>ne_projectName := Some (mr_projectName module), ne_modulePath := Some (mr_modulePath module)\<rparr>)
        (dw_typecheckModules d) @
      map (\<lambda>project. (workspaceEntry UNSUPPORTED_PROJECT path (up_reason project))
             \<lparr>ne_projectName := Some (up_projectName project)\<rparr>) (dw_unsupportedProjects d))"

fun workspaceEntries :: "WorkspaceDiscovery \<Rightarrow> NotDiscoveredEntry list" where
  "workspaceEntries (WsUnsupported w vitest) = [workspaceEntry WORKSPACE_UNSUPPORTED_VITEST (ws_path w) (uv_reason vitest)]"
| "workspaceEntries (WsFailed w failed) = [workspaceEntry WORKSPACE_DISCOVERY_FAILED (ws_path w) (fs_error failed)]"
| "workspaceEntries (WsNotConfirmed w reason) = [workspaceEntry WORKSPACE_NOT_CONFIRMED (ws_path w) reason]"
| "workspaceEntries (WsDiscovered d) = discoveredWorkspaceEntries d"

definition notDiscoveredEntries :: "TestDiscovery \<Rightarrow> NotDiscoveredEntry list" where
  "notDiscoveredEntries discovery =
     flat_map workspaceEntries (td_workspaces discovery) @
     map (\<lambda>w. workspaceEntry WORKSPACE_NOT_VITEST (ncw_path w) (ncw_reason w))
       (case td_notCovered discovery of None \<Rightarrow> [] | Some ws \<Rightarrow> ws) @
     map (\<lambda>unread. (workspaceEntry SOURCE_NOT_READ [] (us_reason unread))
            \<lparr>ne_workspacePath := None, ne_source := Some (us_source unread)\<rparr>) (td_notRead discovery)"

section \<open>The texts of no answer\<close>

definition jobName :: "UnstoredJob \<Rightarrow> string" where
  "jobName job =
     (case uj_workspacePath job of
        None \<Rightarrow> ''the discovery''
      | Some path \<Rightarrow> (if uj_falsification job then ''the falsification of '' @ path else ''the run of '' @ path))"

definition cutText :: "string \<Rightarrow> string" where
  "cutText reason = cr_reason (cutReason reason) @ omittedText (cr_omittedCharacters (cutReason reason))"

definition answeredJob :: "UnstoredJob \<Rightarrow> UnstoredJob" where
  "answeredJob job = job\<lparr>uj_reason := cutText (uj_reason job)\<rparr>"

definition unstoredClause :: "UnstoredJob list \<Rightarrow> string" where
  "unstoredClause jobs =
     (if jobs = [] then []
      else let names = map (\<lambda>job. jobName job @ '': '' @ cutText (uj_reason job)) (take MAX_NAMED_UNSTORED_JOBS jobs);
               left = length jobs - length names
           in ''; ended with nothing stored: '' @ join ''; '' names @
              (if left = 0 then [] else ''; and '' @ show_nat left @ '' more''))"

definition daemonClause :: "DaemonView \<Rightarrow> nat \<Rightarrow> string" where
  "daemonClause daemon revision =
     ''it is '' @ activityText (vw_activity daemon) @ ''; '' @ roundText (roundAt revision (vw_schedule daemon)) @
     unstoredClause (vw_unstoredJobs daemon)"

definition refusedDiscoveryReason :: "string \<Rightarrow> DaemonView \<Rightarrow> string \<Rightarrow> string" where
  "refusedDiscoveryReason why daemon doing =
     ''the daemon serving '' @ vw_consumerRoot daemon @
     '' refused the latest discovery stored for this worktree as unreadable, so it answers once a new discovery replaces it; '' @
     doing @ ''. The refusal: '' @ cutText why"

section \<open>The basis\<close>

definition workspaceFingerprints :: "TestDiscovery \<Rightarrow> CurrentInputs \<Rightarrow> (string, FingerprintResult) jsmap" where
  "workspaceFingerprints discovery inputs =
     jmap_of (flat_map (\<lambda>entry. case entry of
         WsDiscovered d \<Rightarrow> [(ws_path (dw_workspace d), ci_workspaceFingerprint inputs entry)] | _ \<Rightarrow> [])
       (td_workspaces discovery))"

definition unfingerprinted :: "(string, FingerprintResult) jsmap \<Rightarrow> UnfingerprintedWorkspace list" where
  "unfingerprinted fingerprints =
     flat_map (\<lambda>(path, print). case print of
         Digest _ \<Rightarrow> [] | NoDigest reason \<Rightarrow> [\<lparr>uw_workspacePath = path, uw_reason = reason\<rparr>]) fingerprints"

definition basisOver :: "StoredDiscovery \<Rightarrow> LatestResults \<Rightarrow> DaemonView \<Rightarrow> CurrentInputs \<Rightarrow> QueryBasis" where
  "basisOver stored results daemon inputs =
     (let discovery = st_discovery stored;
          latestRuns = latestRunsMap results;
          refusedRuns = refusedRunsMap results;
          fingerprints = workspaceFingerprints discovery inputs;
          currentFingerprint = (\<lambda>path. fingerprintDigest (map_of fingerprints path));
          freshness = recordFreshness stored (fingerprintDigest (Some (ci_discoveryFingerprint inputs discovery)));
          (scheduled, selection) = readSchedule (vw_parts daemon)
            \<lparr>sq_revision = if_revision (ci_facts inputs), sq_activity = vw_activity daemon,
             sq_workspaces = td_workspaces discovery, sq_latestRuns = latestRuns, sq_refusedRuns = refusedRuns,
             sq_fingerprint = (\<lambda>entry. case map_of fingerprints (entryPath entry) of
                Some print \<Rightarrow> print | None \<Rightarrow> ci_workspaceFingerprint inputs entry)\<rparr> (vw_schedule daemon)
      in \<lparr>qb_discovery = stored, qb_latestRuns = latestRuns, qb_refusedRuns = refusedRuns,
          qb_standings = testStandings discovery latestRuns refusedRuns currentFingerprint (freshness = Current),
          qb_currentFingerprint = currentFingerprint, qb_discoveryCurrent = (freshness = Current),
          qb_notDiscovered = notDiscoveredEntries discovery,
          qb_context = \<lparr>ac_consumerRoot = vw_consumerRoot daemon, ac_currentAdapterVersion = VITEST_ADAPTER_VERSION,
            ac_discovery = \<lparr>di_discoveryId = st_discoveryId stored, di_adapterVersion = sb_adapterVersion stored,
              di_adapterVersionCurrent = isCurrentAdapterVersion (sb_adapterVersion stored),
              di_freshness = listFreshness freshness discovery latestRuns refusedRuns currentFingerprint\<rparr>,
            ac_inputs = ci_facts inputs,
            ac_unfingerprintedWorkspaces = (if ci_unavailable inputs = None then unfingerprinted fingerprints else []),
            ac_nonInputsUnusable = ci_nonInputsUnusable inputs, ac_inputsNotNarrowed = ci_inputsNotNarrowed inputs,
            ac_activity = vw_activity daemon, ac_unstoredJobs = map answeredJob (vw_unstoredJobs daemon),
            ac_schedule = scheduled, ac_latestSelection = selection\<rparr>\<rparr>)"

definition queryBasis :: "LatestResults \<Rightarrow> DaemonView \<Rightarrow> CurrentInputs \<Rightarrow> string + QueryBasis" where
  "queryBasis results daemon inputs =
     (case lr_discovery results of
        Some stored \<Rightarrow> Inr (basisOver stored results daemon inputs)
      | None \<Rightarrow>
          (let doing = daemonClause daemon (if_revision (ci_facts inputs))
           in Inl (case lr_discoveryRefusal results of
                None \<Rightarrow> ''the daemon serving '' @ vw_consumerRoot daemon @
                  '' has stored no discovery for this worktree; '' @ doing
              | Some why \<Rightarrow> refusedDiscoveryReason why daemon doing)))"

section \<open>The summary\<close>

datatype RunStatusFacts =
    StatusRan RunExecution bool "NothingRanReason option" nat nat
  | StatusCrashed CutReason
  | StatusFailed
  | StatusUnsupported
  | StatusInterrupted

record LatestRunFacts =
  lf_runId :: string
  lf_invalidated :: "CutReason option"
  lf_adapterVersion :: nat
  lf_adapterVersionCurrent :: bool
  lf_status :: RunStatusFacts

record WorkspaceFacts =
  wf_workspacePath :: string
  wf_latestRun :: "LatestRunFacts option"
  wf_refusedRun :: "CutReason option"

definition moduleErrorCount :: "RecordedModule \<Rightarrow> nat" where
  "moduleErrorCount module = (case rcm_state module of
     ModuleRan _ errors \<Rightarrow> length errors | ModuleFailed errors \<Rightarrow> length errors | _ \<Rightarrow> 0)"

fun runStatusFacts :: "WorkspaceRun \<Rightarrow> RunStatusFacts" where
  "runStatusFacts (CrashedRun why) = StatusCrashed (cutReason why)"
| "runStatusFacts (RanRun facts modules) =
     StatusRan (rn_execution facts) (rn_forceStopped facts) (rn_nothingRan facts) (length (rn_unhandledErrors facts))
       (sum_list (map moduleErrorCount modules))"
| "runStatusFacts (FailedRun _) = StatusFailed"
| "runStatusFacts (UnsupportedRun _) = StatusUnsupported"
| "runStatusFacts InterruptedBeforeLoadRun = StatusInterrupted"

definition latestRunFacts :: "StoredRun option \<Rightarrow> WorkspaceSchedule \<Rightarrow> LatestRunFacts option" where
  "latestRunFacts stored schedule =
     map_option (\<lambda>run. \<lparr>lf_runId = sr_runId run, lf_invalidated = invalidation run schedule,
       lf_adapterVersion = sb_adapterVersion run, lf_adapterVersionCurrent = isCurrentAdapterVersion (sb_adapterVersion run),
       lf_status = runStatusFacts (sr_run run)\<rparr>) stored"

definition workspaceFacts :: "string \<Rightarrow> QueryBasis \<Rightarrow> WorkspaceSchedule \<Rightarrow> WorkspaceFacts" where
  "workspaceFacts path basis schedule =
     (case latestRunFacts (map_of (qb_latestRuns basis) path) schedule of
        Some facts \<Rightarrow> \<lparr>wf_workspacePath = path, wf_latestRun = Some facts, wf_refusedRun = None\<rparr>
      | None \<Rightarrow> \<lparr>wf_workspacePath = path, wf_latestRun = None,
          wf_refusedRun = map_option cutReason (map_of (qb_refusedRuns basis) path)\<rparr>)"

record SummaryAnswer = AnswerContext +
  sm_counts :: TestCounts
  sm_duplicateTests :: nat
  sm_notDiscovered :: "NotDiscoveredEntry list"
  sm_workspaces :: "WorkspaceFacts list"

definition summaryAnswer :: "LatestResults \<Rightarrow> DaemonView \<Rightarrow> CurrentInputs \<Rightarrow> string + SummaryAnswer" where
  "summaryAnswer results daemon inputs =
     (case queryBasis results daemon inputs of
        Inl why \<Rightarrow> Inl why
      | Inr basis \<Rightarrow>
          (if qb_standings basis = [] \<and> qb_notDiscovered basis = []
           then Inl (''the latest discovery stored for '' @ vw_consumerRoot daemon @
             '' holds no test and nothing RT Test could not discover'')
           else Inr (AnswerContext.extend (qb_context basis) (SummaryAnswer.fields
             (countStandings (qb_standings basis))
             (length (filter (\<lambda>s. it_isDuplicate (ts_test s)) (qb_standings basis)))
             (qb_notDiscovered basis)
             (map (\<lambda>entry. workspaceFacts (entryPath entry) basis (vw_schedule daemon))
               (td_workspaces (st_discovery (qb_discovery basis))))))))"

section \<open>A caller's path\<close>

record CallerPath =
  cp_given :: string
  cp_path :: string

text \<open>\<^verbatim>\<open>posix.dirname\<close> goes up until it stays where it is.\<close>

definition upwards :: "string \<Rightarrow> nat" where
  "upwards path = (if path = ''.'' then 0 else Suc (length path))"

lemma dropTrailing_length: "length (dropTrailing path) \<le> length path"
  using length_dropWhile_le [of "\<lambda>c. c = separator" "rev path"] by (simp add: dropTrailing_def)

lemma upTo_length:
  assumes "upTo = rev (dropWhile (\<lambda>c. c \<noteq> separator) (rev (dropTrailing path)))" "upTo \<noteq> []"
  shows "length upTo < length path"
proof -
  define xs where "xs = rev (dropTrailing path)"
  have xs: "xs = dropWhile (\<lambda>c. c = separator) (rev path)" by (simp add: xs_def dropTrailing_def)
  obtain c cs where cons: "xs = c # cs" using assms by (cases xs) (auto simp: xs_def)
  have "dropWhile (\<lambda>c. c = separator) (rev path) = c # cs" using cons xs by simp
  then have "c \<noteq> separator" by (metis (full_types) hd_dropWhile list.distinct(1) list.sel(1))
  then have "upTo = rev (dropWhile (\<lambda>c. c \<noteq> separator) cs)" using assms(1) cons by (simp add: xs_def [symmetric])
  then have "length upTo < length xs"
    using length_dropWhile_le [of "\<lambda>c. c \<noteq> separator" cs] by (simp add: cons)
  moreover have "length xs \<le> length path" using dropTrailing_length [of path] by (simp add: xs_def)
  ultimately show ?thesis by simp
qed

lemma posixDirname_up: "posixDirname path \<noteq> path \<Longrightarrow> upwards (posixDirname path) < upwards path"
proof -
  assume moved: "posixDirname path \<noteq> path"
  define upTo where "upTo = rev (dropWhile (\<lambda>c. c \<noteq> separator) (rev (dropTrailing path)))"
  have dir: "posixDirname path = (if length upTo \<le> 1 then (if isAbsolute path then ''/'' else ''.'')
      else if isAbsolute path \<and> length upTo = 2 then ''//'' else butlast upTo)"
    by (simp add: posixDirname_def upTo_def Let_def)
  have shorter: "length upTo < length path" if "upTo \<noteq> []" using upTo_length [OF upTo_def that] .
  have stays: "posixDirname ''.'' = ''.''" by (simp add: posixDirname_def dropTrailing_def isAbsolute_def starts_with_def)
  have "path \<noteq> ''.''" using moved stays by auto
  moreover have "length ''/'' < length path" if "isAbsolute path" "path \<noteq> ''/''"
    using that by (cases path; cases "tl path") (auto simp: isAbsolute_def starts_with_def)
  ultimately show ?thesis using moved shorter
    by (cases "upTo = []") (auto simp: dir upwards_def split: if_splits)
qed

function canonicalPath :: "FileSystem \<Rightarrow> string \<Rightarrow> string list \<Rightarrow> string + string \<times> string list" where
  "canonicalPath fs current missing =
     (case realPath fs current of
        Inr real \<Rightarrow> Inr (posixJoin (real # missing), missing)
      | Inl why \<Rightarrow>
          (if posixDirname current = current then Inl why
           else canonicalPath fs (posixDirname current) (posixBasename current # missing)))"
  by pat_completeness auto
termination by (relation "measure (\<lambda>(fs, current, missing). upwards current)") (simp_all add: posixDirname_up)

declare canonicalPath.simps [simp del]

definition endsInDotOrSpace :: "string \<Rightarrow> bool" where
  "endsInDotOrSpace name = (name \<noteq> [] \<and> last name \<in> {CHR ''.'', CHR '' ''})"

fun hasShortNameForm :: "string \<Rightarrow> bool" where
  "hasShortNameForm (a # b # rest) = (a = CHR ''~'' \<and> CHR ''0'' \<le> b \<and> b \<le> CHR ''9'' \<or> hasShortNameForm (b # rest))"
| "hasShortNameForm _ = False"

fun ambiguousName :: "string list \<Rightarrow> string option" where
  "ambiguousName [] = None"
| "ambiguousName (name # names) =
     (if endsInDotOrSpace name \<or> hasShortNameForm name
      then Some (''names nothing that exists, and its name \"'' @ name @ ''\" '' @
        (if endsInDotOrSpace name then ''ends in a dot or a space'' else ''has an 8.3 short-name form'') @
        '', which Windows may read as another name'')
      else ambiguousName names)"

definition resolveCallerPath :: "FileSystem \<Rightarrow> bool \<Rightarrow> string \<Rightarrow> string \<Rightarrow> string + CallerPath" where
  "resolveCallerPath fs windows absolutePath consumerRoot =
     (case realPath fs consumerRoot of
        Inl why \<Rightarrow> Inl (''the consumer root '' @ consumerRoot @ '' '' @ why)
      | Inr root \<Rightarrow>
          (case canonicalPath fs absolutePath [] of
             Inl why \<Rightarrow> Inl (absolutePath @ '' '' @ why)
           | Inr (path, missing) \<Rightarrow>
               (if \<not> liesInside root path
                then Inl (absolutePath @ '' lies outside the consumer root '' @ consumerRoot)
                else case (if windows then ambiguousName missing else None) of
                    Some ambiguous \<Rightarrow> Inl (absolutePath @ '' '' @ ambiguous)
                  | None \<Rightarrow>
                      (let relative = relativePosixPath root path
                       in Inr \<lparr>cp_given = absolutePath, cp_path = (if relative = [] then ROOT_PATH else relative)\<rparr>))))"

section \<open>The status of a path\<close>

record UnreadPath =
  up_path :: string
  up_unreadReason :: string

definition isModuleEntry :: "NotDiscoveredEntry \<Rightarrow> bool" where
  "isModuleEntry entry = (ne_kind entry = FAILED_MODULE \<or> ne_kind entry = TYPECHECK_MODULE)"

definition notDiscoveredPath :: "NotDiscoveredEntry \<Rightarrow> string" where
  "notDiscoveredPath entry =
     (let workspace = (case ne_workspacePath entry of Some path \<Rightarrow> path | None \<Rightarrow> []) in
      if ne_kind entry = SOURCE_NOT_READ
      then posixNormalize (case ne_source entry of Some source \<Rightarrow> source | None \<Rightarrow> [])
      else if ne_kind entry \<in> {WORKSPACE_UNSUPPORTED_VITEST, WORKSPACE_DISCOVERY_FAILED, WORKSPACE_NOT_CONFIRMED,
        WORKSPACE_NOT_VITEST, WORKSPACE_UNHANDLED_ERRORS, UNSUPPORTED_PROJECT} then workspace
      else testModuleFile workspace (case ne_modulePath entry of Some module \<Rightarrow> module | None \<Rightarrow> []))"

definition testFile :: "TestStanding \<Rightarrow> string" where
  "testFile standing =
     (let identity = it_identity (ts_test standing) in testModuleFile (workspacePath identity) (modulePath identity))"

definition encloses :: "NotDiscoveredEntry \<Rightarrow> string \<Rightarrow> bool" where
  "encloses entry target =
     (\<not> isModuleEntry entry \<and> liesAtOrUnder target (notDiscoveredPath entry) \<and> \<not> liesAtOrUnder (notDiscoveredPath entry) target)"

definition nothingAtPathReason :: "string \<Rightarrow> NotDiscoveredEntry list \<Rightarrow> string" where
  "nothingAtPathReason absolutePath enclosing =
     (let nothing = ''no discovered test and no entry RT Test could not discover lies at or under '' @ absolutePath in
      if enclosing = [] then nothing
      else nothing @ ''; it lies in '' @ join '', '' (map (\<lambda>entry. ne_kind entry @ '' '' @ notDiscoveredPath entry) enclosing))"

definition withoutFingerprints :: "CurrentInputs \<Rightarrow> UnreadPath list \<Rightarrow> CurrentInputs" where
  "withoutFingerprints inputs unread =
     (if unread = [] then inputs
      else let reason = ''the status could not read what it names: '' @
                 namedList (map (\<lambda>u. up_path u @ '' ('' @ up_unreadReason u @ '')'') unread)
           in inputs\<lparr>ci_snapshot := None, ci_workspaceFingerprint := (\<lambda>_. NoDigest reason),
                ci_discoveryFingerprint := (\<lambda>_. NoDigest reason),
                ci_protectedFileChangedSince := (\<lambda>_ _. Some reason)\<rparr>)"

datatype PathKind = FilePath | FolderPath

text \<open>\<open>isDirectory\<close> is what a stat of the absolute path says, or that there is nothing to say.\<close>

definition kindOf :: "string \<Rightarrow> bool option \<Rightarrow> TestStanding list \<Rightarrow> NotDiscoveredEntry list \<Rightarrow> PathKind" where
  "kindOf target isDirectory standings entries =
     (if target = ROOT_PATH then FolderPath
      else case isDirectory of
          Some directory \<Rightarrow> (if directory then FolderPath else FilePath)
        | None \<Rightarrow>
            (if list_ex (\<lambda>standing. testFile standing = target) standings \<or>
                list_ex (\<lambda>entry. isModuleEntry entry \<and> notDiscoveredPath entry = target) entries
             then FilePath else FolderPath))"

definition addToFile :: "TestStanding \<Rightarrow> (string, TestStanding list) jsmap \<Rightarrow> (string, TestStanding list) jsmap" where
  "addToFile standing byFile =
     (case map_of byFile (testFile standing) of
        None \<Rightarrow> jset (testFile standing) [standing] byFile
      | Some group' \<Rightarrow> jset (testFile standing) (group' @ [standing]) byFile)"

definition fileCounts :: "TestStanding list \<Rightarrow> (string \<times> TestCounts) list" where
  "fileCounts standings =
     (let byFile = fold addToFile standings []
      in map (\<lambda>file. (file, countStandings (case map_of byFile file of Some group' \<Rightarrow> group' | None \<Rightarrow> [])))
           (sort (keys byFile)))"

record PathStatusAnswer = AnswerContext +
  pa_path :: string
  pa_pathKind :: PathKind
  pa_counts :: TestCounts
  pa_files :: "(string \<times> TestCounts) list"
  pa_notDiscovered :: "NotDiscoveredEntry list"
  pa_enclosing :: "NotDiscoveredEntry list"

definition pathStatusAnswer :: "bool option \<Rightarrow> CallerPath \<Rightarrow> LatestResults \<Rightarrow> DaemonView \<Rightarrow> CurrentInputs \<Rightarrow>
    string + PathStatusAnswer" where
  "pathStatusAnswer isDirectory target results daemon inputs =
     (case queryBasis results daemon inputs of
        Inl why \<Rightarrow> Inl why
      | Inr basis \<Rightarrow>
          (let standings = filter (\<lambda>s. liesAtOrUnder (testFile s) (cp_path target)) (qb_standings basis);
               entries = filter (\<lambda>e. liesAtOrUnder (notDiscoveredPath e) (cp_path target)) (qb_notDiscovered basis);
               enclosing = filter (\<lambda>e. encloses e (cp_path target)) (qb_notDiscovered basis)
           in if standings = [] \<and> entries = [] then Inl (nothingAtPathReason (cp_given target) enclosing)
              else let kind = kindOf (cp_path target) isDirectory standings entries
                   in Inr (AnswerContext.extend (qb_context basis) (PathStatusAnswer.fields (cp_path target) kind
                        (countStandings standings) (if kind = FolderPath then fileCounts standings else [])
                        entries enclosing))))"

section \<open>What the answers account for\<close>

lemma fold_addToFile:
  "keys (fold addToFile ss m) = fold jadd (map testFile ss) (keys m)"
  "(case map_of (fold addToFile ss m) file of Some g \<Rightarrow> g | None \<Rightarrow> []) =
     (case map_of m file of Some g \<Rightarrow> g | None \<Rightarrow> []) @ filter (\<lambda>s. testFile s = file) ss"
proof (induction ss arbitrary: m)
  case (Cons s ss)
  case 1
  have "keys (addToFile s m) = jadd (testFile s) (keys m)"
    by (cases "map_of m (testFile s)") (auto simp: addToFile_def keys_jset jadd_def in_keys_iff)
  then show ?case by (simp add: Cons(1))
next
  case (Cons s ss)
  case 2
  have "(case map_of (addToFile s m) file of Some g \<Rightarrow> g | None \<Rightarrow> []) =
      (case map_of m file of Some g \<Rightarrow> g | None \<Rightarrow> []) @ (if testFile s = file then [s] else [])"
    by (auto simp: addToFile_def split: option.split)
  then show ?case by (simp add: Cons(2))
qed simp_all

lemma fileCounts_eq:
  "fileCounts ss = map (\<lambda>file. (file, countStandings (filter (\<lambda>s. testFile s = file) ss))) (sort (uniq (map testFile ss)))"
  using fold_addToFile(1) [of ss "[]"] fold_addToFile(2) [of ss "[]"]
  by (simp add: fileCounts_def Let_def uniq_def keys_def)

lemma sum_filters:
  assumes "distinct ks" "f ` set xs \<subseteq> set ks"
  shows "sum_list (map (\<lambda>k. length (filter (\<lambda>x. f x = k) xs)) ks) = length xs"
  using assms(2)
proof (induction xs)
  case (Cons x xs)
  have "sum_list (map (\<lambda>k. length (filter (\<lambda>x. f x = k) (x # xs))) ks) =
      sum_list (map (\<lambda>k. (if f x = k then 1 else 0) + length (filter (\<lambda>x. f x = k) xs)) ks)"
    by (rule arg_cong [where f = sum_list], rule map_cong) auto
  also have "\<dots> = sum_list (map (\<lambda>k. if f x = k then 1 else 0) ks) + length xs"
    using Cons by (simp add: sum_list_addf)
  also have "sum_list (map (\<lambda>k. if f x = k then 1 else (0::nat)) ks) = 1"
  proof -
    have "sum_list (map (\<lambda>k. if y = k then 1 else (0::nat)) ks) = (if y \<in> set ks then 1 else 0)" for y
      using assms(1) by (induction ks) auto
    then show ?thesis using Cons.prems by simp
  qed
  finally show ?case by simp
qed simp

lemma fileCounts_total: "sum_list (map (\<lambda>(_, counts). tc_tests counts) (fileCounts ss)) = length ss"
  using sum_filters [of "sort (uniq (map testFile ss))" testFile ss]
  by (simp add: fileCounts_eq countStandings_def comp_def)

lemma AnswerContext_extended [simp]:
  "pa_path (AnswerContext.extend c (PathStatusAnswer.fields p k n fs es xs)) = p"
  "pa_pathKind (AnswerContext.extend c (PathStatusAnswer.fields p k n fs es xs)) = k"
  "pa_counts (AnswerContext.extend c (PathStatusAnswer.fields p k n fs es xs)) = n"
  "pa_files (AnswerContext.extend c (PathStatusAnswer.fields p k n fs es xs)) = fs"
  "pa_notDiscovered (AnswerContext.extend c (PathStatusAnswer.fields p k n fs es xs)) = es"
  "pa_enclosing (AnswerContext.extend c (PathStatusAnswer.fields p k n fs es xs)) = xs"
  "AnswerContext.truncate (AnswerContext.extend c (PathStatusAnswer.fields p k n fs es xs)) = c"
  by (simp_all add: AnswerContext.defs PathStatusAnswer.defs)

text \<open>A caller's path is taken only when it lies in the root, whatever its spelling.\<close>

lemma resolved_inside:
  assumes "resolveCallerPath fs windows absolutePath consumerRoot = Inr target"
  shows "\<not> climbsOut (cp_path target)" and "cp_given target = absolutePath"
proof -
  obtain root path where "liesInside root path"
    "target = \<lparr>cp_given = absolutePath, cp_path = (if relativePosixPath root path = [] then ROOT_PATH else relativePosixPath root path)\<rparr>"
    using assms by (auto simp: resolveCallerPath_def Let_def split: sum.splits option.splits if_splits)
  then show "\<not> climbsOut (cp_path target)" "cp_given target = absolutePath"
    by (auto simp: liesInside_def Let_def relativePosixPath_def climbsOut_def ROOT_PATH_def parentSegment_def starts_with_def)
qed

lemma testStandings_length:
  "length (testStandings discovery latestRuns refusedRuns current vouched) =
     sum_list (map (\<lambda>entry. case entry of WsDiscovered d \<Rightarrow> length (dw_tests d) | _ \<Rightarrow> 0) (td_workspaces discovery))"
  by (auto simp: testStandings_def flat_map_def length_concat comp_def Let_def unanswered_def workspaceStandings_def
      intro!: arg_cong [where f = sum_list] split: WorkspaceDiscovery.split option.split WorkspaceRun.split)

end
