(* ===== verification/WorktreeStandings.thy ===== *)
theory WorktreeStandings
  imports DefectStandings Summary
begin

text \<open>
  Every definition of a worktree with its standing (\<^verbatim>\<open>defects/worktree-standings.ts\<close>): the definition files and each
  mutation's file as they are read, then the daemon's moment, over which every definition is resolved and rated. Of the
  abort signal nothing is modelled: it ends the read with no answer.
\<close>

section \<open>The read\<close>

record WorktreeStandings =
  wt_basis :: QueryBasis
  wt_invalidEntries :: "InvalidEntry list"
  wt_assertionErrors :: "string list"
  wt_definitions :: "ResolvedDefinition list"
  wt_standings :: "DefectStanding list"

definition standingFacts :: "string \<Rightarrow> string list \<Rightarrow> LatestEvidence \<Rightarrow> QueryBasis \<Rightarrow> StandingFacts" where
  "standingFacts consumerRoot assertionErrors latest basis =
     \<lparr>sf_consumerRoot = consumerRoot, sf_assertionErrors = assertionErrors, sf_evidence = latest,
      sf_discovery = st_discovery (qb_discovery basis), sf_discoveryCurrent = qb_discoveryCurrent basis,
      sf_currentFingerprint = qb_currentFingerprint basis, sf_testStandings = qb_standings basis\<rparr>"

definition worktreeStandings :: "(string \<Rightarrow> string) \<Rightarrow> WalkHost \<Rightarrow> FileSystem \<Rightarrow> (nat \<Rightarrow> string \<Rightarrow> FileLook) \<Rightarrow> string \<Rightarrow>
    string \<Rightarrow> LatestResults \<Rightarrow> LatestEvidence \<Rightarrow> DaemonView \<Rightarrow> CurrentInputs \<Rightarrow> string + WorktreeStandings" where
  "worktreeStandings hash host fs look consumerRoot stateDirectory results latest daemon inputs =
     (let files = readDefinitionFiles host consumerRoot stateDirectory;
          checked = checkDefinitions fs consumerRoot (df_definitions files);
          anchors = readAnchors hash look checked
      in case queryBasis results daemon inputs of
           Inl why \<Rightarrow> Inl why
         | Inr basis \<Rightarrow>
             (let listsCurrent = (di_freshness (ac_discovery (qb_context basis)) = Current);
                  definitions = resolveDefinitions checked anchors (st_discovery (qb_discovery basis)) listsCurrent
              in Inr \<lparr>wt_basis = basis, wt_invalidEntries = df_invalidEntries files,
                   wt_assertionErrors = df_assertionErrors files, wt_definitions = definitions,
                   wt_standings = defectStandings hash definitions
                     (standingFacts consumerRoot (df_assertionErrors files) latest basis)\<rparr>))"

section \<open>What a current fingerprint is of\<close>

lemma fingerprint_of_entry:
  assumes "queryBasis results daemon inputs = Inr basis" "qb_currentFingerprint basis path = Some digest"
  shows "\<exists>d. WsDiscovered d \<in> set (td_workspaces (st_discovery (qb_discovery basis))) \<and> ws_path (dw_workspace d) = path \<and>
    ci_workspaceFingerprint inputs (WsDiscovered d) = Digest digest"
proof -
  obtain stored where stored: "lr_discovery results = Some stored" "basis = basisOver stored results daemon inputs"
    using assms(1) by (auto simp: queryBasis_def Let_def split: option.splits)
  then have parts: "qb_discovery basis = stored"
    "fingerprintDigest (map_of (workspaceFingerprints (st_discovery stored) inputs) path) = Some digest"
    using assms(2) by (simp_all add: basisOver_def Let_def split: prod.splits)
  from parts(2) have "map_of (workspaceFingerprints (st_discovery stored) inputs) path = Some (Digest digest)"
    by (simp add: fingerprintDigest_def split: option.splits FingerprintResult.splits)
  from map_of_SomeD [OF this [unfolded workspaceFingerprints_def map_of_jmap_of]]
  have "(path, Digest digest) \<in> (\<Union>entry \<in> set (td_workspaces (st_discovery stored)). set (case entry of
      WsDiscovered d \<Rightarrow> [(ws_path (dw_workspace d), ci_workspaceFingerprint inputs entry)] | _ \<Rightarrow> []))"
    by simp
  then obtain entry where entry: "entry \<in> set (td_workspaces (st_discovery stored))" "(path, Digest digest) \<in> set (case entry of
      WsDiscovered d \<Rightarrow> [(ws_path (dw_workspace d), ci_workspaceFingerprint inputs entry)] | _ \<Rightarrow> [])" by blast
  then show ?thesis using parts(1) by (cases entry) auto
qed

lemma standing_definition:
  assumes "standing \<in> set (defectStandings hash definitions facts)"
  shows "ds_definition standing \<in> set definitions \<and> standing = defectStandingOf hash (standingIndex facts) (ds_definition standing)"
proof -
  obtain d where "d \<in> set definitions" "standing = defectStandingOf hash (standingIndex facts) d"
    using assms by (auto simp: defectStandings_def Let_def)
  moreover have "ds_definition (defectStandingOf hash (standingIndex facts) d) = d"
    by (auto simp: defectStandingOf_def notRunnable_def Let_def split: option.split prod.split)
  ultimately show ?thesis by simp
qed

lemma worktree_verified_facts:
  assumes "worktreeStandings hash host fs look consumerRoot stateDirectory results latest daemon inputs = Inr w"
    and "selectEvidence scope db = Inr latest" "standing \<in> set (wt_standings w)" "isVerified standing"
  shows "\<exists>record' found test d. record' \<in> set (le_evidence latest) \<and>
    cd_id (ds_definition standing) = Some (se_defectId record') \<and> se_judgement record' = Some (Detected, found) \<and>
    judge found = Detected \<and> rd_resolved (ds_definition standing) = Some test \<and>
    WsDiscovered d \<in> set (td_workspaces (st_discovery (qb_discovery (wt_basis w)))) \<and>
    ws_path (dw_workspace d) = workspacePath (it_identity test) \<and>
    ci_workspaceFingerprint inputs (WsDiscovered d) = Digest (eb_inputFingerprintDigest record')"
proof -
  obtain basis definitions assertionErrors where w: "queryBasis results daemon inputs = Inr basis" "wt_basis w = basis"
    "wt_standings w = defectStandings hash definitions (standingFacts consumerRoot assertionErrors latest basis)"
    using assms(1) by (auto simp: worktreeStandings_def Let_def split: sum.splits)
  define facts where "facts = standingFacts consumerRoot assertionErrors latest basis"
  have evidence: "sf_evidence facts = latest" by (simp add: facts_def standingFacts_def)
  define d where "d = ds_definition standing"
  have standing: "standing = defectStandingOf hash (standingIndex facts) d"
    using standing_definition assms(3) unfolding w(3) facts_def [symmetric] d_def by blast
  obtain defectId test record' digest where v: "cd_id d = Some defectId" "rd_resolved d = Some test"
    "map_of (si_evidence (standingIndex facts)) defectId = Some record'" "se_verdict record' = VerdictDetected"
    "evidenceStands record' digest test (rd_mutationFileDigest d) (standingIndex facts)"
    using assms(4) unfolding standing verified_subject by blast
  have r: "record' \<in> set (le_evidence latest)" "se_defectId record' = defectId"
    using si_evidence_held [OF v(3)] by (simp_all add: evidence)
  have "judgedEvidence record'" using selectEvidence_all [OF assms(2)] r(1) by (simp add: list_all_iff)
  moreover have "se_falsifierVersion record' = FALSIFIER_VERSION" using v(5) by (simp add: evidenceStands_def)
  ultimately obtain j found where j: "se_judgement record' = Some (j, found)" "j = judge found" "readingVerdict j = Some VerdictDetected"
    using v(4) by (auto simp: judgedEvidence_def split: option.splits)
  then have "j = Detected" by (simp add: readingVerdict_detected)
  moreover have "qb_currentFingerprint basis (workspacePath (it_identity test)) = Some (eb_inputFingerprintDigest record')"
    using v(5) by (simp add: evidenceStands_def standingIndex_def facts_def standingFacts_def)
  then obtain e where "WsDiscovered e \<in> set (td_workspaces (st_discovery (qb_discovery basis)))"
    "ws_path (dw_workspace e) = workspacePath (it_identity test)"
    "ci_workspaceFingerprint inputs (WsDiscovered e) = Digest (eb_inputFingerprintDigest record')"
    using fingerprint_of_entry [OF w(1)] by blast
  ultimately show ?thesis using v(1,2) r j w(2) unfolding d_def by auto
qed

section \<open>The property\<close>

text \<open>
  C2. What a verified definition of a worktree rests on, from the database to the listing. When the evidence is what the
  store reads, a definition that reads verified names one discovered test, and a record stored under its id, bound to
  the fingerprint the inputs of the test's workspace have at the moment of the read, carries facts that show the
  detection: a sound baseline before and after, the test failing only by an assertion with the mutated code executed, in
  the run and in the run that confirms it, nothing unhandled in the next run, and the job closed clean.
\<close>

theorem worktree_verified_detected:
  assumes "worktreeStandings hash host fs look consumerRoot stateDirectory results latest daemon inputs = Inr w"
    and "selectEvidence scope db = Inr latest" "standing \<in> set (wt_standings w)" "isVerified standing"
  shows "\<exists>record' found test d b r run second. record' \<in> set (le_evidence latest) \<and>
    cd_id (ds_definition standing) = Some (se_defectId record') \<and> se_judgement record' = Some (Detected, found) \<and>
    sf_baseline found = Some b \<and> baselineSound b \<and> sf_restoredBaseline found = Some (Restored r) \<and> baselineSound r \<and>
    ef_body found = BodyRan run (Some (ConfirmingFactsRan second)) (Some (NextRecorded 0)) \<and>
    showsDetection run \<and> showsDetection second \<and>
    jf_unhandledErrorCount (sf_job found) = 0 \<and> jf_closed (sf_job found) \<and>
    rd_resolved (ds_definition standing) = Some test \<and>
    WsDiscovered d \<in> set (td_workspaces (st_discovery (qb_discovery (wt_basis w)))) \<and>
    ws_path (dw_workspace d) = workspacePath (it_identity test) \<and>
    ci_workspaceFingerprint inputs (WsDiscovered d) = Digest (eb_inputFingerprintDigest record')"
  using worktree_verified_facts [OF assms] unfolding judge_Detected by blast

text \<open>A worktree with one definition, whose stored record is of a detection.\<close>

definition worktreeHost :: WalkHost where
  "worktreeHost = sampleWalkHost\<lparr>wh_opendir := (\<lambda>directory. if directory = ''/r''
       then Inr [\<lparr>di_name = ''x'', di_kind = FileEntry\<rparr>] else Inl \<lparr>io_code = Some ''ENOENT'', io_text = ''gone''\<rparr>),
     wh_parse := (\<lambda>contents. Inr (JObj [(''defects'', JArr (if contents = ''/r/x'' then
       [JObj [(''id'', JStr ''d''), (''defect'', JStr ''d''), (''required'', JStr ''r''),
          (''test'', JObj [(''module'', JStr ''m''), (''name'', JArr [JStr ''t''])]),
          (''mutation'', JObj [(''file'', JStr ''f''), (''old'', JStr ''x''), (''new'', JStr ''y'')])]]
       else [JStr ''x'']))]))\<rparr>"

definition worktreeJudged :: Judged where
  "worktreeJudged = smallJudged\<lparr>jd_digest := digestedText (subjectOf ''d'' smallTest smallMutation ''/r/f'')
     (standingIndex (smallStandingFacts \<lparr>le_evidence = [], le_evidenceRefusals = []\<rparr>
       \<lparr>sf_consumerRoot := ''/r'', sf_assertionErrors := []\<rparr>))\<rparr>"

definition worktreeLatest :: LatestEvidence where
  "worktreeLatest = \<lparr>le_evidence = [evidenceOf sampleEvidenceBindings ''e'' ''4.0.1'' worktreeJudged], le_evidenceRefusals = []\<rparr>"

definition worktreeStore :: EvidenceTables where
  "worktreeStore = StoreTables.extend emptyStore
     \<lparr>tb_evidence = [insertedEvidence sampleEvidenceBindings ''e'' smallReply (judgedRow worktreeJudged)]\<rparr>"

definition worktreeResults :: LatestResults where
  "worktreeResults = \<lparr>lr_discovery = Some \<lparr>sb_adapterVersion = 4, sb_inputFingerprint = FingerprintDigest ''g'',
     st_discoveryId = ''i'', st_discovery = smallDiscovery\<rparr>, lr_discoveryRefusal = None, lr_latestRuns = [],
     lr_runRefusals = [], lr_evidenceRefusals = []\<rparr>"

definition worktreeView :: DaemonView where
  "worktreeView = \<lparr>vw_consumerRoot = ''/r'', vw_activity = IdleActivity, vw_unstoredJobs = [],
     vw_parts = \<lparr>sa_confirmed = (\<lambda>_. True), sa_storedNothing = (\<lambda>_. False), sa_heldBy = (\<lambda>_. None), sa_discoveryHeldBy = None\<rparr>,
     vw_schedule = newSchedule\<rparr>"

definition worktreeInputs :: CurrentInputs where
  "worktreeInputs = \<lparr>ci_facts = \<lparr>if_revision = 1, if_reconciliation = ReconciliationComplete, if_lastReconciledAt = Some ''t'',
       if_watcher = WatcherHealthy, if_pendingChanges = 0, if_gitUnread = []\<rparr>,
     ci_unavailable = None, ci_nonInputsUnusable = None, ci_inputsNotNarrowed = None, ci_snapshot = None,
     ci_workspaceFingerprint = (\<lambda>_. Digest ''f''), ci_discoveryFingerprint = (\<lambda>_. Digest ''g''),
     ci_protectedFileChangedSince = (\<lambda>_ _. None)\<rparr>"

abbreviation worktreeSample :: "string + WorktreeStandings" where
  "worktreeSample \<equiv> worktreeStandings (\<lambda>s. s) worktreeHost sampleFileSystem smallLook ''/r'' ''/s'' worktreeResults
     worktreeLatest worktreeView worktreeInputs"

lemma worktreeSample_verified:
  "case worktreeSample of Inr w \<Rightarrow> length (wt_standings w) = 1 \<and> isVerified (hd (wt_standings w)) | Inl _ \<Rightarrow> False"
  by code_simp

lemma worktreeStore_read: "selectEvidence (StoreScope.truncate sampleEvidenceBindings) worktreeStore = Inr worktreeLatest"
proof -
  have "judgedOk [(''d'', jd_digest worktreeJudged)] worktreeJudged" "hasJudgement worktreeJudged"
    by (simp_all add: judgedOk_def worktreeJudged_def smallJudged_def hasJudgement_def detectedFacts_judged detectedFacts_ok
        digestedText_def)
  then have "storedEvidence (insertedEvidence sampleEvidenceBindings ''e'' smallReply (judgedRow worktreeJudged)) =
      Inr (evidenceOf sampleEvidenceBindings ''e'' ''4.0.1'' worktreeJudged)"
    using storedEvidence_reads [of smallReply "[(''d'', jd_digest worktreeJudged)]" worktreeJudged] by (simp add: smallReply_def)
  moreover have "inScope (StoreScope.truncate sampleEvidenceBindings)
      (insertedEvidence sampleEvidenceBindings ''e'' smallReply (judgedRow worktreeJudged))"
    by (simp add: inScope_def textOf_def evidence_row_at StoreScope.truncate_def)
  ultimately show ?thesis by (simp add: selectEvidence_def worktreeStore_def StoreTables.defs worktreeLatest_def)
qed

theorem worktree_verified_detected_witness:
  "\<exists>record' found. record' \<in> set (le_evidence worktreeLatest) \<and> se_judgement record' = Some (Detected, found) \<and>
     jf_closed (sf_job found) \<and> eb_inputFingerprintDigest record' = ''f''"
proof -
  obtain w where w: "worktreeSample = Inr w" "length (wt_standings w) = 1" "isVerified (hd (wt_standings w))"
    using worktreeSample_verified by (auto split: sum.splits)
  then have "hd (wt_standings w) \<in> set (wt_standings w)" by (cases "wt_standings w") simp_all
  from worktree_verified_detected [OF w(1) worktreeStore_read this w(3)]
  obtain record' found d where "record' \<in> set (le_evidence worktreeLatest)" "se_judgement record' = Some (Detected, found)"
    "jf_closed (sf_job found)"
    "ci_workspaceFingerprint worktreeInputs (WsDiscovered d) = Digest (eb_inputFingerprintDigest record')"
    by (elim exE conjE)
  then show ?thesis by (auto simp: worktreeInputs_def)
qed

end
