(* ===== verification/WaitAnswers.thy ===== *)
theory WaitAnswers
  imports Summary
begin

text \<open>
  The workspaces covering the files a wait names, and the answer of a wait (\<^verbatim>\<open>query/wait-answer.ts\<close>, with
  its data of \<^verbatim>\<open>query/answer.ts\<close>). A build's narrowing is a value: what the class remembers of it is what it
  would compute again. The properties of waits are in \<open>Waits\<close>.
\<close>

section \<open>The data\<close>

datatype ListedAs = ListedTestModule | ListedSetupFile | ListedEnvFile | ListedEnvFilesNotKnown

record ListedCoverage =
  lv_workspacePath :: string
  lv_listedAs :: ListedAs

record SelectedFile =
  sv_selection :: ExplainedPath
  sv_listed :: "ListedCoverage NamedList"

datatype WaitCoverage =
    CoverageSelected nat
  | CoverageWidened nat NotNarrowedKind CutReason
  | CoverageNotYetKnown

record WaitFile =
  wv_path :: string
  wv_unread :: "CutReason option"
  wv_selected :: "SelectedFile option"

record NamedFailure =
  nv_workspacePath :: string
  nv_projectName :: string
  nv_modulePath :: string
  nv_testName :: "string list option"
  nv_state :: TestState
  nv_freshness :: Freshness
  nv_firstError :: "CutReason option"

datatype WaitOutcomeFacts =
    WaitSettled
  | WaitUnsettled
  | WaitSuperseded nat "string NamedList"

record WaitAnswer = AnswerContext +
  wn_outcome :: WaitOutcomeFacts
  wn_boundRevision :: "nat option"
  wn_coverage :: WaitCoverage
  wn_files :: "WaitFile list"
  wn_counts :: TestCounts
  wn_notDiscovered :: "NotDiscoveredEntry list"
  wn_workspaces :: "WorkspaceExecution list"
  wn_namedFailures :: "NamedFailure NamedList"

definition MAX_NAMED_FAILURES :: nat where
  "MAX_NAMED_FAILURES = 20"

definition ENV_FILE_NAME :: string where
  "ENV_FILE_NAME = ''.env''"

definition ENV_MODE_PREFIX :: string where
  "ENV_MODE_PREFIX = ENV_FILE_NAME @ ''.''"

record Coverage =
  cv_revision :: nat
  cv_discoveryId :: string
  cv_facts :: WaitCoverage
  cv_files :: "(string, SelectedFile) jsmap"
  cv_workspaces :: "string list"
  cv_inputPaths :: "string \<Rightarrow> string list"

section \<open>The covering workspaces\<close>

fun isSelectable :: "WorkspaceDiscovery \<Rightarrow> bool" where
  "isSelectable (WsDiscovered _) = True"
| "isSelectable (WsFailed _ _) = True"
| "isSelectable _ = False"

definition isEnvFileName :: "string \<Rightarrow> bool" where
  "isEnvFileName path =
     (let name = caseComparable (posixBasename path) in name = ENV_FILE_NAME \<or> starts_with name ENV_MODE_PREFIX)"

text \<open>The files a workspace lists, each with what it is listed as last.\<close>

definition listedKinds :: "WorkspaceListing \<Rightarrow> (string, ListedAs) jsmap" where
  "listedKinds listing =
     fold (\<lambda>(paths, kind). fold (\<lambda>path. jset (caseComparable path) kind) paths)
       [(li_envFiles listing, ListedEnvFile), (li_setupFiles listing, ListedSetupFile),
        (li_testModules listing, ListedTestModule)] []"

definition listingOf :: "WorkspaceDiscovery \<Rightarrow> (string \<Rightarrow> ListedCoverage option) list" where
  "listingOf entry =
     (case entry of
        WsDiscovered d \<Rightarrow>
          (let listedAs = listedKinds (workspaceListing entry);
               envFilesKnown = (workspaceEnvFilesKnown entry = EnvKnown)
           in [\<lambda>path. map_option (\<lambda>kind. \<lparr>lv_workspacePath = ws_path (dw_workspace d), lv_listedAs = kind\<rparr>)
                (case map_of listedAs (caseComparable path) of
                   Some kind \<Rightarrow> Some kind
                 | None \<Rightarrow> (if \<not> envFilesKnown \<and> isEnvFileName path then Some ListedEnvFilesNotKnown else None))])
      | _ \<Rightarrow> [])"

definition listedFor :: "WorkspaceDiscovery list \<Rightarrow> string \<Rightarrow> ListedCoverage list" where
  "listedFor entries path =
     flat_map (\<lambda>covers. case covers path of Some listed \<Rightarrow> [listed] | None \<Rightarrow> []) (flat_map listingOf entries)"

definition addSelectedFile :: "(string, ChangedPathReport) jsmap \<Rightarrow> WorkspaceDiscovery list \<Rightarrow> string \<Rightarrow>
    (string, SelectedFile) jsmap \<times> string list \<Rightarrow> (string, SelectedFile) jsmap \<times> string list" where
  "addSelectedFile reports entries path = (\<lambda>(files, workspaces).
     case map_of reports (normalizeRelativePath path) of
       None \<Rightarrow> (files, workspaces)
     | Some report \<Rightarrow>
         (let listed = listedFor entries path in
          (jset path \<lparr>sv_selection = explainedPath report, sv_listed = boundedList listed MAX_EXPLAINED\<rparr> files,
           fold jadd (map lv_workspacePath listed) (fold jadd (map ps_workspace (cp_selected report)) workspaces))))"

definition selectedFiles :: "Selection \<Rightarrow> WorkspaceDiscovery list \<Rightarrow> string list \<Rightarrow>
    (string, SelectedFile) jsmap \<times> string list" where
  "selectedFiles selection entries paths =
     (let reports = jmap_of (map (\<lambda>report. (ChangedPathReport.cp_path report, report)) (sn_paths selection)) in
      fold (addSelectedFile reports entries) paths ([], []))"

definition narrowedInputs :: "Narrowing \<Rightarrow> ProjectInputs \<Rightarrow> WorkspaceDiscovery list \<Rightarrow> string \<Rightarrow> string list" where
  "narrowedInputs built snapshot entries path =
     uniq (keys (pi_digests (fst (workspaceInputs snapshot path built))) @
       (case find (\<lambda>entry. entryPath entry = path) entries of
          None \<Rightarrow> [] | Some entry \<Rightarrow> listedPaths (workspaceListing entry)))"

definition widenedCoverage :: "StoredDiscovery \<Rightarrow> ProjectInputs \<Rightarrow> nat \<Rightarrow> NotNarrowedKind \<Rightarrow> string \<Rightarrow> Coverage" where
  "widenedCoverage discovery snapshot revision kind reason =
     \<lparr>cv_revision = revision, cv_discoveryId = st_discoveryId discovery,
      cv_facts = CoverageWidened revision kind (cutReason reason), cv_files = [],
      cv_workspaces = uniq (map entryPath (filter isSelectable (td_workspaces (st_discovery discovery)))),
      cv_inputPaths = (\<lambda>_. keys (comparedDigests snapshot))\<rparr>"

definition coverageAt :: "StoredDiscovery \<Rightarrow> Narrowing WorkspaceNarrowing \<Rightarrow> ProjectInputs \<Rightarrow> nat \<Rightarrow> string list \<Rightarrow>
    Coverage option" where
  "coverageAt discovery narrowed snapshot revision paths =
     (let entries = td_workspaces (st_discovery discovery);
          widened = widenedCoverage discovery snapshot revision in
      case narrowed of
        Building _ _ \<Rightarrow> None
      | Widened notNarrowed \<Rightarrow> Some (widened (inn_kind notNarrowed) (inn_reason notNarrowed))
      | Narrowed built \<Rightarrow>
          (case refusal snapshot built of
             (Some refused, _) \<Rightarrow> Some (widened SelectionRefused refused)
           | (None, kept) \<Rightarrow>
               (case selectOver (nw_placement kept) paths of
                  Refused _ reason \<Rightarrow> Some (widened SelectionRefused reason)
                | Selected selection \<Rightarrow>
                    Some \<lparr>cv_revision = revision, cv_discoveryId = st_discoveryId discovery,
                      cv_facts = CoverageSelected revision, cv_files = fst (selectedFiles selection entries paths),
                      cv_workspaces = snd (selectedFiles selection entries paths),
                      cv_inputPaths = narrowedInputs kept snapshot entries\<rparr>)))"

definition settles :: "ScheduleFacts \<Rightarrow> string list \<Rightarrow> bool" where
  "settles schedule covering =
     (case sf_round schedule of
        RoundPending _ \<Rightarrow> False
      | _ \<Rightarrow> list_all (\<lambda>workspace. we_workspacePath workspace \<notin> set covering \<or>
            (case we_state workspace of ExecutionIdle _ \<Rightarrow> True | _ \<Rightarrow> False)) (sf_workspaces schedule))"

section \<open>The failures an answer names\<close>

definition firstLineOf :: "string \<Rightarrow> CutReason" where
  "firstLineOf text =
     (let line = takeWhile (\<lambda>c. c \<noteq> CHR 0x0A) text in
      cutReason (if line \<noteq> text \<and> line \<noteq> [] \<and> last line = CHR 0x0D then butlast line else line))"

definition firstError :: "string list \<Rightarrow> CutReason option" where
  "firstError errors = (case errors of [] \<Rightarrow> None | first # _ \<Rightarrow> Some (firstLineOf first))"

definition outcomeFailed :: "TestOutcome \<Rightarrow> bool" where
  "outcomeFailed outcome = (outcome = Failed \<or> outcome = Error)"

definition moduleFailures :: "string \<Rightarrow> RecordedModule \<Rightarrow> (string, Freshness) jsmap \<Rightarrow> NamedFailure list" where
  "moduleFailures path module freshness =
     (let failure = (\<lambda>testName state fresh first. \<lparr>nv_workspacePath = path, nv_projectName = mr_projectName module,
            nv_modulePath = mr_modulePath module, nv_testName = testName, nv_state = state, nv_freshness = fresh,
            nv_firstError = first\<rparr>) in
      case rcm_state module of
        ModuleFailed errors \<Rightarrow> [failure None SModuleFailedToLoad Unknown (firstError errors)]
      | ModuleCrashed \<Rightarrow> [failure None SModuleCrashed Unknown None]
      | ModuleNotRun \<Rightarrow> []
      | ModuleRan tests _ \<Rightarrow>
          flat_map (\<lambda>test. case rct_state test of
              InterruptedTest \<Rightarrow> []
            | Finished outcome errors \<Rightarrow>
                (if \<not> outcomeFailed outcome then []
                 else [failure (Some (namePath (it_identity test))) (SOutcome outcome)
                   (case map_of freshness (testIdentityKey (it_identity test)) of Some f \<Rightarrow> f | None \<Rightarrow> Unknown)
                   (firstError errors)])) tests)"

definition failuresOf :: "StoredRun list \<Rightarrow> (string, Freshness) jsmap \<Rightarrow> NamedFailure list" where
  "failuresOf runs freshness =
     flat_map (\<lambda>stored. case sr_run stored of
         RanRun _ modules \<Rightarrow> flat_map (\<lambda>module. moduleFailures (ws_path (sr_workspace stored)) module freshness) modules
       | _ \<Rightarrow> []) runs"

fun nameFailure :: "NamedFailure \<Rightarrow> NamedFailure list \<times> nat \<Rightarrow> NamedFailure list \<times> nat" where
  "nameFailure failure (names, others) =
     (if length names < MAX_NAMED_FAILURES then (names @ [failure], others) else (names, others + 1))"

definition namedFailures :: "StoredRun list \<Rightarrow> (string, Freshness) jsmap \<Rightarrow> NamedFailure NamedList" where
  "namedFailures runs freshness =
     (let (names, others) = fold nameFailure (failuresOf runs freshness) ([], 0)
      in \<lparr>nl_named = names, nl_more = others\<rparr>)"

section \<open>The answer\<close>

record WaitState =
  wq_outcome :: WaitOutcomeFacts
  wq_boundRevision :: "nat option"
  wq_paths :: "string list"
  wq_unread :: "UnreadPath list"
  wq_coverage :: "Coverage option"

definition covers :: "Coverage option \<Rightarrow> string \<Rightarrow> bool" where
  "covers coverage path = (case coverage of None \<Rightarrow> True | Some c \<Rightarrow> path \<in> set (cv_workspaces c))"

definition waitAnswer :: "QueryBasis \<Rightarrow> WaitState \<Rightarrow> WaitAnswer" where
  "waitAnswer basis state =
     (let coverage = wq_coverage state;
          unread = jmap_of (map (\<lambda>u. (up_path u, up_unreadReason u)) (wq_unread state));
          standings = filter (\<lambda>s. covers coverage (workspacePath (it_identity (ts_test s)))) (qb_standings basis)
      in AnswerContext.extend (qb_context basis) (WaitAnswer.fields
          (wq_outcome state) (wq_boundRevision state)
          (case coverage of None \<Rightarrow> CoverageNotYetKnown | Some c \<Rightarrow> cv_facts c)
          (map (\<lambda>path. \<lparr>wv_path = path, wv_unread = map_option cutReason (map_of unread path),
             wv_selected = (case coverage of None \<Rightarrow> None | Some c \<Rightarrow> map_of (cv_files c) path)\<rparr>) (wq_paths state))
          (countStandings standings)
          (filter (\<lambda>entry. case ne_workspacePath entry of None \<Rightarrow> True | Some path \<Rightarrow> covers coverage path)
             (qb_notDiscovered basis))
          (filter (\<lambda>w. covers coverage (we_workspacePath w)) (sf_workspaces (ac_schedule (qb_context basis))))
          (namedFailures
             (filter (\<lambda>run. covers coverage (ws_path (sr_workspace run)))
               (flat_map (\<lambda>entry. case map_of (qb_latestRuns basis) (entryPath entry) of
                   Some run \<Rightarrow> [run] | None \<Rightarrow> []) (td_workspaces (st_discovery (qb_discovery basis)))))
             (jmap_of (map (\<lambda>s. (testIdentityKey (it_identity (ts_test s)), ts_freshness s)) standings)))))"

section \<open>Lemmas\<close>

lemma fold_nameFailure:
  "fold nameFailure fs (names, others) =
     (names @ take (MAX_NAMED_FAILURES - length names) fs, others + (length fs - (MAX_NAMED_FAILURES - length names)))"
proof (induction fs arbitrary: names others)
  case (Cons f fs)
  show ?case
  proof (cases "length names < MAX_NAMED_FAILURES")
    case True
    then obtain n where "MAX_NAMED_FAILURES - length names = Suc n" by (metis Suc_diff_Suc)
    moreover from this have "MAX_NAMED_FAILURES - length (names @ [f]) = n" by simp
    ultimately show ?thesis using True by (simp add: Cons.IH)
  next
    case False
    then show ?thesis by (simp add: Cons.IH)
  qed
qed simp

lemma namedFailures_eq: "namedFailures runs freshness = boundedList (failuresOf runs freshness) MAX_NAMED_FAILURES"
  by (simp add: namedFailures_def fold_nameFailure boundedList_def)

lemma WaitAnswer_extended [simp]:
  "wn_outcome (AnswerContext.extend c (WaitAnswer.fields ou r cv fs n ds ws xs)) = ou"
  "wn_boundRevision (AnswerContext.extend c (WaitAnswer.fields ou r cv fs n ds ws xs)) = r"
  "wn_coverage (AnswerContext.extend c (WaitAnswer.fields ou r cv fs n ds ws xs)) = cv"
  "wn_files (AnswerContext.extend c (WaitAnswer.fields ou r cv fs n ds ws xs)) = fs"
  "wn_counts (AnswerContext.extend c (WaitAnswer.fields ou r cv fs n ds ws xs)) = n"
  "wn_notDiscovered (AnswerContext.extend c (WaitAnswer.fields ou r cv fs n ds ws xs)) = ds"
  "wn_workspaces (AnswerContext.extend c (WaitAnswer.fields ou r cv fs n ds ws xs)) = ws"
  "wn_namedFailures (AnswerContext.extend c (WaitAnswer.fields ou r cv fs n ds ws xs)) = xs"
  "AnswerContext.truncate (AnswerContext.extend c (WaitAnswer.fields ou r cv fs n ds ws xs)) = c"
  by (simp_all add: AnswerContext.defs WaitAnswer.defs)

subsection \<open>The covering set\<close>

text \<open>A workspace's fingerprint lists the file, or cannot rule it out while its env files are not known.\<close>

definition listsPath :: "WorkspaceDiscovery \<Rightarrow> string \<Rightarrow> bool" where
  "listsPath entry path =
     (\<exists>d. entry = WsDiscovered d \<and>
        (path \<in> set (listedPaths (workspaceListing entry)) \<or> workspaceEnvFilesKnown entry \<noteq> EnvKnown \<and> isEnvFileName path))"

lemma listedKinds_dom: "map_of (listedKinds listing) path \<noteq> None \<longleftrightarrow> path \<in> set (listedPaths listing)"
  by (auto simp: listedKinds_def caseComparable_def map_of_fold_const set_listedPaths)

lemma set_listedFor: "lv_workspacePath ` set (listedFor entries path) = entryPath ` {entry \<in> set entries. listsPath entry path}"
proof -
  have "lv_workspacePath ` set (flat_map (\<lambda>covers. case covers path of Some listed \<Rightarrow> [listed] | None \<Rightarrow> []) (listingOf entry)) =
      (if listsPath entry path then {entryPath entry} else {})" for entry
    using listedKinds_dom [of "workspaceListing entry" path]
    by (cases entry) (auto simp: listingOf_def listsPath_def caseComparable_def Let_def split: option.splits)
  moreover have "listedFor (entry # entries) path = flat_map (\<lambda>covers. case covers path of Some listed \<Rightarrow> [listed] | None \<Rightarrow> [])
      (listingOf entry) @ listedFor entries path" for entry entries
    by (simp add: listedFor_def flat_map_def)
  ultimately show ?thesis
    by (induction entries) (auto simp: image_Un simp del: set_flat_map, simp add: listedFor_def flat_map_def)
qed

lemma fold_addSelectedFile:
  "set (snd (fold (addSelectedFile reports entries) paths (files, ws))) =
     set ws \<union> (\<Union>path \<in> set paths. case map_of reports (normalizeRelativePath path) of None \<Rightarrow> {}
       | Some report \<Rightarrow> set (map ps_workspace (cp_selected report)) \<union> lv_workspacePath ` set (listedFor entries path))"
  by (induction paths arbitrary: files ws)
    (auto simp: addSelectedFile_def Let_def set_fold_jadd split: option.splits)

lemma list_all2_member: "list_all2 P xs ys \<Longrightarrow> x \<in> set xs \<Longrightarrow> \<exists>y \<in> set ys. P x y"
  by (metis in_set_conv_nth list_all2_conv_all_nth)

lemma list_all2_member2: "list_all2 P xs ys \<Longrightarrow> y \<in> set ys \<Longrightarrow> \<exists>x \<in> set xs. P x y"
  by (metis in_set_conv_nth list_all2_conv_all_nth)

lemma nw_placement_refusal: "nw_placement (snd (refusal project n)) = nw_placement n"
  by (simp add: refusal_def setsFor_def Let_def split: option.split NarrowedSets.split)

text \<open>The workspaces a change of the path can affect, as a build's selection picks them.\<close>

definition affectedBy :: "BuildPlacement \<Rightarrow> string \<Rightarrow> string set" where
  "affectedBy b path =
     {w \<in> set (everyWorkspace (bp_input b)). w \<notin> (\<lambda>n. ws_path (nr_workspace n)) ` set (ds_notRunnable (bp_input b)) \<and>
        canAffect (buildInput b) (normalizeRelativePath path) w}"

lemma reportedFor_path: "reportedFor input path report \<Longrightarrow> ChangedPathReport.cp_path report = path"
  by (simp add: reportedFor_def)

lemma reportedFor_affected:
  "reportedFor (buildInput b) (normalizeRelativePath path) report \<Longrightarrow> set (map ps_workspace (cp_selected report)) = affectedBy b path"
  by (auto simp: reportedFor_def affectedBy_def everyWorkspace_def buildInput_def selectionInputOf_def)

lemma selectedFiles_workspaces:
  assumes "list_all nulFree (startPaths (buildInput b))" "selectOver b paths = Selected selection"
  shows "set (snd (selectedFiles selection entries paths)) =
    (\<Union>path \<in> set paths. affectedBy b path \<union> entryPath ` {entry \<in> set entries. listsPath entry path})"
proof -
  have acc: "list_all (\<lambda>p. changedPathRefusal p = None) paths"
    using assms(2) selectTests_accepted [of "selectionInputOf (bp_input b) (bp_dependencies b) paths"]
      acceptedPaths_iff [of paths "[]"] by (auto simp: selectOver_def selectionInputOf_def)
  obtain sel where "selectOver b paths = Selected sel"
    and sel: "list_all2 (reportedFor (buildInput b)) (uniq (map normalizeRelativePath paths)) (sn_paths sel)"
    by (rule selectOver_reports [OF assms(1) acc])
  then have "sel = selection" using assms(2) by simp
  define reports where "reports = jmap_of (map (\<lambda>report. (ChangedPathReport.cp_path report, report)) (sn_paths selection))"
  have "\<exists>report. map_of reports (normalizeRelativePath path) = Some report \<and>
      set (map ps_workspace (cp_selected report)) = affectedBy b path" if "path \<in> set paths" for path
  proof -
    have "normalizeRelativePath path \<in> set (uniq (map normalizeRelativePath paths))" using that by simp
    then obtain r where r: "r \<in> set (sn_paths selection)" "reportedFor (buildInput b) (normalizeRelativePath path) r"
      using list_all2_member [OF sel] \<open>sel = selection\<close> by blast
    then have "normalizeRelativePath path \<in> ChangedPathReport.cp_path ` set (sn_paths selection)"
      using reportedFor_path by (metis imageI)
    then have "map_of reports (normalizeRelativePath path) \<noteq> None"
      by (simp add: reports_def map_of_jmap_of map_of_eq_None_iff image_image)
    then obtain report where rep: "map_of reports (normalizeRelativePath path) = Some report" by auto
    then have "report \<in> set (sn_paths selection)" "ChangedPathReport.cp_path report = normalizeRelativePath path"
      by (auto simp: reports_def map_of_jmap_of dest!: map_of_SomeD)
    then have "reportedFor (buildInput b) (normalizeRelativePath path) report"
      using list_all2_member2 [OF sel] \<open>sel = selection\<close> reportedFor_path by metis
    then have "set (map ps_workspace (cp_selected report)) = affectedBy b path" by (rule reportedFor_affected)
    with rep show ?thesis by blast
  qed
  then have "(case map_of reports (normalizeRelativePath path) of None \<Rightarrow> {}
      | Some report \<Rightarrow> set (map ps_workspace (cp_selected report)) \<union> lv_workspacePath ` set (listedFor entries path)) =
      affectedBy b path \<union> entryPath ` {entry \<in> set entries. listsPath entry path}" if "path \<in> set paths" for path
    using that by (fastforce simp: set_listedFor)
  then show ?thesis
    using fold_addSelectedFile [of reports entries paths "[]" "[]"] by (simp add: selectedFiles_def Let_def reports_def)
qed

lemma selectOver_Selected:
  assumes "list_all nulFree (startPaths (buildInput b))"
  shows "(\<exists>selection. selectOver b paths = Selected selection) \<longleftrightarrow> list_all (\<lambda>p. changedPathRefusal p = None) paths"
proof
  assume "\<exists>selection. selectOver b paths = Selected selection"
  then show "list_all (\<lambda>p. changedPathRefusal p = None) paths"
    using selectTests_accepted [of "selectionInputOf (bp_input b) (bp_dependencies b) paths"] acceptedPaths_iff [of paths "[]"]
    by (auto simp: selectOver_def selectionInputOf_def)
next
  assume acc: "list_all (\<lambda>p. changedPathRefusal p = None) paths"
  show "\<exists>selection. selectOver b paths = Selected selection" by (rule selectOver_reports [OF assms acc]) blast
qed

lemma coverageAt_narrowed:
  assumes "coverageAt discovery (Narrowed built) snapshot revision paths = Some c"
    and "list_all nulFree (startPaths (buildInput (nw_placement built)))"
  shows "if fst (refusal snapshot built) = None \<and> list_all (\<lambda>p. changedPathRefusal p = None) paths
     then cv_facts c = CoverageSelected revision \<and> set (cv_workspaces c) =
       (\<Union>path \<in> set paths. affectedBy (nw_placement built) path \<union>
          entryPath ` {entry \<in> set (td_workspaces (st_discovery discovery)). listsPath entry path})
     else \<exists>reason. c = widenedCoverage discovery snapshot revision SelectionRefused reason"
proof -
  obtain why kept where r: "refusal snapshot built = (why, kept)" by fastforce
  with nw_placement_refusal [of snapshot built] have kept: "nw_placement kept = nw_placement built" by simp
  show ?thesis
  proof (cases why)
    case (Some refused)
    then show ?thesis using assms(1) r by (auto simp: coverageAt_def Let_def)
  next
    case None
    show ?thesis
    proof (cases "selectOver (nw_placement built) paths")
      case (Selected selection)
      then have acc: "list_all (\<lambda>p. changedPathRefusal p = None) paths"
        using selectOver_Selected [OF assms(2)] by blast
      have "set (snd (selectedFiles selection (td_workspaces (st_discovery discovery)) paths)) =
          (\<Union>path \<in> set paths. affectedBy (nw_placement built) path \<union>
             entryPath ` {entry \<in> set (td_workspaces (st_discovery discovery)). listsPath entry path})"
        using selectedFiles_workspaces [OF assms(2) Selected] by blast
      moreover have "cv_facts c = CoverageSelected revision \<and>
          cv_workspaces c = snd (selectedFiles selection (td_workspaces (st_discovery discovery)) paths)"
        using None Selected assms(1) r by (auto simp: coverageAt_def Let_def kept)
      ultimately show ?thesis using None acc by (simp add: r)
    next
      case (Refused refusedPath reason)
      then have "\<not> list_all (\<lambda>p. changedPathRefusal p = None) paths"
        using selectOver_Selected [OF assms(2), of paths] by simp
      then show ?thesis using Refused None assms(1) r by (auto simp: coverageAt_def Let_def kept)
    qed
  qed
qed

lemma widenedCoverage_every:
  "set (cv_workspaces (widenedCoverage discovery snapshot revision kind reason)) =
     entryPath ` {entry \<in> set (td_workspaces (st_discovery discovery)). isSelectable entry}"
  "cv_facts (widenedCoverage discovery snapshot revision kind reason) = CoverageWidened revision kind (cutReason reason)"
  "cv_inputPaths (widenedCoverage discovery snapshot revision kind reason) w = keys (comparedDigests snapshot)"
  by (auto simp: widenedCoverage_def)

section \<open>The property\<close>

text \<open>A coverage that counts every workspace whose tests may be run, and every compared input as an input of each.\<close>

definition widenedBy :: "StoredDiscovery \<Rightarrow> ProjectInputs \<Rightarrow> Coverage \<Rightarrow> NotNarrowedKind \<Rightarrow> bool" where
  "widenedBy discovery snapshot c kind =
     ((\<exists>reason. cv_facts c = CoverageWidened (cv_revision c) kind reason) \<and>
      set (cv_workspaces c) = entryPath ` {entry \<in> set (td_workspaces (st_discovery discovery)).
        (\<exists>d. entry = WsDiscovered d) \<or> (\<exists>workspace reason. entry = WsFailed workspace reason)} \<and>
      (\<forall>w. cv_inputPaths c w = keys (comparedDigests snapshot)))"

text \<open>
  C40. The workspaces covering the files of a wait or a changes query, by what the revision's build is known to be. The
  coverage is unknown exactly while that build has not ended. Over a build whose narrowing is not refused, for paths
  selection accepts, they are exactly the workspaces selection picks for a change of one of the files and those whose
  fingerprints list one, or cannot rule it out while their env files are not known. Otherwise, the cause being the
  build's own, or a refused selection, they are every workspace discovered or whose discovery failed, and every
  compared input counts as an input of each.
\<close>

theorem coverage_exact:
  assumes "\<forall>built. narrowed = Narrowed built \<longrightarrow> list_all nulFree (startPaths (buildInput (nw_placement built)))"
  shows "case coverageAt discovery narrowed snapshot revision paths of
      None \<Rightarrow> (\<exists>reason notNarrowed. narrowed = Building reason notNarrowed)
    | Some c \<Rightarrow> cv_revision c = revision \<and> cv_discoveryId c = st_discoveryId discovery \<and>
        (case narrowed of
           Building _ _ \<Rightarrow> False
         | Widened notNarrowed \<Rightarrow> widenedBy discovery snapshot c (inn_kind notNarrowed)
         | Narrowed built \<Rightarrow>
             (if fst (refusal snapshot built) = None \<and> list_all (\<lambda>p. changedPathRefusal p = None) paths
              then cv_facts c = CoverageSelected revision \<and> set (cv_workspaces c) =
                (\<Union>path \<in> set paths. affectedBy (nw_placement built) path \<union>
                   entryPath ` {entry \<in> set (td_workspaces (st_discovery discovery)). listsPath entry path})
              else widenedBy discovery snapshot c SelectionRefused))"
proof -
  have every: "widenedBy discovery snapshot (widenedCoverage discovery snapshot revision kind reason) kind" for kind reason
  proof -
    have "isSelectable entry \<longleftrightarrow> (\<exists>d. entry = WsDiscovered d) \<or> (\<exists>workspace reason. entry = WsFailed workspace reason)" for entry
      by (cases entry) auto
    then show ?thesis unfolding widenedBy_def widenedCoverage_every by (simp add: widenedCoverage_def)
  qed
  show ?thesis
  proof (cases narrowed)
    case (Narrowed built)
    have "coverageAt discovery (Narrowed built) snapshot revision paths \<noteq> None"
      by (simp add: coverageAt_def Let_def split: prod.split option.split SelectionOutcome.split)
    then obtain c where c: "coverageAt discovery (Narrowed built) snapshot revision paths = Some c" by blast
    have "cv_revision c = revision \<and> cv_discoveryId c = st_discoveryId discovery"
      using c by (auto simp: coverageAt_def Let_def widenedCoverage_def split: prod.splits option.splits SelectionOutcome.splits)
    moreover have "if fst (refusal snapshot built) = None \<and> list_all (\<lambda>p. changedPathRefusal p = None) paths
        then cv_facts c = CoverageSelected revision \<and> set (cv_workspaces c) =
          (\<Union>path \<in> set paths. affectedBy (nw_placement built) path \<union>
             entryPath ` {entry \<in> set (td_workspaces (st_discovery discovery)). listsPath entry path})
        else widenedBy discovery snapshot c SelectionRefused" (is "if ?accepted then ?selected else _")
    proof (cases ?accepted)
      case True
      then show ?thesis using coverageAt_narrowed [OF c] assms(1) Narrowed by simp
    next
      case False
      then obtain reason where "c = widenedCoverage discovery snapshot revision SelectionRefused reason"
        using coverageAt_narrowed [OF c] assms(1) Narrowed by (auto split: if_splits)
      then show ?thesis using False every by (auto split: if_splits)
    qed
    ultimately show ?thesis using Narrowed c by simp
  qed (use every in \<open>simp_all add: coverageAt_def Let_def, simp add: widenedCoverage_def\<close>)
qed

lemma sampleCoverage_known:
  "list_all nulFree (startPaths (buildInput (nw_placement (newNarrowing sampleDiscovered sampleDependencies))))"
  using sampleBuild_ok(1) by (simp add: newNarrowing_def)

abbreviation sampleCoverage :: "Coverage option" where
  "sampleCoverage \<equiv> coverageAt \<lparr>sb_adapterVersion = 4, sb_inputFingerprint = NoFingerprint, st_discoveryId = ''i'',
       st_discovery = \<lparr>td_workspaces = [], td_notRead = [], td_notCovered = None\<rparr>\<rparr>
     (Narrowed (newNarrowing sampleDiscovered sampleDependencies)) sampleProject 2 [''lib/x.ts'']"

lemma sampleCoverage_selected:
  "case sampleCoverage of Some c \<Rightarrow> cv_facts c = CoverageSelected 2 \<and> cv_workspaces c = [''app''] | None \<Rightarrow> False"
  by code_simp

theorem coverage_exact_witness:
  "affectedBy (nw_placement (newNarrowing sampleDiscovered sampleDependencies)) ''lib/x.ts'' = {''app''}"
proof -
  obtain c where c: "sampleCoverage = Some c" "cv_facts c = CoverageSelected 2" "cv_workspaces c = [''app'']"
    using sampleCoverage_selected by (auto split: option.splits)
  show ?thesis
    using coverage_exact [where narrowed = "Narrowed (newNarrowing sampleDiscovered sampleDependencies)" and revision = 2
        and snapshot = sampleProject and paths = "[''lib/x.ts'']" and
        discovery = "\<lparr>sb_adapterVersion = 4, sb_inputFingerprint = NoFingerprint, st_discoveryId = ''i'',
          st_discovery = \<lparr>td_workspaces = [], td_notRead = [], td_notCovered = None\<rparr>\<rparr>"]
      sampleCoverage_known by (auto simp: c widenedBy_def split: if_splits)
qed

end
