(* ===== verification/Waits.thy ===== *)
theory Waits
  imports WaitAnswers
begin

text \<open>
  The pending waits (\<^verbatim>\<open>daemon/waits.ts\<close>) as a state machine. An event is what an awaited promise
  brings, a timer, a signal or a call; what the daemon reads at it is the \<open>WaitWorld\<close> of the event. A wait's
  identity is how many came before it, and its promise resolves once, with an entry of \<open>wg_ended\<close>. The timer
  and the listener a settled wait releases are the events that no longer find it. The promises of the sources
  that move the waits never reject in the source, so only asking the builds whether one is pending can throw.
\<close>

section \<open>The data\<close>

datatype MoveSource = InputsMove | ScheduleMove | StoreMove | BuildsMove

datatype WaitResult =
    WaitAnswered WaitAnswer
  | WaitNoAnswer string
  | WaitRefused string
  | WaitFailed string

record WaitMoment =
  my_results :: LatestResults
  my_view :: DaemonView
  my_inputs :: CurrentInputs

record WaitWorld =
  wo_fileSystem :: FileSystem
  wo_windows :: bool
  wo_isDirectory :: "string \<Rightarrow> bool"
  wo_moment :: "string + WaitMoment"
  wo_narrowing :: "Narrowing QueryNarrowing"
  wo_buildsPending :: "string + bool"

record Bound =
  bo_revision :: nat
  bo_snapshot :: ProjectInputs

text \<open>\<open>pw_readOnce\<close> is where the two reads of a wait's files have come to.\<close>

record PendingWait =
  pw_key :: nat
  pw_paths :: "string list"
  pw_readOnce :: bool
  pw_read :: bool
  pw_unread :: "UnreadPath list"
  pw_bound :: "Bound option"
  pw_boundCoverage :: "Coverage option"
  pw_coverage :: "Coverage option"

record Change =
  xc_paths :: "string list"
  xc_everyWorkspace :: bool

text \<open>\<open>wg_woken\<close> says that the race the watch awaits has been won, \<open>wg_stopped\<close> that the stop signal was given.\<close>

record Waits =
  wg_asked :: nat
  wg_pending :: "PendingWait list"
  wg_watching :: bool
  wg_storedWaiters :: nat
  wg_armed :: "MoveSource list"
  wg_woken :: bool
  wg_stopped :: bool
  wg_ended :: "(nat \<times> WaitResult) list"

definition NOT_AWAITED_REASON :: string where
  "NOT_AWAITED_REASON = ''nobody waits for the answer any more''"

definition WAIT_QUERY :: string where
  "WAIT_QUERY = ''wait''"

definition newWaits :: Waits where
  "newWaits = \<lparr>wg_asked = 0, wg_pending = [], wg_watching = False, wg_storedWaiters = 0, wg_armed = [],
     wg_woken = False, wg_stopped = False, wg_ended = []\<rparr>"

section \<open>The files a query names\<close>

definition resolveFile :: "WaitWorld \<Rightarrow> string \<Rightarrow> string \<Rightarrow> string \<Rightarrow>
    (string, string) jsmap \<times> string list \<Rightarrow> (string, string) jsmap \<times> string list" where
  "resolveFile world consumerRoot query path = (\<lambda>(byGiven, refusals).
     case resolveCallerPath (wo_fileSystem world) (wo_windows world) path consumerRoot of
       Inl reason \<Rightarrow> (byGiven, refusals @ [reason])
     | Inr target \<Rightarrow>
         (if wo_isDirectory world path
          then (byGiven, refusals @ [path @ '' is a directory, and a '' @ query @ '' names only files''])
          else (jset path (cp_path target) byGiven, refusals)))"

definition resolveFiles :: "WaitWorld \<Rightarrow> string list \<Rightarrow> string \<Rightarrow> string \<Rightarrow> string + string list \<times> (string, string) jsmap" where
  "resolveFiles world given' consumerRoot query =
     (let (byGiven, refusals) = fold (resolveFile world consumerRoot query) given' ([], []) in
      if refusals = [] then Inr (uniq (map snd byGiven), byGiven)
      else Inl (''the '' @ query @ '' refuses the paths it cannot take: '' @ join ''; '' refusals))"

section \<open>What changed since a revision\<close>

definition differing :: "string list \<Rightarrow> InputDigests \<Rightarrow> InputDigests \<Rightarrow> string list \<Rightarrow> string list" where
  "differing paths before after into =
     fold (\<lambda>path. if map_of before path \<noteq> map_of after path then jadd path else (\<lambda>found. found)) paths into"

definition changedSince :: "Coverage option \<Rightarrow> Bound \<Rightarrow> ProjectInputs \<Rightarrow> Coverage option \<Rightarrow> Change option" where
  "changedSince covered bound snapshot now =
     (let before = comparedDigests (bo_snapshot bound); after = comparedDigests snapshot;
          paths = (case covered of
            None \<Rightarrow> differing (keys after) before after (differing (keys before) before after [])
          | Some c \<Rightarrow>
              (case now of
                 None \<Rightarrow> []
               | Some n \<Rightarrow>
                   fold (\<lambda>workspace found. differing (cv_inputPaths n workspace) before after
                       (differing (cv_inputPaths c workspace) before after found))
                     (uniq (cv_workspaces c @ cv_workspaces n)) []))
      in if paths = [] then None else Some \<lparr>xc_paths = paths, xc_everyWorkspace = Option.is_none covered\<rparr>)"

section \<open>Judging a wait\<close>

definition coverageOf :: "Narrowing QueryNarrowing \<Rightarrow> PendingWait \<Rightarrow> StoredDiscovery \<Rightarrow> nat \<Rightarrow> ProjectInputs \<Rightarrow>
    Coverage option" where
  "coverageOf query wait discovery revision snapshot =
     (let fresh = coverageAt discovery (narrowingAt (query\<lparr>qn_discoveryId := Some (st_discoveryId discovery)\<rparr>) revision)
            snapshot revision (pw_paths wait)
      in case pw_coverage wait of
        Some known \<Rightarrow>
          (if cv_revision known = revision \<and> cv_discoveryId known = st_discoveryId discovery then Some known else fresh)
      | None \<Rightarrow> fresh)"

definition momentBasis :: "WaitMoment \<Rightarrow> string + QueryBasis" where
  "momentBasis moment = queryBasis (my_results moment) (my_view moment) (my_inputs moment)"

definition waitResult :: "PendingWait \<Rightarrow> WaitMoment \<Rightarrow> WaitOutcomeFacts \<Rightarrow> Coverage option \<Rightarrow> WaitResult" where
  "waitResult wait moment outcome coverage =
     (case momentBasis moment of
        Inl why \<Rightarrow> WaitNoAnswer why
      | Inr basis \<Rightarrow> WaitAnswered (waitAnswer basis
          \<lparr>wq_outcome = outcome, wq_boundRevision = map_option bo_revision (pw_bound wait),
           wq_paths = pw_paths wait, wq_unread = pw_unread wait, wq_coverage = coverage\<rparr>))"

fun firstKnown :: "'a option list \<Rightarrow> 'a option" where
  "firstKnown [] = None"
| "firstKnown (None # rest) = firstKnown rest"
| "firstKnown (Some x # rest) = Some x"

text \<open>The wait with its coverage at this revision, at the bound one and the latest known, and the coverage now.\<close>

definition covered :: "Narrowing QueryNarrowing \<Rightarrow> PendingWait \<Rightarrow> Bound \<Rightarrow> StoredDiscovery \<Rightarrow> nat \<Rightarrow> ProjectInputs \<Rightarrow>
    PendingWait \<times> Coverage option" where
  "covered query wait bound discovery revision snapshot =
     (let now = coverageOf query wait discovery revision snapshot;
          boundCoverage = (if revision = bo_revision bound then firstKnown [now, pw_boundCoverage wait]
            else firstKnown [pw_boundCoverage wait, coverageOf query wait discovery (bo_revision bound) (bo_snapshot bound)])
      in (wait\<lparr>pw_boundCoverage := boundCoverage, pw_coverage := firstKnown [now, pw_coverage wait, boundCoverage]\<rparr>, now))"

definition judgeCovered :: "WaitMoment \<Rightarrow> nat \<Rightarrow> ProjectInputs \<Rightarrow> Bound \<Rightarrow> PendingWait \<Rightarrow> Coverage option \<Rightarrow>
    WaitResult option" where
  "judgeCovered moment revision snapshot bound wait now =
     (case (if revision = bo_revision bound then None else changedSince (pw_boundCoverage wait) bound snapshot now) of
        Some change \<Rightarrow>
          Some (waitResult wait moment
            (WaitSuperseded revision (boundedList (sort (xc_paths change)) MAX_NAMED_CHANGES))
            (if xc_everyWorkspace change then None else pw_coverage wait))
      | None \<Rightarrow>
          (case now of
             None \<Rightarrow> None
           | Some n \<Rightarrow>
               (if pw_unread wait \<noteq> [] then None
                else case momentBasis moment of
                  Inl _ \<Rightarrow> None
                | Inr basis \<Rightarrow>
                    (if settles (ac_schedule (qb_context basis)) (cv_workspaces n)
                     then Some (waitResult wait moment WaitSettled now) else None))))"

definition judgeOne :: "Narrowing QueryNarrowing \<Rightarrow> WaitMoment \<Rightarrow> PendingWait \<Rightarrow> PendingWait \<times> WaitResult option" where
  "judgeOne query moment wait =
     (case ci_snapshot (my_inputs moment) of
        None \<Rightarrow> (wait, None)
      | Some snapshot \<Rightarrow>
          (let revision = if_revision (ci_facts (my_inputs moment));
               bound = (case pw_bound wait of
                 Some bound \<Rightarrow> bound | None \<Rightarrow> \<lparr>bo_revision = revision, bo_snapshot = snapshot\<rparr>);
               boundWait = wait\<lparr>pw_bound := Some bound\<rparr>
           in case lr_discovery (my_results moment) of
             None \<Rightarrow> (boundWait, None)
           | Some discovery \<Rightarrow>
               (let (coveredWait, now) = covered query boundWait bound discovery revision snapshot
                in (coveredWait, judgeCovered moment revision snapshot bound coveredWait now))))"

section \<open>The pending waits\<close>

definition settleWait :: "nat \<Rightarrow> WaitResult \<Rightarrow> Waits \<Rightarrow> Waits" where
  "settleWait key result s =
     (if key \<in> set (map pw_key (wg_pending s))
      then s\<lparr>wg_pending := filter (\<lambda>wait. pw_key wait \<noteq> key) (wg_pending s), wg_ended := wg_ended s @ [(key, result)]\<rparr>
      else s)"

definition updateWait :: "nat \<Rightarrow> (PendingWait \<Rightarrow> PendingWait) \<Rightarrow> Waits \<Rightarrow> Waits" where
  "updateWait key f s =
     s\<lparr>wg_pending := map (\<lambda>wait. if pw_key wait = key then f wait else wait) (wg_pending s)\<rparr>"

definition pendingWait :: "nat \<Rightarrow> Waits \<Rightarrow> PendingWait option" where
  "pendingWait key s = find (\<lambda>wait. pw_key wait = key) (wg_pending s)"

definition judgeStep :: "Narrowing QueryNarrowing \<Rightarrow> WaitMoment \<Rightarrow> nat \<Rightarrow> Waits \<Rightarrow> Waits" where
  "judgeStep query moment key s =
     (case pendingWait key s of
        None \<Rightarrow> s
      | Some wait \<Rightarrow>
          (let (judged, result) = judgeOne query moment wait; judgedWaits = updateWait key (\<lambda>_. judged) s
           in case result of None \<Rightarrow> judgedWaits | Some r \<Rightarrow> settleWait key r judgedWaits))"

definition judgeWaits :: "WaitWorld \<Rightarrow> nat list \<Rightarrow> Waits \<Rightarrow> Waits" where
  "judgeWaits world waits s =
     (let ready = filter (\<lambda>key. case pendingWait key s of Some wait \<Rightarrow> pw_read wait | None \<Rightarrow> False) waits in
      if ready = [] then s
      else case wo_moment world of
        Inl thrown \<Rightarrow> fold (\<lambda>key. settleWait key (WaitFailed thrown)) ready s
      | Inr moment \<Rightarrow> fold (judgeStep (wo_narrowing world) moment) ready s)"

text \<open>\<^verbatim>\<open>#arm\<close> and \<^verbatim>\<open>#nextMove\<close>: the left is what asking the builds threw.\<close>

definition armSource :: "MoveSource \<Rightarrow> Waits \<Rightarrow> Waits" where
  "armSource source s =
     (if source \<in> set (wg_armed s) then s
      else s\<lparr>wg_armed := wg_armed s @ [source],
             wg_storedWaiters := (if source = StoreMove then wg_storedWaiters s + 1 else wg_storedWaiters s)\<rparr>)"

definition nextMove :: "WaitWorld \<Rightarrow> Waits \<Rightarrow> string option \<times> Waits" where
  "nextMove world s =
     (let armedWaits = armSource StoreMove (armSource ScheduleMove (armSource InputsMove s)) in
      case wo_buildsPending world of
        Inl thrown \<Rightarrow> (Some thrown, armedWaits)
      | Inr buildsPending \<Rightarrow>
          (None, (if buildsPending then armSource BuildsMove armedWaits else armedWaits)\<lparr>wg_woken := False\<rparr>))"

text \<open>The head of the loop of \<^verbatim>\<open>#watch\<close>, up to where it awaits.\<close>

definition watchOn :: "WaitWorld \<Rightarrow> Waits \<Rightarrow> Waits" where
  "watchOn world s =
     (if wg_pending s = [] \<or> wg_stopped s then s\<lparr>wg_watching := False\<rparr>
      else case nextMove world s of
        (None, awaiting) \<Rightarrow> awaiting\<lparr>wg_watching := True\<rparr>
      | (Some thrown, armedWaits) \<Rightarrow>
          (fold (\<lambda>key. settleWait key (WaitFailed thrown)) (map pw_key (wg_pending armedWaits)) armedWaits)
            \<lparr>wg_watching := False\<rparr>)"

definition watch :: "WaitWorld \<Rightarrow> Waits \<Rightarrow> Waits" where
  "watch world s = (if wg_watching s then s else watchOn world s)"

definition askWait :: "string \<Rightarrow> WaitWorld \<Rightarrow> string list \<Rightarrow> bool \<Rightarrow> Waits \<Rightarrow> Waits" where
  "askWait consumerRoot world given' aborted s =
     (let key = wg_asked s; asked = s\<lparr>wg_asked := key + 1\<rparr> in
      case resolveFiles world given' consumerRoot WAIT_QUERY of
        Inl refused \<Rightarrow> asked\<lparr>wg_ended := wg_ended asked @ [(key, WaitRefused refused)]\<rparr>
      | Inr (paths, _) \<Rightarrow>
          (let added = asked\<lparr>wg_pending := wg_pending asked @ [\<lparr>pw_key = key, pw_paths = paths, pw_readOnce = False,
                 pw_read = False, pw_unread = [], pw_bound = None, pw_boundCoverage = None, pw_coverage = None\<rparr>]\<rparr>
           in if aborted then settleWait key (WaitNoAnswer NOT_AWAITED_REASON) added else watch world added))"

definition expireWait :: "WaitWorld \<Rightarrow> nat \<Rightarrow> Waits \<Rightarrow> Waits" where
  "expireWait world key s =
     (case pendingWait key s of
        None \<Rightarrow> s
      | Some wait \<Rightarrow>
          (case wo_moment world of
             Inl thrown \<Rightarrow> settleWait key (WaitFailed thrown) s
           | Inr moment \<Rightarrow> settleWait key (waitResult wait moment WaitUnsettled (pw_coverage wait)) s))"

definition sourceMoved :: "MoveSource \<Rightarrow> Waits \<Rightarrow> Waits" where
  "sourceMoved source s =
     (if source \<in> set (wg_armed s)
      then s\<lparr>wg_armed := filter (\<lambda>armed. armed \<noteq> source) (wg_armed s), wg_woken := True\<rparr> else s)"

text \<open>\<^verbatim>\<open>moved\<close>.\<close>

definition storeMoved :: "Waits \<Rightarrow> Waits" where
  "storeMoved s =
     (let told = s\<lparr>wg_storedWaiters := 0\<rparr> in if wg_storedWaiters s = 0 then told else sourceMoved StoreMove told)"

datatype WaitEvent =
    WaitAsked "string list" bool
  | FirstReadEnded nat
  | SecondReadEnded nat "UnreadPath list"
  | ReadThrew nat string
  | InputsChanged
  | ScheduleMoved
  | BuildsEnded
  | StoreTold
  | RaceWon
  | LimitPassed nat
  | WaitForgotten nat
  | StopSignalled

fun waitStep :: "string \<Rightarrow> WaitWorld \<Rightarrow> WaitEvent \<Rightarrow> Waits \<Rightarrow> Waits" where
  "waitStep consumerRoot world (WaitAsked given' aborted) s = askWait consumerRoot world given' aborted s"
| "waitStep consumerRoot world (FirstReadEnded key) s = updateWait key (\<lambda>wait. wait\<lparr>pw_readOnce := True\<rparr>) s"
| "waitStep consumerRoot world (SecondReadEnded key unread) s =
     (case pendingWait key s of
        None \<Rightarrow> s
      | Some wait \<Rightarrow>
          (if pw_readOnce wait \<and> \<not> pw_read wait
           then judgeWaits world [key] (updateWait key (\<lambda>wait. wait\<lparr>pw_unread := unread, pw_read := True\<rparr>) s) else s))"
| "waitStep consumerRoot world (ReadThrew key thrown) s =
     (case pendingWait key s of
        None \<Rightarrow> s
      | Some wait \<Rightarrow> (if pw_read wait then s else settleWait key (WaitFailed thrown) s))"
| "waitStep consumerRoot world InputsChanged s = sourceMoved InputsMove s"
| "waitStep consumerRoot world ScheduleMoved s = sourceMoved ScheduleMove s"
| "waitStep consumerRoot world BuildsEnded s = sourceMoved BuildsMove s"
| "waitStep consumerRoot world StoreTold s = storeMoved s"
| "waitStep consumerRoot world RaceWon s =
     (if wg_watching s \<and> wg_woken s then watchOn world (judgeWaits world (map pw_key (wg_pending s)) s) else s)"
| "waitStep consumerRoot world (LimitPassed key) s = expireWait world key s"
| "waitStep consumerRoot world (WaitForgotten key) s = settleWait key (WaitNoAnswer NOT_AWAITED_REASON) s"
| "waitStep consumerRoot world StopSignalled s = s\<lparr>wg_stopped := True\<rparr>"

text \<open>The states any events lead to, with the events that led there, the latest first.\<close>

inductive reachableWaits :: "string \<Rightarrow> (WaitWorld \<times> WaitEvent) list \<Rightarrow> Waits \<Rightarrow> bool" for consumerRoot :: string where
  waitsNew: "reachableWaits consumerRoot [] newWaits"
| waitsStep: "reachableWaits consumerRoot history s \<Longrightarrow>
    reachableWaits consumerRoot ((world, event) # history) (waitStep consumerRoot world event s)"

section \<open>What every reachable state keeps\<close>

text \<open>Each wait asked for is pending or has ended, and has ended once.\<close>

definition accounted :: "Waits \<Rightarrow> bool" where
  "accounted s =
     (distinct (map pw_key (wg_pending s) @ map fst (wg_ended s)) \<and>
      set (map pw_key (wg_pending s) @ map fst (wg_ended s)) = {..<wg_asked s})"

text \<open>While a wait is pending, something will have it judged again, unless the daemon stops.\<close>

definition watched :: "Waits \<Rightarrow> bool" where
  "watched s =
     ((wg_pending s \<noteq> [] \<and> \<not> wg_stopped s \<longrightarrow> wg_watching s) \<and>
      (wg_watching s \<and> \<not> wg_woken s \<longrightarrow> {InputsMove, ScheduleMove, StoreMove} \<subseteq> set (wg_armed s)) \<and>
      (StoreMove \<in> set (wg_armed s) \<longleftrightarrow> 0 < wg_storedWaiters s))"

definition coverageTaken :: "string list \<Rightarrow> Coverage \<Rightarrow> bool" where
  "coverageTaken paths c =
     (\<exists>discovery query snapshot. cv_discoveryId c = st_discoveryId discovery \<and>
        coverageAt discovery (narrowingAt query (cv_revision c)) snapshot (cv_revision c) paths = Some c)"

text \<open>\<open>R\<close> says whose files have been read, \<open>B\<close> what a wait may be bound to.\<close>

definition waitOk :: "(nat \<Rightarrow> bool) \<Rightarrow> (nat \<Rightarrow> Bound \<Rightarrow> bool) \<Rightarrow> PendingWait \<Rightarrow> bool" where
  "waitOk R B wait =
     ((pw_read wait \<longrightarrow> R (pw_key wait)) \<and>
      (\<forall>bound. pw_bound wait = Some bound \<longrightarrow> pw_read wait \<and> B (pw_key wait) bound) \<and>
      (\<forall>c. pw_coverage wait = Some c \<longrightarrow> coverageTaken (pw_paths wait) c) \<and>
      (\<forall>c. pw_boundCoverage wait = Some c \<longrightarrow> coverageTaken (pw_paths wait) c \<and>
         (\<exists>bound. pw_bound wait = Some bound \<and> cv_revision c = bo_revision bound)))"

text \<open>A result a wait gets by being judged; every other one is no answer, a failure, or unsettled.\<close>

definition momentBound :: "WaitWorld \<Rightarrow> Bound \<Rightarrow> bool" where
  "momentBound world bound =
     (\<exists>moment. wo_moment world = Inr moment \<and> ci_snapshot (my_inputs moment) = Some (bo_snapshot bound) \<and>
        if_revision (ci_facts (my_inputs moment)) = bo_revision bound)"

definition bindsHere :: "WaitWorld \<Rightarrow> (nat \<Rightarrow> bool) \<Rightarrow> (nat \<Rightarrow> Bound \<Rightarrow> bool) \<Rightarrow> bool" where
  "bindsHere world R B = (\<forall>key bound. R key \<and> momentBound world bound \<longrightarrow> B key bound)"

definition judgedResult :: "WaitWorld \<Rightarrow> (nat \<Rightarrow> bool) \<Rightarrow> (nat \<Rightarrow> Bound \<Rightarrow> bool) \<Rightarrow> nat \<times> WaitResult \<Rightarrow> bool" where
  "judgedResult world R B ended =
     (\<exists>moment wait. wo_moment world = Inr moment \<and> waitOk R B wait \<and> pw_read wait \<and> pw_key wait = fst ended \<and>
        snd (judgeOne (wo_narrowing world) moment wait) = Some (snd ended))"

definition unjudgedResult :: "WaitResult \<Rightarrow> bool" where
  "unjudgedResult result = (\<forall>a. result = WaitAnswered a \<longrightarrow> wn_outcome a = WaitUnsettled)"

definition waitsKept :: "WaitWorld \<Rightarrow> (nat \<Rightarrow> bool) \<Rightarrow> (nat \<Rightarrow> Bound \<Rightarrow> bool) \<Rightarrow> (nat \<times> WaitResult) set \<Rightarrow> Waits \<Rightarrow> bool" where
  "waitsKept world R B before s =
     (accounted s \<and> (\<forall>wait \<in> set (wg_pending s). waitOk R B wait) \<and>
      set (wg_ended s) \<subseteq> before \<union> {ended. judgedResult world R B ended \<or> unjudgedResult (snd ended)})"

lemmas waits_unjudged = unjudgedResult_def

subsection \<open>Settling and judging\<close>

lemma settleWait_simps [simp]:
  "wg_watching (settleWait key result s) = wg_watching s" "wg_storedWaiters (settleWait key result s) = wg_storedWaiters s"
  "wg_armed (settleWait key result s) = wg_armed s" "wg_woken (settleWait key result s) = wg_woken s"
  "wg_stopped (settleWait key result s) = wg_stopped s" "wg_asked (settleWait key result s) = wg_asked s"
  by (simp_all add: settleWait_def)

lemma settleWait_pending: "wg_pending (settleWait key result s) = filter (\<lambda>wait. pw_key wait \<noteq> key) (wg_pending s)"
  by (auto simp: settleWait_def intro!: filter_True [symmetric])

lemma updateWait_simps [simp]:
  "wg_watching (updateWait key f s) = wg_watching s" "wg_storedWaiters (updateWait key f s) = wg_storedWaiters s"
  "wg_armed (updateWait key f s) = wg_armed s" "wg_woken (updateWait key f s) = wg_woken s"
  "wg_stopped (updateWait key f s) = wg_stopped s" "wg_asked (updateWait key f s) = wg_asked s"
  "wg_ended (updateWait key f s) = wg_ended s" "wg_pending (updateWait key f s) = [] \<longleftrightarrow> wg_pending s = []"
  by (simp_all add: updateWait_def)

lemma pendingWait_Some: "pendingWait key s = Some wait \<Longrightarrow> wait \<in> set (wg_pending s) \<and> pw_key wait = key"
  by (auto simp: pendingWait_def find_Some_iff)

lemma watched_settle [simp]: "watched s \<Longrightarrow> watched (settleWait key result s)"
  by (auto simp: watched_def settleWait_pending)

lemma watched_update [simp]: "watched (updateWait key f s) = watched s"
  by (simp add: watched_def)

lemma kept_settle:
  assumes "waitsKept world R B before s" "judgedResult world R B (key, result) \<or> unjudgedResult result"
  shows "waitsKept world R B before (settleWait key result s)"
proof -
  have keys: "map pw_key (filter (\<lambda>wait. pw_key wait \<noteq> key) ws) = filter (\<lambda>k. k \<noteq> key) (map pw_key ws)" for ws
    by (simp add: filter_map comp_def)
  have "accounted (settleWait key result s)"
    using assms(1) by (auto simp: waitsKept_def accounted_def settleWait_def keys)
  then show ?thesis using assms by (auto simp: waitsKept_def settleWait_def)
qed

lemma kept_update:
  assumes "waitsKept world R B before s"
    and "\<And>wait. wait \<in> set (wg_pending s) \<Longrightarrow> pw_key wait = key \<Longrightarrow> pw_key (f wait) = key \<and> waitOk R B (f wait)"
  shows "waitsKept world R B before (updateWait key f s)"
proof -
  have "map pw_key (wg_pending (updateWait key f s)) = map pw_key (wg_pending s)"
    using assms(2) by (simp add: updateWait_def)
  moreover have "set (map f xs) = f ` set xs" for f :: "PendingWait \<Rightarrow> nat" and xs by simp
  ultimately have "accounted (updateWait key f s)"
    using assms(1) unfolding waitsKept_def accounted_def updateWait_simps(6,7) by argo
  then show ?thesis using assms by (auto simp: waitsKept_def updateWait_def)
qed

lemma coverageOf_taken:
  assumes "waitOk R B wait" "coverageOf query wait discovery revision snapshot = Some c"
  shows "coverageTaken (pw_paths wait) c \<and> cv_revision c = revision \<and> cv_discoveryId c = st_discoveryId discovery"
proof -
  have own: "coverageAt d n s r ps = Some c \<Longrightarrow> cv_revision c = r \<and> cv_discoveryId c = st_discoveryId d" for d n s r ps
    by (auto simp: coverageAt_def Let_def widenedCoverage_def
        split: WorkspaceNarrowing.splits prod.splits option.splits SelectionOutcome.splits)
  let ?fresh = "coverageAt discovery (narrowingAt (query\<lparr>qn_discoveryId := Some (st_discoveryId discovery)\<rparr>) revision)
    snapshot revision (pw_paths wait)"
  have fresh: ?thesis if "?fresh = Some c"
  proof -
    have "cv_revision c = revision" "cv_discoveryId c = st_discoveryId discovery" using own [OF that] by simp_all
    then show ?thesis using that unfolding coverageTaken_def by blast
  qed
  show ?thesis
  proof (cases "pw_coverage wait")
    case (Some known)
    then have "coverageTaken (pw_paths wait) known" using assms(1) by (simp add: waitOk_def)
    then show ?thesis using Some assms(2) fresh by (auto simp: coverageOf_def split: if_splits)
  qed (use assms(2) fresh in \<open>simp add: coverageOf_def\<close>)
qed

lemma firstKnown_Some: "firstKnown xs = Some x \<Longrightarrow> Some x \<in> set xs"
  by (induction xs rule: firstKnown.induct) auto

lemma covered_ok:
  assumes "waitOk R B wait" "pw_read wait" "pw_bound wait = Some bound"
  shows "waitOk R B (fst (covered query wait bound discovery revision snapshot)) \<and>
    pw_key (fst (covered query wait bound discovery revision snapshot)) = pw_key wait \<and>
    pw_read (fst (covered query wait bound discovery revision snapshot))"
proof -
  let ?now = "coverageOf query wait discovery revision snapshot"
  let ?then = "coverageOf query wait discovery (bo_revision bound) (bo_snapshot bound)"
  have taken: "coverageTaken (pw_paths wait) c" if "Some c \<in> {?now, ?then, pw_coverage wait, pw_boundCoverage wait}" for c
    using that coverageOf_taken [OF assms(1)] assms(1) by (auto simp: waitOk_def)
  define bc where "bc = (if revision = bo_revision bound then firstKnown [?now, pw_boundCoverage wait]
    else firstKnown [pw_boundCoverage wait, ?then])"
  have first: "bc = Some c \<Longrightarrow> (revision = bo_revision bound \<and> ?now = Some c) \<or> pw_boundCoverage wait = Some c \<or> ?then = Some c" for c
    using firstKnown_Some [of "[?now, pw_boundCoverage wait]" c] firstKnown_Some [of "[pw_boundCoverage wait, ?then]" c]
    by (auto simp: bc_def split: if_splits)
  have bc: "coverageTaken (pw_paths wait) c \<and> cv_revision c = bo_revision bound" if "bc = Some c" for c
    using first [OF that] coverageOf_taken [OF assms(1)] assms(1,3) by (auto simp: waitOk_def)
  have c: "coverageTaken (pw_paths wait) c" if "firstKnown [?now, pw_coverage wait, bc] = Some c" for c
    using firstKnown_Some [OF that] taken bc by auto
  have "covered query wait bound discovery revision snapshot =
      (wait\<lparr>pw_boundCoverage := bc, pw_coverage := firstKnown [?now, pw_coverage wait, bc]\<rparr>, ?now)"
    by (simp add: covered_def Let_def bc_def)
  then show ?thesis using assms bc c by (simp add: waitOk_def)
qed

lemma judgeOne_ok:
  assumes "waitOk R B wait" "pw_read wait" "bindsHere world R B" "wo_moment world = Inr moment"
  shows "waitOk R B (fst (judgeOne query moment wait)) \<and> pw_key (fst (judgeOne query moment wait)) = pw_key wait \<and>
    pw_read (fst (judgeOne query moment wait))"
proof (cases "ci_snapshot (my_inputs moment)")
  case (Some snapshot)
  define bound where "bound = (case pw_bound wait of Some bound \<Rightarrow> bound
    | None \<Rightarrow> \<lparr>bo_revision = if_revision (ci_facts (my_inputs moment)), bo_snapshot = snapshot\<rparr>)"
  have "momentBound world \<lparr>bo_revision = if_revision (ci_facts (my_inputs moment)), bo_snapshot = snapshot\<rparr>"
    using Some assms(4) by (simp add: momentBound_def)
  then have "B (pw_key wait) bound"
    using assms(1-3) by (auto simp: bound_def waitOk_def bindsHere_def split: option.split)
  then have ok: "waitOk R B (wait\<lparr>pw_bound := Some bound\<rparr>)" "pw_read (wait\<lparr>pw_bound := Some bound\<rparr>)"
    "pw_bound (wait\<lparr>pw_bound := Some bound\<rparr>) = Some bound"
    using assms(1,2) by (auto simp: waitOk_def bound_def)
  show ?thesis
  proof (cases "lr_discovery (my_results moment)")
    case None
    then show ?thesis using Some ok by (simp add: judgeOne_def Let_def bound_def)
  next
    case (Some discovery)
    then show ?thesis
      using covered_ok [OF ok, of query discovery "if_revision (ci_facts (my_inputs moment))" snapshot]
        \<open>ci_snapshot (my_inputs moment) = Some snapshot\<close>
      by (simp add: judgeOne_def Let_def split_beta bound_def)
  qed
qed (use assms in \<open>simp add: judgeOne_def\<close>)

definition readKeys :: "nat set \<Rightarrow> Waits \<Rightarrow> bool" where
  "readKeys ready s = (\<forall>wait \<in> set (wg_pending s). pw_key wait \<in> ready \<longrightarrow> pw_read wait)"

lemma judgeStep_kept:
  assumes "waitsKept world R B before s" "watched s" "readKeys ready s" "key \<in> ready" "wo_moment world = Inr moment"
    "bindsHere world R B"
  shows "waitsKept world R B before (judgeStep (wo_narrowing world) moment key s) \<and>
    watched (judgeStep (wo_narrowing world) moment key s) \<and> readKeys ready (judgeStep (wo_narrowing world) moment key s)"
proof (cases "pendingWait key s")
  case (Some wait)
  let ?judged = "fst (judgeOne (wo_narrowing world) moment wait)"
  let ?s = "updateWait key (\<lambda>_. ?judged) s"
  have wait: "wait \<in> set (wg_pending s)" "pw_key wait = key" using pendingWait_Some [OF Some] by simp_all
  then have ok: "waitOk R B wait" "pw_read wait" using assms(1,3,4) by (auto simp: waitsKept_def readKeys_def)
  note judged = judgeOne_ok [OF ok assms(6,5), of "wo_narrowing world"]
  have kept: "waitsKept world R B before ?s" by (rule kept_update [OF assms(1)]) (simp add: judged wait)
  have ready: "readKeys ready ?s" using assms(3) judged wait by (auto simp: readKeys_def updateWait_def)
  show ?thesis
  proof (cases "snd (judgeOne (wo_narrowing world) moment wait)")
    case None
    then show ?thesis using kept ready assms(2) Some by (simp add: judgeStep_def split_beta Let_def)
  next
    case (Some result)
    then have "judgedResult world R B (key, result)" using ok wait assms(5) by (auto simp: judgedResult_def)
    then have "waitsKept world R B before (settleWait key result ?s)" using kept by (blast intro: kept_settle)
    moreover have "readKeys ready (settleWait key result ?s)" using ready by (auto simp: readKeys_def settleWait_pending)
    ultimately show ?thesis
      using Some \<open>pendingWait key s = Some wait\<close> assms(2) by (simp add: judgeStep_def split_beta Let_def)
  qed
qed (use assms in \<open>simp add: judgeStep_def\<close>)

lemma fold_judgeStep_kept:
  "waitsKept world R B before s \<Longrightarrow> watched s \<Longrightarrow> readKeys ready s \<Longrightarrow> set ks \<subseteq> ready \<Longrightarrow> wo_moment world = Inr moment \<Longrightarrow>
     bindsHere world R B \<Longrightarrow> waitsKept world R B before (fold (judgeStep (wo_narrowing world) moment) ks s) \<and>
     watched (fold (judgeStep (wo_narrowing world) moment) ks s)"
proof (induction ks arbitrary: s)
  case (Cons key ks)
  with judgeStep_kept [of world R B before s ready key moment] show ?case by simp
qed simp

lemma fold_settle_kept:
  "waitsKept world R B before s \<Longrightarrow> unjudgedResult result \<Longrightarrow> waitsKept world R B before (fold (\<lambda>key. settleWait key result) ks s)"
  by (induction ks arbitrary: s) (simp_all add: kept_settle)

lemma fold_settle_watched: "watched s \<Longrightarrow> watched (fold (\<lambda>key. settleWait key result) ks s)"
  by (induction ks arbitrary: s) simp_all

lemma judgeWaits_kept:
  assumes "waitsKept world R B before s" "watched s" "bindsHere world R B"
  shows "waitsKept world R B before (judgeWaits world ks s) \<and> watched (judgeWaits world ks s)"
proof -
  let ?ready = "filter (\<lambda>key. case pendingWait key s of Some wait \<Rightarrow> pw_read wait | None \<Rightarrow> False) ks"
  have "readKeys (set ?ready) s"
  proof (unfold readKeys_def, intro ballI impI)
    fix wait assume wait: "wait \<in> set (wg_pending s)" "pw_key wait \<in> set ?ready"
    then obtain other where other: "pendingWait (pw_key wait) s = Some other" "pw_read other" by (auto split: option.splits)
    have "inj_on pw_key (set (wg_pending s))" using assms(1) by (simp add: waitsKept_def accounted_def distinct_map)
    then have "other = wait" using pendingWait_Some [OF other(1)] wait(1) by (auto dest: inj_onD)
    then show "pw_read wait" using other(2) by simp
  qed
  then show ?thesis
    using assms fold_judgeStep_kept [of world R B before s "set ?ready" ?ready] fold_settle_kept [OF assms(1)]
      fold_settle_watched [OF assms(2)]
    by (auto simp: judgeWaits_def Let_def unjudgedResult_def split: sum.split)
qed

subsection \<open>Watching\<close>

lemma armSource_simps [simp]:
  "wg_pending (armSource source s) = wg_pending s" "wg_ended (armSource source s) = wg_ended s"
  "wg_asked (armSource source s) = wg_asked s" "wg_stopped (armSource source s) = wg_stopped s"
  "set (wg_armed (armSource source s)) = insert source (set (wg_armed s))"
  by (auto simp: armSource_def)

lemma armSource_stored:
  "(StoreMove \<in> set (wg_armed s) \<longleftrightarrow> 0 < wg_storedWaiters s) \<Longrightarrow>
     (StoreMove \<in> set (wg_armed (armSource source s)) \<longleftrightarrow> 0 < wg_storedWaiters (armSource source s))"
  by (auto simp: armSource_def)

lemma kept_cong:
  "wg_pending s' = wg_pending s \<Longrightarrow> wg_ended s' = wg_ended s \<Longrightarrow> wg_asked s' = wg_asked s \<Longrightarrow>
     waitsKept world R B before s' = waitsKept world R B before s"
  by (simp add: waitsKept_def accounted_def)

definition armedFor :: "Waits \<Rightarrow> Waits" where
  "armedFor s = armSource StoreMove (armSource ScheduleMove (armSource InputsMove s))"

lemma armedFor_simps [simp]:
  "wg_pending (armedFor s) = wg_pending s" "wg_ended (armedFor s) = wg_ended s" "wg_asked (armedFor s) = wg_asked s"
  "wg_stopped (armedFor s) = wg_stopped s" "{InputsMove, ScheduleMove, StoreMove} \<subseteq> set (wg_armed (armedFor s))"
  by (simp_all add: armedFor_def)

lemma fold_settle_none: "wg_pending (fold (\<lambda>key. settleWait key result) ks s) = filter (\<lambda>wait. pw_key wait \<notin> set ks) (wg_pending s)"
  by (induction ks arbitrary: s) (auto simp: settleWait_pending intro!: filter_cong)

lemma fold_settle_simps [simp]:
  "wg_armed (fold (\<lambda>key. settleWait key result) ks s) = wg_armed s"
  "wg_storedWaiters (fold (\<lambda>key. settleWait key result) ks s) = wg_storedWaiters s"
  by (induction ks arbitrary: s) simp_all

lemma watchOn_kept:
  assumes "waitsKept world R B before s" "StoreMove \<in> set (wg_armed s) \<longleftrightarrow> 0 < wg_storedWaiters s"
  shows "waitsKept world R B before (watchOn world s) \<and> watched (watchOn world s)"
proof -
  have stored: "StoreMove \<in> set (wg_armed (armSource source (armedFor s))) \<longleftrightarrow> 0 < wg_storedWaiters (armSource source (armedFor s))"
    "StoreMove \<in> set (wg_armed (armedFor s)) \<longleftrightarrow> 0 < wg_storedWaiters (armedFor s)" for source
    unfolding armedFor_def by (intro armSource_stored assms(2))+
  have kept: "waitsKept world R B before (armedFor s)" using assms(1) kept_cong [of "armedFor s" s] by simp
  consider "wg_pending s = [] \<or> wg_stopped s" | thrown where "\<not> (wg_pending s = [] \<or> wg_stopped s)" "wo_buildsPending world = Inl thrown"
    | building where "\<not> (wg_pending s = [] \<or> wg_stopped s)" "wo_buildsPending world = Inr building"
    by (cases "wo_buildsPending world") auto
  then show ?thesis
  proof cases
    case 1
    then show ?thesis using assms by (auto simp: watchOn_def watched_def waitsKept_def accounted_def)
  next
    case (2 thrown)
    let ?s = "fold (\<lambda>key. settleWait key (WaitFailed thrown)) (map pw_key (wg_pending s)) (armedFor s)"
    have w: "watchOn world s = ?s\<lparr>wg_watching := False\<rparr>"
      using 2 by (auto simp: watchOn_def nextMove_def Let_def armedFor_def)
    have "waitsKept world R B before ?s" by (rule fold_settle_kept [OF kept]) (simp add: unjudgedResult_def)
    then show ?thesis using stored(2)
      by (simp add: w watched_def fold_settle_none kept_cong [of "?s\<lparr>wg_watching := False\<rparr>" ?s] filter_empty_conv)
  next
    case (3 building)
    let ?s = "if building then armSource BuildsMove (armedFor s) else armedFor s"
    have w: "watchOn world s = ?s\<lparr>wg_woken := False, wg_watching := True\<rparr>"
      using 3 by (auto simp: watchOn_def nextMove_def Let_def armedFor_def)
    then show ?thesis
      using kept stored armedFor_simps(5) [of s]
      by (auto simp: watched_def kept_cong [of "?s\<lparr>wg_woken := False, wg_watching := True\<rparr>" "armedFor s"] armSource_def)
  qed
qed

subsection \<open>Every event\<close>

lemma watched_stored: "watched s \<Longrightarrow> StoreMove \<in> set (wg_armed s) \<longleftrightarrow> 0 < wg_storedWaiters s"
  by (simp add: watched_def)

lemma kept_ask:
  assumes "waitsKept world R B before s"
    and "wait = \<lparr>pw_key = wg_asked s, pw_paths = paths, pw_readOnce = False, pw_read = False, pw_unread = [],
      pw_bound = None, pw_boundCoverage = None, pw_coverage = None\<rparr>"
  shows "waitsKept world R B before (s\<lparr>wg_asked := wg_asked s + 1, wg_pending := wg_pending s @ [wait]\<rparr>)"
    and "waitsKept world R B before (s\<lparr>wg_asked := wg_asked s + 1, wg_ended := wg_ended s @ [(wg_asked s, WaitRefused refused)]\<rparr>)"
proof -
  have new: "wg_asked s \<notin> pw_key ` set (wg_pending s)" "wg_asked s \<notin> fst ` set (wg_ended s)"
    "pw_key ` set (wg_pending s) \<union> fst ` set (wg_ended s) = {..<wg_asked s}"
    using assms(1) by (auto simp: waitsKept_def accounted_def)
  have more': "insert (wg_asked s) {..<wg_asked s} = {..<Suc (wg_asked s)}" by auto
  show "waitsKept world R B before (s\<lparr>wg_asked := wg_asked s + 1, wg_pending := wg_pending s @ [wait]\<rparr>)"
    using assms new by (auto simp: waitsKept_def accounted_def waitOk_def more' [symmetric])
  show "waitsKept world R B before (s\<lparr>wg_asked := wg_asked s + 1, wg_ended := wg_ended s @ [(wg_asked s, WaitRefused refused)]\<rparr>)"
    using assms(1) new by (auto simp: waitsKept_def accounted_def unjudgedResult_def more' [symmetric])
qed

lemma waitResult_unsettled: "unjudgedResult (waitResult wait moment WaitUnsettled coverage)"
  by (simp add: unjudgedResult_def waitResult_def waitAnswer_def Let_def split: sum.split)

lemma askWait_kept:
  assumes "waitsKept world R B before s" "watched s"
  shows "waitsKept world R B before (askWait consumerRoot world given' aborted s) \<and>
    watched (askWait consumerRoot world given' aborted s)"
proof -
  consider refused where "resolveFiles world given' consumerRoot WAIT_QUERY = Inl refused"
    | paths byGiven where "resolveFiles world given' consumerRoot WAIT_QUERY = Inr (paths, byGiven)"
    by (metis sum.exhaust surj_pair)
  then show ?thesis
  proof cases
    case (1 refused)
    have "watched (s\<lparr>wg_asked := wg_asked s + 1, wg_ended := wg_ended s @ [(wg_asked s, WaitRefused refused)]\<rparr>)"
      using assms(2) by (auto simp: watched_def)
    then show ?thesis using kept_ask(2) [OF assms(1) refl] 1 by (simp add: askWait_def Let_def)
  next
    case (2 paths byGiven)
    define wait where "wait = \<lparr>pw_key = wg_asked s, pw_paths = paths, pw_readOnce = False, pw_read = False, pw_unread = [],
      pw_bound = None, pw_boundCoverage = None, pw_coverage = None\<rparr>"
    let ?s = "s\<lparr>wg_asked := wg_asked s + 1, wg_pending := wg_pending s @ [wait]\<rparr>"
    have kept: "waitsKept world R B before ?s" by (rule kept_ask(1) [OF assms(1) wait_def])
    have stored: "StoreMove \<in> set (wg_armed ?s) \<longleftrightarrow> 0 < wg_storedWaiters ?s" using watched_stored [OF assms(2)] by simp
    have old: "pw_key other \<noteq> wg_asked s" if "other \<in> set (wg_pending s)" for other
    proof -
      have "pw_key other \<in> {..<wg_asked s}" using assms(1) that by (auto simp: waitsKept_def accounted_def)
      then show ?thesis by simp
    qed
    have ask: "askWait consumerRoot world given' aborted s =
        (if aborted then settleWait (wg_asked s) (WaitNoAnswer NOT_AWAITED_REASON) ?s else watch world ?s)"
      using 2 by (simp add: askWait_def Let_def wait_def)
    show ?thesis
    proof (cases aborted)
      case True
      have "wg_pending (settleWait (wg_asked s) (WaitNoAnswer NOT_AWAITED_REASON) ?s) = wg_pending s"
        using old by (simp add: settleWait_pending wait_def filter_id_conv)
      then have "watched (settleWait (wg_asked s) (WaitNoAnswer NOT_AWAITED_REASON) ?s)"
        using assms(2) by (auto simp: watched_def)
      then show ?thesis using True kept_settle [OF kept] ask by (simp add: unjudgedResult_def)
    next
      case False
      show ?thesis
      proof (cases "wg_watching s")
        case True
        then have "watched ?s" using assms(2) by (auto simp: watched_def)
        then show ?thesis using True False ask kept by (simp add: watch_def)
      qed (use False ask watchOn_kept [OF kept stored] in \<open>simp add: watch_def\<close>)
    qed
  qed
qed

lemma sourceMoved_kept:
  assumes "watched s" "source \<noteq> StoreMove"
  shows "watched (sourceMoved source s) \<and> waitsKept world R B before (sourceMoved source s) = waitsKept world R B before s"
  using assms kept_cong [of "sourceMoved source s" s] by (auto simp: watched_def sourceMoved_def)

lemma storeMoved_kept:
  assumes "watched s"
  shows "watched (storeMoved s) \<and> waitsKept world R B before (storeMoved s) = waitsKept world R B before s"
  using assms kept_cong [of "storeMoved s" s] by (auto simp: watched_def storeMoved_def sourceMoved_def Let_def)

lemma waitStep_kept:
  assumes "waitsKept world R B before s" "watched s" "bindsHere world R B"
    "\<And>key unread wait. event = SecondReadEnded key unread \<Longrightarrow> pendingWait key s = Some wait \<Longrightarrow> pw_readOnce wait \<Longrightarrow> R key"
  shows "waitsKept world R B before (waitStep consumerRoot world event s) \<and> watched (waitStep consumerRoot world event s)"
proof (cases event)
  case (WaitAsked given' aborted)
  then show ?thesis using askWait_kept [OF assms(1,2)] by simp
next
  case (FirstReadEnded key)
  have "waitsKept world R B before (updateWait key (\<lambda>wait. wait\<lparr>pw_readOnce := True\<rparr>) s)"
    by (rule kept_update [OF assms(1)]) (use assms(1) in \<open>auto simp: waitsKept_def waitOk_def\<close>)
  then show ?thesis using FirstReadEnded assms(2) by simp
next
  case (SecondReadEnded key unread)
  let ?s = "updateWait key (\<lambda>wait. wait\<lparr>pw_unread := unread, pw_read := True\<rparr>) s"
  have "waitsKept world R B before ?s" if "pendingWait key s = Some wait" "pw_readOnce wait" for wait
    by (rule kept_update [OF assms(1)])
      (use assms(1) assms(4) [OF SecondReadEnded that] in \<open>auto simp: waitsKept_def waitOk_def\<close>)
  then show ?thesis using SecondReadEnded assms judgeWaits_kept [of world R B before ?s] by (simp split: option.split)
next
  case (ReadThrew key thrown)
  then show ?thesis
    using assms kept_settle [OF assms(1), of key "WaitFailed thrown"] by (simp add: unjudgedResult_def split: option.split)
next
  case RaceWon
  then show ?thesis
    using assms judgeWaits_kept [OF assms(1-3), of "map pw_key (wg_pending s)"]
      watchOn_kept [of world R B before "judgeWaits world (map pw_key (wg_pending s)) s"] watched_stored by simp
next
  case (LimitPassed key)
  then show ?thesis
    using assms kept_settle [OF assms(1)] waitResult_unsettled
    by (auto simp: expireWait_def unjudgedResult_def split: option.split sum.split)
next
  case (WaitForgotten key)
  then show ?thesis using assms kept_settle [OF assms(1)] by (simp add: unjudgedResult_def)
next
  case StopSignalled
  then show ?thesis using assms kept_cong [of "s\<lparr>wg_stopped := True\<rparr>" s] by (auto simp: watched_def)
qed (use assms sourceMoved_kept storeMoved_kept in simp_all)

text \<open>Whose files have been read by the events so far, the latest first, and what was read at an event since.\<close>

definition firstRead :: "(WaitWorld \<times> WaitEvent) list \<Rightarrow> nat \<Rightarrow> bool" where
  "firstRead history key = (FirstReadEnded key \<in> snd ` set history)"

definition namedRead :: "(WaitWorld \<times> WaitEvent) list \<Rightarrow> nat \<Rightarrow> bool" where
  "namedRead history key =
     (\<exists>later world unread earlier. history = later @ (world, SecondReadEnded key unread) # earlier \<and> firstRead earlier key)"

definition boundAfterRead :: "(WaitWorld \<times> WaitEvent) list \<Rightarrow> nat \<Rightarrow> Bound \<Rightarrow> bool" where
  "boundAfterRead history key bound =
     (\<exists>later world event earlier. history = later @ (world, event) # earlier \<and>
        namedRead ((world, event) # earlier) key \<and> momentBound world bound)"

lemma namedRead_mono: "namedRead history key \<Longrightarrow> namedRead (step # history) key"
  unfolding namedRead_def by (metis append_Cons)

lemma boundAfterRead_mono: "boundAfterRead history key bound \<Longrightarrow> boundAfterRead (step # history) key bound"
  unfolding boundAfterRead_def by (metis append_Cons)

lemma kept_mono:
  assumes "waitsKept world R B (set (wg_ended s)) s" "\<And>key. R key \<Longrightarrow> R' key" "\<And>key bound. B key bound \<Longrightarrow> B' key bound"
  shows "waitsKept world' R' B' (set (wg_ended s)) s"
  using assms by (auto simp: waitsKept_def waitOk_def)

text \<open>A wait whose files were read once had its first read end.\<close>

definition onceRead :: "nat set \<Rightarrow> Waits \<Rightarrow> bool" where
  "onceRead ks s = (\<forall>wait \<in> set (wg_pending s). pw_readOnce wait \<longrightarrow> pw_key wait \<in> ks)"

lemma judgeOne_once:
  "pw_readOnce (fst (judgeOne query moment wait)) = pw_readOnce wait \<and>
   pw_key (fst (judgeOne query moment wait)) = pw_key wait"
  by (simp add: judgeOne_def covered_def Let_def split_beta split: option.split)

lemma onceRead_settle: "onceRead ks s \<Longrightarrow> onceRead ks (settleWait key result s)"
  by (simp add: onceRead_def settleWait_pending)

lemma onceRead_update:
  assumes "onceRead ks s"
    and "\<And>wait. wait \<in> set (wg_pending s) \<Longrightarrow> pw_key wait = key \<Longrightarrow>
      pw_key (f wait) = key \<and> (pw_readOnce (f wait) \<longrightarrow> pw_readOnce wait \<or> key \<in> ks)"
  shows "onceRead ks (updateWait key f s)"
proof -
  have "pw_key (f wait) \<in> ks" if "wait \<in> set (wg_pending s)" "pw_key wait = key" "pw_readOnce (f wait)" for wait
    using assms(1) assms(2) [OF that(1,2)] that by (auto simp: onceRead_def)
  moreover have "pw_key wait \<in> ks" if "wait \<in> set (wg_pending s)" "pw_readOnce wait" for wait
    using assms(1) that by (simp add: onceRead_def)
  ultimately show ?thesis unfolding onceRead_def updateWait_def by auto
qed

lemma onceRead_judgeStep:
  assumes "onceRead ks s"
  shows "onceRead ks (judgeStep query moment key s)"
proof (cases "pendingWait key s")
  case (Some wait)
  then have "wait \<in> set (wg_pending s)" "pw_key wait = key" using pendingWait_Some by simp_all
  then have "onceRead ks (updateWait key (\<lambda>_. fst (judgeOne query moment wait)) s)"
    using assms by (intro onceRead_update) (auto simp: judgeOne_once onceRead_def)
  then show ?thesis using Some onceRead_settle by (auto simp: judgeStep_def split_beta Let_def split: option.split)
qed (use assms in \<open>simp add: judgeStep_def\<close>)

lemma onceRead_fold: "(\<And>k s. onceRead ks s \<Longrightarrow> onceRead ks (f k s)) \<Longrightarrow> onceRead ks s \<Longrightarrow> onceRead ks (fold f xs s)"
  by (induction xs arbitrary: s) auto

lemma onceRead_judge: "onceRead ks s \<Longrightarrow> onceRead ks (judgeWaits world keys' s)"
  by (auto simp: judgeWaits_def Let_def split: sum.split intro!: onceRead_fold onceRead_judgeStep onceRead_settle)

lemma onceRead_watchOn: "onceRead ks s \<Longrightarrow> onceRead ks (watchOn world s)"
proof -
  assume once: "onceRead ks s"
  have same: "wg_pending s' = wg_pending s \<Longrightarrow> onceRead ks s'" for s' using once by (simp add: onceRead_def)
  have "onceRead ks (armedFor s)" by (rule same) simp
  then have "onceRead ks (fold (\<lambda>key. settleWait key result) xs (armedFor s))" for result xs
    by (intro onceRead_fold onceRead_settle)
  then show ?thesis
    using same by (auto simp: watchOn_def nextMove_def Let_def armedFor_def onceRead_def split: sum.split)
qed

lemma onceRead_ask: "onceRead ks s \<Longrightarrow> onceRead ks (askWait consumerRoot world given' aborted s)"
proof -
  assume once: "onceRead ks s"
  then have "onceRead ks (s\<lparr>wg_asked := n, wg_pending := wg_pending s @ [wait]\<rparr>)" if "\<not> pw_readOnce wait" for n wait
    using that by (auto simp: onceRead_def)
  moreover have "onceRead ks (s\<lparr>wg_asked := n, wg_ended := es\<rparr>)" for n es using once by (simp add: onceRead_def)
  ultimately show ?thesis
    by (auto simp: askWait_def watch_def Let_def split: sum.split intro!: onceRead_settle onceRead_watchOn)
qed

lemma waitStep_once:
  assumes "onceRead ks s" "\<And>key. event = FirstReadEnded key \<Longrightarrow> key \<in> ks"
  shows "onceRead ks (waitStep consumerRoot world event s)"
proof (cases event)
  case (FirstReadEnded key)
  then show ?thesis using assms by (auto intro!: onceRead_update)
next
  case (SecondReadEnded key unread)
  then show ?thesis using assms by (auto split: option.split intro!: onceRead_judge onceRead_update)
next
  case (ReadThrew key thrown)
  then show ?thesis using assms onceRead_settle by (auto split: option.split)
next
  case (LimitPassed key)
  then show ?thesis using assms onceRead_settle by (auto simp: expireWait_def split: option.split sum.split)
next
  case RaceWon
  then show ?thesis using assms by (simp add: onceRead_judge onceRead_watchOn)
next
  case (WaitAsked given' aborted)
  then show ?thesis using assms(1) by (simp add: onceRead_ask)
next
  case (WaitForgotten key)
  then show ?thesis using assms(1) by (simp add: onceRead_settle)
qed (use assms(1) in \<open>simp_all add: onceRead_def sourceMoved_def storeMoved_def Let_def\<close>)

lemma reachable_once: "reachableWaits consumerRoot history s \<Longrightarrow> onceRead {key. firstRead history key} s"
proof (induction rule: reachableWaits.induct)
  case waitsNew
  show ?case by (simp add: onceRead_def newWaits_def)
next
  case (waitsStep history s world event)
  then have "onceRead {key. firstRead ((world, event) # history) key} s" by (auto simp: onceRead_def firstRead_def)
  then show ?case by (rule waitStep_once) (simp add: firstRead_def)
qed

text \<open>A wait's files have been read once its second read, begun after the first one's end, has ended.\<close>

lemma secondRead_named:
  assumes "reachableWaits consumerRoot history s" "pendingWait key s = Some wait" "pw_readOnce wait"
  shows "namedRead ((world, SecondReadEnded key unread) # history) key"
proof -
  have "firstRead history key"
    using reachable_once [OF assms(1)] pendingWait_Some [OF assms(2)] assms(3) by (auto simp: onceRead_def)
  then show ?thesis unfolding namedRead_def by blast
qed

lemma reachable_kept:
  "reachableWaits consumerRoot history s \<Longrightarrow>
     watched s \<and> waitsKept world (namedRead history) (boundAfterRead history) (set (wg_ended s)) s"
proof (induction arbitrary: world rule: reachableWaits.induct)
  case waitsNew
  show ?case by (simp add: watched_def newWaits_def waitsKept_def accounted_def)
next
  case (waitsStep history s here event)
  let ?history = "(here, event) # history"
  have "waitsKept here (namedRead ?history) (boundAfterRead ?history) (set (wg_ended s)) s"
    by (rule kept_mono [OF conjunct2 [OF waitsStep.IH]]) (auto intro: boundAfterRead_mono namedRead_mono)
  moreover have "bindsHere here (namedRead ?history) (boundAfterRead ?history)"
    unfolding bindsHere_def boundAfterRead_def by (metis append_Nil)
  moreover have "namedRead ?history key"
    if "event = SecondReadEnded key unread" "pendingWait key s = Some wait" "pw_readOnce wait" for key unread wait
    using that secondRead_named [OF waitsStep.hyps] by simp
  ultimately have "waitsKept here (namedRead ?history) (boundAfterRead ?history) (set (wg_ended s))
      (waitStep consumerRoot here event s) \<and> watched (waitStep consumerRoot here event s)"
    using waitStep_kept waitsStep by blast
  then show ?case by (simp add: waitsKept_def)
qed

section \<open>What an answer rests on\<close>

lemma set_differing: "set (differing paths before after into) = set into \<union> {p \<in> set paths. map_of before p \<noteq> map_of after p}"
  unfolding differing_def by (induction paths arbitrary: into) auto

lemma distinct_differing: "distinct into \<Longrightarrow> distinct (differing paths before after into)"
  unfolding differing_def by (induction paths arbitrary: into) (auto simp: jadd_def)

definition covering :: "Coverage \<Rightarrow> Coverage \<Rightarrow> string \<Rightarrow> bool" where
  "covering c n path =
     (\<exists>w \<in> set (cv_workspaces c) \<union> set (cv_workspaces n). path \<in> set (cv_inputPaths c w) \<union> set (cv_inputPaths n w))"

lemma fold_differing:
  "set (fold (\<lambda>w found. differing (g w) before after (differing (f w) before after found)) ws into) =
     set into \<union> {p. map_of before p \<noteq> map_of after p \<and> (\<exists>w \<in> set ws. p \<in> set (f w) \<union> set (g w))}"
  by (induction ws arbitrary: into) (auto simp: set_differing)

lemma distinct_fold_differing:
  "distinct into \<Longrightarrow> distinct (fold (\<lambda>w found. differing (g w) before after (differing (f w) before after found)) ws into)"
  by (induction ws arbitrary: into) (simp_all add: distinct_differing)

text \<open>The paths \<^verbatim>\<open>changedSince\<close> finds, before it asks whether there are any.\<close>

definition changedInputs :: "Coverage option \<Rightarrow> Bound \<Rightarrow> ProjectInputs \<Rightarrow> Coverage option \<Rightarrow> string set" where
  "changedInputs covered' bound snapshot now =
     {p. map_of (comparedDigests (bo_snapshot bound)) p \<noteq> map_of (comparedDigests snapshot) p \<and>
        (case covered' of None \<Rightarrow> True | Some c \<Rightarrow> (case now of None \<Rightarrow> False | Some n \<Rightarrow> covering c n p))}"

lemma changedSince_Some:
  "changedSince covered' bound snapshot now = Some change \<Longrightarrow>
     set (xc_paths change) = changedInputs covered' bound snapshot now \<and> distinct (xc_paths change) \<and> xc_paths change \<noteq> [] \<and>
     xc_everyWorkspace change = (covered' = None)"
  by (cases covered'; cases now)
    (auto simp: changedSince_def changedInputs_def covering_def Let_def set_differing distinct_differing fold_differing
      distinct_fold_differing in_keys_iff Option.is_none_def split: if_splits)

lemma changedSince_None: "changedSince covered' bound snapshot now = None \<Longrightarrow> changedInputs covered' bound snapshot now = {}"
proof -
  assume none: "changedSince covered' bound snapshot now = None"
  let ?before = "comparedDigests (bo_snapshot bound)" and ?after = "comparedDigests snapshot"
  show ?thesis
  proof (cases covered')
    case None
    then have "set (differing (keys ?after) ?before ?after (differing (keys ?before) ?before ?after [])) = {}"
      using none by (simp add: changedSince_def Let_def split: if_splits)
    then show ?thesis using None by (auto simp: changedInputs_def set_differing in_keys_iff) metis
  next
    case (Some c)
    show ?thesis
    proof (cases now)
      case (Some n)
      then have "set (fold (\<lambda>w found. differing (cv_inputPaths n w) ?before ?after (differing (cv_inputPaths c w) ?before ?after found))
          (uniq (cv_workspaces c @ cv_workspaces n)) []) = {}"
        using none \<open>covered' = Some c\<close> by (simp add: changedSince_def Let_def split: if_splits)
      then show ?thesis using Some \<open>covered' = Some c\<close> unfolding fold_differing by (auto simp: changedInputs_def covering_def)
    qed (simp add: changedInputs_def Some)
  qed
qed

lemma waitResult_answered:
  "waitResult wait moment outcome coverage = WaitAnswered a \<Longrightarrow>
     \<exists>basis. momentBasis moment = Inr basis \<and> a = waitAnswer basis
       \<lparr>wq_outcome = outcome, wq_boundRevision = map_option bo_revision (pw_bound wait), wq_paths = pw_paths wait,
        wq_unread = pw_unread wait, wq_coverage = coverage\<rparr>"
  by (auto simp: waitResult_def split: sum.splits)

lemma waitAnswer_simps [simp]:
  "wn_outcome (waitAnswer basis state) = wq_outcome state" "wn_boundRevision (waitAnswer basis state) = wq_boundRevision state"
  "wn_coverage (waitAnswer basis state) = (case wq_coverage state of None \<Rightarrow> CoverageNotYetKnown | Some c \<Rightarrow> cv_facts c)"
  "map wv_path (wn_files (waitAnswer basis state)) = wq_paths state"
  "wn_workspaces (waitAnswer basis state) =
     filter (\<lambda>w. covers (wq_coverage state) (we_workspacePath w)) (sf_workspaces (ac_schedule (qb_context basis)))"
  by (simp_all add: waitAnswer_def Let_def comp_def)

lemma waitAnswer_read: "wq_unread state = [] \<Longrightarrow> list_all (\<lambda>f. wv_unread f = None) (wn_files (waitAnswer basis state))"
  by (auto simp: waitAnswer_def Let_def list_all_iff jmap_of_def)

text \<open>A wait a moment judges: what it is bound to, the coverage now and at that revision, and what it gets.\<close>

lemma judgeOne_result:
  assumes "snd (judgeOne query moment wait) = Some result" "waitOk R B wait" "pw_read wait" "bindsHere world R B"
    "wo_moment world = Inr moment"
  shows "\<exists>snapshot discovery bound judged now. ci_snapshot (my_inputs moment) = Some snapshot \<and>
    lr_discovery (my_results moment) = Some discovery \<and> B (pw_key wait) bound \<and>
    pw_bound judged = Some bound \<and> pw_paths judged = pw_paths wait \<and> pw_unread judged = pw_unread wait \<and>
    judgeCovered moment (if_revision (ci_facts (my_inputs moment))) snapshot bound judged now = Some result \<and>
    (\<forall>c. now = Some c \<longrightarrow> coverageTaken (pw_paths wait) c \<and> cv_revision c = if_revision (ci_facts (my_inputs moment)) \<and>
       cv_discoveryId c = st_discoveryId discovery) \<and>
    (\<forall>c. pw_boundCoverage judged = Some c \<longrightarrow> coverageTaken (pw_paths wait) c \<and> cv_revision c = bo_revision bound)"
proof -
  obtain snapshot discovery where there: "ci_snapshot (my_inputs moment) = Some snapshot"
    "lr_discovery (my_results moment) = Some discovery"
    using assms(1) by (auto simp: judgeOne_def Let_def split: option.splits)
  define revision where "revision = if_revision (ci_facts (my_inputs moment))"
  define bound where "bound = (case pw_bound wait of Some bound \<Rightarrow> bound | None \<Rightarrow> \<lparr>bo_revision = revision, bo_snapshot = snapshot\<rparr>)"
  have "momentBound world \<lparr>bo_revision = revision, bo_snapshot = snapshot\<rparr>"
    using there(1) assms(5) by (simp add: momentBound_def revision_def)
  then have b: "B (pw_key wait) bound"
    using assms(2-4) by (auto simp: bound_def waitOk_def bindsHere_def split: option.split)
  define boundWait where "boundWait = wait\<lparr>pw_bound := Some bound\<rparr>"
  have ok: "waitOk R B boundWait" "pw_read boundWait" "pw_bound boundWait = Some bound"
    using assms(2,3) b by (auto simp: boundWait_def waitOk_def bound_def)
  define judged where "judged = fst (covered query boundWait bound discovery revision snapshot)"
  define now where "now = coverageOf query boundWait discovery revision snapshot"
  have both: "covered query boundWait bound discovery revision snapshot = (judged, now)"
    by (simp add: judged_def now_def covered_def Let_def)
  have "waitOk R B judged" unfolding judged_def using covered_ok [OF ok] by blast
  moreover have "pw_bound judged = Some bound \<and> pw_paths judged = pw_paths wait \<and> pw_unread judged = pw_unread wait"
    by (simp add: judged_def covered_def Let_def boundWait_def)
  moreover have "judgeCovered moment revision snapshot bound judged now = Some result"
    using assms(1) by (simp only: judgeOne_def there option.case Let_def revision_def [symmetric] bound_def [symmetric]
        boundWait_def [symmetric] both prod.case snd_conv)
  moreover have "coverageTaken (pw_paths wait) c \<and> cv_revision c = revision \<and> cv_discoveryId c = st_discoveryId discovery" if "now = Some c" for c
    using coverageOf_taken [OF ok(1)] that by (simp add: now_def boundWait_def)
  ultimately show ?thesis
    using there b by (intro exI [of _ snapshot] exI [of _ discovery] exI [of _ bound] exI [of _ judged] exI [of _ now])
      (auto simp: waitOk_def revision_def)
qed

text \<open>
  A workspace an answer vouches for: its latest run is current and neither failed nor crashed, or the answer shows it
  idle and says why nothing runs it.
\<close>

definition readsCurrent :: "QueryBasis \<Rightarrow> string \<Rightarrow> bool" where
  "readsCurrent basis path =
     (\<exists>run. map_of (qb_latestRuns basis) path = Some run \<and>
        recordFreshness run (qb_currentFingerprint basis path) = Current \<and>
        (\<forall>error. sr_run run \<noteq> FailedRun error) \<and> (\<forall>error. sr_run run \<noteq> CrashedRun error))"

definition vouchedFor :: "QueryBasis \<Rightarrow> WorkspaceExecution list \<Rightarrow> string \<Rightarrow> bool" where
  "vouchedFor basis shown path =
     (readsCurrent basis path \<or>
      (\<exists>why. \<lparr>we_workspacePath = path, we_state = ExecutionIdle (Some why)\<rparr> \<in> set shown))"

lemma flat_map_keys: "map_of (jmap_of (flat_map f xs)) k = None \<longleftrightarrow> (\<forall>x \<in> set xs. k \<notin> fst ` set (f x))"
  by (auto simp: map_of_jmap_of map_of_eq_None_iff)

lemma settles_vouched:
  assumes "momentBasis moment = Inr basis" "lr_discovery (my_results moment) = Some discovery"
    and "settles (ac_schedule (qb_context basis)) workspaces" "WsDiscovered d \<in> set (td_workspaces (st_discovery discovery))"
    and "sa_confirmed (vw_parts (my_view moment)) (WsDiscovered d)" "ws_path (dw_workspace d) \<in> set workspaces"
  shows "vouchedFor basis (filter (\<lambda>w. we_workspacePath w \<in> set workspaces) (sf_workspaces (ac_schedule (qb_context basis))))
    (ws_path (dw_workspace d))"
proof -
  define results where "results = my_results moment"
  define prints where "prints = workspaceFingerprints (st_discovery discovery) (my_inputs moment)"
  define path where "path = ws_path (dw_workspace d)"
  define schedule where "schedule = vw_schedule (my_view moment)"
  define query where "query = \<lparr>sq_revision = if_revision (ci_facts (my_inputs moment)), sq_activity = vw_activity (my_view moment),
     sq_workspaces = td_workspaces (st_discovery discovery), sq_latestRuns = latestRunsMap results,
     sq_refusedRuns = refusedRunsMap results, sq_fingerprint = (\<lambda>entry. case map_of prints (entryPath entry) of
       Some print \<Rightarrow> print | None \<Rightarrow> ci_workspaceFingerprint (my_inputs moment) entry)\<rparr>"
  have basis: "qb_latestRuns basis = latestRunsMap results" "qb_currentFingerprint basis = (\<lambda>p. fingerprintDigest (map_of prints p))"
    "ac_schedule (qb_context basis) = fst (readSchedule (vw_parts (my_view moment)) query schedule)"
    using assms(1,2)
    by (auto simp: momentBasis_def queryBasis_def basisOver_def Let_def split_beta results_def prints_def query_def schedule_def)
  let ?round = "roundAt (sq_revision query) schedule"
  have round: "?round \<noteq> RoundPending w" for w
    using assms(3) by (auto simp: basis(3) settles_def readSchedule_def Let_def)
  have "map_of prints path \<noteq> None"
    using assms(4) unfolding prints_def workspaceFingerprints_def flat_map_keys by (force simp: path_def)
  then obtain print where print: "map_of prints path = Some print" by auto
  define state where "state = executionState (vw_parts (my_view moment)) (WsDiscovered d) ?round query schedule"
  have shown: "\<lparr>we_workspacePath = path, we_state = state\<rparr> \<in> set (sf_workspaces (ac_schedule (qb_context basis)))"
  proof -
    have "sq_workspaces query = td_workspaces (st_discovery discovery)" by (simp add: query_def)
    then show ?thesis
      using assms(4,5) by (auto simp: basis(3) readSchedule_def Let_def state_def path_def intro!: image_eqI [of _ _ "WsDiscovered d"])
  qed
  have "list_all (\<lambda>w. we_workspacePath w \<notin> set workspaces \<or>
      (case we_state w of ExecutionIdle _ \<Rightarrow> True | _ \<Rightarrow> False)) (sf_workspaces (ac_schedule (qb_context basis)))"
    using assms(3) by (auto simp: settles_def split: RoundFacts.splits)
  with shown have "path \<notin> set workspaces \<or> (case state of ExecutionIdle _ \<Rightarrow> True | _ \<Rightarrow> False)"
    unfolding list_all_iff by fastforce
  then obtain idle where idle: "state = ExecutionIdle idle" using assms(6) by (cases state) (simp_all add: path_def)
  then have idle': "idle = notRunning (vw_parts (my_view moment)) path ?round (map_of (latestRunsMap results) path) print query schedule"
    using print by (auto simp: state_def executionState_def Let_def query_def path_def split: if_splits option.splits)
  show ?thesis
  proof (cases idle)
    case None
    then have "readsCurrent basis path"
      using idle' idle_without_reason_iff round by (auto simp: readsCurrent_def basis print)
    then show ?thesis by (simp add: vouchedFor_def path_def)
  next
    case (Some why)
    then show ?thesis using shown idle assms(6) by (auto simp: vouchedFor_def path_def)
  qed
qed

lemma ended_judged:
  assumes "reachableWaits consumerRoot history s" "(key, WaitAnswered a) \<in> set (wg_ended (waitStep consumerRoot world event s))"
    and "(key, WaitAnswered a) \<notin> set (wg_ended s)" "wn_outcome a \<noteq> WaitUnsettled"
  defines "history' \<equiv> (world, event) # history"
  obtains moment wait where "wo_moment world = Inr moment" "waitOk (namedRead history') (boundAfterRead history') wait"
    "pw_read wait" "pw_key wait = key" "snd (judgeOne (wo_narrowing world) moment wait) = Some (WaitAnswered a)"
    "bindsHere world (namedRead history') (boundAfterRead history')"
proof -
  have old: "waitsKept world (namedRead history') (boundAfterRead history') (set (wg_ended s)) s" "watched s"
    using reachable_kept [OF assms(1)] kept_mono [of world "namedRead history" "boundAfterRead history" s]
      boundAfterRead_mono namedRead_mono by (auto simp: history'_def)
  have binds: "bindsHere world (namedRead history') (boundAfterRead history')"
    unfolding bindsHere_def boundAfterRead_def history'_def by (metis append_Nil)
  have "waitsKept world (namedRead history') (boundAfterRead history') (set (wg_ended s)) (waitStep consumerRoot world event s)"
    using waitStep_kept [OF old binds, of event consumerRoot] secondRead_named [OF assms(1)] by (auto simp: history'_def)
  then have "judgedResult world (namedRead history') (boundAfterRead history') (key, WaitAnswered a)"
    using assms(2-4) unfolding waitsKept_def unjudgedResult_def by fastforce
  then show ?thesis using that binds by (auto simp: judgedResult_def)
qed

lemma judgeCovered_cases:
  assumes "judgeCovered moment revision snapshot bound wait now = Some result"
  obtains (superseded) change cov where "revision \<noteq> bo_revision bound"
      "changedSince (pw_boundCoverage wait) bound snapshot now = Some change"
      "result = waitResult wait moment (WaitSuperseded revision (boundedList (sort (xc_paths change)) MAX_NAMED_CHANGES)) cov"
    | (settled) n basis where "revision = bo_revision bound \<or> changedSince (pw_boundCoverage wait) bound snapshot now = None"
      "now = Some n" "pw_unread wait = []" "momentBasis moment = Inr basis"
      "settles (ac_schedule (qb_context basis)) (cv_workspaces n)" "result = waitResult wait moment WaitSettled now"
proof (cases "if revision = bo_revision bound then None else changedSince (pw_boundCoverage wait) bound snapshot now")
  case None
  then have "revision = bo_revision bound \<or> changedSince (pw_boundCoverage wait) bound snapshot now = None" by (auto split: if_splits)
  moreover obtain n basis where "now = Some n" "pw_unread wait = []" "momentBasis moment = Inr basis"
    "settles (ac_schedule (qb_context basis)) (cv_workspaces n)" "result = waitResult wait moment WaitSettled now"
    using assms None by (auto simp: judgeCovered_def split: option.splits sum.splits if_splits)
  ultimately show ?thesis using settled by blast
next
  case (Some change)
  then have r: "revision \<noteq> bo_revision bound" "changedSince (pw_boundCoverage wait) bound snapshot now = Some change"
    by (auto split: if_splits)
  then have "result = waitResult wait moment (WaitSuperseded revision (boundedList (sort (xc_paths change)) MAX_NAMED_CHANGES))
      (if xc_everyWorkspace change then None else pw_coverage wait)"
    using assms by (simp add: judgeCovered_def)
  with r show ?thesis by (rule superseded)
qed

lemma waitResult_outcome: "waitResult wait moment outcome coverage = WaitAnswered a \<Longrightarrow> wn_outcome a = outcome"
  using waitResult_answered by fastforce

lemma judgeCovered_settled:
  assumes "judgeCovered moment revision snapshot bound wait now = Some (WaitAnswered a)" "wn_outcome a = WaitSettled"
  shows "\<exists>basis n. now = Some n \<and> pw_unread wait = [] \<and> momentBasis moment = Inr basis \<and>
    settles (ac_schedule (qb_context basis)) (cv_workspaces n) \<and>
    a = waitAnswer basis \<lparr>wq_outcome = WaitSettled, wq_boundRevision = map_option bo_revision (pw_bound wait),
      wq_paths = pw_paths wait, wq_unread = pw_unread wait, wq_coverage = Some n\<rparr> \<and>
    (revision = bo_revision bound \<or> changedInputs (pw_boundCoverage wait) bound snapshot now = {})"
  using assms(1)
proof (cases rule: judgeCovered_cases)
  case (superseded change cov)
  then show ?thesis using waitResult_outcome [OF superseded(3) [symmetric]] assms(2) by simp
next
  case (settled n basis)
  then have "revision = bo_revision bound \<or> changedInputs (pw_boundCoverage wait) bound snapshot now = {}"
    using changedSince_None by blast
  then show ?thesis using settled waitResult_answered [OF settled(6) [symmetric]] by auto
qed

lemma judgeCovered_superseded:
  assumes "judgeCovered moment revision' snapshot bound wait now = Some (WaitAnswered a)" "wn_outcome a = WaitSuperseded revision names"
  shows "revision = revision' \<and> bo_revision bound \<noteq> revision \<and> wn_boundRevision a = map_option bo_revision (pw_bound wait) \<and>
    map wv_path (wn_files a) = pw_paths wait \<and> changedInputs (pw_boundCoverage wait) bound snapshot now \<noteq> {} \<and>
    names = boundedList (sorted_list_of_set (changedInputs (pw_boundCoverage wait) bound snapshot now)) MAX_NAMED_CHANGES"
  using assms(1)
proof (cases rule: judgeCovered_cases)
  case (superseded change cov)
  have found: "set (xc_paths change) = changedInputs (pw_boundCoverage wait) bound snapshot now" "distinct (xc_paths change)"
    "xc_paths change \<noteq> []"
    using changedSince_Some [OF superseded(2)] by simp_all
  have "sort (xc_paths change) = sorted_list_of_set (set (xc_paths change))"
    using found(2) by (simp add: sorted_list_of_set_sort_remdups distinct_remdups_id)
  moreover have "set (xc_paths change) \<noteq> {}" using found(3) by simp
  ultimately show ?thesis using superseded(1) assms(2) waitResult_answered [OF superseded(3) [symmetric]]
    by (auto simp: found(1))
next
  case (settled n basis)
  then show ?thesis using waitResult_outcome [OF settled(6) [symmetric]] assms(2) by simp
qed

lemma fold_ended: "(\<And>k s. set (wg_ended s) \<subseteq> set (wg_ended (f k s))) \<Longrightarrow> set (wg_ended s) \<subseteq> set (wg_ended (fold f ks s))"
  by (induction ks arbitrary: s) (auto, blast)

lemma settle_ended: "set (wg_ended s) \<subseteq> set (wg_ended (settleWait key result s))"
  by (auto simp: settleWait_def)

lemma judge_ended: "set (wg_ended s) \<subseteq> set (wg_ended (judgeWaits world ks s))"
proof -
  have "set (wg_ended s) \<subseteq> set (wg_ended (judgeStep query moment key s))" for query moment key s
    using settle_ended [of "updateWait key f s" for f] by (auto simp: judgeStep_def split_beta Let_def split: option.split)
  then have "set (wg_ended s) \<subseteq> set (wg_ended (fold (judgeStep query moment) ready s))" for query moment ready
    by (rule fold_ended)
  moreover have "set (wg_ended s) \<subseteq> set (wg_ended (fold (\<lambda>key. settleWait key result) ready s))" for result ready
    by (rule fold_ended) (rule settle_ended)
  ultimately show ?thesis by (simp add: judgeWaits_def Let_def split: sum.split)
qed

lemma watchOn_ended: "set (wg_ended s) \<subseteq> set (wg_ended (watchOn world s))"
proof -
  have "x \<in> set (wg_ended (fold (\<lambda>key. settleWait key result) ks t))" if "x \<in> set (wg_ended t)" for x t result ks
    using fold_ended [of "\<lambda>key. settleWait key result" t ks] settle_ended that by blast
  then show ?thesis by (auto simp: watchOn_def nextMove_def Let_def split: sum.split option.split)
qed

lemma ended_grows: "set (wg_ended s) \<subseteq> set (wg_ended (waitStep consumerRoot world event s))"
proof (cases event)
  case (WaitAsked given' aborted)
  then show ?thesis
    using watchOn_ended [of "s\<lparr>wg_asked := n, wg_pending := ws\<rparr>" world for n ws]
      settle_ended [of "s\<lparr>wg_asked := n, wg_pending := ws\<rparr>" for n ws]
    by (auto simp: askWait_def watch_def Let_def split: sum.split)
next
  case (SecondReadEnded key unread)
  then show ?thesis using judge_ended [of "updateWait key f s" for f] by (simp split: option.split)
next
  case RaceWon
  then show ?thesis using judge_ended watchOn_ended by (auto simp: subset_iff)
qed (auto simp: expireWait_def storeMoved_def sourceMoved_def Let_def settleWait_def split: option.split sum.split)

section \<open>The properties\<close>

text \<open>
  C38. No wait is lost and none is answered twice. In every state any events lead to, each wait asked for is pending or has
  ended, once; what it ended with never changes; while one is pending and the daemon is not stopping, the watch runs and
  either has been woken or awaits the inputs, the schedule and the store; and a wait whose limit passes has ended.
\<close>

theorem waits_end_once:
  assumes "reachableWaits consumerRoot history s"
  shows "distinct (map fst (wg_ended s)) \<and>
    set (map pw_key (wg_pending s)) \<inter> set (map fst (wg_ended s)) = {} \<and>
    set (map pw_key (wg_pending s)) \<union> set (map fst (wg_ended s)) = {..<wg_asked s} \<and>
    (wg_pending s \<noteq> [] \<and> \<not> wg_stopped s \<longrightarrow> wg_watching s \<and>
       (wg_woken s \<or> {InputsMove, ScheduleMove, StoreMove} \<subseteq> set (wg_armed s))) \<and>
    (\<forall>key < wg_asked s. key \<in> set (map fst (wg_ended (waitStep consumerRoot world (LimitPassed key) s)))) \<and>
    (\<forall>event. set (wg_ended s) \<subseteq> set (wg_ended (waitStep consumerRoot world event s)))"
proof -
  have kept: "waitsKept world (namedRead history) (boundAfterRead history) (set (wg_ended s)) s" "watched s"
    using reachable_kept [OF assms] by simp_all
  have limit: "key \<in> set (map fst (wg_ended (waitStep consumerRoot world (LimitPassed key) s)))" if "key < wg_asked s" for key
  proof (cases "pendingWait key s")
    case None
    then have "key \<notin> pw_key ` set (wg_pending s)" by (auto simp: pendingWait_def find_None_iff)
    moreover have "key \<in> pw_key ` set (wg_pending s) \<union> fst ` set (wg_ended s)"
      using kept(1) that by (simp add: waitsKept_def accounted_def)
    ultimately show ?thesis using None by (simp add: expireWait_def)
  next
    case (Some wait)
    then have "key \<in> pw_key ` set (wg_pending s)" using pendingWait_Some by (metis imageI)
    then show ?thesis using Some by (auto simp: expireWait_def settleWait_def split: sum.split)
  qed
  show ?thesis using kept limit ended_grows by (auto simp: waitsKept_def accounted_def watched_def)
qed

text \<open>
  C3. What a settled wait rests on. It was bound to a revision read after both reads of its files, none of its files is
  left unread, and at the moment that settles it the coverage at the moment's revision is known; unless that is the
  revision it was bound to, no input of a covering workspace differs from the bound one's; and every discovered workspace
  of the coverage that the daemon runs has a latest run that is current, neither failed nor crashed, or the answer shows
  it idle with the reason why nothing runs it.
\<close>

theorem settled_wait_vouches:
  assumes "reachableWaits consumerRoot history s"
    and "(key, WaitAnswered a) \<in> set (wg_ended (waitStep consumerRoot world event s))"
    and "(key, WaitAnswered a) \<notin> set (wg_ended s)" "wn_outcome a = WaitSettled"
  shows "\<exists>moment snapshot discovery basis coverage bound.
    wo_moment world = Inr moment \<and> ci_snapshot (my_inputs moment) = Some snapshot \<and>
    lr_discovery (my_results moment) = Some discovery \<and> momentBasis moment = Inr basis \<and>
    wn_boundRevision a = Some (bo_revision bound) \<and> boundAfterRead ((world, event) # history) key bound \<and>
    list_all (\<lambda>f. wv_unread f = None) (wn_files a) \<and>
    coverageTaken (map wv_path (wn_files a)) coverage \<and> wn_coverage a = cv_facts coverage \<and>
    cv_revision coverage = if_revision (ci_facts (my_inputs moment)) \<and>
    cv_discoveryId coverage = st_discoveryId discovery \<and>
    (bo_revision bound = if_revision (ci_facts (my_inputs moment)) \<or>
      (\<forall>w \<in> set (cv_workspaces coverage). \<forall>path \<in> set (cv_inputPaths coverage w).
         map_of (comparedDigests (bo_snapshot bound)) path = map_of (comparedDigests snapshot) path)) \<and>
    (\<forall>d. WsDiscovered d \<in> set (td_workspaces (st_discovery discovery)) \<and>
       sa_confirmed (vw_parts (my_view moment)) (WsDiscovered d) \<and>
       ws_path (dw_workspace d) \<in> set (cv_workspaces coverage) \<longrightarrow>
       vouchedFor basis (wn_workspaces a) (ws_path (dw_workspace d)))"
proof -
  obtain moment wait where m: "wo_moment world = Inr moment"
    "waitOk (namedRead ((world, event) # history)) (boundAfterRead ((world, event) # history)) wait" "pw_read wait"
    "pw_key wait = key" "snd (judgeOne (wo_narrowing world) moment wait) = Some (WaitAnswered a)"
    "bindsHere world (namedRead ((world, event) # history)) (boundAfterRead ((world, event) # history))"
    by (rule ended_judged [OF assms(1-3)]) (use assms(4) in auto)
  from judgeOne_result [OF m(5,2,3,6,1)] obtain snapshot discovery bound judged now where j:
    "ci_snapshot (my_inputs moment) = Some snapshot" "lr_discovery (my_results moment) = Some discovery"
    "boundAfterRead ((world, event) # history) (pw_key wait) bound" "pw_bound judged = Some bound"
    "pw_paths judged = pw_paths wait" "pw_unread judged = pw_unread wait"
    "judgeCovered moment (if_revision (ci_facts (my_inputs moment))) snapshot bound judged now = Some (WaitAnswered a)"
    "\<forall>c. now = Some c \<longrightarrow> coverageTaken (pw_paths wait) c \<and> cv_revision c = if_revision (ci_facts (my_inputs moment)) \<and>
       cv_discoveryId c = st_discoveryId discovery"
    "\<forall>c. pw_boundCoverage judged = Some c \<longrightarrow> coverageTaken (pw_paths wait) c \<and> cv_revision c = bo_revision bound"
    by (elim exE conjE)
  from judgeCovered_settled [OF j(7) assms(4)] obtain basis n where s:
    "now = Some n" "pw_unread wait = []" "momentBasis moment = Inr basis"
    "settles (ac_schedule (qb_context basis)) (cv_workspaces n)"
    "a = waitAnswer basis \<lparr>wq_outcome = WaitSettled, wq_boundRevision = Some (bo_revision bound), wq_paths = pw_paths wait,
       wq_unread = [], wq_coverage = Some n\<rparr>"
    "if_revision (ci_facts (my_inputs moment)) = bo_revision bound \<or> changedInputs (pw_boundCoverage judged) bound snapshot now = {}"
    by (elim exE conjE) (simp add: j(4-6))
  have same: "bo_revision bound = if_revision (ci_facts (my_inputs moment)) \<or>
      (\<forall>w \<in> set (cv_workspaces n). \<forall>path \<in> set (cv_inputPaths n w).
         map_of (comparedDigests (bo_snapshot bound)) path = map_of (comparedDigests snapshot) path)"
    using s(6) by (auto simp: changedInputs_def s(1) covering_def split: option.splits)
  show ?thesis
    using m(1,4) j(1-3) j(8) s(1) s(3) same settles_vouched [OF s(3) j(2) s(4)] waitAnswer_read [of "\<lparr>wq_outcome = WaitSettled,
      wq_boundRevision = Some (bo_revision bound), wq_paths = pw_paths wait, wq_unread = [], wq_coverage = Some n\<rparr>" basis]
    by (intro exI [of _ moment] exI [of _ snapshot] exI [of _ discovery] exI [of _ basis] exI [of _ n] exI [of _ bound])
      (simp add: s(5) covers_def)
qed

text \<open>
  C39. What a superseded wait names: exactly the inputs that differ between the revision it was bound to after its reads
  and the later one that supersedes it, among the inputs of the workspaces covering its files at either, or among all
  while the coverage at the bound revision is not known. There is at least one, the first 20 are named in their order,
  and the rest counted.
\<close>

theorem superseded_wait_names:
  assumes "reachableWaits consumerRoot history s"
    and "(key, WaitAnswered a) \<in> set (wg_ended (waitStep consumerRoot world event s))"
    and "(key, WaitAnswered a) \<notin> set (wg_ended s)" "wn_outcome a = WaitSuperseded revision names"
  shows "\<exists>moment snapshot bound boundCoverage now.
    wo_moment world = Inr moment \<and> ci_snapshot (my_inputs moment) = Some snapshot \<and>
    revision = if_revision (ci_facts (my_inputs moment)) \<and> bo_revision bound \<noteq> revision \<and>
    wn_boundRevision a = Some (bo_revision bound) \<and> boundAfterRead ((world, event) # history) key bound \<and>
    pred_option (\<lambda>c. coverageTaken (map wv_path (wn_files a)) c \<and> cv_revision c = bo_revision bound) boundCoverage \<and>
    pred_option (\<lambda>n. coverageTaken (map wv_path (wn_files a)) n \<and> cv_revision n = revision) now \<and>
    changedInputs boundCoverage bound snapshot now \<noteq> {} \<and>
    nl_named names = take 20 (sorted_list_of_set (changedInputs boundCoverage bound snapshot now)) \<and>
    nl_more names = card (changedInputs boundCoverage bound snapshot now) - 20"
proof -
  obtain moment wait where m: "wo_moment world = Inr moment"
    "waitOk (namedRead ((world, event) # history)) (boundAfterRead ((world, event) # history)) wait" "pw_read wait"
    "pw_key wait = key" "snd (judgeOne (wo_narrowing world) moment wait) = Some (WaitAnswered a)"
    "bindsHere world (namedRead ((world, event) # history)) (boundAfterRead ((world, event) # history))"
    by (rule ended_judged [OF assms(1-3)]) (use assms(4) in auto)
  from judgeOne_result [OF m(5,2,3,6,1)] obtain snapshot discovery bound judged now where j:
    "ci_snapshot (my_inputs moment) = Some snapshot" "lr_discovery (my_results moment) = Some discovery"
    "boundAfterRead ((world, event) # history) (pw_key wait) bound" "pw_bound judged = Some bound"
    "pw_paths judged = pw_paths wait" "pw_unread judged = pw_unread wait"
    "judgeCovered moment (if_revision (ci_facts (my_inputs moment))) snapshot bound judged now = Some (WaitAnswered a)"
    "\<forall>c. now = Some c \<longrightarrow> coverageTaken (pw_paths wait) c \<and> cv_revision c = if_revision (ci_facts (my_inputs moment)) \<and>
       cv_discoveryId c = st_discoveryId discovery"
    "\<forall>c. pw_boundCoverage judged = Some c \<longrightarrow> coverageTaken (pw_paths wait) c \<and> cv_revision c = bo_revision bound"
    by (elim exE conjE)
  from judgeCovered_superseded [OF j(7) assms(4)] have s:
    "revision = if_revision (ci_facts (my_inputs moment))" "bo_revision bound \<noteq> revision"
    "wn_boundRevision a = Some (bo_revision bound)" "map wv_path (wn_files a) = pw_paths wait"
    "changedInputs (pw_boundCoverage judged) bound snapshot now \<noteq> {}"
    "names = boundedList (sorted_list_of_set (changedInputs (pw_boundCoverage judged) bound snapshot now)) MAX_NAMED_CHANGES"
    by (simp_all add: j(4,5))
  show ?thesis
    using m(1,4) j(1,3,8,9) s
    by (intro exI [of _ moment] exI [of _ snapshot] exI [of _ bound] exI [of _ "pw_boundCoverage judged"] exI [of _ now])
      (auto simp: pred_option_def boundedList_def MAX_NAMED_CHANGES_def)
qed

text \<open>A wait on a library's file at a moment whose round is pending, then settled, or superseded by an edit of the file.\<close>

definition waitRun :: StoredRun where
  "waitRun = \<lparr>sb_adapterVersion = 4, sb_inputFingerprint = FingerprintDigest ''f'', sr_runId = ''r'',
     sr_workspace = \<lparr>ws_path = ''app'', ws_directory = ''/r/app''\<rparr>,
     sr_run = UnsupportedRun \<lparr>uv_version = None, uv_supportedRange = ''4'', uv_reason = ''older''\<rparr>\<rparr>"

definition waitDiscovery :: StoredDiscovery where
  "waitDiscovery = \<lparr>sb_adapterVersion = 4, sb_inputFingerprint = FingerprintDigest ''g'', st_discoveryId = ''i'',
     st_discovery = \<lparr>td_workspaces = [WsDiscovered \<lparr>dw_workspace = \<lparr>ws_path = ''app'', ws_directory = ''/r/app''\<rparr>,
       dw_vitestVersion = ''4'', dw_tests = [], dw_failedModules = [], dw_typecheckModules = [], dw_unsupportedProjects = [],
       dw_unhandledErrors = [], dw_selectionFacts = FactsReported [], dw_closeError = None\<rparr>],
       td_notRead = [], td_notCovered = None\<rparr>\<rparr>"

definition waitMomentAt :: "nat \<Rightarrow> string \<Rightarrow> WorkspaceSchedule \<Rightarrow> WaitMoment" where
  "waitMomentAt revision digest schedule =
     \<lparr>my_results = \<lparr>lr_discovery = Some waitDiscovery, lr_discoveryRefusal = None, lr_latestRuns = [waitRun],
        lr_runRefusals = [], lr_evidenceRefusals = []\<rparr>,
      my_view = \<lparr>vw_consumerRoot = ''/r'', vw_activity = IdleActivity, vw_unstoredJobs = [],
        vw_parts = \<lparr>sa_confirmed = (\<lambda>_. True), sa_storedNothing = (\<lambda>_. False), sa_heldBy = (\<lambda>_. None),
          sa_discoveryHeldBy = None\<rparr>, vw_schedule = schedule\<rparr>,
      my_inputs = \<lparr>ci_facts = \<lparr>if_revision = revision, if_reconciliation = ReconciliationComplete,
          if_lastReconciledAt = Some ''t'', if_watcher = WatcherHealthy, if_pendingChanges = 0, if_gitUnread = []\<rparr>,
        ci_unavailable = None, ci_nonInputsUnusable = None, ci_inputsNotNarrowed = None,
        ci_snapshot = Some \<lparr>pi_root = ''/r'', pi_digests = [(''lib/x.ts'', digest), (''docs/y.md'', ''d2'')], pi_listed = []\<rparr>,
        ci_workspaceFingerprint = (\<lambda>_. Digest ''f''), ci_discoveryFingerprint = (\<lambda>_. Digest ''g''),
        ci_protectedFileChangedSince = (\<lambda>_ _. None)\<rparr>\<rparr>"

definition waitWorldAt :: "nat \<Rightarrow> string \<Rightarrow> WorkspaceSchedule \<Rightarrow> WaitWorld" where
  "waitWorldAt revision digest schedule =
     \<lparr>wo_fileSystem = \<lparr>fs_existsSync = (\<lambda>_. True), fs_realpathSync = Inr, fs_readFile = (\<lambda>_. CannotRead ''gone''),
        fs_readdirSync = (\<lambda>_. Inr []), fs_isDirectory = (\<lambda>_. Inr False)\<rparr>,
      wo_windows = False, wo_isDirectory = (\<lambda>_. False), wo_moment = Inr (waitMomentAt revision digest schedule),
      wo_narrowing = \<lparr>qn_discoveryId = Some ''i'', qn_state = Some (WithSelectionInput ''i''
        (Some (Built revision (newNarrowing sampleDiscovered sampleDependencies))) None), qn_buildsEnded = None\<rparr>,
      wo_buildsPending = Inr False\<rparr>"

definition plannedAt :: "nat \<Rightarrow> WorkspaceSchedule" where
  "plannedAt revision = newSchedule\<lparr>sk_round := RecPlanned revision []\<rparr>"

fun waitSteps :: "(WaitWorld \<times> WaitEvent) list \<Rightarrow> Waits" where
  "waitSteps [] = newWaits"
| "waitSteps ((world, event) # earlier) = waitStep ''/r'' world event (waitSteps earlier)"

lemma waitSteps_reachable: "reachableWaits ''/r'' history (waitSteps history)"
  by (induction history rule: waitSteps.induct) (auto intro: reachableWaits.intros)

definition boundHistory :: "(WaitWorld \<times> WaitEvent) list" where
  "boundHistory = (let world = waitWorldAt 1 ''d1'' newSchedule in
     [(world, InputsChanged), (world, SecondReadEnded 0 []), (world, FirstReadEnded 0), (world, WaitAsked [''/r/lib/x.ts''] False)])"

definition outcomeAt :: "WaitWorld \<Rightarrow> WaitOutcomeFacts option" where
  "outcomeAt world = (case wg_ended (waitStep ''/r'' world RaceWon (waitSteps boundHistory)) of
     [(0, WaitAnswered a)] \<Rightarrow> Some (wn_outcome a) | _ \<Rightarrow> None)"

lemma boundHistory_pending: "wg_ended (waitSteps boundHistory) = []"
  by code_simp

lemma boundHistory_settled: "outcomeAt (waitWorldAt 1 ''d1'' (plannedAt 1)) = Some WaitSettled"
  by code_simp

lemma boundHistory_superseded:
  "outcomeAt (waitWorldAt 2 ''d3'' newSchedule) = Some (WaitSuperseded 2 \<lparr>nl_named = [''lib/x.ts''], nl_more = 0\<rparr>)"
  by code_simp

lemma outcomeAt_ended:
  assumes "outcomeAt world = Some outcome"
  shows "\<exists>a. (0, WaitAnswered a) \<in> set (wg_ended (waitStep ''/r'' world RaceWon (waitSteps boundHistory))) \<and>
    (0, WaitAnswered a) \<notin> set (wg_ended (waitSteps boundHistory)) \<and> wn_outcome a = outcome"
  using assms boundHistory_pending
  by (auto simp: outcomeAt_def simp del: waitStep.simps split: list.splits prod.splits nat.splits WaitResult.splits)

theorem waits_end_once_witness:
  "wg_asked (waitSteps boundHistory) = 1 \<and>
   0 \<in> set (map fst (wg_ended (waitStep ''/r'' (waitWorldAt 1 ''d1'' newSchedule) (LimitPassed 0) (waitSteps boundHistory))))"
proof -
  have "wg_asked (waitSteps boundHistory) = 1" by code_simp
  then show ?thesis using waits_end_once [OF waitSteps_reachable, of boundHistory "waitWorldAt 1 ''d1'' newSchedule"] by simp
qed

theorem settled_wait_vouches_witness:
  "\<exists>a bound. (0, WaitAnswered a) \<in>
       set (wg_ended (waitStep ''/r'' (waitWorldAt 1 ''d1'' (plannedAt 1)) RaceWon (waitSteps boundHistory))) \<and>
     wn_outcome a = WaitSettled \<and> wn_boundRevision a = Some (bo_revision bound) \<and>
     boundAfterRead ((waitWorldAt 1 ''d1'' (plannedAt 1), RaceWon) # boundHistory) 0 bound"
proof -
  obtain a where a: "(0, WaitAnswered a) \<in> set (wg_ended (waitStep ''/r'' (waitWorldAt 1 ''d1'' (plannedAt 1)) RaceWon
      (waitSteps boundHistory)))" "(0, WaitAnswered a) \<notin> set (wg_ended (waitSteps boundHistory))" "wn_outcome a = WaitSettled"
    using outcomeAt_ended [OF boundHistory_settled] by blast
  from settled_wait_vouches [OF waitSteps_reachable a] obtain bound where
    "wn_boundRevision a = Some (bo_revision bound)"
    "boundAfterRead ((waitWorldAt 1 ''d1'' (plannedAt 1), RaceWon) # boundHistory) 0 bound"
    by (elim exE conjE) blast
  with a(1,3) show ?thesis by blast
qed

theorem superseded_wait_names_witness:
  "\<exists>a (bound :: Bound). (0, WaitAnswered a) \<in>
       set (wg_ended (waitStep ''/r'' (waitWorldAt 2 ''d3'' newSchedule) RaceWon (waitSteps boundHistory))) \<and>
     wn_outcome a = WaitSuperseded 2 \<lparr>nl_named = [''lib/x.ts''], nl_more = 0\<rparr> \<and>
     wn_boundRevision a = Some (bo_revision bound) \<and> bo_revision bound \<noteq> 2"
proof -
  obtain a where a: "(0, WaitAnswered a) \<in> set (wg_ended (waitStep ''/r'' (waitWorldAt 2 ''d3'' newSchedule) RaceWon
      (waitSteps boundHistory)))" "(0, WaitAnswered a) \<notin> set (wg_ended (waitSteps boundHistory))"
    "wn_outcome a = WaitSuperseded 2 \<lparr>nl_named = [''lib/x.ts''], nl_more = 0\<rparr>"
    using outcomeAt_ended [OF boundHistory_superseded] by blast
  from superseded_wait_names [OF waitSteps_reachable a] obtain bound :: Bound where
    "wn_boundRevision a = Some (bo_revision bound)" "bo_revision bound \<noteq> 2"
    by (elim exE conjE) blast
  with a(1,3) show ?thesis by blast
qed

end
