(* ===== verification/Spec2Isabelle.thy ===== *)
theory Spec2Isabelle
  imports RawFacts NonInputs InputJobs ChangeRecord TestLists ChangeJournal InputState SchedulerBounds StoreDiscovery WorktreeStandings Waits
begin

text \<open>
  A verification development for RT Test, a daemon that keeps the results of a worktree's Vitest tests
  up to date and judges whether planted defects are detected. The theories model the program's own
  decisions, translated from the TypeScript under \<^verbatim>\<open>src/packages\<close>; paths below are relative to
  \<^verbatim>\<open>src/packages/daemon/src\<close>.

  \<^bold>\<open>The program.\<close> The daemon watches the inputs of a consumer's workspaces. When they change it
  selects the tests the change can affect, queues the workspaces whose latest stored run is not bound
  to their current fingerprint, runs them one at a time, and stores what ran under the fingerprint the
  run started and ended with. Queries answer from the stored runs, each result with its freshness. A
  falsification job plants a defect, runs the tests again, and judges what the runs recorded.

  \<^bold>\<open>Evidence and verdicts.\<close> \<^verbatim>\<open>Evidence\<close> models \<^verbatim>\<open>../../core/src\<close>: the freshness of a result
  and the identity of a test. \<^verbatim>\<open>FactTypes\<close>, \<^verbatim>\<open>Verdict\<close> and \<^verbatim>\<open>RawFacts\<close> model \<^verbatim>\<open>falsify/fact-types.ts\<close>,
  \<^verbatim>\<open>falsify/verdict.ts\<close> and \<^verbatim>\<open>falsify/run-facts.ts\<close>: the facts an experiment is judged by, read
  from the raw records of its job (\<^verbatim>\<open>falsify/experiment-record.ts\<close>), and the judgement, in which each
  early return of the source is a branch. Their lemmas say when exactly a defect reads as detected or
  survived, first over the facts and then over the raw records.

  \<^bold>\<open>Inputs.\<close> \<^verbatim>\<open>Paths\<close> models the path functions of \<^verbatim>\<open>vitest/find-workspaces.ts\<close> and
  \<^verbatim>\<open>selection/graph-state.ts\<close> over Node's posix functions, \<^verbatim>\<open>Glob\<close> the matcher of
  \<^verbatim>\<open>inputs/non-inputs.ts\<close> and \<^verbatim>\<open>NonInputs\<close> the rest of that file: reading \<^verbatim>\<open>rt-test.json\<close> and
  deciding which paths are no inputs. The matcher's one resume point is proved to decide what a
  pattern denotes. \<^verbatim>\<open>InputJobs\<close> models \<^verbatim>\<open>inputs/input-jobs.ts\<close>: the window each job keeps of what
  changed while it ran, and the ledger that job endings wait on. \<^verbatim>\<open>ChangeRecord\<close> models
  \<^verbatim>\<open>daemon/change-record.ts\<close>, which tells a job's changes from a user's edits. Both are state
  machines: an operation is a function of the state, and the properties hold in every state reached by
  any sequence of operations.

  \<^bold>\<open>Workspaces and selection.\<close> \<^verbatim>\<open>Workspaces\<close> models \<^verbatim>\<open>vitest/find-workspaces.ts\<close>, with the
  answers of \<^verbatim>\<open>node:fs\<close> as an argument. \<^verbatim>\<open>SelectTests\<close> models \<^verbatim>\<open>selection/select-tests.ts\<close> and
  \<^verbatim>\<open>selection/widening-links.ts\<close>; \<^verbatim>\<open>SelectionCorrect\<close> proves that the breadth-first walk finds
  exactly what the dependency edges and the widenings reach, by shortest chains, and that the selected
  workspaces and their reasons are exactly those the relation \<open>affects\<close> on the input allows. The walks
  the source keeps by their starts joined with NUL are part of the model, so these properties ask that
  no workspace path holds a NUL, as no file system allows one.

  \<^bold>\<open>Fingerprints.\<close> \<^verbatim>\<open>InputState\<close> models \<^verbatim>\<open>inputs/input-state.ts\<close>, the digest and stamp held of each
  input and the revision that counts their changes, as a state machine whose revision vouches for what
  the project read; \<^verbatim>\<open>Listings\<close>, \<^verbatim>\<open>Environment\<close> and \<^verbatim>\<open>Fingerprint\<close> model the listing part of
  \<^verbatim>\<open>inputs/protection.ts\<close>, \<^verbatim>\<open>inputs/environment-digest.ts\<close> with \<^verbatim>\<open>inputs/carried-variables.ts\<close>, and
  \<^verbatim>\<open>inputs/fingerprint.ts\<close> with \<^verbatim>\<open>inputs/env-files.ts\<close>: two workspaces' fingerprints are equal exactly
  when what they depend on is, up to collisions of the hash. \<^verbatim>\<open>Narrowing\<close> models
  \<^verbatim>\<open>inputs/narrowed-inputs.ts\<close> and proves its incremental sets equal to the sets of a fresh start, and
  \<^verbatim>\<open>CurrentInputs\<close> what a query reads of all this (\<^verbatim>\<open>inputs/current-inputs.ts\<close>).

  \<^bold>\<open>Standings.\<close> \<^verbatim>\<open>Records\<close> holds the recorded runs and discoveries
  (\<^verbatim>\<open>vitest/run-states.ts\<close>, \<^verbatim>\<open>vitest/run-workspace.ts\<close>, \<^verbatim>\<open>vitest/discover-tests.ts\<close>,
  \<^verbatim>\<open>store/stored-records.ts\<close>), \<^verbatim>\<open>TestStates\<close> what a query answers of each test from them
  (\<^verbatim>\<open>query/test-states.ts\<close>, \<^verbatim>\<open>query/list-freshness.ts\<close>), \<^verbatim>\<open>TestLists\<close> the replacement of collected
  lists (\<^verbatim>\<open>vitest/test-lists.ts\<close>), \<^verbatim>\<open>ChangeJournal\<close> the journal that answers what changed since a
  cursor (\<^verbatim>\<open>daemon/change-journal.ts\<close>), and \<^verbatim>\<open>Answers\<close> the data, texts and bounds of the answers
  (\<^verbatim>\<open>query/answer.ts\<close>).

  \<^bold>\<open>Scheduling.\<close> \<^verbatim>\<open>DueWorkspaces\<close> models which workspaces are due and in which order
  (\<^verbatim>\<open>daemon/due-workspaces.ts\<close>), \<^verbatim>\<open>RunHistory\<close> and \<^verbatim>\<open>DiscoveryHistory\<close> what the scheduler remembers of
  its jobs (\<^verbatim>\<open>daemon/run-history.ts\<close>, \<^verbatim>\<open>daemon/discovery-history.ts\<close>), \<^verbatim>\<open>RunJudgment\<close> whether a run is
  kept (\<^verbatim>\<open>daemon/run-judgment.ts\<close>), \<^verbatim>\<open>RoundSelection\<close> a round's selection
  (\<^verbatim>\<open>daemon/round-selection.ts\<close>), \<^verbatim>\<open>Schedule\<close> the schedule answers read
  (\<^verbatim>\<open>daemon/workspace-schedule.ts\<close>), and \<^verbatim>\<open>Scheduler\<close> the decisions of \<^verbatim>\<open>daemon/scheduler.ts\<close> over
  all of them. \<^verbatim>\<open>SchedulerSteps\<close> makes its loop a state machine: a phase is where the loop awaits, an
  event what the awaited promise brings, and \<open>reachable\<close> the states any events lead to, each of which
  keeps the invariant of the histories. \<^verbatim>\<open>SchedulerBounds\<close> proves by a potential that at one revision of
  the inputs the loop comes to rest.

  \<^bold>\<open>The store.\<close> \<^verbatim>\<open>JsonParse\<close> gives \<^verbatim>\<open>JSON.parse\<close>, which reads back every well-formed value;
  \<^verbatim>\<open>Columns\<close> models \<^verbatim>\<open>store/columns.ts\<close>, the values a row holds and the readers that refuse what the
  writers never write; \<^verbatim>\<open>StoreSchema\<close> the tables and constraints of \<^verbatim>\<open>store/schema.ts\<close>, the transactions
  of \<^verbatim>\<open>store/transaction.ts\<close> and the bindings of \<^verbatim>\<open>store/stored-records.ts\<close>; \<^verbatim>\<open>StoredRuns\<close> and
  \<^verbatim>\<open>StoredDiscoveries\<close> the writers and readers of runs and of discoveries (\<^verbatim>\<open>store/write-run.ts\<close>,
  \<^verbatim>\<open>store/read-runs.ts\<close>, \<^verbatim>\<open>store/write-discovery.ts\<close>, \<^verbatim>\<open>store/read-discovery.ts\<close>). SQLite's part is
  stated once, in \<open>statement\<close>: a statement takes effect when what it leaves meets every constraint, and a
  transaction that throws leaves the tables as they were. \<^verbatim>\<open>StoreRoundTrip\<close>, \<^verbatim>\<open>StoreWrite\<close> and
  \<^verbatim>\<open>StoreDiscovery\<close> prove that every statement of a write meets the schema, that what is written reads
  back as it was, and that it takes the place of the earlier record of its subject and of no other.

  \<^bold>\<open>Defects.\<close> \<^verbatim>\<open>AnchorMatch\<close> models \<^verbatim>\<open>falsify/anchor-match.ts\<close>, how a mutation's text is found and
  replaced; \<^verbatim>\<open>GitIgnored\<close> \<^verbatim>\<open>selection/git-ignored.ts\<close>, with git's answers as an argument; \<^verbatim>\<open>DefinitionFiles\<close>,
  \<^verbatim>\<open>Definitions\<close> and \<^verbatim>\<open>ResolveDefinitions\<close> the walk that finds the definition files, the check of a definition
  and the test it names (\<^verbatim>\<open>defects/declared-settings.ts\<close>, \<^verbatim>\<open>defects/definition-files.ts\<close>,
  \<^verbatim>\<open>defects/definitions.ts\<close>, \<^verbatim>\<open>defects/resolve-definitions.ts\<close>). \<^verbatim>\<open>EvidenceFacts\<close>, \<^verbatim>\<open>DefectEvidence\<close> and
  \<^verbatim>\<open>EvidenceRoundTrip\<close> model what the store keeps of a falsification and gives back
  (\<^verbatim>\<open>store/evidence-facts.ts\<close>, \<^verbatim>\<open>store/defect-evidence.ts\<close>, \<^verbatim>\<open>store/kept-evidence.ts\<close>), where a stored
  verdict is judged again from the facts beside it; \<^verbatim>\<open>DefectStandings\<close> and \<^verbatim>\<open>WorktreeStandings\<close> the standing of
  each definition (\<^verbatim>\<open>defects/defect-standings.ts\<close>, \<^verbatim>\<open>defects/defect-states.ts\<close>,
  \<^verbatim>\<open>defects/worktree-standings.ts\<close>). Their lemmas say when a definition reads verified, down to the facts of the
  runs, and that no definition file is lost on the way.

  \<^bold>\<open>Queries and waits.\<close> \<^verbatim>\<open>Summary\<close> models the basis every answer is composed on and the answers over
  everything stored and over a path (\<^verbatim>\<open>query/summary.ts\<close>, \<^verbatim>\<open>query/path-status.ts\<close>,
  \<^verbatim>\<open>query/caller-paths.ts\<close>), \<^verbatim>\<open>WaitAnswers\<close> the workspaces that cover the files of a wait, when a wait
  settles and what its answer names (\<^verbatim>\<open>query/wait-answer.ts\<close>), and \<^verbatim>\<open>Waits\<close> the pending waits
  (\<^verbatim>\<open>daemon/waits.ts\<close>) as a state machine: an event is a call, a timer, a signal or what an awaited promise
  brings, with what the daemon reads then. Its lemmas say, in every state any events lead to, that each wait
  ends once, what a settled wait rests on, and which changed inputs a superseded one names.

  \<^bold>\<open>How the code is modelled.\<close> \<^verbatim>\<open>Prelude\<close> gives JavaScript maps as association lists and sets as
  lists, both in insertion order, and the string operations; \<^verbatim>\<open>Json\<close> gives \<^verbatim>\<open>JSON.stringify\<close> with
  the proof that it is injective, which keys built by it rest on. An object the source mutates is a
  record passed through; a thrown error is the left of a sum; an absent value is \<open>None\<close>; a promise is
  the identity of its wait. The contracts between components are locales, interpreted on the model:
  \<open>js_map\<close> on the association lists, \<open>accepting_itself\<close> on the two matchers of \<open>Glob\<close>, and
  \<open>dependents_walk\<close> on the walk of \<open>SelectTests\<close>.

  \<^bold>\<open>Bounds.\<close> The bounds are the source's: 1000 counted changes per subject, 100000 recorded
  changes, 256 patterns and 256 variable entries, 20 named changes, 3 runs whose own changes are
  followed. Every loop is a function with a proof that it ends, but two. The carried variables follow
  references with \<open>while_option\<close>, and a property says it ends on every environment. \<^verbatim>\<open>JSON.parse\<close> takes
  the length of its text as fuel, which is enough: each step reads a character, and the round trip is
  proved with that fuel. Characters stand for the code units 0 to 255, the host is POSIX,
  and a Windows path is looked at only where the source does so on every host. The integers of a row
  and of a stored JSON value are counts, sequences and indices, so they are \<open>nat\<close>; a JSON number with a
  sign or a fraction is refused where the code reads it as a number and then refuses it.

  \<^bold>\<open>What is not modelled.\<close> Driving Vitest, Vite and picomatch, SQLite's file, locks and recovery,
  sockets, processes, watchers and git are input and output, or calls of packages whose source is not
  part of the repository; the causes an error carries beside its message are left out. Of the daemon's own
  code the dependency graph (\<^verbatim>\<open>selection/workspace-graph.ts\<close> and the files it reads), the answers to a
  changes and a defects query (\<^verbatim>\<open>query/changes-answer.ts\<close>, \<^verbatim>\<open>query/defects-answer.ts\<close>) and the store's
  migrations (\<^verbatim>\<open>store/open-store.ts\<close>) are not modelled either: their inputs reach the theories as arguments.
\<close>

end
